(* ===== verification/Prelude.thy ===== *)
theory Prelude
  imports Main "HOL-Library.Word" "HOL-Library.Monad_Syntax"
begin

text \<open>
  Shared vocabulary of the development: the machine integers of the loader, bounds-checked
  access to byte memory, little-endian fields, and generic lemmas on lists.

  Memory is a list of bytes and a pointer is an index into it.  C leaves an access outside an
  object undefined; every access of the model is therefore checked, and a computation that
  would step outside its object is \<^term>\<open>None\<close>.  A theorem that a routine returns
  \<^term>\<open>Some x\<close> is thus also a proof that it stays inside its buffers.
\<close>

unbundle bit_operations_syntax

section \<open>Machine integers\<close>

type_synonym byte = "8 word"
type_synonym u16 = "16 word"
type_synonym u32 = "32 word"
type_synonym u64 = "64 word"

text \<open>A character constant of the C source as the byte it denotes.\<close>

abbreviation ch :: "char \<Rightarrow> byte" where
  "ch c \<equiv> of_char c"

named_theorems mem_simps \<open>rules for bounds-checked memory access\<close>
named_theorems field_simps_le \<open>rules for little-endian fields\<close>

section \<open>Checked access to memory\<close>

definition rd :: "'a list \<Rightarrow> nat \<Rightarrow> 'a option" where
  "rd m i = (if i < length m then Some (m ! i) else None)"

definition wr :: "'a list \<Rightarrow> nat \<Rightarrow> 'a \<Rightarrow> 'a list option" where
  "wr m i x = (if i < length m then Some (m[i := x]) else None)"

definition slice :: "'a list \<Rightarrow> nat \<Rightarrow> nat \<Rightarrow> 'a list option" where
  "slice m off n = (if off + n \<le> length m then Some (take n (drop off m)) else None)"

definition put :: "'a list \<Rightarrow> nat \<Rightarrow> 'a list \<Rightarrow> 'a list" where
  "put m off ys = take off m @ ys @ drop (off + length ys) m"

definition store :: "'a list \<Rightarrow> nat \<Rightarrow> 'a list \<Rightarrow> 'a list option" where
  "store m off ys = (if off + length ys \<le> length m then Some (put m off ys) else None)"

lemma rd_Some_iff [mem_simps]: "rd m i = Some x \<longleftrightarrow> i < length m \<and> m ! i = x"
  by (auto simp: rd_def)

lemma rd_None_iff [mem_simps]: "rd m i = None \<longleftrightarrow> length m \<le> i"
  by (auto simp: rd_def)

lemma rd_in [simp]: "i < length m \<Longrightarrow> rd m i = Some (m ! i)"
  by (simp add: rd_def)

lemma wr_in [simp]: "i < length m \<Longrightarrow> wr m i x = Some (m[i := x])"
  by (simp add: wr_def)

lemma wr_Some_iff [mem_simps]: "wr m i x = Some m' \<longleftrightarrow> i < length m \<and> m' = m[i := x]"
  by (auto simp: wr_def)

lemma slice_Some_iff [mem_simps]:
  "slice m off n = Some ys \<longleftrightarrow> off + n \<le> length m \<and> ys = take n (drop off m)"
  by (auto simp: slice_def)

lemma store_Some_iff [mem_simps]:
  "store m off ys = Some m' \<longleftrightarrow> off + length ys \<le> length m \<and> m' = put m off ys"
  by (auto simp: store_def)

lemma slice_in [simp]: "off + n \<le> length m \<Longrightarrow> slice m off n = Some (take n (drop off m))"
  by (simp add: slice_def)

lemma store_in [simp]: "off + length ys \<le> length m \<Longrightarrow> store m off ys = Some (put m off ys)"
  by (simp add: store_def)

lemma length_slice: "slice m off n = Some ys \<Longrightarrow> length ys = n"
  by (auto simp: slice_def split: if_splits)

lemma length_put [simp]: "off + length ys \<le> length m \<Longrightarrow> length (put m off ys) = length m"
  by (simp add: put_def)

lemma put_Nil [simp]: "put m off [] = m"
  by (simp add: put_def)

lemma nth_put:
  assumes "off + length ys \<le> length m" "i < length m"
  shows "put m off ys ! i = (if off \<le> i \<and> i < off + length ys then ys ! (i - off) else m ! i)"
  using assms by (auto simp: put_def nth_append)

lemma put_Cons:
  assumes "off < length m"
  shows "put (m[off := y]) (Suc off) ys = put m off (y # ys)"
  using assms by (simp add: put_def take_Suc_conv_app_nth)

lemma slice_put_same [simp]:
  "off + length ys \<le> length m \<Longrightarrow> slice (put m off ys) off (length ys) = Some ys"
  by (simp add: slice_def put_def)

lemma slice_put_other:
  assumes "off + length ys \<le> length m" "off' + n \<le> off \<or> off + length ys \<le> off'"
  shows "slice (put m off ys) off' n = slice m off' n"
proof (cases "off' + n \<le> length m")
  case True
  have "take n (drop off' (put m off ys)) = take n (drop off' m)"
    by (rule nth_equalityI) (use assms True in \<open>auto simp: nth_put\<close>)
  with True assms(1) show ?thesis by (simp add: slice_def)
qed (use assms(1) in \<open>simp add: slice_def\<close>)

section \<open>Exclusive or\<close>

lemma xor_cancel_right: "a XOR c = b XOR c \<longleftrightarrow> a = b" for a b c :: "'a::len word"
  by (metis xor.assoc xor_self_eq xor.right_neutral)

lemma xor_cancel_left: "c XOR a = c XOR b \<longleftrightarrow> a = b" for a b c :: "'a::len word"
  by (simp add: xor.commute [of c] xor_cancel_right)

section \<open>Little-endian fields\<close>

fun le_nat :: "byte list \<Rightarrow> nat" where
  "le_nat [] = 0"
| "le_nat (b # bs) = unat b + 256 * le_nat bs"

fun le_bytes :: "nat \<Rightarrow> nat \<Rightarrow> byte list" where
  "le_bytes 0 x = []"
| "le_bytes (Suc n) x = word_of_nat x # le_bytes n (x div 256)"

text \<open>The unsigned integer of \<open>n\<close> bytes stored at offset \<open>off\<close>.\<close>

definition le_field :: "byte list \<Rightarrow> nat \<Rightarrow> nat \<Rightarrow> 'a::len word option" where
  "le_field m off n = map_option (\<lambda>bs. word_of_nat (le_nat bs)) (slice m off n)"

lemma byte_lt_256: "unat (b :: byte) < 256"
proof -
  have "unat b < 2 ^ LENGTH(8)" by (rule unsigned_less)
  then show ?thesis by simp
qed

lemma length_le_bytes [simp]: "length (le_bytes n x) = n"
  by (induction n arbitrary: x) auto

lemma le_nat_bound: "le_nat bs < 256 ^ length bs"
proof (induction bs)
  case (Cons b bs)
  have "unat b < 256" by (rule byte_lt_256)
  with Cons show ?case by simp
qed simp

lemma le_nat_le_bytes [field_simps_le]: "le_nat (le_bytes n x) = x mod 256 ^ n"
proof (induction n arbitrary: x)
  case (Suc n)
  have "unat (word_of_nat x :: byte) = x mod 256"
    by (simp add: unat_of_nat)
  then show ?case by (simp add: Suc mod_mult2_eq)
qed simp

lemma le_bytes_le_nat [field_simps_le]: "le_bytes (length bs) (le_nat bs) = bs"
proof (induction bs)
  case (Cons b bs)
  have zero: "(256 :: byte) = 0" by simp
  have "word_of_nat (unat b + 256 * le_nat bs) = b"
    by (simp add: zero)
  with Cons show ?case using byte_lt_256 [of b] by simp
qed simp

lemma le_nat_inj: "length xs = length ys \<Longrightarrow> le_nat xs = le_nat ys \<Longrightarrow> xs = ys"
  by (metis le_bytes_le_nat)

lemma word_of_nat_le_bytes [field_simps_le]:
  fixes w :: "'a::len word"
  assumes "LENGTH('a) \<le> 8 * n"
  shows "word_of_nat (le_nat (le_bytes n (unat w))) = w"
proof -
  have "unat w < 2 ^ LENGTH('a)" by simp
  also have "\<dots> \<le> 2 ^ (8 * n)" using assms by (intro power_increasing) auto
  finally have "unat w < 256 ^ n" by (simp add: power_mult)
  then show ?thesis by (simp add: le_nat_le_bytes)
qed

section \<open>Words of a line\<close>

text \<open>Strings separated by single spaces.\<close>

fun join :: "byte list list \<Rightarrow> byte list" where
  "join [] = []"
| "join [w] = w"
| "join (w # ws) = w @ 32 # join ws"

lemma set_join: "set (join ws) \<subseteq> \<Union> (set ` set ws) \<union> {32}"
  by (induction ws rule: join.induct) auto

lemma join_Cons: "join (w # ws) = (if ws = [] then w else w @ 32 # join ws)"
  by (cases ws) auto

lemma put_put_adjacent:
  assumes "off + length xs \<le> length m"
  shows "put (put m off xs) (off + length xs) ys = put m off (xs @ ys)"
  using assms by (simp add: put_def add.assoc) (simp add: ac_simps)

lemma length_tl_dropWhile: "xs \<noteq> [] \<Longrightarrow> length (dropWhile P xs) - Suc 0 < length xs"
proof -
  assume "xs \<noteq> []"
  then have "0 < length xs" by simp
  moreover have "length (dropWhile P xs) \<le> length xs" by (rule length_dropWhile_le)
  ultimately show ?thesis by linarith
qed

text \<open>A small unsigned value read as a signed one.\<close>

lemma sint_u64: "unat x < 2 ^ 63 \<Longrightarrow> sint x = int (unat x)" for x :: u64
proof -
  assume x: "unat x < 2 ^ 63"
  have u: "uint x = int (unat x)" by simp
  have "int (unat x) < int (2 ^ 63)" using x by (simp only: of_nat_less_iff)
  then have "uint x < 2 ^ 63" unfolding u by simp
  moreover have "- (2 ^ 63) \<le> uint x" by (rule order_trans [of _ 0]) simp_all
  ultimately have "signed_take_bit 63 (uint x) = uint x" by (intro signed_take_bit_int_eq_self)
  then show "sint x = int (unat x)" unfolding u [symmetric] sint_uint by simp
qed

end
