(* ===== verification/Crc32.thy ===== *)
theory Crc32
  imports Prelude
begin

text \<open>
  \<^verbatim>\<open>boot/common/crc32.c\<close>: the table-driven CRC-32 that guards the GPT header and the
  GPT partition table.  The table is transcribed; the theorems show that it is the table the
  comment describes (eight shift/xor steps of the polynomial for every byte), that the
  table-driven loop computes the bit-serial CRC, and that a corruption confined to four
  consecutive bytes always changes the checksum.
\<close>

unbundle bit_operations_syntax

section \<open>The code\<close>

definition crc32_tab :: "u32 list" where
  "crc32_tab =
    [0x00000000, 0x77073096, 0xee0e612c, 0x990951ba, 0x076dc419, 0x706af48f,
     0xe963a535, 0x9e6495a3, 0x0edb8832, 0x79dcb8a4, 0xe0d5e91e, 0x97d2d988,
     0x09b64c2b, 0x7eb17cbd, 0xe7b82d07, 0x90bf1d91, 0x1db71064, 0x6ab020f2,
     0xf3b97148, 0x84be41de, 0x1adad47d, 0x6ddde4eb, 0xf4d4b551, 0x83d385c7,
     0x136c9856, 0x646ba8c0, 0xfd62f97a, 0x8a65c9ec, 0x14015c4f, 0x63066cd9,
     0xfa0f3d63, 0x8d080df5, 0x3b6e20c8, 0x4c69105e, 0xd56041e4, 0xa2677172,
     0x3c03e4d1, 0x4b04d447, 0xd20d85fd, 0xa50ab56b, 0x35b5a8fa, 0x42b2986c,
     0xdbbbc9d6, 0xacbcf940, 0x32d86ce3, 0x45df5c75, 0xdcd60dcf, 0xabd13d59,
     0x26d930ac, 0x51de003a, 0xc8d75180, 0xbfd06116, 0x21b4f4b5, 0x56b3c423,
     0xcfba9599, 0xb8bda50f, 0x2802b89e, 0x5f058808, 0xc60cd9b2, 0xb10be924,
     0x2f6f7c87, 0x58684c11, 0xc1611dab, 0xb6662d3d, 0x76dc4190, 0x01db7106,
     0x98d220bc, 0xefd5102a, 0x71b18589, 0x06b6b51f, 0x9fbfe4a5, 0xe8b8d433,
     0x7807c9a2, 0x0f00f934, 0x9609a88e, 0xe10e9818, 0x7f6a0dbb, 0x086d3d2d,
     0x91646c97, 0xe6635c01, 0x6b6b51f4, 0x1c6c6162, 0x856530d8, 0xf262004e,
     0x6c0695ed, 0x1b01a57b, 0x8208f4c1, 0xf50fc457, 0x65b0d9c6, 0x12b7e950,
     0x8bbeb8ea, 0xfcb9887c, 0x62dd1ddf, 0x15da2d49, 0x8cd37cf3, 0xfbd44c65,
     0x4db26158, 0x3ab551ce, 0xa3bc0074, 0xd4bb30e2, 0x4adfa541, 0x3dd895d7,
     0xa4d1c46d, 0xd3d6f4fb, 0x4369e96a, 0x346ed9fc, 0xad678846, 0xda60b8d0,
     0x44042d73, 0x33031de5, 0xaa0a4c5f, 0xdd0d7cc9, 0x5005713c, 0x270241aa,
     0xbe0b1010, 0xc90c2086, 0x5768b525, 0x206f85b3, 0xb966d409, 0xce61e49f,
     0x5edef90e, 0x29d9c998, 0xb0d09822, 0xc7d7a8b4, 0x59b33d17, 0x2eb40d81,
     0xb7bd5c3b, 0xc0ba6cad, 0xedb88320, 0x9abfb3b6, 0x03b6e20c, 0x74b1d29a,
     0xead54739, 0x9dd277af, 0x04db2615, 0x73dc1683, 0xe3630b12, 0x94643b84,
     0x0d6d6a3e, 0x7a6a5aa8, 0xe40ecf0b, 0x9309ff9d, 0x0a00ae27, 0x7d079eb1,
     0xf00f9344, 0x8708a3d2, 0x1e01f268, 0x6906c2fe, 0xf762575d, 0x806567cb,
     0x196c3671, 0x6e6b06e7, 0xfed41b76, 0x89d32be0, 0x10da7a5a, 0x67dd4acc,
     0xf9b9df6f, 0x8ebeeff9, 0x17b7be43, 0x60b08ed5, 0xd6d6a3e8, 0xa1d1937e,
     0x38d8c2c4, 0x4fdff252, 0xd1bb67f1, 0xa6bc5767, 0x3fb506dd, 0x48b2364b,
     0xd80d2bda, 0xaf0a1b4c, 0x36034af6, 0x41047a60, 0xdf60efc3, 0xa867df55,
     0x316e8eef, 0x4669be79, 0xcb61b38c, 0xbc66831a, 0x256fd2a0, 0x5268e236,
     0xcc0c7795, 0xbb0b4703, 0x220216b9, 0x5505262f, 0xc5ba3bbe, 0xb2bd0b28,
     0x2bb45a92, 0x5cb36a04, 0xc2d7ffa7, 0xb5d0cf31, 0x2cd99e8b, 0x5bdeae1d,
     0x9b64c2b0, 0xec63f226, 0x756aa39c, 0x026d930a, 0x9c0906a9, 0xeb0e363f,
     0x72076785, 0x05005713, 0x95bf4a82, 0xe2b87a14, 0x7bb12bae, 0x0cb61b38,
     0x92d28e9b, 0xe5d5be0d, 0x7cdcefb7, 0x0bdbdf21, 0x86d3d2d4, 0xf1d4e242,
     0x68ddb3f8, 0x1fda836e, 0x81be16cd, 0xf6b9265b, 0x6fb077e1, 0x18b74777,
     0x88085ae6, 0xff0f6a70, 0x66063bca, 0x11010b5c, 0x8f659eff, 0xf862ae69,
     0x616bffd3, 0x166ccf45, 0xa00ae278, 0xd70dd2ee, 0x4e048354, 0x3903b3c2,
     0xa7672661, 0xd06016f7, 0x4969474d, 0x3e6e77db, 0xaed16a4a, 0xd9d65adc,
     0x40df0b66, 0x37d83bf0, 0xa9bcae53, 0xdebb9ec5, 0x47b2cf7f, 0x30b5ffe9,
     0xbdbdf21c, 0xcabac28a, 0x53b39330, 0x24b4a3a6, 0xbad03605, 0xcdd70693,
     0x54de5729, 0x23d967bf, 0xb3667a2e, 0xc4614ab8, 0x5d681b02, 0x2a6f2b94,
     0xb40bbe37, 0xc30c8ea1, 0x5a05df1b, 0x2d02ef8d]"

text \<open>One round of the \<^verbatim>\<open>while (size--)\<close> loop body.\<close>

definition crc32_step :: "u32 \<Rightarrow> byte \<Rightarrow> u32" where
  "crc32_step crc b = crc32_tab ! unat ((crc XOR ucast b) AND 0xFF) XOR drop_bit 8 crc"

text \<open>The loop itself; \<^term>\<open>None\<close> when it reads past the buffer.\<close>

fun crc32_loop :: "u32 \<Rightarrow> byte list \<Rightarrow> nat \<Rightarrow> u32 option" where
  "crc32_loop crc p 0 = Some crc"
| "crc32_loop crc [] (Suc n) = None"
| "crc32_loop crc (b # p) (Suc n) = crc32_loop (crc32_step crc b) p n"

definition crc32 :: "byte list \<Rightarrow> nat \<Rightarrow> u32 option" where
  "crc32 buf sz = map_option (\<lambda>crc. crc XOR NOT 0) (crc32_loop (NOT 0) buf sz)"

section \<open>The bit-serial reference\<close>

text \<open>The shift register of the comment: polynomial \<open>0xedb88320\<close>, shifting to the right.\<close>

definition crc_bit :: "u32 \<Rightarrow> u32" where
  "crc_bit c = (if bit c 0 then drop_bit 1 c XOR 0xedb88320 else drop_bit 1 c)"

definition crc_byte :: "u32 \<Rightarrow> byte \<Rightarrow> u32" where
  "crc_byte c b = (crc_bit ^^ 8) (c XOR ucast b)"

definition crc32_ref :: "byte list \<Rightarrow> u32" where
  "crc32_ref bs = NOT (foldl crc_byte (NOT 0) bs)"


section \<open>Linearity and injectivity of the shift register\<close>

lemma crc_bit_xor: "crc_bit (a XOR b) = crc_bit a XOR crc_bit b"
  by (rule bit_word_eqI) (auto simp: crc_bit_def bit_simps)

lemma crc_bits_xor: "(crc_bit ^^ n) (a XOR b) = (crc_bit ^^ n) a XOR (crc_bit ^^ n) b"
  by (induction n) (simp_all add: crc_bit_xor)

lemma crc_bits_shift:
  "(\<And>i. i < n \<Longrightarrow> \<not> bit y i) \<Longrightarrow> (crc_bit ^^ n) y = drop_bit n y"
proof (induction n)
  case (Suc n)
  then have "(crc_bit ^^ n) y = drop_bit n y" by simp
  moreover have "\<not> bit (drop_bit n y) 0" using Suc.prems [of n] by (simp add: bit_simps)
  ultimately show ?case
    by (simp add: crc_bit_def [of "drop_bit n y"] drop_bit_drop_bit add.commute)
qed simp

lemma inj_crc_bit: "inj crc_bit"
proof (rule injI)
  fix a b assume eq: "crc_bit a = crc_bit b"
  have top: "bit (crc_bit x) 31 = bit x 0" for x
    using bit_imp_le_length [of x 32] by (auto simp: crc_bit_def bit_simps)
  have "bit a 0 = bit b 0" using top [of a] top [of b] eq by simp
  moreover from this have "drop_bit 1 a = drop_bit 1 b"
    using eq by (auto simp: crc_bit_def xor_cancel_right split: if_splits)
  then have "bit a (Suc n) = bit b (Suc n)" for n
    by (metis bit_drop_bit_eq comp_apply plus_1_eq_Suc)
  ultimately have "bit a n = bit b n" for n by (cases n) auto
  then show "a = b" by (rule bit_word_eqI)
qed

lemma inj_crc_bits: "inj (crc_bit ^^ n)"
proof (induction n)
  case (Suc n)
  then have "inj (crc_bit \<circ> (crc_bit ^^ n))" by (intro inj_compose inj_crc_bit)
  then show ?case by (simp add: comp_def)
qed simp

section \<open>The table\<close>

text \<open>The entries at even and at odd positions.\<close>

fun evens :: "'a list \<Rightarrow> 'a list" where
  "evens (x # y # xs) = x # evens xs"
| "evens [x] = [x]"
| "evens [] = []"

fun odds :: "'a list \<Rightarrow> 'a list" where
  "odds (x # y # xs) = y # odds xs"
| "odds xs = []"

lemma evens_nth: "2 * j < length xs \<Longrightarrow> evens xs ! j = xs ! (2 * j)"
  by (induction xs arbitrary: j rule: evens.induct) (auto simp: nth_Cons split: nat.splits)

lemma odds_nth: "2 * j + 1 < length xs \<Longrightarrow> odds xs ! j = xs ! (2 * j + 1)"
  by (induction xs arbitrary: j rule: odds.induct) (auto simp: nth_Cons split: nat.splits)

lemma length_evens: "length (evens xs) = (length xs + 1) div 2"
  by (induction xs rule: evens.induct) auto

lemma length_crc32_tab: "length crc32_tab = 256"
  by (simp add: crc32_tab_def)

lemma crc32_tab_evens: "map crc_bit (evens crc32_tab) = take 128 crc32_tab"
  by (simp add: crc32_tab_def crc_bit_def)

lemma crc32_tab_odds: "odds crc32_tab = map (\<lambda>x. x XOR 0x77073096) (evens crc32_tab)"
  by (simp add: crc32_tab_def)

lemma crc_bit_double:
  assumes "j < 128"
  shows "crc_bit (word_of_nat (2 * j)) = word_of_nat j"
proof -
  have "drop_bit 1 (word_of_nat (2 * j) :: u32) = word_of_nat j"
    using assms by (simp add: drop_bit_eq_div word_unat_eq_iff unat_div unat_of_nat del: of_nat_mult)
  moreover have "\<not> bit (word_of_nat (2 * j) :: u32) 0"
    by (simp add: bit_0)
  ultimately show ?thesis by (simp add: crc_bit_def)
qed

lemma xor_one_even: "word_of_nat (2 * j) XOR 1 = (word_of_nat (2 * j + 1) :: u32)"
  by (simp add: xor_one_eq)

lemma crc32_tab_nth: "i < 256 \<Longrightarrow> crc32_tab ! i = (crc_bit ^^ 8) (word_of_nat i)"
proof (induction i rule: less_induct)
  case (less i)
  have one: "(crc_bit ^^ 8) 1 = 0x77073096" by code_simp
  have even_step: "crc32_tab ! (2 * j) = (crc_bit ^^ 8) (word_of_nat (2 * j))"
    if j: "j < 128" and IH: "crc32_tab ! j = (crc_bit ^^ 8) (word_of_nat j)" for j
  proof -
    have "crc_bit (crc32_tab ! (2 * j)) = crc32_tab ! j"
      using j arg_cong [OF crc32_tab_evens, of "\<lambda>xs. xs ! j"]
      by (simp add: length_evens length_crc32_tab evens_nth)
    also have "crc_bit (word_of_nat (2 * j)) = word_of_nat j"
      using j by (rule crc_bit_double)
    then have "(crc_bit ^^ 8) (word_of_nat j) = crc_bit ((crc_bit ^^ 8) (word_of_nat (2 * j)))"
      by (simp add: funpow_swap1)
    ultimately show ?thesis using IH inj_crc_bit by (simp add: inj_eq)
  qed
  show ?case
  proof (cases "i = 0")
    case True
    have "(crc_bit ^^ 8) 0 = 0" by code_simp
    then show ?thesis using True by (simp add: crc32_tab_def)
  next
    case False
    define j where "j = i div 2"
    have j: "j < i" "j < 128" using False less.prems by (auto simp: j_def)
    have ev: "crc32_tab ! (2 * j) = (crc_bit ^^ 8) (word_of_nat (2 * j))"
      using j less by (intro even_step) auto
    have "i = 2 * j \<or> i = 2 * j + 1" unfolding j_def by presburger
    then consider "i = 2 * j" | "i = 2 * j + 1" by blast
    then show ?thesis
    proof cases
      case 2
      have "crc32_tab ! i = crc32_tab ! (2 * j) XOR 0x77073096"
        using 2 less.prems arg_cong [OF crc32_tab_odds, of "\<lambda>xs. xs ! j"]
        by (simp add: odds_nth evens_nth length_evens length_crc32_tab)
      also have "\<dots> = (crc_bit ^^ 8) (word_of_nat (2 * j) XOR 1)"
        by (simp only: ev one crc_bits_xor)
      also have "word_of_nat (2 * j) XOR 1 = (word_of_nat i :: u32)"
        unfolding 2 by (rule xor_one_even)
      finally show ?thesis .
    qed (use ev in simp)
  qed
qed

section \<open>The table-driven step is the bit-serial step\<close>

lemma crc32_step_eq: "crc32_step c b = crc_byte c b"
proof -
  define x where "x = c XOR ucast b"
  define lo where "lo = x AND 0xFF"
  define hi where "hi = x AND NOT 0xFF"
  have split: "x = lo XOR hi"
    by (rule bit_word_eqI) (auto simp: lo_def hi_def bit_simps)
  have lo: "lo = take_bit 8 x" by (simp add: lo_def take_bit_eq_mask mask_numeral)
  have "unat lo < 2 ^ 8" unfolding lo unsigned_take_bit_eq by (rule take_bit_nat_less_exp)
  then have tab: "crc32_tab ! unat lo = (crc_bit ^^ 8) lo"
    by (simp add: crc32_tab_nth)
  have ff: "(0xFF :: u32) = mask 8" by (simp add: mask_numeral)
  have "\<not> bit hi i" if "i < 8" for i
    using that by (simp add: hi_def ff bit_simps)
  then have "(crc_bit ^^ 8) hi = drop_bit 8 hi" by (rule crc_bits_shift)
  also have "\<dots> = drop_bit 8 c"
    by (rule bit_word_eqI) (auto simp: hi_def x_def ff bit_simps dest: bit_imp_le_length)
  finally have "crc32_tab ! unat lo XOR drop_bit 8 c = (crc_bit ^^ 8) (lo XOR hi)"
    by (simp only: tab crc_bits_xor)
  then show ?thesis
    unfolding split [symmetric] by (simp add: crc32_step_def crc_byte_def x_def lo_def)
qed

lemma crc32_loop_eq:
  "crc32_loop c p n = (if n \<le> length p then Some (foldl crc_byte c (take n p)) else None)"
  by (induction c p n rule: crc32_loop.induct) (auto simp: crc32_step_eq)

section \<open>Burst errors\<close>

lemma inj_crc_byte: "crc_byte c b = crc_byte d b \<longleftrightarrow> c = d"
  by (simp add: crc_byte_def inj_eq [OF inj_crc_bits] xor_cancel_right)

lemma inj_foldl_crc_byte: "foldl crc_byte c bs = foldl crc_byte d bs \<longleftrightarrow> c = d"
  by (induction bs arbitrary: c d) (auto simp: inj_crc_byte)

lemma le_word_Cons:
  "word_of_nat (le_nat (b # bs)) = ucast b XOR push_bit 8 (word_of_nat (le_nat bs) :: u32)"
proof -
  let ?x = "ucast b :: u32" and ?y = "push_bit 8 (word_of_nat (le_nat bs)) :: u32"
  have "?x AND ?y = 0"
    by (rule bit_word_eqI) (auto simp: bit_simps dest: bit_imp_le_length)
  then have "?x + ?y = ?x OR ?y" "?x OR ?y = ?x XOR ?y"
    by (auto simp: disjunctive_add_eq_or disjunctive_xor_eq_or)
  then show ?thesis
    by (simp add: push_bit_eq_mult mult.commute)
qed

text \<open>Up to four bytes act on the register as one little-endian word.\<close>

lemma foldl_crc_byte_word:
  "length bs \<le> 4 \<Longrightarrow>
   foldl crc_byte c bs = (crc_bit ^^ (8 * length bs)) (c XOR word_of_nat (le_nat bs))"
proof (induction bs arbitrary: c)
  case (Cons b bs)
  let ?y = "word_of_nat (le_nat bs) :: u32"
  have "le_nat bs < 256 ^ length bs" by (rule le_nat_bound)
  also have "\<dots> \<le> 256 ^ 3" using Cons.prems by (intro power_increasing) auto
  finally have "unat ?y < 2 ^ 24" by (simp add: unat_of_nat)
  then have t: "take_bit 24 ?y = ?y"
    by (simp add: word_unat_eq_iff unsigned_take_bit_eq take_bit_nat_eq_self)
  have "n < 24" if "bit ?y n" for n
    using that by (subst (asm) t [symmetric]) (simp add: bit_simps)
  then have y: "drop_bit 8 (push_bit 8 ?y) = ?y"
    by (intro bit_word_eqI) (auto simp: bit_simps)
  have "(crc_bit ^^ 8) (push_bit 8 ?y) = ?y"
    by (subst crc_bits_shift) (auto simp: bit_simps y)
  then have "crc_byte c b XOR ?y = (crc_bit ^^ 8) (c XOR (ucast b XOR push_bit 8 ?y))"
    by (simp add: crc_byte_def crc_bits_xor ac_simps)
  moreover have e: "8 * length (b # bs) = 8 * length bs + 8" by simp
  ultimately show ?case using Cons unfolding e funpow_add
    by (simp add: le_word_Cons del: le_nat.simps)
qed simp

section \<open>Properties\<close>

text \<open>
  C2: on every buffer and every length that lies inside it, the table-driven \<open>crc32\<close> returns
  the bit-serial CRC-32 of the first \<open>n\<close> bytes; on a longer length it reads past the buffer.
\<close>

theorem crc32_table_driven:
  "crc32 buf n = (if n \<le> length buf then Some (crc32_ref (take n buf)) else None)"
  by (simp add: crc32_def crc32_loop_eq crc32_ref_def)

text \<open>
  C3: two blocks that differ only inside one run of at most four consecutive bytes never have
  the same checksum, so every burst error of up to 32 bits in a GPT header or table is detected.
\<close>

theorem crc32_detects_burst:
  assumes "length us = length vs" "length us \<le> 4" "us \<noteq> vs"
    and "n = length (xs @ us @ zs)"
  shows "crc32 (xs @ us @ zs) n \<noteq> crc32 (xs @ vs @ zs) n"
proof -
  let ?c = "foldl crc_byte (NOT 0) xs"
  have b4: "le_nat bs < 2 ^ 32" if "length bs \<le> 4" for bs
  proof -
    have "le_nat bs < 256 ^ length bs" by (rule le_nat_bound)
    also have "\<dots> \<le> 256 ^ 4" using that by (intro power_increasing) auto
    finally show ?thesis by simp
  qed
  have "le_nat us \<noteq> le_nat vs" using assms(1,3) le_nat_inj by blast
  then have "(word_of_nat (le_nat us) :: u32) \<noteq> word_of_nat (le_nat vs)"
    using b4 [of us] b4 [of vs] assms(1,2) by (simp add: word_of_nat_eq_iff take_bit_nat_eq_self)
  then have "foldl crc_byte ?c us \<noteq> foldl crc_byte ?c vs"
    using assms(1,2) by (simp add: foldl_crc_byte_word inj_eq [OF inj_crc_bits] xor_cancel_left)
  then show ?thesis
    using assms(1,4) by (simp add: crc32_def crc32_loop_eq inj_foldl_crc_byte xor_cancel_right)
qed

theorem crc32_detects_burst_witness:
  "crc32 ([1] @ [2, 3] @ [4]) 4 \<noteq> crc32 ([1] @ [2, 7] @ [4]) 4"
  by (rule crc32_detects_burst) simp_all

end
