(* ===== verification/Util.thy ===== *)
theory Util
  imports Prelude
begin

text \<open>
  \<^verbatim>\<open>boot/common/util.c\<close>: the memory, string and output routines that the first-stage
  loaders (\<^verbatim>\<open>gptboot\<close>, \<^verbatim>\<open>zfsboot\<close>) link instead of libstand.  Both pointer arguments of a
  routine are addresses of one flat memory, so overlapping operands are part of the model.
  A loop that would leave the memory gives \<^term>\<open>None\<close>.
\<close>

section \<open>Memory\<close>

fun memcpy_loop :: "byte list \<Rightarrow> nat \<Rightarrow> nat \<Rightarrow> nat \<Rightarrow> byte list option" where
  "memcpy_loop m d s 0 = Some m"
| "memcpy_loop m d s (Suc n) = do {
     c \<leftarrow> rd m s;
     m' \<leftarrow> wr m d c;
     memcpy_loop m' (Suc d) (Suc s) n
   }"

text \<open>\<^verbatim>\<open>while (len--)\<close> on a negative \<open>int\<close> counts down past every object.\<close>

definition memcpy :: "byte list \<Rightarrow> nat \<Rightarrow> nat \<Rightarrow> int \<Rightarrow> byte list option" where
  "memcpy m dst src len = (if len < 0 then None else memcpy_loop m dst src (nat len))"

fun memset :: "byte list \<Rightarrow> nat \<Rightarrow> int \<Rightarrow> nat \<Rightarrow> byte list option" where
  "memset m b c 0 = Some m"
| "memset m b c (Suc n) = do {
     m' \<leftarrow> wr m b (word_of_int c);
     memset m' (Suc b) c n
   }"

fun memcmp :: "byte list \<Rightarrow> nat \<Rightarrow> nat \<Rightarrow> nat \<Rightarrow> int option" where
  "memcmp m p1 p2 0 = Some 0"
| "memcmp m p1 p2 (Suc n) = do {
     a \<leftarrow> rd m p1;
     b \<leftarrow> rd m p2;
     if a \<noteq> b then Some (uint a - uint b) else memcmp m (Suc p1) (Suc p2) n
   }"

section \<open>Strings\<close>

function strcmp :: "byte list \<Rightarrow> nat \<Rightarrow> nat \<Rightarrow> int option" where
  "strcmp m s1 s2 = do {
     a \<leftarrow> rd m s1;
     b \<leftarrow> rd m s2;
     if a = b \<and> a \<noteq> 0 then strcmp m (Suc s1) (Suc s2) else Some (uint a - uint b)
   }"
  by pat_completeness auto
termination
  by (relation "measure (\<lambda>(m, s1, s2). length m - s1)") (auto simp: mem_simps)

function strncmp :: "byte list \<Rightarrow> nat \<Rightarrow> nat \<Rightarrow> nat \<Rightarrow> int option" where
  "strncmp m s1 s2 len = do {
     a \<leftarrow> rd m s1;
     b \<leftarrow> rd m s2;
     if a = b \<and> a \<noteq> 0 \<and> len > 0 then strncmp m (Suc s1) (Suc s2) (len - 1)
     else Some (uint a - uint b)
   }"
  by pat_completeness auto
termination
  by (relation "measure (\<lambda>(m, s1, s2, len). length m - s1)") (auto simp: mem_simps)

function strcpy :: "byte list \<Rightarrow> nat \<Rightarrow> nat \<Rightarrow> byte list option" where
  "strcpy m dst src = do {
     c \<leftarrow> rd m src;
     if c \<noteq> 0 then do {
       m' \<leftarrow> wr m dst c;
       strcpy m' (Suc dst) (Suc src)
     } else wr m dst 0
   }"
  by pat_completeness auto
termination
  by (relation "measure (\<lambda>(m, dst, src). length m - src)") (auto simp: mem_simps)

text \<open>\<^verbatim>\<open>strcat\<close>: after the scan for the terminator the code repeats the loop of
  \<^verbatim>\<open>strcpy\<close>.\<close>

function strcat :: "byte list \<Rightarrow> nat \<Rightarrow> nat \<Rightarrow> byte list option" where
  "strcat m dst src = do {
     c \<leftarrow> rd m dst;
     if c \<noteq> 0 then strcat m (Suc dst) src else strcpy m dst src
   }"
  by pat_completeness auto
termination
  by (relation "measure (\<lambda>(m, dst, src). length m - dst)") (auto simp: mem_simps)

text \<open>The inner option of \<open>strchr\<close> is the returned pointer, \<^term>\<open>None\<close> for \<^verbatim>\<open>NULL\<close>.\<close>

function strchr :: "byte list \<Rightarrow> nat \<Rightarrow> byte \<Rightarrow> nat option option" where
  "strchr m s x = do {
     c \<leftarrow> rd m s;
     if c \<noteq> 0 then (if c = x then Some (Some s) else strchr m (Suc s) x) else Some None
   }"
  by pat_completeness auto
termination
  by (relation "measure (\<lambda>(m, s, x). length m - s)") (auto simp: mem_simps)

function strlen :: "byte list \<Rightarrow> nat \<Rightarrow> nat option" where
  "strlen m s = do {
     c \<leftarrow> rd m s;
     if c \<noteq> 0 then map_option Suc (strlen m (Suc s)) else Some 0
   }"
  by pat_completeness auto
termination
  by (relation "measure (\<lambda>(m, s). length m - s)") (auto simp: mem_simps)

declare strcmp.simps [simp del] strncmp.simps [simp del] strcpy.simps [simp del]
  strcat.simps [simp del] strchr.simps [simp del] strlen.simps [simp del]

section \<open>Formatted output\<close>

text \<open>
  The variadic arguments by the type with which \<^verbatim>\<open>va_arg\<close> must fetch them (the loaders are
  32-bit programs: \<open>long\<close> has 32 bits).  A string argument is the memory from its pointer on.
\<close>

datatype varg = Uint u32 | Ulong u32 | Ullong u64 | Str "byte list"

fun dec_digits :: "nat \<Rightarrow> byte list" where
  "dec_digits u =
     (ch (CHR ''0'') + word_of_nat (u mod 10)) #
     (if u div 10 \<noteq> 0 then dec_digits (u div 10) else [])"

definition hex :: "byte list" where
  "hex = map of_char ''0123456789abcdef''"

fun hex_digits :: "nat \<Rightarrow> byte list" where
  "hex_digits u =
     (hex ! (u mod 16)) # (if u div 16 \<noteq> 0 then hex_digits (u div 16) else [])"

declare dec_digits.simps [simp del] hex_digits.simps [simp del]

text \<open>The digits go to \<^verbatim>\<open>char buf[32]\<close>, least significant first, and are then output
  backwards; more than 32 would overflow it.\<close>

definition flush_digits :: "byte list \<Rightarrow> byte list option" where
  "flush_digits ds = (if length ds \<le> 32 then Some (rev ds) else None)"

fun put_str :: "byte list \<Rightarrow> byte list option" where
  "put_str [] = None"
| "put_str (c # s) = (if c \<noteq> 0 then map_option ((#) c) (put_str s) else Some [])"

text \<open>The unsigned argument of a numeric conversion, by the number of \<^verbatim>\<open>l\<close> modifiers.\<close>

fun fetch_num :: "nat \<Rightarrow> varg list \<Rightarrow> (nat \<times> varg list) option" where
  "fetch_num l (a # ap) =
     (if l = 2 then (case a of Ullong u \<Rightarrow> Some (unat u, ap) | _ \<Rightarrow> None)
      else if l = 1 then (case a of Ulong u \<Rightarrow> Some (unat u, ap) | _ \<Rightarrow> None)
      else (case a of Uint u \<Rightarrow> Some (unat u, ap) | _ \<Rightarrow> None))"
| "fetch_num l [] = None"

text \<open>
  \<open>printf fmt ap\<close> is what the call passes to \<^verbatim>\<open>putchar\<close>; \<open>printf_conv l\<close> is the code from
  the label \<^verbatim>\<open>nextfmt\<close> on.  An unknown conversion prints nothing, as in the \<^verbatim>\<open>switch\<close>
  without a default; a \<^verbatim>\<open>%\<close> at the end of the format makes the loop run past the terminator.
\<close>

fun printf :: "byte list \<Rightarrow> varg list \<Rightarrow> byte list option"
and printf_conv :: "nat \<Rightarrow> byte list \<Rightarrow> varg list \<Rightarrow> byte list option" where
  "printf [] ap = None"
| "printf (c # fmt) ap =
     (if c = 0 then Some []
      else if c \<noteq> ch (CHR ''%'') then map_option ((#) c) (printf fmt ap)
      else printf_conv 0 fmt ap)"
| "printf_conv l [] ap = None"
| "printf_conv l (c # fmt) ap =
     (if c = ch (CHR ''l'') then printf_conv (Suc l) fmt ap
      else if c = ch (CHR ''c'') then
        (case ap of Uint v # ap' \<Rightarrow> map_option ((#) (ucast v)) (printf fmt ap') | _ \<Rightarrow> None)
      else if c = ch (CHR ''s'') then
        (case ap of
           Str s # ap' \<Rightarrow> do { out \<leftarrow> put_str s; map_option ((@) out) (printf fmt ap') }
         | _ \<Rightarrow> None)
      else if c = ch (CHR ''d'') \<or> c = ch (CHR ''u'') \<or> c = ch (CHR ''x'') then do {
        (u, ap') \<leftarrow> fetch_num l ap;
        out \<leftarrow> flush_digits
          (if c = ch (CHR ''d'') \<or> c = ch (CHR ''u'') then dec_digits u else hex_digits u);
        map_option ((@) out) (printf fmt ap')
      }
      else printf fmt ap)"

section \<open>Memory routines: what they compute\<close>

lemma memcpy_loop_forward:
  assumes "s + n \<le> length m" "d + n \<le> length m" "d \<le> s \<or> s + n \<le> d"
  shows "memcpy_loop m d s n = Some (put m d (take n (drop s m)))"
  using assms
proof (induction n arbitrary: m d s)
  case (Suc n)
  have "take n (drop (Suc s) (m[d := m ! s])) = take n (drop (Suc s) m)"
    by (rule nth_equalityI) (use Suc.prems in auto)
  moreover have "take (Suc n) (drop s m) = m ! s # take n (drop (Suc s) m)"
    using Suc.prems by (simp add: Cons_nth_drop_Suc [symmetric])
  ultimately show ?case
    using Suc.prems by (auto simp: Suc.IH put_Cons)
qed (simp add: mem_simps)

lemma memset_eq:
  "b + n \<le> length m \<Longrightarrow> memset m b c n = Some (put m b (replicate n (word_of_int c)))"
  by (induction n arbitrary: m b) (auto simp: put_Cons)

lemma memcmp_total:
  "p1 + n \<le> length m \<Longrightarrow> p2 + n \<le> length m \<Longrightarrow>
   \<exists>r. memcmp m p1 p2 n = Some r \<and>
     (r = 0 \<longleftrightarrow> take n (drop p1 m) = take n (drop p2 m))"
proof (induction n arbitrary: p1 p2)
  case (Suc n)
  then have "drop p1 m = m ! p1 # drop (Suc p1) m" "drop p2 m = m ! p2 # drop (Suc p2) m"
    by (simp_all add: Cons_nth_drop_Suc)
  then show ?case using Suc.prems Suc.IH [of "Suc p1" "Suc p2"]
    by (auto simp: word_uint_eq_iff)
qed simp

text \<open>
  The comparison interface that the users of \<^verbatim>\<open>util.h\<close> rely on, with the macro
  \<^verbatim>\<open>bcmp(b1, b2, len)\<close>: nonzero exactly when the two blocks differ.
\<close>

locale byte_compare =
  fixes cmp :: "byte list \<Rightarrow> nat \<Rightarrow> nat \<Rightarrow> nat \<Rightarrow> int option"
  assumes cmp_total: "p + n \<le> length m \<Longrightarrow> q + n \<le> length m \<Longrightarrow>
    \<exists>r. cmp m p q n = Some r \<and> (r = 0 \<longleftrightarrow> take n (drop p m) = take n (drop q m))"
begin

lemma cmp_blocks:
  "\<exists>r. cmp (xs @ ys) 0 (length xs) (length xs) = Some r \<and> (r = 0 \<longleftrightarrow> xs = ys)"
  if "length xs = length ys"
  using cmp_total [of 0 "length xs" "xs @ ys" "length xs"] that by simp

lemma cmp_refl: "p + n \<le> length m \<Longrightarrow> cmp m p p n = Some 0"
  using cmp_total [of p n m p] by auto

end

interpretation util_memcmp: byte_compare memcmp
  by unfold_locales (rule memcmp_total)

definition bcmp :: "byte list \<Rightarrow> byte list \<Rightarrow> bool" where
  "bcmp xs ys = (memcmp (xs @ ys) 0 (length xs) (length xs) \<noteq> Some 0)"

lemma bcmp_iff: "length xs = length ys \<Longrightarrow> bcmp xs ys \<longleftrightarrow> xs \<noteq> ys"
  using util_memcmp.cmp_blocks [of xs ys] by (auto simp: bcmp_def)

section \<open>Strings: what the routines compute\<close>

text \<open>The NUL-terminated string at an address, and the difference C's comparison returns.\<close>

definition cstr :: "byte list \<Rightarrow> nat \<Rightarrow> byte list option" where
  "cstr m s =
     (if 0 \<in> set (drop s m) then Some (takeWhile (\<lambda>c. c \<noteq> 0) (drop s m)) else None)"

fun lexdiff :: "byte list \<Rightarrow> byte list \<Rightarrow> int" where
  "lexdiff [] [] = 0"
| "lexdiff [] (b # ys) = - uint b"
| "lexdiff (a # xs) [] = uint a"
| "lexdiff (a # xs) (b # ys) = (if a = b then lexdiff xs ys else uint a - uint b)"

lemma cstr_unfold:
  "cstr m s = do {
     c \<leftarrow> rd m s;
     if c = 0 then Some [] else map_option ((#) c) (cstr m (Suc s)) }"
proof (cases "s < length m")
  case True
  then have "drop s m = m ! s # drop (Suc s) m" by (simp add: Cons_nth_drop_Suc)
  with True show ?thesis by (auto simp: cstr_def)
qed (simp add: cstr_def rd_def)

lemma takeWhile_until: "0 \<notin> set xs \<Longrightarrow> takeWhile (\<lambda>c. c \<noteq> 0) (xs @ 0 # ys) = xs"
  by (induction xs) auto

lemma cstr_iff:
  "cstr m s = Some x \<longleftrightarrow> (\<exists>rest. drop s m = x @ 0 # rest) \<and> 0 \<notin> set x"
proof
  assume "cstr m s = Some x"
  then have "0 \<in> set (drop s m)" and x: "x = takeWhile (\<lambda>c. c \<noteq> 0) (drop s m)"
    by (auto simp: cstr_def split: if_splits)
  then obtain xs ys where "drop s m = xs @ 0 # ys" "0 \<notin> set xs"
    by (meson split_list_first)
  then show "(\<exists>rest. drop s m = x @ 0 # rest) \<and> 0 \<notin> set x"
    using x by (simp add: takeWhile_until)
qed (auto simp: cstr_def takeWhile_until)

lemma cstr_NilD: "cstr m s = Some [] \<Longrightarrow> rd m s = Some 0"
  by (subst (asm) cstr_unfold) (auto simp: mem_simps split: bind_splits if_splits)

lemma cstr_ConsD:
  assumes "cstr m s = Some (c # x)"
  shows "rd m s = Some c" "c \<noteq> 0" "cstr m (Suc s) = Some x"
  using assms
  by (subst (asm) cstr_unfold, auto simp: mem_simps split: bind_splits if_splits)+

lemma cstr_nonzero: "cstr m s = Some x \<Longrightarrow> 0 \<notin> set x"
  by (auto simp: cstr_def dest: set_takeWhileD split: if_splits)

lemma strlen_cstr: "strlen m s = map_option length (cstr m s)"
proof (induction m s rule: strlen.induct)
  case (1 m s)
  then show ?case
    by (subst strlen.simps, subst cstr_unfold) (auto simp: option.map_comp comp_def split: bind_splits)
qed

lemma uint_byte_pos: "c \<noteq> 0 \<Longrightarrow> 0 < uint (c :: byte)"
  using uint_nonnegative [of c] by (metis order_le_less word_uint_eq_iff unsigned_0)

lemma lexdiff_eq_0: "0 \<notin> set xs \<Longrightarrow> 0 \<notin> set ys \<Longrightarrow> lexdiff xs ys = 0 \<longleftrightarrow> xs = ys"
  by (induction xs ys rule: lexdiff.induct) (auto simp: word_uint_eq_iff)

lemma lexdiff_neg:
  "0 \<notin> set xs \<Longrightarrow> 0 \<notin> set ys \<Longrightarrow> lexdiff xs ys < 0 \<longleftrightarrow> ord.lexordp (<) xs ys"
  using uint_byte_pos
  by (induction xs ys rule: lexdiff.induct) (auto simp: word_less_def not_less word_uint_eq_iff)

lemma strcmp_cstr:
  "cstr m s1 = Some x \<Longrightarrow> cstr m s2 = Some y \<Longrightarrow> strcmp m s1 s2 = Some (lexdiff x y)"
proof (induction x arbitrary: s1 s2 y)
  case Nil
  then have "rd m s1 = Some 0" by (simp add: cstr_NilD)
  with Nil.prems(2) show ?case
    by (subst strcmp.simps) (cases y; auto dest: cstr_NilD cstr_ConsD)
next
  case (Cons c x)
  note 1 = cstr_ConsD [OF Cons.prems(1)]
  show ?case
  proof (cases y)
    case Nil
    with Cons.prems(2) have "rd m s2 = Some 0" by (simp add: cstr_NilD)
    with 1 Nil show ?thesis by (subst strcmp.simps) simp
  next
    case (Cons d y')
    note 2 = cstr_ConsD [OF Cons.prems(2) [unfolded Cons]]
    with 1 Cons.IH [OF 1(3) 2(3)] show ?thesis
      unfolding Cons by (subst strcmp.simps) auto
  qed
qed

lemma cstr_update_outside:
  assumes "cstr m s = Some x" "d < s \<or> s + length x < d"
  shows "cstr (m[d := c]) s = Some x"
proof -
  obtain rest where r: "drop s m = x @ 0 # rest" "0 \<notin> set x"
    using assms(1) by (auto simp: cstr_iff)
  have "drop s (m[d := c]) = (if d < s then drop s m else (drop s m)[d - s := c])"
    by (auto simp: drop_update_swap)
  then show ?thesis using r assms(2)
    by (auto simp: cstr_iff list_update_append split: nat.splits)
qed

lemma strcpy_put:
  assumes "cstr m s = Some x" "d + length x < length m"
    and "d + length x < s \<or> s + length x < d"
  shows "strcpy m d s = Some (put m d (x @ [0]))"
  using assms
proof (induction x arbitrary: m d s)
  case Nil
  then have "rd m s = Some 0" by (simp add: cstr_NilD)
  with Nil show ?case
    by (subst strcpy.simps) (simp add: put_def upd_conv_take_nth_drop)
next
  case (Cons c x)
  note 1 = cstr_ConsD [OF Cons.prems(1)]
  have "cstr (m[d := c]) (Suc s) = Some x"
    using 1(3) Cons.prems(3) by (intro cstr_update_outside) auto
  then have "strcpy (m[d := c]) (Suc d) (Suc s) = Some (put (m[d := c]) (Suc d) (x @ [0]))"
    using Cons.prems by (intro Cons.IH) auto
  with 1 Cons.prems show ?case
    by (subst strcpy.simps) (simp add: put_Cons)
qed

lemma strcat_scan:
  "cstr m d = Some y \<Longrightarrow> strcat m d s = strcpy m (d + length y) s"
proof (induction y arbitrary: d)
  case Nil
  then have "rd m d = Some 0" by (rule cstr_NilD)
  then show ?case by (subst strcat.simps) simp
next
  case (Cons c y)
  note 1 = cstr_ConsD [OF Cons.prems]
  with Cons.IH [OF 1(3)] show ?case by (subst strcat.simps) simp
qed

lemma cstr_put_after:
  assumes "cstr m d = Some y" "0 \<notin> set x" "d + length y + length x < length m"
  shows "cstr (put m (d + length y) (x @ [0])) d = Some (y @ x)"
proof -
  obtain rest where r: "drop d m = y @ 0 # rest" "0 \<notin> set y"
    using assms(1) by (auto simp: cstr_iff)
  have "drop d (take (d + length y) m) = y" using r(1) by (simp add: drop_take)
  then show ?thesis using assms(2,3) r(2)
    by (auto simp: cstr_iff put_def)
qed

section \<open>Numbers: what \<^verbatim>\<open>printf\<close> writes\<close>

text \<open>The number a digit string denotes in a base (lower-case hexadecimal digits).\<close>

definition digit_val :: "byte \<Rightarrow> nat" where
  "digit_val c = (if unat c \<le> 57 then unat c - 48 else unat c - 87)"

definition num_val :: "nat \<Rightarrow> byte list \<Rightarrow> nat" where
  "num_val base s = foldl (\<lambda>n c. base * n + digit_val c) 0 s"

lemma num_val_snoc: "num_val base (s @ [c]) = base * num_val base s + digit_val c"
  by (simp add: num_val_def)

lemma digit_val_dec: "k < 10 \<Longrightarrow> digit_val (48 + word_of_nat k) = k"
  by (simp add: digit_val_def unat_word_ariths unat_of_nat)

lemma digit_val_hex: "k < 16 \<Longrightarrow> digit_val (hex ! k) = k"
proof -
  assume "k < 16"
  then have "k \<in> set [0..<16]" by simp
  moreover have "\<forall>k \<in> set [0..<16]. digit_val (hex ! k) = k"
    by (simp add: hex_def digit_val_def upt_rec)
  ultimately show ?thesis by blast
qed

lemma num_val_dec: "num_val 10 (rev (dec_digits u)) = u"
proof (induction u rule: dec_digits.induct)
  case (1 u)
  show ?case
  proof (cases "u div 10 = 0")
    case True
    then have "u < 10" by (simp add: div_eq_0_iff)
    then show ?thesis
      by (subst dec_digits.simps) (simp add: num_val_def digit_val_dec)
  next
    case False
    with 1 show ?thesis
      by (subst dec_digits.simps) (simp add: num_val_snoc digit_val_dec)
  qed
qed

lemma num_val_hex: "num_val 16 (rev (hex_digits u)) = u"
proof (induction u rule: hex_digits.induct)
  case (1 u)
  show ?case
  proof (cases "u div 16 = 0")
    case True
    then show ?thesis
      by (subst hex_digits.simps) (simp add: num_val_def digit_val_hex)
  next
    case False
    with 1 show ?thesis
      by (subst hex_digits.simps) (simp add: num_val_snoc digit_val_hex)
  qed
qed

lemma length_dec_digits: "u < 10 ^ Suc k \<Longrightarrow> length (dec_digits u) \<le> Suc k"
proof (induction k arbitrary: u)
  case 0
  then show ?case by (subst dec_digits.simps) simp
next
  case (Suc k)
  then have "u div 10 < 10 ^ Suc k" by (simp add: less_mult_imp_div_less)
  with Suc.IH show ?case by (subst dec_digits.simps) simp
qed

lemma length_hex_digits: "u < 16 ^ Suc k \<Longrightarrow> length (hex_digits u) \<le> Suc k"
proof (induction k arbitrary: u)
  case 0
  then show ?case by (subst hex_digits.simps) simp
next
  case (Suc k)
  then have "u div 16 < 16 ^ Suc k" by (simp add: less_mult_imp_div_less)
  with Suc.IH show ?case by (subst hex_digits.simps) simp
qed

section \<open>Properties\<close>

text \<open>
  a copy whose operands lie in memory and whose destination is below the source or clear of
  it stores exactly the old source block at the destination and leaves every other byte alone.
\<close>

theorem memcpy_copies:
  assumes "int s + len \<le> int (length m)" "int d + len \<le> int (length m)" "0 \<le> len"
    and "d \<le> s \<or> int s + len \<le> int d"
  shows "memcpy m d s len = Some (put m d (take (nat len) (drop s m)))"
  using assms by (auto simp: memcpy_def intro!: memcpy_loop_forward)

theorem memcpy_copies_witness:
  "memcpy [1, 2, 3, 4, 5] 1 2 3 = Some (put [1, 2, 3, 4, 5] 1 (take (nat 3) (drop 2 [1, 2, 3, 4, 5])))"
  by (rule memcpy_copies) simp_all

text \<open>
  on terminated strings \<open>strcmp\<close> returns; the result is zero exactly for equal strings and
  negative exactly when the first is lexicographically smaller as unsigned bytes.
\<close>

theorem strcmp_orders:
  assumes "cstr m s1 = Some x" "cstr m s2 = Some y"
  shows "\<exists>r. strcmp m s1 s2 = Some r \<and> (r = 0 \<longleftrightarrow> x = y) \<and>
    (r < 0 \<longleftrightarrow> ord.lexordp (<) x y)"
  using strcmp_cstr [OF assms] assms [THEN cstr_nonzero] by (simp add: lexdiff_eq_0 lexdiff_neg)

theorem strcmp_orders_witness:
  "\<exists>r. strcmp [97, 98, 0, 97, 99, 0] 0 3 = Some r \<and> (r = 0 \<longleftrightarrow> [97, 98] = [97, 99 :: byte]) \<and>
    (r < 0 \<longleftrightarrow> ord.lexordp (<) [97, 98] [97, 99 :: byte])"
  by (rule strcmp_orders) (simp_all add: cstr_def)

text \<open>
  with room for both strings behind the destination and the source clear of that room,
  \<open>strcat\<close> returns, writes only inside the room, and leaves the concatenation there.
\<close>

theorem strcat_concatenates:
  assumes "cstr m d = Some y" "cstr m s = Some x"
    and "d + length y + length x < length m"
    and "d + length y + length x < s \<or> s + length x < d + length y"
  shows "\<exists>m'. strcat m d s = Some m' \<and> m' = put m (d + length y) (x @ [0]) \<and>
    cstr m' d = Some (y @ x)"
proof -
  have "strcpy m (d + length y) s = Some (put m (d + length y) (x @ [0]))"
    using assms by (intro strcpy_put) auto
  then show ?thesis
    using assms cstr_nonzero [OF assms(2)] by (simp add: strcat_scan cstr_put_after)
qed

theorem strcat_concatenates_witness:
  "\<exists>m'. strcat [97, 0, 9, 9, 98, 0] 0 4 = Some m' \<and>
    m' = put [97, 0, 9, 9, 98, 0] (0 + length [97 :: byte]) ([98] @ [0]) \<and>
    cstr m' 0 = Some ([97] @ [98])"
  by (rule strcat_concatenates) (simp_all add: cstr_def)

text \<open>
  \<open>strncmp\<close> does not stop at its length: it compares one byte more, so two strings that
  agree on the first \<open>len\<close> bytes and differ in the next one compare as different, where the
  C standard demands 0.
\<close>

theorem strncmp_compares_one_byte_more:
  "strncmp [97, 98, 99, 0, 97, 98, 100, 0] 0 4 2 = Some (- 1) \<and>
   take 2 [97, 98, 99, 0] = take 2 [97, 98, 100, 0 :: byte]"
  by (simp add: strncmp.simps rd_def)

text \<open>
  for a 64-bit argument the conversions \<^verbatim>\<open>%lld\<close>, \<^verbatim>\<open>%llu\<close> and \<^verbatim>\<open>%llx\<close> stay inside the
  32-byte digit buffer and print a numeral of at most 20 digits that denotes the argument; the
  rest of the format is then processed with the remaining arguments.
\<close>

theorem printf_prints_numeral:
  assumes "c = ch (CHR ''d'') \<and> base = 10 \<or> c = ch (CHR ''u'') \<and> base = 10 \<or>
    c = ch (CHR ''x'') \<and> base = 16"
  shows "\<exists>s. num_val base s = unat w \<and> length s \<le> 20 \<and>
    printf (map of_char ''%ll'' @ c # fmt) (Ullong w # ap) = map_option ((@) s) (printf fmt ap)"
proof -
  have w: "unat w < 2 ^ 64" using unsigned_less [of w] by simp
  then have "length (dec_digits (unat w)) \<le> Suc 19" by (intro length_dec_digits) simp
  moreover have "length (hex_digits (unat w)) \<le> Suc 15" using w by (intro length_hex_digits) simp
  ultimately have "flush_digits (dec_digits (unat w)) = Some (rev (dec_digits (unat w)))"
      "flush_digits (hex_digits (unat w)) = Some (rev (hex_digits (unat w)))"
      "length (rev (dec_digits (unat w))) \<le> 20" "length (rev (hex_digits (unat w))) \<le> 20"
    by (simp_all add: flush_digits_def)
  note facts = this num_val_dec [of "unat w"] num_val_hex [of "unat w"]
  from assms show ?thesis
  proof (elim disjE conjE)
    assume "c = ch (CHR ''d'')" "base = 10"
    with facts show ?thesis by (intro exI [of _ "rev (dec_digits (unat w))"]) simp
  next
    assume "c = ch (CHR ''u'')" "base = 10"
    with facts show ?thesis by (intro exI [of _ "rev (dec_digits (unat w))"]) simp
  next
    assume "c = ch (CHR ''x'')" "base = 16"
    with facts show ?thesis by (intro exI [of _ "rev (hex_digits (unat w))"]) simp
  qed
qed

theorem printf_prints_numeral_witness:
  "\<exists>s. num_val 16 s = unat (255 :: u64) \<and> length s \<le> 20 \<and>
    printf (map of_char ''%ll'' @ ch (CHR ''x'') # [0]) (Ullong 255 # []) =
      map_option ((@) s) (printf [0] [])"
  by (rule printf_prints_numeral) simp

end
