(* ===== verification/Blockdev.thy ===== *)
theory Blockdev
  imports Prelude
begin

text \<open>
  The block-device interface of the loader (the member \<^verbatim>\<open>dv_strategy\<close> of
  \<^verbatim>\<open>struct devsw\<close>) as a locale, and its implementation by the memory disk of
  \<^verbatim>\<open>boot/common/md.c\<close>.  The block cache relies on this interface only.
\<close>

section \<open>The interface\<close>

datatype rwflag = F_READ | F_WRITE | F_OTHER

text \<open>
  A strategy routine takes the device state, the direction, the first block, the size in
  bytes, the caller's buffer and \<^verbatim>\<open>*rsize\<close> (\<^term>\<open>None\<close> when the pointer is \<^verbatim>\<open>NULL\<close>).  It gives
  the error code, the buffer, \<^verbatim>\<open>*rsize\<close> and the device afterwards; \<^term>\<open>None\<close> when it leaves a
  buffer.
\<close>

type_synonym 'd strategy =
  "'d \<Rightarrow> rwflag \<Rightarrow> int \<Rightarrow> nat \<Rightarrow> byte list \<Rightarrow> nat option \<Rightarrow>
   (int \<times> byte list \<times> nat option \<times> 'd) option"

text \<open>The bytes of \<open>n\<close> consecutive blocks, and the block \<open>j\<close> of a buffer.\<close>

definition blocks :: "(int \<Rightarrow> byte list) \<Rightarrow> int \<Rightarrow> nat \<Rightarrow> byte list" where
  "blocks c blk n = concat (map (\<lambda>i. c (blk + int i)) [0..<n])"

definition bufblock :: "nat \<Rightarrow> byte list \<Rightarrow> nat \<Rightarrow> byte list" where
  "bufblock bs buf j = take bs (drop (j * bs) buf)"

text \<open>
  What a set of units promises for reads.  \<open>inv\<close> is the driver's own invariant, \<open>cont u d k\<close>
  the content of block \<open>k\<close> of unit \<open>u\<close>, \<open>cap u d\<close> the number of its blocks.  A read inside the
  unit always returns, changes no content, and fills the buffer when it reports success.
\<close>

locale read_device =
  fixes strat :: "int \<Rightarrow> 'd strategy"
    and inv :: "'d \<Rightarrow> bool"
    and cont :: "int \<Rightarrow> 'd \<Rightarrow> int \<Rightarrow> byte list"
    and cap :: "int \<Rightarrow> 'd \<Rightarrow> int"
    and bs :: nat
  assumes bs_pos: "0 < bs"
    and cont_length: "inv d \<Longrightarrow> 0 \<le> k \<Longrightarrow> k < cap u d \<Longrightarrow> length (cont u d k) = bs"
    and read_law: "inv d \<Longrightarrow> 0 \<le> blk \<Longrightarrow> blk + int n \<le> cap u d \<Longrightarrow> length buf = n * bs \<Longrightarrow>
      \<exists>err buf' rs' d'. strat u d F_READ blk (n * bs) buf rs = Some (err, buf', rs', d') \<and>
        inv d' \<and> length buf' = n * bs \<and> (\<forall>u. cap u d' = cap u d) \<and>
        (\<forall>u k. 0 \<le> k \<and> k < cap u d \<longrightarrow> cont u d' k = cont u d k) \<and>
        (err = 0 \<longrightarrow> buf' = blocks (cont u d) blk n)"

text \<open>
  And for writes: a successful write stores the buffer's blocks, a failing one may have
  changed the addressed blocks, and neither touches another block.
\<close>

locale block_device = read_device +
  assumes write_law: "inv d \<Longrightarrow> 0 \<le> blk \<Longrightarrow> blk + int n \<le> cap u d \<Longrightarrow> length buf = n * bs \<Longrightarrow>
      \<exists>err rs' d'. strat u d F_WRITE blk (n * bs) buf rs = Some (err, buf, rs', d') \<and>
        inv d' \<and> (\<forall>u. cap u d' = cap u d) \<and>
        (\<forall>u' k. 0 \<le> k \<and> k < cap u' d \<and> \<not> (u' = u \<and> blk \<le> k \<and> k < blk + int n) \<longrightarrow>
          cont u' d' k = cont u' d k) \<and>
        (err = 0 \<longrightarrow> (\<forall>j<n. cont u d' (blk + int j) = bufblock bs buf j))"

lemma length_blocks:
  "(\<And>i. i < n \<Longrightarrow> length (c (blk + int i)) = bs) \<Longrightarrow> length (blocks c blk n) = n * bs"
  by (induction n) (auto simp: blocks_def)

lemma blocks_Suc: "blocks c blk (Suc n) = blocks c blk n @ c (blk + int n)"
  by (simp add: blocks_def)

lemma bufblock_blocks:
  assumes "\<And>i. i < n \<Longrightarrow> length (c (blk + int i)) = bs" "j < n"
  shows "bufblock bs (blocks c blk n) j = c (blk + int j)"
  using assms
proof (induction n)
  case (Suc n)
  have len: "length (blocks c blk n) = n * bs" using Suc.prems by (intro length_blocks) auto
  show ?case
  proof (cases "j = n")
    case True
    then show ?thesis using Suc.prems len by (simp add: bufblock_def blocks_Suc)
  next
    case False
    then have "j < n" using Suc.prems by simp
    then have "Suc j * bs \<le> n * bs" by (intro mult_le_mono1) simp
    then have "bufblock bs (blocks c blk (Suc n)) j = bufblock bs (blocks c blk n) j"
      using len by (simp add: bufblock_def blocks_Suc)
    then show ?thesis using Suc \<open>j < n\<close> by simp
  qed
qed simp

lemma length_bufblock: "Suc j * bs \<le> length buf \<Longrightarrow> length (bufblock bs buf j) = bs"
  by (simp add: bufblock_def)

lemma blocks_bufblock:
  "length buf = n * bs \<Longrightarrow> blocks (\<lambda>k. bufblock bs buf (nat (k - blk))) blk n = buf"
proof (induction n arbitrary: buf)
  case (Suc n)
  have *: "bufblock bs (take (n * bs) buf) j = bufblock bs buf j" if "j < n" for j
  proof -
    have "Suc j * bs \<le> n * bs" using that by (intro mult_le_mono1) simp
    then show ?thesis by (simp add: bufblock_def drop_take min_def)
  qed
  have "blocks (\<lambda>k. bufblock bs buf (nat (k - blk))) blk n =
      blocks (\<lambda>k. bufblock bs (take (n * bs) buf) (nat (k - blk))) blk n"
    by (auto simp: blocks_def * intro!: arg_cong [of _ _ concat])
  also have "\<dots> = take (n * bs) buf" using Suc.prems by (intro Suc.IH) simp
  finally show ?case
    using Suc.prems by (simp add: blocks_Suc bufblock_def)
qed (simp add: blocks_def)

lemma eq_blocksI:
  assumes "length buf = n * bs" "\<And>j. j < n \<Longrightarrow> bufblock bs buf j = c (blk + int j)"
  shows "buf = blocks c blk n"
proof -
  have "blocks c blk n = blocks (\<lambda>k. bufblock bs buf (nat (k - blk))) blk n"
    unfolding blocks_def by (intro arg_cong [of _ _ concat] map_cong) (auto simp: assms(2))
  then show ?thesis using blocks_bufblock [OF assms(1)] by simp
qed

section \<open>The memory disk of \<^verbatim>\<open>md.c\<close>\<close>

text \<open>The device state is \<^verbatim>\<open>md_image.start\<close>, an array of \<^verbatim>\<open>MD_IMAGE_SIZE\<close> bytes.\<close>

definition MD_BLOCK_SIZE :: nat where "MD_BLOCK_SIZE = 512"
definition ENXIO :: int where "ENXIO = 6"
definition EIO :: int where "EIO = 5"
definition ENODEV :: int where "ENODEV = 19"

definition md_strategy :: "int \<Rightarrow> byte list strategy" where
  "md_strategy d_unit img rw blk sz buf rsize =
     (if d_unit \<noteq> 0 then Some (ENXIO, buf, rsize, img)
      else if blk < 0 \<or> blk \<ge> int (length img div MD_BLOCK_SIZE) then Some (EIO, buf, rsize, img)
      else if sz mod MD_BLOCK_SIZE \<noteq> 0 then Some (EIO, buf, rsize, img)
      else
        (let ofs = nat blk * MD_BLOCK_SIZE;
             sz = (if ofs + sz > length img then length img - ofs else sz);
             rsize' = map_option (\<lambda>_. sz) rsize
         in case rw of
              F_READ \<Rightarrow> do {
                bytes \<leftarrow> slice img ofs sz;
                buf' \<leftarrow> store buf 0 bytes;
                Some (0, buf', rsize', img)
              }
            | F_WRITE \<Rightarrow> do {
                bytes \<leftarrow> slice buf 0 sz;
                img' \<leftarrow> store img ofs bytes;
                Some (0, buf, rsize', img')
              }
            | F_OTHER \<Rightarrow> Some (ENODEV, buf, rsize', img)))"

definition md_open :: "int \<Rightarrow> int" where
  "md_open d_unit = (if d_unit \<noteq> 0 then ENXIO else 0)"

definition md_close :: "int \<Rightarrow> int" where
  "md_close d_unit = (if d_unit \<noteq> 0 then ENXIO else 0)"

text \<open>The content and the capacity of the memory disk.\<close>

definition md_cont :: "int \<Rightarrow> byte list \<Rightarrow> int \<Rightarrow> byte list" where
  "md_cont u img k = bufblock MD_BLOCK_SIZE img (nat k)"

definition md_cap :: "int \<Rightarrow> byte list \<Rightarrow> int" where
  "md_cap u img = (if u = 0 then int (length img div MD_BLOCK_SIZE) else 0)"

lemma bufblock_sub:
  assumes "j < n"
  shows "bufblock bs (take (n * bs) (drop (b * bs) img)) j = bufblock bs img (b + j)"
proof -
  have "Suc j * bs \<le> n * bs" using assms by (intro mult_le_mono1) simp
  then show ?thesis
    by (simp add: bufblock_def drop_take min_def add_mult_distrib add.commute)
qed

lemma bufblock_put:
  assumes "length ys = n * bs" "b * bs + n * bs \<le> length img"
  shows "bufblock bs (put img (b * bs) ys) k =
    (if b \<le> k \<and> k < b + n then bufblock bs ys (k - b) else bufblock bs img k)"
proof -
  consider "k < b" | "b \<le> k" "k < b + n" | "b + n \<le> k" by linarith
  then show ?thesis
  proof cases
    case 1
    then have le: "Suc k * bs \<le> b * bs" by (intro mult_le_mono1) simp
    then have "slice (put img (b * bs) ys) (k * bs) bs = slice img (k * bs) bs"
      using assms by (intro slice_put_other) auto
    then show ?thesis using 1 le assms by (simp add: bufblock_def)
  next
    case 2
    then have "Suc (k - b) * bs \<le> n * bs" by (intro mult_le_mono1) auto
    moreover have "k * bs = b * bs + (k - b) * bs"
      using 2 by (simp add: add_mult_distrib [symmetric])
    ultimately show ?thesis using 2 assms by (simp add: bufblock_def put_def)
  next
    case 3
    then have "(b + n) * bs \<le> k * bs" by (intro mult_le_mono1) simp
    then show ?thesis using 3 assms by (simp add: bufblock_def put_def add_mult_distrib)
  qed
qed

lemma md_range:
  assumes "0 \<le> blk" "blk + int n \<le> int (length img div MD_BLOCK_SIZE)"
  shows "nat blk * MD_BLOCK_SIZE + n * MD_BLOCK_SIZE \<le> length img"
proof -
  have "nat blk + n \<le> length img div MD_BLOCK_SIZE" using assms by linarith
  then have "(nat blk + n) * MD_BLOCK_SIZE \<le> length img"
    by (simp add: MD_BLOCK_SIZE_def less_eq_div_iff_mult_less_eq)
  then show ?thesis by (simp add: add_mult_distrib)
qed

lemma md_read:
  assumes "0 \<le> blk" "blk + int n \<le> int (length img div MD_BLOCK_SIZE)"
    and "blk < int (length img div MD_BLOCK_SIZE)" "length buf = n * MD_BLOCK_SIZE"
  shows "md_strategy 0 img F_READ blk (n * MD_BLOCK_SIZE) buf rs =
    Some (0, blocks (md_cont 0 img) blk n, map_option (\<lambda>_. n * MD_BLOCK_SIZE) rs, img)"
proof -
  let ?sub = "take (n * MD_BLOCK_SIZE) (drop (nat blk * MD_BLOCK_SIZE) img)"
  note range = md_range [OF assms(1,2)]
  have len: "length ?sub = n * MD_BLOCK_SIZE" using range by simp
  have "blocks (md_cont 0 img) blk n =
      blocks (\<lambda>k. bufblock MD_BLOCK_SIZE ?sub (nat (k - blk))) blk n"
    using assms(1) by (auto simp: blocks_def md_cont_def bufblock_sub nat_add_distrib
        intro!: arg_cong [of _ _ concat])
  also have "\<dots> = ?sub" by (rule blocks_bufblock [OF len])
  finally have sub: "blocks (md_cont 0 img) blk n = ?sub" .
  have "store buf 0 ?sub = Some ?sub" using len assms(4) by (simp add: put_def)
  then show ?thesis
    using assms range unfolding sub by (simp add: md_strategy_def Let_def)
qed

lemma md_write:
  assumes "0 \<le> blk" "blk + int n \<le> int (length img div MD_BLOCK_SIZE)"
    and "blk < int (length img div MD_BLOCK_SIZE)" "length buf = n * MD_BLOCK_SIZE"
  shows "md_strategy 0 img F_WRITE blk (n * MD_BLOCK_SIZE) buf rs =
    Some (0, buf, map_option (\<lambda>_. n * MD_BLOCK_SIZE) rs, put img (nat blk * MD_BLOCK_SIZE) buf)"
  using assms md_range [OF assms(1,2)] by (simp add: md_strategy_def Let_def)

lemma md_out_of_range:
  "u \<noteq> 0 \<or> int (length img div MD_BLOCK_SIZE) \<le> blk \<Longrightarrow>
   \<exists>e. e \<noteq> 0 \<and> md_strategy u img rw blk sz buf rs = Some (e, buf, rs, img)"
  by (auto simp: md_strategy_def ENXIO_def EIO_def)

interpretation md: block_device md_strategy "\<lambda>_. True" md_cont md_cap MD_BLOCK_SIZE
proof
  show "0 < MD_BLOCK_SIZE" by (simp add: MD_BLOCK_SIZE_def)
next
  fix d k u assume "0 \<le> k" "k < md_cap u d"
  then have "k + int 1 \<le> int (length d div MD_BLOCK_SIZE)"
    by (auto simp: md_cap_def split: if_splits)
  then show "length (md_cont u d k) = MD_BLOCK_SIZE"
    using md_range [of k 1 d] \<open>0 \<le> k\<close> by (simp add: md_cont_def length_bufblock)
next
  fix d buf :: "byte list" and blk n u rs
  assume a: "0 \<le> blk" "blk + int n \<le> md_cap u d" "length buf = n * MD_BLOCK_SIZE"
  show "\<exists>err buf' rs' d'. md_strategy u d F_READ blk (n * MD_BLOCK_SIZE) buf rs =
          Some (err, buf', rs', d') \<and> True \<and> length buf' = n * MD_BLOCK_SIZE \<and>
        (\<forall>u. md_cap u d' = md_cap u d) \<and>
        (\<forall>u k. 0 \<le> k \<and> k < md_cap u d \<longrightarrow> md_cont u d' k = md_cont u d k) \<and>
        (err = 0 \<longrightarrow> buf' = blocks (md_cont u d) blk n)"
  proof (cases "u \<noteq> 0 \<or> int (length d div MD_BLOCK_SIZE) \<le> blk")
    case True
    from md_out_of_range [OF this, of F_READ "n * MD_BLOCK_SIZE" buf rs] show ?thesis
      using a(3) by auto
  next
    case False
    then have cap: "blk + int n \<le> int (length d div MD_BLOCK_SIZE)"
      using a(2) by (simp add: md_cap_def)
    have "length (blocks (md_cont u d) blk n) = n * MD_BLOCK_SIZE"
    proof (rule length_blocks)
      fix i assume "i < n"
      then show "length (md_cont u d (blk + int i)) = MD_BLOCK_SIZE"
        using md_range [of "blk + int i" 1 d] cap a(1) by (simp add: md_cont_def length_bufblock)
    qed
    with False md_read [OF a(1) cap _ a(3), of rs] show ?thesis by simp
  qed
next
  fix d buf :: "byte list" and blk n u rs
  assume a: "0 \<le> blk" "blk + int n \<le> md_cap u d" "length buf = n * MD_BLOCK_SIZE"
  show "\<exists>err rs' d'. md_strategy u d F_WRITE blk (n * MD_BLOCK_SIZE) buf rs =
          Some (err, buf, rs', d') \<and> True \<and> (\<forall>u. md_cap u d' = md_cap u d) \<and>
        (\<forall>u' k. 0 \<le> k \<and> k < md_cap u' d \<and> \<not> (u' = u \<and> blk \<le> k \<and> k < blk + int n) \<longrightarrow>
          md_cont u' d' k = md_cont u' d k) \<and>
        (err = 0 \<longrightarrow> (\<forall>j<n. md_cont u d' (blk + int j) = bufblock MD_BLOCK_SIZE buf j))"
  proof (cases "u \<noteq> 0 \<or> int (length d div MD_BLOCK_SIZE) \<le> blk")
    case True
    from md_out_of_range [OF this, of F_WRITE "n * MD_BLOCK_SIZE" buf rs] show ?thesis
      by auto
  next
    case False
    then have cap: "blk + int n \<le> int (length d div MD_BLOCK_SIZE)"
      using a(2) by (simp add: md_cap_def)
    show ?thesis
      using False md_write [OF a(1) cap _ a(3), of rs] md_range [OF a(1) cap] a
      by (auto simp: md_cont_def md_cap_def bufblock_put [OF a(3) md_range [OF a(1) cap]]
          nat_add_distrib)
  qed
qed

end
