(* ===== verification/Bcache.thy ===== *)
theory Bcache
  imports Blockdev
begin

text \<open>
  \<^verbatim>\<open>boot/common/bcache.c\<close>: the block cache between the file systems of the loader and the
  disk drivers.  The static variables of the file are the record \<open>bcache\<close>.  The driver below,
  \<^verbatim>\<open>dd->dv_strategy\<close>, is the argument \<open>strat\<close> of the operations, acting on a device state of
  any type; \<^verbatim>\<open>time(3)\<close> is the argument \<open>clk\<close>, which gives the result of its \<open>n\<close>-th call, and
  \<open>ticks\<close> counts the calls.  An access outside \<^verbatim>\<open>bcache_ctl\<close>, \<^verbatim>\<open>bcache_data\<close>,
  \<^verbatim>\<open>bcache_miss\<close> or the caller's buffer is \<^term>\<open>None\<close>.
\<close>

section \<open>State\<close>

record bcachectl =
  bc_blkno :: int
  bc_stamp :: int
  bc_count :: int

record bcache =
  bcache_ctl :: "bcachectl list"
  bcache_data :: "byte list option"  \<comment> \<open>\<^term>\<open>None\<close> for \<^verbatim>\<open>NULL\<close>\<close>
  bcache_miss :: "bool list"
  bcache_nblks :: nat
  bcache_blksize :: nat
  bcache_hits :: u32
  bcache_misses :: u32
  bcache_ops :: u32
  bcache_bypasses :: u32
  bcache_flushes :: u32
  bcache_bcount :: u32
  bcache_unit :: int
  ticks :: nat

text \<open>The static variables before the first call.\<close>

definition bcache_statics :: bcache where
  "bcache_statics = \<lparr>bcache_ctl = [], bcache_data = None, bcache_miss = [], bcache_nblks = 0,
     bcache_blksize = 0, bcache_hits = 0, bcache_misses = 0, bcache_ops = 0, bcache_bypasses = 0,
     bcache_flushes = 0, bcache_bcount = 0, bcache_unit = -1, ticks = 0\<rparr>"

definition BCACHE_TIMEOUT :: int where "BCACHE_TIMEOUT = 2"
definition ENOMEM :: int where "ENOMEM = 12"

section \<open>Initialisation and flushing\<close>

text \<open>
  The three allocations are arguments: what \<^verbatim>\<open>malloc\<close> and \<^verbatim>\<open>bit_alloc\<close> return for a size,
  \<^term>\<open>None\<close> for \<^verbatim>\<open>NULL\<close>.  The size of the data area is computed in \<^verbatim>\<open>u_int\<close>.  On failure all
  three are freed, so the control array is no longer there, but \<^verbatim>\<open>bcache_nblks\<close> stays set.
\<close>

definition bcache_init ::
  "(nat \<Rightarrow> byte list option) \<Rightarrow> (nat \<Rightarrow> bcachectl list option) \<Rightarrow> (nat \<Rightarrow> bool list option) \<Rightarrow>
   nat \<Rightarrow> nat \<Rightarrow> bcache \<Rightarrow> int \<times> bcache" where
  "bcache_init alloc_data alloc_ctl bit_alloc nblks bsize b =
     (let b = b\<lparr>bcache_nblks := nblks, bcache_blksize := bsize\<rparr> in
      case (alloc_data ((nblks * bsize) mod 2 ^ 32), alloc_ctl nblks, bit_alloc ((nblks + 1) div 2)) of
        (Some data, Some ctl, Some miss) \<Rightarrow>
          (0, b\<lparr>bcache_data := Some data, bcache_ctl := ctl, bcache_miss := miss\<rparr>)
      | _ \<Rightarrow> (ENOMEM, b\<lparr>bcache_data := None, bcache_ctl := [], bcache_miss := []\<rparr>))"

definition clear_ctl :: "bcachectl \<Rightarrow> bcachectl" where
  "clear_ctl c = c\<lparr>bc_count := -1, bc_blkno := -1\<rparr>"

definition bcache_flush :: "bcache \<Rightarrow> bcache option" where
  "bcache_flush b =
     (let b = b\<lparr>bcache_flushes := bcache_flushes b + 1\<rparr>; n = bcache_nblks b; ctl = bcache_ctl b in
      if n \<le> length ctl
      then Some (b\<lparr>bcache_ctl := map clear_ctl (take n ctl) @ drop n ctl\<rparr>)
      else None)"

section \<open>Single blocks\<close>

text \<open>The scan of \<^verbatim>\<open>bcache_insert\<close> for the slot to use; it starts at index 1.\<close>

function insert_cand :: "bcachectl list \<Rightarrow> nat \<Rightarrow> int \<Rightarrow> nat \<Rightarrow> nat \<Rightarrow> int \<Rightarrow> nat option" where
  "insert_cand ctl nblks blkno i cand ocount =
     (if i < nblks then do {
        c \<leftarrow> rd ctl i;
        if bc_blkno c = blkno then Some i
        else if bc_count c < ocount then insert_cand ctl nblks blkno (Suc i) i (bc_count c)
        else insert_cand ctl nblks blkno (Suc i) cand ocount
      } else Some cand)"
  by pat_completeness auto
termination
  by (relation "measure (\<lambda>(ctl, nblks, blkno, i, cand, ocount). nblks - i)") auto

definition bcache_insert :: "(nat \<Rightarrow> int) \<Rightarrow> byte list \<Rightarrow> int \<Rightarrow> bcache \<Rightarrow> bcache option" where
  "bcache_insert clk buf blkno b = do {
     let now = clk (ticks b);
     c0 \<leftarrow> rd (bcache_ctl b) 0;
     cand \<leftarrow> insert_cand (bcache_ctl b) (bcache_nblks b) blkno 1 0 (bc_count c0);
     data \<leftarrow> bcache_data b;
     block \<leftarrow> slice buf 0 (bcache_blksize b);
     data' \<leftarrow> store data (bcache_blksize b * cand) block;
     ctl' \<leftarrow> wr (bcache_ctl b) cand
       \<lparr>bc_blkno = blkno, bc_stamp = now, bc_count = sint (bcache_bcount b)\<rparr>;
     Some (b\<lparr>bcache_data := Some data', bcache_ctl := ctl',
             bcache_bcount := bcache_bcount b + 1, ticks := Suc (ticks b)\<rparr>)
   }"

text \<open>The scan of \<^verbatim>\<open>bcache_lookup\<close>; the inner option is the slot of the hit.\<close>

function lookup_slot :: "bcachectl list \<Rightarrow> nat \<Rightarrow> int \<Rightarrow> int \<Rightarrow> nat \<Rightarrow> nat option option" where
  "lookup_slot ctl nblks blkno now i =
     (if i < nblks then do {
        c \<leftarrow> rd ctl i;
        if bc_blkno c = blkno \<and> bc_stamp c + BCACHE_TIMEOUT \<ge> now then Some (Some i)
        else lookup_slot ctl nblks blkno now (Suc i)
      } else Some None)"
  by pat_completeness auto
termination
  by (relation "measure (\<lambda>(ctl, nblks, blkno, now, i). nblks - i)") auto

text \<open>The block copied out on a hit, \<^term>\<open>None\<close> inside for \<^verbatim>\<open>ENOENT\<close>.\<close>

definition bcache_lookup :: "(nat \<Rightarrow> int) \<Rightarrow> int \<Rightarrow> bcache \<Rightarrow> (byte list option \<times> bcache) option" where
  "bcache_lookup clk blkno b = do {
     let now = clk (ticks b);
     let b' = b\<lparr>ticks := Suc (ticks b)\<rparr>;
     r \<leftarrow> lookup_slot (bcache_ctl b) (bcache_nblks b) blkno now 0;
     case r of
       None \<Rightarrow> Some (None, b')
     | Some i \<Rightarrow> do {
         data \<leftarrow> bcache_data b;
         block \<leftarrow> slice data (bcache_blksize b * i) (bcache_blksize b);
         Some (Some block, b')
       }
   }"

text \<open>\<^verbatim>\<open>bcache_invalidate\<close> clears the first entry of the block and stops.\<close>

function invalidate_ctl :: "bcachectl list \<Rightarrow> nat \<Rightarrow> int \<Rightarrow> nat \<Rightarrow> bcachectl list option" where
  "invalidate_ctl ctl nblks blkno i =
     (if i < nblks then do {
        c \<leftarrow> rd ctl i;
        if bc_blkno c = blkno then Some (ctl[i := clear_ctl c])
        else invalidate_ctl ctl nblks blkno (Suc i)
      } else Some ctl)"
  by pat_completeness auto
termination
  by (relation "measure (\<lambda>(ctl, nblks, blkno, i). nblks - i)") auto

definition bcache_invalidate :: "int \<Rightarrow> bcache \<Rightarrow> bcache option" where
  "bcache_invalidate blkno b =
     map_option (\<lambda>ctl. b\<lparr>bcache_ctl := ctl\<rparr>)
       (invalidate_ctl (bcache_ctl b) (bcache_nblks b) blkno 0)"

declare insert_cand.simps [simp del] lookup_slot.simps [simp del] invalidate_ctl.simps [simp del]

section \<open>Requests\<close>

text \<open>The loops \<^verbatim>\<open>bcache_insert(p + j * bcache_blksize, p_blk + j)\<close> over consecutive blocks.\<close>

fun insert_blocks :: "(nat \<Rightarrow> int) \<Rightarrow> byte list \<Rightarrow> int \<Rightarrow> nat \<Rightarrow> nat \<Rightarrow> bcache \<Rightarrow> bcache option" where
  "insert_blocks clk buf blk j 0 b = Some b"
| "insert_blocks clk buf blk j (Suc n) b = do {
     b' \<leftarrow> bcache_insert clk (drop (j * bcache_blksize b) buf) (blk + int j) b;
     insert_blocks clk buf blk (Suc j) n b'
   }"

fun invalidate_blocks :: "int \<Rightarrow> nat \<Rightarrow> bcache \<Rightarrow> bcache option" where
  "invalidate_blocks blk 0 b = Some b"
| "invalidate_blocks blk (Suc n) b = do {
     b' \<leftarrow> bcache_invalidate blk b;
     invalidate_blocks (blk + 1) n b'
   }"

definition write_strategy ::
  "'d strategy \<Rightarrow> (nat \<Rightarrow> int) \<Rightarrow> rwflag \<Rightarrow> int \<Rightarrow> nat \<Rightarrow> byte list \<Rightarrow> nat option \<Rightarrow> 'd \<Rightarrow> bcache \<Rightarrow>
   (int \<times> byte list \<times> nat option \<times> 'd \<times> bcache) option" where
  "write_strategy strat clk rw blk sz buf rsize d b = do {
     let nblk = sz div bcache_blksize b;
     b1 \<leftarrow> invalidate_blocks blk nblk b;
     (err, buf', rsize', d') \<leftarrow> strat d rw blk sz buf rsize;
     b2 \<leftarrow> (if err = 0 then insert_blocks clk buf' blk 0 nblk b1 else Some b1);
     Some (err, buf', rsize', d', b2)
   }"

text \<open>First pass of \<^verbatim>\<open>read_strategy\<close>: satisfy the hits, record the misses.\<close>

fun hit_pass :: "(nat \<Rightarrow> int) \<Rightarrow> int \<Rightarrow> nat \<Rightarrow> nat \<Rightarrow> byte list \<Rightarrow> bcache \<Rightarrow> (byte list \<times> bcache) option" where
  "hit_pass clk blk i 0 buf b = Some (buf, b)"
| "hit_pass clk blk i (Suc n) buf b = do {
     (r, b1) \<leftarrow> bcache_lookup clk (blk + int i) b;
     case r of
       None \<Rightarrow> do {
         miss \<leftarrow> wr (bcache_miss b1) i True;
         hit_pass clk blk (Suc i) n buf
           (b1\<lparr>bcache_miss := miss, bcache_misses := bcache_misses b1 + 1\<rparr>)
       }
     | Some block \<Rightarrow> do {
         buf' \<leftarrow> store buf (bcache_blksize b * i) block;
         miss \<leftarrow> wr (bcache_miss b1) i False;
         hit_pass clk blk (Suc i) n buf'
           (b1\<lparr>bcache_miss := miss, bcache_hits := bcache_hits b1 + 1\<rparr>)
       }
   }"

text \<open>One device transfer of \<open>p_size\<close> pending blocks into the buffer at \<open>p_off\<close>.\<close>

definition pending_transfer ::
  "'d strategy \<Rightarrow> (nat \<Rightarrow> int) \<Rightarrow> rwflag \<Rightarrow> int \<Rightarrow> nat \<Rightarrow> nat \<Rightarrow> byte list \<Rightarrow> 'd \<Rightarrow> bcache \<Rightarrow>
   (int \<times> byte list \<times> 'd \<times> bcache) option" where
  "pending_transfer strat clk rw p_blk p_off p_size buf d b = do {
     let len = p_size * bcache_blksize b;
     p_buf \<leftarrow> slice buf p_off len;
     (result, p_buf', _, d') \<leftarrow> strat d rw p_blk len p_buf None;
     buf' \<leftarrow> store buf p_off p_buf';
     if result \<noteq> 0 then Some (result, buf', d', b)
     else do {
       b' \<leftarrow> insert_blocks clk p_buf' p_blk 0 p_size b;
       Some (0, buf', d', b')
     }
   }"

text \<open>
  Second pass: runs of misses are read together.  \<open>pend\<close> is \<^verbatim>\<open>(p_blk, p_buf - buf, p_size)\<close>,
  \<^term>\<open>None\<close> while \<^verbatim>\<open>p_blk == -1\<close>.
\<close>

fun miss_pass ::
  "'d strategy \<Rightarrow> (nat \<Rightarrow> int) \<Rightarrow> rwflag \<Rightarrow> int \<Rightarrow> nat \<Rightarrow> nat \<Rightarrow> (int \<times> nat \<times> nat) option \<Rightarrow>
   byte list \<Rightarrow> 'd \<Rightarrow> bcache \<Rightarrow> (int \<times> byte list \<times> 'd \<times> bcache) option" where
  "miss_pass strat clk rw blk i 0 pend buf d b =
     (case pend of
        None \<Rightarrow> Some (0, buf, d, b)
      | Some (p_blk, p_off, p_size) \<Rightarrow> pending_transfer strat clk rw p_blk p_off p_size buf d b)"
| "miss_pass strat clk rw blk i (Suc n) pend buf d b = do {
     miss \<leftarrow> rd (bcache_miss b) i;
     if miss then
       (case pend of
          None \<Rightarrow> miss_pass strat clk rw blk (Suc i) n
                    (if blk + int i = -1 then None else Some (blk + int i, bcache_blksize b * i, 1))
                    buf d b
        | Some (p_blk, p_off, p_size) \<Rightarrow>
            miss_pass strat clk rw blk (Suc i) n (Some (p_blk, p_off, Suc p_size)) buf d b)
     else
       (case pend of
          None \<Rightarrow> miss_pass strat clk rw blk (Suc i) n None buf d b
        | Some (p_blk, p_off, p_size) \<Rightarrow> do {
            (result, buf', d', b') \<leftarrow> pending_transfer strat clk rw p_blk p_off p_size buf d b;
            if result \<noteq> 0 then Some (result, buf', d', b')
            else miss_pass strat clk rw blk (Suc i) n None buf' d' b'
          })
   }"

definition read_strategy ::
  "'d strategy \<Rightarrow> (nat \<Rightarrow> int) \<Rightarrow> rwflag \<Rightarrow> int \<Rightarrow> nat \<Rightarrow> byte list \<Rightarrow> nat option \<Rightarrow> 'd \<Rightarrow> bcache \<Rightarrow>
   (int \<times> byte list \<times> nat option \<times> 'd \<times> bcache) option" where
  "read_strategy strat clk rw blk sz buf rsize d b = do {
     let nblk = sz div bcache_blksize b;
     (buf1, b1) \<leftarrow> hit_pass clk blk 0 nblk buf b;
     (result, buf2, d2, b2) \<leftarrow> miss_pass strat clk rw blk 0 nblk None buf1 d b1;
     Some (result, buf2, if result = 0 then map_option (\<lambda>_. sz) rsize else rsize, d2, b2)
   }"

text \<open>
  The entry point.  \<open>strat unit\<close> is the \<^verbatim>\<open>dv_strategy\<close> of the \<^verbatim>\<open>devdata\<close> passed for the unit.
  The bypass test is computed in the 32-bit \<^verbatim>\<open>size_t\<close>.
\<close>

definition bcache_strategy ::
  "(int \<Rightarrow> 'd strategy) \<Rightarrow> (nat \<Rightarrow> int) \<Rightarrow> int \<Rightarrow> rwflag \<Rightarrow> int \<Rightarrow> nat \<Rightarrow> byte list \<Rightarrow> nat option \<Rightarrow>
   'd \<Rightarrow> bcache \<Rightarrow> (int \<times> byte list \<times> nat option \<times> 'd \<times> bcache) option" where
  "bcache_strategy strat clk unit rw blk sz buf rsize d b0 = do {
     let b1 = b0\<lparr>bcache_ops := bcache_ops b0 + 1\<rparr>;
     b \<leftarrow> (if bcache_unit b1 \<noteq> unit
          then map_option (\<lambda>b. b\<lparr>bcache_unit := unit\<rparr>) (bcache_flush b1) else Some b1);
     if bcache_data b \<noteq> None \<and> bcache_blksize b = 0 then None \<comment> \<open>division by zero\<close>
     else if bcache_data b = None \<or>
         (sz * 2) mod 2 ^ 32 div bcache_blksize b > bcache_nblks b then do {
       (err, buf', rsize', d') \<leftarrow> strat unit d rw blk sz buf rsize;
       Some (err, buf', rsize', d', b\<lparr>bcache_bypasses := bcache_bypasses b + 1\<rparr>)
     }
     else
       (case rw of
          F_READ \<Rightarrow> read_strategy (strat unit) clk rw blk sz buf rsize d b
        | F_WRITE \<Rightarrow> write_strategy (strat unit) clk rw blk sz buf rsize d b
        | F_OTHER \<Rightarrow> Some (-1, buf, rsize, d, b))
   }"

section \<open>Well-formed and coherent caches\<close>

text \<open>The arrays have the sizes \<^verbatim>\<open>bcache_init\<close> allocates for a cache that is in use.\<close>

definition wf_bcache :: "bcache \<Rightarrow> bool" where
  "wf_bcache b \<longleftrightarrow> 0 < bcache_blksize b \<and> 0 < bcache_nblks b \<and>
     length (bcache_ctl b) = bcache_nblks b \<and>
     length (bcache_miss b) = (bcache_nblks b + 1) div 2 \<and>
     (\<exists>data. bcache_data b = Some data \<and> length data = bcache_nblks b * bcache_blksize b)"

definition slot :: "bcache \<Rightarrow> nat \<Rightarrow> int" where
  "slot b i = bc_blkno (bcache_ctl b ! i)"

definition cblock :: "bcache \<Rightarrow> nat \<Rightarrow> byte list" where
  "cblock b i = bufblock (bcache_blksize b) (the (bcache_data b)) i"

text \<open>
  Every entry that names a block outside \<open>P\<close> names one of the unit and holds its content;
  and a block occurs at most once behind index 0 (index 0 may hold a second copy, since
  \<^verbatim>\<open>bcache_insert\<close> starts its scan at index 1).
\<close>

definition coherent :: "(int \<Rightarrow> byte list) \<Rightarrow> int \<Rightarrow> int set \<Rightarrow> bcache \<Rightarrow> bool" where
  "coherent c n P b \<longleftrightarrow> (\<forall>i < bcache_nblks b. 0 \<le> slot b i \<and> slot b i \<notin> P \<longrightarrow>
     slot b i < n \<and> cblock b i = c (slot b i))"

definition tail_unique :: "bcache \<Rightarrow> bool" where
  "tail_unique b \<longleftrightarrow> (\<forall>i j. 1 \<le> i \<and> i < bcache_nblks b \<and> 1 \<le> j \<and> j < bcache_nblks b \<and>
     0 \<le> slot b i \<and> slot b i = slot b j \<longrightarrow> i = j)"

text \<open>The fields that decide both, and those that no request changes.\<close>

definition core :: "bcache \<Rightarrow> bcachectl list \<times> byte list option \<times> nat \<times> nat" where
  "core b = (bcache_ctl b, bcache_data b, bcache_nblks b, bcache_blksize b)"

definition shape :: "bcache \<Rightarrow> nat \<times> nat \<times> bool list \<times> int" where
  "shape b = (bcache_nblks b, bcache_blksize b, bcache_miss b, bcache_unit b)"

lemma core_cong:
  assumes "core b = core b'"
  shows "coherent c n P b = coherent c n P b'" "tail_unique b = tail_unique b'"
  using assms by (simp_all add: core_def coherent_def tail_unique_def slot_def cblock_def)

section \<open>Single blocks: what the operations do\<close>

lemma insert_cand_ok:
  assumes "length ctl = nblks" "cand < nblks"
  shows "\<exists>k < nblks. insert_cand ctl nblks blkno i cand oc = Some k \<and>
    (i \<le> k \<and> bc_blkno (ctl ! k) = blkno \<or>
     (\<forall>j. i \<le> j \<and> j < nblks \<longrightarrow> bc_blkno (ctl ! j) \<noteq> blkno))"
  using assms
proof (induction ctl nblks blkno i cand oc rule: insert_cand.induct)
  case (1 ctl nblks blkno i cand oc)
  show ?case
  proof (cases "i < nblks \<and> bc_blkno (ctl ! i) \<noteq> blkno")
    case True
    let ?cand = "if bc_count (ctl ! i) < oc then i else cand"
    let ?oc = "if bc_count (ctl ! i) < oc then bc_count (ctl ! i) else oc"
    have step: "insert_cand ctl nblks blkno i cand oc = insert_cand ctl nblks blkno (Suc i) ?cand ?oc"
      using True 1 by (subst insert_cand.simps) (simp add: rd_def)
    have "\<exists>k < nblks. insert_cand ctl nblks blkno (Suc i) ?cand ?oc = Some k \<and>
        (Suc i \<le> k \<and> bc_blkno (ctl ! k) = blkno \<or>
         (\<forall>j. Suc i \<le> j \<and> j < nblks \<longrightarrow> bc_blkno (ctl ! j) \<noteq> blkno))"
      using 1 True by (cases "bc_count (ctl ! i) < oc") (auto simp: rd_def)
    then show ?thesis unfolding step using True by (metis Suc_leD le_eq_less_or_eq Suc_leI)
  next
    case False
    then show ?thesis using 1 by (subst insert_cand.simps) (auto simp: rd_def)
  qed
qed

lemma bcache_insert_ok:
  assumes wf: "wf_bcache b" and buf: "bcache_blksize b \<le> length buf"
  shows "\<exists>b' k. bcache_insert clk buf blkno b = Some b' \<and> wf_bcache b' \<and> shape b' = shape b \<and>
    k < bcache_nblks b \<and>
    (\<forall>i < bcache_nblks b. slot b' i = (if i = k then blkno else slot b i)) \<and>
    (\<forall>i < bcache_nblks b. cblock b' i = (if i = k then take (bcache_blksize b) buf else cblock b i)) \<and>
    (1 \<le> k \<and> slot b k = blkno \<or> (\<forall>i. 1 \<le> i \<and> i < bcache_nblks b \<longrightarrow> slot b i \<noteq> blkno))"
proof -
  let ?n = "bcache_nblks b" and ?bs = "bcache_blksize b"
  obtain data where data: "bcache_data b = Some data" "length data = ?n * ?bs"
    using wf by (auto simp: wf_bcache_def)
  obtain k where k: "k < ?n" "insert_cand (bcache_ctl b) ?n blkno 1 0 (bc_count (bcache_ctl b ! 0)) = Some k"
      "1 \<le> k \<and> slot b k = blkno \<or> (\<forall>i. 1 \<le> i \<and> i < ?n \<longrightarrow> slot b i \<noteq> blkno)"
    using insert_cand_ok [of "bcache_ctl b" ?n 0 blkno 1] wf by (auto simp: wf_bcache_def slot_def)
  have "Suc k * ?bs \<le> ?n * ?bs" using k(1) by (intro mult_le_mono1) simp
  then have room: "k * ?bs + 1 * ?bs \<le> length data" using data by simp
  define e where "e = \<lparr>bc_blkno = blkno, bc_stamp = clk (ticks b), bc_count = sint (bcache_bcount b)\<rparr>"
  define b' where "b' = b\<lparr>bcache_data := Some (put data (k * ?bs) (take ?bs buf)),
    bcache_ctl := (bcache_ctl b)[k := e], bcache_bcount := bcache_bcount b + 1, ticks := Suc (ticks b)\<rparr>"
  have "bcache_insert clk buf blkno b = Some b'"
    using wf k data room buf
    by (simp add: bcache_insert_def wf_bcache_def b'_def e_def mult.commute Let_def)
  moreover have "wf_bcache b'" using wf data room buf by (simp add: b'_def wf_bcache_def)
  moreover have "shape b' = shape b" by (simp add: b'_def shape_def)
  moreover have "slot b' i = (if i = k then blkno else slot b i)" if "i < ?n" for i
    using wf k that by (simp add: b'_def slot_def wf_bcache_def e_def)
  moreover have "cblock b' i = (if i = k then take ?bs buf else cblock b i)" for i
  proof -
    have "bufblock ?bs (put data (k * ?bs) (take ?bs buf)) i =
        (if k \<le> i \<and> i < k + 1 then bufblock ?bs (take ?bs buf) (i - k) else bufblock ?bs data i)"
      using buf room by (intro bufblock_put) auto
    then show ?thesis using data by (auto simp: b'_def cblock_def bufblock_def)
  qed
  ultimately show ?thesis using k by blast
qed

lemma lookup_slot_ok:
  "length ctl = nblks \<Longrightarrow> \<exists>r. lookup_slot ctl nblks blkno now i = Some r \<and>
     (\<forall>k. r = Some k \<longrightarrow> k < nblks \<and> bc_blkno (ctl ! k) = blkno \<and>
        now \<le> bc_stamp (ctl ! k) + BCACHE_TIMEOUT)"
proof (induction ctl nblks blkno now i rule: lookup_slot.induct)
  case (1 ctl nblks blkno now i)
  then show ?case by (subst lookup_slot.simps) (auto simp: rd_def)
qed

lemma bcache_lookup_ok:
  assumes "wf_bcache b"
  shows "\<exists>r. bcache_lookup clk blkno b = Some (r, b\<lparr>ticks := Suc (ticks b)\<rparr>) \<and>
    (\<forall>x. r = Some x \<longrightarrow> (\<exists>k < bcache_nblks b. slot b k = blkno \<and> x = cblock b k))"
proof -
  obtain r where r: "lookup_slot (bcache_ctl b) (bcache_nblks b) blkno (clk (ticks b)) 0 = Some r"
      "\<And>k. r = Some k \<Longrightarrow> k < bcache_nblks b \<and> slot b k = blkno"
    using lookup_slot_ok [of "bcache_ctl b" "bcache_nblks b" blkno "clk (ticks b)" 0] assms
    by (auto simp: wf_bcache_def slot_def)
  show ?thesis
  proof (cases r)
    case None
    with r show ?thesis by (simp add: bcache_lookup_def Let_def)
  next
    case (Some k)
    then have k: "k < bcache_nblks b" "slot b k = blkno" using r(2) by auto
    then have "Suc k * bcache_blksize b \<le> bcache_nblks b * bcache_blksize b"
      by (intro mult_le_mono1) simp
    then show ?thesis using r(1) k Some assms
      by (auto simp: bcache_lookup_def Let_def wf_bcache_def cblock_def bufblock_def mult.commute)
  qed
qed

lemma invalidate_ctl_ok:
  assumes "length ctl = nblks"
  shows "\<exists>ctl'. invalidate_ctl ctl nblks blkno i = Some ctl' \<and> length ctl' = nblks \<and>
    (\<forall>j < nblks. bc_blkno (ctl' ! j) = bc_blkno (ctl ! j) \<or> bc_blkno (ctl' ! j) = -1) \<and>
    (i < nblks \<longrightarrow> 0 \<le> blkno \<longrightarrow> bc_blkno (ctl' ! i) \<noteq> blkno)"
  using assms
proof (induction ctl nblks blkno i rule: invalidate_ctl.induct)
  case (1 ctl nblks blkno i)
  show ?case
  proof (cases "i < nblks \<and> bc_blkno (ctl ! i) \<noteq> blkno")
    case True
    then have step: "invalidate_ctl ctl nblks blkno i = invalidate_ctl ctl nblks blkno (Suc i)"
      using 1 by (subst invalidate_ctl.simps) (simp add: rd_def)
    have "\<exists>ctl'. invalidate_ctl ctl nblks blkno (Suc i) = Some ctl' \<and> length ctl' = nblks \<and>
        (\<forall>j < nblks. bc_blkno (ctl' ! j) = bc_blkno (ctl ! j) \<or> bc_blkno (ctl' ! j) = -1)"
      using 1 True by (auto simp: rd_def)
    then show ?thesis unfolding step using True by fastforce
  next
    case False
    then show ?thesis using 1
      by (subst invalidate_ctl.simps) (auto simp: rd_def clear_ctl_def nth_list_update)
  qed
qed

lemma bcache_invalidate_ok:
  assumes "wf_bcache b"
  shows "\<exists>b'. bcache_invalidate blkno b = Some b' \<and> wf_bcache b' \<and> shape b' = shape b \<and>
    (\<forall>i < bcache_nblks b. slot b' i = slot b i \<or> slot b' i = -1) \<and>
    (\<forall>i. cblock b' i = cblock b i) \<and> (0 \<le> blkno \<longrightarrow> slot b' 0 \<noteq> blkno)"
  using invalidate_ctl_ok [of "bcache_ctl b" "bcache_nblks b" blkno 0] assms
  by (fastforce simp: bcache_invalidate_def wf_bcache_def shape_def slot_def cblock_def)

section \<open>Runs of blocks\<close>

lemma insert_coherent:
  assumes wf: "wf_bcache b" and u: "tail_unique b" and c: "coherent c n P b" "slot b 0 \<notin> P"
    and blkno: "0 \<le> blkno" "blkno < n"
    and buf: "bcache_blksize b \<le> length buf" "take (bcache_blksize b) buf = c blkno"
  shows "\<exists>b'. bcache_insert clk buf blkno b = Some b' \<and> wf_bcache b' \<and> shape b' = shape b \<and>
    tail_unique b' \<and> coherent c n (P - {blkno}) b' \<and> slot b' 0 \<notin> P - {blkno}"
proof -
  obtain b' k where b': "bcache_insert clk buf blkno b = Some b'" "wf_bcache b'" "shape b' = shape b"
    and k: "k < bcache_nblks b"
    and sl: "\<And>i. i < bcache_nblks b \<Longrightarrow> slot b' i = (if i = k then blkno else slot b i)"
    and bl: "\<And>i. i < bcache_nblks b \<Longrightarrow> cblock b' i = (if i = k then c blkno else cblock b i)"
    and alt: "1 \<le> k \<and> slot b k = blkno \<or> (\<forall>i. 1 \<le> i \<and> i < bcache_nblks b \<longrightarrow> slot b i \<noteq> blkno)"
    using bcache_insert_ok [OF wf buf(1), of clk blkno] buf(2) by auto
  have n: "bcache_nblks b' = bcache_nblks b" "0 < bcache_nblks b"
    using b' wf by (auto simp: shape_def wf_bcache_def)
  have only: "i = k \<or> i = 0" if "i < bcache_nblks b" "slot b i = blkno" for i
    using that alt u k blkno(1) unfolding tail_unique_def
    by (metis One_nat_def less_one linorder_not_le)
  have "tail_unique b'"
    unfolding tail_unique_def n
  proof (intro allI impI)
    fix i j
    assume a: "1 \<le> i \<and> i < bcache_nblks b \<and> 1 \<le> j \<and> j < bcache_nblks b \<and>
      0 \<le> slot b' i \<and> slot b' i = slot b' j"
    show "i = j"
    proof (cases "i = k \<or> j = k")
      case True
      then show ?thesis using a sl [of i] sl [of j] only [of i] only [of j]
        by (auto split: if_splits)
    next
      case False
      then show ?thesis using a sl u unfolding tail_unique_def by auto
    qed
  qed
  moreover have "coherent c n (P - {blkno}) b'"
    unfolding coherent_def n
  proof (intro allI impI)
    fix i
    assume i: "i < bcache_nblks b" and s: "0 \<le> slot b' i \<and> slot b' i \<notin> P - {blkno}"
    show "slot b' i < n \<and> cblock b' i = c (slot b' i)"
    proof (cases "i = k")
      case True
      then show ?thesis using sl bl i blkno by simp
    next
      case False
      then have "slot b i \<notin> P" using s sl [OF i] only [OF i] c(2) by auto
      then show ?thesis using False s sl [OF i] bl [OF i] c(1) i by (auto simp: coherent_def)
    qed
  qed
  moreover have "slot b' 0 \<notin> P - {blkno}" using sl [of 0] c(2) n by auto
  ultimately show ?thesis using b' by blast
qed

lemma insert_blocks_ok:
  assumes "wf_bcache b" "tail_unique b" "coherent c n P b" "slot b 0 \<notin> P"
    and "(j + m) * bcache_blksize b \<le> length buf"
    and "\<And>i. j \<le> i \<Longrightarrow> i < j + m \<Longrightarrow> 0 \<le> blk + int i \<and> blk + int i < n \<and>
      bufblock (bcache_blksize b) buf i = c (blk + int i)"
  shows "\<exists>b'. insert_blocks clk buf blk j m b = Some b' \<and> wf_bcache b' \<and> shape b' = shape b \<and>
    tail_unique b' \<and> coherent c n (P - {blk + int j ..< blk + int (j + m)}) b'"
  using assms
proof (induction m arbitrary: j b P)
  case (Suc m)
  let ?bs = "bcache_blksize b"
  have "j * ?bs + ?bs \<le> length buf" using Suc.prems(5) by (simp add: algebra_simps)
  then have room: "?bs \<le> length buf - j * ?bs" by linarith
  have "0 \<le> blk + int j \<and> blk + int j < n \<and> bufblock ?bs buf j = c (blk + int j)"
    using Suc.prems(6) by simp
  then obtain b1 where b1: "bcache_insert clk (drop (j * ?bs) buf) (blk + int j) b = Some b1"
      "wf_bcache b1" "shape b1 = shape b" "tail_unique b1" "coherent c n (P - {blk + int j}) b1"
      "slot b1 0 \<notin> P - {blk + int j}"
    using insert_coherent [of b c n P "blk + int j" "drop (j * ?bs) buf" clk] Suc.prems room
    by (auto simp: bufblock_def)
  have bs: "bcache_blksize b1 = ?bs" using b1(3) by (simp add: shape_def)
  obtain b2 where b2: "insert_blocks clk buf blk (Suc j) m b1 = Some b2" "wf_bcache b2"
      "shape b2 = shape b1" "tail_unique b2"
      "coherent c n (P - {blk + int j} - {blk + int (Suc j) ..< blk + int (Suc j + m)}) b2"
    using Suc.IH [OF b1(2,4,5,6), of "Suc j"] Suc.prems(5,6) bs by (auto simp: algebra_simps)
  moreover have "P - {blk + int j} - {blk + int (Suc j) ..< blk + int (Suc j + m)} =
      P - {blk + int j ..< blk + int (j + Suc m)}" by auto
  ultimately show ?case using b1 by (auto simp: room)
qed simp

lemma invalidate_blocks_ok:
  assumes "wf_bcache b" "tail_unique b" "coherent c n P b" "slot b 0 \<notin> P" "0 \<le> blk"
    and "-1 \<notin> P"
  shows "\<exists>b'. invalidate_blocks blk m b = Some b' \<and> wf_bcache b' \<and> shape b' = shape b \<and>
    tail_unique b' \<and> coherent c n (P \<union> {blk ..< blk + int m}) b' \<and>
    slot b' 0 \<notin> P \<union> {blk ..< blk + int m}"
  using assms
proof (induction m arbitrary: blk b P)
  case (Suc m)
  obtain b1 where b1: "bcache_invalidate blk b = Some b1" "wf_bcache b1" "shape b1 = shape b"
      "\<And>i. i < bcache_nblks b \<Longrightarrow> slot b1 i = slot b i \<or> slot b1 i = -1"
      "\<And>i. cblock b1 i = cblock b i" "slot b1 0 \<noteq> blk"
    using bcache_invalidate_ok [OF Suc.prems(1), of blk] Suc.prems(5) by auto
  have n: "bcache_nblks b1 = bcache_nblks b" "0 < bcache_nblks b"
    using b1(3) Suc.prems(1) by (auto simp: shape_def wf_bcache_def)
  have nneg: "slot b1 i = slot b i" if "i < bcache_nblks b" "0 \<le> slot b1 i" for i
    using b1(4) [OF that(1)] that(2) by auto
  have "tail_unique b1" using Suc.prems(2) nneg unfolding tail_unique_def n by metis
  moreover have "coherent c n (insert blk P) b1"
    using Suc.prems(3) nneg b1(5) unfolding coherent_def n by fastforce
  moreover have "slot b1 0 \<notin> insert blk P" "-1 \<notin> insert blk P"
    using b1(4) [OF n(2)] b1(6) Suc.prems(4,5,6) by auto
  ultimately have "\<exists>b'. invalidate_blocks (blk + 1) m b1 = Some b' \<and> wf_bcache b' \<and>
      shape b' = shape b1 \<and> tail_unique b' \<and>
      coherent c n (insert blk P \<union> {blk + 1 ..< blk + 1 + int m}) b' \<and>
      slot b' 0 \<notin> insert blk P \<union> {blk + 1 ..< blk + 1 + int m}"
    using b1(2) Suc.prems(5) by (intro Suc.IH) auto
  moreover have "insert blk P \<union> {blk + 1 ..< blk + 1 + int m} = P \<union> {blk ..< blk + int (Suc m)}"
    by auto
  ultimately show ?case using b1(1,3) by auto
qed simp

section \<open>Reading through the cache\<close>

lemma bufblock_store_same:
  assumes "length ys = bs" "Suc i * bs \<le> length buf"
  shows "bufblock bs (put buf (bs * i) ys) j = (if j = i then ys else bufblock bs buf j)"
  using bufblock_put [of ys 1 bs i buf j] assms
  by (auto simp: mult.commute bufblock_def)

lemma hit_pass_ok:
  assumes "wf_bcache b" "coherent c cap {} b" "0 \<le> blk"
    and "length buf = N * bcache_blksize b" "i + n = N" "N \<le> length (bcache_miss b)"
    and "\<And>j. j < i \<Longrightarrow> \<not> bcache_miss b ! j \<Longrightarrow> bufblock (bcache_blksize b) buf j = c (blk + int j)"
  shows "\<exists>buf' b'. hit_pass clk blk i n buf b = Some (buf', b') \<and> length buf' = length buf \<and>
    wf_bcache b' \<and> core b' = core b \<and> bcache_unit b' = bcache_unit b \<and>
    (\<forall>j < N. \<not> bcache_miss b' ! j \<longrightarrow> bufblock (bcache_blksize b) buf' j = c (blk + int j))"
  using assms
proof (induction n arbitrary: i buf b)
  case (Suc n)
  let ?bs = "bcache_blksize b"
  obtain r where r: "bcache_lookup clk (blk + int i) b = Some (r, b\<lparr>ticks := Suc (ticks b)\<rparr>)"
      "\<And>x. r = Some x \<Longrightarrow> \<exists>k < bcache_nblks b. slot b k = blk + int i \<and> x = cblock b k"
    using bcache_lookup_ok [OF Suc.prems(1), of clk "blk + int i"] by auto
  have room: "Suc i * ?bs \<le> length buf"
    using Suc.prems(4,5) by (metis add_Suc_right le_add1 mult_le_mono1 add_Suc)
  show ?case
  proof (cases r)
    case None
    define b1 where "b1 = b\<lparr>ticks := Suc (ticks b), bcache_miss := (bcache_miss b)[i := True],
      bcache_misses := bcache_misses b + 1\<rparr>"
    have step: "hit_pass clk blk i (Suc n) buf b = hit_pass clk blk (Suc i) n buf b1"
      using r(1) None Suc.prems(5,6) by (simp add: b1_def)
    have core: "core b1 = core b" "bcache_unit b1 = bcache_unit b" "bcache_blksize b1 = ?bs"
      by (simp_all add: b1_def core_def)
    have "\<exists>buf' b'. hit_pass clk blk (Suc i) n buf b1 = Some (buf', b') \<and> length buf' = length buf \<and>
        wf_bcache b' \<and> core b' = core b1 \<and> bcache_unit b' = bcache_unit b1 \<and>
        (\<forall>j < N. \<not> bcache_miss b' ! j \<longrightarrow> bufblock (bcache_blksize b1) buf' j = c (blk + int j))"
    proof (rule Suc.IH)
      show "coherent c cap {} b1" using Suc.prems(2) core_cong(1) [OF core(1)] by blast
    qed (use Suc.prems in \<open>auto simp: b1_def wf_bcache_def nth_list_update less_Suc_eq\<close>)
    then show ?thesis unfolding step core by simp
  next
    case (Some x)
    then obtain k where k: "k < bcache_nblks b" "slot b k = blk + int i" "x = cblock b k"
      using r(2) by blast
    then have x: "x = c (blk + int i)" using Suc.prems(2,3) by (auto simp: coherent_def)
    have "Suc k * ?bs \<le> bcache_nblks b * ?bs" using k(1) by (intro mult_le_mono1) simp
    then have lx: "length x = ?bs"
      using Suc.prems(1) k(3) by (auto simp: wf_bcache_def cblock_def intro!: length_bufblock)
    define b1 where "b1 = b\<lparr>ticks := Suc (ticks b), bcache_miss := (bcache_miss b)[i := False],
      bcache_hits := bcache_hits b + 1\<rparr>"
    have step: "hit_pass clk blk i (Suc n) buf b = hit_pass clk blk (Suc i) n (put buf (?bs * i) x) b1"
      using r(1) Some Suc.prems(5,6) lx room by (simp add: b1_def mult.commute)
    have core: "core b1 = core b" "bcache_unit b1 = bcache_unit b" "bcache_blksize b1 = ?bs"
      by (simp_all add: b1_def core_def)
    note bb = bufblock_store_same [OF lx room]
    have len: "length (put buf (?bs * i) x) = length buf"
      using lx room by (simp add: mult.commute)
    have "\<exists>buf' b'. hit_pass clk blk (Suc i) n (put buf (?bs * i) x) b1 = Some (buf', b') \<and>
        length buf' = length (put buf (?bs * i) x) \<and>
        wf_bcache b' \<and> core b' = core b1 \<and> bcache_unit b' = bcache_unit b1 \<and>
        (\<forall>j < N. \<not> bcache_miss b' ! j \<longrightarrow> bufblock (bcache_blksize b1) buf' j = c (blk + int j))"
    proof (rule Suc.IH)
      show "coherent c cap {} b1" using Suc.prems(2) core_cong(1) [OF core(1)] by blast
    qed (use Suc.prems bb len x in \<open>auto simp: b1_def wf_bcache_def nth_list_update less_Suc_eq\<close>)
    then show ?thesis unfolding step core len by simp
  qed
qed auto

text \<open>The invariant of a cache in use, for blocks of \<open>bs\<close> bytes of a unit with content \<open>c\<close>.\<close>

definition cache_ok :: "nat \<Rightarrow> (int \<Rightarrow> byte list) \<Rightarrow> int \<Rightarrow> bcache \<Rightarrow> bool" where
  "cache_ok bs c n b \<longleftrightarrow>
     wf_bcache b \<and> bcache_blksize b = bs \<and> tail_unique b \<and> coherent c n {} b"

lemma coherent_cong:
  "(\<And>k. 0 \<le> k \<Longrightarrow> k < n \<Longrightarrow> k \<notin> P \<Longrightarrow> c k = c' k) \<Longrightarrow> coherent c n P b \<Longrightarrow> coherent c' n P b"
  by (auto simp: coherent_def)

lemma cache_ok_core: "core b = core b' \<Longrightarrow> wf_bcache b' \<Longrightarrow> cache_ok bs c n b \<Longrightarrow> cache_ok bs c n b'"
  using core_cong [of b b'] by (simp add: cache_ok_def core_def)

lemma cache_ok_counters [simp]:
  "cache_ok bs c n (b\<lparr>bcache_unit := u\<rparr>) = cache_ok bs c n b"
  "cache_ok bs c n (b\<lparr>bcache_ops := x\<rparr>) = cache_ok bs c n b"
  "cache_ok bs c n (b\<lparr>bcache_bypasses := x\<rparr>) = cache_ok bs c n b"
  by (simp_all add: cache_ok_def wf_bcache_def tail_unique_def coherent_def slot_def cblock_def)

context read_device
begin

definition same_cont :: "'d \<Rightarrow> 'd \<Rightarrow> bool" where
  "same_cont d d' \<longleftrightarrow> (\<forall>u. cap u d' = cap u d) \<and>
     (\<forall>u k. 0 \<le> k \<and> k < cap u d \<longrightarrow> cont u d' k = cont u d k)"

lemma same_cont_refl: "same_cont d d"
  by (simp add: same_cont_def)

lemma same_cont_trans: "same_cont d d' \<Longrightarrow> same_cont d' d'' \<Longrightarrow> same_cont d d''"
  by (simp add: same_cont_def)

lemma cache_ok_same:
  "same_cont d d' \<Longrightarrow> cache_ok bs (cont u d) (cap u d) b \<longleftrightarrow> cache_ok bs (cont u d') (cap u d') b"
  by (auto simp: cache_ok_def same_cont_def coherent_def)

lemma blocks_same:
  "same_cont d d' \<Longrightarrow> 0 \<le> blk \<Longrightarrow> blk + int n \<le> cap u d \<Longrightarrow>
   blocks (cont u d') blk n = blocks (cont u d) blk n"
  by (auto simp: blocks_def same_cont_def intro!: arg_cong [of _ _ concat])

lemma pending_transfer_ok:
  assumes d: "inv d" and b: "cache_ok bs (cont u d) (cap u d) b"
    and blk: "0 \<le> p_blk" "p_blk + int m \<le> cap u d" and buf: "length buf = N * bs" "q + m \<le> N"
  shows "\<exists>res buf' d' b'. pending_transfer (strat u) clk F_READ p_blk (bs * q) m buf d b =
      Some (res, buf', d', b') \<and> inv d' \<and> same_cont d d' \<and>
    cache_ok bs (cont u d) (cap u d) b' \<and> shape b' = shape b \<and> length buf' = length buf \<and>
    (\<forall>j < N. \<not> (q \<le> j \<and> j < q + m) \<longrightarrow> bufblock bs buf' j = bufblock bs buf j) \<and>
    (res = 0 \<longrightarrow> (\<forall>j < m. bufblock bs buf' (q + j) = cont u d (p_blk + int j)))"
proof -
  let ?c = "cont u d" and ?p = "take (m * bs) (drop (bs * q) buf)"
  have "(q + m) * bs \<le> N * bs" using buf(2) by (rule mult_le_mono1)
  then have room: "q * bs + m * bs \<le> length buf" using buf(1) by (simp add: add_mult_distrib)
  then have lp: "length ?p = m * bs" by (simp add: mult.commute)
  obtain err p' rs' d' where rd: "strat u d F_READ p_blk (m * bs) ?p None = Some (err, p', rs', d')"
      "inv d'" "length p' = m * bs" "same_cont d d'" "err = 0 \<Longrightarrow> p' = blocks ?c p_blk m"
    using read_law [OF d blk lp, of None] by (auto simp: same_cont_def)
  define buf' where "buf' = put buf (bs * q) p'"
  have bufb: "bufblock bs buf' k = (if q \<le> k \<and> k < q + m then bufblock bs p' (k - q) else bufblock bs buf k)" for k
    using bufblock_put [OF rd(3) room] by (simp add: buf'_def mult.commute)
  have lb: "length buf' = length buf" using room rd(3) by (simp add: buf'_def mult.commute)
  have bsz: "bcache_blksize b = bs" using b by (simp add: cache_ok_def)
  have pre: "pending_transfer (strat u) clk F_READ p_blk (bs * q) m buf d b =
      (if err \<noteq> 0 then Some (err, buf', d', b)
       else map_option (\<lambda>b'. (0, buf', d', b')) (insert_blocks clk p' p_blk 0 m b))"
    using room rd(1,3) bsz
    by (auto simp: pending_transfer_def Let_def buf'_def mult.commute map_conv_bind_option comp_def)
  show ?thesis
  proof (cases "err = 0")
    case False
    then show ?thesis using pre rd b lb bufb by auto
  next
    case True
    have len: "length (?c (p_blk + int i)) = bs" if "i < m" for i
      using cont_length [OF d] blk that by simp
    have blockj: "bufblock bs p' j = ?c (p_blk + int j)" if "j < m" for j
      using rd(5) [OF True] bufblock_blocks [of m ?c p_blk bs j] len that by simp
    obtain b' where b': "insert_blocks clk p' p_blk 0 m b = Some b'" "wf_bcache b'" "shape b' = shape b"
        "tail_unique b'" "coherent ?c (cap u d) ({} - {p_blk + int 0 ..< p_blk + int (0 + m)}) b'"
      using insert_blocks_ok [of b ?c "cap u d" "{}" 0 m p' p_blk clk] b rd(3) bsz blockj blk
      by (auto simp: cache_ok_def)
    have "cache_ok bs ?c (cap u d) b'"
      using b' bsz by (simp add: cache_ok_def shape_def)
    moreover have "\<forall>j < m. bufblock bs buf' (q + j) = ?c (p_blk + int j)"
      using bufb blockj by simp
    ultimately show ?thesis using pre True rd b'(1,3) lb bufb by auto
  qed
qed

text \<open>
  The state of the second pass after \<open>i\<close> blocks: the pending run is the blocks \<open>q ..< i\<close>, and
  every block that is neither pending nor a miss still to come is already in the buffer.
\<close>

lemma pending_run_ok:
  assumes "inv d" "cache_ok bs (cont u d) (cap u d) b"
    and "0 \<le> blk" "blk + int N \<le> cap u d" "length buf = N * bs" "i \<le> N" "q < i"
    and filled: "\<And>j. j < N \<Longrightarrow> j < q \<or> i \<le> j \<and> \<not> bcache_miss b ! j \<Longrightarrow>
      bufblock bs buf j = cont u d (blk + int j)"
  shows "\<exists>res buf' d' b'. pending_transfer (strat u) clk F_READ (blk + int q) (bs * q) (i - q) buf d b =
      Some (res, buf', d', b') \<and> inv d' \<and> same_cont d d' \<and>
    cache_ok bs (cont u d) (cap u d) b' \<and> shape b' = shape b \<and> length buf' = length buf \<and>
    (res = 0 \<longrightarrow> (\<forall>j < N. j < i \<or> \<not> bcache_miss b ! j \<longrightarrow>
      bufblock bs buf' j = cont u d (blk + int j)))"
proof -
  obtain res buf' d' b' where t: "pending_transfer (strat u) clk F_READ (blk + int q) (bs * q) (i - q) buf d b =
      Some (res, buf', d', b')" "inv d'" "same_cont d d'" "cache_ok bs (cont u d) (cap u d) b'"
      "shape b' = shape b" "length buf' = length buf"
    and out: "\<And>j. j < N \<Longrightarrow> \<not> (q \<le> j \<and> j < q + (i - q)) \<Longrightarrow> bufblock bs buf' j = bufblock bs buf j"
    and run: "res = 0 \<Longrightarrow> \<forall>j < i - q. bufblock bs buf' (q + j) = cont u d (blk + int q + int j)"
    using pending_transfer_ok [of d u b "blk + int q" "i - q" buf N q clk] assms by auto
  have "bufblock bs buf' j = cont u d (blk + int j)"
    if "res = 0" "j < N" "j < i \<or> \<not> bcache_miss b ! j" for j
  proof (cases "q \<le> j \<and> j < i")
    case True
    then have "j - q < i - q" by auto
    then show ?thesis using run [OF that(1)] True by (auto dest!: spec [of _ "j - q"])
  next
    case False
    then show ?thesis using out [OF that(2)] filled [OF that(2)] that(3) assms(7)
      by (metis le_add_diff_inverse less_or_eq_imp_le linorder_not_less)
  qed
  then show ?thesis using t by auto
qed

lemma miss_pass_ok:
  assumes "inv d" "cache_ok bs (cont u d) (cap u d) b"
    and "0 \<le> blk" "blk + int N \<le> cap u d" "length buf = N * bs" "i + n = N"
    and "N \<le> length (bcache_miss b)" "q \<le> i"
    and "pend = (if q < i then Some (blk + int q, bs * q, i - q) else None)"
    and "\<And>j. j < N \<Longrightarrow> j < q \<or> i \<le> j \<and> \<not> bcache_miss b ! j \<Longrightarrow>
      bufblock bs buf j = cont u d (blk + int j)"
  shows "\<exists>res buf' d' b'. miss_pass (strat u) clk F_READ blk i n pend buf d b = Some (res, buf', d', b') \<and>
    inv d' \<and> same_cont d d' \<and> cache_ok bs (cont u d) (cap u d) b' \<and> shape b' = shape b \<and>
    length buf' = length buf \<and>
    (res = 0 \<longrightarrow> (\<forall>j < N. bufblock bs buf' j = cont u d (blk + int j)))"
  using assms
proof (induction n arbitrary: i q pend buf d b)
  case 0
  then show ?case
    using pending_run_ok [of d u b blk N buf i q clk] same_cont_refl by (cases "q < i") auto
next
  case (Suc n)
  have i: "i < length (bcache_miss b)" "bcache_blksize b = bs" "i < N" "blk + int i \<noteq> -1"
    using Suc.prems by (auto simp: cache_ok_def)
  consider (miss) "bcache_miss b ! i" | (hit) "\<not> bcache_miss b ! i" "\<not> q < i"
    | (flush) "\<not> bcache_miss b ! i" "q < i" by blast
  then show ?case
  proof cases
    case miss
    let ?q = "if q < i then q else i"
    have step: "miss_pass (strat u) clk F_READ blk i (Suc n) pend buf d b =
        miss_pass (strat u) clk F_READ blk (Suc i) n
          (if ?q < Suc i then Some (blk + int ?q, bs * ?q, Suc i - ?q) else None) buf d b"
      using miss i Suc.prems(8,9) by (auto simp: Suc_diff_le)
    show ?thesis unfolding step
      by (rule Suc.IH [of d b buf "Suc i" ?q]) (use Suc.prems in \<open>auto split: if_splits\<close>)
  next
    case hit
    then have step: "miss_pass (strat u) clk F_READ blk i (Suc n) pend buf d b =
        miss_pass (strat u) clk F_READ blk (Suc i) n None buf d b"
      using i Suc.prems(9) by simp
    show ?thesis unfolding step
      by (rule Suc.IH [of d b buf "Suc i" "Suc i"])
         (use Suc.prems hit in \<open>auto simp: less_Suc_eq\<close>)
  next
    case flush
    obtain res buf' d' b' where t: "pending_transfer (strat u) clk F_READ (blk + int q) (bs * q) (i - q) buf d b =
        Some (res, buf', d', b')" "inv d'" "same_cont d d'" "cache_ok bs (cont u d) (cap u d) b'"
        "shape b' = shape b" "length buf' = length buf"
        "res = 0 \<Longrightarrow> (\<forall>j < N. j < i \<or> \<not> bcache_miss b ! j \<longrightarrow>
           bufblock bs buf' j = cont u d (blk + int j))"
      using pending_run_ok [of d u b blk N buf i q clk] flush(2) Suc.prems by auto
    have step: "miss_pass (strat u) clk F_READ blk i (Suc n) pend buf d b =
        (if res \<noteq> 0 then Some (res, buf', d', b')
         else miss_pass (strat u) clk F_READ blk (Suc i) n None buf' d' b')"
      using flush i Suc.prems(9) t(1) by simp
    show ?thesis
    proof (cases "res = 0")
      case False
      then show ?thesis using step t by auto
    next
      case res: True
      have same: "cap u d' = cap u d" "\<And>j. j < N \<Longrightarrow> cont u d' (blk + int j) = cont u d (blk + int j)"
          "bcache_miss b' = bcache_miss b"
        using t(3,5) Suc.prems(3,4) by (auto simp: same_cont_def shape_def)
      have "\<exists>res buf'' d'' b''. miss_pass (strat u) clk F_READ blk (Suc i) n None buf' d' b' =
          Some (res, buf'', d'', b'') \<and> inv d'' \<and> same_cont d' d'' \<and>
          cache_ok bs (cont u d') (cap u d') b'' \<and> shape b'' = shape b' \<and> length buf'' = length buf' \<and>
          (res = 0 \<longrightarrow> (\<forall>j < N. bufblock bs buf'' j = cont u d' (blk + int j)))"
      proof (rule Suc.IH [of d' b' buf' "Suc i" "Suc i"])
        show "cache_ok bs (cont u d') (cap u d') b'" using cache_ok_same [OF t(3)] t(4) by blast
      qed (use Suc.prems t(2,6,7) same res flush in \<open>auto simp: less_Suc_eq\<close>)
      then show ?thesis
        using step res t(3,5,6) same cache_ok_same [OF t(3)] by (auto intro: same_cont_trans)
    qed
  qed
qed

lemma read_strategy_ok:
  assumes d: "inv d" and b: "cache_ok bs (cont u d) (cap u d) b"
    and blk: "0 \<le> blk" "blk + int N \<le> cap u d" and buf: "length buf = N * bs"
    and miss: "N \<le> length (bcache_miss b)"
  shows "\<exists>res buf' rs' d' b'. read_strategy (strat u) clk F_READ blk (N * bs) buf rs d b =
      Some (res, buf', rs', d', b') \<and> inv d' \<and> same_cont d d' \<and>
    cache_ok bs (cont u d) (cap u d) b' \<and> bcache_unit b' = bcache_unit b \<and> length buf' = N * bs \<and>
    (res = 0 \<longrightarrow> buf' = blocks (cont u d) blk N)"
proof -
  have bsz: "bcache_blksize b = bs" "N * bs div bs = N" using b bs_pos by (auto simp: cache_ok_def)
  obtain buf1 b1 where h: "hit_pass clk blk 0 N buf b = Some (buf1, b1)" "length buf1 = length buf"
      "wf_bcache b1" "core b1 = core b" "bcache_unit b1 = bcache_unit b"
      "\<forall>j < N. \<not> bcache_miss b1 ! j \<longrightarrow> bufblock bs buf1 j = cont u d (blk + int j)"
    using hit_pass_ok [of b "cont u d" "cap u d" blk buf N 0 N clk] b blk buf miss
    by (auto simp: cache_ok_def)
  have b1: "cache_ok bs (cont u d) (cap u d) b1"
    using cache_ok_core [of b b1] h(3,4) b by simp
  have "length (bcache_miss b1) = length (bcache_miss b)"
    using h(3,4) b by (auto simp: wf_bcache_def core_def cache_ok_def)
  then obtain res buf' d' b' where m: "miss_pass (strat u) clk F_READ blk 0 N None buf1 d b1 =
      Some (res, buf', d', b')" "inv d'" "same_cont d d'" "cache_ok bs (cont u d) (cap u d) b'"
      "shape b' = shape b1" "length buf' = length buf1"
      "res = 0 \<Longrightarrow> \<forall>j < N. bufblock bs buf' j = cont u d (blk + int j)"
    using miss_pass_ok [of d u b1 blk N buf1 0 N 0 None clk] d b1 blk h(2,6) buf miss by auto
  have "buf' = blocks (cont u d) blk N" if "res = 0"
    using m(7) [OF that] m(6) h(2) buf by (intro eq_blocksI) auto
  then show ?thesis
    using h m bsz buf by (auto simp: read_strategy_def Let_def shape_def)
qed

end

context block_device
begin

lemma write_strategy_ok:
  assumes d: "inv d" and b: "cache_ok bs (cont u d) (cap u d) b"
    and blk: "0 \<le> blk" "blk + int N \<le> cap u d" and buf: "length buf = N * bs"
  shows "\<exists>err rs' d' b'. write_strategy (strat u) clk F_WRITE blk (N * bs) buf rs d b =
      Some (err, buf, rs', d', b') \<and> inv d' \<and> (\<forall>u. cap u d' = cap u d) \<and>
    bcache_unit b' = bcache_unit b \<and> wf_bcache b' \<and> bcache_blksize b' = bs \<and>
    (\<forall>u' k. 0 \<le> k \<and> k < cap u' d \<and> \<not> (u' = u \<and> blk \<le> k \<and> k < blk + int N) \<longrightarrow>
      cont u' d' k = cont u' d k) \<and>
    (err = 0 \<longrightarrow> cache_ok bs (cont u d') (cap u d') b' \<and>
      (\<forall>j < N. cont u d' (blk + int j) = bufblock bs buf j))"
proof -
  let ?P = "{blk ..< blk + int N}"
  have bsz: "bcache_blksize b = bs" "N * bs div bs = N" using b bs_pos by (auto simp: cache_ok_def)
  obtain b1 where b1: "invalidate_blocks blk N b = Some b1" "wf_bcache b1" "shape b1 = shape b"
      "tail_unique b1" "coherent (cont u d) (cap u d) ?P b1" "slot b1 0 \<notin> ?P"
    using invalidate_blocks_ok [of b "cont u d" "cap u d" "{}" blk N] b blk by (auto simp: cache_ok_def)
  obtain err rs' d' where w: "strat u d F_WRITE blk (N * bs) buf rs = Some (err, buf, rs', d')"
      "inv d'" "\<forall>u. cap u d' = cap u d"
      "\<forall>u' k. 0 \<le> k \<and> k < cap u' d \<and> \<not> (u' = u \<and> blk \<le> k \<and> k < blk + int N) \<longrightarrow>
        cont u' d' k = cont u' d k"
      "err = 0 \<Longrightarrow> \<forall>j < N. cont u d' (blk + int j) = bufblock bs buf j"
    using write_law [OF d blk buf, of rs] by auto
  show ?thesis
  proof (cases "err = 0")
    case False
    then show ?thesis using b1 w bsz
      by (auto simp: write_strategy_def Let_def shape_def)
  next
    case True
    have "coherent (cont u d') (cap u d') ?P b1"
      using b1(5) w(3,4) by (auto intro: coherent_cong)
    then obtain b2 where b2: "insert_blocks clk buf blk 0 N b1 = Some b2" "wf_bcache b2"
        "shape b2 = shape b1" "tail_unique b2"
        "coherent (cont u d') (cap u d') (?P - {blk + int 0 ..< blk + int (0 + N)}) b2"
      using insert_blocks_ok [of b1 "cont u d'" "cap u d'" ?P 0 N buf blk clk]
        b1(2,3,4,6) w(3) w(5) [OF True] bsz buf blk by (auto simp: shape_def)
    then have "cache_ok bs (cont u d') (cap u d') b2"
      using bsz b1(3) by (simp add: cache_ok_def shape_def)
    then show ?thesis using b1(1,3) b2(1,2,3) w True bsz
      by (auto simp: write_strategy_def Let_def shape_def)
  qed
qed

end

section \<open>Requests: the invariant of the whole component\<close>

text \<open>
  The cache has its arrays, and if it holds blocks of a unit at all (\<^verbatim>\<open>bcache_unit\<close> starts
  at \<open>-1\<close>) it is coherent with that unit.
\<close>

definition bcache_inv :: "nat \<Rightarrow> (int \<Rightarrow> int \<Rightarrow> byte list) \<Rightarrow> (int \<Rightarrow> int) \<Rightarrow> bcache \<Rightarrow> bool" where
  "bcache_inv bs c n b \<longleftrightarrow> wf_bcache b \<and> bcache_blksize b = bs \<and>
     (0 \<le> bcache_unit b \<longrightarrow> cache_ok bs (c (bcache_unit b)) (n (bcache_unit b)) b)"

lemma flush_ok:
  assumes "wf_bcache b"
  shows "\<exists>b'. bcache_flush b = Some b' \<and> shape b' = shape b \<and> cache_ok (bcache_blksize b) c n b'"
proof -
  have "\<forall>i < bcache_nblks b. bc_blkno (map clear_ctl (bcache_ctl b) ! i) = -1"
    using assms by (auto simp: wf_bcache_def clear_ctl_def)
  then show ?thesis using assms
    by (auto simp: bcache_flush_def Let_def wf_bcache_def cache_ok_def shape_def tail_unique_def
        coherent_def slot_def)
qed

text \<open>Selecting the unit: afterwards the cache is coherent with the unit of the request.\<close>

lemma select_unit_ok:
  assumes "bcache_inv bs c n b" "0 \<le> unit"
  shows "\<exists>b'. (if bcache_unit b \<noteq> unit
      then map_option (\<lambda>b. b\<lparr>bcache_unit := unit\<rparr>) (bcache_flush b) else Some b) = Some b' \<and>
    cache_ok bs (c unit) (n unit) b' \<and> bcache_unit b' = unit \<and> bcache_nblks b' = bcache_nblks b \<and>
    (bcache_unit b = unit \<longrightarrow> b' = b)"
proof (cases "bcache_unit b = unit")
  case False
  obtain b' where b': "bcache_flush b = Some b'" "shape b' = shape b"
      "cache_ok (bcache_blksize b) (c unit) (n unit) b'"
    using flush_ok [of b "c unit" "n unit"] assms(1) by (auto simp: bcache_inv_def)
  then have "cache_ok bs (c unit) (n unit) (b'\<lparr>bcache_unit := unit\<rparr>)"
    using assms(1) by (simp add: bcache_inv_def)
  then show ?thesis using False b' by (auto simp: shape_def)
qed (use assms in \<open>auto simp: bcache_inv_def\<close>)

text \<open>The bitmap of misses, sized for half the cache, is large enough for every request that is
  not bypassed.\<close>

lemma not_bypassed_fits:
  assumes "cache_ok bs c n b" "N * bs < 2 ^ 31"
    and "\<not> (N * bs * 2) mod 2 ^ 32 div bs > bcache_nblks b"
  shows "N \<le> length (bcache_miss b)"
proof -
  have "0 < bs" using assms(1) by (auto simp: cache_ok_def wf_bcache_def)
  moreover have "(N * bs * 2) mod 2 ^ 32 = 2 * N * bs" using assms(2) by simp
  ultimately have "2 * N \<le> bcache_nblks b" using assms(3) by simp
  then show ?thesis using assms(1) by (auto simp: cache_ok_def wf_bcache_def)
qed

lemma bcache_inv_ops [simp]:
  "bcache_inv bs c n (b\<lparr>bcache_ops := x\<rparr>) = bcache_inv bs c n b"
  by (simp add: bcache_inv_def wf_bcache_def)

lemma cache_ok_imp_inv: "cache_ok bs (c (bcache_unit b)) (n (bcache_unit b)) b \<Longrightarrow> bcache_inv bs c n b"
  by (simp add: bcache_inv_def cache_ok_def)

lemma wf_imp_inv: "wf_bcache b \<Longrightarrow> bcache_blksize b = bs \<Longrightarrow> bcache_unit b < 0 \<Longrightarrow> bcache_inv bs c n b"
  by (simp add: bcache_inv_def)

text \<open>The common prefix of every request: count it, select the unit, test for the bypass.\<close>

lemma strategy_prefix:
  assumes "bcache_inv bs c n b0" "0 \<le> unit"
  shows "\<exists>b. cache_ok bs (c unit) (n unit) b \<and> bcache_unit b = unit \<and>
    bcache_nblks b = bcache_nblks b0 \<and>
    (\<forall>rw blk sz buf rs d. bcache_strategy strat clk unit rw blk sz buf rs d b0 =
      (if (sz * 2) mod 2 ^ 32 div bs > bcache_nblks b0
       then map_option (\<lambda>(err, buf', rs', d'). (err, buf', rs', d', b\<lparr>bcache_bypasses := bcache_bypasses b + 1\<rparr>))
         (strat unit d rw blk sz buf rs)
       else case rw of
          F_READ \<Rightarrow> read_strategy (strat unit) clk rw blk sz buf rs d b
        | F_WRITE \<Rightarrow> write_strategy (strat unit) clk rw blk sz buf rs d b
        | F_OTHER \<Rightarrow> Some (-1, buf, rs, d, b)))"
proof -
  let ?b1 = "b0\<lparr>bcache_ops := bcache_ops b0 + 1\<rparr>"
  obtain b where b: "(if bcache_unit ?b1 \<noteq> unit
      then map_option (\<lambda>b. b\<lparr>bcache_unit := unit\<rparr>) (bcache_flush ?b1) else Some ?b1) = Some b"
      "cache_ok bs (c unit) (n unit) b" "bcache_unit b = unit" "bcache_nblks b = bcache_nblks b0"
    using select_unit_ok [of bs c n ?b1 unit] assms by auto
  have "bcache_blksize b = bs" "bcache_data b \<noteq> None" "bs \<noteq> 0"
    using b(2) by (auto simp: cache_ok_def wf_bcache_def)
  then have "bcache_strategy strat clk unit rw blk sz buf rs d b0 =
      (if (sz * 2) mod 2 ^ 32 div bs > bcache_nblks b0
       then map_option (\<lambda>(err, buf', rs', d'). (err, buf', rs', d', b\<lparr>bcache_bypasses := bcache_bypasses b + 1\<rparr>))
         (strat unit d rw blk sz buf rs)
       else case rw of
          F_READ \<Rightarrow> read_strategy (strat unit) clk rw blk sz buf rs d b
        | F_WRITE \<Rightarrow> write_strategy (strat unit) clk rw blk sz buf rs d b
        | F_OTHER \<Rightarrow> Some (-1, buf, rs, d, b))" for rw blk sz buf rs d
    unfolding bcache_strategy_def Let_def using b(1,4)
    by (auto simp: map_conv_bind_option comp_def split_def split: rwflag.split)
  then show ?thesis using b by blast
qed

context block_device
begin

lemma strategy_read_ok:
  assumes d: "inv d" and b: "bcache_inv bs (\<lambda>u. cont u d) (\<lambda>u. cap u d) b" and unit: "0 \<le> unit"
    and blk: "0 \<le> blk" "blk + int N \<le> cap unit d" and buf: "length buf = N * bs" "N * bs < 2 ^ 31"
  shows "\<exists>err buf' rs' d' b'. bcache_strategy strat clk unit F_READ blk (N * bs) buf rs d b =
      Some (err, buf', rs', d', b') \<and> inv d' \<and> same_cont d d' \<and>
    bcache_inv bs (\<lambda>u. cont u d') (\<lambda>u. cap u d') b' \<and> (err = 0 \<longrightarrow> buf' = blocks (cont unit d) blk N)"
proof -
  obtain b1 where b1: "cache_ok bs (cont unit d) (cap unit d) b1" "bcache_unit b1 = unit"
      "bcache_nblks b1 = bcache_nblks b"
    and eq: "\<And>rw blk sz buf rs d. bcache_strategy strat clk unit rw blk sz buf rs d b =
      (if (sz * 2) mod 2 ^ 32 div bs > bcache_nblks b
       then map_option (\<lambda>(err, buf', rs', d'). (err, buf', rs', d', b1\<lparr>bcache_bypasses := bcache_bypasses b1 + 1\<rparr>))
         (strat unit d rw blk sz buf rs)
       else case rw of
          F_READ \<Rightarrow> read_strategy (strat unit) clk rw blk sz buf rs d b1
        | F_WRITE \<Rightarrow> write_strategy (strat unit) clk rw blk sz buf rs d b1
        | F_OTHER \<Rightarrow> Some (-1, buf, rs, d, b1))"
    using strategy_prefix [OF b unit, of strat clk] by auto
  show ?thesis
  proof (cases "(N * bs * 2) mod 2 ^ 32 div bs > bcache_nblks b")
    case True
    obtain err buf' rs' d' where r: "strat unit d F_READ blk (N * bs) buf rs = Some (err, buf', rs', d')"
        "inv d'" "same_cont d d'" "err = 0 \<longrightarrow> buf' = blocks (cont unit d) blk N"
      using read_law [OF d blk buf(1), of rs] by (auto simp: same_cont_def)
    show ?thesis using r True cache_ok_same [OF r(3), of unit b1] b1
      by (auto simp: eq intro!: cache_ok_imp_inv)
  next
    case False
    then have "N \<le> length (bcache_miss b1)" using not_bypassed_fits [OF b1(1) buf(2)] b1(3) by simp
    then obtain res buf' rs' d' b' where r: "read_strategy (strat unit) clk F_READ blk (N * bs) buf rs d b1 =
        Some (res, buf', rs', d', b')" "inv d'" "same_cont d d'" "cache_ok bs (cont unit d) (cap unit d) b'"
        "bcache_unit b' = unit" "res = 0 \<longrightarrow> buf' = blocks (cont unit d) blk N"
      using read_strategy_ok [OF d b1(1) blk buf(1), of clk rs] b1(2) by auto
    show ?thesis using r False cache_ok_same [OF r(3), of unit b']
      by (auto simp: eq intro!: cache_ok_imp_inv)
  qed
qed

lemma strategy_write_ok:
  assumes d: "inv d" and b: "bcache_inv bs (\<lambda>u. cont u d) (\<lambda>u. cap u d) b" and unit: "0 \<le> unit"
    and blk: "0 \<le> blk" "blk + int N \<le> cap unit d" and buf: "length buf = N * bs" "N * bs < 2 ^ 31"
    and small: "2 * N \<le> bcache_nblks b"
  shows "\<exists>err rs' d' b'. bcache_strategy strat clk unit F_WRITE blk (N * bs) buf rs d b =
      Some (err, buf, rs', d', b') \<and> inv d' \<and> (\<forall>u. cap u d' = cap u d) \<and>
    (\<forall>u' k. 0 \<le> k \<and> k < cap u' d \<and> \<not> (u' = unit \<and> blk \<le> k \<and> k < blk + int N) \<longrightarrow>
      cont u' d' k = cont u' d k) \<and>
    (err = 0 \<longrightarrow> bcache_inv bs (\<lambda>u. cont u d') (\<lambda>u. cap u d') b' \<and>
      (\<forall>j < N. cont unit d' (blk + int j) = bufblock bs buf j))"
proof -
  obtain b1 where b1: "cache_ok bs (cont unit d) (cap unit d) b1" "bcache_unit b1 = unit"
    and eq: "\<And>rw blk sz buf rs d. bcache_strategy strat clk unit rw blk sz buf rs d b =
      (if (sz * 2) mod 2 ^ 32 div bs > bcache_nblks b
       then map_option (\<lambda>(err, buf', rs', d'). (err, buf', rs', d', b1\<lparr>bcache_bypasses := bcache_bypasses b1 + 1\<rparr>))
         (strat unit d rw blk sz buf rs)
       else case rw of
          F_READ \<Rightarrow> read_strategy (strat unit) clk rw blk sz buf rs d b1
        | F_WRITE \<Rightarrow> write_strategy (strat unit) clk rw blk sz buf rs d b1
        | F_OTHER \<Rightarrow> Some (-1, buf, rs, d, b1))"
    using strategy_prefix [OF b unit, of strat clk] by auto
  have "(N * bs * 2) mod 2 ^ 32 = 2 * N * bs" using buf(2) by simp
  then have "\<not> (N * bs * 2) mod 2 ^ 32 div bs > bcache_nblks b" using small bs_pos by simp
  then show ?thesis
    using write_strategy_ok [OF d b1(1) blk buf(1), of clk rs] b1(2)
    by (auto simp: eq intro!: cache_ok_imp_inv)
qed

end

section \<open>Sequences of requests\<close>

text \<open>
  The states that a loader run can bring the pair of devices and cache into: reads of any size
  and on any unit (failing ones included), and successful writes of at most half the cache.
\<close>

inductive bc_run ::
  "(int \<Rightarrow> 'd strategy) \<Rightarrow> (nat \<Rightarrow> int) \<Rightarrow> (int \<Rightarrow> 'd \<Rightarrow> int) \<Rightarrow> nat \<Rightarrow> 'd \<times> bcache \<Rightarrow> 'd \<times> bcache \<Rightarrow> bool"
  for strat clk cap bs where
  run_start: "bc_run strat clk cap bs s s"
| run_read: "bc_run strat clk cap bs s (d, b) \<Longrightarrow> 0 \<le> unit \<Longrightarrow> 0 \<le> blk \<Longrightarrow> blk + int n \<le> cap unit d \<Longrightarrow>
    length buf = n * bs \<Longrightarrow> n * bs < 2 ^ 31 \<Longrightarrow>
    bcache_strategy strat clk unit F_READ blk (n * bs) buf rs d b = Some (err, buf', rs', d', b') \<Longrightarrow>
    bc_run strat clk cap bs s (d', b')"
| run_write: "bc_run strat clk cap bs s (d, b) \<Longrightarrow> 0 \<le> unit \<Longrightarrow> 0 \<le> blk \<Longrightarrow> blk + int n \<le> cap unit d \<Longrightarrow>
    length buf = n * bs \<Longrightarrow> n * bs < 2 ^ 31 \<Longrightarrow> 2 * n \<le> bcache_nblks b \<Longrightarrow>
    bcache_strategy strat clk unit F_WRITE blk (n * bs) buf rs d b = Some (0, buf', rs', d', b') \<Longrightarrow>
    bc_run strat clk cap bs s (d', b')"

context block_device
begin

lemma bc_run_inv:
  assumes "bc_run strat clk cap bs s t" "inv (fst s)" "bcache_inv bs (\<lambda>u. cont u (fst s)) (\<lambda>u. cap u (fst s)) (snd s)"
  shows "inv (fst t) \<and> bcache_inv bs (\<lambda>u. cont u (fst t)) (\<lambda>u. cap u (fst t)) (snd t)"
  using assms
proof (induction rule: bc_run.induct)
  case (run_read s d b unit blk n buf rs err buf' rs' d' b')
  then show ?case
    using strategy_read_ok [of d b unit blk n buf clk rs] by auto
next
  case (run_write s d b unit blk n buf rs buf' rs' d' b')
  then show ?case
    using strategy_write_ok [of d b unit blk n buf clk rs] by auto
qed simp

end

section \<open>Properties\<close>

text \<open>
  C1: start from a cache that \<open>bcache_init\<close> has just set up (with whatever the allocators left
  in the arrays) over any driver that keeps the block-device contract, and issue any sequence of
  reads and of successful writes of at most half the cache, on any units.  Then a read that
  reports success delivers exactly the bytes the device holds at that moment, whatever mix of
  hits, misses and bypasses it takes.  A write of at most half the cache, successful or not, changes
  no block of any device outside its range, and when it reports success the device holds what was
  written.  Neither request leaves the arrays of the cache or the buffer of the caller: both end
  with a result.
\<close>

theorem bcache_read_transparent:
  assumes dev: "block_device strat ok cont cap bs" and d0: "ok d0"
    and init: "bcache_init alloc_data alloc_ctl bit_alloc nblks bs b = (0, b0)" "bcache_unit b = -1"
    and alloc: "\<And>n x. alloc_data n = Some x \<Longrightarrow> length x = n" "\<And>n x. alloc_ctl n = Some x \<Longrightarrow> length x = n"
      "\<And>n x. bit_alloc n = Some x \<Longrightarrow> length x = n"
    and size: "0 < nblks" "nblks * bs < 2 ^ 32"
    and run: "bc_run strat clk cap bs (d0, b0) (d, b')"
    and req: "0 \<le> unit" "0 \<le> blk" "blk + int n \<le> cap unit d" "length buf = n * bs" "n * bs < 2 ^ 31"
  shows "(\<exists>err buf' rs' d' b''. bcache_strategy strat clk unit F_READ blk (n * bs) buf rs d b' =
      Some (err, buf', rs', d', b'') \<and> (err = 0 \<longrightarrow> buf' = blocks (cont unit d) blk n)) \<and>
    (2 * n \<le> bcache_nblks b' \<longrightarrow>
      (\<exists>err rs' d' b''. bcache_strategy strat clk unit F_WRITE blk (n * bs) buf rs d b' = Some (err, buf, rs', d', b'') \<and>
        (\<forall>u k. 0 \<le> k \<and> k < cap u d \<and> \<not> (u = unit \<and> blk \<le> k \<and> k < blk + int n) \<longrightarrow> cont u d' k = cont u d k) \<and>
        (err = 0 \<longrightarrow> (\<forall>j < n. cont unit d' (blk + int j) = bufblock bs buf j))))"
proof -
  have "0 < bs" using dev by (simp add: block_device_def read_device_def)
  then have "wf_bcache b0 \<and> bcache_blksize b0 = bs \<and> bcache_unit b0 = -1"
    using init alloc size
    by (auto simp: bcache_init_def Let_def wf_bcache_def ENOMEM_def split: option.splits)
  then have "bcache_inv bs (\<lambda>u. cont u d0) (\<lambda>u. cap u d0) b0" by (simp add: wf_imp_inv)
  then have d: "ok d" and b': "bcache_inv bs (\<lambda>u. cont u d) (\<lambda>u. cap u d) b'"
    using block_device.bc_run_inv [OF dev run] d0 by simp_all
  then show ?thesis
    using block_device.strategy_read_ok [OF dev d b' req, of clk rs] block_device.strategy_write_ok [OF dev d b' req, of clk rs] by blast
qed

text \<open>
  The theorem applied: the memory disk of \<^verbatim>\<open>md.c\<close> with one block, a cache of two blocks.
\<close>

definition demo_cache :: bcache where
  "demo_cache = snd (bcache_init (\<lambda>n. Some (replicate n 0)) (\<lambda>n. Some (replicate n \<lparr>bc_blkno = 0, bc_stamp = 0, bc_count = 0\<rparr>))
     (\<lambda>n. Some (replicate n False)) 2 MD_BLOCK_SIZE bcache_statics)"

theorem bcache_read_transparent_witness:
  "(\<exists>err buf' rs' d' b''. bcache_strategy md_strategy (\<lambda>_. 0) 0 F_READ 0 (1 * MD_BLOCK_SIZE) (replicate 512 9) None (replicate 512 7) demo_cache =
      Some (err, buf', rs', d', b'') \<and> (err = 0 \<longrightarrow> buf' = blocks (md_cont 0 (replicate 512 7)) 0 1)) \<and>
   (\<exists>err rs' d' b''. bcache_strategy md_strategy (\<lambda>_. 0) 0 F_WRITE 0 (1 * MD_BLOCK_SIZE) (replicate 512 9) None (replicate 512 7) demo_cache =
      Some (err, replicate 512 9, rs', d', b'') \<and> (err = 0 \<longrightarrow> md_cont 0 d' 0 = bufblock MD_BLOCK_SIZE (replicate 512 9) 0))"
proof -
  have "bcache_init (\<lambda>n. Some (replicate n 0)) (\<lambda>n. Some (replicate n \<lparr>bc_blkno = 0, bc_stamp = 0, bc_count = 0\<rparr>))
      (\<lambda>n. Some (replicate n False)) 2 MD_BLOCK_SIZE bcache_statics = (0, demo_cache)" and "bcache_nblks demo_cache = 2"
    by (auto simp: demo_cache_def bcache_init_def Let_def)
  then show ?thesis
    using bcache_read_transparent [where ?d0.0 = "replicate 512 7" and
        alloc_data = "\<lambda>n. Some (replicate n 0)" and alloc_ctl = "\<lambda>n. Some (replicate n \<lparr>bc_blkno = 0, bc_stamp = 0, bc_count = 0\<rparr>)" and
        bit_alloc = "\<lambda>n. Some (replicate n False)" and nblks = 2 and b = bcache_statics and ?b0.0 = demo_cache and
        unit = 0 and blk = 0 and n = 1 and buf = "replicate 512 9" and clk = "\<lambda>_. 0" and rs = None,
        OF md.block_device_axioms _ _ _ _ _ _ _ _ bc_run.run_start]
    by (force simp: bcache_statics_def md_cap_def MD_BLOCK_SIZE_def)
qed

text \<open>One cached block is read from the cache, whatever the device holds.\<close>

lemma strategy_read_hit:
  assumes wf: "wf_bcache b" and unit: "bcache_unit b = unit" and size: "2 \<le> bcache_nblks b"
      "2 * bcache_blksize b < 2 ^ 32" "length buf = bcache_blksize b"
    and hit: "bcache_lookup clk blk (b\<lparr>bcache_ops := bcache_ops b + 1\<rparr>) = Some (Some x, b2)" "length x = bcache_blksize b"
      "bcache_miss b2 = bcache_miss b"
  shows "\<exists>b'. bcache_strategy strat clk unit F_READ blk (bcache_blksize b) buf rs d b =
      Some (0, x, map_option (\<lambda>_. bcache_blksize b) rs, d, b')"
proof -
  have "(bcache_blksize b * 2) mod 2 ^ 32 div bcache_blksize b = 2" "0 < bcache_blksize b"
    "bcache_data b \<noteq> None" "0 < length (bcache_miss b)"
    using wf size by (auto simp: wf_bcache_def mult.commute)
  then show ?thesis using unit size hit
    by (auto simp: bcache_strategy_def read_strategy_def Let_def store_def put_def wr_def rd_def)
qed

text \<open>
  C33: a write of more than half the cache goes past it and leaves the entries as they are, so
  that a block cached before is stale afterwards: the next read of that block, as long as its
  entry has not timed out, reports success and delivers the old cached bytes, without asking
  the device.
\<close>

theorem bcache_large_write_leaves_stale:
  assumes wf: "wf_bcache b" and unit: "bcache_unit b = unit" and size: "2 \<le> bcache_nblks b"
      "2 * bcache_blksize b < 2 ^ 32" "length rbuf = bcache_blksize b"
    and large: "(sz * 2) mod 2 ^ 32 div bcache_blksize b > bcache_nblks b"
    and accepted: "strat unit d F_WRITE blk sz buf rs = Some (0, buf', rs', d')"
    and cached: "lookup_slot (bcache_ctl b) (bcache_nblks b) blk0 (clk (ticks b)) 0 = Some (Some i)"
  shows "\<exists>b1 b2. bcache_strategy strat clk unit F_WRITE blk sz buf rs d b = Some (0, buf', rs', d', b1) \<and>
    bcache_strategy strat clk unit F_READ blk0 (bcache_blksize b) rbuf None d' b1 =
      Some (0, cblock b i, None, d', b2)"
proof -
  let ?b1 = "b\<lparr>bcache_ops := bcache_ops b + 1, bcache_bypasses := bcache_bypasses b + 1\<rparr>"
  have i: "i < bcache_nblks b"
    using lookup_slot_ok [of "bcache_ctl b" "bcache_nblks b" blk0 "clk (ticks b)" 0] cached wf
    by (auto simp: wf_bcache_def)
  then have le: "Suc i * bcache_blksize b \<le> bcache_nblks b * bcache_blksize b" by (intro mult_le_mono1) simp
  have "bcache_strategy strat clk unit F_WRITE blk sz buf rs d b = Some (0, buf', rs', d', ?b1)"
    using wf unit large accepted by (auto simp: bcache_strategy_def Let_def wf_bcache_def)
  moreover have "wf_bcache ?b1" using wf by (simp add: wf_bcache_def)
  moreover have "bcache_lookup clk blk0 (?b1\<lparr>bcache_ops := bcache_ops ?b1 + 1\<rparr>) =
      Some (Some (cblock b i), ?b1\<lparr>bcache_ops := bcache_ops ?b1 + 1, ticks := Suc (ticks b)\<rparr>)"
      and "length (cblock b i) = bcache_blksize b"
    using wf cached le
    by (auto simp: bcache_lookup_def Let_def wf_bcache_def cblock_def bufblock_def mult.commute)
  ultimately show ?thesis
    using strategy_read_hit [of ?b1 unit rbuf clk blk0 "cblock b i" _ strat None d'] unit size by auto
qed

text \<open>
  The theorem applied: a memory disk of two blocks of 512 bytes that hold 0, with block 0 cached
  in a cache of two blocks; after a write of two blocks of 7 the read of block 0 still gives 0.
\<close>

theorem bcache_large_write_leaves_stale_witness:
  "let b = \<lparr>bcache_ctl = [\<lparr>bc_blkno = 0, bc_stamp = 5, bc_count = 0\<rparr>, \<lparr>bc_blkno = -1, bc_stamp = 0, bc_count = -1\<rparr>],
         bcache_data = Some (replicate 1024 0), bcache_miss = [False], bcache_nblks = 2, bcache_blksize = 512,
         bcache_hits = 0, bcache_misses = 1, bcache_ops = 1, bcache_bypasses = 0, bcache_flushes = 1,
         bcache_bcount = 1, bcache_unit = 0, ticks = 2\<rparr> in
   \<exists>b1 b2. bcache_strategy md_strategy (\<lambda>_. 6) 0 F_WRITE 0 1024 (replicate 1024 7) None (replicate 1024 0) b =
       Some (0, replicate 1024 7, None, replicate 1024 7, b1) \<and>
     bcache_strategy md_strategy (\<lambda>_. 6) 0 F_READ 0 (bcache_blksize b) (replicate 512 1) None (replicate 1024 7) b1 =
       Some (0, cblock b 0, None, replicate 1024 7, b2)"
  unfolding Let_def
  by (rule bcache_large_write_leaves_stale)
     (auto simp: wf_bcache_def lookup_slot.simps rd_def BCACHE_TIMEOUT_def md_strategy_def MD_BLOCK_SIZE_def put_def)

text \<open>
  when an allocation fails in \<^verbatim>\<open>bcache_init\<close>, the very first request faults: the unit differs
  from the initial -1, so \<^verbatim>\<open>bcache_flush\<close> writes all \<^verbatim>\<open>bcache_nblks\<close> control entries, which are
  gone, before the test of \<^verbatim>\<open>bcache_data\<close> could route the request around the cache.
\<close>

theorem bcache_first_use_after_failed_init_faults:
  assumes "bcache_init alloc_data alloc_ctl bit_alloc nblks bs b = (ENOMEM, b')"
    and "0 < nblks" "bcache_unit b = -1" "0 \<le> unit"
  shows "bcache_strategy strat clk unit rw blk sz buf rs d b' = None"
  using assms
  by (auto simp: bcache_init_def Let_def ENOMEM_def bcache_strategy_def bcache_flush_def split: option.splits)

theorem bcache_first_use_after_failed_init_faults_witness:
  "let b' = snd (bcache_init (\<lambda>_. None) (\<lambda>n. Some (replicate n \<lparr>bc_blkno = 0, bc_stamp = 0, bc_count = 0\<rparr>))
        (\<lambda>n. Some (replicate n False)) 32 512
        bcache_statics) in
   bcache_strategy md_strategy (\<lambda>_. 0) 0 F_READ 0 512 (replicate 512 0) None (replicate 512 7) b' = None"
  unfolding Let_def
  by (rule bcache_first_use_after_failed_init_faults [where alloc_data = "\<lambda>_. None" and nblks = 32 and bs = 512 and
        alloc_ctl = "\<lambda>n. Some (replicate n \<lparr>bc_blkno = 0, bc_stamp = 0, bc_count = 0\<rparr>)" and
        bit_alloc = "\<lambda>n. Some (replicate n False)" and
        b = bcache_statics]) (auto simp: bcache_init_def bcache_statics_def Let_def)

end
