(* ===== verification/Drv.thy ===== *)
theory Drv
  imports Util
begin

text \<open>
  \<^verbatim>\<open>boot/i386/common/drv.c\<close>: sector access of the boot blocks through the EDD services of the
  BIOS (the variant without \<^verbatim>\<open>USE_XREAD\<close>).  The firmware entry \<^verbatim>\<open>v86int\<close> is the argument
  \<open>bios\<close>: it sees the registers in \<^verbatim>\<open>v86\<close>, the packet and parameter blocks and the bytes of
  the transfer buffer, and gives them back with a new state of the drives.  Calls of
  \<^verbatim>\<open>printf\<close> are recorded with their arguments in \<open>console\<close>.

  The locale \<open>sector_drive\<close> is the contract the GPT code relies on: successful transfers of one
  sector behave like reads and updates of a map from addresses to sectors.
\<close>

section \<open>State\<close>

record dsk =
  dsk_drive :: u32
  dsk_type :: u32
  dsk_unit :: u32
  dsk_slice :: u32
  dsk_part :: int
  dsk_start :: u64
  dsk_init :: int

record v86 =
  v86_ctl :: u32
  v86_addr :: u32
  v86_es :: u32
  v86_ds :: u32
  v86_fs :: u32
  v86_gs :: u32
  v86_eax :: u32
  v86_ecx :: u32
  v86_edx :: u32
  v86_ebx :: u32
  v86_efl :: u32
  v86_ebp :: u32
  v86_esi :: u32
  v86_edi :: u32

record edd_packet =
  pkt_len :: u16
  pkt_count :: u16
  pkt_off :: u16
  pkt_seg :: u16
  pkt_lba :: u64

record edd_params =
  par_len :: u16
  par_flags :: u16
  par_cylinders :: u32
  par_heads :: u32
  par_sectors_per_track :: u32
  par_sectors :: u64
  par_sector_size :: u16
  par_params_seg :: u16
  par_params_off :: u16

text \<open>
  The static objects of the file with their physical addresses, the \<^verbatim>\<open>opts\<close> of the boot program,
  the console and the drives.
\<close>

record 'd mach =
  v86 :: v86
  packet :: edd_packet
  params :: edd_params
  pa_packet :: u32
  pa_params :: u32
  spinner :: u32
  opts :: u32
  console :: "(string \<times> varg list) list"
  drives :: 'd

type_synonym 'd bios =
  "v86 \<Rightarrow> edd_packet \<Rightarrow> edd_params \<Rightarrow> byte list \<Rightarrow> 'd \<Rightarrow> v86 \<times> edd_params \<times> byte list \<times> 'd"

definition V86_FLAGS :: u32 where "V86_FLAGS = 0x40000"
definition RBX_QUIET :: nat where "RBX_QUIET = 0x15"
definition VTOPSEG :: "u32 \<Rightarrow> u16" where "VTOPSEG pa = ucast (drop_bit 4 pa)"
definition VTOPOFF :: "u32 \<Rightarrow> u16" where "VTOPOFF pa = ucast (pa AND 0xf)"
definition V86_CY :: "u32 \<Rightarrow> bool" where "V86_CY efl \<longleftrightarrow> efl AND 1 \<noteq> 0"

definition OPT_CHECK :: "nat \<Rightarrow> u32 \<Rightarrow> bool" where
  "OPT_CHECK opt options \<longleftrightarrow> options AND push_bit opt 1 \<noteq> 0"

definition say :: "string \<Rightarrow> varg list \<Rightarrow> 'd mach \<Rightarrow> 'd mach" where
  "say fmt args m = m\<lparr>console := console m @ [(fmt, args)]\<rparr>"

section \<open>Operations\<close>

definition drvsize :: "'d bios \<Rightarrow> dsk \<Rightarrow> 'd mach \<Rightarrow> u64 \<times> 'd mach" where
  "drvsize bios dskp m =
     (let regs = (v86 m)\<lparr>v86_ctl := V86_FLAGS, v86_addr := 0x13, v86_eax := 0x4800,
            v86_edx := dsk_drive dskp, v86_ds := ucast (VTOPSEG (pa_params m)),
            v86_esi := ucast (VTOPOFF (pa_params m))\<rparr>;
          (regs', par, _, d) = bios regs (packet m) ((params m)\<lparr>par_len := 32\<rparr>) [] (drives m);
          m' = m\<lparr>v86 := regs', params := par, drives := d\<rparr>
      in if V86_CY (v86_efl regs')
         then (0, say ''error %u\<newline>'' [Uint (drop_bit 8 (v86_eax regs') AND 0xff)] m')
         else (par_sectors par, m'))"

text \<open>The set-up that \<^verbatim>\<open>drvread\<close> and \<^verbatim>\<open>drvwrite\<close> share: packet, registers and the interrupt.\<close>

definition edd_rw ::
  "'d bios \<Rightarrow> u32 \<Rightarrow> dsk \<Rightarrow> u32 \<Rightarrow> byte list \<Rightarrow> u64 \<Rightarrow> u32 \<Rightarrow> 'd mach \<Rightarrow> bool \<times> byte list \<times> 'd mach" where
  "edd_rw bios fn dskp pa_buf buf lba nblk m =
     (let pkt = \<lparr>pkt_len = 16, pkt_count = ucast nblk, pkt_off = VTOPOFF pa_buf,
            pkt_seg = VTOPSEG pa_buf, pkt_lba = lba\<rparr>;
          regs = (v86 m)\<lparr>v86_ctl := V86_FLAGS, v86_addr := 0x13, v86_eax := fn,
            v86_edx := dsk_drive dskp, v86_ds := ucast (VTOPSEG (pa_packet m)),
            v86_esi := ucast (VTOPOFF (pa_packet m))\<rparr>;
          (regs', par, buf', d) = bios regs pkt (params m) buf (drives m)
      in (V86_CY (v86_efl regs'), buf', m\<lparr>v86 := regs', packet := pkt, params := par, drives := d\<rparr>))"

definition spin :: "'d mach \<Rightarrow> 'd mach" where
  "spin m =
     (if OPT_CHECK RBX_QUIET (opts m) then m
      else let c = push_bit 8 (spinner m) OR drop_bit 24 (spinner m)
           in say (''%c'' @ [CHR 0x08]) [Uint c] (m\<lparr>spinner := c\<rparr>))"

definition drvread ::
  "'d bios \<Rightarrow> string \<Rightarrow> u32 \<Rightarrow> dsk \<Rightarrow> byte list \<Rightarrow> u64 \<Rightarrow> u32 \<Rightarrow> 'd mach \<Rightarrow> int \<times> byte list \<times> 'd mach" where
  "drvread bios bootprog pa_buf dskp buf lba nblk m =
     (case edd_rw bios 0x4200 dskp pa_buf buf lba nblk (spin m) of
        (carry, buf', m') \<Rightarrow>
          if carry
          then (-1, buf', say ''%s: error %u lba %u\<newline>''
                  [Str (map of_char bootprog @ [0]), Uint (drop_bit 8 (v86_eax (v86 m')) AND 0xff),
                   Uint (ucast lba)] m')
          else (0, buf', m'))"

definition drvwrite ::
  "'d bios \<Rightarrow> u32 \<Rightarrow> dsk \<Rightarrow> byte list \<Rightarrow> u64 \<Rightarrow> u32 \<Rightarrow> 'd mach \<Rightarrow> int \<times> byte list \<times> 'd mach" where
  "drvwrite bios pa_buf dskp buf lba nblk m =
     (case edd_rw bios 0x4300 dskp pa_buf buf lba nblk m of
        (carry, buf', m') \<Rightarrow>
          if carry
          then (-1, buf', say ''error %u lba %u\<newline>''
                  [Uint (drop_bit 8 (v86_eax (v86 m')) AND 0xff), Uint (ucast lba)] m')
          else (0, buf', m'))"

section \<open>The contract of a drive\<close>

text \<open>
  \<open>ok lba m\<close>: the transfer of sector \<open>lba\<close> succeeds in state \<open>m\<close>; \<open>sect m lba\<close> is its content.
  A read that reports 0 fills the buffer with the sector; a write that reports 0 replaces it by
  the first 512 bytes of the buffer; a failing one changes no sector.
\<close>

definition DEV_BSIZE :: nat where "DEV_BSIZE = 512"

locale sector_drive =
  fixes op_read op_write :: "dsk \<Rightarrow> byte list \<Rightarrow> u64 \<Rightarrow> u32 \<Rightarrow> 'm \<Rightarrow> int \<times> byte list \<times> 'm"
    and dr :: u32 and sect :: "'m \<Rightarrow> u64 \<Rightarrow> byte list"
  assumes length_sect [simp]: "length (sect m lba) = DEV_BSIZE"
    and read_law: "dsk_drive dskp = dr \<Longrightarrow> length buf = DEV_BSIZE \<Longrightarrow> op_read dskp buf lba 1 m = (rc, buf', m') \<Longrightarrow>
      length buf' = DEV_BSIZE \<and> sect m' = sect m \<and> (rc = 0 \<and> buf' = sect m lba \<or> rc = -1)"
    and write_law: "dsk_drive dskp = dr \<Longrightarrow> length buf = DEV_BSIZE \<Longrightarrow> op_write dskp buf lba 1 m = (rc, buf', m') \<Longrightarrow>
      buf' = buf \<and> (rc = 0 \<and> sect m' = (sect m)(lba := buf) \<or> rc = -1 \<and> sect m' = sect m)"
begin

lemma read_ex:
  assumes "dsk_drive dskp = dr" "length buf = DEV_BSIZE"
  shows "\<exists>rc buf' m'. op_read dskp buf lba 1 m = (rc, buf', m') \<and> length buf' = DEV_BSIZE \<and> sect m' = sect m \<and>
    (rc = 0 \<and> buf' = sect m lba \<or> rc = -1)"
  using read_law [OF assms] by (metis prod_cases3)

lemma write_ex:
  assumes "dsk_drive dskp = dr" "length buf = DEV_BSIZE"
  shows "\<exists>rc m'. op_write dskp buf lba 1 m = (rc, buf, m') \<and>
    (rc = 0 \<and> sect m' = (sect m)(lba := buf) \<or> rc = -1 \<and> sect m' = sect m)"
  using write_law [OF assms] by (metis prod_cases3)

end

section \<open>An EDD service over drive images\<close>

text \<open>
  The documented behaviour of INT 13h functions 42h, 43h and 48h on one drive given by its
  sectors: the carry flag reports a sector outside the drive, with status 4 in AH.
\<close>

type_synonym image = "u64 \<Rightarrow> byte list"

definition ram_sect :: "(u64 \<Rightarrow> byte list) \<Rightarrow> u64 \<Rightarrow> byte list" where
  "ram_sect img lba = take DEV_BSIZE (img lba @ replicate DEV_BSIZE 0)"

definition ram_read :: "image \<Rightarrow> u64 \<Rightarrow> nat \<Rightarrow> byte list" where
  "ram_read img lba c = concat (map (\<lambda>j. ram_sect img (lba + of_nat j)) [0..<c])"

definition ram_bios :: "u64 \<Rightarrow> image bios" where
  "ram_bios n regs pkt par buf img =
     (let good = regs\<lparr>v86_efl := 0\<rparr>; bad = regs\<lparr>v86_efl := 1, v86_eax := 0x0400\<rparr>;
          fn = v86_eax regs; lba = pkt_lba pkt; c = unat (pkt_count pkt) in
      if fn = 0x4800 then (good, par\<lparr>par_sectors := n\<rparr>, buf, img)
      else if unat lba + c \<le> unat n \<and> fn = 0x4200 then (good, par, put buf 0 (ram_read img lba c), img)
      else if lba < n \<and> c = 1 \<and> fn = 0x4300 then (good, par, buf, img(lba := buf))
      else (bad, par, buf, img))"

lemma drives_spin [simp]: "drives (spin m) = drives m"
  by (simp add: spin_def say_def Let_def)

lemma length_ram_sect [simp]: "length (ram_sect img lba) = DEV_BSIZE"
  by (simp add: ram_sect_def)

lemma ram_read_1 [simp]: "ram_read img lba (Suc 0) = ram_sect img lba"
  by (simp add: ram_read_def)

lemma ram_read_Suc: "ram_read img lba (Suc c) = ram_read img lba c @ ram_sect img (lba + of_nat c)"
  by (simp add: ram_read_def)

lemma length_ram_read [simp]: "length (ram_read img lba c) = c * DEV_BSIZE"
  by (induction c) (simp_all add: ram_read_Suc, simp add: ram_read_def)

lemma nth_ram_read:
  "i < c * DEV_BSIZE \<Longrightarrow> ram_read img lba c ! i = ram_sect img (lba + of_nat (i div DEV_BSIZE)) ! (i mod DEV_BSIZE)"
proof (induction c)
  case (Suc c)
  show ?case
  proof (cases "i < c * DEV_BSIZE")
    case False
    then have d: "i div DEV_BSIZE = c"
      using Suc.prems by (intro div_nat_eqI) (simp_all add: DEV_BSIZE_def)
    then have "i mod DEV_BSIZE = i - c * DEV_BSIZE" by (metis minus_div_mult_eq_mod)
    with d show ?thesis using False by (simp add: ram_read_Suc nth_append)
  qed (use Suc.IH in \<open>simp add: ram_read_Suc nth_append\<close>)
qed simp

lemma ram_sect_upd: "length buf = DEV_BSIZE \<Longrightarrow> ram_sect (img(lba := buf)) = (ram_sect img)(lba := buf)"
  by (auto simp: ram_sect_def fun_eq_iff)

interpretation ram: sector_drive "drvread (ram_bios n) bootprog pa" "drvwrite (ram_bios n) pa"
  dr "\<lambda>m. ram_sect (drives m)"
proof (unfold_locales, goal_cases)
  case (1 m lba)
  show ?case by simp
next
  case (2 dskp buf lba m rc buf' m')
  then show ?case
    by (auto simp: drvread_def edd_rw_def ram_bios_def Let_def V86_CY_def say_def put_def
        split: if_splits)
next
  case (3 dskp buf lba m rc buf' m')
  then show ?case
    by (auto simp: drvwrite_def edd_rw_def ram_bios_def Let_def V86_CY_def say_def ram_sect_upd
        split: if_splits)
qed

end
