(* ===== verification/Ufsread.thy ===== *)
theory Ufsread
  imports Drv
begin

text \<open>
  The UFS reader of the boot blocks, \<^verbatim>\<open>boot/common/ufsread.c\<close>: \<^verbatim>\<open>fsread\<close> with its one-block caches, and
  the path lookup over it, in the variant for both UFS1 and UFS2.

  The statics and the buffers of \<^verbatim>\<open>struct dmadat\<close> are the record \<open>ufs\<close>.  The layouts of the superblock
  and of the inodes come from the system headers and are the argument \<open>L\<close>, which decodes bytes;
  the macros of \<^verbatim>\<open>ufs/ffs/fs.h\<close> are written out.  \<^verbatim>\<open>dskread\<close> is supplied by each boot program and is the
  argument \<open>dsk\<close>: given the address and the bytes of the buffer, the sector and the count, it returns its result, the buffer and the
  new state of the drive.  The programs are 32-bit, so a \<open>size_t\<close> has 32 bits.  \<^term>\<open>None\<close> is a fault (division by zero, an access outside a buffer) or a
  loop that does not end.
\<close>

section \<open>Constants\<close>

definition VBLKSHIFT :: nat where "VBLKSHIFT = 12"
definition VBLKSIZE :: nat where "VBLKSIZE = 4096"
definition DBPERVBLK :: nat where "DBPERVBLK = 8"
definition SBLOCKSIZE :: nat where "SBLOCKSIZE = 8192"
definition MAXBSIZE :: int where "MAXBSIZE = 65536"
definition SIZEOF_FS :: int where "SIZEOF_FS = 1376"
definition NDADDR :: nat where "NDADDR = 12"
definition FS_UFS1_MAGIC :: int where "FS_UFS1_MAGIC = 0x011954"
definition FS_UFS2_MAGIC :: int where "FS_UFS2_MAGIC = 0x19540119"
definition sblock_try :: "nat list" where "sblock_try = [65536, 8192, 0, 262144]"
definition ROOTINO :: nat where "ROOTINO = 2"
definition DT_DIR :: nat where "DT_DIR = 4"
definition DT_REG :: nat where "DT_REG = 8"
definition MAXNAMLEN :: nat where "MAXNAMLEN = 255"

lemmas ufs_consts = DEV_BSIZE_def VBLKSHIFT_def VBLKSIZE_def DBPERVBLK_def SBLOCKSIZE_def NDADDR_def

section \<open>State\<close>

record fs =
  fs_magic :: int
  fs_sblockloc :: int
  fs_bsize :: int
  fs_bshift :: nat
  fs_qbmask :: int
  fs_qfmask :: int
  fs_fmask :: int
  fs_fsbtodb :: nat
  fs_nindir :: nat
  fs_inopb :: nat
  fs_ipg :: nat
  fs_fpg :: nat
  fs_iblkno :: int
  fs_old_cgoffset :: int
  fs_old_cgmask :: int

record dinode =
  di_size :: nat
  di_db :: "int list"
  di_ib0 :: int

record layout =
  decode_fs :: "byte list \<Rightarrow> fs"
  decode_dinode1 :: "byte list \<Rightarrow> dinode"
  decode_dinode2 :: "byte list \<Rightarrow> dinode"

type_synonym 'd disk = "u32 \<Rightarrow> byte list \<Rightarrow> int \<Rightarrow> nat \<Rightarrow> 'd \<Rightarrow> int \<times> byte list \<times> 'd"

record 'd ufs =
  dmadat :: u32
  blkbuf :: "byte list"
  indbuf :: "byte list"
  sbbuf :: "byte list"
  dsk_meta :: bool
  fs_off :: nat
  inomap :: nat
  dp :: dinode
  blkmap :: int
  indmap :: int
  ls :: bool
  drive :: 'd

abbreviation ufs1 :: "fs \<Rightarrow> bool" where
  "ufs1 f \<equiv> fs_magic f = FS_UFS1_MAGIC"

section \<open>Addresses\<close>

definition fsbtodb :: "fs \<Rightarrow> int \<Rightarrow> int" where
  "fsbtodb f b = push_bit (fs_fsbtodb f) b"

definition cgimin :: "fs \<Rightarrow> nat \<Rightarrow> int" where
  "cgimin f c =
     (int (fs_fpg f) * int c + (if ufs1 f then fs_old_cgoffset f * (int c AND NOT (fs_old_cgmask f)) else 0)) + fs_iblkno f"

definition IPERVBLK :: "fs \<Rightarrow> nat option" where
  "IPERVBLK f = (let k = nat (drop_bit VBLKSHIFT (fs_bsize f)) in if k = 0 then None else Some (fs_inopb f div k))"

definition INDIRPERVBLK :: "fs \<Rightarrow> nat option" where
  "INDIRPERVBLK f = (let k = nat (drop_bit VBLKSHIFT (fs_bsize f)) in if k = 0 then None else Some (fs_nindir f div k))"

definition INO_TO_VBA :: "fs \<Rightarrow> nat \<Rightarrow> nat \<Rightarrow> int option" where
  "INO_TO_VBA f ipervblk x =
     (if ipervblk = 0 \<or> fs_ipg f = 0 then None
      else Some (fsbtodb f (cgimin f (x div fs_ipg f)) + int ((x mod fs_ipg f) div ipervblk * DBPERVBLK)))"

definition INO_TO_VBO :: "nat \<Rightarrow> nat \<Rightarrow> nat" where
  "INO_TO_VBO ipervblk x = x mod ipervblk"

definition lblkno :: "fs \<Rightarrow> nat \<Rightarrow> nat" where
  "lblkno f loc = drop_bit (fs_bshift f) loc"

definition blkoff :: "fs \<Rightarrow> nat \<Rightarrow> nat" where
  "blkoff f loc = nat (int loc AND fs_qbmask f)"

definition sblksize :: "fs \<Rightarrow> nat \<Rightarrow> nat \<Rightarrow> int" where
  "sblksize f sz lbn =
     (if lbn \<ge> NDADDR \<or> sz \<ge> push_bit (fs_bshift f) (lbn + 1) then fs_bsize f
      else (int (blkoff f sz) + fs_qfmask f) AND fs_fmask f)"

definition sub32 :: "nat \<Rightarrow> nat \<Rightarrow> nat" where
  "sub32 a b = (a + (2 ^ 32 - b mod 2 ^ 32)) mod 2 ^ 32"

text \<open>A \<^verbatim>\<open>size_t\<close> returned as a \<^verbatim>\<open>ssize_t\<close>.\<close>

definition ssize :: "nat \<Rightarrow> int" where
  "ssize n = sint (word_of_nat n :: u32)"

section \<open>Superblock and inode\<close>

definition sb_ok :: "fs \<Rightarrow> nat \<Rightarrow> bool" where
  "sb_ok f loc \<longleftrightarrow>
     (fs_magic f = FS_UFS1_MAGIC \<or> (fs_magic f = FS_UFS2_MAGIC \<and> fs_sblockloc f = int loc)) \<and>
     fs_bsize f \<le> MAXBSIZE \<and> fs_bsize f \<ge> SIZEOF_FS"

text \<open>\<^term>\<open>Inl\<close> is the return of -1, on a read error or when no location has a superblock.\<close>

fun find_sb :: "layout \<Rightarrow> 'd disk \<Rightarrow> nat list \<Rightarrow> 'd ufs \<Rightarrow> 'd ufs + 'd ufs" where
  "find_sb L dsk [] st = Inl st"
| "find_sb L dsk (loc # locs) st =
     (let (rc, sb, d) = dsk (dmadat st + 8192) (sbbuf st) (int (loc div DEV_BSIZE)) (SBLOCKSIZE div DEV_BSIZE) (drive st);
          st1 = st\<lparr>sbbuf := sb, drive := d\<rparr>
      in if rc \<noteq> 0 then Inl st1
         else if sb_ok (decode_fs L sb) loc then Inr st1
         else find_sb L dsk locs st1)"

definition get_meta :: "layout \<Rightarrow> 'd disk \<Rightarrow> 'd ufs \<Rightarrow> 'd ufs + 'd ufs" where
  "get_meta L dsk st =
     (if dsk_meta st then Inr st
      else case find_sb L dsk sblock_try (st\<lparr>inomap := 0\<rparr>) of
             Inl st' \<Rightarrow> Inl st'
           | Inr st' \<Rightarrow> Inr (st'\<lparr>dsk_meta := True\<rparr>))"

definition get_inode :: "layout \<Rightarrow> 'd disk \<Rightarrow> nat \<Rightarrow> 'd ufs \<Rightarrow> ('d ufs + 'd ufs) option" where
  "get_inode L dsk ino st =
     (let f = decode_fs L (sbbuf st) in
      if inomap st = ino then Some (Inr st)
      else do {
        n \<leftarrow> IPERVBLK f;
        vba \<leftarrow> INO_TO_VBA f n ino;
        let (rc, b, d) = dsk (dmadat st) (blkbuf st) vba DBPERVBLK (drive st);
        let st1 = st\<lparr>blkbuf := b, drive := d\<rparr>;
        if rc \<noteq> 0 then Some (Inl st1)
        else do {
          let isz = (if ufs1 f then 128 else 256);
          bytes \<leftarrow> slice b (INO_TO_VBO n ino * isz) isz;
          let di = (if ufs1 f then decode_dinode1 L bytes else decode_dinode2 L bytes);
          Some (Inr (st1\<lparr>dp := di, inomap := ino, fs_off := 0, blkmap := 0, indmap := 0\<rparr>))
        }
      })"

section \<open>Data blocks\<close>

text \<open>The two one-block caches: \<open>indbuf\<close> holds the sectors at \<open>indmap\<close>, \<open>blkbuf\<close> those at \<open>blkmap\<close>.\<close>

definition get_indir :: "'d disk \<Rightarrow> int \<Rightarrow> 'd ufs \<Rightarrow> 'd ufs + 'd ufs" where
  "get_indir dsk vbaddr st =
     (if indmap st = vbaddr then Inr st
      else let (rc, b, d) = dsk (dmadat st + 4096) (indbuf st) vbaddr DBPERVBLK (drive st);
               st1 = st\<lparr>indbuf := b, drive := d\<rparr>
           in if rc \<noteq> 0 then Inl st1 else Inr (st1\<lparr>indmap := vbaddr\<rparr>))"

definition get_block :: "'d disk \<Rightarrow> int \<Rightarrow> nat \<Rightarrow> 'd ufs \<Rightarrow> 'd ufs + 'd ufs" where
  "get_block dsk vbaddr nsec st =
     (if blkmap st = vbaddr then Inr st
      else let (rc, b, d) = dsk (dmadat st) (blkbuf st) vbaddr nsec (drive st);
               st1 = st\<lparr>blkbuf := b, drive := d\<rparr>
           in if rc \<noteq> 0 then Inl st1 else Inr (st1\<lparr>blkmap := vbaddr\<rparr>))"

definition indir_entry :: "fs \<Rightarrow> byte list \<Rightarrow> nat \<Rightarrow> int option" where
  "indir_entry f b k =
     (if ufs1 f then map_option sint (le_field b (k * 4) 4 :: u32 option)
      else map_option sint (le_field b (k * 8) 8 :: u64 option))"

text \<open>The address of a logical block; a block beyond the single indirect block is refused.\<close>

definition block_addr :: "layout \<Rightarrow> 'd disk \<Rightarrow> nat \<Rightarrow> 'd ufs \<Rightarrow> ('d ufs + int \<times> 'd ufs) option" where
  "block_addr L dsk lbn st =
     (let f = decode_fs L (sbbuf st) in
      if lbn < NDADDR then map_option (\<lambda>a. Inr (a, st)) (rd (di_db (dp st)) lbn)
      else if lbn < NDADDR + fs_nindir f then do {
        n \<leftarrow> INDIRPERVBLK f;
        if n = 0 then None
        else
          (case get_indir dsk (fsbtodb f (di_ib0 (dp st)) + int ((lbn - NDADDR) div n * DBPERVBLK)) st of
             Inl st' \<Rightarrow> Some (Inl st')
           | Inr st' \<Rightarrow> map_option (\<lambda>a. Inr (a, st')) (indir_entry f (indbuf st') ((lbn - NDADDR) AND (n - 1))))
      }
      else Some (Inl st))"

text \<open>The bytes of the virtual block at an offset that belong to the file.\<close>

definition vblk_len :: "fs \<Rightarrow> nat \<Rightarrow> nat \<Rightarrow> nat \<Rightarrow> nat" where
  "vblk_len f sz lbn off =
     (let n = nat ((sblksize f sz lbn - int (off - off mod VBLKSIZE)) mod 2 ^ 32) in
      if n > VBLKSIZE then VBLKSIZE else n)"

text \<open>One round of the copy loop: the bytes copied, at most \<open>nb\<close>.\<close>

definition read_round :: "layout \<Rightarrow> 'd disk \<Rightarrow> nat \<Rightarrow> nat \<Rightarrow> 'd ufs \<Rightarrow> ('d ufs + byte list \<times> 'd ufs) option" where
  "read_round L dsk sz nb st =
     (let f = decode_fs L (sbbuf st);
          lbn = lblkno f (fs_off st);
          off = blkoff f (fs_off st) in
      do {
        r \<leftarrow> block_addr L dsk lbn st;
        case r of
          Inl st' \<Rightarrow> Some (Inl st')
        | Inr (addr, st1) \<Rightarrow> do {
            let vbaddr = fsbtodb f addr + int (drop_bit VBLKSHIFT off * DBPERVBLK);
            let vboff = off mod VBLKSIZE;
            let n1 = vblk_len f sz lbn off;
            case get_block dsk vbaddr (n1 div DEV_BSIZE) st1 of
              Inl st2 \<Rightarrow> Some (Inl st2)
            | Inr st2 \<Rightarrow> do {
                let n2 = sub32 n1 vboff;
                let n = (if n2 > nb then nb else n2);
                bytes \<leftarrow> slice (blkbuf st2) vboff n;
                Some (Inr (bytes, st2\<lparr>fs_off := (fs_off st2 + n) mod 2 ^ 32\<rparr>))
              }
          }
      })"

text \<open>The result of \<open>fsread\<close> is the returned number, the bytes stored in the caller's buffer and the state.\<close>

partial_function (option) read_loop ::
  "layout \<Rightarrow> 'd disk \<Rightarrow> nat \<Rightarrow> nat \<Rightarrow> nat \<Rightarrow> byte list \<Rightarrow> 'd ufs \<Rightarrow> (int \<times> byte list \<times> 'd ufs) option" where
  "read_loop L dsk sz nbyte nb acc st =
     (if nb = 0 then Some (ssize nbyte, acc, st)
      else do {
        r \<leftarrow> read_round L dsk sz nb st;
        case r of
          Inl st' \<Rightarrow> Some (-1, acc, st')
        | Inr (bytes, st') \<Rightarrow> read_loop L dsk sz nbyte (nb - length bytes) (acc @ bytes) st'
      })"

definition fsread :: "layout \<Rightarrow> 'd disk \<Rightarrow> nat \<Rightarrow> nat \<Rightarrow> 'd ufs \<Rightarrow> (int \<times> byte list \<times> 'd ufs) option" where
  "fsread L dsk ino nbyte st =
     (case get_meta L dsk st of
       Inl st1 \<Rightarrow> Some (-1, [], st1)
     | Inr st1 \<Rightarrow>
         if ino = 0 then Some (0, [], st1)
         else do {
           r2 \<leftarrow> get_inode L dsk ino st1;
           case r2 of
             Inl st2 \<Rightarrow> Some (-1, [], st2)
           | Inr st2 \<Rightarrow>
               let sz = di_size (dp st2) mod 2 ^ 32;
                   n = sub32 sz (fs_off st2);
                   nb = (if nbyte > n then n else nbyte)
               in read_loop L dsk sz nb nb [] st2
         })"

section \<open>Directories\<close>

definition d_ino :: "byte list \<Rightarrow> nat \<Rightarrow> nat option" where
  "d_ino buf s = map_option unat (le_field buf s 4 :: u32 option)"

definition d_reclen :: "byte list \<Rightarrow> nat \<Rightarrow> nat option" where
  "d_reclen buf s = map_option unat (le_field buf (s + 4) 2 :: u16 option)"

definition d_type :: "byte list \<Rightarrow> nat \<Rightarrow> nat option" where
  "d_type buf s = map_option unat (rd buf (s + 6))"

text \<open>
  The entries of one buffer of directory data.  \<open>buf\<close> is the static buffer of 512 bytes; a name
  without terminator in it is read past its end.  With \<open>ls\<close> the names are printed.
\<close>

partial_function (option) scan_dir ::
  "bool \<Rightarrow> byte list \<Rightarrow> byte list \<Rightarrow> nat \<Rightarrow> byte list \<Rightarrow> ((nat \<times> nat) option \<times> byte list) option" where
  "scan_dir lsf name buf s out =
     (if s < DEV_BSIZE then do {
        nm \<leftarrow> cstr buf (s + 8);
        if \<not> lsf \<and> nm = name then do {
          i \<leftarrow> d_ino buf s;
          t \<leftarrow> d_type buf s;
          Some (Some (i, t), out)
        } else do {
          r \<leftarrow> d_reclen buf s;
          scan_dir lsf name buf (s + r) (if lsf then out @ nm @ [32] else out)
        }
      } else Some (None, out))"

text \<open>\<open>fsfind\<close>: the type found (0 for none), the inode number, the buffer and the output.\<close>

partial_function (option) fsfind_loop ::
  "layout \<Rightarrow> 'd disk \<Rightarrow> bool \<Rightarrow> byte list \<Rightarrow> nat \<Rightarrow> byte list \<Rightarrow> byte list \<Rightarrow> 'd ufs \<Rightarrow>
   (nat \<times> nat \<times> byte list \<times> byte list \<times> 'd ufs) option" where
  "fsfind_loop L dsk lsf name ino buf out st = do {
     (n, bytes, st1) \<leftarrow> fsread L dsk ino DEV_BSIZE st;
     buf1 \<leftarrow> store buf 0 bytes;
     if n > 0 then do {
       (hit, out1) \<leftarrow> scan_dir lsf name buf1 0 out;
       case hit of
         Some (i, t) \<Rightarrow> Some (t, i, buf1, out1, st1)
       | None \<Rightarrow> fsfind_loop L dsk lsf name ino buf1 out1 st1
     } else Some (0, ino, buf1, if n \<noteq> -1 \<and> lsf then out @ [10] else out, st1)
   }"

definition fsfind ::
  "layout \<Rightarrow> 'd disk \<Rightarrow> byte list \<Rightarrow> nat \<Rightarrow> byte list \<Rightarrow> byte list \<Rightarrow> 'd ufs \<Rightarrow>
   (nat \<times> nat \<times> byte list \<times> byte list \<times> 'd ufs) option" where
  "fsfind L dsk name ino buf out st = fsfind_loop L dsk (ls st) name ino buf out (st\<lparr>fs_off := 0\<rparr>)"

text \<open>\<open>lookup\<close>, by the rest of the path; the result is the inode of a regular file, or 0.\<close>

lemma lookup_shorter:
  assumes "path1 = (case path of [] \<Rightarrow> [] | c # p \<Rightarrow> if c = 47 then p else path)" "path1 \<noteq> []"
  shows "length (dropWhile (\<lambda>c. c \<noteq> 47) path1) < length path"
proof -
  obtain c p where path: "path = c # p" using assms by (cases path) auto
  show ?thesis
  proof (cases "c = 47")
    case True
    then have "path1 = p" using assms(1) path by simp
    then show ?thesis using length_dropWhile_le [of "\<lambda>c. c \<noteq> 47" p] path by simp
  next
    case False
    then have "path1 = c # p" using assms(1) path by simp
    then show ?thesis using False length_dropWhile_le [of "\<lambda>c. c \<noteq> 47" p] path by simp
  qed
qed

function lookup ::
  "layout \<Rightarrow> 'd disk \<Rightarrow> byte list \<Rightarrow> nat \<Rightarrow> nat \<Rightarrow> byte list \<Rightarrow> byte list \<Rightarrow> 'd ufs \<Rightarrow> (nat \<times> byte list \<times> 'd ufs) option" where
  "lookup L dsk path ino dt buf out st =
     (let path1 = (case path of [] \<Rightarrow> [] | c # p \<Rightarrow> if c = 47 then p else path) in
      if path1 = [] then Some (if dt = DT_REG then ino else 0, out, st)
      else
        let name = takeWhile (\<lambda>c. c \<noteq> 47) path1;
            s = dropWhile (\<lambda>c. c \<noteq> 47) path1;
            st1 = st\<lparr>ls := (name = [63] \<and> s = [])\<rparr>
        in if length name > MAXNAMLEN then Some (0, out, st)
           else if dt \<noteq> DT_DIR then Some (0, out @ name @ map of_char '': not a directory.'' @ [10], st1)
           else do {
             (dt', ino', buf', out', st') \<leftarrow> fsfind L dsk name ino buf out st1;
             if dt' = 0 then Some (0, out', st')
             else lookup L dsk s ino' dt' buf' out' st'
           })"
  by pat_completeness auto
termination
  by (relation "measure (\<lambda>(L, dsk, path, ino, dt, buf, out, st). length path)") (auto intro: lookup_shorter)

declare lookup.simps [simp del]

end
