(* ===== verification/Gpt.thy ===== *)
theory Gpt
  imports Drv Crc32
begin

text \<open>
  \<^verbatim>\<open>boot/common/gpt.c\<close>: the GUID partition table as the boot blocks read it, choose a
  partition from it, and record boot attempts in it.

  A header is the 96 bytes of \<^verbatim>\<open>struct gpt_hdr\<close> and a table the 16384 bytes of
  \<^verbatim>\<open>struct gpt_ent[128]\<close>, with the fields at the offsets of the UEFI format, because the checksums
  and the transfers work on those bytes.  The statics of the file are the record \<open>gpt\<close>: the
  primary and the backup copy (header, table and header address), the copy that
  \<^verbatim>\<open>gpthdr\<close>/\<^verbatim>\<open>gpttable\<close> point to, \<^verbatim>\<open>curent\<close>, \<^verbatim>\<open>bootonce\<close>, and the sector buffer with the state of
  the machine.  The routines of \<^verbatim>\<open>drv.c\<close> are the argument \<open>dv\<close>.  \<^term>\<open>None\<close> is an access outside
  an object, a division by zero or a loop that does not end.
\<close>

section \<open>On-disk structures\<close>

definition u32_at :: "byte list \<Rightarrow> nat \<Rightarrow> u32" where
  "u32_at m off = word_of_nat (le_nat (take 4 (drop off m)))"

definition u64_at :: "byte list \<Rightarrow> nat \<Rightarrow> u64" where
  "u64_at m off = word_of_nat (le_nat (take 8 (drop off m)))"

definition set_u32 :: "byte list \<Rightarrow> nat \<Rightarrow> u32 \<Rightarrow> byte list" where
  "set_u32 m off w = put m off (le_bytes 4 (unat w))"

definition set_u64 :: "byte list \<Rightarrow> nat \<Rightarrow> u64 \<Rightarrow> byte list" where
  "set_u64 m off w = put m off (le_bytes 8 (unat w))"

definition GPT_HDR_SIG :: "byte list" where
  "GPT_HDR_SIG = map of_char ''EFI PART''"

definition HDR_SIZE :: nat where "HDR_SIZE = 96"
definition ENT_SIZE :: nat where "ENT_SIZE = 128"
definition MAXTBLENTS :: nat where "MAXTBLENTS = 128"

definition hdr_sig :: "byte list \<Rightarrow> byte list" where "hdr_sig h = take 8 h"
definition hdr_revision :: "byte list \<Rightarrow> u32" where "hdr_revision h = u32_at h 8"
definition hdr_size :: "byte list \<Rightarrow> u32" where "hdr_size h = u32_at h 12"
definition hdr_crc_self :: "byte list \<Rightarrow> u32" where "hdr_crc_self h = u32_at h 16"
definition hdr_lba_self :: "byte list \<Rightarrow> u64" where "hdr_lba_self h = u64_at h 24"
definition hdr_lba_alt :: "byte list \<Rightarrow> u64" where "hdr_lba_alt h = u64_at h 32"
definition hdr_lba_table :: "byte list \<Rightarrow> u64" where "hdr_lba_table h = u64_at h 72"
definition hdr_entries :: "byte list \<Rightarrow> u32" where "hdr_entries h = u32_at h 80"
definition hdr_entsz :: "byte list \<Rightarrow> u32" where "hdr_entsz h = u32_at h 84"
definition hdr_crc_table :: "byte list \<Rightarrow> u32" where "hdr_crc_table h = u32_at h 88"

definition ent_type :: "byte list \<Rightarrow> byte list" where "ent_type e = take 16 e"
definition ent_lba_start :: "byte list \<Rightarrow> u64" where "ent_lba_start e = u64_at e 32"
definition ent_attr :: "byte list \<Rightarrow> u64" where "ent_attr e = u64_at e 48"

definition GPT_ENT_ATTR_BOOTME :: u64 where "GPT_ENT_ATTR_BOOTME = push_bit 59 1"
definition GPT_ENT_ATTR_BOOTONCE :: u64 where "GPT_ENT_ATTR_BOOTONCE = push_bit 58 1"
definition GPT_ENT_ATTR_BOOTFAILED :: u64 where "GPT_ENT_ATTR_BOOTFAILED = push_bit 57 1"

text \<open>\<^verbatim>\<open>&table[i]\<close>, read, and an assignment to its \<^verbatim>\<open>ent_attr\<close>.\<close>

definition ent :: "byte list \<Rightarrow> nat \<Rightarrow> byte list option" where
  "ent t i = slice t (ENT_SIZE * i) ENT_SIZE"

definition set_attr :: "byte list \<Rightarrow> nat \<Rightarrow> u64 \<Rightarrow> byte list" where
  "set_attr t i a = set_u64 t (ENT_SIZE * i + 48) a"

definition bootme :: "byte list \<Rightarrow> bool" where
  "bootme e \<longleftrightarrow> ent_attr e AND GPT_ENT_ATTR_BOOTME \<noteq> 0"

definition boot_once :: "byte list \<Rightarrow> bool" where
  "boot_once e \<longleftrightarrow> ent_attr e AND GPT_ENT_ATTR_BOOTONCE \<noteq> 0"

definition boot_failed :: "byte list \<Rightarrow> bool" where
  "boot_failed e \<longleftrightarrow> ent_attr e AND GPT_ENT_ATTR_BOOTFAILED \<noteq> 0"

section \<open>State\<close>

datatype gpt_copy = Primary | Backup

record gpt_side =
  hdr :: "byte list"
  hdr_lba :: u64
  table :: "byte list"

record 'm gio =
  secbuf :: "byte list"
  machine :: 'm
  msgs :: "(string \<times> gpt_copy option) list"

record 'm gpt =
  primary :: gpt_side
  backup :: gpt_side
  gptcur :: "gpt_copy option"
  curent :: int
  bootonce :: bool
  gio :: "'m gio"

record 'm drv_ops =
  d_read :: "dsk \<Rightarrow> byte list \<Rightarrow> u64 \<Rightarrow> u32 \<Rightarrow> 'm \<Rightarrow> int \<times> byte list \<times> 'm"
  d_write :: "dsk \<Rightarrow> byte list \<Rightarrow> u64 \<Rightarrow> u32 \<Rightarrow> 'm \<Rightarrow> int \<times> byte list \<times> 'm"
  d_size :: "dsk \<Rightarrow> 'm \<Rightarrow> u64 \<times> 'm"

definition tell :: "string \<Rightarrow> gpt_copy option \<Rightarrow> 'm gio \<Rightarrow> 'm gio" where
  "tell msg which io = io\<lparr>msgs := msgs io @ [(msg, which)]\<rparr>"

section \<open>Writing a copy back\<close>

definition entries_per_sec :: "byte list \<Rightarrow> nat option" where
  "entries_per_sec h = (if hdr_entsz h = 0 then None else Some (DEV_BSIZE div unat (hdr_entsz h)))"

text \<open>\<^verbatim>\<open>drvwrite(dskp, secbuf, lba, 1)\<close> after a copy into the sector buffer.\<close>

definition write_sec ::
  "'m drv_ops \<Rightarrow> dsk \<Rightarrow> byte list \<Rightarrow> u64 \<Rightarrow> 'm gio \<Rightarrow> (int \<times> 'm gio) option" where
  "write_sec dv dskp bytes lba io = do {
     buf \<leftarrow> store (secbuf io) 0 bytes;
     let (rc, buf', m) = d_write dv dskp buf lba 1 (machine io);
     Some (rc, io\<lparr>secbuf := buf', machine := m\<rparr>)
   }"

text \<open>The checksums of table and header, then the header on disk.\<close>

definition rehash :: "gpt_side \<Rightarrow> gpt_side option" where
  "rehash sd = do {
     ct \<leftarrow> crc32 (table sd) (unat (hdr_entries (hdr sd) * hdr_entsz (hdr sd)));
     let h = set_u32 (set_u32 (hdr sd) 88 ct) 16 0;
     cs \<leftarrow> crc32 h (unat (hdr_size h));
     Some (sd\<lparr>hdr := set_u32 h 16 cs\<rparr>)
   }"

definition write_hdr ::
  "'m drv_ops \<Rightarrow> gpt_copy \<Rightarrow> dsk \<Rightarrow> gpt_side \<Rightarrow> 'm gio \<Rightarrow> (gpt_side \<times> 'm gio) option" where
  "write_hdr dv which dskp sd io = do {
     sd' \<leftarrow> rehash sd;
     zeroed \<leftarrow> store (secbuf io) 0 (replicate DEV_BSIZE 0);
     bytes \<leftarrow> slice (hdr sd') 0 (unat (hdr_size (hdr sd')));
     (rc, io') \<leftarrow> write_sec dv dskp bytes (hdr_lba_self (hdr sd')) (io\<lparr>secbuf := zeroed\<rparr>);
     Some (sd', if rc \<noteq> 0 then tell ''%s: unable to update %s GPT header'' (Some which) io' else io')
   }"

definition gptupdate ::
  "'m drv_ops \<Rightarrow> gpt_copy \<Rightarrow> dsk \<Rightarrow> nat \<Rightarrow> gpt_side \<Rightarrow> 'm gio \<Rightarrow> (gpt_side \<times> 'm gio) option" where
  "gptupdate dv which dskp cur sd io = do {
     eps \<leftarrow> entries_per_sec (hdr sd);
     if eps = 0 then None
     else do {
       let slba = cur div eps;
       let firstent = slba * eps;
       bytes \<leftarrow> slice (table sd) (ENT_SIZE * firstent) DEV_BSIZE;
       (rc, io1) \<leftarrow> write_sec dv dskp bytes (of_nat slba + hdr_lba_table (hdr sd)) io;
       if rc \<noteq> 0 then Some (sd, tell ''%s: unable to update %s GPT partition table'' (Some which) io1)
       else write_hdr dv which dskp sd io1
     }
   }"

section \<open>Choosing a partition\<close>

definition side :: "gpt_copy \<Rightarrow> 'm gpt \<Rightarrow> gpt_side" where
  "side c s = (case c of Primary \<Rightarrow> primary s | Backup \<Rightarrow> backup s)"

text \<open>The loops \<^verbatim>\<open>for (; curent < gpthdr->hdr_entries; curent++)\<close> with their \<^verbatim>\<open>continue\<close> tests.\<close>

function scan :: "(byte list \<Rightarrow> bool) \<Rightarrow> byte list \<Rightarrow> nat \<Rightarrow> nat \<Rightarrow> nat option" where
  "scan want t n i =
     (if i < n then do {
        e \<leftarrow> ent t i;
        if want e then Some i else scan want t n (Suc i)
      } else Some i)"
  by pat_completeness auto
termination by (relation "measure (\<lambda>(want, t, n, i). n - i)") auto

declare scan.simps [simp del]

definition want_once :: "byte list \<Rightarrow> byte list \<Rightarrow> bool" where
  "want_once uuid e \<longleftrightarrow> ent_type e = uuid \<and> bootme e \<and> boot_once e"

definition want_me :: "byte list \<Rightarrow> byte list \<Rightarrow> bool" where
  "want_me uuid e \<longleftrightarrow> ent_type e = uuid \<and> bootme e \<and> \<not> boot_once e"

definition want_any :: "byte list \<Rightarrow> byte list \<Rightarrow> bool" where
  "want_any uuid e \<longleftrightarrow> ent_type e = uuid"

text \<open>The search of \<^verbatim>\<open>gptfind\<close>, up to the label \<^verbatim>\<open>found\<close>; \<^verbatim>\<open>curent\<close> is never below -1.\<close>

definition gptfind_next :: "byte list \<Rightarrow> nat \<Rightarrow> byte list \<Rightarrow> 'm gpt \<Rightarrow> (bool \<times> 'm gpt) option" where
  "gptfind_next uuid n t s = do {
     let firsttry = (curent s = -1);
     let c0 = nat (curent s + 1);
     if c0 \<ge> n then Some (False, s\<lparr>curent := int n\<rparr>)
     else do {
       i1 \<leftarrow> (if bootonce s then scan (want_once uuid) t n c0 else Some n);
       if i1 < n then Some (True, s\<lparr>curent := int i1\<rparr>)
       else do {
         let c1 = (if bootonce s then 0 else c0);
         let s1 = s\<lparr>bootonce := False\<rparr>;
         i2 \<leftarrow> scan (want_me uuid) t n c1;
         if i2 < n then Some (True, s1\<lparr>curent := int i2\<rparr>)
         else if firsttry then do {
           i3 \<leftarrow> scan (want_any uuid) t n 0;
           Some (i3 < n, s1\<lparr>curent := int i3\<rparr>)
         }
         else Some (False, s1\<lparr>curent := int i2\<rparr>)
       }
     }
   }"

definition gptfind_part :: "byte list \<Rightarrow> nat \<Rightarrow> byte list \<Rightarrow> int \<Rightarrow> 'm gpt \<Rightarrow> (bool \<times> 'm gpt) option" where
  "gptfind_part uuid n t part s =
     (if part = 0 \<or> part > int n
      then Some (False, s\<lparr>gio := tell ''%s: invalid partition index'' None (gio s)\<rparr>)
      else do {
        e \<leftarrow> ent t (nat (part - 1));
        if ent_type e \<noteq> uuid
        then Some (False, s\<lparr>gio := tell ''%s: specified partition is not UFS'' None (gio s)\<rparr>)
        else Some (True, s\<lparr>curent := part - 1\<rparr>)
      })"

text \<open>One of the two blocks that change the attributes of \<^verbatim>\<open>curent\<close> in a copy and write it back.\<close>

definition mark_side ::
  "'m drv_ops \<Rightarrow> (u64 \<Rightarrow> u64) \<Rightarrow> gpt_copy \<Rightarrow> dsk \<Rightarrow> nat \<Rightarrow> gpt_side \<Rightarrow> 'm gio \<Rightarrow> (gpt_side \<times> 'm gio) option" where
  "mark_side dv f which dskp cur sd io =
     (if hdr_lba sd > 0 then do {
        e \<leftarrow> ent (table sd) cur;
        gptupdate dv which dskp cur (sd\<lparr>table := set_attr (table sd) cur (f (ent_attr e))\<rparr>) io
      } else Some (sd, io))"

definition mark_both :: "'m drv_ops \<Rightarrow> (u64 \<Rightarrow> u64) \<Rightarrow> dsk \<Rightarrow> 'm gpt \<Rightarrow> 'm gpt option" where
  "mark_both dv f dskp s = do {
     (p, io1) \<leftarrow> mark_side dv f Primary dskp (nat (curent s)) (primary s) (gio s);
     (b, io2) \<leftarrow> mark_side dv f Backup dskp (nat (curent s)) (backup s) io1;
     Some (s\<lparr>primary := p, backup := b, gio := io2\<rparr>)
   }"

definition clear_bootme :: "u64 \<Rightarrow> u64" where
  "clear_bootme a = a AND NOT GPT_ENT_ATTR_BOOTME"

definition once_to_failed :: "u64 \<Rightarrow> u64" where
  "once_to_failed a = (a AND NOT GPT_ENT_ATTR_BOOTONCE) OR GPT_ENT_ATTR_BOOTFAILED"

definition gptfind ::
  "'m drv_ops \<Rightarrow> byte list \<Rightarrow> dsk \<Rightarrow> int \<Rightarrow> 'm gpt \<Rightarrow> (int \<times> dsk \<times> 'm gpt) option" where
  "gptfind dv uuid dskp part s = do {
     c \<leftarrow> gptcur s;
     let n = unat (hdr_entries (hdr (side c s)));
     let t = table (side c s);
     (found, s1) \<leftarrow> (if part \<ge> 0 then gptfind_part uuid n t part s else gptfind_next uuid n t s);
     if \<not> found then Some (-1, dskp, s1)
     else do {
       e \<leftarrow> ent t (nat (curent s1));
       let dskp' = dskp\<lparr>dsk_part := curent s1 + 1, dsk_start := ent_lba_start e\<rparr>;
       s2 \<leftarrow> (if boot_once e then mark_both dv clear_bootme dskp' s1 else Some s1);
       Some (0, dskp', s2)
     }
   }"

definition gptbootfailed :: "'m drv_ops \<Rightarrow> dsk \<Rightarrow> 'm gpt \<Rightarrow> 'm gpt option" where
  "gptbootfailed dv dskp s = do {
     c \<leftarrow> gptcur s;
     e \<leftarrow> (if curent s < 0 then None else ent (table (side c s)) (nat (curent s)));
     if \<not> boot_once e then Some s else mark_both dv once_to_failed dskp s
   }"

section \<open>Reading the tables\<close>

text \<open>\<^verbatim>\<open>gptread_hdr\<close>; the header it leaves behind is part of the result on the failures too.\<close>

definition gptread_hdr ::
  "'m drv_ops \<Rightarrow> gpt_copy \<Rightarrow> dsk \<Rightarrow> byte list \<Rightarrow> u64 \<Rightarrow> 'm gio \<Rightarrow> (int \<times> byte list \<times> 'm gio) option" where
  "gptread_hdr dv which dskp h0 hdrlba io = do {
     let (rc, buf, m) = d_read dv dskp (secbuf io) hdrlba 1 (machine io);
     let io = io\<lparr>secbuf := buf, machine := m\<rparr>;
     if rc \<noteq> 0 then Some (-1, h0, tell ''%s: unable to read %s GPT header'' (Some which) io)
     else do {
       h \<leftarrow> slice buf 0 HDR_SIZE;
       if hdr_sig h \<noteq> GPT_HDR_SIG \<or> hdr_lba_self h \<noteq> hdrlba \<or> hdr_revision h < 0x00010000 \<or>
          unat (hdr_entsz h) < ENT_SIZE \<or> unat (hdr_entries h) > MAXTBLENTS \<or>
          DEV_BSIZE mod unat (hdr_entsz h) \<noteq> 0
       then Some (-1, h, tell ''%s: invalid %s GPT header'' (Some which) io)
       else do {
         let crc = hdr_crc_self h;
         let h1 = set_u32 h 16 0;
         c \<leftarrow> crc32 h1 (unat (hdr_size h1));
         if c \<noteq> crc then Some (-1, h1, tell ''%s: %s GPT header checksum mismatch'' (Some which) io)
         else Some (0, set_u32 h1 16 crc, io)
       }
     }
   }"

lemma measure_word_less:
  fixes a b :: u64
  assumes "a < b"
  shows "unat (b - (a + 1)) < unat (b - a)"
proof -
  have "b - a \<noteq> 0" using assms by auto
  then have "unat (b - a - 1) < unat (b - a)" by (simp add: unat_minus_one unat_gt_0)
  then show ?thesis by (simp add: diff_diff_add)
qed

text \<open>The inner loop of \<^verbatim>\<open>gptread_table\<close>: \<open>k\<close> entries of the sector are left, from number \<open>j\<close> on.\<close>

fun copy_ents :: "byte list \<Rightarrow> nat \<Rightarrow> nat \<Rightarrow> nat \<Rightarrow> byte list \<Rightarrow> nat \<Rightarrow> (byte list \<times> nat) option" where
  "copy_ents buf n j 0 t nent = Some (t, nent)"
| "copy_ents buf n j (Suc k) t nent = do {
     e \<leftarrow> ent buf j;
     t' \<leftarrow> store t (ENT_SIZE * nent) e;
     if Suc nent \<ge> n then Some (t', Suc nent) else copy_ents buf n (Suc j) k t' (Suc nent)
   }"

lemma copy_ents_progress:
  "copy_ents buf n j k t nent = Some (t', nent') \<Longrightarrow> 0 < k \<Longrightarrow> nent < nent'"
proof (induction buf n j k t nent rule: copy_ents.induct)
  case (2 buf n j k t nent)
  then show ?case by (cases k) (fastforce split: if_splits bind_splits)+
qed simp

text \<open>The outer loop; with no entry per sector it would not end.\<close>

function read_ents ::
  "'m drv_ops \<Rightarrow> gpt_copy \<Rightarrow> dsk \<Rightarrow> nat \<Rightarrow> nat \<Rightarrow> u64 \<Rightarrow> nat \<Rightarrow> byte list \<Rightarrow> 'm gio \<Rightarrow>
   (int \<times> nat \<times> byte list \<times> 'm gio) option" where
  "read_ents dv which dskp n eps slba nent t io =
     (let (rc, buf, m) = d_read dv dskp (secbuf io) slba 1 (machine io);
          io = io\<lparr>secbuf := buf, machine := m\<rparr> in
      if rc \<noteq> 0
      then Some (-1, nent, t, tell ''%s: unable to read %s GPT partition table'' (Some which) io)
      else if eps = 0 then None
      else case copy_ents buf n 0 eps t nent of
             None \<Rightarrow> None
           | Some (t', nent') \<Rightarrow>
               if nent' \<ge> n then Some (0, nent', t', io)
               else read_ents dv which dskp n eps (slba + 1) nent' t' io)"
  by pat_completeness auto
termination
  by (relation "measure (\<lambda>(dv, which, dskp, n, eps, slba, nent, t, io). n - nent)")
     (auto dest!: sym [of "Some _"] dest: copy_ents_progress)

declare read_ents.simps [simp del]

definition gptread_table ::
  "'m drv_ops \<Rightarrow> gpt_copy \<Rightarrow> dsk \<Rightarrow> byte list \<Rightarrow> byte list \<Rightarrow> 'm gio \<Rightarrow> (int \<times> byte list \<times> 'm gio) option" where
  "gptread_table dv which dskp h t io =
     (if hdr_entries h = 0 then Some (0, t, io)
      else do {
        eps \<leftarrow> entries_per_sec h;
        (rc, nent, t', io') \<leftarrow> read_ents dv which dskp (unat (hdr_entries h)) eps (hdr_lba_table h) 0 t io;
        if rc \<noteq> 0 then Some (-1, t', io')
        else do {
          c \<leftarrow> crc32 t' (unat (of_nat nent * hdr_entsz h));
          if c \<noteq> hdr_crc_table h
          then Some (-1, t', tell ''%s: %s GPT table checksum mismatch'' (Some which) io')
          else Some (0, t', io')
        }
      })"

section \<open>Recording failed attempts of an earlier boot\<close>

definition stale_once :: "u64 \<Rightarrow> bool" where
  "stale_once a \<longleftrightarrow>
     a AND (GPT_ENT_ATTR_BOOTME OR GPT_ENT_ATTR_BOOTONCE OR GPT_ENT_ATTR_BOOTFAILED) = GPT_ENT_ATTR_BOOTONCE"

fun conv_ents :: "byte list \<Rightarrow> nat \<Rightarrow> nat \<Rightarrow> bool \<Rightarrow> (byte list \<times> bool) option" where
  "conv_ents t i 0 upd = Some (t, upd)"
| "conv_ents t i (Suc k) upd = do {
     e \<leftarrow> ent t i;
     if \<not> stale_once (ent_attr e) then conv_ents t (Suc i) k upd
     else conv_ents (set_attr t i (once_to_failed (ent_attr e))) (Suc i) k True
   }"

function conv_secs ::
  "'m drv_ops \<Rightarrow> gpt_copy \<Rightarrow> dsk \<Rightarrow> nat \<Rightarrow> u64 \<Rightarrow> u64 \<Rightarrow> nat \<Rightarrow> byte list \<Rightarrow> 'm gio \<Rightarrow> bool \<Rightarrow>
   (byte list \<times> 'm gio \<times> bool) option" where
  "conv_secs dv which dskp eps endlba slba nent t io upd =
     (if slba < endlba then do {
        (t', supd) \<leftarrow> conv_ents t nent eps False;
        if \<not> supd then conv_secs dv which dskp eps endlba (slba + 1) (nent + eps) t' io upd
        else do {
          bytes \<leftarrow> slice t' (ENT_SIZE * nent) DEV_BSIZE;
          (rc, io') \<leftarrow> write_sec dv dskp bytes slba io;
          conv_secs dv which dskp eps endlba (slba + 1) (nent + eps) t'
            (if rc \<noteq> 0 then tell ''%s: unable to update %s GPT partition table'' (Some which) io' else io') True
        }
      } else Some (t, io, upd))"
  by pat_completeness auto
termination
  by (relation "measure (\<lambda>(dv, which, dskp, eps, endlba, slba, nent, t, io, upd). unat (endlba - slba))")
     (auto intro!: measure_word_less)

declare conv_secs.simps [simp del]

definition gptbootconv ::
  "'m drv_ops \<Rightarrow> gpt_copy \<Rightarrow> dsk \<Rightarrow> gpt_side \<Rightarrow> 'm gio \<Rightarrow> (gpt_side \<times> 'm gio) option" where
  "gptbootconv dv which dskp sd io = do {
     let h = hdr sd;
     eps \<leftarrow> entries_per_sec h;
     if eps = 0 then None
     else do {
       (t, io1, upd) \<leftarrow> conv_secs dv which dskp eps
         (hdr_lba_table h + of_nat (unat (hdr_entries h) div eps)) (hdr_lba_table h) 0 (table sd) io False;
       let sd1 = sd\<lparr>table := t\<rparr>;
       if \<not> upd then Some (sd1, io1) else write_hdr dv which dskp sd1 io1
     }
   }"

text \<open>\<^verbatim>\<open>gptread_hdr(...) == 0 && gptread_table(...) == 0\<close> on one copy.\<close>

definition read_side ::
  "'m drv_ops \<Rightarrow> gpt_copy \<Rightarrow> dsk \<Rightarrow> u64 \<Rightarrow> gpt_side \<Rightarrow> 'm gio \<Rightarrow> (bool \<times> gpt_side \<times> 'm gio) option" where
  "read_side dv which dskp lba sd io = do {
     (rc, h, io1) \<leftarrow> gptread_hdr dv which dskp (hdr sd) lba io;
     if rc \<noteq> 0 then Some (False, sd\<lparr>hdr := h\<rparr>, io1)
     else do {
       (rc', t, io2) \<leftarrow> gptread_table dv which dskp h (table sd) io1;
       if rc' \<noteq> 0 then Some (False, sd\<lparr>hdr := h, table := t\<rparr>, io2)
       else Some (True, sd\<lparr>hdr := h, table := t, hdr_lba := hdr_lba_self h\<rparr>, io2)
     }
   }"

definition conv_side :: "'m drv_ops \<Rightarrow> gpt_copy \<Rightarrow> dsk \<Rightarrow> gpt_side \<Rightarrow> 'm gio \<Rightarrow> (gpt_side \<times> 'm gio) option" where
  "conv_side dv which dskp sd io =
     (if hdr_lba sd \<noteq> 0 then gptbootconv dv which dskp sd io else Some (sd, io))"

definition gptread ::
  "'m drv_ops \<Rightarrow> dsk \<Rightarrow> byte list \<Rightarrow> 'm gpt \<Rightarrow> (int \<times> dsk \<times> 'm gpt) option" where
  "gptread dv dskp buf s = do {
     let io0 = (gio s)\<lparr>secbuf := buf\<rparr>;
     let dskp' = dskp\<lparr>dsk_start := 0\<rparr>;
     (good1, p, io1) \<leftarrow> read_side dv Primary dskp' 1 ((primary s)\<lparr>hdr_lba := 0\<rparr>) io0;
     let cur1 = (if good1 then Some Primary else gptcur s);
     let (altlba, io2) =
       (if hdr_lba p > 0 then (hdr_lba_alt (hdr p), io1)
        else let (sz, m) = d_size dv dskp' (machine io1)
             in (if sz > 0 then sz - 1 else sz, io1\<lparr>machine := m\<rparr>));
     let b0 = (backup s)\<lparr>hdr_lba := 0\<rparr>;
     (good2, b, io3) \<leftarrow>
       (if altlba = 0
        then Some (False, b0, tell ''%s: unable to locate backup GPT header'' None io2)
        else read_side dv Backup dskp' altlba b0 io2);
     let (cur2, io4) =
       (if good2 \<and> hdr_lba p = 0 then (Some Backup, tell ''%s: using backup GPT'' None io3) else (cur1, io3));
     (p', io5) \<leftarrow> conv_side dv Primary dskp' p io4;
     (b', io6) \<leftarrow> conv_side dv Backup dskp' b io5;
     Some (if hdr_lba p' = 0 \<and> hdr_lba b' = 0 then -1 else 0, dskp',
       s\<lparr>primary := p', backup := b', gptcur := cur2, curent := -1, bootonce := True, gio := io6\<rparr>)
   }"

section \<open>Fields\<close>

lemma field_put_same: "off + length ys \<le> length m \<Longrightarrow> n = length ys \<Longrightarrow> take n (drop off (put m off ys)) = ys"
  using slice_put_same [of off ys m] by (simp add: slice_def)

lemma field_put_other:
  assumes "off + length ys \<le> length m" "off' + n \<le> off \<or> off + length ys \<le> off'"
  shows "take n (drop off' (put m off ys)) = take n (drop off' m)"
proof (rule nth_equalityI)
  show "length (take n (drop off' (put m off ys))) = length (take n (drop off' m))" using assms(1) by simp
  show "take n (drop off' (put m off ys)) ! i = take n (drop off' m) ! i"
    if "i < length (take n (drop off' (put m off ys)))" for i
    using that assms by (auto simp: nth_put)
qed

lemma length_set [simp]:
  "off + 4 \<le> length m \<Longrightarrow> length (set_u32 m off w) = length m"
  "off + 8 \<le> length m \<Longrightarrow> length (set_u64 m off v) = length m"
  by (simp_all add: set_u32_def set_u64_def)

lemma at_set_same:
  "off + 4 \<le> length m \<Longrightarrow> u32_at (set_u32 m off w) off = w"
  "off + 8 \<le> length m \<Longrightarrow> u64_at (set_u64 m off v) off = v"
  by (simp_all add: u32_at_def set_u32_def u64_at_def set_u64_def field_put_same word_of_nat_le_bytes)

lemma at_set_other:
  "off + 4 \<le> length m \<Longrightarrow> off' + 4 \<le> off \<or> off + 4 \<le> off' \<Longrightarrow> u32_at (set_u32 m off w) off' = u32_at m off'"
  "off + 4 \<le> length m \<Longrightarrow> off' + 8 \<le> off \<or> off + 4 \<le> off' \<Longrightarrow> u64_at (set_u32 m off w) off' = u64_at m off'"
  "off + 8 \<le> length m \<Longrightarrow> off' + 8 \<le> off \<or> off + 8 \<le> off' \<Longrightarrow> u64_at (set_u64 m off v) off' = u64_at m off'"
  by (simp_all add: u32_at_def set_u32_def u64_at_def set_u64_def field_put_other)

lemma take_set_u32: "off + 4 \<le> length m \<Longrightarrow> n \<le> off \<Longrightarrow> take n (set_u32 m off w) = take n m"
  using field_put_other [of off "le_bytes 4 (unat w)" m 0 n] by (simp add: set_u32_def)

lemma set_u32_at:
  assumes "off + 4 \<le> length m"
  shows "set_u32 (set_u32 m off w) off (u32_at m off) = m"
proof -
  have len: "length (take 4 (drop off m)) = 4" using assms by simp
  have "le_nat (take 4 (drop off m)) < 256 ^ 4" using le_nat_bound [of "take 4 (drop off m)"] len by simp
  then have "unat (u32_at m off) = le_nat (take 4 (drop off m))"
    by (simp add: u32_at_def unat_of_nat)
  then have "le_bytes 4 (unat (u32_at m off)) = take 4 (drop off m)"
    using le_bytes_le_nat [of "take 4 (drop off m)"] len by simp
  moreover have "put (put m off ys) off (take 4 (drop off m)) = m" if "length ys = 4" for ys
    by (rule nth_equalityI) (use assms that in \<open>auto simp: nth_put\<close>)
  ultimately show ?thesis by (simp add: set_u32_def)
qed

text \<open>The fields of a header whose checksums are rewritten.\<close>

lemmas hdr_defs = hdr_sig_def hdr_revision_def hdr_size_def hdr_crc_self_def hdr_lba_self_def hdr_lba_alt_def
  hdr_lba_table_def hdr_entries_def hdr_entsz_def hdr_crc_table_def

lemma hdr_set_crc [simp]:
  assumes "length h = HDR_SIZE"
  shows "hdr_sig (set_u32 h 16 w) = hdr_sig h" "hdr_revision (set_u32 h 16 w) = hdr_revision h"
    "hdr_size (set_u32 h 16 w) = hdr_size h" "hdr_crc_self (set_u32 h 16 w) = w"
    "hdr_lba_self (set_u32 h 16 w) = hdr_lba_self h" "hdr_lba_alt (set_u32 h 16 w) = hdr_lba_alt h"
    "hdr_lba_table (set_u32 h 16 w) = hdr_lba_table h" "hdr_entries (set_u32 h 16 w) = hdr_entries h"
    "hdr_entsz (set_u32 h 16 w) = hdr_entsz h" "hdr_crc_table (set_u32 h 16 w) = hdr_crc_table h"
    and "hdr_sig (set_u32 h 88 w) = hdr_sig h" "hdr_revision (set_u32 h 88 w) = hdr_revision h"
    "hdr_size (set_u32 h 88 w) = hdr_size h" "hdr_crc_self (set_u32 h 88 w) = hdr_crc_self h"
    "hdr_lba_self (set_u32 h 88 w) = hdr_lba_self h" "hdr_lba_alt (set_u32 h 88 w) = hdr_lba_alt h"
    "hdr_lba_table (set_u32 h 88 w) = hdr_lba_table h" "hdr_entries (set_u32 h 88 w) = hdr_entries h"
    "hdr_entsz (set_u32 h 88 w) = hdr_entsz h" "hdr_crc_table (set_u32 h 88 w) = w"
    and "length (set_u32 h 16 w) = HDR_SIZE" "length (set_u32 h 88 w) = HDR_SIZE"
  using assms by (simp_all add: hdr_defs at_set_same at_set_other take_set_u32 HDR_SIZE_def)

text \<open>Entry \<open>i\<close> of a table.\<close>

definition entry :: "byte list \<Rightarrow> nat \<Rightarrow> byte list" where
  "entry t i = take ENT_SIZE (drop (ENT_SIZE * i) t)"

definition TABLE_SIZE :: nat where "TABLE_SIZE = 16384"

lemma ent_in [simp]: "length t = TABLE_SIZE \<Longrightarrow> i < MAXTBLENTS \<Longrightarrow> ent t i = Some (entry t i)"
  by (simp add: ent_def entry_def TABLE_SIZE_def MAXTBLENTS_def ENT_SIZE_def)

lemma ent_attr_entry: "ent_attr (entry t i) = u64_at t (ENT_SIZE * i + 48)"
proof -
  have "take 8 (drop 48 (take 128 xs)) = take 8 (drop 48 xs)" for xs :: "byte list"
    by (simp add: drop_take min_def)
  then show ?thesis
    by (simp add: ent_attr_def entry_def u64_at_def ENT_SIZE_def add.commute)
qed

lemma length_set_attr [simp]: "length t = TABLE_SIZE \<Longrightarrow> i < MAXTBLENTS \<Longrightarrow> length (set_attr t i a) = TABLE_SIZE"
  by (simp add: set_attr_def TABLE_SIZE_def MAXTBLENTS_def ENT_SIZE_def)

lemma entry_set_attr_other:
  assumes "length t = TABLE_SIZE" "i < MAXTBLENTS" "j \<noteq> i"
  shows "entry (set_attr t i a) j = entry t j"
proof -
  have "128 * j + 128 \<le> 128 * i + 48 \<or> 128 * i + 48 + 8 \<le> 128 * j"
    using assms(3) by (cases "j < i") auto
  then show ?thesis using assms(1,2) unfolding entry_def set_attr_def set_u64_def ENT_SIZE_def
    by (intro field_put_other) (auto simp: TABLE_SIZE_def MAXTBLENTS_def)
qed

lemma attr_set_attr:
  assumes "length t = TABLE_SIZE" "i < MAXTBLENTS"
  shows "ent_attr (entry (set_attr t i a) i) = a"
  unfolding ent_attr_entry set_attr_def
  using assms by (intro at_set_same) (simp add: TABLE_SIZE_def MAXTBLENTS_def ENT_SIZE_def)

lemma type_set_attr:
  assumes "length t = TABLE_SIZE" "i < MAXTBLENTS"
  shows "ent_type (entry (set_attr t i a) i) = ent_type (entry t i)"
    "ent_lba_start (entry (set_attr t i a) i) = ent_lba_start (entry t i)"
proof -
  have le: "ENT_SIZE * i + 48 + length (le_bytes 8 (unat a)) \<le> length t"
    using assms by (simp add: TABLE_SIZE_def MAXTBLENTS_def ENT_SIZE_def)
  have "take 16 (drop (ENT_SIZE * i) (set_attr t i a)) = take 16 (drop (ENT_SIZE * i) t)"
    unfolding set_attr_def set_u64_def by (rule field_put_other [OF le]) simp
  then show "ent_type (entry (set_attr t i a) i) = ent_type (entry t i)"
    by (simp add: ent_type_def entry_def ENT_SIZE_def min_def)
  have "take 8 (drop (ENT_SIZE * i + 32) (set_attr t i a)) = take 8 (drop (ENT_SIZE * i + 32) t)"
    unfolding set_attr_def set_u64_def by (rule field_put_other [OF le]) simp
  then show "ent_lba_start (entry (set_attr t i a) i) = ent_lba_start (entry t i)"
    by (simp add: ent_lba_start_def entry_def ENT_SIZE_def u64_at_def drop_take min_def add.commute)
qed

section \<open>Well-formed copies\<close>

text \<open>
  A copy that \<^verbatim>\<open>gptread\<close> accepted (its \<^verbatim>\<open>hdr_lba\<close> is set) and whose entries have the 128 bytes of
  \<^verbatim>\<open>struct gpt_ent\<close>.
\<close>

definition hdr_good :: "byte list \<Rightarrow> bool" where
  "hdr_good h \<longleftrightarrow> unat (hdr_size h) \<le> HDR_SIZE \<and> hdr_entsz h = 128 \<and> unat (hdr_entries h) \<le> MAXTBLENTS"

definition side_wf :: "gpt_side \<Rightarrow> bool" where
  "side_wf sd \<longleftrightarrow> length (hdr sd) = HDR_SIZE \<and> length (table sd) = TABLE_SIZE \<and>
     (hdr_lba sd > 0 \<longrightarrow> hdr_good (hdr sd))"

definition io_wf :: "'m gio \<Rightarrow> bool" where
  "io_wf io \<longleftrightarrow> length (secbuf io) = DEV_BSIZE"

lemma crc32_total: "n \<le> length t \<Longrightarrow> \<exists>c. crc32 t n = Some c"
  by (simp add: crc32_def crc32_loop_eq)

definition crc_of :: "byte list \<Rightarrow> nat \<Rightarrow> u32" where
  "crc_of t n = the (crc32 t n)"

lemma crc32_crc_of: "n \<le> length t \<Longrightarrow> crc32 t n = Some (crc_of t n)"
  using crc32_total [of n t] by (auto simp: crc_of_def)

text \<open>The header with both checksums brought up to date.\<close>

definition sealed :: "byte list \<Rightarrow> byte list \<Rightarrow> byte list" where
  "sealed t h =
     (let h0 = set_u32 (set_u32 h 88 (crc_of t (ENT_SIZE * unat (hdr_entries h)))) 16 0
      in set_u32 h0 16 (crc_of h0 (unat (hdr_size h))))"

lemma table_bytes:
  "hdr_good h \<Longrightarrow> unat (hdr_entries h * hdr_entsz h) = ENT_SIZE * unat (hdr_entries h)"
  by (simp add: hdr_good_def unat_word_ariths ENT_SIZE_def MAXTBLENTS_def mult.commute)

lemma sealed_fields [simp]:
  assumes "length h = HDR_SIZE"
  shows "hdr_sig (sealed t h) = hdr_sig h" "hdr_revision (sealed t h) = hdr_revision h"
    "hdr_size (sealed t h) = hdr_size h" "hdr_lba_self (sealed t h) = hdr_lba_self h"
    "hdr_lba_alt (sealed t h) = hdr_lba_alt h" "hdr_lba_table (sealed t h) = hdr_lba_table h"
    "hdr_entries (sealed t h) = hdr_entries h" "hdr_entsz (sealed t h) = hdr_entsz h"
    "hdr_crc_table (sealed t h) = crc_of t (ENT_SIZE * unat (hdr_entries h))" "length (sealed t h) = HDR_SIZE"
  using assms by (simp_all add: sealed_def Let_def)

lemma sealed_crc_self:
  assumes "length h = HDR_SIZE"
  shows "hdr_crc_self (sealed t h) = crc_of (set_u32 (sealed t h) 16 0) (unat (hdr_size h))"
proof -
  let ?h0 = "set_u32 (set_u32 h 88 (crc_of t (ENT_SIZE * unat (hdr_entries h)))) 16 0"
  have "u32_at ?h0 16 = 0" using assms hdr_set_crc(4) [of "set_u32 h 88 _"] by (simp add: hdr_crc_self_def)
  then have "set_u32 (set_u32 ?h0 16 w) 16 0 = ?h0" for w
    using set_u32_at [of 16 ?h0 w] assms by (simp add: HDR_SIZE_def)
  then show ?thesis using assms by (simp add: sealed_def Let_def)
qed

lemma rehash_ok:
  assumes "length (hdr sd) = HDR_SIZE" "length (table sd) = TABLE_SIZE" "hdr_good (hdr sd)"
  shows "rehash sd = Some (sd\<lparr>hdr := sealed (table sd) (hdr sd)\<rparr>)"
proof -
  have "crc32 (table sd) (unat (hdr_entries (hdr sd) * hdr_entsz (hdr sd))) =
      Some (crc_of (table sd) (ENT_SIZE * unat (hdr_entries (hdr sd))))"
    unfolding table_bytes [OF assms(3)]
    using assms by (intro crc32_crc_of) (simp add: hdr_good_def TABLE_SIZE_def ENT_SIZE_def MAXTBLENTS_def)
  moreover have "crc32 h n = Some (crc_of h n)" if "length h = HDR_SIZE" "n \<le> HDR_SIZE" for h n
    using that by (simp add: crc32_crc_of)
  ultimately show ?thesis using assms by (simp add: rehash_def sealed_def Let_def hdr_good_def)
qed

text \<open>The sector that holds a header on disk.\<close>

definition hdr_sector :: "byte list \<Rightarrow> byte list" where
  "hdr_sector h = take (unat (hdr_size h)) h @ replicate (DEV_BSIZE - unat (hdr_size h)) 0"

lemma good_size: "hdr_good h \<Longrightarrow> length h = HDR_SIZE \<Longrightarrow> unat (hdr_size h) \<le> length h \<and> unat (hdr_size h) \<le> DEV_BSIZE"
  by (simp add: hdr_good_def HDR_SIZE_def DEV_BSIZE_def)

lemma length_hdr_sector [simp]: "hdr_good h \<Longrightarrow> length h = HDR_SIZE \<Longrightarrow> length (hdr_sector h) = DEV_BSIZE"
  using good_size [of h] by (simp add: hdr_sector_def)

locale gpt_drive = sector_drive "d_read dv" "d_write dv" dr sect
  for dv :: "'m drv_ops" and dr and sect
begin

lemma write_sec_ok:
  assumes "dsk_drive dskp = dr" "io_wf io" "length bytes \<le> DEV_BSIZE"
  shows "\<exists>rc m. write_sec dv dskp bytes lba io = Some (rc, io\<lparr>secbuf := put (secbuf io) 0 bytes, machine := m\<rparr>) \<and>
    (rc = 0 \<and> sect m = (sect (machine io))(lba := put (secbuf io) 0 bytes) \<or> rc = -1 \<and> sect m = sect (machine io))"
proof -
  have "length (put (secbuf io) 0 bytes) = DEV_BSIZE" using assms by (simp add: io_wf_def)
  from write_ex [OF assms(1) this, of lba "machine io"] show ?thesis
    using assms(2,3) by (auto simp: write_sec_def io_wf_def)
qed

lemma write_hdr_ok:
  assumes "dsk_drive dskp = dr" "io_wf io" "length (hdr sd) = HDR_SIZE" "length (table sd) = TABLE_SIZE" "hdr_good (hdr sd)"
  defines "h \<equiv> sealed (table sd) (hdr sd)"
  shows "\<exists>io'. write_hdr dv which dskp sd io = Some (sd\<lparr>hdr := h\<rparr>, io') \<and> io_wf io' \<and>
    (msgs io' = msgs io \<and> sect (machine io') = (sect (machine io))(hdr_lba_self h := hdr_sector h) \<or>
     msgs io' = msgs io @ [(''%s: unable to update %s GPT header'', Some which)] \<and>
       sect (machine io') = sect (machine io))"
proof -
  have h: "length h = HDR_SIZE" "hdr_good h" using assms by (simp_all add: hdr_good_def)
  note size = good_size [OF h(2,1)]
  let ?io = "io\<lparr>secbuf := replicate DEV_BSIZE 0\<rparr>" and ?bytes = "take (unat (hdr_size h)) h"
  have "put (replicate DEV_BSIZE 0) 0 ?bytes = hdr_sector h"
    using size by (simp add: put_def hdr_sector_def)
  moreover have "io_wf ?io" by (simp add: io_wf_def)
  ultimately obtain rc m where "write_sec dv dskp ?bytes (hdr_lba_self h) ?io =
      Some (rc, io\<lparr>secbuf := hdr_sector h, machine := m\<rparr>)"
    "rc = 0 \<and> sect m = (sect (machine io))(hdr_lba_self h := hdr_sector h) \<or> rc = -1 \<and> sect m = sect (machine io)"
    using write_sec_ok [OF assms(1), of ?io ?bytes "hdr_lba_self h"] size by auto
  moreover have "store (secbuf io) 0 (replicate DEV_BSIZE 0) = Some (replicate DEV_BSIZE 0)"
    using assms(2) by (simp add: io_wf_def put_def)
  ultimately show ?thesis
    using rehash_ok [OF assms(3,4,5)] size h
    by (auto simp: write_hdr_def h_def [symmetric] io_wf_def tell_def)
qed

lemma gptupdate_ok:
  assumes "dsk_drive dskp = dr" "io_wf io" "length (hdr sd) = HDR_SIZE" "length (table sd) = TABLE_SIZE" "hdr_good (hdr sd)"
    and cur: "cur < MAXTBLENTS"
  defines "h \<equiv> sealed (table sd) (hdr sd)"
  shows "\<exists>sd' io'. gptupdate dv which dskp cur sd io = Some (sd', io') \<and> io_wf io' \<and>
    (msgs io' = msgs io \<and> sd' = sd\<lparr>hdr := h\<rparr> \<and>
       sect (machine io') = (sect (machine io))
         (hdr_lba_table h + of_nat (cur div 4) := take DEV_BSIZE (drop (DEV_BSIZE * (cur div 4)) (table sd)),
          hdr_lba_self h := hdr_sector h) \<or>
     length (msgs io) < length (msgs io') \<and> (sd' = sd \<or> sd' = sd\<lparr>hdr := h\<rparr>))"
proof -
  let ?k = "cur div 4" and ?bytes = "take DEV_BSIZE (drop (DEV_BSIZE * (cur div 4)) (table sd))"
  have eps: "entries_per_sec (hdr sd) = Some 4"
    using assms(5) by (simp add: entries_per_sec_def hdr_good_def DEV_BSIZE_def)
  have "?k \<le> 31" using cur by (simp add: MAXTBLENTS_def)
  then have le: "DEV_BSIZE * ?k + DEV_BSIZE \<le> length (table sd)" using assms(4) by (simp add: DEV_BSIZE_def TABLE_SIZE_def)
  then have bytes: "length ?bytes = DEV_BSIZE" by simp
  then have "put (secbuf io) 0 ?bytes = ?bytes" using assms(2) by (simp add: put_def io_wf_def)
  then obtain rc m where w: "write_sec dv dskp ?bytes (of_nat ?k + hdr_lba_table (hdr sd)) io =
      Some (rc, io\<lparr>secbuf := ?bytes, machine := m\<rparr>)"
    and rc: "rc = 0 \<and> sect m = (sect (machine io))(of_nat ?k + hdr_lba_table (hdr sd) := ?bytes) \<or> rc = -1"
    using write_sec_ok [OF assms(1,2), of ?bytes "of_nat ?k + hdr_lba_table (hdr sd)"] bytes by auto
  have off: "ENT_SIZE * (?k * 4) = DEV_BSIZE * ?k" by (simp add: ENT_SIZE_def DEV_BSIZE_def)
  let ?io = "io\<lparr>secbuf := ?bytes, machine := m\<rparr>"
  have "io_wf ?io" using bytes by (simp add: io_wf_def)
  note hw = write_hdr_ok [OF assms(1) this assms(3,4,5), of which, folded h_def]
  have self: "hdr_lba_table h = hdr_lba_table (hdr sd)" using assms(3) by (simp add: h_def)
  show ?thesis
  proof (cases "rc = 0")
    case True
    with rc have m: "sect m = (sect (machine io))(hdr_lba_table h + of_nat ?k := ?bytes)"
      by (simp add: self add.commute)
    from hw obtain io' where "write_hdr dv which dskp sd ?io = Some (sd\<lparr>hdr := h\<rparr>, io')" "io_wf io'"
      "msgs io' = msgs io \<and> sect (machine io') = (sect m)(hdr_lba_self h := hdr_sector h) \<or>
       length (msgs io) < length (msgs io')" by auto
    with True m show ?thesis
      using eps le w by (auto simp: gptupdate_def Let_def off)
  next
    case False
    then show ?thesis using eps le w bytes by (auto simp: gptupdate_def Let_def off io_wf_def tell_def)
  qed
qed

end

section \<open>The search\<close>

lemma scan_ok:
  assumes "length t = TABLE_SIZE" "n \<le> MAXTBLENTS" "i \<le> n"
  shows "\<exists>k. scan want t n i = Some k \<and> i \<le> k \<and> k \<le> n \<and> (\<forall>j. i \<le> j \<and> j < k \<longrightarrow> \<not> want (entry t j)) \<and>
    (k < n \<longrightarrow> want (entry t k))"
  using assms
proof (induction want t n i rule: scan.induct)
  case (1 want t n i)
  show ?case
  proof (cases "i < n \<and> \<not> want (entry t i)")
    case True
    with 1 obtain k where "scan want t n (Suc i) = Some k" "Suc i \<le> k" "k \<le> n"
      "\<forall>j. Suc i \<le> j \<and> j < k \<longrightarrow> \<not> want (entry t j)" "k < n \<longrightarrow> want (entry t k)" by auto
    moreover have "i \<le> j \<longleftrightarrow> j = i \<or> Suc i \<le> j" for j by auto
    ultimately show ?thesis using True 1(2,3) by (subst scan.simps) (auto simp: le_Suc_eq)
  next
    case False
    with 1(2-) show ?thesis by (subst scan.simps) auto
  qed
qed

text \<open>
  How good a candidate an entry is: one-shot boot requested, boot requested, right type, none.
\<close>

definition rank :: "byte list \<Rightarrow> byte list \<Rightarrow> nat" where
  "rank uuid e = (if ent_type e \<noteq> uuid then 0 else if \<not> bootme e then 1 else if boot_once e then 3 else 2)"

lemma rank_want:
  "want_once uuid e \<longleftrightarrow> rank uuid e = 3" "want_me uuid e \<longleftrightarrow> rank uuid e = 2" "want_any uuid e \<longleftrightarrow> 0 < rank uuid e"
  by (auto simp: rank_def want_once_def want_me_def want_any_def)

lemma rank_le: "rank uuid e \<le> 3"
  by (simp add: rank_def)

text \<open>The first entry of the highest rank.\<close>

definition best :: "byte list \<Rightarrow> byte list \<Rightarrow> nat \<Rightarrow> nat \<Rightarrow> bool" where
  "best uuid t n i \<longleftrightarrow> i < n \<and> 0 < rank uuid (entry t i) \<and>
     (\<forall>j < n. rank uuid (entry t j) \<le> rank uuid (entry t i)) \<and>
     (\<forall>j < i. rank uuid (entry t j) < rank uuid (entry t i))"

text \<open>The search as a choice between the results of its three scans.\<close>

definition picked :: "nat \<Rightarrow> nat \<Rightarrow> nat \<Rightarrow> nat \<Rightarrow> int \<Rightarrow> bool \<Rightarrow> bool \<times> nat \<times> bool" where
  "picked n i1 i2 i3 cur once =
     (if nat (cur + 1) \<ge> n then (False, n, once)
      else if once \<and> i1 < n then (True, i1, True)
      else if i2 < n then (True, i2, False)
      else if cur = -1 then (i3 < n, i3, False) else (False, i2, False))"

lemma bootonce_same: "bootonce s = once \<Longrightarrow> s\<lparr>curent := c, bootonce := once\<rparr> = s\<lparr>curent := c\<rparr>"
  by (cases s) simp

lemma gptfind_next_picked:
  assumes t: "length t = TABLE_SIZE" "n \<le> MAXTBLENTS"
    and i1: "scan (want_once uuid) t n (nat (curent s + 1)) = Some i1"
    and i2: "scan (want_me uuid) t n (if bootonce s then 0 else nat (curent s + 1)) = Some i2"
    and i3: "scan (want_any uuid) t n 0 = Some i3"
    and p: "picked n i1 i2 i3 (curent s) (bootonce s) = (found, c, once)"
  shows "gptfind_next uuid n t s = Some (found, s\<lparr>curent := int c, bootonce := once\<rparr>)"
proof (cases "bootonce s")
  case True
  then have "bootonce s = True" by simp
  from bootonce_same [OF this] True show ?thesis using i1 i2 i3 p
    by (auto simp: gptfind_next_def Let_def picked_def split: if_splits)
next
  case False
  then have "bootonce s = False" by simp
  from bootonce_same [OF this] False show ?thesis using i1 i2 i3 p
    by (auto simp: gptfind_next_def Let_def picked_def split: if_splits)
qed

text \<open>What the next search may return, whatever was tried before.\<close>

lemma gptfind_next_ok:
  assumes t: "length t = TABLE_SIZE" "n \<le> MAXTBLENTS" and cur: "-1 \<le> curent s"
  shows "\<exists>found c once. gptfind_next uuid n t s = Some (found, s\<lparr>curent := int c, bootonce := once\<rparr>) \<and>
    c \<le> n \<and> (found \<longrightarrow> c < n \<and> 0 < rank uuid (entry t c) \<and>
      (bootonce s \<and> \<not> once \<or> once = bootonce s \<and> curent s < int c)) \<and> (once \<longrightarrow> bootonce s)"
proof (cases "n \<le> nat (curent s + 1)")
  case True
  then show ?thesis using cur
    by (intro exI [of _ False] exI [of _ n] exI [of _ "bootonce s"]) (simp add: gptfind_next_def Let_def)
next
  case False
  let ?c0 = "nat (curent s + 1)" and ?c1 = "if bootonce s then 0 else nat (curent s + 1)"
  have le: "?c0 \<le> n" "?c1 \<le> n" using False by auto
  obtain i1 where i1: "scan (want_once uuid) t n ?c0 = Some i1" "?c0 \<le> i1" "i1 < n \<longrightarrow> want_once uuid (entry t i1)"
    using scan_ok [OF t le(1), of "want_once uuid"] by blast
  obtain i2 where i2: "scan (want_me uuid) t n ?c1 = Some i2" "?c1 \<le> i2" "i2 \<le> n" "i2 < n \<longrightarrow> want_me uuid (entry t i2)"
    using scan_ok [OF t le(2), of "want_me uuid"] by blast
  obtain i3 where i3: "scan (want_any uuid) t n 0 = Some i3" "i3 \<le> n" "i3 < n \<longrightarrow> want_any uuid (entry t i3)"
    using scan_ok [OF t le0, of "want_any uuid"] by blast
  obtain found c once where p: "picked n i1 i2 i3 (curent s) (bootonce s) = (found, c, once)" by (metis prod_cases3)
  have lt: "\<not> bootonce s \<longrightarrow> curent s < int i2" "curent s < int i1" using i1(2) i2(2) cur by auto
  have r: "i1 < n \<longrightarrow> 0 < rank uuid (entry t i1)" "i2 < n \<longrightarrow> 0 < rank uuid (entry t i2)"
    "i3 < n \<longrightarrow> 0 < rank uuid (entry t i3)" using i1(3) i2(4) i3(3) by (simp_all add: rank_want)
  have neg: "curent s = -1 \<longrightarrow> curent s < int i3" by simp
  have "c \<le> n \<and> (found \<longrightarrow> c < n \<and> 0 < rank uuid (entry t c) \<and>
      (bootonce s \<and> \<not> once \<or> once = bootonce s \<and> curent s < int c)) \<and> (once \<longrightarrow> bootonce s)"
  proof (cases "bootonce s \<and> i1 < n")
    case True
    with p False have "found" "c = i1" "once" by (simp_all add: picked_def)
    with True lt r show ?thesis by simp
  next
    case no1: False
    show ?thesis
    proof (cases "i2 < n")
      case True
      with p False no1 have "found" "c = i2" "\<not> once" by (auto simp: picked_def)
      with True lt r show ?thesis by auto
    next
      case no2: False
      with p False no1 have "\<not> once" "found \<longrightarrow> curent s = -1 \<and> i3 < n \<and> c = i3" "c = i3 \<or> c = i2"
        by (auto simp: picked_def split: if_splits)
      with lt r neg i2(3) i3(2) show ?thesis by auto
    qed
  qed
  then show ?thesis using gptfind_next_picked [OF t i1(1) i2(1) i3(1) p] by blast
qed

lemma bestI:
  assumes "k < n" "rank uuid (entry t k) = r" "0 < r" "\<forall>j < n. rank uuid (entry t j) \<le> r"
    "\<forall>j < k. rank uuid (entry t j) \<noteq> r"
  shows "best uuid t n k"
proof -
  have "rank uuid (entry t j) < r" if "j < k" for j
    using assms that by (metis le_neq_implies_less order_less_trans)
  then show ?thesis using assms by (simp add: best_def)
qed

text \<open>The first search after \<^verbatim>\<open>gptread\<close> finds the best candidate.\<close>

lemma gptfind_next_best:
  assumes t: "length t = TABLE_SIZE" "n \<le> MAXTBLENTS" and s: "curent s = -1" "bootonce s"
  shows "\<exists>found c once. gptfind_next uuid n t s = Some (found, s\<lparr>curent := int c, bootonce := once\<rparr>) \<and>
    (if found then best uuid t n c else \<forall>j < n. rank uuid (entry t j) = 0)"
proof -
  obtain i1 where i1: "scan (want_once uuid) t n 0 = Some i1" "i1 \<le> n"
      "\<forall>j < i1. rank uuid (entry t j) \<noteq> 3" "i1 < n \<longrightarrow> rank uuid (entry t i1) = 3"
    using scan_ok [OF t, of 0 "want_once uuid"] by (auto simp: rank_want)
  obtain i2 where i2: "scan (want_me uuid) t n 0 = Some i2" "i2 \<le> n"
      "\<forall>j < i2. rank uuid (entry t j) \<noteq> 2" "i2 < n \<longrightarrow> rank uuid (entry t i2) = 2"
    using scan_ok [OF t, of 0 "want_me uuid"] by (auto simp: rank_want)
  obtain i3 where i3: "scan (want_any uuid) t n 0 = Some i3" "i3 \<le> n"
      "\<forall>j < i3. rank uuid (entry t j) = 0" "i3 < n \<longrightarrow> 0 < rank uuid (entry t i3)"
    using scan_ok [OF t, of 0 "want_any uuid"] by (auto simp: rank_want)
  obtain found c once where p: "picked n i1 i2 i3 (curent s) (bootonce s) = (found, c, once)" by (metis prod_cases3)
  have "best uuid t n i1" if "i1 < n" using that i1 rank_le by (intro bestI [where r = 3]) auto
  moreover have not3: "rank uuid (entry t j) \<le> 2" if "\<not> i1 < n" "j < n" for j
    using that i1(2,3) rank_le [of uuid "entry t j"] by (cases "rank uuid (entry t j) = 3") auto
  moreover have "best uuid t n i2" if "\<not> i1 < n" "i2 < n"
    using that i2 not3 by (intro bestI [where r = 2]) auto
  moreover have not2: "rank uuid (entry t j) \<le> 1" if "\<not> i1 < n" "\<not> i2 < n" "j < n" for j
    using that i2(2,3) not3 [of j] by (cases "rank uuid (entry t j) = 2") auto
  moreover have "best uuid t n i3" if "\<not> i1 < n" "\<not> i2 < n" "i3 < n"
    using that i3 not2 [OF that(1,2)] by (intro bestI [where r = 1]) (auto simp: le_antisym)
  ultimately have "if found then best uuid t n c else \<forall>j < n. rank uuid (entry t j) = 0"
    using p s i1(2) i2(2) i3(2,3) by (auto simp: picked_def split: if_splits)
  then show ?thesis
    using gptfind_next_picked [OF t _ _ i3(1) p] i1(1) i2(1) s by auto
qed

section \<open>Marking entries and the invariant of the boot loop\<close>

definition marked :: "(u64 \<Rightarrow> u64) \<Rightarrow> nat \<Rightarrow> byte list \<Rightarrow> byte list" where
  "marked f cur t = set_attr t cur (f (ent_attr (entry t cur)))"

definition new_table :: "(u64 \<Rightarrow> u64) \<Rightarrow> nat \<Rightarrow> gpt_side \<Rightarrow> byte list" where
  "new_table f cur sd = (if hdr_lba sd > 0 then marked f cur (table sd) else table sd)"

text \<open>
  The statics between the calls: both copies well-formed, the chosen one accepted, \<^verbatim>\<open>curent\<close> at
  most the number of its entries.
\<close>

definition cur_entries :: "'m gpt \<Rightarrow> nat" where
  "cur_entries s = (case gptcur s of None \<Rightarrow> 0 | Some c \<Rightarrow> unat (hdr_entries (hdr (side c s))))"

definition gpt_wf :: "'m gpt \<Rightarrow> bool" where
  "gpt_wf s \<longleftrightarrow> side_wf (primary s) \<and> side_wf (backup s) \<and> io_wf (gio s) \<and>
     (\<exists>c. gptcur s = Some c \<and> hdr_lba (side c s) > 0) \<and> -1 \<le> curent s \<and> curent s \<le> int (cur_entries s)"

lemma cur_entries_le: "gpt_wf s \<Longrightarrow> cur_entries s \<le> MAXTBLENTS"
  unfolding gpt_wf_def cur_entries_def
  by (elim conjE exE, rename_tac c, case_tac c) (simp_all add: side_wf_def hdr_good_def side_def)

lemma gpt_wf_side:
  assumes "gpt_wf s" "gptcur s = Some c"
  shows "length (table (side c s)) = TABLE_SIZE" "cur_entries s = unat (hdr_entries (hdr (side c s)))"
  using assms by (auto simp: gpt_wf_def side_wf_def side_def cur_entries_def split: gpt_copy.splits)

context gpt_drive
begin

lemma mark_side_ok:
  assumes "dsk_drive dskp = dr" "io_wf io" "side_wf sd" "cur < MAXTBLENTS"
  shows "\<exists>sd' io'. mark_side dv f which dskp cur sd io = Some (sd', io') \<and> io_wf io' \<and> side_wf sd' \<and>
    hdr_lba sd' = hdr_lba sd \<and> hdr_entries (hdr sd') = hdr_entries (hdr sd) \<and>
    table sd' = new_table f cur sd"
proof (cases "hdr_lba sd > 0")
  case True
  let ?sd = "sd\<lparr>table := marked f cur (table sd)\<rparr>"
  have len: "length (hdr sd) = HDR_SIZE" "length (table sd) = TABLE_SIZE" "hdr_good (hdr sd)"
    using assms(3) True by (auto simp: side_wf_def)
  have "length (table ?sd) = TABLE_SIZE" using len(2) assms(4) by (simp add: marked_def)
  then obtain sd' io' where "gptupdate dv which dskp cur ?sd io = Some (sd', io')" "io_wf io'"
      "sd' = ?sd \<or> sd' = ?sd\<lparr>hdr := sealed (table ?sd) (hdr ?sd)\<rparr>"
    using gptupdate_ok [OF assms(1,2), of ?sd cur which] len assms(4) by auto
  moreover have "length (marked f cur (table sd)) = TABLE_SIZE" using len(2) assms(4) by (simp add: marked_def)
  moreover have "hdr_good (sealed t (hdr sd))" for t using len by (simp add: hdr_good_def)
  ultimately show ?thesis using True len assms(4)
    by (auto simp: mark_side_def side_wf_def marked_def new_table_def)
next
  case False
  with assms show ?thesis by (auto simp: mark_side_def new_table_def)
qed

lemma mark_both_ok:
  assumes "dsk_drive dskp = dr" "gpt_wf s" "0 \<le> curent s" "curent s < int MAXTBLENTS"
  shows "\<exists>p b io. mark_both dv f dskp s = Some (s\<lparr>primary := p, backup := b, gio := io\<rparr>) \<and>
    gpt_wf (s\<lparr>primary := p, backup := b, gio := io\<rparr>) \<and>
    cur_entries (s\<lparr>primary := p, backup := b, gio := io\<rparr>) = cur_entries s \<and>
    hdr_lba p = hdr_lba (primary s) \<and> hdr_lba b = hdr_lba (backup s) \<and>
    table p = new_table f (nat (curent s)) (primary s) \<and> table b = new_table f (nat (curent s)) (backup s)"
proof -
  let ?cur = "nat (curent s)"
  have cur: "?cur < MAXTBLENTS" using assms(3,4) by simp
  have wf: "io_wf (gio s)" "side_wf (primary s)" "side_wf (backup s)" using assms(2) by (auto simp: gpt_wf_def)
  obtain p io1 where p: "mark_side dv f Primary dskp ?cur (primary s) (gio s) = Some (p, io1)" "io_wf io1" "side_wf p"
      "hdr_lba p = hdr_lba (primary s)" "hdr_entries (hdr p) = hdr_entries (hdr (primary s))"
      "table p = new_table f ?cur (primary s)"
    using mark_side_ok [OF assms(1) wf(1,2) cur, of f Primary] by blast
  obtain b io2 where b: "mark_side dv f Backup dskp ?cur (backup s) io1 = Some (b, io2)" "io_wf io2" "side_wf b"
      "hdr_lba b = hdr_lba (backup s)" "hdr_entries (hdr b) = hdr_entries (hdr (backup s))"
      "table b = new_table f ?cur (backup s)"
    using mark_side_ok [OF assms(1) p(2) wf(3) cur, of f Backup] by blast
  let ?s = "s\<lparr>primary := p, backup := b, gio := io2\<rparr>"
  have "mark_both dv f dskp s = Some ?s" using p(1) b(1) by (simp add: mark_both_def)
  moreover have "hdr_lba (side c ?s) = hdr_lba (side c s) \<and> hdr_entries (hdr (side c ?s)) = hdr_entries (hdr (side c s))" for c
    using p b by (cases c) (auto simp: side_def)
  then have "cur_entries ?s = cur_entries s" "gpt_wf ?s"
    using assms(2) p(3) b(2,3) by (auto simp: gpt_wf_def cur_entries_def split: option.splits)
  ultimately show ?thesis using p(4,6) b(4,6)
    by (intro exI [of _ p] exI [of _ b] exI [of _ io2]) simp
qed

end

text \<open>The result of a successful search: the disk selected and, for a one-shot boot, the mark.\<close>

definition disk_of :: "dsk \<Rightarrow> byte list \<Rightarrow> nat \<Rightarrow> dsk" where
  "disk_of dskp t c = dskp\<lparr>dsk_part := int c + 1, dsk_start := ent_lba_start (entry t c)\<rparr>"

lemma gptfind_eq_next:
  assumes "gptcur s = Some c" "part < 0"
    and "gptfind_next uuid (unat (hdr_entries (hdr (side c s)))) (table (side c s)) s =
      Some (found, s\<lparr>curent := int i, bootonce := once\<rparr>)"
    and "found \<longrightarrow> i < MAXTBLENTS" "length (table (side c s)) = TABLE_SIZE"
  shows "gptfind dv uuid dskp part s =
    (if \<not> found then Some (-1, dskp, s\<lparr>curent := int i, bootonce := once\<rparr>)
     else map_option (\<lambda>s'. (0, disk_of dskp (table (side c s)) i, s'))
       (if boot_once (entry (table (side c s)) i)
        then mark_both dv clear_bootme (disk_of dskp (table (side c s)) i) (s\<lparr>curent := int i, bootonce := once\<rparr>)
        else Some (s\<lparr>curent := int i, bootonce := once\<rparr>)))"
  using assms
  by (cases "mark_both dv clear_bootme (disk_of dskp (table (side c s)) i) (s\<lparr>curent := int i, bootonce := once\<rparr>)")
     (auto simp: gptfind_def Let_def disk_of_def add.commute)

subsection \<open>The attribute bits\<close>

lemma attr_bit: "(a AND push_bit k 1 \<noteq> 0) = bit a k" if "k < 64" for a :: u64
proof -
  have "a AND push_bit k 1 \<noteq> 0 \<longleftrightarrow> (\<exists>j. bit (a AND push_bit k 1) j)"
    by (metis bit_0_eq bot_apply bot_bool_def bit_eqI)
  also have "\<dots> \<longleftrightarrow> bit a k" using that by (auto simp: bit_simps)
  finally show ?thesis .
qed

lemma flag_bits:
  "bootme e \<longleftrightarrow> bit (ent_attr e) 59" "boot_once e \<longleftrightarrow> bit (ent_attr e) 58" "boot_failed e \<longleftrightarrow> bit (ent_attr e) 57"
  unfolding bootme_def boot_once_def boot_failed_def GPT_ENT_ATTR_BOOTME_def GPT_ENT_ATTR_BOOTONCE_def
    GPT_ENT_ATTR_BOOTFAILED_def by (rule attr_bit, simp)+

lemma bit_push_one: "k < 64 \<Longrightarrow> bit (push_bit k 1 :: u64) j \<longleftrightarrow> j = k"
  by (auto simp: bit_simps)

lemma bit_flags:
  "bit GPT_ENT_ATTR_BOOTME k \<longleftrightarrow> k = 59" "bit GPT_ENT_ATTR_BOOTONCE k \<longleftrightarrow> k = 58"
  "bit GPT_ENT_ATTR_BOOTFAILED k \<longleftrightarrow> k = 57"
  unfolding GPT_ENT_ATTR_BOOTME_def GPT_ENT_ATTR_BOOTONCE_def GPT_ENT_ATTR_BOOTFAILED_def
  by (rule bit_push_one, simp)+

lemma bit_marks:
  "bit (clear_bootme a) k \<longleftrightarrow> bit a k \<and> k \<noteq> 59"
  "bit (once_to_failed a) k \<longleftrightarrow> bit a k \<and> k \<noteq> 58 \<or> k = 57"
  by (auto simp: clear_bootme_def once_to_failed_def bit_flags bit_and_iff bit_or_iff bit_not_iff
      dest: bit_imp_le_length)

lemma entry_marked:
  assumes "length t = TABLE_SIZE" "i < MAXTBLENTS"
  shows "ent_attr (entry (marked f i t) i) = f (ent_attr (entry t i))"
    "j \<noteq> i \<Longrightarrow> entry (marked f i t) j = entry t j"
  using assms by (simp_all add: marked_def attr_set_attr entry_set_attr_other)

section \<open>The search and the marks together\<close>

context gpt_drive
begin

text \<open>One search with \<^verbatim>\<open>part == -1\<close> from any reachable state.\<close>

lemma gptfind_next_wf:
  assumes "dsk_drive dskp = dr" "gpt_wf s" "part < 0"
  shows "\<exists>rc dskp' s'. gptfind dv uuid dskp part s = Some (rc, dskp', s') \<and> gpt_wf s' \<and>
    dsk_drive dskp' = dr \<and> cur_entries s' = cur_entries s \<and> gptcur s' = gptcur s \<and> (rc = 0 \<or> rc = -1) \<and>
    (rc = 0 \<longrightarrow> 0 \<le> curent s' \<and> curent s' < int (cur_entries s) \<and>
      (bootonce s \<and> \<not> bootonce s' \<or> bootonce s' = bootonce s \<and> curent s < curent s'))"
proof -
  obtain c where c: "gptcur s = Some c" using assms(2) by (auto simp: gpt_wf_def)
  note side = gpt_wf_side [OF assms(2) c] cur_entries_le [OF assms(2)]
  have "-1 \<le> curent s" using assms(2) by (simp add: gpt_wf_def)
  from gptfind_next_ok [OF side(1) side(3) this, of uuid]
  obtain found i once where n: "gptfind_next uuid (cur_entries s) (table (side c s)) s =
      Some (found, s\<lparr>curent := int i, bootonce := once\<rparr>)" "i \<le> cur_entries s"
      "found \<longrightarrow> i < cur_entries s \<and> (bootonce s \<and> \<not> once \<or> once = bootonce s \<and> curent s < int i)" by blast
  let ?s1 = "s\<lparr>curent := int i, bootonce := once\<rparr>" and ?dskp = "disk_of dskp (table (side c s)) i"
  have eq: "side k ?s1 = side k s" for k by (cases k) (simp_all add: side_def)
  have n1: "cur_entries ?s1 = cur_entries s" by (simp add: cur_entries_def eq split: option.split)
  with assms(2) n(2) have s1: "gpt_wf ?s1" "cur_entries ?s1 = cur_entries s" by (simp_all add: gpt_wf_def eq)
  have i: "found \<longrightarrow> i < MAXTBLENTS" using n(3) side(3) by auto
  note find = gptfind_eq_next [OF c assms(3) n(1) [unfolded side(2)] i side(1), of dv dskp]
  show ?thesis
  proof (cases "found \<and> boot_once (entry (table (side c s)) i)")
    case True
    have "dsk_drive ?dskp = dr" using assms(1) by (simp add: disk_of_def)
    from mark_both_ok [OF this s1(1), of clear_bootme] True i
    obtain p b io where "mark_both dv clear_bootme ?dskp ?s1 = Some (?s1\<lparr>primary := p, backup := b, gio := io\<rparr>)"
        "gpt_wf (?s1\<lparr>primary := p, backup := b, gio := io\<rparr>)"
        "cur_entries (?s1\<lparr>primary := p, backup := b, gio := io\<rparr>) = cur_entries ?s1" by auto
    then show ?thesis using True find n(3) assms(1) s1(2) by (simp add: disk_of_def)
  next
    case False
    then show ?thesis using find n(3) s1 assms(1) by (auto simp: disk_of_def)
  qed
qed

lemma gptbootfailed_wf:
  assumes "dsk_drive dskp = dr" "gpt_wf s" "0 \<le> curent s" "curent s < int MAXTBLENTS"
  shows "\<exists>s'. gptbootfailed dv dskp s = Some s' \<and> gpt_wf s' \<and> cur_entries s' = cur_entries s \<and>
    gptcur s' = gptcur s \<and> curent s' = curent s \<and> bootonce s' = bootonce s"
proof -
  obtain c where c: "gptcur s = Some c" using assms(2) by (auto simp: gpt_wf_def)
  have e: "ent (table (side c s)) (nat (curent s)) = Some (entry (table (side c s)) (nat (curent s)))"
    using gpt_wf_side(1) [OF assms(2) c] assms(3,4) by (intro ent_in) auto
  from mark_both_ok [OF assms, of once_to_failed] obtain p b io where
    "mark_both dv once_to_failed dskp s = Some (s\<lparr>primary := p, backup := b, gio := io\<rparr>)"
    "gpt_wf (s\<lparr>primary := p, backup := b, gio := io\<rparr>)"
    "cur_entries (s\<lparr>primary := p, backup := b, gio := io\<rparr>) = cur_entries s" by auto
  then show ?thesis using assms(2,3) c e by (auto simp: gptbootfailed_def)
qed

end

text \<open>
  The boot loop of \<^verbatim>\<open>gptboot.c\<close>: after a partition was found and its programs did not boot, the
  attempt is recorded and the next one is searched.  \<open>tries k\<close> counts the partitions tried.
\<close>

inductive tries ::
  "'m drv_ops \<Rightarrow> byte list \<Rightarrow> nat \<Rightarrow> dsk \<times> 'm gpt \<Rightarrow> dsk \<times> 'm gpt \<Rightarrow> bool" for dv uuid where
  try_first: "gptfind dv uuid dskp (-1) s = Some (0, dskp', s') \<Longrightarrow> tries dv uuid 1 (dskp, s) (dskp', s')"
| try_next: "tries dv uuid k (dskp, s) (dskp1, s1) \<Longrightarrow> gptbootfailed dv dskp1 s1 = Some s2 \<Longrightarrow>
    gptfind dv uuid dskp1 (-1) s2 = Some (0, dskp', s') \<Longrightarrow> tries dv uuid (Suc k) (dskp, s) (dskp', s')"

inductive_cases triesE: "tries dv uuid k (dskp, s) (dskp', s')"

definition left :: "'m gpt \<Rightarrow> int" where
  "left s = (if bootonce s then 2 * int (cur_entries s) + 1 else int (cur_entries s)) - curent s"

context gpt_drive
begin

lemma tries_left:
  assumes "tries dv uuid k x y" "dsk_drive (fst x) = dr" "gpt_wf (snd x)"
  shows "gpt_wf (snd y) \<and> dsk_drive (fst y) = dr \<and> cur_entries (snd y) = cur_entries (snd x) \<and>
    0 \<le> curent (snd y) \<and> curent (snd y) < int (cur_entries (snd y)) \<and> int k + left (snd y) \<le> left (snd x)"
  using assms
proof (induction rule: tries.induct)
  case (try_first dskp s dskp' s')
  then show ?case using gptfind_next_wf [of dskp s "-1" uuid] by (auto simp: left_def gpt_wf_def)
next
  case (try_next k dskp s dskp1 s1 s2 dskp' s')
  then have ih: "gpt_wf s1" "dsk_drive dskp1 = dr" "cur_entries s1 = cur_entries s" "0 \<le> curent s1"
    "curent s1 < int (cur_entries s1)" "int k + left s1 \<le> left s" by auto
  then have "curent s1 < int MAXTBLENTS" using cur_entries_le [OF ih(1)] by simp
  from gptbootfailed_wf [OF ih(2,1,4) this] try_next.hyps(2) have s2: "gpt_wf s2" "cur_entries s2 = cur_entries s1"
    "left s2 = left s1" by (auto simp: left_def)
  then show ?case
    using gptfind_next_wf [OF ih(2) s2(1), of "-1" uuid] try_next.hyps(3) ih
    by (auto simp: left_def gpt_wf_def)
qed

end

context gpt_drive
begin

text \<open>The first search after \<^verbatim>\<open>gptread\<close>, with its effect on the tables.\<close>

lemma gptfind_best:
  assumes "dsk_drive dskp = dr" "gpt_wf s" "curent s = -1" "bootonce s" and c: "gptcur s = Some c"
  defines "t \<equiv> table (side c s)"
  shows "(\<forall>i < cur_entries s. rank uuid (entry t i) = 0) \<and> (\<exists>s'. gptfind dv uuid dskp (-1) s = Some (-1, dskp, s')) \<or>
    (\<exists>i s'. best uuid t (cur_entries s) i \<and> gptfind dv uuid dskp (-1) s = Some (0, disk_of dskp t i, s') \<and>
      gpt_wf s' \<and> cur_entries s' = cur_entries s \<and> gptcur s' = gptcur s \<and> curent s' = int i \<and>
      (\<forall>k. hdr_lba (side k s') = hdr_lba (side k s) \<and>
        table (side k s') = (if boot_once (entry t i) then new_table clear_bootme i (side k s) else table (side k s))))"
proof -
  note side = gpt_wf_side [OF assms(2) c] cur_entries_le [OF assms(2)]
  from gptfind_next_best [OF side(1,3) assms(3,4), of uuid]
  obtain found i once where n: "gptfind_next uuid (cur_entries s) t s =
      Some (found, s\<lparr>curent := int i, bootonce := once\<rparr>)"
      "if found then best uuid t (cur_entries s) i else \<forall>j < cur_entries s. rank uuid (entry t j) = 0"
    unfolding t_def by blast
  let ?s1 = "s\<lparr>curent := int i, bootonce := once\<rparr>" and ?dskp = "disk_of dskp t i"
  have eq: "side k ?s1 = side k s" for k by (cases k) (simp_all add: side_def)
  have n1: "cur_entries ?s1 = cur_entries s" by (simp add: cur_entries_def eq split: option.split)
  have i: "found \<longrightarrow> i < cur_entries s" using n(2) by (auto simp: best_def)
  have "found \<longrightarrow> gpt_wf ?s1" using assms(2) i n1 by (auto simp: gpt_wf_def eq)
  have i': "found \<longrightarrow> i < MAXTBLENTS" using i side(3) by auto
  note find = gptfind_eq_next [where part = "-1", OF c _ n(1) [unfolded side(2) t_def] i' side(1), of dv dskp, folded t_def]
  show ?thesis
  proof (cases "found \<and> boot_once (entry t i)")
    case True
    have "dsk_drive ?dskp = dr" using assms(1) by (simp add: disk_of_def)
    from mark_both_ok [OF this, of ?s1 clear_bootme] True \<open>found \<longrightarrow> gpt_wf ?s1\<close> i'
    obtain p b io where m: "mark_both dv clear_bootme ?dskp ?s1 = Some (?s1\<lparr>primary := p, backup := b, gio := io\<rparr>)"
        "gpt_wf (?s1\<lparr>primary := p, backup := b, gio := io\<rparr>)"
        "cur_entries (?s1\<lparr>primary := p, backup := b, gio := io\<rparr>) = cur_entries ?s1"
        "hdr_lba p = hdr_lba (primary s)" "hdr_lba b = hdr_lba (backup s)"
        "table p = new_table clear_bootme i (primary s)" "table b = new_table clear_bootme i (backup s)" by auto
    let ?s2 = "?s1\<lparr>primary := p, backup := b, gio := io\<rparr>"
    have "hdr_lba (side k ?s2) = hdr_lba (side k s) \<and> table (side k ?s2) = new_table clear_bootme i (side k s)" for k
      using m(4-7) by (cases k) (simp_all add: side_def)
    then show ?thesis using True find n(2) m(1-3) n1
      by (intro disjI2 exI [of _ i] exI [of _ ?s2]) simp
  next
    case False
    then show ?thesis using find n(2) \<open>found \<longrightarrow> gpt_wf ?s1\<close> n1 eq by (cases found) auto
  qed
qed

lemma gptbootfailed_marks:
  assumes "dsk_drive dskp = dr" "gpt_wf s" "0 \<le> curent s" "curent s < int MAXTBLENTS"
    and c: "gptcur s = Some c" "boot_once (entry (table (side c s)) (nat (curent s)))"
  shows "\<exists>s'. gptbootfailed dv dskp s = Some s' \<and>
    (\<forall>k. table (side k s') = new_table once_to_failed (nat (curent s)) (side k s))"
proof -
  have e: "ent (table (side c s)) (nat (curent s)) = Some (entry (table (side c s)) (nat (curent s)))"
    using gpt_wf_side(1) [OF assms(2) c(1)] assms(3,4) by (intro ent_in) auto
  from mark_both_ok [OF assms(1-4), of once_to_failed] obtain p b io where
    m: "mark_both dv once_to_failed dskp s = Some (s\<lparr>primary := p, backup := b, gio := io\<rparr>)"
    "table p = new_table once_to_failed (nat (curent s)) (primary s)"
    "table b = new_table once_to_failed (nat (curent s)) (backup s)" by auto
  then have "table (side k (s\<lparr>primary := p, backup := b, gio := io\<rparr>)) = new_table once_to_failed (nat (curent s)) (side k s)" for k
    by (cases k) (simp_all add: side_def)
  with m(1) assms(3) c e show ?thesis by (auto simp: gptbootfailed_def)
qed

end

section \<open>Reading a copy\<close>

lemma entry_put:
  assumes "length t = TABLE_SIZE" "i < MAXTBLENTS" "length e = ENT_SIZE"
  shows "entry (put t (ENT_SIZE * i) e) j = (if j = i then e else entry t j)"
proof -
  have le: "ENT_SIZE * i + length e \<le> length t" using assms by (simp add: TABLE_SIZE_def MAXTBLENTS_def ENT_SIZE_def)
  show ?thesis
  proof (cases "j = i")
    case True
    with le assms(3) show ?thesis by (simp add: entry_def field_put_same)
  next
    case False
    then have "ENT_SIZE * j + ENT_SIZE \<le> ENT_SIZE * i \<or> ENT_SIZE * i + length e \<le> ENT_SIZE * j"
      using assms(3) by (cases "j < i") (auto simp: ENT_SIZE_def)
    with le False show ?thesis by (simp add: entry_def field_put_other)
  qed
qed

lemma length_put_ent:
  "length t = TABLE_SIZE \<Longrightarrow> i < MAXTBLENTS \<Longrightarrow> length e = ENT_SIZE \<Longrightarrow> length (put t (ENT_SIZE * i) e) = TABLE_SIZE"
  by (simp add: TABLE_SIZE_def MAXTBLENTS_def ENT_SIZE_def)

lemma ent_sector:
  "length buf = DEV_BSIZE \<Longrightarrow> j < 4 \<Longrightarrow> ent buf j = Some (entry buf j) \<and> length (entry buf j) = ENT_SIZE"
  by (simp add: ent_def entry_def DEV_BSIZE_def ENT_SIZE_def)

lemma copy_ents_ok:
  assumes "length buf = DEV_BSIZE" "j + k \<le> 4" "length t = TABLE_SIZE" "nent < n" "n \<le> MAXTBLENTS"
  shows "\<exists>t'. copy_ents buf n j k t nent = Some (t', min n (nent + k)) \<and> length t' = TABLE_SIZE \<and>
    (\<forall>i. entry t' i = (if nent \<le> i \<and> i < min n (nent + k) then entry buf (j + (i - nent)) else entry t i))"
  using assms
proof (induction buf n j k t nent rule: copy_ents.induct)
  case (2 buf n j k t nent)
  let ?t = "put t (ENT_SIZE * nent) (entry buf j)"
  have e: "ent buf j = Some (entry buf j)" "length (entry buf j) = ENT_SIZE"
    using ent_sector [of buf j] 2(2,3) by auto
  have m: "nent < MAXTBLENTS" using 2(5,6) by simp
  have t: "length ?t = TABLE_SIZE" "\<And>i. entry ?t i = (if i = nent then entry buf j else entry t i)"
    using entry_put [OF 2(4) m e(2)] length_put_ent [OF 2(4) m e(2)] by auto
  have st: "store t (ENT_SIZE * nent) (entry buf j) = Some ?t"
    using 2(4) m e(2) by (simp add: TABLE_SIZE_def MAXTBLENTS_def ENT_SIZE_def)
  show ?case
  proof (cases "Suc nent \<ge> n")
    case True
    then have "min n (nent + Suc k) = Suc nent" using 2(5) by auto
    with True st e t show ?thesis by (auto simp: le_Suc_eq)
  next
    case False
    then obtain t' where t': "copy_ents buf n (Suc j) k ?t (Suc nent) = Some (t', min n (Suc nent + k))" "length t' = TABLE_SIZE"
      "\<forall>i. entry t' i = (if Suc nent \<le> i \<and> i < min n (Suc nent + k) then entry buf (Suc j + (i - Suc nent)) else entry ?t i)"
      using 2(1) [OF e(1) st False 2(2) _ t(1) _ 2(6)] 2(3) by auto
    have "entry t' i = (if nent \<le> i \<and> i < min n (nent + Suc k) then entry buf (j + (i - nent)) else entry t i)" for i
      using t'(3) t(2) 2(5) by (cases "i = nent") (auto simp: Suc_le_eq Suc_diff_Suc)
    then show ?thesis using False st e t'(1,2) by auto
  qed
qed auto

text \<open>Entry \<open>i\<close> of the table on disk.\<close>

definition disk_ent :: "(u64 \<Rightarrow> byte list) \<Rightarrow> u64 \<Rightarrow> nat \<Rightarrow> byte list" where
  "disk_ent sec base i = entry (sec (base + of_nat (i div 4))) (i mod 4)"

context gpt_drive
begin

lemma read_ents_ok:
  assumes "dsk_drive dskp = dr" "io_wf io" "length t = TABLE_SIZE" "4 * q < n" "n \<le> MAXTBLENTS"
    "\<forall>i < 4 * q. entry t i = disk_ent (sect (machine io)) base i"
  shows "\<exists>rc nent t' io'. read_ents dv which dskp n 4 (base + of_nat q) (4 * q) t io = Some (rc, nent, t', io') \<and>
    io_wf io' \<and> sect (machine io') = sect (machine io) \<and> length t' = TABLE_SIZE \<and>
    (rc = 0 \<and> nent = n \<and> msgs io' = msgs io \<and> (\<forall>i < n. entry t' i = disk_ent (sect (machine io)) base i) \<or>
     rc = -1 \<and> msgs io' = msgs io @ [(''%s: unable to read %s GPT partition table'', Some which)])"
  using assms(2-)
proof (induction "n - 4 * q" arbitrary: q t io rule: less_induct)
  case less
  obtain rc buf m where r: "d_read dv dskp (secbuf io) (base + of_nat q) 1 (machine io) = (rc, buf, m)"
    "length buf = DEV_BSIZE" "sect m = sect (machine io)" "rc = 0 \<and> buf = sect (machine io) (base + of_nat q) \<or> rc = -1"
    using read_ex [OF assms(1), of "secbuf io"] less(2) unfolding io_wf_def by blast
  let ?io = "io\<lparr>secbuf := buf, machine := m\<rparr>"
  show ?case
  proof (cases "rc = 0")
    case False
    with r(4) have rc: "rc = -1" by simp
    have "read_ents dv which dskp n 4 (base + of_nat q) (4 * q) t io =
        Some (-1, 4 * q, t, tell ''%s: unable to read %s GPT partition table'' (Some which) ?io)"
      by (subst read_ents.simps) (simp add: r(1) rc)
    then show ?thesis using r(2,3) less(3) by (simp add: io_wf_def tell_def)
  next
    case True
    with r(4) have buf: "buf = sect (machine io) (base + of_nat q)" by simp
    obtain t' where t': "copy_ents buf n 0 4 t (4 * q) = Some (t', min n (4 * q + 4))" "length t' = TABLE_SIZE"
      "\<forall>i. entry t' i = (if 4 * q \<le> i \<and> i < min n (4 * q + 4) then entry buf (i - 4 * q) else entry t i)"
      using copy_ents_ok [OF r(2) _ less(3,4,5), of 0 4] by auto
    have ent: "entry t' i = disk_ent (sect (machine io)) base i" if "i < min n (4 * q + 4)" for i
    proof (cases "i < 4 * q")
      case True
      with less(6) t'(3) show ?thesis by simp
    next
      case False
      then obtain l where l: "i = 4 * q + l" using le_iff_add [of "4 * q" i] by auto
      with that have "l < 4" by simp
      then have "disk_ent (sect (machine io)) base i = entry buf l" by (simp add: l disk_ent_def buf)
      moreover have "entry t' i = entry buf l" using t'(3) l that by simp
      ultimately show ?thesis by simp
    qed
    have wf: "io_wf ?io" using r(2) by (simp add: io_wf_def)
    show ?thesis
    proof (cases "4 * q + 4 \<ge> n")
      case True
      then have n: "min n (4 * q + 4) = n" by simp
      then have "read_ents dv which dskp n 4 (base + of_nat q) (4 * q) t io = Some (0, n, t', ?io)"
        using t'(1) by (subst read_ents.simps) (simp add: r(1) \<open>rc = 0\<close>)
      moreover have "\<forall>i < n. entry t' i = disk_ent (sect (machine io)) base i" using ent n by simp
      ultimately show ?thesis using wf t'(2) r(3) by simp
    next
      case False
      then have next_q: "min n (4 * q + 4) = 4 * Suc q" "base + of_nat q + 1 = base + of_nat (Suc q)" by (auto simp: ac_simps)
      have "\<forall>i < 4 * Suc q. entry t' i = disk_ent (sect (machine ?io)) base i"
        using ent r(3) unfolding next_q(1) by simp
      from less(1) [OF _ wf t'(2) _ less(5) this] False r(3)
      have "\<exists>rc nent t'' io'. read_ents dv which dskp n 4 (base + of_nat (Suc q)) (4 * Suc q) t' ?io = Some (rc, nent, t'', io') \<and>
        io_wf io' \<and> sect (machine io') = sect (machine io) \<and> length t'' = TABLE_SIZE \<and>
        (rc = 0 \<and> nent = n \<and> msgs io' = msgs io \<and> (\<forall>i < n. entry t'' i = disk_ent (sect (machine io)) base i) \<or>
         rc = -1 \<and> msgs io' = msgs io @ [(''%s: unable to read %s GPT partition table'', Some which)])"
        by simp
      moreover have "read_ents dv which dskp n 4 (base + of_nat q) (4 * q) t io =
          read_ents dv which dskp n 4 (base + of_nat (Suc q)) (4 * Suc q) t' ?io"
        using r(1) \<open>rc = 0\<close> t'(1) False next_q by (subst read_ents.simps) (simp add: ac_simps)
      ultimately show ?thesis by simp
    qed
  qed
qed

end

subsection \<open>Headers and checksums depend on the bytes they cover\<close>

lemma crc32_take: "n \<le> length x \<Longrightarrow> crc32 x n = crc32 (take n x) n"
  by (simp add: crc32_def crc32_loop_eq)

lemma crc32_cong: "take n x = take n y \<Longrightarrow> n \<le> length x \<Longrightarrow> n \<le> length y \<Longrightarrow> crc32 x n = crc32 y n"
  by (metis crc32_take)

lemma at_take_cong:
  assumes "take n x = take n y"
  shows "off + 4 \<le> n \<Longrightarrow> u32_at x off = u32_at y off" "off + 8 \<le> n \<Longrightarrow> u64_at x off = u64_at y off"
proof -
  have "take k (drop off x) = take k (drop off y)" if "off + k \<le> n" for k
  proof -
    have "take k (drop off z) = take k (drop off (take n z))" for z :: "byte list"
      using that by (simp add: drop_take min_def)
    with assms show ?thesis by metis
  qed
  then show "off + 4 \<le> n \<Longrightarrow> u32_at x off = u32_at y off" "off + 8 \<le> n \<Longrightarrow> u64_at x off = u64_at y off"
    by (simp_all add: u32_at_def u64_at_def)
qed

text \<open>The fields lie in the first 92 bytes.\<close>

lemma hdr_take_cong:
  assumes "take n x = take n y" "92 \<le> n"
  shows "hdr_sig x = hdr_sig y" "hdr_revision x = hdr_revision y" "hdr_size x = hdr_size y"
    "hdr_crc_self x = hdr_crc_self y" "hdr_lba_self x = hdr_lba_self y" "hdr_lba_table x = hdr_lba_table y"
    "hdr_entries x = hdr_entries y" "hdr_entsz x = hdr_entsz y" "hdr_crc_table x = hdr_crc_table y"
proof -
  have "take 8 x = take 8 y" using assms by (metis le_numeral_extra(4) min.absorb1 order_trans take_take numeral_le_iff semiring_norm(68,69,71,72,73))
  then show "hdr_sig x = hdr_sig y" by (simp add: hdr_sig_def)
qed (use at_take_cong [OF assms(1)] assms(2) in \<open>simp_all add: hdr_defs\<close>)

definition valid_hdr :: "u64 \<Rightarrow> byte list \<Rightarrow> bool" where
  "valid_hdr lba h \<longleftrightarrow> length h = HDR_SIZE \<and> hdr_sig h = GPT_HDR_SIG \<and> hdr_lba_self h = lba \<and>
     0x00010000 \<le> hdr_revision h \<and> ENT_SIZE \<le> unat (hdr_entsz h) \<and> unat (hdr_entries h) \<le> MAXTBLENTS \<and>
     DEV_BSIZE mod unat (hdr_entsz h) = 0 \<and> crc32 (set_u32 h 16 0) (unat (hdr_size h)) = Some (hdr_crc_self h)"

lemma valid_hdr_cong:
  assumes "valid_hdr lba x" "length y = HDR_SIZE" "take n x = take n y" "92 \<le> n" "n = unat (hdr_size x)" "n \<le> HDR_SIZE"
  shows "valid_hdr lba y"
proof -
  have len: "length x = HDR_SIZE" using assms(1) by (simp add: valid_hdr_def)
  have "take n (set_u32 z 16 0) = put (take n z) 16 (le_bytes 4 0)" if "length z = HDR_SIZE" for z
    using that assms(4,6) by (simp add: set_u32_def put_def drop_take min_def)
  then have "take n (set_u32 x 16 0) = take n (set_u32 y 16 0)" using len assms(2,3) by simp
  then have "crc32 (set_u32 x 16 0) n = crc32 (set_u32 y 16 0) n"
    using len assms(2,6) by (intro crc32_cong) simp_all
  then show ?thesis using assms hdr_take_cong [OF assms(3,4)] by (simp add: valid_hdr_def)
qed

lemma take_entries:
  assumes "length t = TABLE_SIZE" "length t' = TABLE_SIZE" "n \<le> MAXTBLENTS" "\<forall>i < n. entry t i = entry t' i"
  shows "take (ENT_SIZE * n) t = take (ENT_SIZE * n) t'"
  using assms(3,4)
proof (induction n)
  case (Suc n)
  have "take (ENT_SIZE * Suc n) t = take (ENT_SIZE * n) t @ entry t n" for t
    using take_add [of "ENT_SIZE * n" ENT_SIZE t] by (simp add: entry_def add.commute)
  with Suc show ?case by simp
qed simp

context gpt_drive
begin

lemma gptread_hdr_ok:
  assumes "dsk_drive dskp = dr" "io_wf io" and h: "h = take HDR_SIZE (sect (machine io) lba)" "unat (hdr_size h) \<le> HDR_SIZE"
  shows "\<exists>rc h' io'. gptread_hdr dv which dskp h0 lba io = Some (rc, h', io') \<and> io_wf io' \<and>
    sect (machine io') = sect (machine io) \<and>
    (rc = 0 \<and> h' = h \<and> valid_hdr lba h \<and> msgs io' = msgs io \<or>
     rc = -1 \<and> (\<not> valid_hdr lba h \<and> length (msgs io) < length (msgs io') \<or>
       msgs io' = msgs io @ [(''%s: unable to read %s GPT header'', Some which)]))"
proof -
  obtain rc buf m where r: "d_read dv dskp (secbuf io) lba 1 (machine io) = (rc, buf, m)"
    "length buf = DEV_BSIZE" "sect m = sect (machine io)" "rc = 0 \<and> buf = sect (machine io) lba \<or> rc = -1"
    using read_ex [OF assms(1), of "secbuf io"] assms(2) unfolding io_wf_def by blast
  show ?thesis
  proof (cases "rc = 0")
    case False
    with r show ?thesis by (auto simp: gptread_hdr_def io_wf_def tell_def)
  next
    case True
    with r h have sl: "slice buf 0 HDR_SIZE = Some h" "length h = HDR_SIZE"
      by (simp_all add: HDR_SIZE_def DEV_BSIZE_def)
    then have len: "length h = HDR_SIZE" by simp
    have crc: "crc32 (set_u32 h 16 0) (unat (hdr_size h)) = Some (crc_of (set_u32 h 16 0) (unat (hdr_size h)))"
      using len h(2) by (intro crc32_crc_of) simp
    have restore: "set_u32 (set_u32 h 16 0) 16 (hdr_crc_self h) = h"
      unfolding hdr_crc_self_def using len by (intro set_u32_at) (simp add: HDR_SIZE_def)
    let ?io = "io\<lparr>secbuf := buf, machine := m\<rparr>"
    define bad where "bad \<longleftrightarrow> hdr_sig h \<noteq> GPT_HDR_SIG \<or> hdr_lba_self h \<noteq> lba \<or> hdr_revision h < 0x00010000 \<or>
      unat (hdr_entsz h) < ENT_SIZE \<or> unat (hdr_entries h) > MAXTBLENTS \<or> DEV_BSIZE mod unat (hdr_entsz h) \<noteq> 0"
    have invalid: "bad \<longrightarrow> \<not> valid_hdr lba h" by (auto simp: valid_hdr_def bad_def)
    have good: "\<not> bad \<longrightarrow> (valid_hdr lba h \<longleftrightarrow> crc_of (set_u32 h 16 0) (unat (hdr_size h)) = hdr_crc_self h)"
      using len crc by (auto simp: valid_hdr_def bad_def)
    show ?thesis
    proof (cases bad)
      case True
      then have "gptread_hdr dv which dskp h0 lba io = Some (-1, h, tell ''%s: invalid %s GPT header'' (Some which) ?io)"
        using \<open>rc = 0\<close> r(1) sl(1) unfolding bad_def by (auto simp: gptread_hdr_def)
      then show ?thesis using True invalid r(2,3) by (simp add: io_wf_def tell_def)
    next
      case False
      then have "gptread_hdr dv which dskp h0 lba io =
          (if valid_hdr lba h then Some (0, h, ?io)
           else Some (-1, set_u32 h 16 0, tell ''%s: %s GPT header checksum mismatch'' (Some which) ?io))"
        using \<open>rc = 0\<close> r(1) sl(1) crc good restore len unfolding bad_def by (simp add: gptread_hdr_def Let_def)
      then show ?thesis using r(2,3) by (simp add: io_wf_def tell_def)
    qed
  qed
qed

lemma gptread_table_ok:
  assumes "dsk_drive dskp = dr" "io_wf io" "length t = TABLE_SIZE" "hdr_good h"
    and t0: "length t0 = TABLE_SIZE" "hdr_crc_table h = crc_of t0 (ENT_SIZE * unat (hdr_entries h))"
      "\<forall>i < unat (hdr_entries h). disk_ent (sect (machine io)) (hdr_lba_table h) i = entry t0 i"
  shows "\<exists>rc t' io'. gptread_table dv which dskp h t io = Some (rc, t', io') \<and> length t' = TABLE_SIZE \<and>
    (rc = 0 \<and> msgs io' = msgs io \<and> (\<forall>i < unat (hdr_entries h). entry t' i = entry t0 i) \<or>
     rc = -1 \<and> msgs io' = msgs io @ [(''%s: unable to read %s GPT partition table'', Some which)])"
proof (cases "hdr_entries h = 0")
  case True
  then show ?thesis using assms(3) by (simp add: gptread_table_def)
next
  case False
  let ?n = "unat (hdr_entries h)"
  have n: "0 < ?n" "?n \<le> MAXTBLENTS" using False assms(4) by (auto simp: hdr_good_def unat_gt_0)
  have eps: "entries_per_sec h = Some 4"
    using assms(4) by (simp add: entries_per_sec_def hdr_good_def DEV_BSIZE_def)
  obtain rc nent t' io' where r: "read_ents dv which dskp ?n 4 (hdr_lba_table h) 0 t io = Some (rc, nent, t', io')"
    "length t' = TABLE_SIZE" "rc = 0 \<and> nent = ?n \<and> msgs io' = msgs io \<and> (\<forall>i < ?n. entry t' i = entry t0 i) \<or>
     rc = -1 \<and> msgs io' = msgs io @ [(''%s: unable to read %s GPT partition table'', Some which)]"
    using read_ents_ok [OF assms(1-3), of 0 ?n "hdr_lba_table h" which] n t0(3) by auto
  show ?thesis
  proof (cases "rc = 0")
    case True
    with r(3) have e: "nent = ?n" "\<forall>i < ?n. entry t' i = entry t0 i" "msgs io' = msgs io" by auto
    have le: "ENT_SIZE * ?n \<le> TABLE_SIZE" using n(2) by (simp add: ENT_SIZE_def TABLE_SIZE_def MAXTBLENTS_def)
    have "crc32 t' (ENT_SIZE * ?n) = crc32 t0 (ENT_SIZE * ?n)"
      using take_entries [OF r(2) t0(1) n(2) e(2)] le r(2) t0(1) by (intro crc32_cong) simp_all
    then have "crc32 t' (unat (hdr_entries h * hdr_entsz h)) = Some (hdr_crc_table h)"
      unfolding table_bytes [OF assms(4)] using le t0(1,2) by (simp add: crc32_crc_of)
    then show ?thesis using True False eps r e by (simp add: gptread_table_def)
  next
    case rc: False
    then show ?thesis using False eps r by (simp add: gptread_table_def)
  qed
qed

end

section \<open>A copy on disk that the next boot will accept\<close>

definition readable :: "(u64 \<Rightarrow> byte list) \<Rightarrow> gpt_side \<Rightarrow> bool" where
  "readable sec sd \<longleftrightarrow>
     (let h = hdr sd; n = unat (hdr_size h) in
      valid_hdr (hdr_lba_self h) h \<and> hdr_good h \<and> 92 \<le> n \<and> length (table sd) = TABLE_SIZE \<and>
      take n (sec (hdr_lba_self h)) = take n h \<and>
      hdr_crc_table h = crc_of (table sd) (ENT_SIZE * unat (hdr_entries h)) \<and>
      (\<forall>i < unat (hdr_entries h). disk_ent sec (hdr_lba_table h) i = entry (table sd) i))"

definition apart :: "byte list \<Rightarrow> bool" where
  "apart h \<longleftrightarrow> (\<forall>k < 32. hdr_lba_self h \<noteq> hdr_lba_table h + of_nat k)"

lemma readable_sealed:
  assumes sd: "readable sec sd" and ap: "apart (hdr sd)" and t': "length t' = TABLE_SIZE" and cur: "cur < MAXTBLENTS"
    and same: "\<And>i. i \<noteq> cur \<Longrightarrow> entry t' i = entry (table sd) i"
  defines "h \<equiv> sealed t' (hdr sd)"
  defines "sec' \<equiv> sec(hdr_lba_table h + of_nat (cur div 4) := take DEV_BSIZE (drop (DEV_BSIZE * (cur div 4)) t'),
      hdr_lba_self h := hdr_sector h)"
  shows "readable sec' (sd\<lparr>table := t', hdr := h\<rparr>)"
proof -
  let ?h = "hdr sd" and ?n = "unat (hdr_entries (hdr sd))" and ?q = "cur div 4"
  have h0: "length ?h = HDR_SIZE" "hdr_good ?h" "valid_hdr (hdr_lba_self ?h) ?h" "92 \<le> unat (hdr_size ?h)"
    "\<And>i. i < ?n \<Longrightarrow> disk_ent sec (hdr_lba_table ?h) i = entry (table sd) i"
    using sd by (auto simp: readable_def Let_def valid_hdr_def)
  have n: "?n \<le> MAXTBLENTS" using h0(2) by (simp add: hdr_good_def)
  have len: "length h = HDR_SIZE" and fields: "hdr_size h = hdr_size ?h" "hdr_entries h = hdr_entries ?h"
      "hdr_lba_self h = hdr_lba_self ?h" "hdr_lba_table h = hdr_lba_table ?h"
    using h0(1) by (simp_all add: h_def)
  have "crc32 (set_u32 h 16 0) (unat (hdr_size h)) = Some (hdr_crc_self h)"
    using sealed_crc_self [OF h0(1), of t'] h0(2) len fields(1) unfolding h_def [symmetric]
    by (simp add: crc32_crc_of hdr_good_def)
  then have v: "valid_hdr (hdr_lba_self h) h" using h0(1,3) len by (simp add: valid_hdr_def h_def)
  have g: "hdr_good h" using h0(1,2) by (simp add: hdr_good_def h_def)
  have "take (unat (hdr_size h)) (sec' (hdr_lba_self h)) = take (unat (hdr_size h)) h"
    using good_size [OF g len] by (simp add: sec'_def hdr_sector_def)
  moreover have "disk_ent sec' (hdr_lba_table h) i = entry t' i" if i: "i < ?n" for i
  proof -
    have k: "i div 4 < 32" "?q < 32" using i n cur by (auto simp: MAXTBLENTS_def)
    have ne: "hdr_lba_table h + of_nat (i div 4) \<noteq> hdr_lba_self h"
      using ap k(1) unfolding apart_def fields by metis
    show ?thesis
    proof (cases "i div 4 = ?q")
      case True
      have "entry (take DEV_BSIZE (drop (DEV_BSIZE * (i div 4)) t')) (i mod 4) =
          take ENT_SIZE (drop (DEV_BSIZE * (i div 4) + ENT_SIZE * (i mod 4)) t')"
        by (simp add: entry_def drop_take DEV_BSIZE_def ENT_SIZE_def add.commute min_absorb1)
      moreover have "DEV_BSIZE * (i div 4) + ENT_SIZE * (i mod 4) = ENT_SIZE * i"
        using div_mult_mod_eq [of i 4] unfolding DEV_BSIZE_def ENT_SIZE_def by linarith
      ultimately show ?thesis using True ne by (simp add: disk_ent_def sec'_def entry_def)
    next
      case False
      have "(of_nat (i div 4) :: u64) \<noteq> of_nat ?q"
        using k False by (simp add: word_of_nat_eq_iff take_bit_eq_mod)
      then have "sec' (hdr_lba_table h + of_nat (i div 4)) = sec (hdr_lba_table h + of_nat (i div 4))"
        using ne by (simp add: sec'_def)
      then have "disk_ent sec' (hdr_lba_table h) i = entry (table sd) i"
        using h0(5) [OF i] by (simp add: disk_ent_def fields)
      also have "\<dots> = entry t' i" using same False by (metis)
      finally show ?thesis .
    qed
  qed
  ultimately show ?thesis
    using v g h0(1,4) t' by (simp add: readable_def Let_def fields) (simp add: h_def)
qed

context gpt_drive
begin

lemma mark_side_readable:
  assumes "dsk_drive dskp = dr" "io_wf io" "readable (sect (machine io)) sd" "apart (hdr sd)" "hdr_lba sd > 0"
    and cur: "cur < MAXTBLENTS"
  shows "\<exists>sd' io'. mark_side dv f which dskp cur sd io = Some (sd', io') \<and> io_wf io' \<and> table sd' = marked f cur (table sd) \<and>
    (msgs io' = msgs io \<and> readable (sect (machine io')) sd' \<and> hdr_lba_self (hdr sd') = hdr_lba_self (hdr sd) \<and>
       hdr_entries (hdr sd') = hdr_entries (hdr sd) \<or> length (msgs io) < length (msgs io'))"
proof -
  let ?t = "marked f cur (table sd)" and ?sd = "sd\<lparr>table := marked f cur (table sd)\<rparr>"
  let ?h = "sealed ?t (hdr sd)"
  have sd: "length (hdr sd) = HDR_SIZE" "length (table sd) = TABLE_SIZE" "hdr_good (hdr sd)"
    using assms(3) by (auto simp: readable_def Let_def valid_hdr_def)
  have t: "length ?t = TABLE_SIZE" "\<And>i. i \<noteq> cur \<Longrightarrow> entry ?t i = entry (table sd) i"
    using sd(2) cur by (simp_all add: marked_def entry_set_attr_other)
  obtain sd' io' where u: "gptupdate dv which dskp cur ?sd io = Some (sd', io')" "io_wf io'"
    "msgs io' = msgs io \<and> sd' = ?sd\<lparr>hdr := ?h\<rparr> \<and> sect (machine io') = (sect (machine io))
         (hdr_lba_table ?h + of_nat (cur div 4) := take DEV_BSIZE (drop (DEV_BSIZE * (cur div 4)) ?t),
          hdr_lba_self ?h := hdr_sector ?h) \<or>
     length (msgs io) < length (msgs io') \<and> (sd' = ?sd \<or> sd' = ?sd\<lparr>hdr := ?h\<rparr>)"
    using gptupdate_ok [OF assms(1,2), of ?sd cur which] sd t(1) cur by auto
  have m: "mark_side dv f which dskp cur sd io = Some (sd', io')"
    using assms(5) sd(2) cur u(1) by (simp add: mark_side_def marked_def)
  from u(3) show ?thesis
  proof (elim disjE conjE)
    assume *: "msgs io' = msgs io" "sd' = ?sd\<lparr>hdr := ?h\<rparr>" "sect (machine io') = (sect (machine io))
         (hdr_lba_table ?h + of_nat (cur div 4) := take DEV_BSIZE (drop (DEV_BSIZE * (cur div 4)) ?t),
          hdr_lba_self ?h := hdr_sector ?h)"
    have "readable (sect (machine io')) sd'"
      unfolding *(2,3) by (rule readable_sealed [OF assms(3,4) t(1) cur t(2)])
    then show ?thesis using m u(2) * sd(1) by simp
  qed (use m u(2) in auto)
qed

lemma read_side_readable:
  assumes "dsk_drive dskp = dr" "io_wf io" "readable (sect (machine io)) sd" "length (table sd0) = TABLE_SIZE"
  shows "\<exists>good sd' io'. read_side dv which dskp (hdr_lba_self (hdr sd)) sd0 io = Some (good, sd', io') \<and>
    (if good then hdr_lba sd' = hdr_lba_self (hdr sd) \<and> (\<forall>i < unat (hdr_entries (hdr sd)). entry (table sd') i = entry (table sd) i)
     else \<exists>msg \<in> {''%s: unable to read %s GPT header'', ''%s: unable to read %s GPT partition table''}.
       msgs io' = msgs io @ [(msg, Some which)])"
proof -
  let ?lba = "hdr_lba_self (hdr sd)" and ?n = "unat (hdr_size (hdr sd))"
  define h where "h = take HDR_SIZE (sect (machine io) ?lba)"
  have sd: "valid_hdr ?lba (hdr sd)" "hdr_good (hdr sd)" "92 \<le> ?n" "length (table sd) = TABLE_SIZE"
      "take ?n (sect (machine io) ?lba) = take ?n (hdr sd)"
      "hdr_crc_table (hdr sd) = crc_of (table sd) (ENT_SIZE * unat (hdr_entries (hdr sd)))"
      "\<forall>i < unat (hdr_entries (hdr sd)). disk_ent (sect (machine io)) (hdr_lba_table (hdr sd)) i = entry (table sd) i"
    using assms(3) by (auto simp: readable_def Let_def)
  have le: "?n \<le> HDR_SIZE" using sd(2) by (simp add: hdr_good_def)
  have tk: "take ?n (hdr sd) = take ?n h" using sd(5) le by (simp add: h_def min_def)
  have lenh: "length h = HDR_SIZE" by (simp add: h_def HDR_SIZE_def DEV_BSIZE_def)
  note f = hdr_take_cong [OF tk sd(3)]
  have v: "valid_hdr ?lba h" by (rule valid_hdr_cong [OF sd(1) lenh tk sd(3) refl le])
  obtain rc h' io1 where r: "gptread_hdr dv which dskp (hdr sd0) ?lba io = Some (rc, h', io1)" "io_wf io1"
      "sect (machine io1) = sect (machine io)" "rc = 0 \<and> h' = h \<and> msgs io1 = msgs io \<or>
       rc = -1 \<and> msgs io1 = msgs io @ [(''%s: unable to read %s GPT header'', Some which)]"
    using gptread_hdr_ok [OF assms(1,2) h_def _, of which "hdr sd0"] le v unfolding f(3) by blast
  have g: "hdr_good h" using sd(2) f by (simp add: hdr_good_def)
  have c: "hdr_crc_table h = crc_of (table sd) (ENT_SIZE * unat (hdr_entries h))" using sd(6) f by simp
  have e: "\<forall>i < unat (hdr_entries h). disk_ent (sect (machine io1)) (hdr_lba_table h) i = entry (table sd) i"
    using sd(7) by (simp add: f r(3))
  from gptread_table_ok [OF assms(1) r(2) assms(4) g sd(4) c e, of which]
  obtain rc' t io2 where t: "gptread_table dv which dskp h (table sd0) io1 = Some (rc', t, io2)"
      "rc' = 0 \<and> msgs io2 = msgs io1 \<and> (\<forall>i < unat (hdr_entries h). entry t i = entry (table sd) i) \<or>
       rc' = -1 \<and> msgs io2 = msgs io1 @ [(''%s: unable to read %s GPT partition table'', Some which)]" by blast
  from r(4) show ?thesis
  proof (elim disjE conjE)
    assume "rc = 0" "h' = h" "msgs io1 = msgs io"
    then show ?thesis using r(1) t by (cases "rc' = 0") (simp_all add: read_side_def f, blast+)
  next
    assume "rc = -1" "msgs io1 = msgs io @ [(''%s: unable to read %s GPT header'', Some which)]"
    then show ?thesis using r(1) by (simp add: read_side_def) blast
  qed
qed

end

section \<open>Attempts of an earlier boot\<close>

definition conv_attr :: "u64 \<Rightarrow> u64" where
  "conv_attr a = (if stale_once a then once_to_failed a else a)"

text \<open>\<open>t'\<close> is \<open>t\<close> with the entries of a range converted.\<close>

definition converted :: "nat \<Rightarrow> nat \<Rightarrow> byte list \<Rightarrow> byte list \<Rightarrow> bool" where
  "converted lo hi t t' \<longleftrightarrow> length t' = TABLE_SIZE \<and> (\<forall>i.
     ent_attr (entry t' i) = (if lo \<le> i \<and> i < hi then conv_attr (ent_attr (entry t i)) else ent_attr (entry t i)) \<and>
     (\<not> (lo \<le> i \<and> i < hi \<and> stale_once (ent_attr (entry t i))) \<longrightarrow> entry t' i = entry t i))"

lemma converted_refl: "length t = TABLE_SIZE \<Longrightarrow> converted lo lo t t"
  by (auto simp: converted_def)

lemma converted_trans:
  assumes "converted lo mid t t1" "converted mid hi t1 t2" "lo \<le> mid" "mid \<le> hi"
  shows "converted lo hi t t2"
proof -
  have a1: "ent_attr (entry t1 i) = (if lo \<le> i \<and> i < mid then conv_attr (ent_attr (entry t i)) else ent_attr (entry t i))"
    and e1: "\<not> (lo \<le> i \<and> i < mid \<and> stale_once (ent_attr (entry t i))) \<Longrightarrow> entry t1 i = entry t i" for i
    using assms(1) by (auto simp: converted_def)
  have a2: "ent_attr (entry t2 i) = (if mid \<le> i \<and> i < hi then conv_attr (ent_attr (entry t1 i)) else ent_attr (entry t1 i))"
    and e2: "\<not> (mid \<le> i \<and> i < hi \<and> stale_once (ent_attr (entry t1 i))) \<Longrightarrow> entry t2 i = entry t1 i" for i
    using assms(2) by (auto simp: converted_def)
  have "ent_attr (entry t2 i) = (if lo \<le> i \<and> i < hi then conv_attr (ent_attr (entry t i)) else ent_attr (entry t i)) \<and>
     (\<not> (lo \<le> i \<and> i < hi \<and> stale_once (ent_attr (entry t i))) \<longrightarrow> entry t2 i = entry t i)" for i
  proof (cases "i < mid")
    case True
    then show ?thesis using a1 [of i] e1 [of i] a2 [of i] e2 [of i] assms(4) by auto
  next
    case False
    then show ?thesis using a1 [of i] e1 [of i] a2 [of i] e2 [of i] assms(3) by auto
  qed
  then show ?thesis using assms(2) by (simp add: converted_def)
qed

lemma converted_one:
  assumes "length t = TABLE_SIZE" "i < MAXTBLENTS"
  shows "converted i (Suc i) t (if stale_once (ent_attr (entry t i)) then set_attr t i (once_to_failed (ent_attr (entry t i))) else t)"
proof (cases "stale_once (ent_attr (entry t i))")
  case True
  have "ent_attr (entry (set_attr t i a) j) = (if j = i then a else ent_attr (entry t j))" for a j
    using assms by (simp add: attr_set_attr entry_set_attr_other)
  moreover have "i \<le> j \<and> j < Suc i \<longleftrightarrow> j = i" for j by auto
  ultimately show ?thesis using True assms
    by (auto simp: converted_def conv_attr_def entry_set_attr_other)
next
  case False
  have "i \<le> j \<and> j < Suc i \<longleftrightarrow> j = i" for j by auto
  with False assms(1) show ?thesis by (auto simp: converted_def conv_attr_def)
qed

lemma conv_ents_ok:
  assumes "length t = TABLE_SIZE" "i + k \<le> MAXTBLENTS"
  shows "\<exists>t' upd'. conv_ents t i k upd = Some (t', upd') \<and> converted i (i + k) t t'"
  using assms
proof (induction t i k upd rule: conv_ents.induct)
  case (1 t i upd)
  then show ?case by (simp add: converted_refl)
next
  case (2 t i k upd)
  let ?e = "entry t i"
  define t1 where "t1 = (if stale_once (ent_attr ?e) then set_attr t i (once_to_failed (ent_attr ?e)) else t)"
  have i: "i < MAXTBLENTS" using 2(4) by simp
  have one: "converted i (Suc i) t t1" unfolding t1_def by (rule converted_one [OF 2(3) i])
  then have t1: "length t1 = TABLE_SIZE" by (simp add: converted_def)
  have ent: "ent t i = Some ?e" using 2(3) i by simp
  have "\<exists>t' upd'. conv_ents t i (Suc k) upd = Some (t', upd') \<and> converted (Suc i) (Suc i + k) t1 t'"
  proof (cases "stale_once (ent_attr ?e)")
    case True
    then show ?thesis using 2(2) [OF ent _ _] t1 2(4) ent by (simp add: t1_def)
  next
    case False
    then show ?thesis using 2(1) [OF ent] t1 2(3,4) ent by (simp add: t1_def)
  qed
  then show ?case using converted_trans [OF one, of "Suc i + k"] by auto
qed

context gpt_drive
begin

lemma conv_secs_ok:
  assumes "dsk_drive dskp = dr" "io_wf io" "length t = TABLE_SIZE" "4 * (q + k) \<le> MAXTBLENTS"
    "unat base + (q + k) < 2 ^ 64"
  shows "\<exists>t' io' upd'. conv_secs dv which dskp 4 (base + of_nat (q + k)) (base + of_nat q) (4 * q) t io upd = Some (t', io', upd') \<and>
    io_wf io' \<and> converted (4 * q) (4 * (q + k)) t t'"
  using assms(2-)
proof (induction k arbitrary: q t io upd)
  case 0
  then show ?case by (subst conv_secs.simps) (simp add: converted_refl)
next
  case (Suc k)
  let ?last = "base + of_nat (q + Suc k)"
  have "unat (base + of_nat q) = unat base + q" "unat ?last = unat base + (q + Suc k)"
    using Suc.prems(4) by (simp_all add: unat_word_ariths unat_of_nat)
  then have lt: "base + of_nat q < ?last" unfolding word_less_nat_alt by simp
  obtain t1 supd where t1: "conv_ents t (4 * q) 4 False = Some (t1, supd)" "converted (4 * q) (4 * q + 4) t t1"
    using conv_ents_ok [OF Suc.prems(2), of "4 * q" 4 False] Suc.prems(3) by auto
  then have len: "length t1 = TABLE_SIZE" by (simp add: converted_def)
  have nxt: "base + of_nat q + 1 = base + of_nat (Suc q)" "4 * q + 4 = 4 * Suc q" "q + Suc k = Suc q + k" by simp_all
  have rec: "\<exists>t' io' upd'. conv_secs dv which dskp 4 ?last (base + of_nat q + 1) (4 * q + 4) t1 io1 upd1 = Some (t', io', upd') \<and>
      io_wf io' \<and> converted (4 * q) (4 * (q + Suc k)) t t'" if io1: "io_wf io1" for io1 upd1
  proof -
    obtain t' io' upd' where "conv_secs dv which dskp 4 (base + of_nat (Suc q + k)) (base + of_nat (Suc q)) (4 * Suc q) t1 io1 upd1 =
        Some (t', io', upd')" "io_wf io'" "converted (4 * Suc q) (4 * (Suc q + k)) t1 t'"
      using Suc.IH [OF io1 len, of "Suc q" upd1] Suc.prems(3,4) by auto
    then show ?thesis unfolding nxt using converted_trans [OF t1(2) [unfolded nxt], of "4 * (Suc q + k)" t'] by auto
  qed
  show ?case
  proof (cases supd)
    case False
    then show ?thesis using rec [OF Suc.prems(1)] t1(1) lt by (subst conv_secs.simps) simp
  next
    case True
    have le: "ENT_SIZE * (4 * q) + DEV_BSIZE \<le> length t1"
      using Suc.prems(3) len by (simp add: ENT_SIZE_def DEV_BSIZE_def TABLE_SIZE_def MAXTBLENTS_def)
    let ?bytes = "take DEV_BSIZE (drop (ENT_SIZE * (4 * q)) t1)"
    obtain rc m where w: "write_sec dv dskp ?bytes (base + of_nat q) io =
        Some (rc, io\<lparr>secbuf := put (secbuf io) 0 ?bytes, machine := m\<rparr>)"
      using write_sec_ok [OF assms(1) Suc.prems(1), of ?bytes "base + of_nat q"] by auto
    have "length (put (secbuf io) 0 ?bytes) = DEV_BSIZE" using Suc.prems(1) by (simp add: io_wf_def)
    then have "io_wf (io\<lparr>secbuf := put (secbuf io) 0 ?bytes, machine := m\<rparr>)"
      "io_wf (tell msg c (io\<lparr>secbuf := put (secbuf io) 0 ?bytes, machine := m\<rparr>))" for msg c
      by (simp_all add: io_wf_def tell_def)
    then show ?thesis using rec True t1(1) lt w le by (subst conv_secs.simps) simp
  qed
qed

lemma gptbootconv_ok:
  assumes "dsk_drive dskp = dr" "io_wf io" "side_wf sd" "hdr_good (hdr sd)" "unat (hdr_lba_table (hdr sd)) + 32 < 2 ^ 64"
  shows "\<exists>sd' io'. gptbootconv dv which dskp sd io = Some (sd', io') \<and> io_wf io' \<and>
    converted 0 (4 * (unat (hdr_entries (hdr sd)) div 4)) (table sd) (table sd')"
proof -
  let ?h = "hdr sd" and ?k = "unat (hdr_entries (hdr sd)) div 4"
  have eps: "entries_per_sec ?h = Some 4"
    using assms(4) by (simp add: entries_per_sec_def hdr_good_def DEV_BSIZE_def)
  have k: "4 * ?k \<le> MAXTBLENTS" "?k \<le> 32" using assms(4) by (auto simp: hdr_good_def MAXTBLENTS_def)
  have len: "length (hdr sd) = HDR_SIZE" "length (table sd) = TABLE_SIZE" using assms(3) by (auto simp: side_wf_def)
  obtain t io1 upd where c: "conv_secs dv which dskp 4 (hdr_lba_table ?h + of_nat ?k) (hdr_lba_table ?h) 0 (table sd) io False = Some (t, io1, upd)"
      "io_wf io1" "converted 0 (4 * ?k) (table sd) t"
    using conv_secs_ok [OF assms(1,2) len(2), of 0 ?k "hdr_lba_table ?h" which False] k assms(5) by auto
  have t: "length t = TABLE_SIZE" using c(3) by (simp add: converted_def)
  show ?thesis
  proof (cases upd)
    case True
    from write_hdr_ok [OF assms(1) c(2), of "sd\<lparr>table := t\<rparr>" which] len t assms(4)
    obtain io' where "write_hdr dv which dskp (sd\<lparr>table := t\<rparr>) io1 =
        Some (sd\<lparr>table := t, hdr := sealed t (hdr sd)\<rparr>, io')" "io_wf io'" by auto
    then show ?thesis using True eps c by (simp add: gptbootconv_def Let_def)
  next
    case False
    then show ?thesis using eps c by (simp add: gptbootconv_def Let_def)
  qed
qed

end

section \<open>Drives behind the BIOS\<close>

text \<open>The operations that \<^verbatim>\<open>gptboot\<close> links: \<^verbatim>\<open>drv.c\<close> over a BIOS, with the buffer at \<open>0x8000\<close>.\<close>

definition drv_c :: "'d bios \<Rightarrow> 'd mach drv_ops" where
  "drv_c bios = \<lparr>d_read = drvread bios ''gptboot'' 0x8000, d_write = drvwrite bios 0x8000, d_size = drvsize bios\<rparr>"

interpretation gpt_ram: gpt_drive "drv_c (ram_bios n)" dr "\<lambda>m. ram_sect (drives m)"
  using ram.sector_drive_axioms by (simp add: gpt_drive_def drv_c_def)

text \<open>A disk with four entries, the second of them of type \<open>uuid\<close>, as \<^verbatim>\<open>gptread\<close> leaves it.\<close>

definition demo_uuid :: "byte list" where "demo_uuid = map word_of_nat [1..<17]"

definition demo_hdr :: "byte list" where
  "demo_hdr = set_u32 (set_u32 (set_u32 (set_u64 (replicate 96 0) 72 2) 12 92) 80 4) 84 128"

definition demo_table :: "byte list" where
  "demo_table = put (replicate 16384 0) 128 (demo_uuid @ replicate 16 0 @ le_bytes 8 64 @ le_bytes 8 127 @ le_bytes 8 (3 * 2 ^ 58))"

definition demo_side :: gpt_side where
  "demo_side = \<lparr>hdr = demo_hdr, hdr_lba = 1, table = demo_table\<rparr>"

definition demo_mach :: "image mach" where
  "demo_mach = \<lparr>v86 = \<lparr>v86_ctl = 0, v86_addr = 0, v86_es = 0, v86_ds = 0, v86_fs = 0, v86_gs = 0, v86_eax = 0, v86_ecx = 0,
       v86_edx = 0, v86_ebx = 0, v86_efl = 0, v86_ebp = 0, v86_esi = 0, v86_edi = 0\<rparr>,
     packet = \<lparr>pkt_len = 0, pkt_count = 0, pkt_off = 0, pkt_seg = 0, pkt_lba = 0\<rparr>,
     params = \<lparr>par_len = 0, par_flags = 0, par_cylinders = 0, par_heads = 0, par_sectors_per_track = 0, par_sectors = 0,
       par_sector_size = 512, par_params_seg = 0, par_params_off = 0\<rparr>, pa_packet = 0x9000, pa_params = 0x9100, spinner = 0x2d5c7c2f,
     opts = 0, console = [], drives = (\<lambda>_. replicate 512 0)\<rparr>"

definition demo_gpt :: "image mach gpt" where
  "demo_gpt = \<lparr>primary = demo_side, backup = demo_side\<lparr>hdr_lba := 0\<rparr>, gptcur = Some Primary, curent = -1,
     bootonce = True, gio = \<lparr>secbuf = replicate 512 0, machine = demo_mach, msgs = []\<rparr>\<rparr>"

definition demo_dsk :: dsk where
  "demo_dsk = \<lparr>dsk_drive = 0x80, dsk_type = 0, dsk_unit = 0, dsk_slice = 0, dsk_part = -1, dsk_start = 0, dsk_init = 0\<rparr>"

lemma demo_hdr_fields: "hdr_size demo_hdr = 92" "hdr_entries demo_hdr = 4" "hdr_entsz demo_hdr = 128" "length demo_hdr = HDR_SIZE"
  by (simp_all add: demo_hdr_def hdr_defs at_set_same at_set_other HDR_SIZE_def)

lemma length_demo_table: "length demo_table = TABLE_SIZE"
  by (simp add: demo_table_def TABLE_SIZE_def demo_uuid_def)

lemma demo_wf: "gpt_wf demo_gpt" "cur_entries demo_gpt = 4"
  by (simp_all add: gpt_wf_def demo_gpt_def side_wf_def demo_side_def demo_hdr_fields length_demo_table hdr_good_def
      io_wf_def side_def cur_entries_def HDR_SIZE_def DEV_BSIZE_def MAXTBLENTS_def)

lemma demo_entry: "entry demo_table 1 = demo_uuid @ replicate 16 0 @ le_bytes 8 64 @ le_bytes 8 127 @ le_bytes 8 (3 * 2 ^ 58) @ replicate 72 0"
  by (simp add: entry_def demo_table_def put_def ENT_SIZE_def demo_uuid_def)

lemma demo_rank: "rank demo_uuid (entry demo_table 1) = 3"
proof -
  have len: "length demo_uuid = 16" by (simp add: demo_uuid_def)
  have "ent_type (entry demo_table 1) = demo_uuid" unfolding demo_entry by (simp add: ent_type_def len)
  moreover have "ent_attr (entry demo_table 1) = 3 * 2 ^ 58"
    unfolding demo_entry by (simp add: ent_attr_def u64_at_def len le_nat_le_bytes)
  then have "bootme (entry demo_table 1)" "boot_once (entry demo_table 1)"
    by (simp_all add: bootme_def boot_once_def GPT_ENT_ATTR_BOOTME_def GPT_ENT_ATTR_BOOTONCE_def)
  ultimately show ?thesis by (simp add: rank_def)
qed

section \<open>Properties: choosing and marking\<close>

text \<open>
  C5: the first search after the tables were read returns -1 exactly when no entry has the
  wanted type; otherwise it selects the first entry of the highest preference (one-shot boot
  requested, then boot requested, then just the type), sets \<^verbatim>\<open>dsk.part\<close> and \<^verbatim>\<open>dsk.start\<close> from it and
  leaves all statics well-formed.
\<close>

theorem gptfind_first_choice:
  assumes "gpt_drive dv dr sect" "dsk_drive dskp = dr" "gpt_wf s" "curent s = -1" "bootonce s" "gptcur s = Some c"
  shows "if \<exists>i < cur_entries s. ent_type (entry (table (side c s)) i) = uuid
    then \<exists>i s'. best uuid (table (side c s)) (cur_entries s) i \<and>
      gptfind dv uuid dskp (-1) s = Some (0, disk_of dskp (table (side c s)) i, s') \<and> curent s' = int i \<and> gpt_wf s'
    else \<exists>s'. gptfind dv uuid dskp (-1) s = Some (-1, dskp, s')"
proof -
  have "ent_type e = uuid \<longleftrightarrow> rank uuid e \<noteq> 0" for e by (simp add: rank_def)
  then show ?thesis using gpt_drive.gptfind_best [OF assms, of uuid] by (auto simp: best_def)
qed

theorem gptfind_first_choice_witness:
  "if \<exists>i < cur_entries demo_gpt. ent_type (entry (table (side Primary demo_gpt)) i) = demo_uuid
    then \<exists>i s'. best demo_uuid (table (side Primary demo_gpt)) (cur_entries demo_gpt) i \<and>
      gptfind (drv_c (ram_bios 1000)) demo_uuid demo_dsk (-1) demo_gpt =
        Some (0, disk_of demo_dsk (table (side Primary demo_gpt)) i, s') \<and> curent s' = int i \<and> gpt_wf s'
    else \<exists>s'. gptfind (drv_c (ram_bios 1000)) demo_uuid demo_dsk (-1) demo_gpt = Some (-1, demo_dsk, s')"
  by (rule gptfind_first_choice [OF gpt_ram.gpt_drive_axioms])
     (use demo_wf in \<open>simp_all add: demo_dsk_def demo_gpt_def\<close>)

text \<open>
  C6: when some entry asks for a one-shot boot, the search picks one such entry, and before the
  attempt it clears BOOTME and keeps BOOTONCE there in every accepted copy of the table; when the
  attempt fails, BOOTONCE is replaced by BOOTFAILED.  No other entry of any copy changes.
\<close>

theorem gpt_one_shot_protocol:
  assumes dv: "gpt_drive dv dr sect" and s: "dsk_drive dskp = dr" "gpt_wf s" "curent s = -1" "bootonce s" "gptcur s = Some c"
    and once: "j < cur_entries s" "want_once uuid (entry (table (side c s)) j)"
  shows "\<exists>i dskp' s1 s2. gptfind dv uuid dskp (-1) s = Some (0, dskp', s1) \<and> gptbootfailed dv dskp' s1 = Some s2 \<and>
    want_once uuid (entry (table (side c s)) i) \<and> curent s1 = int i \<and>
    (\<forall>k. hdr_lba (side k s) > 0 \<longrightarrow>
      (let e = entry (table (side k s)) i; e1 = entry (table (side k s1)) i; e2 = entry (table (side k s2)) i in
        \<not> bootme e1 \<and> (boot_once e1 \<longleftrightarrow> boot_once e) \<and> \<not> bootme e2 \<and> \<not> boot_once e2 \<and> boot_failed e2)) \<and>
    (\<forall>k l. l \<noteq> i \<longrightarrow> entry (table (side k s1)) l = entry (table (side k s)) l \<and>
      entry (table (side k s2)) l = entry (table (side k s)) l)"
proof -
  let ?t = "table (side c s)"
  from once(2) have r: "rank uuid (entry ?t j) = 3" by (simp add: rank_want)
  from gpt_drive.gptfind_best [OF dv s, of uuid] r once(1) obtain i s1 where
    i: "best uuid ?t (cur_entries s) i" and f: "gptfind dv uuid dskp (-1) s = Some (0, disk_of dskp ?t i, s1)"
    and s1: "gpt_wf s1" "gptcur s1 = gptcur s" "curent s1 = int i"
    and tab: "\<And>k. hdr_lba (side k s1) = hdr_lba (side k s)"
      "\<And>k. table (side k s1) = (if boot_once (entry ?t i) then new_table clear_bootme i (side k s) else table (side k s))"
    by fastforce
  have "rank uuid (entry ?t i) = 3" using i once(1) r rank_le [of uuid "entry ?t i"] by (auto simp: best_def intro: antisym)
  then have want: "want_once uuid (entry ?t i)" by (simp add: rank_want)
  then have tab1: "table (side k s1) = new_table clear_bootme i (side k s)" for k using tab(2) by (simp add: want_once_def)
  have im: "i < MAXTBLENTS" using i cur_entries_le [OF s(2)] by (auto simp: best_def)
  have wf: "side_wf (side k s)" for k using s(2) by (cases k) (simp_all add: gpt_wf_def side_def)
  then have len: "length (table (side k s)) = TABLE_SIZE" for k by (simp add: side_wf_def)
  have active: "hdr_lba (side c s) > 0" using s(2,5) by (auto simp: gpt_wf_def)
  have e1: "ent_attr (entry (table (side k s1)) i) = clear_bootme (ent_attr (entry (table (side k s)) i))"
    if "hdr_lba (side k s) > 0" for k using that len im by (simp add: tab1 new_table_def entry_marked)
  have "boot_once (entry (table (side c s1)) i)"
    using e1 [OF active] want by (simp add: flag_bits bit_marks want_once_def)
  then obtain s2 where b: "gptbootfailed dv (disk_of dskp ?t i) s1 = Some s2"
      "\<And>k. table (side k s2) = new_table once_to_failed i (side k s1)"
    using gpt_drive.gptbootfailed_marks [OF dv, of "disk_of dskp ?t i" s1 c] s s1 im by (auto simp: disk_of_def)
  have len1: "length (table (side k s1)) = TABLE_SIZE" for k
    using len im by (simp add: tab1 new_table_def marked_def)
  have e2: "ent_attr (entry (table (side k s2)) i) = once_to_failed (ent_attr (entry (table (side k s1)) i))"
    if "hdr_lba (side k s) > 0" for k using that len1 im tab(1) by (simp add: b(2) new_table_def entry_marked)
  have "entry (table (side k s1)) l = entry (table (side k s)) l \<and> entry (table (side k s2)) l = entry (table (side k s)) l"
    if "l \<noteq> i" for k l using that len len1 im by (simp add: b(2) tab1 new_table_def entry_marked)
  then show ?thesis using f b(1) want s1(3) e1 e2
    by (intro exI [of _ i] exI [of _ "disk_of dskp ?t i"] exI [of _ s1] exI [of _ s2])
       (simp add: Let_def flag_bits bit_marks)
qed

theorem gpt_one_shot_protocol_witness:
  "\<exists>i dskp' s1 s2. gptfind (drv_c (ram_bios 1000)) demo_uuid demo_dsk (-1) demo_gpt = Some (0, dskp', s1) \<and>
    gptbootfailed (drv_c (ram_bios 1000)) dskp' s1 = Some s2 \<and>
    want_once demo_uuid (entry (table (side Primary demo_gpt)) i) \<and> curent s1 = int i \<and>
    (\<forall>k. hdr_lba (side k demo_gpt) > 0 \<longrightarrow>
      (let e = entry (table (side k demo_gpt)) i; e1 = entry (table (side k s1)) i; e2 = entry (table (side k s2)) i in
        \<not> bootme e1 \<and> (boot_once e1 \<longleftrightarrow> boot_once e) \<and> \<not> bootme e2 \<and> \<not> boot_once e2 \<and> boot_failed e2)) \<and>
    (\<forall>k l. l \<noteq> i \<longrightarrow> entry (table (side k s1)) l = entry (table (side k demo_gpt)) l \<and>
      entry (table (side k s2)) l = entry (table (side k demo_gpt)) l)"
proof -
  have "side Primary demo_gpt = demo_side" by (simp add: demo_gpt_def side_def)
  then have "want_once demo_uuid (entry (table (side Primary demo_gpt)) 1)"
    using demo_rank by (simp add: rank_want demo_side_def)
  moreover have "1 < cur_entries demo_gpt" by (simp add: demo_wf)
  ultimately show ?thesis
    by (intro gpt_one_shot_protocol [OF gpt_ram.gpt_drive_axioms, where j = 1 and dr = "0x80"])
       (use demo_wf in \<open>simp_all add: demo_dsk_def demo_gpt_def\<close>)
qed

text \<open>
  C7: the boot loop ends: however the drive answers, at most twice the number of table entries
  plus two partitions are tried before \<^verbatim>\<open>gptfind\<close> returns -1, and each of them is an entry of the
  table.
\<close>

theorem gpt_attempts_bounded:
  assumes "gpt_drive dv dr sect" "dsk_drive dskp = dr" "gpt_wf s" "tries dv uuid k (dskp, s) (dskp', s')"
  shows "k \<le> 2 * cur_entries s + 2 \<and> 0 \<le> curent s' \<and> curent s' < int (cur_entries s)"
  using gpt_drive.tries_left [OF assms(1,4)] assms(2,3) by (auto simp: left_def gpt_wf_def split: if_splits)

theorem gpt_attempts_bounded_witness:
  "\<exists>dskp' s'. tries (drv_c (ram_bios 1000)) demo_uuid 1 (demo_dsk, demo_gpt) (dskp', s') \<and>
    1 \<le> 2 * cur_entries demo_gpt + 2 \<and> 0 \<le> curent s' \<and> curent s' < int (cur_entries demo_gpt)"
proof -
  have "side Primary demo_gpt = demo_side" by (simp add: demo_gpt_def side_def)
  then have "\<not> (\<forall>i < cur_entries demo_gpt. rank demo_uuid (entry (table (side Primary demo_gpt)) i) = 0)"
    using demo_rank by (auto simp: demo_wf demo_side_def intro!: exI [of _ 1])
  then obtain dskp' s' where "gptfind (drv_c (ram_bios 1000)) demo_uuid demo_dsk (-1) demo_gpt = Some (0, dskp', s')"
    using gpt_ram.gptfind_best [where dskp = demo_dsk and s = demo_gpt and c = Primary and n = 1000 and uuid = demo_uuid and dr = "0x80"] demo_wf
    by (auto simp: demo_dsk_def demo_gpt_def)
  then have t: "tries (drv_c (ram_bios 1000)) demo_uuid 1 (demo_dsk, demo_gpt) (dskp', s')" by (rule try_first)
  show ?thesis using t gpt_attempts_bounded [OF gpt_ram.gpt_drive_axioms _ demo_wf(1) t, where dr = "0x80"]
    by (auto simp: demo_dsk_def)
qed

text \<open>
  C4: changing the attributes of an entry and writing a copy back keeps it bootable.  Take a copy
  whose header and table on disk agree with memory, with the header outside the table's
  sectors.  When \<^verbatim>\<open>gptupdate\<close> reports no error, a later \<^verbatim>\<open>gptread_hdr\<close> and \<^verbatim>\<open>gptread_table\<close> (on the
  next boot, from any old table) accept the copy, with the changed entry and all others as they
  were; the only way to fail is a read error of the drive.
\<close>

theorem gpt_marks_survive_reboot:
  assumes dv: "gpt_drive dv dr sect" and d: "dsk_drive dskp = dr" "io_wf io"
    and sd: "readable (sect (machine io)) sd" "apart (hdr sd)" "hdr_lba sd > 0" and cur: "cur < MAXTBLENTS"
    and sd0: "length (table sd0) = TABLE_SIZE"
  shows "\<exists>sd1 io1. mark_side dv f which dskp cur sd io = Some (sd1, io1) \<and>
    (msgs io1 = msgs io \<longrightarrow>
      (\<exists>good sd2 io2. read_side dv which dskp (hdr_lba_self (hdr sd)) sd0 io1 = Some (good, sd2, io2) \<and>
        (if good then \<forall>i < unat (hdr_entries (hdr sd)). entry (table sd2) i = entry (marked f cur (table sd)) i
         else msgs io2 \<noteq> msgs io1 \<and> set (msgs io2) \<subseteq> set (msgs io1) \<union>
           {''%s: unable to read %s GPT header'', ''%s: unable to read %s GPT partition table''} \<times> {Some which})))"
proof -
  obtain sd1 io1 where m: "mark_side dv f which dskp cur sd io = Some (sd1, io1)" "io_wf io1"
      "table sd1 = marked f cur (table sd)"
      "msgs io1 = msgs io \<and> readable (sect (machine io1)) sd1 \<and> hdr_lba_self (hdr sd1) = hdr_lba_self (hdr sd) \<and>
       hdr_entries (hdr sd1) = hdr_entries (hdr sd) \<or> length (msgs io) < length (msgs io1)"
    using gpt_drive.mark_side_readable [OF dv d sd cur, of f which] by blast
  show ?thesis
  proof (cases "msgs io1 = msgs io")
    case True
    with m(4) have r: "readable (sect (machine io1)) sd1" "hdr_lba_self (hdr sd1) = hdr_lba_self (hdr sd)"
       "hdr_entries (hdr sd1) = hdr_entries (hdr sd)" by auto
    from gpt_drive.read_side_readable [OF dv d(1) m(2) r(1) sd0, of which]
    obtain good sd2 io2 where "read_side dv which dskp (hdr_lba_self (hdr sd)) sd0 io1 = Some (good, sd2, io2)"
      "if good then \<forall>i < unat (hdr_entries (hdr sd)). entry (table sd2) i = entry (marked f cur (table sd)) i
       else \<exists>msg \<in> {''%s: unable to read %s GPT header'', ''%s: unable to read %s GPT partition table''}.
         msgs io2 = msgs io1 @ [(msg, Some which)]"
      unfolding r(2,3) m(3) by (metis (full_types))
    then show ?thesis using m(1) by (intro exI [of _ sd1] exI [of _ io1]) (auto split: if_splits)
  qed (use m(1) in auto)
qed

text \<open>
  A drive that holds the table of \<open>demo_table\<close> with its sealed header in sector 1 and the
  entries in sector 2.
\<close>

definition disk_hdr :: "byte list" where
  "disk_hdr = sealed demo_table (set_u64 (put (set_u32 demo_hdr 8 0x10000) 0 GPT_HDR_SIG) 24 1)"

definition disk_side :: gpt_side where
  "disk_side = \<lparr>hdr = disk_hdr, hdr_lba = 1, table = demo_table\<rparr>"

definition disk_io :: "image mach gio" where
  "disk_io = \<lparr>secbuf = replicate 512 0,
     machine = demo_mach\<lparr>drives := (\<lambda>_. replicate 512 0)(1 := hdr_sector disk_hdr, 2 := take 512 demo_table)\<rparr>, msgs = []\<rparr>"

lemma demo_mach_drives: "drives (machine disk_io) = (\<lambda>_. replicate 512 0)(1 := hdr_sector disk_hdr, 2 := take 512 demo_table)"
  by (simp add: disk_io_def)

lemma sig_hdr_fields:
  defines "h \<equiv> set_u64 (put (set_u32 demo_hdr 8 0x10000) 0 GPT_HDR_SIG) 24 1"
  shows "length h = HDR_SIZE" "hdr_size h = 92" "hdr_entries h = 4" "hdr_entsz h = 128" "hdr_lba_table h = 2"
    "hdr_lba_self h = 1" "hdr_sig h = GPT_HDR_SIG" "hdr_revision h = 0x10000"
proof -
  have sig: "length GPT_HDR_SIG = 8" unfolding GPT_HDR_SIG_def length_map by simp
  define g where "g = set_u32 demo_hdr 8 0x10000"
  define p where "p = put g 0 GPT_HDR_SIG"
  have g: "length g = 96" "u32_at g 12 = 92" "u32_at g 80 = 4" "u32_at g 84 = 128" "u64_at g 72 = 2" "u32_at g 8 = 0x10000"
    by (simp_all add: g_def demo_hdr_def at_set_same at_set_other)
  have len: "length p = 96" using g(1) sig by (simp add: p_def)
  have p: "take k (drop off p) = take k (drop off g)" if "8 \<le> off" for k off
    unfolding p_def using g(1) sig that by (intro field_put_other) auto
  have h: "take k (drop off h) = take k (drop off p)" if "off + k \<le> 24 \<or> 32 \<le> off" for k off
    unfolding h_def set_u64_def g_def [symmetric] p_def [symmetric] using len that by (intro field_put_other) auto
  have f: "u32_at h off = u32_at g off" "u64_at h off' = u64_at g off'"
    if "8 \<le> off" "off + 4 \<le> 24 \<or> 32 \<le> off" "32 \<le> off'" for off off'
    using that by (simp_all add: u32_at_def u64_at_def h p)
  have hp: "h = set_u64 p 24 1" by (simp only: h_def g_def p_def)
  show "length h = HDR_SIZE" unfolding hp using len by (simp add: HDR_SIZE_def)
  show "hdr_lba_self h = 1" unfolding hp hdr_lba_self_def using len by (intro at_set_same) simp
  have "take 8 h = take 8 p" using h [where off = 0 and k = 8] by simp
  also have "\<dots> = GPT_HDR_SIG" using g(1) sig by (simp add: p_def put_def)
  finally show "hdr_sig h = GPT_HDR_SIG" by (simp add: hdr_sig_def)
  show "hdr_size h = 92" using f(1) [of 12 32] g(2) by (simp add: hdr_size_def)
  show "hdr_entries h = 4" using f(1) [of 80 32] g(3) by (simp add: hdr_entries_def)
  show "hdr_entsz h = 128" using f(1) [of 84 32] g(4) by (simp add: hdr_entsz_def)
  show "hdr_lba_table h = 2" using f(2) [of 12 72] g(5) by (simp add: hdr_lba_table_def)
  show "hdr_revision h = 0x10000" using f(1) [of 8 32] g(6) by (simp add: hdr_revision_def)
qed

lemma disk_hdr_fields:
  "length disk_hdr = HDR_SIZE" "hdr_size disk_hdr = 92" "hdr_entries disk_hdr = 4" "hdr_entsz disk_hdr = 128"
  "hdr_lba_table disk_hdr = 2" "hdr_lba_self disk_hdr = 1" "hdr_sig disk_hdr = GPT_HDR_SIG" "hdr_revision disk_hdr = 0x10000"
  "hdr_crc_table disk_hdr = crc_of demo_table (ENT_SIZE * 4)"
  "hdr_crc_self disk_hdr = crc_of (set_u32 disk_hdr 16 0) 92"
  using sig_hdr_fields sealed_crc_self [OF sig_hdr_fields(1), of demo_table] by (simp_all add: disk_hdr_def)

lemma disk_readable: "readable (ram_sect (drives (machine disk_io))) disk_side" "apart (hdr disk_side)"
proof -
  have good: "hdr_good disk_hdr" by (simp add: hdr_good_def disk_hdr_fields HDR_SIZE_def MAXTBLENTS_def)
  have "crc32 (set_u32 disk_hdr 16 0) 92 = Some (hdr_crc_self disk_hdr)"
    using disk_hdr_fields(1,10) by (simp add: crc32_crc_of HDR_SIZE_def)
  then have v: "valid_hdr 1 disk_hdr"
    by (simp add: valid_hdr_def disk_hdr_fields ENT_SIZE_def MAXTBLENTS_def DEV_BSIZE_def)
  have s1: "ram_sect (drives (machine disk_io)) 1 = hdr_sector disk_hdr"
    using length_hdr_sector [OF good disk_hdr_fields(1)] by (simp add: demo_mach_drives ram_sect_def)
  have s2: "ram_sect (drives (machine disk_io)) 2 = take 512 demo_table"
    using length_demo_table by (simp add: demo_mach_drives ram_sect_def DEV_BSIZE_def TABLE_SIZE_def)
  have "disk_ent (ram_sect (drives (machine disk_io))) 2 i = entry demo_table i" if "i < 4" for i
    using that by (simp add: disk_ent_def s2 entry_def ENT_SIZE_def drop_take)
  then show "readable (ram_sect (drives (machine disk_io))) disk_side"
    using v good length_demo_table s1
    by (simp add: readable_def disk_side_def disk_hdr_fields hdr_sector_def HDR_SIZE_def DEV_BSIZE_def)
  have "(1 :: u64) \<noteq> 2 + of_nat k" if "k < 32" for k
  proof -
    have "unat (2 + of_nat k :: u64) = 2 + k" using that by (simp add: unat_word_ariths unat_of_nat)
    then show ?thesis by (metis One_nat_def Suc_eq_plus1_left add_Suc nat.inject nat.simps(3) numeral_2_eq_2 unsigned_1)
  qed
  then show "apart (hdr disk_side)" by (simp add: apart_def disk_side_def disk_hdr_fields)
qed

lemma disk_basic:
  "dsk_drive demo_dsk = 0x80" "io_wf disk_io" "hdr_lba disk_side > 0" "1 < MAXTBLENTS" "length (table demo_side) = TABLE_SIZE"
  by (simp_all add: demo_dsk_def io_wf_def disk_io_def DEV_BSIZE_def disk_side_def MAXTBLENTS_def demo_side_def length_demo_table)

theorem gpt_marks_survive_reboot_witness:
  "\<exists>sd1 io1. mark_side (drv_c (ram_bios 1000)) clear_bootme Primary demo_dsk 1 disk_side disk_io = Some (sd1, io1) \<and>
    (msgs io1 = msgs disk_io \<longrightarrow>
      (\<exists>good sd2 io2. read_side (drv_c (ram_bios 1000)) Primary demo_dsk (hdr_lba_self (hdr disk_side)) demo_side io1 = Some (good, sd2, io2) \<and>
        (if good then \<forall>i < unat (hdr_entries (hdr disk_side)). entry (table sd2) i = entry (marked clear_bootme 1 (table disk_side)) i
         else msgs io2 \<noteq> msgs io1 \<and> set (msgs io2) \<subseteq> set (msgs io1) \<union>
           {''%s: unable to read %s GPT header'', ''%s: unable to read %s GPT partition table''} \<times> {Some Primary})))"
  by (rule gpt_marks_survive_reboot [OF gpt_ram.gpt_drive_axioms disk_basic(1,2) disk_readable disk_basic(3,4,5)])

text \<open>
  \<^verbatim>\<open>gptbootconv\<close> turns every entry of the complete table sectors that has BOOTONCE but neither
  BOOTME nor BOOTFAILED (an attempt that ended in a reboot) into BOOTFAILED without BOOTONCE,
  and leaves all other entries as they are, whether or not the drive takes the writes.
\<close>

theorem gptbootconv_records_failures:
  assumes "gpt_drive dv dr sect" "dsk_drive dskp = dr" "io_wf io" "side_wf sd" "hdr_good (hdr sd)"
    "unat (hdr_lba_table (hdr sd)) + 32 < 2 ^ 64"
  shows "\<exists>sd' io'. gptbootconv dv which dskp sd io = Some (sd', io') \<and>
    (\<forall>i. let e = entry (table sd) i; e' = entry (table sd') i in
      if i < 4 * (unat (hdr_entries (hdr sd)) div 4) \<and> boot_once e \<and> \<not> bootme e \<and> \<not> boot_failed e
      then boot_failed e' \<and> \<not> boot_once e' \<and> \<not> bootme e' else e' = e)"
proof -
  have st: "stale_once (ent_attr e) \<longleftrightarrow> boot_once e \<and> \<not> bootme e \<and> \<not> boot_failed e" for e
  proof -
    have "stale_once (ent_attr e) \<longleftrightarrow> (\<forall>k < 64. (bit (ent_attr e) k \<and> (k = 59 \<or> k = 58 \<or> k = 57)) = (k = 58))"
      unfolding stale_once_def bit_eq_iff [of "ent_attr e AND _"]
      by (simp add: bit_and_iff bit_or_iff bit_flags)
    also have "\<dots> \<longleftrightarrow> boot_once e \<and> \<not> bootme e \<and> \<not> boot_failed e"
      by (auto simp: flag_bits dest: spec [of _ 57] spec [of _ 58] spec [of _ 59])
    finally show ?thesis .
  qed
  from gpt_drive.gptbootconv_ok [OF assms, of which] obtain sd' io' where
    "gptbootconv dv which dskp sd io = Some (sd', io')"
    "converted 0 (4 * (unat (hdr_entries (hdr sd)) div 4)) (table sd) (table sd')" by auto
  then show ?thesis
    by (intro exI [of _ sd'] exI [of _ io']) (auto simp: converted_def st conv_attr_def Let_def flag_bits bit_marks)
qed

theorem gptbootconv_records_failures_witness:
  "\<exists>sd' io'. gptbootconv (drv_c (ram_bios 1000)) Primary demo_dsk disk_side disk_io = Some (sd', io') \<and>
    (\<forall>i. let e = entry (table disk_side) i; e' = entry (table sd') i in
      if i < 4 * (unat (hdr_entries (hdr disk_side)) div 4) \<and> boot_once e \<and> \<not> bootme e \<and> \<not> boot_failed e
      then boot_failed e' \<and> \<not> boot_once e' \<and> \<not> bootme e' else e' = e)"
  by (rule gptbootconv_records_failures [OF gpt_ram.gpt_drive_axioms, where dr = "0x80"])
     (simp_all add: demo_dsk_def io_wf_def disk_io_def DEV_BSIZE_def MAXTBLENTS_def disk_side_def side_wf_def hdr_good_def
       length_demo_table disk_hdr_fields HDR_SIZE_def)

text \<open>
  \<^verbatim>\<open>hdr_size\<close> is not checked against \<^verbatim>\<open>sizeof(struct gpt_hdr)\<close>: for a sector that passes every
  other test of \<^verbatim>\<open>gptread_hdr\<close> and claims more than 96 bytes, the checksum reads past the header.
\<close>

theorem gptread_hdr_oversized_faults:
  assumes "d_read dv dskp (secbuf io) lba 1 (machine io) = (0, buf, m)" "length buf = DEV_BSIZE"
    and "hdr_sig buf = GPT_HDR_SIG" "hdr_lba_self buf = lba" "0x00010000 \<le> hdr_revision buf" "hdr_entsz buf = 128"
      "unat (hdr_entries buf) \<le> MAXTBLENTS"
    and big: "HDR_SIZE < unat (hdr_size buf)"
  shows "gptread_hdr dv which dskp h0 lba io = None"
proof -
  let ?h = "take HDR_SIZE buf"
  have len: "length ?h = HDR_SIZE" using assms(2) by (simp add: HDR_SIZE_def DEV_BSIZE_def)
  have tk: "take 92 ?h = take 92 buf" by (simp add: HDR_SIZE_def)
  note f = hdr_take_cong [OF tk order_refl]
  have "crc32 (set_u32 ?h 16 0) (unat (hdr_size buf)) = None"
    using len big by (simp add: crc32_def crc32_loop_eq)
  moreover have "slice buf 0 HDR_SIZE = Some ?h" using assms(2) by (simp add: HDR_SIZE_def DEV_BSIZE_def)
  ultimately show ?thesis
    using assms(1,3-7) len
    by (simp add: gptread_hdr_def f ENT_SIZE_def DEV_BSIZE_def linorder_not_less [symmetric])
qed

theorem gptread_hdr_oversized_faults_witness:
  "let buf = set_u32 (hdr_sector disk_hdr) 12 4096;
       dv = \<lparr>d_read = (\<lambda>_ _ _ _ m. (0, buf, m)), d_write = (\<lambda>_ b _ _ m. (-1, b, m)), d_size = (\<lambda>_ m. (0, m))\<rparr> in
   gptread_hdr dv Primary demo_dsk [] 1 \<lparr>secbuf = replicate 512 0, machine = (), msgs = []\<rparr> = None"
proof -
  let ?buf = "set_u32 (hdr_sector disk_hdr) 12 4096"
  have len: "length (hdr_sector disk_hdr) = 512"
    using disk_hdr_fields by (simp add: hdr_sector_def HDR_SIZE_def DEV_BSIZE_def)
  have "take 92 (hdr_sector disk_hdr) = take 92 disk_hdr"
    using disk_hdr_fields by (simp add: hdr_sector_def HDR_SIZE_def)
  note f = hdr_take_cong [OF this order_refl]
  have "hdr_sig ?buf = GPT_HDR_SIG" using f(1) len disk_hdr_fields(7) by (simp add: hdr_sig_def take_set_u32)
  moreover have e: "hdr_lba_self ?buf = 1" "hdr_revision ?buf = 0x10000" "hdr_entsz ?buf = 128" "hdr_entries ?buf = 4"
      "hdr_size ?buf = 4096"
    using f len disk_hdr_fields by (simp_all add: hdr_defs at_set_same at_set_other)
  moreover have "unat (hdr_entries ?buf) \<le> MAXTBLENTS" "HDR_SIZE < unat (hdr_size ?buf)"
    unfolding e by (simp_all add: MAXTBLENTS_def HDR_SIZE_def)
  ultimately show ?thesis unfolding Let_def
    by (intro gptread_hdr_oversized_faults [where buf = ?buf and m = "()"]) (simp_all add: len DEV_BSIZE_def)
qed

text \<open>
  after the one-shot attempt on the last table entry the search gives up: it returns -1
  without looking at any entry, although the tables may hold entries that ask to be booted.
\<close>

theorem gptfind_gives_up_after_last_entry:
  assumes "gptcur s = Some c" "curent s = int (unat (hdr_entries (hdr (side c s)))) - 1"
  shows "gptfind dv uuid dskp (-1) s = Some (-1, dskp, s\<lparr>curent := int (unat (hdr_entries (hdr (side c s))))\<rparr>)"
  using assms by (simp add: gptfind_def gptfind_next_def Let_def)

theorem gptfind_gives_up_after_last_entry_witness:
  "gptfind (drv_c (ram_bios 1000)) demo_uuid demo_dsk (-1) (demo_gpt\<lparr>curent := 3\<rparr>) =
    Some (-1, demo_dsk, demo_gpt\<lparr>curent := 3, curent := int (unat (hdr_entries (hdr (side Primary (demo_gpt\<lparr>curent := 3\<rparr>)))))\<rparr>)"
  by (rule gptfind_gives_up_after_last_entry)
     (simp_all add: demo_gpt_def side_def demo_side_def demo_hdr_fields)

end
