(* ===== verification/Console.thy ===== *)
theory Console
  imports Drv
begin

text \<open>
  \<^verbatim>\<open>boot/i386/common/cons.c\<close>: the console of the boot programs, on the keyboard and screen services of the
  BIOS and on the serial line.

  The firmware is the argument \<open>bios\<close> of the theory of \<^verbatim>\<open>drv.c\<close>, here called for interrupts 10h and 16h.
  The routines of \<^verbatim>\<open>sio.S\<close> (assembly) and the clock that the BIOS keeps at address 46Ch are the argument
  \<open>sio\<close>.  Waiting loops are \<^term>\<open>None\<close> when they never end.
\<close>

section \<open>State\<close>

definition IO_KEYBOARD :: nat where "IO_KEYBOARD = 1"
definition IO_SERIAL :: nat where "IO_SERIAL = 2"
definition SECOND :: u32 where "SECOND = 18"
definition RBX_NOINTR :: nat where "RBX_NOINTR = 0x1c"

record 'd sio_ops =
  sio_init :: "int \<Rightarrow> 'd \<Rightarrow> 'd"
  sio_flush :: "'d \<Rightarrow> 'd"
  sio_putc :: "int \<Rightarrow> 'd \<Rightarrow> 'd"
  sio_getc :: "'d \<Rightarrow> int \<times> 'd"
  sio_ischar :: "'d \<Rightarrow> bool \<times> 'd"
  clock :: "'d \<Rightarrow> u32 \<times> 'd"

record 'd cons =
  ioctrl :: nat
  cm :: "'d mach"

definition has :: "nat \<Rightarrow> nat \<Rightarrow> bool" where
  "has io flag \<longleftrightarrow> io AND flag \<noteq> 0"

section \<open>Output\<close>

definition v86int :: "'d bios \<Rightarrow> 'd mach \<Rightarrow> 'd mach" where
  "v86int bios m =
     (let (regs, par, _, d) = bios (v86 m) (packet m) (params m) [] (drives m)
      in m\<lparr>v86 := regs, params := par, drives := d\<rparr>)"

definition putc :: "'d bios \<Rightarrow> int \<Rightarrow> 'd cons \<Rightarrow> 'd cons" where
  "putc bios c s =
     s\<lparr>cm := v86int bios ((cm s)\<lparr>v86 := (v86 (cm s))\<lparr>v86_ctl := V86_FLAGS, v86_addr := 0x10,
        v86_eax := 0xe00 OR (word_of_int c AND 0xff), v86_ebx := 0x7\<rparr>\<rparr>)\<rparr>"

definition xputc :: "'d bios \<Rightarrow> 'd sio_ops \<Rightarrow> int \<Rightarrow> 'd cons \<Rightarrow> 'd cons" where
  "xputc bios sio c s =
     (let s1 = (if has (ioctrl s) IO_KEYBOARD then putc bios c s else s)
      in if has (ioctrl s1) IO_SERIAL then s1\<lparr>cm := (cm s1)\<lparr>drives := sio_putc sio c (drives (cm s1))\<rparr>\<rparr> else s1)"

definition putchar :: "'d bios \<Rightarrow> 'd sio_ops \<Rightarrow> int \<Rightarrow> 'd cons \<Rightarrow> 'd cons" where
  "putchar bios sio c s = xputc bios sio c (if c = 10 then xputc bios sio 13 s else s)"

section \<open>Input\<close>

definition V86_ZR :: "u32 \<Rightarrow> bool" where "V86_ZR efl \<longleftrightarrow> efl AND 0x40 \<noteq> 0"

text \<open>\<^verbatim>\<open>getc(0)\<close> takes a key, \<^verbatim>\<open>getc(1)\<close> asks for one.\<close>

definition getc :: "'d bios \<Rightarrow> nat \<Rightarrow> 'd cons \<Rightarrow> int \<times> 'd cons" where
  "getc bios fn s =
     (let m = v86int bios ((cm s)\<lparr>v86 := (v86 (cm s))\<lparr>v86_ctl := V86_FLAGS, v86_addr := 0x16,
            v86_eax := push_bit 8 (word_of_nat fn)\<rparr>\<rparr>);
          al = v86_eax (v86 m) AND 0xff
      in (if fn = 0 then uint al else of_bool (\<not> V86_ZR (v86_efl (v86 m)) \<and> al \<noteq> 0), s\<lparr>cm := m\<rparr>))"

partial_function (option) xgetc_loop :: "'d bios \<Rightarrow> 'd sio_ops \<Rightarrow> nat \<Rightarrow> 'd cons \<Rightarrow> (int \<times> 'd cons) option" where
  "xgetc_loop bios sio fn s =
     (let (k, s1) = (if has (ioctrl s) IO_KEYBOARD then getc bios 1 s else (0, s)) in
      if k \<noteq> 0 then Some (if fn \<noteq> 0 then (1, s1) else getc bios 0 s1)
      else
        let (r, s2) = (if has (ioctrl s1) IO_SERIAL
              then (let (r, d) = sio_ischar sio (drives (cm s1)) in (r, s1\<lparr>cm := (cm s1)\<lparr>drives := d\<rparr>\<rparr>))
              else (False, s1)) in
        if r then Some (if fn \<noteq> 0 then (1, s2)
                        else (let (c, d) = sio_getc sio (drives (cm s2)) in (c, s2\<lparr>cm := (cm s2)\<lparr>drives := d\<rparr>\<rparr>)))
        else if fn \<noteq> 0 then Some (0, s2)
        else xgetc_loop bios sio fn s2)"

definition xgetc :: "'d bios \<Rightarrow> 'd sio_ops \<Rightarrow> nat \<Rightarrow> 'd cons \<Rightarrow> (int \<times> 'd cons) option" where
  "xgetc bios sio fn s = (if OPT_CHECK RBX_NOINTR (opts (cm s)) then Some (0, s) else xgetc_loop bios sio fn s)"

partial_function (option) keyhit_loop ::
  "'d bios \<Rightarrow> 'd sio_ops \<Rightarrow> u32 \<Rightarrow> u32 \<Rightarrow> 'd cons \<Rightarrow> (bool \<times> 'd cons) option" where
  "keyhit_loop bios sio secs t0 s = do {
     (k, s1) \<leftarrow> xgetc bios sio 1 s;
     if k \<noteq> 0 then Some (True, s1)
     else if secs > 0 then
       let (t1, d) = clock sio (drives (cm s1));
           s2 = s1\<lparr>cm := (cm s1)\<lparr>drives := d\<rparr>\<rparr>;
           t = (if t0 = 0 then t1 else t0)
       in if t1 < t \<or> t1 \<ge> t + secs then Some (False, s2) else keyhit_loop bios sio secs t s2
     else keyhit_loop bios sio secs t0 s1
   }"

definition keyhit :: "'d bios \<Rightarrow> 'd sio_ops \<Rightarrow> u32 \<Rightarrow> 'd cons \<Rightarrow> (bool \<times> 'd cons) option" where
  "keyhit bios sio secs s =
     (if OPT_CHECK RBX_NOINTR (opts (cm s)) then Some (False, s) else keyhit_loop bios sio (secs * SECOND) 0 s)"

text \<open>
  \<^verbatim>\<open>getstr\<close>: \<open>i\<close> is the position \<^verbatim>\<open>s\<close> in \<^verbatim>\<open>cmdstr\<close>.  The body of the switch returns the finished
  buffer, or the position and the buffer to go on with.
\<close>

definition getstr_key ::
  "'d bios \<Rightarrow> 'd sio_ops \<Rightarrow> nat \<Rightarrow> int \<Rightarrow> nat \<times> byte list \<times> 'd cons \<Rightarrow>
   (byte list \<times> 'd cons + nat \<times> byte list \<times> 'd cons) option" where
  "getstr_key bios sio n c = (\<lambda>(i, buf, s).
     if c = 0 then Some (Inr (i, buf, s))
     else if c = 127 \<or> c = 8 then
       Some (Inr (if i > 0 then (i - 1, buf, s\<lparr>cm := say [CHR 0x08, CHR 0x20, CHR 0x08] [] (cm s)\<rparr>) else (i, buf, s)))
     else if c = 10 \<or> c = 13 then map_option (\<lambda>buf'. Inl (buf', s)) (wr buf i 0)
     else if i < n - 1 then map_option (\<lambda>buf'. Inr (Suc i, buf', putchar bios sio c s)) (wr buf i (word_of_int c))
     else Some (Inr (i, buf, putchar bios sio c s)))"

partial_function (option) getstr_loop ::
  "'d bios \<Rightarrow> 'd sio_ops \<Rightarrow> nat \<Rightarrow> nat \<times> byte list \<times> 'd cons \<Rightarrow> (byte list \<times> 'd cons) option" where
  "getstr_loop bios sio n a = do {
     (c, s1) \<leftarrow> xgetc bios sio 0 (snd (snd a));
     r \<leftarrow> getstr_key bios sio n c (fst a, fst (snd a), s1);
     case r of Inl fin \<Rightarrow> Some fin | Inr a' \<Rightarrow> getstr_loop bios sio n a'
   }"

definition getstr :: "'d bios \<Rightarrow> 'd sio_ops \<Rightarrow> byte list \<Rightarrow> nat \<Rightarrow> 'd cons \<Rightarrow> (byte list \<times> 'd cons) option" where
  "getstr bios sio buf n s = getstr_loop bios sio n (0, buf, s)"

section \<open>Line editing\<close>

text \<open>
  The contract of the input: \<open>keys s\<close> are the characters typed and not yet taken; they come in order, and
  output does not disturb them.
\<close>

locale key_source =
  fixes bios :: "'d bios" and sio :: "'d sio_ops" and keys :: "'d cons \<Rightarrow> byte list"
  assumes next_key: "keys s = c # cs \<Longrightarrow> \<exists>s'. xgetc bios sio 0 s = Some (uint c, s') \<and> keys s' = cs"
    and keys_putchar [simp]: "keys (putchar bios sio x s) = keys s"
    and keys_say [simp]: "keys (s\<lparr>cm := say msg args (cm s)\<rparr>) = keys s"

text \<open>The line that the keys make: backspace and delete take back a character, a full line ignores more.\<close>

definition edit1 :: "nat \<Rightarrow> byte list \<Rightarrow> byte \<Rightarrow> byte list" where
  "edit1 n l c =
     (if c = 0 then l else if c = 127 \<or> c = 8 then butlast l else if length l < n - 1 then l @ [c] else l)"

definition edit :: "nat \<Rightarrow> byte list \<Rightarrow> byte list" where
  "edit n cs = foldl (edit1 n) [] cs"

context key_source
begin

lemma getstr_loop_ok:
  assumes "keys s = cs @ e # rest" "e \<in> {10, 13}" "10 \<notin> set cs" "13 \<notin> set cs"
    and "0 < n" "n \<le> length buf" "length l < n" "take (length l) buf = l"
  shows "\<exists>buf' s'. getstr_loop bios sio n (length l, buf, s) = Some (buf', s') \<and> length buf' = length buf \<and>
    (\<exists>post. buf' = foldl (edit1 n) l cs @ 0 # post) \<and> keys s' = rest"
  using assms
proof (induction cs arbitrary: s l buf)
  case Nil
  then obtain s' where s': "xgetc bios sio 0 s = Some (uint e, s')" "keys s' = rest" using next_key by fastforce
  have e: "uint e = 10 \<or> uint e = 13" using Nil.prems(2) by auto
  have "getstr_loop bios sio n (length l, buf, s) = Some (buf[length l := 0], s')"
    using s'(1) e Nil.prems(6,7) by (subst getstr_loop.simps) (auto simp: getstr_key_def)
  moreover have "buf[length l := 0] = l @ 0 # drop (Suc (length l)) buf"
    using Nil.prems(6-8) by (simp add: upd_conv_take_nth_drop)
  ultimately show ?case using s'(2) Nil.prems(6,7) by auto
next
  case (Cons c cs)
  obtain s1 where s1: "xgetc bios sio 0 s = Some (uint c, s1)" "keys s1 = cs @ e # rest"
    using next_key [of s c] Cons.prems(1) by auto
  have c: "uint c = 0 \<longleftrightarrow> c = 0" "uint c = 127 \<longleftrightarrow> c = 127" "uint c = 8 \<longleftrightarrow> c = 8" "uint c \<noteq> 10" "uint c \<noteq> 13"
    using Cons.prems(3,4) by (auto simp: word_uint_eq_iff)
  let ?l = "edit1 n l c"
  have step: "\<exists>buf1 s2. getstr_loop bios sio n (length l, buf, s) = getstr_loop bios sio n (length ?l, buf1, s2) \<and>
      keys s2 = cs @ e # rest \<and> length buf1 = length buf \<and> length ?l < n \<and> take (length ?l) buf1 = ?l"
  proof (cases "c = 0 \<or> c = 127 \<or> c = 8")
    case True
    let ?s = "if c \<noteq> 0 \<and> l \<noteq> [] then s1\<lparr>cm := say [CHR 0x08, CHR 0x20, CHR 0x08] [] (cm s1)\<rparr> else s1"
    have "getstr_loop bios sio n (length l, buf, s) = getstr_loop bios sio n (length ?l, buf, ?s)"
      using True s1(1) c by (subst getstr_loop.simps) (auto simp: getstr_key_def edit1_def)
    moreover have "take (length l - 1) l = take (length l - 1) buf"
      using take_take [of "length l - 1" "length l" buf] Cons.prems(8) by simp
    then have "take (length (butlast l)) buf = butlast l" by (metis butlast_conv_take length_butlast)
    then have "take (length ?l) buf = ?l" using True Cons.prems(8) by (auto simp: edit1_def)
    moreover have "length ?l < n" using True Cons.prems(7) by (auto simp: edit1_def)
    moreover have "keys ?s = cs @ e # rest" using s1(2) by simp
    ultimately show ?thesis by blast
  next
    case False
    let ?buf = "if length l < n - 1 then buf[length l := c] else buf"
    have "getstr_loop bios sio n (length l, buf, s) = getstr_loop bios sio n (length ?l, ?buf, putchar bios sio (uint c) s1)"
      using s1(1) c False Cons.prems(6,7) by (subst getstr_loop.simps) (auto simp: getstr_key_def edit1_def)
    moreover have "take (length ?l) ?buf = ?l" using False Cons.prems(6-8)
      by (auto simp: edit1_def take_Suc_conv_app_nth)
    moreover have "length ?buf = length buf" "length ?l < n" using False Cons.prems(7) by (auto simp: edit1_def)
    moreover have "keys (putchar bios sio (uint c) s1) = cs @ e # rest" using s1(2) by simp
    ultimately show ?thesis by blast
  qed
  then obtain buf1 s2 where "getstr_loop bios sio n (length l, buf, s) = getstr_loop bios sio n (length ?l, buf1, s2)"
      "keys s2 = cs @ e # rest" "length buf1 = length buf" "length ?l < n" "take (length ?l) buf1 = ?l" by blast
  then show ?case using Cons.IH [of s2 buf1 ?l] Cons.prems(2-6) by simp
qed

end

section \<open>The keyboard of a BIOS\<close>

text \<open>
  The documented behaviour of interrupt 16h over the queue of ASCII codes of the keys pressed: function 1
  sets the zero flag when the queue is empty and else shows its head, function 0 takes it.
\<close>

definition kbd_bios :: "byte list bios" where
  "kbd_bios regs pkt par buf q =
     (if v86_addr regs \<noteq> 0x16 then (regs, par, buf, q)
      else if v86_eax regs = 0x100
        then (regs\<lparr>v86_efl := (if q = [] then 0x40 else 0), v86_eax := (if q = [] then 0x100 else ucast (hd q))\<rparr>, par, buf, q)
      else (regs\<lparr>v86_eax := (if q = [] then 0 else ucast (hd q))\<rparr>, par, buf, tl q))"

definition typed :: "byte list cons \<Rightarrow> byte list" where
  "typed s =
     (if has (ioctrl s) IO_KEYBOARD \<and> \<not> OPT_CHECK RBX_NOINTR (opts (cm s))
      then takeWhile (\<lambda>c. c \<noteq> 0) (drives (cm s)) else [])"

definition no_sio :: "byte list sio_ops" where
  "no_sio = \<lparr>sio_init = \<lambda>_ q. q, sio_flush = \<lambda>q. q, sio_putc = \<lambda>_ q. q, sio_getc = \<lambda>q. (0, q),
     sio_ischar = \<lambda>q. (False, q), clock = \<lambda>q. (1, q)\<rparr>"

lemma ucast_byte [simp]:
  "(ucast (c :: byte) :: u32) AND 0xff = ucast c" "uint (ucast (c :: byte) :: u32) = uint c"
  "(ucast (c :: byte) :: u32) = 0 \<longleftrightarrow> c = 0"
proof -
  have u: "uint (ucast c :: u32) = uint c" 
    using unsigned_less [of c, where ?'a = int] by (simp add: unsigned_ucast_eq take_bit_int_eq_self)
  then show "uint (ucast c :: u32) = uint c" .
  show "(ucast c :: u32) = 0 \<longleftrightarrow> c = 0" using u by (simp add: word_uint_eq_iff)
  have m: "(0xff :: u32) = mask 8" by (simp add: mask_eq_exp_minus_1)
  show "(ucast c :: u32) AND 0xff = ucast c" unfolding m take_bit_eq_mask [symmetric]
    by (rule bit_word_eqI) (auto simp: bit_simps dest: bit_imp_le_length)
qed

lemma kbd_getc:
  "drives (cm s) = c # q \<Longrightarrow> getc kbd_bios 0 s = (uint c, snd (getc kbd_bios 0 s)) \<and> drives (cm (snd (getc kbd_bios 0 s))) = q"
  "drives (cm s) = c # q \<Longrightarrow> fst (getc kbd_bios 1 s) = of_bool (c \<noteq> 0)"
  "drives (cm (snd (getc kbd_bios 1 s))) = drives (cm s)"
  "opts (cm (snd (getc kbd_bios fn s))) = opts (cm s)" "ioctrl (snd (getc kbd_bios fn s)) = ioctrl s"
  by (simp_all add: getc_def v86int_def kbd_bios_def Let_def V86_ZR_def)

lemma xputc_kbd:
  "drives (cm (xputc kbd_bios no_sio x s)) = drives (cm s)" "opts (cm (xputc kbd_bios no_sio x s)) = opts (cm s)"
  "ioctrl (xputc kbd_bios no_sio x s) = ioctrl s"
  by (simp_all add: xputc_def putc_def v86int_def kbd_bios_def no_sio_def Let_def)

interpretation kbd: key_source kbd_bios no_sio typed
proof (unfold_locales, goal_cases)
  case (1 s c cs)
  then obtain q where on: "has (ioctrl s) IO_KEYBOARD" "\<not> OPT_CHECK RBX_NOINTR (opts (cm s))"
    and q: "drives (cm s) = c # q" "c \<noteq> 0" "cs = takeWhile (\<lambda>c. c \<noteq> 0) q"
    by (cases "drives (cm s)") (auto simp: typed_def split: if_splits)
  obtain s1 where k: "getc kbd_bios 1 s = (1, s1)" using kbd_getc(2) [OF q(1)] q(2) by (cases "getc kbd_bios 1 s") simp
  have s1: "drives (cm s1) = c # q" "ioctrl s1 = ioctrl s" "opts (cm s1) = opts (cm s)"
    using kbd_getc(3-5) [where s = s] q(1) k by (metis snd_conv)+
  from kbd_getc(1) [OF s1(1)] obtain s' where s': "getc kbd_bios 0 s1 = (uint c, s')" "drives (cm s') = q" by metis
  have "xgetc kbd_bios no_sio 0 s = Some (uint c, s')"
    using on k s'(1) by (simp add: xgetc_def xgetc_loop.simps)
  moreover have "ioctrl s' = ioctrl s" "opts (cm s') = opts (cm s)" using kbd_getc(4,5) [where s = s1] s'(1) s1(2,3) by (metis snd_conv)+
  ultimately show ?case using on q(3) s'(2) by (auto simp: typed_def)
next
  case (2 x s)
  then show ?case by (auto simp: typed_def putchar_def xputc_kbd)
next
  case (3 s msg args)
  then show ?case by (simp add: typed_def say_def)
qed

text \<open>
  C30: \<^verbatim>\<open>getstr\<close> returns the edited line: when the user ends a line with return or newline, the buffer
  holds, terminated by NUL and within its size, the characters that the backspaces and the limit of
  \<open>n - 1\<close> characters leave, and the keys typed after the line are still there.
\<close>

theorem getstr_edits_line:
  assumes "key_source bios sio keys" "keys s = cs @ e # rest" "e \<in> {10, 13}" "10 \<notin> set cs" "13 \<notin> set cs"
    and "0 < n" "n \<le> length buf"
  shows "\<exists>buf' s'. getstr bios sio buf n s = Some (buf', s') \<and> length buf' = length buf \<and>
    (\<exists>post. buf' = edit n cs @ 0 # post) \<and> keys s' = rest"
  using key_source.getstr_loop_ok [OF assms, of "[]"] assms(6) by (simp add: getstr_def edit_def)

definition blank_mach :: "'d \<Rightarrow> 'd mach" where
  "blank_mach d = \<lparr>v86 = \<lparr>v86_ctl = 0, v86_addr = 0, v86_es = 0, v86_ds = 0, v86_fs = 0, v86_gs = 0,
       v86_eax = 0, v86_ecx = 0, v86_edx = 0, v86_ebx = 0, v86_efl = 0, v86_ebp = 0, v86_esi = 0, v86_edi = 0\<rparr>,
     packet = \<lparr>pkt_len = 0, pkt_count = 0, pkt_off = 0, pkt_seg = 0, pkt_lba = 0\<rparr>,
     params = \<lparr>par_len = 0, par_flags = 0, par_cylinders = 0, par_heads = 0, par_sectors_per_track = 0, par_sectors = 0,
       par_sector_size = 0, par_params_seg = 0, par_params_off = 0\<rparr>,
     pa_packet = 0, pa_params = 0, spinner = 0, opts = 0, console = [], drives = d\<rparr>"

definition kbd_demo :: "byte list cons" where
  "kbd_demo = \<lparr>ioctrl = 1, cm = blank_mach [45, 115, 120, 8, 13, 97]\<rparr>"

theorem getstr_edits_line_witness:
  "\<exists>buf' s'. getstr kbd_bios no_sio (replicate 512 0) 512 kbd_demo = Some (buf', s') \<and>
    (\<exists>post. buf' = [45, 115] @ 0 # post) \<and> typed s' = [97]"
proof -
  have "typed kbd_demo = [45, 115, 120, 8] @ 13 # [97]"
    by (simp add: typed_def kbd_demo_def blank_mach_def has_def IO_KEYBOARD_def OPT_CHECK_def)
  moreover have "edit 512 [45, 115, 120, 8] = [45, 115]" by (simp add: edit_def edit1_def)
  ultimately show ?thesis
    using getstr_edits_line [OF kbd.key_source_axioms, of kbd_demo "[45, 115, 120, 8]" 13 "[97]" 512 "replicate 512 0"]
    by auto
qed

text \<open>
  A key without an ASCII code (a function or cursor key) at the head of the queue blocks the
  keyboard: \<^verbatim>\<open>getc(1)\<close> answers that there is no key and \<^verbatim>\<open>getc(0)\<close>, which would take it, is never called,
  so \<^verbatim>\<open>xgetc(0)\<close> waits for ever whatever is typed afterwards.
\<close>

theorem extended_key_blocks_input:
  assumes "ioctrl s = IO_KEYBOARD" "\<not> OPT_CHECK RBX_NOINTR (opts (cm s))" "drives (cm s) = 0 # q"
  shows "xgetc kbd_bios sio 0 s = None"
proof (rule ccontr)
  assume "xgetc kbd_bios sio 0 s \<noteq> None"
  then obtain y where y: "xgetc_loop kbd_bios sio 0 s = Some y" using assms(2) by (auto simp: xgetc_def)
  define P where "P b sio' (fn :: nat) s' (r :: int \<times> byte list cons) \<longleftrightarrow>
    \<not> (b = kbd_bios \<and> sio' = sio \<and> fn = 0 \<and> ioctrl s' = IO_KEYBOARD \<and> drives (cm s') = 0 # q)" for b sio' fn and s' :: "byte list cons" and r
  have "P kbd_bios sio 0 s y"
  proof (rule xgetc_loop.raw_induct [OF _ y, of P])
    fix loop :: "byte list bios \<Rightarrow> byte list sio_ops \<Rightarrow> nat \<Rightarrow> byte list cons \<Rightarrow> (int \<times> byte list cons) option"
    fix b sio' fn s' r
    assume IH: "\<And>b sio' fn s' r. loop b sio' fn s' = Some r \<Longrightarrow> P b sio' fn s' r"
      and eq: "(let (k, s1) = (if has (ioctrl s') IO_KEYBOARD then getc b 1 s' else (0, s')) in
        if k \<noteq> 0 then Some (if fn \<noteq> 0 then (1, s1) else getc b 0 s1)
        else
        let (r, s2) = (if has (ioctrl s1) IO_SERIAL
              then (let (r, d) = sio_ischar sio' (drives (cm s1)) in (r, s1\<lparr>cm := (cm s1)\<lparr>drives := d\<rparr>\<rparr>))
              else (False, s1)) in
        if r then Some (if fn \<noteq> 0 then (1, s2)
                        else (let (c, d) = sio_getc sio' (drives (cm s2)) in (c, s2\<lparr>cm := (cm s2)\<lparr>drives := d\<rparr>\<rparr>)))
        else if fn \<noteq> 0 then Some (0, s2)
        else loop b sio' fn s2) = Some r"
    show "P b sio' fn s' r"
    proof (rule ccontr)
      assume "\<not> P b sio' fn s' r"
      then have c: "b = kbd_bios" "sio' = sio" "fn = 0" "ioctrl s' = IO_KEYBOARD" "drives (cm s') = 0 # q"
        by (auto simp: P_def)
      obtain s1 where g: "getc kbd_bios 1 s' = (0, s1)" using kbd_getc(2) [OF c(5)] by (cases "getc kbd_bios 1 s'") simp
      have io: "ioctrl s1 = IO_KEYBOARD" "drives (cm s1) = 0 # q"
        using kbd_getc(3,5) [where s = s'] c(4,5) g by (metis snd_conv)+
      have "has IO_KEYBOARD IO_KEYBOARD" "\<not> has IO_KEYBOARD IO_SERIAL" by (simp_all add: has_def IO_KEYBOARD_def IO_SERIAL_def)
      then have "loop b sio' fn s1 = Some r" using eq c g io by simp
      from IH [OF this] show False using c io by (simp add: P_def)
    qed
  qed
  then show False using assms(1,3) by (simp add: P_def)
qed

theorem extended_key_blocks_input_witness:
  "xgetc kbd_bios no_sio 0 (kbd_demo\<lparr>cm := (cm kbd_demo)\<lparr>drives := [0, 65, 13]\<rparr>\<rparr>) = None"
  by (rule extended_key_blocks_input [where q = "[65, 13]"])
    (simp_all add: kbd_demo_def blank_mach_def IO_KEYBOARD_def OPT_CHECK_def)

section \<open>The delay of autoboot\<close>

text \<open>
  Nobody types: every poll answers 0.  \<open>polls\<close> counts the readings of the clock, and reading number \<open>i\<close>
  shows \<open>T i\<close>.
\<close>

locale quiet_console =
  fixes bios :: "'d bios" and sio :: "'d sio_ops" and polls :: "'d cons \<Rightarrow> nat" and T :: "nat \<Rightarrow> u32"
  assumes no_key: "\<exists>s'. xgetc bios sio 1 s = Some (0, s') \<and> polls s' = polls s"
    and clock_reads: "clock sio (drives (cm s)) = (t, d) \<Longrightarrow>
      t = T (polls s) \<and> polls (s\<lparr>cm := (cm s)\<lparr>drives := d\<rparr>\<rparr>) = Suc (polls s)"
begin

lemma keyhit_poll:
  assumes "0 < secs"
  shows "\<exists>s'. polls s' = Suc (polls s) \<and> keyhit_loop bios sio secs t0 s =
    (let t = (if t0 = 0 then T (polls s) else t0) in
     if T (polls s) < t \<or> T (polls s) \<ge> t + secs then Some (False, s') else keyhit_loop bios sio secs t s')"
proof -
  obtain s1 where s1: "xgetc bios sio 1 s = Some (0, s1)" "polls s1 = polls s" using no_key by blast
  obtain t d where c: "clock sio (drives (cm s1)) = (t, d)" by fastforce
  note law = clock_reads [OF c, unfolded s1(2)]
  show ?thesis using s1(1) c law assms
    by (intro exI [of _ "s1\<lparr>cm := (cm s1)\<lparr>drives := d\<rparr>\<rparr>"]) (subst keyhit_loop.simps, simp add: Let_def)
qed

lemma keyhit_loop_ends:
  assumes "0 < secs" "t0 \<noteq> 0" "polls s \<le> k" "T k < t0 \<or> T k \<ge> t0 + secs"
  shows "\<exists>s'. keyhit_loop bios sio secs t0 s = Some (False, s')"
  using assms(3)
proof (induction "k - polls s" arbitrary: s)
  case 0
  then have "polls s = k" by simp
  then show ?case using keyhit_poll [OF assms(1), of s t0] assms(2,4) by (auto simp: Let_def)
next
  case (Suc n)
  obtain s' where s': "polls s' = Suc (polls s)" "keyhit_loop bios sio secs t0 s =
      (if T (polls s) < t0 \<or> T (polls s) \<ge> t0 + secs then Some (False, s') else keyhit_loop bios sio secs t0 s')"
    using keyhit_poll [OF assms(1), of s t0] assms(2) by (auto simp: Let_def)
  have "n = k - polls s'" "polls s' \<le> k" using Suc.hyps(2) s'(1) by auto
  from Suc.hyps(1) [OF this] s'(2) show ?case by auto
qed

lemma keyhit_ends:
  assumes "secs * SECOND \<noteq> 0" "T (polls s) \<noteq> 0" "polls s < k"
    and "T k < T (polls s) \<or> T k \<ge> T (polls s) + secs * SECOND"
  shows "\<exists>s'. keyhit bios sio secs s = Some (False, s')"
proof (cases "OPT_CHECK RBX_NOINTR (opts (cm s))")
  case False
  have pos: "0 < secs * SECOND" using assms(1) by (simp add: word_gt_0)
  obtain s' where s': "polls s' = Suc (polls s)" "keyhit_loop bios sio (secs * SECOND) 0 s =
      (if T (polls s) \<ge> T (polls s) + secs * SECOND then Some (False, s')
       else keyhit_loop bios sio (secs * SECOND) (T (polls s)) s')"
    using keyhit_poll [OF pos, of s 0] by (auto simp: Let_def)
  have "\<exists>s''. keyhit_loop bios sio (secs * SECOND) (T (polls s)) s' = Some (False, s'')"
    using keyhit_loop_ends [OF pos assms(2) _ assms(4), of s'] s'(1) assms(3) by simp
  then show ?thesis using s'(2) False by (auto simp: keyhit_def)
qed (simp add: keyhit_def)

end

definition idle_bios :: "nat bios" where
  "idle_bios regs pkt par buf i = (regs\<lparr>v86_efl := 0x40\<rparr>, par, buf, i)"

definition clock_sio :: "(nat \<Rightarrow> u32) \<Rightarrow> nat sio_ops" where
  "clock_sio T = \<lparr>sio_init = \<lambda>_ i. i, sio_flush = \<lambda>i. i, sio_putc = \<lambda>_ i. i, sio_getc = \<lambda>i. (0, i),
     sio_ischar = \<lambda>i. (False, i), clock = \<lambda>i. (T i, Suc i)\<rparr>"

interpretation idle: quiet_console idle_bios "clock_sio T" "\<lambda>s. drives (cm s)" T
  by unfold_locales
    (auto simp: clock_sio_def xgetc_def xgetc_loop.simps getc_def v86int_def idle_bios_def V86_ZR_def Let_def)

text \<open>
  The delay before autoboot ends.  While nobody types, \<^verbatim>\<open>keyhit\<close> with a positive number of seconds
  returns 0 if some later reading of the clock is that many times 18 ticks after the first one, or below it
  because the clock was reset at midnight; the clock is assumed not to show 0 at the first reading.
\<close>

theorem keyhit_times_out:
  assumes "quiet_console bios sio polls T" "secs * SECOND \<noteq> 0" "T (polls s) \<noteq> 0" "polls s < k"
    and "T k < T (polls s) \<or> T k \<ge> T (polls s) + secs * SECOND"
  shows "\<exists>s'. keyhit bios sio secs s = Some (False, s')"
  by (rule quiet_console.keyhit_ends [OF assms])

theorem keyhit_times_out_witness:
  "\<exists>s'. keyhit idle_bios (clock_sio (\<lambda>i. word_of_nat i + 1)) 3
     \<lparr>ioctrl = 1, cm = blank_mach 0\<rparr> = Some (False, s')"
  by (rule keyhit_times_out [OF idle.quiet_console_axioms, where k = 54]) (simp_all add: SECOND_def blank_mach_def)

end
