(* ===== verification/Gptboot.thy ===== *)
theory Gptboot
  imports Ufsread Gpt Console
begin

text \<open>
  \<^verbatim>\<open>boot/i386/gptboot/gptboot.c\<close>: the second boot stage on GPT disks.  It selects a partition with \<^verbatim>\<open>gpt.c\<close>,
  reads \<^verbatim>\<open>/boot.config\<close> and the program to start with \<^verbatim>\<open>ufsread.c\<close>, lets the user edit the choice at a prompt
  (\<^verbatim>\<open>cons.c\<close>), and starts an a.out or ELF image.

  The statics are the record \<open>gb\<close>; what the program finds around it (firmware, serial line, the layouts of
  the file system structures, the addresses at which it was linked) is the record \<open>env\<close>.  Physical memory outside
  the program is a function from addresses to bytes.  The machine is kept in the console's record and is handed to the
  partition and the file system code for each call.  Calls of \<^verbatim>\<open>printf\<close> are recorded with their arguments.
  \<^verbatim>\<open>__exec\<close> does not return: it ends the run with the arguments it is given.
\<close>

section \<open>Constants\<close>

definition NOPT :: nat where "NOPT = 14"
definition NDEV :: nat where "NDEV = 3"
definition DRV_HARD :: u32 where "DRV_HARD = 0x80"
definition DRV_MASK :: u32 where "DRV_MASK = 0x7f"
definition TYPE_AD :: u32 where "TYPE_AD = 0"
definition TYPE_MAXHARD :: u32 where "TYPE_MAXHARD = 1"
definition TYPE_FD :: u32 where "TYPE_FD = 2"
definition KNAME_SIZE :: nat where "KNAME_SIZE = 1024"
definition CMD_SIZE :: nat where "CMD_SIZE = 512"
definition PAGE_SIZE :: u32 where "PAGE_SIZE = 4096"

definition cbytes :: "string \<Rightarrow> byte list" where
  "cbytes s = map of_char s"

definition PATH_DOTCONFIG :: "byte list" where "PATH_DOTCONFIG = cbytes ''/boot.config''"
definition PATH_CONFIG :: "byte list" where "PATH_CONFIG = cbytes ''/boot/config''"
definition PATH_BOOT3 :: "byte list" where "PATH_BOOT3 = cbytes ''/boot/loader''"
definition PATH_KERNEL :: "byte list" where "PATH_KERNEL = cbytes ''/boot/kernel/kernel''"

definition RBX_DUAL :: nat where "RBX_DUAL = 0x1d"
definition RBX_SERIAL :: nat where "RBX_SERIAL = 0xc"

definition OPT_SET :: "nat \<Rightarrow> u32" where
  "OPT_SET opt = push_bit opt 1"

definition optstr :: "byte list" where
  "optstr = cbytes ''DhaCcdgmnpqrsv''"

text \<open>\<^verbatim>\<open>flags\<close>, with the numbers of \<^verbatim>\<open>rbx.h\<close>.\<close>

definition flags :: "nat list" where
  "flags = [RBX_DUAL, RBX_SERIAL, 0x0, 0xd, 0xa, 0x6, 0xf, 0x10, RBX_NOINTR, 0x14, RBX_QUIET, 0x5, 0x1, 0xb]"

definition RBX_MASK :: u32 where
  "RBX_MASK = OPT_SET 0x0 OR OPT_SET 0x1 OR OPT_SET 0x5 OR OPT_SET 0x6 OR OPT_SET 0xa OR OPT_SET 0xb OR
     OPT_SET 0xc OR OPT_SET 0xd OR OPT_SET 0xf OR OPT_SET 0x10 OR OPT_SET 0x14 OR OPT_SET 0x1d"

definition dev_nm :: "byte list list" where
  "dev_nm = [cbytes ''ad'', cbytes ''da'', cbytes ''fd'']"

definition dev_maj :: "u32 list" where
  "dev_maj = [30, 4, 2]"

section \<open>State\<close>

record bootinfo =
  bi_version :: u32
  bi_kernelname :: u32
  bi_size :: u32
  bi_memsizes_valid :: byte
  bi_bios_dev :: byte
  bi_basemem :: u32
  bi_extmem :: u32
  bi_symtab :: u32
  bi_esymtab :: u32

text \<open>\<open>uphdr\<close> is the static array \<^verbatim>\<open>ep\<close> of two program headers, \<open>dirbuf\<close> the static buffer of \<^verbatim>\<open>fsfind\<close>.\<close>

record 'd gb =
  gdsk :: dsk
  kname :: "byte list"
  comspeed :: int
  binfo :: bootinfo
  gcons :: "'d cons"
  ggpt :: "'d mach gpt"
  gufs :: "'d mach ufs"
  dirbuf :: "byte list"
  uphdr :: "byte list"
  pmem :: "u32 \<Rightarrow> byte"

record 'd env =
  e_bios :: "'d bios"
  e_sio :: "'d sio_ops"
  e_layout :: layout
  e_uuid :: "byte list"
  pa_kname :: u32
  pa_bootinfo :: u32

definition gmach :: "'d gb \<Rightarrow> 'd mach" where
  "gmach g = cm (gcons g)"

definition set_mach :: "'d mach \<Rightarrow> 'd gb \<Rightarrow> 'd gb" where
  "set_mach m g = g\<lparr>gcons := (gcons g)\<lparr>cm := m\<rparr>\<rparr>"

definition gsay :: "string \<Rightarrow> varg list \<Rightarrow> 'd gb \<Rightarrow> 'd gb" where
  "gsay fmt args g = set_mach (say fmt args (gmach g)) g"

definition set_opts :: "u32 \<Rightarrow> 'd gb \<Rightarrow> 'd gb" where
  "set_opts o' g = set_mach ((gmach g)\<lparr>opts := o'\<rparr>) g"

abbreviation gopts :: "'d gb \<Rightarrow> u32" where
  "gopts g \<equiv> opts (gmach g)"

definition set_off :: "u32 \<Rightarrow> 'd gb \<Rightarrow> 'd gb" where
  "set_off n g = g\<lparr>gufs := (gufs g)\<lparr>fs_off := unat n\<rparr>\<rparr>"

text \<open>A C string constant as an argument of \<^verbatim>\<open>printf\<close>.\<close>

definition lit :: "string \<Rightarrow> varg" where
  "lit s = Str (cbytes s @ [0])"

section \<open>The partition and its files\<close>

text \<open>\<^verbatim>\<open>dskread\<close>: the sector of the partition becomes one of the drive, modulo \<open>2 ^ 64\<close>.\<close>

definition dskread :: "'d bios \<Rightarrow> string \<Rightarrow> dsk \<Rightarrow> 'd mach disk" where
  "dskread bios bootprog g pa buf lba nblk m =
     drvread bios bootprog pa g buf (word_of_int lba + dsk_start g) (word_of_nat nblk) m"

text \<open>The calls of \<^verbatim>\<open>lookup\<close> and \<^verbatim>\<open>fsread\<close>, on the machine of the moment.\<close>

definition gb_lookup :: "'d env \<Rightarrow> byte list \<Rightarrow> 'd gb \<Rightarrow> (nat \<times> 'd gb) option" where
  "gb_lookup e path g = do {
     (ino, out, u) \<leftarrow> lookup (e_layout e) (dskread (e_bios e) ''gptboot'' (gdsk g)) path ROOTINO DT_DIR (dirbuf g) []
       ((gufs g)\<lparr>drive := gmach g\<rparr>);
     let g1 = set_mach (drive u) (g\<lparr>gufs := u\<rparr>);
     Some (ino, if out = [] then g1 else gsay ''%s'' [Str (out @ [0])] g1)
   }"

definition gb_fsread :: "'d env \<Rightarrow> nat \<Rightarrow> nat \<Rightarrow> 'd gb \<Rightarrow> (int \<times> byte list \<times> 'd gb) option" where
  "gb_fsread e ino n g = do {
     (rc, bytes, u) \<leftarrow> fsread (e_layout e) (dskread (e_bios e) ''gptboot'' (gdsk g)) ino n ((gufs g)\<lparr>drive := gmach g\<rparr>);
     Some (rc, bytes, set_mach (drive u) (g\<lparr>gufs := u\<rparr>))
   }"

text \<open>\<^verbatim>\<open>xfsread\<close>: whether it failed, and the bytes stored.\<close>

definition xfsread :: "'d env \<Rightarrow> nat \<Rightarrow> u32 \<Rightarrow> 'd gb \<Rightarrow> (bool \<times> byte list \<times> 'd gb) option" where
  "xfsread e ino n g = do {
     (rc, bytes, g1) \<leftarrow> gb_fsread e ino (unat n) g;
     Some (if word_of_int rc \<noteq> n then (True, bytes, gsay ''Invalid %s\<newline>'' [lit ''format''] g1) else (False, bytes, g1))
   }"

definition memsize :: "'d env \<Rightarrow> 'd gb \<Rightarrow> u32 \<times> 'd gb" where
  "memsize e g =
     (let m = v86int (e_bios e) ((gmach g)\<lparr>v86 := (v86 (gmach g))\<lparr>v86_addr := 0x15, v86_eax := 0x8800\<rparr>\<rparr>)
      in (v86_eax (v86 m), set_mach m g))"

definition gb_drv :: "'d env \<Rightarrow> 'd gb \<Rightarrow> 'd mach drv_ops" where
  "gb_drv e g =
     \<lparr>d_read = drvread (e_bios e) ''gptboot'' (dmadat (gufs g) + 16384),
      d_write = drvwrite (e_bios e) (dmadat (gufs g) + 16384), d_size = drvsize (e_bios e)\<rparr>"

definition gpt_in :: "'d gb \<Rightarrow> 'd mach gpt" where
  "gpt_in g = (ggpt g)\<lparr>gio := (gio (ggpt g))\<lparr>machine := gmach g\<rparr>\<rparr>"

definition gpt_out :: "dsk \<Rightarrow> 'd mach gpt \<Rightarrow> 'd gb \<Rightarrow> 'd gb" where
  "gpt_out d s g = set_mach (machine (gio s)) (g\<lparr>gdsk := d, ggpt := s\<rparr>)"

definition gb_gptfind :: "'d env \<Rightarrow> int \<Rightarrow> 'd gb \<Rightarrow> (int \<times> 'd gb) option" where
  "gb_gptfind e part g = do {
     (rc, d, s) \<leftarrow> gptfind (gb_drv e g) (e_uuid e) (gdsk g) part (gpt_in g);
     Some (rc, gpt_out d s g)
   }"

definition gptinit :: "'d env \<Rightarrow> 'd gb \<Rightarrow> (int \<times> 'd gb) option" where
  "gptinit e g = do {
     (rc, d, s) \<leftarrow> gptread (gb_drv e g) (gdsk g) (secbuf (gio (ggpt g))) (gpt_in g);
     let g1 = gpt_out d s g;
     if rc = -1 then Some (-1, gsay ''%s: unable to load GPT\<newline>'' [lit ''gptboot''] g1)
     else do {
       (rc2, g2) \<leftarrow> gb_gptfind e (dsk_part (gdsk g1)) g1;
       if rc2 = -1 then Some (-1, gsay ''%s: no UFS partition was found\<newline>'' [lit ''gptboot''] g2)
       else Some (0, g2\<lparr>gufs := (gufs g2)\<lparr>dsk_meta := False\<rparr>\<rparr>)
     }
   }"

section \<open>The command line\<close>

definition is_blank :: "byte \<Rightarrow> bool" where
  "is_blank c \<longleftrightarrow> c = 32 \<or> c = 9 \<or> c = 10"

text \<open>The end of a word and the first parenthesis, as indices into the line.\<close>

function word_end :: "byte list \<Rightarrow> nat \<Rightarrow> nat option" where
  "word_end buf p = do { c \<leftarrow> rd buf p; if c = 0 \<or> is_blank c then Some p else word_end buf (Suc p) }"
  by pat_completeness auto
termination by (relation "measure (\<lambda>(buf, p). length buf - p)") (auto simp: rd_def split: if_splits)

function find_paren :: "byte list \<Rightarrow> nat \<Rightarrow> nat option" where
  "find_paren buf q = do { c \<leftarrow> rd buf q; if c = 0 \<or> c = 40 then Some q else find_paren buf (Suc q) }"
  by pat_completeness auto
termination by (relation "measure (\<lambda>(buf, q). length buf - q)") (auto simp: rd_def split: if_splits)

text \<open>The digits after \<^verbatim>\<open>S\<close>: the number, the byte that ended it and the place after that byte.\<close>

function speed_digits :: "byte list \<Rightarrow> nat \<Rightarrow> u32 \<Rightarrow> (u32 \<times> byte \<times> nat) option" where
  "speed_digits buf a j = do {
     c \<leftarrow> rd buf a;
     if 48 \<le> c \<and> c \<le> 57 then speed_digits buf (Suc a) (j * 10 + ucast (c - 48)) else Some (j, c, Suc a)
   }"
  by pat_completeness auto
termination by (relation "measure (\<lambda>(buf, a, j). length buf - a)") (auto simp: rd_def split: if_splits)

declare word_end.simps [simp del] find_paren.simps [simp del] speed_digits.simps [simp del]

definition opt_index :: "byte \<Rightarrow> nat option" where
  "opt_index c = (let i = length (takeWhile (\<lambda>x. x \<noteq> c) optstr) in if i < NOPT then Some i else None)"

text \<open>The option letters of one word; \<^term>\<open>False\<close> is the return of -1.\<close>

function parse_opts :: "'d env \<Rightarrow> byte list \<Rightarrow> nat \<Rightarrow> 'd gb \<Rightarrow> (bool \<times> 'd gb) option" where
  "parse_opts e buf a g = do {
     c \<leftarrow> rd buf a;
     if c = 0 then Some (True, g)
     else if c = 80 then
       (if pmem g 0x496 AND 0x10 \<noteq> 0 then parse_opts e buf (Suc a) (gsay ''Keyboard: %s\<newline>'' [lit ''yes''] g)
        else parse_opts e buf (Suc a)
          (gsay ''Keyboard: %s\<newline>'' [lit ''no''] (set_opts (gopts g OR (OPT_SET RBX_DUAL OR OPT_SET RBX_SERIAL)) g)))
     else if c = 83 then do {
       (j, d, _) \<leftarrow> speed_digits buf (Suc a) 0;
       if sint j > 0 \<and> d = 0 then Some (True, g\<lparr>comspeed := sint j\<rparr>) else Some (False, g)
     }
     else case opt_index c of
       None \<Rightarrow> Some (False, g)
     | Some i \<Rightarrow> parse_opts e buf (Suc a) (set_opts (gopts g XOR OPT_SET (flags ! i)) g)
   }"
  by pat_completeness auto
termination by (relation "measure (\<lambda>(e, buf, a, g). length buf - a)") (auto simp: rd_def split: if_splits)

declare parse_opts.simps [simp del]

definition set_ioctrl :: "'d env \<Rightarrow> 'd gb \<Rightarrow> 'd gb" where
  "set_ioctrl e g =
     (let io = (if OPT_CHECK RBX_DUAL (gopts g) then IO_SERIAL OR IO_KEYBOARD
                else if OPT_CHECK RBX_SERIAL (gopts g) then IO_SERIAL else IO_KEYBOARD);
          g1 = g\<lparr>gcons := (gcons g)\<lparr>ioctrl := io\<rparr>\<rparr>
      in if has io IO_SERIAL
         then set_mach ((gmach g1)\<lparr>drives := sio_init (e_sio e) (115200 div comspeed g1) (drives (gmach g1))\<rparr>) g1
         else g1)"

text \<open>\<^verbatim>\<open>*arg - '0'\<close>, as an int and as an unsigned.\<close>

definition digit :: "byte \<Rightarrow> int" where
  "digit c = sint c - 48"

text \<open>
  The device part \<open>[drive:]type(unit p part)\<close> before a name, from \<open>a\<close> on with the parenthesis at \<open>q\<close>.  The result
  is the place after it, or \<^term>\<open>None\<close> for the return of -1, with what was assigned until then.
\<close>

definition parse_part :: "byte list \<Rightarrow> nat \<Rightarrow> nat \<Rightarrow> u32 \<Rightarrow> 'd gb \<Rightarrow> (nat option \<times> 'd gb) option" where
  "parse_part buf a q drv g =
     (if int q - int a \<noteq> 2 then Some (None, g)
     else do {
       nm \<leftarrow> slice buf a 2;
       let i = length (takeWhile (\<lambda>d. d \<noteq> nm) dev_nm);
       if i = NDEV then Some (None, g)
       else do {
         u \<leftarrow> rd buf (a + 3);
         let unit = (word_of_int (digit u) :: u32);
         let g1 = g\<lparr>gdsk := (gdsk g)\<lparr>dsk_type := word_of_nat i, dsk_unit := unit\<rparr>\<rparr>;
         p \<leftarrow> rd buf (a + 4);
         if p \<noteq> 112 \<or> unit > 9 then Some (None, g1)
         else do {
           n \<leftarrow> rd buf (a + 5);
           let g2 = g1\<lparr>gdsk := (gdsk g1)\<lparr>dsk_part := digit n\<rparr>\<rparr>;
           if digit n < 1 \<or> digit n > 9 then Some (None, g2)
           else do {
             r \<leftarrow> rd buf (a + 6);
             if r \<noteq> 41 then Some (None, g2)
             else
               let drv' = (if drv = -1 then unit else drv);
                   base = (if dsk_type (gdsk g2) \<le> TYPE_MAXHARD then DRV_HARD else 0)
               in Some (Some (a + 7), g2\<lparr>gdsk := (gdsk g2)\<lparr>dsk_drive := base + drv'\<rparr>\<rparr>)
           }
         }
       }
     })"

definition parse_dev :: "byte list \<Rightarrow> nat \<Rightarrow> nat \<Rightarrow> 'd gb \<Rightarrow> (nat option \<times> 'd gb) option" where
  "parse_dev buf a q g = do {
     c1 \<leftarrow> rd buf (a + 1);
     c0 \<leftarrow> rd buf a;
     let drv = (word_of_int (digit c0) :: u32);
     if c1 \<noteq> 58 then parse_part buf a q (-1) g
     else if drv > 9 then Some (None, g)
     else parse_part buf (a + 2) q drv g
   }"

text \<open>One word that is not an option: \<open>a\<close> is its start and \<open>ep\<close> its end; the second result is \<^verbatim>\<open>*dskupdated\<close>.\<close>

definition parse_name :: "byte list \<Rightarrow> nat \<Rightarrow> nat \<Rightarrow> bool \<Rightarrow> 'd gb \<Rightarrow> (bool \<times> bool \<times> 'd gb) option" where
  "parse_name buf a ep upd g = do {
     q \<leftarrow> find_paren buf (Suc a);
     c \<leftarrow> rd buf q;
     (r, g1) \<leftarrow> (if c \<noteq> 0 then parse_dev buf a q g else Some (Some a, g));
     let upd1 = (upd \<or> (c \<noteq> 0 \<and> r \<noteq> None));
     case r of
       None \<Rightarrow> Some (False, upd1, g1)
     | Some a1 \<Rightarrow>
         if a1 = ep then Some (True, upd1, g1)
         else if ep < a1 \<or> ep - a1 \<ge> KNAME_SIZE then Some (False, upd1, g1)
         else do {
           name \<leftarrow> slice buf a1 (Suc (ep - a1));
           k \<leftarrow> store (kname g1) 0 name;
           Some (True, upd1, g1\<lparr>kname := k\<rparr>)
         }
   }"

lemma word_end_bounds: "word_end buf p = Some r \<Longrightarrow> p \<le> r \<and> r < length buf"
proof (induction buf p rule: word_end.induct)
  case (1 buf p)
  then show ?case by (subst (asm) word_end.simps) (fastforce simp: rd_def split: if_splits)
qed

text \<open>The word from \<open>a\<close> to \<open>ep\<close>, which starts with \<open>c\<close>; the place of the next word, after a separator that is overwritten.\<close>

definition parse_word ::
  "'d env \<Rightarrow> byte \<Rightarrow> byte list \<Rightarrow> nat \<Rightarrow> nat \<Rightarrow> bool \<Rightarrow> 'd gb \<Rightarrow> (bool \<times> bool \<times> 'd gb) option" where
  "parse_word e c buf a ep upd g =
     (if c = 45 then map_option (\<lambda>(ok, g1). (ok, upd, if ok then set_ioctrl e g1 else g1)) (parse_opts e buf (Suc a) g)
      else parse_name buf a ep upd g)"

definition cut_word :: "byte list \<Rightarrow> nat \<Rightarrow> byte list \<times> nat" where
  "cut_word buf ep = (if buf ! ep \<noteq> 0 then (buf[ep := 0], Suc ep) else (buf, ep))"

text \<open>\<^verbatim>\<open>parse\<close>, from place \<open>a\<close> of the line: whether it returns 0, and \<^verbatim>\<open>*dskupdated\<close>.\<close>

function parse_line :: "'d env \<Rightarrow> byte list \<Rightarrow> nat \<Rightarrow> bool \<Rightarrow> 'd gb \<Rightarrow> (bool \<times> bool \<times> 'd gb) option" where
  "parse_line e buf a upd g =
     (case rd buf a of
        None \<Rightarrow> None
      | Some c \<Rightarrow>
          if c = 0 then Some (True, upd, g)
          else if is_blank c then parse_line e buf (Suc a) upd g
          else case word_end buf (Suc a) of
            None \<Rightarrow> None
          | Some ep \<Rightarrow>
              (case parse_word e c (fst (cut_word buf ep)) a ep upd g of
                None \<Rightarrow> None
              | Some (ok, upd1, g1) \<Rightarrow>
                  if ok then parse_line e (fst (cut_word buf ep)) (snd (cut_word buf ep)) upd1 g1 else Some (False, upd1, g1)))"
  by pat_completeness auto
termination
  by (relation "measure (\<lambda>(e, buf, a, upd, g). length buf - a)")
     (auto simp: rd_def cut_word_def split: if_splits dest!: word_end_bounds)

declare parse_line.simps [simp del]

definition parse :: "'d env \<Rightarrow> byte list \<Rightarrow> 'd gb \<Rightarrow> (bool \<times> bool \<times> 'd gb) option" where
  "parse e cmdstr g = parse_line e cmdstr 0 False g"

section \<open>Loading a program\<close>

record exec =
  ex_addr :: u32
  ex_howto :: u32
  ex_bootdev :: u32
  ex_bootinfo :: u32

definition store_mem :: "u32 \<Rightarrow> byte list \<Rightarrow> 'd gb \<Rightarrow> 'd gb" where
  "store_mem p bytes g =
     g\<lparr>pmem := (\<lambda>a. if unat (a - p) < length bytes then bytes ! unat (a - p) else pmem g a)\<rparr>"

definition mem_u32 :: "'d gb \<Rightarrow> u32 \<Rightarrow> u32" where
  "mem_u32 g p = word_of_nat (le_nat (map (\<lambda>i. pmem g (p + word_of_nat i)) [0..<4]))"

definition roundup2 :: "u32 \<Rightarrow> u32 \<Rightarrow> u32" where
  "roundup2 x y = (x + (y - 1)) AND NOT (y - 1)"

definition u16_at :: "byte list \<Rightarrow> nat \<Rightarrow> u16" where
  "u16_at m off = word_of_nat (le_nat (take 2 (drop off m)))"

text \<open>The headers, at the offsets of \<^verbatim>\<open>struct exec\<close>, \<^verbatim>\<open>Elf32_Ehdr\<close>, \<^verbatim>\<open>Elf32_Phdr\<close> and \<^verbatim>\<open>Elf32_Shdr\<close>.\<close>

definition SIZEOF_HDR :: u32 where "SIZEOF_HDR = 52"
definition SIZEOF_PHDR :: u32 where "SIZEOF_PHDR = 32"
definition SIZEOF_SHDR :: u32 where "SIZEOF_SHDR = 40"
definition ZMAGIC :: u32 where "ZMAGIC = 0x10b"
definition PT_LOAD :: u32 where "PT_LOAD = 1"
definition RB_BOOTINFO :: u32 where "RB_BOOTINFO = 0x80000000"

definition N_GETMAGIC :: "byte list \<Rightarrow> u32" where "N_GETMAGIC h = u32_at h 0 AND 0xffff"
definition IS_ELF :: "byte list \<Rightarrow> bool" where "IS_ELF h \<longleftrightarrow> take 4 h = [0x7f, 0x45, 0x4c, 0x46]"

definition MAKEBOOTDEV :: "u32 \<Rightarrow> u32 \<Rightarrow> u32 \<Rightarrow> u32 \<Rightarrow> u32" where
  "MAKEBOOTDEV ty sl unit part =
     ty OR push_bit 20 sl OR push_bit 16 unit OR push_bit 8 part OR 0xa0000000"

text \<open>\<^verbatim>\<open>xfsread\<close> into memory: whether it failed.\<close>

definition read_to :: "'d env \<Rightarrow> nat \<Rightarrow> u32 \<Rightarrow> u32 \<Rightarrow> 'd gb \<Rightarrow> (bool \<times> 'd gb) option" where
  "read_to e ino p n g = do {
     (bad, bytes, g1) \<leftarrow> xfsread e ino n g;
     Some (bad, store_mem p bytes g1)
   }"

text \<open>The a.out branch: the place after the image, or \<^term>\<open>None\<close> for the early returns.\<close>

definition load_syms :: "'d env \<Rightarrow> nat \<Rightarrow> u32 \<Rightarrow> u32 \<Rightarrow> 'd gb \<Rightarrow> (u32 option \<times> 'd gb) option" where
  "load_syms e ino p syms g = do {
     (bad1, g1) \<leftarrow> read_to e ino p syms g;
     if bad1 then Some (None, g1)
     else do {
       let p1 = p + syms;
       (bad2, g2) \<leftarrow> read_to e ino p1 4 g1;
       if bad2 then Some (None, g2)
       else do {
         let x = mem_u32 g2 p1 - 4;
         (bad3, g3) \<leftarrow> read_to e ino (p1 + 4) x g2;
         Some (if bad3 then None else Some (p1 + 4 + x), g3)
       }
     }
   }"

definition load_aout :: "'d env \<Rightarrow> nat \<Rightarrow> byte list \<Rightarrow> 'd gb \<Rightarrow> (u32 option \<times> 'd gb) option" where
  "load_aout e ino h g = do {
     let text = u32_at h 4;
     let data = u32_at h 8;
     let bss = u32_at h 12;
     let syms = u32_at h 16;
     let p = u32_at h 20 AND 0xffffff;
     (bad1, g1) \<leftarrow> read_to e ino p text (set_off PAGE_SIZE g);
     if bad1 then Some (None, g1)
     else do {
       let p1 = p + roundup2 text PAGE_SIZE;
       (bad2, g2) \<leftarrow> read_to e ino p1 data g1;
       if bad2 then Some (None, g2)
       else do {
         let p2 = p1 + (data + roundup2 bss PAGE_SIZE);
         let g3 = store_mem p2 (le_bytes 4 (unat syms)) (g2\<lparr>binfo := (binfo g2)\<lparr>bi_symtab := p2\<rparr>\<rparr>);
         if syms \<noteq> 0 then load_syms e ino (p2 + 4) syms g3 else Some (Some (p2 + 4), g3)
       }
     }
   }"

text \<open>
  The ELF branch.  The program headers are read into \<^verbatim>\<open>ep[j]\<close>, and \<open>j\<close> is advanced past those of type
  \<^verbatim>\<open>PT_LOAD\<close>; \<open>k\<close> headers of the table are left.
\<close>

fun read_phdrs :: "'d env \<Rightarrow> nat \<Rightarrow> nat \<Rightarrow> nat \<Rightarrow> 'd gb \<Rightarrow> (bool \<times> 'd gb) option" where
  "read_phdrs e ino 0 j g = Some (True, g)"
| "read_phdrs e ino (Suc k) j g =
     (if j < 2 then do {
        (bad, bytes, g1) \<leftarrow> xfsread e ino SIZEOF_PHDR g;
        ep \<leftarrow> store (uphdr g1) (32 * j) bytes;
        let g2 = g1\<lparr>uphdr := ep\<rparr>;
        if bad then Some (False, g2)
        else read_phdrs e ino k (if u32_at ep (32 * j) = PT_LOAD then Suc j else j) g2
      } else Some (True, g))"

definition seg_paddr :: "byte list \<Rightarrow> nat \<Rightarrow> u32" where
  "seg_paddr ep i = u32_at ep (32 * i + 12) AND 0xffffff"

definition load_seg :: "'d env \<Rightarrow> nat \<Rightarrow> nat \<Rightarrow> 'd gb \<Rightarrow> (bool \<times> 'd gb) option" where
  "load_seg e ino i g =
     (let ep = uphdr g
      in read_to e ino (seg_paddr ep i) (u32_at ep (32 * i + 16)) (set_off (u32_at ep (32 * i + 4)) g))"

definition load_sect :: "'d env \<Rightarrow> nat \<Rightarrow> byte list \<Rightarrow> nat \<Rightarrow> u32 \<Rightarrow> 'd gb \<Rightarrow> (u32 option \<times> 'd gb) option" where
  "load_sect e ino es i p g = do {
     let n = u32_at es (40 * i + 20);
     let g1 = set_off (u32_at es (40 * i + 16)) (store_mem p (le_bytes 4 (unat n)) g);
     (bad, g2) \<leftarrow> read_to e ino (p + 4) n g1;
     Some (if bad then None else Some (p + 4 + n), g2)
   }"

definition load_symtab :: "'d env \<Rightarrow> nat \<Rightarrow> byte list \<Rightarrow> u32 \<Rightarrow> 'd gb \<Rightarrow> (u32 option \<times> 'd gb) option" where
  "load_symtab e ino h p g =
     (if uint (u16_at h 48) = uint (u16_at h 50) + 3 then do {
        (bad, es, g1) \<leftarrow> xfsread e ino (2 * SIZEOF_SHDR)
          (set_off (u32_at h 32 + SIZEOF_SHDR * (ucast (u16_at h 50) + 1)) g);
        if bad then Some (None, g1)
        else do {
          (r, g2) \<leftarrow> load_sect e ino es 0 p g1;
          case r of None \<Rightarrow> Some (None, g2) | Some p1 \<Rightarrow> load_sect e ino es 1 p1 g2
        }
      } else Some (Some p, g))"

definition load_elf :: "'d env \<Rightarrow> nat \<Rightarrow> byte list \<Rightarrow> 'd gb \<Rightarrow> (u32 option \<times> 'd gb) option" where
  "load_elf e ino h g = do {
     (ok, g1) \<leftarrow> read_phdrs e ino (unat (u16_at h 44)) 0 (set_off (u32_at h 28) g);
     if \<not> ok then Some (None, g1)
     else do {
       (bad0, g2) \<leftarrow> load_seg e ino 0 g1;
       if bad0 then Some (None, g2)
       else do {
         (bad1, g3) \<leftarrow> load_seg e ino 1 g2;
         if bad1 then Some (None, g3)
         else
           let p = seg_paddr (uphdr g3) 1 + roundup2 (u32_at (uphdr g3) (32 * 1 + 20)) PAGE_SIZE
           in load_symtab e ino h p (g3\<lparr>binfo := (binfo g3)\<lparr>bi_symtab := p\<rparr>\<rparr>)
       }
     }
   }"

definition boot_exec :: "'d env \<Rightarrow> u32 \<Rightarrow> u32 \<Rightarrow> 'd gb \<Rightarrow> (exec option \<times> 'd gb) option" where
  "boot_exec e addr p g = do {
     maj \<leftarrow> rd dev_maj (unat (dsk_type (gdsk g)));
     Some (Some \<lparr>ex_addr = addr, ex_howto = RB_BOOTINFO OR (gopts g AND RBX_MASK),
                 ex_bootdev = MAKEBOOTDEV maj (word_of_int (dsk_part (gdsk g)) + 1) (dsk_unit (gdsk g)) 0xff,
                 ex_bootinfo = pa_bootinfo e\<rparr>,
           g\<lparr>binfo := (binfo g)\<lparr>bi_esymtab := p, bi_kernelname := pa_kname e, bi_bios_dev := ucast (dsk_drive (gdsk g))\<rparr>\<rparr>)
   }"

definition cur_kname :: "'d gb \<Rightarrow> byte list option" where
  "cur_kname g = cstr (kname g) 0"

text \<open>\<^verbatim>\<open>load\<close>: the call of \<^verbatim>\<open>__exec\<close>, or \<^term>\<open>None\<close> when it returns.\<close>

definition load :: "'d env \<Rightarrow> 'd gb \<Rightarrow> (exec option \<times> 'd gb) option" where
  "load e g = do {
     nm \<leftarrow> cur_kname g;
     (ino, g1) \<leftarrow> gb_lookup e nm g;
     if ino = 0 then do {
       dn \<leftarrow> rd dev_nm (unat (dsk_type (gdsk g1)));
       Some (None, if ls (gufs g1) then g1
         else gsay ''%s: No %s on %u:%s(%up%u)\<newline>''
           [lit ''gptboot'', Str (nm @ [0]), Uint (dsk_drive (gdsk g1) AND DRV_MASK), Str (dn @ [0]), Uint (dsk_unit (gdsk g1)),
            Uint (word_of_int (dsk_part (gdsk g1)))] g1)
     }
     else do {
       (bad, h, g2) \<leftarrow> xfsread e ino SIZEOF_HDR g1;
       if bad then Some (None, g2)
       else if N_GETMAGIC h = ZMAGIC then do {
         (r, g3) \<leftarrow> load_aout e ino h g2;
         case r of None \<Rightarrow> Some (None, g3) | Some p \<Rightarrow> boot_exec e (u32_at h 20 AND 0xffffff) p g3
       }
       else if IS_ELF h then do {
         (r, g3) \<leftarrow> load_elf e ino h g2;
         case r of None \<Rightarrow> Some (None, g3) | Some p \<Rightarrow> boot_exec e (u32_at h 24 AND 0xffffff) p g3
       }
       else Some (None, gsay ''Invalid %s\<newline>'' [lit ''format''] g2)
     }
   }"

section \<open>The main program\<close>

definition set_kname :: "byte list \<Rightarrow> 'd gb \<Rightarrow> 'd gb option" where
  "set_kname path g = map_option (\<lambda>k. g\<lparr>kname := k\<rparr>) (store (kname g) 0 (path @ [0]))"

definition load_path :: "'d env \<Rightarrow> byte list \<Rightarrow> 'd gb \<Rightarrow> (exec option \<times> 'd gb) option" where
  "load_path e path g = do { g1 \<leftarrow> set_kname path g; load e g1 }"

text \<open>The configuration file, read into \<^verbatim>\<open>cmd\<close>.\<close>

definition read_config :: "'d env \<Rightarrow> byte list \<Rightarrow> 'd gb \<Rightarrow> (byte list \<times> 'd gb) option" where
  "read_config e cmd g = do {
     (i1, g1) \<leftarrow> gb_lookup e PATH_CONFIG g;
     (ino, g2) \<leftarrow> (if i1 \<noteq> 0 then Some (i1, g1) else gb_lookup e PATH_DOTCONFIG g1);
     if ino = 0 then Some (cmd, g2)
     else do {
       (rc, bytes, g3) \<leftarrow> gb_fsread e ino CMD_SIZE g2;
       cmd' \<leftarrow> store cmd 0 bytes;
       Some (cmd', g3)
     }
   }"

text \<open>The commands of the configuration file: \<^term>\<open>False\<close> leaves the loop.\<close>

definition run_config :: "'d env \<Rightarrow> byte list \<Rightarrow> 'd gb \<Rightarrow> (bool \<times> byte list \<times> 'd gb) option" where
  "run_config e cmd g = do {
     c \<leftarrow> rd cmd 0;
     if c = 0 then Some (True, cmd, g)
     else do {
       (ok, upd, g1) \<leftarrow> parse e cmd g;
       if \<not> ok then Some (False, cmd, g1)
       else do {
         (rc, g2) \<leftarrow> (if upd then gptinit e g1 else Some (0, g1));
         if rc \<noteq> 0 then Some (False, cmd, g2)
         else Some (True, cmd[0 := 0],
           if OPT_CHECK RBX_QUIET (gopts g2) then g2 else gsay ''%s: %s'' [Str (PATH_CONFIG @ [0]), Str cmd] g2)
       }
     }
   }"

text \<open>The three attempts of a round: the name from the configuration, the loader, the kernel.\<close>

definition try_boot :: "'d env \<Rightarrow> 'd gb \<Rightarrow> (exec option \<times> 'd gb) option" where
  "try_boot e g = do {
     k \<leftarrow> rd (kname g) 0;
     (x0, g0) \<leftarrow> (if k \<noteq> 0 then load e g else Some (None, g));
     case x0 of Some x \<Rightarrow> Some (Some x, g0)
     | None \<Rightarrow> do {
         (x1, g1) \<leftarrow> load_path e PATH_BOOT3 g0;
         case x1 of Some x \<Rightarrow> Some (Some x, g1)
         | None \<Rightarrow> load_path e PATH_KERNEL g1
       }
   }"

definition press :: "'d env \<Rightarrow> u32 \<Rightarrow> 'd gb \<Rightarrow> (bool \<times> 'd gb) option" where
  "press e secs g = map_option (\<lambda>(k, c). (k, g\<lparr>gcons := c\<rparr>)) (keyhit (e_bios e) (e_sio e) secs (gcons g))"

text \<open>
  One round of the first loop, on \<^verbatim>\<open>autoboot\<close>, \<^verbatim>\<open>cmd\<close> and the statics: \<^term>\<open>Inl\<close> leaves the loop, with the
  program started or for the prompt.
\<close>

definition auto_round ::
  "'d env \<Rightarrow> bool \<times> byte list \<times> 'd gb \<Rightarrow> ((exec option \<times> byte list \<times> 'd gb) + (bool \<times> byte list \<times> 'd gb)) option" where
  "auto_round e = (\<lambda>(autoboot, cmd0, g0). do {
     k0 \<leftarrow> wr (kname g0) 0 0;
     (cmd1, g1) \<leftarrow> read_config e cmd0 (g0\<lparr>kname := k0\<rparr>);
     (go, cmd2, g2) \<leftarrow> run_config e cmd1 g1;
     if \<not> go then Some (Inl (None, cmd2, g2))
     else do {
       (hit, g3) \<leftarrow> (if autoboot then press e 3 g2 else Some (False, g2));
       if hit then do {
         k \<leftarrow> rd (kname g3) 0;
         g4 \<leftarrow> (if k = 0 then set_kname PATH_BOOT3 g3 else Some g3);
         Some (Inl (None, cmd2, g4))
       }
       else do {
         (x, g4) \<leftarrow> try_boot e g3;
         case x of Some y \<Rightarrow> Some (Inl (Some y, cmd2, g4))
         | None \<Rightarrow> do {
             s \<leftarrow> gptbootfailed (gb_drv e g4) (gdsk g4) (gpt_in g4);
             (rc, g5) \<leftarrow> gb_gptfind e (-1) (gpt_out (gdsk g4) s g4);
             if rc = -1 then Some (Inl (None, cmd2, g5))
             else Some (Inr (False, cmd2, g5\<lparr>gufs := (gufs g5)\<lparr>dsk_meta := False\<rparr>\<rparr>))
           }
       }
     }
   })"

partial_function (option) auto_loop ::
  "'d env \<Rightarrow> bool \<times> byte list \<times> 'd gb \<Rightarrow> (exec option \<times> byte list \<times> 'd gb) option" where
  "auto_loop e a = do { r \<leftarrow> auto_round e a; case r of Inl x \<Rightarrow> Some x | Inr a' \<Rightarrow> auto_loop e a' }"

text \<open>One round of the prompt.\<close>

definition prompt_line :: "'d env \<Rightarrow> byte list \<Rightarrow> 'd gb \<Rightarrow> (byte list \<times> 'd gb) option" where
  "prompt_line e cmd0 g = do {
     dn \<leftarrow> rd dev_nm (unat (dsk_type (gdsk g)));
     let quiet = OPT_CHECK RBX_QUIET (gopts g);
     let g1 = (if quiet then g
       else gsay ''\<newline>FreeBSD/x86 boot\<newline>Default: %u:%s(%up%u)%s\<newline>boot: ''
         [Uint (dsk_drive (gdsk g) AND DRV_MASK), Str (dn @ [0]), Uint (dsk_unit (gdsk g)),
          Uint (word_of_int (dsk_part (gdsk g))), Str (kname g)] g);
     let g2 = (if has (ioctrl (gcons g1)) IO_SERIAL
       then set_mach ((gmach g1)\<lparr>drives := sio_flush (e_sio e) (drives (gmach g1))\<rparr>) g1 else g1);
     cmd \<leftarrow> wr cmd0 0 0;
     (hit, g3) \<leftarrow> press e 0 g2;
     if hit then do {
       (cmd1, c) \<leftarrow> getstr (e_bios e) (e_sio e) cmd CMD_SIZE (gcons g3);
       Some (cmd1, g3\<lparr>gcons := c\<rparr>)
     }
     else Some (cmd, if quiet then g3 else g3\<lparr>gcons := putchar (e_bios e) (e_sio e) 10 (gcons g3)\<rparr>)
   }"

definition prompt_round ::
  "'d env \<Rightarrow> byte list \<times> 'd gb \<Rightarrow> ((exec \<times> 'd gb) + (byte list \<times> 'd gb)) option" where
  "prompt_round e = (\<lambda>(cmd0, g0). do {
     (cmd, g) \<leftarrow> prompt_line e cmd0 g0;
     (ok, upd, g1) \<leftarrow> parse e cmd g;
     if \<not> ok then Some (Inr (cmd, g1\<lparr>gcons := putchar (e_bios e) (e_sio e) 7 (gcons g1)\<rparr>))
     else do {
       (rc, g2) \<leftarrow> (if upd then gptinit e g1 else Some (0, g1));
       if rc \<noteq> 0 then Some (Inr (cmd, g2))
       else do {
         (x, g3) \<leftarrow> load e g2;
         Some (case x of Some y \<Rightarrow> Inl (y, g3) | None \<Rightarrow> Inr (cmd, g3))
       }
     }
   })"

partial_function (option) prompt_loop :: "'d env \<Rightarrow> byte list \<times> 'd gb \<Rightarrow> (exec \<times> 'd gb) option" where
  "prompt_loop e a = do { r \<leftarrow> prompt_round e a; case r of Inl x \<Rightarrow> Some x | Inr a' \<Rightarrow> prompt_loop e a' }"

text \<open>
  \<^verbatim>\<open>main\<close>, with the address \<open>dma\<close> that it computes for \<^verbatim>\<open>dmadat\<close> and the contents \<open>cmd\<close> of its stack buffer.
  The result is the started program, or \<^term>\<open>None\<close> for the return of -1.
\<close>

definition main_init :: "'d env \<Rightarrow> u32 \<Rightarrow> 'd gb \<Rightarrow> 'd gb" where
  "main_init e dma g0 =
     (let g = g0\<lparr>gufs := (gufs g0)\<lparr>dmadat := dma\<rparr>\<rparr>;
          m = (gmach g)\<lparr>v86 := (v86 (gmach g))\<lparr>v86_ctl := V86_FLAGS, v86_efl := 0x202\<rparr>\<rparr>;
          drv = ucast (pmem g 0x900);
          d = (gdsk g)\<lparr>dsk_drive := drv, dsk_type := (if drv AND DRV_HARD \<noteq> 0 then TYPE_AD else TYPE_FD),
                dsk_unit := drv AND DRV_MASK, dsk_part := -1, dsk_start := 0\<rparr>;
          (ext, g1) = memsize e (set_mach m (g\<lparr>gdsk := d\<rparr>))
      in g1\<lparr>binfo := (binfo g1)\<lparr>bi_version := 1, bi_size := 84, bi_basemem := 0, bi_extmem := ext,
           bi_memsizes_valid := bi_memsizes_valid (binfo g1) + 1\<rparr>\<rparr>)"

definition main_prog :: "'d env \<Rightarrow> u32 \<Rightarrow> byte list \<Rightarrow> 'd gb \<Rightarrow> (exec option \<times> 'd gb) option" where
  "main_prog e dma cmd g0 = do {
     (rc, g1) \<leftarrow> gptinit e (main_init e dma g0);
     if rc \<noteq> 0 then Some (None, g1)
     else do {
       cmd0 \<leftarrow> wr cmd 0 0;
       (x, cmd1, g2) \<leftarrow> auto_loop e (True, cmd0, g1);
       case x of
         Some y \<Rightarrow> Some (Some y, g2)
       | None \<Rightarrow> map_option (\<lambda>(y, g3). (Some y, g3)) (prompt_loop e (cmd1, g2))
     }
   }"

end
