(* ===== verification/UfsFacts.thy ===== *)
theory UfsFacts
  imports Ufsread
begin

text \<open>
  \<^verbatim>\<open>fsread\<close> delivers the file: on a consistent file system without holes, through any state of its
  caches, the bytes it returns are those of the blocks that the inode and its indirect block name.
\<close>

section \<open>Geometry\<close>

text \<open>A superblock as \<^verbatim>\<open>newfs\<close> writes it: block and fragment sizes are powers of two.\<close>

definition wf_fs :: "fs \<Rightarrow> nat \<Rightarrow> nat \<Rightarrow> bool" where
  "wf_fs f b k \<longleftrightarrow> 12 \<le> b \<and> b \<le> 16 \<and> 9 \<le> k \<and> k \<le> b \<and> fs_bshift f = b \<and> fs_bsize f = 2 ^ b \<and>
     fs_qbmask f = 2 ^ b - 1 \<and> fs_qfmask f = 2 ^ k - 1 \<and> fs_fmask f = - (2 ^ k) \<and>
     fs_nindir f = 2 ^ b div (if ufs1 f then 4 else 8)"

lemma blkoff_mod: "wf_fs f b k \<Longrightarrow> blkoff f loc = loc mod 2 ^ b"
  by (simp add: wf_fs_def blkoff_def flip: mask_eq_exp_minus_1 take_bit_eq_mask)
     (simp add: take_bit_eq_mod nat_mod_distrib nat_power_eq)

lemma lblkno_div: "wf_fs f b k \<Longrightarrow> lblkno f loc = loc div 2 ^ b"
  by (simp add: wf_fs_def lblkno_def drop_bit_eq_div)

lemma and_neg_power: "a AND - (2 ^ k) = a - a mod 2 ^ k" for a :: int
proof -
  have "a - take_bit k a = a AND NOT (take_bit k a)"
    by (rule disjunctive_diff_eq_and_not) (simp add: bit_eq_iff bit_simps)
  also have "\<dots> = a AND NOT (mask k)" by (rule bit_eqI) (auto simp: bit_simps)
  finally show ?thesis by (simp add: take_bit_eq_mod minus_exp_eq_not_mask)
qed

lemma roundup:
  fixes x k :: nat
  shows "(int x + (2 ^ k - 1)) AND - (2 ^ k) = int ((x + 2 ^ k - 1) div 2 ^ k * 2 ^ k)"
proof -
  have "int x + (2 ^ k - 1) = int (x + 2 ^ k - 1)" by (simp add: of_nat_diff Suc_leI trans_le_add2)
  then show ?thesis unfolding and_neg_power
    by (simp only: minus_mod_eq_div_mult of_nat_mult of_nat_div of_nat_power of_nat_numeral)
qed

text \<open>The bytes of a logical block that belong to the file, rounded up to fragments.\<close>

definition blk_len :: "nat \<Rightarrow> nat \<Rightarrow> nat \<Rightarrow> nat \<Rightarrow> nat" where
  "blk_len b k sz lbn =
     (if lbn \<ge> NDADDR \<or> sz \<ge> (lbn + 1) * 2 ^ b then 2 ^ b else (sz mod 2 ^ b + 2 ^ k - 1) div 2 ^ k * 2 ^ k)"

lemma sblksize_len: "wf_fs f b k \<Longrightarrow> sblksize f sz lbn = int (blk_len b k sz lbn)"
  by (simp add: sblksize_def blk_len_def blkoff_mod)
     (simp add: wf_fs_def roundup push_bit_eq_mult of_nat_diff)

lemma blk_len_props:
  assumes "9 \<le> k" "k \<le> b" "p < sz"
  shows "p mod 2 ^ b < blk_len b k sz (p div 2 ^ b)" "blk_len b k sz (p div 2 ^ b) \<le> 2 ^ b"
    "blk_len b k sz (p div 2 ^ b) mod 512 = 0"
proof -
  let ?l = "blk_len b k sz (p div 2 ^ b)" and ?x = "sz mod 2 ^ b"
  have k512: "(2 :: nat) ^ k = 512 * 2 ^ (k - 9)" using power_add [of "2 :: nat" 9 "k - 9"] assms(1) by simp
  have bk: "(2 :: nat) ^ b = 2 ^ k * 2 ^ (b - k)" using power_add [of "2 :: nat" k "b - k"] assms(2) by simp
  have pm: "p mod 2 ^ b < 2 ^ b" by simp
  show "?l mod 512 = 0" unfolding blk_len_def bk k512 by (simp add: mult.assoc mult.left_commute [of _ 512])
  have "p mod 2 ^ b < ?l \<and> ?l \<le> 2 ^ b"
  proof (cases "p div 2 ^ b \<ge> NDADDR \<or> sz \<ge> (p div 2 ^ b + 1) * 2 ^ b")
    case False
    then have "sz < (p div 2 ^ b + 1) * 2 ^ b" by simp
    then have "sz div 2 ^ b \<le> p div 2 ^ b" by (simp add: less_mult_imp_div_less flip: less_Suc_eq_le)
    moreover have "p div 2 ^ b \<le> sz div 2 ^ b" using assms(3) by (intro div_le_mono) simp
    ultimately have "p div 2 ^ b = sz div 2 ^ b" by simp
    then have lt: "p mod 2 ^ b < ?x" using assms(3)
      by (metis add_less_cancel_left div_mult_mod_eq)
    have l: "?l = (?x + 2 ^ k - 1) div 2 ^ k * 2 ^ k" using False by (simp add: blk_len_def)
    have up: "x \<le> (x + 2 ^ k - 1) div 2 ^ k * 2 ^ k" for x :: nat
    proof -
      have "0 < (2 :: nat) ^ k" "(x + 2 ^ k - 1) mod 2 ^ k < 2 ^ k" by simp_all
      with div_mult_mod_eq [of "x + 2 ^ k - 1" "2 ^ k"] show ?thesis by linarith
    qed
    have 1: "p mod 2 ^ b < ?l" using lt up [of ?x] unfolding l by simp
    have "?x < 2 ^ b" "(2 :: nat) ^ k * (2 ^ (b - k) + 1) = 2 ^ b + 2 ^ k" unfolding bk by (simp_all add: distrib_left)
    then have "?x + 2 ^ k - 1 < 2 ^ k * (2 ^ (b - k) + 1)" by linarith
    then have "(?x + 2 ^ k - 1) div 2 ^ k < 2 ^ (b - k) + 1" by (simp add: less_mult_imp_div_less mult.commute)
    then have "(?x + 2 ^ k - 1) div 2 ^ k * 2 ^ k \<le> 2 ^ (b - k) * 2 ^ k" by (intro mult_right_mono) simp_all
    then have "?l \<le> 2 ^ b" using l bk by (simp add: mult.commute)
    with 1 show ?thesis by simp
  qed (auto simp: blk_len_def)
  then show "p mod 2 ^ b < ?l" "?l \<le> 2 ^ b" by simp_all
qed

lemma vblk_len_eq:
  assumes "wf_fs f b k" "p < sz"
  defines "off \<equiv> p mod 2 ^ b" and "l \<equiv> blk_len b k sz (p div 2 ^ b)"
  shows "vblk_len f sz (p div 2 ^ b) off = min 4096 (l - (off - off mod 4096))"
    "off mod 4096 < vblk_len f sz (p div 2 ^ b) off" "vblk_len f sz (p div 2 ^ b) off mod 512 = 0"
    "vblk_len f sz (p div 2 ^ b) off \<le> 4096" "off - off mod 4096 + vblk_len f sz (p div 2 ^ b) off \<le> 2 ^ b"
proof -
  have kb: "9 \<le> k" "k \<le> b" "b \<le> 16" using assms(1) by (auto simp: wf_fs_def)
  note l = blk_len_props [OF kb(1,2) assms(2), folded off_def l_def]
  let ?v = "off - off mod 4096"
  have v: "?v \<le> off" by simp
  have b16: "(2 :: nat) ^ b \<le> 2 ^ 16" using kb(3) by (intro power_increasing) auto
  have "sblksize f sz (p div 2 ^ b) - int ?v = int (l - ?v)"
    using sblksize_len [OF assms(1)] l(1) v by (simp add: l_def of_nat_diff)
  moreover have "int (l - ?v) mod 2 ^ 32 = int (l - ?v)" using l(2) b16 by (intro mod_pos_pos_trivial) auto
  ultimately show n: "vblk_len f sz (p div 2 ^ b) off = min 4096 (l - ?v)"
    by (auto simp: vblk_len_def VBLKSIZE_def Let_def min_def)
  have "?v = off div 4096 * 4096" by (rule minus_mod_eq_div_mult)
  moreover have "(512 :: nat) dvd 4096" by (rule dvdI [of _ _ 8]) simp
  ultimately have "512 dvd ?v" by (simp only: dvd_mult)
  moreover have "512 dvd l" using l(3) by (simp only: mod_eq_0_iff_dvd)
  ultimately have "512 dvd l - ?v" by (rule dvd_diff_nat [rotated])
  then have "(l - ?v) mod 512 = 0" by (simp only: mod_eq_0_iff_dvd)
  then show "vblk_len f sz (p div 2 ^ b) off mod 512 = 0" unfolding n by (auto simp: min_def)
  have "r < l - (off' - r)" "off' - r + (l - (off' - r)) = l" if "r \<le> off'" "off' < l" for r off' :: nat
    using that by linarith+
  note arith = this [of "off mod 4096" off, OF mod_less_eq_dividend l(1)]
  show "off mod 4096 < vblk_len f sz (p div 2 ^ b) off" unfolding n using arith(1) by simp
  show "vblk_len f sz (p div 2 ^ b) off \<le> 4096" unfolding n by simp
  have "?v + min 4096 (l - ?v) \<le> ?v + (l - ?v)" by simp
  then show "?v + vblk_len f sz (p div 2 ^ b) off \<le> 2 ^ b" unfolding n using arith(2) l(2) by simp
qed

definition ent_size :: "fs \<Rightarrow> nat" where
  "ent_size f = (if ufs1 f then 4 else 8)"

text \<open>The inode area: an inode is 128 bytes in UFS1 and 256 in UFS2, and groups hold whole blocks of them.\<close>

definition ino_size :: "fs \<Rightarrow> nat" where
  "ino_size f = (if ufs1 f then 128 else 256)"

definition wf_ino :: "fs \<Rightarrow> nat \<Rightarrow> bool" where
  "wf_ino f b \<longleftrightarrow> 0 < fs_ipg f \<and> fs_inopb f = 2 ^ b div ino_size f \<and> fs_ipg f mod fs_inopb f = 0"

definition ino_addr :: "fs \<Rightarrow> nat \<Rightarrow> int" where
  "ino_addr f x = 512 * fsbtodb f (cgimin f (x div fs_ipg f)) + int (x mod fs_ipg f * ino_size f)"

lemma vblks_per_block:
  assumes "wf_fs f b k"
  shows "nat (drop_bit VBLKSHIFT (fs_bsize f)) = 2 ^ (b - 12)" "(2 :: nat) ^ b = 4096 * 2 ^ (b - 12)"
proof -
  have b: "12 \<le> b" "fs_bsize f = 2 ^ b" using assms by (auto simp: wf_fs_def)
  show "(2 :: nat) ^ b = 4096 * 2 ^ (b - 12)" using power_add [of "2 :: nat" 12 "b - 12"] b(1) by simp
  have "(2 :: int) ^ b = 4096 * 2 ^ (b - 12)" using power_add [of "2 :: int" 12 "b - 12"] b(1) by simp
  then show "nat (drop_bit VBLKSHIFT (fs_bsize f)) = 2 ^ (b - 12)"
    by (simp add: b(2) VBLKSHIFT_def drop_bit_eq_div nat_power_eq)
qed

lemma per_vblk:
  assumes "wf_fs f b k"
  shows "(2 :: nat) ^ b div e div 2 ^ (b - 12) = 4096 div e"
  unfolding vblks_per_block(2) [OF assms] by (simp add: div_mult2_eq [symmetric] mult.commute)

lemma indirpervblk:
  assumes "wf_fs f b k"
  shows "INDIRPERVBLK f = Some (4096 div ent_size f)"
proof -
  have "fs_nindir f = 2 ^ b div ent_size f" using assms by (auto simp: wf_fs_def ent_size_def)
  then show ?thesis by (simp add: INDIRPERVBLK_def vblks_per_block(1) [OF assms] per_vblk [OF assms])
qed

lemma ipervblk:
  assumes "wf_fs f b k" "wf_ino f b"
  shows "IPERVBLK f = Some (4096 div ino_size f)"
  using assms(2) by (simp add: IPERVBLK_def wf_ino_def vblks_per_block(1) [OF assms(1)] per_vblk [OF assms(1)])

text \<open>The macros \<open>INO_TO_VBA\<close> and \<open>INO_TO_VBO\<close> compute the place of the inode.\<close>

lemma ino_to_vblk:
  assumes "wf_fs f b k" "wf_ino f b"
  defines "n \<equiv> 4096 div ino_size f"
  shows "\<exists>vba. INO_TO_VBA f n x = Some vba \<and> 512 * vba + int (INO_TO_VBO n x * ino_size f) = ino_addr f x"
    "INO_TO_VBO n x * ino_size f + ino_size f \<le> 4096"
proof -
  let ?z = "ino_size f" and ?y = "x mod fs_ipg f"
  have n: "0 < n" "n * ?z = 4096" by (auto simp: n_def ino_size_def)
  have "fs_inopb f = n * 2 ^ (b - 12)"
  proof -
    have "fs_inopb f = 4096 * 2 ^ (b - 12) div ?z" using assms(2) vblks_per_block(2) [OF assms(1)] by (simp add: wf_ino_def)
    also have "\<dots> = ?z * (n * 2 ^ (b - 12)) div ?z" unfolding n(2) [symmetric] by (simp only: mult.assoc mult.left_commute)
    finally show ?thesis by (simp add: ino_size_def)
  qed
  then have "n dvd fs_ipg f" using assms(2) unfolding wf_ino_def
    by (metis dvd_mult_left dvd_eq_mod_eq_0)
  then have m: "?y mod n = x mod n" by (rule mod_mod_cancel)
  have "?y * ?z = (?y div n * n + ?y mod n) * ?z" by simp
  also have "\<dots> = ?y div n * (n * ?z) + ?y mod n * ?z" by (simp only: distrib_right mult.assoc)
  finally have "?y * ?z = 4096 * (?y div n) + x mod n * ?z" unfolding n(2) m by simp
  moreover have "0 < fs_ipg f" using assms(2) by (simp add: wf_ino_def)
  ultimately show "\<exists>vba. INO_TO_VBA f n x = Some vba \<and> 512 * vba + int (INO_TO_VBO n x * ?z) = ino_addr f x"
    using n(1) by (simp add: INO_TO_VBA_def INO_TO_VBO_def ino_addr_def DBPERVBLK_def distrib_left)
  have "Suc (x mod n) * ?z \<le> n * ?z" using n(1) by (intro mult_right_mono) (simp_all add: Suc_leI)
  then show "INO_TO_VBO n x * ?z + ?z \<le> 4096" using n(2) by (simp add: INO_TO_VBO_def)
qed

lemma and_minus_1: "n = 2 ^ e \<Longrightarrow> x AND (n - 1) = x mod n" for x n :: nat
proof -
  assume "n = 2 ^ e"
  then have "n - 1 = mask e" by (simp add: mask_eq_exp_minus_1)
  then show ?thesis using \<open>n = 2 ^ e\<close> by (simp add: take_bit_eq_mod flip: take_bit_eq_mask)
qed

lemma ssize_small: "n < 2 ^ 31 \<Longrightarrow> ssize n = int n"
  by (simp add: ssize_def signed_of_nat signed_take_bit_int_eq_self)

lemma sub32_le: "b \<le> a \<Longrightarrow> a < 2 ^ 32 \<Longrightarrow> sub32 a b = a - b"
proof -
  assume ab: "b \<le> a" "a < 2 ^ 32"
  then have "a + (2 ^ 32 - b mod 2 ^ 32) = (a - b) + 2 ^ 32" by simp
  then have "sub32 a b = ((a - b) + 2 ^ 32) mod 2 ^ 32" by (simp only: sub32_def)
  then show ?thesis using ab by (simp only: mod_add_self2) simp
qed

lemma block_step:
  fixes p i m :: nat
  assumes "p mod m + i < m"
  shows "(p + i) div m = p div m" "(p + i) mod m = p mod m + i"
proof -
  have "p + i = (p mod m + i) + m * (p div m)" by simp
  then show "(p + i) div m = p div m" "(p + i) mod m = p mod m + i" using assms
    by (metis add_eq_0_iff_both_eq_0 div_less div_mult_self2 gr_implies_not0 add_cancel_right_left add.commute,
        metis mod_less mod_mult_self2)
qed

section \<open>What a read leaves alone\<close>

definition same_meta :: "'d ufs \<Rightarrow> 'd ufs \<Rightarrow> bool" where
  "same_meta st st' \<longleftrightarrow> dmadat st' = dmadat st \<and> sbbuf st' = sbbuf st \<and> dsk_meta st' = dsk_meta st \<and>
     inomap st' = inomap st \<and> dp st' = dp st \<and> ls st' = ls st"

lemma same_meta_refl [simp]: "same_meta st st"
  by (simp add: same_meta_def)

lemma same_meta_trans: "same_meta st st' \<Longrightarrow> same_meta st' st'' \<Longrightarrow> same_meta st st''"
  by (simp add: same_meta_def)

lemma get_indir_meta: "get_indir dsk vba st = Inr st' \<Longrightarrow> same_meta st st'"
  by (auto simp: get_indir_def same_meta_def Let_def split: if_splits prod.splits)

lemma get_block_meta: "get_block dsk vba n st = Inr st' \<Longrightarrow> same_meta st st'"
  by (auto simp: get_block_def same_meta_def Let_def split: if_splits prod.splits)

lemma block_addr_meta: "block_addr L dsk lbn st = Some (Inr (a, st')) \<Longrightarrow> same_meta st st'"
  by (auto simp: block_addr_def Let_def split: if_splits bind_splits sum.splits dest: get_indir_meta)

lemma read_round_meta: "read_round L dsk sz nb st = Some (Inr (bytes, st')) \<Longrightarrow> same_meta st st'"
proof -
  assume "read_round L dsk sz nb st = Some (Inr (bytes, st'))"
  then obtain a st1 n vb st2 m where "block_addr L dsk (lblkno (decode_fs L (sbbuf st)) (fs_off st)) st = Some (Inr (a, st1))"
      "get_block dsk vb n st1 = Inr st2" "st' = st2\<lparr>fs_off := m\<rparr>"
    by (auto simp: read_round_def Let_def split: if_splits bind_splits sum.splits)
  then have "same_meta st st2" by (blast intro: same_meta_trans block_addr_meta get_block_meta)
  then show ?thesis using \<open>st' = st2\<lparr>fs_off := m\<rparr>\<close> by (simp add: same_meta_def)
qed

section \<open>The contract of the drive\<close>

text \<open>
  What \<^verbatim>\<open>dskread\<close> promises: a read keeps the buffer's length and the contents of the drive, and one
  that reports success has filled the buffer from the sectors; \<open>content d a\<close> is the byte at address
  \<open>a\<close> of the partition.  A failed read may leave anything in the buffer.
\<close>

definition ind_bytes :: "(int \<Rightarrow> byte) \<Rightarrow> fs \<Rightarrow> dinode \<Rightarrow> nat \<Rightarrow> byte list" where
  "ind_bytes C f di j = map (\<lambda>i. C (512 * fsbtodb f (di_ib0 di) + int (ent_size f * j + i))) [0..<ent_size f]"

definition baddr :: "(int \<Rightarrow> byte) \<Rightarrow> fs \<Rightarrow> dinode \<Rightarrow> nat \<Rightarrow> int" where
  "baddr C f di lbn =
     (if lbn < NDADDR then di_db di ! lbn
      else if ufs1 f then sint (word_of_nat (le_nat (ind_bytes C f di (lbn - NDADDR))) :: u32)
      else sint (word_of_nat (le_nat (ind_bytes C f di (lbn - NDADDR))) :: u64))"

text \<open>The contents of the file: byte \<open>p\<close> lies in logical block \<open>p div 2 ^ b\<close>.\<close>

definition file_byte :: "(int \<Rightarrow> byte) \<Rightarrow> fs \<Rightarrow> nat \<Rightarrow> dinode \<Rightarrow> nat \<Rightarrow> byte" where
  "file_byte C f b di p = C (512 * fsbtodb f (baddr C f di (p div 2 ^ b)) + int (p mod 2 ^ b))"

definition vbno :: "(int \<Rightarrow> byte) \<Rightarrow> fs \<Rightarrow> nat \<Rightarrow> dinode \<Rightarrow> nat \<Rightarrow> int" where
  "vbno C f b di p = fsbtodb f (baddr C f di (p div 2 ^ b)) + int (p mod 2 ^ b div 4096 * 8)"

definition vlen :: "fs \<Rightarrow> nat \<Rightarrow> dinode \<Rightarrow> nat \<Rightarrow> nat" where
  "vlen f b di p = vblk_len f (di_size di) (p div 2 ^ b) (p mod 2 ^ b)"

text \<open>
  A file without holes whose blocks the single indirect block reaches; virtual blocks are not
  shared between a full block and a shorter tail.
\<close>

definition file_ok :: "(int \<Rightarrow> byte) \<Rightarrow> fs \<Rightarrow> nat \<Rightarrow> nat \<Rightarrow> dinode \<Rightarrow> bool" where
  "file_ok C f b k di \<longleftrightarrow> wf_fs f b k \<and> length (di_db di) = NDADDR \<and> di_size di < 2 ^ 31 \<and>
     (\<forall>p < di_size di. p div 2 ^ b < NDADDR + fs_nindir f \<and> vbno C f b di p \<noteq> 0 \<and>
        (NDADDR \<le> p div 2 ^ b \<longrightarrow> 0 < fsbtodb f (di_ib0 di)) \<and>
        (\<forall>q < di_size di. vbno C f b di p = vbno C f b di q \<longrightarrow> vlen f b di p = vlen f b di q))"

text \<open>The superblock of a partition: the first location of the list that holds one.\<close>

definition bytes_at :: "(int \<Rightarrow> byte) \<Rightarrow> int \<Rightarrow> nat \<Rightarrow> byte list" where
  "bytes_at C a n = map (\<lambda>i. C (a + int i)) [0..<n]"

definition sb_at :: "layout \<Rightarrow> (int \<Rightarrow> byte) \<Rightarrow> nat \<Rightarrow> fs" where
  "sb_at L C loc = decode_fs L (bytes_at C (int loc) SBLOCKSIZE)"

definition the_fs :: "layout \<Rightarrow> (int \<Rightarrow> byte) \<Rightarrow> fs option" where
  "the_fs L C = map_option (sb_at L C) (find (\<lambda>loc. sb_ok (sb_at L C loc) loc) sblock_try)"

definition inode_at :: "layout \<Rightarrow> (int \<Rightarrow> byte) \<Rightarrow> fs \<Rightarrow> nat \<Rightarrow> dinode" where
  "inode_at L C f x =
     (if ufs1 f then decode_dinode1 L else decode_dinode2 L) (bytes_at C (ino_addr f x) (ino_size f))"

text \<open>
  The caches hold what the drive holds, and the inode is that of the file being read.  \<open>errs\<close> counts the reads of the
  drive that have failed; \<open>N\<close> is their number now.
\<close>

definition caches_ok :: "('d \<Rightarrow> int \<Rightarrow> byte) \<Rightarrow> ('d \<Rightarrow> nat) \<Rightarrow> nat \<Rightarrow> layout \<Rightarrow> (int \<Rightarrow> byte) \<Rightarrow> fs \<Rightarrow> nat \<Rightarrow> dinode \<Rightarrow> 'd ufs \<Rightarrow> bool" where
  "caches_ok content errs N L C f b di st \<longleftrightarrow>
     decode_fs L (sbbuf st) = f \<and> dp st = di \<and> content (drive st) = C \<and> errs (drive st) = N \<and>
     length (blkbuf st) = 4096 \<and> length (indbuf st) = 4096 \<and>
     (blkmap st \<noteq> 0 \<longrightarrow> (\<exists>p < di_size di. blkmap st = vbno C f b di p \<and>
        (\<forall>i < vlen f b di p. blkbuf st ! i = C (512 * blkmap st + int i)))) \<and>
     (indmap st \<noteq> 0 \<longrightarrow> (\<forall>i < 4096. indbuf st ! i = C (512 * indmap st + int i)))"

text \<open>What holds of the reader between calls that succeed.\<close>

definition ufs_inv :: "('d \<Rightarrow> int \<Rightarrow> byte) \<Rightarrow> ('d \<Rightarrow> nat) \<Rightarrow> nat \<Rightarrow> layout \<Rightarrow> (int \<Rightarrow> byte) \<Rightarrow> fs \<Rightarrow> nat \<Rightarrow> 'd ufs \<Rightarrow> bool" where
  "ufs_inv content errs N L C f b st \<longleftrightarrow>
     length (sbbuf st) = SBLOCKSIZE \<and> length (blkbuf st) = 4096 \<and> length (indbuf st) = 4096 \<and>
     content (drive st) = C \<and> errs (drive st) = N \<and>
     (dsk_meta st \<longrightarrow> decode_fs L (sbbuf st) = f \<and>
        (inomap st \<noteq> 0 \<longrightarrow> caches_ok content errs N L C f b (inode_at L C f (inomap st)) st))"

text \<open>
  The contract of \<^verbatim>\<open>dskread\<close>: a read that reports 0 delivers the bytes of the drive, no read changes them, and exactly the
  reads that report an error are counted.
\<close>

locale block_reader =
  fixes dsk :: "'d disk" and content :: "'d \<Rightarrow> int \<Rightarrow> byte" and errs :: "'d \<Rightarrow> nat"
  assumes read_law: "n * 512 \<le> length buf \<Longrightarrow> n < 2 ^ 16 \<Longrightarrow> dsk pa buf lba n d = (rc, buf', d') \<Longrightarrow>
    length buf' = length buf \<and> content d' = content d \<and> errs d' = (if rc = 0 then errs d else Suc (errs d)) \<and>
    (rc = 0 \<longrightarrow> (\<forall>i < n * 512. buf' ! i = content d (512 * lba + int i)))"
begin

lemma get_indir_ok:
  assumes "caches_ok content errs N L C f b di st" "vba \<noteq> 0"
  shows "case get_indir dsk vba st of
      Inl st' \<Rightarrow> N < errs (drive st')
    | Inr st' \<Rightarrow> caches_ok content errs N L C f b di st' \<and> fs_off st' = fs_off st \<and> (\<forall>i < 4096. indbuf st' ! i = C (512 * vba + int i))"
proof (cases "indmap st = vba")
  case True
  with assms show ?thesis by (auto simp: get_indir_def caches_ok_def)
next
  case False
  obtain rc buf' d' where r: "dsk (dmadat st + 4096) (indbuf st) vba DBPERVBLK (drive st) = (rc, buf', d')" by (metis prod_cases3)
  have "length (indbuf st) = 4096" "content (drive st) = C" "errs (drive st) = N" using assms(1) by (simp_all add: caches_ok_def)
  with read_law [OF _ _ r] have "length buf' = 4096" "content d' = C"
      "rc = 0 \<Longrightarrow> \<forall>i < 4096. buf' ! i = C (512 * vba + int i)" "rc = 0 \<Longrightarrow> errs d' = N" "rc \<noteq> 0 \<Longrightarrow> N < errs d'"
    by (simp_all add: DBPERVBLK_def)
  with assms False r show ?thesis by (auto simp: get_indir_def caches_ok_def Let_def)
qed

lemma get_block_ok:
  assumes "caches_ok content errs N L C f b di st" "file_ok C f b k di" "p < di_size di"
  shows "case get_block dsk (vbno C f b di p) (vlen f b di p div DEV_BSIZE) st of
      Inl st' \<Rightarrow> N < errs (drive st')
    | Inr st' \<Rightarrow> caches_ok content errs N L C f b di st' \<and> fs_off st' = fs_off st \<and>
        (\<forall>i < vlen f b di p. blkbuf st' ! i = C (512 * vbno C f b di p + int i))"
proof -
  let ?v = "vbno C f b di p" and ?l = "vlen f b di p"
  have wf: "wf_fs f b k" and v0: "?v \<noteq> 0" using assms(2,3) by (auto simp: file_ok_def)
  note vl = vblk_len_eq [OF wf assms(3), folded vlen_def]
  show ?thesis
  proof (cases "blkmap st = ?v")
    case True
    then obtain q where q: "q < di_size di" "?v = vbno C f b di q" "\<forall>i < vlen f b di q. blkbuf st ! i = C (512 * ?v + int i)"
      using assms(1) v0 True unfolding caches_ok_def by metis
    have "vlen f b di q = ?l" using assms(2,3) q(1,2) unfolding file_ok_def by metis
    with True q(3) assms(1) show ?thesis by (simp add: get_block_def)
  next
    case False
    obtain rc buf' d' where r: "dsk (dmadat st) (blkbuf st) ?v (?l div DEV_BSIZE) (drive st) = (rc, buf', d')" by (metis prod_cases3)
    have len: "length (blkbuf st) = 4096" "content (drive st) = C" "errs (drive st) = N" using assms(1) by (simp_all add: caches_ok_def)
    have n: "?l div DEV_BSIZE * 512 = ?l" "?l div DEV_BSIZE < 2 ^ 16"
      using vl(3,4) by (auto simp: DEV_BSIZE_def mod_eq_0_iff_dvd)
    with read_law [OF _ _ r] len vl(4) have "length buf' = 4096" "content d' = C"
        "rc = 0 \<Longrightarrow> \<forall>i < ?l. buf' ! i = C (512 * ?v + int i)" "rc = 0 \<Longrightarrow> errs d' = N" "rc \<noteq> 0 \<Longrightarrow> N < errs d'"
      by simp_all
    with assms(1,3) False r show ?thesis by (auto simp: get_block_def caches_ok_def Let_def)
  qed
qed

lemma indir_entry_value:
  assumes "\<forall>i < 4096. ib ! i = C (512 * (fsbtodb f (di_ib0 di) + int (j div (4096 div ent_size f) * DBPERVBLK)) + int i)"
    and "length ib = 4096"
  shows "indir_entry f ib (j AND (4096 div ent_size f - 1)) = Some (baddr C f di (NDADDR + j))"
proof -
  let ?e = "ent_size f" and ?n = "4096 div ent_size f"
  have e: "?e * ?n = 4096" "0 < ?n" "\<exists>x. ?n = 2 ^ x" "0 < ?e"
    by (auto simp: ent_size_def intro: exI [of _ 10] exI [of _ 9])
  then have a: "j AND (?n - 1) = j mod ?n" using and_minus_1 by blast
  have pos: "?e * (j mod ?n) + i < 4096" if "i < ?e" for i
  proof -
    have "?e * Suc (j mod ?n) \<le> ?e * ?n" using e(2) by (intro mult_le_mono2) (simp add: Suc_leI)
    then show ?thesis using that e(1) by simp
  qed
  have "?e * j = ?e * (?n * (j div ?n) + j mod ?n)" by simp
  also have "\<dots> = (?e * ?n) * (j div ?n) + ?e * (j mod ?n)" by (simp only: distrib_left mult.assoc)
  finally have split: "?e * j = 4096 * (j div ?n) + ?e * (j mod ?n)" unfolding e(1) .
  have "slice ib ((j mod ?n) * ?e) ?e = Some (ind_bytes C f di j)"
  proof -
    have "take ?e (drop ((j mod ?n) * ?e) ib) = ind_bytes C f di j"
    proof (rule nth_equalityI)
      show "length (take ?e (drop ((j mod ?n) * ?e) ib)) = length (ind_bytes C f di j)"
        using pos [of "?e - 1"] e(4) assms(2) by (simp add: ind_bytes_def mult.commute)
      fix i assume "i < length (take ?e (drop ((j mod ?n) * ?e) ib))"
      then have i: "i < ?e" by simp
      have "ib ! (?e * (j mod ?n) + i) = C (512 * fsbtodb f (di_ib0 di) + int (4096 * (j div ?n) + ?e * (j mod ?n) + i))"
        using assms(1) pos [OF i] by (simp add: DBPERVBLK_def algebra_simps)
      then show "take ?e (drop ((j mod ?n) * ?e) ib) ! i = ind_bytes C f di j ! i"
        using i pos [OF i] assms(2) unfolding ind_bytes_def split by (simp add: mult.commute)
    qed
    then show ?thesis using pos [of "?e - 1"] e(4) assms(2) by (simp add: slice_def mult.commute)
  qed
  then show ?thesis unfolding a
    by (auto simp: indir_entry_def le_field_def baddr_def ent_size_def)
qed

lemma block_addr_ok:
  assumes "caches_ok content errs N L C f b di st" "file_ok C f b k di" "p < di_size di"
  shows "\<exists>r. block_addr L dsk (p div 2 ^ b) st = Some r \<and>
    (case r of Inl st' \<Rightarrow> N < errs (drive st')
     | Inr (a, st') \<Rightarrow> caches_ok content errs N L C f b di st' \<and> fs_off st' = fs_off st \<and> a = baddr C f di (p div 2 ^ b))"
proof -
  let ?lbn = "p div 2 ^ b"
  have wf: "wf_fs f b k" and lbn: "?lbn < NDADDR + fs_nindir f" and db: "length (di_db di) = NDADDR"
    and ib: "NDADDR \<le> ?lbn \<Longrightarrow> 0 < fsbtodb f (di_ib0 di)"
    using assms(2,3) by (auto simp: file_ok_def)
  have f: "decode_fs L (sbbuf st) = f" "dp st = di" using assms(1) by (auto simp: caches_ok_def)
  show ?thesis
  proof (cases "?lbn < NDADDR")
    case True
    with f db assms(1) show ?thesis by (simp add: block_addr_def baddr_def)
  next
    case False
    let ?n = "4096 div ent_size f" and ?j = "?lbn - NDADDR"
    let ?vba = "fsbtodb f (di_ib0 di) + int (?j div ?n * DBPERVBLK)"
    have n: "INDIRPERVBLK f = Some ?n" "?n \<noteq> 0" using indirpervblk [OF wf] by (auto simp: ent_size_def)
    have "?vba \<noteq> 0" using ib False by linarith
    note g = get_indir_ok [OF assms(1) this]
    show ?thesis
    proof (cases "get_indir dsk ?vba st")
      case (Inl st')
      then show ?thesis using False lbn f n g by (simp add: block_addr_def)
    next
      case (Inr st')
      then have st': "caches_ok content errs N L C f b di st'" "fs_off st' = fs_off st"
          "\<forall>i < 4096. indbuf st' ! i = C (512 * ?vba + int i)" using g by auto
      then have "indir_entry f (indbuf st') (?j AND (?n - 1)) = Some (baddr C f di (NDADDR + ?j))"
        by (intro indir_entry_value) (auto simp: caches_ok_def)
      then show ?thesis using Inr False lbn f n st'(1,2) by (simp add: block_addr_def)
    qed
  qed
qed

lemma read_round_ok:
  assumes "caches_ok content errs N L C f b di st" "file_ok C f b k di" "fs_off st < di_size di" "0 < nb" "nb \<le> di_size di - fs_off st"
  shows "\<exists>r. read_round L dsk (di_size di) nb st = Some r \<and>
    (case r of Inl st' \<Rightarrow> N < errs (drive st')
     | Inr (bytes, st') \<Rightarrow> caches_ok content errs N L C f b di st' \<and> 0 < length bytes \<and> length bytes \<le> nb \<and>
         fs_off st' = fs_off st + length bytes \<and>
         bytes = map (file_byte C f b di) [fs_off st..<fs_off st + length bytes])"
proof -
  let ?p = "fs_off st"
  let ?off = "?p mod 2 ^ b" and ?v = "vbno C f b di ?p" and ?l = "vlen f b di ?p"
  have wf: "wf_fs f b k" and sz: "di_size di < 2 ^ 31" using assms(2) by (auto simp: file_ok_def)
  have f: "decode_fs L (sbbuf st) = f" using assms(1) by (auto simp: caches_ok_def)
  note vl = vblk_len_eq [OF wf assms(3), folded vlen_def]
  obtain r where r: "block_addr L dsk (?p div 2 ^ b) st = Some r"
    "case r of Inl st' \<Rightarrow> N < errs (drive st')
     | Inr (a, st') \<Rightarrow> caches_ok content errs N L C f b di st' \<and> fs_off st' = ?p \<and> a = baddr C f di (?p div 2 ^ b)"
    using block_addr_ok [OF assms(1-3)] by blast
  note unf = read_round_def Let_def f lblkno_div [OF wf] blkoff_mod [OF wf]
  show ?thesis
  proof (cases r)
    case (Inl st')
    then show ?thesis using r by (simp add: unf)
  next
    case (Inr as)
    then obtain st1 where st1: "r = Inr (baddr C f di (?p div 2 ^ b), st1)" "caches_ok content errs N L C f b di st1" "fs_off st1 = ?p"
      using r(2) by (cases as) auto
    have vb: "fsbtodb f (baddr C f di (?p div 2 ^ b)) + int (drop_bit VBLKSHIFT ?off * DBPERVBLK) = ?v"
      by (simp add: vbno_def VBLKSHIFT_def DBPERVBLK_def drop_bit_eq_div)
    note g = get_block_ok [OF st1(2) assms(2,3)]
    show ?thesis
    proof (cases "get_block dsk ?v (?l div DEV_BSIZE) st1")
      case (Inl st')
      then show ?thesis using r(1) st1 vb g by (simp add: unf vlen_def)
    next
      case (Inr st2)
      define vo where "vo = ?off mod 4096"
      define n where "n = min nb (?l - vo)"
      have st2: "caches_ok content errs N L C f b di st2" "fs_off st2 = ?p" "\<forall>i < ?l. blkbuf st2 ! i = C (512 * ?v + int i)"
        using g Inr st1(3) by auto
      have vo: "vo < ?l" "?l \<le> 4096" "?off - vo + ?l \<le> 2 ^ b" "vo \<le> ?off" using vl(2,4,5) by (simp_all add: vo_def)
      have n: "(if sub32 ?l vo > nb then nb else sub32 ?l vo) = n"
        using vo sub32_le [of vo ?l] by (simp add: n_def min_def)
      have npos: "0 < n" "n \<le> nb" "vo + n \<le> ?l" using vo(1) assms(4) by (auto simp: n_def)
      have blk: "length (blkbuf st2) = 4096" using st2(1) by (simp add: caches_ok_def)
      let ?bytes = "take n (drop vo (blkbuf st2))"
      have len: "length ?bytes = n" using npos(3) vo(2) blk by simp
      have sl: "slice (blkbuf st2) vo n = Some ?bytes" using npos(3) vo(2) blk by simp
      have rr: "read_round L dsk (di_size di) nb st = Some (Inr (?bytes, st2\<lparr>fs_off := (?p + n) mod 2 ^ 32\<rparr>))"
        unfolding read_round_def Let_def f lblkno_div [OF wf] blkoff_mod [OF wf] r(1) st1(1) bind.bind_lunit
          sum.case prod.case vb vlen_def [symmetric] Inr VBLKSIZE_def vo_def [symmetric] n
        by (simp add: sl st2(2))
      have "?p + n < 2 ^ 32" using npos(2) assms(3,5) sz by simp
      then have off: "(?p + n) mod 2 ^ 32 = ?p + n" by (rule mod_less)
      have "?bytes = map (file_byte C f b di) [?p..<?p + n]"
      proof (rule nth_equalityI)
        show "length ?bytes = length (map (file_byte C f b di) [?p..<?p + n])" using len by simp
        fix i assume "i < length ?bytes"
        then have i: "i < n" using len by simp
        then have il: "vo + i < ?l" using npos(3) by linarith
        then have "?off + i < 2 ^ b" using vo(3,4) by linarith
        then have pi: "(?p + i) div 2 ^ b = ?p div 2 ^ b" "(?p + i) mod 2 ^ b = ?off + i"
          by (simp_all only: block_step)
        have "int (?off div 4096 * 8) * 512 + int (vo + i) = int (?off + i)"
          using div_mult_mod_eq [of ?off 4096] unfolding vo_def by linarith
        then have "512 * ?v + int (vo + i) = 512 * fsbtodb f (baddr C f di (?p div 2 ^ b)) + int (?off + i)"
          by (simp only: vbno_def distrib_left mult.commute [of _ 512])
        moreover have "?bytes ! i = C (512 * ?v + int (vo + i))" using st2(3) il i vo(2) blk by simp
        ultimately have "?bytes ! i = file_byte C f b di (?p + i)" by (simp only: file_byte_def pi)
        then show "?bytes ! i = map (file_byte C f b di) [?p..<?p + n] ! i" using i by simp
      qed
      moreover have "caches_ok content errs N L C f b di (st2\<lparr>fs_off := ?p + n\<rparr>)" using st2(1) by (simp add: caches_ok_def)
      ultimately show ?thesis using rr [unfolded off] len npos(1,2) by simp
    qed
  qed
qed

lemma read_loop_ok:
  assumes "caches_ok content errs N L C f b di st" "file_ok C f b k di" "nb \<le> di_size di - fs_off st"
  shows "\<exists>rc out st'. read_loop L dsk (di_size di) nbyte nb acc st = Some (rc, acc @ out, st') \<and>
    length out \<le> nb \<and> (rc = -1 \<and> N < errs (drive st') \<or> rc = ssize nbyte \<and> caches_ok content errs N L C f b di st' \<and> same_meta st st' \<and> fs_off st' = fs_off st + nb \<and>
       out = map (file_byte C f b di) [fs_off st..<fs_off st + nb])"
  using assms
proof (induction nb arbitrary: acc st rule: less_induct)
  case (less nb)
  show ?case
  proof (cases "nb = 0")
    case True
    then have "read_loop L dsk (di_size di) nbyte nb acc st = Some (ssize nbyte, acc @ [], st)"
      by (simp add: read_loop.simps)
    with True less.prems(1) show ?thesis by auto
  next
    case False
    then have lt: "fs_off st < di_size di" using less.prems(3) by simp
    obtain r where r: "read_round L dsk (di_size di) nb st = Some r"
      "case r of Inl st' \<Rightarrow> N < errs (drive st')
       | Inr (bytes, st') \<Rightarrow> caches_ok content errs N L C f b di st' \<and> 0 < length bytes \<and> length bytes \<le> nb \<and>
           fs_off st' = fs_off st + length bytes \<and>
           bytes = map (file_byte C f b di) [fs_off st..<fs_off st + length bytes]"
      using read_round_ok [OF less.prems(1,2) lt _ less.prems(3)] False by blast
    show ?thesis
    proof (cases r)
      case (Inl st')
      then have "read_loop L dsk (di_size di) nbyte nb acc st = Some (-1, acc @ [], st')"
        using False r(1) by (simp add: read_loop.simps)
      moreover have "N < errs (drive st')" using r(2) Inl by simp
      ultimately show ?thesis by (metis le0 list.size(3))
    next
      case (Inr bs)
      then obtain bytes st1 where bs: "r = Inr (bytes, st1)" by (cases bs) auto
      let ?k = "length bytes"
      have st1: "caches_ok content errs N L C f b di st1" "0 < ?k" "?k \<le> nb" "fs_off st1 = fs_off st + ?k"
        "bytes = map (file_byte C f b di) [fs_off st..<fs_off st + ?k]" using r(2) bs by auto
      have meta: "same_meta st st1" using read_round_meta r(1) bs by blast
      have "nb - ?k < nb" "nb - ?k \<le> di_size di - fs_off st1" using st1(2-4) less.prems(3) by linarith+
      from less.IH [OF this(1) st1(1) less.prems(2) this(2), of "acc @ bytes"]
      obtain rc out st2 where IH: "length out \<le> nb - ?k" "read_loop L dsk (di_size di) nbyte (nb - ?k) (acc @ bytes) st1 = Some (rc, acc @ (bytes @ out), st2)"
        "rc = -1 \<and> N < errs (drive st2) \<or> rc = ssize nbyte \<and> caches_ok content errs N L C f b di st2 \<and> same_meta st1 st2 \<and> fs_off st2 = fs_off st1 + (nb - ?k) \<and>
           out = map (file_byte C f b di) [fs_off st1..<fs_off st1 + (nb - ?k)]" by auto
      have step: "read_loop L dsk (di_size di) nbyte nb acc st = Some (rc, acc @ (bytes @ out), st2)"
        using False r(1) bs IH(2) by (simp add: read_loop.simps)
      have sum: "fs_off st1 + (nb - ?k) = fs_off st + nb" using st1(3,4) by simp
      have "bytes @ map (file_byte C f b di) [fs_off st1..<fs_off st + nb]
          = map (file_byte C f b di) [fs_off st..<fs_off st + nb]"
      proof -
        have "[fs_off st..<fs_off st + nb] = [fs_off st..<fs_off st1] @ [fs_off st1..<fs_off st + nb]"
          using upt_add_eq_append [of "fs_off st" "fs_off st1" "nb - ?k"] st1(4) sum by simp
        then show ?thesis using st1(4,5) by (metis map_append)
      qed
      then have "rc = -1 \<and> N < errs (drive st2) \<or> rc = ssize nbyte \<and> caches_ok content errs N L C f b di st2 \<and> same_meta st st2 \<and> fs_off st2 = fs_off st + nb \<and>
          bytes @ out = map (file_byte C f b di) [fs_off st..<fs_off st + nb]"
        using IH(3) meta unfolding sum by (auto intro: same_meta_trans)
      with step IH(1) st1(3) show ?thesis by fastforce
    qed
  qed
qed

lemma filled:
  assumes "\<forall>i < length buf. buf ! i = C (a + int i)" "off + n \<le> length buf"
  shows "take n (drop off buf) = bytes_at C (a + int off) n"
  using assms by (intro nth_equalityI) (auto simp: bytes_at_def add.assoc)

lemma find_sb_ok:
  assumes "length (sbbuf st) = SBLOCKSIZE" "content (drive st) = C \<and> errs (drive st) = N" "\<forall>loc \<in> set locs. loc mod DEV_BSIZE = 0"
    and "find (\<lambda>loc. sb_ok (sb_at L C loc) loc) locs = Some loc"
  shows "case find_sb L dsk locs st of
      Inl st' \<Rightarrow> N < errs (drive st')
    | Inr st' \<Rightarrow> (\<exists>sb d. st' = st\<lparr>sbbuf := sb, drive := d\<rparr> \<and> length sb = SBLOCKSIZE \<and> content d = C \<and> errs d = N \<and>
        decode_fs L sb = sb_at L C loc)"
  using assms
proof (induction locs arbitrary: st)
  case (Cons x locs)
  obtain rc sb d where r: "dsk (dmadat st + 8192) (sbbuf st) (int (x div DEV_BSIZE)) (SBLOCKSIZE div DEV_BSIZE) (drive st) = (rc, sb, d)"
    by (metis prod_cases3)
  have n: "SBLOCKSIZE div DEV_BSIZE * 512 \<le> length (sbbuf st)" "SBLOCKSIZE div DEV_BSIZE < 2 ^ 16"
    using Cons.prems(1) by (simp_all add: SBLOCKSIZE_def DEV_BSIZE_def)
  have x: "512 * int (x div DEV_BSIZE) = int x" using Cons.prems(3) by (auto simp: DEV_BSIZE_def)
  note law = read_law [OF n r]
  have len: "length sb = SBLOCKSIZE" "content d = C" "errs d = (if rc = 0 then N else Suc N)" using law Cons.prems(1,2) by auto
  show ?case
  proof (cases "rc = 0")
    case True
    then have "\<forall>i < length sb. sb ! i = C (int x + int i)"
      using law Cons.prems(2) x by (simp add: len(1) SBLOCKSIZE_def DEV_BSIZE_def)
    then have "sb = bytes_at C (int x) SBLOCKSIZE"
      using filled [of sb C "int x" 0 SBLOCKSIZE] len(1) by simp
    then have dec: "decode_fs L sb = sb_at L C x" by (simp add: sb_at_def)
    show ?thesis
    proof (cases "sb_ok (sb_at L C x) x")
      case True
      then show ?thesis using r \<open>rc = 0\<close> dec len Cons.prems(4) by auto
    next
      case False
      then show ?thesis using r \<open>rc = 0\<close> dec len Cons.prems(3,4) Cons.IH [of "st\<lparr>sbbuf := sb, drive := d\<rparr>"]
        by (auto split: sum.splits)
    qed
  qed (use r len(3) in simp)
qed simp

lemma get_meta_ok:
  assumes "ufs_inv content errs N L C f b st" "the_fs L C = Some f"
  shows "case get_meta L dsk st of
      Inl st' \<Rightarrow> N < errs (drive st')
    | Inr st' \<Rightarrow> ufs_inv content errs N L C f b st' \<and> dsk_meta st' \<and> fs_off st' = fs_off st \<and>
        inomap st' = (if dsk_meta st then inomap st else 0)"
proof (cases "dsk_meta st")
  case True
  then show ?thesis using assms(1) by (simp add: get_meta_def)
next
  case False
  obtain loc where loc: "find (\<lambda>loc. sb_ok (sb_at L C loc) loc) sblock_try = Some loc" "f = sb_at L C loc"
    using assms(2) by (auto simp: the_fs_def)
  have "\<forall>loc \<in> set sblock_try. loc mod DEV_BSIZE = 0" by (simp add: sblock_try_def DEV_BSIZE_def)
  from find_sb_ok [OF _ _ this loc(1), of "st\<lparr>inomap := 0\<rparr>"] assms(1) False loc(2) show ?thesis
    by (auto simp: get_meta_def ufs_inv_def split: sum.splits)
qed

lemma get_inode_ok:
  assumes "ufs_inv content errs N L C f b st" "dsk_meta st" "wf_fs f b k" "wf_ino f b" "ino \<noteq> 0"
  shows "\<exists>r. get_inode L dsk ino st = Some r \<and>
    (case r of Inl st' \<Rightarrow> N < errs (drive st')
     | Inr st' \<Rightarrow> ufs_inv content errs N L C f b st' \<and> dsk_meta st' \<and> inomap st' = ino \<and>
         fs_off st' = (if inomap st = ino then fs_off st else 0))"
proof (cases "inomap st = ino")
  case True
  then show ?thesis using assms(1,2) by (simp add: get_inode_def Let_def)
next
  case False
  let ?n = "4096 div ino_size f" and ?z = "ino_size f"
  let ?o = "INO_TO_VBO ?n ino * ?z"
  obtain vba where vba: "INO_TO_VBA f ?n ino = Some vba" "512 * vba + int ?o = ino_addr f ino"
    using ino_to_vblk(1) [OF assms(3,4)] by blast
  have o: "?o + ?z \<le> 4096" by (rule ino_to_vblk(2) [OF assms(3,4)])
  obtain rc buf d where r: "dsk (dmadat st) (blkbuf st) vba DBPERVBLK (drive st) = (rc, buf, d)" by (metis prod_cases3)
  have f: "decode_fs L (sbbuf st) = f" and len: "length (blkbuf st) = 4096" "content (drive st) = C" "errs (drive st) = N"
    using assms(1,2) by (auto simp: ufs_inv_def)
  have law: "length buf = 4096" "content d = C" "errs d = (if rc = 0 then N else Suc N)" "rc = 0 \<Longrightarrow> \<forall>i < length buf. buf ! i = C (512 * vba + int i)"
    using read_law [OF _ _ r] len by (simp_all add: DBPERVBLK_def)
  show ?thesis
  proof (cases "rc = 0")
    case True
    have z: "(if ufs1 f then 128 else 256) = ?z" by (simp add: ino_size_def)
    have sl: "slice buf ?o ?z = Some (bytes_at C (ino_addr f ino) ?z)"
      using filled [OF law(4) [OF True], of ?o ?z] o law(1) vba(2) by simp
    have "get_inode L dsk ino st = Some (Inr (st\<lparr>blkbuf := buf, drive := d, dp := inode_at L C f ino, inomap := ino,
        fs_off := 0, blkmap := 0, indmap := 0\<rparr>))"
      using False True r sl vba(1)
      by (simp add: get_inode_def f Let_def ipervblk [OF assms(3,4)] z inode_at_def del: slice_in)
    then show ?thesis using False True law(1-3) assms(1,2) f by (auto simp: ufs_inv_def caches_ok_def)
  next
    case rc: False
    then show ?thesis using False r vba(1) len law(3)
      by (simp add: get_inode_def f Let_def ipervblk [OF assms(3,4)] DBPERVBLK_def)
  qed
qed

text \<open>
  A call either fails with -1, or returns the next bytes of the file: from the place where the last
  read of the same file ended, else from the start.
\<close>

lemma fsread_ok:
  fixes nbyte :: nat
  assumes "ufs_inv content errs N L C f b st" "the_fs L C = Some f" "wf_ino f b" "ino \<noteq> 0"
    and "file_ok C f b k (inode_at L C f ino)"
  defines "di \<equiv> inode_at L C f ino"
  defines "p \<equiv> if dsk_meta st \<and> inomap st = ino then fs_off st else 0"
  assumes "p \<le> di_size di"
  defines "m \<equiv> min nbyte (di_size di - p)"
  shows "\<exists>rc out st'. fsread L dsk ino nbyte st = Some (rc, out, st') \<and> length out \<le> nbyte \<and>
    (rc = -1 \<and> N < errs (drive st') \<or> rc = int m \<and> out = map (file_byte C f b di) [p..<p + m] \<and>
       ufs_inv content errs N L C f b st' \<and> dsk_meta st' \<and> inomap st' = ino \<and> fs_off st' = p + m)"
proof (cases "get_meta L dsk st")
  case (Inl st1)
  then show ?thesis using get_meta_ok [OF assms(1,2)] by (simp add: fsread_def)
next
  case (Inr st1)
  have wf: "wf_fs f b k" and sz: "di_size di < 2 ^ 31" using assms(5) by (auto simp: file_ok_def di_def)
  have st1: "ufs_inv content errs N L C f b st1" "dsk_meta st1" "fs_off st1 = fs_off st"
      "inomap st1 = (if dsk_meta st then inomap st else 0)"
    using get_meta_ok [OF assms(1,2)] Inr by auto
  obtain r where r: "get_inode L dsk ino st1 = Some r"
    "case r of Inl st' \<Rightarrow> N < errs (drive st')
     | Inr st' \<Rightarrow> ufs_inv content errs N L C f b st' \<and> dsk_meta st' \<and> inomap st' = ino \<and>
         fs_off st' = (if inomap st1 = ino then fs_off st1 else 0)"
    using get_inode_ok [OF st1(1,2) wf assms(3,4)] by blast
  show ?thesis
  proof (cases r)
    case (Inl st2)
    then show ?thesis using Inr r assms(4) by (simp add: fsread_def)
  next
    case r': (Inr st2)
    then have st2: "ufs_inv content errs N L C f b st2" "dsk_meta st2" "inomap st2 = ino" "fs_off st2 = p"
      using r(2) st1(3,4) assms(4) by (auto simp: p_def)
    then have c: "caches_ok content errs N L C f b di st2" using assms(4) by (auto simp: ufs_inv_def di_def)
    then have dp: "dp st2 = di" by (simp add: caches_ok_def)
    have "fsread L dsk ino nbyte st = read_loop L dsk (di_size di) m m [] st2"
      using Inr r(1) r' assms(4) sz \<open>p \<le> di_size di\<close>
      by (simp add: fsread_def Let_def dp st2(4) sub32_le m_def min_def)
    moreover obtain rc out st3 where "read_loop L dsk (di_size di) m m [] st2 = Some (rc, out, st3)" "length out \<le> m"
      "rc = -1 \<and> N < errs (drive st3) \<or> rc = ssize m \<and> caches_ok content errs N L C f b di st3 \<and> same_meta st2 st3 \<and> fs_off st3 = p + m \<and>
         out = map (file_byte C f b di) [p..<p + m]"
      using read_loop_ok [OF c assms(5) [folded di_def], of m m "[]"] st2(4) by (auto simp: m_def)
    moreover from this(3) have "rc \<noteq> -1 \<Longrightarrow> ufs_inv content errs N L C f b st3 \<and> dsk_meta st3 \<and> inomap st3 = ino"
      using st2 by (fastforce simp: same_meta_def ufs_inv_def caches_ok_def di_def)
    moreover have "ssize m = int m" using sz by (intro ssize_small) (simp add: m_def)
    ultimately show ?thesis by (auto simp: m_def)
  qed
qed

end

end
