(* ===== verification/UfsDir.thy ===== *)
theory UfsDir
  imports UfsFacts
begin

text \<open>
  Directories of UFS as \<^verbatim>\<open>fsfind\<close> and \<^verbatim>\<open>lookup\<close> walk them: on well-formed directories the walk ends and finds
  the first entry of each name, so a path resolves to the inode it names.
\<close>

section \<open>The on-disk format of entries\<close>

record dirent =
  de_ino :: nat
  de_type :: nat
  de_name :: "byte list"
  de_pad :: "byte list"

definition ent_len :: "dirent \<Rightarrow> nat" where
  "ent_len e = 9 + length (de_name e) + length (de_pad e)"

definition enc_ent :: "dirent \<Rightarrow> byte list" where
  "enc_ent e = le_bytes 4 (de_ino e) @ le_bytes 2 (ent_len e) @
     [word_of_nat (de_type e), word_of_nat (length (de_name e))] @ de_name e @ 0 # de_pad e"

definition wf_ent :: "dirent \<Rightarrow> bool" where
  "wf_ent e \<longleftrightarrow> de_ino e < 2 ^ 32 \<and> 0 < de_type e \<and> de_type e < 256 \<and> ent_len e < 2 ^ 16 \<and> 0 \<notin> set (de_name e)"

lemma length_enc_ent [simp]: "length (enc_ent e) = ent_len e"
  by (simp add: enc_ent_def ent_len_def)

lemma le_field_at:
  assumes "x < 256 ^ n"
  shows "map_option unat (le_field (pre @ le_bytes n x @ post) (length pre) n :: 'a::len word option)
    = Some (x mod 2 ^ LENGTH('a))"
proof -
  have "slice (pre @ le_bytes n x @ post) (length pre) n = Some (le_bytes n x)" by (simp add: slice_def)
  then show ?thesis using assms by (simp add: le_field_def le_nat_le_bytes unat_of_nat take_bit_nat_def)
qed

lemma ent_fields:
  fixes pre post :: "byte list"
  assumes "wf_ent e"
  defines "buf \<equiv> pre @ enc_ent e @ post"
  shows "d_ino buf (length pre) = Some (de_ino e)" "d_reclen buf (length pre) = Some (ent_len e)"
    "d_type buf (length pre) = Some (de_type e)" "cstr buf (length pre + 8) = Some (de_name e)"
proof -
  have lim: "de_ino e < 256 ^ 4" "ent_len e < 256 ^ 2" using assms(1) by (simp_all add: wf_ent_def)
  have ino: "de_ino e mod 2 ^ LENGTH(32) = de_ino e" and len: "ent_len e mod 2 ^ LENGTH(16) = ent_len e"
    using assms(1) by (simp_all add: wf_ent_def)
  show "d_ino buf (length pre) = Some (de_ino e)"
    using le_field_at [OF lim(1), of pre, where 'a = 32] ino by (simp add: d_ino_def buf_def enc_ent_def)
  have b: "buf = (pre @ le_bytes 4 (de_ino e)) @ le_bytes 2 (ent_len e) @
     ([word_of_nat (de_type e), word_of_nat (length (de_name e))] @ de_name e @ 0 # de_pad e @ post)"
    by (simp add: buf_def enc_ent_def)
  show "d_reclen buf (length pre) = Some (ent_len e)"
    using le_field_at [OF lim(2), of "pre @ le_bytes 4 (de_ino e)", where 'a = 16] len
    unfolding d_reclen_def b by simp
  show "d_type buf (length pre) = Some (de_type e)" using assms(1)
    by (simp add: d_type_def buf_def enc_ent_def rd_def nth_append wf_ent_def unat_of_nat take_bit_nat_eq_self)
  have "drop (length pre + 8) buf = de_name e @ 0 # (de_pad e @ post)"
    by (simp add: buf_def enc_ent_def)
  then show "cstr buf (length pre + 8) = Some (de_name e)" using assms(1) by (auto simp: cstr_iff wf_ent_def)
qed

section \<open>One buffer\<close>

definition hit :: "byte list \<Rightarrow> dirent list \<Rightarrow> (nat \<times> nat) option" where
  "hit name es = map_option (\<lambda>e. (de_ino e, de_type e)) (find (\<lambda>e. de_name e = name) es)"

lemma hit_simps [simp]:
  "hit name [] = None"
  "hit name (e # es) = (if de_name e = name then Some (de_ino e, de_type e) else hit name es)"
  by (simp_all add: hit_def)

lemma hit_append: "hit name (xs @ ys) = (case hit name xs of None \<Rightarrow> hit name ys | Some h \<Rightarrow> Some h)"
  by (induction xs) auto

lemma scan_dir_ok:
  assumes "length (pre @ concat (map enc_ent es)) = DEV_BSIZE" "\<forall>e \<in> set es. wf_ent e"
  shows "scan_dir False name (pre @ concat (map enc_ent es)) (length pre) out = Some (hit name es, out)"
  using assms
proof (induction es arbitrary: pre)
  case Nil
  then show ?case by (simp add: scan_dir.simps)
next
  case (Cons e es)
  let ?buf = "pre @ concat (map enc_ent (e # es))"
  have wf: "wf_ent e" using Cons.prems(2) by simp
  note flds = ent_fields [OF wf, of pre "concat (map enc_ent es)"]
  have lt: "length pre < DEV_BSIZE" using Cons.prems(1) by (simp add: ent_len_def)
  have IH: "scan_dir False name ?buf (length pre + ent_len e) out = Some (hit name es, out)"
    using Cons.IH [of "pre @ enc_ent e"] Cons.prems by simp
  show ?case by (subst scan_dir.simps) (use lt flds IH in simp)
qed

section \<open>A directory\<close>

definition dir_ok :: "(int \<Rightarrow> byte) \<Rightarrow> fs \<Rightarrow> nat \<Rightarrow> nat \<Rightarrow> dinode \<Rightarrow> dirent list list \<Rightarrow> bool" where
  "dir_ok C f b k di ess \<longleftrightarrow> file_ok C f b k di \<and> di_size di = DEV_BSIZE * length ess \<and>
     (\<forall>i < length ess. (\<forall>e \<in> set (ess ! i). wf_ent e) \<and>
        concat (map enc_ent (ess ! i)) = map (file_byte C f b di) [DEV_BSIZE * i..<DEV_BSIZE * i + DEV_BSIZE])"

definition read_pos :: "'d ufs \<Rightarrow> nat \<Rightarrow> nat" where
  "read_pos st ino = (if dsk_meta st \<and> inomap st = ino then fs_off st else 0)"

lemma read_posI: "dsk_meta st \<Longrightarrow> inomap st = ino \<Longrightarrow> read_pos st ino = fs_off st"
  by (simp add: read_pos_def)

text \<open>
  The directories \<open>D\<close> of a file system, with their entries, none of them a deleted one (with inode number 0), and the inode
  and type a path names.
\<close>

definition tree_ok :: "layout \<Rightarrow> (int \<Rightarrow> byte) \<Rightarrow> fs \<Rightarrow> nat \<Rightarrow> nat \<Rightarrow> nat set \<Rightarrow> (nat \<Rightarrow> dirent list list) \<Rightarrow> bool" where
  "tree_ok L C f b k D dirs \<longleftrightarrow>
     (\<forall>d \<in> D. d \<noteq> 0 \<and> dir_ok C f b k (inode_at L C f d) (dirs d) \<and>
        (\<forall>e \<in> set (concat (dirs d)). de_ino e \<noteq> 0 \<and> (de_type e = DT_DIR \<longrightarrow> de_ino e \<in> D)))"

fun resolve :: "(nat \<Rightarrow> dirent list list) \<Rightarrow> byte list list \<Rightarrow> nat \<Rightarrow> nat \<Rightarrow> (nat \<times> nat) option" where
  "resolve dirs [] ino t = Some (ino, t)"
| "resolve dirs (n # ns) ino t =
     (if t \<noteq> DT_DIR then None
      else case hit n (concat (dirs ino)) of None \<Rightarrow> None | Some (i, t') \<Rightarrow> resolve dirs ns i t')"

definition path_of :: "byte list list \<Rightarrow> byte list" where
  "path_of names = concat (map ((#) 47) names)"

definition names_ok :: "byte list list \<Rightarrow> bool" where
  "names_ok names \<longleftrightarrow> (\<forall>n \<in> set names. n \<noteq> [] \<and> n \<noteq> [63] \<and> 47 \<notin> set n \<and> length n \<le> MAXNAMLEN)"

lemma hit_SomeD: "hit name es = Some (i, t) \<Longrightarrow> \<exists>e \<in> set es. de_ino e = i \<and> de_type e = t"
  by (induction es) (auto split: if_splits)

lemma path_of_Cons:
  assumes "n \<noteq> []" "47 \<notin> set n"
  shows "takeWhile (\<lambda>c. c \<noteq> 47) (n @ path_of ns) = n" "dropWhile (\<lambda>c. c \<noteq> 47) (n @ path_of ns) = path_of ns"
proof -
  have n: "\<forall>c \<in> set n. c \<noteq> 47" using assms(2) by auto
  then show "takeWhile (\<lambda>c. c \<noteq> 47) (n @ path_of ns) = n"
    by (cases ns) (simp_all add: path_of_def takeWhile_append2)
  show "dropWhile (\<lambda>c. c \<noteq> 47) (n @ path_of ns) = path_of ns"
    using n by (cases ns) (simp_all add: path_of_def dropWhile_append2)
qed

context block_reader
begin

lemma read_dir_block:
  assumes "ufs_inv content errs N L C f b st" "the_fs L C = Some f" "wf_ino f b" "ino \<noteq> 0"
    and "dir_ok C f b k (inode_at L C f ino) ess" "read_pos st ino = DEV_BSIZE * i" "i \<le> length ess"
  shows "\<exists>rc out st'. fsread L dsk ino DEV_BSIZE st = Some (rc, out, st') \<and> length out \<le> DEV_BSIZE \<and>
    (rc = -1 \<and> N < errs (drive st') \<or>
     (if i < length ess
      then rc = int DEV_BSIZE \<and> out = concat (map enc_ent (ess ! i)) \<and> ufs_inv content errs N L C f b st' \<and> inomap st' = ino \<and>
        read_pos st' ino = DEV_BSIZE * Suc i
      else rc = 0))"
proof -
  let ?di = "inode_at L C f ino"
  have fok: "file_ok C f b k ?di" and sz: "di_size ?di = DEV_BSIZE * length ess" using assms(5) by (auto simp: dir_ok_def)
  have blk: "i < length ess \<Longrightarrow> concat (map enc_ent (ess ! i)) = map (file_byte C f b ?di) [DEV_BSIZE * i..<DEV_BSIZE * i + DEV_BSIZE]"
    using assms(5) by (auto simp: dir_ok_def)
  have le: "read_pos st ino \<le> di_size ?di" using assms(6,7) sz by simp
  have "min DEV_BSIZE (DEV_BSIZE * length ess - DEV_BSIZE * i) = (if i < length ess then DEV_BSIZE else 0)"
  proof (cases "i < length ess")
    case True
    then have "DEV_BSIZE * Suc i \<le> DEV_BSIZE * length ess" by (intro mult_le_mono2) simp
    with True show ?thesis by simp
  qed simp
  moreover obtain rc out st' where "fsread L dsk ino DEV_BSIZE st = Some (rc, out, st')" "length out \<le> DEV_BSIZE"
    and "rc = -1 \<and> N < errs (drive st') \<or> rc = int (min DEV_BSIZE (di_size ?di - read_pos st ino)) \<and>
      out = map (file_byte C f b ?di) [read_pos st ino..<read_pos st ino + min DEV_BSIZE (di_size ?di - read_pos st ino)] \<and>
      ufs_inv content errs N L C f b st' \<and> dsk_meta st' \<and> inomap st' = ino \<and>
      fs_off st' = read_pos st ino + min DEV_BSIZE (di_size ?di - read_pos st ino)"
    using fsread_ok [OF assms(1-4) fok, where nbyte = DEV_BSIZE, folded read_pos_def, OF le] by blast
  moreover have "dsk_meta st' \<Longrightarrow> inomap st' = ino \<Longrightarrow> read_pos st' ino = fs_off st'" by (rule read_posI)
  ultimately show ?thesis using blk unfolding sz assms(6)
    by (cases "i < length ess") (auto simp: add.commute)
qed

lemma fsfind_loop_ok:
  assumes "ufs_inv content errs N L C f b st" "the_fs L C = Some f" "wf_ino f b" "ino \<noteq> 0"
    and "dir_ok C f b k (inode_at L C f ino) ess" "read_pos st ino = DEV_BSIZE * i" "i \<le> length ess" "length buf = DEV_BSIZE"
  shows "\<exists>t ino' buf' st'. fsfind_loop L dsk False name ino buf out st = Some (t, ino', buf', out, st') \<and>
    length buf' = DEV_BSIZE \<and>
    (case hit name (concat (drop i ess)) of
       None \<Rightarrow> t = 0
     | Some (i', t') \<Rightarrow> t = 0 \<and> N < errs (drive st') \<or> t = t' \<and> ino' = i' \<and> ufs_inv content errs N L C f b st' \<and> inomap st' = ino)"
  using assms(1,6-)
proof (induction "length ess - i" arbitrary: i buf st)
  case 0
  then obtain rc bytes st' where "fsread L dsk ino DEV_BSIZE st = Some (rc, bytes, st')" "length bytes \<le> DEV_BSIZE"
      "rc = -1 \<or> rc = 0" "drop i ess = []"
    using read_dir_block [OF "0.prems"(1) assms(2-5) "0.prems"(2,3)] by auto
  then show ?case using "0.prems"(4) by (subst fsfind_loop.simps) auto
next
  case (Suc n)
  then have i: "i < length ess" by simp
  from i obtain rc bytes st1 where rd: "fsread L dsk ino DEV_BSIZE st = Some (rc, bytes, st1)" "length bytes \<le> DEV_BSIZE"
    and rc: "rc = -1 \<and> N < errs (drive st1) \<or> rc = int DEV_BSIZE \<and> bytes = concat (map enc_ent (ess ! i)) \<and>
      ufs_inv content errs N L C f b st1 \<and> inomap st1 = ino \<and> read_pos st1 ino = DEV_BSIZE * Suc i"
    using read_dir_block [OF Suc.prems(1) assms(2-5) Suc.prems(2,3)] by auto
  let ?buf = "put buf 0 bytes"
  have st: "store buf 0 bytes = Some ?buf" "length ?buf = DEV_BSIZE" using rd(2) Suc.prems(4) by auto
  have dr: "drop i ess = ess ! i # drop (Suc i) ess" using i by (simp add: Cons_nth_drop_Suc)
  show ?case
  proof (cases "rc = -1")
    case True
    with rc have "N < errs (drive st1)" by simp
    moreover have "fsfind_loop L dsk False name ino buf out st = Some (0, ino, ?buf, out, st1)"
      using True rd st by (subst fsfind_loop.simps) simp
    ultimately show ?thesis using st(2) by (auto split: option.splits prod.splits)
  next
    case False
    with rc have b: "bytes = concat (map enc_ent (ess ! i))" "rc > 0" "ufs_inv content errs N L C f b st1" "read_pos st1 ino = DEV_BSIZE * Suc i" "inomap st1 = ino"
      by (auto simp: DEV_BSIZE_def)
    have len: "length (concat (map enc_ent (ess ! i))) = DEV_BSIZE" and wf: "\<forall>e \<in> set (ess ! i). wf_ent e"
      using assms(5) i by (auto simp: dir_ok_def)
    have "?buf = concat (map enc_ent (ess ! i))" using b(1) len Suc.prems(4) by (simp add: put_def)
    then have sc: "scan_dir False name ?buf 0 out = Some (hit name (ess ! i), out)"
      using scan_dir_ok [of "[]" "ess ! i"] len wf by simp
    show ?thesis
    proof (cases "hit name (ess ! i)")
      case None
      then have "fsfind_loop L dsk False name ino buf out st = fsfind_loop L dsk False name ino ?buf out st1"
        using rd st sc b(2) by (subst fsfind_loop.simps) simp
      moreover have "n = length ess - Suc i" "Suc i \<le> length ess" using Suc.hyps(2) i by auto
      ultimately show ?thesis using Suc.hyps(1) [OF _ b(3,4) _ st(2)] None dr by (simp add: hit_append)
    next
      case (Some h)
      then have "fsfind_loop L dsk False name ino buf out st = Some (snd h, fst h, ?buf, out, st1)"
        using rd st sc b(2) by (subst fsfind_loop.simps) (simp split: prod.splits)
      then show ?thesis using Some dr b(3,5) st(2) by (auto simp: hit_append)
    qed
  qed
qed

lemma lookup_ok:
  assumes "ufs_inv content errs N L C f b st" "the_fs L C = Some f" "wf_ino f b" "tree_ok L C f b k D dirs"
    and "names_ok names" "t = DT_DIR \<Longrightarrow> ino \<in> D" "length buf = DEV_BSIZE"
  shows "\<exists>r out' st'. lookup L dsk (path_of names) ino t buf out st = Some (r, out', st') \<and>
    (case resolve dirs names ino t of
       None \<Rightarrow> r = 0
     | Some (i, ty) \<Rightarrow> r = 0 \<and> N < errs (drive st') \<or> r = (if ty = DT_REG then i else 0) \<and> ufs_inv content errs N L C f b st' \<and>
         inomap st' \<in> (if names = [] then {inomap st} else D) \<and> out' = out)"
  using assms(1,5-)
proof (induction names arbitrary: ino t buf out st)
  case Nil
  then show ?case by (simp add: lookup.simps path_of_def)
next
  case (Cons n ns)
  have n: "n \<noteq> []" "n \<noteq> [63]" "47 \<notin> set n" "length n \<le> MAXNAMLEN" and ns: "names_ok ns"
    using Cons.prems(2) by (auto simp: names_ok_def)
  have p: "path_of (n # ns) = 47 # n @ path_of ns" by (simp add: path_of_def)
  let ?st = "st\<lparr>ls := False, fs_off := 0\<rparr>"
  have inv: "ufs_inv content errs N L C f b ?st" using Cons.prems(1) by (auto simp: ufs_inv_def caches_ok_def)
  have step: "lookup L dsk (path_of (n # ns)) ino t buf out st =
      (if t \<noteq> DT_DIR then Some (0, out @ n @ map of_char '': not a directory.'' @ [10], st\<lparr>ls := False\<rparr>)
       else do { (dt, ino', buf', out', st') \<leftarrow> fsfind_loop L dsk False n ino buf out ?st;
                 if dt = 0 then Some (0, out', st') else lookup L dsk (path_of ns) ino' dt buf' out' st' })"
    using n by (subst lookup.simps) (simp add: p path_of_Cons fsfind_def Let_def)
  show ?case
  proof (cases "t = DT_DIR")
    case False
    then show ?thesis using step by simp
  next
    case True
    then have D: "ino \<in> D" using Cons.prems(3) by simp
    then have d: "ino \<noteq> 0" "dir_ok C f b k (inode_at L C f ino) (dirs ino)"
      and sub: "\<And>e. e \<in> set (concat (dirs ino)) \<Longrightarrow> de_type e = DT_DIR \<Longrightarrow> de_ino e \<in> D"
      using assms(4) unfolding tree_ok_def by blast+
    have "read_pos ?st ino = DEV_BSIZE * 0" by (simp add: read_pos_def)
    from fsfind_loop_ok [OF inv assms(2,3) d this _ Cons.prems(4), of n out]
    obtain dt ino' buf' st' where ff: "fsfind_loop L dsk False n ino buf out ?st = Some (dt, ino', buf', out, st')"
        "length buf' = DEV_BSIZE"
      and h: "case hit n (concat (dirs ino)) of None \<Rightarrow> dt = 0
        | Some (i', t') \<Rightarrow> dt = 0 \<and> N < errs (drive st') \<or> dt = t' \<and> ino' = i' \<and> ufs_inv content errs N L C f b st' \<and> inomap st' = ino"
      by auto
    have z: "dt = 0 \<Longrightarrow> lookup L dsk (path_of (n # ns)) ino t buf out st = Some (0, out, st')"
      using step True ff(1) by simp
    show ?thesis
    proof (cases "hit n (concat (dirs ino))")
      case None
      then show ?thesis using h z by (simp add: True)
    next
      case (Some it)
      then obtain i' t' where it: "hit n (concat (dirs ino)) = Some (i', t')" by (cases it) auto
      then obtain e where e: "e \<in> set (concat (dirs ino))" "de_ino e = i'" "de_type e = t'" using hit_SomeD by blast
      have "\<forall>es \<in> set (dirs ino). \<forall>e \<in> set es. wf_ent e" using d(2) by (metis dir_ok_def in_set_conv_nth)
      then have "wf_ent e" using e(1) by auto
      then have t0: "t' \<noteq> 0" using e(3) by (auto simp: wf_ent_def)
      show ?thesis
      proof (cases "dt = 0")
        case True
        then have "N < errs (drive st')" using h it t0 by auto
        then show ?thesis using z [OF True] by (auto split: option.splits prod.splits)
      next
        case False
        then have r: "dt = t'" "ino' = i'" "ufs_inv content errs N L C f b st'" "inomap st' = ino" using h it by auto
        have "lookup L dsk (path_of (n # ns)) ino t buf out st = lookup L dsk (path_of ns) i' t' buf' out st'"
          using step \<open>t = DT_DIR\<close> ff(1) r False by simp
        moreover obtain q out' st2 where IH: "lookup L dsk (path_of ns) i' t' buf' out st' = Some (q, out', st2)"
          and P: "case resolve dirs ns i' t' of None \<Rightarrow> q = 0
            | Some (i, ty) \<Rightarrow> q = 0 \<and> N < errs (drive st2) \<or> q = (if ty = DT_REG then i else 0) \<and>
                ufs_inv content errs N L C f b st2 \<and> inomap st2 \<in> (if ns = [] then {inomap st'} else D) \<and> out' = out"
          using Cons.IH [OF r(3) ns _ ff(2), of t' i' out] sub [OF e(1)] e by auto
        moreover have "resolve dirs (n # ns) ino t = resolve dirs ns i' t'" by (simp add: \<open>t = DT_DIR\<close> it)
        moreover have "(if ns = [] then {inomap st'} else D) \<subseteq> D" using r(4) D by simp
        ultimately show ?thesis by (cases "resolve dirs ns i' t'") (auto split: if_splits)
      qed
    qed
  qed
qed

end

text \<open>A small UFS2 file system: blocks of 4096 and fragments of 512 bytes.\<close>

definition demo_fs :: fs where
  "demo_fs = \<lparr>fs_magic = FS_UFS2_MAGIC, fs_sblockloc = 65536, fs_bsize = 4096, fs_bshift = 12, fs_qbmask = 4095,
     fs_qfmask = 511, fs_fmask = -512, fs_fsbtodb = 0, fs_nindir = 512, fs_inopb = 16, fs_ipg = 32, fs_fpg = 200,
     fs_iblkno = 160, fs_old_cgoffset = 0, fs_old_cgmask = 0\<rparr>"

definition demo_di :: dinode where
  "demo_di = \<lparr>di_size = 600, di_db = replicate NDADDR 168, di_ib0 = 0\<rparr>"

definition demo_layout :: layout where
  "demo_layout = \<lparr>decode_fs = \<lambda>_. demo_fs, decode_dinode1 = \<lambda>_. demo_di, decode_dinode2 = \<lambda>_. demo_di\<rparr>"

lemma demo_fs_ok: "wf_fs demo_fs 12 9" "wf_ino demo_fs 12" "the_fs demo_layout C = Some demo_fs"
  by (simp_all add: wf_fs_def wf_ino_def ino_size_def the_fs_def sb_at_def sblock_try_def sb_ok_def demo_fs_def
      demo_layout_def FS_UFS1_MAGIC_def FS_UFS2_MAGIC_def MAXBSIZE_def SIZEOF_FS_def)

section \<open>Where the reader goes wrong\<close>

lemma zero_reclen_loops:
  assumes "s < DEV_BSIZE" "cstr buf (s + 8) = Some nm" "nm \<noteq> name" "d_reclen buf s = Some 0"
  shows "scan_dir False name buf s out = None"
proof (rule ccontr)
  assume "scan_dir False name buf s out \<noteq> None"
  then obtain y where y: "scan_dir False name buf s out = Some y" by blast
  define P where "P lsf nme bf i (o' :: byte list) (r :: (nat \<times> nat) option \<times> byte list) \<longleftrightarrow>
    \<not> (\<not> lsf \<and> nme = name \<and> bf = buf \<and> i = s)" for lsf nme bf i o' r
  have "P False name buf s out y"
  proof (rule scan_dir.raw_induct [OF _ y, of P])
    fix scan lsf nme bf i o' r
    assume IH: "\<And>lsf nme bf i o' r. scan lsf nme bf i o' = Some r \<Longrightarrow> P lsf nme bf i o' r"
      and eq: "(if i < DEV_BSIZE then do {
        nm \<leftarrow> cstr bf (i + 8);
        if \<not> lsf \<and> nm = nme then do { k \<leftarrow> d_ino bf i; t \<leftarrow> d_type bf i; Some (Some (k, t), o') }
        else do { r \<leftarrow> d_reclen bf i; scan lsf nme bf (i + r) (if lsf then o' @ nm @ [32] else o') }
      } else Some (None, o')) = Some r"
    show "P lsf nme bf i o' r"
    proof (rule ccontr)
      assume "\<not> P lsf nme bf i o' r"
      then have c: "\<not> lsf" "nme = name" "bf = buf" "i = s" by (auto simp: P_def)
      with eq assms have "scan lsf name buf s o' = Some r" by simp
      from IH [OF this] c show False by (simp add: P_def)
    qed
  qed
  then show False by (simp add: P_def)
qed

text \<open>Entries of other names are passed.\<close>

lemma scan_dir_passes:
  assumes "length (pre @ concat (map enc_ent es) @ rest) = DEV_BSIZE" "\<forall>e \<in> set es. wf_ent e" "hit name es = None"
  shows "scan_dir False name (pre @ concat (map enc_ent es) @ rest) (length pre) out =
    scan_dir False name (pre @ concat (map enc_ent es) @ rest) (length pre + length (concat (map enc_ent es))) out"
  using assms
proof (induction es arbitrary: pre)
  case (Cons e es)
  let ?buf = "pre @ concat (map enc_ent (e # es)) @ rest"
  have "wf_ent e" using Cons.prems(2) by simp
  note flds = ent_fields [OF this, of pre "concat (map enc_ent es) @ rest"]
  have lt: "length pre < DEV_BSIZE" using Cons.prems(1) by (simp add: ent_len_def)
  have "scan_dir False name ?buf (length pre) out = scan_dir False name ?buf (length pre + ent_len e) out"
    using Cons.prems(3) lt flds by (subst scan_dir.simps) (simp split: if_splits)
  then show ?case using Cons.IH [of "pre @ enc_ent e"] Cons.prems by (simp add: add.assoc split: if_splits)
qed simp

text \<open>
  An entry whose record length is 0 stops the boot program.  When a block of a directory that is searched for a name holds
  entries of other names and behind them an entry of record length 0 that has another name too, as in a zeroed block,
  \<^verbatim>\<open>fsfind\<close> does not return: it advances by \<^verbatim>\<open>d_reclen\<close> without looking at it and examines that entry for ever.
\<close>

theorem zero_reclen_hangs:
  assumes "\<not> ls st" "fsread L dsk ino DEV_BSIZE (st\<lparr>fs_off := 0\<rparr>) = Some (rc, concat (map enc_ent es) @ rest, st1)" "0 < rc"
    and "length buf = DEV_BSIZE" "length (concat (map enc_ent es) @ rest) = DEV_BSIZE"
    and "\<forall>e \<in> set es. wf_ent e" "hit name es = None"
    and "rest \<noteq> []" "cstr rest 8 = Some nm" "nm \<noteq> name" "d_reclen rest 0 = Some 0"
  shows "fsfind L dsk name ino buf out st = None"
proof -
  let ?b = "concat (map enc_ent es) @ rest" and ?s = "length (concat (map enc_ent es))"
  have "cstr ?b (?s + 8) = Some nm" using assms(9) by (auto simp: cstr_iff)
  moreover have "d_reclen ?b ?s = Some 0" using assms(11) by (auto simp: d_reclen_def le_field_def slice_Some_iff)
  moreover have "?s < DEV_BSIZE" using assms(5,8) by (cases rest) simp_all
  ultimately have "scan_dir False name ?b ?s out = None" using zero_reclen_loops [of ?s ?b nm name] assms(10) by blast
  then have "scan_dir False name ?b 0 out = None" using scan_dir_passes [of "[]" es rest name out] assms(5-7) by simp
  moreover have "store buf 0 ?b = Some ?b" using assms(4,5) by (simp add: store_def put_def)
  ultimately show ?thesis using assms(1-3) by (simp add: fsfind_def fsfind_loop.simps)
qed

text \<open>
  A hole at the start of a file is not read as zeros.  Right after its inode was loaded the block cache
  is marked with address 0, which is also the address of a hole, so the bytes returned are those that the
  buffer holds: the block of inodes.
\<close>

theorem hole_returns_inode_block:
  assumes "wf_fs (decode_fs L (sbbuf st)) b k" "dsk_meta st" "inomap st = ino" "ino \<noteq> 0"
    and "blkmap st = 0" "fs_off st = 0" "length (di_db (dp st)) = NDADDR" "di_db (dp st) ! 0 = 0"
    and "length (blkbuf st) = 4096" "di_size (dp st) < 2 ^ 31" "0 < n" "n \<le> di_size (dp st)" "n \<le> 512"
  shows "fsread L dsk ino n st = Some (int n, take n (blkbuf st), st\<lparr>fs_off := n\<rparr>)"
proof -
  let ?f = "decode_fs L (sbbuf st)" and ?sz = "di_size (dp st)"
  let ?l = "vblk_len ?f ?sz 0 0"
  have pos: "0 < ?sz" using assms(11,12) by simp
  note vl = vblk_len_eq [OF assms(1) pos, simplified]
  have "512 dvd ?l" using vl(3) by (simp only: mod_eq_0_iff_dvd)
  moreover have "?l \<noteq> 0" using vl(2) by simp
  ultimately have l: "512 \<le> ?l" by (auto dest: dvd_imp_le)
  have s: "sub32 ?l 0 = ?l" using vl(4) by (intro sub32_le [of 0 ?l, simplified]) simp
  have "block_addr L dsk 0 st = Some (Inr (0, st))" using assms(7,8) by (simp add: block_addr_def NDADDR_def)
  moreover have "get_block dsk 0 x st = Inr st" for x using assms(5) by (simp add: get_block_def)
  moreover have "slice (blkbuf st) 0 n = Some (take n (blkbuf st))" using assms(9,13) by simp
  moreover have "n mod 4294967296 = n" using assms(13) by simp
  moreover have "\<not> ?l < n \<Longrightarrow> (if n < ?l then n else ?l) = n" by simp
  ultimately have "read_round L dsk ?sz n st = Some (Inr (take n (blkbuf st), st\<lparr>fs_off := n\<rparr>))"
    using l assms(6,13)
    by (simp add: read_round_def Let_def lblkno_div [OF assms(1)] blkoff_mod [OF assms(1)] fsbtodb_def VBLKSIZE_def s)
  then have "read_loop L dsk ?sz n n [] st = Some (ssize n, take n (blkbuf st), st\<lparr>fs_off := n\<rparr>)"
    using assms(9,11,13) by (simp add: read_loop.simps [of L dsk ?sz n n] read_loop.simps [of L dsk ?sz n 0])
  moreover have "ssize n = int n" using assms(13) by (intro ssize_small) simp
  ultimately show ?thesis using assms(2-4,6,10,12) sub32_le [of 0 ?sz]
    by (simp add: fsread_def get_meta_def get_inode_def Let_def)
qed

definition hole_ufs :: "unit ufs" where
  "hole_ufs = \<lparr>dmadat = 0, blkbuf = replicate 4096 1, indbuf = [], sbbuf = [], dsk_meta = True, fs_off = 0, inomap = 5,
     dp = \<lparr>di_size = 600, di_db = replicate NDADDR 0, di_ib0 = 0\<rparr>, blkmap = 0, indmap = 0, ls = False, drive = ()\<rparr>"

theorem hole_returns_inode_block_witness:
  "\<exists>st'. fsread demo_layout (\<lambda>pa buf lba n d. (0, buf, d)) 5 3 hole_ufs = Some (3, [1, 1, 1], st')"
  using hole_returns_inode_block [of demo_layout hole_ufs 12 9 5 3 "\<lambda>pa buf lba n d. (0, buf, d)"] demo_fs_ok(1)
  by (simp add: hole_ufs_def NDADDR_def demo_layout_def numeral_3_eq_3)

text \<open>A directory whose block is zeroed is searched for the name k.\<close>

definition zero_ufs :: "unit ufs" where
  "zero_ufs = hole_ufs\<lparr>blkbuf := replicate 4096 0\<rparr>"

theorem zero_reclen_hangs_witness: "fsfind demo_layout (\<lambda>pa buf lba n d. (0, buf, d)) [107] 5 (replicate 512 9) [] zero_ufs = None"
proof -
  have "fsread demo_layout (\<lambda>pa buf lba n d. (0, buf, d)) 5 DEV_BSIZE (zero_ufs\<lparr>fs_off := 0\<rparr>) =
      Some (int DEV_BSIZE, take DEV_BSIZE (replicate 4096 0), zero_ufs\<lparr>fs_off := DEV_BSIZE\<rparr>)"
    using hole_returns_inode_block [of demo_layout "zero_ufs\<lparr>fs_off := 0\<rparr>" 12 9 5 DEV_BSIZE "\<lambda>pa buf lba n d. (0, buf, d)"] demo_fs_ok(1)
    by (simp add: zero_ufs_def hole_ufs_def NDADDR_def demo_layout_def DEV_BSIZE_def)
  then have "fsread demo_layout (\<lambda>pa buf lba n d. (0, buf, d)) 5 DEV_BSIZE (zero_ufs\<lparr>fs_off := 0\<rparr>) =
      Some (int DEV_BSIZE, concat (map enc_ent []) @ replicate 512 0, zero_ufs\<lparr>fs_off := DEV_BSIZE\<rparr>)" by (simp add: DEV_BSIZE_def)
  moreover have "cstr (replicate 512 0) 8 = Some []" by (simp add: cstr_def)
  moreover have "d_reclen (replicate 512 0) 0 = Some 0"
    by (simp add: d_reclen_def le_field_def slice_def numeral_2_eq_2)
  ultimately show ?thesis using zero_reclen_hangs [where st = zero_ufs and es = "[]" and rest = "replicate 512 0" and nm = "[]" and name = "[107]"]
    by (simp add: DEV_BSIZE_def zero_ufs_def hole_ufs_def)
qed

end
