(* ===== verification/GptbootFacts.thy ===== *)
theory GptbootFacts
  imports Gptboot UfsDir
begin

text \<open>
  What \<^verbatim>\<open>gptboot\<close> promises: files and paths of the partition it selected, the boot command line, and the images it
  loads.  The contract of \<^verbatim>\<open>dskread\<close> that the file system reader relies on is discharged here for \<^verbatim>\<open>drv.c\<close> over
  drive images.
\<close>

section \<open>Reading the partition\<close>

definition part_byte :: "dsk \<Rightarrow> image mach \<Rightarrow> int \<Rightarrow> byte" where
  "part_byte g m a = ram_sect (drives m) (word_of_int (a div 512) + dsk_start g) ! nat (a mod 512)"

text \<open>The failed reads are those that \<^verbatim>\<open>drvread\<close> has reported on the console.\<close>

definition read_errors :: "'d mach \<Rightarrow> nat" where
  "read_errors m = length (filter (\<lambda>x. fst x = ''%s: error %u lba %u\<newline>'') (console m))"

lemma read_errors_say: "read_errors (say fmt args m) = (if fmt = ''%s: error %u lba %u\<newline>'' then Suc (read_errors m) else read_errors m)"
  by (simp add: read_errors_def say_def)

lemma read_errors_edd: "edd_rw bios fn g pa buf lba n m = (c, buf', m') \<Longrightarrow> read_errors m' = read_errors m"
  by (auto simp: edd_rw_def Let_def read_errors_def split: prod.splits)

lemma read_errors_spin: "read_errors (spin m) = read_errors m"
  by (simp add: spin_def Let_def read_errors_say) (simp add: read_errors_def)

lemma dskread_errors:
  assumes "dskread bios bootprog g pa buf lba n m = (rc, buf', m')"
  shows "read_errors m' = (if rc = 0 then read_errors m else Suc (read_errors m))"
proof -
  obtain c b m1 where e: "edd_rw bios 0x4200 g pa buf (word_of_int lba + dsk_start g) (word_of_nat n) (spin m) = (c, b, m1)" by (metis prod_cases3)
  then show ?thesis using assms read_errors_edd [OF e]
    by (auto simp: dskread_def drvread_def read_errors_say read_errors_spin split: if_splits)
qed

lemma ram_read_part:
  assumes "i < c * 512"
  shows "ram_read (drives m) (word_of_int lba + dsk_start g) c ! i = part_byte g m (512 * lba + int i)"
proof -
  have "(512 * lba + int i) div 512 = lba + int (i div 512)" "nat ((512 * lba + int i) mod 512) = i mod 512"
    by (simp_all add: nat_mod_as_int)
  then show ?thesis using nth_ram_read [of i c] assms by (simp add: part_byte_def DEV_BSIZE_def ac_simps)
qed

lemma part_reader:
  assumes "\<And>regs pkt par buf img. v86_eax regs = 0x4200 \<Longrightarrow>
    (\<exists>regs' par' buf'. bios regs pkt par buf img = (regs', par', buf', img) \<and> (V86_CY (v86_efl regs') \<longrightarrow> buf' = buf) \<and>
       (\<not> V86_CY (v86_efl regs') \<longrightarrow> buf' = put buf 0 (ram_read img (pkt_lba pkt) (unat (pkt_count pkt)))))"
  shows "block_reader (dskread bios bootprog g) (part_byte g) read_errors"
proof
  fix c :: nat and buf pa lba m rc buf' m'
  assume c: "c * 512 \<le> length buf" "c < 2 ^ 16" and run: "dskread bios bootprog g pa buf lba c m = (rc, buf', m')"
  let ?s = "word_of_int lba + dsk_start g"
  have cnt: "unat (ucast (word_of_nat c :: u32) :: u16) = c" using c(2)
    by (simp add: unsigned_ucast_eq unat_of_nat take_bit_nat_eq_self)
  let ?regs = "(v86 (spin m))\<lparr>v86_ctl := V86_FLAGS, v86_addr := 0x13, v86_eax := 0x4200,
      v86_edx := dsk_drive g, v86_ds := ucast (VTOPSEG (pa_packet (spin m))), v86_esi := ucast (VTOPOFF (pa_packet (spin m)))\<rparr>"
  let ?pkt = "\<lparr>pkt_len = 16, pkt_count = ucast (word_of_nat c :: u32), pkt_off = VTOPOFF pa, pkt_seg = VTOPSEG pa, pkt_lba = ?s\<rparr>"
  obtain regs' par' b where b: "bios ?regs ?pkt (params (spin m)) buf (drives m) = (regs', par', b, drives m)"
    "V86_CY (v86_efl regs') \<Longrightarrow> b = buf" "\<not> V86_CY (v86_efl regs') \<Longrightarrow> b = put buf 0 (ram_read (drives m) ?s c)"
    using assms [of ?regs ?pkt "params (spin m)" buf "drives m"] cnt by auto
  have len: "length (ram_read (drives m) ?s c) \<le> length buf" using c(1) by (simp add: DEV_BSIZE_def)
  have res: "length buf' = length buf" "drives m' = drives m" "rc = 0 \<Longrightarrow> buf' = put buf 0 (ram_read (drives m) ?s c)"
    using run b len by (auto simp: dskread_def drvread_def edd_rw_def Let_def say_def split: if_splits)
  moreover have "part_byte g m' = part_byte g m" using res by (simp add: part_byte_def [abs_def])
  moreover have "buf' ! i = part_byte g m (512 * lba + int i)" if "rc = 0" "i < c * 512" for i
    using res(3) [OF that(1)] that(2) len ram_read_part [OF that(2), of m lba g] by (simp add: nth_put DEV_BSIZE_def)
  ultimately show "length buf' = length buf \<and> part_byte g m' = part_byte g m \<and>
      read_errors m' = (if rc = 0 then read_errors m else Suc (read_errors m)) \<and>
      (rc = 0 \<longrightarrow> (\<forall>i < c * 512. buf' ! i = part_byte g m (512 * lba + int i)))"
    using dskread_errors [OF run] by simp
qed

interpretation part: block_reader "dskread (ram_bios n) bootprog g" "part_byte g" read_errors
  by (rule part_reader) (auto simp: ram_bios_def Let_def V86_CY_def)

section \<open>Reading files\<close>

text \<open>
  C26: \<^verbatim>\<open>fsread\<close> delivers the file.  Over any drive that keeps the contract of \<^verbatim>\<open>dskread\<close>, on a consistent
  file system and a file without holes within reach of the single indirect block, and in any state of the
  caches that successful calls leave behind, a call returns.  It stores exactly the next
  \<open>min nbyte (size - p)\<close> bytes of the file, where \<open>p\<close> is the place the last read of the same file ended at and
  0 for another file, and leaves the caches consistent and the offset after those bytes; or it reports -1, and then a
  read of the drive has failed during the call, which the count \<open>errs\<close> of failed reads shows.
\<close>

theorem fsread_delivers:
  fixes nbyte :: nat
  assumes "block_reader dsk content errs" "ufs_inv content errs N L C f b st" "the_fs L C = Some f" "wf_ino f b" "ino \<noteq> 0"
    and "file_ok C f b k (inode_at L C f ino)" "read_pos st ino \<le> di_size (inode_at L C f ino)"
  shows "\<exists>rc out st'. fsread L dsk ino nbyte st = Some (rc, out, st') \<and> length out \<le> nbyte \<and>
    (rc = -1 \<and> N < errs (drive st') \<or>
     (let di = inode_at L C f ino; p = read_pos st ino; m = min nbyte (di_size di - p)
      in rc = int m \<and> out = map (file_byte C f b di) [p..<p + m] \<and>
         ufs_inv content errs N L C f b st' \<and> dsk_meta st' \<and> inomap st' = ino \<and> fs_off st' = p + m))"
  unfolding Let_def by (rule block_reader.fsread_ok [OF assms(1-6), folded read_pos_def, OF assms(7)])

definition demo_ufs :: "image mach ufs" where
  "demo_ufs = \<lparr>dmadat = 0x20000, blkbuf = replicate 4096 0, indbuf = replicate 4096 0, sbbuf = replicate SBLOCKSIZE 0,
     dsk_meta = False, fs_off = 0, inomap = 0, dp = demo_di, blkmap = 0, indmap = 0, ls = False,
     drive = demo_mach\<rparr>"

lemma demo_file_ok: "file_ok C demo_fs 12 9 demo_di"
proof -
  have vb: "vbno C demo_fs 12 demo_di p = 168" "vlen demo_fs 12 demo_di p = 1024" if "p < 600" for p
    using that vblk_len_eq(1) [OF demo_fs_ok(1), of p 600]
    by (simp_all add: vbno_def vlen_def baddr_def demo_di_def demo_fs_def fsbtodb_def NDADDR_def blk_len_def)
  show ?thesis unfolding file_ok_def using demo_fs_ok(1) vb by (simp add: demo_di_def NDADDR_def)
qed

lemma demo_state: "read_pos demo_ufs 5 = 0" "di_size demo_di = 600" "drive demo_ufs = demo_mach"
  by (simp_all add: demo_ufs_def demo_di_def read_pos_def)

text \<open>A drive whose reads always succeed.\<close>

definition mem_disk :: "(int \<Rightarrow> byte) disk" where
  "mem_disk pa buf lba n d = (0, put buf 0 (bytes_at d (512 * lba) (n * 512)), d)"

interpretation mem: block_reader mem_disk "\<lambda>d. d" "\<lambda>_. 0"
  by unfold_locales (auto simp: mem_disk_def bytes_at_def nth_put)

definition file_ufs :: "(int \<Rightarrow> byte) ufs" where
  "file_ufs = \<lparr>dmadat = 0x20000, blkbuf = replicate 4096 0, indbuf = replicate 4096 0, sbbuf = replicate SBLOCKSIZE 0,
     dsk_meta = False, fs_off = 0, inomap = 0, dp = demo_di, blkmap = 0, indmap = 0, ls = False,
     drive = (\<lambda>a. if a = 86017 then 7 else 0)\<rparr>"

text \<open>The second byte of the file is the 7.\<close>

theorem fsread_delivers_witness: "\<exists>st'. fsread demo_layout mem_disk 5 3 file_ufs = Some (3, [0, 7, 0], st') \<and> fs_off st' = 3"
proof -
  have i: "inode_at demo_layout C demo_fs 5 = demo_di" for C by (simp add: inode_at_def demo_layout_def)
  have "ufs_inv (\<lambda>d. d) (\<lambda>_. 0) 0 demo_layout (drive file_ufs) demo_fs 12 file_ufs" by (simp add: ufs_inv_def file_ufs_def)
  from fsread_delivers [OF mem.block_reader_axioms this demo_fs_ok(3,2), of 5 9 3]
  obtain out st' where f: "fsread demo_layout mem_disk 5 3 file_ufs = Some (3, map (file_byte (drive file_ufs) demo_fs 12 demo_di) [0..<3], st')" "fs_off st' = 3"
    by (auto simp: i demo_file_ok Let_def demo_state read_pos_def) (auto simp: file_ufs_def)
  have b: "file_byte (drive file_ufs) demo_fs 12 demo_di p = (if p = 1 then 7 else 0)" if "p < 3" for p
    using that by (auto simp: file_byte_def baddr_def demo_di_def NDADDR_def fsbtodb_def demo_fs_def file_ufs_def)
  have "map (file_byte (drive file_ufs) demo_fs 12 demo_di) [0..<3] = [0, 7, 0]"
    using b [of 0] b [of 1] b [of 2] by (simp add: numeral_3_eq_3 numeral_2_eq_2)
  then show ?thesis using f by simp
qed

section \<open>Path lookup\<close>

text \<open>
  C27: \<^verbatim>\<open>lookup\<close> resolves paths.  On a tree of well-formed directories without deleted entries, without holes and within
  reach of the single indirect block, for a path of names that are not \<open>?\<close>, the walk ends, and its result is the inode of the regular file that the path names: the first entry
  of each name decides.  It is 0 for a name that is missing, a component that is not a directory and a path to
  anything else; for an existing file it is 0 only when a read of the drive has failed during the walk.
\<close>

theorem lookup_resolves:
  assumes "block_reader dsk content errs" "ufs_inv content errs N L C f b st" "the_fs L C = Some f" "wf_ino f b"
    and "tree_ok L C f b k D dirs" "ROOTINO \<in> D" "names_ok names" "length buf = DEV_BSIZE"
  shows "\<exists>r out' st'. lookup L dsk (path_of names) ROOTINO DT_DIR buf out st = Some (r, out', st') \<and>
    (case resolve dirs names ROOTINO DT_DIR of
       None \<Rightarrow> r = 0
     | Some (i, ty) \<Rightarrow> r = 0 \<and> N < errs (drive st') \<or> r = (if ty = DT_REG then i else 0) \<and> ufs_inv content errs N L C f b st')"
  using block_reader.lookup_ok [OF assms(1-5,7) assms(6) assms(8), of DT_DIR out] by (fastforce split: option.splits prod.splits)

text \<open>A root directory with one file.\<close>

definition demo_ents :: "dirent list" where
  "demo_ents =
     [\<lparr>de_ino = 2, de_type = DT_DIR, de_name = [46], de_pad = [0, 0]\<rparr>,
      \<lparr>de_ino = 5, de_type = DT_REG, de_name = map of_char ''kernel'', de_pad = replicate 485 0\<rparr>]"

definition demo_content :: "int \<Rightarrow> byte" where
  "demo_content a =
     (if a = 82432 then 1
      else if 102400 \<le> a \<and> a < 102912 then concat (map enc_ent demo_ents) ! nat (a - 102400) else 0)"

definition root_di :: dinode where
  "root_di = \<lparr>di_size = 512, di_db = replicate NDADDR 200, di_ib0 = 0\<rparr>"

definition tree_layout :: layout where
  "tree_layout = demo_layout\<lparr>decode_dinode2 := \<lambda>bs. if hd bs = 1 then root_di else demo_di\<rparr>"

text \<open>The contents that the tree needs: the mark of the root inode and the entries of the root directory.\<close>

definition tree_content :: "(int \<Rightarrow> byte) \<Rightarrow> bool" where
  "tree_content C \<longleftrightarrow> C 82432 = 1 \<and> C 83200 \<noteq> 1 \<and> (\<forall>p < 512. C (102400 + int p) = concat (map enc_ent demo_ents) ! p)"

lemma tree_inodes:
  assumes "tree_content C"
  shows "inode_at tree_layout C demo_fs 2 = root_di" "inode_at tree_layout C demo_fs 5 = demo_di"
  using assms by (simp_all add: inode_at_def tree_layout_def bytes_at_def ino_addr_def demo_fs_def tree_content_def ino_size_def
      FS_UFS1_MAGIC_def FS_UFS2_MAGIC_def hd_map upt_conv_Cons fsbtodb_def cgimin_def)

lemma root_file_ok: "file_ok C demo_fs 12 9 root_di"
proof -
  have vb: "vbno C demo_fs 12 root_di p = 200" "vlen demo_fs 12 root_di p = 512" if "p < 512" for p
    using that vblk_len_eq(1) [OF demo_fs_ok(1), of p 512]
    by (simp_all add: vbno_def vlen_def baddr_def root_di_def demo_fs_def fsbtodb_def NDADDR_def blk_len_def)
  show ?thesis unfolding file_ok_def using demo_fs_ok(1) vb by (simp add: root_di_def NDADDR_def)
qed

lemma demo_tree:
  assumes "tree_content C"
  shows "tree_ok tree_layout C demo_fs 12 9 {2} (\<lambda>_. [demo_ents])"
proof -
  have len: "length (concat (map enc_ent demo_ents)) = 512" by (simp add: demo_ents_def ent_len_def)
  have "file_byte C demo_fs 12 root_di p = concat (map enc_ent demo_ents) ! p" if "p < 512" for p
    using that assms by (simp add: file_byte_def baddr_def root_di_def NDADDR_def fsbtodb_def demo_fs_def tree_content_def)
  then have "concat (map enc_ent demo_ents) = map (file_byte C demo_fs 12 root_di) [0..<512]"
    using len by (intro nth_equalityI) simp_all
  moreover have "\<forall>e \<in> set demo_ents. wf_ent e" by (simp add: demo_ents_def wf_ent_def DT_DIR_def DT_REG_def ent_len_def)
  ultimately show ?thesis using root_file_ok tree_inodes(1) [OF assms]
    by (simp add: tree_ok_def dir_ok_def DEV_BSIZE_def) (simp add: root_di_def demo_ents_def DT_DIR_def DT_REG_def)
qed

lemma demo_content_ok: "tree_content demo_content"
  by (simp add: tree_content_def demo_content_def)

lemma tree_fs: "the_fs tree_layout C = Some demo_fs"
  using demo_fs_ok(3) by (simp add: the_fs_def sb_at_def tree_layout_def)

lemma demo_names: "names_ok [map of_char ''kernel'']" "hit (map of_char ''kernel'') demo_ents = Some (5, DT_REG)"
  by (simp_all add: names_ok_def MAXNAMLEN_def demo_ents_def)

definition mem_ufs :: "(int \<Rightarrow> byte) ufs" where
  "mem_ufs = \<lparr>dmadat = 0x20000, blkbuf = replicate 4096 0, indbuf = replicate 4096 0, sbbuf = replicate SBLOCKSIZE 0,
     dsk_meta = False, fs_off = 0, inomap = 0, dp = demo_di, blkmap = 0, indmap = 0, ls = False,
     drive = demo_content\<rparr>"

theorem lookup_resolves_witness:
  "\<exists>out st. lookup tree_layout mem_disk (path_of [map of_char ''kernel'']) ROOTINO DT_DIR (replicate 512 0) [] mem_ufs
     = Some (5, out, st)"
proof -
  have inv: "ufs_inv (\<lambda>d. d) (\<lambda>_. 0) 0 tree_layout demo_content demo_fs 12 mem_ufs" by (simp add: ufs_inv_def mem_ufs_def)
  from lookup_resolves [OF mem.block_reader_axioms inv tree_fs demo_fs_ok(2) demo_tree [OF demo_content_ok] _ demo_names(1),
      of "replicate 512 0" "[]"]
  show ?thesis using demo_names(2) by (auto simp: ROOTINO_def DEV_BSIZE_def)
qed

end
