(* ===== verification/GptbootParse.thy ===== *)
theory GptbootParse
  imports Gptboot
begin

text \<open>
  The command line of \<^verbatim>\<open>gptboot\<close>: \<^verbatim>\<open>parse\<close> accepts what the prompt prints, toggles options, and stays inside the line
  whenever a byte follows its terminator.
\<close>

section \<open>Words\<close>

lemma rd_append [simp]: "rd (xs @ y # ys) (length xs) = Some y"
  by (simp add: rd_def)

lemma word_end_app:
  assumes "\<forall>c \<in> set w. c \<noteq> 0 \<and> \<not> is_blank c" "c = 0 \<or> is_blank c"
  shows "word_end (pre @ w @ c # post) (length pre) = Some (length pre + length w)"
  using assms(1)
proof (induction w arbitrary: pre)
  case Nil
  then show ?case using assms(2) by (simp add: word_end.simps)
next
  case (Cons x w)
  then show ?case using Cons.IH [of "pre @ [x]"] by (subst word_end.simps) simp
qed

lemma find_paren_app:
  assumes "\<forall>c \<in> set w. c \<noteq> 0 \<and> c \<noteq> 40" "c = 0 \<or> c = 40"
  shows "find_paren (pre @ w @ c # post) (length pre) = Some (length pre + length w)"
  using assms(1)
proof (induction w arbitrary: pre)
  case Nil
  then show ?case using assms(2) by (simp add: find_paren.simps)
next
  case (Cons x w)
  then show ?case using Cons.IH [of "pre @ [x]"] by (subst find_paren.simps) simp
qed

section \<open>The line stays inside its buffer\<close>

lemma find_paren_ex:
  assumes "q \<le> n" "n < length buf" "buf ! n = 0"
  shows "\<exists>r. find_paren buf q = Some r \<and> q \<le> r \<and> r \<le> n \<and> (buf ! r = 0 \<or> buf ! r = 40)"
  using assms(1)
proof (induction rule: inc_induct)
  case base
  show ?case using assms(2,3) by (simp add: find_paren.simps)
next
  case (step q)
  then show ?case using assms(2) by (subst find_paren.simps) (auto simp: rd_def intro: Suc_leD)
qed

lemma word_end_ex:
  assumes "q \<le> n" "n < length buf" "buf ! n = 0"
  shows "\<exists>r. word_end buf q = Some r \<and> q \<le> r \<and> r \<le> n \<and> (buf ! r = 0 \<or> is_blank (buf ! r))"
  using assms(1)
proof (induction rule: inc_induct)
  case base
  show ?case using assms(2,3) by (simp add: word_end.simps)
next
  case (step q)
  then show ?case using assms(2) by (subst word_end.simps) (auto simp: rd_def intro: Suc_leD)
qed

lemma speed_digits_ex:
  assumes "a \<le> n" "n < length buf" "buf ! n = 0"
  shows "\<exists>r. speed_digits buf a j = Some r"
  using assms(1)
proof (induction arbitrary: j rule: inc_induct)
  case base
  show ?case using assms(2,3) by (simp add: speed_digits.simps)
next
  case (step a)
  then show ?case using assms(2) by (subst speed_digits.simps) (auto simp: rd_def)
qed

text \<open>The name of the program stays a string in its buffer.\<close>

definition kname_ok :: "'d gb \<Rightarrow> bool" where
  "kname_ok g \<longleftrightarrow> length (kname g) = KNAME_SIZE \<and> 0 \<in> set (kname g)"

lemma kname_set [simp]:
  "kname (set_mach m g) = kname g" "kname (gsay f as g) = kname g" "kname (set_opts w g) = kname g"
  "kname (set_ioctrl e g) = kname g"
  by (simp_all add: set_mach_def gsay_def set_opts_def set_ioctrl_def Let_def)

lemma parse_opts_ex:
  assumes "a \<le> n" "n < length buf" "buf ! n = 0"
  shows "\<exists>ok g'. parse_opts e buf a g = Some (ok, g') \<and> kname g' = kname g"
  using assms(1)
proof (induction arbitrary: g rule: inc_induct)
  case base
  show ?case using assms(2,3) by (simp add: parse_opts.simps) blast
next
  case (step i)
  have IH: "\<exists>ok g'. parse_opts e buf (Suc i) g1 = Some (ok, g') \<and> kname g' = kname g1" for g1 by (rule step.IH)
  obtain r where r: "speed_digits buf (Suc i) 0 = Some r"
    using speed_digits_ex [of "Suc i" n buf 0] assms(2,3) step.hyps by (meson Suc_leI)
  show ?case using assms(2) step.hyps r IH
    by (subst parse_opts.simps) (auto simp: rd_def split: option.splits prod.splits, (metis kname_set)+)
qed

text \<open>The device part reads at most one byte past the end of its word.\<close>

lemma parse_part_ex:
  assumes "q \<le> n" "Suc n < length buf" "buf ! n = 0" "buf ! q = 40"
  shows "\<exists>r g'. parse_part buf a q drv g = Some (r, g') \<and> kname g' = kname g \<and> (\<forall>a'. r = Some a' \<longrightarrow> a' \<le> n)"
proof (cases "int q - int a = 2")
  case False
  then show ?thesis by (simp add: parse_part_def)
next
  case True
  then have q: "q = a + 2" by linarith
  have qn: "q < n" using assms(1,3,4) by (cases "q = n") auto
  have rd: "rd buf i = Some (buf ! i)" if "i \<le> Suc n" for i using that assms(2) by simp
  have nul: "i < n" if "i \<le> n" "buf ! i \<noteq> 0" for i using that assms(3) by (cases "i = n") auto
  let ?u = "buf ! (a + 3)"
  have sl: "slice buf a 2 = Some (take 2 (drop a buf))" using q qn assms(2) by simp
  have u: "a + 3 < n" if "\<not> (word_of_int (digit ?u) :: u32) > 9"
  proof (rule nul)
    show "a + 3 \<le> n" using q qn by simp
    show "?u \<noteq> 0" using that by (auto simp: digit_def)
  qed
  have p: "a + 4 < n" if "a + 3 < n" "buf ! (a + 4) = 112" using that nul [of "a + 4"] by simp
  have d: "a + 5 < n" if "a + 4 < n" "\<not> digit (buf ! (a + 5)) < 1"
    using that nul [of "a + 5"] by (cases "buf ! (a + 5) = 0") (auto simp: digit_def)
  have r: "a + 6 < n" if "a + 5 < n" "buf ! (a + 6) = 41" using that nul [of "a + 6"] by simp
  have *: "rd buf (a + 3) = Some ?u" "rd buf (a + 4) = Some (buf ! (a + 4))" using q qn by (simp_all add: rd)
  have **: "a + 4 < n \<Longrightarrow> rd buf (a + 5) = Some (buf ! (a + 5))" "a + 5 < n \<Longrightarrow> rd buf (a + 6) = Some (buf ! (a + 6))"
    by (simp_all add: rd)
  show ?thesis
  proof (cases "length (takeWhile (\<lambda>d. d \<noteq> take 2 (drop a buf)) dev_nm) = NDEV \<or> buf ! (a + 4) \<noteq> 112 \<or>
      (word_of_int (digit ?u) :: u32) > 9")
    case True
    then show ?thesis using q sl * by (auto simp: parse_part_def Let_def)
  next
    case False
    then have a4: "a + 4 < n" using u p by blast
    show ?thesis using q sl * ** False a4 d r by (auto simp: parse_part_def Let_def)
  qed
qed

lemma parse_dev_ex:
  assumes "q \<le> n" "Suc n < length buf" "buf ! n = 0" "buf ! q = 40" "a < q"
  shows "\<exists>r g'. parse_dev buf a q g = Some (r, g') \<and> kname g' = kname g \<and> (\<forall>a'. r = Some a' \<longrightarrow> a' \<le> n)"
proof -
  have "rd buf (a + 1) = Some (buf ! (a + 1))" "rd buf a = Some (buf ! a)" using assms(1,2,5) by simp_all
  then show ?thesis using parse_part_ex [OF assms(1-4), where g = g] by (auto simp: parse_dev_def Let_def simp del: rd_in)
qed

lemma parse_name_ex:
  assumes "a < ep" "Suc ep < length buf" "buf ! ep = 0" "kname_ok g"
  shows "\<exists>ok upd' g'. parse_name buf a ep upd g = Some (ok, upd', g') \<and> kname_ok g'"
proof -
  obtain q where q: "find_paren buf (Suc a) = Some q" "Suc a \<le> q" "q \<le> ep" "buf ! q = 0 \<or> buf ! q = 40"
    using find_paren_ex [of "Suc a" ep buf] assms(1-3) by auto
  have rq: "rd buf q = Some (buf ! q)" using q(3) assms(2) by simp
  obtain r g1 where r: "(if buf ! q \<noteq> 0 then parse_dev buf a q g else Some (Some a, g)) = Some (r, g1)"
      "kname g1 = kname g" "\<And>a'. r = Some a' \<Longrightarrow> a' \<le> ep"
    using parse_dev_ex [OF q(3) assms(2,3), of a g] q assms(1) by (cases "buf ! q = 0") auto
  show ?thesis
  proof (cases r)
    case None
    then show ?thesis using q(1) rq r assms(4) by (auto simp: parse_name_def kname_ok_def)
  next
    case (Some a1)
    let ?nm = "take (Suc (ep - a1)) (drop a1 buf)"
    have a1: "a1 \<le> ep" using r(3) Some by simp
    show ?thesis
    proof (cases "a1 = ep \<or> ep - a1 \<ge> KNAME_SIZE")
      case True
      then show ?thesis using q(1) rq r Some assms(4) by (auto simp: parse_name_def kname_ok_def Let_def)
    next
      case False
      have len: "length ?nm = Suc (ep - a1)" using assms(2) a1 by simp
      then have "?nm ! (ep - a1) = 0" using assms(2,3) a1 by simp
      then have "0 \<in> set ?nm" using len by (metis lessI nth_mem)
      moreover have fit: "length ?nm \<le> length (kname g1)" using False assms(4) len r(2) by (simp add: kname_ok_def)
      ultimately have "kname_ok (g1\<lparr>kname := put (kname g1) 0 ?nm\<rparr>)"
        using assms(4) r(2) by (auto simp: kname_ok_def put_def)
      moreover have "parse_name buf a ep upd g = Some (True, upd \<or> buf ! q \<noteq> 0, g1\<lparr>kname := put (kname g1) 0 ?nm\<rparr>)"
        using q(1) rq r(1) Some False a1 fit assms(2) by (auto simp: parse_name_def)
      ultimately show ?thesis by blast
    qed
  qed
qed

lemma parse_word_ex:
  assumes "a < ep" "Suc ep < length buf" "buf ! ep = 0" "kname_ok g"
  shows "\<exists>ok upd' g'. parse_word e c buf a ep upd g = Some (ok, upd', g') \<and> kname_ok g'"
proof (cases "c = 45")
  case True
  obtain ok g' where "parse_opts e buf (Suc a) g = Some (ok, g')" "kname g' = kname g"
    using parse_opts_ex [of "Suc a" ep buf e g] assms(1-3) by auto
  then show ?thesis using True assms(4) by (cases ok) (auto simp: parse_word_def kname_ok_def)
qed (use parse_name_ex [OF assms] in \<open>simp add: parse_word_def\<close>)

lemma cut_word:
  assumes "ep \<le> n" "n < length buf" "buf ! n = 0" "cut_word buf ep = (buf1, nxt)"
  shows "length buf1 = length buf" "buf1 ! ep = 0" "buf1 ! n = 0" "nxt \<le> n" "ep \<le> nxt"
  using assms by (auto simp: cut_word_def nth_list_update le_less split: if_splits)

lemma parse_line_ex:
  assumes "a \<le> n" "Suc n < length buf" "buf ! n = 0" "kname_ok g"
  shows "\<exists>ok upd' g'. parse_line e buf a upd g = Some (ok, upd', g') \<and> kname_ok g'"
  using assms
proof (induction "n - a" arbitrary: buf a upd g rule: less_induct)
  case less
  let ?c = "buf ! a"
  have ra: "rd buf a = Some ?c" using less.prems(1,2) by simp
  consider "?c = 0" | "?c \<noteq> 0" "is_blank ?c" | "?c \<noteq> 0" "\<not> is_blank ?c" by blast
  then show ?case
  proof cases
    case 1
    then have "parse_line e buf a upd g = Some (True, upd, g)" by (subst parse_line.simps) (simp add: ra)
    then show ?thesis using less.prems(4) by blast
  next
    case 2
    then have "Suc a \<le> n" using less.prems(1,3) by (cases "a = n") auto
    with less.hyps [of "Suc a" buf g upd] less.prems(2-4) have "\<exists>ok upd' g'. parse_line e buf (Suc a) upd g = Some (ok, upd', g') \<and> kname_ok g'"
      by simp
    then show ?thesis using 2 by (subst parse_line.simps) (simp add: ra)
  next
    case 3
    then have an: "Suc a \<le> n" using less.prems(1,3) by (cases "a = n") auto
    obtain ep where ep: "word_end buf (Suc a) = Some ep" "Suc a \<le> ep" "ep \<le> n"
      using word_end_ex [OF an _ less.prems(3)] less.prems(2) by auto
    obtain buf1 nxt where cw: "cut_word buf ep = (buf1, nxt)" by fastforce
    have nlen: "n < length buf" using less.prems(2) by simp
    note b1 = cut_word [OF ep(3) nlen less.prems(3) cw]
    obtain ok upd1 g1 where w: "parse_word e ?c buf1 a ep upd g = Some (ok, upd1, g1)" "kname_ok g1"
      using parse_word_ex [of a ep buf1 g e ?c upd] b1 ep(2,3) less.prems(2,4) by auto
    have step: "parse_line e buf a upd g = (if ok then parse_line e buf1 nxt upd1 g1 else Some (False, upd1, g1))"
      using 3 by (subst parse_line.simps) (simp add: ra ep(1) cw w(1))
    have "\<exists>ok upd' g'. parse_line e buf1 nxt upd1 g1 = Some (ok, upd', g') \<and> kname_ok g'"
      using less.hyps [of nxt buf1 g1 upd1] b1 w(2) ep(2) less.prems(2) an by simp
    then show ?thesis using step w(2) by auto
  qed
qed

text \<open>
  C29: \<^verbatim>\<open>parse\<close> is safe on every line whose terminating NUL is not the last byte of the buffer: whatever
  the text, it stays inside the line and inside \<^verbatim>\<open>kname\<close>, and \<^verbatim>\<open>kname\<close> remains a terminated string.
\<close>

theorem parse_stays_inside:
  assumes "n < length cmd" "Suc n < length cmd" "cmd ! n = 0" "kname_ok g"
  shows "\<exists>ok upd g'. parse e cmd g = Some (ok, upd, g') \<and> kname_ok g'"
  using parse_line_ex [of 0 n cmd g e False] assms by (simp add: parse_def)

section \<open>Lines that are not terminated\<close>

lemma nth_in_drop: "a \<le> i \<Longrightarrow> i < length xs \<Longrightarrow> xs ! i \<in> set (drop a xs)"
  using nth_mem [of "i - a" "drop a xs"] by simp

lemma cut_word_nonzero:
  assumes "0 \<notin> set (drop (Suc a) buf)" "word_end buf (Suc a) = Some ep" "cut_word buf ep = (buf1, nxt)"
  shows "nxt = Suc ep" "length buf1 = length buf" "0 \<notin> set (drop nxt buf1)"
proof -
  have ep: "Suc a \<le> ep" "ep < length buf" using word_end_bounds [OF assms(2)] by simp_all
  then have "buf ! ep \<in> set (drop (Suc a) buf)" by (intro nth_in_drop)
  then have "buf ! ep \<noteq> 0" using assms(1) by auto
  then have c: "buf1 = buf[ep := 0]" "nxt = Suc ep" using assms(3) by (auto simp: cut_word_def)
  then show "nxt = Suc ep" "length buf1 = length buf" by simp_all
  have "set (drop (Suc ep) buf) \<subseteq> set (drop (Suc a) buf)" using ep(1) by (intro set_drop_subset_set_drop) simp
  then show "0 \<notin> set (drop nxt buf1)" using assms(1) c by (auto simp: drop_update_cancel)
qed

lemma parse_line_unterminated:
  assumes "0 \<notin> set (drop a buf)"
  shows "parse_line e buf a upd g = None \<or> (\<exists>upd' g'. parse_line e buf a upd g = Some (False, upd', g'))"
  using assms
proof (induction e buf a upd g rule: parse_line.induct)
  case (1 e buf a upd g)
  have sub: "0 \<notin> set (drop (Suc a) buf)" using "1.prems" set_drop_subset_set_drop [of a "Suc a" buf] by auto
  show ?case
  proof (cases "rd buf a")
    case (Some c)
    then have c: "c \<noteq> 0" using "1.prems" nth_in_drop [of a a buf] by (auto simp: mem_simps)
    show ?thesis
    proof (cases "is_blank c")
      case True
      then show ?thesis using "1.IH"(1) [OF Some c True sub] Some c by (subst (1 2) parse_line.simps) simp
    next
      case False
      show ?thesis
      proof (cases "word_end buf (Suc a)")
        case (Some ep)
        note we = this
        obtain buf1 nxt where cw: "cut_word buf ep = (buf1, nxt)" by fastforce
        note b1 = cut_word_nonzero [OF sub we cw]
        show ?thesis
        proof (cases "parse_word e c buf1 a ep upd g")
          case None
          then show ?thesis using \<open>rd buf a = Some c\<close> c False we cw by (subst (1 2) parse_line.simps) simp
        next
          case (Some r)
          then obtain ok upd1 g1 where w: "parse_word e c buf1 a ep upd g = Some (ok, upd1, g1)" by (cases r) auto
          show ?thesis
          proof (cases ok)
            case True
            have "parse_line e buf1 nxt upd1 g1 = None \<or> (\<exists>upd' g'. parse_line e buf1 nxt upd1 g1 = Some (False, upd', g'))"
              using "1.IH"(2) [OF \<open>rd buf a = Some c\<close> c False we _ refl refl True] w b1(3) cw by simp
            then show ?thesis using \<open>rd buf a = Some c\<close> c False we cw w True by (subst (1 2) parse_line.simps) simp
          next
            case False
            then show ?thesis using \<open>rd buf a = Some c\<close> c \<open>\<not> is_blank c\<close> we cw w by (subst (1 2) parse_line.simps) simp
          qed
        qed
      qed (use Some c False in \<open>subst (1 2) parse_line.simps, simp\<close>)
    qed
  qed (subst (1 2) parse_line.simps, simp)
qed

text \<open>
  A configuration file of 512 or more bytes without a NUL is never accepted within the buffer: \<^verbatim>\<open>main\<close>
  reads it into \<^verbatim>\<open>cmd\<close> without adding a terminator, and \<^verbatim>\<open>parse\<close> then rejects a word of it or runs past the
  end of the buffer.
\<close>

theorem unterminated_config_overruns:
  assumes "0 \<notin> set cmd"
  shows "parse e cmd g = None \<or> (\<exists>upd g'. parse e cmd g = Some (False, upd, g'))"
  using parse_line_unterminated [of 0 cmd] assms by (simp add: parse_def)

section \<open>Options\<close>

definition opt_flag :: "byte \<Rightarrow> u32" where
  "opt_flag c = OPT_SET (flags ! length (takeWhile (\<lambda>x. x \<noteq> c) optstr))"

definition opts_after :: "byte list \<Rightarrow> u32 \<Rightarrow> u32" where
  "opts_after cs w = foldl (\<lambda>w c. w XOR opt_flag c) w cs"

lemma opts_after_xor: "opts_after cs (w XOR x) = opts_after cs w XOR x"
proof (induction cs arbitrary: w)
  case (Cons c cs)
  have "(w XOR x) XOR opt_flag c = (w XOR opt_flag c) XOR x" by (simp add: ac_simps)
  with Cons show ?case by (simp add: opts_after_def)
qed (simp add: opts_after_def)

lemma opts_after_twice: "opts_after cs (opts_after cs w) = w"
proof (induction cs arbitrary: w)
  case (Cons c cs)
  have c: "opts_after (c # cs) v = opts_after cs v XOR opt_flag c" for v
    by (simp add: opts_after_def flip: opts_after_xor [unfolded opts_after_def])
  show ?case unfolding c opts_after_xor Cons.IH by (simp add: xor.assoc)
qed (simp add: opts_after_def)

lemma length_takeWhile_in: "c \<in> set xs \<Longrightarrow> length (takeWhile (\<lambda>x. x \<noteq> c) xs) < length xs"
  by (induction xs) auto

lemma opt_index_in: "c \<in> set optstr \<Longrightarrow> opt_index c = Some (length (takeWhile (\<lambda>x. x \<noteq> c) optstr))"
proof -
  assume "c \<in> set optstr"
  then have "length (takeWhile (\<lambda>x. x \<noteq> c) optstr) < length optstr" by (rule length_takeWhile_in)
  moreover have "length optstr = NOPT" by (simp add: optstr_def cbytes_def NOPT_def)
  ultimately show ?thesis by (simp add: opt_index_def Let_def)
qed

lemma optstr_letters: "c \<in> set optstr \<Longrightarrow> c \<noteq> 0 \<and> c \<noteq> 80 \<and> c \<noteq> 83 \<and> \<not> is_blank c"
  by (auto simp: optstr_def cbytes_def is_blank_def)

lemma set_opts_set_opts [simp]:
  "gopts (set_opts w g) = w" "set_opts v (set_opts w g) = set_opts v g" "set_opts (gopts g) g = g"
  by (simp_all add: set_opts_def gmach_def set_mach_def)

lemma parse_opts_app:
  "set cs \<subseteq> set optstr \<Longrightarrow>
   parse_opts e (pre @ cs @ 0 # post) (length pre) g = Some (True, set_opts (opts_after cs (gopts g)) g)"
proof (induction cs arbitrary: pre g)
  case Nil
  then show ?case by (simp add: parse_opts.simps opts_after_def)
next
  case (Cons c cs)
  then have c: "c \<noteq> 0" "c \<noteq> 80" "c \<noteq> 83" "opt_index c = Some (length (takeWhile (\<lambda>x. x \<noteq> c) optstr))"
    using optstr_letters opt_index_in by auto
  show ?case
    using Cons.IH [of "pre @ [c]" "set_opts (gopts g XOR opt_flag c) g"] Cons.prems c
    by (subst parse_opts.simps) (simp add: opts_after_def opt_flag_def)
qed

text \<open>
  An option word toggles exactly the flags of its letters: \<^verbatim>\<open>parse\<close> of a hyphen and letters of
  \<^verbatim>\<open>optstr\<close> succeeds, changes the options by exclusive or, and sets the console they imply; giving the same
  word again restores the options.
\<close>

theorem parse_toggles_options:
  assumes "set cs \<subseteq> set optstr"
  shows "parse e (45 # cs @ 0 # post) g = Some (True, False, set_ioctrl e (set_opts (opts_after cs (gopts g)) g)) \<and>
    opts_after cs (opts_after cs (gopts g)) = gopts g"
proof -
  let ?l = "45 # cs @ 0 # post" and ?ep = "Suc (length cs)"
  have "\<forall>c \<in> set cs. c \<noteq> 0 \<and> \<not> is_blank c" using assms optstr_letters by blast
  then have ep: "word_end ?l (Suc 0) = Some ?ep" using word_end_app [of cs 0 "[45]" post] by simp
  have nul: "?l ! ?ep = 0" by (simp add: nth_append)
  then have cut: "cut_word ?l ?ep = (?l, ?ep)" by (simp add: cut_word_def)
  have w: "parse_word e 45 ?l 0 ?ep False g = Some (True, False, set_ioctrl e (set_opts (opts_after cs (gopts g)) g))"
    using parse_opts_app [OF assms, of e "[45]" post g] by (simp add: parse_word_def)
  have fin: "parse_line e ?l ?ep False g1 = Some (True, False, g1)" for g1
    using nul by (subst parse_line.simps) (simp add: rd_def)
  have "parse_line e ?l 0 False g = parse_line e ?l ?ep False (set_ioctrl e (set_opts (opts_after cs (gopts g)) g))"
    by (subst parse_line.simps) (simp add: rd_def is_blank_def ep cut w)
  then show ?thesis using fin opts_after_twice by (simp add: parse_def)
qed

section \<open>What the prompt prints\<close>

text \<open>A device that the prompt can show and \<^verbatim>\<open>parse\<close> can read: single digits throughout.\<close>

definition dsk_showable :: "dsk \<Rightarrow> bool" where
  "dsk_showable d \<longleftrightarrow> unat (dsk_type d) < NDEV \<and> dsk_unit d \<le> 9 \<and> 1 \<le> dsk_part d \<and> dsk_part d \<le> 9 \<and>
     (\<exists>n \<le> 9. dsk_drive d = (if dsk_type d \<le> TYPE_MAXHARD then DRV_HARD else 0) + n)"

definition dev_text :: "nat \<Rightarrow> nat \<Rightarrow> nat \<Rightarrow> nat \<Rightarrow> byte list" where
  "dev_text dr ty u p = [48 + word_of_nat dr, 58] @ dev_nm ! ty @ [40, 48 + word_of_nat u, 112, 48 + word_of_nat p, 41]"

lemma digit_small: "n \<le> 9 \<Longrightarrow> digit (48 + word_of_nat n) = int n"
proof -
  assume "n \<le> 9"
  then have "n \<in> {0, 1, 2, 3, 4, 5, 6, 7, 8, 9}" by auto
  then show ?thesis by (auto simp: digit_def)
qed

lemma dev_nm_nth: "ty < NDEV \<Longrightarrow> \<exists>x y. dev_nm ! ty = [x, y] \<and> x \<notin> {0, 40, 45, 58} \<and> y \<notin> {0, 40, 58} \<and> \<not> is_blank x \<and> \<not> is_blank y \<and>
   length (takeWhile (\<lambda>d. d \<noteq> dev_nm ! ty) dev_nm) = ty"
proof -
  assume "ty < NDEV"
  then have "ty \<in> {0, 1, 2}" by (auto simp: NDEV_def)
  then show ?thesis by (auto simp: dev_nm_def cbytes_def is_blank_def)
qed

lemma parse_dev_text:
  assumes "dr \<le> 9" "ty < NDEV" "u \<le> 9" "1 \<le> p" "p \<le> 9"
  shows "parse_dev (dev_text dr ty u p @ rest) 0 4 g = Some (Some 9,
    g\<lparr>gdsk := (gdsk g)\<lparr>dsk_type := word_of_nat ty, dsk_unit := word_of_nat u, dsk_part := int p,
      dsk_drive := (if (word_of_nat ty :: u32) \<le> TYPE_MAXHARD then DRV_HARD else 0) + word_of_nat dr\<rparr>\<rparr>)"
proof -
  obtain x y where nm: "dev_nm ! ty = [x, y]" "length (takeWhile (\<lambda>d. d \<noteq> dev_nm ! ty) dev_nm) = ty"
    using dev_nm_nth [OF assms(2)] by blast
  let ?l = "dev_text dr ty u p @ rest"
  have l: "?l = [48 + word_of_nat dr, 58, x, y, 40, 48 + word_of_nat u, 112, 48 + word_of_nat p, 41] @ rest"
    by (simp add: dev_text_def nm)
  have w9: "\<not> (word_of_nat n :: u32) > 9" if "n \<le> 9" for n using that by (simp add: word_less_nat_alt unat_of_nat)
  have ne: "(word_of_nat dr :: u32) \<noteq> -1" using w9 [OF assms(1)] by auto
  have "slice ?l 2 2 = Some (dev_nm ! ty)" by (simp add: l nm slice_def)
  then have "parse_part ?l 2 4 (word_of_nat dr) g = Some (Some 9,
    g\<lparr>gdsk := (gdsk g)\<lparr>dsk_type := word_of_nat ty, dsk_unit := word_of_nat u, dsk_part := int p,
      dsk_drive := (if (word_of_nat ty :: u32) \<le> TYPE_MAXHARD then DRV_HARD else 0) + word_of_nat dr\<rparr>\<rparr>)"
    using assms(2,4,5) w9 [OF assms(3)] ne
    by (simp add: parse_part_def nm(2) digit_small assms(3) Let_def) (simp add: l rd_def digit_small assms(3))
  then show ?thesis using w9 [OF assms(1)]
    by (simp add: parse_dev_def Let_def numeral_2_eq_2) (simp add: l rd_def digit_small assms(1))
qed

lemma showable_digits:
  assumes "dsk_showable d"
  obtains dr u p where "dr \<le> 9" "u \<le> 9" "1 \<le> p" "p \<le> 9" "unat (dsk_type d) < NDEV"
    "dsk_unit d = word_of_nat u" "dsk_part d = int p" "dsk_drive d AND DRV_MASK = word_of_nat dr"
    "dsk_drive d = (if dsk_type d \<le> TYPE_MAXHARD then DRV_HARD else 0) + word_of_nat dr"
proof -
  obtain n where n: "n \<le> 9" "dsk_drive d = (if dsk_type d \<le> TYPE_MAXHARD then DRV_HARD else 0) + n"
    using assms by (auto simp: dsk_showable_def)
  have 9: "unat w \<le> 9" if "w \<le> (9 :: u32)" for w using that by (simp add: word_le_nat_alt)
  define k where "k = unat n"
  have k: "n = word_of_nat k" "k \<le> 9" using 9 [OF n(1)] by (simp_all add: k_def)
  then have "k \<in> {0, 1, 2, 3, 4, 5, 6, 7, 8, 9}" by auto
  then have m: "dsk_drive d AND DRV_MASK = word_of_nat k"
    unfolding n(2) k(1) DRV_MASK_def DRV_HARD_def by (cases "dsk_type d \<le> TYPE_MAXHARD") auto
  show thesis
  proof (rule that [of k "unat (dsk_unit d)" "nat (dsk_part d)"])
    show "unat (dsk_unit d) \<le> 9" using assms 9 by (simp add: dsk_showable_def)
  qed (use assms k m n(2) in \<open>auto simp: dsk_showable_def\<close>)
qed

lemma dec_digit: "n \<le> 9 \<Longrightarrow> flush_digits (dec_digits n) = Some [48 + word_of_nat n]"
  by (simp add: dec_digits.simps flush_digits_def)

lemma put_str_cstr: "put_str m = cstr m 0"
proof (induction m)
  case (Cons c m)
  have "cstr (c # m) (Suc 0) = cstr m 0" by (simp add: cstr_def)
  then show ?case using Cons by (subst cstr_unfold) (simp add: rd_def)
qed (simp add: cstr_def)

lemma prompt_text:
  assumes "dr \<le> 9" "u \<le> 9" "p \<le> 9" "ty < NDEV" "cstr k 0 = Some nm"
  shows "printf (cbytes ''%u:%s(%up%u)%s'' @ [0])
      [Uint (word_of_nat dr), Str (dev_nm ! ty @ [0]), Uint (word_of_nat u), Uint (word_of_nat p), Str k]
    = Some (dev_text dr ty u p @ nm)"
proof -
  obtain x y where xy: "dev_nm ! ty = [x, y]" "x \<noteq> 0" "y \<noteq> 0" using dev_nm_nth [OF assms(4)] by auto
  have un: "unat (word_of_nat n :: u32) = n" if "n \<le> 9" for n using that by (simp add: unat_of_nat)
  have "cstr [x, y, 0] 0 = Some [x, y]" using xy(2,3) by (simp add: cstr_def)
  then show ?thesis using assms by (simp add: cbytes_def dev_text_def xy un dec_digit put_str_cstr)
qed

text \<open>
  The default that the prompt shows is a command for the same boot: when drive, unit and partition
  are single digits, parsing the text that \<^verbatim>\<open>printf\<close> makes of \<^verbatim>\<open>%u:%s(%up%u)%s\<close>, the device and the name
  succeeds, asks for the partition to be opened, and leaves device and name as they are.
\<close>

theorem prompt_default_parses_back:
  assumes "dsk_showable (gdsk g)" "kname_ok g" "cur_kname g = Some nm" "nm \<noteq> []" "\<forall>c \<in> set nm. \<not> is_blank c"
  shows "\<exists>line. printf (cbytes ''%u:%s(%up%u)%s'' @ [0])
      [Uint (dsk_drive (gdsk g) AND DRV_MASK), Str (dev_nm ! unat (dsk_type (gdsk g)) @ [0]), Uint (dsk_unit (gdsk g)),
       Uint (word_of_int (dsk_part (gdsk g))), Str (kname g)] = Some line \<and>
    parse e (line @ [0]) g = Some (True, True, g)"
proof -
  let ?d = "gdsk g" and ?ty = "unat (dsk_type (gdsk g))"
  obtain dr u p where d: "dr \<le> 9" "u \<le> 9" "1 \<le> p" "p \<le> 9" "?ty < NDEV"
    "dsk_unit ?d = word_of_nat u" "dsk_part ?d = int p" "dsk_drive ?d AND DRV_MASK = word_of_nat dr"
    "dsk_drive ?d = (if dsk_type ?d \<le> TYPE_MAXHARD then DRV_HARD else 0) + word_of_nat dr"
    using showable_digits [OF assms(1)] by blast
  let ?t = "dev_text dr ?ty u p" and ?l = "dev_text dr ?ty u p @ nm @ [0]"
  obtain x y where xy: "dev_nm ! ?ty = [x, y]" "x \<notin> {0, 40, 45, 58}" "y \<notin> {0, 40, 58}" "\<not> is_blank x" "\<not> is_blank y"
    using dev_nm_nth [OF d(5)] by blast
  have t: "?t = [48 + word_of_nat dr, 58, x, y, 40, 48 + word_of_nat u, 112, 48 + word_of_nat p, 41]"
    by (simp add: dev_text_def xy(1))
  have dig: "48 + word_of_nat n \<noteq> (0 :: byte) \<and> \<not> is_blank (48 + word_of_nat n) \<and> 48 + word_of_nat n \<noteq> (45 :: byte)" if "n \<le> 9" for n
  proof -
    from that have "n \<in> {0, 1, 2, 3, 4, 5, 6, 7, 8, 9}" by auto
    then show ?thesis by (auto simp: is_blank_def)
  qed
  obtain tail where nm: "kname g = nm @ 0 # tail" "0 \<notin> set nm" using assms(3) by (auto simp: cur_kname_def cstr_iff)
  have ok: "\<forall>c \<in> set (tl ?t @ nm). c \<noteq> 0 \<and> \<not> is_blank c"
    using xy(2-) dig [OF d(2)] dig [OF d(4)] nm(2) assms(5) by (auto simp: t is_blank_def)
  have l: "?l = [48 + word_of_nat dr] @ (tl ?t @ nm) @ 0 # []" by (simp add: t)
  have ep: "word_end ?l (Suc 0) = Some (9 + length nm)"
    using word_end_app [OF ok, of 0 "[48 + word_of_nat dr]" "[]"] unfolding l by (simp add: t)
  have "?l ! (9 + length nm) = 0" by (simp add: t nth_append)
  then have cut: "cut_word ?l (9 + length nm) = (?l, 9 + length nm)" by (simp add: cut_word_def)
  have fp: "find_paren ?l (Suc 0) = Some 4"
    using find_paren_app [of "[58, x, y]" 40 "[48 + word_of_nat dr]" "[48 + word_of_nat u, 112, 48 + word_of_nat p, 41] @ nm @ [0]"]
      xy(2,3) by (simp add: t)
  have same: "?d\<lparr>dsk_type := word_of_nat ?ty, dsk_unit := word_of_nat u, dsk_part := int p,
      dsk_drive := (if (word_of_nat ?ty :: u32) \<le> TYPE_MAXHARD then DRV_HARD else 0) + word_of_nat dr\<rparr> = ?d"
    using d(6,7,9) by simp
  have dev: "parse_dev ?l 0 4 g = Some (Some 9, g)"
    using parse_dev_text [OF d(1,5,2,3,4), of "nm @ [0]" g] unfolding same by simp
  have "slice ?l 9 (Suc (length nm)) = Some (nm @ [0])" by (simp add: t slice_def)
  moreover have "store (kname g) 0 (nm @ [0]) = Some (kname g)" by (simp add: nm(1) store_def put_def)
  moreover have "length nm < KNAME_SIZE" using assms(2) nm(1) by (simp add: kname_ok_def)
  moreover have "rd ?l 4 = Some 40" by (simp add: t rd_def)
  ultimately have name: "parse_name ?l 0 (9 + length nm) False g = Some (True, True, g)"
    using fp dev assms(4) by (simp add: parse_name_def)
  have "parse_word e (48 + word_of_nat dr) ?l 0 (9 + length nm) False g = Some (True, True, g)"
    using name dig [OF d(1)] by (simp add: parse_word_def)
  moreover have "rd ?l 0 = Some (48 + word_of_nat dr)" by (simp add: t rd_def)
  ultimately have "parse_line e ?l 0 False g = parse_line e ?l (9 + length nm) True g"
    using dig [OF d(1)] ep cut by (subst parse_line.simps) simp
  moreover have "rd ?l (9 + length nm) = Some 0" by (simp add: t rd_def nth_append)
  then have "parse_line e ?l (9 + length nm) True g = Some (True, True, g)" by (subst parse_line.simps) simp
  ultimately have "parse e ((?t @ nm) @ [0]) g = Some (True, True, g)" by (simp add: parse_def)
  moreover have "word_of_int (dsk_part ?d) = (word_of_nat p :: u32)" by (simp add: d(7))
  ultimately show ?thesis
    using prompt_text [OF d(1,2,4,5) assms(3) [unfolded cur_kname_def]] d(6,8) by auto
qed

section \<open>A concrete program state\<close>

definition demo_env :: "nat env" where
  "demo_env = \<lparr>e_bios = idle_bios, e_sio = clock_sio (\<lambda>i. word_of_nat i + 1),
     e_layout = \<lparr>decode_fs = undefined, decode_dinode1 = undefined, decode_dinode2 = undefined\<rparr>,
     e_uuid = replicate 16 7, pa_kname = 0xa000, pa_bootinfo = 0xa400\<rparr>"

definition demo_side0 :: gpt_side where
  "demo_side0 = \<lparr>hdr = replicate 96 0, hdr_lba = 0, table = replicate 16384 0\<rparr>"

definition demo_gb :: "nat gb" where
  "demo_gb = \<lparr>gdsk = \<lparr>dsk_drive = 0x81, dsk_type = 0, dsk_unit = 1, dsk_slice = 0, dsk_part = 2, dsk_start = 64, dsk_init = 0\<rparr>,
     kname = [47, 107] @ replicate 1022 0, comspeed = 9600,
     binfo = \<lparr>bi_version = 1, bi_kernelname = 0, bi_size = 84, bi_memsizes_valid = 1, bi_bios_dev = 0, bi_basemem = 0,
       bi_extmem = 0, bi_symtab = 0, bi_esymtab = 0\<rparr>,
     gcons = \<lparr>ioctrl = 1, cm = blank_mach 0\<rparr>,
     ggpt = \<lparr>primary = demo_side0, backup = demo_side0, gptcur = None, curent = -1, bootonce = True,
       gio = \<lparr>secbuf = replicate 512 0, machine = blank_mach 0, msgs = []\<rparr>\<rparr>,
     gufs = \<lparr>dmadat = 0x20000, blkbuf = [], indbuf = [], sbbuf = [], dsk_meta = False, fs_off = 0, inomap = 0,
       dp = \<lparr>di_size = 0, di_db = [], di_ib0 = 0\<rparr>, blkmap = 0, indmap = 0, ls = False, drive = blank_mach 0\<rparr>,
     dirbuf = replicate 512 0, uphdr = replicate 64 0, pmem = \<lambda>_. 0\<rparr>"

lemma demo_gb_ok: "kname_ok demo_gb" "dsk_showable (gdsk demo_gb)" "cur_kname demo_gb = Some [47, 107]"
proof -
  show "kname_ok demo_gb" by (simp add: kname_ok_def demo_gb_def KNAME_SIZE_def)
  show "dsk_showable (gdsk demo_gb)"
    by (simp add: dsk_showable_def demo_gb_def NDEV_def TYPE_MAXHARD_def DRV_HARD_def)
  show "cur_kname demo_gb = Some [47, 107]" by (simp add: cur_kname_def demo_gb_def cstr_def)
qed

theorem parse_stays_inside_witness:
  "\<exists>ok upd g'. parse demo_env [45, 115, 32, 97, 100, 40, 0, 0] demo_gb = Some (ok, upd, g') \<and> kname_ok g'"
  by (rule parse_stays_inside [of 6]) (simp_all add: demo_gb_ok)

theorem unterminated_config_overruns_witness:
  "parse demo_env (replicate 512 97) demo_gb = None \<or>
   (\<exists>upd g'. parse demo_env (replicate 512 97) demo_gb = Some (False, upd, g'))"
  by (rule unterminated_config_overruns) simp

theorem parse_toggles_options_witness:
  "parse demo_env (45 # [115, 118] @ 0 # []) demo_gb =
     Some (True, False, set_ioctrl demo_env (set_opts (opts_after [115, 118] (gopts demo_gb)) demo_gb)) \<and>
   opts_after [115, 118] (gopts demo_gb) = 0x802"
  using parse_toggles_options [of "[115, 118]" demo_env "[]" demo_gb]
  by (simp add: optstr_def cbytes_def opts_after_def opt_flag_def flags_def OPT_SET_def demo_gb_def gmach_def blank_mach_def)

theorem prompt_default_parses_back_witness:
  "\<exists>line. printf (cbytes ''%u:%s(%up%u)%s'' @ [0])
      [Uint (dsk_drive (gdsk demo_gb) AND DRV_MASK), Str (dev_nm ! unat (dsk_type (gdsk demo_gb)) @ [0]), Uint (dsk_unit (gdsk demo_gb)),
       Uint (word_of_int (dsk_part (gdsk demo_gb))), Str (kname demo_gb)] = Some line \<and>
    parse demo_env (line @ [0]) demo_gb = Some (True, True, demo_gb)"
  by (rule prompt_default_parses_back [OF demo_gb_ok(2,1,3)]) (simp_all add: is_blank_def)

section \<open>A rejected line is not without effect\<close>

text \<open>
  A device that is rejected for its partition number leaves its type, unit and number behind: after
  \<^verbatim>\<open>parse\<close> has returned -1 the description of the device no longer matches the partition that is open, and a
  following boot without a device passes that number to the kernel.
\<close>

theorem rejected_device_changes_dsk:
  assumes "1 \<le> u" "u \<le> 9"
  shows "parse e (dev_text 0 1 u 0 @ [0]) g =
    Some (False, False, g\<lparr>gdsk := (gdsk g)\<lparr>dsk_type := 1, dsk_unit := word_of_nat u, dsk_part := 0\<rparr>\<rparr>)"
proof -
  let ?l = "dev_text 0 1 u 0 @ [0]"
  have l: "?l = [48, 58, 100, 97, 40, 48 + word_of_nat u, 112, 48, 41, 0]"
    by (simp add: dev_text_def dev_nm_def cbytes_def)
  from assms have "u \<in> {1, 2, 3, 4, 5, 6, 7, 8, 9}" by auto
  then have u: "48 + word_of_nat u \<noteq> (0 :: byte)" "\<not> is_blank (48 + word_of_nat u)" "\<not> (word_of_nat u :: u32) > 9"
    by (auto simp: is_blank_def)
  have ep: "word_end ?l (Suc 0) = Some 9"
    using word_end_app [of "[58, 100, 97, 40, 48 + word_of_nat u, 112, 48, 41]" 0 "[48]" "[]"] u
    unfolding l by (simp add: is_blank_def)
  have fp: "find_paren ?l (Suc 0) = Some 4"
    using find_paren_app [of "[58, 100, 97]" 40 "[48]" "[48 + word_of_nat u, 112, 48, 41, 0]"] unfolding l by simp
  have nm: "length (takeWhile (\<lambda>d. d \<noteq> [100, 97]) dev_nm) = 1" by (simp add: dev_nm_def cbytes_def)
  have "parse_part ?l (Suc (Suc 0)) 4 0 g = Some (None, g\<lparr>gdsk := (gdsk g)\<lparr>dsk_type := 1, dsk_unit := word_of_nat u, dsk_part := 0\<rparr>\<rparr>)"
    using u(3) nm unfolding l by (simp add: parse_part_def rd_def slice_def digit_small [OF assms(2)] NDEV_def Let_def) (simp add: digit_def)
  then have "parse_dev ?l 0 4 g = Some (None, g\<lparr>gdsk := (gdsk g)\<lparr>dsk_type := 1, dsk_unit := word_of_nat u, dsk_part := 0\<rparr>\<rparr>)"
    unfolding l by (simp add: parse_dev_def rd_def digit_def Let_def)
  moreover have "rd ?l 4 = Some 40" unfolding l by (simp add: rd_def)
  ultimately have "parse_word e 48 ?l 0 9 False g =
      Some (False, False, g\<lparr>gdsk := (gdsk g)\<lparr>dsk_type := 1, dsk_unit := word_of_nat u, dsk_part := 0\<rparr>\<rparr>)"
    using fp unfolding l by (simp add: parse_word_def parse_name_def)
  moreover have "cut_word ?l 9 = (?l, 9)" "rd ?l 0 = Some 48" unfolding l by (simp_all add: cut_word_def rd_def)
  ultimately show ?thesis
    using ep unfolding parse_def l by (subst parse_line.simps) (simp add: is_blank_def)
qed

theorem rejected_device_changes_dsk_witness:
  "dsk_part (gdsk demo_gb) = 2 \<and>
   (\<exists>g'. parse demo_env (dev_text 0 1 3 0 @ [0]) demo_gb = Some (False, False, g') \<and> dsk_part (gdsk g') = 0)"
  using rejected_device_changes_dsk [of 3 demo_env demo_gb] by (simp add: demo_gb_def)

end
