(* ===== verification/GptbootLoad.thy ===== *)
theory GptbootLoad
  imports GptbootFacts GptbootParse
begin

text \<open>
  \<^verbatim>\<open>load\<close> of \<^verbatim>\<open>gptboot\<close> on ELF images: the two loadable segments reach memory and the program is entered at its entry
  point.
\<close>

section \<open>Images\<close>

text \<open>Parts of a file with the contents \<open>F\<close>, its program headers, and memory after a segment was copied.\<close>

definition fbytes :: "(nat \<Rightarrow> byte) \<Rightarrow> nat \<Rightarrow> nat \<Rightarrow> byte list" where
  "fbytes F off n = map F [off..<off + n]"

definition phdr :: "(nat \<Rightarrow> byte) \<Rightarrow> nat \<Rightarrow> nat \<Rightarrow> byte list" where
  "phdr F phoff i = fbytes F (phoff + 32 * i) 32"

lemma length_phdr [simp]: "length (phdr F phoff i) = 32"
  by (simp add: phdr_def fbytes_def)

definition ph_at :: "byte list \<Rightarrow> nat \<Rightarrow> byte list" where
  "ph_at ep i = take 32 (drop (32 * i) ep)"

definition seg_fits :: "nat \<Rightarrow> byte list \<Rightarrow> bool" where
  "seg_fits sz ph \<longleftrightarrow> unat (u32_at ph 4) + unat (u32_at ph 16) \<le> sz"

definition seg_mem :: "(nat \<Rightarrow> byte) \<Rightarrow> byte list \<Rightarrow> (u32 \<Rightarrow> byte) \<Rightarrow> u32 \<Rightarrow> byte" where
  "seg_mem F ph m a =
     (let i = unat (a - (u32_at ph 12 AND 0xffffff))
      in if i < unat (u32_at ph 16) then F (unat (u32_at ph 4) + i) else m a)"

text \<open>Headers \<open>i0\<close> and \<open>i1\<close> are the first two of type \<^verbatim>\<open>PT_LOAD\<close>.\<close>

definition two_loads :: "(nat \<Rightarrow> byte) \<Rightarrow> nat \<Rightarrow> nat \<Rightarrow> nat \<Rightarrow> nat \<Rightarrow> nat \<Rightarrow> bool" where
  "two_loads F sz phoff num i0 i1 \<longleftrightarrow> i0 < i1 \<and> i1 < num \<and> phoff + 32 * Suc i1 \<le> sz \<and>
     (\<forall>x \<le> i1. (u32_at (phdr F phoff x) 0 = PT_LOAD) = (x = i0 \<or> x = i1))"

section \<open>Reads of an open file\<close>

text \<open>
  The reader is consistent, with \<open>N\<close> failed reads reported so far; the last read was of inode \<open>ino\<close>, and the next starts
  at \<open>off\<close>.
\<close>

definition gb_inv :: "('d mach \<Rightarrow> int \<Rightarrow> byte) \<Rightarrow> ('d mach \<Rightarrow> nat) \<Rightarrow> nat \<Rightarrow> 'd env \<Rightarrow> (int \<Rightarrow> byte) \<Rightarrow> fs \<Rightarrow> nat \<Rightarrow> 'd gb \<Rightarrow> bool" where
  "gb_inv content errs N e C f b g \<longleftrightarrow> ufs_inv content errs N (e_layout e) C f b ((gufs g)\<lparr>drive := gmach g\<rparr>)"

definition at_off :: "nat \<Rightarrow> nat \<Rightarrow> 'd gb \<Rightarrow> bool" where
  "at_off ino off g \<longleftrightarrow> read_pos (gufs g) ino = off"

text \<open>What a read leaves alone.\<close>

definition same_prog :: "'d gb \<Rightarrow> 'd gb \<Rightarrow> bool" where
  "same_prog g g' \<longleftrightarrow> gdsk g' = gdsk g \<and> kname g' = kname g \<and> uphdr g' = uphdr g \<and> pmem g' = pmem g"

locale open_file =
  fixes e :: "'d env" and d :: dsk and content :: "'d mach \<Rightarrow> int \<Rightarrow> byte" and errs :: "'d mach \<Rightarrow> nat" and C :: "int \<Rightarrow> byte"
    and f :: fs and b k ino N :: nat
  assumes reader: "block_reader (dskread (e_bios e) ''gptboot'' d) content errs"
    and counts: "errs m \<le> errs (say fmt args m)"
    and mounted: "the_fs (e_layout e) C = Some f" "wf_ino f b" "ino \<noteq> 0"
    and file_good: "file_ok C f b k (inode_at (e_layout e) C f ino)"
begin

abbreviation F :: "nat \<Rightarrow> byte" where
  "F \<equiv> file_byte C f b (inode_at (e_layout e) C f ino)"

abbreviation fsize :: nat where
  "fsize \<equiv> di_size (inode_at (e_layout e) C f ino)"

abbreviation failed :: "'d gb \<Rightarrow> bool" where
  "failed g \<equiv> N < errs (gmach g)"

lemma failed_upd [simp]:
  "gmach (g\<lparr>uphdr := x\<rparr>) = gmach g" "gmach (g\<lparr>pmem := y\<rparr>) = gmach g" "gmach (g\<lparr>binfo := z\<rparr>) = gmach g"
  "gmach (store_mem p bytes g) = gmach g" "gmach (set_mach m g) = m"
  by (simp_all add: gmach_def store_mem_def set_mach_def)

lemma failed_gsay: "failed g \<Longrightarrow> failed (gsay fmt args g)"
  using counts [of "gmach g" fmt args] by (simp add: gsay_def)

definition opened :: "nat \<Rightarrow> 'd gb \<Rightarrow> bool" where
  "opened off g \<longleftrightarrow> gdsk g = d \<and> gb_inv content errs N e C f b g \<and> dsk_meta (gufs g) \<and> inomap (gufs g) = ino \<and> fs_off (gufs g) = off"

lemma xfsread_ok:
  assumes "gdsk g = d" "gb_inv content errs N e C f b g" "at_off ino off g" "off + unat n \<le> fsize"
  shows "\<exists>bad bytes g'. xfsread e ino n g = Some (bad, bytes, g') \<and> length bytes \<le> unat n \<and> same_prog g g' \<and>
    (bad \<and> failed g' \<or> \<not> bad \<and> bytes = fbytes F off (unat n) \<and> opened (off + unat n) g')"
proof -
  let ?u = "(gufs g)\<lparr>drive := gmach g\<rparr>" and ?di = "inode_at (e_layout e) C f ino"
  have pos: "(if dsk_meta ?u \<and> inomap ?u = ino then fs_off ?u else 0) = off"
    using assms(3) by (auto simp: at_off_def read_pos_def split: if_splits)
  have "min (unat n) (di_size ?di - off) = unat n" using assms(4) by simp
  then obtain rc bytes u where r: "fsread (e_layout e) (dskread (e_bios e) ''gptboot'' d) ino (unat n) ?u = Some (rc, bytes, u)"
      "length bytes \<le> unat n"
    and rc: "rc = -1 \<and> N < errs (drive u) \<or> rc = int (unat n) \<and> bytes = fbytes F off (unat n) \<and>
      ufs_inv content errs N (e_layout e) C f b u \<and> dsk_meta u \<and> inomap u = ino \<and> fs_off u = off + unat n"
    using block_reader.fsread_ok [OF reader assms(2) [unfolded gb_inv_def] mounted file_good, of "unat n"] assms(4)
    unfolding pos fbytes_def by auto
  let ?g = "set_mach (drive u) (g\<lparr>gufs := u\<rparr>)"
  have g: "gb_fsread e ino (unat n) g = Some (rc, bytes, ?g)" using r(1) assms(1) by (simp add: gb_fsread_def)
  have same: "same_prog g ?g" "gdsk ?g = gdsk g" by (simp_all add: same_prog_def set_mach_def)
  have u: "gufs ?g = u" "(gufs ?g)\<lparr>drive := gmach ?g\<rparr> = u" by (simp_all add: set_mach_def gmach_def)
  show ?thesis
  proof (cases "word_of_int rc = n")
    case True
    then have "xfsread e ino n g = Some (False, bytes, ?g)" using g by (simp add: xfsread_def)
    moreover have "rc \<noteq> -1 \<Longrightarrow> opened (off + unat n) ?g" using rc same u assms(1) by (simp add: opened_def gb_inv_def)
    moreover have "rc \<noteq> -1"
    proof
      assume "rc = -1"
      then have "n = -1" using True by simp
      moreover have "(-1 :: u32) = 4294967295" by simp
      ultimately have n: "n = 4294967295" by (rule trans)
      have "fsize < 2147483648" using file_good by (simp add: file_ok_def)
      moreover have "unat n = 4294967295" unfolding n by simp
      ultimately show False using assms(4) by linarith
    qed
    ultimately show ?thesis using rc r(2) same(1) by (metis (no_types))
  next
    case False
    then have "xfsread e ino n g = Some (True, bytes, gsay ''Invalid %s\<newline>'' [lit ''format''] ?g)" using g by (simp add: xfsread_def)
    moreover have "failed (gsay ''Invalid %s\<newline>'' [lit ''format''] ?g)" using False rc by (intro failed_gsay) auto
    moreover have "same_prog g (gsay ''Invalid %s\<newline>'' [lit ''format''] ?g)" by (simp add: same_prog_def gsay_def set_mach_def)
    ultimately show ?thesis using r(2) by (metis (no_types))
  qed
qed

lemma opened_at: "opened off g \<Longrightarrow> gdsk g = d \<and> gb_inv content errs N e C f b g \<and> at_off ino off g"
  by (simp add: opened_def at_off_def read_pos_def)

lemma read_opened:
  assumes "opened off g" "off + unat n \<le> fsize"
  shows "\<exists>bad bytes g'. xfsread e ino n g = Some (bad, bytes, g') \<and> length bytes \<le> unat n \<and> same_prog g g' \<and>
    (bad \<and> failed g' \<or> \<not> bad \<and> bytes = fbytes F off (unat n) \<and> opened (off + unat n) g')"
  using xfsread_ok [OF _ _ _ assms(2), of g] opened_at [OF assms(1)] by blast

lemma opened_set_off: "opened off g \<Longrightarrow> opened (unat n) (set_off n g)"
  by (auto simp: opened_def set_off_def gb_inv_def ufs_inv_def caches_ok_def gmach_def)

lemma opened_upd [simp]:
  "opened off (g\<lparr>uphdr := x\<rparr>) = opened off g" "opened off (g\<lparr>pmem := y\<rparr>) = opened off g"
  "opened off (g\<lparr>binfo := z\<rparr>) = opened off g"
  by (simp_all add: opened_def gb_inv_def gmach_def)

section \<open>Program headers\<close>

text \<open>One header: an error of the drive, or the header in \<^verbatim>\<open>ep[j]\<close>.\<close>

lemma read_phdr:
  assumes "opened (phoff + 32 * i) g" "phoff + 32 * Suc i \<le> fsize" "j < 2" "length (uphdr g) = 64"
  shows "(\<exists>g'. read_phdrs e ino (Suc n) j g = Some (False, g') \<and> failed g') \<or>
    (\<exists>g'. read_phdrs e ino (Suc n) j g = read_phdrs e ino n (if u32_at (phdr F phoff i) 0 = PT_LOAD then Suc j else j) g' \<and>
       opened (phoff + 32 * Suc i) g' \<and> uphdr g' = put (uphdr g) (32 * j) (phdr F phoff i) \<and> pmem g' = pmem g \<and> kname g' = kname g)"
proof -
  have n: "unat SIZEOF_PHDR = 32" by (simp add: SIZEOF_PHDR_def)
  obtain bad bytes g1 where r: "xfsread e ino SIZEOF_PHDR g = Some (bad, bytes, g1)" "length bytes \<le> 32" "same_prog g g1"
      "bad \<and> failed g1 \<or> \<not> bad \<and> bytes = phdr F phoff i \<and> opened (phoff + 32 * Suc i) g1"
    using read_opened [OF assms(1), of SIZEOF_PHDR] assms(2) unfolding n by (auto simp: phdr_def add.commute add.left_commute)
  let ?ep = "put (uphdr g) (32 * j) bytes"
  have fit: "32 * j + length bytes \<le> length (uphdr g)" using r(2) assms(3,4) by simp
  then have ep: "store (uphdr g1) (32 * j) bytes = Some ?ep" using r(3) by (simp add: same_prog_def)
  show ?thesis
  proof (cases bad)
    case True
    then show ?thesis using r(1,4) ep assms(3) by simp
  next
    case False
    then have b: "bytes = phdr F phoff i" "opened (phoff + 32 * Suc i) g1" using r(4) by auto
    have "u32_at ?ep (32 * j) = u32_at (phdr F phoff i) 0"
      using fit b(1) unfolding u32_at_def put_def by simp
    then have "read_phdrs e ino (Suc n) j g =
        read_phdrs e ino n (if u32_at (phdr F phoff i) 0 = PT_LOAD then Suc j else j) (g1\<lparr>uphdr := ?ep\<rparr>)"
      using r(1) False ep assms(3) by simp
    then show ?thesis using b r(3) by (intro disjI2 exI [of _ "g1\<lparr>uphdr := ?ep\<rparr>"]) (simp add: same_prog_def)
  qed
qed

lemma put_twice: "off + length xs \<le> length m \<Longrightarrow> length ys = length xs \<Longrightarrow> put (put m off xs) off ys = put m off ys"
  by (simp add: put_def)

text \<open>Reading on to the next header of type \<^verbatim>\<open>PT_LOAD\<close>, number \<open>t\<close>.\<close>

lemma scan_phdrs:
  assumes "opened (phoff + 32 * i) g" "i \<le> t" "t < num" "phoff + 32 * Suc t \<le> fsize" "j < 2" "length (uphdr g) = 64"
    and "\<And>x. i \<le> x \<Longrightarrow> x < t \<Longrightarrow> u32_at (phdr F phoff x) 0 \<noteq> PT_LOAD" "u32_at (phdr F phoff t) 0 = PT_LOAD"
  shows "(\<exists>g'. read_phdrs e ino (num - i) j g = Some (False, g') \<and> failed g') \<or>
    (\<exists>g'. read_phdrs e ino (num - i) j g = read_phdrs e ino (num - Suc t) (Suc j) g' \<and>
       opened (phoff + 32 * Suc t) g' \<and> uphdr g' = put (uphdr g) (32 * j) (phdr F phoff t) \<and> pmem g' = pmem g \<and> kname g' = kname g)"
  using assms(1,2,6,7)
proof (induction "t - i" arbitrary: i g)
  case 0
  then have "i = t" by simp
  moreover have "num - t = Suc (num - Suc t)" using assms(3) by simp
  ultimately show ?case using read_phdr [OF "0.prems"(1) _ assms(5) "0.prems"(3), of "num - Suc t"] assms(4,8) by simp
next
  case (Suc m)
  then have it: "i < t" by simp
  have ni: "num - i = Suc (num - Suc i)" using it assms(3) by simp
  have le: "phoff + 32 * Suc i \<le> fsize" using it assms(4) by simp
  from read_phdr [OF Suc.prems(1) le assms(5) Suc.prems(3), of "num - Suc i"] show ?case
  proof (elim disjE exE conjE)
    fix g' assume "read_phdrs e ino (Suc (num - Suc i)) j g = Some (False, g')" "failed g'"
    then show ?thesis unfolding ni by blast
  next
    fix g1 assume g1: "read_phdrs e ino (Suc (num - Suc i)) j g =
          read_phdrs e ino (num - Suc i) (if u32_at (phdr F phoff i) 0 = PT_LOAD then Suc j else j) g1"
        "opened (phoff + 32 * Suc i) g1" "uphdr g1 = put (uphdr g) (32 * j) (phdr F phoff i)" "pmem g1 = pmem g" "kname g1 = kname g"
    have step: "read_phdrs e ino (num - i) j g = read_phdrs e ino (num - Suc i) j g1"
      using g1(1) Suc.prems(4) [of i] it unfolding ni by simp
    have len: "32 * j + length (phdr F phoff i) \<le> length (uphdr g)" using assms(5) Suc.prems(3) by simp
    have "(\<exists>g'. read_phdrs e ino (num - Suc i) j g1 = Some (False, g') \<and> failed g') \<or>
      (\<exists>g'. read_phdrs e ino (num - Suc i) j g1 = read_phdrs e ino (num - Suc t) (Suc j) g' \<and>
       opened (phoff + 32 * Suc t) g' \<and> uphdr g' = put (uphdr g1) (32 * j) (phdr F phoff t) \<and> pmem g' = pmem g1 \<and> kname g' = kname g1)"
      using Suc.hyps(2) it g1(2,3) len Suc.prems(3,4) by (intro Suc.hyps(1)) auto
    then show ?thesis unfolding step using g1(3-5) put_twice [OF len] by auto
  qed
qed

lemma read_phdrs_ok:
  assumes "opened phoff g" "two_loads F fsize phoff num i0 i1" "length (uphdr g) = 64"
  shows "(\<exists>g'. read_phdrs e ino num 0 g = Some (False, g') \<and> failed g') \<or>
    (\<exists>g'. read_phdrs e ino num 0 g = Some (True, g') \<and> opened (phoff + 32 * Suc i1) g' \<and>
       uphdr g' = phdr F phoff i0 @ phdr F phoff i1 \<and> pmem g' = pmem g \<and> kname g' = kname g)"
proof -
  note t = assms(2) [unfolded two_loads_def]
  have s1: "(\<exists>g'. read_phdrs e ino num 0 g = Some (False, g') \<and> failed g') \<or>
    (\<exists>g'. read_phdrs e ino num 0 g = read_phdrs e ino (num - Suc i0) 1 g' \<and>
       opened (phoff + 32 * Suc i0) g' \<and> uphdr g' = put (uphdr g) 0 (phdr F phoff i0) \<and> pmem g' = pmem g \<and> kname g' = kname g)"
    using scan_phdrs [of phoff 0 g i0 num 0] assms(1,3) t by simp
  {
    fix g1 assume g1: "opened (phoff + 32 * Suc i0) g1" "uphdr g1 = put (uphdr g) 0 (phdr F phoff i0)"
    then have len: "length (uphdr g1) = 64" using assms(3) by simp
    have "(\<exists>g'. read_phdrs e ino (num - Suc i0) 1 g1 = Some (False, g') \<and> failed g') \<or>
      (\<exists>g'. read_phdrs e ino (num - Suc i0) 1 g1 = read_phdrs e ino (num - Suc i1) 2 g' \<and>
         opened (phoff + 32 * Suc i1) g' \<and> uphdr g' = put (uphdr g1) 32 (phdr F phoff i1) \<and> pmem g' = pmem g1 \<and> kname g' = kname g1)"
      using scan_phdrs [of phoff "Suc i0" g1 i1 num 1, OF g1(1)] len t by (simp add: numeral_2_eq_2)
    moreover have "read_phdrs e ino n 2 g' = Some (True, g')" for n g' by (cases n) simp_all
    moreover have "put (uphdr g1) 32 (phdr F phoff i1) = phdr F phoff i0 @ phdr F phoff i1"
      using assms(3) by (simp add: g1(2) put_def)
    ultimately have "(\<exists>g'. read_phdrs e ino (num - Suc i0) 1 g1 = Some (False, g') \<and> failed g') \<or>
      (\<exists>g'. read_phdrs e ino (num - Suc i0) 1 g1 = Some (True, g') \<and>
         opened (phoff + 32 * Suc i1) g' \<and> uphdr g' = phdr F phoff i0 @ phdr F phoff i1 \<and> pmem g' = pmem g1 \<and> kname g' = kname g1)"
      by auto
  }
  with s1 show ?thesis by metis
qed

section \<open>Segments\<close>

lemma read_to_ok:
  assumes "opened off g" "off + unat n \<le> fsize"
  shows "\<exists>bad g'. read_to e ino p n g = Some (bad, g') \<and>
    (bad \<and> failed g' \<or> \<not> bad \<and> opened (off + unat n) g' \<and> uphdr g' = uphdr g \<and> kname g' = kname g \<and>
       pmem g' = (\<lambda>a. if unat (a - p) < unat n then F (off + unat (a - p)) else pmem g a))"
proof -
  obtain bad bytes g1 where r: "xfsread e ino n g = Some (bad, bytes, g1)" "same_prog g g1"
      "bad \<and> failed g1 \<or> \<not> bad \<and> bytes = fbytes F off (unat n) \<and> opened (off + unat n) g1"
    using read_opened [OF assms] by blast
  then have "read_to e ino p n g = Some (bad, store_mem p bytes g1)" by (simp add: read_to_def)
  moreover have "pmem (store_mem p bytes g1) = (\<lambda>a. if unat (a - p) < unat n then F (off + unat (a - p)) else pmem g a)"
    if "bytes = fbytes F off (unat n)" using that r(2) by (auto simp: store_mem_def fbytes_def same_prog_def)
  moreover have "opened (off + unat n) (store_mem p bytes g1) = opened (off + unat n) g1"
      "uphdr (store_mem p bytes g1) = uphdr g" "kname (store_mem p bytes g1) = kname g"
    using r(2) by (simp_all add: store_mem_def same_prog_def)
  ultimately show ?thesis using r(3) by auto
qed

lemma load_seg_ok:
  assumes "opened off g" "seg_fits fsize (ph_at (uphdr g) i)"
  shows "\<exists>bad g'. load_seg e ino i g = Some (bad, g') \<and>
    (bad \<and> failed g' \<or> \<not> bad \<and> (\<exists>off'. opened off' g') \<and> uphdr g' = uphdr g \<and> kname g' = kname g \<and>
       pmem g' = seg_mem F (ph_at (uphdr g) i) (pmem g))"
proof -
  let ?o = "u32_at (uphdr g) (32 * i + 4)" and ?n = "u32_at (uphdr g) (32 * i + 16)"
  have fld: "u32_at (ph_at (uphdr g) i) k = u32_at (uphdr g) (32 * i + k)" if "k + 4 \<le> 32" for k
    using that by (simp add: u32_at_def ph_at_def drop_take min_def add.commute)
  have fit: "unat ?o + unat ?n \<le> fsize" using assms(2) by (simp add: seg_fits_def fld)
  have s: "seg_mem F (ph_at (uphdr g) i) m = (\<lambda>a. if unat (a - seg_paddr (uphdr g) i) < unat ?n
      then F (unat ?o + unat (a - seg_paddr (uphdr g) i)) else m a)" for m
    by (simp add: seg_mem_def fld seg_paddr_def fun_eq_iff)
  have g: "uphdr (set_off ?o g) = uphdr g" "kname (set_off ?o g) = kname g" "pmem (set_off ?o g) = pmem g"
    by (simp_all add: set_off_def)
  show ?thesis
    using read_to_ok [OF opened_set_off [OF assms(1)] fit, of "seg_paddr (uphdr g) i"] unfolding s g load_seg_def Let_def by blast
qed

text \<open>The ELF branch of \<^verbatim>\<open>load\<close> for an image without a symbol table.\<close>

lemma load_elf_ok:
  assumes "opened off g" "length (uphdr g) = 64" "uint (u16_at h 48) \<noteq> uint (u16_at h 50) + 3"
    and "two_loads F fsize (unat (u32_at h 28)) (unat (u16_at h 44)) i0 i1"
    and "seg_fits fsize (phdr F (unat (u32_at h 28)) i0)" "seg_fits fsize (phdr F (unat (u32_at h 28)) i1)"
  shows "\<exists>r g'. load_elf e ino h g = Some (r, g') \<and>
    (r = None \<and> failed g' \<or> r \<noteq> None \<and> kname g' = kname g \<and> gdsk g' = d \<and>
       pmem g' = seg_mem F (phdr F (unat (u32_at h 28)) i1) (seg_mem F (phdr F (unat (u32_at h 28)) i0) (pmem g)))"
proof -
  let ?ph = "phdr F (unat (u32_at h 28))" and ?g0 = "set_off (u32_at h 28) g"
  have g0: "opened (unat (u32_at h 28)) ?g0" "length (uphdr ?g0) = 64" "pmem ?g0 = pmem g" "kname ?g0 = kname g"
    using opened_set_off [OF assms(1)] assms(2) by (simp_all add: set_off_def)
  from read_phdrs_ok [OF g0(1) assms(4) g0(2)] show ?thesis
  proof (elim disjE exE conjE)
    fix g1 assume "read_phdrs e ino (unat (u16_at h 44)) 0 ?g0 = Some (False, g1)" "failed g1"
    then show ?thesis by (simp add: load_elf_def)
  next
    fix g1 assume g1: "read_phdrs e ino (unat (u16_at h 44)) 0 ?g0 = Some (True, g1)"
      "opened (unat (u32_at h 28) + 32 * Suc i1) g1" "uphdr g1 = ?ph i0 @ ?ph i1" "pmem g1 = pmem ?g0" "kname g1 = kname ?g0"
    have ph: "ph_at (uphdr g1) 0 = ?ph i0" "ph_at (uphdr g1) 1 = ?ph i1" by (simp_all add: ph_at_def g1(3))
    obtain bad0 g2 where s0: "load_seg e ino 0 g1 = Some (bad0, g2)"
      "bad0 \<and> failed g2 \<or> \<not> bad0 \<and> (\<exists>off'. opened off' g2) \<and> uphdr g2 = uphdr g1 \<and> kname g2 = kname g1 \<and>
         pmem g2 = seg_mem F (?ph i0) (pmem g1)"
      using load_seg_ok [OF g1(2), of 0] assms(5) unfolding ph by blast
    show ?thesis
    proof (cases bad0)
      case True
      then show ?thesis using g1(1) s0 by (simp add: load_elf_def)
    next
      case False
      then obtain off2 where g2: "opened off2 g2" "uphdr g2 = uphdr g1" "kname g2 = kname g1" "pmem g2 = seg_mem F (?ph i0) (pmem g1)"
        using s0(2) by blast
      obtain bad1 g3 where s1: "load_seg e ino 1 g2 = Some (bad1, g3)"
        "bad1 \<and> failed g3 \<or> \<not> bad1 \<and> (\<exists>off'. opened off' g3) \<and> uphdr g3 = uphdr g2 \<and> kname g3 = kname g2 \<and>
           pmem g3 = seg_mem F (?ph i1) (pmem g2)"
        using load_seg_ok [OF g2(1), of 1] assms(6) unfolding g2(2) ph by blast
      show ?thesis
      proof (cases bad1)
        case True
        then show ?thesis using g1(1) s0(1) False s1 by (simp add: load_elf_def)
      next
        case ok: False
        then obtain off3 where g3: "opened off3 g3" "kname g3 = kname g2" "pmem g3 = seg_mem F (?ph i1) (pmem g2)"
          using s1(2) by blast
        then show ?thesis using g1(1,4,5) s0(1) False s1(1) ok assms(3) g0(3,4) g2(3,4)
          by (simp add: load_elf_def load_symtab_def Let_def opened_def)
      qed
    qed
  qed
qed

section \<open>From the name to the program\<close>

lemma lookup_file:
  assumes "gdsk g = d" "gb_inv content errs N e C f b g" "tree_ok (e_layout e) C f b k D dirs" "ROOTINO \<in> D"
    and "names_ok names" "names \<noteq> []" "length (dirbuf g) = DEV_BSIZE"
    and "resolve dirs names ROOTINO DT_DIR = Some (ino, DT_REG)" "ino \<notin> D"
  shows "\<exists>r g'. gb_lookup e (path_of names) g = Some (r, g') \<and> same_prog g g' \<and>
    (r = 0 \<and> failed g' \<or> r = ino \<and> gb_inv content errs N e C f b g' \<and> at_off ino 0 g')"
proof -
  obtain r out u where r: "lookup (e_layout e) (dskread (e_bios e) ''gptboot'' d) (path_of names) ROOTINO DT_DIR (dirbuf g) []
      ((gufs g)\<lparr>drive := gmach g\<rparr>) = Some (r, out, u)"
    "r = 0 \<and> N < errs (drive u) \<or> r = ino \<and> ufs_inv content errs N (e_layout e) C f b u \<and> inomap u \<in> D \<and> out = []"
    using block_reader.lookup_ok [OF reader assms(2) [unfolded gb_inv_def] mounted(1,2) assms(3,5) _ assms(7), of DT_DIR ROOTINO "[]"]
      assms(4,6,8) by auto
  let ?g = "set_mach (drive u) (g\<lparr>gufs := u\<rparr>)"
  have l: "gb_lookup e (path_of names) g = Some (r, if out = [] then ?g else gsay ''%s'' [Str (out @ [0])] ?g)"
    using r(1) assms(1) by (simp add: gb_lookup_def)
  have u: "gufs ?g = u" "(gufs ?g)\<lparr>drive := gmach ?g\<rparr> = u" by (simp_all add: set_mach_def gmach_def)
  have same: "same_prog g ?g" "same_prog g (gsay s as ?g)" for s as by (simp_all add: same_prog_def set_mach_def gsay_def)
  have "at_off ino 0 ?g" if "inomap u \<in> D" using that assms(9) u by (auto simp: at_off_def read_pos_def)
  moreover have "failed (gsay ''%s'' [Str (out @ [0])] ?g)" if "N < errs (drive u)" using that by (intro failed_gsay) simp
  ultimately show ?thesis using l r(2) same u(2) by (cases "out = []") (auto simp: gb_inv_def)
qed

lemma elf_not_aout: "IS_ELF h \<Longrightarrow> N_GETMAGIC h \<noteq> ZMAGIC"
  by (simp add: IS_ELF_def N_GETMAGIC_def ZMAGIC_def u32_at_def)

lemma load_ok:
  assumes "gdsk g = d" "gb_inv content errs N e C f b g" "tree_ok (e_layout e) C f b k D dirs" "ROOTINO \<in> D"
    and "cur_kname g = Some (path_of names)" "names_ok names" "names \<noteq> []" "length (dirbuf g) = DEV_BSIZE"
    and "resolve dirs names ROOTINO DT_DIR = Some (ino, DT_REG)" "ino \<notin> D"
    and "52 \<le> fsize" "IS_ELF (fbytes F 0 52)" "uint (u16_at (fbytes F 0 52) 48) \<noteq> uint (u16_at (fbytes F 0 52) 50) + 3"
    and "length (uphdr g) = 64"
    and "two_loads F fsize (unat (u32_at (fbytes F 0 52) 28)) (unat (u16_at (fbytes F 0 52) 44)) i0 i1"
    and "seg_fits fsize (phdr F (unat (u32_at (fbytes F 0 52) 28)) i0)" "seg_fits fsize (phdr F (unat (u32_at (fbytes F 0 52) 28)) i1)"
    and "unat (dsk_type d) < NDEV"
  shows "\<exists>x g'. load e g = Some (x, g') \<and>
    (x = None \<and> failed g' \<or>
     (\<exists>y. x = Some y \<and> ex_addr y = u32_at (fbytes F 0 52) 24 AND 0xffffff \<and>
        pmem g' = seg_mem F (phdr F (unat (u32_at (fbytes F 0 52) 28)) i1)
          (seg_mem F (phdr F (unat (u32_at (fbytes F 0 52) 28)) i0) (pmem g))))"
proof -
  let ?h = "fbytes F 0 52"
  obtain r g1 where l: "gb_lookup e (path_of names) g = Some (r, g1)" "same_prog g g1"
      "r = 0 \<and> failed g1 \<or> r = ino \<and> gb_inv content errs N e C f b g1 \<and> at_off ino 0 g1"
    using lookup_file [OF assms(1-4,6-10)] by blast
  have d1: "gdsk g1 = d" "uphdr g1 = uphdr g" "pmem g1 = pmem g" using l(2) assms(1) by (simp_all add: same_prog_def)
  have dn: "rd dev_nm (unat (dsk_type d)) = Some (dev_nm ! unat (dsk_type d))" "rd dev_maj (unat (dsk_type d)) = Some (dev_maj ! unat (dsk_type d))"
    using assms(18) by (simp_all add: NDEV_def dev_nm_def dev_maj_def)
  show ?thesis
  proof (cases "r = 0")
    case True
    then have "failed g1" using l(3) mounted(3) by auto
    then show ?thesis using l(1) True d1(1) dn(1) assms(5) failed_gsay by (simp add: load_def)
  next
    case False
    then have g1: "r = ino" "gb_inv content errs N e C f b g1" "at_off ino 0 g1" using l(3) by auto
    have n: "unat SIZEOF_HDR = 52" by (simp add: SIZEOF_HDR_def)
    obtain bad bytes g2 where x: "xfsread e ino SIZEOF_HDR g1 = Some (bad, bytes, g2)" "same_prog g1 g2"
        "bad \<and> failed g2 \<or> \<not> bad \<and> bytes = ?h \<and> opened 52 g2"
      using xfsread_ok [OF d1(1) g1(2,3), of SIZEOF_HDR] assms(11) unfolding n by auto
    show ?thesis
    proof (cases bad)
      case True
      then show ?thesis using l(1) False g1(1) x(1,3) assms(5) mounted(3) by (simp add: load_def)
    next
      case ok: False
      then have h: "bytes = ?h" "opened 52 g2" using x(3) by auto
      have g2: "uphdr g2 = uphdr g" "pmem g2 = pmem g" using x(2) d1 by (simp_all add: same_prog_def)
      obtain p g3 where e: "load_elf e ino ?h g2 = Some (p, g3)"
        "p = None \<and> failed g3 \<or> p \<noteq> None \<and> kname g3 = kname g2 \<and> gdsk g3 = d \<and>
         pmem g3 = seg_mem F (phdr F (unat (u32_at ?h 28)) i1) (seg_mem F (phdr F (unat (u32_at ?h 28)) i0) (pmem g2))"
        using load_elf_ok [OF h(2) _ assms(13) assms(15-17)] g2(1) assms(14) by auto
      have ld: "load e g = (case p of None \<Rightarrow> Some (None, g3) | Some q \<Rightarrow> boot_exec e (u32_at ?h 24 AND 0xffffff) q g3)"
        using l(1) False g1(1) x(1) ok h(1) assms(5,12) e(1) mounted(3) elf_not_aout [OF assms(12)] by (simp add: load_def)
      show ?thesis
      proof (cases p)
        case None
        then show ?thesis using ld e(2) by simp
      next
        case (Some q)
        then show ?thesis using ld e(2) dn(2) g2(2) by (simp add: boot_exec_def)
      qed
    qed
  qed
qed

end

section \<open>Booting an ELF image\<close>

text \<open>
  C28: \<^verbatim>\<open>load\<close> starts the ELF program that \<^verbatim>\<open>kname\<close> names.  On a tree of well-formed directories in which the path leads to
  a regular file without holes, whose header is that of an ELF image without symbols and with two loadable
  segments inside the file, \<^verbatim>\<open>load\<close> returns.  Unless a read of the drive has failed in the course of it, which shows in any
  count of failed reads (as \<open>read_errors\<close>, the errors that \<^verbatim>\<open>drvread\<close> reports on the console), it calls \<^verbatim>\<open>__exec\<close> with the entry
  point modulo 16 MB, and memory then holds the bytes of both segments at their physical addresses modulo 16 MB, the
  second over the first, and is otherwise unchanged.
\<close>

theorem load_boots_elf:
  fixes e :: "'d env" and g :: "'d gb"
  assumes "block_reader (dskread (e_bios e) ''gptboot'' (gdsk g)) content errs" "\<forall>fmt args m. errs m \<le> errs (say fmt args m)" "gb_inv content errs N e C f b g"
    and "the_fs (e_layout e) C = Some f" "wf_ino f b" "tree_ok (e_layout e) C f b k D dirs" "ROOTINO \<in> D"
    and "cur_kname g = Some (path_of names)" "names_ok names" "names \<noteq> []" "length (dirbuf g) = DEV_BSIZE"
    and "resolve dirs names ROOTINO DT_DIR = Some (ino, DT_REG)" "ino \<noteq> 0" "ino \<notin> D"
    and "file_ok C f b k (inode_at (e_layout e) C f ino)"
  defines "F \<equiv> file_byte C f b (inode_at (e_layout e) C f ino)" and "sz \<equiv> di_size (inode_at (e_layout e) C f ino)"
  defines "h \<equiv> fbytes F 0 52"
  assumes "52 \<le> sz" "IS_ELF h" "uint (u16_at h 48) \<noteq> uint (u16_at h 50) + 3" "length (uphdr g) = 64"
    and "two_loads F sz (unat (u32_at h 28)) (unat (u16_at h 44)) i0 i1"
    and "seg_fits sz (phdr F (unat (u32_at h 28)) i0)" "seg_fits sz (phdr F (unat (u32_at h 28)) i1)"
    and "unat (dsk_type (gdsk g)) < NDEV"
  shows "\<exists>x g'. load e g = Some (x, g') \<and>
    (x = None \<and> N < errs (gmach g') \<or>
     (\<exists>y. x = Some y \<and> ex_addr y = u32_at h 24 AND 0xffffff \<and>
        pmem g' = seg_mem F (phdr F (unat (u32_at h 28)) i1) (seg_mem F (phdr F (unat (u32_at h 28)) i0) (pmem g))))"
proof -
  have "open_file e (gdsk g) content errs C f b k ino"
    using assms(1,2,4,5,13,15) by (simp add: open_file_def)
  from open_file.load_ok [OF this refl assms(3,6-12,14)] show ?thesis
    using assms(19-) unfolding F_def sz_def h_def by blast
qed

text \<open>
  A drive of 2^64 sectors, so that no read is outside it, whose root directory has an ELF image of two segments, of four
  and two bytes.
\<close>

definition full_bios :: "image bios" where
  "full_bios regs pkt par buf img = (regs\<lparr>v86_efl := 0\<rparr>, par, put buf 0 (ram_read img (pkt_lba pkt) (unat (pkt_count pkt))), img)"

lemma full_reader: "block_reader (dskread full_bios bootprog g) (part_byte g) (\<lambda>_. 0)"
proof -
  have r: "block_reader (dskread full_bios bootprog g) (part_byte g) read_errors" by (rule part_reader) (simp add: full_bios_def V86_CY_def)
  have "fst (dskread full_bios bootprog g pa buf lba n m) = 0" for pa buf lba n m
    by (simp add: dskread_def drvread_def edd_rw_def full_bios_def Let_def V86_CY_def)
  then have "rc = 0" if "dskread full_bios bootprog g pa buf lba n m = (rc, buf', m')" for pa buf lba n m rc buf' m'
    using that by (metis fst_conv)
  then show ?thesis using block_reader.read_law [OF r] by unfold_locales fastforce
qed

definition elf_image :: "byte list" where
  "elf_image = [127, 69, 76, 70, 1, 1, 1, 0, 0, 0, 0, 0, 0, 0, 0, 0, 2, 0, 3, 0, 1, 0, 0, 0, 16, 0, 32, 0, 52, 0, 0, 0, 0, 0,
     0, 0, 0, 0, 0, 0, 52, 0, 32, 0, 2, 0, 40, 0, 0, 0, 0, 0, 1, 0, 0, 0, 116, 0, 0, 0, 0, 0, 32, 0, 0, 0, 32, 0,
     4, 0, 0, 0, 4, 0, 0, 0, 7, 0, 0, 0, 4, 0, 0, 0, 1, 0, 0, 0, 120, 0, 0, 0, 0, 16, 32, 0, 0, 16, 32, 0, 2, 0, 0,
     0, 2, 0, 0, 0, 7, 0, 0, 0, 4, 0, 0, 0, 235, 254, 144, 144, 85, 170]"

definition boot_content :: "int \<Rightarrow> byte" where
  "boot_content a = (if 86016 \<le> a \<and> a < 86138 then elf_image ! nat (a - 86016) else demo_content a)"

definition boot_mach :: "image mach" where
  "boot_mach = blank_mach (\<lambda>lba. map (\<lambda>i. boot_content (512 * uint lba + int i)) [0..<512])"

definition boot_dsk :: dsk where
  "boot_dsk = \<lparr>dsk_drive = 0x80, dsk_type = 0, dsk_unit = 0, dsk_slice = 0, dsk_part = 1, dsk_start = 0, dsk_init = 0\<rparr>"

definition boot_env :: "image env" where
  "boot_env = \<lparr>e_bios = full_bios, e_sio = \<lparr>sio_init = \<lambda>_ d. d, sio_flush = \<lambda>d. d, sio_putc = \<lambda>_ d. d,
       sio_getc = \<lambda>d. (0, d), sio_ischar = \<lambda>d. (False, d), clock = \<lambda>d. (1, d)\<rparr>,
     e_layout = tree_layout, e_uuid = replicate 16 7, pa_kname = 0xa000, pa_bootinfo = 0xa400\<rparr>"

definition boot_gb :: "image gb" where
  "boot_gb = \<lparr>gdsk = boot_dsk, kname = path_of [map of_char ''kernel''] @ replicate 1017 0, comspeed = 9600,
     binfo = binfo demo_gb, gcons = \<lparr>ioctrl = 1, cm = boot_mach\<rparr>,
     ggpt = \<lparr>primary = demo_side0, backup = demo_side0, gptcur = None, curent = -1, bootonce = True,
       gio = \<lparr>secbuf = replicate 512 0, machine = boot_mach, msgs = []\<rparr>\<rparr>,
     gufs = demo_ufs\<lparr>drive := boot_mach\<rparr>, dirbuf = replicate 512 0, uphdr = replicate 64 0, pmem = \<lambda>_. 0\<rparr>"

abbreviation bootC :: "int \<Rightarrow> byte" where
  "bootC \<equiv> part_byte boot_dsk boot_mach"

lemma bootC_at: "0 \<le> a \<Longrightarrow> a < 2 ^ 64 \<Longrightarrow> bootC a = boot_content a"
proof -
  assume a: "0 \<le> a" "a < 2 ^ 64"
  then have "0 \<le> a div 512" "a div 512 < 2 ^ 64" by auto
  then have "uint (word_of_int (a div 512) :: u64) = a div 512" by (simp add: uint_word_of_int_eq take_bit_int_eq_self)
  moreover have "[0..<512] ! nat (a mod 512) = nat (a mod 512)" by (subst nth_upt) auto
  ultimately show ?thesis
    by (simp add: part_byte_def boot_mach_def blank_mach_def ram_sect_def boot_dsk_def DEV_BSIZE_def nth_append)
qed

lemma boot_tree: "tree_content bootC"
  using demo_content_ok by (auto simp: tree_content_def bootC_at boot_content_def)

lemma boot_file: "p < 122 \<Longrightarrow> file_byte bootC demo_fs 12 demo_di p = elf_image ! p"
  by (simp add: file_byte_def baddr_def demo_di_def NDADDR_def fsbtodb_def demo_fs_def bootC_at boot_content_def)

lemma boot_bytes: "off + n \<le> 122 \<Longrightarrow> fbytes (file_byte bootC demo_fs 12 demo_di) off n = take n (drop off elf_image)"
proof -
  assume "off + n \<le> 122"
  moreover have "length elf_image = 122" by (simp add: elf_image_def)
  ultimately show ?thesis by (intro nth_equalityI) (simp_all add: fbytes_def boot_file)
qed

text \<open>The fields of the image.\<close>

lemma elf_header:
  "u32_at (take 52 elf_image) 28 = 52" "u16_at (take 52 elf_image) 44 = 2" "u16_at (take 52 elf_image) 48 = 0"
  "u16_at (take 52 elf_image) 50 = 0" "u32_at (take 52 elf_image) 24 = 0x200010"
  by (simp_all add: elf_image_def u32_at_def u16_at_def)

lemma elf_image_IS_ELF: "IS_ELF (take 52 elf_image)"
  by (simp add: elf_image_def IS_ELF_def)

lemma boot_phdr: "i < 2 \<Longrightarrow> phdr (file_byte bootC demo_fs 12 demo_di) 52 i = take 32 (drop (52 + 32 * i) elf_image)"
  using boot_bytes [of "52 + 32 * i" 32] by (simp add: phdr_def)

lemma boot_phdr0:
  defines "ph \<equiv> phdr (file_byte bootC demo_fs 12 demo_di) 52 0"
  shows "u32_at ph 0 = 1" "u32_at ph 4 = 116" "u32_at ph 12 = 0x200000" "u32_at ph 16 = 4"
  by (simp_all add: ph_def boot_phdr elf_image_def u32_at_def)

lemma boot_phdr1:
  defines "ph \<equiv> phdr (file_byte bootC demo_fs 12 demo_di) 52 (Suc 0)"
  shows "u32_at ph 0 = 1" "u32_at ph 4 = 120" "u32_at ph 12 = 0x201000" "u32_at ph 16 = 2"
  by (simp_all add: ph_def boot_phdr elf_image_def u32_at_def)

lemma boot_loads: "two_loads (file_byte bootC demo_fs 12 demo_di) 600 52 2 0 (Suc 0)"
  using boot_phdr0(1) boot_phdr1(1) by (auto simp: two_loads_def PT_LOAD_def le_Suc_eq)

lemma boot_segs:
  defines "F \<equiv> file_byte bootC demo_fs 12 demo_di"
  shows "seg_mem F (phdr F 52 (Suc 0)) (seg_mem F (phdr F 52 0) m) 0x200000 = 0xeb"
    and "seg_mem F (phdr F 52 (Suc 0)) (seg_mem F (phdr F 52 0) m) 0x201001 = 0xaa"
  by (simp_all add: F_def seg_mem_def boot_phdr0 boot_phdr1 boot_file elf_image_def)

lemma boot_fits:
  defines "F \<equiv> file_byte bootC demo_fs 12 demo_di"
  shows "seg_fits 600 (phdr F 52 0)" "seg_fits 600 (phdr F 52 (Suc 0))"
  by (simp_all add: F_def seg_fits_def boot_phdr0 boot_phdr1)

lemma boot_inode: "inode_at (e_layout boot_env) bootC demo_fs 5 = demo_di"
  using tree_inodes(2) [OF boot_tree] by (simp add: boot_env_def)

lemma boot_state:
  "gb_inv (part_byte boot_dsk) (\<lambda>_. 0) 0 boot_env bootC demo_fs 12 boot_gb"
  "cur_kname boot_gb = Some (path_of [map of_char ''kernel''])"
  "length (dirbuf boot_gb) = DEV_BSIZE" "length (uphdr boot_gb) = 64" "unat (dsk_type (gdsk boot_gb)) < NDEV"
  by (simp_all add: gb_inv_def ufs_inv_def boot_gb_def demo_ufs_def gmach_def boot_env_def cur_kname_def path_of_def cstr_def
      DEV_BSIZE_def boot_dsk_def NDEV_def)

interpretation boot: open_file boot_env boot_dsk "part_byte boot_dsk" "\<lambda>_. 0" bootC demo_fs 12 9 5 0
proof (rule open_file.intro)
  show "block_reader (dskread (e_bios boot_env) ''gptboot'' boot_dsk) (part_byte boot_dsk) (\<lambda>_. 0)"
    using full_reader by (simp add: boot_env_def)
  show "the_fs (e_layout boot_env) bootC = Some demo_fs" using tree_fs by (simp add: boot_env_def)
  show "file_ok bootC demo_fs 12 9 (inode_at (e_layout boot_env) bootC demo_fs 5)"
    unfolding boot_inode by (rule demo_file_ok)
qed (simp_all add: demo_fs_ok)

theorem load_boots_elf_witness:
  "\<exists>y g'. load boot_env boot_gb = Some (Some y, g') \<and> ex_addr y = 0x200010 \<and> pmem g' 0x200000 = 0xeb \<and> pmem g' 0x201001 = 0xaa"
proof -
  have g: "gdsk boot_gb = boot_dsk" by (simp add: boot_gb_def)
  have tree: "tree_ok (e_layout boot_env) bootC demo_fs 12 9 {2} (\<lambda>_. [demo_ents])"
    using demo_tree [OF boot_tree] by (simp add: boot_env_def)
  have res: "resolve (\<lambda>_. [demo_ents]) [map of_char ''kernel''] ROOTINO DT_DIR = Some (5, DT_REG)" "ROOTINO \<in> {2}"
    using demo_names(2) by (simp_all add: ROOTINO_def)
  have h: "fbytes (file_byte bootC demo_fs 12 demo_di) 0 52 = take 52 elf_image" using boot_bytes [of 0 52] by simp
  have n: "unat (52 :: u32) = 52" "unat (2 :: u16) = 2" "(0x200010 :: u32) AND 0xffffff = 0x200010" "uint (0 :: u16) \<noteq> uint (0 :: u16) + 3"
    by simp_all
  note main = load_boots_elf [of boot_env boot_gb, unfolded g, OF boot.reader _ boot_state(1) boot.mounted(1,2) tree res(2)
      boot_state(2) demo_names(1) _ boot_state(3) res(1) _ _ boot.file_good, unfolded boot_inode demo_state(2) h elf_header n, 
      OF _ _ _ _ _ elf_image_IS_ELF n(4) boot_state(4) boot_loads boot_fits boot_state(5) [unfolded g]]
  show ?thesis using main boot_segs by fastforce
qed

end
