(* ===== verification/Disk.thy ===== *)
theory Disk
  imports Gpt Blockdev
begin

text \<open>
  \<^verbatim>\<open>boot/common/disk.c\<close>: finding a slice or partition of a disk by its MBR or GPT, and
  \<^verbatim>\<open>boot/userboot/userboot/userboot_disk.c\<close>, the driver that uses it.

  The strategy routine of the device is the argument \<open>strat\<close>, which gets the descriptor as the
  code passes it.  A slice table is the list of its used entries; the buffers on the stack are
  taken to hold zeroes before they are filled.  The output of the print routines is the list of
  the calls of \<^verbatim>\<open>pager_output\<close>, each with the format and the arguments of the line.
  \<^term>\<open>None\<close> is an access outside an object (the \<^verbatim>\<open>NULL\<close> table included) or fuel that ran out.
\<close>

section \<open>Descriptors and tables\<close>

record disk_devdesc =
  d_unit :: int
  d_slice :: int
  d_partition :: int
  d_offset :: int

record dos_partition =
  dp_flag :: byte
  dp_typ :: byte
  dp_start :: u32
  dp_size :: u32

datatype disk_rc = RcOk | RcDev int | RcEIO | RcENXIO | RcEINVAL | RcENOENT | RcEPART | RcEROFS

definition DISK_SECSIZE :: nat where "DISK_SECSIZE = 512"
definition DOSPARTOFF :: nat where "DOSPARTOFF = 446"
definition NDOSPART :: nat where "NDOSPART = 4"
definition NEXTDOSPART :: nat where "NEXTDOSPART = 32"
definition DOSPTYP_EXT :: byte where "DOSPTYP_EXT = 5"
definition DOSPTYP_386BSD :: byte where "DOSPTYP_386BSD = 0xa5"
definition DOSPTYP_LINSWP :: byte where "DOSPTYP_LINSWP = 0x82"
definition DOSPTYP_LINUX :: byte where "DOSPTYP_LINUX = 0x83"
definition LABELSECTOR :: int where "LABELSECTOR = 1"
definition DISKMAGIC :: u32 where "DISKMAGIC = 0x82564557"
definition RAW_PART :: nat where "RAW_PART = 2"

definition PREF_FBSD_ACT :: nat where "PREF_FBSD_ACT = 1"
definition PREF_FBSD :: nat where "PREF_FBSD = 2"
definition PREF_LINUX_ACT :: nat where "PREF_LINUX_ACT = 3"
definition PREF_LINUX :: nat where "PREF_LINUX = 4"
definition PREF_DOS_ACT :: nat where "PREF_DOS_ACT = 5"
definition PREF_DOS :: nat where "PREF_DOS = 6"
definition PREF_NONE :: nat where "PREF_NONE = 7"

text \<open>The slice entry at an offset of a sector.\<close>

definition dp_at :: "byte list \<Rightarrow> nat \<Rightarrow> dos_partition" where
  "dp_at buf off = \<lparr>dp_flag = buf ! off, dp_typ = buf ! (off + 4),
     dp_start = u32_at buf (off + 8), dp_size = u32_at buf (off + 12)\<rparr>"

definition dos_magic :: "byte list \<Rightarrow> bool" where
  "dos_magic buf \<longleftrightarrow> buf ! 0x1fe = 0x55 \<and> buf ! 0x1ff = 0xaa"

text \<open>One sector read into a buffer on the stack.\<close>

definition rdsec ::
  "(disk_devdesc \<Rightarrow> 'd strategy) \<Rightarrow> disk_devdesc \<Rightarrow> int \<Rightarrow> 'd \<Rightarrow> (int \<times> byte list \<times> 'd) option" where
  "rdsec strat dev blk d = do {
     (rc, buf, _, d') \<leftarrow> strat dev d F_READ blk DISK_SECSIZE (replicate DISK_SECSIZE 0) None;
     if length buf = DISK_SECSIZE then Some (rc, buf, d') else None
   }"

section \<open>MBR slices\<close>

text \<open>
  The loop of \<^verbatim>\<open>disk_checkextended\<close> that appends the logical slices; the flag tells that the table
  filled up (\<^verbatim>\<open>goto done\<close>).
\<close>

fun ext_copy :: "byte list \<Rightarrow> u32 \<Rightarrow> nat \<Rightarrow> nat \<Rightarrow> dos_partition list \<Rightarrow> bool \<times> dos_partition list" where
  "ext_copy buf base i 0 tab = (False, tab)"
| "ext_copy buf base i (Suc k) tab =
     (let dp = dp_at buf (DOSPARTOFF + 16 * i) in
      if dp_size dp = 0 then ext_copy buf base (Suc i) k tab
      else if length tab = NEXTDOSPART then (True, tab)
      else ext_copy buf base (Suc i) k (tab @ [dp\<lparr>dp_start := dp_start dp + base\<rparr>]))"

fun disk_checkextended ::
  "(disk_devdesc \<Rightarrow> 'd strategy) \<Rightarrow> disk_devdesc \<Rightarrow> nat \<Rightarrow> nat \<Rightarrow> dos_partition list \<times> 'd \<Rightarrow>
   (dos_partition list \<times> 'd) option"
and check_slices ::
  "(disk_devdesc \<Rightarrow> 'd strategy) \<Rightarrow> disk_devdesc \<Rightarrow> nat \<Rightarrow> nat list \<Rightarrow> dos_partition list \<times> 'd \<Rightarrow>
   (dos_partition list \<times> 'd) option" where
  "disk_checkextended strat dev 0 slicenum st = None"
| "disk_checkextended strat dev (Suc fuel) slicenum (tab, d) = do {
     dp \<leftarrow> rd tab slicenum;
     if dp_size dp = 0 then Some (tab, d)
     else if dp_typ dp \<noteq> DOSPTYP_EXT then Some (tab, d)
     else do {
       (rc, buf, d1) \<leftarrow> rdsec strat dev (uint (dp_start dp)) d;
       if rc \<noteq> 0 then Some (tab, d1)
       else if \<not> dos_magic buf then Some (tab, d1)
       else
         (let (full, tab1) = ext_copy buf (dp_start dp) 0 NDOSPART tab in
          if full then Some (tab1, d1)
          else check_slices strat dev fuel [length tab..<length tab1] (tab1, d1))
     }
   }"
| "check_slices strat dev fuel [] st = Some st"
| "check_slices strat dev fuel (i # is) st = do {
     st' \<leftarrow> disk_checkextended strat dev fuel i st;
     check_slices strat dev fuel is st'
   }"

text \<open>Every nested call finds a longer table, so this fuel is enough (\<open>slicetab_bounded\<close>).\<close>

definition ext_fuel :: nat where "ext_fuel = Suc NEXTDOSPART"

text \<open>The table is \<^term>\<open>None\<close> where the routine leaves \<^verbatim>\<open>*slicetabp\<close> alone.\<close>

definition disk_readslicetab ::
  "(disk_devdesc \<Rightarrow> 'd strategy) \<Rightarrow> disk_devdesc \<Rightarrow> 'd \<Rightarrow> (disk_rc \<times> dos_partition list option \<times> 'd) option" where
  "disk_readslicetab strat dev d = do {
     (rc, buf, d1) \<leftarrow> rdsec strat dev 0 d;
     if rc \<noteq> 0 then Some (RcDev rc, None, d1)
     else if \<not> dos_magic buf then Some (RcOk, None, d1)
     else do {
       (tab, d2) \<leftarrow> check_slices strat dev ext_fuel [0..<NDOSPART]
         (map (\<lambda>i. dp_at buf (DOSPARTOFF + 16 * i)) [0..<NDOSPART], d1);
       Some (RcOk, Some tab, d2)
     }
   }"

definition slice_pref :: "dos_partition \<Rightarrow> nat" where
  "slice_pref dp =
     (let active = (dp_flag dp AND 0x80 \<noteq> 0) in
      if dp_typ dp = DOSPTYP_386BSD then (if active then PREF_FBSD_ACT else PREF_FBSD)
      else if dp_typ dp = DOSPTYP_LINUX then (if active then PREF_LINUX_ACT else PREF_LINUX)
      else if dp_typ dp \<in> {0x01, 0x04, 0x06, 0x0b, 0x0c, 0x0e} then (if active then PREF_DOS_ACT else PREF_DOS)
      else PREF_NONE)"

fun bestslice_loop :: "nat \<Rightarrow> dos_partition list \<Rightarrow> nat \<Rightarrow> nat \<Rightarrow> nat" where
  "bestslice_loop i [] preflevel prefslice = prefslice"
| "bestslice_loop i (dp # dps) preflevel prefslice =
     (if slice_pref dp < preflevel then bestslice_loop (Suc i) dps (slice_pref dp) (i + 1)
      else bestslice_loop (Suc i) dps preflevel prefslice)"

definition disk_bestslice :: "dos_partition list \<Rightarrow> nat" where
  "disk_bestslice slicetab = bestslice_loop 0 slicetab PREF_NONE 0"

text \<open>The BSD label in a sector: the magic number, the number of partitions and a field of one.\<close>

definition lp_magic :: "byte list \<Rightarrow> u32" where "lp_magic buf = u32_at buf 0"
definition lp_npartitions :: "byte list \<Rightarrow> nat" where "lp_npartitions buf = le_nat (take 2 (drop 138 buf))"

definition lp_part :: "byte list \<Rightarrow> nat \<Rightarrow> (u32 \<times> u32 \<times> byte) option" where
  "lp_part buf i = map_option (\<lambda>p. (u32_at p 0, u32_at p 4, p ! 12)) (slice buf (148 + 16 * i) 16)"

text \<open>\<^verbatim>\<open>disk_openmbr\<close> from the label \<^verbatim>\<open>unsliced\<close> on.\<close>

definition open_unsliced ::
  "(disk_devdesc \<Rightarrow> 'd strategy) \<Rightarrow> disk_devdesc \<Rightarrow> u32 \<Rightarrow> 'd \<Rightarrow> (disk_rc \<times> disk_devdesc \<times> 'd) option" where
  "open_unsliced strat dev sector d =
     (if d_partition dev < 0 then Some (RcOk, dev\<lparr>d_offset := sint sector\<rparr>, d)
      else do {
        (rc, buf, d1) \<leftarrow> rdsec strat dev (sint (sector + of_int LABELSECTOR)) d;
        if rc \<noteq> 0 then Some (RcDev rc, dev, d1)
        else if lp_magic buf \<noteq> DISKMAGIC then Some (RcENOENT, dev, d1)
        else if d_partition dev \<ge> int (lp_npartitions buf) then Some (RcEPART, dev, d1)
        else do {
          (_, offset, _) \<leftarrow> lp_part buf (nat (d_partition dev));
          (_, raw, _) \<leftarrow> lp_part buf RAW_PART;
          Some (RcOk, dev\<lparr>d_offset := sint (offset - raw + sector)\<rparr>, d1)
        }
      })"

definition disk_openmbr ::
  "(disk_devdesc \<Rightarrow> 'd strategy) \<Rightarrow> disk_devdesc \<Rightarrow> 'd \<Rightarrow> (disk_rc \<times> disk_devdesc \<times> 'd) option" where
  "disk_openmbr strat dev d = do {
     (rc, slicetab, d1) \<leftarrow> disk_readslicetab strat dev d;
     if rc \<noteq> RcOk then Some (rc, dev, d1)
     else do {
       tab \<leftarrow> slicetab;
       if d_slice dev > 0 \<and> d_slice dev - 1 \<ge> int (length tab) then Some (RcEPART, dev, d1)
       else do {
         dp3 \<leftarrow> rd tab 3;
         if dp_typ dp3 = DOSPTYP_386BSD \<and> dp_start dp3 = 0 \<and> dp_size dp3 = 50000
         then open_unsliced strat dev 0 d1
         else do {
           let dev1 = (if d_slice dev = 0 then dev\<lparr>d_slice := int (disk_bestslice tab)\<rparr> else dev);
           dptr \<leftarrow> (if d_slice dev1 \<ge> 1 then rd tab (nat (d_slice dev1 - 1)) else None);
           open_unsliced strat dev1 (dp_start dptr) d1
         }
       }
     }
   }"

section \<open>GPT partitions\<close>

record gpt_part =
  gp_index :: int
  gp_type :: "byte list"
  gp_start :: u64
  gp_end :: u64

definition ent_lba_end :: "byte list \<Rightarrow> u64" where "ent_lba_end e = u64_at e 40"

definition uuid_is_nil :: "byte list \<Rightarrow> bool" where "uuid_is_nil u \<longleftrightarrow> u = replicate 16 0"

definition ent_valid :: "byte list \<Rightarrow> bool" where
  "ent_valid e \<longleftrightarrow> \<not> (uuid_is_nil (ent_type e) \<or> ent_lba_start e = 0 \<or> ent_lba_end e < ent_lba_start e)"

text \<open>Entry \<open>i\<close> of a table sector, \<^verbatim>\<open>tbl + i * hdr->hdr_entsz\<close>.\<close>

definition tbl_ent :: "byte list \<Rightarrow> nat \<Rightarrow> nat \<Rightarrow> byte list" where
  "tbl_ent tbl entsz i = take ENT_SIZE (drop (i * entsz) tbl)"

text \<open>The protective MBR: exactly one slice of type 0xee, and nothing before it.\<close>

fun pmbr_loop :: "byte list list \<Rightarrow> nat \<Rightarrow> nat option" where
  "pmbr_loop [] part = Some part"
| "pmbr_loop (dp # dps) part =
     (if dp ! 4 = 0xee then pmbr_loop dps (part + 1)
      else if part \<noteq> 1 \<and> dp ! 4 \<noteq> 0 then None
      else pmbr_loop dps part)"

definition dos_slices :: "byte list \<Rightarrow> byte list list" where
  "dos_slices tbl = map (\<lambda>i. take 16 (drop (DOSPARTOFF + 16 * i) tbl)) [0..<NDOSPART]"

text \<open>First walk: count the valid entries of \<open>n\<close> sectors from \<open>lba\<close> on.  \<open>Inr\<close> is the count.\<close>

fun gpt_count ::
  "(disk_devdesc \<Rightarrow> 'd strategy) \<Rightarrow> disk_devdesc \<Rightarrow> nat \<Rightarrow> nat \<Rightarrow> int \<Rightarrow> nat \<Rightarrow> nat \<Rightarrow> 'd \<Rightarrow>
   ((disk_rc + nat) \<times> 'd) option" where
  "gpt_count strat dev entsz eps lba 0 part d = Some (Inr part, d)"
| "gpt_count strat dev entsz eps lba (Suc n) part d = do {
     (rc, tbl, d1) \<leftarrow> rdsec strat dev lba d;
     if rc \<noteq> 0 then Some (Inl RcEIO, d1)
     else gpt_count strat dev entsz eps (lba + 1) n
       (part + length (filter (\<lambda>i. ent_valid (tbl_ent tbl entsz i)) [0..<eps])) d1
   }"

text \<open>Second walk: \<open>gptab\<close> has room for \<open>room\<close> partitions, \<open>acc\<close> are those saved.\<close>

fun gpt_save_sec :: "byte list \<Rightarrow> nat \<Rightarrow> int \<Rightarrow> nat list \<Rightarrow> nat \<Rightarrow> gpt_part list \<Rightarrow> gpt_part list option" where
  "gpt_save_sec tbl entsz first [] room acc = Some acc"
| "gpt_save_sec tbl entsz first (i # is) room acc =
     (let e = tbl_ent tbl entsz i in
      if \<not> ent_valid e then gpt_save_sec tbl entsz first is room acc
      else if length acc < room then
        gpt_save_sec tbl entsz first is room
          (acc @ [\<lparr>gp_index = sint (word_of_int (first + int i + 1) :: u32), gp_type = ent_type e,
                   gp_start = ent_lba_start e, gp_end = ent_lba_end e\<rparr>])
      else None)"

fun gpt_save ::
  "(disk_devdesc \<Rightarrow> 'd strategy) \<Rightarrow> disk_devdesc \<Rightarrow> nat \<Rightarrow> nat \<Rightarrow> int \<Rightarrow> nat \<Rightarrow> nat \<Rightarrow> nat \<Rightarrow> gpt_part list \<Rightarrow> 'd \<Rightarrow>
   ((disk_rc + gpt_part list) \<times> 'd) option" where
  "gpt_save strat dev entsz eps base k 0 room acc d = Some (Inr acc, d)"
| "gpt_save strat dev entsz eps base k (Suc n) room acc d = do {
     (rc, tbl, d1) \<leftarrow> rdsec strat dev (base + int k) d;
     if rc \<noteq> 0 then Some (Inl RcEIO, d1)
     else do {
       acc' \<leftarrow> gpt_save_sec tbl entsz (int k * int eps) [0..<eps] room acc;
       gpt_save strat dev entsz eps base (Suc k) n room acc' d1
     }
   }"

definition disk_readgpt ::
  "(disk_devdesc \<Rightarrow> 'd strategy) \<Rightarrow> disk_devdesc \<Rightarrow> 'd \<Rightarrow> ((disk_rc + gpt_part list) \<times> 'd) option" where
  "disk_readgpt strat dev d = do {
     (rc, tbl, d1) \<leftarrow> rdsec strat dev 0 d;
     if rc \<noteq> 0 then Some (Inl RcEIO, d1)
     else if \<not> dos_magic tbl then Some (Inl RcENXIO, d1)
     else if pmbr_loop (dos_slices tbl) 0 \<noteq> Some 1 then Some (Inl RcEINVAL, d1)
     else do {
       (rc, hdr, d2) \<leftarrow> rdsec strat dev 1 d1;
       if rc \<noteq> 0 then Some (Inl RcEIO, d2)
       else if hdr_sig hdr \<noteq> GPT_HDR_SIG \<or> hdr_lba_self hdr \<noteq> 1 \<or> hdr_revision hdr < 0x00010000 \<or>
          unat (hdr_entsz hdr) < ENT_SIZE \<or> DISK_SECSIZE mod unat (hdr_entsz hdr) \<noteq> 0
       then Some (Inl RcEINVAL, d2)
       else do {
         let entsz = unat (hdr_entsz hdr);
         let eps = DISK_SECSIZE div entsz;
         let base = sint (hdr_lba_table hdr);
         let elba = sint (hdr_lba_table hdr + of_nat (unat (hdr_entries hdr) div eps));
         let n = nat (elba - base);
         (res, d3) \<leftarrow> gpt_count strat dev entsz eps base n 0 d2;
         case res of
           Inl rc \<Rightarrow> Some (Inl rc, d3)
         | Inr part \<Rightarrow>
             if part = 0 then Some (Inr [], d3)
             else gpt_save strat dev entsz eps base 0 n part [] d3
       }
     }
   }"

text \<open>The type identifiers of \<^verbatim>\<open>sys/gpt.h\<close>, in the byte order of the disk.\<close>

definition uuid_bytes :: "u32 \<Rightarrow> u16 \<Rightarrow> u16 \<Rightarrow> byte list \<Rightarrow> byte list" where
  "uuid_bytes lo mid hi rest = le_bytes 4 (unat lo) @ le_bytes 2 (unat mid) @ le_bytes 2 (unat hi) @ rest"

definition efi :: "byte list" where
  "efi = uuid_bytes 0xc12a7328 0xf81f 0x11d2 [0xba, 0x4b, 0x00, 0xa0, 0xc9, 0x3e, 0xc9, 0x3b]"
definition freebsd_boot :: "byte list" where
  "freebsd_boot = uuid_bytes 0x83bd6b9d 0x7f41 0x11dc [0xbe, 0x0b, 0x00, 0x15, 0x60, 0xb8, 0x4f, 0x0f]"
definition freebsd_ufs :: "byte list" where
  "freebsd_ufs = uuid_bytes 0x516e7cb6 0x6ecf 0x11d6 [0x8f, 0xf8, 0x00, 0x02, 0x2d, 0x09, 0x71, 0x2b]"
definition freebsd_swap :: "byte list" where
  "freebsd_swap = uuid_bytes 0x516e7cb5 0x6ecf 0x11d6 [0x8f, 0xf8, 0x00, 0x02, 0x2d, 0x09, 0x71, 0x2b]"
definition freebsd_zfs :: "byte list" where
  "freebsd_zfs = uuid_bytes 0x516e7cba 0x6ecf 0x11d6 [0x8f, 0xf8, 0x00, 0x02, 0x2d, 0x09, 0x71, 0x2b]"
definition ms_basic_data :: "byte list" where
  "ms_basic_data = uuid_bytes 0xebd0a0a2 0xb9e5 0x4433 [0x87, 0xc0, 0x68, 0xb6, 0xb7, 0x26, 0x99, 0xc7]"

definition gpt_pref :: "gpt_part \<Rightarrow> nat" where
  "gpt_pref gp =
     (if gp_type gp = ms_basic_data then PREF_DOS
      else if gp_type gp = freebsd_ufs \<or> gp_type gp = freebsd_zfs then PREF_FBSD
      else PREF_NONE)"

fun bestgpt_loop :: "gpt_part list \<Rightarrow> nat \<Rightarrow> gpt_part option \<Rightarrow> gpt_part option" where
  "bestgpt_loop [] preflevel prefpart = prefpart"
| "bestgpt_loop (gp # gps) preflevel prefpart =
     (if gpt_pref gp < preflevel then bestgpt_loop gps (gpt_pref gp) (Some gp)
      else bestgpt_loop gps preflevel prefpart)"

definition disk_bestgpt :: "gpt_part list \<Rightarrow> gpt_part option" where
  "disk_bestgpt gpt = bestgpt_loop gpt PREF_NONE None"

definition disk_opengpt ::
  "(disk_devdesc \<Rightarrow> 'd strategy) \<Rightarrow> disk_devdesc \<Rightarrow> 'd \<Rightarrow> (disk_rc \<times> disk_devdesc \<times> 'd) option" where
  "disk_opengpt strat dev d = do {
     (res, d1) \<leftarrow> disk_readgpt strat dev d;
     Some (case res of
       Inl rc \<Rightarrow> (rc, dev, d1)
     | Inr gpt \<Rightarrow>
         if d_slice dev < 0 then (RcOk, dev\<lparr>d_offset := 0\<rparr>, d1)
         else if d_partition dev \<noteq> 0xff then (RcENOENT, dev, d1)
         else
           (case (if d_slice dev > 0 then find (\<lambda>gp. gp_index gp = d_slice dev) gpt else disk_bestgpt gpt) of
              None \<Rightarrow> (RcENOENT, dev, d1)
            | Some gp \<Rightarrow>
                (RcOk, (if d_slice dev = 0 then dev\<lparr>d_slice := gp_index gp\<rparr> else dev)
                   \<lparr>d_offset := sint (ucast (gp_start gp) :: u32)\<rparr>, d1)))
   }"

definition disk_open ::
  "(disk_devdesc \<Rightarrow> 'd strategy) \<Rightarrow> disk_devdesc \<Rightarrow> 'd \<Rightarrow> (disk_rc \<times> disk_devdesc \<times> 'd) option" where
  "disk_open strat dev d = do {
     let dev0 = dev\<lparr>d_offset := 0\<rparr>;
     (rc, dev1, d1) \<leftarrow> disk_opengpt strat dev0 d;
     if rc = RcOk then Some (RcOk, dev1, d1) else disk_openmbr strat dev1 d1
   }"

section \<open>Listing\<close>

datatype parg = PInt int | PStr "byte list" | PSize nat char | PLit string

type_synonym line = "string \<times> parg list"

text \<open>The number and unit that \<^verbatim>\<open>display_size\<close> prints for a size in sectors.\<close>

definition display_size :: "u64 \<Rightarrow> nat \<times> char" where
  "display_size sz =
     (let n = unat sz div 2 in
      if n \<ge> 10485760000 then (n div 1073741824, CHR ''T'')
      else if n \<ge> 10240000 then (n div 1048576, CHR ''G'')
      else if n \<ge> 10000 then (n div 1024, CHR ''M'')
      else (n, CHR ''K''))"

definition psize :: "u64 \<Rightarrow> parg" where
  "psize sz = (case display_size sz of (n, u) \<Rightarrow> PSize n u)"

definition FS_SWAP :: byte where "FS_SWAP = 1"
definition FS_BSDFFS :: byte where "FS_BSDFFS = 7"
definition FS_VINUM :: byte where "FS_VINUM = 14"

definition bsd_line :: "byte list \<Rightarrow> bool \<Rightarrow> nat \<Rightarrow> u32 \<times> u32 \<times> byte \<Rightarrow> line list" where
  "bsd_line prefix verbose i =
     (\<lambda>(sz, offset, fstype).
       if fstype \<noteq> FS_BSDFFS \<and> fstype \<noteq> FS_SWAP \<and> fstype \<noteq> FS_VINUM then []
       else if verbose
       then [(''  %s%c: %s %s (%d - %d)\<newline>'',
              [PStr prefix, PInt (97 + int i),
               PLit (if fstype = FS_SWAP then ''swap '' else if fstype = FS_VINUM then ''vinum'' else ''FFS  ''),
               psize (ucast sz), PInt (sint offset), PInt (sint (offset + sz))])]
       else [(''  %s%c: %s\<newline>'',
              [PStr prefix, PInt (97 + int i),
               PLit (if fstype = FS_SWAP then ''swap'' else if fstype = FS_VINUM then ''vinum'' else ''FFS'')])])"

fun bsd_lines :: "byte list \<Rightarrow> byte list \<Rightarrow> bool \<Rightarrow> nat \<Rightarrow> nat \<Rightarrow> line list option" where
  "bsd_lines buf prefix verbose i 0 = Some []"
| "bsd_lines buf prefix verbose i (Suc n) = do {
     p \<leftarrow> lp_part buf i;
     rest \<leftarrow> bsd_lines buf prefix verbose (Suc i) n;
     Some (bsd_line prefix verbose i p @ rest)
   }"

definition disk_printbsdslice ::
  "(disk_devdesc \<Rightarrow> 'd strategy) \<Rightarrow> disk_devdesc \<Rightarrow> int \<Rightarrow> byte list \<Rightarrow> bool \<Rightarrow> 'd \<Rightarrow> (line list \<times> 'd) option" where
  "disk_printbsdslice strat dev offset prefix verbose d = do {
     (rc, buf, d1) \<leftarrow> rdsec strat dev (offset + LABELSECTOR) d;
     if rc \<noteq> 0 then Some ([], d1)
     else if lp_magic buf \<noteq> DISKMAGIC then Some ([(''%s: FFS  bad disklabel\<newline>'', [PStr prefix])], d1)
     else map_option (\<lambda>ls. (ls, d1)) (bsd_lines buf prefix verbose 0 (lp_npartitions buf))
   }"

definition disk_printslice ::
  "(disk_devdesc \<Rightarrow> 'd strategy) \<Rightarrow> disk_devdesc \<Rightarrow> dos_partition \<Rightarrow> byte list \<Rightarrow> bool \<Rightarrow> 'd \<Rightarrow> (line list \<times> 'd) option" where
  "disk_printslice strat dev dp prefix verbose d =
     (let stats = (if verbose
            then [psize (ucast (dp_size dp)), PInt (sint (dp_start dp)), PInt (sint (dp_start dp + dp_size dp))]
            else []);
          typ = dp_typ dp in
      if typ = DOSPTYP_386BSD then disk_printbsdslice strat dev (uint (dp_start dp)) prefix verbose d
      else if typ = DOSPTYP_LINSWP then Some ([(''%s: Linux swap%s\<newline>'', PStr prefix # stats)], d)
      else if typ = DOSPTYP_LINUX then Some ([(''%s: ext2fs%s\<newline>'', PStr prefix # stats)], d)
      else if typ = 0 \<or> typ = DOSPTYP_EXT then Some ([], d)
      else if typ = 0x01 then Some ([(''%s: FAT-12%s\<newline>'', PStr prefix # stats)], d)
      else if typ \<in> {0x04, 0x06, 0x0e} then Some ([(''%s: FAT-16%s\<newline>'', PStr prefix # stats)], d)
      else if typ = 0x07 then Some ([(''%s: NTFS/HPFS%s\<newline>'', PStr prefix # stats)], d)
      else if typ = 0x0b \<or> typ = 0x0c then Some ([(''%s: FAT-32%s\<newline>'', PStr prefix # stats)], d)
      else Some ([(''%s: Unknown fs: 0x%x %s\<newline>'', PStr prefix # PInt (uint typ) # stats)], d))"

text \<open>The name built by \<^verbatim>\<open>sprintf(line, "%s<c>%d", prefix, n)\<close>.\<close>

definition part_name :: "byte list \<Rightarrow> char \<Rightarrow> nat \<Rightarrow> byte list" where
  "part_name prefix c n = prefix @ [ch c] @ rev (dec_digits n)"

fun print_slices ::
  "(disk_devdesc \<Rightarrow> 'd strategy) \<Rightarrow> disk_devdesc \<Rightarrow> nat \<Rightarrow> dos_partition list \<Rightarrow> byte list \<Rightarrow> bool \<Rightarrow> 'd \<Rightarrow>
   (line list \<times> 'd) option" where
  "print_slices strat dev i [] prefix verbose d = Some ([], d)"
| "print_slices strat dev i (dp # dps) prefix verbose d = do {
     (ls, d1) \<leftarrow> disk_printslice strat dev dp (part_name prefix (CHR ''s'') (i + 1)) verbose d;
     (rest, d2) \<leftarrow> print_slices strat dev (Suc i) dps prefix verbose d1;
     Some (ls @ rest, d2)
   }"

definition disk_printmbr ::
  "(disk_devdesc \<Rightarrow> 'd strategy) \<Rightarrow> disk_devdesc \<Rightarrow> byte list \<Rightarrow> bool \<Rightarrow> 'd \<Rightarrow> (disk_rc \<times> line list \<times> 'd) option" where
  "disk_printmbr strat dev prefix verbose d = do {
     (rc, slicetab, d1) \<leftarrow> disk_readslicetab strat dev d;
     if rc \<noteq> RcOk then Some (rc, [], d1)
     else do {
       tab \<leftarrow> slicetab;
       (ls, d2) \<leftarrow> print_slices strat dev 0 tab prefix verbose d1;
       Some (RcOk, ls, d2)
     }
   }"

definition disk_printgptpart :: "gpt_part \<Rightarrow> byte list \<Rightarrow> bool \<Rightarrow> line" where
  "disk_printgptpart gp prefix verbose =
     (let stats = (if verbose then [psize (gp_end gp + 1 - gp_start gp)] else []); typ = gp_type gp in
      if typ = efi then (''%s: EFI         %s\<newline>'', PStr prefix # stats)
      else if typ = ms_basic_data then (''%s: FAT/NTFS    %s\<newline>'', PStr prefix # stats)
      else if typ = freebsd_boot then (''%s: FreeBSD boot%s\<newline>'', PStr prefix # stats)
      else if typ = freebsd_ufs then (''%s: FreeBSD UFS %s\<newline>'', PStr prefix # stats)
      else if typ = freebsd_zfs then (''%s: FreeBSD ZFS %s\<newline>'', PStr prefix # stats)
      else if typ = freebsd_swap then (''%s: FreeBSD swap%s\<newline>'', PStr prefix # stats)
      else (''%s: %08x-%04x-%04x-%02x%02x-%02x%02x%02x%02x%02x%02x%s\<newline>'', PStr prefix # PStr typ # stats))"

fun print_gptparts :: "nat \<Rightarrow> gpt_part list \<Rightarrow> byte list \<Rightarrow> bool \<Rightarrow> line list" where
  "print_gptparts i [] prefix verbose = []"
| "print_gptparts i (gp # gps) prefix verbose =
     disk_printgptpart gp (part_name prefix (CHR ''p'') (i + 1)) verbose # print_gptparts (Suc i) gps prefix verbose"

definition disk_printgpt ::
  "(disk_devdesc \<Rightarrow> 'd strategy) \<Rightarrow> disk_devdesc \<Rightarrow> byte list \<Rightarrow> bool \<Rightarrow> 'd \<Rightarrow> (disk_rc \<times> line list \<times> 'd) option" where
  "disk_printgpt strat dev prefix verbose d = do {
     (res, d1) \<leftarrow> disk_readgpt strat dev d;
     Some (case res of
       Inl rc \<Rightarrow> (rc, [], d1)
     | Inr gpt \<Rightarrow> (RcOk, print_gptparts 0 gpt prefix verbose, d1))
   }"

definition disk_print ::
  "(disk_devdesc \<Rightarrow> 'd strategy) \<Rightarrow> disk_devdesc \<Rightarrow> byte list \<Rightarrow> bool \<Rightarrow> 'd \<Rightarrow> (line list \<times> 'd) option" where
  "disk_print strat dev prefix verbose d = do {
     (rc, ls, d1) \<leftarrow> disk_printgpt strat dev prefix verbose d;
     if rc = RcOk then Some (ls, d1)
     else do {
       (_, ls2, d2) \<leftarrow> disk_printmbr strat dev prefix verbose d1;
       Some (ls @ ls2, d2)
     }
   }"

section \<open>The guest drive images of userboot\<close>

text \<open>
  \<open>diskread\<close> is the callback of the host: unit, byte offset, buffer and size to the error code,
  the buffer and the bytes not transferred.
\<close>

type_synonym 'd host_diskread = "int \<Rightarrow> u64 \<Rightarrow> byte list \<Rightarrow> nat \<Rightarrow> 'd \<Rightarrow> int \<times> byte list \<times> nat \<times> 'd"

definition EROFS :: int where "EROFS = 30"
definition EINVAL :: int where "EINVAL = 22"

definition userdisk_strategy :: "'d host_diskread \<Rightarrow> disk_devdesc \<Rightarrow> 'd strategy" where
  "userdisk_strategy diskread dev d rw dblk sz buf rsize =
     (if rw = F_WRITE then Some (EROFS, buf, rsize, d)
      else if rw \<noteq> F_READ then Some (EINVAL, buf, rsize, d)
      else
        (let off = (word_of_int ((dblk + d_offset dev) * int DISK_SECSIZE) :: u64);
             (rc, buf', resid, d') = diskread (d_unit dev) off buf sz d in
         if rc \<noteq> 0 then Some (rc, buf', map_option (\<lambda>_. 0) rsize, d')
         else Some (0, buf', map_option (\<lambda>_. sz - resid) rsize, d')))"

definition userdisk_open ::
  "'d host_diskread \<Rightarrow> int \<Rightarrow> disk_devdesc \<Rightarrow> 'd \<Rightarrow> (disk_rc \<times> disk_devdesc \<times> 'd) option" where
  "userdisk_open diskread maxunit dev d =
     (if d_unit dev < 0 \<or> d_unit dev \<ge> maxunit then Some (RcEIO, dev, d)
      else disk_open (userdisk_strategy diskread) dev d)"

fun userdisk_print ::
  "'d host_diskread \<Rightarrow> nat \<Rightarrow> nat \<Rightarrow> bool \<Rightarrow> 'd \<Rightarrow> (line list \<times> 'd) option" where
  "userdisk_print diskread i 0 verbose d = Some ([], d)"
| "userdisk_print diskread i (Suc n) verbose d = do {
     (ls, d1) \<leftarrow> disk_print (userdisk_strategy diskread)
       \<lparr>d_unit = int i, d_slice = -1, d_partition = -1, d_offset = 0\<rparr>
       (map of_char ''    disk'' @ rev (dec_digits i)) verbose d;
     (rest, d2) \<leftarrow> userdisk_print diskread (Suc i) n verbose d1;
     Some ((''    disk%d:   Guest drive image\<newline>'', [PInt (int i)]) # ls @ rest, d2)
   }"

section \<open>Preference searches\<close>

text \<open>
  The contract that the searches for the best slice and the best partition share: going through
  a list, an element whose preference is below the lowest so far replaces the choice.
\<close>

definition lowest :: "('a \<Rightarrow> nat) \<Rightarrow> nat \<Rightarrow> 'a list \<Rightarrow> nat" where
  "lowest pref none xs = foldl (\<lambda>l x. min l (pref x)) none xs"

definition first_min :: "('a \<Rightarrow> nat) \<Rightarrow> nat \<Rightarrow> 'a list \<Rightarrow> nat \<Rightarrow> bool" where
  "first_min pref none xs i \<longleftrightarrow> i < length xs \<and> pref (xs ! i) < none \<and>
     (\<forall>j < length xs. pref (xs ! i) \<le> pref (xs ! j)) \<and> (\<forall>j < i. pref (xs ! i) < pref (xs ! j))"

lemma first_min_snocI:
  assumes "pref x < none" "\<And>j. j < length xs \<Longrightarrow> pref x < pref (xs ! j)"
  shows "first_min pref none (xs @ [x]) (length xs)"
  using assms by (auto simp: first_min_def nth_append less_Suc_eq intro: less_imp_le)

locale pref_search =
  fixes pref :: "'a \<Rightarrow> nat" and none :: nat and chosen :: "'a list \<Rightarrow> 'r"
    and nothing :: 'r and at_index :: "'a list \<Rightarrow> nat \<Rightarrow> 'r"
  assumes chosen_Nil: "chosen [] = nothing"
    and chosen_snoc: "chosen (xs @ [x]) =
      (if pref x < lowest pref none xs then at_index (xs @ [x]) (length xs) else chosen xs)"
    and at_index_snoc: "i < length xs \<Longrightarrow> at_index (xs @ [x]) i = at_index xs i"
begin

lemma chosen_first_min:
  "(\<forall>x \<in> set xs. none \<le> pref x) \<and> chosen xs = nothing \<and> lowest pref none xs = none \<or>
   (\<exists>i. first_min pref none xs i \<and> chosen xs = at_index xs i \<and> lowest pref none xs = pref (xs ! i))"
proof (induction xs rule: rev_induct)
  case Nil
  then show ?case by (simp add: chosen_Nil lowest_def)
next
  case (snoc x xs)
  have low: "lowest pref none (xs @ [x]) = min (lowest pref none xs) (pref x)" by (simp add: lowest_def)
  from snoc show ?case
  proof (elim disjE conjE exE)
    assume *: "\<forall>x \<in> set xs. none \<le> pref x" "chosen xs = nothing" "lowest pref none xs = none"
    show ?thesis
    proof (cases "pref x < none")
      case True
      have "pref x < pref (xs ! j)" if "j < length xs" for j
        using that True * by (metis nth_mem order_less_le_trans)
      with True have "first_min pref none (xs @ [x]) (length xs)" by (rule first_min_snocI)
      then show ?thesis using True * low chosen_snoc [of xs x] by (intro disjI2 exI [of _ "length xs"]) simp
    next
      case False
      then show ?thesis using * low chosen_snoc [of xs x] by simp
    qed
  next
    fix i assume *: "first_min pref none xs i" "chosen xs = at_index xs i" "lowest pref none xs = pref (xs ! i)"
    show ?thesis
    proof (cases "pref x < pref (xs ! i)")
      case True
      have "pref x < none" using True *(1) by (simp add: first_min_def)
      moreover have "pref x < pref (xs ! j)" if "j < length xs" for j
        using that True *(1) by (auto simp: first_min_def intro: order_less_le_trans)
      ultimately have "first_min pref none (xs @ [x]) (length xs)" by (rule first_min_snocI)
      then show ?thesis using True * low chosen_snoc [of xs x] by (intro disjI2 exI [of _ "length xs"]) simp
    next
      case False
      then have "first_min pref none (xs @ [x]) i"
        using *(1) by (auto simp: first_min_def nth_append less_Suc_eq)
      moreover have "i < length xs" using *(1) by (simp add: first_min_def)
      ultimately show ?thesis using False * low chosen_snoc [of xs x] at_index_snoc [of i xs x]
        by (intro disjI2 exI [of _ i]) (simp add: nth_append)
    qed
  qed
qed

end

lemma bestslice_loop_snoc:
  "bestslice_loop i (xs @ [x]) lvl ps =
     (if slice_pref x < lowest slice_pref lvl xs then i + length xs + 1 else bestslice_loop i xs lvl ps)"
  by (induction i xs lvl ps rule: bestslice_loop.induct) (auto simp: lowest_def min_def)

interpretation mbr_pref: pref_search slice_pref PREF_NONE disk_bestslice 0 "\<lambda>_ i. i + 1"
  by unfold_locales (simp_all add: disk_bestslice_def bestslice_loop_snoc)

lemma bestgpt_loop_snoc:
  "bestgpt_loop (xs @ [x]) lvl p = (if gpt_pref x < lowest gpt_pref lvl xs then Some x else bestgpt_loop xs lvl p)"
  by (induction xs lvl p rule: bestgpt_loop.induct) (auto simp: lowest_def min_def)

interpretation gpt_pref: pref_search gpt_pref PREF_NONE disk_bestgpt None "\<lambda>xs i. Some (xs ! i)"
  by unfold_locales (simp_all add: disk_bestgpt_def bestgpt_loop_snoc nth_append)

section \<open>Readers of sectors\<close>

text \<open>
  What the routines rely on: every read of a sector returns, changes nothing, and delivers the
  sector when it reports 0.
\<close>

locale sector_reader =
  fixes strat :: "disk_devdesc \<Rightarrow> 'd strategy" and u :: int and ok :: "'d \<Rightarrow> bool" and sec :: "'d \<Rightarrow> int \<Rightarrow> byte list"
  assumes rd_law: "ok d \<Longrightarrow> d_offset dev = 0 \<Longrightarrow> d_unit dev = u \<Longrightarrow>
    \<exists>rc buf d'. rdsec strat dev blk d = Some (rc, buf, d') \<and> length buf = DISK_SECSIZE \<and> ok d' \<and> sec d' = sec d \<and>
      (rc = 0 \<longrightarrow> buf = sec d blk)"
begin

definition grown :: "dos_partition list \<Rightarrow> 'd \<Rightarrow> dos_partition list \<Rightarrow> 'd \<Rightarrow> bool" where
  "grown tab d tab' d' \<longleftrightarrow> (\<exists>ext. tab' = tab @ ext \<and> (\<forall>dp \<in> set ext. dp_size dp \<noteq> 0)) \<and> length tab' \<le> NEXTDOSPART \<and>
     ok d' \<and> sec d' = sec d"

lemma grown_trans: "grown t d t1 d1 \<Longrightarrow> grown t1 d1 t2 d2 \<Longrightarrow> grown t d t2 d2"
  by (auto simp: grown_def)

lemma ext_copy_grown:
  assumes "length tab \<le> NEXTDOSPART"
  shows "\<exists>ext. snd (ext_copy buf base i k tab) = tab @ ext \<and> (\<forall>dp \<in> set ext. dp_size dp \<noteq> 0) \<and>
    length (tab @ ext) \<le> NEXTDOSPART"
  using assms
proof (induction buf base i k tab rule: ext_copy.induct)
  case (2 buf base i k tab)
  let ?dp = "dp_at buf (DOSPARTOFF + 16 * i)" and ?t = "tab @ [(dp_at buf (DOSPARTOFF + 16 * i))\<lparr>dp_start := dp_start (dp_at buf (DOSPARTOFF + 16 * i)) + base\<rparr>]"
  show ?case
  proof (cases "dp_size ?dp = 0 \<or> length tab = NEXTDOSPART")
    case True
    then show ?thesis using 2(1,3) by (cases "dp_size ?dp = 0") (auto simp: Let_def)
  next
    case False
    then have "length ?t \<le> NEXTDOSPART" using 2(3) by simp
    with False 2(2) obtain ext where "snd (ext_copy buf base (Suc i) k ?t) = ?t @ ext" "\<forall>dp \<in> set ext. dp_size dp \<noteq> 0"
      "length (?t @ ext) \<le> NEXTDOSPART" by (auto simp: Let_def)
    then show ?thesis using False
      by (intro exI [of _ "?dp\<lparr>dp_start := dp_start ?dp + base\<rparr> # ext"]) (simp add: Let_def)
  qed
qed simp

lemma checkextended_ok:
  assumes "d_offset dev = 0" "d_unit dev = u" "i < length tab" "length tab \<le> NEXTDOSPART" "NEXTDOSPART < fuel + length tab" "ok d"
  shows "\<exists>tab' d'. disk_checkextended strat dev fuel i (tab, d) = Some (tab', d') \<and> grown tab d tab' d'"
  using assms(3-)
proof (induction fuel arbitrary: i tab d)
  case (Suc fuel)
  have refl: "grown tab d tab d'" if "ok d'" "sec d' = sec d" for d'
    using Suc.prems that by (simp add: grown_def)
  let ?dp = "tab ! i"
  obtain rc buf d1 where r: "rdsec strat dev (uint (dp_start ?dp)) d = Some (rc, buf, d1)" "ok d1" "sec d1 = sec d"
    using rd_law [OF Suc.prems(4) assms(1,2), of "uint (dp_start ?dp)"] by auto
  show ?case
  proof (cases "dp_size ?dp = 0 \<or> dp_typ ?dp \<noteq> DOSPTYP_EXT \<or> rc \<noteq> 0 \<or> \<not> dos_magic buf")
    case True
    then show ?thesis using refl [OF Suc.prems(4) HOL.refl] refl [OF r(2,3)] r(1) Suc.prems(1) by auto
  next
    case False
    obtain full tab1 where e: "ext_copy buf (dp_start ?dp) 0 NDOSPART tab = (full, tab1)" by fastforce
    with ext_copy_grown [OF Suc.prems(2), of buf "dp_start ?dp" 0 NDOSPART] r
    have g1: "grown tab d tab1 d1" by (auto simp: grown_def)
    then have le: "length tab \<le> length tab1" "length tab1 \<le> NEXTDOSPART" by (auto simp: grown_def)
    have all: "\<exists>tab' d'. check_slices strat dev fuel is (t, d0) = Some (tab', d') \<and> grown t d0 tab' d'"
      if "\<forall>j \<in> set is. j < length t" "length t \<le> NEXTDOSPART" "is \<noteq> [] \<longrightarrow> NEXTDOSPART < fuel + length t" "ok d0" for "is" t d0
      using that
    proof (induction "is" arbitrary: t d0)
      case Nil
      then show ?case by (simp add: grown_def)
    next
      case (Cons j js)
      from Suc.IH [of j t d0] Cons.prems obtain t1 d1 where s: "disk_checkextended strat dev fuel j (t, d0) = Some (t1, d1)"
        "grown t d0 t1 d1" by auto
      then have "length t \<le> length t1" "length t1 \<le> NEXTDOSPART" "ok d1" by (auto simp: grown_def)
      with Cons.IH [of t1 d1] Cons.prems obtain t2 d2 where "check_slices strat dev fuel js (t1, d1) = Some (t2, d2)"
        "grown t1 d1 t2 d2" by fastforce
      with s show ?case using grown_trans by (auto intro: grown_trans)
    qed
    have "[length tab..<length tab1] \<noteq> [] \<longrightarrow> NEXTDOSPART < fuel + length tab1" using Suc.prems(3) by simp
    with all [of "[length tab..<length tab1]" tab1 d1] le r(2)
    obtain tab' d' where "check_slices strat dev fuel [length tab..<length tab1] (tab1, d1) = Some (tab', d')"
      "grown tab1 d1 tab' d'" by auto
    then show ?thesis using False r(1) e g1 Suc.prems(1) grown_trans [OF g1]
      by (cases full) (auto simp: NDOSPART_def)
  qed
qed simp

lemma readslicetab_ok:
  assumes "d_offset dev = 0" "d_unit dev = u" "ok d"
  shows "\<exists>rc tab d'. disk_readslicetab strat dev d = Some (rc, tab, d') \<and> ok d' \<and> sec d' = sec d \<and>
    (rc \<noteq> RcOk \<and> tab = None \<or> rc = RcOk \<and> tab = None \<and> \<not> dos_magic (sec d 0) \<or>
     rc = RcOk \<and> dos_magic (sec d 0) \<and> (\<exists>ext. length ext \<le> NEXTDOSPART - NDOSPART \<and> (\<forall>dp \<in> set ext. dp_size dp \<noteq> 0) \<and>
       tab = Some (map (\<lambda>i. dp_at (sec d 0) (DOSPARTOFF + 16 * i)) [0..<NDOSPART] @ ext)))"
proof -
  obtain rc buf d1 where r: "rdsec strat dev 0 d = Some (rc, buf, d1)" "ok d1" "sec d1 = sec d" "rc = 0 \<longrightarrow> buf = sec d 0"
    using rd_law [OF assms(3,1,2), of 0] by auto
  have all: "\<exists>tab' d'. check_slices strat dev ext_fuel is (t, d0) = Some (tab', d') \<and> grown t d0 tab' d'"
    if "\<forall>j \<in> set is. j < length t" "length t \<le> NEXTDOSPART" "ok d0" for "is" t d0
    using that
  proof (induction "is" arbitrary: t d0)
    case (Cons j js)
    from checkextended_ok [OF assms(1,2), of j t ext_fuel d0] Cons.prems obtain t1 d1
      where s: "disk_checkextended strat dev ext_fuel j (t, d0) = Some (t1, d1)" "grown t d0 t1 d1"
      by (auto simp: ext_fuel_def)
    then have "length t \<le> length t1" "length t1 \<le> NEXTDOSPART" "ok d1" by (auto simp: grown_def)
    with Cons.IH [of t1 d1] Cons.prems obtain t2 d2 where "check_slices strat dev ext_fuel js (t1, d1) = Some (t2, d2)"
      "grown t1 d1 t2 d2" by fastforce
    with s show ?case by (auto intro: grown_trans)
  qed (simp add: grown_def)
  let ?t = "map (\<lambda>i. dp_at buf (DOSPARTOFF + 16 * i)) [0..<NDOSPART]"
  obtain tab' d' where c: "check_slices strat dev ext_fuel [0..<NDOSPART] (?t, d1) = Some (tab', d')" "grown ?t d1 tab' d'"
    using all [of "[0..<NDOSPART]" ?t d1] r(2) by (auto simp: NDOSPART_def NEXTDOSPART_def)
  then obtain ext where ext: "tab' = ?t @ ext" "\<forall>dp \<in> set ext. dp_size dp \<noteq> 0" "length tab' \<le> NEXTDOSPART" "ok d'" "sec d' = sec d"
    using r(3) by (auto simp: grown_def)
  show ?thesis
  proof (cases "rc = 0 \<and> dos_magic buf")
    case True
    then have "disk_readslicetab strat dev d = Some (RcOk, Some tab', d')" using r(1) c(1) by (simp add: disk_readslicetab_def)
    moreover have "length ext \<le> NEXTDOSPART - NDOSPART" using ext(1,3) by simp
    ultimately show ?thesis using True ext r(4) by auto
  next
    case False
    then show ?thesis using r by (auto simp: disk_readslicetab_def)
  qed
qed

end

subsection \<open>The partitions of a GPT\<close>

definition part_of :: "byte list \<Rightarrow> int \<Rightarrow> gpt_part" where
  "part_of e num = \<lparr>gp_index = sint (word_of_int num :: u32), gp_type = ent_type e, gp_start = ent_lba_start e, gp_end = ent_lba_end e\<rparr>"

definition sector_parts :: "byte list \<Rightarrow> nat \<Rightarrow> int \<Rightarrow> nat list \<Rightarrow> gpt_part list" where
  "sector_parts tbl entsz first is =
     map (\<lambda>i. part_of (tbl_ent tbl entsz i) (first + int i + 1)) (filter (\<lambda>i. ent_valid (tbl_ent tbl entsz i)) is)"

definition table_parts :: "(int \<Rightarrow> byte list) \<Rightarrow> int \<Rightarrow> nat \<Rightarrow> nat \<Rightarrow> nat \<Rightarrow> nat \<Rightarrow> gpt_part list" where
  "table_parts sc base entsz eps k n =
     concat (map (\<lambda>k. sector_parts (sc (base + int k)) entsz (int k * int eps) [0..<eps]) [k..<k + n])"

lemma table_parts_Suc: "table_parts sc base entsz eps k (Suc n) =
    sector_parts (sc (base + int k)) entsz (int k * int eps) [0..<eps] @ table_parts sc base entsz eps (Suc k) n"
proof -
  have "[k..<k + Suc n] = k # [Suc k..<Suc k + n]" by (subst upt_conv_Cons) auto
  then show ?thesis unfolding table_parts_def by (simp only: list.map concat.simps)
qed

lemma table_parts_0 [simp]: "table_parts sc base entsz eps k 0 = []"
  by (simp add: table_parts_def)

lemma gpt_save_sec_ok:
  "length acc + length (sector_parts tbl entsz first is) \<le> room \<Longrightarrow>
   gpt_save_sec tbl entsz first is room acc = Some (acc @ sector_parts tbl entsz first is)"
  by (induction tbl entsz first "is" room acc rule: gpt_save_sec.induct)
     (auto simp: sector_parts_def part_of_def Let_def)

context sector_reader
begin

lemma gpt_count_ok:
  assumes "d_offset dev = 0" "d_unit dev = u" "ok d"
  shows "\<exists>r d'. gpt_count strat dev entsz eps (base + int k) n part d = Some (r, d') \<and> ok d' \<and> sec d' = sec d \<and>
    (r = Inl RcEIO \<or> r = Inr (part + length (table_parts (sec d) base entsz eps k n)))"
  using assms(3)
proof (induction n arbitrary: k part d)
  case (Suc n)
  obtain rc buf d1 where r: "rdsec strat dev (base + int k) d = Some (rc, buf, d1)" "ok d1" "sec d1 = sec d"
      "rc = 0 \<longrightarrow> buf = sec d (base + int k)"
    using rd_law [OF Suc.prems assms(1,2), of "base + int k"] by auto
  let ?part = "part + length (filter (\<lambda>i. ent_valid (tbl_ent buf entsz i)) [0..<eps])"
  from Suc.IH [OF r(2), of "Suc k" ?part] r(3) obtain res d' where
    i: "gpt_count strat dev entsz eps (base + int k + 1) n ?part d1 = Some (res, d')" "ok d'" "sec d' = sec d"
      "res = Inl RcEIO \<or> res = Inr (?part + length (table_parts (sec d) base entsz eps (Suc k) n))"
    by (auto simp: ac_simps)
  show ?case
  proof (cases "rc = 0")
    case True
    then show ?thesis using r(1,4) i by (auto simp: table_parts_Suc sector_parts_def)
  next
    case False
    then show ?thesis using r by simp
  qed
qed simp

lemma gpt_save_ok:
  assumes "d_offset dev = 0" "d_unit dev = u" "ok d" "length acc + length (table_parts (sec d) base entsz eps k n) \<le> room"
  shows "\<exists>r d'. gpt_save strat dev entsz eps base k n room acc d = Some (r, d') \<and> ok d' \<and> sec d' = sec d \<and>
    (r = Inl RcEIO \<or> r = Inr (acc @ table_parts (sec d) base entsz eps k n))"
  using assms(3-)
proof (induction n arbitrary: k acc d)
  case (Suc n)
  obtain rc buf d1 where r: "rdsec strat dev (base + int k) d = Some (rc, buf, d1)" "ok d1" "sec d1 = sec d"
      "rc = 0 \<longrightarrow> buf = sec d (base + int k)"
    using rd_law [OF Suc.prems(1) assms(1,2), of "base + int k"] by auto
  show ?case
  proof (cases "rc = 0")
    case True
    with r(4) have buf: "buf = sec d (base + int k)" by simp
    let ?acc = "acc @ sector_parts buf entsz (int k * int eps) [0..<eps]"
    have room: "length ?acc + length (table_parts (sec d1) base entsz eps (Suc k) n) \<le> room"
      using Suc.prems(2) r(3) by (simp add: table_parts_Suc buf)
    then have "gpt_save_sec buf entsz (int k * int eps) [0..<eps] room acc = Some ?acc"
      by (intro gpt_save_sec_ok) simp
    with Suc.IH [OF r(2) room] r True show ?thesis by (auto simp: table_parts_Suc buf)
  next
    case False
    then show ?thesis using r by simp
  qed
qed simp

end

text \<open>A disk whose sectors carry a protective MBR and a GPT header; the partitions of its table.\<close>

definition gpt_hdr_ok :: "(int \<Rightarrow> byte list) \<Rightarrow> bool" where
  "gpt_hdr_ok sc \<longleftrightarrow> dos_magic (sc 0) \<and> pmbr_loop (dos_slices (sc 0)) 0 = Some 1 \<and> hdr_sig (sc 1) = GPT_HDR_SIG \<and>
     hdr_lba_self (sc 1) = 1 \<and> 0x00010000 \<le> hdr_revision (sc 1) \<and> ENT_SIZE \<le> unat (hdr_entsz (sc 1)) \<and>
     DISK_SECSIZE mod unat (hdr_entsz (sc 1)) = 0"

definition gpt_parts :: "(int \<Rightarrow> byte list) \<Rightarrow> gpt_part list" where
  "gpt_parts sc =
     (let h = sc 1; entsz = unat (hdr_entsz h); eps = DISK_SECSIZE div entsz; base = sint (hdr_lba_table h) in
      table_parts sc base entsz eps 0
        (nat (sint (hdr_lba_table h + of_nat (unat (hdr_entries h) div eps)) - base)))"

context sector_reader
begin

lemma readgpt_ok:
  assumes "d_offset dev = 0" "d_unit dev = u" "ok d"
  shows "\<exists>r d'. disk_readgpt strat dev d = Some (r, d') \<and> ok d' \<and> sec d' = sec d \<and>
    (r = Inl RcEIO \<or> (if gpt_hdr_ok (sec d) then r = Inr (gpt_parts (sec d)) else r \<in> {Inl RcENXIO, Inl RcEINVAL}))"
proof -
  obtain rc buf d1 where r0: "rdsec strat dev 0 d = Some (rc, buf, d1)" "ok d1" "sec d1 = sec d" "rc = 0 \<longrightarrow> buf = sec d 0"
    using rd_law [OF assms(3,1,2), of 0] by auto
  obtain rc1 buf1 d2 where r1: "rdsec strat dev 1 d1 = Some (rc1, buf1, d2)" "ok d2" "sec d2 = sec d" "rc1 = 0 \<longrightarrow> buf1 = sec d 1"
    using rd_law [OF r0(2) assms(1,2), of 1] r0(3) by auto
  define pm where "pm \<longleftrightarrow> dos_magic (sec d 0) \<and> pmbr_loop (dos_slices (sec d 0)) 0 = Some 1"
  show ?thesis
  proof (cases "rc = 0 \<and> pm \<and> rc1 = 0 \<and> gpt_hdr_ok (sec d)")
    case False
    then show ?thesis using r0 r1
      by (cases "rc = 0"; cases "rc1 = 0")
         (auto simp: disk_readgpt_def pm_def gpt_hdr_ok_def linorder_not_less linorder_not_le)
  next
    case True
    then have b: "buf = sec d 0" "buf1 = sec d 1" using r0(4) r1(4) by auto
    define h where "h = sec d 1"
    define entsz where "entsz = unat (hdr_entsz h)"
    define eps where "eps = DISK_SECSIZE div entsz"
    define base where "base = sint (hdr_lba_table h)"
    define n where "n = nat (sint (hdr_lba_table h + of_nat (unat (hdr_entries h) div eps)) - base)"
    note defs = h_def entsz_def eps_def base_def n_def
    have parts: "gpt_parts (sec d) = table_parts (sec d) base entsz eps 0 n" by (simp add: gpt_parts_def Let_def defs)
    obtain c d3 where c: "gpt_count strat dev entsz eps base n 0 d2 = Some (c, d3)" "ok d3" "sec d3 = sec d"
        "c = Inl RcEIO \<or> c = Inr (length (gpt_parts (sec d)))"
      using gpt_count_ok [OF assms(1,2) r1(2), of entsz eps base 0 n 0] r1(3) by (auto simp: parts)
    obtain r d4 where s: "gpt_save strat dev entsz eps base 0 n (length (gpt_parts (sec d))) [] d3 = Some (r, d4)"
        "ok d4" "sec d4 = sec d" "r = Inl RcEIO \<or> r = Inr (gpt_parts (sec d))"
      using gpt_save_ok [OF assms(1,2) c(2), of "[]" base entsz eps 0 n "length (gpt_parts (sec d))"] c(3) by (auto simp: parts)
    have "disk_readgpt strat dev d = do {
         (res, d3) \<leftarrow> gpt_count strat dev entsz eps base n 0 d2;
         case res of Inl rc \<Rightarrow> Some (Inl rc, d3)
         | Inr part \<Rightarrow> if part = 0 then Some (Inr [], d3) else gpt_save strat dev entsz eps base 0 n part [] d3 }"
      using True r0(1) r1(1) unfolding defs b
      by (simp add: disk_readgpt_def gpt_hdr_ok_def Let_def linorder_not_less [symmetric])
    then show ?thesis using c s True by (auto split: if_splits)
  qed
qed

end

section \<open>Guest images as sector readers\<close>

text \<open>A host that serves reads from one image, and the sectors the loader sees in it.\<close>

definition host_image :: "byte list host_diskread" where
  "host_image dunit off buf sz img =
     (if unat off + sz \<le> length img then (0, take sz (drop (unat off) img), 0, img) else (EIO, buf, sz, img))"

definition image_sec :: "byte list \<Rightarrow> int \<Rightarrow> byte list" where
  "image_sec img k = take DISK_SECSIZE (drop (unat (word_of_int (k * int DISK_SECSIZE) :: u64)) img)"

interpretation userdisk: sector_reader "userdisk_strategy host_image" u "\<lambda>_. True" image_sec
  by unfold_locales
     (auto simp: rdsec_def userdisk_strategy_def host_image_def image_sec_def DISK_SECSIZE_def EIO_def Let_def
       split: if_splits)

section \<open>Properties\<close>

text \<open>
  C31: reading the slice table of any disk returns (chains of extended slices that loop or never
  end included), stays inside the 32 entries of the table, keeps the four slices of the MBR in
  front and adds only slices with a size.
\<close>

theorem slicetab_bounded:
  assumes "sector_reader strat u ok sec" "d_offset dev = 0" "d_unit dev = u" "ok d"
  shows "\<exists>rc tab d'. disk_readslicetab strat dev d = Some (rc, tab, d') \<and>
    (case tab of None \<Rightarrow> rc \<noteq> RcOk \<or> \<not> dos_magic (sec d 0)
     | Some t \<Rightarrow> rc = RcOk \<and> length t \<in> {NDOSPART..NEXTDOSPART} \<and>
         take NDOSPART t = map (\<lambda>i. dp_at (sec d 0) (DOSPARTOFF + 16 * i)) [0..<NDOSPART] \<and>
         0 \<notin> dp_size ` set (drop NDOSPART t))"
  using sector_reader.readslicetab_ok [OF assms] by (force simp: NDOSPART_def NEXTDOSPART_def)

theorem slicetab_bounded_witness:
  "\<exists>rc tab d'. disk_readslicetab (userdisk_strategy host_image) \<lparr>d_unit = 0, d_slice = 0, d_partition = -1, d_offset = 0\<rparr>
      (replicate 510 0 @ [0x55, 0xaa]) = Some (rc, tab, d') \<and>
    (case tab of None \<Rightarrow> rc \<noteq> RcOk \<or> \<not> dos_magic (image_sec (replicate 510 0 @ [0x55, 0xaa]) 0)
     | Some t \<Rightarrow> rc = RcOk \<and> length t \<in> {NDOSPART..NEXTDOSPART} \<and>
         take NDOSPART t = map (\<lambda>i. dp_at (image_sec (replicate 510 0 @ [0x55, 0xaa]) 0) (DOSPARTOFF + 16 * i)) [0..<NDOSPART] \<and>
         0 \<notin> dp_size ` set (drop NDOSPART t))"
  by (rule slicetab_bounded [OF userdisk.sector_reader_axioms]) simp_all

text \<open>
  \<^verbatim>\<open>disk_bestslice\<close> gives the number of the first slice of the best preference (FreeBSD, Linux,
  DOS, active before inactive each), and 0 when no slice has a known type.
\<close>

theorem disk_bestslice_first_preferred:
  "case disk_bestslice tab of
     0 \<Rightarrow> slice_pref ` set tab \<subseteq> {PREF_NONE..}
   | Suc i \<Rightarrow> first_min slice_pref PREF_NONE tab i"
  using mbr_pref.chosen_first_min [of tab] by (auto split: nat.splits)

text \<open>
  \<^verbatim>\<open>disk_bestgpt\<close> gives the first UFS or ZFS partition, otherwise the first basic data
  partition, and \<^verbatim>\<open>NULL\<close> when there is none of these types.
\<close>

theorem disk_bestgpt_first_preferred:
  "case disk_bestgpt gpt of
     None \<Rightarrow> gpt_pref ` set gpt \<subseteq> {PREF_NONE..}
   | Some gp \<Rightarrow> (\<exists>i. gp = gpt ! i \<and> first_min gpt_pref PREF_NONE gpt i)"
  using gpt_pref.chosen_first_min [of gpt] by (auto split: option.splits)

text \<open>
  \<^verbatim>\<open>disk_readgpt\<close> returns on every disk, never writes outside the array it sized in its first
  walk, and, unless it reports EIO, accepts exactly the disks with a protective MBR and a
  consistent header, for which it lists in table order, with their numbers, the valid entries of the
  whole sectors of the table: the walk visits \<^verbatim>\<open>hdr_entries / entries_per_sec\<close> sectors, so the entries of a last
  sector that is only partly used are not among them.
\<close>

theorem disk_readgpt_lists_partitions:
  assumes "sector_reader strat u ok sec" "d_offset dev = 0" "d_unit dev = u" "ok d"
  shows "\<exists>r d'. disk_readgpt strat dev d = Some (r, d') \<and>
    (r = Inl RcEIO \<or> (if gpt_hdr_ok (sec d) then r = Inr (gpt_parts (sec d)) else r \<in> {Inl RcENXIO, Inl RcEINVAL}))"
  using sector_reader.readgpt_ok [OF assms] by blast

theorem disk_readgpt_lists_partitions_witness:
  "\<exists>r d'. disk_readgpt (userdisk_strategy host_image) \<lparr>d_unit = 0, d_slice = 0, d_partition = 255, d_offset = 0\<rparr>
      (replicate 1024 0) = Some (r, d') \<and>
    (r = Inl RcEIO \<or> (if gpt_hdr_ok (image_sec (replicate 1024 0)) then r = Inr (gpt_parts (image_sec (replicate 1024 0)))
       else r \<in> {Inl RcENXIO, Inl RcEINVAL}))"
  by (rule disk_readgpt_lists_partitions [OF userdisk.sector_reader_axioms]) simp_all

text \<open>
  opening partition \<open>k\<close> of a GPT disk, or the best one when \<open>k\<close> is 0, selects that partition;
  the offset kept for it is its start sector exactly when that is below 2^31, since it is stored
  in an \<^verbatim>\<open>int\<close>.
\<close>

theorem disk_opengpt_selects:
  assumes sr: "sector_reader strat u ok sec" "d_offset dev = 0" "d_unit dev = u" "ok d" and h: "gpt_hdr_ok (sec d)"
    and dev: "0 \<le> d_slice dev" "d_partition dev = 0xff"
    and gp: "(if d_slice dev > 0 then find (\<lambda>gp. gp_index gp = d_slice dev) (gpt_parts (sec d))
      else disk_bestgpt (gpt_parts (sec d))) = Some gp"
  shows "\<exists>rc dev' d'. disk_opengpt strat dev d = Some (rc, dev', d') \<and>
    (rc = RcEIO \<or> rc = RcOk \<and> d_slice dev' = gp_index gp \<and> (d_offset dev' = uint (gp_start gp) \<longleftrightarrow> uint (gp_start gp) < 2 ^ 31))"
proof -
  obtain r d' where r: "disk_readgpt strat dev d = Some (r, d')" "r = Inl RcEIO \<or> r = Inr (gpt_parts (sec d))"
    using sector_reader.readgpt_ok [OF sr] h by auto
  have idx: "d_slice dev > 0 \<longrightarrow> gp_index gp = d_slice dev"
    using gp find_Some_iff [of "\<lambda>gp. gp_index gp = d_slice dev" "gpt_parts (sec d)" gp] by auto
  have off: "sint (ucast (gp_start gp) :: u32) = uint (gp_start gp) \<longleftrightarrow> uint (gp_start gp) < 2 ^ 31"
  proof
    assume "sint (ucast (gp_start gp) :: u32) = uint (gp_start gp)"
    moreover have "sint (ucast (gp_start gp) :: u32) < 2 ^ (LENGTH(32) - 1)" by (rule sint_lt)
    ultimately show "uint (gp_start gp) < 2 ^ 31" by simp
  next
    assume "uint (gp_start gp) < 2 ^ 31"
    moreover have "- (2 ^ 31) \<le> uint (gp_start gp)" by (rule order_trans [of _ 0]) simp_all
    ultimately show "sint (ucast (gp_start gp) :: u32) = uint (gp_start gp)"
      by (simp add: sint_uint unsigned_ucast_eq signed_take_bit_int_eq_self take_bit_int_eq_self)
  qed
  from r(2) show ?thesis
  proof
    assume "r = Inl RcEIO"
    then show ?thesis using r(1) by (simp add: disk_opengpt_def)
  next
    assume "r = Inr (gpt_parts (sec d))"
    then show ?thesis using r(1) dev gp idx off by (cases "d_slice dev > 0") (auto simp: disk_opengpt_def)
  qed
qed

text \<open>
  The theorem applied: an image with a protective MBR, the header of the GPT examples and a
  table whose only entry is number 2, starting at sector 64.
\<close>

lemma le_nat_zeros: "le_nat (replicate n 0) = 0"
  by (induction n) simp_all

definition pmbr_sector :: "byte list" where
  "pmbr_sector = replicate 450 0 @ [0xee] @ replicate 59 0 @ [0x55, 0xaa]"

definition gpt_image :: "byte list" where
  "gpt_image = pmbr_sector @ hdr_sector disk_hdr @ take 512 demo_table"

lemma pmbr_sector_ok: "length pmbr_sector = 512" "dos_magic pmbr_sector" "pmbr_loop (dos_slices pmbr_sector) 0 = Some 1"
proof -
  show "length pmbr_sector = 512" by (simp add: pmbr_sector_def)
  show "dos_magic pmbr_sector" by (simp add: dos_magic_def pmbr_sector_def nth_append)
  have "dos_slices pmbr_sector = [replicate 4 0 @ [0xee] @ replicate 11 0, replicate 16 0, replicate 16 0, replicate 16 0]"
    by (simp add: dos_slices_def pmbr_sector_def NDOSPART_def DOSPARTOFF_def upt_rec)
  then show "pmbr_loop (dos_slices pmbr_sector) 0 = Some 1" by (simp add: nth_append)
qed

lemma gpt_image_secs:
  "image_sec gpt_image 0 = pmbr_sector" "image_sec gpt_image 1 = hdr_sector disk_hdr" "image_sec gpt_image 2 = take 512 demo_table"
proof -
  have h: "length (hdr_sector disk_hdr) = 512" using disk_hdr_fields by (simp add: hdr_sector_def HDR_SIZE_def DEV_BSIZE_def)
  have t: "length (take 512 demo_table) = 512" using length_demo_table by (simp add: TABLE_SIZE_def)
  show "image_sec gpt_image 0 = pmbr_sector" "image_sec gpt_image 1 = hdr_sector disk_hdr" "image_sec gpt_image 2 = take 512 demo_table"
    using pmbr_sector_ok(1) h t by (simp_all add: image_sec_def gpt_image_def DISK_SECSIZE_def)
qed

lemma gpt_image_hdr:
  "hdr_sig (hdr_sector disk_hdr) = GPT_HDR_SIG" "hdr_lba_self (hdr_sector disk_hdr) = 1" "hdr_revision (hdr_sector disk_hdr) = 0x10000"
  "hdr_entsz (hdr_sector disk_hdr) = 128" "hdr_entries (hdr_sector disk_hdr) = 4" "hdr_lba_table (hdr_sector disk_hdr) = 2"
proof -
  have "take 92 (hdr_sector disk_hdr) = take 92 disk_hdr" using disk_hdr_fields by (simp add: hdr_sector_def HDR_SIZE_def)
  note f = hdr_take_cong [OF this order_refl]
  show "hdr_sig (hdr_sector disk_hdr) = GPT_HDR_SIG" "hdr_lba_self (hdr_sector disk_hdr) = 1" "hdr_revision (hdr_sector disk_hdr) = 0x10000"
    "hdr_entsz (hdr_sector disk_hdr) = 128" "hdr_entries (hdr_sector disk_hdr) = 4" "hdr_lba_table (hdr_sector disk_hdr) = 2"
    using f disk_hdr_fields by simp_all
qed

lemma gpt_image_parts: "gpt_hdr_ok (image_sec gpt_image)" "gpt_parts (image_sec gpt_image) = [part_of (entry demo_table 1) 2]"
proof -
  show "gpt_hdr_ok (image_sec gpt_image)"
    using pmbr_sector_ok gpt_image_hdr by (simp add: gpt_hdr_ok_def gpt_image_secs ENT_SIZE_def DISK_SECSIZE_def)
  have e: "tbl_ent (take 512 demo_table) 128 i = entry demo_table i" if "i < 4" for i
    using that by (simp add: tbl_ent_def entry_def ENT_SIZE_def drop_take mult.commute)
  have zero: "entry demo_table 0 = replicate 128 0" "entry demo_table 2 = replicate 128 0" "entry demo_table 3 = replicate 128 0"
    by (simp_all add: entry_def demo_table_def put_def ENT_SIZE_def demo_uuid_def)
  have "\<not> ent_valid (replicate 128 0)" by (simp add: ent_valid_def uuid_is_nil_def ent_type_def)
  moreover have "ent_valid (entry demo_table 1)"
  proof -
    have "demo_uuid ! 0 \<noteq> replicate 16 0 ! 0" by (simp add: demo_uuid_def)
    then have "demo_uuid \<noteq> replicate 16 0" by metis
    moreover have "length demo_uuid = 16" by (simp add: demo_uuid_def)
    ultimately show ?thesis unfolding demo_entry
      by (simp add: ent_valid_def uuid_is_nil_def ent_type_def ent_lba_start_def ent_lba_end_def u64_at_def le_nat_le_bytes)
  qed
  moreover have "[0..<4] = [0, 1, 2, 3 :: nat]" by (simp add: upt_rec)
  ultimately have "sector_parts (take 512 demo_table) 128 0 [0..<4] = [part_of (entry demo_table 1) 2]"
    using e zero by (simp add: sector_parts_def)
  moreover have "nat (sint (2 + of_nat (4 div 4) :: u64) - sint (2 :: u64)) = 1" by simp
  ultimately show "gpt_parts (image_sec gpt_image) = [part_of (entry demo_table 1) 2]"
    by (simp add: gpt_parts_def gpt_image_secs gpt_image_hdr DISK_SECSIZE_def table_parts_def)
qed

theorem disk_opengpt_selects_witness:
  "\<exists>rc dev' d'. disk_opengpt (userdisk_strategy host_image) \<lparr>d_unit = 0, d_slice = 2, d_partition = 0xff, d_offset = 0\<rparr> gpt_image =
      Some (rc, dev', d') \<and>
    (rc = RcEIO \<or> rc = RcOk \<and> d_slice dev' = gp_index (part_of (entry demo_table 1) 2) \<and>
      (d_offset dev' = uint (gp_start (part_of (entry demo_table 1) 2)) \<longleftrightarrow> uint (gp_start (part_of (entry demo_table 1) 2)) < 2 ^ 31))"
  by (rule disk_opengpt_selects [OF userdisk.sector_reader_axioms])
     (simp_all add: gpt_image_parts, simp add: part_of_def)

text \<open>
  a slice given by its number is opened at its start: with no BSD partition asked for, the
  offset becomes the start sector of table entry \<open>k - 1\<close> (read as an \<^verbatim>\<open>int\<close>), unless the disk
  carries the dedicated-disk table, where it is 0; a number past the table gives \<^verbatim>\<open>EPART\<close>.
\<close>

theorem disk_openmbr_slice:
  assumes "disk_readslicetab strat dev d = Some (RcOk, Some tab, d1)" "4 \<le> length tab"
    "0 < d_slice dev" "d_partition dev < 0"
  shows "disk_openmbr strat dev d =
    (if d_slice dev > int (length tab) then Some (RcEPART, dev, d1)
     else Some (RcOk, dev\<lparr>d_offset :=
        if dp_typ (tab ! 3) = DOSPTYP_386BSD \<and> dp_start (tab ! 3) = 0 \<and> dp_size (tab ! 3) = 50000 then 0
        else sint (dp_start (tab ! nat (d_slice dev - 1)))\<rparr>, d1))"
  using assms by (auto simp: disk_openmbr_def open_unsliced_def)

theorem disk_openmbr_slice_witness:
  "disk_openmbr (userdisk_strategy host_image) \<lparr>d_unit = 0, d_slice = 9, d_partition = -1, d_offset = 0\<rparr> pmbr_sector =
    (if (9 :: int) > int 4 then Some (RcEPART, \<lparr>d_unit = 0, d_slice = 9, d_partition = -1, d_offset = 0\<rparr>, pmbr_sector)
     else Some (RcOk, \<lparr>d_unit = 0, d_slice = 9, d_partition = -1, d_offset = 0\<rparr>\<lparr>d_offset :=
        if dp_typ (map (\<lambda>i. dp_at pmbr_sector (DOSPARTOFF + 16 * i)) [0..<NDOSPART] ! 3) = DOSPTYP_386BSD \<and>
           dp_start (map (\<lambda>i. dp_at pmbr_sector (DOSPARTOFF + 16 * i)) [0..<NDOSPART] ! 3) = 0 \<and>
           dp_size (map (\<lambda>i. dp_at pmbr_sector (DOSPARTOFF + 16 * i)) [0..<NDOSPART] ! 3) = 50000 then 0
        else sint (dp_start (map (\<lambda>i. dp_at pmbr_sector (DOSPARTOFF + 16 * i)) [0..<NDOSPART] ! nat (9 - 1)))\<rparr>, pmbr_sector))"
proof -
  let ?dev = "\<lparr>d_unit = 0, d_slice = 9, d_partition = -1, d_offset = 0\<rparr>"
  let ?tab = "map (\<lambda>i. dp_at pmbr_sector (DOSPARTOFF + 16 * i)) [0..<NDOSPART]"
  have rd0: "rdsec (userdisk_strategy host_image) ?dev 0 pmbr_sector = Some (0, pmbr_sector, pmbr_sector)"
    using pmbr_sector_ok(1) by (simp add: rdsec_def userdisk_strategy_def host_image_def DISK_SECSIZE_def)
  have size: "dp_size (dp_at pmbr_sector (DOSPARTOFF + 16 * i)) = 0" if "i < 4" for i
  proof -
    have "i = 0 \<or> i = 1 \<or> i = 2 \<or> i = 3" using that by auto
    then show ?thesis by (elim disjE) (simp_all add: dp_at_def DOSPARTOFF_def u32_at_def pmbr_sector_def le_nat_zeros)
  qed
  have "disk_checkextended (userdisk_strategy host_image) ?dev ext_fuel i (?tab, pmbr_sector) = Some (?tab, pmbr_sector)" if "i < 4" for i
    using size that by (simp add: ext_fuel_def NDOSPART_def)
  then have "check_slices (userdisk_strategy host_image) ?dev ext_fuel [0..<NDOSPART] (?tab, pmbr_sector) = Some (?tab, pmbr_sector)"
    by (simp add: NDOSPART_def upt_rec)
  then have "disk_readslicetab (userdisk_strategy host_image) ?dev pmbr_sector = Some (RcOk, Some ?tab, pmbr_sector)"
    using rd0 pmbr_sector_ok(2) by (simp add: disk_readslicetab_def)
  from disk_openmbr_slice [OF this] show ?thesis by (simp add: NDOSPART_def)
qed

text \<open>
  three requests make \<^verbatim>\<open>disk_openmbr\<close> leave the slice table: a disk without the MBR magic, whose
  table pointer stays \<^verbatim>\<open>NULL\<close>; the whole disk (\<^verbatim>\<open>d_slice < 0\<close>, the documented way to ask for it); and
  automatic selection when no slice has a known type, since \<^verbatim>\<open>disk_bestslice\<close> reports that by 0 and
  not by the -1 that the caller tests.
\<close>

theorem disk_openmbr_faults:
  assumes rd: "disk_readslicetab strat dev d = Some (RcOk, slicetab, d1)"
    and bad: "case slicetab of None \<Rightarrow> True
      | Some tab \<Rightarrow> 4 \<le> length tab \<and> dp_typ (tab ! 3) \<noteq> DOSPTYP_386BSD \<and>
          (if d_slice dev = 0 then {PREF_NONE} = slice_pref ` set tab else d_slice dev < 0)"
  shows "disk_openmbr strat dev d = None"
proof (cases slicetab)
  case None
  with rd show ?thesis by (simp add: disk_openmbr_def)
next
  case (Some tab)
  have "disk_bestslice tab = 0" if "{PREF_NONE} = slice_pref ` set tab"
  proof (rule ccontr)
    assume "disk_bestslice tab \<noteq> 0"
    with mbr_pref.chosen_first_min [of tab] obtain i where "i < length tab" "slice_pref (tab ! i) < PREF_NONE"
      by (auto simp: first_min_def)
    then show False using that by (metis imageI less_irrefl nth_mem singletonD)
  qed
  then show ?thesis using rd bad Some by (auto simp: disk_openmbr_def split: if_splits)
qed

theorem disk_openmbr_faults_witness:
  "disk_openmbr (userdisk_strategy host_image) \<lparr>d_unit = 0, d_slice = 1, d_partition = -1, d_offset = 0\<rparr> (replicate 512 0) = None"
proof -
  let ?dev = "\<lparr>d_unit = 0, d_slice = 1, d_partition = -1, d_offset = 0\<rparr>"
  have "rdsec (userdisk_strategy host_image) ?dev 0 (replicate 512 0) = Some (0, replicate 512 0, replicate 512 0)"
    by (simp add: rdsec_def userdisk_strategy_def host_image_def DISK_SECSIZE_def)
  then have "disk_readslicetab (userdisk_strategy host_image) ?dev (replicate 512 0) = Some (RcOk, None, replicate 512 0)"
    by (simp add: disk_readslicetab_def dos_magic_def)
  from disk_openmbr_faults [OF this] show ?thesis by simp
qed

end
