(* ===== verification/Misc.thy ===== *)
theory Misc
  imports Util
begin

text \<open>
  The helpers of \<^verbatim>\<open>boot/common/misc.c\<close> and the i386 primitives that copy to and from kernel
  space (\<^verbatim>\<open>boot/i386/libi386/i386_copy.c\<close>), which the helpers reach through \<^verbatim>\<open>archsw\<close>.

  The loader runs on the C library of \<^verbatim>\<open>libstand\<close>: \<^verbatim>\<open>malloc\<close>, \<^verbatim>\<open>lseek\<close> and \<^verbatim>\<open>read\<close> are arguments,
  \<^verbatim>\<open>strcat\<close> and \<^verbatim>\<open>strcpy\<close> are the standard functions on the block they write.
\<close>

section \<open>Strings in blocks of the heap\<close>

type_synonym allocator = "nat \<Rightarrow> byte list option"

text \<open>\<open>malloc\<close> returns \<open>NULL\<close> or a block of the requested size with arbitrary contents.\<close>

definition alloc_ok :: "allocator \<Rightarrow> bool" where
  "alloc_ok alloc \<longleftrightarrow> (\<forall>n b. alloc n = Some b \<longrightarrow> length b = n)"

definition blk_strcpy :: "byte list \<Rightarrow> nat \<Rightarrow> byte list \<Rightarrow> byte list option" where
  "blk_strcpy b off s = store b off (s @ [0])"

definition blk_strcat :: "byte list \<Rightarrow> byte list \<Rightarrow> byte list option" where
  "blk_strcat b s = do { t \<leftarrow> cstr b 0; blk_strcpy b (length t) s }"

lemma blk_strcpy_in:
  "off + length s < length b \<Longrightarrow> blk_strcpy b off s = Some (put b off (s @ [0]))"
  by (simp add: blk_strcpy_def)

lemma blk_strcat_append:
  assumes "cstr b 0 = Some t" "0 \<notin> set s" "length t + length s < length b"
  shows "\<exists>b'. blk_strcat b s = Some b' \<and> length b' = length b \<and> cstr b' 0 = Some (t @ s)"
  using assms cstr_put_after [OF assms(1,2)] by (auto simp: blk_strcat_def blk_strcpy_in)

section \<open>\<open>unargv\<close>\<close>

fun unargv_loop :: "byte list list \<Rightarrow> byte list \<Rightarrow> byte list option" where
  "unargv_loop [] cp = Some cp"
| "unargv_loop (a # argv) cp = do {
     cp1 \<leftarrow> blk_strcat cp a;
     cp2 \<leftarrow> (if argv \<noteq> [] then blk_strcat cp1 [32] else Some cp1);
     unargv_loop argv cp2
   }"

text \<open>The outer option is a fault (an unchecked \<open>NULL\<close> from \<open>malloc\<close>), the inner the returned pointer.\<close>

definition unargv :: "allocator \<Rightarrow> byte list list \<Rightarrow> byte list option option" where
  "unargv alloc argv = do {
     let hlong = sum_list (map (\<lambda>a. length a + 2) argv);
     if hlong = 0 then Some None
     else do {
       b \<leftarrow> alloc hlong;
       cp \<leftarrow> wr b 0 0;
       map_option Some (unargv_loop argv cp)
     }
   }"

section \<open>Copying to and from kernel space\<close>

text \<open>
  Physical memory as the i386 loader sees it.  \<open>PTOV\<close> only relocates, so an address is an index;
  \<open>dest + len\<close> is computed in the 32 bits of \<open>vm_offset_t\<close>.
\<close>

record i386_mem =
  memtop :: u32
  memtop_copyin :: u32
  ram :: "byte list"

definition i386_copyin :: "byte list \<Rightarrow> u32 \<Rightarrow> nat \<Rightarrow> i386_mem \<Rightarrow> (int \<times> i386_mem) option" where
  "i386_copyin src dest len m =
     (if dest + word_of_nat len \<ge> memtop m then Some (-1, m)
      else do {
        bytes \<leftarrow> slice src 0 len;
        r \<leftarrow> store (ram m) (unat dest) bytes;
        Some (int len, m\<lparr>ram := r\<rparr>)
      })"

text \<open>The bytes copied out, \<^term>\<open>Inl (-1)\<close> when the range is refused and the buffer keeps its contents.\<close>

definition i386_copyout :: "u32 \<Rightarrow> nat \<Rightarrow> i386_mem \<Rightarrow> (int + byte list) option" where
  "i386_copyout src len m =
     (if src + word_of_nat len \<ge> memtop m then Some (Inl (-1))
      else map_option Inr (slice (ram m) (unat src) len))"

text \<open>\<open>read\<close> of the open file is an argument: its result and the bytes it delivers.\<close>

definition i386_readin ::
  "('s \<Rightarrow> nat \<Rightarrow> int \<times> byte list \<times> 's) \<Rightarrow> u32 \<Rightarrow> nat \<Rightarrow> 's \<Rightarrow> i386_mem \<Rightarrow> (int \<times> 's \<times> i386_mem) option" where
  "i386_readin rdfd dest len fd m =
     (if dest + word_of_nat len \<ge> memtop_copyin m then Some (-1, fd, m)
      else do {
        let (got, bytes, fd') = rdfd fd len;
        r \<leftarrow> store (ram m) (unat dest) bytes;
        Some (got, fd', m\<lparr>ram := r\<rparr>)
      })"

section \<open>Strings in kernel space\<close>

text \<open>
  \<open>arch_copyout\<close> of one byte: the variable \<open>c\<close> keeps its value when the copy is refused, as the result
  is not looked at.  The search for the terminator need not end.
\<close>

definition copyout1 :: "('a::len word \<Rightarrow> byte option) \<Rightarrow> 'a word \<Rightarrow> byte \<Rightarrow> byte" where
  "copyout1 copyout a c = (case copyout a of None \<Rightarrow> c | Some x \<Rightarrow> x)"

partial_function (option) strlenout_loop ::
  "('a::len word \<Rightarrow> byte option) \<Rightarrow> 'a word \<Rightarrow> byte \<Rightarrow> nat \<Rightarrow> nat option" where
  "strlenout_loop copyout src c len =
     (let c' = copyout1 copyout src c in
      if c' = 0 then Some len else strlenout_loop copyout (src + 1) c' (len + 1))"

definition strlenout :: "('a::len word \<Rightarrow> byte option) \<Rightarrow> byte \<Rightarrow> 'a word \<Rightarrow> nat option" where
  "strlenout copyout junk src = strlenout_loop copyout src junk 0"

function strdupout_loop ::
  "('a::len word \<Rightarrow> byte option) \<Rightarrow> 'a word \<Rightarrow> byte list \<Rightarrow> nat \<Rightarrow> byte list option" where
  "strdupout_loop copyout str result cp = do {
     c \<leftarrow> rd result cp;
     let c' = copyout1 copyout str c;
     let result' = result[cp := c'];
     if c' = 0 then Some result' else strdupout_loop copyout (str + 1) result' (cp + 1)
   }"
  by pat_completeness auto
termination
  by (relation "measure (\<lambda>(copyout, str, result, cp). length result - cp)") (auto simp: mem_simps)

definition strdupout ::
  "allocator \<Rightarrow> ('a::len word \<Rightarrow> byte option) \<Rightarrow> byte \<Rightarrow> 'a word \<Rightarrow> byte list option" where
  "strdupout alloc copyout junk str = do {
     n \<leftarrow> strlenout copyout junk str;
     b \<leftarrow> alloc (n + 1);
     strdupout_loop copyout str b 0
   }"

declare strdupout_loop.simps [simp del]

section \<open>Filling and reading\<close>

text \<open>\<open>kern_bzero\<close> drops the result of \<open>arch_copyin\<close>.\<close>

function kern_bzero ::
  "(byte list \<Rightarrow> 'a::len word \<Rightarrow> nat \<Rightarrow> 'k \<Rightarrow> (int \<times> 'k) option) \<Rightarrow> 'a word \<Rightarrow> nat \<Rightarrow> 'k \<Rightarrow> 'k option" where
  "kern_bzero copyin dest resid k =
     (if resid > 0 then do {
        let chunk = min 256 resid;
        (rv, k') \<leftarrow> copyin (replicate 256 0) dest chunk k;
        kern_bzero copyin (dest + word_of_nat chunk) (resid - chunk) k'
      } else Some k)"
  by pat_completeness auto
termination
  by (relation "measure (\<lambda>(copyin, dest, resid, k). resid)") (auto simp: min_def)

declare kern_bzero.simps [simp del]

text \<open>The files: \<open>lseek\<close> and the reads change the file position, which is part of \<open>'s\<close>.\<close>

definition kern_pread ::
  "('s \<Rightarrow> int \<Rightarrow> int \<times> 's) \<Rightarrow> ('a::len word \<Rightarrow> nat \<Rightarrow> 's \<Rightarrow> 'k \<Rightarrow> (int \<times> 's \<times> 'k) option) \<Rightarrow>
   'a word \<Rightarrow> nat \<Rightarrow> int \<Rightarrow> 's \<Rightarrow> 'k \<Rightarrow> (int \<times> 's \<times> 'k) option" where
  "kern_pread lseek readin dest len off fd k =
     (let (pos, fd1) = lseek fd off in
      if pos = -1 then Some (-1, fd1, k)
      else do {
        (nread, fd2, k') \<leftarrow> readin dest len fd1 k;
        if nread \<noteq> int len then Some (-1, fd2, k') else Some (0, fd2, k')
      })"

definition alloc_pread ::
  "allocator \<Rightarrow> ('s \<Rightarrow> int \<Rightarrow> int \<times> 's) \<Rightarrow> ('s \<Rightarrow> nat \<Rightarrow> int \<times> byte list \<times> 's) \<Rightarrow>
   int \<Rightarrow> nat \<Rightarrow> 's \<Rightarrow> (byte list option \<times> 's) option" where
  "alloc_pread alloc lseek rdfd off len fd =
     (case alloc len of
        None \<Rightarrow> Some (None, fd)
      | Some buf \<Rightarrow>
          (let (pos, fd1) = lseek fd off in
           if pos = -1 then Some (None, fd1)
           else do {
             let (nread, bytes, fd2) = rdfd fd1 len;
             buf' \<leftarrow> store buf 0 bytes;
             if nread \<noteq> int len then Some (None, fd2) else Some (Some buf', fd2)
           }))"

section \<open>What the helpers compute\<close>

lemma unargv_loop_joins:
  assumes "cstr cp 0 = Some t" "\<forall>a \<in> set argv. 0 \<notin> set a"
    and "length t + sum_list (map (\<lambda>a. length a + 2) argv) \<le> length cp" "t = [] \<or> argv \<noteq> []"
  shows "\<exists>cp'. unargv_loop argv cp = Some cp' \<and> length cp' = length cp \<and> cstr cp' 0 = Some (t @ join argv)"
  using assms
proof (induction argv arbitrary: cp t)
  case (Cons a argv)
  obtain cp1 where 1: "blk_strcat cp a = Some cp1" "length cp1 = length cp" "cstr cp1 0 = Some (t @ a)"
    using blk_strcat_append [OF Cons.prems(1), of a] Cons.prems by auto
  show ?case
  proof (cases "argv = []")
    case True
    with 1 show ?thesis by simp
  next
    case False
    obtain cp2 where 2: "blk_strcat cp1 [32] = Some cp2" "length cp2 = length cp1"
      "cstr cp2 0 = Some (t @ a @ [32])"
      using blk_strcat_append [OF 1(3), of "[32]"] 1 Cons.prems by auto
    with Cons.IH [OF 2(3)] Cons.prems 1 False show ?thesis by (auto simp: join_Cons)
  qed
qed simp

lemma unargv_joins:
  assumes "alloc_ok alloc" "alloc (sum_list (map (\<lambda>a. length a + 2) argv)) = Some b"
    and "argv \<noteq> []" "\<forall>a \<in> set argv. 0 \<notin> set a"
  shows "\<exists>cp. unargv alloc argv = Some (Some cp) \<and> cstr cp 0 = Some (join argv)"
proof -
  let ?n = "sum_list (map (\<lambda>a. length a + 2) argv)"
  have n: "?n > 0" using assms(3) by (cases argv) auto
  have len: "length b = ?n" using assms(1,2) by (simp add: alloc_ok_def)
  then have "cstr (b[0 := 0]) 0 = Some []" using n by (subst cstr_unfold) simp
  from unargv_loop_joins [OF this assms(4)] n len assms(2,3) show ?thesis by (auto simp: unargv_def)
qed

text \<open>A NUL-terminated string in kernel space.\<close>

fun kstr :: "('a::len word \<Rightarrow> byte option) \<Rightarrow> 'a word \<Rightarrow> byte list \<Rightarrow> bool" where
  "kstr copyout a [] \<longleftrightarrow> copyout a = Some 0"
| "kstr copyout a (c # s) \<longleftrightarrow> copyout a = Some c \<and> c \<noteq> 0 \<and> kstr copyout (a + 1) s"

lemma strlenout_loop_kstr:
  "kstr copyout a s \<Longrightarrow> strlenout_loop copyout a c n = Some (n + length s)"
proof (induction s arbitrary: a c n)
  case Nil
  then show ?case by (subst strlenout_loop.simps) (simp add: copyout1_def)
next
  case (Cons x s)
  then show ?case by (subst strlenout_loop.simps) (simp add: copyout1_def)
qed

lemma strdupout_loop_kstr:
  assumes "kstr copyout a s" "cp + length s < length b"
  shows "strdupout_loop copyout a b cp = Some (put b cp (s @ [0]))"
  using assms
proof (induction s arbitrary: a b cp)
  case Nil
  then show ?case
    by (subst strdupout_loop.simps) (simp add: copyout1_def put_def upd_conv_take_nth_drop)
next
  case (Cons x s)
  then show ?case by (subst strdupout_loop.simps) (simp add: copyout1_def put_Cons)
qed

text \<open>
  What \<open>archsw.arch_copyin\<close> promises its clients: a range that ends below the top of memory is
  stored, any other range whose end can be represented is refused and changes nothing.
\<close>

locale kernel_store =
  fixes copyin :: "byte list \<Rightarrow> 'a::len word \<Rightarrow> nat \<Rightarrow> 'k \<Rightarrow> (int \<times> 'k) option"
    and mem :: "'k \<Rightarrow> byte list" and top :: "'k \<Rightarrow> nat" and wf :: "'k \<Rightarrow> bool"
  assumes top_le: "wf k \<Longrightarrow> top k \<le> length (mem k)"
    and copyin_in: "wf k \<Longrightarrow> unat dest + n < top k \<Longrightarrow> n \<le> length src \<Longrightarrow>
      \<exists>k'. copyin src dest n k = Some (int n, k') \<and> wf k' \<and> top k' = top k \<and>
        mem k' = put (mem k) (unat dest) (take n src)"
    and copyin_out: "wf k \<Longrightarrow> top k \<le> unat dest + n \<Longrightarrow> unat dest + n < 2 ^ LENGTH('a) \<Longrightarrow>
      \<exists>rv. copyin src dest n k = Some (rv, k)"
begin

definition zeroed :: "nat \<Rightarrow> nat \<Rightarrow> nat \<Rightarrow> nat" where
  "zeroed t d len = (if d + len < t then len else 256 * ((t - 1 - d) div 256))"

lemma zeroed_step:
  assumes "0 < len" "d + min 256 len < t"
  shows "zeroed t d len = min 256 len + zeroed t (d + min 256 len) (len - min 256 len)"
proof (cases "len \<le> 256")
  case False
  with assms have "Suc (d + 256) \<le> t" by simp
  then obtain r where t: "t = Suc (d + 256) + r" using le_Suc_ex by blast
  have "(256 + r) div 256 = 1 + r div 256" by simp
  moreover have "t - 1 - d = 256 + r" "t - 1 - (d + 256) = r" using t by simp_all
  ultimately show ?thesis using False by (simp add: zeroed_def)
qed (use assms in \<open>simp add: zeroed_def\<close>)

lemma zeroed_beyond:
  assumes "t \<le> d + min 256 len" "0 < len"
  shows "zeroed t d len = 0"
proof -
  from assms have "\<not> d + len < t" "t - 1 - d < 256" by auto
  then show ?thesis by (simp add: zeroed_def)
qed

lemma unat_add_in: "unat d + n < 2 ^ LENGTH('a) \<Longrightarrow> unat (d + word_of_nat n) = unat d + n" for d :: "'a word"
  by (simp add: unat_word_ariths unat_of_nat)

lemma bzero_effect:
  assumes "wf k" "unat dest + len < 2 ^ LENGTH('a)"
  shows "\<exists>k'. kern_bzero copyin dest len k = Some k' \<and> wf k' \<and> top k' = top k \<and>
    mem k' = put (mem k) (unat dest) (replicate (zeroed (top k) (unat dest) len) 0)"
  using assms
proof (induction len arbitrary: dest k rule: less_induct)
  case (less len)
  show ?case
  proof (cases "len = 0")
    case True
    then show ?thesis using less.prems by (subst kern_bzero.simps) (auto simp: zeroed_def)
  next
    case False
    let ?c = "min 256 len"
    have d': "unat (dest + word_of_nat ?c) = unat dest + ?c"
      using less.prems(2) by (intro unat_add_in) auto
    note IH = less.IH [of "len - ?c" _ "dest + word_of_nat ?c", unfolded d']
    show ?thesis
    proof (cases "unat dest + ?c < top k")
      case True
      obtain k1 where 1: "copyin (replicate 256 0) dest ?c k = Some (int ?c, k1)" "wf k1" "top k1 = top k"
        "mem k1 = put (mem k) (unat dest) (replicate ?c 0)"
        using copyin_in [OF less.prems(1) True, of "replicate 256 0"] by auto
      have "unat dest + length (replicate ?c (0 :: byte)) \<le> length (mem k)"
        using True top_le [OF less.prems(1)] by simp
      note adj = put_put_adjacent [OF this]
      obtain k2 where 2: "kern_bzero copyin (dest + word_of_nat ?c) (len - ?c) k1 = Some k2" "wf k2" "top k2 = top k1"
        "mem k2 = put (mem k1) (unat dest + ?c) (replicate (zeroed (top k1) (unat dest + ?c) (len - ?c)) 0)"
        using IH [OF _ 1(2)] False less.prems(2) by auto
      have "mem k2 = put (mem k) (unat dest) (replicate (zeroed (top k) (unat dest) len) 0)"
        using adj zeroed_step [OF _ True] False by (simp add: 1 2 replicate_add)
      moreover have "kern_bzero copyin dest len k = Some k2"
        using False 1(1) 2(1) by (subst kern_bzero.simps) simp
      ultimately show ?thesis using 1 2 by simp
    next
      case beyond: False
      have last: "unat dest + ?c < 2 ^ LENGTH('a)" using less.prems(2) by (rule order.strict_trans1 [rotated]) simp
      from beyond obtain rv where 1: "copyin (replicate 256 0) dest ?c k = Some (rv, k)"
        using copyin_out [OF less.prems(1) _ last, of "replicate 256 0"] by auto
      have z: "zeroed (top k) (unat dest) len = 0" using beyond False by (intro zeroed_beyond) auto
      have z': "zeroed (top k) (unat dest + ?c) (len - ?c) = 0" using beyond by (auto simp: zeroed_def)
      obtain k2 where 2: "kern_bzero copyin (dest + word_of_nat ?c) (len - ?c) k = Some k2" "wf k2" "top k2 = top k"
        "mem k2 = put (mem k) (unat dest + ?c) (replicate (zeroed (top k) (unat dest + ?c) (len - ?c)) 0)"
        using IH [OF _ less.prems(1)] False less.prems(2) by auto
      have "kern_bzero copyin dest len k = Some k2"
        using False 1 2(1) by (subst kern_bzero.simps) simp
      with 2 z z' show ?thesis by simp
    qed
  qed
qed

end

definition i386_mem_ok :: "i386_mem \<Rightarrow> bool" where
  "i386_mem_ok m \<longleftrightarrow> unat (memtop m) \<le> length (ram m)"

lemma u32_end: "unat d + n < 2 ^ 32 \<Longrightarrow> unat (d + word_of_nat n :: u32) = unat d + n"
  by (simp add: unat_word_ariths unat_of_nat)

interpretation i386: kernel_store i386_copyin ram "\<lambda>m. unat (memtop m)" i386_mem_ok
proof
  fix k :: i386_mem and dest :: u32 and n and src :: "byte list"
  assume wf: "i386_mem_ok k"
  then show "unat (memtop k) \<le> length (ram k)" by (simp add: i386_mem_ok_def)
  assume len: "n \<le> length src"
  { assume "unat dest + n < unat (memtop k)"
    moreover from this have "unat dest + n < 2 ^ 32" using unsigned_less [of "memtop k", where ?'a = nat] by simp
    moreover note u32_end [OF this]
    ultimately show "\<exists>k'. i386_copyin src dest n k = Some (int n, k') \<and> i386_mem_ok k' \<and>
        unat (memtop k') = unat (memtop k) \<and> ram k' = put (ram k) (unat dest) (take n src)"
      using wf len by (auto simp: i386_copyin_def i386_mem_ok_def word_le_nat_alt) }
next
  fix k :: i386_mem and dest :: u32 and n and src :: "byte list"
  assume "unat (memtop k) \<le> unat dest + n" "unat dest + n < 2 ^ LENGTH(32)"
  then show "\<exists>rv. i386_copyin src dest n k = Some (rv, k)"
    using u32_end [of dest n] by (auto simp: i386_copyin_def word_le_nat_alt)
qed

section \<open>Properties\<close>

text \<open>
  for a NUL-terminated string in kernel space \<^verbatim>\<open>strlenout\<close> returns its length and
  \<^verbatim>\<open>strdupout\<close> a block that holds exactly the string and its terminator, whatever the block
  and the loop variable held before.
\<close>

theorem strdupout_copies:
  assumes "alloc_ok alloc" "alloc (length s + 1) = Some b" "kstr copyout a s"
  shows "strlenout copyout junk a = Some (length s) \<and> strdupout alloc copyout junk a = Some (s @ [0])"
proof -
  have "strlenout copyout junk a = Some (length s)"
    using assms(3) by (simp add: strlenout_def strlenout_loop_kstr)
  moreover have "length b = length s + 1" using assms(1,2) by (simp add: alloc_ok_def)
  ultimately show ?thesis
    using assms strdupout_loop_kstr [OF assms(3), of 0 b] by (simp add: strdupout_def put_def)
qed

theorem strdupout_copies_witness:
  "strlenout (\<lambda>a :: u32. if a = 4 then Some 107 else if a = 5 then Some 108 else Some 0) 7 4 = Some (length [107, 108 :: byte]) \<and>
   strdupout (\<lambda>n. Some (replicate n 170)) (\<lambda>a :: u32. if a = 4 then Some 107 else if a = 5 then Some 108 else Some 0) 7 4
     = Some ([107, 108] @ [0])"
  by (rule strdupout_copies [where b = "[170, 170, 170]"]) (simp_all add: alloc_ok_def)

text \<open>
  C32: \<^verbatim>\<open>kern_bzero\<close> over \<^verbatim>\<open>i386_copyin\<close> ends for every length and zeroes the region exactly when it
  ends below \<^verbatim>\<open>memtop\<close>.  Otherwise it zeroes only the leading blocks of 256 bytes that end below
  \<^verbatim>\<open>memtop\<close> and returns without a sign of it; the rest of memory is never touched.
\<close>

theorem kern_bzero_clears:
  assumes "i386_mem_ok m" "unat dest + len < 2 ^ 32"
  shows "\<exists>m'. kern_bzero i386_copyin dest len m = Some m' \<and> memtop m' = memtop m \<and>
    ram m' = put (ram m) (unat dest)
      (replicate (if unat dest + len < unat (memtop m) then len
                  else 256 * ((unat (memtop m) - 1 - unat dest) div 256)) 0)"
  using i386.bzero_effect [OF assms(1), of dest len] assms(2)
  by (auto simp: i386.zeroed_def word_unat_eq_iff)

theorem kern_bzero_clears_witness:
  "\<exists>m'. kern_bzero i386_copyin 2 3 \<lparr>memtop = 8, memtop_copyin = 8, ram = replicate 8 1\<rparr> = Some m' \<and>
    memtop m' = memtop \<lparr>memtop = 8, memtop_copyin = 8, ram = replicate 8 1\<rparr> \<and>
    ram m' = put (ram \<lparr>memtop = 8, memtop_copyin = 8, ram = replicate 8 1\<rparr>) (unat (2 :: u32))
      (replicate (if unat (2 :: u32) + 3 < unat (memtop \<lparr>memtop = 8, memtop_copyin = 8, ram = replicate 8 1\<rparr>) then 3
         else 256 * ((unat (memtop \<lparr>memtop = 8, memtop_copyin = 8, ram = replicate 8 1\<rparr>) - 1 - unat (2 :: u32)) div 256)) 0)"
  by (rule kern_bzero_clears) (simp_all add: i386_mem_ok_def)

end
