(* ===== verification/Interp.thy ===== *)
theory Interp
  imports Util
begin

text \<open>
  \<^verbatim>\<open>boot/common/interp_backslash.c\<close> and \<^verbatim>\<open>boot/common/interp_parse.c\<close>: how the loader splits a
  command line into arguments.

  A C string is the list of its bytes before the terminator; a look past the end of that list
  gives the terminator.  The element buffer of \<^verbatim>\<open>parse\<close> is a list of \<^verbatim>\<open>PARSE_BUFSIZE\<close> bytes with
  checked accesses, and \<^verbatim>\<open>args\<close> has \<^verbatim>\<open>MAXARGS\<close> places; leaving either is \<^term>\<open>None\<close>.  The environment
  (\<^verbatim>\<open>getenv\<close>) is the argument \<open>env\<close>.
\<close>

section \<open>Characters\<close>

definition peek :: "byte list \<Rightarrow> nat \<Rightarrow> byte" where
  "peek s i = (if i < length s then s ! i else 0)"

definition isdigit :: "byte \<Rightarrow> bool" where "isdigit c \<longleftrightarrow> 48 \<le> c \<and> c \<le> 57"
definition islower :: "byte \<Rightarrow> bool" where "islower c \<longleftrightarrow> 97 \<le> c \<and> c \<le> 122"
definition isxdigit :: "byte \<Rightarrow> bool" where
  "isxdigit c \<longleftrightarrow> isdigit c \<or> (97 \<le> c \<and> c \<le> 102) \<or> (65 \<le> c \<and> c \<le> 70)"
definition isspace :: "byte \<Rightarrow> bool" where "isspace c \<longleftrightarrow> c = 32 \<or> (9 \<le> c \<and> c \<le> 13)"

definition DIGIT :: "byte \<Rightarrow> byte" where
  "DIGIT c = (if isdigit c then c - 48 else if islower c then c + 10 - 97 else c + 10 - 65)"

section \<open>Backslash processing\<close>

text \<open>The characters of the \<^verbatim>\<open>switch\<close> with a fixed replacement.\<close>

definition simple_escape :: "byte \<Rightarrow> byte list option" where
  "simple_escape c =
     (if c = 92 then Some [92]
      else if c = 39 \<or> c = 34 \<or> c = 36 then Some [92, c]
      else if c = 98 then Some [8]
      else if c = 102 then Some [12]
      else if c = 114 then Some [13]
      else if c = 110 then Some [10]
      else if c = 115 then Some [32]
      else if c = 116 then Some [9]
      else if c = 118 then Some [11]
      else if c = 122 then Some []
      else if isdigit c then None
      else Some [c])"

definition octal3 :: "byte list \<Rightarrow> bool" where
  "octal3 s \<longleftrightarrow> 48 \<le> peek s 0 \<and> peek s 0 \<le> 51 \<and> 48 \<le> peek s 1 \<and> peek s 1 \<le> 55 \<and> 48 \<le> peek s 2 \<and> peek s 2 \<le> 55"

definition hex_escape :: "byte list \<Rightarrow> bool" where
  "hex_escape s \<longleftrightarrow> peek s 0 = 48 \<and> (peek s 1 = 120 \<or> peek s 1 = 88) \<and> isxdigit (peek s 2)"

text \<open>The characters stored in \<^verbatim>\<open>new_str\<close>, in order; the flag is \<^verbatim>\<open>seenbs\<close>.\<close>

function backslash_loop :: "bool \<Rightarrow> byte list \<Rightarrow> byte list" where
  "backslash_loop seenbs [] = (if seenbs then [92] else [])"
| "backslash_loop False (c # s) = (if c = 92 then backslash_loop True s else c # backslash_loop False s)"
| "backslash_loop True (c # s) =
     (case simple_escape c of
        Some out \<Rightarrow> out @ backslash_loop False s
      | None \<Rightarrow>
          if octal3 (c # s) then
            (push_bit 6 (DIGIT c) + push_bit 3 (DIGIT (peek s 0)) + DIGIT (peek s 1)) # backslash_loop False (drop 2 s)
          else if hex_escape (c # s) then
            (if isxdigit (peek s 2)
             then (push_bit 4 (DIGIT (peek s 1)) + DIGIT (peek s 2)) # backslash_loop False (drop 3 s)
             else DIGIT (peek s 1) # backslash_loop False (drop 2 s))
          else backslash_loop False (c # s))"
  by pat_completeness auto
termination
  by (relation "measures [\<lambda>(b, s). length s, \<lambda>(b, s). if b then 1 else 0]") auto

text \<open>
  The copy has the size of \<^verbatim>\<open>strdup(str)\<close>; the stores and the terminator must stay inside it.
  What the caller sees of it is the part before the first NUL.
\<close>

definition backslash :: "byte list \<Rightarrow> byte list option" where
  "backslash str =
     (let out = backslash_loop False str in
      if length out \<le> length str then Some (takeWhile (\<lambda>c. c \<noteq> 0) out) else None)"

section \<open>Splitting\<close>

datatype pstate = S_STR | S_VAR | S_WHITE

definition PARSE_BUFSIZE :: nat where "PARSE_BUFSIZE = 1024"
definition MAXARGS :: nat where "MAXARGS = 20"

definition isdelim :: "byte \<Rightarrow> byte" where
  "isdelim c = (if c = 123 then 125 else if c = 40 then 41 else 0)"

definition isquote :: "byte \<Rightarrow> bool" where "isquote c \<longleftrightarrow> c = 39 \<or> c = 34"

record parser =
  pbuf :: "byte list"
  pix :: nat
  ptoken :: byte
  pquote :: byte
  pstate :: pstate
  pargs :: "byte list list"

definition insert_arg :: "byte list \<Rightarrow> byte list list \<Rightarrow> byte list list option" where
  "insert_arg buf as =
     (if length as \<ge> MAXARGS then None else Some (as @ [takeWhile (\<lambda>c. c \<noteq> 0) buf]))"

text \<open>Results: \<open>Inl ()\<close> is a \<^verbatim>\<open>PARSE_FAIL\<close>; outside, \<^term>\<open>None\<close> is a write outside the buffer.\<close>

definition put_char :: "byte \<Rightarrow> parser \<Rightarrow> (unit + parser) option" where
  "put_char c s =
     (if pix s = PARSE_BUFSIZE - 1 then Some (Inl ())
      else map_option (\<lambda>buf. Inr (s\<lparr>pbuf := buf, pix := pix s + 1\<rparr>)) (wr (pbuf s) (pix s) c))"

definition end_token :: "parser \<Rightarrow> (unit + parser) option" where
  "end_token s =
     (if pix s = 0 then Some (Inr s)
      else do {
        buf \<leftarrow> wr (pbuf s) (pix s) 0;
        Some (case insert_arg buf (pargs s) of
          None \<Rightarrow> Inl ()
        | Some as \<Rightarrow> Inr (s\<lparr>pbuf := buf, pix := 0, pargs := as\<rparr>))
      })"

text \<open>\<^verbatim>\<open>strncpy(buf + i, val, PARSE_BUFSIZE - (i + 1))\<close>; the size wraps when \<open>i\<close> is past the buffer.\<close>

definition expand :: "byte list \<Rightarrow> parser \<Rightarrow> parser option" where
  "expand val s =
     (if pix s > PARSE_BUFSIZE - 1 then None
      else do {
        let n = PARSE_BUFSIZE - (pix s + 1);
        buf \<leftarrow> store (pbuf s) (pix s) (take n val @ replicate (n - length val) 0);
        Some (s\<lparr>pbuf := buf, pix := pix s + min (length val) (PARSE_BUFSIZE - 1)\<rparr>)
      })"

text \<open>The end of the variable name: \<^verbatim>\<open>index(p, token)\<close>, or the first space.\<close>

definition var_end :: "byte \<Rightarrow> byte list \<Rightarrow> nat option" where
  "var_end token p =
     (if token \<noteq> 0
      then (if token \<in> set p then Some (length (takeWhile (\<lambda>c. c \<noteq> token) p)) else None)
      else Some (length (takeWhile (\<lambda>c. \<not> isspace c) p)))"

lemma var_end_le: "var_end token p = Some q \<Longrightarrow> q \<le> length p"
  by (auto simp: var_end_def length_takeWhile_le split: if_splits)

function parse_loop :: "(byte list \<Rightarrow> byte list option) \<Rightarrow> byte list \<Rightarrow> parser \<Rightarrow> (unit + parser) option" where
  "parse_loop env [] s = Some (Inr s)"
| "parse_loop env (c # p) s =
     (case pstate s of
        S_STR \<Rightarrow>
          if c = 92 \<and> p \<noteq> [] then
            (case put_char (hd p) s of
               Some (Inr s') \<Rightarrow> parse_loop env (tl p) s' | r \<Rightarrow> r)
          else if isquote c then parse_loop env p (s\<lparr>pquote := if pquote s \<noteq> 0 then 0 else c\<rparr>)
          else if isspace c \<and> pquote s = 0 then
            (case end_token (s\<lparr>pstate := S_WHITE\<rparr>) of
               Some (Inr s') \<Rightarrow> parse_loop env p s' | r \<Rightarrow> r)
          else if c = 36 then
            (let token = isdelim (peek p 0) in
             parse_loop env (if token \<noteq> 0 then tl p else p) (s\<lparr>ptoken := token, pstate := S_VAR\<rparr>))
          else
            (case put_char c s of
               Some (Inr s') \<Rightarrow> parse_loop env p s' | r \<Rightarrow> r)
      | S_WHITE \<Rightarrow>
          if isspace c then parse_loop env p s else parse_loop env (c # p) (s\<lparr>pstate := S_STR\<rparr>)
      | S_VAR \<Rightarrow>
          (case var_end (ptoken s) (c # p) of
             None \<Rightarrow> Some (Inl ())
           | Some q \<Rightarrow>
               (case (case env (take q (c # p)) of None \<Rightarrow> Some s | Some val \<Rightarrow> expand val s) of
                  None \<Rightarrow> None
                | Some s' \<Rightarrow>
                    parse_loop env (drop (if ptoken s \<noteq> 0 then q + 1 else q) (c # p)) (s'\<lparr>pstate := S_STR\<rparr>))))"
  by pat_completeness auto
termination
proof (relation "measures [\<lambda>(env, p, s). length p, \<lambda>(env, p, s). if pstate s = S_STR then 0 else 1]", goal_cases)
qed (auto simp: put_char_def end_token_def expand_def split: if_splits option.splits bind_splits)

declare parse_loop.simps [simp del]

text \<open>
  The end of \<^verbatim>\<open>parse\<close>: the last element (which is dropped unless the state is \<^verbatim>\<open>STR\<close>), and the
  arguments in \<^verbatim>\<open>args\<close> when the loop is done.
\<close>

definition last_token :: "unit + parser \<Rightarrow> (unit + byte list list) option" where
  "last_token r =
     (case r of
        Inl _ \<Rightarrow> Some (Inl ())
      | Inr s \<Rightarrow> map_option (map_sum id pargs)
          (if pix s \<noteq> 0 \<and> pstate s = S_STR then end_token s else Some (Inr s)))"

definition parser0 :: parser where
  "parser0 = \<lparr>pbuf = replicate PARSE_BUFSIZE 0, pix = 0, ptoken = 0, pquote = 0, pstate = S_STR, pargs = []\<rparr>"

definition parse_args :: "(byte list \<Rightarrow> byte list option) \<Rightarrow> byte list \<Rightarrow> (unit + byte list list) option" where
  "parse_args env copy = Option.bind (parse_loop env copy parser0) last_token"

text \<open>
  \<^verbatim>\<open>parse\<close>: the result code with the argument vector.  The store \<^verbatim>\<open>args[ac] = NULL\<close> needs a free
  place.
\<close>

definition parse :: "(byte list \<Rightarrow> byte list option) \<Rightarrow> byte list \<Rightarrow> (nat \<times> byte list list) option" where
  "parse env str = do {
     copy \<leftarrow> backslash str;
     r \<leftarrow> parse_args env copy;
     case r of
       Inl _ \<Rightarrow> Some (1, [])
     | Inr as \<Rightarrow> if length as < MAXARGS then Some (0, as) else None
   }"

section \<open>Backslash processing shrinks\<close>

lemma length_simple_escape: "simple_escape c = Some out \<Longrightarrow> length out \<le> 2"
  by (auto simp: simple_escape_def split: if_splits)

lemma length_backslash_loop: "length (backslash_loop b s) \<le> length s + (if b then 1 else 0)"
proof (induction b s rule: backslash_loop.induct)
  case (3 c s)
  show ?case
  proof (cases "simple_escape c")
    case None
    have "2 \<le> length s" if "octal3 (c # s) \<or> hex_escape (c # s)"
      using that by (cases s; cases "tl s") (auto simp: octal3_def hex_escape_def peek_def isxdigit_def isdigit_def)
    moreover have "3 \<le> length s" if "isxdigit (peek s 2)"
      using that by (auto simp: peek_def isxdigit_def isdigit_def split: if_splits)
    ultimately show ?thesis using None 3(1-4) by (cases "octal3 (c # s)") auto
  next
    case (Some out)
    then show ?thesis using 3(5) [OF Some] length_simple_escape [OF Some] by simp
  qed
qed auto

lemma backslash_loop_id: "92 \<notin> set s \<Longrightarrow> backslash_loop False s = s"
  by (induction s) auto

section \<open>The invariant of the parser\<close>

definition parser_ok :: "parser \<Rightarrow> bool" where
  "parser_ok s \<longleftrightarrow> length (pbuf s) = PARSE_BUFSIZE \<and> pix s < PARSE_BUFSIZE \<and> length (pargs s) \<le> MAXARGS \<and>
     (\<forall>a \<in> set (pargs s). length a < PARSE_BUFSIZE \<and> 0 \<notin> set a)"

lemma put_char_ok: "parser_ok s \<Longrightarrow> \<exists>r. put_char c s = Some r \<and> (\<forall>s'. r = Inr s' \<longrightarrow> parser_ok s' \<and> pstate s' = pstate s)"
  by (auto simp: put_char_def parser_ok_def PARSE_BUFSIZE_def)

lemma takeWhile_nz:
  assumes "i < length buf" "buf ! i = 0"
  shows "length (takeWhile (\<lambda>c. c \<noteq> 0) buf) \<le> i" "0 \<notin> set (takeWhile (\<lambda>c. c \<noteq> (0 :: byte)) buf)"
proof -
  show "length (takeWhile (\<lambda>c. c \<noteq> 0) buf) \<le> i"
  proof (rule ccontr)
    assume *: "\<not> length (takeWhile (\<lambda>c. c \<noteq> 0) buf) \<le> i"
    then have "takeWhile (\<lambda>c. c \<noteq> 0) buf ! i \<in> set (takeWhile (\<lambda>c. c \<noteq> 0) buf)" by (intro nth_mem) simp
    then show False using assms * by (auto dest: set_takeWhileD simp: takeWhile_nth)
  qed
qed (auto dest: set_takeWhileD)

lemma end_token_ok:
  assumes "parser_ok s"
  shows "\<exists>r. end_token s = Some r \<and> (\<forall>s'. r = Inr s' \<longrightarrow> parser_ok s' \<and> pstate s' = pstate s \<and> pix s' = 0)"
proof (cases "pix s = 0")
  case True
  then show ?thesis using assms by (simp add: end_token_def)
next
  case False
  let ?buf = "(pbuf s)[pix s := 0]"
  have i: "pix s < length ?buf" "?buf ! pix s = 0" using assms by (auto simp: parser_ok_def)
  show ?thesis using False assms takeWhile_nz [OF i]
    by (auto simp: end_token_def insert_arg_def parser_ok_def split: option.splits if_splits)
qed

text \<open>Without expansions the loop keeps the invariant and never leaves its buffers.\<close>

lemma parse_loop_ok:
  assumes "parser_ok s" "pstate s \<noteq> S_VAR" "36 \<notin> set p"
  shows "\<exists>r. parse_loop env p s = Some r \<and> (\<forall>s'. r = Inr s' \<longrightarrow> parser_ok s')"
  using assms
proof (induction env p s rule: parse_loop.induct)
  case (1 env s)
  then show ?case by (simp add: parse_loop.simps)
next
  case (2 env c p s)
  show ?case
  proof (cases "pstate s")
    case S_VAR
    with 2 show ?thesis by simp
  next
    case S_WHITE
    then show ?thesis
    proof (cases "isspace c")
      case True
      then show ?thesis using S_WHITE 2 by (subst parse_loop.simps) simp
    next
      case False
      have "parser_ok (s\<lparr>pstate := S_STR\<rparr>)" using 2 by (simp add: parser_ok_def)
      then show ?thesis using False S_WHITE 2 by (subst parse_loop.simps) simp
    qed
  next
    case S_STR
    obtain r1 where r1: "put_char (hd p) s = Some r1" "\<And>s'. r1 = Inr s' \<Longrightarrow> parser_ok s' \<and> pstate s' \<noteq> S_VAR"
      using put_char_ok [OF 2(9), of "hd p"] S_STR by auto
    obtain r2 where r2: "put_char c s = Some r2" "\<And>s'. r2 = Inr s' \<Longrightarrow> parser_ok s' \<and> pstate s' \<noteq> S_VAR"
      using put_char_ok [OF 2(9), of c] S_STR by auto
    have ok: "parser_ok (s\<lparr>pstate := S_WHITE\<rparr>)" "parser_ok (s\<lparr>pquote := q\<rparr>)" for q using 2(9) by (simp_all add: parser_ok_def)
    obtain r3 where r3: "end_token (s\<lparr>pstate := S_WHITE\<rparr>) = Some r3" "\<And>s'. r3 = Inr s' \<Longrightarrow> parser_ok s' \<and> pstate s' \<noteq> S_VAR"
      using end_token_ok [OF ok(1)] by auto
    have c: "c \<noteq> 36" "36 \<notin> set p" "p \<noteq> [] \<longrightarrow> 36 \<notin> set (tl p)" using 2(11) by (auto dest: list.set_sel(2))
    consider (esc) "c = 92 \<and> p \<noteq> []" | (quote) "\<not> (c = 92 \<and> p \<noteq> [])" "isquote c"
      | (space) "\<not> (c = 92 \<and> p \<noteq> [])" "\<not> isquote c" "isspace c \<and> pquote s = 0"
      | (other) "\<not> (c = 92 \<and> p \<noteq> [])" "\<not> isquote c" "\<not> (isspace c \<and> pquote s = 0)" by blast
    then show ?thesis
    proof cases
      case esc
      then show ?thesis using S_STR r1 c 2(1) by (subst parse_loop.simps) (auto split: sum.splits)
    next
      case quote
      then show ?thesis using S_STR c ok 2(2) by (subst parse_loop.simps) auto
    next
      case space
      then show ?thesis using S_STR r3 c 2(3) by (subst parse_loop.simps) (auto split: sum.splits)
    next
      case other
      then show ?thesis using S_STR r2 c 2(5) by (subst parse_loop.simps) (auto split: sum.splits)
    qed
  qed
qed

section \<open>Words\<close>

definition plain :: "byte \<Rightarrow> bool" where
  "plain c \<longleftrightarrow> c \<noteq> 0 \<and> \<not> isspace c \<and> c \<noteq> 92 \<and> \<not> isquote c \<and> c \<noteq> 36"

definition word_ok :: "byte list \<Rightarrow> bool" where
  "word_ok w \<longleftrightarrow> w \<noteq> [] \<and> length w < PARSE_BUFSIZE \<and> list_all plain w"

lemma parse_loop_word:
  assumes "list_all plain w" "pstate s = S_STR" "length (pbuf s) = PARSE_BUFSIZE" "pix s + length w < PARSE_BUFSIZE"
  shows "parse_loop env (w @ rest) s = parse_loop env rest (s\<lparr>pbuf := put (pbuf s) (pix s) w, pix := pix s + length w\<rparr>)"
  using assms
proof (induction w arbitrary: s)
  case Nil
  then show ?case by (cases s) simp
next
  case (Cons c w)
  let ?s = "s\<lparr>pbuf := (pbuf s)[pix s := c], pix := pix s + 1\<rparr>"
  have c: "\<not> isspace c" "c \<noteq> 92" "\<not> isquote c" "c \<noteq> 36" using Cons.prems(1) by (auto simp: plain_def)
  have "put_char c s = Some (Inr ?s)" using Cons.prems(3,4) by (simp add: put_char_def)
  then have "parse_loop env ((c # w) @ rest) s = parse_loop env (w @ rest) ?s"
    using c Cons.prems(2) by (subst append_Cons, subst parse_loop.simps) simp
  also have "\<dots> = parse_loop env rest (?s\<lparr>pbuf := put (pbuf ?s) (pix ?s) w, pix := pix ?s + length w\<rparr>)"
    using Cons.prems by (intro Cons.IH) auto
  finally show ?case using Cons.prems(3,4) by (simp add: put_Cons)
qed

lemma parse_loop_next_word:
  assumes "word_ok w" "pstate s \<noteq> S_VAR" "pix s = 0" "length (pbuf s) = PARSE_BUFSIZE"
  shows "parse_loop env (w @ rest) s =
    parse_loop env rest (s\<lparr>pstate := S_STR, pbuf := put (pbuf s) 0 w, pix := length w\<rparr>)"
proof -
  obtain c w' where w: "w = c # w'" "plain c" using assms(1) by (cases w) (auto simp: word_ok_def)
  have "parse_loop env (w @ rest) s = parse_loop env (w @ rest) (s\<lparr>pstate := S_STR\<rparr>)"
  proof (cases "pstate s")
    case S_STR
    then show ?thesis by (cases s) simp
  next
    case S_WHITE
    have "parse_loop env (c # w' @ rest) s = parse_loop env (c # w' @ rest) (s\<lparr>pstate := S_STR\<rparr>)"
      by (subst parse_loop.simps(2)) (use S_WHITE w(2) in \<open>simp add: plain_def\<close>)
    then show ?thesis by (simp add: w(1))
  qed (use assms(2) in simp)
  also have "\<dots> = parse_loop env rest (s\<lparr>pstate := S_STR, pbuf := put (pbuf s) 0 w, pix := length w\<rparr>)"
    using parse_loop_word [of w "s\<lparr>pstate := S_STR\<rparr>" env rest] assms by (simp add: word_ok_def)
  finally show ?thesis .
qed

lemma end_token_word:
  assumes "word_ok w" "pix s = length w" "\<exists>b. length b = PARSE_BUFSIZE \<and> pbuf s = put b 0 w"
  shows "end_token s = Some (case insert_arg (pbuf s) (pargs s) of None \<Rightarrow> Inl ()
    | Some _ \<Rightarrow> Inr (s\<lparr>pbuf := (pbuf s)[length w := 0], pix := 0, pargs := pargs s @ [w]\<rparr>))"
proof -
  obtain b where b: "length b = PARSE_BUFSIZE" "pbuf s = put b 0 w" using assms(3) by blast
  have len: "length w < PARSE_BUFSIZE" "w \<noteq> []" "\<forall>c \<in> set w. c \<noteq> 0"
    using assms(1) by (auto simp: word_ok_def plain_def list_all_iff)
  have "(put b 0 w)[length w := 0] = w @ 0 # drop (Suc (length w)) b"
    using b(1) len(1) by (simp add: put_def list_update_append Cons_nth_drop_Suc [symmetric] del: drop_Suc)
  then have "takeWhile (\<lambda>c. c \<noteq> 0) ((put b 0 w)[length w := 0]) = w" using len(3) by (simp add: takeWhile_append2)
  then show ?thesis using assms(2) b len
    by (simp add: end_token_def insert_arg_def)
qed

text \<open>A line of plain words, from a state between two elements.\<close>

lemma parse_loop_words:
  assumes "ws \<noteq> []" "\<forall>w \<in> set ws. word_ok w" "pstate s \<noteq> S_VAR" "pquote s = 0" "pix s = 0" "length (pbuf s) = PARSE_BUFSIZE"
    "length (pargs s) \<le> MAXARGS"
  shows "Option.bind (parse_loop env (join ws) s) last_token =
    Some (if length (pargs s) + length ws \<le> MAXARGS then Inr (pargs s @ ws) else Inl ())"
  using assms
proof (induction ws arbitrary: s rule: join.induct)
  case (2 w)
  then have w: "word_ok w" "list_all plain w" "length w < PARSE_BUFSIZE" "w \<noteq> []" by (auto simp: word_ok_def)
  let ?s = "s\<lparr>pstate := S_STR, pbuf := put (pbuf s) 0 w, pix := length w\<rparr>"
  have "parse_loop env (w @ []) s = parse_loop env [] ?s"
    using parse_loop_next_word [OF w(1) 2(3,5,6)] .
  then have "parse_loop env w s = Some (Inr ?s)" by (simp add: parse_loop.simps)
  moreover have "end_token ?s = Some (case insert_arg (pbuf ?s) (pargs ?s) of None \<Rightarrow> Inl ()
    | Some _ \<Rightarrow> Inr (?s\<lparr>pbuf := (pbuf ?s)[length w := 0], pix := 0, pargs := pargs ?s @ [w]\<rparr>))"
    using end_token_word [of w ?s] w 2 by auto
  ultimately show ?case using w(4) by (auto simp: last_token_def insert_arg_def)
next
  case (3 w v ws)
  then have w: "word_ok w" "list_all plain w" "length w < PARSE_BUFSIZE" "w \<noteq> []" by (auto simp: word_ok_def)
  let ?s = "s\<lparr>pstate := S_STR, pbuf := put (pbuf s) 0 w, pix := length w\<rparr>"
  have loop: "parse_loop env (join (w # v # ws)) s = parse_loop env (32 # join (v # ws)) ?s"
    unfolding join.simps using parse_loop_next_word [OF w(1) 3(4,6,7)] .
  let ?t = "?s\<lparr>pstate := S_WHITE\<rparr>"
  have e: "end_token ?t = Some (case insert_arg (pbuf ?t) (pargs ?t) of None \<Rightarrow> Inl ()
    | Some _ \<Rightarrow> Inr (?t\<lparr>pbuf := (pbuf ?t)[length w := 0], pix := 0, pargs := pargs ?t @ [w]\<rparr>))"
    using end_token_word [of w ?t] w 3(7) by auto
  have step: "parse_loop env (32 # join (v # ws)) ?s =
      (case end_token ?t of Some (Inr s') \<Rightarrow> parse_loop env (join (v # ws)) s' | r \<Rightarrow> r)"
    using 3(5) by (subst parse_loop.simps) (simp add: isquote_def isspace_def)
  show ?case
  proof (cases "length (pargs s) < MAXARGS")
    case True
    let ?u = "?t\<lparr>pbuf := (pbuf ?t)[length w := 0], pix := 0, pargs := pargs ?t @ [w]\<rparr>"
    have "Option.bind (parse_loop env (join (v # ws)) ?u) last_token =
        Some (if length (pargs ?u) + length (v # ws) \<le> MAXARGS then Inr (pargs ?u @ (v # ws)) else Inl ())"
      using True 3(3-8) w(3) by (intro 3(1)) auto
    moreover have "parse_loop env (join (w # v # ws)) s = parse_loop env (join (v # ws)) ?u"
      unfolding loop step e using True by (simp add: insert_arg_def)
    ultimately show ?thesis by simp
  next
    case False
    then show ?thesis unfolding loop step e using 3(8) by (simp add: insert_arg_def last_token_def)
  qed
qed simp

lemma word_ok_props: "word_ok w \<Longrightarrow> 0 \<notin> set w \<and> 92 \<notin> set w \<and> 36 \<notin> set w"
  by (auto simp: word_ok_def plain_def list_all_iff)

section \<open>Properties\<close>

text \<open>
  \<^verbatim>\<open>backslash\<close> stays inside the copy it made of the string, for every input, and leaves a
  string without backslashes as it is.
\<close>

theorem backslash_fits:
  "\<exists>out. backslash str = Some out \<and> length out \<le> length str \<and> (92 \<in> set str \<or> 0 \<in> set str \<or> out = str)"
proof -
  have "length (backslash_loop False str) \<le> length str" using length_backslash_loop [of False str] by simp
  moreover have "length (takeWhile P xs) \<le> length xs" for P and xs :: "byte list" by (rule length_takeWhile_le)
  moreover have "takeWhile (\<lambda>c. c \<noteq> 0) str = str" if "0 \<notin> set str" using that by (auto simp: takeWhile_eq_all_conv)
  ultimately show ?thesis
    using backslash_loop_id [of str] by (auto simp: backslash_def Let_def intro: order_trans)
qed

lemma parse_join:
  assumes "ws \<noteq> []" "list_all word_ok ws"
  shows "parse env (join ws) =
    (if length ws < MAXARGS then Some (0, ws) else if length ws = MAXARGS then None else Some (1, []))"
proof -
  have "\<forall>w \<in> set ws. 0 \<notin> set w \<and> 92 \<notin> set w" using assms(2) word_ok_props by (auto simp: list_all_iff)
  then have nz: "0 \<notin> set (join ws)" "92 \<notin> set (join ws)" using set_join [of ws] by auto
  then have "takeWhile (\<lambda>c. c \<noteq> 0) (join ws) = join ws" by (auto simp: takeWhile_eq_all_conv)
  with nz have b: "backslash (join ws) = Some (join ws)" by (simp add: backslash_def backslash_loop_id)
  have "parse_args env (join ws) = Some (if length ws \<le> MAXARGS then Inr ws else Inl ())"
    using parse_loop_words [of ws parser0 env] assms by (simp add: parse_args_def parser0_def list_all_iff)
  then show ?thesis using b by (auto simp: parse_def)
qed

text \<open>
  C8: a line of words without special characters, separated by single spaces, is split into
  exactly those words; more than twenty are refused with result 1, and with exactly twenty the
  terminating \<^verbatim>\<open>NULL\<close> is stored behind the end of \<^verbatim>\<open>args\<close>.
\<close>

theorem parse_splits_words:
  assumes "ws \<noteq> []" "list_all word_ok ws"
  shows "parse env (join ws) =
    (if length ws < MAXARGS then Some (0, ws) else if length ws = MAXARGS then None else Some (1, []))"
  using assms by (rule parse_join)

theorem parse_splits_words_witness:
  "parse (\<lambda>_. None) (join [[108, 111, 97, 100], [107]]) =
    (if length [[108, 111, 97, 100], [107 :: byte]] < MAXARGS then Some (0, [[108, 111, 97, 100], [107]])
     else if length [[108, 111, 97, 100], [107 :: byte]] = MAXARGS then None else Some (1, []))"
  by (rule parse_splits_words) (simp_all add: word_ok_def plain_def isspace_def isquote_def PARSE_BUFSIZE_def)

text \<open>
  C9: without variable expansion \<^verbatim>\<open>parse\<close> never leaves the element buffer, whatever the quoting and
  escaping: it fails cleanly or collects at most twenty arguments, each shorter than the buffer
  and free of NULs.
\<close>

theorem parse_without_variables_safe:
  assumes "36 \<notin> set copy"
  shows "\<exists>r. parse_args env copy = Some r \<and>
    (case r of Inl _ \<Rightarrow> True | Inr as \<Rightarrow> length as \<le> MAXARGS \<and> list_all (\<lambda>a. length a < PARSE_BUFSIZE \<and> 0 \<notin> set a) as)"
proof -
  have "parser_ok parser0" by (simp add: parser_ok_def parser0_def PARSE_BUFSIZE_def)
  moreover have "pstate parser0 \<noteq> S_VAR" by (simp add: parser0_def)
  ultimately obtain r where r: "parse_loop env copy parser0 = Some r" "\<And>s. r = Inr s \<Longrightarrow> parser_ok s"
    using parse_loop_ok [of parser0 copy env] assms by auto
  show ?thesis
  proof (cases r)
    case (Inl u)
    then show ?thesis using r(1) by (simp add: parse_args_def last_token_def)
  next
    case (Inr s)
    obtain e where e: "end_token s = Some e" "\<And>s'. e = Inr s' \<Longrightarrow> parser_ok s'"
      using end_token_ok [OF r(2) [OF Inr]] by blast
    have "parse_args env copy = Some (map_sum id pargs (if pix s \<noteq> 0 \<and> pstate s = S_STR then e else Inr s))"
      using r(1) Inr e(1) by (simp add: parse_args_def last_token_def)
    then show ?thesis using r(2) [OF Inr] e(2)
      by (cases e) (auto simp: parser_ok_def list_all_iff)
  qed
qed

theorem parse_without_variables_safe_witness:
  "\<exists>r. parse_args (\<lambda>_. None) [39, 32, 92, 34, 39] = Some r \<and>
    (case r of Inl _ \<Rightarrow> True | Inr as \<Rightarrow> length as \<le> MAXARGS \<and> list_all (\<lambda>a. length a < PARSE_BUFSIZE \<and> 0 \<notin> set a) as)"
  by (rule parse_without_variables_safe) simp


lemma parse_loop_var:
  assumes "pstate s = S_STR" "125 \<notin> set name" "env name = Some val" "expand val (s\<lparr>ptoken := 125, pstate := S_VAR\<rparr>) = Some s'"
  shows "parse_loop env (36 # 123 # name @ 125 # rest) s = parse_loop env rest (s'\<lparr>pstate := S_STR\<rparr>)"
proof -
  let ?v = "s\<lparr>ptoken := 125, pstate := S_VAR\<rparr>" and ?p = "name @ 125 # rest"
  have "parse_loop env (36 # 123 # ?p) s = parse_loop env ?p ?v"
    using assms(1) by (subst parse_loop.simps) (simp add: isquote_def isspace_def isdelim_def peek_def)
  moreover have "var_end 125 ?p = Some (length name)"
    using assms(2) by (auto simp: var_end_def takeWhile_append)
  moreover obtain c q where p: "?p = c # q" by (cases ?p) auto
  ultimately show ?thesis
    using assms(3,4) unfolding p [symmetric] by (simp add: p) (subst parse_loop.simps, simp add: p [symmetric])
qed

text \<open>
  expanding a variable of at least 512 bytes twice in one element overruns the element
  buffer: the index moves past its end and the terminator is stored there.
\<close>

theorem parse_expansion_overruns:
  assumes "env [118] = Some val" "512 \<le> length val"
  shows "parse_args env [36, 123, 118, 125, 36, 123, 118, 125] = None"
proof -
  define m where "m = min (length val) 1023"
  have m: "512 \<le> m" "m \<le> 1023" using assms(2) by (auto simp: m_def)
  obtain s1 where s1: "expand val (parser0\<lparr>ptoken := 125, pstate := S_VAR\<rparr>) = Some s1" "length (pbuf s1) = 1024" "pix s1 = m"
    by (simp add: expand_def parser0_def PARSE_BUFSIZE_def m_def)
  have "length (take (1023 - m) val @ replicate (1023 - m - length val) 0) = 1023 - m" by simp
  then obtain s2 where s2: "expand val (s1\<lparr>pstate := S_STR, ptoken := 125, pstate := S_VAR\<rparr>) = Some s2"
      "length (pbuf s2) = 1024" "pix s2 = 2 * m"
    using s1(2,3) m by (simp add: expand_def PARSE_BUFSIZE_def m_def [symmetric])
  have "parse_loop env (36 # 123 # [118] @ 125 # (36 # 123 # [118] @ 125 # [])) parser0 =
      parse_loop env (36 # 123 # [118] @ 125 # []) (s1\<lparr>pstate := S_STR\<rparr>)"
    using s1(1) assms(1) by (intro parse_loop_var) (simp_all add: parser0_def)
  also have "\<dots> = parse_loop env [] (s2\<lparr>pstate := S_STR\<rparr>)"
    using s2(1) assms(1) by (intro parse_loop_var) simp_all
  also have "\<dots> = Some (Inr (s2\<lparr>pstate := S_STR\<rparr>))" by (simp add: parse_loop.simps)
  finally show ?thesis using s2(2,3) m by (simp add: parse_args_def last_token_def end_token_def wr_def)
qed

theorem parse_expansion_overruns_witness:
  "parse_args (\<lambda>_. Some (replicate 600 97)) [36, 123, 118, 125, 36, 123, 118, 125] = None"
  by (rule parse_expansion_overruns [where val = "replicate 600 97"]) simp_all

text \<open>
  a dollar sign at the end of the line makes \<^verbatim>\<open>parse\<close> drop the element in front of it: the state
  is \<^verbatim>\<open>VAR\<close> when the loop ends, and only \<^verbatim>\<open>STR\<close> flushes the buffer.
\<close>

theorem parse_trailing_dollar_drops:
  assumes "word_ok w"
  shows "parse_args env (w @ [36]) = Some (Inr [])"
proof -
  have "parse_loop env (w @ [36]) parser0 = parse_loop env [36] (parser0\<lparr>pstate := S_STR, pbuf := put (pbuf parser0) 0 w, pix := length w\<rparr>)"
    using assms by (intro parse_loop_next_word) (simp_all add: parser0_def)
  then show ?thesis
    by (simp add: parse_args_def last_token_def parse_loop.simps isquote_def isspace_def isdelim_def peek_def parser0_def)
qed

theorem parse_trailing_dollar_drops_witness:
  "parse_args (\<lambda>_. None) ([97, 98] @ [36]) = Some (Inr [])"
  by (rule parse_trailing_dollar_drops) (simp add: word_ok_def plain_def isspace_def isquote_def PARSE_BUFSIZE_def)

end
