(* ===== verification/Stand.thy ===== *)
theory Stand
  imports Interp
begin

text \<open>
  The functions of the C library that the loader's commands use beyond plain string
  operations: \<^verbatim>\<open>strtol\<close>, the \<^verbatim>\<open>%d\<close> conversion of \<^verbatim>\<open>sprintf\<close>, and \<^verbatim>\<open>getopt\<close>, with their standard
  meaning.  They model no file of the repository; \<open>long\<close> has the 32 bits it has in the i386 loader.
  Strings are their characters without the terminator.
\<close>

section \<open>Numbers\<close>

definition digit_of :: "byte \<Rightarrow> nat" where
  "digit_of c =
     (if isdigit c then unat c - 48 else if islower c then unat c - 87
      else if 65 \<le> c \<and> c \<le> 90 then unat c - 55 else 99)"

definition clamp_long :: "int \<Rightarrow> int" where
  "clamp_long x = max (- (2 ^ 31)) (min (2 ^ 31 - 1) x)"

text \<open>The value and the number of characters consumed (the end pointer), 0 when there is no number.\<close>

definition strtol :: "nat \<Rightarrow> byte list \<Rightarrow> int \<times> nat" where
  "strtol base s =
     (let ws = length (takeWhile isspace s);
          s1 = drop ws s;
          sg = (if peek s1 0 \<in> {43, 45} then 1 else 0);
          s2 = drop sg s1;
          hexp = ((base = 0 \<or> base = 16) \<and> peek s2 0 = 48 \<and> peek s2 1 \<in> {120, 88} \<and> isxdigit (peek s2 2));
          pre = (if hexp then 2 else 0);
          b = (if base \<noteq> 0 then base else if hexp then 16 else if peek s2 0 = 48 then 8 else 10);
          ds = takeWhile (\<lambda>c. digit_of c < b) (drop pre s2);
          v = int (foldl (\<lambda>n c. b * n + digit_of c) 0 ds)
      in if ds = [] then (0, 0)
         else (clamp_long (if peek s1 0 = 45 then - v else v), ws + sg + pre + length ds))"

text \<open>The conversion \<open>%d\<close>.\<close>

definition fmt_d :: "int \<Rightarrow> byte list" where
  "fmt_d n = (if n < 0 then [45] else []) @ rev (dec_digits (nat \<bar>n\<bar>))"

lemma dec_digit_byte:
  assumes "k < 10"
  shows "isdigit (48 + word_of_nat k)" "digit_of (48 + word_of_nat k) = k" "digit_val (48 + word_of_nat k) = k"
proof -
  have "unat (48 + word_of_nat k :: byte) = 48 + k"
    using assms by (simp add: unat_word_ariths unat_of_nat)
  then show "isdigit (48 + word_of_nat k)" "digit_of (48 + word_of_nat k) = k"
    using assms by (auto simp: isdigit_def digit_of_def word_le_nat_alt)
  show "digit_val (48 + word_of_nat k) = k" using assms by (rule digit_val_dec)
qed

lemma set_dec_digits: "c \<in> set (dec_digits u) \<Longrightarrow> isdigit c \<and> digit_of c = digit_val c"
proof (induction u rule: dec_digits.induct)
  case (1 u)
  have "u mod 10 < 10" by simp
  note d = dec_digit_byte [OF this]
  from "1.prems" consider "c = 48 + word_of_nat (u mod 10)" | "u div 10 \<noteq> 0" "c \<in> set (dec_digits (u div 10))"
    by (subst (asm) dec_digits.simps) (auto split: if_splits)
  then show ?case using d "1.IH" by cases auto
qed

lemma dec_digits_ne [simp]: "dec_digits u \<noteq> []"
  by (subst dec_digits.simps) simp

lemma isdigit_not_special: "isdigit c \<Longrightarrow> \<not> isspace c \<and> c \<noteq> 43 \<and> c \<noteq> 45 \<and> c \<noteq> 0"
  by (auto simp: isdigit_def isspace_def word_le_nat_alt)

lemma digit_of_lt10: "digit_of c < 10 \<longleftrightarrow> isdigit c"
  by (auto simp: digit_of_def isdigit_def islower_def word_le_nat_alt)

lemma foldl_digits:
  "\<forall>c \<in> set s. digit_of c = digit_val c \<Longrightarrow>
   foldl (\<lambda>n c. b * n + digit_of c) a s = foldl (\<lambda>n c. b * n + digit_val c) a s"
  by (induction s arbitrary: a) auto

lemma takeWhile_append_stop:
  "\<forall>x \<in> set xs. P x \<Longrightarrow> ys = [] \<or> \<not> P (hd ys) \<Longrightarrow> takeWhile P (xs @ ys) = xs"
  by (cases ys) (auto simp: takeWhile_append2)

text \<open>Reading back what \<open>%d\<close> printed.\<close>

lemma strtol_fmt_d:
  assumes "- (2 ^ 31) \<le> n" "n < 2 ^ 31" "rest = [] \<or> \<not> isdigit (hd rest)"
  shows "strtol 10 (fmt_d n @ rest) = (n, length (fmt_d n))"
proof -
  let ?ds = "rev (dec_digits (nat \<bar>n\<bar>))"
  have ds: "\<forall>c \<in> set ?ds. isdigit c \<and> digit_of c = digit_val c" using set_dec_digits by auto
  obtain d ds' where Cons: "?ds = d # ds'" by (cases ?ds) auto
  then have d: "isdigit d" using ds by auto
  have tw: "takeWhile (\<lambda>c. digit_of c < 10) (?ds @ rest) = ?ds"
    unfolding digit_of_lt10 by (rule takeWhile_append_stop) (use ds assms(3) in blast)+
  have val: "foldl (\<lambda>n c. 10 * n + digit_of c) 0 ?ds = nat \<bar>n\<bar>"
    using foldl_digits [of ?ds 10 0] ds num_val_dec [of "nat \<bar>n\<bar>"] by (simp add: num_val_def)
  have clamp: "clamp_long n = n" using assms by (simp add: clamp_long_def)
  show ?thesis
  proof (cases "n < 0")
    case True
    then show ?thesis using tw val clamp
      by (simp add: strtol_def fmt_d_def Let_def isspace_def peek_def)
  next
    case False
    have "peek (?ds @ rest) 0 = d" "takeWhile isspace (?ds @ rest) = []"
      using Cons d by (simp_all add: peek_def isdigit_not_special)
    then show ?thesis using False tw val clamp d
      by (simp add: strtol_def fmt_d_def Let_def isdigit_not_special)
  qed
qed

section \<open>Options\<close>

text \<open>
  The successive results of \<open>getopt\<close> up to the first \<open>'?'\<close>, each with its \<open>optarg\<close>, and the operands
  that remain.  An option string is the list of letters with whether they take an argument.
\<close>

function getopt_args :: "(byte \<times> bool) list \<Rightarrow> byte list list \<Rightarrow> (byte \<times> byte list) list \<times> byte list list"
  and getopt_chars :: "(byte \<times> bool) list \<Rightarrow> byte list \<Rightarrow> byte list list \<Rightarrow> (byte \<times> byte list) list \<times> byte list list" where
  "getopt_args opts [] = ([], [])"
| "getopt_args opts (a # args) =
     (if a = [] \<or> hd a \<noteq> 45 \<or> a = [45] then ([], a # args)
      else if a = [45, 45] then ([], args)
      else getopt_chars opts (tl a) args)"
| "getopt_chars opts [] args = getopt_args opts args"
| "getopt_chars opts (c # cs) args =
     (case map_of opts c of
        None \<Rightarrow> ([(63, [])], args)
      | Some False \<Rightarrow> apfst ((#) (c, [])) (getopt_chars opts cs args)
      | Some True \<Rightarrow>
          if cs \<noteq> [] then apfst ((#) (c, cs)) (getopt_args opts args)
          else (case args of
                  [] \<Rightarrow> ([(63, [])], [])
                | x # args' \<Rightarrow> apfst ((#) (c, x)) (getopt_args opts args')))"
  by pat_completeness auto
termination
  by (relation "measure (case_sum (\<lambda>(opts, args). 2 * sum_list (map (\<lambda>a. Suc (length a)) args))
                  (\<lambda>(opts, cs, args). Suc (2 * length cs + 2 * sum_list (map (\<lambda>a. Suc (length a)) args))))")
     auto

lemma getopt_operands: "a = [] \<or> hd a \<noteq> 45 \<Longrightarrow> getopt_args opts (a # args) = ([], a # args)"
  by auto

end
