(* ===== verification/Module.thy ===== *)
theory Module
  imports Misc Stand
begin

text \<open>
  The file and module dispatcher of the loader, \<^verbatim>\<open>boot/common/module.c\<close>: the list of preloaded
  files with their modules and metadata, the search path with its \<^verbatim>\<open>linker.hints\<close> files, and the
  commands that load and unload.

  A chain linked by \<open>f_next\<close>, \<open>m_next\<close>, \<open>md_next\<close> or \<open>d_link\<close> is the list of its nodes, and a pointer into
  the metadata chain is the rest of the chain from that node.  The back pointer \<open>m_fp\<close> is not kept.
  Strings are their characters; blocks that the code fills piece by piece are byte lists with
  checked stores.  \<^term>\<open>None\<close> as the result of an operation is a fault (an access outside an object,
  a \<open>NULL\<close> dereference) or a loop that does not end.  Messages to the console are not kept, those in
  \<open>command_errbuf\<close> are.

  The C library and the machine are the record \<open>platform\<close>, so that every theorem holds for any of
  them: \<open>malloc\<close>, \<open>stat\<close> (regular file and size), the bytes \<open>open\<close> and \<open>read\<close> deliver, the results of
  successive \<open>arch_readin\<close> calls on a file, how much of a name \<open>arch_getdev\<close> takes for a device,
  \<open>arch_loadaddr\<close>, and the loaders \<open>file_formats\<close>: given the files that are loaded, the name and the address, they
  return an error or the file they made, and whether they stored the name in \<^verbatim>\<open>kernelname\<close>.
\<close>

section \<open>Data\<close>

record file_metadata =
  md_type :: u16
  md_data :: "byte list"

record kernel_module =
  m_name :: "byte list"
  m_version :: int

record preloaded_file =
  f_name :: "byte list"
  f_type :: "byte list"
  f_args :: "byte list option"
  f_metadata :: "file_metadata list"
  f_loader :: int
  f_addr :: u64
  f_size :: u64
  f_modules :: "kernel_module list"

record mod_depend =
  md_ver_minimum :: int
  md_ver_preferred :: int
  md_ver_maximum :: int

text \<open>The two bits of \<open>d_flags\<close> are two fields, the size \<open>d_hintsz\<close> is the length of the hints.\<close>

record moduledir =
  d_path :: "byte list"
  d_hints :: "byte list option"
  d_removed :: bool
  d_nohints :: bool

record platform =
  p_malloc :: allocator
  p_stat :: "byte list \<Rightarrow> (bool \<times> int) option"
  p_open :: "byte list \<Rightarrow> byte list option"
  p_readin :: "byte list \<Rightarrow> int list"
  p_getdev :: "byte list \<Rightarrow> nat"
  p_loadaddr :: "(byte list \<Rightarrow> u64 \<Rightarrow> u64) option"
  p_formats :: "(preloaded_file list \<Rightarrow> byte list \<Rightarrow> u64 \<Rightarrow> (int + preloaded_file) \<times> bool) list"

text \<open>The messages left in \<open>command_errbuf\<close> or \<open>command_errmsg\<close>.\<close>

datatype load_msg =
    No_message | No_filename | Invalid_type | Before_kernel | Geli_usage
  | Cant_find "byte list option" | Cant_open "byte list" | Cant_load "byte list" | Dont_know "byte list"
  | Error_reading "byte list" | Bad_key_index "byte list"
  | KLD_already "byte list" | Module_already "byte list" | Wrong_version "byte list"
  | Cant_boot "byte list" | No_bootable_kernel | Bad_delay "byte list" | Too_many_arguments | No_valid_kernel

record lstate =
  preloaded_files :: "preloaded_file list"
  loadaddr :: u64
  moduledir_list :: "moduledir list"
  environ :: "string \<Rightarrow> byte list option"
  command_errbuf :: load_msg

abbreviation complain :: "load_msg \<Rightarrow> lstate \<Rightarrow> lstate" where
  "complain msg st \<equiv> st\<lparr>command_errbuf := msg\<rparr>"

abbreviation bytes_of :: "string \<Rightarrow> byte list" where
  "bytes_of s \<equiv> map of_char s"

definition EFTYPE :: int where "EFTYPE = 79"
definition ENOENT :: int where "ENOENT = 2"
definition EEXIST :: int where "EEXIST = 17"
definition ENOMEM :: int where "ENOMEM = 12"
definition CMD_OK :: int where "CMD_OK = 0"
definition CMD_ERROR :: int where "CMD_ERROR = 1"
definition MODINFOMD_DEPLIST :: int where "MODINFOMD_DEPLIST = 0xc001"
definition MDT_VERSION :: u32 where "MDT_VERSION = 3"
definition LINKER_HINTS_VERSION :: u32 where "LINKER_HINTS_VERSION = 1"

lemmas errno_defs = EFTYPE_def ENOENT_def EEXIST_def ENOMEM_def CMD_OK_def CMD_ERROR_def

definition kld_ext_list :: "byte list list" where
  "kld_ext_list = [bytes_of ''.ko'', [], bytes_of ''.debug'']"

definition default_searchpath :: "byte list" where
  "default_searchpath = bytes_of ''/boot/kernel;/boot/modules''"

section \<open>Metadata and modules of a file\<close>

text \<open>The structure without \<open>md_data\<close> has 31 bytes (64-bit layout).\<close>

definition file_addmetadata ::
  "allocator \<Rightarrow> preloaded_file \<Rightarrow> int \<Rightarrow> byte list \<Rightarrow> preloaded_file option" where
  "file_addmetadata alloc fp type p = do {
     b \<leftarrow> alloc (31 + length p);
     Some (fp\<lparr>f_metadata := \<lparr>md_type = word_of_int type, md_data = p\<rparr> # f_metadata fp\<rparr>)
   }"

definition find_type :: "int \<Rightarrow> file_metadata list \<Rightarrow> file_metadata list" where
  "find_type type = dropWhile (\<lambda>md. uint (md_type md) \<noteq> type)"

definition file_findmetadata :: "preloaded_file \<Rightarrow> int \<Rightarrow> file_metadata list" where
  "file_findmetadata fp type = find_type type (f_metadata fp)"

definition metadata_next :: "file_metadata list \<Rightarrow> int \<Rightarrow> file_metadata list" where
  "metadata_next md type = (case md of [] \<Rightarrow> [] | _ # rest \<Rightarrow> find_type type rest)"

fun findmodule_loop ::
  "kernel_module list \<Rightarrow> byte list \<Rightarrow> mod_depend option \<Rightarrow> kernel_module option \<Rightarrow> int \<Rightarrow> kernel_module option" where
  "findmodule_loop [] modname verinfo best bestver = best"
| "findmodule_loop (mp # mps) modname verinfo best bestver =
     (if modname = m_name mp then
        (case verinfo of
           None \<Rightarrow> Some mp
         | Some v \<Rightarrow>
             if m_version mp = md_ver_preferred v then Some mp
             else if md_ver_minimum v \<le> m_version mp \<and> m_version mp \<le> md_ver_maximum v \<and> bestver < m_version mp
             then findmodule_loop mps modname verinfo (Some mp) (m_version mp)
             else findmodule_loop mps modname verinfo best bestver)
      else findmodule_loop mps modname verinfo best bestver)"

definition file_findmodule_in ::
  "preloaded_file \<Rightarrow> byte list \<Rightarrow> mod_depend option \<Rightarrow> kernel_module option" where
  "file_findmodule_in fp modname verinfo = findmodule_loop (f_modules fp) modname verinfo None 0"

fun file_findmodule ::
  "preloaded_file list \<Rightarrow> byte list \<Rightarrow> mod_depend option \<Rightarrow> kernel_module option" where
  "file_findmodule [] modname verinfo = None"
| "file_findmodule (fp # fps) modname verinfo =
     (case file_findmodule_in fp modname verinfo of
        Some mp \<Rightarrow> Some mp
      | None \<Rightarrow> file_findmodule fps modname verinfo)"

definition file_addmodule ::
  "allocator \<Rightarrow> preloaded_file \<Rightarrow> byte list \<Rightarrow> int \<Rightarrow> int \<times> preloaded_file" where
  "file_addmodule alloc fp modname version =
     (let mdepend = \<lparr>md_ver_minimum = 0, md_ver_preferred = version, md_ver_maximum = 0\<rparr> in
      if file_findmodule_in fp modname (Some mdepend) \<noteq> None then (EEXIST, fp)
      else if alloc 32 = None then (ENOMEM, fp)
      else (0, fp\<lparr>f_modules := \<lparr>m_name = modname, m_version = version\<rparr> # f_modules fp\<rparr>))"

text \<open>\<open>NULL\<close> is a wildcard for the name and for the type.\<close>

fun file_findfile :: "preloaded_file list \<Rightarrow> byte list option \<Rightarrow> byte list option \<Rightarrow> preloaded_file option" where
  "file_findfile [] name type = None"
| "file_findfile (fp # fps) name type =
     (if (name = None \<or> name = Some (f_name fp)) \<and> (type = None \<or> type = Some (f_type fp))
      then Some fp else file_findfile fps name type)"

definition file_insert_tail :: "preloaded_file \<Rightarrow> preloaded_file list \<Rightarrow> preloaded_file list" where
  "file_insert_tail fp fps = fps @ [fp]"

section \<open>Looking for a file\<close>

fun lookup_exts :: "platform \<Rightarrow> byte list \<Rightarrow> nat \<Rightarrow> byte list list \<Rightarrow> byte list option option" where
  "lookup_exts P result cp [] = Some None"
| "lookup_exts P result cp (ext # exts) = do {
     result' \<leftarrow> blk_strcpy result cp ext;
     name \<leftarrow> cstr result' 0;
     case p_stat P name of
       Some (True, sz) \<Rightarrow> Some (Some name)
     | _ \<Rightarrow> lookup_exts P result' cp exts
   }"

definition add_slash :: "byte list \<Rightarrow> nat \<Rightarrow> (byte list \<times> nat) option" where
  "add_slash result pathlen =
     (if pathlen = 0 then Some (result, pathlen)
      else do {
        c \<leftarrow> rd result (pathlen - 1);
        if c = 47 then Some (result, pathlen)
        else do { result' \<leftarrow> wr result pathlen 47; Some (result', pathlen + 1) }
      })"

text \<open>The outer option is a fault, the inner one the returned path or \<open>NULL\<close>.\<close>

definition file_lookup ::
  "platform \<Rightarrow> byte list \<Rightarrow> byte list \<Rightarrow> nat \<Rightarrow> byte list list option \<Rightarrow> byte list option option" where
  "file_lookup P path name namelen extlist =
     (let exts = (case extlist of None \<Rightarrow> [[]] | Some l \<Rightarrow> l);
          extlen = foldl (\<lambda>n ext. if length ext > n then length ext else n) 0 exts in
      case p_malloc P (length path + namelen + extlen + 2) of
        None \<Rightarrow> Some None
      | Some result \<Rightarrow> do {
          result1 \<leftarrow> store result 0 path;
          (result2, pathlen) \<leftarrow> add_slash result1 (length path);
          nm \<leftarrow> slice name 0 namelen;
          result3 \<leftarrow> store result2 pathlen nm;
          lookup_exts P result3 (pathlen + namelen) exts
        })"

definition file_havepath :: "platform \<Rightarrow> byte list \<Rightarrow> bool" where
  "file_havepath P name \<longleftrightarrow> p_getdev P name \<noteq> 0 \<or> 47 \<in> set name"

section \<open>The search path\<close>

function strip_slashes :: "byte list \<Rightarrow> byte list" where
  "strip_slashes cp = (if length cp > 1 \<and> last cp = 47 then strip_slashes (butlast cp) else cp)"
  by pat_completeness auto
termination by (relation "measure length") auto

declare strip_slashes.simps [simp del]

text \<open>The inner \<open>STAILQ_FOREACH\<close>: clear \<open>MDIR_REMOVED\<close> on the directory, if it is in the list.\<close>

fun keep_dir :: "byte list \<Rightarrow> moduledir list \<Rightarrow> moduledir list option" where
  "keep_dir cp [] = None"
| "keep_dir cp (mdp # mdps) =
     (if d_path mdp = cp then Some (mdp\<lparr>d_removed := False\<rparr> # mdps)
      else map_option ((#) mdp) (keep_dir cp mdps))"

definition new_dir :: "byte list \<Rightarrow> moduledir" where
  "new_dir cp = \<lparr>d_path = cp, d_hints = None, d_removed = False, d_nohints = False\<rparr>"

definition place_dir :: "allocator \<Rightarrow> byte list \<Rightarrow> moduledir list \<Rightarrow> moduledir list option" where
  "place_dir alloc cp mdps =
     (case keep_dir cp mdps of
        Some l \<Rightarrow> Some l
      | None \<Rightarrow> if alloc (32 + length cp + 1) = None then None else Some (mdps @ [new_dir cp]))"

text \<open>The loop over the components; \<^term>\<open>False\<close> when a failed \<open>malloc\<close> ended it early.\<close>

function rebuild_loop :: "allocator \<Rightarrow> byte list \<Rightarrow> moduledir list \<Rightarrow> moduledir list \<times> bool" where
  "rebuild_loop alloc ep mdps =
     (if ep = [] then (mdps, True)
      else (case place_dir alloc (strip_slashes (takeWhile (\<lambda>c. c \<noteq> 59) ep)) mdps of
              None \<Rightarrow> (mdps, False)
            | Some l \<Rightarrow>
                let ep' = dropWhile (\<lambda>c. c \<noteq> 59) ep in
                if ep' = [] then (l, True) else rebuild_loop alloc (tl ep') l))"
  by pat_completeness auto
termination
  by (relation "measure (\<lambda>(alloc, ep, mdps). length ep)") (auto simp: length_tl_dropWhile)

declare rebuild_loop.simps [simp del]

definition moduledir_rebuild :: "platform \<Rightarrow> lstate \<Rightarrow> lstate" where
  "moduledir_rebuild P st =
     (let path = (case environ st ''module_path'' of None \<Rightarrow> default_searchpath | Some p \<Rightarrow> p);
          marked = map (\<lambda>mdp. mdp\<lparr>d_removed := True\<rparr>) (moduledir_list st);
          (mdps, done) = rebuild_loop (p_malloc P) path marked
      in st\<lparr>moduledir_list := (if done then filter (\<lambda>mdp. \<not> d_removed mdp) mdps else mdps)\<rparr>)"

fun search_dirs :: "platform \<Rightarrow> byte list \<Rightarrow> byte list list option \<Rightarrow> moduledir list \<Rightarrow> byte list option option" where
  "search_dirs P name extlist [] = Some None"
| "search_dirs P name extlist (mdp # mdps) = do {
     result \<leftarrow> file_lookup P (d_path mdp) name (length name) extlist;
     case result of
       Some r \<Rightarrow> Some (Some r)
     | None \<Rightarrow> search_dirs P name extlist mdps
   }"

definition file_search ::
  "platform \<Rightarrow> byte list option \<Rightarrow> byte list list option \<Rightarrow> lstate \<Rightarrow> (byte list option \<times> lstate) option" where
  "file_search P name0 extlist st =
     (case name0 of
        None \<Rightarrow> Some (None, st)
      | Some name \<Rightarrow>
          if name = [] then Some (Some name, st)
          else if file_havepath P name then
            Some (if p_stat P name \<noteq> None then Some name else None, st)
          else do {
            let st1 = moduledir_rebuild P st;
            result \<leftarrow> search_dirs P name extlist (moduledir_list st1);
            Some (result, st1)
          })"

section \<open>Hints\<close>

definition moduledir_fullpath :: "allocator \<Rightarrow> moduledir \<Rightarrow> byte list \<Rightarrow> byte list option" where
  "moduledir_fullpath alloc mdp fname = do {
     cp \<leftarrow> alloc (length (d_path mdp) + length fname + 2);
     cp1 \<leftarrow> blk_strcpy cp 0 (d_path mdp);
     cp2 \<leftarrow> blk_strcat cp1 [47];
     cp3 \<leftarrow> blk_strcat cp2 fname;
     cstr cp3 0
   }"

definition moduledir_readhints :: "platform \<Rightarrow> moduledir \<Rightarrow> moduledir option" where
  "moduledir_readhints P mdp =
     (if d_hints mdp \<noteq> None \<or> d_nohints mdp then Some mdp
      else do {
        path \<leftarrow> moduledir_fullpath (p_malloc P) mdp (bytes_of ''linker.hints'');
        Some (case (p_stat P path, p_open P path) of
          (Some (reg, sz), Some contents) \<Rightarrow>
            if sz < 8 \<or> sz > 100 * 1024 then mdp\<lparr>d_nohints := True\<rparr>
            else if le_field contents 0 4 \<noteq> Some LINKER_HINTS_VERSION then mdp\<lparr>d_nohints := True\<rparr>
            else if p_malloc P (nat (sz - 4)) = None then mdp\<lparr>d_nohints := True\<rparr>
            else (case slice contents 4 (nat (sz - 4)) of
                    None \<Rightarrow> mdp\<lparr>d_nohints := True\<rparr>
                  | Some hints \<Rightarrow> mdp\<lparr>d_hints := Some hints\<rparr>)
        | _ \<Rightarrow> mdp\<lparr>d_nohints := True\<rparr>)
      })"

text \<open>What one record contributes: the position and length of the file name it gives.\<close>

datatype hint = Skip | Found nat nat | Better int nat nat

definition INT_ALIGN :: "nat \<Rightarrow> nat" where
  "INT_ALIGN p = (p + 3) div 4 * 4"

definition hint_version :: "byte list \<Rightarrow> byte list \<Rightarrow> mod_depend option \<Rightarrow> int \<Rightarrow> nat \<Rightarrow> hint option" where
  "hint_version hints modname verinfo bestver cp = do {
     clen \<leftarrow> rd hints cp;
     if unat clen \<noteq> length modname then Some Skip
     else do {
       name \<leftarrow> slice hints (cp + 1) (unat clen);
       if name \<noteq> modname then Some Skip
       else do {
         let cp1 = INT_ALIGN (cp + 1 + unat clen);
         w \<leftarrow> (le_field hints cp1 4 :: u32 option);
         let ival = sint w;
         flen \<leftarrow> rd hints (cp1 + 4);
         case verinfo of
           None \<Rightarrow> Some (Found (cp1 + 5) (unat flen))
         | Some v \<Rightarrow>
             if ival = md_ver_preferred v then Some (Found (cp1 + 5) (unat flen))
             else if md_ver_minimum v \<le> ival \<and> ival \<le> md_ver_maximum v \<and> bestver < ival
             then Some (Better ival (cp1 + 5) (unat flen))
             else Some Skip
       }
     }
   }"

text \<open>
  The scan over the records.  Record lengths come from the file unchecked, so \<open>recptr\<close> may leave the
  buffer or stand still; both are \<^term>\<open>None\<close>.  The result is the name found and the best candidate.
\<close>

partial_function (option) hints_loop ::
  "byte list \<Rightarrow> byte list \<Rightarrow> mod_depend option \<Rightarrow> int \<Rightarrow> (nat \<times> nat) option \<Rightarrow> int \<Rightarrow>
   ((nat \<times> nat) option \<times> (nat \<times> nat) option \<times> int) option" where
  "hints_loop hints modname verinfo recptr best bestver =
     (if recptr \<ge> int (length hints) then Some (None, best, bestver)
      else if recptr < 0 then None
      else do {
        reclen \<leftarrow> (le_field hints (nat recptr) 4 :: u32 option);
        ival \<leftarrow> (le_field hints (nat recptr + 4) 4 :: u32 option);
        hit \<leftarrow> (if ival = MDT_VERSION then hint_version hints modname verinfo bestver (nat recptr + 8) else Some Skip);
        let next = recptr + sint reclen + 4;
        case hit of
          Skip \<Rightarrow> hints_loop hints modname verinfo next best bestver
        | Found p n \<Rightarrow> Some (Some (p, n), best, bestver)
        | Better v p n \<Rightarrow> hints_loop hints modname verinfo next (Some (p, n)) v
      })"

definition mod_search_hints ::
  "platform \<Rightarrow> byte list \<Rightarrow> mod_depend option \<Rightarrow> moduledir \<Rightarrow> (byte list option \<times> moduledir) option" where
  "mod_search_hints P modname verinfo mdp0 = do {
     mdp \<leftarrow> moduledir_readhints P mdp0;
     (found, bestver, result) \<leftarrow>
       (case d_hints mdp of
          None \<Rightarrow> Some (False, 0, None)
        | Some hints \<Rightarrow> do {
            (found, best, bestver) \<leftarrow> hints_loop hints modname verinfo 0 None 0;
            result \<leftarrow> (case (found, best) of
                 (Some (p, n), _) \<Rightarrow> file_lookup P (d_path mdp) (drop p hints) n None
               | (None, Some (p, n)) \<Rightarrow> file_lookup P (d_path mdp) (drop p hints) n None
               | (None, None) \<Rightarrow> Some None);
            Some (found \<noteq> None, bestver, result)
          });
     result' \<leftarrow> (if \<not> found \<and> bestver = 0 \<and> result = None
       then file_lookup P (d_path mdp) modname (length modname) (Some kld_ext_list) else Some result);
     Some (result', mdp)
   }"

fun search_hints ::
  "platform \<Rightarrow> byte list \<Rightarrow> mod_depend option \<Rightarrow> moduledir list \<Rightarrow> (byte list option \<times> moduledir list) option" where
  "search_hints P name verinfo [] = Some (None, [])"
| "search_hints P name verinfo (mdp # mdps) = do {
     (result, mdp') \<leftarrow> mod_search_hints P name verinfo mdp;
     case result of
       Some r \<Rightarrow> Some (Some r, mdp' # mdps)
     | None \<Rightarrow> map_option (apsnd ((#) mdp')) (search_hints P name verinfo mdps)
   }"

definition mod_searchmodule ::
  "platform \<Rightarrow> byte list \<Rightarrow> mod_depend option \<Rightarrow> lstate \<Rightarrow> (byte list option \<times> lstate) option" where
  "mod_searchmodule P name verinfo st = do {
     let st1 = moduledir_rebuild P st;
     (result, mdps) \<leftarrow> search_hints P name verinfo (moduledir_list st1);
     Some (result, st1\<lparr>moduledir_list := mdps\<rparr>)
   }"

section \<open>Loading\<close>

text \<open>\<open>file_formats[i]->l_load\<close> in turn; a loader reports success exactly when it made a file.\<close>

fun load_formats ::
  "(preloaded_file list \<Rightarrow> byte list \<Rightarrow> u64 \<Rightarrow> (int + preloaded_file) \<times> bool) list \<Rightarrow> int \<Rightarrow> preloaded_file list \<Rightarrow>
   byte list \<Rightarrow> u64 \<Rightarrow> (int + preloaded_file) \<times> bool" where
  "load_formats [] i fps filename dest = (Inl EFTYPE, False)"
| "load_formats (l_load # fmts) i fps filename dest =
     (case l_load fps filename dest of
        (Inr fp, kn) \<Rightarrow> (Inr (fp\<lparr>f_loader := i\<rparr>), kn)
      | (Inl error, kn) \<Rightarrow>
          if error = EFTYPE then apsnd ((\<or>) kn) (load_formats fmts (i + 1) fps filename dest) else (Inl error, kn))"

definition arch_addr :: "platform \<Rightarrow> byte list \<Rightarrow> u64 \<Rightarrow> u64" where
  "arch_addr P name dest = (case p_loadaddr P of None \<Rightarrow> dest | Some f \<Rightarrow> f name dest)"

definition file_load :: "platform \<Rightarrow> byte list \<Rightarrow> u64 \<Rightarrow> lstate \<Rightarrow> (int + preloaded_file) \<times> lstate" where
  "file_load P filename dest st =
     (let (r, kn) = load_formats (p_formats P) 0 (preloaded_files st) filename (arch_addr P filename dest);
          st1 = (if kn then st\<lparr>environ := (environ st)(''kernelname'' := Some filename)\<rparr> else st)
      in case r of
           Inr fp \<Rightarrow> (Inr fp, st1)
         | Inl error \<Rightarrow> (Inl error, if error \<noteq> EFTYPE then complain (Cant_load filename) st1 else st1))"

text \<open>A dependency record: the versions, then the name of the module.\<close>

definition depend_of :: "byte list \<Rightarrow> (mod_depend \<times> byte list) option" where
  "depend_of data = do {
     mn \<leftarrow> (le_field data 0 4 :: u32 option);
     pf \<leftarrow> (le_field data 4 4 :: u32 option);
     mx \<leftarrow> (le_field data 8 4 :: u32 option);
     dmodname \<leftarrow> cstr data 12;
     Some (\<lparr>md_ver_minimum = sint mn, md_ver_preferred = sint pf, md_ver_maximum = sint mx\<rparr>, dmodname)
   }"

definition args_of :: "allocator \<Rightarrow> byte list list \<Rightarrow> byte list option option" where
  "args_of alloc argv = do {
     cp \<leftarrow> unargv alloc argv;
     case cp of None \<Rightarrow> Some None | Some b \<Rightarrow> map_option Some (cstr b 0)
   }"

text \<open>
  \<open>mod_loadkld\<close>, \<open>file_load_dependencies\<close> and \<open>mod_load\<close> call each other.  The first argument bounds the
  nesting; a call that exceeds it has no result.  \<open>base\<close> is the position of \<open>base_file\<close> in the list.
  When a dependency fails, \<open>file_load_dependencies\<close> frees the files from \<open>base_file\<close> on and \<open>mod_loadkld\<close>
  unlinks them in its next statement through \<open>last_file\<close>, which is \<open>NULL\<close> when \<open>base_file\<close> is the first
  file; the model drops the files from the list where they are freed.
\<close>

function mod_loadkld ::
  "platform \<Rightarrow> nat \<Rightarrow> byte list option \<Rightarrow> byte list list \<Rightarrow> lstate \<Rightarrow> (int \<times> lstate) option"
and mod_load ::
  "platform \<Rightarrow> nat \<Rightarrow> byte list \<Rightarrow> mod_depend option \<Rightarrow> byte list list \<Rightarrow> lstate \<Rightarrow> (int \<times> lstate) option"
and deps_loop ::
  "platform \<Rightarrow> nat \<Rightarrow> file_metadata list \<Rightarrow> lstate \<Rightarrow> (int \<times> lstate) option"
and file_load_dependencies ::
  "platform \<Rightarrow> nat \<Rightarrow> nat \<Rightarrow> lstate \<Rightarrow> (int \<times> lstate) option" where
  "mod_loadkld P 0 kldname argv st = None"
| "mod_loadkld P (Suc fuel) kldname argv st = do {
     (fname, st1) \<leftarrow> file_search P kldname (Some kld_ext_list) st;
     case fname of
       None \<Rightarrow> Some (ENOENT, complain (Cant_find kldname) st1)
     | Some filename \<Rightarrow>
         if file_findfile (preloaded_files st1) (Some filename) None \<noteq> None
         then Some (0, complain (KLD_already filename) st1)
         else (case file_load P filename (loadaddr st1) st1 of
            (Inl err, st2) \<Rightarrow>
              Some (err, if err = EFTYPE then complain (Dont_know filename) st2 else st2)
          | (Inr fp, st2) \<Rightarrow> do {
              fargs \<leftarrow> args_of (p_malloc P) argv;
              let base = length (preloaded_files st2);
              (err, st3) \<leftarrow> file_load_dependencies P fuel base
                (st2\<lparr>loadaddr := f_addr fp + f_size fp,
                     preloaded_files := file_insert_tail (fp\<lparr>f_args := fargs\<rparr>) (preloaded_files st2)\<rparr>);
              if err = 0 then Some (0, st3)
              else if base = 0 then None
              else do {
                last_file \<leftarrow> rd (preloaded_files st3) (base - 1);
                Some (ENOENT, st3\<lparr>preloaded_files := take base (preloaded_files st3),
                                  loadaddr := f_addr last_file + f_size last_file\<rparr>)
              }
            })
   }"
| "mod_load P fuel modname verinfo argv st =
     (if file_havepath P modname then mod_loadkld P fuel (Some modname) argv st
      else (case file_findmodule (preloaded_files st) modname verinfo of
          Some mp \<Rightarrow> Some (0, complain (Module_already (m_name mp)) st)
        | None \<Rightarrow> do {
            (fname, st1) \<leftarrow> mod_searchmodule P modname verinfo st;
            case fname of
              None \<Rightarrow> Some (ENOENT, complain (Cant_find (Some modname)) st1)
            | Some filename \<Rightarrow> mod_loadkld P fuel (Some filename) argv st1
          }))"
| "deps_loop P fuel [] st = Some (0, st)"
| "deps_loop P fuel (md # mds) st = do {
     (verinfo, dmodname) \<leftarrow> depend_of (md_data md);
     if file_findmodule (preloaded_files st) dmodname (Some verinfo) \<noteq> None
     then deps_loop P fuel (metadata_next (md # mds) MODINFOMD_DEPLIST) st
     else do {
       (error, st1) \<leftarrow> mod_load P fuel dmodname (Some verinfo) [] st;
       if error \<noteq> 0 then Some (error, st1)
       else if file_findmodule (preloaded_files st1) dmodname (Some verinfo) = None
       then Some (ENOENT, complain (Wrong_version dmodname) st1)
       else deps_loop P fuel (metadata_next (md # mds) MODINFOMD_DEPLIST) st1
     }
   }"
| "file_load_dependencies P fuel base st = do {
     base_file \<leftarrow> rd (preloaded_files st) base;
     (error, st1) \<leftarrow> deps_loop P fuel (file_findmetadata base_file MODINFOMD_DEPLIST) st;
     if error = 0 then Some (0, st1)
     else Some (error, st1\<lparr>preloaded_files := take base (preloaded_files st1)\<rparr>)
   }"
  by pat_completeness auto
termination
proof (relation "inv_image (less_than <*lex*> less_than <*lex*> less_than)
    (case_sum (case_sum (\<lambda>(P, fuel, kldname, argv, st). (fuel, 0, 0))
                        (\<lambda>(P, fuel, modname, verinfo, argv, st). (fuel, 1 :: nat, 0)))
              (case_sum (\<lambda>(P, fuel, mds, st). (fuel, 2, length mds))
                        (\<lambda>(P, fuel, base, st). (fuel, 3, 0))))")
qed (auto simp: metadata_next_def find_type_def le_imp_less_Suc length_dropWhile_le)

declare mod_loadkld.simps(2) [simp del] mod_load.simps [simp del] deps_loop.simps(2) [simp del]
  file_load_dependencies.simps [simp del]

section \<open>Commands\<close>

text \<open>The results of successive 4096-byte \<open>arch_readin\<close> calls; after the last of them the file is at its end.\<close>

fun loadraw_loop :: "int list \<Rightarrow> u64 \<Rightarrow> u64 option" where
  "loadraw_loop [] laddr = Some laddr"
| "loadraw_loop (got # gots) laddr =
     (if got = 0 then Some laddr else if got < 0 then None else loadraw_loop gots (laddr + word_of_int got))"

text \<open>The file is allocated with \<open>file_alloc\<close>, which zeroes it; its result is not tested.\<close>

definition file_loadraw :: "platform \<Rightarrow> byte list \<Rightarrow> byte list option \<Rightarrow> lstate \<Rightarrow> (int \<times> lstate) option" where
  "file_loadraw P type name st =
     (if file_findfile (preloaded_files st) None None = None
      then Some (CMD_ERROR, complain Before_kernel st)
      else do {
        (cp, st1) \<leftarrow> file_search P name None st;
        case cp of
          None \<Rightarrow> Some (CMD_ERROR, complain (Cant_find name) st1)
        | Some nm \<Rightarrow>
            if p_open P nm = None then Some (CMD_ERROR, complain (Cant_open nm) st1)
            else
              let st2 = st1\<lparr>loadaddr := arch_addr P nm (loadaddr st1)\<rparr>
              in case loadraw_loop (p_readin P nm) (loadaddr st2) of
                   None \<Rightarrow> Some (CMD_ERROR, complain (Error_reading nm) st2)
                 | Some laddr \<Rightarrow> do {
                     b \<leftarrow> p_malloc P 72;
                     let fp = \<lparr>f_name = nm, f_type = type, f_args = None, f_metadata = [], f_loader = -1,
                               f_addr = loadaddr st2, f_size = laddr - loadaddr st2, f_modules = []\<rparr>;
                     Some (CMD_OK, st2\<lparr>loadaddr := laddr, preloaded_files := file_insert_tail fp (preloaded_files st2)\<rparr>)
                   }
      })"

definition cmd_result :: "load_msg \<Rightarrow> int \<times> lstate \<Rightarrow> int \<times> lstate" where
  "cmd_result msg = (\<lambda>(error, st).
     (if error = 0 then CMD_OK else CMD_ERROR, if error = EEXIST then complain msg st else st))"

text \<open>\<open>argv\<close> without the command name.  A missing operand is the \<open>NULL\<close> at the end of \<open>argv\<close>.\<close>

definition command_load :: "platform \<Rightarrow> nat \<Rightarrow> byte list list \<Rightarrow> lstate \<Rightarrow> (int \<times> lstate) option" where
  "command_load P fuel argv st =
     (if argv = [] then Some (CMD_ERROR, complain No_filename st)
      else
        let (opts, args) = getopt_args [(107, False), (116, True)] argv in
        if 63 \<in> fst ` set opts then Some (CMD_OK, st)
        else if 116 \<in> fst ` set opts then
          let typestr = the (map_of (rev opts) 116) in
          if length args \<noteq> 1 \<or> typestr = [] then Some (CMD_ERROR, complain Invalid_type st)
          else file_loadraw P typestr (Some (hd args)) st
        else if 107 \<in> fst ` set opts \<or> (args \<noteq> [] \<and> file_havepath P (hd args)) then
          map_option (cmd_result (KLD_already (concat (take 1 args))))
            (mod_loadkld P fuel (if args = [] then None else Some (hd args)) (drop 1 args) st)
        else if args = [] then None
        else map_option (cmd_result (Module_already (hd args))) (mod_load P fuel (hd args) None (drop 1 args) st))"

text \<open>\<open>typestr\<close> has 80 bytes.\<close>

definition command_load_geli :: "platform \<Rightarrow> byte list list \<Rightarrow> lstate \<Rightarrow> (int \<times> lstate) option" where
  "command_load_geli P argv st =
     (if length argv < 2 then Some (CMD_ERROR, complain Geli_usage st)
      else
        let (opts, args) = getopt_args [(110, True)] argv;
            nums = takeWhile (\<lambda>(c, a). c \<noteq> 63 \<and> snd (strtol 0 a) \<noteq> 0) opts
        in case drop (length nums) opts of
             (c, a) # _ \<Rightarrow>
               if c = 63 then Some (CMD_OK, st) else Some (CMD_ERROR, complain (Bad_key_index a) st)
           | [] \<Rightarrow>
               let num = (if nums = [] then 0 else fst (strtol 0 (snd (last nums)))) in
               (case args of
                  [] \<Rightarrow> None
                | prov # files \<Rightarrow> do {
                    b \<leftarrow> blk_strcpy (replicate 80 0) 0 (prov @ bytes_of '':geli_keyfile'' @ fmt_d num);
                    typestr \<leftarrow> cstr b 0;
                    file_loadraw P typestr (case files of [] \<Rightarrow> None | f # _ \<Rightarrow> Some f) st
                  }))"

definition command_unload :: "lstate \<Rightarrow> int \<times> lstate" where
  "command_unload st =
     (CMD_OK, st\<lparr>preloaded_files := [], loadaddr := 0, environ := (environ st)(''kernelname'' := None)\<rparr>)"

end
