(* ===== verification/ModuleFacts.thy ===== *)
theory ModuleFacts
  imports Module
begin

text \<open>
  What the operations of \<^verbatim>\<open>module.c\<close> compute: metadata and modules of one file, the composition of
  paths, the list of module directories, and the choice made from a \<^verbatim>\<open>linker.hints\<close> file.
\<close>

section \<open>Metadata\<close>

lemma find_type_Cons:
  "find_type t (md # mds) = (if uint (md_type md) = t then md # mds else find_type t mds)"
  by (simp add: find_type_def)

lemma find_type_filter:
  "filter (\<lambda>md. uint (md_type md) = t) (find_type t mds) = filter (\<lambda>md. uint (md_type md) = t) mds"
  by (induction mds) (auto simp: find_type_def)

lemma find_type_hd: "find_type t mds = md # rest \<Longrightarrow> uint (md_type md) = t \<and> md \<in> set mds"
  by (induction mds) (auto simp: find_type_def split: if_splits)

lemma set_find_type: "set (find_type t mds) \<subseteq> set mds"
  by (auto simp: find_type_def dest: set_dropWhileD)

text \<open>The walk of the clients: \<open>file_findmetadata\<close> once, then \<open>metadata_next\<close> until \<open>NULL\<close>.\<close>

function md_walk :: "int \<Rightarrow> file_metadata list \<Rightarrow> file_metadata list" where
  "md_walk t [] = []"
| "md_walk t (md # mds) = md # md_walk t (metadata_next (md # mds) t)"
  by pat_completeness auto
termination
  by (relation "measure (\<lambda>(t, mds). length mds)")
     (auto simp: metadata_next_def find_type_def le_imp_less_Suc length_dropWhile_le)

lemma md_walk_find: "md_walk t (find_type t mds) = filter (\<lambda>md. uint (md_type md) = t) mds"
proof (induction "length mds" arbitrary: mds rule: less_induct)
  case less
  show ?case
  proof (cases "find_type t mds")
    case Nil
    then show ?thesis using find_type_filter [of t mds] by simp
  next
    case (Cons md rest)
    have "length rest < length mds"
      using Cons length_dropWhile_le [of "\<lambda>md. uint (md_type md) \<noteq> t" mds]
      by (simp add: find_type_def)
    then show ?thesis using less.hyps [of rest] find_type_filter [of t mds] find_type_hd [OF Cons] Cons
      by (simp add: metadata_next_def)
  qed
qed

section \<open>Modules of a file\<close>

definition acceptable :: "byte list \<Rightarrow> mod_depend \<Rightarrow> kernel_module \<Rightarrow> bool" where
  "acceptable modname v mp \<longleftrightarrow> m_name mp = modname \<and>
     (m_version mp = md_ver_preferred v \<or>
      md_ver_minimum v \<le> m_version mp \<and> m_version mp \<le> md_ver_maximum v \<and> 0 < m_version mp)"

text \<open>A choice among candidates: the preferred version, else the highest acceptable one.\<close>

definition best_choice :: "byte list \<Rightarrow> mod_depend \<Rightarrow> kernel_module list \<Rightarrow> kernel_module \<Rightarrow> bool" where
  "best_choice modname v mps mp \<longleftrightarrow> mp \<in> set mps \<and> acceptable modname v mp \<and>
     (m_version mp = md_ver_preferred v \<or>
      (\<forall>mp' \<in> set mps. acceptable modname v mp' \<longrightarrow>
         m_version mp' \<noteq> md_ver_preferred v \<and> m_version mp' \<le> m_version mp))"

definition ver_in :: "byte list \<Rightarrow> mod_depend \<Rightarrow> kernel_module \<Rightarrow> bool" where
  "ver_in modname v m \<longleftrightarrow> m_name m = modname \<and> md_ver_minimum v \<le> m_version m \<and> m_version m \<le> md_ver_maximum v"

text \<open>The loop invariant over the modules \<open>seen\<close> so far.\<close>

definition cand_inv ::
  "byte list \<Rightarrow> mod_depend \<Rightarrow> kernel_module list \<Rightarrow> kernel_module option \<Rightarrow> int \<Rightarrow> bool" where
  "cand_inv modname v seen best bestver \<longleftrightarrow>
     (\<forall>m \<in> set seen. m_name m = modname \<longrightarrow> m_version m \<noteq> md_ver_preferred v) \<and>
     (\<forall>m \<in> set seen. ver_in modname v m \<longrightarrow> m_version m \<le> bestver) \<and>
     (case best of None \<Rightarrow> bestver = 0
      | Some b \<Rightarrow> b \<in> set seen \<and> ver_in modname v b \<and> m_version b = bestver \<and> 0 < bestver)"

lemma cand_inv_skip:
  assumes "cand_inv modname v seen best bestver" "m_name mp = modname \<Longrightarrow> m_version mp \<noteq> md_ver_preferred v"
    and "ver_in modname v mp \<Longrightarrow> m_version mp \<le> bestver"
  shows "cand_inv modname v (seen @ [mp]) best bestver"
  using assms unfolding cand_inv_def by (cases best) auto

lemma cand_inv_better:
  assumes inv: "cand_inv modname v seen best bestver" and mp: "ver_in modname v mp"
    and "m_version mp \<noteq> md_ver_preferred v" "bestver < m_version mp"
  shows "cand_inv modname v (seen @ [mp]) (Some mp) (m_version mp)"
proof -
  have "0 \<le> bestver" using inv by (auto simp: cand_inv_def split: option.splits)
  then have "0 < m_version mp" using assms(4) by simp
  moreover have "m_version m \<le> m_version mp" if "m \<in> set seen" "ver_in modname v m" for m
    using inv that assms(4) unfolding cand_inv_def by force
  moreover have "m_version m \<noteq> md_ver_preferred v" if "m \<in> set seen" "m_name m = modname" for m
    using inv that unfolding cand_inv_def by blast
  ultimately show ?thesis using mp assms(3) unfolding cand_inv_def by auto
qed

lemma cand_inv_None: "cand_inv modname v seen None bestver \<Longrightarrow> m \<in> set seen \<Longrightarrow> \<not> acceptable modname v m"
  unfolding cand_inv_def acceptable_def ver_in_def by force

lemma cand_inv_Some: "cand_inv modname v seen (Some b) bestver \<Longrightarrow> best_choice modname v seen b"
  unfolding cand_inv_def best_choice_def acceptable_def ver_in_def by force

lemma findmodule_loop_choice:
  assumes "cand_inv modname v seen best bestver"
  shows "case findmodule_loop mps modname (Some v) best bestver of
      None \<Rightarrow> \<forall>m \<in> set (seen @ mps). \<not> acceptable modname v m
    | Some mp \<Rightarrow> best_choice modname v (seen @ mps) mp"
  using assms
proof (induction mps arbitrary: seen best bestver)
  case Nil
  then show ?case by (cases best) (simp_all add: cand_inv_None cand_inv_Some)
next
  case (Cons mp mps)
  note step = Cons.IH [where seen = "seen @ [mp]", unfolded append_assoc append_Cons append_Nil]
  consider (pref) "m_name mp = modname" "m_version mp = md_ver_preferred v"
    | (better) "ver_in modname v mp" "m_version mp \<noteq> md_ver_preferred v" "bestver < m_version mp"
    | (skip) "m_name mp = modname \<Longrightarrow> m_version mp \<noteq> md_ver_preferred v" "ver_in modname v mp \<Longrightarrow> m_version mp \<le> bestver"
    unfolding ver_in_def by fastforce
  then show ?case
  proof cases
    case pref
    then show ?thesis by (simp add: best_choice_def acceptable_def)
  next
    case better
    from step [OF cand_inv_better [OF Cons.prems this]] better show ?thesis by (simp add: ver_in_def)
  next
    case skip
    then have "findmodule_loop (mp # mps) modname (Some v) best bestver = findmodule_loop mps modname (Some v) best bestver"
      by (auto simp: ver_in_def)
    with step [OF cand_inv_skip [OF Cons.prems skip]] show ?thesis by simp
  qed
qed

lemma file_findmodule_in_choice:
  "case file_findmodule_in fp modname (Some v) of
     None \<Rightarrow> \<forall>m \<in> set (f_modules fp). \<not> acceptable modname v m
   | Some mp \<Rightarrow> best_choice modname v (f_modules fp) mp"
  using findmodule_loop_choice [of modname v "[]" None 0 "f_modules fp", unfolded append_Nil] by (simp add: file_findmodule_in_def cand_inv_def)

lemma file_findmodule_None:
  "file_findmodule fps modname verinfo = None \<longleftrightarrow> (\<forall>fp \<in> set fps. file_findmodule_in fp modname verinfo = None)"
  by (induction fps) (auto split: option.splits)

lemma file_findmodule_mono:
  "file_findmodule fps modname verinfo \<noteq> None \<Longrightarrow> file_findmodule (fps @ gps) modname verinfo \<noteq> None"
  by (auto simp: file_findmodule_None)

definition modules_distinct :: "preloaded_file \<Rightarrow> bool" where
  "modules_distinct fp \<longleftrightarrow> distinct (map (\<lambda>m. (m_name m, m_version m)) (f_modules fp))"

lemma addmodule_found:
  "file_findmodule_in fp modname (Some \<lparr>md_ver_minimum = 0, md_ver_preferred = version, md_ver_maximum = 0\<rparr>) \<noteq> None
   \<longleftrightarrow> (modname, version) \<in> (\<lambda>m. (m_name m, m_version m)) ` set (f_modules fp)"
  using file_findmodule_in_choice [of fp modname "\<lparr>md_ver_minimum = 0, md_ver_preferred = version, md_ver_maximum = 0\<rparr>"]
  by (force simp: acceptable_def best_choice_def split: option.splits)

section \<open>Paths\<close>

text \<open>The path of a name in a directory.\<close>

definition path_join :: "byte list \<Rightarrow> byte list \<Rightarrow> byte list" where
  "path_join path name = path @ (if path = [] \<or> last path = 47 then [] else [47]) @ name"

definition is_regular :: "platform \<Rightarrow> byte list \<Rightarrow> bool" where
  "is_regular P name \<longleftrightarrow> (\<exists>sz. p_stat P name = Some (True, sz))"

lemma cstr_put_prefix:
  assumes "take cp b = s" "length s = cp" "0 \<notin> set s" "0 \<notin> set ext" "cp + length ext < length b"
  shows "cstr (put b cp (ext @ [0])) 0 = Some (s @ ext)"
  using assms by (auto simp: cstr_iff put_def)

lemma lookup_exts_find:
  assumes "take cp b = s" "length s = cp" "0 \<notin> set s"
    and "\<forall>ext \<in> set exts. 0 \<notin> set ext \<and> cp + length ext < length b"
  shows "lookup_exts P b cp exts = Some (map_option ((@) s) (List.find (\<lambda>ext. is_regular P (s @ ext)) exts))"
  using assms
proof (induction exts arbitrary: b)
  case (Cons ext exts)
  let ?b = "put b cp (ext @ [0])"
  have "blk_strcpy b cp ext = Some ?b" using Cons.prems by (intro blk_strcpy_in) auto
  moreover have "cstr ?b 0 = Some (s @ ext)" using Cons.prems by (intro cstr_put_prefix) auto
  moreover have "take cp ?b = s" "length ?b = length b" using Cons.prems by (auto simp: put_def)
  moreover from this have "lookup_exts P ?b cp exts = Some (map_option ((@) s) (List.find (\<lambda>ext. is_regular P (s @ ext)) exts))"
    using Cons.prems by (intro Cons.IH) auto
  ultimately show ?case
    by (auto simp: is_regular_def split: option.splits bool.splits)
qed simp

lemma add_slash_join:
  assumes "take n b = path" "length path = n" "n < length b"
  shows "\<exists>b'. add_slash b n = Some (b', length (path_join path [])) \<and> length b' = length b \<and>
    take (length (path_join path [])) b' = path_join path []"
proof (cases "path = []")
  case False
  then have "rd b (n - 1) = Some (last path)"
    using assms by (auto simp: last_conv_nth)
  then show ?thesis using assms False
    by (auto simp: add_slash_def path_join_def take_Suc_conv_app_nth)
qed (use assms in \<open>auto simp: add_slash_def path_join_def\<close>)

lemma ext_max0: "n \<le> foldl (\<lambda>n ext. if length ext > n then length ext else n) n exts"
proof (induction exts arbitrary: n)
  case (Cons e exts)
  show ?case using Cons.IH [of "length e"] Cons.IH [of n] by auto
qed simp

lemma ext_max:
  "ext \<in> set exts \<Longrightarrow> length ext \<le> foldl (\<lambda>n ext. if length ext > n then length ext else n) n exts"
proof (induction exts arbitrary: n)
  case (Cons e exts)
  show ?case
  proof (cases "ext \<in> set exts")
    case False
    with Cons.prems show ?thesis
      using ext_max0 [of "length e" exts] ext_max0 [of n exts] by auto
  qed (use Cons.IH in simp)
qed simp

lemma path_join_append: "path_join path [] @ name = path_join path name"
  by (simp add: path_join_def)

definition exts_of :: "byte list list option \<Rightarrow> byte list list" where
  "exts_of extlist = (case extlist of None \<Rightarrow> [[]] | Some l \<Rightarrow> l)"

lemma file_lookup_finds:
  assumes "alloc_ok (p_malloc P)" "0 \<notin> set path" "n \<le> length name" "0 \<notin> set (take n name)"
    and "\<forall>ext \<in> set (exts_of extlist). 0 \<notin> set ext" "\<forall>k. p_malloc P k \<noteq> None"
  shows "file_lookup P path name n extlist =
    Some (map_option (\<lambda>ext. path_join path (take n name) @ ext)
      (List.find (\<lambda>ext. is_regular P (path_join path (take n name) @ ext)) (exts_of extlist)))"
proof -
  let ?exts = "exts_of extlist" and ?j = "path_join path []"
  let ?extlen = "foldl (\<lambda>n ext. if length ext > n then length ext else n) 0 ?exts"
  obtain b where b: "p_malloc P (length path + n + ?extlen + 2) = Some b"
    using assms(6) by blast
  then have len: "length b = length path + n + ?extlen + 2" using assms(1) by (auto simp: alloc_ok_def)
  let ?b1 = "put b 0 path"
  have "take (length path) ?b1 = path" "length ?b1 = length b" using len by (auto simp: put_def)
  then obtain b2 where b2: "add_slash ?b1 (length path) = Some (b2, length ?j)" "length b2 = length b"
      "take (length ?j) b2 = ?j"
    using add_slash_join [of "length path" ?b1 path] len by auto
  have j: "length ?j \<le> length path + 1" by (simp add: path_join_def)
  let ?b3 = "put b2 (length ?j) (take n name)"
  have fits: "length ?j + n + ?extlen < length b" using j len by simp
  then have "take (length ?j + n) ?b3 = ?j @ take n name" "length ?b3 = length b"
    using b2 assms(3) by (auto simp: put_def)
  note this [unfolded path_join_append]
  moreover have "0 \<notin> set (path_join path (take n name))" using assms(2,4) by (auto simp: path_join_def)
  moreover have "length (path_join path (take n name)) = length ?j + n" using assms(3) by (simp add: path_join_def)
  moreover have "length ?j + n + length ext < length b" if "ext \<in> set ?exts" for ext
    using ext_max [OF that, of 0] fits by linarith
  ultimately have "lookup_exts P ?b3 (length ?j + n) ?exts =
      Some (map_option ((@) (path_join path (take n name)))
        (List.find (\<lambda>ext. is_regular P (path_join path (take n name) @ ext)) ?exts))"
    using assms(5) by (intro lookup_exts_find) auto
  moreover have "store b2 (length ?j) (take n name) = Some ?b3" using b2(2) fits assms(3) by simp
  moreover have "store b 0 path = Some ?b1" "slice name 0 n = Some (take n name)" using len assms(3) by simp_all
  ultimately show ?thesis using b b2(1)
    unfolding file_lookup_def exts_of_def [symmetric] Let_def by simp
qed

section \<open>The list of module directories\<close>

text \<open>The components of a search path, without trailing slashes.\<close>

function path_comps :: "byte list \<Rightarrow> byte list list" where
  "path_comps ep =
     (if ep = [] then []
      else strip_slashes (takeWhile (\<lambda>c. c \<noteq> 59) ep) #
        (if 59 \<in> set ep then path_comps (tl (dropWhile (\<lambda>c. c \<noteq> 59) ep)) else []))"
  by pat_completeness auto
termination
  by (relation "measure length") (auto simp: length_tl_dropWhile)

declare path_comps.simps [simp del]

text \<open>One component: the directory is kept or appended.\<close>

definition touch :: "byte list \<Rightarrow> moduledir list \<Rightarrow> moduledir list" where
  "touch cp mdps = (case keep_dir cp mdps of Some l \<Rightarrow> l | None \<Rightarrow> mdps @ [new_dir cp])"

text \<open>The elements of a list that are not in a set, at their first occurrence.\<close>

fun fresh :: "'a set \<Rightarrow> 'a list \<Rightarrow> 'a list" where
  "fresh seen [] = []"
| "fresh seen (x # xs) = (if x \<in> seen then fresh seen xs else x # fresh (insert x seen) xs)"

lemma fresh_props: "distinct (fresh seen xs) \<and> set (fresh seen xs) = set xs - seen"
  by (induction xs arbitrary: seen) auto

lemma keep_dir_None: "keep_dir cp mdps = None \<longleftrightarrow> cp \<notin> d_path ` set mdps"
  by (induction mdps) auto

lemma keep_dir_Some:
  assumes "keep_dir cp mdps = Some l"
  shows "map d_path l = map d_path mdps \<and>
    (distinct (map d_path mdps) \<longrightarrow> l = map (\<lambda>d. if d_path d = cp then d\<lparr>d_removed := False\<rparr> else d) mdps)"
  using assms
proof (induction mdps arbitrary: l)
  case (Cons d mdps)
  show ?case
  proof (cases "d_path d = cp")
    case True
    have "map (\<lambda>d. if d_path d = cp then d\<lparr>d_removed := False\<rparr> else d) mdps = mdps" if "cp \<notin> d_path ` set mdps"
      using that by (intro map_idI) auto
    with Cons.prems True show ?thesis by auto
  next
    case False
    with Cons show ?thesis by auto
  qed
qed simp

lemma rebuild_loop_touch:
  "\<forall>k. alloc k \<noteq> None \<Longrightarrow> rebuild_loop alloc ep mdps = (fold touch (path_comps ep) mdps, True)"
proof (induction alloc ep mdps rule: rebuild_loop.induct)
  case (1 alloc ep mdps)
  show ?case
  proof (cases "ep = []")
    case True
    then show ?thesis by (simp add: rebuild_loop.simps path_comps.simps)
  next
    case False
    let ?cp = "strip_slashes (takeWhile (\<lambda>c. c \<noteq> 59) ep)"
    have t: "place_dir alloc ?cp mdps = Some (touch ?cp mdps)"
      using "1.prems" by (auto simp: touch_def place_dir_def split: option.splits)
    have d: "dropWhile (\<lambda>c. c \<noteq> 59) ep = [] \<longleftrightarrow> 59 \<notin> set ep" by (auto simp: dropWhile_eq_Nil_conv)
    show ?thesis
    proof (cases "59 \<in> set ep")
      case True
      then have "rebuild_loop alloc ep mdps = rebuild_loop alloc (tl (dropWhile (\<lambda>c. c \<noteq> 59) ep)) (touch ?cp mdps)"
        using False t by (subst rebuild_loop.simps) (auto simp: Let_def)
      then show ?thesis
        using True False "1.IH" [OF False t refl] "1.prems" d by (subst path_comps.simps) simp
    next
      case no: False
      with False t d show ?thesis by (subst rebuild_loop.simps, subst path_comps.simps) simp
    qed
  qed
qed

lemma fold_touch:
  assumes "distinct (map d_path mdps)"
  shows "fold touch cs mdps =
    map (\<lambda>d. if d_path d \<in> set cs then d\<lparr>d_removed := False\<rparr> else d) mdps @
    map new_dir (fresh (d_path ` set mdps) cs)"
  using assms
proof (induction cs arbitrary: mdps)
  case (Cons c cs)
  show ?case
  proof (cases "keep_dir c mdps")
    case None
    then have c: "c \<notin> d_path ` set mdps" by (simp add: keep_dir_None)
    have "d_path (new_dir c) = c" "(new_dir c)\<lparr>d_removed := False\<rparr> = new_dir c" by (simp_all add: new_dir_def)
    moreover have "distinct (map d_path (mdps @ [new_dir c]))" using Cons.prems c by (auto simp: new_dir_def)
    ultimately show ?thesis using Cons.IH [of "mdps @ [new_dir c]"] None c
      by (auto simp: touch_def)
  next
    case (Some l)
    then have l: "map d_path l = map d_path mdps"
      "l = map (\<lambda>d. if d_path d = c then d\<lparr>d_removed := False\<rparr> else d) mdps"
      using keep_dir_Some [OF Some] Cons.prems by auto
    have c: "c \<in> d_path ` set mdps" using keep_dir_None [of c mdps] Some by auto
    have "d_path ` set l = d_path ` set mdps" using l(1) by (metis list.set_map)
    moreover have "map (\<lambda>d. if d_path d \<in> set cs then d\<lparr>d_removed := False\<rparr> else d) l =
        map (\<lambda>d. if d_path d \<in> set (c # cs) then d\<lparr>d_removed := False\<rparr> else d) mdps"
      unfolding l(2) by simp
    ultimately show ?thesis using Cons.IH [of l] Cons.prems Some c l(1)
      by (simp add: touch_def)
  qed
qed simp

lemma touch_distinct: "distinct (map d_path mdps) \<Longrightarrow> distinct (map d_path (touch c mdps))"
  using keep_dir_None [of c mdps] keep_dir_Some [of c mdps]
  by (auto simp: touch_def new_dir_def split: option.splits)

lemma rebuild_loop_distinct:
  "distinct (map d_path mdps) \<Longrightarrow> distinct (map d_path (fst (rebuild_loop alloc ep mdps)))"
proof (induction alloc ep mdps rule: rebuild_loop.induct)
  case (1 alloc ep mdps)
  let ?cp = "strip_slashes (takeWhile (\<lambda>c. c \<noteq> 59) ep)"
  show ?case
  proof (cases "ep = [] \<or> place_dir alloc ?cp mdps = None")
    case True
    with "1.prems" show ?thesis by (subst rebuild_loop.simps) auto
  next
    case False
    then obtain l where l: "place_dir alloc ?cp mdps = Some l" by auto
    then have "l = touch ?cp mdps" by (auto simp: touch_def place_dir_def split: option.splits if_splits)
    with "1.prems" have "distinct (map d_path l)" by (simp add: touch_distinct)
    with "1.IH" [OF _ l refl] False l show ?thesis
      by (subst rebuild_loop.simps) (auto simp: Let_def)
  qed
qed

section \<open>Properties\<close>

text \<open>
  for names without NULs and a \<^verbatim>\<open>malloc\<close> that succeeds, \<^verbatim>\<open>file_lookup\<close> tries the extensions in
  order on the path of the name in the directory, with exactly one slash between them, and
  returns the first that is a regular file, or \<open>NULL\<close>; it stays inside the block it allocated.
\<close>

theorem file_lookup_first_regular:
  assumes "alloc_ok (p_malloc P)" "\<forall>k. p_malloc P k \<noteq> None"
    and "0 \<notin> set path" "n \<le> length name" "0 \<notin> set (take n name)" "\<forall>ext \<in> set exts. 0 \<notin> set ext"
  shows "file_lookup P path name n (Some exts) =
    Some (map_option (\<lambda>ext. path_join path (take n name) @ ext)
      (List.find (\<lambda>ext. is_regular P (path_join path (take n name) @ ext)) exts))"
  using assms by (subst file_lookup_finds) (auto simp: exts_of_def)

definition demo_platform :: platform where
  "demo_platform = \<lparr>p_malloc = (\<lambda>n. Some (replicate n 170)), p_stat = (\<lambda>n. if 109 \<in> set n then Some (True, 4096) else None),
     p_open = (\<lambda>n. None), p_readin = (\<lambda>n. []), p_getdev = (\<lambda>n. 0), p_loadaddr = None,
     p_formats = [\<lambda>fps n d. (if n = [47, 109] then Inr \<lparr>f_name = n, f_type = [101], f_args = None, f_metadata = [], f_loader = 0,
                             f_addr = d, f_size = 4096, f_modules = [\<lparr>m_name = [109], m_version = 1\<rparr>]\<rparr> else Inl EFTYPE, False)]\<rparr>"

lemma demo_malloc: "alloc_ok (p_malloc demo_platform)" "\<forall>k. p_malloc demo_platform k \<noteq> None"
  by (simp_all add: demo_platform_def alloc_ok_def)

theorem file_lookup_first_regular_witness:
  "file_lookup demo_platform [47] [109, 110] 1 (Some [[46], []]) =
    Some (map_option (\<lambda>ext. path_join [47] (take 1 [109, 110]) @ ext)
      (List.find (\<lambda>ext. is_regular demo_platform (path_join [47] (take 1 [109, 110]) @ ext)) [[46], []]))"
  by (rule file_lookup_first_regular) (simp_all add: demo_malloc [simplified])

lemma swept_old:
  "filter (\<lambda>mdp. \<not> d_removed mdp) (map (\<lambda>d. if d_path d \<in> S then d\<lparr>d_removed := False\<rparr> else d)
     (map (\<lambda>mdp. mdp\<lparr>d_removed := True\<rparr>) l)) = map (\<lambda>d. d\<lparr>d_removed := False\<rparr>) (filter (\<lambda>d. d_path d \<in> S) l)"
  by (induction l) auto

lemma swept_new: "filter (\<lambda>mdp. \<not> d_removed mdp) (map new_dir l) = map new_dir l"
  by (induction l) (auto simp: new_dir_def)

text \<open>
  C25: the paths in the list of module directories stay distinct.  When \<^verbatim>\<open>malloc\<close> does not fail, the
  rebuilt list is the old directories that the search path still names, with their hints and in
  their old order, followed by the new components of the path at their first occurrence; no
  directory is left marked as removed.
\<close>

theorem moduledir_rebuild_exact:
  assumes "distinct (map d_path (moduledir_list st))"
  defines "cs \<equiv> path_comps (case environ st ''module_path'' of None \<Rightarrow> default_searchpath | Some p \<Rightarrow> p)"
  shows "distinct (map d_path (moduledir_list (moduledir_rebuild P st))) \<and>
    ((\<forall>k. p_malloc P k \<noteq> None) \<longrightarrow>
     moduledir_list (moduledir_rebuild P st) =
       map (\<lambda>d. d\<lparr>d_removed := False\<rparr>) (filter (\<lambda>d. d_path d \<in> set cs) (moduledir_list st)) @
       map new_dir (fresh (d_path ` set (moduledir_list st)) cs))"
proof -
  let ?path = "case environ st ''module_path'' of None \<Rightarrow> default_searchpath | Some p \<Rightarrow> p"
  let ?m = "map (\<lambda>mdp. mdp\<lparr>d_removed := True\<rparr>) (moduledir_list st)"
  have dm: "distinct (map d_path ?m)" using assms(1) by (simp add: comp_def)
  have "distinct (map d_path (fst (rebuild_loop (p_malloc P) ?path ?m)))" using dm by (rule rebuild_loop_distinct)
  then have 1: "distinct (map d_path (moduledir_list (moduledir_rebuild P st)))"
    by (auto simp: moduledir_rebuild_def Let_def case_prod_beta intro: distinct_map_filter)
  have "moduledir_list (moduledir_rebuild P st) = filter (\<lambda>mdp. \<not> d_removed mdp) (fold touch cs ?m)"
    if "\<forall>k. p_malloc P k \<noteq> None"
    using rebuild_loop_touch [OF that, of ?path ?m] by (simp add: moduledir_rebuild_def cs_def)
  moreover have "d_path ` set ?m = d_path ` set (moduledir_list st)" by (simp add: image_image)
  ultimately show ?thesis using 1 by (simp only: fold_touch [OF dm] filter_append swept_old swept_new) simp
qed

theorem moduledir_rebuild_exact_witness:
  "\<exists>st. distinct (map d_path (moduledir_list st)) \<and>
    distinct (map d_path (moduledir_list (moduledir_rebuild demo_platform st)))"
proof -
  let ?st = "\<lparr>preloaded_files = [], loadaddr = 0, moduledir_list = [new_dir [97], new_dir [98]],
    environ = (\<lambda>n. Some [98, 59, 99]), command_errbuf = No_message\<rparr>"
  have "distinct (map d_path (moduledir_list ?st))" by (simp add: new_dir_def)
  with moduledir_rebuild_exact [OF this, of demo_platform] show ?thesis by blast
qed

text \<open>
  a module is looked up in the files in the order they were loaded, and within a file the
  preferred version is chosen if it is there, otherwise the highest positive version in the range
  of the dependency; \<open>NULL\<close> means that no loaded file has an acceptable version.
\<close>

theorem file_findmodule_best:
  "case file_findmodule fps modname (Some v) of
     None \<Rightarrow> \<forall>fp \<in> set fps. \<forall>m \<in> set (f_modules fp). \<not> acceptable modname v m
   | Some mp \<Rightarrow> \<exists>before fp after. fps = before @ fp # after \<and> best_choice modname v (f_modules fp) mp \<and>
       (\<forall>fp' \<in> set before. \<forall>m \<in> set (f_modules fp'). \<not> acceptable modname v m)"
proof (induction fps)
  case (Cons fp fps)
  show ?case
  proof (cases "file_findmodule_in fp modname (Some v)")
    case None
    then have no: "\<forall>m \<in> set (f_modules fp). \<not> acceptable modname v m"
      using file_findmodule_in_choice [of fp modname v] by simp
    show ?thesis
    proof (cases "file_findmodule fps modname (Some v)")
      case (Some mp)
      then obtain b f a where "fps = b @ f # a" "best_choice modname v (f_modules f) mp"
          "\<forall>fp' \<in> set b. \<forall>m \<in> set (f_modules fp'). \<not> acceptable modname v m" using Cons by auto
      then have "fp # fps = (fp # b) @ f # a" "\<forall>fp' \<in> set (fp # b). \<forall>m \<in> set (f_modules fp'). \<not> acceptable modname v m"
        using no by auto
      moreover have "file_findmodule (fp # fps) modname (Some v) = Some mp" using None Some by simp
      ultimately show ?thesis using \<open>best_choice _ _ _ _\<close> by (simp only: option.case) blast
    qed (use Cons None no in simp)
  next
    case (Some mp)
    then have "best_choice modname v (f_modules fp) mp" using file_findmodule_in_choice [of fp modname v] by simp
    then show ?thesis using Some by (auto intro!: exI [of _ "[]"])
  qed
qed simp

theorem file_findmodule_best_witness:
  "\<exists>mp. file_findmodule
     [\<lparr>f_name = [47], f_type = [], f_args = None, f_metadata = [], f_loader = 0, f_addr = 0, f_size = 1,
       f_modules = [\<lparr>m_name = [109], m_version = 2\<rparr>, \<lparr>m_name = [109], m_version = 3\<rparr>]\<rparr>]
     [109] (Some \<lparr>md_ver_minimum = 1, md_ver_preferred = 1, md_ver_maximum = 4\<rparr>) = Some mp \<and>
     best_choice [109] \<lparr>md_ver_minimum = 1, md_ver_preferred = 1, md_ver_maximum = 4\<rparr>
       [\<lparr>m_name = [109], m_version = 2\<rparr>, \<lparr>m_name = [109], m_version = 3\<rparr>] mp"
proof -
  let ?fp = "\<lparr>f_name = [47], f_type = [], f_args = None, f_metadata = [], f_loader = 0, f_addr = 0, f_size = 1,
       f_modules = [\<lparr>m_name = [109], m_version = 2\<rparr>, \<lparr>m_name = [109], m_version = 3\<rparr>]\<rparr>"
  have "file_findmodule [?fp] [109] (Some \<lparr>md_ver_minimum = 1, md_ver_preferred = 1, md_ver_maximum = 4\<rparr>)
      = Some \<lparr>m_name = [109], m_version = 3\<rparr>"
    by (simp add: file_findmodule_in_def)
  with file_findmodule_best [of "[?fp]" "[109]" "\<lparr>md_ver_minimum = 1, md_ver_preferred = 1, md_ver_maximum = 4\<rparr>"]
  show ?thesis by (auto simp: Cons_eq_append_conv)
qed

text \<open>
  the modules of a file have distinct pairs of name and version: \<^verbatim>\<open>file_addmodule\<close> keeps this,
  refuses a pair that is there with \<open>EEXIST\<close>, and otherwise adds it in front or reports \<open>ENOMEM\<close>.
\<close>

theorem file_addmodule_unique:
  assumes "modules_distinct fp" "file_addmodule alloc fp modname version = (e, fp')"
  shows "modules_distinct fp' \<and>
    (e = EEXIST \<longleftrightarrow> (\<exists>m \<in> set (f_modules fp). m_name m = modname \<and> m_version m = version)) \<and>
    (e = 0 \<longrightarrow> f_modules fp' = \<lparr>m_name = modname, m_version = version\<rparr> # f_modules fp) \<and> (e \<noteq> 0 \<longrightarrow> fp' = fp)"
  using assms addmodule_found [of fp modname version]
  by (auto simp: file_addmodule_def modules_distinct_def Let_def errno_defs image_iff split: if_splits)

theorem file_addmodule_unique_witness:
  "\<exists>fp fp'. modules_distinct fp \<and> file_addmodule (\<lambda>n. Some []) fp [109] 2 = (0, fp') \<and> modules_distinct fp'"
proof -
  let ?fp = "\<lparr>f_name = [47], f_type = [], f_args = None, f_metadata = [], f_loader = 0, f_addr = 0, f_size = 1,
     f_modules = [\<lparr>m_name = [109], m_version = 1\<rparr>]\<rparr>"
  have d: "modules_distinct ?fp" by (simp add: modules_distinct_def)
  have a: "file_addmodule (\<lambda>n. Some []) ?fp [109] 2 = (0, ?fp\<lparr>f_modules := [\<lparr>m_name = [109], m_version = 2\<rparr>, \<lparr>m_name = [109], m_version = 1\<rparr>]\<rparr>)"
    by (simp add: file_addmodule_def file_findmodule_in_def)
  show ?thesis using file_addmodule_unique [OF d a] d a by blast
qed

end
