(* ===== verification/HintsFacts.thy ===== *)
theory HintsFacts
  imports ModuleFacts
begin

text \<open>
  The format of \<^verbatim>\<open>linker.hints\<close> as \<^verbatim>\<open>mod_search_hints\<close> reads it, and what the scan finds in a file
  made of complete records.
\<close>

section \<open>Records\<close>

datatype hint_rec = HVersion "byte list" int "byte list" | HOther u32 "byte list"

definition pad :: "nat \<Rightarrow> byte list" where
  "pad n = replicate (INT_ALIGN n - n) 0"

fun rec_body :: "hint_rec \<Rightarrow> byte list" where
  "rec_body (HVersion n v f) =
     le_bytes 4 3 @ [word_of_nat (length n)] @ n @ pad (9 + length n) @
     le_bytes 4 (unat (word_of_int v :: u32)) @ [word_of_nat (length f)] @ f @ pad (1 + length f)"
| "rec_body (HOther k body) = le_bytes 4 (unat k) @ body"

definition enc_rec :: "hint_rec \<Rightarrow> byte list" where
  "enc_rec r = le_bytes 4 (length (rec_body r)) @ rec_body r"

fun wf_rec :: "hint_rec \<Rightarrow> bool" where
  "wf_rec (HVersion n v f) \<longleftrightarrow> length n < 256 \<and> length f < 256 \<and> - (2 ^ 31) \<le> v \<and> v < 2 ^ 31"
| "wf_rec (HOther k body) \<longleftrightarrow> k \<noteq> MDT_VERSION \<and> length body mod 4 = 0 \<and> length body < 2 ^ 31 - 4"

abbreviation enc_hints :: "hint_rec list \<Rightarrow> byte list" where
  "enc_hints rs \<equiv> concat (map enc_rec rs)"

text \<open>The choice among the records: the file names of the exact match and of the best candidate.\<close>

fun pick ::
  "byte list \<Rightarrow> mod_depend option \<Rightarrow> hint_rec list \<Rightarrow> byte list option \<Rightarrow> int \<Rightarrow>
   byte list option \<times> byte list option \<times> int" where
  "pick nm ver [] best bv = (None, best, bv)"
| "pick nm ver (HOther k body # rs) best bv = pick nm ver rs best bv"
| "pick nm ver (HVersion n v f # rs) best bv =
     (if n \<noteq> nm then pick nm ver rs best bv
      else case ver of
        None \<Rightarrow> (Some f, best, bv)
      | Some d \<Rightarrow>
          if v = md_ver_preferred d then (Some f, best, bv)
          else if md_ver_minimum d \<le> v \<and> v \<le> md_ver_maximum d \<and> bv < v then pick nm ver rs (Some f) v
          else pick nm ver rs best bv)"

section \<open>Reading pieces of a buffer\<close>

lemma slice_mid: "off = length pre \<Longrightarrow> n = length xs \<Longrightarrow> slice (pre @ xs @ post) off n = Some xs"
  by (simp add: slice_def)

lemma rd_mid: "off = length pre \<Longrightarrow> rd (pre @ x # post) off = Some x"
  by (simp add: rd_def)

lemma le_field_mid:
  fixes w :: u32
  assumes "off = length pre"
  shows "le_field (pre @ le_bytes 4 (unat w) @ post) off 4 = Some w"
  using assms slice_mid [of off pre 4 "le_bytes 4 (unat w)" post] word_of_nat_le_bytes [of 4 w]
  by (simp add: le_field_def)

lemma le_field_mid_nat:
  assumes "off = length pre" "k < 2 ^ 32"
  shows "le_field (pre @ le_bytes 4 k @ post) off 4 = Some (word_of_nat k :: u32)"
proof -
  have "unat (word_of_nat k :: u32) = k" using assms(2) by (simp add: unat_of_nat)
  then show ?thesis using le_field_mid [OF assms(1), of "word_of_nat k" post] by simp
qed

lemma INT_ALIGN_add: "r mod 4 = 0 \<Longrightarrow> INT_ALIGN (r + k) = r + INT_ALIGN k"
  unfolding INT_ALIGN_def by presburger

lemma INT_ALIGN_ge: "n \<le> INT_ALIGN n"
  unfolding INT_ALIGN_def by linarith

lemma length_pad: "length (pad n) = INT_ALIGN n - n"
  by (simp add: pad_def)

lemma INT_ALIGN_mod: "INT_ALIGN n mod 4 = 0"
  by (simp add: INT_ALIGN_def)

lemma INT_ALIGN_lt: "INT_ALIGN n < n + 4"
  unfolding INT_ALIGN_def by linarith

lemma sint_of_int32: "- (2 ^ 31) \<le> v \<Longrightarrow> v < 2 ^ 31 \<Longrightarrow> sint (word_of_int v :: u32) = v"
  by (simp add: sint_sbintrunc' signed_take_bit_int_eq_self)

lemma sint_of_nat32: "k < 2 ^ 31 \<Longrightarrow> sint (word_of_nat k :: u32) = int k"
  using sint_of_int32 [of "int k"] by simp

section \<open>The scan\<close>

lemma length_rec_body_HVersion:
  "length (rec_body (HVersion n v f)) = INT_ALIGN (9 + length n) - 4 + 4 + INT_ALIGN (1 + length f)"
  using INT_ALIGN_ge [of "9 + length n"] INT_ALIGN_ge [of "1 + length f"] by (simp add: length_pad)

lemma wf_rec_length:
  assumes "wf_rec r"
  shows "length (enc_rec r) mod 4 = 0" "length (rec_body r) < 2 ^ 31" "4 \<le> length (rec_body r)"
proof -
  show "4 \<le> length (rec_body r)" by (cases r) auto
  show "length (enc_rec r) mod 4 = 0"
  proof (cases r)
    case (HVersion n v f)
    have "length (enc_rec r) = INT_ALIGN (9 + length n) + 4 + INT_ALIGN (1 + length f)"
      using INT_ALIGN_ge [of "9 + length n"] unfolding HVersion by (simp add: enc_rec_def length_rec_body_HVersion del: rec_body.simps)
    then show ?thesis by (simp add: INT_ALIGN_mod mod_add_eq [symmetric] flip: mod_add_left_eq mod_add_right_eq)
  next
    case (HOther k body)
    then have "length (enc_rec r) = 8 + length body" "length body mod 4 = 0" using assms by (simp_all add: enc_rec_def)
    then show ?thesis by presburger
  qed
  show "length (rec_body r) < 2 ^ 31"
  proof (cases r)
    case (HVersion n v f)
    then show ?thesis using assms INT_ALIGN_lt [of "9 + length n"] INT_ALIGN_lt [of "1 + length f"]
      by (auto simp: length_rec_body_HVersion simp del: rec_body.simps)
  qed (use assms in simp)
qed

lemma hint_version_mid:
  assumes "length pre mod 4 = 0" "wf_rec (HVersion n v f)"
    and h: "hints = pre @ enc_rec (HVersion n v f) @ post"
  shows "\<exists>p. p + length f \<le> length hints \<and> take (length f) (drop p hints) = f \<and>
    hint_version hints nm ver bv (length pre + 8) =
      Some (if n \<noteq> nm then Skip
            else case ver of
              None \<Rightarrow> Found p (length f)
            | Some d \<Rightarrow>
                if v = md_ver_preferred d then Found p (length f)
                else if md_ver_minimum d \<le> v \<and> v \<le> md_ver_maximum d \<and> bv < v then Better v p (length f)
                else Skip)"
proof -
  let ?len = "le_bytes 4 (length (rec_body (HVersion n v f)))" and ?k = "le_bytes 4 3"
  let ?pad1 = "pad (9 + length n)" and ?pad2 = "pad (1 + length f)"
  let ?v = "le_bytes 4 (unat (word_of_int v :: u32))"
  let ?a = "pre @ ?len @ ?k" and ?cn = "word_of_nat (length n) :: byte" and ?cf = "word_of_nat (length f) :: byte"
  let ?cp1 = "length pre + INT_ALIGN (9 + length n)"
  have cn: "unat ?cn = length n" "unat ?cf = length f" using assms(2) by (simp_all add: unat_of_nat)
  have al: "INT_ALIGN (length pre + 8 + 1 + length n) = ?cp1"
    using INT_ALIGN_add [OF assms(1), of "9 + length n"] by (simp add: ac_simps)
  have h1: "hints = ?a @ ?cn # (n @ ?pad1 @ ?v @ ?cf # f @ ?pad2 @ post)"
    by (simp add: h enc_rec_def)
  have h2: "hints = (?a @ [?cn]) @ n @ (?pad1 @ ?v @ ?cf # f @ ?pad2 @ post)"
    by (simp add: h enc_rec_def)
  have h3: "hints = (?a @ [?cn] @ n @ ?pad1) @ ?v @ (?cf # f @ ?pad2 @ post)"
    by (simp add: h enc_rec_def)
  have h4: "hints = (?a @ [?cn] @ n @ ?pad1 @ ?v) @ ?cf # (f @ ?pad2 @ post)"
    by (simp add: h enc_rec_def)
  have h5: "hints = (?a @ [?cn] @ n @ ?pad1 @ ?v @ [?cf]) @ f @ (?pad2 @ post)"
    by (simp add: h enc_rec_def)
  have l: "length (?a @ [?cn] @ n @ ?pad1) = ?cp1"
    using INT_ALIGN_ge [of "9 + length n"] by (simp add: length_pad)
  have r1: "rd hints (length pre + 8) = Some ?cn" unfolding h1 by (rule rd_mid) simp
  have r2: "slice hints (length pre + 8 + 1) (length n) = Some n" unfolding h2 by (rule slice_mid) simp_all
  have r3: "le_field hints ?cp1 4 = Some (word_of_int v :: u32)"
    unfolding h3 by (rule le_field_mid) (simp only: l)
  have r4: "rd hints (?cp1 + 4) = Some ?cf" unfolding h4 by (rule rd_mid) (use l in simp)
  have r5: "slice hints (?cp1 + 5) (length f) = Some f" unfolding h5 by (rule slice_mid) (use l in simp_all)
  have v: "sint (word_of_int v :: u32) = v" using assms(2) by (intro sint_of_int32) auto
  have "hint_version hints nm ver bv (length pre + 8) =
      Some (if n \<noteq> nm then Skip
            else case ver of
              None \<Rightarrow> Found (?cp1 + 5) (length f)
            | Some d \<Rightarrow>
                if v = md_ver_preferred d then Found (?cp1 + 5) (length f)
                else if md_ver_minimum d \<le> v \<and> v \<le> md_ver_maximum d \<and> bv < v then Better v (?cp1 + 5) (length f)
                else Skip)"
  proof (cases "length n = length nm")
    case True
    with cn(1) have "unat (word_of_nat (length nm) :: byte) = length nm" by simp
    with True show ?thesis
      using r1 r2 r3 r4 al v unfolding hint_version_def Let_def
      by (simp add: cn split: option.split)
  qed (use r1 cn in \<open>auto simp: hint_version_def\<close>)
  moreover have "?cp1 + 5 + length f \<le> length hints" "take (length f) (drop (?cp1 + 5) hints) = f"
    using r5 by (auto simp: slice_Some_iff)
  ultimately show ?thesis by blast
qed

abbreviation name_at :: "byte list \<Rightarrow> nat \<times> nat \<Rightarrow> byte list" where
  "name_at h \<equiv> \<lambda>(p, n). take n (drop p h)"

abbreviation inside :: "byte list \<Rightarrow> (nat \<times> nat) option \<Rightarrow> bool" where
  "inside h loc \<equiv> case loc of None \<Rightarrow> True | Some (p, n) \<Rightarrow> p + n \<le> length h"

lemma hints_loop_step:
  assumes "wf_rec r" "hints = pre @ enc_rec r @ post"
    and "hit = (case r of HOther k body \<Rightarrow> Some Skip | HVersion n v f \<Rightarrow> hint_version hints nm ver bv (length pre + 8))"
  shows "hints_loop hints nm ver (int (length pre)) best bv = do {
      h \<leftarrow> hit;
      case h of
        Skip \<Rightarrow> hints_loop hints nm ver (int (length (pre @ enc_rec r))) best bv
      | Found p n \<Rightarrow> Some (Some (p, n), best, bv)
      | Better v p n \<Rightarrow> hints_loop hints nm ver (int (length (pre @ enc_rec r))) (Some (p, n)) v }"
proof -
  note len = wf_rec_length [OF assms(1)]
  let ?rl = "word_of_nat (length (rec_body r)) :: u32"
  have lt: "length (rec_body r) < 2 ^ 32" using len(2) by simp
  obtain k body where k: "rec_body r = le_bytes 4 (unat (k :: u32)) @ body"
    "k = MDT_VERSION \<longleftrightarrow> (\<exists>n v f. r = HVersion n v f)"
  proof (cases r)
    case (HVersion n v f)
    have "rec_body r = le_bytes 4 (unat MDT_VERSION) @ drop 4 (rec_body r)"
      unfolding HVersion by (simp add: MDT_VERSION_def)
    with HVersion show ?thesis by (intro that [of MDT_VERSION]) auto
  next
    case (HOther k body)
    with assms(1) show ?thesis by (intro that [of k body]) auto
  qed
  have h1: "hints = pre @ le_bytes 4 (length (rec_body r)) @ (rec_body r @ post)"
    by (simp add: assms(2) enc_rec_def)
  have h2: "hints = (pre @ le_bytes 4 (length (rec_body r))) @ le_bytes 4 (unat k) @ (body @ post)"
    by (simp add: assms(2) enc_rec_def k)
  have f1: "le_field hints (length pre) 4 = Some ?rl" unfolding h1 by (rule le_field_mid_nat) (use lt in simp_all)
  have f2: "le_field hints (length pre + 4) 4 = Some k" unfolding h2 by (rule le_field_mid) simp
  have nxt: "int (length pre) + sint ?rl + 4 = int (length pre) + int (length (enc_rec r))"
    using sint_of_nat32 [OF len(2)] by (simp add: enc_rec_def)
  have lt': "int (length pre) < int (length hints)" using assms(2) by (simp add: enc_rec_def)
  have hit: "(if k = MDT_VERSION then hint_version hints nm ver bv (length pre + 8) else Some Skip) = hit"
    using k(2) assms(3) by (cases r) auto
  show ?thesis
    using lt' f1 f2 by (subst hints_loop.simps) (simp add: nxt hit [symmetric] Let_def)
qed

lemma hints_loop_pick:
  assumes "length pre mod 4 = 0" "\<forall>r \<in> set rs. wf_rec r" "hints = pre @ enc_hints rs" "inside hints best"
  shows "\<exists>f b bv'. hints_loop hints nm ver (int (length pre)) best bv = Some (f, b, bv') \<and>
    inside hints f \<and> inside hints b \<and>
    pick nm ver rs (map_option (name_at hints) best) bv = (map_option (name_at hints) f, map_option (name_at hints) b, bv')"
  using assms
proof (induction rs arbitrary: pre best bv)
  case Nil
  then show ?case by (subst hints_loop.simps) simp
next
  case (Cons r rs)
  let ?pre = "pre @ enc_rec r"
  have wf: "wf_rec r" using Cons.prems by simp
  have h: "hints = pre @ enc_rec r @ enc_hints rs" using Cons.prems by simp
  have pre: "length ?pre mod 4 = 0" using Cons.prems(1) wf_rec_length(1) [OF wf]
    unfolding length_append by presburger
  note IH = Cons.IH [OF this, unfolded append_assoc, OF _ h]
  note step = hints_loop_step [OF wf h refl, of nm ver best bv]
  show ?case
  proof (cases r)
    case (HOther k body)
    with step IH [of best bv] Cons.prems show ?thesis by simp
  next
    case (HVersion n v f)
    obtain p where p: "p + length f \<le> length hints" "take (length f) (drop p hints) = f"
      "hint_version hints nm ver bv (length pre + 8) =
        Some (if n \<noteq> nm then Skip
              else case ver of
                None \<Rightarrow> Found p (length f)
              | Some d \<Rightarrow>
                  if v = md_ver_preferred d then Found p (length f)
                  else if md_ver_minimum d \<le> v \<and> v \<le> md_ver_maximum d \<and> bv < v then Better v p (length f)
                  else Skip)"
      using hint_version_mid [OF Cons.prems(1), of n v f hints "enc_hints rs" nm ver bv] wf h HVersion by blast
    consider (skip) "hint_version hints nm ver bv (length pre + 8) = Some Skip"
        "pick nm ver (r # rs) (map_option (name_at hints) best) bv = pick nm ver rs (map_option (name_at hints) best) bv"
      | (found) "hint_version hints nm ver bv (length pre + 8) = Some (Found p (length f))"
        "pick nm ver (r # rs) (map_option (name_at hints) best) bv = (Some f, map_option (name_at hints) best, bv)"
      | (better) "hint_version hints nm ver bv (length pre + 8) = Some (Better v p (length f))"
        "pick nm ver (r # rs) (map_option (name_at hints) best) bv = pick nm ver rs (Some f) v"
      using p(3) HVersion by (auto split: option.splits if_splits)
    then show ?thesis
    proof cases
      case skip
      with step HVersion IH [of best bv] Cons.prems show ?thesis by simp
    next
      case found
      with step HVersion p Cons.prems(4) show ?thesis by auto
    next
      case better
      with step HVersion p IH [of "Some (p, length f)" v] Cons.prems show ?thesis by simp
    qed
  qed
qed

section \<open>The module search in one directory\<close>

lemma pick_best_version:
  "(best = None \<and> bv = 0) \<or> (best \<noteq> None \<and> 0 < bv) \<Longrightarrow> pick nm ver rs best bv = (f, b, bv') \<Longrightarrow>
   (b = None \<and> bv' = 0) \<or> (b \<noteq> None \<and> 0 < bv')"
proof (induction nm ver rs best bv rule: pick.induct)
  case (3 nm ver n v fl rs best bv)
  show ?case
  proof (cases "n = nm \<and> (\<exists>d. ver = Some d \<and> v \<noteq> md_ver_preferred d)")
    case True
    then show ?thesis using 3 by (auto split: if_splits)
  next
    case False
    then show ?thesis using 3 by (auto split: if_splits option.splits)
  qed
qed auto

lemma pick_from_records:
  "pick nm ver rs best bv = (f, b, bv') \<Longrightarrow>
   (f = Some x \<longrightarrow> (\<exists>v. HVersion nm v x \<in> set rs)) \<and> (b = Some x \<longrightarrow> best = Some x \<or> (\<exists>v. HVersion nm v x \<in> set rs))"
proof (induction nm ver rs best bv rule: pick.induct)
  case (3 nm ver n v fl rs best bv)
  show ?case
  proof (cases "n = nm \<and> (\<exists>d. ver = Some d \<and> v \<noteq> md_ver_preferred d)")
    case True
    then show ?thesis using 3 by (auto split: if_splits)
  next
    case False
    then show ?thesis using 3 by (auto split: if_splits option.splits)
  qed
qed auto

definition malloc_total :: "platform \<Rightarrow> bool" where
  "malloc_total P \<longleftrightarrow> alloc_ok (p_malloc P) \<and> (\<forall>k. p_malloc P k \<noteq> None)"

definition if_regular :: "platform \<Rightarrow> byte list \<Rightarrow> byte list option" where
  "if_regular P path = (if is_regular P path then Some path else None)"

lemma file_lookup_plain:
  assumes "malloc_total P" "0 \<notin> set path" "n \<le> length name" "0 \<notin> set (take n name)"
  shows "file_lookup P path name n None = Some (if_regular P (path_join path (take n name)))"
  using assms file_lookup_finds [of P path n name None]
  by (simp add: malloc_total_def exts_of_def if_regular_def)

lemma kld_ext_nz: "\<forall>ext \<in> set kld_ext_list. 0 \<notin> set ext"
  by (simp add: kld_ext_list_def)

lemma file_lookup_kld:
  assumes "malloc_total P" "0 \<notin> set path" "0 \<notin> set name"
  shows "file_lookup P path name (length name) (Some kld_ext_list) =
    Some (map_option (\<lambda>ext. path_join path name @ ext)
      (List.find (\<lambda>ext. is_regular P (path_join path name @ ext)) kld_ext_list))"
  using assms kld_ext_nz file_lookup_finds [of P path "length name" name "Some kld_ext_list"]
  by (simp add: malloc_total_def exts_of_def)

definition hints_choice :: "platform \<Rightarrow> byte list \<Rightarrow> byte list \<Rightarrow> mod_depend option \<Rightarrow> hint_rec list \<Rightarrow> byte list option" where
  "hints_choice P path nm ver rs =
     (case pick nm ver rs None 0 of
        (Some f, _) \<Rightarrow> if_regular P (path_join path f)
      | (None, Some b, _) \<Rightarrow> if_regular P (path_join path b)
      | (None, None, _) \<Rightarrow>
          map_option (\<lambda>ext. path_join path nm @ ext)
            (List.find (\<lambda>ext. is_regular P (path_join path nm @ ext)) kld_ext_list))"

definition wf_hints :: "hint_rec list \<Rightarrow> bool" where
  "wf_hints rs \<longleftrightarrow> (\<forall>r \<in> set rs. wf_rec r \<and> (case r of HVersion n v f \<Rightarrow> 0 \<notin> set f | _ \<Rightarrow> True))"

lemma mod_search_hints_choice:
  assumes P: "malloc_total P" and nz: "0 \<notin> set (d_path mdp)" "0 \<notin> set nm"
    and h: "d_hints mdp = Some (enc_hints rs)" "wf_hints rs"
  shows "mod_search_hints P nm ver mdp = Some (hints_choice P (d_path mdp) nm ver rs, mdp)"
proof -
  let ?h = "enc_hints rs"
  have wf: "\<forall>r \<in> set rs. wf_rec r" using h(2) by (auto simp: wf_hints_def)
  obtain f b bv where l: "hints_loop ?h nm ver 0 None 0 = Some (f, b, bv)" "inside ?h f" "inside ?h b"
      and p: "pick nm ver rs None 0 = (map_option (name_at ?h) f, map_option (name_at ?h) b, bv)"
    using hints_loop_pick [of "[]" rs ?h None nm ver 0] wf by auto
  have bv: "(b = None \<and> bv = 0) \<or> (b \<noteq> None \<and> bv \<noteq> 0)" using pick_best_version [OF _ p] by auto
  have name_nz: "0 \<notin> set (take n (drop q ?h))" if "f = Some (q, n) \<or> b = Some (q, n)" for q n
    using pick_from_records [OF p, of "take n (drop q ?h)"] that h(2) by (fastforce simp: wf_hints_def)
  have lk: "file_lookup P (d_path mdp) (drop q ?h) n None = Some (if_regular P (path_join (d_path mdp) (take n (drop q ?h))))"
    if "f = Some (q, n) \<or> b = Some (q, n)" for q n
    using name_nz [OF that] l(2,3) that nz(1) by (intro file_lookup_plain [OF P]) auto
  note kld = file_lookup_kld [OF P nz]
  have rh: "moduledir_readhints P mdp = Some mdp" using h(1) by (simp add: moduledir_readhints_def)
  show ?thesis
  proof (cases f)
    case (Some x)
    then show ?thesis using l(1) p h(1) lk rh
      by (cases x) (simp add: mod_search_hints_def hints_choice_def)
  next
    case None
    note f = this
    show ?thesis
    proof (cases b)
      case (Some x)
      then show ?thesis using f l(1) p h(1) lk rh bv
        by (cases x) (simp add: mod_search_hints_def hints_choice_def)
    next
      case None
      then show ?thesis using f l(1) p h(1) kld rh bv
        by (simp add: mod_search_hints_def hints_choice_def)
    qed
  qed
qed

section \<open>Properties\<close>

text \<open>
  C24: with the hints of a directory a sequence of complete records, \<^verbatim>\<open>mod_search_hints\<close> ends inside the
  buffer and looks for the file named by the first record of the preferred version (or of any
  version when none is asked for), else by the record with the highest version in the range, and
  only when no record fits for the module name with the extensions of \<^verbatim>\<open>kld_ext_list\<close>.
\<close>

theorem mod_search_hints_finds:
  assumes "malloc_total P" "0 \<notin> set (d_path mdp)" "0 \<notin> set nm"
    and "d_hints mdp = Some (enc_hints rs)" "wf_hints rs"
  shows "mod_search_hints P nm ver mdp =
    Some (case pick nm ver rs None 0 of
            (Some f, _) \<Rightarrow> if_regular P (path_join (d_path mdp) f)
          | (None, Some b, _) \<Rightarrow> if_regular P (path_join (d_path mdp) b)
          | (None, None, _) \<Rightarrow>
              map_option (\<lambda>ext. path_join (d_path mdp) nm @ ext)
                (List.find (\<lambda>ext. is_regular P (path_join (d_path mdp) nm @ ext)) kld_ext_list), mdp)"
  using mod_search_hints_choice [OF assms] by (simp add: hints_choice_def)

theorem mod_search_hints_finds_witness:
  "mod_search_hints demo_platform [97] None
     \<lparr>d_path = [47], d_hints = Some (enc_hints [HOther 1 [0, 0, 0, 0], HVersion [97] 3 [109]]), d_removed = False, d_nohints = False\<rparr> =
   Some (Some [47, 109],
     \<lparr>d_path = [47], d_hints = Some (enc_hints [HOther 1 [0, 0, 0, 0], HVersion [97] 3 [109]]), d_removed = False, d_nohints = False\<rparr>)"
proof -
  let ?rs = "[HOther 1 [0, 0, 0, 0], HVersion [97] 3 [109]]"
  let ?mdp = "\<lparr>d_path = [47], d_hints = Some (enc_hints ?rs), d_removed = False, d_nohints = False\<rparr>"
  have "malloc_total demo_platform" using demo_malloc by (simp add: malloc_total_def)
  moreover have "wf_hints ?rs" by (simp add: wf_hints_def MDT_VERSION_def)
  ultimately have "mod_search_hints demo_platform [97] None ?mdp =
    Some (case pick [97] None ?rs None 0 of
            (Some f, _) \<Rightarrow> if_regular demo_platform (path_join (d_path ?mdp) f)
          | (None, Some b, _) \<Rightarrow> if_regular demo_platform (path_join (d_path ?mdp) b)
          | (None, None, _) \<Rightarrow>
              map_option (\<lambda>ext. path_join (d_path ?mdp) [97] @ ext)
                (List.find (\<lambda>ext. is_regular demo_platform (path_join (d_path ?mdp) [97] @ ext)) kld_ext_list), ?mdp)"
    by (intro mod_search_hints_finds) simp_all
  then show ?thesis
    by (simp add: if_regular_def is_regular_def path_join_def demo_platform_def)
qed

end
