(* ===== verification/LoadFacts.thy ===== *)
theory LoadFacts
  imports HintsFacts
begin

text \<open>
  Loading files with their dependencies: \<^verbatim>\<open>mod_load\<close>, \<^verbatim>\<open>mod_loadkld\<close> and \<^verbatim>\<open>file_load_dependencies\<close>
  change the list of preloaded files only as a whole, and what they leave is closed under
  dependencies.
\<close>

section \<open>Searching does not touch the loaded files\<close>

definition same_files :: "lstate \<Rightarrow> lstate \<Rightarrow> bool" where
  "same_files st st' \<longleftrightarrow> preloaded_files st' = preloaded_files st \<and> loadaddr st' = loadaddr st"

lemma same_files_refl [simp]: "same_files st st"
  by (simp add: same_files_def)

lemma rebuild_same [simp]: "same_files st (moduledir_rebuild P st)"
  by (simp add: same_files_def moduledir_rebuild_def Let_def case_prod_beta)

lemma file_search_same: "file_search P name exts st = Some (r, st') \<Longrightarrow> same_files st st'"
  by (auto simp: file_search_def bind_eq_Some_conv Let_def split: option.splits if_splits)

lemma mod_searchmodule_same: "mod_searchmodule P name v st = Some (r, st') \<Longrightarrow> same_files st st'"
  using rebuild_same [of st P]
  by (auto simp: mod_searchmodule_def bind_eq_Some_conv same_files_def Let_def)

lemma file_load_same: "file_load P f d st = (r, st') \<Longrightarrow> same_files st st'"
  by (auto simp: file_load_def same_files_def Let_def split: sum.splits if_splits prod.splits)

section \<open>Dependencies\<close>

definition met :: "preloaded_file list \<Rightarrow> file_metadata \<Rightarrow> bool" where
  "met fps md \<longleftrightarrow> (\<exists>v n. depend_of (md_data md) = Some (v, n) \<and> file_findmodule fps n (Some v) \<noteq> None)"

definition deps_met :: "preloaded_file list \<Rightarrow> preloaded_file \<Rightarrow> bool" where
  "deps_met fps fp \<longleftrightarrow> (\<forall>md \<in> set (f_metadata fp). uint (md_type md) = MODINFOMD_DEPLIST \<longrightarrow> met fps md)"

lemma met_mono: "met fps md \<Longrightarrow> met (fps @ gps) md"
  using file_findmodule_mono by (fastforce simp: met_def)

lemma deps_met_mono: "deps_met fps fp \<Longrightarrow> deps_met (fps @ gps) fp"
  by (simp add: deps_met_def met_mono)

lemma deps_met_walk:
  "deps_met fps fp \<longleftrightarrow> (\<forall>md \<in> set (md_walk MODINFOMD_DEPLIST (file_findmetadata fp MODINFOMD_DEPLIST)). met fps md)"
  by (auto simp: deps_met_def file_findmetadata_def md_walk_find)

lemma deps_met_args [simp]: "deps_met fps (fp\<lparr>f_args := a\<rparr>) = deps_met fps fp"
  by (simp add: deps_met_def)

text \<open>The list grew by files whose dependencies are all there.\<close>

definition grown :: "lstate \<Rightarrow> lstate \<Rightarrow> bool" where
  "grown st st' \<longleftrightarrow> (\<exists>new. preloaded_files st' = preloaded_files st @ new \<and> (\<forall>fp \<in> set new. deps_met (preloaded_files st') fp))"

lemma grownI: "preloaded_files st' = preloaded_files st \<Longrightarrow> grown st st'"
  by (simp add: grown_def)

lemma load_grown_trans:
  assumes "grown st st1" "grown st1 st2"
  shows "grown st st2"
proof -
  obtain new new' where "preloaded_files st1 = preloaded_files st @ new" "preloaded_files st2 = preloaded_files st1 @ new'"
    "\<forall>fp \<in> set new. deps_met (preloaded_files st1) fp" "\<forall>fp \<in> set new'. deps_met (preloaded_files st2) fp"
    using assms unfolding grown_def by blast
  then have "preloaded_files st2 = preloaded_files st @ (new @ new')"
    "\<forall>fp \<in> set (new @ new'). deps_met (preloaded_files st2) fp"
    using deps_met_mono [of "preloaded_files st1" _ new'] by auto
  then show ?thesis unfolding grown_def by blast
qed

lemma grown_met: "grown st st' \<Longrightarrow> met (preloaded_files st) md \<Longrightarrow> met (preloaded_files st') md"
  by (auto simp: grown_def intro: met_mono)

text \<open>The next load address is the end of the last file.\<close>

definition addr_ok :: "lstate \<Rightarrow> bool" where
  "addr_ok st \<longleftrightarrow> preloaded_files st \<noteq> [] \<longrightarrow>
     loadaddr st = f_addr (last (preloaded_files st)) + f_size (last (preloaded_files st))"

definition load_ok :: "lstate \<Rightarrow> int \<times> lstate \<Rightarrow> bool" where
  "load_ok st r \<longleftrightarrow>
     (if fst r = 0 then grown st (snd r) \<and> (addr_ok st \<longrightarrow> addr_ok (snd r))
      else preloaded_files (snd r) = preloaded_files st \<and> (addr_ok st \<longrightarrow> loadaddr (snd r) = loadaddr st))"

lemma load_ok_same: "same_files st st1 \<Longrightarrow> load_ok st1 r \<Longrightarrow> load_ok st r"
  by (auto simp: load_ok_def same_files_def grown_def addr_ok_def)

lemma load_ok_keep: "same_files st st1 \<Longrightarrow> load_ok st (e, st1)"
  by (auto simp: load_ok_def same_files_def grown_def addr_ok_def)

lemma load_ok_complain [simp]:
  "load_ok st (e, complain msg st1) = load_ok st (e, st1)" "same_files st (complain msg st1) = same_files st st1"
  by (simp_all add: load_ok_def grown_def addr_ok_def same_files_def)

definition deps_ok :: "file_metadata list \<Rightarrow> lstate \<Rightarrow> int \<times> lstate \<Rightarrow> bool" where
  "deps_ok mds st r \<longleftrightarrow> grown st (snd r) \<and> (addr_ok st \<longrightarrow> fst r = 0 \<longrightarrow> addr_ok (snd r)) \<and>
     (fst r = 0 \<longrightarrow> (\<forall>md \<in> set (md_walk MODINFOMD_DEPLIST mds). met (preloaded_files (snd r)) md))"

definition fld_ok :: "nat \<Rightarrow> lstate \<Rightarrow> int \<times> lstate \<Rightarrow> bool" where
  "fld_ok base st r \<longleftrightarrow>
     (if fst r = 0 then grown st (snd r) \<and> (addr_ok st \<longrightarrow> addr_ok (snd r)) \<and>
        deps_met (preloaded_files (snd r)) (preloaded_files st ! base)
      else preloaded_files (snd r) = take base (preloaded_files st))"

lemma load_ok_grown: "load_ok st (e, st') \<Longrightarrow> grown st st'"
  by (auto simp: load_ok_def intro: grownI split: if_splits)

lemma deps_ok_found:
  assumes "met (preloaded_files st) md" "deps_ok (metadata_next (md # mds) MODINFOMD_DEPLIST) st r"
  shows "deps_ok (md # mds) st r"
  using assms by (auto simp: deps_ok_def grown_met)

lemma deps_ok_loaded:
  assumes "load_ok st (0, st1)" "met (preloaded_files st1) md"
    and "deps_ok (metadata_next (md # mds) MODINFOMD_DEPLIST) st1 r"
  shows "deps_ok (md # mds) st r"
  using assms by (auto simp: deps_ok_def load_ok_def grown_met intro: load_grown_trans)

lemma fld_ok_deps:
  assumes "base < length (preloaded_files st)" "deps_ok (file_findmetadata (preloaded_files st ! base) MODINFOMD_DEPLIST) st (e, st1)"
  shows "fld_ok base st (if e = 0 then (0, st1) else (e, st1\<lparr>preloaded_files := take base (preloaded_files st1)\<rparr>))"
  using assms by (auto simp: deps_ok_def fld_ok_def grown_def deps_met_walk)

lemma kld_ok_new:
  assumes "fld_ok (length (preloaded_files st)) (st\<lparr>loadaddr := f_addr fp + f_size fp,
      preloaded_files := file_insert_tail (fp\<lparr>f_args := a\<rparr>) (preloaded_files st)\<rparr>) (0, st')"
  shows "load_ok st (0, st')"
  using assms by (auto simp: fld_ok_def load_ok_def grown_def addr_ok_def file_insert_tail_def)

lemma kld_ok_undo:
  assumes "fld_ok (length (preloaded_files st)) (st\<lparr>loadaddr := f_addr fp + f_size fp,
      preloaded_files := file_insert_tail (fp\<lparr>f_args := a\<rparr>) (preloaded_files st)\<rparr>) (e, st')" "e \<noteq> 0"
    and "preloaded_files st \<noteq> []" "rd (preloaded_files st') (length (preloaded_files st) - 1) = Some lf"
  shows "load_ok st (ENOENT, st'\<lparr>preloaded_files := take (length (preloaded_files st)) (preloaded_files st'),
      loadaddr := f_addr lf + f_size lf\<rparr>)"
  using assms by (auto simp: fld_ok_def load_ok_def addr_ok_def file_insert_tail_def ENOENT_def mem_simps last_conv_nth)

lemma loading_ok:
  "mod_loadkld P fuel kldname argv st = Some r \<Longrightarrow> load_ok st r"
  "mod_load P fuel modname verinfo argv st = Some r \<Longrightarrow> load_ok st r"
  "deps_loop P fuel mds st = Some r \<Longrightarrow> deps_ok mds st r"
  "file_load_dependencies P fuel base st = Some r \<Longrightarrow> fld_ok base st r"
proof (induction P fuel kldname argv st and P fuel modname verinfo argv st and P fuel mds st and P fuel base st
    arbitrary: r and r and r and r
    rule: mod_loadkld_mod_load_deps_loop_file_load_dependencies.induct)
  case (2 P fuel kldname argv st)
  from "2.prems" obtain fname st1 where s: "file_search P kldname (Some kld_ext_list) st = Some (fname, st1)"
    by (auto simp: mod_loadkld.simps(2) bind_eq_Some_conv)
  have same: "same_files st st1" using s by (rule file_search_same)
  show ?case
  proof (cases "fname = None \<or> file_findfile (preloaded_files st1) fname None \<noteq> None")
    case True
    then show ?thesis using "2.prems" s same load_ok_keep [OF same]
      by (cases fname) (auto simp: mod_loadkld.simps(2))
  next
    case False
    then obtain filename where f: "fname = Some filename" "file_findfile (preloaded_files st1) (Some filename) None = None" by auto
    obtain res st2 where l: "file_load P filename (loadaddr st1) st1 = (res, st2)" by force
    then have same2: "same_files st st2" using same file_load_same [OF l] by (simp add: same_files_def)
    show ?thesis
    proof (cases res)
      case (Inl err)
      then show ?thesis using "2.prems" s f l load_ok_keep [OF same2]
        by (auto simp: mod_loadkld.simps(2) split: if_splits)
    next
      case (Inr fp)
      let ?st2 = "\<lambda>a. st2\<lparr>loadaddr := f_addr fp + f_size fp,
        preloaded_files := file_insert_tail (fp\<lparr>f_args := a\<rparr>) (preloaded_files st2)\<rparr>"
      let ?base = "length (preloaded_files st2)"
      from "2.prems" s f l Inr obtain a err st3 where a: "args_of (p_malloc P) argv = Some a"
        and d: "file_load_dependencies P fuel ?base (?st2 a) = Some (err, st3)"
        and r: "(if err = 0 then Some (0, st3)
              else if ?base = 0 then None
              else do {
                last_file \<leftarrow> rd (preloaded_files st3) (?base - 1);
                Some (ENOENT, st3\<lparr>preloaded_files := take ?base (preloaded_files st3),
                                  loadaddr := f_addr last_file + f_size last_file\<rparr>)
              }) = Some r"
        by (auto simp: mod_loadkld.simps(2) bind_eq_Some_conv Let_def)
      have fl: "fld_ok ?base (?st2 a) (err, st3)"
        using "2.IH" s f l Inr a d by (auto simp: Let_def)
      have "load_ok st2 r"
      proof (cases "err = 0")
        case True
        then show ?thesis using r fl kld_ok_new by auto
      next
        case False
        then obtain lf where "rd (preloaded_files st3) (?base - 1) = Some lf" "?base \<noteq> 0"
            "r = (ENOENT, st3\<lparr>preloaded_files := take ?base (preloaded_files st3), loadaddr := f_addr lf + f_size lf\<rparr>)"
          using r by (auto simp: bind_eq_Some_conv split: if_splits)
        then show ?thesis using kld_ok_undo [OF fl False] by simp
      qed
      then show ?thesis using same2 by (rule load_ok_same [rotated])
    qed
  qed
next
  case (3 P fuel modname verinfo argv st)
  show ?case
  proof (cases "file_havepath P modname")
    case True
    then show ?thesis using "3.prems" "3.IH"(1) by (simp add: mod_load.simps)
  next
    case False
    show ?thesis
    proof (cases "file_findmodule (preloaded_files st) modname verinfo")
      case (Some mp)
      then show ?thesis using "3.prems" False load_ok_keep [of st st] by (auto simp: mod_load.simps)
    next
      case None
      then obtain fname st1 where s: "mod_searchmodule P modname verinfo st = Some (fname, st1)"
        using "3.prems" False by (auto simp: mod_load.simps bind_eq_Some_conv)
      note same = mod_searchmodule_same [OF s]
      show ?thesis
      proof (cases fname)
        case None
        then show ?thesis using "3.prems" False \<open>file_findmodule _ _ _ = None\<close> s load_ok_keep [OF same]
          by (auto simp: mod_load.simps)
      next
        case (Some filename)
        then have "load_ok st1 r" using "3.prems" "3.IH"(2) False \<open>file_findmodule _ _ _ = None\<close> s
          by (auto simp: mod_load.simps)
        then show ?thesis using same by (rule load_ok_same [rotated])
      qed
    qed
  qed
next
  case (4 P fuel st)
  then show ?case by (auto simp: deps_ok_def grown_def)
next
  case (5 P fuel md mds st)
  from "5.prems" obtain v n where d: "depend_of (md_data md) = Some (v, n)"
    by (auto simp: deps_loop.simps(2) bind_eq_Some_conv)
  show ?case
  proof (cases "file_findmodule (preloaded_files st) n (Some v)")
    case (Some mp)
    then have "met (preloaded_files st) md" using d by (auto simp: met_def)
    then show ?thesis using "5.prems" "5.IH"(1) d Some
      by (intro deps_ok_found) (auto simp: deps_loop.simps(2))
  next
    case None
    then obtain e st1 where m: "mod_load P fuel n (Some v) [] st = Some (e, st1)"
      using "5.prems" d by (auto simp: deps_loop.simps(2) bind_eq_Some_conv)
    then have lo: "load_ok st (e, st1)" using "5.IH"(2) d None by auto
    show ?thesis
    proof (cases "e = 0 \<and> file_findmodule (preloaded_files st1) n (Some v) \<noteq> None")
      case True
      then have "met (preloaded_files st1) md" using d by (auto simp: met_def)
      moreover have "deps_ok (metadata_next (md # mds) MODINFOMD_DEPLIST) st1 r"
        using "5.prems" "5.IH"(3) d None m True by (auto simp: deps_loop.simps(2))
      ultimately show ?thesis using lo True by (intro deps_ok_loaded) auto
    next
      case False
      then have "fst r \<noteq> 0 \<and> preloaded_files (snd r) = preloaded_files st1"
        using "5.prems" d None m by (auto simp: deps_loop.simps(2) ENOENT_def split: if_splits)
      then show ?thesis using load_ok_grown [OF lo] by (auto simp: deps_ok_def grown_def)
    qed
  qed
next
  case (6 P fuel base st)
  from "6.prems" obtain e st1 where b: "base < length (preloaded_files st)"
    and d: "deps_loop P fuel (file_findmetadata (preloaded_files st ! base) MODINFOMD_DEPLIST) st = Some (e, st1)"
    and r: "r = (if e = 0 then (0, st1) else (e, st1\<lparr>preloaded_files := take base (preloaded_files st1)\<rparr>))"
    by (auto simp: file_load_dependencies.simps bind_eq_Some_conv mem_simps split: if_splits)
  have "deps_ok (file_findmetadata (preloaded_files st ! base) MODINFOMD_DEPLIST) st (e, st1)"
    using "6.IH" b d by (auto simp: mem_simps)
  then show ?case unfolding r using b by (intro fld_ok_deps)
qed simp

section \<open>All or nothing\<close>

text \<open>
  A result \<open>e\<close> that is an error goes with the old list of files and the old load address; 0 goes with more files behind the
  old ones, all of whose dependency records are satisfied by a module of the final list, and a load address at the end of
  the last file.
\<close>

definition all_or_nothing :: "lstate \<Rightarrow> int \<Rightarrow> lstate \<Rightarrow> bool" where
  "all_or_nothing st e st' \<longleftrightarrow>
     (if e \<noteq> 0 then preloaded_files st' = preloaded_files st \<and> loadaddr st' = loadaddr st
      else \<exists>new. preloaded_files st' = preloaded_files st @ new \<and> addr_ok st' \<and>
        (\<forall>fp \<in> set new. \<forall>md \<in> set (f_metadata fp). uint (md_type md) = MODINFOMD_DEPLIST \<longrightarrow>
          (\<exists>v n. depend_of (md_data md) = Some (v, n) \<and> file_findmodule (preloaded_files st') n (Some v) \<noteq> None)))"

lemma load_all_or_nothing:
  assumes "addr_ok st"
    and "mod_loadkld P fuel kldname argv st = Some (e, st') \<or> mod_load P fuel modname verinfo argv st = Some (e, st')"
  shows "all_or_nothing st e st'"
proof -
  have "load_ok st (e, st')" using assms(2) loading_ok(1,2) by blast
  then show ?thesis using assms(1) by (auto simp: all_or_nothing_def load_ok_def grown_def deps_met_def met_def)
qed

definition demo_state :: lstate where
  "demo_state = \<lparr>preloaded_files = [\<lparr>f_name = [107], f_type = [], f_args = None, f_metadata = [], f_loader = 0,
       f_addr = 0x1000, f_size = 0x1000, f_modules = []\<rparr>], loadaddr = 0x2000, moduledir_list = [],
     environ = (\<lambda>n. None), command_errbuf = No_message\<rparr>"

end
