(* ===== verification/LoadTotal.thy ===== *)
theory LoadTotal
  imports LoadFacts
begin

text \<open>
  Loading ends and does not fault: on well-formed \<^verbatim>\<open>linker.hints\<close> files and dependency records,
  once a kernel is loaded, every request of \<^verbatim>\<open>mod_load\<close> or \<^verbatim>\<open>mod_loadkld\<close> returns, however the
  dependencies refer to each other.
\<close>

section \<open>Well-formed surroundings\<close>

definition dir_ok :: "moduledir \<Rightarrow> bool" where
  "dir_ok mdp \<longleftrightarrow> 0 \<notin> set (d_path mdp) \<and>
     (\<forall>h. d_hints mdp = Some h \<longrightarrow> (\<exists>rs. wf_hints rs \<and> h = enc_hints rs))"

definition search_ok :: "lstate \<Rightarrow> bool" where
  "search_ok st \<longleftrightarrow> (\<forall>mdp \<in> set (moduledir_list st). dir_ok mdp) \<and>
     (\<forall>p. environ st ''module_path'' = Some p \<longrightarrow> 0 \<notin> set p)"

definition hint_files_ok :: "platform \<Rightarrow> bool" where
  "hint_files_ok P \<longleftrightarrow> (\<forall>path reg sz contents h.
     p_stat P path = Some (reg, sz) \<and> p_open P path = Some contents \<and>
     le_field contents 0 4 = Some LINKER_HINTS_VERSION \<and> slice contents 4 (nat (sz - 4)) = Some h \<longrightarrow>
     (\<exists>rs. wf_hints rs \<and> h = enc_hints rs))"

definition deps_wf :: "preloaded_file \<Rightarrow> bool" where
  "deps_wf fp \<longleftrightarrow> (\<forall>md \<in> set (f_metadata fp). uint (md_type md) = MODINFOMD_DEPLIST \<longrightarrow> depend_of (md_data md) \<noteq> None)"

text \<open>A loader names its file as it was asked, and only files of \<open>N\<close> can be loaded.\<close>

definition loaders_ok :: "platform \<Rightarrow> byte list set \<Rightarrow> bool" where
  "loaders_ok P N \<longleftrightarrow> finite N \<and> (\<forall>l \<in> set (p_formats P). \<forall>fps fn d fp. fst (l fps fn d) = Inr fp \<longrightarrow>
     f_name fp = fn \<and> fn \<in> N \<and> deps_wf fp)"

definition world_ok :: "platform \<Rightarrow> byte list set \<Rightarrow> bool" where
  "world_ok P N \<longleftrightarrow> malloc_total P \<and> hint_files_ok P \<and> loaders_ok P N"

section \<open>The searches\<close>

lemma set_strip_slashes: "set (strip_slashes cp) \<subseteq> set cp"
proof (induction cp rule: strip_slashes.induct)
  case (1 cp)
  then show ?case by (subst strip_slashes.simps) (auto dest: in_set_butlastD)
qed

lemma place_dir_ok:
  assumes "place_dir alloc cp mdps = Some l" "0 \<notin> set cp" "\<forall>mdp \<in> set mdps. dir_ok mdp"
  shows "\<forall>mdp \<in> set l. dir_ok mdp"
proof -
  have "keep_dir cp mdps = Some l \<Longrightarrow> \<forall>mdp \<in> set mdps. dir_ok mdp \<Longrightarrow> \<forall>mdp \<in> set l. dir_ok mdp" for l
    by (induction mdps arbitrary: l) (auto simp: dir_ok_def split: if_splits)
  then show ?thesis using assms
    by (auto simp: place_dir_def new_dir_def dir_ok_def split: option.splits if_splits)
qed

lemma rebuild_loop_ok:
  "0 \<notin> set ep \<Longrightarrow> \<forall>mdp \<in> set mdps. dir_ok mdp \<Longrightarrow> \<forall>mdp \<in> set (fst (rebuild_loop alloc ep mdps)). dir_ok mdp"
proof (induction alloc ep mdps rule: rebuild_loop.induct)
  case (1 alloc ep mdps)
  let ?cp = "strip_slashes (takeWhile (\<lambda>c. c \<noteq> 59) ep)"
  have cp: "0 \<notin> set ?cp" using "1.prems"(1) set_strip_slashes [of "takeWhile (\<lambda>c. c \<noteq> 59) ep"]
    by (auto dest: set_takeWhileD)
  have dr: "0 \<notin> set (tl (dropWhile (\<lambda>c. c \<noteq> 59) ep))"
    using "1.prems"(1) by (metis list.set_sel(2) set_dropWhileD tl_Nil)
  show ?case
  proof (cases "ep = [] \<or> place_dir alloc ?cp mdps = None")
    case True
    with "1.prems" show ?thesis by (subst rebuild_loop.simps) auto
  next
    case False
    then obtain l where l: "place_dir alloc ?cp mdps = Some l" by auto
    have "\<forall>mdp \<in> set l. dir_ok mdp" using place_dir_ok [OF l cp "1.prems"(2)] .
    with "1.IH" [OF _ l refl _ dr] False l show ?thesis
      by (subst rebuild_loop.simps) (auto simp: Let_def)
  qed
qed

lemma rebuild_search_ok: "search_ok st \<Longrightarrow> search_ok (moduledir_rebuild P st)"
proof -
  assume st: "search_ok st"
  let ?path = "case environ st ''module_path'' of None \<Rightarrow> default_searchpath | Some p \<Rightarrow> p"
  let ?m = "map (\<lambda>mdp. mdp\<lparr>d_removed := True\<rparr>) (moduledir_list st)"
  have "0 \<notin> set ?path" using st by (auto simp: search_ok_def default_searchpath_def split: option.splits)
  moreover have "\<forall>mdp \<in> set ?m. dir_ok mdp" using st by (auto simp: search_ok_def dir_ok_def)
  ultimately have "\<forall>mdp \<in> set (fst (rebuild_loop (p_malloc P) ?path ?m)). dir_ok mdp" by (rule rebuild_loop_ok)
  then show ?thesis using st
    by (auto simp: search_ok_def moduledir_rebuild_def Let_def case_prod_beta)
qed

lemma path_join_nz: "0 \<notin> set p \<Longrightarrow> 0 \<notin> set n \<Longrightarrow> 0 \<notin> set (path_join p n)"
  by (auto simp: path_join_def)

abbreviation nz_opt :: "byte list option \<Rightarrow> bool" where
  "nz_opt r \<equiv> case r of None \<Rightarrow> True | Some x \<Rightarrow> 0 \<notin> set x"

lemma kld_lookup_ok:
  assumes "malloc_total P" "0 \<notin> set p" "0 \<notin> set name"
  shows "\<exists>r. file_lookup P p name (length name) (Some kld_ext_list) = Some r \<and> nz_opt r"
  using file_lookup_kld [OF assms] path_join_nz [OF assms(2,3)] kld_ext_nz
  by (auto simp: find_Some_iff split: option.splits)

lemma search_dirs_ok:
  assumes "malloc_total P" "0 \<notin> set name"
  shows "\<forall>mdp \<in> set mdps. dir_ok mdp \<Longrightarrow> \<exists>r. search_dirs P name (Some kld_ext_list) mdps = Some r \<and> nz_opt r"
proof (induction mdps)
  case (Cons mdp mdps)
  have "0 \<notin> set (d_path mdp)" using Cons.prems by (simp add: dir_ok_def)
  from kld_lookup_ok [OF assms(1) this assms(2)] Cons show ?case
    by (auto split: option.splits)
qed simp

lemma fullpath_total:
  assumes "malloc_total P" "0 \<notin> set (d_path mdp)" "0 \<notin> set fname"
  shows "\<exists>path. moduledir_fullpath (p_malloc P) mdp fname = Some path"
proof -
  let ?n = "length (d_path mdp) + length fname + 2"
  obtain b where b: "p_malloc P ?n = Some b" "length b = ?n"
    using assms(1) unfolding malloc_total_def alloc_ok_def by blast
  let ?b1 = "put b 0 (d_path mdp @ [0])"
  have b1: "cstr ?b1 0 = Some (d_path mdp)" "length ?b1 = ?n"
    using b(2) assms(2) by (auto simp: cstr_iff put_def)
  obtain b2 where b2: "blk_strcat ?b1 [47] = Some b2" "length b2 = ?n" "cstr b2 0 = Some (d_path mdp @ [47])"
    using blk_strcat_append [OF b1(1), of "[47]"] b1(2) by auto
  obtain b3 where "blk_strcat b2 fname = Some b3" "cstr b3 0 = Some (d_path mdp @ [47] @ fname)"
    using blk_strcat_append [OF b2(3), of fname] b2(2) assms(3) by auto
  then show ?thesis using b b2(1) by (simp add: moduledir_fullpath_def blk_strcpy_in)
qed

lemma readhints_ok:
  assumes "malloc_total P" "hint_files_ok P" "dir_ok mdp"
  shows "\<exists>mdp'. moduledir_readhints P mdp = Some mdp' \<and> dir_ok mdp' \<and> d_path mdp' = d_path mdp"
proof (cases "d_hints mdp \<noteq> None \<or> d_nohints mdp")
  case True
  with assms(3) show ?thesis by (simp add: moduledir_readhints_def)
next
  case False
  obtain path where path: "moduledir_fullpath (p_malloc P) mdp (bytes_of ''linker.hints'') = Some path"
    using fullpath_total [OF assms(1), of mdp "bytes_of ''linker.hints''"] assms(3) by (auto simp: dir_ok_def)
  have ok: "dir_ok (mdp\<lparr>d_nohints := True\<rparr>)" using assms(3) by (simp add: dir_ok_def)
  have "dir_ok (mdp\<lparr>d_hints := Some h\<rparr>)"
    if "p_stat P path = Some (reg, sz)" "p_open P path = Some contents"
      "le_field contents 0 4 = Some LINKER_HINTS_VERSION" "slice contents 4 (nat (sz - 4)) = Some h" for reg sz contents h
    using assms(2,3) that unfolding hint_files_ok_def dir_ok_def by simp
  then show ?thesis using path False ok
    by (auto simp: moduledir_readhints_def split: option.splits)
qed

lemma if_regular_nz: "0 \<notin> set p \<Longrightarrow> nz_opt (if_regular P p)"
  by (simp add: if_regular_def)

lemma pick_nz:
  assumes "wf_hints rs" "pick nm ver rs None 0 = (f, b, bv)"
  shows "nz_opt f" "nz_opt b"
proof -
  have nz: "0 \<notin> set x" if "HVersion nm v x \<in> set rs" for v x
    using assms(1) that by (force simp: wf_hints_def)
  show "nz_opt f" "nz_opt b"
    using pick_from_records [OF assms(2)] nz by (fastforce split: option.splits)+
qed

lemma hints_choice_nz:
  assumes "wf_hints rs" "0 \<notin> set p" "0 \<notin> set nm"
  shows "nz_opt (hints_choice P p nm ver rs)"
proof -
  obtain f b bv where pk: "pick nm ver rs None 0 = (f, b, bv)" by (cases "pick nm ver rs None 0") auto
  note nz = pick_nz [OF assms(1) pk]
  show ?thesis using nz pk path_join_nz [OF assms(2)] path_join_nz [OF assms(2,3)] kld_ext_nz
    by (auto simp: hints_choice_def if_regular_def find_Some_iff split: option.splits)
qed

lemma mod_search_hints_ok:
  assumes "malloc_total P" "hint_files_ok P" "dir_ok mdp" "0 \<notin> set nm"
  shows "\<exists>r mdp'. mod_search_hints P nm ver mdp = Some (r, mdp') \<and> nz_opt r \<and> dir_ok mdp'"
proof -
  obtain mdp' where m: "moduledir_readhints P mdp = Some mdp'" "dir_ok mdp'" using readhints_ok [OF assms(1-3)] by auto
  have nz: "0 \<notin> set (d_path mdp')" using m(2) by (simp add: dir_ok_def)
  show ?thesis
  proof (cases "d_hints mdp'")
    case None
    from kld_lookup_ok [OF assms(1) nz assms(4)] show ?thesis using m None
      by (auto simp: mod_search_hints_def)
  next
    case (Some h)
    then obtain rs where rs: "wf_hints rs" "d_hints mdp' = Some (enc_hints rs)" using m(2) by (auto simp: dir_ok_def)
    have "moduledir_readhints P mdp' = Some mdp'" using Some by (simp add: moduledir_readhints_def)
    then have "mod_search_hints P nm ver mdp = mod_search_hints P nm ver mdp'"
      using m(1) by (simp add: mod_search_hints_def)
    then show ?thesis
      using mod_search_hints_choice [OF assms(1) nz assms(4) rs(2,1)] hints_choice_nz [OF rs(1) nz assms(4)] m(2) by simp
  qed
qed

lemma search_hints_ok:
  assumes "malloc_total P" "hint_files_ok P" "0 \<notin> set nm"
  shows "\<forall>mdp \<in> set mdps. dir_ok mdp \<Longrightarrow>
    \<exists>r mdps'. search_hints P nm ver mdps = Some (r, mdps') \<and> nz_opt r \<and> (\<forall>mdp \<in> set mdps'. dir_ok mdp)"
proof (induction mdps)
  case (Cons mdp mdps)
  from mod_search_hints_ok [OF assms(1,2) _ assms(3), of mdp ver] Cons show ?case
    by (fastforce split: option.splits)
qed simp

lemma file_search_ok:
  assumes "malloc_total P" "search_ok st" "nz_opt name"
  shows "\<exists>r st'. file_search P name (Some kld_ext_list) st = Some (r, st') \<and> nz_opt r \<and> search_ok st'"
proof (cases "\<exists>n. name = Some n \<and> n \<noteq> [] \<and> \<not> file_havepath P n")
  case True
  then obtain n where n: "name = Some n" "n \<noteq> []" "\<not> file_havepath P n" by blast
  have ok: "search_ok (moduledir_rebuild P st)" using assms(2) by (rule rebuild_search_ok)
  then have "\<forall>mdp \<in> set (moduledir_list (moduledir_rebuild P st)). dir_ok mdp" by (simp add: search_ok_def)
  then obtain r where "search_dirs P n (Some kld_ext_list) (moduledir_list (moduledir_rebuild P st)) = Some r" "nz_opt r"
    using search_dirs_ok [OF assms(1), of n "moduledir_list (moduledir_rebuild P st)"] assms(3) n(1) by auto
  with ok n show ?thesis by (simp add: file_search_def)
next
  case False
  then show ?thesis using assms(2,3) by (auto simp: file_search_def split: option.splits)
qed

lemma mod_searchmodule_ok:
  assumes "malloc_total P" "hint_files_ok P" "search_ok st" "0 \<notin> set nm"
  shows "\<exists>r st'. mod_searchmodule P nm ver st = Some (r, st') \<and> nz_opt r \<and> search_ok st'"
proof -
  have "search_ok (moduledir_rebuild P st)" using assms(3) by (rule rebuild_search_ok)
  then show ?thesis
    using search_hints_ok [OF assms(1,2,4), of "moduledir_list (moduledir_rebuild P st)" ver]
    by (auto simp: mod_searchmodule_def search_ok_def Let_def)
qed

section \<open>Every request returns\<close>

lemma load_formats_ok:
  "fst (load_formats fmts i fps fn d) = Inr fp \<Longrightarrow> \<exists>l \<in> set fmts. \<exists>fp0 k. fst (l fps fn d) = Inr fp0 \<and> fp = fp0\<lparr>f_loader := k\<rparr>"
  by (induction fmts arbitrary: i) (auto split: sum.splits if_splits prod.splits)

lemma file_load_ok:
  assumes "loaders_ok P N" "file_load P fn d st = (Inr fp, st')"
  shows "f_name fp = fn" "fn \<in> N" "deps_wf fp"
proof -
  have "fst (load_formats (p_formats P) 0 (preloaded_files st) fn (arch_addr P fn d)) = Inr fp"
    using assms(2) by (auto simp: file_load_def Let_def split: sum.splits prod.splits)
  from load_formats_ok [OF this] assms(1) show "f_name fp = fn" "fn \<in> N" "deps_wf fp"
    by (auto simp: loaders_ok_def deps_wf_def)
qed

lemma file_load_search_ok: "file_load P fn d st = (r, st') \<Longrightarrow> search_ok st' = search_ok st"
  by (auto simp: file_load_def search_ok_def Let_def split: sum.splits if_splits prod.splits)

lemma args_of_total:
  assumes "malloc_total P" "\<forall>a \<in> set argv. 0 \<notin> set a"
  shows "\<exists>a. args_of (p_malloc P) argv = Some a"
proof (cases "argv = []")
  case True
  then show ?thesis by (simp add: args_of_def unargv_def)
next
  case False
  obtain b where "p_malloc P (sum_list (map (\<lambda>a. length a + 2) argv)) = Some b"
    using assms(1) unfolding malloc_total_def by blast
  with unargv_joins [of "p_malloc P" argv b] assms False show ?thesis
    by (auto simp: args_of_def malloc_total_def)
qed

lemma file_findfile_name: "file_findfile fps (Some n) None = None \<longleftrightarrow> n \<notin> f_name ` set fps"
  by (induction fps) auto

definition names :: "lstate \<Rightarrow> byte list set" where
  "names st = f_name ` set (preloaded_files st)"

lemma names_grown: "grown st st' \<Longrightarrow> names st \<subseteq> names st'"
  by (auto simp: grown_def names_def)

lemma names_same: "same_files st st' \<Longrightarrow> names st' = names st"
  by (simp add: same_files_def names_def)

lemma unloaded_mono: "finite N \<Longrightarrow> names st \<subseteq> names st' \<Longrightarrow> card (N - names st') \<le> card (N - names st)"
  by (intro card_mono) auto

lemma depend_of_nz: "depend_of data = Some (v, n) \<Longrightarrow> 0 \<notin> set n"
  by (auto simp: depend_of_def bind_eq_Some_conv dest: cstr_nonzero)

definition returns :: "(int \<times> lstate) option \<Rightarrow> bool" where
  "returns r \<longleftrightarrow> (\<exists>e st'. r = Some (e, st') \<and> search_ok st')"

lemma returnsI: "search_ok st' \<Longrightarrow> returns (Some (e, st'))"
  by (simp add: returns_def)

lemma search_ok_upd [simp]:
  "search_ok (complain msg st) = search_ok st" "search_ok (st\<lparr>preloaded_files := fs\<rparr>) = search_ok st"
  "search_ok (st\<lparr>loadaddr := a\<rparr>) = search_ok st"
  by (simp_all add: search_ok_def)

text \<open>One step of \<open>mod_loadkld\<close> reduces the number of files still to be loaded.\<close>

lemma unloaded_step:
  assumes "finite N" "fn \<in> N" "fn \<notin> names st" "f_name fp = fn" "card (N - names st) < Suc fuel"
  shows "card (N - names (st\<lparr>loadaddr := x, preloaded_files := file_insert_tail (fp\<lparr>f_args := a\<rparr>) (preloaded_files st)\<rparr>)) < fuel"
proof -
  have "N - names (st\<lparr>loadaddr := x, preloaded_files := file_insert_tail (fp\<lparr>f_args := a\<rparr>) (preloaded_files st)\<rparr>) = (N - names st) - {fn}"
    using assms(4) by (auto simp: names_def file_insert_tail_def)
  moreover have "card ((N - names st) - {fn}) < card (N - names st)"
    using assms(1-3) by (intro card_Diff1_less) auto
  ultimately show ?thesis using assms(5) by simp
qed

lemma loading_total:
  fixes N :: "byte list set"
  assumes "world_ok P N"
  shows "search_ok st \<Longrightarrow> preloaded_files st \<noteq> [] \<Longrightarrow> card (N - names st) < fuel \<Longrightarrow> nz_opt kldname \<Longrightarrow>
      \<forall>a \<in> set argv. 0 \<notin> set a \<Longrightarrow> returns (mod_loadkld P fuel kldname argv st)"
    and "search_ok st \<Longrightarrow> preloaded_files st \<noteq> [] \<Longrightarrow> card (N - names st) < fuel \<Longrightarrow> 0 \<notin> set modname \<Longrightarrow>
      \<forall>a \<in> set argv. 0 \<notin> set a \<Longrightarrow> returns (mod_load P fuel modname verinfo argv st)"
    and "search_ok st \<Longrightarrow> preloaded_files st \<noteq> [] \<Longrightarrow> card (N - names st) < fuel \<Longrightarrow>
      \<forall>md \<in> set (md_walk MODINFOMD_DEPLIST mds). depend_of (md_data md) \<noteq> None \<Longrightarrow> returns (deps_loop P fuel mds st)"
    and "search_ok st \<Longrightarrow> base < length (preloaded_files st) \<Longrightarrow> card (N - names st) < fuel \<Longrightarrow>
      deps_wf (preloaded_files st ! base) \<Longrightarrow> returns (file_load_dependencies P fuel base st)"
  using assms
proof (induction P fuel kldname argv st and P fuel modname verinfo argv st and P fuel mds st and P fuel base st
    rule: mod_loadkld_mod_load_deps_loop_file_load_dependencies.induct)
  case (2 P fuel kldname argv st)
  have w: "malloc_total P" "loaders_ok P N" "finite N" using "2.prems" by (auto simp: world_ok_def loaders_ok_def)
  obtain fname st1 where s: "file_search P kldname (Some kld_ext_list) st = Some (fname, st1)" "nz_opt fname" "search_ok st1"
    using file_search_ok [OF w(1) "2.prems"(1,4)] by blast
  have same: "same_files st st1" using s(1) by (rule file_search_same)
  show ?case
  proof (cases "fname = None \<or> file_findfile (preloaded_files st1) fname None \<noteq> None")
    case True
    then show ?thesis using s by (cases fname) (auto simp: mod_loadkld.simps(2) returns_def)
  next
    case False
    then obtain fn where f: "fname = Some fn" "file_findfile (preloaded_files st1) (Some fn) None = None" by auto
    obtain res st2 where l: "file_load P fn (loadaddr st1) st1 = (res, st2)" by force
    note same1 = file_load_same [OF l]
    have ok2: "search_ok st2" using file_load_search_ok [OF l] s(3) by simp
    have nm: "names st2 = names st" using same same1 names_same by blast
    show ?thesis
    proof (cases res)
      case (Inl err)
      then show ?thesis using s f l ok2 by (auto simp: mod_loadkld.simps(2) returns_def)
    next
      case (Inr fp)
      let ?st2 = "\<lambda>a. st2\<lparr>loadaddr := f_addr fp + f_size fp,
        preloaded_files := file_insert_tail (fp\<lparr>f_args := a\<rparr>) (preloaded_files st2)\<rparr>"
      let ?base = "length (preloaded_files st2)"
      note fl = file_load_ok [OF w(2) l [unfolded Inr]]
      obtain a where a: "args_of (p_malloc P) argv = Some a" using args_of_total [OF w(1) "2.prems"(5)] by auto
      have b0: "preloaded_files st2 \<noteq> []" using "2.prems"(2) same same1 by (simp add: same_files_def)
      have "fn \<notin> names st2" using f(2) same1 by (simp add: file_findfile_name names_def same_files_def)
      then have "card (N - names (?st2 a)) < fuel"
        using unloaded_step [OF w(3) fl(2) _ fl(1), of st2 fuel] "2.prems"(3) nm by simp
      moreover have "deps_wf (preloaded_files (?st2 a) ! ?base)" using fl(3) by (simp add: file_insert_tail_def deps_wf_def)
      ultimately have "returns (file_load_dependencies P fuel ?base (?st2 a))"
        using "2.IH" [OF s(1) refl f(1) _ l [symmetric, unfolded Inr] refl a refl] f(2) ok2 "2.prems"(6)
        by (simp add: file_insert_tail_def)
      then obtain e st3 where d: "file_load_dependencies P fuel ?base (?st2 a) = Some (e, st3)" "search_ok st3"
        by (auto simp: returns_def)
      have "preloaded_files st3 = preloaded_files st2" if "e \<noteq> 0"
        using loading_ok(4) [OF d(1)] that by (simp add: fld_ok_def file_insert_tail_def)
      then show ?thesis using s f l Inr a d b0
        by (auto simp: mod_loadkld.simps(2) returns_def Let_def)
    qed
  qed
next
  case (3 P fuel modname verinfo argv st)
  have w: "malloc_total P" "hint_files_ok P" using "3.prems" by (auto simp: world_ok_def)
  show ?case
  proof (cases "file_havepath P modname")
    case True
    then show ?thesis using "3.prems" "3.IH"(1) by (simp add: mod_load.simps)
  next
    case False
    show ?thesis
    proof (cases "file_findmodule (preloaded_files st) modname verinfo")
      case (Some mp)
      then show ?thesis using "3.prems" False by (auto simp: mod_load.simps returns_def)
    next
      case None
      obtain fname st1 where s: "mod_searchmodule P modname verinfo st = Some (fname, st1)" "nz_opt fname" "search_ok st1"
        using mod_searchmodule_ok [OF w "3.prems"(1,4)] by blast
      note same = mod_searchmodule_same [OF s(1)]
      show ?thesis
      proof (cases fname)
        case None
        then show ?thesis using False \<open>file_findmodule _ _ _ = None\<close> s by (auto simp: mod_load.simps returns_def)
      next
        case (Some filename)
        then have "returns (mod_loadkld P fuel (Some filename) argv st1)"
          using "3.IH"(2) [OF False \<open>file_findmodule _ _ _ = None\<close> s(1) refl Some s(3)] same "3.prems" s(2) names_same [OF same]
          by (simp add: same_files_def)
        then show ?thesis using False \<open>file_findmodule _ _ _ = None\<close> s Some by (simp add: mod_load.simps)
      qed
    qed
  qed
next
  case (4 P fuel st)
  then show ?case by (simp add: returns_def)
next
  case (5 P fuel md mds st)
  have fin: "finite N" using "5.prems" by (auto simp: world_ok_def loaders_ok_def)
  obtain v n where d: "depend_of (md_data md) = Some (v, n)" using "5.prems"(4) by auto
  show ?case
  proof (cases "file_findmodule (preloaded_files st) n (Some v)")
    case (Some mp)
    then show ?thesis using "5.prems" "5.IH"(1) d by (simp add: deps_loop.simps(2))
  next
    case None
    then have "returns (mod_load P fuel n (Some v) [] st)"
      using "5.IH"(2) [OF d refl] "5.prems" depend_of_nz [OF d] by simp
    then obtain e st1 where m: "mod_load P fuel n (Some v) [] st = Some (e, st1)" "search_ok st1" by (auto simp: returns_def)
    have g: "grown st st1" using load_ok_grown loading_ok(2) [OF m(1)] by blast
    then have "card (N - names st1) < fuel" "preloaded_files st1 \<noteq> []"
      using unloaded_mono [OF fin names_grown [OF g]] "5.prems" by (auto simp: grown_def)
    then show ?thesis using "5.IH"(3) [OF d refl _ m(1) refl] None m "5.prems" d
      by (auto simp: deps_loop.simps(2) returns_def)
  qed
next
  case (6 P fuel base st)
  have "\<forall>md \<in> set (md_walk MODINFOMD_DEPLIST (file_findmetadata (preloaded_files st ! base) MODINFOMD_DEPLIST)).
      depend_of (md_data md) \<noteq> None"
    using "6.prems"(4) by (auto simp: file_findmetadata_def md_walk_find deps_wf_def)
  then have "returns (deps_loop P fuel (file_findmetadata (preloaded_files st ! base) MODINFOMD_DEPLIST) st)"
    using "6.IH" "6.prems" by fastforce
  then show ?case using "6.prems"(2) by (auto simp: file_load_dependencies.simps returns_def)
qed simp

section \<open>Properties\<close>

text \<open>
  C23: once a file is loaded, every \<^verbatim>\<open>mod_loadkld\<close> and \<^verbatim>\<open>mod_load\<close> returns, without leaving a buffer or
  dereferencing \<open>NULL\<close>: a nesting depth above the number of loadable files that are not loaded yet
  is enough, whatever the dependencies, cyclic ones included.  It relies on a \<^verbatim>\<open>malloc\<close> that succeeds,
  on \<^verbatim>\<open>linker.hints\<close> files made of complete records, and on loaders that name the file they were
  given and build complete dependency records.
\<close>

theorem loading_returns:
  assumes "malloc_total P" "hint_files_ok P" "loaders_ok P N"
    and "search_ok st" "preloaded_files st \<noteq> []" "card (N - f_name ` set (preloaded_files st)) < fuel"
    and "0 \<notin> set nm" "\<forall>a \<in> set argv. 0 \<notin> set a"
  shows "mod_loadkld P fuel (Some nm) argv st \<noteq> None \<and> mod_load P fuel nm verinfo argv st \<noteq> None"
proof -
  have "world_ok P N" using assms(1-3) by (simp add: world_ok_def)
  then show ?thesis
    using loading_total(1) [of P N st fuel "Some nm" argv] loading_total(2) [of P N st fuel nm argv verinfo] assms
    by (auto simp: names_def returns_def)
qed

theorem loading_returns_witness:
  "mod_loadkld demo_platform 2 (Some [47, 109]) [[97]] demo_state \<noteq> None \<and>
   mod_load demo_platform 2 [47, 109] None [[97]] demo_state \<noteq> None"
proof (rule loading_returns [where N = "{[47, 109]}"])
  show "malloc_total demo_platform" using demo_malloc by (simp add: malloc_total_def)
  show "hint_files_ok demo_platform" by (simp add: hint_files_ok_def demo_platform_def)
  show "loaders_ok demo_platform {[47, 109]}" by (auto simp: loaders_ok_def demo_platform_def deps_wf_def split: if_splits)
  show "search_ok demo_state" by (simp add: search_ok_def demo_state_def)
qed (simp_all add: demo_state_def)



text \<open>A kernel that needs a module nobody provides.\<close>

definition orphan_platform :: platform where
  "orphan_platform = demo_platform\<lparr>p_stat := (\<lambda>n. if n = [47, 109] then Some (True, 4096) else None),
     p_formats := [\<lambda>fps n d. (Inr \<lparr>f_name = n, f_type = [], f_args = None,
       f_metadata = [\<lparr>md_type = 0xc001, md_data = replicate 12 0 @ [122, 0]\<rparr>], f_loader = 0,
       f_addr = d, f_size = 4096, f_modules = []\<rparr>, False)]\<rparr>"

lemma orphan_dep:
  "depend_of (replicate 12 0 @ [122, 0]) = Some (\<lparr>md_ver_minimum = 0, md_ver_preferred = 0, md_ver_maximum = 0\<rparr>, [122])"
  by code_simp

definition bare_state :: lstate where
  "bare_state = \<lparr>preloaded_files = [], loadaddr = 0, moduledir_list = [], environ = (\<lambda>n. Some []),
     command_errbuf = No_message\<rparr>"

text \<open>
  loading the first file when one of its dependencies cannot be found does not report an
  error: the cleanup in \<^verbatim>\<open>mod_loadkld\<close> goes through \<^verbatim>\<open>last_file\<close>, which is \<open>NULL\<close> while the list is empty.
\<close>

theorem first_load_undo_faults: "mod_loadkld orphan_platform fuel (Some [47, 109]) [] bare_state = None"
proof (cases fuel)
  case (Suc n)
  have search: "mod_searchmodule orphan_platform [122] v st = Some (None, st)" if "environ st = (\<lambda>n. Some [])" "moduledir_list st = []" for v st
    using that by (cases st) (simp add: mod_searchmodule_def moduledir_rebuild_def rebuild_loop.simps)
  show ?thesis
    unfolding Suc
    by (simp add: mod_loadkld.simps(2) file_search_def file_havepath_def file_load_def arch_addr_def orphan_platform_def
        demo_platform_def bare_state_def args_of_def unargv_def file_load_dependencies.simps file_insert_tail_def
        file_findmetadata_def find_type_def MODINFOMD_DEPLIST_def deps_loop.simps(2) orphan_dep file_findmodule_in_def
        mod_load.simps search [unfolded orphan_platform_def demo_platform_def, simplified] ENOENT_def)
qed simp

end
