(* ===== verification/Boot.thy ===== *)
theory Boot
  imports LoadTotal
begin

text \<open>
  \<^verbatim>\<open>boot/common/boot.c\<close>: the commands that start the kernel, the automatic boot after a delay, the choice of the kernel
  file, and the root file system found in \<^verbatim>\<open>/etc/fstab\<close>.

  The state is that of \<^verbatim>\<open>module.c\<close>; an argument vector is the list of its strings.  The keyboard and the clock are the
  arguments \<open>poll\<close> and \<open>clock\<close>: the key that the \<open>n\<close>-th call of \<^verbatim>\<open>ischar\<close> finds, if any, and the time that the \<open>n\<close>-th
  call of \<^verbatim>\<open>time\<close> returns.  The lines that \<^verbatim>\<open>fgetstr\<close> reads from a file are the argument \<open>lines\<close>, \<^term>\<open>None\<close> when the file
  cannot be opened.  \<^verbatim>\<open>l_exec\<close> is the argument \<open>exec\<close>, which is \<^term>\<open>None\<close> when the kernel is started and does not return.
  Copies made with \<^verbatim>\<open>strdup\<close> are taken to succeed.  \<^term>\<open>None\<close> as the result of an operation is a fault or a loop that does
  not end.
\<close>

section \<open>The root file system\<close>

text \<open>The loops that move \<^verbatim>\<open>cp\<close> over text and over white space in \<^verbatim>\<open>lbuf\<close>.\<close>

function skip_text :: "byte list \<Rightarrow> nat \<Rightarrow> nat option" where
  "skip_text b i =
     (case rd b i of None \<Rightarrow> None | Some c \<Rightarrow> if c \<noteq> 0 \<and> \<not> isspace c then skip_text b (Suc i) else Some i)"
  by pat_completeness auto
termination
  by (relation "measure (\<lambda>(b, i). length b - i)") (auto simp: mem_simps)

function skip_space :: "byte list \<Rightarrow> nat \<Rightarrow> nat option" where
  "skip_space b i =
     (case rd b i of None \<Rightarrow> None | Some c \<Rightarrow> if c \<noteq> 0 \<and> isspace c then skip_space b (Suc i) else Some i)"
  by pat_completeness auto
termination
  by (relation "measure (\<lambda>(b, i). length b - i)") (auto simp: mem_simps)

declare skip_text.simps [simp del] skip_space.simps [simp del]

record fstab_entry =
  fs_dev :: "byte list"
  fs_typ :: "byte list"
  fs_options :: "byte list"

text \<open>One line: the entry, \<^term>\<open>None\<close> for \<^verbatim>\<open>continue\<close>, and the buffer that is left.\<close>

definition fstab_options :: "byte list \<Rightarrow> byte list \<Rightarrow> nat \<Rightarrow> (fstab_entry option \<times> byte list) option" where
  "fstab_options dev b ep = do {
     i \<leftarrow> skip_text b ep;
     let b1 = b[i := 0];
     fstyp \<leftarrow> cstr b1 ep;
     j \<leftarrow> skip_space b1 (Suc i);
     c \<leftarrow> rd b1 j;
     if c = 0 then Some (None, b1)
     else do {
       k \<leftarrow> skip_text b1 j;
       let b2 = b1[k := 0];
       options \<leftarrow> cstr b2 j;
       Some (Some \<lparr>fs_dev = dev, fs_typ = fstyp, fs_options = options\<rparr>, b2)
     }
   }"

definition fstab_mount :: "byte list \<Rightarrow> byte list \<Rightarrow> nat \<Rightarrow> (fstab_entry option \<times> byte list) option" where
  "fstab_mount dev b cp = do {
     c1 \<leftarrow> rd b cp;
     if c1 = 0 \<or> c1 \<noteq> 47 then Some (None, b)
     else do {
       c2 \<leftarrow> rd b (Suc cp);
       if \<not> isspace c2 then Some (None, b)
       else do {
         k \<leftarrow> skip_space b (cp + 2);
         c3 \<leftarrow> rd b k;
         if c3 = 0 then Some (None, b) else fstab_options dev b k
       }
     }
   }"

definition fstab_line :: "byte list \<Rightarrow> (fstab_entry option \<times> byte list) option" where
  "fstab_line b = do {
     c0 \<leftarrow> rd b 0;
     if c0 = 0 \<or> c0 = 35 then Some (None, b)
     else do {
       i \<leftarrow> skip_text b 0;
       c \<leftarrow> rd b i;
       if c = 0 then Some (None, b)
       else do {
         let b1 = b[i := 0];
         dev \<leftarrow> cstr b1 0;
         j \<leftarrow> skip_space b1 (Suc i);
         fstab_mount dev b1 j
       }
     }
   }"

text \<open>The lines of the file, each read into the buffer over what is there.\<close>

fun fstab_loop :: "byte list \<Rightarrow> byte list list \<Rightarrow> fstab_entry option option" where
  "fstab_loop b [] = Some None"
| "fstab_loop b (l # ls) = do {
     b1 \<leftarrow> store b 0 (l @ [0]);
     (r, b2) \<leftarrow> fstab_line b1;
     case r of None \<Rightarrow> fstab_loop b2 ls | Some x \<Rightarrow> Some (Some x)
   }"

definition setenv0 :: "string \<Rightarrow> byte list \<Rightarrow> (string \<Rightarrow> byte list option) \<Rightarrow> string \<Rightarrow> byte list option" where
  "setenv0 n v env = (if env n = None then env(n := Some v) else env)"

definition set_root :: "fstab_entry \<Rightarrow> (string \<Rightarrow> byte list option) \<Rightarrow> string \<Rightarrow> byte list option" where
  "set_root x env =
     setenv0 ''vfs.root.mountfrom.options'' (fs_options x) (setenv0 ''vfs.root.mountfrom'' (fs_typ x @ [58] @ fs_dev x) env)"

definition zfs_root :: "(string \<Rightarrow> byte list option) \<Rightarrow> int \<times> (string \<Rightarrow> byte list option)" where
  "zfs_root env =
     (case env ''currdev'' of
        None \<Rightarrow> (1, env)
      | Some cur \<Rightarrow> if take 4 cur = bytes_of ''zfs:'' then (0, setenv0 ''vfs.root.mountfrom'' (butlast cur) env) else (1, env))"

definition getrootmount ::
  "(byte list \<Rightarrow> byte list list option) \<Rightarrow> byte list \<Rightarrow> byte list \<Rightarrow> (string \<Rightarrow> byte list option) \<Rightarrow>
   (int \<times> (string \<Rightarrow> byte list option)) option" where
  "getrootmount lines lbuf rootdev env =
     (if env ''vfs.root.mountfrom'' \<noteq> None then Some (0, env)
      else do {
        b \<leftarrow> store lbuf 0 (rootdev @ bytes_of ''/etc/fstab'' @ [0]);
        case lines (rootdev @ bytes_of ''/etc/fstab'') of
          None \<Rightarrow> Some (zfs_root env)
        | Some ls \<Rightarrow> do {
            r \<leftarrow> fstab_loop b ls;
            case r of
              None \<Rightarrow> Some (zfs_root env)
            | Some x \<Rightarrow> do { b' \<leftarrow> store lbuf 0 (fs_typ x @ [58] @ fs_dev x @ [0]); Some (0, set_root x env) }
          }
      })"

section \<open>The kernel file\<close>

fun skip_specs :: "nat \<Rightarrow> byte list option \<Rightarrow> byte list option" where
  "skip_specs 0 spec = spec"
| "skip_specs (Suc try) None = None"
| "skip_specs (Suc try) (Some spec) =
     skip_specs try (if 59 \<in> set spec then Some (drop 1 (dropWhile (\<lambda>c. c \<noteq> 59) spec)) else None)"

definition default_bootfiles :: "byte list" where
  "default_bootfiles = bytes_of ''kernel''"

definition getbootfile :: "platform \<Rightarrow> (string \<Rightarrow> byte list option) \<Rightarrow> nat \<Rightarrow> byte list option option" where
  "getbootfile P env try =
     (case skip_specs try (Some (case env ''bootfile'' of None \<Rightarrow> default_bootfiles | Some s \<Rightarrow> s)) of
        None \<Rightarrow> Some None
      | Some spec \<Rightarrow> do {
          let name = takeWhile (\<lambda>c. c \<noteq> 59) spec;
          blk \<leftarrow> p_malloc P (length name + 1);
          Some (if name = [] then None else Some name)
        })"

text \<open>\<^verbatim>\<open>loadakernel\<close> from the given try on: whether a file was loaded.\<close>

partial_function (option) loadakernel_from ::
  "platform \<times> nat \<times> byte list list \<Rightarrow> nat \<times> lstate \<Rightarrow> (bool \<times> lstate) option" where
  "loadakernel_from c s = do {
     let (P, fuel, argv) = c;
     let (try, st) = s;
     cp \<leftarrow> getbootfile P (environ st) try;
     case cp of
       None \<Rightarrow> Some (False, st)
     | Some name \<Rightarrow> do {
         (err, st1) \<leftarrow> mod_loadkld P fuel (Some name) (drop 1 argv) st;
         if err \<noteq> 0 then loadakernel_from c (Suc try, st1) else Some (True, st1)
       }
   }"

definition loadakernel :: "platform \<Rightarrow> nat \<Rightarrow> byte list list \<Rightarrow> lstate \<Rightarrow> (bool \<times> lstate) option" where
  "loadakernel P fuel argv st = loadakernel_from (P, fuel, argv) (0, st)"

section \<open>Booting\<close>

text \<open>A command returns its code, or the kernel was started with the first file.\<close>

datatype boot_out = Back int lstate | Start preloaded_file lstate

definition i386_autoload :: "lstate \<Rightarrow> (int \<times> lstate) option" where
  "i386_autoload st = Some (0, st)"

definition start_kernel ::
  "platform \<Rightarrow> (lstate \<Rightarrow> (int \<times> lstate) option) \<Rightarrow> (preloaded_file \<Rightarrow> lstate \<Rightarrow> lstate option) \<Rightarrow> byte list list \<Rightarrow> lstate \<Rightarrow> boot_out option" where
  "start_kernel P autoload exec argv st =
     (case preloaded_files st of
        [] \<Rightarrow> Some (Back CMD_ERROR (complain No_bootable_kernel st))
      | fp # fps \<Rightarrow> do {
          fargs \<leftarrow> (if length argv > 1 then args_of (p_malloc P) (drop 1 argv) else Some (f_args fp));
          (err, st1) \<leftarrow> autoload (st\<lparr>preloaded_files := fp\<lparr>f_args := fargs\<rparr> # fps\<rparr>);
          if err \<noteq> 0 then Some (Back CMD_ERROR st1)
          else (case preloaded_files st1 of
              [] \<Rightarrow> None
            | kfp # _ \<Rightarrow>
                if f_loader kfp < 0 \<or> f_loader kfp \<ge> int (length (p_formats P)) then None
                else case exec kfp st1 of None \<Rightarrow> Some (Start kfp st1) | Some st2 \<Rightarrow> Some (Back CMD_ERROR st2))
        })"

definition command_boot ::
  "platform \<Rightarrow> nat \<Rightarrow> (lstate \<Rightarrow> (int \<times> lstate) option) \<Rightarrow> (preloaded_file \<Rightarrow> lstate \<Rightarrow> lstate option) \<Rightarrow> byte list list \<Rightarrow> lstate \<Rightarrow> boot_out option" where
  "command_boot P fuel autoload exec argv st =
     (if length argv > 1 \<and> peek (argv ! 1) 0 \<noteq> 45 then
        (if preloaded_files st \<noteq> [] then Some (Back CMD_ERROR (complain (Cant_boot (argv ! 1)) st))
         else do {
           (err, st1) \<leftarrow> mod_loadkld P fuel (Some (argv ! 1)) (drop 2 argv) st;
           if err \<noteq> 0 then Some (Back CMD_ERROR st1) else start_kernel P autoload exec (take 1 argv) st1
         })
      else if preloaded_files st = [] then do {
        (ok, st1) \<leftarrow> loadakernel P fuel (drop 1 argv) st;
        start_kernel P autoload exec (if ok then take 1 argv else argv) st1
      }
      else start_kernel P autoload exec argv st)"

section \<open>Booting after a delay\<close>

partial_function (option) autoboot_wait :: "(nat \<Rightarrow> int option) \<Rightarrow> (nat \<Rightarrow> int) \<Rightarrow> int \<Rightarrow> nat \<Rightarrow> bool option" where
  "autoboot_wait poll clock when n =
     (case poll n of
        Some c \<Rightarrow> Some (c = 13 \<or> c = 10)
      | None \<Rightarrow> if clock (Suc n) \<ge> when then Some True else autoboot_wait poll clock when (Suc n))"

definition autoboot_timeout :: "(string \<Rightarrow> byte list option) \<Rightarrow> int \<Rightarrow> int" where
  "autoboot_timeout env timeout =
     (if timeout = -1 then
        (case env ''autoboot_delay'' of
           None \<Rightarrow> 10
         | Some cp \<Rightarrow> (case strtol 0 cp of (v, n) \<Rightarrow> if n = 0 then 10 else v))
      else timeout)"

text \<open>The state of \<^verbatim>\<open>boot.c\<close> itself is the flag \<^verbatim>\<open>autoboot_tried\<close>, which every call sets.\<close>

definition autoboot ::
  "platform \<Rightarrow> nat \<Rightarrow> (lstate \<Rightarrow> (int \<times> lstate) option) \<Rightarrow> (preloaded_file \<Rightarrow> lstate \<Rightarrow> lstate option) \<Rightarrow>
   (nat \<Rightarrow> int option) \<Rightarrow> (nat \<Rightarrow> int) \<Rightarrow> int \<Rightarrow> lstate \<Rightarrow> boot_out option" where
  "autoboot P fuel autoload exec poll clock timeout0 st = do {
     let timeout = autoboot_timeout (environ st) timeout0;
     st1 \<leftarrow> (if environ st ''kernelname'' = None then map_option snd (loadakernel P fuel [] st) else Some st);
     if environ st1 ''kernelname'' = None then Some (Back CMD_ERROR (complain No_valid_kernel st1))
     else do {
       yes \<leftarrow> (if timeout \<ge> 0 then autoboot_wait poll clock (clock 0 + timeout) 0 else Some True);
       if yes then command_boot P fuel autoload exec [bytes_of ''boot''] st1 else Some (Back CMD_OK st1)
     }
   }"

definition command_autoboot ::
  "platform \<Rightarrow> nat \<Rightarrow> (lstate \<Rightarrow> (int \<times> lstate) option) \<Rightarrow> (preloaded_file \<Rightarrow> lstate \<Rightarrow> lstate option) \<Rightarrow>
   (nat \<Rightarrow> int option) \<Rightarrow> (nat \<Rightarrow> int) \<Rightarrow> byte list list \<Rightarrow> lstate \<Rightarrow> boot_out option" where
  "command_autoboot P fuel autoload exec poll clock argv st =
     (if length argv = 1 then autoboot P fuel autoload exec poll clock (-1) st
      else if length argv = 2 \<or> length argv = 3 then
        (case strtol 0 (argv ! 1) of (howlong, n) \<Rightarrow>
           if peek (argv ! 1) n \<noteq> 0 then Some (Back CMD_ERROR (complain (Bad_delay (argv ! 1)) st))
           else autoboot P fuel autoload exec poll clock howlong st)
      else Some (Back CMD_ERROR (complain Too_many_arguments st)))"

text \<open>\<^verbatim>\<open>autoboot_maybe\<close>, whose result is not used; the comparison ignores case.\<close>

definition tolower :: "byte \<Rightarrow> byte" where
  "tolower c = (if 65 \<le> c \<and> c \<le> 90 then c + 32 else c)"

definition autoboot_maybe ::
  "platform \<Rightarrow> nat \<Rightarrow> (lstate \<Rightarrow> (int \<times> lstate) option) \<Rightarrow> (preloaded_file \<Rightarrow> lstate \<Rightarrow> lstate option) \<Rightarrow>
   (nat \<Rightarrow> int option) \<Rightarrow> (nat \<Rightarrow> int) \<Rightarrow> bool \<Rightarrow> lstate \<Rightarrow> boot_out option" where
  "autoboot_maybe P fuel autoload exec poll clock tried st =
     (if \<not> tried \<and> map_option (map tolower) (environ st ''autoboot_delay'') \<noteq> Some (bytes_of ''no'')
      then autoboot P fuel autoload exec poll clock (-1) st
      else Some (Back CMD_OK st))"

section \<open>Lines of \<^verbatim>\<open>/etc/fstab\<close>\<close>

text \<open>The reference: the words of a text, and the entry that a line has for the root file system.\<close>

definition is_text :: "byte \<Rightarrow> bool" where
  "is_text c \<longleftrightarrow> \<not> isspace c"

function words :: "byte list \<Rightarrow> byte list list" where
  "words s =
     (case dropWhile isspace s of [] \<Rightarrow> [] | c # t \<Rightarrow> takeWhile is_text (c # t) # words (dropWhile is_text (c # t)))"
  by pat_completeness auto
termination
proof (relation "measure length")
  fix s c t assume "dropWhile isspace s = c # t"
  moreover from this have "is_text c" using hd_dropWhile [of isspace s] by (simp add: is_text_def)
  ultimately show "(dropWhile is_text (c # t), s) \<in> measure length"
    using length_dropWhile_le [of isspace s] length_dropWhile_le [of is_text t] by simp
qed simp

declare words.simps [simp del]

definition root_fields :: "byte list \<Rightarrow> byte list list \<Rightarrow> fstab_entry option" where
  "root_fields dev ws =
     (case ws of
        m # t # o' # _ \<Rightarrow> if m = [47] then Some \<lparr>fs_dev = dev, fs_typ = t, fs_options = o'\<rparr> else None
      | _ \<Rightarrow> None)"

definition root_entry :: "byte list \<Rightarrow> fstab_entry option" where
  "root_entry l =
     (if l = [] \<or> hd l = 35 then None else root_fields (takeWhile is_text l) (words (dropWhile is_text l)))"

text \<open>A line for the root that ends with the type of the file system has no options field.\<close>

definition has_options :: "byte list \<Rightarrow> bool" where
  "has_options l \<longleftrightarrow> \<not> (\<exists>t. words (dropWhile is_text l) = [[47], t] \<and> is_text (last l))"

lemma words_Nil [simp]: "words [] = []"
  by (simp add: words.simps)

lemma words_space: "\<forall>c \<in> set sp. isspace c \<Longrightarrow> words (sp @ r) = words r"
  by (subst (1 2) words.simps) (simp add: dropWhile_append)

lemma words_text:
  assumes "w \<noteq> []" "\<forall>c \<in> set w. is_text c" "r = [] \<or> isspace (hd r)"
  shows "words (w @ r) = w # words r"
proof -
  obtain c w' where w: "w = c # w'" using assms(1) by (cases w) auto
  have t: "takeWhile is_text (w @ r) = w" "dropWhile is_text (w @ r) = r"
    using assms(2,3) by (cases r; simp add: takeWhile_append dropWhile_append is_text_def)+
  have "dropWhile isspace (w @ r) = w @ r" using assms(2) by (simp add: w is_text_def)
  then show ?thesis using t by (subst words.simps) (simp add: w)
qed

text \<open>The skipping loops, from the front of \<open>ys\<close> in a buffer \<open>xs @ ys\<close>.\<close>

lemma skip_text_app:
  "\<forall>c \<in> set w. is_text c \<and> c \<noteq> 0 \<Longrightarrow> c = 0 \<or> isspace c \<Longrightarrow> skip_text (xs @ w @ c # ys) (length xs) = Some (length xs + length w)"
proof (induction w arbitrary: xs)
  case Nil
  then show ?case by (subst skip_text.simps) (auto simp: rd_def)
next
  case (Cons a w)
  from Cons.IH [of "xs @ [a]"] Cons.prems show ?case by (subst skip_text.simps) (auto simp: rd_def is_text_def nth_append)
qed

lemma skip_space_app:
  "\<forall>c \<in> set w. isspace c \<Longrightarrow> c = 0 \<or> \<not> isspace c \<Longrightarrow> skip_space (xs @ w @ c # ys) (length xs) = Some (length xs + length w)"
proof (induction w arbitrary: xs)
  case Nil
  then show ?case by (subst skip_space.simps) (auto simp: rd_def)
next
  case (Cons a w)
  have "a \<noteq> 0" using Cons.prems(1) by (auto simp: isspace_def)
  with Cons.IH [of "xs @ [a]"] Cons.prems show ?case by (subst skip_space.simps) (auto simp: rd_def nth_append)
qed

lemma cstr_app: "0 \<notin> set w \<Longrightarrow> cstr (xs @ w @ 0 # ys) (length xs) = Some w"
proof -
  assume "0 \<notin> set w"
  then have "takeWhile (\<lambda>c. c \<noteq> 0) (w @ 0 # ys) = w" by (intro takeWhile_append_stop) auto
  then show ?thesis by (simp add: cstr_def)
qed

lemma split_space:
  obtains sp r where "s = sp @ r" "\<forall>c \<in> set sp. isspace c" "r = [] \<or> \<not> isspace (hd r)" "words s = words r"
proof
  show "s = takeWhile isspace s @ dropWhile isspace s" by simp
  show "\<forall>c \<in> set (takeWhile isspace s). isspace c" by (auto dest: set_takeWhileD)
  show "dropWhile isspace s = [] \<or> \<not> isspace (hd (dropWhile isspace s))" using hd_dropWhile by blast
  show "words s = words (dropWhile isspace s)" by (subst (1 2) words.simps) simp
qed

lemma split_text:
  obtains w r where "s = w @ r" "\<forall>c \<in> set w. is_text c" "r = [] \<or> isspace (hd r)" "takeWhile is_text s = w" "dropWhile is_text s = r"
proof
  show "\<forall>c \<in> set (takeWhile is_text s). is_text c" by (auto dest: set_takeWhileD)
  show "dropWhile is_text s = [] \<or> isspace (hd (dropWhile is_text s))" using hd_dropWhile [of is_text s] by (auto simp: is_text_def)
qed simp_all

lemma upd_app: "(xs @ w @ c # ys)[length xs + length w := d] = xs @ w @ d # ys" "rd (xs @ w @ c # ys) (length xs + length w) = Some c"
  by (simp_all add: list_update_append rd_def nth_append)

text \<open>The last two fields, when something follows the type.\<close>

lemma fstab_options_ok:
  assumes "0 \<notin> set (t @ c # r)" "\<forall>c \<in> set t. is_text c" "isspace c"
  shows "\<exists>b. fstab_options dev (xs @ t @ c # r @ 0 # ys) (length xs) =
      Some (case words r of [] \<Rightarrow> None | o' # _ \<Rightarrow> Some \<lparr>fs_dev = dev, fs_typ = t, fs_options = o'\<rparr>, b) \<and>
    length b = length (xs @ t @ c # r @ 0 # ys)"
proof -
  have 1: "skip_text (xs @ t @ c # r @ 0 # ys) (length xs) = Some (length xs + length t)"
    using assms skip_text_app [of t c xs "r @ 0 # ys"] by auto
  have 2: "cstr (xs @ t @ 0 # r @ 0 # ys) (length xs) = Some t" using assms(1) cstr_app [of t xs "r @ 0 # ys"] by simp
  obtain sp r2 where r: "r = sp @ r2" "\<forall>c \<in> set sp. isspace c" "r2 = [] \<or> \<not> isspace (hd r2)" "words r = words r2"
    by (rule split_space)
  let ?xs = "xs @ t @ [0]"
  show ?thesis
  proof (cases r2)
    case Nil
    have "skip_space (?xs @ sp @ 0 # ys) (length ?xs) = Some (length ?xs + length sp)" using skip_space_app r(2) by blast
    moreover have "rd (?xs @ sp @ 0 # ys) (length ?xs + length sp) = Some 0" by (rule upd_app)
    ultimately show ?thesis using 1 2 r Nil by (simp add: fstab_options_def upd_app)
  next
    case (Cons o1 r2')
    obtain o' r3 where o': "r2 = o' @ r3" "\<forall>c \<in> set o'. is_text c" "r3 = [] \<or> isspace (hd r3)" by (rule split_text)
    have ne: "o' \<noteq> []" using o' r(3) Cons by (cases o') auto
    obtain d tl where d: "r3 @ 0 # ys = d # tl" "d = 0 \<or> isspace d" "length tl = length r3 + length ys"
      using o'(3) by (cases r3) auto
    have o1: "o1 \<noteq> 0" "\<not> isspace o1" using assms(1) r Cons by auto
    have sk: "skip_space (?xs @ sp @ o1 # r2' @ 0 # ys) (length ?xs) = Some (length ?xs + length sp)"
      using skip_space_app [OF r(2), of o1 ?xs] o1 by simp
    let ?ys = "?xs @ sp"
    have buf: "?xs @ sp @ o1 # r2' @ 0 # ys = ?ys @ o' @ d # tl" using Cons o'(1) d(1) by (metis append_Cons append_assoc)
    have tx: "skip_text (?ys @ o' @ d # tl) (length ?ys) = Some (length ?ys + length o')"
      by (rule skip_text_app [OF _ d(2)]) (use o'(1,2) assms(1) r(1) in auto)
    have cs: "cstr (?ys @ o' @ 0 # tl) (length ?ys) = Some o'" by (rule cstr_app) (use assms(1) r(1) o'(1) in auto)
    have w: "words r = o' # words r3" using r(4) o' words_text [OF ne o'(2,3)] by simp
    have rdo: "rd (?xs @ sp @ o1 # r2' @ 0 # ys) (length ?xs + length sp) = Some o1" by (rule upd_app)
    have "fstab_options dev (xs @ t @ c # r @ 0 # ys) (length xs) =
        Some (Some \<lparr>fs_dev = dev, fs_typ = t, fs_options = o'\<rparr>, ?ys @ o' @ 0 # tl)"
      using 1 2 sk rdo o1(1) tx cs r(1) Cons buf upd_app(1) [of ?ys o' d tl 0] by (simp add: fstab_options_def upd_app add.assoc)
    moreover have "length (?ys @ o' @ 0 # tl) = length (xs @ t @ c # r @ 0 # ys)" using d(3) r(1) o'(1) by simp
    ultimately show ?thesis using w by auto
  qed
qed

lemma root_fields_other: "ws = [] \<or> hd ws \<noteq> [47] \<Longrightarrow> root_fields dev ws = None"
  by (cases ws) (auto simp: root_fields_def split: list.split)

lemma fstab_mount_ok:
  assumes "0 \<notin> set r" "r = [] \<or> \<not> isspace (hd r)" "\<not> (\<exists>t. words r = [[47], t] \<and> is_text (last r))"
  shows "\<exists>b. fstab_mount dev (xs @ r @ 0 # ys) (length xs) = Some (root_fields dev (words r), b) \<and>
    length b = length xs + length r + Suc (length ys)"
proof (cases r)
  case Nil
  then show ?thesis by (simp add: fstab_mount_def rd_def nth_append root_fields_def)
next
  case (Cons q r3)
  obtain m r' where m: "r = m @ r'" "\<forall>c \<in> set m. is_text c" "r' = [] \<or> isspace (hd r')" by (rule split_text)
  have mne: "m \<noteq> []" "hd m = q" using m assms(2) Cons by (cases m; auto)+
  have w: "words r = m # words r'" using words_text [OF mne(1) m(2,3)] m(1) by simp
  have q: "q \<noteq> 0" "rd (xs @ r @ 0 # ys) (length xs) = Some q" using assms(1) Cons by (auto simp: rd_def)
  have len: "length (xs @ r @ 0 # ys) = length xs + length r + Suc (length ys)" by simp
  show ?thesis
  proof (cases "q = 47 \<and> m = [47]")
    case False
    have "fstab_mount dev (xs @ r @ 0 # ys) (length xs) = Some (None, xs @ r @ 0 # ys)"
    proof (cases "q = 47")
      case True
      then obtain c t where ct: "m = 47 # c # t" using False mne by (cases m; cases "tl m") auto
      then have "rd (xs @ r @ 0 # ys) (Suc (length xs)) = Some c" "\<not> isspace c" using m(1,2) by (auto simp: rd_def nth_append is_text_def)
      then show ?thesis using q by (simp add: fstab_mount_def)
    qed (use q in \<open>simp add: fstab_mount_def\<close>)
    moreover have "root_fields dev (words r) = None" using w False mne by (intro root_fields_other) auto
    ultimately show ?thesis using len by simp
  next
    case True
    show ?thesis
    proof (cases r')
      case Nil
      then have "rd (xs @ r @ 0 # ys) (Suc (length xs)) = Some 0" using m(1) True by (auto simp: rd_def nth_append)
      then have "fstab_mount dev (xs @ r @ 0 # ys) (length xs) = Some (None, xs @ r @ 0 # ys)"
        using q True by (simp add: fstab_mount_def isspace_def)
      moreover have "root_fields dev (words r) = None" using w Nil by (simp add: root_fields_def)
      ultimately show ?thesis using len by simp
    next
      case (Cons s0 r4)
      have s0: "isspace s0" using m(3) Cons by simp
      obtain sp r5 where r4: "r4 = sp @ r5" "\<forall>c \<in> set sp. isspace c" "r5 = [] \<or> \<not> isspace (hd r5)" "words r4 = words r5"
        by (rule split_space)
      let ?xs = "xs @ [47, s0] @ sp"
      have buf: "xs @ r @ 0 # ys = ?xs @ r5 @ 0 # ys" using m(1) True Cons r4(1) by simp
      have wr: "words r = [47] # words r5" using w True Cons words_space [of "[s0]" r4] s0 r4(4) by simp
      have c2: "rd (xs @ r @ 0 # ys) (Suc (length xs)) = Some s0" using m(1) True Cons by (simp add: rd_def nth_append)
      obtain e tl where e: "r5 @ 0 # ys = e # tl" "e = 0 \<or> \<not> isspace e" using r4(3) by (cases r5) auto
      have k: "skip_space (xs @ r @ 0 # ys) (length xs + 2) = Some (length ?xs)"
        using skip_space_app [OF r4(2) e(2), of "xs @ [47, s0]" tl] buf e(1) by simp
      have c3: "rd (xs @ r @ 0 # ys) (length ?xs) = Some e" unfolding buf e(1) by (simp add: rd_def nth_append)
      have go: "fstab_mount dev (xs @ r @ 0 # ys) (length xs) =
          (if e = 0 then Some (None, xs @ r @ 0 # ys) else fstab_options dev (xs @ r @ 0 # ys) (length ?xs))"
        using q True c2 s0 k c3 by (simp add: fstab_mount_def)
      obtain t r6 where t: "r5 = t @ r6" "\<forall>c \<in> set t. is_text c" "r6 = [] \<or> isspace (hd r6)" by (rule split_text)
      show ?thesis
      proof (cases r5)
        case Nil
        then show ?thesis using go e(1) wr len by (simp add: root_fields_def)
      next
        case c5: (Cons e' r5')
        have e0: "e \<noteq> 0" using assms(1) e(1) c5 m(1) Cons r4(1) by auto
        have tne: "t \<noteq> []" using t c5 r4(3) by (cases t) auto
        have wt: "words r5 = t # words r6" using words_text [OF tne t(2,3)] t(1) by simp
        have "r6 \<noteq> []"
        proof
          assume "r6 = []"
          then have "last r = last t" "words r = [[47], t]" using m(1) Cons r4(1) t(1) tne wr wt by simp_all
          then show False using assms(3) t(2) tne by auto
        qed
        then obtain c r7 where r6: "r6 = c # r7" "isspace c" using t(3) by (cases r6) auto
        have "words r6 = words r7" using words_space [of "[c]" r7] r6 by simp
        then have rf: "root_fields dev (words r) = (case words r7 of [] \<Rightarrow> None | o' # _ \<Rightarrow> Some \<lparr>fs_dev = dev, fs_typ = t, fs_options = o'\<rparr>)"
          using wr wt by (simp add: root_fields_def split: list.split)
        have buf2: "xs @ r @ 0 # ys = ?xs @ t @ c # r7 @ 0 # ys" using buf t(1) r6(1) by simp
        have "0 \<notin> set (t @ c # r7)" using assms(1) m(1) Cons r4(1) t(1) r6(1) by auto
        from fstab_options_ok [OF this t(2) r6(2), of dev ?xs ys] obtain b where
          b: "fstab_options dev (xs @ r @ 0 # ys) (length ?xs) = Some (root_fields dev (words r), b)" "length b = length (xs @ r @ 0 # ys)"
          unfolding buf2 rf by blast
        then show ?thesis using go e0 by simp
      qed
    qed
  qed
qed

text \<open>A line in the buffer is read as the reference reads it, whatever the buffer held before.\<close>

lemma fstab_line_ok:
  assumes "0 \<notin> set l" "has_options l"
  shows "\<exists>b. fstab_line (l @ 0 # ys) = Some (root_entry l, b) \<and> length b = length l + Suc (length ys)"
proof (cases "l = [] \<or> hd l = 35")
  case True
  then show ?thesis by (cases l) (auto simp: fstab_line_def root_entry_def rd_def)
next
  case False
  obtain d r where d: "l = d @ r" "\<forall>c \<in> set d. is_text c" "r = [] \<or> isspace (hd r)" "takeWhile is_text l = d" "dropWhile is_text l = r"
    by (rule split_text)
  have hd: "rd (l @ 0 # ys) 0 = Some (hd l)" "hd l \<noteq> 0" "hd l \<noteq> 35" using False assms(1) by (cases l; simp add: rd_def)+
  obtain c r' where c: "r @ 0 # ys = c # r'" "c = 0 \<or> isspace c" using d(3) by (cases r) auto
  have sk: "skip_text (l @ 0 # ys) 0 = Some (length d)"
    using skip_text_app [of d c "[]" r'] d(1,2) c assms(1) by auto
  show ?thesis
  proof (cases r)
    case Nil
    have "root_entry l = None" by (simp add: root_entry_def d(5) Nil root_fields_def)
    moreover have "fstab_line (l @ 0 # ys) = Some (None, l @ 0 # ys)"
      using hd sk Nil d(1) upd_app(2) [of "[]" d 0 ys] by (simp add: fstab_line_def)
    ultimately show ?thesis by simp
  next
    case (Cons s0 r1)
    have s0: "isspace s0" "s0 \<noteq> 0" using d(1,3) Cons assms(1) by auto
    obtain sp r2 where r1: "r1 = sp @ r2" "\<forall>c \<in> set sp. isspace c" "r2 = [] \<or> \<not> isspace (hd r2)" "words r1 = words r2"
      by (rule split_space)
    let ?xs = "d @ [0] @ sp"
    have upd: "(l @ 0 # ys)[length d := 0] = ?xs @ r2 @ 0 # ys" "rd (l @ 0 # ys) (length d) = Some s0"
      using d(1) Cons r1(1) by (simp_all add: list_update_append rd_def nth_append)
    have dev: "cstr (?xs @ r2 @ 0 # ys) 0 = Some d" using cstr_app [of d "[]" "sp @ r2 @ 0 # ys"] assms(1) d(1) by simp
    obtain e tl where e: "r2 @ 0 # ys = e # tl" "e = 0 \<or> \<not> isspace e" using r1(3) by (cases r2) auto
    have j: "skip_space (?xs @ r2 @ 0 # ys) (Suc (length d)) = Some (length ?xs)"
      using skip_space_app [OF r1(2) e(2), of "d @ [0]" tl] e(1) by simp
    have go: "fstab_line (l @ 0 # ys) = fstab_mount d (?xs @ r2 @ 0 # ys) (length ?xs)"
      using hd sk s0(2) upd dev j by (simp add: fstab_line_def)
    have wr: "words r = words r2" using words_space [of "[s0]" r1] Cons s0 r1(4) by simp
    have re: "root_entry l = root_fields d (words r2)" using False d(4,5) wr by (simp add: root_entry_def)
    have lst: "last l = last r2" if "r2 \<noteq> []" using d(1) Cons r1(1) that by simp
    have "\<not> (\<exists>t. words r2 = [[47], t] \<and> is_text (last r2))"
      using assms(2) wr d(5) lst by (cases "r2 = []") (auto simp: has_options_def)
    moreover have "0 \<notin> set r2" using assms(1) d(1) Cons r1(1) by simp
    moreover have "length l + Suc (length ys) = length ?xs + length r2 + Suc (length ys)" using d(1) Cons r1(1) by simp
    ultimately show ?thesis using fstab_mount_ok [OF _ r1(3), of d ?xs ys] go re by metis
  qed
qed

fun first_root :: "byte list list \<Rightarrow> fstab_entry option" where
  "first_root [] = None"
| "first_root (l # ls) = (case root_entry l of None \<Rightarrow> first_root ls | Some x \<Rightarrow> Some x)"

lemma fstab_loop_ok:
  "\<forall>l \<in> set ls. 0 \<notin> set l \<and> length l < length b \<and> has_options l \<Longrightarrow> fstab_loop b ls = Some (first_root ls)"
proof (induction ls arbitrary: b)
  case (Cons l ls)
  have l: "0 \<notin> set l" "length l < length b" "has_options l" using Cons.prems by auto
  obtain b' where b': "fstab_line (l @ 0 # drop (Suc (length l)) b) = Some (root_entry l, b')" "length b' = length b"
    using fstab_line_ok [OF l(1,3), of "drop (Suc (length l)) b"] l(2) by auto
  have "store b 0 (l @ [0]) = Some (l @ 0 # drop (Suc (length l)) b)" using l(2) by (simp add: store_def put_def)
  with b' Cons.IH [of b'] Cons.prems show ?case by (auto split: option.split)
qed simp

lemma words_length: "sum_list (map length (words s)) \<le> length s"
proof (induction s rule: words.induct)
  case (1 s)
  show ?case
  proof (cases "dropWhile isspace s")
    case Nil
    then show ?thesis by (simp add: words.simps [of s] del: dropWhile_eq_Nil_conv)
  next
    case (Cons c t)
    have "length (takeWhile is_text (c # t)) + length (dropWhile is_text (c # t)) = length (c # t)"
      by (metis length_append takeWhile_dropWhile_id)
    moreover have "length (c # t) \<le> length s" using Cons by (metis length_dropWhile_le)
    ultimately show ?thesis using 1 [OF Cons] Cons by (subst words.simps) simp
  qed
qed

lemma first_root_fits: "first_root ls = Some x \<Longrightarrow> \<exists>l \<in> set ls. length (fs_typ x) + length (fs_dev x) < length l"
proof (induction ls)
  case (Cons l ls)
  show ?case
  proof (cases "root_entry l")
    case (Some y)
    then obtain t o' ws where w: "words (dropWhile is_text l) = [47] # t # o' # ws" "x = \<lparr>fs_dev = takeWhile is_text l, fs_typ = t, fs_options = o'\<rparr>"
      using Cons.prems by (auto simp: root_entry_def root_fields_def split: if_splits list.splits)
    have "length l = length (takeWhile is_text l) + length (dropWhile is_text l)" by (metis length_append takeWhile_dropWhile_id)
    then show ?thesis using words_length [of "dropWhile is_text l"] w by simp
  qed (use Cons in auto)
qed simp

text \<open>
  C18: \<^verbatim>\<open>getrootmount\<close> finds the root file system.  When \<^verbatim>\<open>vfs.root.mountfrom\<close> is not set, the name of the root device fits the
  buffer, and the lines of \<^verbatim>\<open>/etc/fstab\<close> are as \<^verbatim>\<open>fgetstr\<close> delivers them with no root line that stops at its type, the call
  returns without leaving its buffer, whatever that held before: with the entry of the first line whose second field is
  \<open>/\<close> it stores type and device, and the options unless they are set, and returns 0; without such a line it falls
  back to the current ZFS device and otherwise returns 1.
\<close>

theorem getrootmount_first_root:
  assumes "length lbuf = 128" "length rootdev < 118" "env ''vfs.root.mountfrom'' = None"
    and "lines (rootdev @ bytes_of ''/etc/fstab'') = Some ls"
    and "\<forall>l \<in> set ls. 0 \<notin> set l \<and> length l < 128 \<and> has_options l"
  shows "getrootmount lines lbuf rootdev env =
    Some (case first_root ls of
        None \<Rightarrow> zfs_root env
      | Some x \<Rightarrow> (0, setenv0 ''vfs.root.mountfrom.options'' (fs_options x)
                        (env(''vfs.root.mountfrom'' := Some (fs_typ x @ [58] @ fs_dev x)))))"
proof -
  let ?p = "rootdev @ bytes_of ''/etc/fstab'' @ [0]"
  have st: "store lbuf 0 ?p = Some (put lbuf 0 ?p)" using assms(1,2) by (simp add: store_def)
  have b: "length (put lbuf 0 ?p) = 128" using assms(1,2) by (simp add: put_def)
  have loop: "fstab_loop (put lbuf 0 ?p) ls = Some (first_root ls)" using assms(5) b by (intro fstab_loop_ok) simp
  have fit: "\<exists>b'. store lbuf 0 (fs_typ x @ [58] @ fs_dev x @ [0]) = Some b'" if "first_root ls = Some x" for x
    using first_root_fits [OF that] assms(1,5) by (fastforce simp: store_def)
  show ?thesis using assms(3,4) st loop fit
    by (auto simp: getrootmount_def set_root_def setenv0_def split: option.split)
qed

text \<open>An \<^verbatim>\<open>/etc/fstab\<close> of two lines.\<close>

definition demo_lines :: "byte list \<Rightarrow> byte list list option" where
  "demo_lines path = (if path = bytes_of ''disk0:/etc/fstab''
     then Some [bytes_of ''# Device  Mount FS Opts'', bytes_of ''/dev/a / ufs rw 1 1''] else None)"

lemma demo_words:
  "words (dropWhile is_text (bytes_of ''# Device  Mount FS Opts'')) = map bytes_of [''Device'', ''Mount'', ''FS'', ''Opts'']"
  "words (dropWhile is_text (bytes_of ''/dev/a / ufs rw 1 1'')) = map bytes_of [''/'', ''ufs'', ''rw'', ''1'', ''1'']"
  by code_simp+

lemma demo_root_entry:
  "root_entry (bytes_of ''/dev/a / ufs rw 1 1'') = Some \<lparr>fs_dev = bytes_of ''/dev/a'', fs_typ = bytes_of ''ufs'', fs_options = bytes_of ''rw''\<rparr>"
  by code_simp

theorem getrootmount_first_root_witness:
  "getrootmount demo_lines (replicate 128 170) (bytes_of ''disk0:'') (\<lambda>_. None) =
    Some (0, (\<lambda>_. None)(''vfs.root.mountfrom'' := Some (bytes_of ''ufs:/dev/a''), ''vfs.root.mountfrom.options'' := Some (bytes_of ''rw'')))"
proof -
  let ?ls = "[bytes_of ''# Device  Mount FS Opts'', bytes_of ''/dev/a / ufs rw 1 1'']"
  have l: "demo_lines (bytes_of ''disk0:'' @ bytes_of ''/etc/fstab'') = Some ?ls" by (simp add: demo_lines_def)
  have opt: "has_options (bytes_of ''# Device  Mount FS Opts'')" "has_options (bytes_of ''/dev/a / ufs rw 1 1'')"
    unfolding has_options_def demo_words by simp_all
  have ok: "\<forall>l \<in> set ?ls. 0 \<notin> set l \<and> length l < 128 \<and> has_options l" using opt by (simp only: list.set ball_simps) simp
  have "root_entry (bytes_of ''# Device  Mount FS Opts'') = None" by (simp add: root_entry_def)
  then have fr: "first_root ?ls = Some \<lparr>fs_dev = bytes_of ''/dev/a'', fs_typ = bytes_of ''ufs'', fs_options = bytes_of ''rw''\<rparr>"
    by (simp only: first_root.simps demo_root_entry option.case)
  show ?thesis
    using getrootmount_first_root [where lines = demo_lines and rootdev = "bytes_of ''disk0:''" and ls = ?ls
        and lbuf = "replicate 128 170" and env = "\<lambda>_. None", OF _ _ _ l ok, unfolded fr]
    by (simp add: setenv0_def fun_upd_twist)
qed

text \<open>
  A root line that stops at the type of the file system takes its options from old contents of the buffer: after
  the type \<^verbatim>\<open>getrootmount\<close> steps over the terminator and reads what an earlier, longer line left behind it.
\<close>

theorem fstab_stale_options:
  "map_option (\<lambda>(rc, env). (rc, env ''vfs.root.mountfrom.options''))
     (getrootmount (\<lambda>_. Some [bytes_of ''# Device Mnt noauto'', bytes_of ''/dev/a / ufs'']) (replicate 128 0) (bytes_of ''disk0:'') (\<lambda>_. None)) =
   Some (0, Some (bytes_of ''noauto''))"
  by code_simp

section \<open>Loading touches only one variable\<close>

definition keeps_env :: "lstate \<Rightarrow> lstate \<Rightarrow> bool" where
  "keeps_env st st' \<longleftrightarrow> (\<forall>n. n \<noteq> ''kernelname'' \<longrightarrow> environ st' n = environ st n)"

lemma keeps_env_same: "environ st' = environ st \<Longrightarrow> keeps_env st st'"
  by (simp add: keeps_env_def)

lemma keeps_env_trans: "keeps_env st st1 \<Longrightarrow> keeps_env st1 st2 \<Longrightarrow> keeps_env st st2"
  by (simp add: keeps_env_def)

lemma keeps_env_upd [simp]:
  "keeps_env st (complain msg st1) = keeps_env st st1" "keeps_env st (preloaded_files_update f st1) = keeps_env st st1"
  "keeps_env st (loadaddr_update g st1) = keeps_env st st1" "keeps_env (preloaded_files_update f st) st1 = keeps_env st st1"
  "keeps_env (loadaddr_update g st) st1 = keeps_env st st1"
  by (simp_all add: keeps_env_def)

lemma rebuild_env: "environ (moduledir_rebuild P st) = environ st"
  by (simp add: moduledir_rebuild_def Let_def case_prod_beta)

lemma file_search_env: "file_search P name exts st = Some (r, st') \<Longrightarrow> keeps_env st st'"
  by (rule keeps_env_same)
     (auto simp: file_search_def bind_eq_Some_conv Let_def rebuild_env split: option.splits if_splits)

lemma mod_searchmodule_env: "mod_searchmodule P name v st = Some (r, st') \<Longrightarrow> keeps_env st st'"
  by (rule keeps_env_same) (auto simp: mod_searchmodule_def bind_eq_Some_conv Let_def rebuild_env)

lemma file_load_env: "file_load P f d st = (r, st') \<Longrightarrow> keeps_env st st'"
  by (auto simp: file_load_def keeps_env_def Let_def split: sum.splits if_splits prod.splits)

lemma loading_env:
  "mod_loadkld P fuel kldname argv st = Some r \<Longrightarrow> keeps_env st (snd r)"
  "mod_load P fuel modname verinfo argv st = Some r \<Longrightarrow> keeps_env st (snd r)"
  "deps_loop P fuel mds st = Some r \<Longrightarrow> keeps_env st (snd r)"
  "file_load_dependencies P fuel base st = Some r \<Longrightarrow> keeps_env st (snd r)"
proof (induction P fuel kldname argv st and P fuel modname verinfo argv st and P fuel mds st and P fuel base st
    arbitrary: r and r and r and r
    rule: mod_loadkld_mod_load_deps_loop_file_load_dependencies.induct)
  case (2 P fuel kldname argv st)
  from "2.prems" obtain fname st1 where s: "file_search P kldname (Some kld_ext_list) st = Some (fname, st1)"
    by (auto simp: mod_loadkld.simps(2) bind_eq_Some_conv)
  note s1 = file_search_env [OF s]
  show ?case
  proof (cases "fname = None \<or> file_findfile (preloaded_files st1) fname None \<noteq> None")
    case True
    then show ?thesis using "2.prems" s s1 by (cases fname) (auto simp: mod_loadkld.simps(2))
  next
    case False
    then obtain filename where f: "fname = Some filename" "file_findfile (preloaded_files st1) (Some filename) None = None" by auto
    obtain res st2 where l: "file_load P filename (loadaddr st1) st1 = (res, st2)" by force
    have s2: "keeps_env st st2" using s1 file_load_env [OF l] by (rule keeps_env_trans)
    show ?thesis
    proof (cases res)
      case (Inl err)
      then show ?thesis using "2.prems" s f l s2 by (auto simp: mod_loadkld.simps(2) split: if_splits)
    next
      case (Inr fp)
      let ?st2 = "\<lambda>a. st2\<lparr>loadaddr := f_addr fp + f_size fp,
        preloaded_files := file_insert_tail (fp\<lparr>f_args := a\<rparr>) (preloaded_files st2)\<rparr>"
      from "2.prems" s f l Inr obtain a err st3 where a: "args_of (p_malloc P) argv = Some a"
        and d: "file_load_dependencies P fuel (length (preloaded_files st2)) (?st2 a) = Some (err, st3)"
        and r: "keeps_env st (snd r) = keeps_env st st3"
        by (auto simp: mod_loadkld.simps(2) bind_eq_Some_conv Let_def split: if_splits)
      have "keeps_env (?st2 a) st3" using "2.IH" s f l Inr a d by (force simp: Let_def)
      then show ?thesis using s2 r by (auto intro: keeps_env_trans)
    qed
  qed
next
  case (3 P fuel modname verinfo argv st)
  show ?case
  proof (cases "file_havepath P modname \<or> file_findmodule (preloaded_files st) modname verinfo \<noteq> None")
    case True
    then show ?thesis using "3.prems" "3.IH"(1) by (auto simp: mod_load.simps keeps_env_def split: if_splits)
  next
    case False
    then obtain fname st1 where s: "mod_searchmodule P modname verinfo st = Some (fname, st1)"
      using "3.prems" by (auto simp: mod_load.simps bind_eq_Some_conv)
    note s1 = mod_searchmodule_env [OF s]
    show ?thesis
    proof (cases fname)
      case None
      then show ?thesis using "3.prems" False s s1 by (auto simp: mod_load.simps)
    next
      case (Some filename)
      then have "keeps_env st1 (snd r)" using "3.prems" "3.IH"(2) False s by (auto simp: mod_load.simps)
      then show ?thesis using s1 by (auto intro: keeps_env_trans)
    qed
  qed
next
  case (5 P fuel md mds st)
  from "5.prems" obtain v n where d: "depend_of (md_data md) = Some (v, n)"
    by (auto simp: deps_loop.simps(2) bind_eq_Some_conv)
  show ?case
  proof (cases "file_findmodule (preloaded_files st) n (Some v)")
    case (Some mp)
    then show ?thesis using "5.prems" "5.IH"(1) d by (auto simp: deps_loop.simps(2))
  next
    case None
    then obtain e st1 where m: "mod_load P fuel n (Some v) [] st = Some (e, st1)"
      using "5.prems" d by (auto simp: deps_loop.simps(2) bind_eq_Some_conv)
    then have m1: "keeps_env st st1" using "5.IH"(2) d None by force
    show ?thesis
    proof (cases "e = 0 \<and> file_findmodule (preloaded_files st1) n (Some v) \<noteq> None")
      case True
      have "keeps_env st1 (snd r)" using "5.prems" "5.IH"(3) d None m True by (auto simp: deps_loop.simps(2))
      then show ?thesis using m1 by (auto intro: keeps_env_trans)
    next
      case False
      then show ?thesis using "5.prems" d None m m1 by (auto simp: deps_loop.simps(2) split: if_splits)
    qed
  qed
next
  case (6 P fuel base st)
  from "6.prems" obtain e st1 where b: "base < length (preloaded_files st)"
    and d: "deps_loop P fuel (file_findmetadata (preloaded_files st ! base) MODINFOMD_DEPLIST) st = Some (e, st1)"
    and r: "keeps_env st (snd r) = keeps_env st st1"
    by (auto simp: file_load_dependencies.simps bind_eq_Some_conv mem_simps split: if_splits)
  have "keeps_env st st1" using "6.IH" b d by (force simp: mem_simps)
  then show ?case using r by simp
qed (auto simp: keeps_env_def)

section \<open>The list of kernels\<close>

text \<open>The reference: the names between the semicolons, up to the first empty one, tried in turn.\<close>

function specs :: "byte list \<Rightarrow> byte list list" where
  "specs s = takeWhile (\<lambda>c. c \<noteq> 59) s # (if 59 \<in> set s then specs (drop 1 (dropWhile (\<lambda>c. c \<noteq> 59) s)) else [])"
  by pat_completeness auto
termination
proof (relation "measure length")
  fix s :: "byte list" assume "59 \<in> set s"
  then have "0 < length s" by auto
  then have "length (dropWhile (\<lambda>c. c \<noteq> 59) s) - 1 < length s"
    using length_dropWhile_le [of "\<lambda>c. c \<noteq> 59" s] by linarith
  then show "(drop 1 (dropWhile (\<lambda>c. c \<noteq> 59) s), s) \<in> measure length" by simp
qed simp

declare specs.simps [simp del]

definition boot_names :: "(string \<Rightarrow> byte list option) \<Rightarrow> byte list list" where
  "boot_names env = takeWhile (\<lambda>n. n \<noteq> []) (specs (case env ''bootfile'' of None \<Rightarrow> default_bootfiles | Some s \<Rightarrow> s))"

fun try_names :: "platform \<Rightarrow> nat \<Rightarrow> byte list list \<Rightarrow> byte list list \<Rightarrow> lstate \<Rightarrow> (bool \<times> lstate) option" where
  "try_names P fuel args [] st = Some (False, st)"
| "try_names P fuel args (n # ns) st = do {
     (err, st1) \<leftarrow> mod_loadkld P fuel (Some n) args st;
     if err = 0 then Some (True, st1) else try_names P fuel args ns st1
   }"

lemma skip_specs_None [simp]: "skip_specs k None = None"
  by (cases k) simp_all

lemma skip_specs_nth:
  "map_option (takeWhile (\<lambda>c. c \<noteq> 59)) (skip_specs k (Some s)) = (if k < length (specs s) then Some (specs s ! k) else None)"
proof (induction k arbitrary: s)
  case 0
  then show ?case by (subst (1 2) specs.simps) simp
next
  case (Suc k)
  show ?case
  proof (cases "59 \<in> set s")
    case True
    have "specs s = takeWhile (\<lambda>c. c \<noteq> 59) s # specs (drop 1 (dropWhile (\<lambda>c. c \<noteq> 59) s))" using True by (subst specs.simps) simp
    then show ?thesis using True Suc.IH [of "drop 1 (dropWhile (\<lambda>c. c \<noteq> 59) s)"] by simp
  next
    case False
    then have "length (specs s) = 1" by (subst specs.simps) simp
    then show ?thesis using False by simp
  qed
qed

lemma getbootfile_nth:
  fixes env :: "string \<Rightarrow> byte list option"
  assumes "malloc_total P"
  defines "ns \<equiv> specs (case env ''bootfile'' of None \<Rightarrow> default_bootfiles | Some s \<Rightarrow> s)"
  shows "getbootfile P env k = Some (if k < length ns \<and> ns ! k \<noteq> [] then Some (ns ! k) else None)"
proof -
  have m: "\<exists>b. p_malloc P n = Some b" for n using assms(1) by (auto simp: malloc_total_def)
  let ?s = "case env ''bootfile'' of None \<Rightarrow> default_bootfiles | Some s \<Rightarrow> s"
  show ?thesis
  proof (cases "skip_specs k (Some ?s)")
    case None
    then show ?thesis using skip_specs_nth [of k ?s] by (auto simp: getbootfile_def ns_def split: if_splits)
  next
    case (Some t)
    then have "k < length ns" "ns ! k = takeWhile (\<lambda>c. c \<noteq> 59) t"
      using skip_specs_nth [of k ?s] by (auto simp: ns_def split: if_splits)
    then show ?thesis using Some m [of "Suc (length (takeWhile (\<lambda>c. c \<noteq> 59) t))"] by (auto simp: getbootfile_def)
  qed
qed

lemma loadakernel_from_ok:
  assumes "malloc_total P"
  shows "environ st ''bootfile'' = bf \<Longrightarrow> loadakernel_from (P, fuel, argv) (k, st) =
    try_names P fuel (drop 1 argv) (takeWhile (\<lambda>n. n \<noteq> []) (drop k (specs (case bf of None \<Rightarrow> default_bootfiles | Some s \<Rightarrow> s)))) st"
proof (induction "length (specs (case bf of None \<Rightarrow> default_bootfiles | Some s \<Rightarrow> s)) - k" arbitrary: k st)
  case 0
  then show ?case using getbootfile_nth [OF assms, of "environ st" k] by (subst loadakernel_from.simps) simp
next
  case (Suc m)
  let ?ns = "specs (case bf of None \<Rightarrow> default_bootfiles | Some s \<Rightarrow> s)"
  have k: "k < length ?ns" using Suc.hyps(2) by simp
  then have dr: "drop k ?ns = ?ns ! k # drop (Suc k) ?ns" by (simp add: Cons_nth_drop_Suc)
  show ?case
  proof (cases "?ns ! k = []")
    case True
    then show ?thesis using dr k Suc.prems getbootfile_nth [OF assms, of "environ st" k] by (subst loadakernel_from.simps) simp
  next
    case False
    have step: "loadakernel_from (P, fuel, argv) (k, st) = do {
        (err, st1) \<leftarrow> mod_loadkld P fuel (Some (?ns ! k)) (drop 1 argv) st;
        if err \<noteq> 0 then loadakernel_from (P, fuel, argv) (Suc k, st1) else Some (True, st1) }"
      using False k Suc.prems getbootfile_nth [OF assms, of "environ st" k] by (subst loadakernel_from.simps) simp
    have "environ st1 ''bootfile'' = bf" if "mod_loadkld P fuel (Some (?ns ! k)) (drop 1 argv) st = Some (err, st1)" for err st1
      using loading_env(1) [OF that] Suc.prems by (simp add: keeps_env_def)
    then show ?thesis using step False dr Suc.hyps by (auto intro!: Option.bind_cong [OF refl])
  qed
qed

text \<open>
  \<^verbatim>\<open>loadakernel\<close> tries the kernels in order.  With memory for the names, it does what the reference does that
  calls \<^verbatim>\<open>mod_loadkld\<close> for one name of \<^verbatim>\<open>bootfile\<close> (by default \<^verbatim>\<open>kernel\<close>) after the other, up to the first that loads or the
  first empty name; the arguments that reach the kernel are those of the caller without the first.
\<close>

theorem loadakernel_tries_in_order:
  assumes "malloc_total P"
  shows "loadakernel P fuel argv st = try_names P fuel (drop 1 argv) (boot_names (environ st)) st"
  using loadakernel_from_ok [OF assms refl, of fuel argv 0 st] by (simp add: loadakernel_def boot_names_def)

definition named_state :: lstate where
  "named_state = \<lparr>preloaded_files = [], loadaddr = 0x1000, moduledir_list = [],
     environ = (\<lambda>_. None)(''bootfile'' := Some [47, 109, 59, 120], ''kernelname'' := Some [47, 109]), command_errbuf = No_message\<rparr>"

lemma named_load:
  "mod_loadkld demo_platform (Suc 0) (Some [47, 109]) [] named_state =
    Some (0, named_state\<lparr>loadaddr := 0x2000, preloaded_files :=
        [\<lparr>f_name = [47, 109], f_type = [101], f_args = None, f_metadata = [], f_loader = 0,
          f_addr = 0x1000, f_size = 4096, f_modules = [\<lparr>m_name = [109], m_version = 1\<rparr>]\<rparr>]\<rparr>)"
  by (simp add: mod_loadkld.simps(2) file_search_def file_havepath_def file_load_def arch_addr_def demo_platform_def
      named_state_def args_of_def unargv_def file_load_dependencies.simps file_insert_tail_def file_findmetadata_def
      find_type_def)

lemma named_names: "boot_names (environ named_state) = [[47, 109], [120]]"
  by code_simp

lemma demo_total: "malloc_total demo_platform"
  using demo_malloc by (simp add: malloc_total_def)

theorem loadakernel_tries_in_order_witness:
  "\<exists>st. loadakernel demo_platform 1 [] named_state = Some (True, st) \<and> map f_name (preloaded_files st) = [[47, 109]]"
  using loadakernel_tries_in_order [OF demo_total, of 1 "[]" named_state] named_load
  by (simp add: named_names)

section \<open>Starting the kernel\<close>

lemma args_of_one:
  assumes "malloc_total P" "0 \<notin> set a"
  shows "args_of (p_malloc P) [a] = Some (Some a)"
proof -
  obtain b where "p_malloc P (length a + 2) = Some b" using assms(1) by (auto simp: malloc_total_def)
  with unargv_joins [of "p_malloc P" "[a]" b] assms show ?thesis by (auto simp: args_of_def malloc_total_def)
qed

text \<open>
  What \<^verbatim>\<open>boot\<close> does with an option.  When files are loaded, the first is started with the option as its arguments.  When
  nothing is loaded and \<^verbatim>\<open>loadakernel\<close> finds a kernel, the option is lost: \<^verbatim>\<open>boot\<close> behaves as without arguments.  The
  help text (\<^verbatim>\<open>help.common\<close>) says that the options are added to the arguments of the kernel; the code does neither.
\<close>

theorem boot_with_option:
  assumes "malloc_total P" "0 \<notin> set a" "peek a 0 = 45"
  shows "case preloaded_files st of
      fp # fps \<Rightarrow> 0 \<le> f_loader fp \<and> f_loader fp < int (length (p_formats P)) \<longrightarrow>
        command_boot P fuel i386_autoload (\<lambda>_ _. None) [cmd, a] st =
          Some (Start (fp\<lparr>f_args := Some a\<rparr>) (st\<lparr>preloaded_files := fp\<lparr>f_args := Some a\<rparr> # fps\<rparr>))
    | [] \<Rightarrow> (\<exists>st1. loadakernel P fuel [] st = Some (True, st1)) \<longrightarrow>
        command_boot P fuel autoload exec [cmd, a] st = command_boot P fuel autoload exec [cmd] st"
proof (cases "preloaded_files st")
  case Nil
  have "loadakernel P fuel [a] st = loadakernel P fuel [] st"
    using loadakernel_from_ok [OF assms(1) refl, of fuel "[a]" 0 st] loadakernel_from_ok [OF assms(1) refl, of fuel "[]" 0 st]
    by (simp add: loadakernel_def)
  then show ?thesis using assms(3) Nil by (auto simp: command_boot_def)
next
  case (Cons fp fps)
  then show ?thesis using assms(3) args_of_one [OF assms(1,2)] by (simp add: command_boot_def start_kernel_def i386_autoload_def)
qed

definition loaded_state :: lstate where
  "loaded_state = named_state\<lparr>preloaded_files := [\<lparr>f_name = [47, 109], f_type = [101], f_args = None, f_metadata = [],
     f_loader = 0, f_addr = 0x1000, f_size = 4096, f_modules = []\<rparr>]\<rparr>"

theorem boot_with_option_witness:
  "\<exists>fp st. command_boot demo_platform 1 i386_autoload (\<lambda>_ _. None) [[98], [45, 115]] loaded_state = Some (Start fp st) \<and> f_args fp = Some [45, 115]"
proof -
  have "0 \<notin> set [45, 115 :: byte]" "peek [45, 115] 0 = 45" by (simp_all add: peek_def)
  from boot_with_option [OF demo_total this, where st = loaded_state] show ?thesis by (simp add: loaded_state_def demo_platform_def)
qed

section \<open>The delay\<close>

lemma autoboot_wait_ends:
  assumes "\<forall>i. k \<le> i \<and> i < n \<longrightarrow> poll i = None \<and> clock (Suc i) < when" "poll n \<noteq> None \<or> clock (Suc n) \<ge> when" "k \<le> n"
  shows "autoboot_wait poll clock when k = Some (poll n = None \<or> poll n = Some 13 \<or> poll n = Some 10)"
  using assms(3,1)
proof (induction k rule: inc_induct)
  case base
  then show ?case using assms(2) by (subst autoboot_wait.simps) (auto split: option.split)
next
  case (step m)
  have "poll m = None" "\<not> clock (Suc m) \<ge> when" using step.hyps(2) step.prems by (auto simp: not_le)
  then show ?case using step.IH step.prems by (subst autoboot_wait.simps) simp
qed

text \<open>
  C19: The delay before the automatic boot ends.  With a kernel known and a delay that is not negative, let the \<open>n\<close>-th look
  be the first at which a key is there or the clock has reached the time: the kernel is booted when no key
  was there or it is return or newline, and any other key leads to the prompt.
\<close>

theorem autoboot_ends_delay:
  fixes clock :: "nat \<Rightarrow> int"
  assumes "environ st ''kernelname'' \<noteq> None" "autoboot_timeout (environ st) timeout \<ge> 0"
  defines "when \<equiv> clock 0 + autoboot_timeout (environ st) timeout"
  assumes "\<forall>i < n. poll i = None \<and> clock (Suc i) < when" "poll n \<noteq> None \<or> clock (Suc n) \<ge> when"
  shows "autoboot P fuel autoload exec poll clock timeout st =
    (if poll n = None \<or> poll n = Some 13 \<or> poll n = Some 10 then command_boot P fuel autoload exec [bytes_of ''boot''] st
     else Some (Back CMD_OK st))"
proof -
  have "autoboot_wait poll clock when 0 = Some (poll n = None \<or> poll n = Some 13 \<or> poll n = Some 10)"
    using assms(4,5) by (intro autoboot_wait_ends) auto
  then show ?thesis using assms(1,2) by (auto simp: autoboot_def when_def Let_def)
qed

theorem autoboot_ends_delay_witness:
  "\<exists>fp st. autoboot demo_platform 1 i386_autoload (\<lambda>_ _. None) (\<lambda>_. None) int 2 loaded_state = Some (Start fp st)"
proof -
  have k: "environ loaded_state ''kernelname'' \<noteq> None" by (simp add: loaded_state_def named_state_def)
  have t: "autoboot_timeout (environ loaded_state) 2 = 2" by (simp add: autoboot_timeout_def)
  have "autoboot demo_platform 1 i386_autoload (\<lambda>_ _. None) (\<lambda>_. None) int 2 loaded_state =
      command_boot demo_platform 1 i386_autoload (\<lambda>_ _. None) [bytes_of ''boot''] loaded_state"
    using autoboot_ends_delay [OF k, of 2 1 "\<lambda>_. None" int demo_platform 1 i386_autoload "\<lambda>_ _. None"] t by simp
  then show ?thesis by (simp add: command_boot_def start_kernel_def i386_autoload_def loaded_state_def demo_platform_def)
qed

end
