(* ===== verification/Devicename.thy ===== *)
theory Devicename
  imports Stand Disk
begin

text \<open>
  Names of devices: \<^verbatim>\<open>boot/i386/libi386/devicename.c\<close> with the stubs of \<^verbatim>\<open>boot/zfs/devicename_stubs.c\<close>, and the variant
  \<^verbatim>\<open>boot/userboot/userboot/devicename.c\<close>, both built with \<^verbatim>\<open>LOADER_GPT_SUPPORT\<close>.

  Strings are their characters before the terminator, and a pointer into a string is the rest of it.  The block that
  \<^verbatim>\<open>malloc\<close> gives for the descriptor is the argument \<open>blk\<close> with whatever it contains, \<^term>\<open>None\<close> when there is no memory;
  the environment of the loader is a map.  \<^term>\<open>None\<close> as a result is a fault.
\<close>

section \<open>Devices\<close>

definition DEVT_NONE :: int where "DEVT_NONE = 0"
definition DEVT_DISK :: int where "DEVT_DISK = 1"
definition DEVT_NET :: int where "DEVT_NET = 2"
definition DEVT_CD :: int where "DEVT_CD = 3"
definition DEVT_ZFS :: int where "DEVT_ZFS = 4"

lemmas devt_defs = DEVT_NONE_def DEVT_DISK_def DEVT_NET_def DEVT_CD_def DEVT_ZFS_def

text \<open>Error numbers of libstand, and the number of partitions of a BSD label in \<^verbatim>\<open>sys/disklabel.h\<close>.\<close>

datatype dev_err = Err_EINVAL | Err_ENOENT | Err_ENXIO | Err_EUNIT | Err_ESLICE | Err_EPART

definition MAXPARTITIONS :: int where "MAXPARTITIONS = 8"

record devsw =
  dv_name :: "byte list"
  dv_type :: int

text \<open>\<^verbatim>\<open>struct i386_devdesc\<close>; the members of the union \<^verbatim>\<open>d_kind\<close> that are used are kept apart.\<close>

record i386_devdesc =
  i_dev :: devsw
  i_type :: int
  i_unit :: int
  i_slice :: int
  i_partition :: int
  i_pool :: u64
  i_root :: u64

definition bioscd :: devsw where "bioscd = \<lparr>dv_name = map of_char ''cd'', dv_type = DEVT_CD\<rparr>"
definition biosdisk :: devsw where "biosdisk = \<lparr>dv_name = map of_char ''disk'', dv_type = DEVT_DISK\<rparr>"
definition pxedisk :: devsw where "pxedisk = \<lparr>dv_name = map of_char ''pxe'', dv_type = DEVT_NET\<rparr>"

definition i386_devsw :: "devsw list" where
  "i386_devsw = [bioscd, biosdisk, pxedisk]"

section \<open>Parsing\<close>

definition find_devsw :: "devsw list \<Rightarrow> byte list \<Rightarrow> devsw option" where
  "find_devsw sw spec = find (\<lambda>d. take (length (dv_name d)) spec = dv_name d) sw"

definition at_end :: "byte list \<Rightarrow> bool" where
  "at_end cp \<longleftrightarrow> peek cp 0 = 0 \<or> peek cp 0 = 58"

definition after_colon :: "byte list \<Rightarrow> byte list" where
  "after_colon cp = (if peek cp 0 = 0 then cp else drop 1 cp)"

text \<open>The number after a letter: its value and the text behind it.\<close>

definition parse_slice :: "byte list \<Rightarrow> dev_err + int \<times> byte list" where
  "parse_slice np = (case strtol 10 np of (v, n) \<Rightarrow> if n = 0 then Inl Err_ESLICE else Inr (v, drop n np))"

definition parse_label :: "int \<Rightarrow> int \<Rightarrow> byte list \<Rightarrow> dev_err + int \<times> int \<times> int \<times> byte list" where
  "parse_label unit sl cp =
     (if at_end cp then Inr (unit, sl, -1, cp)
      else let pt = sint (peek cp 0) - 97
           in if pt < 0 \<or> pt \<ge> MAXPARTITIONS then Inl Err_EPART
              else Inr (unit, sl, pt, drop 1 cp))"

definition parse_where :: "int \<Rightarrow> byte list \<Rightarrow> dev_err + int \<times> int \<times> int \<times> byte list" where
  "parse_where unit cp =
     (if peek cp 0 = 112 then
        (case parse_slice (drop 1 cp) of
           Inl e \<Rightarrow> Inl e
         | Inr (sl, cp') \<Rightarrow> if at_end cp' then Inr (unit, sl, 0xff, cp') else Inl Err_EINVAL)
      else if peek cp 0 = 115 then
        (case parse_slice (drop 1 cp) of Inl e \<Rightarrow> Inl e | Inr (sl, cp') \<Rightarrow> parse_label unit sl cp')
      else parse_label unit (-1) cp)"

text \<open>The text after the name of a disk: unit, slice, partition and the place that was reached.\<close>

definition parse_disk :: "byte list \<Rightarrow> dev_err + int \<times> int \<times> int \<times> byte list" where
  "parse_disk np =
     (case (if at_end np then Inr (-1, -1, -1, np)
            else case strtol 10 np of (unit, n) \<Rightarrow> if n = 0 then Inl Err_EUNIT else parse_where unit (drop n np)) of
        Inl e \<Rightarrow> Inl e
      | Inr (unit, sl, pt, cp) \<Rightarrow> if at_end cp then Inr (unit, sl, pt, cp) else Inl Err_EINVAL)"

definition parse_unit :: "byte list \<Rightarrow> dev_err + int \<times> byte list" where
  "parse_unit np =
     (let r =
        (if at_end np then Inr (0, np)
         else case strtol 0 np of (unit, n) \<Rightarrow> if n = 0 then Inl Err_EUNIT else Inr (unit, drop n np))
      in case r of Inl e \<Rightarrow> Inl e | Inr (unit, cp) \<Rightarrow> if at_end cp then r else Inl Err_EINVAL)"

type_synonym zfs_parser = "i386_devdesc \<Rightarrow> byte list \<Rightarrow> dev_err + i386_devdesc \<times> byte list"

text \<open>The stub, which the loader without ZFS links.\<close>

definition zfs_parsedev_stub :: zfs_parser where
  "zfs_parsedev_stub dev devspec = Inl Err_EINVAL"

text \<open>
  The result is an error number, or the descriptor with the value stored in \<^verbatim>\<open>*path\<close>, \<^term>\<open>None\<close> when nothing is
  stored there.
\<close>

definition i386_parsedev ::
  "zfs_parser \<Rightarrow> devsw list \<Rightarrow> i386_devdesc option \<Rightarrow> byte list \<Rightarrow> (dev_err + i386_devdesc \<times> byte list option) option" where
  "i386_parsedev zfs sw blk devspec =
     (if length devspec < 2 then Some (Inl Err_EINVAL)
      else case find_devsw sw devspec of
        None \<Rightarrow> Some (Inl Err_ENOENT)
      | Some dv \<Rightarrow>
          let np = drop (length (dv_name dv)) devspec;
              fill = (\<lambda>f path. do { idev \<leftarrow> blk; Some (Inr ((f idev)\<lparr>i_dev := dv, i_type := dv_type dv\<rparr>, path)) })
          in if dv_type dv = DEVT_NONE then fill (\<lambda>d. d) None
             else if dv_type dv = DEVT_DISK then
               (case parse_disk np of
                  Inl e \<Rightarrow> Some (Inl e)
                | Inr (unit, sl, pt, cp) \<Rightarrow>
                    fill (\<lambda>d. d\<lparr>i_unit := unit, i_slice := sl, i_partition := pt\<rparr>) (Some (after_colon cp)))
             else if dv_type dv = DEVT_CD \<or> dv_type dv = DEVT_NET then
               (case parse_unit np of
                  Inl e \<Rightarrow> Some (Inl e)
                | Inr (unit, cp) \<Rightarrow> fill (\<lambda>d. d\<lparr>i_unit := unit\<rparr>) (Some (after_colon cp)))
             else if dv_type dv = DEVT_ZFS then do {
               idev \<leftarrow> blk;
               case zfs idev np of Inl e \<Rightarrow> Some (Inl e) | Inr (d, path) \<Rightarrow> fill (\<lambda>_. d) (Some path)
             }
             else Some (Inl Err_EINVAL))"

type_synonym environment = "string \<Rightarrow> byte list option"
type_synonym 'd parsed = "(dev_err + 'd \<times> byte list option) option"

text \<open>
  \<^verbatim>\<open>i386_getdev\<close> and \<^verbatim>\<open>userboot_getdev\<close>, which have the same text, over their parser: a path without device belongs to the
  current device.
\<close>

definition getdev ::
  "(byte list \<Rightarrow> 'd parsed) \<Rightarrow> environment \<Rightarrow> byte list option \<Rightarrow> (dev_err + 'd \<times> byte list option option) option" where
  "getdev parsedev env devspec =
     (if devspec = None \<or> peek (the devspec) 0 = 47 \<or> 58 \<notin> set (the devspec) then do {
        cur \<leftarrow> env ''currdev'';
        r \<leftarrow> parsedev cur;
        Some (case r of Inl e \<Rightarrow> Inl e | Inr (d, _) \<Rightarrow> Inr (d, Some devspec))
      }
      else map_option (\<lambda>r. case r of Inl e \<Rightarrow> Inl e | Inr (d, p) \<Rightarrow> Inr (d, map_option Some p)) (parsedev (the devspec)))"

definition i386_getdev ::
  "zfs_parser \<Rightarrow> devsw list \<Rightarrow> i386_devdesc option \<Rightarrow> environment \<Rightarrow> byte list option \<Rightarrow>
   (dev_err + i386_devdesc \<times> byte list option option) option" where
  "i386_getdev zfs sw blk = getdev (i386_parsedev zfs sw blk)"

section \<open>Printing\<close>

text \<open>Text written by \<^verbatim>\<open>sprintf\<close> into a buffer, read back as a string.\<close>

definition sprintf_to :: "nat \<Rightarrow> byte list \<Rightarrow> byte list option" where
  "sprintf_to sz s = (if length s < sz then Some (takeWhile (\<lambda>c. c \<noteq> 0) s) else None)"

definition fmt_disk :: "byte list \<Rightarrow> int \<Rightarrow> int \<Rightarrow> int \<Rightarrow> byte list" where
  "fmt_disk name unit sl pt =
     name @ fmt_d unit @
     (if pt = 0xff then 112 # fmt_d sl
      else (if sl > 0 then 115 # fmt_d sl else []) @
           (if pt \<ge> 0 then [word_of_int (pt + 97)] else [])) @ [58]"

definition fmt_unit :: "byte list \<Rightarrow> int \<Rightarrow> byte list" where
  "fmt_unit name unit = name @ fmt_d unit @ [58]"

text \<open>\<open>buf\<close> is what the static buffer holds from the last call.\<close>

definition i386_fmtdev :: "(i386_devdesc \<Rightarrow> byte list) \<Rightarrow> byte list \<Rightarrow> i386_devdesc \<Rightarrow> byte list option" where
  "i386_fmtdev zfs buf dev =
     (if i_type dev = DEVT_NONE then Some (map of_char ''(no device)'')
      else if i_type dev = DEVT_CD \<or> i_type dev = DEVT_NET then sprintf_to 128 (fmt_unit (dv_name (i_dev dev)) (i_unit dev))
      else if i_type dev = DEVT_DISK
      then sprintf_to 128 (fmt_disk (dv_name (i_dev dev)) (i_unit dev) (i_slice dev) (i_partition dev))
      else if i_type dev = DEVT_ZFS then Some (zfs dev)
      else Some buf)"

definition zfs_fmtdev_stub :: "i386_devdesc \<Rightarrow> byte list" where
  "zfs_fmtdev_stub dev = []"

section \<open>The current device\<close>

definition setcurrdev ::
  "(byte list \<Rightarrow> 'd parsed) \<Rightarrow> string \<Rightarrow> byte list \<Rightarrow> environment \<Rightarrow> (dev_err option \<times> environment) option" where
  "setcurrdev parsedev ev_name val env = do {
     r \<leftarrow> parsedev val;
     Some (case r of Inl e \<Rightarrow> (Some e, env) | Inr _ \<Rightarrow> (None, env(ev_name := Some val)))
   }"

definition i386_setcurrdev ::
  "zfs_parser \<Rightarrow> devsw list \<Rightarrow> i386_devdesc option \<Rightarrow> string \<Rightarrow> byte list \<Rightarrow> environment \<Rightarrow> (dev_err option \<times> environment) option" where
  "i386_setcurrdev zfs sw blk = setcurrdev (i386_parsedev zfs sw blk)"

section \<open>The variant of userboot\<close>

text \<open>
  The descriptors are those of \<^verbatim>\<open>disk.c\<close>, here with their driver; ZFS devices are treated like network
  devices.
\<close>

definition host_dev :: devsw where "host_dev = \<lparr>dv_name = map of_char ''host'', dv_type = DEVT_NET\<rparr>"
definition userboot_disk :: devsw where "userboot_disk = \<lparr>dv_name = map of_char ''disk'', dv_type = DEVT_DISK\<rparr>"

definition userboot_devsw :: "devsw list" where
  "userboot_devsw = [host_dev, userboot_disk]"

definition userboot_parsedev :: "devsw list \<Rightarrow> disk_devdesc option \<Rightarrow> byte list \<Rightarrow> (devsw \<times> disk_devdesc) parsed" where
  "userboot_parsedev sw blk devspec =
     (if length devspec < 2 then Some (Inl Err_EINVAL)
      else case find_devsw sw devspec of
        None \<Rightarrow> Some (Inl Err_ENOENT)
      | Some dv \<Rightarrow>
          let np = drop (length (dv_name dv)) devspec;
              fill = (\<lambda>f path. do { idev \<leftarrow> blk; Some (Inr ((dv, f idev), path)) })
          in if dv_type dv = DEVT_NONE then fill (\<lambda>d. d) None
             else if dv_type dv = DEVT_DISK then
               (case parse_disk np of
                  Inl e \<Rightarrow> Some (Inl e)
                | Inr (unit, sl, pt, cp) \<Rightarrow>
                    fill (\<lambda>d. d\<lparr>d_unit := unit, d_slice := sl, d_partition := pt\<rparr>) (Some (after_colon cp)))
             else if dv_type dv = DEVT_CD \<or> dv_type dv = DEVT_NET \<or> dv_type dv = DEVT_ZFS then
               (case parse_unit np of
                  Inl e \<Rightarrow> Some (Inl e)
                | Inr (unit, cp) \<Rightarrow> fill (\<lambda>d. d\<lparr>d_unit := unit\<rparr>) (Some (after_colon cp)))
             else Some (Inl Err_EINVAL))"

definition userboot_getdev ::
  "devsw list \<Rightarrow> disk_devdesc option \<Rightarrow> environment \<Rightarrow> byte list option \<Rightarrow>
   (dev_err + (devsw \<times> disk_devdesc) \<times> byte list option option) option" where
  "userboot_getdev sw blk = getdev (userboot_parsedev sw blk)"

definition userboot_fmtdev :: "byte list \<Rightarrow> devsw \<times> disk_devdesc \<Rightarrow> byte list option" where
  "userboot_fmtdev buf =
     (\<lambda>(dv, dev).
        if dv_type dv = DEVT_NONE then Some (map of_char ''(no device)'')
        else if dv_type dv = DEVT_CD \<or> dv_type dv = DEVT_NET \<or> dv_type dv = DEVT_ZFS
        then sprintf_to 128 (fmt_unit (dv_name dv) (d_unit dev))
        else if dv_type dv = DEVT_DISK
        then sprintf_to 128 (fmt_disk (dv_name dv) (d_unit dev) (d_slice dev) (d_partition dev))
        else Some buf)"

definition userboot_setcurrdev ::
  "devsw list \<Rightarrow> disk_devdesc option \<Rightarrow> string \<Rightarrow> byte list \<Rightarrow> environment \<Rightarrow> (dev_err option \<times> environment) option" where
  "userboot_setcurrdev sw blk = setcurrdev (userboot_parsedev sw blk)"

section \<open>Numbers and their places\<close>

lemma dec_digits_hd:
  "0 < u \<Longrightarrow> hd (rev (dec_digits u)) \<noteq> 48"
proof (induction u rule: dec_digits.induct)
  case (1 u)
  show ?case
  proof (cases "u div 10 = 0")
    case True
    have m: "u mod 10 = u" "u < 10" using True by auto
    have "unat (48 + word_of_nat u :: byte) = 48 + u" using m by (simp add: unat_word_ariths unat_of_nat)
    then have "(48 + word_of_nat u :: byte) \<noteq> 48" using \<open>0 < u\<close> by auto
    then show ?thesis using True m by (subst dec_digits.simps) simp
  next
    case False
    have "dec_digits (u div 10) \<noteq> []" by simp
    then show ?thesis using False 1 by (subst dec_digits.simps) (simp add: hd_append)
  qed
qed

lemma fmt_d_ne [simp]: "fmt_d n \<noteq> []"
  by (simp add: fmt_d_def)

lemma fmt_d_hd:
  "isdigit (hd (fmt_d n)) \<or> hd (fmt_d n) = 45"
proof -
  have "hd (rev (dec_digits u)) \<in> set (dec_digits u)" for u by (metis dec_digits_ne hd_in_set rev_is_Nil_conv set_rev)
  then show ?thesis using set_dec_digits by (auto simp: fmt_d_def)
qed

text \<open>Base 0 reads what \<open>%d\<close> prints as base 10 does.\<close>

lemma peek_Cons [simp]: "peek (c # s) 0 = c" "peek (c # s) (Suc i) = peek s i" "peek [] i = 0"
  by (simp_all add: peek_def)

lemma strtol0_zero: "rest = [] \<or> hd rest = 58 \<Longrightarrow> strtol 0 (48 # rest) = (0, 1)"
proof -
  assume "rest = [] \<or> hd rest = 58"
  then have "takeWhile (\<lambda>c. digit_of c < 8) rest = []" "peek rest 0 \<noteq> 120" "peek rest 0 \<noteq> 88"
    by (cases rest; auto simp: digit_of_def isdigit_def islower_def)+
  moreover have "digit_of 48 = 0" "\<not> isspace 48" by (simp_all add: digit_of_def isdigit_def isspace_def)
  ultimately show ?thesis by (simp add: strtol_def clamp_long_def)
qed

lemma strtol0_fmt_d:
  assumes "- (2 ^ 31) \<le> n" "n < 2 ^ 31" "rest = [] \<or> hd rest = 58"
  shows "strtol 0 (fmt_d n @ rest) = (n, length (fmt_d n))"
proof (cases "n = 0")
  case True
  have "dec_digits 0 = [48]" by (subst dec_digits.simps) simp
  then show ?thesis using strtol0_zero [OF assms(3)] by (simp add: True fmt_d_def)
next
  case False
  define ds where "ds = rev (dec_digits (nat \<bar>n\<bar>))"
  obtain d t where d: "ds = d # t" using dec_digits_ne [of "nat \<bar>n\<bar>"] unfolding ds_def by (metis list.exhaust rev_is_Nil_conv)
  have "set ds = set (dec_digits (nat \<bar>n\<bar>))" by (simp add: ds_def)
  then have "d \<in> set (dec_digits (nat \<bar>n\<bar>))" using d by auto
  then have dig: "isdigit d" using set_dec_digits by blast
  have "0 < nat \<bar>n\<bar>" using False by simp
  from dec_digits_hd [OF this] have d48: "d \<noteq> 48" using d unfolding ds_def by simp
  have fmt: "fmt_d n = (if n < 0 then [45] else []) @ d # t" using d by (simp add: fmt_d_def ds_def)
  have sp: "\<not> isspace d" "d \<noteq> 43" "d \<noteq> 45" "\<not> isspace 45" using isdigit_not_special [OF dig] by (simp_all add: isspace_def)
  have "strtol 0 (fmt_d n @ rest) = strtol 10 (fmt_d n @ rest)"
    by (cases "n < 0") (simp_all add: fmt strtol_def d48 sp)
  moreover have "rest = [] \<or> \<not> isdigit (hd rest)" using assms(3) by (auto simp: isdigit_def)
  ultimately show ?thesis using strtol_fmt_d [OF assms(1,2)] by metis
qed

section \<open>Reading back names\<close>

lemma at_end_fmt [simp]: "\<not> at_end (fmt_d n @ rest)" "at_end (58 # rest)" "\<not> at_end (112 # rest)" "\<not> at_end (115 # rest)"
proof -
  have "peek (fmt_d n @ rest) 0 = hd (fmt_d n)" by (simp add: peek_def nth_append hd_conv_nth)
  then show "\<not> at_end (fmt_d n @ rest)" using fmt_d_hd [of n] by (auto simp: at_end_def isdigit_def)
qed (simp_all add: at_end_def peek_def)

abbreviation int32 :: "int \<Rightarrow> bool" where
  "int32 n \<equiv> - (2 ^ 31) \<le> n \<and> n < 2 ^ 31"

lemma parse_slice_fmt:
  assumes "int32 n" "rest = [] \<or> \<not> isdigit (hd rest)"
  shows "parse_slice (fmt_d n @ rest) = Inr (n, rest)"
  using strtol_fmt_d [OF _ _ assms(2)] assms(1) by (simp add: parse_slice_def)

text \<open>What a printed name denotes: slice numbers below 1 and partition numbers below 0 are not printed.\<close>

definition norm_slice :: "int \<Rightarrow> int \<Rightarrow> int" where
  "norm_slice sl pt = (if sl > 0 \<or> pt = 0xff then sl else -1)"

definition disk_ok :: "int \<Rightarrow> int \<Rightarrow> int \<Rightarrow> bool" where
  "disk_ok unit sl pt \<longleftrightarrow> int32 unit \<and> int32 sl \<and> (-1 \<le> pt \<and> pt < MAXPARTITIONS \<or> pt = 0xff)"

lemma label_char:
  assumes "0 \<le> pt" "pt < 8"
  shows "sint (word_of_int (pt + 97) :: byte) = pt + 97" "word_of_int (pt + 97) \<notin> {0, 58, 112, 115 :: byte}"
    "\<not> isdigit (word_of_int (pt + 97))"
proof -
  have "pt \<in> {0, 1, 2, 3, 4, 5, 6, 7}" using assms by auto
  then show "sint (word_of_int (pt + 97) :: byte) = pt + 97" "word_of_int (pt + 97) \<notin> {0, 58, 112, 115 :: byte}"
    "\<not> isdigit (word_of_int (pt + 97))" by (auto simp: isdigit_def)
qed

lemma parse_label_fmt:
  assumes "pt < MAXPARTITIONS"
  shows "parse_label unit sl ((if pt \<ge> 0 then [word_of_int (pt + 97)] else []) @ 58 # rest) = Inr (unit, sl, max (-1) pt, 58 # rest)"
  using assms label_char [of pt] by (auto simp: parse_label_def at_end_def peek_def MAXPARTITIONS_def max_def)

lemma parse_disk_fmt:
  assumes "disk_ok unit sl pt"
  shows "parse_disk (drop (length name) (fmt_disk name unit sl pt) @ rest) = Inr (unit, norm_slice sl pt, max (-1) pt, 58 # rest)"
proof -
  define lab where "lab = (if pt \<ge> 0 then [word_of_int (pt + 97)] else []) @ 58 # rest"
  define tail where "tail = (if pt = 0xff then 112 # fmt_d sl @ 58 # rest else (if sl > 0 then 115 # fmt_d sl else []) @ lab)"
  have nd: "\<not> isdigit (112 :: byte)" "\<not> isdigit (115 :: byte)" "\<not> isdigit (58 :: byte)" by (simp_all add: isdigit_def)
  have pk: "peek (c # s) 0 = c" for c s by (simp add: peek_def)
  have lab: "\<not> isdigit (hd lab)" "peek lab 0 \<noteq> 112" "peek lab 0 \<noteq> 115" "parse_label unit x lab = Inr (unit, x, max (-1) pt, 58 # rest)"
    if "pt \<noteq> 0xff" for x
    using assms that label_char [of pt] nd parse_label_fmt [of pt unit x rest] by (auto simp: disk_ok_def MAXPARTITIONS_def pk lab_def)
  have tx: "drop (length name) (fmt_disk name unit sl pt) @ rest = fmt_d unit @ tail" by (simp add: fmt_disk_def tail_def lab_def)
  have u: "strtol 10 (fmt_d unit @ tail) = (unit, length (fmt_d unit))"
    using assms lab(1) nd by (intro strtol_fmt_d) (auto simp: disk_ok_def tail_def)
  have s: "parse_slice (fmt_d sl @ 58 # rest) = Inr (sl, 58 # rest)" "pt \<noteq> 0xff \<Longrightarrow> parse_slice (fmt_d sl @ lab) = Inr (sl, lab)"
    using assms lab(1) nd by (auto intro!: parse_slice_fmt simp: disk_ok_def)
  consider (gpt) "pt = 0xff" | (sl) "pt \<noteq> 0xff" "sl > 0" | (unit) "pt \<noteq> 0xff" "\<not> sl > 0" by blast
  then show ?thesis unfolding tx using u s
    by cases (simp_all add: parse_disk_def parse_where_def norm_slice_def tail_def pk lab)
qed

lemma parse_unit_fmt:
  assumes "int32 unit"
  shows "parse_unit (drop (length name) (fmt_unit name unit) @ rest) = Inr (unit, 58 # rest)"
  using strtol0_fmt_d [of unit "58 # rest"] assms by (simp add: parse_unit_def fmt_unit_def)

lemma length_fmt_d: "int32 n \<Longrightarrow> length (fmt_d n) \<le> 11"
proof -
  assume "int32 n"
  then have "nat \<bar>n\<bar> < 10 ^ Suc 9" by (auto simp: nat_less_iff)
  then have "length (dec_digits (nat \<bar>n\<bar>)) \<le> 10" using length_dec_digits [of "nat \<bar>n\<bar>" 9] by simp
  then show ?thesis by (cases "n < 0") (simp_all add: fmt_d_def)
qed

lemma fmt_d_no_nul: "0 \<notin> set (fmt_d n)"
  using set_dec_digits isdigit_not_special by (fastforce simp: fmt_d_def)

text \<open>The printed names fit the buffer and contain no terminator.\<close>

lemma sprintf_to_fits: "length s < n \<Longrightarrow> 0 \<notin> set s \<Longrightarrow> sprintf_to n s = Some s"
  by (simp add: sprintf_to_def takeWhile_eq_all_conv) metis

lemma fmt_unit_fits: "int32 unit \<Longrightarrow> length name < 100 \<Longrightarrow> 0 \<notin> set name \<Longrightarrow> sprintf_to 128 (fmt_unit name unit) = Some (fmt_unit name unit)"
  using length_fmt_d [of unit] fmt_d_no_nul [of unit] by (intro sprintf_to_fits) (simp_all add: fmt_unit_def)

lemma fmt_disk_fits:
  assumes "disk_ok unit sl pt" "length name < 100" "0 \<notin> set name"
  shows "sprintf_to 128 (fmt_disk name unit sl pt) = Some (fmt_disk name unit sl pt)"
  using assms length_fmt_d [of unit] length_fmt_d [of sl] fmt_d_no_nul [of unit] fmt_d_no_nul [of sl] label_char [of pt]
  by (intro sprintf_to_fits) (auto simp: fmt_disk_def disk_ok_def MAXPARTITIONS_def)

lemma fmt_disk_norm: "disk_ok unit sl pt \<Longrightarrow> fmt_disk name unit (norm_slice sl pt) (max (-1) pt) = fmt_disk name unit sl pt"
  by (auto simp: fmt_disk_def norm_slice_def max_def)

section \<open>The contract of device names\<close>

text \<open>
  A printed name denotes its device up to \<open>norm\<close>, whatever path follows it, and a device that was read back prints
  as the same name.
\<close>

locale device_names =
  fixes parsedev :: "byte list \<Rightarrow> 'd parsed" and fmtdev :: "'d \<Rightarrow> byte list option" and wf :: "'d \<Rightarrow> bool" and norm :: "'d \<Rightarrow> 'd"
  assumes name_back: "wf d \<Longrightarrow> \<exists>s. fmtdev d = Some s \<and> 58 \<in> set s \<and> peek s 0 \<noteq> 47 \<and> s \<noteq> [] \<and>
      (\<forall>rest. parsedev (s @ rest) = Some (Inr (norm d, Some rest)))"
    and name_stable: "wf d \<Longrightarrow> fmtdev (norm d) = fmtdev d"
begin

lemma explicit:
  assumes "wf d" "fmtdev d = Some s"
  shows "getdev parsedev env (Some (s @ path)) = Some (Inr (norm d, Some (Some path)))"
  using name_back [OF assms(1)] assms(2) by (cases s) (auto simp: getdev_def)

lemma current:
  assumes "wf d" "fmtdev d = Some s"
  shows "\<exists>env'. setcurrdev parsedev ''currdev'' s env = Some (None, env') \<and>
    (\<forall>path. peek path 0 = 47 \<or> 58 \<notin> set path \<longrightarrow> getdev parsedev env' (Some path) = Some (Inr (norm d, Some (Some path))))"
proof -
  have "parsedev (s @ []) = Some (Inr (norm d, Some []))" using name_back [OF assms(1)] assms(2) by (metis option.inject)
  then show ?thesis by (auto simp: setcurrdev_def getdev_def)
qed

end

section \<open>The devices of the loader\<close>

definition dev_ok :: "i386_devdesc \<Rightarrow> bool" where
  "dev_ok d \<longleftrightarrow> i_dev d \<in> set i386_devsw \<and> i_type d = dv_type (i_dev d) \<and> int32 (i_unit d) \<and>
     (i_type d = DEVT_DISK \<longrightarrow> disk_ok (i_unit d) (i_slice d) (i_partition d))"

text \<open>What reading the name leaves: the members that the name tells, over the block that was allocated.\<close>

definition i386_norm :: "i386_devdesc \<Rightarrow> i386_devdesc \<Rightarrow> i386_devdesc" where
  "i386_norm blk d =
     (if i_type d = DEVT_DISK
      then blk\<lparr>i_unit := i_unit d, i_slice := norm_slice (i_slice d) (i_partition d), i_partition := max (-1) (i_partition d),
             i_dev := i_dev d, i_type := i_type d\<rparr>
      else blk\<lparr>i_unit := i_unit d, i_dev := i_dev d, i_type := i_type d\<rparr>)"

lemmas i386_devs = i386_devsw_def bioscd_def biosdisk_def pxedisk_def devt_defs

lemma i386_found:
  assumes "dv \<in> set i386_devsw"
  shows "find_devsw i386_devsw (dv_name dv @ s) = Some dv" "length (dv_name dv) \<ge> 2" "length (dv_name dv) < 100"
    "0 \<notin> set (dv_name dv)" "peek (dv_name dv @ s) 0 \<noteq> 47" "dv_type dv \<in> {DEVT_CD, DEVT_DISK, DEVT_NET}"
  using assms by (auto simp: find_devsw_def i386_devs)

lemma i386_parsedev_name:
  assumes "dv \<in> set i386_devsw"
  shows "i386_parsedev zfs i386_devsw (Some blk) (dv_name dv @ np) =
    (if dv_type dv = DEVT_DISK then
       (case parse_disk np of
          Inl e \<Rightarrow> Some (Inl e)
        | Inr (unit, sl, pt, cp) \<Rightarrow>
            Some (Inr (blk\<lparr>i_unit := unit, i_slice := sl, i_partition := pt, i_dev := dv, i_type := DEVT_DISK\<rparr>, Some (after_colon cp))))
     else
       (case parse_unit np of
          Inl e \<Rightarrow> Some (Inl e)
        | Inr (unit, cp) \<Rightarrow> Some (Inr (blk\<lparr>i_unit := unit, i_dev := dv, i_type := dv_type dv\<rparr>, Some (after_colon cp)))))"
  using i386_found(1) [OF assms, of np] i386_found(2,6) [OF assms] by (auto simp: i386_parsedev_def devt_defs split: sum.splits)

lemma after_colon_58 [simp]: "after_colon (58 # rest) = rest"
  by (simp add: after_colon_def)

text \<open>The printed text of a disk and of another device, in the form the parsers see it.\<close>

lemma disk_text:
  assumes "disk_ok unit sl pt" "length name < 100" "0 \<notin> set name"
  obtains np where "sprintf_to 128 (fmt_disk name unit sl pt) = Some (name @ np)" "58 \<in> set np"
    "\<And>rest. parse_disk (np @ rest) = Inr (unit, norm_slice sl pt, max (-1) pt, 58 # rest)"
proof
  have sp: "fmt_disk name unit sl pt = name @ drop (length name) (fmt_disk name unit sl pt)" by (simp add: fmt_disk_def)
  show "sprintf_to 128 (fmt_disk name unit sl pt) = Some (name @ drop (length name) (fmt_disk name unit sl pt))"
    using fmt_disk_fits [OF assms] sp by simp
  show "58 \<in> set (drop (length name) (fmt_disk name unit sl pt))" by (simp add: fmt_disk_def)
qed (rule parse_disk_fmt [OF assms(1)])

lemma unit_text:
  assumes "int32 unit" "length name < 100" "0 \<notin> set name"
  obtains np where "sprintf_to 128 (fmt_unit name unit) = Some (name @ np)" "58 \<in> set np"
    "\<And>rest. parse_unit (np @ rest) = Inr (unit, 58 # rest)"
proof
  have sp: "fmt_unit name unit = name @ drop (length name) (fmt_unit name unit)" by (simp add: fmt_unit_def)
  show "sprintf_to 128 (fmt_unit name unit) = Some (name @ drop (length name) (fmt_unit name unit))"
    using fmt_unit_fits [OF assms] sp by simp
  show "58 \<in> set (drop (length name) (fmt_unit name unit))" by (simp add: fmt_unit_def)
qed (rule parse_unit_fmt [OF assms(1)])

interpretation i386_names:
  device_names "i386_parsedev zfs i386_devsw (Some blk)" "i386_fmtdev zfmt buf" dev_ok "i386_norm blk"
proof
  fix d assume ok: "dev_ok d"
  let ?dv = "i_dev d"
  have dv: "?dv \<in> set i386_devsw" "i_type d = dv_type ?dv" "int32 (i_unit d)" using ok by (auto simp: dev_ok_def)
  note found = i386_found [OF dv(1)]
  show "i386_fmtdev zfmt buf (i386_norm blk d) = i386_fmtdev zfmt buf d"
    using ok found(6) fmt_disk_norm by (auto simp: i386_fmtdev_def i386_norm_def dev_ok_def devt_defs)
  show "\<exists>s. i386_fmtdev zfmt buf d = Some s \<and> 58 \<in> set s \<and> peek s 0 \<noteq> 47 \<and> s \<noteq> [] \<and>
      (\<forall>rest. i386_parsedev zfs i386_devsw (Some blk) (s @ rest) = Some (Inr (i386_norm blk d, Some rest)))"
  proof (cases "dv_type ?dv = DEVT_DISK")
    case True
    then have "disk_ok (i_unit d) (i_slice d) (i_partition d)" using ok dv by (simp add: dev_ok_def)
    from disk_text [OF this found(3,4)] obtain np where "i386_fmtdev zfmt buf d = Some (dv_name ?dv @ np)" "58 \<in> set np"
      "\<And>rest. parse_disk (np @ rest) = Inr (i_unit d, norm_slice (i_slice d) (i_partition d), max (-1) (i_partition d), 58 # rest)"
      using True dv by (auto simp: i386_fmtdev_def devt_defs)
    then show ?thesis using found(2,5) dv(2) True i386_parsedev_name [OF dv(1)] by (auto simp: i386_norm_def)
  next
    case False
    obtain np where np: "sprintf_to 128 (fmt_unit (dv_name ?dv) (i_unit d)) = Some (dv_name ?dv @ np)" "58 \<in> set np"
      "\<And>rest. parse_unit (np @ rest) = Inr (i_unit d, 58 # rest)"
      using unit_text [OF dv(3) found(3,4)] by blast
    have "i386_fmtdev zfmt buf d = Some (dv_name ?dv @ np)" using np(1) False dv found(6) by (auto simp: i386_fmtdev_def devt_defs)
    then show ?thesis using np(2,3) found(2,5) dv(2) False i386_parsedev_name [OF dv(1)] by (auto simp: i386_norm_def)
  qed
qed

text \<open>The same for userboot.\<close>

definition user_ok :: "devsw \<times> disk_devdesc \<Rightarrow> bool" where
  "user_ok = (\<lambda>(dv, d). dv \<in> set userboot_devsw \<and> int32 (d_unit d) \<and>
     (dv_type dv = DEVT_DISK \<longrightarrow> disk_ok (d_unit d) (d_slice d) (d_partition d)))"

definition user_norm :: "disk_devdesc \<Rightarrow> devsw \<times> disk_devdesc \<Rightarrow> devsw \<times> disk_devdesc" where
  "user_norm blk = (\<lambda>(dv, d). (dv,
     if dv_type dv = DEVT_DISK
     then blk\<lparr>d_unit := d_unit d, d_slice := norm_slice (d_slice d) (d_partition d), d_partition := max (-1) (d_partition d)\<rparr>
     else blk\<lparr>d_unit := d_unit d\<rparr>))"

lemma user_found:
  assumes "dv \<in> set userboot_devsw"
  shows "find_devsw userboot_devsw (dv_name dv @ s) = Some dv" "length (dv_name dv) \<ge> 2" "length (dv_name dv) < 100"
    "0 \<notin> set (dv_name dv)" "peek (dv_name dv @ s) 0 \<noteq> 47" "dv_type dv \<in> {DEVT_DISK, DEVT_NET}"
  using assms by (auto simp: find_devsw_def userboot_devsw_def host_dev_def userboot_disk_def devt_defs)

interpretation user_names:
  device_names "userboot_parsedev userboot_devsw (Some blk)" "userboot_fmtdev buf" user_ok "user_norm blk"
proof
  fix x assume "user_ok x"
  then obtain dv d where x: "x = (dv, d)" and ok: "user_ok (dv, d)" by (cases x) auto
  have dv: "dv \<in> set userboot_devsw" "int32 (d_unit d)" using ok by (auto simp: user_ok_def)
  note found = user_found [OF dv(1)]
  show "userboot_fmtdev buf (user_norm blk x) = userboot_fmtdev buf x"
    using ok found(6) fmt_disk_norm by (auto simp: x userboot_fmtdev_def user_norm_def user_ok_def devt_defs)
  show "\<exists>s. userboot_fmtdev buf x = Some s \<and> 58 \<in> set s \<and> peek s 0 \<noteq> 47 \<and> s \<noteq> [] \<and>
      (\<forall>rest. userboot_parsedev userboot_devsw (Some blk) (s @ rest) = Some (Inr (user_norm blk x, Some rest)))"
  proof (cases "dv_type dv = DEVT_DISK")
    case True
    then have "disk_ok (d_unit d) (d_slice d) (d_partition d)" using ok by (simp add: user_ok_def)
    from disk_text [OF this found(3,4)] obtain np where "userboot_fmtdev buf x = Some (dv_name dv @ np)" "58 \<in> set np"
      "\<And>rest. parse_disk (np @ rest) = Inr (d_unit d, norm_slice (d_slice d) (d_partition d), max (-1) (d_partition d), 58 # rest)"
      using True by (auto simp: x userboot_fmtdev_def devt_defs)
    then show ?thesis using found(1,2,5) True by (auto simp: x user_norm_def userboot_parsedev_def devt_defs)
  next
    case False
    obtain np where np: "sprintf_to 128 (fmt_unit (dv_name dv) (d_unit d)) = Some (dv_name dv @ np)" "58 \<in> set np"
      "\<And>rest. parse_unit (np @ rest) = Inr (d_unit d, 58 # rest)"
      using unit_text [OF dv(2) found(3,4)] by blast
    have "userboot_fmtdev buf x = Some (dv_name dv @ np)" using np(1) False found(6) by (auto simp: x userboot_fmtdev_def devt_defs)
    then show ?thesis using np(2,3) found(1,2,5,6) False by (auto simp: x user_norm_def userboot_parsedev_def devt_defs)
  qed
qed

text \<open>
  Two descriptors of the same device: the members that the driver looks at agree.  A name shows a slice when it is a
  number from 1, when it is the number of a GPT partition, or, by leaving it out, when it is -1 for the whole disk; slice 0,
  with which a disk is opened at its best slice, is printed as the whole disk and is excluded.
\<close>

definition same_device :: "i386_devdesc \<Rightarrow> i386_devdesc \<Rightarrow> bool" where
  "same_device r d \<longleftrightarrow> i_dev r = i_dev d \<and> i_type r = i_type d \<and> i_unit r = i_unit d \<and>
     (i_type d = DEVT_DISK \<longrightarrow> i_slice r = i_slice d \<and> i_partition r = i_partition d)"

definition slice_shown :: "i386_devdesc \<Rightarrow> bool" where
  "slice_shown d \<longleftrightarrow> (i_type d = DEVT_DISK \<longrightarrow> i_partition d = 0xff \<or> i_slice d = -1 \<or> 0 < i_slice d)"

lemma norm_same_device: "dev_ok d \<Longrightarrow> slice_shown d \<Longrightarrow> same_device (i386_norm blk d) d"
  by (auto simp: dev_ok_def disk_ok_def slice_shown_def same_device_def i386_norm_def norm_slice_def)

text \<open>
  C20: Printed device names are read back.  For every descriptor of the loader's drivers whose partition is -1, below
  \<^verbatim>\<open>MAXPARTITIONS\<close> or 255 and, for a disk, whose slice is one that names show (a number from 1, -1, or any for a GPT
  partition), \<^verbatim>\<open>i386_fmtdev\<close> gives a name; \<^verbatim>\<open>i386_getdev\<close> of the name followed by any path gives a descriptor of the same
  device, slice and partition included, and that path; the descriptor that was read prints as the same name; and once
  the name has been stored by \<^verbatim>\<open>i386_setcurrdev\<close>, every path without a device goes to that device.
\<close>

theorem device_names_read_back:
  assumes "dev_ok d" "slice_shown d"
  shows "\<exists>s env' r. same_device r d \<and> i386_fmtdev zfs_fmtdev_stub buf d = Some s \<and> i386_fmtdev zfs_fmtdev_stub buf r = Some s \<and>
    (\<forall>path. i386_getdev zfs_parsedev_stub i386_devsw (Some blk) env (Some (s @ path)) = Some (Inr (r, Some (Some path)))) \<and>
    i386_setcurrdev zfs_parsedev_stub i386_devsw (Some blk) ''currdev'' s env = Some (None, env') \<and>
    (\<forall>path. peek path 0 = 47 \<or> 58 \<notin> set path \<longrightarrow>
       i386_getdev zfs_parsedev_stub i386_devsw (Some blk) env' (Some path) = Some (Inr (r, Some (Some path))))"
proof -
  obtain s where s: "i386_fmtdev zfs_fmtdev_stub buf d = Some s" using i386_names.name_back [OF assms(1)] by blast
  from i386_names.current [OF assms(1) s] obtain env' where
    "setcurrdev (i386_parsedev zfs_parsedev_stub i386_devsw (Some blk)) ''currdev'' s env = Some (None, env')"
    "\<forall>path. peek path 0 = 47 \<or> 58 \<notin> set path \<longrightarrow>
       getdev (i386_parsedev zfs_parsedev_stub i386_devsw (Some blk)) env' (Some path) = Some (Inr (i386_norm blk d, Some (Some path)))"
    by blast
  with s i386_names.explicit [OF assms(1) s] i386_names.name_stable [OF assms(1)] norm_same_device [OF assms] show ?thesis
    unfolding i386_getdev_def i386_setcurrdev_def by metis
qed

definition disk1s2a :: i386_devdesc where
  "disk1s2a = \<lparr>i_dev = biosdisk, i_type = DEVT_DISK, i_unit = 1, i_slice = 2, i_partition = 0, i_pool = 0, i_root = 0\<rparr>"

theorem device_names_read_back_witness:
  "\<exists>s r. i386_fmtdev zfs_fmtdev_stub [] disk1s2a = Some s \<and> i_unit r = 1 \<and> i_slice r = 2 \<and> i_partition r = 0 \<and>
    i386_getdev zfs_parsedev_stub i386_devsw (Some (disk1s2a\<lparr>i_unit := 7, i_slice := 7\<rparr>)) (\<lambda>_. None) (Some (s @ [47, 107])) = Some (Inr (r, Some (Some [47, 107])))"
proof -
  have "dev_ok disk1s2a" "slice_shown disk1s2a"
    by (simp_all add: dev_ok_def slice_shown_def disk1s2a_def disk_ok_def MAXPARTITIONS_def i386_devsw_def biosdisk_def)
  from device_names_read_back [OF this, of "[]" "disk1s2a\<lparr>i_unit := 7, i_slice := 7\<rparr>" "\<lambda>_. None"] show ?thesis
    by (fastforce simp: same_device_def disk1s2a_def)
qed

section \<open>Every string\<close>

lemma strtol_int32: "strtol b s = (v, n) \<Longrightarrow> int32 v"
proof -
  have clamp: "int32 (clamp_long x)" for x by (simp add: clamp_long_def)
  have pick: "P a \<Longrightarrow> P b \<Longrightarrow> P (if c then a else b)" for P :: "int \<times> nat \<Rightarrow> bool" and a b c by simp
  have "int32 (fst (strtol b s))" unfolding strtol_def Let_def by (rule pick) (simp, unfold fst_conv, rule clamp)
  then show "strtol b s = (v, n) \<Longrightarrow> int32 v" by simp
qed

lemma parse_slice_range: "parse_slice np = Inr (v, cp) \<Longrightarrow> int32 v \<and> (\<exists>n. cp = drop n np)"
  by (auto simp: parse_slice_def dest: strtol_int32 split: prod.splits if_splits)

lemma parse_label_range:
  assumes "parse_label unit sl np = Inr (u, s, pt, cp)" "int32 unit" "int32 sl"
  shows "disk_ok u s pt \<and> (\<exists>n. cp = drop n np)"
proof -
  have "\<exists>n. np = drop n np" by (rule exI [of _ 0]) simp
  then show ?thesis using assms by (auto simp: parse_label_def disk_ok_def MAXPARTITIONS_def Let_def split: if_splits)
qed

lemma parse_where_range:
  assumes "parse_where unit c = Inr (u, s, pt, cp)" "int32 unit"
  shows "disk_ok u s pt \<and> (\<exists>n. cp = drop n c)"
proof (cases "parse_slice (drop 1 c)")
  case (Inl e)
  then have "parse_label unit (-1) c = Inr (u, s, pt, cp)" using assms(1) by (auto simp: parse_where_def split: if_splits)
  from parse_label_range [OF this assms(2)] show ?thesis by simp
next
  case (Inr x)
  then obtain sl cp' where sl: "parse_slice (drop 1 c) = Inr (sl, cp')" by (cases x) auto
  from parse_slice_range [OF sl] obtain k where k: "int32 sl" "cp' = drop k (drop 1 c)" by blast
  have "u = unit \<and> s = sl \<and> pt = 0xff \<and> cp = cp' \<or> parse_label unit sl cp' = Inr (u, s, pt, cp) \<or> parse_label unit (-1) c = Inr (u, s, pt, cp)"
    using assms(1) sl by (simp add: parse_where_def split: if_splits)
  then consider "u = unit" "s = sl" "pt = 0xff" "cp = cp'" | "parse_label unit sl cp' = Inr (u, s, pt, cp)"
    | "parse_label unit (-1) c = Inr (u, s, pt, cp)" by blast
  then show ?thesis
  proof cases
    case 1
    then show ?thesis using assms(2) k by (auto simp: disk_ok_def)
  next
    case 2
    from parse_label_range [OF this assms(2) k(1)] k(2) show ?thesis by auto
  next
    case 3
    from parse_label_range [OF this assms(2)] show ?thesis by simp
  qed
qed

lemma parse_disk_range:
  assumes "parse_disk np = Inr (u, s, pt, cp)"
  shows "disk_ok u s pt \<and> (\<exists>n. cp = drop n np)"
proof (cases "at_end np")
  case True
  then have "cp = drop 0 np" "u = -1" "s = -1" "pt = -1" using assms by (auto simp: parse_disk_def)
  then show ?thesis by (auto simp: disk_ok_def MAXPARTITIONS_def intro: exI [of _ "0 :: nat"])
next
  case False
  obtain unit n where st: "strtol 10 np = (unit, n)" by fastforce
  have "parse_where unit (drop n np) = Inr (u, s, pt, cp)"
    using assms False st by (auto simp: parse_disk_def split: sum.splits if_splits)
  from parse_where_range [OF this strtol_int32 [OF st]] show ?thesis by auto
qed

lemma parse_unit_range: "parse_unit np = Inr (u, cp) \<Longrightarrow> int32 u \<and> (\<exists>n. cp = drop n np)"
proof -
  assume a: "parse_unit np = Inr (u, cp)"
  have "\<exists>n. np = drop n np" by (rule exI [of _ 0]) simp
  then show ?thesis using a
    by (auto simp: parse_unit_def Let_def dest: strtol_int32 split: if_splits prod.splits)
qed

lemma after_colon_drop: "\<exists>n. after_colon cp = drop n cp"
proof -
  have "cp = drop 0 cp" by simp
  then show ?thesis unfolding after_colon_def by metis
qed

lemma parse_no_ENXIO: "parse_slice np \<noteq> Inl Err_ENXIO" "parse_label unit sl np \<noteq> Inl Err_ENXIO"
    "parse_disk np \<noteq> Inl Err_ENXIO" "parse_unit np \<noteq> Inl Err_ENXIO"
proof -
  show sl: "parse_slice np \<noteq> Inl Err_ENXIO" for np by (simp add: parse_slice_def split: prod.splits)
  show lab: "parse_label unit sl np \<noteq> Inl Err_ENXIO" for unit sl np by (simp add: parse_label_def Let_def)
  show "parse_disk np \<noteq> Inl Err_ENXIO" 
    using sl lab by (auto simp: parse_disk_def parse_where_def split: sum.splits prod.splits if_splits)
  show "parse_unit np \<noteq> Inl Err_ENXIO" by (auto simp: parse_unit_def Let_def split: sum.splits prod.splits)
qed

lemma i386_fmtdev_fits: "dev_ok d \<Longrightarrow> \<exists>s. i386_fmtdev zfs buf d = Some s \<and> length s < 128"
proof -
  assume ok: "dev_ok d"
  then have ty: "i_type d \<in> {DEVT_CD, DEVT_DISK, DEVT_NET}" using i386_found(6) [of "i_dev d"] by (auto simp: dev_ok_def)
  have "sprintf_to 128 s = Some t \<Longrightarrow> length t < 128" for s t
    using length_takeWhile_le [of "\<lambda>c. c \<noteq> 0" s] by (auto simp: sprintf_to_def split: if_splits)
  then show ?thesis using i386_names.name_back [OF ok] ty by (fastforce simp: i386_fmtdev_def devt_defs)
qed

text \<open>
  C21: The descriptors that names give are well formed.  Whatever the string, \<^verbatim>\<open>i386_parsedev\<close> either reports an error or
  gives a descriptor of one of the loader's drivers with that driver's type, with unit and slice numbers of 32 bits
  and, for a disk, a partition that is -1, a letter from a to the last below \<^verbatim>\<open>MAXPARTITIONS\<close>, or the 255 of GPT, and the
  rest of the string as the path; such a descriptor is always printed within the buffer of \<^verbatim>\<open>i386_fmtdev\<close>.
\<close>

theorem parsed_devices_well_formed:
  "\<exists>r. i386_parsedev zfs_parsedev_stub i386_devsw (Some blk) devspec = Some r \<and>
    (case r of
       Inl e \<Rightarrow> e \<noteq> Err_ENXIO
     | Inr (d, p) \<Rightarrow> dev_ok d \<and> (\<exists>pre path. p = Some path \<and> devspec = pre @ path) \<and> (\<exists>s. i386_fmtdev zfs_fmtdev_stub buf d = Some s \<and> length s < 128))"
proof (cases "find_devsw i386_devsw devspec")
  case None
  then show ?thesis by (simp add: i386_parsedev_def)
next
  case (Some dv)
  then have dv: "dv \<in> set i386_devsw" "take (length (dv_name dv)) devspec = dv_name dv"
    by (auto simp: find_devsw_def find_Some_iff)
  define np where "np = drop (length (dv_name dv)) devspec"
  have sp: "devspec = dv_name dv @ np" using dv(2) unfolding np_def by (metis append_take_drop_id)
  have path: "\<exists>pre. devspec = pre @ after_colon cp" if "\<exists>n. cp = drop n np" for cp
  proof -
    from that obtain n where n: "cp = drop n np" by blast
    obtain m where "after_colon cp = drop m cp" using after_colon_drop by blast
    with n have "after_colon cp = drop m (drop n np)" by simp
    then have "after_colon cp = drop (m + n) np" by simp
    then have "np = take (m + n) np @ after_colon cp" by simp
    then show ?thesis unfolding sp by (metis append.assoc)
  qed
  show ?thesis
  proof (cases "dv_type dv = DEVT_DISK")
    case True
    show ?thesis
    proof (cases "parse_disk np")
      case (Inl e)
      then show ?thesis using i386_parsedev_name [OF dv(1), of zfs_parsedev_stub blk np] True parse_no_ENXIO(3) [of np] by (auto simp: sp)
    next
      case (Inr x)
      then obtain u s pt cp where x: "parse_disk np = Inr (u, s, pt, cp)" by (cases x) auto
      let ?d = "blk\<lparr>i_unit := u, i_slice := s, i_partition := pt, i_dev := dv, i_type := DEVT_DISK\<rparr>"
      note rng = parse_disk_range [OF x]
      have ok: "dev_ok ?d" using rng dv True by (simp add: dev_ok_def disk_ok_def)
      have r: "i386_parsedev zfs_parsedev_stub i386_devsw (Some blk) devspec = Some (Inr (?d, Some (after_colon cp)))"
        using i386_parsedev_name [OF dv(1), of zfs_parsedev_stub blk np] True x by (simp add: sp)
      show ?thesis using ok r path rng i386_fmtdev_fits [OF ok] by (simp del: append_assoc)
    qed
  next
    case False
    show ?thesis
    proof (cases "parse_unit np")
      case (Inl e)
      then show ?thesis using i386_parsedev_name [OF dv(1), of zfs_parsedev_stub blk np] False parse_no_ENXIO(4) [of np] by (auto simp: sp)
    next
      case (Inr x)
      then obtain u cp where x: "parse_unit np = Inr (u, cp)" by (cases x) auto
      let ?d = "blk\<lparr>i_unit := u, i_dev := dv, i_type := dv_type dv\<rparr>"
      note rng = parse_unit_range [OF x]
      have ok: "dev_ok ?d" using rng dv False by (simp add: dev_ok_def)
      have r: "i386_parsedev zfs_parsedev_stub i386_devsw (Some blk) devspec = Some (Inr (?d, Some (after_colon cp)))"
        using i386_parsedev_name [OF dv(1), of zfs_parsedev_stub blk np] False x by (simp add: sp)
      show ?thesis using ok r path rng i386_fmtdev_fits [OF ok] by (simp del: append_assoc)
    qed
  qed
qed

end
