(* ===== verification/Bootinfo.thy ===== *)
theory Bootinfo
  imports Boot Devicename
begin

text \<open>
  What the i386 loader hands to the kernel: \<^verbatim>\<open>boot/i386/libi386/bootinfo.c\<close>, \<^verbatim>\<open>bootinfo32.c\<close>, \<^verbatim>\<open>bootinfo64.c\<close> and
  \<^verbatim>\<open>bios_addsmapdata\<close> of \<^verbatim>\<open>biossmap.c\<close>.  The environment and the descriptions of the loaded files are copied behind the
  files, and the addresses of both reach the kernel as metadata.

  The copy routine is the argument \<open>copyin\<close> on a store of any type, as in \<^verbatim>\<open>misc.c\<close>; a \<^verbatim>\<open>vm_offset_t\<close> has 32 bits.  The
  numbers of \<^verbatim>\<open>sys/linker.h\<close> and \<^verbatim>\<open>sys/reboot.h\<close> are written out.  The chain of environment variables, in the order
  libstand keeps it, is an argument.  The drivers' numbering of disks, the geometry and the memory sizes found by the
  BIOS, and the processor's answer to \<^verbatim>\<open>cpuid\<close> are in the record \<open>host\<close>.
\<close>

section \<open>The boot flags\<close>

definition RB_SERIAL :: u32 where "RB_SERIAL = 0x1000"
definition RB_MUTE :: u32 where "RB_MUTE = 0x10000"
definition RB_MULTIPLE :: u32 where "RB_MULTIPLE = 0x20000000"

definition howto_names :: "(string \<times> u32) list" where
  "howto_names =
     [(''boot_askname'', 0x1), (''boot_cdrom'', 0x2000), (''boot_ddb'', 0x40), (''boot_dfltroot'', 0x20), (''boot_gdb'', 0x8000),
      (''boot_multicons'', RB_MULTIPLE), (''boot_mute'', RB_MUTE), (''boot_pause'', 0x100000), (''boot_serial'', RB_SERIAL),
      (''boot_single'', 0x2), (''boot_verbose'', 0x800)]"

text \<open>The \<^verbatim>\<open>switch\<close> on a letter of the arguments.\<close>

definition karg_flag :: "byte \<Rightarrow> u32 option" where
  "karg_flag c = map_of
     [(97, 0x1), (67, 0x2000), (100, 0x40), (68, RB_MULTIPLE), (109, RB_MUTE), (103, 0x8000), (104, RB_SERIAL), (112, 0x100000),
      (114, 0x20), (115, 0x2), (118, 0x800)] c"

fun kargs_loop :: "bool \<Rightarrow> byte list \<Rightarrow> u32 \<Rightarrow> u32" where
  "kargs_loop active [] howto = howto"
| "kargs_loop active (c # cs) howto =
     (if \<not> active then kargs_loop (c = 45) cs howto
      else case karg_flag c of Some f \<Rightarrow> kargs_loop True cs (howto OR f) | None \<Rightarrow> kargs_loop False cs howto)"

definition env_flags :: "(string \<Rightarrow> byte list option) \<Rightarrow> u32 \<Rightarrow> u32" where
  "env_flags env howto = foldl (\<lambda>h (ev, mask). if env ev \<noteq> None then h OR mask else h) howto howto_names"

text \<open>The pieces that \<^verbatim>\<open>strsep\<close> makes of the list of consoles; empty ones have no effect.\<close>

definition is_sep :: "byte \<Rightarrow> bool" where
  "is_sep c \<longleftrightarrow> c = 32 \<or> c = 44"

function strsep_all :: "byte list \<Rightarrow> byte list list" where
  "strsep_all s =
     takeWhile (\<lambda>c. \<not> is_sep c) s #
     (case dropWhile (\<lambda>c. \<not> is_sep c) s of [] \<Rightarrow> [] | _ # t \<Rightarrow> strsep_all t)"
  by pat_completeness auto
termination
proof (relation "measure length")
  fix s :: "byte list" and c t assume "dropWhile (\<lambda>c. \<not> is_sep c) s = c # t"
  then have "length (c # t) \<le> length s" by (metis length_dropWhile_le)
  then show "(t, s) \<in> measure length" by simp
qed simp

declare strsep_all.simps [simp del]

definition console_step :: "bool \<times> u32 \<Rightarrow> byte list \<Rightarrow> bool \<times> u32" where
  "console_step = (\<lambda>(vid, howto) name.
     if name = bytes_of ''vidconsole'' then (True, howto)
     else if name = bytes_of ''comconsole'' then (vid, howto OR RB_SERIAL)
     else if name = bytes_of ''nullconsole'' then (vid, howto OR RB_MUTE)
     else (vid, howto))"

text \<open>\<^verbatim>\<open>strsep\<close> cuts the copy of the list behind its first name, which is then compared as a whole.\<close>

definition console_flags :: "byte list \<Rightarrow> u32 \<Rightarrow> u32" where
  "console_flags cons howto =
     (let (vid, h) = foldl console_step (False, howto) (strsep_all cons);
          h1 = (if vid \<and> h AND RB_SERIAL \<noteq> 0 then h OR RB_MULTIPLE else h)
      in if takeWhile (\<lambda>c. \<not> is_sep c) cons = bytes_of ''vidconsole'' then h1 AND NOT RB_SERIAL else h1)"

definition bi_getboothowto :: "byte list option \<Rightarrow> (string \<Rightarrow> byte list option) \<Rightarrow> u32 option" where
  "bi_getboothowto kargs env = do {
     cons \<leftarrow> env ''console'';
     Some (console_flags cons (env_flags env (case kargs of None \<Rightarrow> 0 | Some s \<Rightarrow> kargs_loop False s 0)))
   }"

definition bi_setboothowto :: "u32 \<Rightarrow> (string \<Rightarrow> byte list option) \<Rightarrow> string \<Rightarrow> byte list option" where
  "bi_setboothowto howto env =
     foldl (\<lambda>e (ev, mask). if howto AND mask \<noteq> 0 then e(ev := Some (bytes_of ''YES'')) else e) env howto_names"

section \<open>Copying\<close>

type_synonym 'k copier = "byte list \<Rightarrow> u32 \<Rightarrow> nat \<Rightarrow> 'k \<Rightarrow> (int \<times> 'k) option"

text \<open>The result of \<^verbatim>\<open>i386_copyin\<close> is never looked at.\<close>

definition copy_bytes :: "'k copier \<Rightarrow> byte list \<Rightarrow> u32 \<times> 'k \<Rightarrow> (u32 \<times> 'k) option" where
  "copy_bytes copyin bs = (\<lambda>(addr, k). do {
     (_, k') \<leftarrow> copyin bs addr (length bs) k;
     Some (addr + word_of_nat (length bs), k')
   })"

fun bi_copyenv :: "'k copier \<Rightarrow> (byte list \<times> byte list option) list \<Rightarrow> u32 \<times> 'k \<Rightarrow> (u32 \<times> 'k) option" where
  "bi_copyenv copyin [] s = copy_bytes copyin [0] s"
| "bi_copyenv copyin ((name, val) # env) s = do {
     s1 \<leftarrow> copy_bytes copyin name s;
     s2 \<leftarrow> copy_bytes copyin [61] s1;
     s3 \<leftarrow> (case val of None \<Rightarrow> Some s2 | Some v \<Rightarrow> copy_bytes copyin v s2);
     s4 \<leftarrow> copy_bytes copyin [0] s3;
     bi_copyenv copyin env s4
   }"

section \<open>Module metadata\<close>

definition MODINFO_END :: u32 where "MODINFO_END = 0"
definition MODINFO_NAME :: u32 where "MODINFO_NAME = 1"
definition MODINFO_TYPE :: u32 where "MODINFO_TYPE = 2"
definition MODINFO_ADDR :: u32 where "MODINFO_ADDR = 3"
definition MODINFO_SIZE :: u32 where "MODINFO_SIZE = 4"
definition MODINFO_ARGS :: u32 where "MODINFO_ARGS = 6"
definition MODINFO_METADATA :: u32 where "MODINFO_METADATA = 0x8000"
definition MODINFOMD_NOCOPY :: u16 where "MODINFOMD_NOCOPY = 0x8000"
definition MODINFOMD_SSYM :: int where "MODINFOMD_SSYM = 3"
definition MODINFOMD_ESYM :: int where "MODINFOMD_ESYM = 4"
definition MODINFOMD_ENVP :: int where "MODINFOMD_ENVP = 6"
definition MODINFOMD_HOWTO :: int where "MODINFOMD_HOWTO = 7"
definition MODINFOMD_KERNEND :: int where "MODINFOMD_KERNEND = 8"
definition MODINFOMD_SMAP :: int where "MODINFOMD_SMAP = 0x1001"
definition MODINFOMD_SMAP_XATTR :: int where "MODINFOMD_SMAP_XATTR = 0x1002"

lemmas modinfo_defs = MODINFO_END_def MODINFO_NAME_def MODINFO_TYPE_def MODINFO_ADDR_def MODINFO_SIZE_def MODINFO_ARGS_def
  MODINFO_METADATA_def

definition roundup :: "nat \<Rightarrow> nat \<Rightarrow> nat" where
  "roundup x y = (x + (y - 1)) div y * y"

text \<open>With \<open>c\<close> false nothing is copied and only the address moves.\<close>

definition copy_if :: "'k copier \<Rightarrow> bool \<Rightarrow> byte list \<Rightarrow> u32 \<Rightarrow> 'k \<Rightarrow> 'k option" where
  "copy_if copyin c bs a k = (if c then map_option snd (copyin bs a (length bs) k) else Some k)"

definition COPY32 :: "'k copier \<Rightarrow> bool \<Rightarrow> u32 \<Rightarrow> u32 \<times> 'k \<Rightarrow> (u32 \<times> 'k) option" where
  "COPY32 copyin c v = (\<lambda>(a, k). do { k' \<leftarrow> copy_if copyin c (le_bytes 4 (unat v)) a k; Some (a + 4, k') })"

text \<open>
  The common text of \<^verbatim>\<open>MOD_STR\<close>, \<^verbatim>\<open>MOD_VAR\<close> and \<^verbatim>\<open>MOD_METADATA\<close>: identifier, size and data, padded to the alignment \<open>al\<close>.
\<close>

definition MOD_DATA :: "'k copier \<Rightarrow> bool \<Rightarrow> nat \<Rightarrow> u32 \<Rightarrow> byte list \<Rightarrow> u32 \<times> 'k \<Rightarrow> (u32 \<times> 'k) option" where
  "MOD_DATA copyin c al t data s = do {
     s1 \<leftarrow> COPY32 copyin c t s;
     (a, k) \<leftarrow> COPY32 copyin c (word_of_nat (length data)) s1;
     k' \<leftarrow> copy_if copyin c data a k;
     Some (a + word_of_nat (roundup (length data) al), k')
   }"

definition MOD_STR :: "'k copier \<Rightarrow> bool \<Rightarrow> nat \<Rightarrow> u32 \<Rightarrow> byte list \<Rightarrow> u32 \<times> 'k \<Rightarrow> (u32 \<times> 'k) option" where
  "MOD_STR copyin c al t s = MOD_DATA copyin c al t (s @ [0])"

definition MOD_VAR :: "'k copier \<Rightarrow> bool \<Rightarrow> nat \<Rightarrow> u32 \<Rightarrow> u64 \<Rightarrow> u32 \<times> 'k \<Rightarrow> (u32 \<times> 'k) option" where
  "MOD_VAR copyin c al t v = MOD_DATA copyin c al t (le_bytes al (unat v))"

definition MOD_METADATA :: "'k copier \<Rightarrow> bool \<Rightarrow> nat \<Rightarrow> file_metadata \<Rightarrow> u32 \<times> 'k \<Rightarrow> (u32 \<times> 'k) option" where
  "MOD_METADATA copyin c al mm = MOD_DATA copyin c al (MODINFO_METADATA OR ucast (md_type mm)) (md_data mm)"

definition MOD_END :: "'k copier \<Rightarrow> bool \<Rightarrow> u32 \<times> 'k \<Rightarrow> (u32 \<times> 'k) option" where
  "MOD_END copyin c s = do { s1 \<leftarrow> COPY32 copyin c MODINFO_END s; COPY32 copyin c 0 s1 }"

fun copy_metadata :: "'k copier \<Rightarrow> bool \<Rightarrow> nat \<Rightarrow> file_metadata list \<Rightarrow> u32 \<times> 'k \<Rightarrow> (u32 \<times> 'k) option" where
  "copy_metadata copyin c al [] s = Some s"
| "copy_metadata copyin c al (md # mds) s =
     (if md_type md AND MODINFOMD_NOCOPY \<noteq> 0 then copy_metadata copyin c al mds s
      else do { s1 \<leftarrow> MOD_METADATA copyin c al md s; copy_metadata copyin c al mds s1 })"

fun copy_files :: "'k copier \<Rightarrow> bool \<Rightarrow> nat \<Rightarrow> preloaded_file list \<Rightarrow> u32 \<times> 'k \<Rightarrow> (u32 \<times> 'k) option" where
  "copy_files copyin c al [] s = Some s"
| "copy_files copyin c al (fp # fps) s = do {
     s1 \<leftarrow> MOD_STR copyin c al MODINFO_NAME (f_name fp) s;
     s2 \<leftarrow> MOD_STR copyin c al MODINFO_TYPE (f_type fp) s1;
     s3 \<leftarrow> (case f_args fp of None \<Rightarrow> Some s2 | Some args \<Rightarrow> MOD_STR copyin c al MODINFO_ARGS args s2);
     s4 \<leftarrow> MOD_VAR copyin c al MODINFO_ADDR (f_addr fp) s3;
     s5 \<leftarrow> MOD_VAR copyin c al MODINFO_SIZE (f_size fp) s4;
     s6 \<leftarrow> copy_metadata copyin c al (f_metadata fp) s5;
     copy_files copyin c al fps s6
   }"

text \<open>The two variants differ in the width of addresses, sizes and padding, the argument \<open>al\<close>.\<close>

definition bi_copymodules :: "'k copier \<Rightarrow> nat \<Rightarrow> preloaded_file list \<Rightarrow> u32 \<Rightarrow> 'k \<Rightarrow> (u32 \<times> 'k) option" where
  "bi_copymodules copyin al fps addr k = do {
     let c = (addr \<noteq> 0);
     s \<leftarrow> copy_files copyin c al fps (addr, k);
     MOD_END copyin c s
   }"

definition bi_copymodules32 :: "'k copier \<Rightarrow> preloaded_file list \<Rightarrow> u32 \<Rightarrow> 'k \<Rightarrow> (u32 \<times> 'k) option" where
  "bi_copymodules32 copyin = bi_copymodules copyin 4"

definition bi_copymodules64 :: "'k copier \<Rightarrow> preloaded_file list \<Rightarrow> u32 \<Rightarrow> 'k \<Rightarrow> (u32 \<times> 'k) option" where
  "bi_copymodules64 copyin = bi_copymodules copyin 8"

section \<open>Placing the data\<close>

definition end_of :: "preloaded_file \<Rightarrow> u32" where
  "end_of fp = ucast (f_addr fp) + ucast (f_size fp)"

definition load_end :: "preloaded_file list \<Rightarrow> u32" where
  "load_end fps = foldl (\<lambda>addr xp. if addr < end_of xp then end_of xp else addr) 0 fps"

definition roundup_page :: "u32 \<Rightarrow> u32" where
  "roundup_page a = (a + 4095) div 4096 * 4096"

text \<open>The position of the file that \<^verbatim>\<open>file_findfile\<close> gives for the first of the types that is there.\<close>

fun kernel_index :: "byte list list \<Rightarrow> preloaded_file list \<Rightarrow> nat option" where
  "kernel_index [] fps = None"
| "kernel_index (t # ts) fps =
     (let n = length (takeWhile (\<lambda>fp. f_type fp \<noteq> t) fps) in if n < length fps then Some n else kernel_index ts fps)"

definition add_meta :: "allocator \<Rightarrow> nat \<Rightarrow> int \<Rightarrow> byte list \<Rightarrow> preloaded_file list \<Rightarrow> preloaded_file list option" where
  "add_meta alloc i ty data fps = do {
     fp \<leftarrow> rd fps i;
     fp' \<leftarrow> file_addmetadata alloc fp ty data;
     Some (fps[i := fp'])
   }"

definition bios_addsmapdata ::
  "allocator \<Rightarrow> byte list option \<Rightarrow> byte list option \<Rightarrow> nat \<Rightarrow> preloaded_file list \<Rightarrow> preloaded_file list option" where
  "bios_addsmapdata alloc smap xattr i fps =
     (case smap of
        None \<Rightarrow> Some fps
      | Some b \<Rightarrow>
          if b = [] then Some fps
          else do {
            fps1 \<leftarrow> add_meta alloc i MODINFOMD_SMAP b fps;
            case xattr of None \<Rightarrow> Some fps1 | Some x \<Rightarrow> add_meta alloc i MODINFOMD_SMAP_XATTR x fps1
          })"

fun patch_metadata :: "int \<Rightarrow> byte list \<Rightarrow> file_metadata list \<Rightarrow> file_metadata list option" where
  "patch_metadata ty bs [] = None"
| "patch_metadata ty bs (md # mds) =
     (if uint (md_type md) = ty
      then map_option (\<lambda>d. md\<lparr>md_data := d\<rparr> # mds) (store (md_data md) 0 bs)
      else map_option ((#) md) (patch_metadata ty bs mds))"

definition patch_file :: "nat \<Rightarrow> int \<Rightarrow> byte list \<Rightarrow> preloaded_file list \<Rightarrow> preloaded_file list option" where
  "patch_file i ty bs fps = do {
     fp \<leftarrow> rd fps i;
     mds \<leftarrow> patch_metadata ty bs (f_metadata fp);
     Some (fps[i := fp\<lparr>f_metadata := mds\<rparr>])
   }"

record 'k placed =
  pl_envp :: u32
  pl_modulep :: u32
  pl_kernend :: u32
  pl_kernel :: nat
  pl_files :: "preloaded_file list"
  pl_store :: 'k

text \<open>
  The common part of \<^verbatim>\<open>bi_load32\<close> and \<^verbatim>\<open>bi_load64\<close>; \<^term>\<open>Some None\<close> is the call of \<^verbatim>\<open>panic\<close> when there is no kernel.
\<close>

definition bi_place ::
  "'k copier \<Rightarrow> allocator \<Rightarrow> nat \<Rightarrow> byte list list \<Rightarrow> byte list option \<times> byte list option \<Rightarrow> u32 \<Rightarrow>
   (byte list \<times> byte list option) list \<Rightarrow> preloaded_file list \<Rightarrow> 'k \<Rightarrow> 'k placed option option" where
  "bi_place copyin alloc al kinds smap howto chain fps k = do {
     let envp = roundup_page (load_end fps);
     (addr, k1) \<leftarrow> bi_copyenv copyin chain (envp, k);
     let modulep = roundup_page addr;
     case kernel_index kinds fps of
       None \<Rightarrow> Some None
     | Some i \<Rightarrow> do {
         fps1 \<leftarrow> add_meta alloc i MODINFOMD_HOWTO (le_bytes 4 (unat howto)) fps;
         fps2 \<leftarrow> add_meta alloc i MODINFOMD_ENVP (le_bytes al (unat envp)) fps1;
         fps3 \<leftarrow> add_meta alloc i MODINFOMD_KERNEND (le_bytes al 0) fps2;
         fps4 \<leftarrow> bios_addsmapdata alloc (fst smap) (snd smap) i fps3;
         (size, _) \<leftarrow> bi_copymodules copyin al fps4 0 k1;
         let kernend = roundup_page (modulep + size);
         fps5 \<leftarrow> patch_file i MODINFOMD_KERNEND (le_bytes al (unat kernend)) fps4;
         (_, k2) \<leftarrow> bi_copymodules copyin al fps5 modulep k1;
         Some (Some \<lparr>pl_envp = envp, pl_modulep = modulep, pl_kernend = kernend, pl_kernel = i, pl_files = fps5, pl_store = k2\<rparr>)
       }
   }"

section \<open>Loading for the kernel\<close>

record host =
  h_cpuid :: "u32 \<Rightarrow> u32 \<times> u32 \<times> u32 \<times> u32"
  h_has_cpuid :: bool
  h_basemem :: u32
  h_extmem :: u32
  h_bigeom :: "nat \<Rightarrow> u32"
  h_bc_unit2bios :: "int \<Rightarrow> int"
  h_bc_getdev :: "i386_devdesc \<Rightarrow> int"
  h_bd_unit2bios :: "int \<Rightarrow> int"
  h_bd_getdev :: "i386_devdesc \<Rightarrow> int"
  h_smap :: "byte list option \<times> byte list option"
  h_lines :: "byte list \<Rightarrow> byte list list option"
  h_chain :: "(string \<Rightarrow> byte list option) \<Rightarrow> (byte list \<times> byte list option) list"

text \<open>The members of \<^verbatim>\<open>struct bootinfo\<close> that are computed; \<open>bi_path\<close> is the string that \<open>bi_kernelname\<close> points to.\<close>

record bi32 =
  bi_bios_dev :: int
  bi_bios_geom :: "u32 list"
  bi_basemem :: u32
  bi_extmem :: u32
  bi_envp :: u32
  bi_modulep :: u32
  bi_kernend :: u32
  bi_path :: "byte list option"
  bi_symtab :: u32
  bi_esymtab :: u32

datatype 'r bi_out = Bi_ok 'r | Bi_einval | Bi_panic

text \<open>
  The root device: \<open>junk\<close> is what the uninitialised pointer \<^verbatim>\<open>rootdev\<close> holds when \<^verbatim>\<open>i386_getdev\<close> fails, \<^term>\<open>None\<close> for
  \<^verbatim>\<open>NULL\<close>.
\<close>

definition root_device ::
  "zfs_parser \<Rightarrow> devsw list \<Rightarrow> i386_devdesc option \<Rightarrow> i386_devdesc option \<Rightarrow> (string \<Rightarrow> byte list option) \<Rightarrow> i386_devdesc option option" where
  "root_device zfs sw blk junk env = do {
     r \<leftarrow> i386_getdev zfs sw blk env (env ''rootdev'');
     Some (case r of Inl e \<Rightarrow> junk | Inr (d, _) \<Rightarrow> Some d)
   }"

definition boot_device :: "host \<Rightarrow> i386_devdesc \<Rightarrow> int \<Rightarrow> int \<times> int" where
  "boot_device h dev bios0 =
     (if i_type dev = DEVT_CD then (h_bc_unit2bios h (i_unit dev), h_bc_getdev h dev)
      else if i_type dev = DEVT_DISK then (h_bd_unit2bios h (i_unit dev), h_bd_getdev h dev)
      else (bios0, 0))"

definition sym_addr :: "preloaded_file \<Rightarrow> int \<Rightarrow> u32 option" where
  "sym_addr fp ty = (case file_findmetadata fp ty of [] \<Rightarrow> Some 0 | md # _ \<Rightarrow> le_field (md_data md) 0 4)"

definition N_BIOS_GEOM :: nat where "N_BIOS_GEOM = 8"
definition BI_RB_BOOTINFO :: u32 where "BI_RB_BOOTINFO = 0x80000000"

text \<open>The result: \<^verbatim>\<open>*howtop\<close>, \<^verbatim>\<open>*bootdevp\<close>, the structure, and where the data are.\<close>

definition bi_load32 ::
  "'k copier \<Rightarrow> host \<Rightarrow> allocator \<Rightarrow> zfs_parser \<Rightarrow> (i386_devdesc \<Rightarrow> byte list) \<Rightarrow> devsw list \<Rightarrow> i386_devdesc option \<Rightarrow> i386_devdesc option \<Rightarrow>
   byte list \<Rightarrow> byte list option \<Rightarrow> lstate \<Rightarrow> 'k \<Rightarrow> (u32 \<times> int \<times> bi32 \<times> 'k placed) bi_out option" where
  "bi_load32 copyin h alloc zfs zfmt sw blk junk lbuf args st k = do {
     howto \<leftarrow> bi_getboothowto args (environ st);
     rootdev \<leftarrow> root_device zfs sw blk junk (environ st);
     case rootdev of
       None \<Rightarrow> Some Bi_einval
     | Some dev \<Rightarrow> do {
         name \<leftarrow> i386_fmtdev zfmt [] dev;
         (_, env) \<leftarrow> getrootmount (h_lines h) lbuf name (environ st);
         let (bios, bootdevnr) = boot_device h dev 0;
         if bootdevnr = -1 then Some Bi_einval
         else do {
           pl \<leftarrow> bi_place copyin alloc 4 [bytes_of ''elf kernel'', bytes_of ''elf32 kernel''] (h_smap h) howto (h_chain h env) (preloaded_files st) k;
           case pl of
             None \<Rightarrow> Some Bi_panic
           | Some p \<Rightarrow> do {
               kfp \<leftarrow> rd (pl_files p) (pl_kernel p);
               ssym \<leftarrow> sym_addr kfp MODINFOMD_SSYM;
               esym \<leftarrow> sym_addr kfp MODINFOMD_ESYM;
               r \<leftarrow> i386_getdev zfs sw blk env (env ''kernelname'');
               let path = (case r of Inl e \<Rightarrow> None | Inr (_, q) \<Rightarrow> Option.bind q id);
               Some (Bi_ok (howto OR BI_RB_BOOTINFO, bootdevnr,
                 \<lparr>bi_bios_dev = bios, bi_bios_geom = map (h_bigeom h) [0..<N_BIOS_GEOM], bi_basemem = h_basemem h div 1024,
                  bi_extmem = h_extmem h div 1024, bi_envp = pl_envp p, bi_modulep = pl_modulep p, bi_kernend = pl_kernend p,
                  bi_path = path, bi_symtab = (if ssym = 0 \<or> esym = 0 then 0 else ssym),
                  bi_esymtab = (if ssym = 0 \<or> esym = 0 then 0 else esym)\<rparr>, p))
             }
         }
       }
   }"

definition bi_checkcpu :: "host \<Rightarrow> bool" where
  "bi_checkcpu h =
     (let word_bytes = (\<lambda>w :: u32. le_bytes 4 (unat w));
          vendor = (case h_cpuid h 0 of (_, b, c, d) \<Rightarrow> word_bytes b @ word_bytes d @ word_bytes c)
      in h_has_cpuid h \<and> vendor \<in> {bytes_of ''GenuineIntel'', bytes_of ''AuthenticAMD'', bytes_of ''CentaurHauls''} \<and>
         fst (h_cpuid h 0x80000000) \<ge> 0x80000001 \<and>
         (case h_cpuid h 0x80000001 of (_, _, _, d) \<Rightarrow> d AND 0x20000000 \<noteq> 0))"

definition bi_load64 ::
  "'k copier \<Rightarrow> host \<Rightarrow> allocator \<Rightarrow> zfs_parser \<Rightarrow> (i386_devdesc \<Rightarrow> byte list) \<Rightarrow> devsw list \<Rightarrow> i386_devdesc option \<Rightarrow> i386_devdesc option \<Rightarrow>
   byte list \<Rightarrow> byte list option \<Rightarrow> lstate \<Rightarrow> 'k \<Rightarrow> 'k placed bi_out option" where
  "bi_load64 copyin h alloc zfs zfmt sw blk junk lbuf args st k =
     (if \<not> bi_checkcpu h then Some Bi_einval
      else do {
        howto \<leftarrow> bi_getboothowto args (environ st);
        rootdev \<leftarrow> root_device zfs sw blk junk (environ st);
        case rootdev of
          None \<Rightarrow> Some Bi_einval
        | Some dev \<Rightarrow> do {
            name \<leftarrow> i386_fmtdev zfmt [] dev;
            (_, env) \<leftarrow> getrootmount (h_lines h) lbuf name (environ st);
            pl \<leftarrow> bi_place copyin alloc 8 [bytes_of ''elf kernel'', bytes_of ''elf64 kernel''] (h_smap h) howto (h_chain h env) (preloaded_files st) k;
            Some (case pl of None \<Rightarrow> Bi_panic | Some p \<Rightarrow> Bi_ok p)
          }
      })"

section \<open>The format of the metadata\<close>

type_synonym mod_rec = "u32 \<times> byte list"

text \<open>The records of a file, in the order of the copy, and how a reader walks them: identifier, size, data, padding.\<close>

definition meta_rec :: "file_metadata \<Rightarrow> mod_rec" where
  "meta_rec md = (MODINFO_METADATA OR ucast (md_type md), md_data md)"

definition file_recs :: "nat \<Rightarrow> preloaded_file \<Rightarrow> mod_rec list" where
  "file_recs al fp =
     [(MODINFO_NAME, f_name fp @ [0]), (MODINFO_TYPE, f_type fp @ [0])] @
     (case f_args fp of None \<Rightarrow> [] | Some a \<Rightarrow> [(MODINFO_ARGS, a @ [0])]) @
     [(MODINFO_ADDR, le_bytes al (unat (f_addr fp))), (MODINFO_SIZE, le_bytes al (unat (f_size fp)))] @
     map meta_rec (filter (\<lambda>md. md_type md AND MODINFOMD_NOCOPY = 0) (f_metadata fp))"

definition all_recs :: "nat \<Rightarrow> preloaded_file list \<Rightarrow> mod_rec list" where
  "all_recs al fps = concat (map (file_recs al) fps)"

definition rec_len :: "nat \<Rightarrow> mod_rec \<Rightarrow> nat" where
  "rec_len al r = 8 + roundup (length (snd r)) al"

abbreviation recs_len :: "nat \<Rightarrow> mod_rec list \<Rightarrow> nat" where
  "recs_len al rs \<equiv> sum_list (map (rec_len al) rs)"

function read_recs :: "nat \<Rightarrow> byte list \<Rightarrow> mod_rec list option" where
  "read_recs al bs =
     (if length bs < 8 then None
      else let t = word_of_nat (le_nat (take 4 bs)); n = le_nat (take 4 (drop 4 bs))
           in if t = 0 \<and> n = 0 then Some []
              else if length bs < 8 + n then None
              else map_option ((#) (t, take n (drop 8 bs))) (read_recs al (drop (8 + roundup n al) bs)))"
  by pat_completeness auto
termination
  by (relation "measure (\<lambda>(al, bs). length bs)") auto

declare read_recs.simps [simp del]

lemma roundup_ge: "0 < y \<Longrightarrow> x \<le> roundup x y"
proof -
  assume y: "0 < y"
  have "x + (y - 1) = (x + (y - 1)) div y * y + (x + (y - 1)) mod y" by simp
  moreover have "(x + (y - 1)) mod y \<le> y - 1" using y by (simp add: Suc_leI le_diff_conv2 less_Suc_eq_le [symmetric])
  ultimately show ?thesis unfolding roundup_def by linarith
qed

section \<open>The copied bytes\<close>

definition rec_bytes :: "mod_rec \<Rightarrow> byte list" where
  "rec_bytes r = le_bytes 4 (unat (fst r)) @ le_bytes 4 (length (snd r)) @ snd r"

lemma length_rec_bytes [simp]: "length (rec_bytes r) = 8 + length (snd r)"
  by (simp add: rec_bytes_def)

fun write_recs :: "nat \<Rightarrow> byte list \<Rightarrow> nat \<Rightarrow> mod_rec list \<Rightarrow> byte list" where
  "write_recs al m a [] = m"
| "write_recs al m a (r # rs) = write_recs al (put m a (rec_bytes r)) (a + rec_len al r) rs"

lemma write_recs_app: "write_recs al m a (rs @ qs) = write_recs al (write_recs al m a rs) (a + recs_len al rs) qs"
  by (induction rs arbitrary: m a) (simp_all add: ac_simps)

lemma rec_len_end [simp]: "0 < al \<Longrightarrow> rec_len al (t, []) = 8"
  by (cases al) (simp_all add: rec_len_def roundup_def)

lemma rec_bytes_le: "0 < al \<Longrightarrow> length (rec_bytes r) \<le> rec_len al r"
  using roundup_ge [of al "length (snd r)"] by (simp add: rec_len_def)

lemma write_recs_outside:
  assumes "0 < al" "a + recs_len al rs \<le> length m"
  shows "length (write_recs al m a rs) = length m \<and> take a (write_recs al m a rs) = take a m"
  using assms(2)
proof (induction rs arbitrary: m a)
  case (Cons r rs)
  have fits: "a + length (rec_bytes r) \<le> length m" using rec_bytes_le [OF assms(1), of r] Cons.prems by simp
  let ?m1 = "put m a (rec_bytes r)"
  have 1: "length ?m1 = length m" using fits by (rule length_put)
  have 2: "take a ?m1 = take a m" using fits by (simp add: put_def)
  from Cons.IH [of "a + rec_len al r" ?m1] Cons.prems 1
  have ih: "length (write_recs al ?m1 (a + rec_len al r) rs) = length m"
      "take (a + rec_len al r) (write_recs al ?m1 (a + rec_len al r) rs) = take (a + rec_len al r) ?m1" by simp_all
  have "take a (take (a + rec_len al r) xs) = take a xs" for xs :: "byte list" by (simp add: min_def)
  then have "take a (write_recs al ?m1 (a + rec_len al r) rs) = take a ?m1" using ih(2) by metis
  then show ?case using ih(1) 2 by simp
qed simp

lemma read_rec:
  assumes "take (8 + length d) bs = rec_bytes (t, d)" "t \<noteq> 0" "length d < 2 ^ 32" "8 + length d \<le> length bs"
  shows "read_recs al bs = map_option ((#) (t, d)) (read_recs al (drop (8 + roundup (length d) al) bs))"
proof -
  let ?b = "rec_bytes (t, d)"
  have pre: "take n (drop k bs) = take n (drop k ?b)" if "k + n \<le> 8 + length d" for k n
  proof -
    have "take n (drop k (take (8 + length d) bs)) = take n (drop k bs)" using that by (simp add: drop_take)
    then show ?thesis using assms(1) by simp
  qed
  have 0: "take 4 bs = le_bytes 4 (unat t)" using pre [of 0 4] by (simp add: rec_bytes_def)
  have 1: "take 4 (drop 4 bs) = le_bytes 4 (length d)" using pre [of 4 4] by (simp add: rec_bytes_def)
  have 2: "take (length d) (drop 8 bs) = d" using pre [of 8 "length d"] by (simp add: rec_bytes_def)
  have n: "le_nat (le_bytes 4 (length d)) = length d" using assms(3) by (simp add: le_nat_le_bytes)
  have tt: "word_of_nat (le_nat (le_bytes 4 (unat t))) = t" by (rule word_of_nat_le_bytes) simp
  show ?thesis using assms(2,4) by (subst read_recs.simps) (simp add: 0 1 2 n tt Let_def)
qed

lemma read_write_recs:
  assumes "0 < al" "\<forall>(t, d) \<in> set rs. t \<noteq> 0 \<and> length d < 2 ^ 32" "a + recs_len al rs + 8 \<le> length m"
  shows "read_recs al (drop a (write_recs al m a (rs @ [(0, [])]))) = Some rs"
  using assms(2,3)
proof (induction rs arbitrary: m a)
  case Nil
  have "drop a (put m a (rec_bytes (0, []))) = rec_bytes (0, []) @ drop (a + 8) m" using Nil by (simp add: put_def)
  moreover have "length m - (a + 8) + 8 \<ge> 8" by simp
  ultimately show ?case by (subst read_recs.simps) (simp add: rec_bytes_def le_nat_le_bytes)
next
  case (Cons r rs)
  obtain t d where r: "r = (t, d)" by fastforce
  let ?L = "rec_len al r"
  let ?m1 = "put m a (rec_bytes r)"
  let ?res = "write_recs al ?m1 (a + ?L) (rs @ [(0, [])])"
  have L: "length (rec_bytes r) \<le> ?L" using rec_bytes_le [OF assms(1)] .
  have fits: "a + length (rec_bytes r) \<le> length m" using L Cons.prems(2) by simp
  have out: "length ?res = length m" "take (a + ?L) ?res = take (a + ?L) ?m1"
    using write_recs_outside [OF assms(1), of "a + ?L" "rs @ [(0, [])]" ?m1] Cons.prems(2) fits assms(1) by simp_all
  have tk: "take (8 + length d) (drop a (take (a + ?L) xs)) = take (8 + length d) (drop a xs)" for xs :: "byte list"
    using L by (simp add: r drop_take min_def)
  have "take (8 + length d) (drop a ?res) = take (8 + length d) (drop a ?m1)" using out(2) tk by metis
  also have "\<dots> = rec_bytes (t, d)" using fits by (simp add: put_def r)
  finally have hd: "take (8 + length d) (drop a ?res) = rec_bytes (t, d)" .
  have td: "t \<noteq> 0" "length d < 2 ^ 32" using Cons.prems(1) by (auto simp: r)
  have len: "8 + length d \<le> length (drop a ?res)" using out(1) fits by (simp add: r)
  have ih: "read_recs al (drop (a + ?L) ?res) = Some rs"
    using Cons.IH [of "a + ?L" ?m1] Cons.prems fits by (simp add: ac_simps)
  have "drop (8 + roundup (length d) al) (drop a ?res) = drop (a + ?L) ?res" by (simp add: r rec_len_def ac_simps)
  then show ?case using read_rec [OF hd td len, of al] ih by (simp add: r)
qed

section \<open>Copying into the store\<close>

fun copy_recs :: "'k copier \<Rightarrow> bool \<Rightarrow> nat \<Rightarrow> mod_rec list \<Rightarrow> u32 \<times> 'k \<Rightarrow> (u32 \<times> 'k) option" where
  "copy_recs copyin c al [] s = Some s"
| "copy_recs copyin c al (r # rs) s = do { s1 \<leftarrow> MOD_DATA copyin c al (fst r) (snd r) s; copy_recs copyin c al rs s1 }"

lemma copy_recs_app: "copy_recs copyin c al (rs @ qs) s = do { s1 \<leftarrow> copy_recs copyin c al rs s; copy_recs copyin c al qs s1 }"
  by (induction rs arbitrary: s) (auto simp: Option.bind_assoc intro!: Option.bind_cong)

lemma copy_metadata_recs:
  "copy_metadata copyin c al mds s = copy_recs copyin c al (map meta_rec (filter (\<lambda>md. md_type md AND MODINFOMD_NOCOPY = 0) mds)) s"
  by (induction mds arbitrary: s) (auto simp: MOD_METADATA_def meta_rec_def intro!: Option.bind_cong)

lemma copy_files_recs: "copy_files copyin c al fps s = copy_recs copyin c al (all_recs al fps) s"
proof (induction fps arbitrary: s)
  case (Cons fp fps)
  have "copy_recs copyin c al (file_recs al fp @ all_recs al fps) s = copy_files copyin c al (fp # fps) s"
    by (cases "f_args fp")
      (auto simp: file_recs_def copy_recs_app copy_metadata_recs MOD_STR_def MOD_VAR_def Cons.IH Option.bind_assoc intro!: Option.bind_cong)
  then show ?case by (simp add: all_recs_def)
qed (simp add: all_recs_def)

text \<open>Without copying, only the address moves.\<close>

lemma MOD_DATA_size: "MOD_DATA copyin False al t d (a, k) = Some (a + word_of_nat (rec_len al (t, d)), k)"
  by (simp add: MOD_DATA_def COPY32_def copy_if_def rec_len_def ac_simps)

lemma copy_recs_size: "copy_recs copyin False al rs (a, k) = Some (a + word_of_nat (recs_len al rs), k)"
  by (induction rs arbitrary: a) (simp_all add: MOD_DATA_size ac_simps)

lemma bi_copymodules_size: "bi_copymodules copyin al fps 0 k = Some (word_of_nat (recs_len al (all_recs al fps) + 8), k)"
  by (simp add: bi_copymodules_def copy_files_recs copy_recs_size MOD_END_def COPY32_def copy_if_def ac_simps)

section \<open>What is handed over\<close>

text \<open>The block of environment variables, and the metadata that the loader adds to the kernel.\<close>

definition env_entry :: "byte list \<times> byte list option \<Rightarrow> byte list" where
  "env_entry = (\<lambda>(name, val). name @ [61] @ (case val of None \<Rightarrow> [] | Some v \<Rightarrow> v) @ [0])"

definition env_block :: "(byte list \<times> byte list option) list \<Rightarrow> byte list" where
  "env_block chain = concat (map env_entry chain) @ [0]"

lemma env_block_simps [simp]:
  "env_block [] = [0]"
  "env_block (e # chain) = env_entry e @ env_block chain"
  by (simp_all add: env_block_def)

definition meta :: "int \<Rightarrow> byte list \<Rightarrow> file_metadata" where
  "meta ty d = \<lparr>md_type = word_of_int ty, md_data = d\<rparr>"

definition smap_metas :: "byte list option \<times> byte list option \<Rightarrow> file_metadata list" where
  "smap_metas smap =
     (case fst smap of
        None \<Rightarrow> []
      | Some b \<Rightarrow> if b = [] then [] else map (meta MODINFOMD_SMAP_XATTR) (case snd smap of None \<Rightarrow> [] | Some x \<Rightarrow> [x]) @ [meta MODINFOMD_SMAP b])"

definition boot_metas :: "nat \<Rightarrow> byte list option \<times> byte list option \<Rightarrow> u32 \<Rightarrow> u32 \<Rightarrow> u32 \<Rightarrow> file_metadata list" where
  "boot_metas al smap howto envp kernend =
     smap_metas smap @
     [meta MODINFOMD_KERNEND (le_bytes al (unat kernend)), meta MODINFOMD_ENVP (le_bytes al (unat envp)),
      meta MODINFOMD_HOWTO (le_bytes 4 (unat howto))]"

definition add_metas :: "nat \<Rightarrow> file_metadata list \<Rightarrow> preloaded_file list \<Rightarrow> preloaded_file list" where
  "add_metas i ms fps = fps[i := (fps ! i)\<lparr>f_metadata := ms @ f_metadata (fps ! i)\<rparr>]"

lemma kernel_index_less: "kernel_index kinds fps = Some i \<Longrightarrow> i < length fps"
  by (induction kinds) (auto simp: Let_def split: if_splits)

lemma add_meta_ok:
  assumes "\<And>n. alloc n \<noteq> None" "i < length fps"
  shows "add_meta alloc i ty d fps = Some (add_metas i [meta ty d] fps)"
proof -
  obtain b where "alloc (31 + length d) = Some b" using assms(1) by blast
  then show ?thesis using assms(2) by (simp add: add_meta_def rd_def file_addmetadata_def add_metas_def meta_def)
qed

lemma length_add_metas [simp]: "length (add_metas i ms fps) = length fps"
  by (simp add: add_metas_def)

lemma add_metas_twice: "i < length fps \<Longrightarrow> add_metas i ms (add_metas i ns fps) = add_metas i (ms @ ns) fps"
  by (simp add: add_metas_def)

lemma add_metas_Nil [simp]: "i < length fps \<Longrightarrow> add_metas i [] fps = fps"
  by (simp add: add_metas_def)

lemma bios_addsmapdata_ok:
  assumes "\<And>n. alloc n \<noteq> None" "i < length fps"
  shows "bios_addsmapdata alloc (fst smap) (snd smap) i fps = Some (add_metas i (smap_metas smap) fps)"
  using assms(2)
  by (auto simp: bios_addsmapdata_def smap_metas_def add_meta_ok [OF assms(1)] add_metas_twice split: option.splits)

lemma patch_metadata_skip:
  "\<forall>md \<in> set ms. uint (md_type md) \<noteq> ty \<Longrightarrow> patch_metadata ty bs (ms @ mds) = map_option ((@) ms) (patch_metadata ty bs mds)"
  by (cases "patch_metadata ty bs mds"; induction ms) auto

lemma uint_meta:
  "uint (md_type (meta MODINFOMD_KERNEND d)) = MODINFOMD_KERNEND"
  "uint (md_type (meta MODINFOMD_SMAP d)) \<noteq> MODINFOMD_KERNEND"
  "uint (md_type (meta MODINFOMD_SMAP_XATTR d)) \<noteq> MODINFOMD_KERNEND"
  by (simp_all add: meta_def MODINFOMD_KERNEND_def MODINFOMD_SMAP_def MODINFOMD_SMAP_XATTR_def)

lemma smap_metas_types: "\<forall>md \<in> set (smap_metas smap). uint (md_type md) \<noteq> MODINFOMD_KERNEND"
  by (auto simp: smap_metas_def uint_meta split: option.splits if_splits)

lemma patch_kernend:
  assumes "length d = length bs"
  shows "patch_metadata MODINFOMD_KERNEND bs (smap_metas smap @ meta MODINFOMD_KERNEND d # mds) =
    Some (smap_metas smap @ meta MODINFOMD_KERNEND bs # mds)"
  using assms by (simp add: patch_metadata_skip [OF smap_metas_types] uint_meta) (simp add: meta_def put_def)

lemma patch_file_ok:
  assumes "i < length fps"
  shows "patch_file i MODINFOMD_KERNEND (le_bytes al (unat kernend)) (add_metas i (boot_metas al smap howto envp 0) fps) =
    Some (add_metas i (boot_metas al smap howto envp kernend) fps)"
  using assms by (simp add: patch_file_def rd_def add_metas_def boot_metas_def patch_kernend)

text \<open>The length does not depend on the addresses.\<close>

lemma all_recs_len_update:
  assumes "i < length fps" "recs_len al (file_recs al fp) = recs_len al (file_recs al fp')"
  shows "recs_len al (all_recs al (fps[i := fp])) = recs_len al (all_recs al (fps[i := fp']))"
  using assms(1)
proof (induction fps arbitrary: i)
  case (Cons f fps)
  then show ?case using assms(2) by (cases i) (simp_all add: all_recs_def)
qed simp

definition meta_room :: "nat \<Rightarrow> byte list option \<times> byte list option \<Rightarrow> nat \<Rightarrow> preloaded_file list \<Rightarrow> nat" where
  "meta_room al smap i fps = recs_len al (all_recs al (add_metas i (boot_metas al smap 0 0 0) fps)) + 8"

lemma meta_room_eq:
  assumes "i < length fps"
  shows "recs_len al (all_recs al (add_metas i (boot_metas al smap howto envp kernend) fps)) + 8 = meta_room al smap i fps"
  unfolding meta_room_def add_metas_def using assms
  by (subst all_recs_len_update [where fp' = "(fps ! i)\<lparr>f_metadata := boot_metas al smap 0 0 0 @ f_metadata (fps ! i)\<rparr>"])
    (simp_all add: file_recs_def boot_metas_def meta_def meta_rec_def rec_len_def)

lemma end_of_le: "fp \<in> set fps \<Longrightarrow> end_of fp \<le> load_end fps"
proof -
  have mono: "a \<le> foldl (\<lambda>addr xp. if addr < end_of xp then end_of xp else addr) a fps" for a fps
  proof (induction fps arbitrary: a)
    case (Cons f fps)
    show ?case using Cons [of a] Cons [of "end_of f"] by auto
  qed simp
  have "end_of fp \<le> foldl (\<lambda>addr xp. if addr < end_of xp then end_of xp else addr) a fps" if "fp \<in> set fps" for a
    using that
  proof (induction fps arbitrary: a)
    case (Cons f fps)
    show ?case using Cons.prems Cons.IH mono [of _ fps] by (auto intro: order.trans [OF _ mono])
  qed simp
  then show "fp \<in> set fps \<Longrightarrow> end_of fp \<le> load_end fps" by (simp add: load_end_def)
qed

lemma roundup_page_props:
  assumes "unat a + 4095 < 2 ^ 32"
  shows "unat a \<le> unat (roundup_page a)" "unat (roundup_page a) < unat a + 4096" "4096 dvd unat (roundup_page a)"
proof -
  let ?n = "(unat a + 4095) div 4096 * 4096"
  have "?n + (unat a + 4095) mod 4096 = unat a + 4095" "(unat a + 4095) mod 4096 < 4096" by simp_all
  then have n: "?n \<le> unat a + 4095" "unat a \<le> ?n" by linarith+
  have u: "unat (a + 4095) = unat a + 4095" using assms by (simp add: unat_word_ariths)
  have "unat (roundup_page a) = ?n"
    using assms n by (simp add: roundup_page_def unat_word_ariths u unat_div_distrib)
  then show "unat a \<le> unat (roundup_page a)" "unat (roundup_page a) < unat a + 4096" "4096 dvd unat (roundup_page a)"
    using n by simp_all
qed

lemma recs_data_short: "0 < al \<Longrightarrow> (t, d) \<in> set rs \<Longrightarrow> length d \<le> recs_len al rs"
proof -
  assume al: "0 < al" and m: "(t, d) \<in> set rs"
  then have "rec_len al (t, d) \<le> recs_len al rs" by (intro member_le_sum_list) auto
  moreover have "length d \<le> rec_len al (t, d)" using rec_bytes_le [OF al, of "(t, d)"] by simp
  ultimately show "length d \<le> recs_len al rs" by simp
qed

lemma take_below: "take a m' = take a m \<Longrightarrow> n \<le> a \<Longrightarrow> take n m' = take n m"
  by (metis min.absorb1 take_take)

lemma slice_below:
  assumes "take a m' = take a m" "length m' = length m" "off + n \<le> a"
  shows "slice m' off n = slice m off n"
proof -
  have "take n (drop off m') = take n (drop off m)" using take_below [OF assms(1,3)] by (simp add: take_drop add.commute)
  then show ?thesis using assms(2) by (simp add: slice_def)
qed

lemma metadata_or_nonzero: "MODINFO_METADATA OR w \<noteq> 0"
proof
  assume "MODINFO_METADATA OR w = 0"
  then have "bit (MODINFO_METADATA OR w) 15 = bit (0 :: u32) 15" by simp
  then show False by (simp add: bit_or_iff MODINFO_METADATA_def)
qed

lemma all_recs_types: "(t, d) \<in> set (all_recs al fps) \<Longrightarrow> t \<noteq> 0"
  by (auto simp: all_recs_def file_recs_def modinfo_defs meta_rec_def metadata_or_nonzero [unfolded MODINFO_METADATA_def] split: option.splits)

text \<open>The hand-over as one predicate: \<open>m\<close> is the memory before, \<open>m'\<close> after.\<close>

definition handed_over ::
  "nat \<Rightarrow> byte list option \<times> byte list option \<Rightarrow> u32 \<Rightarrow> (byte list \<times> byte list option) list \<Rightarrow> preloaded_file list \<Rightarrow> nat \<Rightarrow>
   byte list \<Rightarrow> byte list \<Rightarrow> 'k placed \<Rightarrow> bool" where
  "handed_over al smap howto chain fps i m m' p \<longleftrightarrow>
     pl_kernel p = i \<and>
     pl_files p = add_metas i (boot_metas al smap howto (pl_envp p) (pl_kernend p)) fps \<and>
     4096 dvd unat (pl_envp p) \<and> 4096 dvd unat (pl_modulep p) \<and> 4096 dvd unat (pl_kernend p) \<and>
     (\<forall>fp \<in> set fps. end_of fp \<le> pl_envp p) \<and>
     unat (pl_envp p) + length (env_block chain) \<le> unat (pl_modulep p) \<and>
     unat (pl_modulep p) + meta_room al smap i fps \<le> unat (pl_kernend p) \<and>
     slice m' (unat (pl_envp p)) (length (env_block chain)) = Some (env_block chain) \<and>
     read_recs al (drop (unat (pl_modulep p)) m') = Some (all_recs al (pl_files p)) \<and>
     take (unat (pl_envp p)) m' = take (unat (pl_envp p)) m"

lemma write_recs_meta:
  assumes "0 < al" "i < length fps" "fps' = add_metas i (boot_metas al smap howto envp kernend) fps"
    "a + meta_room al smap i fps \<le> length m" "length m' = length m" "meta_room al smap i fps < 2 ^ 32"
    "m' = write_recs al m a (all_recs al fps' @ [(0, [])])"
  shows "read_recs al (drop a m') = Some (all_recs al fps')" "take a m' = take a m"
proof -
  let ?rs = "all_recs al fps'"
  have len: "recs_len al ?rs + 8 = meta_room al smap i fps" unfolding assms(3) using assms(2) by (rule meta_room_eq)
  have "\<forall>(t, d) \<in> set ?rs. t \<noteq> 0 \<and> length d < 2 ^ 32"
    using all_recs_types recs_data_short [OF assms(1)] assms(4,6) len by fastforce
  then show "read_recs al (drop a m') = Some ?rs"
    unfolding assms(7) by (rule read_write_recs [OF assms(1)]) (use assms(4) len in simp)
  show "take a m' = take a m"
    unfolding assms(7) using write_recs_outside [OF assms(1), of a "?rs @ [(0, [])]" m] assms(1,4) len by simp
qed

lemma page_layout:
  fixes le envp addr modulep kernend :: u32
  assumes "unat le + E + R + 3 * 4096 < T" "T < 2 ^ 32" "0 < E"
    and e: "envp = roundup_page le" and a: "addr = envp + word_of_nat E" and m: "modulep = roundup_page addr"
    and k: "kernend = roundup_page (modulep + word_of_nat R)"
  shows "4096 dvd unat envp \<and> 4096 dvd unat modulep \<and> 4096 dvd unat kernend \<and> modulep \<noteq> 0" "unat le \<le> unat envp"
    "unat envp + E \<le> unat modulep" "unat modulep + R \<le> unat kernend" "unat modulep + R < T"
proof -
  note 1 = roundup_page_props [of le, folded e]
  have ua: "unat addr = unat envp + E" unfolding a using assms(1,2) 1 by (intro u32_end) simp
  note 2 = roundup_page_props [of addr, folded m]
  have um: "unat (modulep + word_of_nat R) = unat modulep + R" using assms(1,2) 1 2 ua by (intro u32_end) simp
  note 3 = roundup_page_props [of "modulep + word_of_nat R", folded k]
  have "unat modulep \<noteq> 0" using assms(1-3) 1 2 ua by simp
  then show "4096 dvd unat envp \<and> 4096 dvd unat modulep \<and> 4096 dvd unat kernend \<and> modulep \<noteq> 0" "unat le \<le> unat envp"
      "unat envp + E \<le> unat modulep" "unat modulep + R \<le> unat kernend" "unat modulep + R < T"
    using 1 2 3 ua um assms(1,2) by auto
qed

locale kernel_store32 = kernel_store copyin mem top wf
  for copyin :: "byte list \<Rightarrow> u32 \<Rightarrow> nat \<Rightarrow> 'k \<Rightarrow> (int \<times> 'k) option" and mem :: "'k \<Rightarrow> byte list"
    and top :: "'k \<Rightarrow> nat" and wf :: "'k \<Rightarrow> bool" +
  assumes top32: "wf k \<Longrightarrow> top k < 2 ^ 32"
begin

lemma unat_plus:
  fixes a :: u32
  assumes "wf k" "unat a + n < top k"
  shows "unat (a + word_of_nat n) = unat a + n"
  using assms(2) top32 [OF assms(1)] by (intro u32_end) simp

lemma copy_if_effect:
  assumes "wf k" "unat a + length bs < top k"
  shows "\<exists>k'. copy_if copyin True bs a k = Some k' \<and> wf k' \<and> top k' = top k \<and> mem k' = put (mem k) (unat a) bs"
  using copyin_in [OF assms, of bs] by (auto simp: copy_if_def)

lemma COPY32_effect:
  assumes "wf k" "unat a + 4 < top k"
  shows "\<exists>k'. COPY32 copyin True v (a, k) = Some (a + 4, k') \<and> wf k' \<and> top k' = top k \<and>
    mem k' = put (mem k) (unat a) (le_bytes 4 (unat v)) \<and> unat (a + 4) = unat a + 4"
  using copy_if_effect [OF assms(1), of a "le_bytes 4 (unat v)"] unat_plus [OF assms] assms(2) by (auto simp: COPY32_def)

lemma COPY32_twice:
  assumes "wf k" "unat a + 8 < top k"
  shows "\<exists>k'. do { s \<leftarrow> COPY32 copyin True v (a, k); COPY32 copyin True w s } = Some (a + 8, k') \<and> wf k' \<and> top k' = top k \<and>
    mem k' = put (mem k) (unat a) (le_bytes 4 (unat v) @ le_bytes 4 (unat w)) \<and> unat (a + 8) = unat a + 8"
proof -
  obtain k1 where 1: "COPY32 copyin True v (a, k) = Some (a + 4, k1)" "wf k1" "top k1 = top k"
      "mem k1 = put (mem k) (unat a) (le_bytes 4 (unat v))" "unat (a + 4) = unat a + 4"
    using COPY32_effect [OF assms(1), of a v] assms(2) by auto
  obtain k2 where 2: "COPY32 copyin True w (a + 4, k1) = Some (a + 4 + 4, k2)" "wf k2" "top k2 = top k1"
      "mem k2 = put (mem k1) (unat (a + 4)) (le_bytes 4 (unat w))"
    using COPY32_effect [OF 1(2), of "a + 4" w] assms(2) 1(3,5) by auto
  have "unat a + length (le_bytes 4 (unat v)) \<le> length (mem k)" using assms top_le [OF assms(1)] by simp
  note adj = put_put_adjacent [OF this, of "le_bytes 4 (unat w)"]
  have "a + 4 + 4 = a + 8" by simp
  moreover have "unat (a + 8) = unat a + 8" using unat_plus [OF assms] by simp
  ultimately show ?thesis using 1 2 adj by simp
qed

lemma MOD_DATA_effect:
  assumes "wf k" "unat a + 8 + length d < top k"
  shows "\<exists>k'. MOD_DATA copyin True al t d (a, k) = Some (a + word_of_nat (rec_len al (t, d)), k') \<and> wf k' \<and> top k' = top k \<and>
    mem k' = put (mem k) (unat a) (rec_bytes (t, d))"
proof -
  let ?h = "le_bytes 4 (unat t) @ le_bytes 4 (length d)"
  have "length d < 2 ^ 32" using assms top32 [OF assms(1)] by simp
  then have w: "unat (word_of_nat (length d) :: u32) = length d" by (simp add: unat_of_nat)
  obtain k1 where 1: "do { s \<leftarrow> COPY32 copyin True t (a, k); COPY32 copyin True (word_of_nat (length d)) s } = Some (a + 8, k1)"
      "wf k1" "top k1 = top k" "mem k1 = put (mem k) (unat a) ?h" "unat (a + 8) = unat a + 8"
    using COPY32_twice [OF assms(1), of a t "word_of_nat (length d)"] assms(2) w by auto
  obtain k2 where 2: "copy_if copyin True d (a + 8) k1 = Some k2" "wf k2" "top k2 = top k" "mem k2 = put (mem k1) (unat a + 8) d"
    using copy_if_effect [OF 1(2), of "a + 8" d] assms(2) 1(3,5) by auto
  have "unat a + length ?h \<le> length (mem k)" using assms top_le [OF assms(1)] by simp
  note adj = put_put_adjacent [OF this, of d]
  have "MOD_DATA copyin True al t d (a, k) = Some (a + word_of_nat (rec_len al (t, d)), k2)"
    using 1(1) 2(1) by (auto simp: MOD_DATA_def rec_len_def bind_eq_Some_conv ac_simps)
  then show ?thesis using 1(4) 2 adj by (simp add: rec_bytes_def)
qed

lemma copy_recs_effect:
  assumes "wf k" "0 < al" "unat a + recs_len al rs < top k"
  shows "\<exists>k'. copy_recs copyin True al rs (a, k) = Some (a + word_of_nat (recs_len al rs), k') \<and> wf k' \<and> top k' = top k \<and>
    mem k' = write_recs al (mem k) (unat a) rs"
  using assms(1,3)
proof (induction rs arbitrary: a k)
  case (Cons r rs)
  have le: "8 + length (snd r) \<le> rec_len al r" using rec_bytes_le [OF assms(2), of r] by simp
  then obtain k1 where 1: "MOD_DATA copyin True al (fst r) (snd r) (a, k) = Some (a + word_of_nat (rec_len al r), k1)" "wf k1" "top k1 = top k"
      "mem k1 = put (mem k) (unat a) (rec_bytes r)"
    using MOD_DATA_effect [OF Cons.prems(1), of a "snd r" al "fst r"] Cons.prems(2) by auto
  have u: "unat (a + word_of_nat (rec_len al r)) = unat a + rec_len al r"
    using unat_plus [OF Cons.prems(1), of a "rec_len al r"] Cons.prems(2) by simp
  show ?case using Cons.IH [OF 1(2), of "a + word_of_nat (rec_len al r)"] Cons.prems(2) 1 u by (auto simp: ac_simps)
qed simp

lemma bi_copymodules_effect:
  assumes "wf k" "0 < al" "addr \<noteq> 0" "unat addr + recs_len al (all_recs al fps) + 8 < top k"
  shows "\<exists>a k'. bi_copymodules copyin al fps addr k = Some (a, k') \<and> wf k' \<and> top k' = top k \<and>
    mem k' = write_recs al (mem k) (unat addr) (all_recs al fps @ [(0, [])])"
proof -
  let ?n = "recs_len al (all_recs al fps)"
  let ?a = "addr + word_of_nat ?n"
  obtain k1 where 1: "copy_recs copyin True al (all_recs al fps) (addr, k) = Some (?a, k1)" "wf k1" "top k1 = top k"
      "mem k1 = write_recs al (mem k) (unat addr) (all_recs al fps)"
    using copy_recs_effect [OF assms(1,2), of addr "all_recs al fps"] assms(4) by auto
  have u: "unat ?a = unat addr + ?n" using unat_plus [OF assms(1), of addr ?n] assms(4) by simp
  obtain k2 where 2: "MOD_END copyin True (?a, k1) = Some (?a + 8, k2)" "wf k2" "top k2 = top k"
      "mem k2 = put (mem k1) (unat ?a) (le_bytes 4 0 @ le_bytes 4 0)"
    using COPY32_twice [OF 1(2), of ?a 0 0] assms(4) 1(3) u by (auto simp: MOD_END_def MODINFO_END_def)
  have "mem k2 = write_recs al (mem k) (unat addr) (all_recs al fps @ [(0, [])])"
    using 1(4) 2(4) u by (simp add: write_recs_app rec_bytes_def)
  then show ?thesis using assms(3) 1(1) 2 by (auto simp: bi_copymodules_def copy_files_recs)
qed

definition writes :: "(u32 \<times> 'k \<Rightarrow> (u32 \<times> 'k) option) \<Rightarrow> byte list \<Rightarrow> bool" where
  "writes f bs \<longleftrightarrow> (\<forall>k a. wf k \<longrightarrow> unat a + length bs < top k \<longrightarrow>
     (\<exists>k'. f (a, k) = Some (a + word_of_nat (length bs), k') \<and> wf k' \<and> top k' = top k \<and> mem k' = put (mem k) (unat a) bs))"

lemma writesD:
  assumes "writes f bs" "wf k" "unat a + length bs < top k"
  obtains k' where "f (a, k) = Some (a + word_of_nat (length bs), k')" "wf k'" "top k' = top k" "mem k' = put (mem k) (unat a) bs"
  using assms by (auto simp: writes_def)

lemma writes_bytes: "writes (copy_bytes copyin bs) bs"
proof (unfold writes_def, intro allI impI)
  fix k and a :: u32
  assume "wf k" "unat a + length bs < top k"
  from copyin_in [OF this, of bs]
  show "\<exists>k'. copy_bytes copyin bs (a, k) = Some (a + word_of_nat (length bs), k') \<and> wf k' \<and> top k' = top k \<and> mem k' = put (mem k) (unat a) bs"
    by (auto simp: copy_bytes_def)
qed

lemma writes_seq:
  assumes f: "writes f cs"
  shows "writes (\<lambda>s. do { s \<leftarrow> copy_bytes copyin bs s; f s }) (bs @ cs)"
proof (unfold writes_def, intro allI impI)
  fix k and a :: u32
  assume wf: "wf k" and room: "unat a + length (bs @ cs) < top k"
  let ?a = "a + word_of_nat (length bs)"
  obtain k1 where 1: "copy_bytes copyin bs (a, k) = Some (?a, k1)" "wf k1" "top k1 = top k" "mem k1 = put (mem k) (unat a) bs"
    by (rule writesD [OF writes_bytes wf, of a bs]) (use room in auto)
  have u: "unat ?a = unat a + length bs" using unat_plus [OF wf, of a "length bs"] room by simp
  obtain k2 where 2: "f (?a, k1) = Some (?a + word_of_nat (length cs), k2)" "wf k2" "top k2 = top k1" "mem k2 = put (mem k1) (unat ?a) cs"
    by (rule writesD [OF f 1(2), of ?a]) (use room 1(3) u in auto)
  have "unat a + length bs \<le> length (mem k)" using room top_le [OF wf] by simp
  note adj = put_put_adjacent [OF this, of cs]
  have "do { s \<leftarrow> copy_bytes copyin bs (a, k); f s } = Some (a + word_of_nat (length (bs @ cs)), k2)"
    using 1(1) 2(1) by (simp add: ac_simps)
  then show "\<exists>k'. do { s \<leftarrow> copy_bytes copyin bs (a, k); f s } = Some (a + word_of_nat (length (bs @ cs)), k') \<and> wf k' \<and>
      top k' = top k \<and> mem k' = put (mem k) (unat a) (bs @ cs)"
    using 1 2 u adj by simp
qed

lemma bi_copyenv_Cons:
  "bi_copyenv copyin (e # chain) = (\<lambda>s. do {
     s \<leftarrow> copy_bytes copyin (fst e) s; s \<leftarrow> copy_bytes copyin [61] s;
     s \<leftarrow> (case snd e of None \<Rightarrow> Some s | Some v \<Rightarrow> copy_bytes copyin v s); s \<leftarrow> copy_bytes copyin [0] s; bi_copyenv copyin chain s })"
  by (cases e) (simp add: fun_eq_iff)

lemma bi_copyenv_writes: "writes (bi_copyenv copyin chain) (env_block chain)"
proof (induction chain)
  case Nil
  have "bi_copyenv copyin [] = copy_bytes copyin [0]" by (simp add: fun_eq_iff)
  then show ?case by (simp add: writes_bytes)
next
  case (Cons e chain)
  note 1 = writes_seq [OF Cons, of "[0]"]
  show ?case
  proof (cases "snd e")
    case None
    then show ?thesis using writes_seq [OF writes_seq [OF 1, of "[61]"], of "fst e"]
      by (simp add: bi_copyenv_Cons env_entry_def case_prod_beta del: bi_copyenv.simps)
  next
    case (Some v)
    then show ?thesis using writes_seq [OF writes_seq [OF writes_seq [OF 1, of v], of "[61]"], of "fst e"]
      by (simp add: bi_copyenv_Cons env_entry_def case_prod_beta del: bi_copyenv.simps)
  qed
qed

lemma hand_over:
  assumes "wf k" "0 < al" "kernel_index kinds fps = Some i" "\<forall>n. alloc n \<noteq> None"
    "unat (load_end fps) + length (env_block chain) + meta_room al smap i fps + 3 * 4096 < top k"
  shows "\<exists>p. bi_place copyin alloc al kinds smap howto chain fps k = Some (Some p) \<and>
    handed_over al smap howto chain fps i (mem k) (mem (pl_store p)) p"
proof -
  let ?E = "length (env_block chain)" and ?R = "meta_room al smap i fps"
  let ?envp = "roundup_page (load_end fps)"
  let ?addr = "?envp + word_of_nat ?E"
  let ?modulep = "roundup_page ?addr"
  let ?kernend = "roundup_page (?modulep + word_of_nat ?R)"
  let ?fps = "add_metas i (boot_metas al smap howto ?envp ?kernend) fps"
  have alloc: "alloc n \<noteq> None" for n using assms(4) by blast
  have i: "i < length fps" using assms(3) by (rule kernel_index_less)
  note t = top32 [OF assms(1)] and tl = top_le [OF assms(1)]
  have "0 < ?E" by (simp add: env_block_def)
  note lay = page_layout [OF assms(5) t this refl refl refl refl]
  obtain k1 where 1: "bi_copyenv copyin chain (?envp, k) = Some (?addr, k1)" "wf k1" "top k1 = top k"
      "mem k1 = put (mem k) (unat ?envp) (env_block chain)"
    by (rule writesD [OF bi_copyenv_writes assms(1), of ?envp chain]) (use lay in auto)
  have room: "unat ?modulep + recs_len al (all_recs al ?fps) + 8 < top k1"
    using meta_room_eq [OF i, of al smap howto ?envp ?kernend] lay(5) 1(3) by simp
  obtain a k2 where 2: "bi_copymodules copyin al ?fps ?modulep k1 = Some (a, k2)" "wf k2" "top k2 = top k1"
      "mem k2 = write_recs al (mem k1) (unat ?modulep) (all_recs al ?fps @ [(0, [])])"
    using bi_copymodules_effect [OF 1(2) assms(2) conjunct2 [OF conjunct2 [OF conjunct2 [OF lay(1)]]] room] by auto
  have size: "bi_copymodules copyin al (add_metas i (boot_metas al smap howto ?envp 0) fps) 0 k1 = Some (word_of_nat ?R, k1)"
    using meta_room_eq [OF i, of al smap howto ?envp 0] by (simp add: bi_copymodules_size)
  have metas: "add_metas i (smap_metas smap) (add_metas i [meta MODINFOMD_KERNEND (le_bytes al 0)]
      (add_metas i [meta MODINFOMD_ENVP (le_bytes al (unat ?envp))] (add_metas i [meta MODINFOMD_HOWTO (le_bytes 4 (unat howto))] fps))) =
    add_metas i (boot_metas al smap howto ?envp 0) fps"
    using i by (simp add: add_metas_twice boot_metas_def)
  let ?p = "\<lparr>pl_envp = ?envp, pl_modulep = ?modulep, pl_kernend = ?kernend, pl_kernel = i, pl_files = ?fps, pl_store = k2\<rparr>"
  have run: "bi_place copyin alloc al kinds smap howto chain fps k = Some (Some ?p)"
    using 1(1) 2(1) size metas patch_file_ok [OF i, of al ?kernend smap howto ?envp] assms(3) i
    by (simp add: bi_place_def Let_def add_meta_ok [OF alloc] bios_addsmapdata_ok [OF alloc])
  have fits: "unat ?envp + ?E \<le> length (mem k)" using lay tl by simp
  have below: "length (mem k2) = length (mem k1)"
    using write_recs_outside [OF assms(2), of "unat ?modulep" "all_recs al ?fps @ [(0, [])]" "mem k1"] room 2(4) assms(2) top_le [OF 1(2)]
    by simp
  have "unat ?modulep + ?R \<le> length (mem k1)" using lay(5) tl fits 1(4) by simp
  note w = write_recs_meta [OF assms(2) i refl this below _ 2(4)]
  have R: "?R < 2 ^ 32" using lay(5) t by simp
  have "slice (mem k2) (unat ?envp) ?E = slice (mem k1) (unat ?envp) ?E" by (rule slice_below [OF w(2) [OF R] below lay(3)])
  then have env: "slice (mem k2) (unat ?envp) ?E = Some (env_block chain)" using slice_put_same [OF fits] 1(4) by simp
  have tk: "take (unat ?envp) (mem k2) = take (unat ?envp) (mem k)"
    using take_below [OF w(2) [OF R], of "unat ?envp"] lay(3) 1(4) fits by (simp add: put_def)
  have files: "end_of fp \<le> ?envp" if "fp \<in> set fps" for fp
    using end_of_le [OF that] lay(2) by (simp add: word_le_nat_alt)
  have "handed_over al smap howto chain fps i (mem k) (mem k2) ?p"
    unfolding handed_over_def using lay w(1) [OF R] env tk files by simp
  with run show ?thesis by auto
qed

end

interpretation i386_store: kernel_store32 i386_copyin ram "\<lambda>m. unat (memtop m)" i386_mem_ok
proof
  show "unat (memtop m) < 2 ^ 32" for m :: i386_mem using unsigned_less [of "memtop m", where ?'a = nat] by simp
qed

section \<open>The flags in the environment\<close>

definition howto_mask :: u32 where
  "howto_mask = foldr (\<lambda>(_, m) w. m OR w) howto_names 0"

definition flag_bit :: "u32 \<Rightarrow> bool" where
  "flag_bit m \<longleftrightarrow> m \<in> set (map (\<lambda>n. push_bit n 1) [0..<32])"

lemma flag_bit_and:
  assumes "flag_bit m"
  shows "w AND m = (if w AND m \<noteq> 0 then m else 0)"
proof -
  obtain n where n: "n < 32" "m = push_bit n 1" using assms by (auto simp: flag_bit_def)
  have "w AND push_bit n 1 = (if bit w n then push_bit n 1 else 0)" by (auto intro!: bit_eqI simp: bit_simps bit_1_iff)
  then show ?thesis by (auto simp: n(2))
qed

lemma howto_names_ok: "(\<forall>(ev, m) \<in> set howto_names. flag_bit m) \<and> distinct (map fst howto_names) \<and> ''console'' \<notin> fst ` set howto_names"
  by code_simp

lemma setboothowto_lookup:
  "distinct (map fst ns) \<Longrightarrow>
   foldl (\<lambda>e (ev, mask). if howto AND mask \<noteq> 0 then e(ev := Some v) else e) env ns x =
     (case map_of ns x of Some m \<Rightarrow> if howto AND m \<noteq> 0 then Some v else env x | None \<Rightarrow> env x)"
proof (induction ns arbitrary: env)
  case (Cons n ns)
  obtain ev m where n: "n = (ev, m)" by fastforce
  show ?case
  proof (cases "x = ev")
    case True
    then have "map_of ns x = None" using Cons.prems n by (simp add: map_of_eq_None_iff)
    then show ?thesis using Cons n True by simp
  qed (use Cons n in \<open>simp split: option.splits\<close>)
qed simp

lemma env_flags_fold:
  assumes "\<forall>(ev, m) \<in> set ns. flag_bit m \<and> (env ev \<noteq> None \<longleftrightarrow> howto AND m \<noteq> 0)"
  shows "foldl (\<lambda>h (ev, mask). if env ev \<noteq> None then h OR mask else h) h ns = h OR (howto AND foldr (\<lambda>(_, m) w. m OR w) ns 0)"
  using assms
proof (induction ns arbitrary: h)
  case (Cons n ns)
  obtain ev m where n: "n = (ev, m)" by fastforce
  have m: "flag_bit m" "env ev \<noteq> None \<longleftrightarrow> howto AND m \<noteq> 0" using Cons.prems n by auto
  have "howto AND m = 0 \<or> howto AND m = m" using flag_bit_and [OF m(1), of howto] by metis
  then have "(if env ev \<noteq> None then h OR m else h) = h OR (howto AND m)" using m(2) by auto
  then show ?case using Cons n by (simp add: bit.conj_disj_distrib or.assoc)
qed simp

lemma flags_set_and_read:
  assumes "\<forall>(ev, m) \<in> set howto_names. env ev = None"
  shows "env_flags (bi_setboothowto howto env) h = h OR (howto AND howto_mask)"
  unfolding env_flags_def howto_mask_def
proof (rule env_flags_fold, clarify)
  fix ev m assume in_names: "(ev, m) \<in> set howto_names"
  have "map_of howto_names ev = Some m" using in_names howto_names_ok by (simp add: map_of_is_SomeI)
  moreover have "env ev = None" using assms in_names by auto
  ultimately have "bi_setboothowto howto env ev = (if howto AND m \<noteq> 0 then Some (bytes_of ''YES'') else None)"
    using setboothowto_lookup [of howto_names howto "bytes_of ''YES''" env ev] howto_names_ok by (simp add: bi_setboothowto_def)
  moreover have "flag_bit m" using in_names howto_names_ok by auto
  ultimately show "flag_bit m \<and> (bi_setboothowto howto env ev \<noteq> None \<longleftrightarrow> howto AND m \<noteq> 0)" by simp
qed

section \<open>Properties\<close>

text \<open>
  C17: the flags that \<^verbatim>\<open>bi_setboothowto\<close> writes into an environment without flags are the ones that \<^verbatim>\<open>bi_getboothowto\<close> reads
  from it: they join those of the arguments before the list of consoles is applied.
\<close>

theorem boothowto_set_and_read:
  assumes "env ''console'' = Some cons" "\<forall>(ev, m) \<in> set howto_names. env ev = None"
  shows "bi_getboothowto kargs (bi_setboothowto howto env) =
    Some (console_flags cons ((case kargs of None \<Rightarrow> 0 | Some s \<Rightarrow> kargs_loop False s 0) OR (howto AND howto_mask)))"
proof -
  have "map_of howto_names ''console'' = None" using howto_names_ok by (simp add: map_of_eq_None_iff)
  then have "bi_setboothowto howto env ''console'' = Some cons"
    using assms(1) setboothowto_lookup [of howto_names howto "bytes_of ''YES''" env "''console''"] howto_names_ok
    by (simp add: bi_setboothowto_def)
  then show ?thesis using flags_set_and_read [OF assms(2)] by (simp add: bi_getboothowto_def)
qed

definition demo_env :: "string \<Rightarrow> byte list option" where
  "demo_env = map_of [(''console'', bytes_of ''vidconsole comconsole''), (''rootdev'', bytes_of ''disk1s2a:''), (''currdev'', bytes_of ''disk0:'')]"

theorem boothowto_set_and_read_witness:
  "bi_getboothowto (Some (bytes_of ''-v'')) (bi_setboothowto 2 demo_env) = Some 0x20000802"
proof -
  have "demo_env ''console'' = Some (bytes_of ''vidconsole comconsole'')" "\<forall>(ev, m) \<in> set howto_names. demo_env ev = None"
    by code_simp+
  from boothowto_set_and_read [OF this, of "Some (bytes_of ''-v'')" 2]
  have "bi_getboothowto (Some (bytes_of ''-v'')) (bi_setboothowto 2 demo_env) =
      Some (console_flags (bytes_of ''vidconsole comconsole'') (kargs_loop False (bytes_of ''-v'') 0 OR (2 AND howto_mask)))" by simp
  moreover have "console_flags (bytes_of ''vidconsole comconsole'') (kargs_loop False (bytes_of ''-v'') 0 OR (2 AND howto_mask)) = 0x20000802"
    by code_simp
  ultimately show ?thesis by simp
qed

text \<open>
  C15: when the processor has long mode, the root device is known and the memory is large enough, \<^verbatim>\<open>bi_load64\<close> succeeds and
  what it leaves for the kernel is \<^term>\<open>handed_over\<close>: environment, metadata and end lie in this order on pages behind all
  files without overlap, the environment is there byte for byte, a reader of the metadata gets the records of every file in
  order, the kernel's with the flags, the address of the environment and the end filled in, and nothing below changes.
\<close>

theorem bi_load64_hands_over:
  assumes "i386_mem_ok m" "bi_checkcpu h" "bi_getboothowto args (environ st) = Some howto"
    "root_device zfs sw blk junk (environ st) = Some (Some dev)" "i386_fmtdev zfmt [] dev = Some name"
    "getrootmount (h_lines h) lbuf name (environ st) = Some (r, env)"
    "kernel_index [bytes_of ''elf kernel'', bytes_of ''elf64 kernel''] (preloaded_files st) = Some i" "\<forall>n. alloc n \<noteq> None"
    "unat (load_end (preloaded_files st)) + length (env_block (h_chain h env)) + meta_room 8 (h_smap h) i (preloaded_files st) + 3 * 4096
       < unat (memtop m)"
  shows "\<exists>p. bi_load64 i386_copyin h alloc zfs zfmt sw blk junk lbuf args st m = Some (Bi_ok p) \<and>
    handed_over 8 (h_smap h) howto (h_chain h env) (preloaded_files st) i (ram m) (ram (pl_store p)) p"
proof -
  have "(0 :: nat) < 8" by simp
  from i386_store.hand_over [where howto = howto, OF assms(1) this assms(7-9)] show ?thesis
    using assms(2-6) by (auto simp: bi_load64_def)
qed

definition demo_kernel :: preloaded_file where
  "demo_kernel = \<lparr>f_name = bytes_of ''/boot/kernel/kernel'', f_type = bytes_of ''elf kernel'', f_args = Some (bytes_of ''-v''),
     f_metadata = [], f_loader = 0, f_addr = 0x400, f_size = 0x800, f_modules = []\<rparr>"

definition demo_boot :: lstate where
  "demo_boot = \<lparr>preloaded_files = [demo_kernel], loadaddr = 0xC00, moduledir_list = [], environ = demo_env, command_errbuf = No_bootable_kernel\<rparr>"

definition demo_cpuid :: "u32 \<Rightarrow> u32 \<times> u32 \<times> u32 \<times> u32" where
  "demo_cpuid n =
     (if n = 0 then (1, 0x756e6547, 0x6c65746e, 0x49656e69)
      else if n = 0x80000000 then (0x80000008, 0, 0, 0)
      else (0, 0, 0, 0x20000000))"

definition demo_host :: host where
  "demo_host = \<lparr>h_cpuid = demo_cpuid, h_has_cpuid = True, h_basemem = 0xA0000, h_extmem = 0x100000, h_bigeom = (\<lambda>_. 0),
     h_bc_unit2bios = (\<lambda>_. -1), h_bc_getdev = (\<lambda>_. -1), h_bd_unit2bios = (\<lambda>u. 0x80 + u), h_bd_getdev = (\<lambda>_. 0xA0000000),
     h_smap = (Some (replicate 20 1), None), h_lines = (\<lambda>_. None),
     h_chain = (\<lambda>env. map (\<lambda>n. (bytes_of n, env n)) [''console'', ''rootdev''])\<rparr>"

definition demo_alloc :: allocator where
  "demo_alloc n = Some (replicate n 0)"

definition demo_ram :: i386_mem where
  "demo_ram = \<lparr>memtop = 0x10000, memtop_copyin = 0x10000, ram = replicate 0x10000 0\<rparr>"

lemma demo_howto: "bi_getboothowto None (environ demo_boot) = Some 0x20000000"
  by code_simp

lemma demo_root: "root_device zfs_parsedev_stub i386_devsw (Some disk1s2a) None (environ demo_boot) = Some (Some disk1s2a)"
  by code_simp

lemma demo_fmt: "i386_fmtdev zfs_fmtdev_stub [] disk1s2a = Some (bytes_of ''disk1s2a:'')"
  by code_simp

lemma demo_vendor: "le_bytes 4 (unat (0x756e6547 :: u32)) @ le_bytes 4 (unat (0x49656e69 :: u32)) @ le_bytes 4 (unat (0x6c65746e :: u32)) = bytes_of ''GenuineIntel''"
proof -
  have "le_bytes 4 x = [word_of_nat x, word_of_nat (x div 256), word_of_nat (x div 256 div 256), word_of_nat (x div 256 div 256 div 256)]" for x
  proof -
    have "(4 :: nat) = Suc (Suc (Suc (Suc 0)))" by simp
    then show ?thesis by (simp only: le_bytes.simps)
  qed
  then show ?thesis by simp
qed

lemma demo_cpu: "bi_checkcpu demo_host"
  using demo_vendor by (simp add: bi_checkcpu_def demo_host_def demo_cpuid_def)

lemma demo_k64: "kernel_index [bytes_of ''elf kernel'', bytes_of ''elf64 kernel''] (preloaded_files demo_boot) = Some 0"
  by code_simp

lemma demo_k32: "kernel_index [bytes_of ''elf kernel'', bytes_of ''elf32 kernel''] (preloaded_files demo_boot) = Some 0"
  by code_simp

lemma demo_ram_ok: "i386_mem_ok demo_ram"
  by (simp add: i386_mem_ok_def demo_ram_def)

lemma demo_mount: "getrootmount (h_lines demo_host) (replicate 128 0) (bytes_of ''disk1s2a:'') (environ demo_boot) = Some (1, demo_env)"
  by (simp add: getrootmount_def demo_host_def demo_boot_def demo_env_def zfs_root_def)

lemma demo_room:
  "unat (load_end (preloaded_files demo_boot)) = 0xC00" "length (env_block (h_chain demo_host demo_env)) = 49"
  by (simp_all add: load_end_def end_of_def demo_boot_def demo_kernel_def demo_host_def demo_env_def env_entry_def)

lemma demo_meta_room:
  "meta_room 8 (h_smap demo_host) 0 (preloaded_files demo_boot) = 192" "meta_room 4 (h_smap demo_host) 0 (preloaded_files demo_boot) = 156"
  by (simp_all add: meta_room_def all_recs_def add_metas_def file_recs_def boot_metas_def smap_metas_def meta_def meta_rec_def rec_len_def
    roundup_def demo_host_def demo_boot_def demo_kernel_def MODINFOMD_NOCOPY_def MODINFOMD_SMAP_def MODINFOMD_KERNEND_def
    MODINFOMD_ENVP_def MODINFOMD_HOWTO_def)

theorem bi_load64_hands_over_witness:
  "\<exists>p. bi_load64 i386_copyin demo_host demo_alloc zfs_parsedev_stub zfs_fmtdev_stub i386_devsw (Some disk1s2a) None (replicate 128 0) None demo_boot
      demo_ram = Some (Bi_ok p) \<and>
    handed_over 8 (h_smap demo_host) 0x20000000 (h_chain demo_host demo_env) (preloaded_files demo_boot) 0 (ram demo_ram) (ram (pl_store p)) p"
proof (rule bi_load64_hands_over [OF demo_ram_ok demo_cpu demo_howto demo_root demo_fmt demo_mount demo_k64])
  show "\<forall>n. demo_alloc n \<noteq> None" by (simp add: demo_alloc_def)
qed (simp add: demo_room demo_meta_room demo_ram_def)

lemma sym_addr_found:
  assumes "\<forall>md \<in> set (f_metadata fp). uint (md_type md) = ty \<longrightarrow> 4 \<le> length (md_data md)"
  shows "\<exists>a. sym_addr fp ty = Some a"
proof (cases "find_type ty (f_metadata fp)")
  case (Cons md mds)
  then have "md \<in> set (find_type ty (f_metadata fp))" "uint (md_type md) = ty"
    by (simp, auto simp: find_type_def dest: dropWhile_eq_Cons_conv [THEN iffD1])
  moreover from this(1) have "md \<in> set (f_metadata fp)" by (auto simp: find_type_def dest: set_dropWhileD)
  ultimately show ?thesis using Cons assms by (simp add: sym_addr_def file_findmetadata_def le_field_def slice_def)
qed (simp add: sym_addr_def file_findmetadata_def)

lemma boot_metas_types:
  assumes "md \<in> set (boot_metas al smap howto envp kernend)"
  shows "uint (md_type md) \<noteq> MODINFOMD_SSYM \<and> uint (md_type md) \<noteq> MODINFOMD_ESYM"
  using assms
  by (auto simp: boot_metas_def smap_metas_def meta_def MODINFOMD_SSYM_def MODINFOMD_ESYM_def MODINFOMD_KERNEND_def MODINFOMD_ENVP_def
    MODINFOMD_HOWTO_def MODINFOMD_SMAP_def MODINFOMD_SMAP_XATTR_def split: option.splits if_splits)

text \<open>
  C16: for a root device that the drivers can number \<^verbatim>\<open>bi_load32\<close> leaves the same for a 32-bit kernel, with 4-byte
  addresses; the legacy structure repeats the three addresses and the flags carry \<^verbatim>\<open>RB_BOOTINFO\<close>.
\<close>

theorem bi_load32_hands_over:
  assumes "i386_mem_ok m" "bi_getboothowto args (environ st) = Some howto"
    "root_device zfs sw blk junk (environ st) = Some (Some dev)" "i386_fmtdev zfmt [] dev = Some name"
    "getrootmount (h_lines h) lbuf name (environ st) = Some (r, env)"
    "kernel_index [bytes_of ''elf kernel'', bytes_of ''elf32 kernel''] (preloaded_files st) = Some i" "\<forall>n. alloc n \<noteq> None"
    "unat (load_end (preloaded_files st)) + length (env_block (h_chain h env)) + meta_room 4 (h_smap h) i (preloaded_files st) + 3 * 4096
       < unat (memtop m)"
    "\<forall>md \<in> set (f_metadata (preloaded_files st ! i)). uint (md_type md) \<in> {MODINFOMD_SSYM, MODINFOMD_ESYM} \<longrightarrow> 4 \<le> length (md_data md)"
    "i386_getdev zfs sw blk env (env ''kernelname'') = Some q" "snd (boot_device h dev 0) \<noteq> - 1"
  shows "\<exists>b p. bi_load32 i386_copyin h alloc zfs zfmt sw blk junk lbuf args st m =
      Some (Bi_ok (howto OR BI_RB_BOOTINFO, snd (boot_device h dev 0), b, p)) \<and>
    bi_envp b = pl_envp p \<and> bi_modulep b = pl_modulep p \<and> bi_kernend b = pl_kernend p \<and>
    handed_over 4 (h_smap h) howto (h_chain h env) (preloaded_files st) i (ram m) (ram (pl_store p)) p"
proof -
  have "(0 :: nat) < 4" by simp
  from i386_store.hand_over [where howto = howto, OF assms(1) this assms(6-8)] obtain p where
    p: "bi_place i386_copyin alloc 4 [bytes_of ''elf kernel'', bytes_of ''elf32 kernel''] (h_smap h) howto (h_chain h env) (preloaded_files st) m
      = Some (Some p)" "handed_over 4 (h_smap h) howto (h_chain h env) (preloaded_files st) i (ram m) (ram (pl_store p)) p" by auto
  have i: "i < length (preloaded_files st)" using assms(6) by (rule kernel_index_less)
  let ?k = "pl_files p ! i"
  have k: "rd (pl_files p) (pl_kernel p) = Some ?k" "f_metadata ?k =
      boot_metas 4 (h_smap h) howto (pl_envp p) (pl_kernend p) @ f_metadata (preloaded_files st ! i)"
    using p(2) i by (simp_all add: handed_over_def add_metas_def rd_def)
  obtain a b where ab: "sym_addr ?k MODINFOMD_SSYM = Some a" "sym_addr ?k MODINFOMD_ESYM = Some b"
    using sym_addr_found [of ?k MODINFOMD_SSYM] sym_addr_found [of ?k MODINFOMD_ESYM] assms(9) boot_metas_types
    unfolding k(2) set_append by blast
  show ?thesis
    using assms(2-5,10,11) p k(1) ab by (simp add: bi_load32_def case_prod_beta Let_def)
qed

theorem bi_load32_hands_over_witness:
  "\<exists>b p. bi_load32 i386_copyin demo_host demo_alloc zfs_parsedev_stub zfs_fmtdev_stub i386_devsw (Some disk1s2a) None (replicate 128 0) None demo_boot
      demo_ram = Some (Bi_ok (0x20000000 OR BI_RB_BOOTINFO, snd (boot_device demo_host disk1s2a 0), b, p)) \<and>
    bi_envp b = pl_envp p \<and> bi_modulep b = pl_modulep p \<and> bi_kernend b = pl_kernend p \<and>
    handed_over 4 (h_smap demo_host) 0x20000000 (h_chain demo_host demo_env) (preloaded_files demo_boot) 0 (ram demo_ram) (ram (pl_store p)) p"
proof -
  have "i386_getdev zfs_parsedev_stub i386_devsw (Some disk1s2a) demo_env (demo_env ''kernelname'') \<noteq> None" by code_simp
  then obtain q where q: "i386_getdev zfs_parsedev_stub i386_devsw (Some disk1s2a) demo_env (demo_env ''kernelname'') = Some q" by blast
  show ?thesis
  proof (rule bi_load32_hands_over [OF demo_ram_ok demo_howto demo_root demo_fmt demo_mount demo_k32 _ _ _ q])
    show "\<forall>n. demo_alloc n \<noteq> None" by (simp add: demo_alloc_def)
    show "\<forall>md \<in> set (f_metadata (preloaded_files demo_boot ! 0)). uint (md_type md) \<in> {MODINFOMD_SSYM, MODINFOMD_ESYM} \<longrightarrow> 4 \<le> length (md_data md)"
      by (simp add: demo_boot_def demo_kernel_def)
    show "snd (boot_device demo_host disk1s2a 0) \<noteq> - 1" by (simp add: boot_device_def demo_host_def disk1s2a_def devt_defs)
  qed (simp add: demo_room demo_meta_room demo_ram_def)
qed

end
