(* ===== verification/LoadElf.thy ===== *)
theory LoadElf
  imports Bootinfo
begin

text \<open>
  The ELF loader, \<^verbatim>\<open>boot/common/load_elf.c\<close> with \<^verbatim>\<open>boot/common/reloc_elf.c\<close>, as the i386 loader builds it: once for 32-bit
  and once for 64-bit images.  The argument \<open>w\<close> is the size of an \<^verbatim>\<open>Elf_Addr\<close>, 4 or 8; numbers of the image are 64 bits
  wide and are cut to \<open>w\<close> bytes where the code stores them in an \<^verbatim>\<open>Elf_Addr\<close>, and to 32 bits where it makes a pointer or a
  size of them.  The i386 \<^verbatim>\<open>archsw\<close> has no \<^verbatim>\<open>arch_loadaddr\<close> and no \<^verbatim>\<open>arch_loadseg\<close>.

  The layouts of \<^verbatim>\<open>sys/elf32.h\<close> and \<^verbatim>\<open>sys/elf64.h\<close> are written out as offsets.  A variable that a copy fills is
  \<^term>\<open>None\<close> before the first copy that was not refused; using it then is a fault.  \<^verbatim>\<open>open\<close>, \<^verbatim>\<open>lseek\<close>, \<^verbatim>\<open>read\<close> and \<^verbatim>\<open>malloc\<close> of
  libstand are the record \<open>elf_sys\<close>; a \<^verbatim>\<open>strdup\<close> without memory counts as a fault.
\<close>

section \<open>Layout of an image\<close>

definition ELF_TARG_CLASS :: "nat \<Rightarrow> byte" where "ELF_TARG_CLASS w = (if w = 8 then 2 else 1)"
definition ELF_TARG_MACH :: "nat \<Rightarrow> u64" where "ELF_TARG_MACH w = (if w = 8 then 62 else 3)"
definition ET_EXEC :: u64 where "ET_EXEC = 2"
definition ET_DYN :: u64 where "ET_DYN = 3"
definition PT_LOAD :: u64 where "PT_LOAD = 1"
definition PT_DYNAMIC :: u64 where "PT_DYNAMIC = 2"
definition SHT_SYMTAB :: u64 where "SHT_SYMTAB = 2"
definition PAGE_SIZE :: nat where "PAGE_SIZE = 4096"

abbreviation num :: "byte list \<Rightarrow> nat \<Rightarrow> nat \<Rightarrow> u64 option" where
  "num bs off n \<equiv> le_field bs off n"

definition ehdr_size :: "nat \<Rightarrow> nat" where "ehdr_size w = 40 + 3 * w"
definition phdr_size :: "nat \<Rightarrow> nat" where "phdr_size w = (if w = 8 then 56 else 32)"
definition shdr_size :: "nat \<Rightarrow> nat" where "shdr_size w = 16 + 6 * w"
definition sym_size :: "nat \<Rightarrow> nat" where "sym_size w = (if w = 8 then 24 else 16)"

record ehdr =
  e_type :: u64
  e_machine :: u64
  e_version :: u64
  e_entry :: u64
  e_phoff :: u64
  e_shoff :: u64
  e_phnum :: u64
  e_shentsize :: u64
  e_shnum :: u64

definition read_ehdr :: "nat \<Rightarrow> byte list \<Rightarrow> ehdr option" where
  "read_ehdr w b = do {
     ty \<leftarrow> num b 16 2; mach \<leftarrow> num b 18 2; ver \<leftarrow> num b 20 4;
     entry \<leftarrow> num b 24 w; phoff \<leftarrow> num b (24 + w) w; shoff \<leftarrow> num b (24 + 2 * w) w;
     phnum \<leftarrow> num b (32 + 3 * w) 2; shentsize \<leftarrow> num b (34 + 3 * w) 2; shnum \<leftarrow> num b (36 + 3 * w) 2;
     Some \<lparr>e_type = ty, e_machine = mach, e_version = ver, e_entry = entry, e_phoff = phoff, e_shoff = shoff, e_phnum = phnum,
       e_shentsize = shentsize, e_shnum = shnum\<rparr>
   }"

record phdr =
  p_type :: u64
  p_offset :: u64
  p_vaddr :: u64
  p_filesz :: u64
  p_memsz :: u64

definition read_phdr :: "nat \<Rightarrow> byte list \<Rightarrow> nat \<Rightarrow> phdr option" where
  "read_phdr w b a = do {
     let o1 = (if w = 8 then 8 else 4);
     ty \<leftarrow> num b a 4; off \<leftarrow> num b (a + o1) w; va \<leftarrow> num b (a + o1 + w) w;
     fsz \<leftarrow> num b (a + o1 + 3 * w) w; msz \<leftarrow> num b (a + o1 + 4 * w) w;
     Some \<lparr>p_type = ty, p_offset = off, p_vaddr = va, p_filesz = fsz, p_memsz = msz\<rparr>
   }"

record elf_sym =
  st_name :: u64
  st_value :: u64
  st_info :: byte
  st_shndx :: u64

definition read_sym :: "nat \<Rightarrow> byte list \<Rightarrow> elf_sym option" where
  "read_sym w b = do {
     nm \<leftarrow> num b 0 4; v \<leftarrow> num b (if w = 8 then 8 else 4) w; i \<leftarrow> rd b (if w = 8 then 4 else 12); sh \<leftarrow> num b (if w = 8 then 6 else 14) 2;
     Some \<lparr>st_name = nm, st_value = v, st_info = i, st_shndx = sh\<rparr>
   }"

definition cut :: "nat \<Rightarrow> u64 \<Rightarrow> u64" where
  "cut w x = take_bit (8 * w) x"

section \<open>State\<close>

record 's elf_sys =
  x_malloc :: allocator
  x_open :: "byte list \<Rightarrow> int + 's"
  x_lseek :: "'s \<Rightarrow> int \<Rightarrow> int \<times> 's"
  x_read :: "'s \<Rightarrow> nat \<Rightarrow> int \<times> byte list \<times> 's"
  x_junk :: byte

text \<open>\<^verbatim>\<open>struct elf_file\<close> without \<^verbatim>\<open>ph\<close>, which is never set, and the descriptor; pointers into the loaded image are addresses.\<close>

record elf_file =
  ef_symtab :: u32
  ef_hashtab :: u32
  ef_nbuckets :: u32
  ef_nchains :: u32
  ef_buckets :: u32
  ef_chains :: u32
  ef_rel :: u32
  ef_relsz :: u32
  ef_rela :: u32
  ef_relasz :: u32
  ef_strtab :: u32
  ef_strsz :: u32
  ef_firstpage :: "byte list"
  ef_firstlen :: nat
  ef_kernel :: bool
  ef_off :: u64

definition EPERM :: int where "EPERM = 1"
definition ESRCH :: int where "ESRCH = 3"
definition EIO :: int where "EIO = 5"
definition EOPNOTSUPP :: int where "EOPNOTSUPP = 45"
definition MODINFOMD_ELFHDR :: int where "MODINFOMD_ELFHDR = 2"
definition MODINFOMD_DYNAMIC :: int where "MODINFOMD_DYNAMIC = 5"
definition MDT_DEPEND :: u64 where "MDT_DEPEND = 1"

text \<open>\<^verbatim>\<open>COPYOUT\<close>: a refused copy leaves the variable as it is.\<close>

definition COPYOUT :: "i386_mem \<Rightarrow> u32 \<Rightarrow> nat \<Rightarrow> byte list option \<Rightarrow> byte list option option" where
  "COPYOUT m src len old = do {
     r \<leftarrow> i386_copyout src len m;
     Some (case r of Inl e \<Rightarrow> old | Inr bs \<Rightarrow> Some bs)
   }"

definition kbyte :: "i386_mem \<Rightarrow> u32 \<Rightarrow> byte option" where
  "kbyte m a = (case i386_copyout a 1 m of Some (Inr bs) \<Rightarrow> rd bs 0 | _ \<Rightarrow> None)"

definition kstring :: "'s elf_sys \<Rightarrow> i386_mem \<Rightarrow> u32 \<Rightarrow> byte list option" where
  "kstring X m a = do { b \<leftarrow> strdupout (x_malloc X) (kbyte m) (x_junk X) a; cstr b 0 }"

section \<open>Symbols\<close>

fun elf_hash_loop :: "byte list \<Rightarrow> u32 \<Rightarrow> u32" where
  "elf_hash_loop [] h = h"
| "elf_hash_loop (c # cs) h =
     (let h1 = push_bit 4 h + ucast c; g = h1 AND 0xf0000000; h2 = (if g \<noteq> 0 then h1 XOR drop_bit 24 g else h1)
      in elf_hash_loop cs (h2 AND NOT g))"

definition elf_hash :: "byte list \<Rightarrow> u32" where
  "elf_hash name = elf_hash_loop name 0"

text \<open>The variables of the loop are the number and the symbol.\<close>

definition sym_defined :: "elf_sym \<Rightarrow> bool" where
  "sym_defined sy \<longleftrightarrow> st_shndx sy \<noteq> 0 \<or> (st_value sy \<noteq> 0 \<and> st_info sy AND 15 = 2)"

partial_function (option) lookup_loop ::
  "nat \<Rightarrow> 's elf_sys \<Rightarrow> i386_mem \<Rightarrow> elf_file \<Rightarrow> byte list \<Rightarrow> byte list option \<times> byte list option \<Rightarrow> (int + elf_sym) option" where
  "lookup_loop w X m ef name v = do {
     nb \<leftarrow> fst v;
     symnum \<leftarrow> (le_field nb 0 4 :: u32 option);
     if symnum = 0 \<or> symnum \<ge> ef_nchains ef then Some (Inl ENOENT)
     else do {
       sv \<leftarrow> COPYOUT m (ef_symtab ef + symnum * word_of_nat (sym_size w)) (sym_size w) (snd v);
       sb \<leftarrow> sv;
       sy \<leftarrow> read_sym w sb;
       if st_name sy = 0 then Some (Inl ENOENT)
       else do {
         strp \<leftarrow> kstring X m (ef_strtab ef + ucast (st_name sy));
         if name = strp then Some (if sym_defined sy then Inr sy else Inl ENOENT)
         else do {
           nv \<leftarrow> COPYOUT m (ef_chains ef + 4 * symnum) 4 (Some nb);
           lookup_loop w X m ef name (nv, sv)
         }
       }
     }
   }"

definition lookup_symbol :: "nat \<Rightarrow> 's elf_sys \<Rightarrow> i386_mem \<Rightarrow> elf_file \<Rightarrow> byte list \<Rightarrow> (int + elf_sym) option" where
  "lookup_symbol w X m ef name =
     (if ef_nbuckets ef = 0 then None
      else do {
        nv \<leftarrow> COPYOUT m (ef_buckets ef + 4 * (elf_hash name mod ef_nbuckets ef)) 4 None;
        lookup_loop w X m ef name (nv, None)
      })"

section \<open>Relocation\<close>

text \<open>
  One record, decoded: its offset, type, symbol and addend, \<^term>\<open>None\<close> for \<^verbatim>\<open>ELF_RELOC_REL\<close>, whose addend is in the data.  The
  pointer \<^verbatim>\<open>where\<close> is the index \<open>d\<close> into \<^verbatim>\<open>data\<close> modulo the address space, so that both comparisons are one.  The i386 loader
  finds no symbols by number.
\<close>

record elf_rel =
  r_offset :: u64
  r_type :: u64
  r_sym :: u64
  r_addend :: "u64 option"

definition symaddr :: "u64 \<Rightarrow> u64" where
  "symaddr symidx = 0"

definition R_RELATIVE :: u64 where "R_RELATIVE = 8"
definition R_SYMBOL :: u64 where "R_SYMBOL = 1"

definition reloc :: "nat \<Rightarrow> elf_rel \<Rightarrow> u64 \<Rightarrow> u64 \<Rightarrow> byte list \<Rightarrow> (int \<times> byte list) option" where
  "reloc w r relbase dataaddr data =
     (let d = unat (ucast (relbase + r_offset r - dataaddr) :: u32) in
      if d \<ge> length data then Some (0, data)
      else do {
        addend \<leftarrow> (case r_addend r of None \<Rightarrow> num data d w | Some a \<Rightarrow> Some a);
        if r_type r = R_RELATIVE then do {
          data' \<leftarrow> store data d (le_bytes w (unat (addend + relbase)));
          Some (0, data')
        }
        else if r_type r = R_SYMBOL then
          (if symaddr (r_sym r) = 0 then Some (ESRCH, data)
           else do { data' \<leftarrow> store data d (le_bytes w (unat (symaddr (r_sym r) + addend))); Some (0, data') })
        else Some (EFTYPE, data)
      })"

definition rel_type :: "nat \<Rightarrow> u64 \<Rightarrow> u64" where
  "rel_type w info = (if w = 8 then take_bit 32 info else take_bit 8 info)"

definition rel_sym :: "nat \<Rightarrow> u64 \<Rightarrow> u64" where
  "rel_sym w info = (if w = 8 then drop_bit 32 info else drop_bit 8 info)"

definition read_rel :: "nat \<Rightarrow> bool \<Rightarrow> byte list \<Rightarrow> elf_rel option" where
  "read_rel w rela b = do {
     off \<leftarrow> num b 0 w; info \<leftarrow> num b w w;
     add \<leftarrow> (if rela then map_option Some (num b (2 * w) w) else Some None);
     Some \<lparr>r_offset = off, r_type = rel_type w info, r_sym = rel_sym w info, r_addend = add\<rparr>
   }"

text \<open>The loops over both tables: \<open>n\<close> records are left, the next at \<open>a\<close>.\<close>

fun reloc_loop ::
  "nat \<Rightarrow> i386_mem \<Rightarrow> bool \<Rightarrow> u64 \<Rightarrow> u64 \<Rightarrow> nat \<Rightarrow> u32 \<Rightarrow> byte list option \<Rightarrow> byte list \<Rightarrow> (int \<times> byte list) option" where
  "reloc_loop w m rela off p 0 a rv val = Some (0, val)"
| "reloc_loop w m rela off p (Suc n) a rv val = do {
     let sz = (if rela then 3 * w else 2 * w);
     rv' \<leftarrow> COPYOUT m a sz rv;
     rb \<leftarrow> rv';
     r \<leftarrow> read_rel w rela rb;
     (error, val') \<leftarrow> reloc w r off p val;
     if error \<noteq> 0 then Some (error, val') else reloc_loop w m rela off p n (a + word_of_nat sz) rv' val'
   }"

definition reloc_ptr :: "nat \<Rightarrow> i386_mem \<Rightarrow> elf_file \<Rightarrow> u64 \<Rightarrow> byte list \<Rightarrow> (int \<times> byte list) option" where
  "reloc_ptr w m ef p val =
     (if ef_kernel ef then Some (EOPNOTSUPP, val)
      else do {
        (error, val1) \<leftarrow> reloc_loop w m False (cut w (ef_off ef)) p (unat (ef_relsz ef) div (2 * w)) (ef_rel ef) None val;
        if error \<noteq> 0 then Some (error, val1)
        else reloc_loop w m True (cut w (ef_off ef)) p (unat (ef_relasz ef) div (3 * w)) (ef_rela ef) None val1
      })"

section \<open>Module metadata of an image\<close>

definition rindex_of :: "byte \<Rightarrow> byte list \<Rightarrow> nat option" where
  "rindex_of c s = (if c \<in> set s then Some (length s - 1 - length (takeWhile (\<lambda>x. x \<noteq> c) (rev s))) else None)"

text \<open>The outer option is a fault, the inner the pointer that is returned; a negative length is a very large block.\<close>

definition fake_modname :: "allocator \<Rightarrow> byte list \<Rightarrow> byte list option option" where
  "fake_modname alloc name =
     (let sp = (case rindex_of 47 name of None \<Rightarrow> 0 | Some i \<Rightarrow> Suc i);
          ep = (case rindex_of 46 name of None \<Rightarrow> length name | Some i \<Rightarrow> i)
      in if rindex_of 46 name = Some 0 then Some (map_option (\<lambda>_. bytes_of ''bad'') (alloc 4))
         else if ep < sp then (case alloc (2 ^ 32 + ep - sp + 1) of None \<Rightarrow> Some None | Some b \<Rightarrow> None)
         else Some (map_option (\<lambda>_. take (ep - sp) (drop sp name)) (alloc (ep - sp + 1))))"

definition reloc_result :: "int \<times> byte list \<Rightarrow> (byte list \<Rightarrow> byte list option) \<Rightarrow> (int + byte list) option" where
  "reloc_result r shift = (case r of (error, val) \<Rightarrow>
     if error = EOPNOTSUPP then map_option Inr (shift val) else if error \<noteq> 0 then Some (Inl error) else Some (Inr val))"

definition add_at :: "nat \<Rightarrow> nat \<Rightarrow> u64 \<Rightarrow> byte list \<Rightarrow> byte list option" where
  "add_at w i off val = do { x \<leftarrow> num val i w; store val i (le_bytes w (unat (x + off))) }"

record mod_vars =
  v_v :: "byte list option"
  v_md :: "byte list option"
  v_mver :: "byte list option"

definition md_depend :: "'s elf_sys \<Rightarrow> i386_mem \<Rightarrow> elf_file \<Rightarrow> u32 \<Rightarrow> u32 \<Rightarrow> preloaded_file \<Rightarrow> (int + preloaded_file) option" where
  "md_depend X m ef cval data fp =
     (if ef_kernel ef then Some (Inr fp)
      else do {
        s \<leftarrow> kstring X m cval;
        case x_malloc X (12 + length s + 1) of
          None \<Rightarrow> Some (Inl ENOMEM)
        | Some b \<Rightarrow> do {
            bv \<leftarrow> COPYOUT m data 12 (Some (take 12 b));
            hd \<leftarrow> bv;
            fp' \<leftarrow> file_addmetadata (x_malloc X) fp MODINFOMD_DEPLIST (hd @ s @ [0]);
            Some (Inr fp')
          }
      })"

definition md_version :: "'s elf_sys \<Rightarrow> i386_mem \<Rightarrow> u32 \<Rightarrow> u32 \<Rightarrow> byte list option \<Rightarrow> preloaded_file \<Rightarrow> (byte list option \<times> preloaded_file) option" where
  "md_version X m cval data mver fp = do {
     s \<leftarrow> kstring X m cval;
     mv \<leftarrow> COPYOUT m data 4 mver;
     vb \<leftarrow> mv;
     ver \<leftarrow> (le_field vb 0 4 :: u32 option);
     Some (mv, snd (file_addmodule (x_malloc X) fp s (sint ver)))
   }"

partial_function (option) modmetadata_loop ::
  "nat \<Rightarrow> 's elf_sys \<Rightarrow> i386_mem \<Rightarrow> elf_file \<Rightarrow> u64 \<Rightarrow> u64 \<times> nat \<times> mod_vars \<times> preloaded_file \<Rightarrow> (int \<times> nat \<times> preloaded_file) option" where
  "modmetadata_loop w X m ef p_stop s = (case s of (p, modcnt, vars, fp) \<Rightarrow>
     if p < p_stop then do {
       v0 \<leftarrow> COPYOUT m (ucast p) w (v_v vars);
       vb \<leftarrow> v0;
       rv \<leftarrow> reloc_ptr w m ef p vb;
       r1 \<leftarrow> reloc_result rv (add_at w 0 (ef_off ef));
       (case r1 of
          Inl error \<Rightarrow> Some (error, modcnt, fp)
        | Inr vb1 \<Rightarrow> do {
            v \<leftarrow> num vb1 0 w;
            md0 \<leftarrow> COPYOUT m (ucast v) (8 + 2 * w) (v_md vars);
            mb \<leftarrow> md0;
            rm \<leftarrow> reloc_ptr w m ef v mb;
            r2 \<leftarrow> reloc_result rm (\<lambda>b. Option.bind (add_at w (8 + w) (ef_off ef) b) (add_at w 8 (ef_off ef)));
            (case r2 of
               Inl error \<Rightarrow> Some (error, modcnt, fp)
             | Inr mb1 \<Rightarrow> do {
                 ty \<leftarrow> num mb1 4 4;
                 data \<leftarrow> num mb1 8 w;
                 cval \<leftarrow> num mb1 (8 + w) w;
                 let p' = cut w (p + word_of_nat w);
                 let vars' = vars\<lparr>v_v := Some vb1, v_md := Some mb1\<rparr>;
                 if ty = MDT_DEPEND then do {
                   r \<leftarrow> md_depend X m ef (ucast cval) (ucast data) fp;
                   (case r of Inl error \<Rightarrow> Some (error, modcnt, fp) | Inr fp' \<Rightarrow> modmetadata_loop w X m ef p_stop (p', modcnt, vars', fp'))
                 }
                 else if ty = ucast MDT_VERSION then do {
                   (mv, fp') \<leftarrow> md_version X m (ucast cval) (ucast data) (v_mver vars) fp;
                   modmetadata_loop w X m ef p_stop (p', Suc modcnt, vars'\<lparr>v_mver := mv\<rparr>, fp')
                 }
                 else modmetadata_loop w X m ef p_stop (p', modcnt, vars', fp)
               })
          })
     }
     else Some (0, modcnt, fp))"

definition parse_modmetadata :: "nat \<Rightarrow> 's elf_sys \<Rightarrow> i386_mem \<Rightarrow> elf_file \<Rightarrow> preloaded_file \<Rightarrow> (int \<times> preloaded_file) option" where
  "parse_modmetadata w X m ef fp = do {
     s1 \<leftarrow> lookup_symbol w X m ef (bytes_of ''__start_set_modmetadata_set'');
     case s1 of
       Inl e \<Rightarrow> Some (ENOENT, fp)
     | Inr start \<Rightarrow> do {
         s2 \<leftarrow> lookup_symbol w X m ef (bytes_of ''__stop_set_modmetadata_set'');
         case s2 of
           Inl e \<Rightarrow> Some (ENOENT, fp)
         | Inr stop \<Rightarrow> do {
             (error, modcnt, fp1) \<leftarrow> modmetadata_loop w X m ef (cut w (st_value stop + ef_off ef))
               (cut w (st_value start + ef_off ef), 0, \<lparr>v_v = None, v_md = None, v_mver = None\<rparr>, fp);
             if error \<noteq> 0 then Some (error, fp1)
             else if modcnt = 0 then do {
               n \<leftarrow> fake_modname (x_malloc X) (f_name fp1);
               s \<leftarrow> n;
               Some (0, snd (file_addmodule (x_malloc X) fp1 s 1))
             }
             else Some (0, fp1)
           }
       }
   }"

section \<open>Loading an image\<close>

definition LONG_SIZE :: nat where "LONG_SIZE = 4"

definition roundup32 :: "u32 \<Rightarrow> nat \<Rightarrow> u32" where
  "roundup32 x y = (x + word_of_nat (y - 1)) div word_of_nat y * word_of_nat y"

definition x_readin :: "'s elf_sys \<Rightarrow> u32 \<Rightarrow> nat \<Rightarrow> 's \<Rightarrow> i386_mem \<Rightarrow> (int \<times> 's \<times> i386_mem) option" where
  "x_readin X = i386_readin (x_read X)"

text \<open>The kernel is moved down from its link address.\<close>

definition kernel_off :: "nat \<Rightarrow> u64 \<Rightarrow> u64" where
  "kernel_off w off = (if w = 8 then - (off AND 0xffffffffff000000) else - (off AND 0xff000000))"

definition size32 :: "u64 \<Rightarrow> nat" where
  "size32 x = unat (ucast x :: u32)"

record 's img =
  i_fd :: 's
  i_mem :: i386_mem
  i_first :: u32
  i_last :: u32

text \<open>One segment; the result is false when the file could not be read.\<close>

definition load_segment :: "'s elf_sys \<Rightarrow> elf_file \<Rightarrow> phdr \<Rightarrow> 's img \<Rightarrow> (bool \<times> 's img) option" where
  "load_segment X ef ph s = do {
     let dest = p_vaddr ph + ef_off ef;
     let fpcopy = ef_firstlen ef - unat (p_offset ph);
     m1 \<leftarrow> (if unat (p_offset ph) < ef_firstlen ef
            then map_option snd (i386_copyin (drop (unat (p_offset ph)) (ef_firstpage ef)) (ucast dest) fpcopy (i_mem s))
            else Some (i_mem s));
     (err, fd1, m2) \<leftarrow> (if unat (p_filesz ph) > fpcopy
            then kern_pread (x_lseek X) (x_readin X) (ucast (dest + word_of_nat fpcopy)) (size32 (p_filesz ph - word_of_nat fpcopy))
              (sint (p_offset ph + word_of_nat fpcopy)) (i_fd s) m1
            else Some (0, i_fd s, m1));
     if err \<noteq> 0 then Some (False, s\<lparr>i_fd := fd1, i_mem := m2\<rparr>)
     else do {
       m3 \<leftarrow> (if p_filesz ph < p_memsz ph
              then kern_bzero i386_copyin (ucast (dest + p_filesz ph)) (size32 (p_memsz ph - p_filesz ph)) m2
              else Some m2);
       let first = (if i_first s = 0 \<or> ucast (i_first s) > dest then ucast dest else i_first s);
       let last = (if i_last s = 0 \<or> ucast (i_last s) < dest + p_memsz ph then ucast (dest + p_memsz ph) else i_last s);
       Some (True, \<lparr>i_fd = fd1, i_mem = m3, i_first = first, i_last = last\<rparr>)
     }
   }"

fun load_segments :: "'s elf_sys \<Rightarrow> elf_file \<Rightarrow> phdr list \<Rightarrow> 's img \<Rightarrow> (bool \<times> 's img) option" where
  "load_segments X ef [] s = Some (True, s)"
| "load_segments X ef (ph # phs) s =
     (if p_type ph \<noteq> PT_LOAD then load_segments X ef phs s
      else do {
        (ok, s1) \<leftarrow> load_segment X ef ph s;
        if ok then load_segments X ef phs s1 else Some (False, s1)
      })"

text \<open>The section headers stay in their block; a symbol table inside a segment gets offset and size 0.\<close>

definition sh_num :: "nat \<Rightarrow> byte list \<Rightarrow> nat \<Rightarrow> nat \<Rightarrow> nat \<Rightarrow> u64 option" where
  "sh_num w b i off n = num b (i * shdr_size w + off) n"

definition sh_type :: "nat \<Rightarrow> byte list \<Rightarrow> nat \<Rightarrow> u64 option" where "sh_type w b i = sh_num w b i 4 4"
definition sh_offset :: "nat \<Rightarrow> byte list \<Rightarrow> nat \<Rightarrow> u64 option" where "sh_offset w b i = sh_num w b i (8 + 2 * w) w"
definition sh_size :: "nat \<Rightarrow> byte list \<Rightarrow> nat \<Rightarrow> u64 option" where "sh_size w b i = sh_num w b i (8 + 3 * w) w"
definition sh_link :: "nat \<Rightarrow> byte list \<Rightarrow> nat \<Rightarrow> u64 option" where "sh_link w b i = sh_num w b i (8 + 4 * w) 4"

definition in_segment :: "nat \<Rightarrow> phdr list \<Rightarrow> u64 \<Rightarrow> u64 \<Rightarrow> bool" where
  "in_segment w phs off sz \<longleftrightarrow>
     (\<exists>ph \<in> set phs. p_type ph = PT_LOAD \<and> off \<ge> p_offset ph \<and> cut w (off + sz) \<le> cut w (p_offset ph + p_filesz ph))"

function find_symtab :: "nat \<Rightarrow> phdr list \<Rightarrow> nat \<Rightarrow> nat \<Rightarrow> byte list \<Rightarrow> int \<Rightarrow> int \<Rightarrow> (int \<times> int \<times> byte list) option" where
  "find_symtab w phs n i b symtab symstr =
     (if i \<ge> n then Some (symtab, symstr, b)
      else do {
        ty \<leftarrow> sh_type w b i;
        if ty \<noteq> SHT_SYMTAB then find_symtab w phs n (Suc i) b symtab symstr
        else do {
          off \<leftarrow> sh_offset w b i;
          sz \<leftarrow> sh_size w b i;
          b' \<leftarrow> (if in_segment w phs off sz then store b (i * shdr_size w + 8 + 2 * w) (replicate (2 * w) 0) else Some b);
          if in_segment w phs off sz \<or> off = 0 \<or> sz = 0 then find_symtab w phs n (Suc i) b' symtab symstr
          else do { l \<leftarrow> sh_link w b' i; find_symtab w phs n (Suc i) b' (int i) (sint (ucast l :: u32)) }
        }
      })"
  by pat_completeness auto
termination
  by (relation "measure (\<lambda>(w, phs, n, i, b, symtab, symstr). n - i)") auto

declare find_symtab.simps [simp del]

text \<open>One table of symbols or strings, its size in front; false when it cannot be read.\<close>

definition load_table :: "nat \<Rightarrow> 's elf_sys \<Rightarrow> byte list \<Rightarrow> nat \<Rightarrow> 's img \<Rightarrow> (bool \<times> 's img) option" where
  "load_table w X b i s = do {
     size \<leftarrow> sh_size w b i;
     (_, m1) \<leftarrow> i386_copyin (le_bytes w (unat size)) (i_last s) w (i_mem s);
     let last = i_last s + word_of_nat w;
     off \<leftarrow> sh_offset w b i;
     let (pos, fd1) = x_lseek X (i_fd s) (sint off);
     if pos = -1 then Some (False, s\<lparr>i_fd := fd1, i_mem := m1\<rparr>)
     else do {
       (result, fd2, m2) \<leftarrow> x_readin X last (size32 size) fd1 m1;
       if result < 0 \<or> result \<noteq> uint size then Some (False, s\<lparr>i_fd := fd2, i_mem := m2\<rparr>)
       else Some (True, s\<lparr>i_fd := fd2, i_mem := m2, i_last := roundup32 (last + ucast size) w\<rparr>)
     }
   }"

text \<open>
  The loop over the two tables takes the symbols first and the strings second and ends after that, also when both indices
  are the same section.  A failure gives the space back.
\<close>

definition load_tables :: "nat \<Rightarrow> 's elf_sys \<Rightarrow> byte list \<Rightarrow> nat \<Rightarrow> nat \<Rightarrow> preloaded_file \<Rightarrow> 's img \<Rightarrow> (preloaded_file \<times> 's img) option" where
  "load_tables w X b symtab symstr fp s = do {
     (ok1, s1) \<leftarrow> load_table w X b symtab s;
     (ok2, s2) \<leftarrow> (if ok1 then load_table w X b symstr s1 else Some (False, s1));
     if ok2 then do {
       fp1 \<leftarrow> file_addmetadata (x_malloc X) fp MODINFOMD_SSYM (le_bytes w (unat (i_last s)));
       fp2 \<leftarrow> file_addmetadata (x_malloc X) fp1 MODINFOMD_ESYM (le_bytes w (unat (i_last s2)));
       Some (fp2, s2)
     }
     else Some (fp, s2\<lparr>i_last := i_last s\<rparr>)
   }"

definition load_symbols :: "nat \<Rightarrow> 's elf_sys \<Rightarrow> ehdr \<Rightarrow> phdr list \<Rightarrow> preloaded_file \<Rightarrow> 's img \<Rightarrow> (preloaded_file \<times> 's img) option" where
  "load_symbols w X eh phs fp s = do {
     let chunk = unat (e_shnum eh) * unat (e_shentsize eh);
     if chunk = 0 \<or> e_shoff eh = 0 then Some (fp, s)
     else do {
       (sh, fd1) \<leftarrow> alloc_pread (x_malloc X) (x_lseek X) (x_read X) (sint (e_shoff eh)) chunk (i_fd s);
       case sh of
         None \<Rightarrow> Some (fp, s\<lparr>i_fd := fd1\<rparr>)
       | Some b \<Rightarrow> do {
           (symtab, symstr, b') \<leftarrow> find_symtab w phs (unat (e_shnum eh)) 0 b (-1) (-1);
           if symtab < 0 \<or> symstr < 0 then Some (fp, s\<lparr>i_fd := fd1\<rparr>)
           else load_tables w X b' (nat symtab) (nat symstr) fp (s\<lparr>i_fd := fd1\<rparr>)
         }
     }
   }"

section \<open>The dynamic section\<close>

definition dyn_entry :: "u64 \<Rightarrow> u64 \<Rightarrow> elf_file \<Rightarrow> elf_file" where
  "dyn_entry tag val ef =
     (let ptr = ucast (val + ef_off ef)
      in if tag = 4 then ef\<lparr>ef_hashtab := ptr\<rparr>
         else if tag = 5 then ef\<lparr>ef_strtab := ptr\<rparr>
         else if tag = 10 then ef\<lparr>ef_strsz := ucast val\<rparr>
         else if tag = 6 then ef\<lparr>ef_symtab := ptr\<rparr>
         else if tag = 17 then ef\<lparr>ef_rel := ptr\<rparr>
         else if tag = 18 then ef\<lparr>ef_relsz := ucast val\<rparr>
         else if tag = 7 then ef\<lparr>ef_rela := ptr\<rparr>
         else if tag = 8 then ef\<lparr>ef_relasz := ucast val\<rparr>
         else ef)"

fun dyn_loop :: "nat \<Rightarrow> byte list \<Rightarrow> nat \<Rightarrow> nat \<Rightarrow> elf_file \<Rightarrow> elf_file option" where
  "dyn_loop w dp i 0 ef = Some ef"
| "dyn_loop w dp i (Suc n) ef = do {
     tag \<leftarrow> num dp (i * (2 * w)) w;
     if tag = 0 then Some ef
     else do { val \<leftarrow> num dp (i * (2 * w) + w) w; dyn_loop w dp (Suc i) n (dyn_entry tag val ef) }
   }"

definition read_hash :: "i386_mem \<Rightarrow> elf_file \<Rightarrow> elf_file option" where
  "read_hash m ef = do {
     nb \<leftarrow> COPYOUT m (ef_hashtab ef) 4 (Some (le_bytes 4 0));
     nb' \<leftarrow> nb;
     n1 \<leftarrow> le_field nb' 0 4;
     nc \<leftarrow> COPYOUT m (ef_hashtab ef + 4) 4 (Some (le_bytes 4 0));
     nc' \<leftarrow> nc;
     n2 \<leftarrow> le_field nc' 0 4;
     Some (ef\<lparr>ef_nbuckets := n1, ef_nchains := n2, ef_buckets := ef_hashtab ef + 8, ef_chains := ef_hashtab ef + 8 + 4 * n1\<rparr>)
   }"

definition load_dynamic :: "nat \<Rightarrow> 's elf_sys \<Rightarrow> i386_mem \<Rightarrow> elf_file \<Rightarrow> phdr list \<Rightarrow> preloaded_file \<Rightarrow> preloaded_file option" where
  "load_dynamic w X m ef phs fp =
     (case find (\<lambda>ph. p_type ph = PT_DYNAMIC) phs of
        None \<Rightarrow> Some fp
      | Some php \<Rightarrow> do {
          fp1 \<leftarrow> file_addmetadata (x_malloc X) fp MODINFOMD_DYNAMIC (le_bytes w (unat (p_vaddr php)));
          let ndp = sint (ucast (p_filesz php div word_of_nat (2 * w)) :: u32);
          if ndp = 0 then Some fp1
          else (case x_malloc X (size32 (p_filesz php)) of
              None \<Rightarrow> Some fp1
            | Some blk \<Rightarrow> do {
                dv \<leftarrow> COPYOUT m (ucast (p_vaddr php + ef_off ef)) (size32 (p_filesz php)) (Some blk);
                dp \<leftarrow> dv;
                ef1 \<leftarrow> dyn_loop w dp 0 (nat ndp) (ef\<lparr>ef_strsz := 0\<rparr>);
                if ef_hashtab ef1 = 0 \<or> ef_symtab ef1 = 0 \<or> ef_strtab ef1 = 0 \<or> ef_strsz ef1 = 0 then Some fp1
                else do {
                  ef2 \<leftarrow> read_hash m ef1;
                  (_, fp2) \<leftarrow> parse_modmetadata w X m ef2 fp1;
                  Some fp2
                }
              })
        })"

fun elf_phdrs :: "nat \<Rightarrow> byte list \<Rightarrow> nat \<Rightarrow> nat \<Rightarrow> phdr list option" where
  "elf_phdrs w b a 0 = Some []"
| "elf_phdrs w b a (Suc n) = do { ph \<leftarrow> read_phdr w b a; phs \<leftarrow> elf_phdrs w b (a + phdr_size w) n; Some (ph # phs) }"

text \<open>The result is the value returned, the size of the image; the address of the file is set on the way.\<close>

definition loadimage ::
  "nat \<Rightarrow> 's elf_sys \<Rightarrow> ehdr \<Rightarrow> elf_file \<Rightarrow> u64 \<Rightarrow> preloaded_file \<Rightarrow> 's \<Rightarrow> i386_mem \<Rightarrow> (u32 \<times> preloaded_file \<times> i386_mem) option" where
  "loadimage w X eh ef0 off0 fp fd m = do {
     let off = (if ef_kernel ef0 then kernel_off w off0 else off0);
     let ef = ef0\<lparr>ef_off := off\<rparr>;
     if cut w (e_phoff eh + e_phnum eh * word_of_nat (phdr_size w)) > word_of_nat (ef_firstlen ef) then Some (0, fp, m)
     else do {
       phs \<leftarrow> elf_phdrs w (ef_firstpage ef) (unat (e_phoff eh)) (unat (e_phnum eh));
       (ok, s) \<leftarrow> load_segments X ef phs \<lparr>i_fd = fd, i_mem = m, i_first = 0, i_last = 0\<rparr>;
       if \<not> ok then Some (0, fp, i_mem s)
       else do {
         (fp1, s1) \<leftarrow> load_symbols w X eh phs fp (s\<lparr>i_last := roundup32 (i_last s) LONG_SIZE\<rparr>);
         fp2 \<leftarrow> load_dynamic w X (i_mem s1) ef phs (fp1\<lparr>f_addr := ucast (i_first s1)\<rparr>);
         Some (i_last s1 - i_first s1, fp2, i_mem s1)
       }
     }
   }"

section \<open>Loading a file\<close>

definition kerneltype :: "byte list" where "kerneltype = bytes_of ''elf kernel''"
definition moduletype :: "byte list" where "moduletype = bytes_of ''elf module''"

definition is_elf :: "nat \<Rightarrow> byte list \<Rightarrow> ehdr \<Rightarrow> bool" where
  "is_elf w b eh \<longleftrightarrow>
     take 4 b = [0x7f, 0x45, 0x4c, 0x46] \<and> take 3 (drop 4 b) = [ELF_TARG_CLASS w, 1, 1] \<and> e_version eh = 1 \<and> e_machine eh = ELF_TARG_MACH w"

text \<open>What kind of file it is, an error or whether it is a kernel, and where it goes.\<close>

definition module_kind :: "ehdr \<Rightarrow> preloaded_file list \<Rightarrow> u64 \<Rightarrow> int + bool \<times> u64" where
  "module_kind eh fps dest =
     (if e_type eh = ET_DYN then
        (case fps of [] \<Rightarrow> Inl EPERM | kfp # _ \<Rightarrow> if f_type kfp \<noteq> kerneltype then Inl EPERM else Inr (False, dest))
      else if e_type eh = ET_EXEC then
        (if fps \<noteq> [] then Inl EPERM
         else let d = e_entry eh AND NOT 0xfff in if d = 0 then Inl EPERM else Inr (True, d))
      else Inl EFTYPE)"

definition roundup_page64 :: "u64 \<Rightarrow> u64" where
  "roundup_page64 a = (a + 4095) div 4096 * 4096"

definition new_elf_file :: "byte list \<Rightarrow> nat \<Rightarrow> bool \<Rightarrow> elf_file" where
  "new_elf_file page len ker =
     \<lparr>ef_symtab = 0, ef_hashtab = 0, ef_nbuckets = 0, ef_nchains = 0, ef_buckets = 0, ef_chains = 0, ef_rel = 0, ef_relsz = 0,
      ef_rela = 0, ef_relasz = 0, ef_strtab = 0, ef_strsz = 0, ef_firstpage = page, ef_firstlen = len, ef_kernel = ker, ef_off = 0\<rparr>"

definition strdup :: "allocator \<Rightarrow> byte list \<Rightarrow> byte list option" where
  "strdup alloc s = map_option (\<lambda>_. s) (alloc (length s + 1))"

text \<open>The result, whether the name went to \<^verbatim>\<open>kernelname\<close>, and the memory.\<close>

definition load_elf_file ::
  "nat \<Rightarrow> 's elf_sys \<Rightarrow> byte list \<Rightarrow> ehdr \<Rightarrow> byte list \<Rightarrow> nat \<Rightarrow> bool \<Rightarrow> u64 \<Rightarrow> 's \<Rightarrow> i386_mem \<Rightarrow>
   ((int + preloaded_file) \<times> bool \<times> i386_mem) option" where
  "load_elf_file w X filename eh page len ker dest fd m =
     (case x_malloc X 36 of
        None \<Rightarrow> Some (Inl EPERM, False, m)
      | Some _ \<Rightarrow> do {
          name \<leftarrow> strdup (x_malloc X) filename;
          ty \<leftarrow> strdup (x_malloc X) (if ker then kerneltype else moduletype);
          (size, fp, m1) \<leftarrow> loadimage w X eh (new_elf_file page len ker) (roundup_page64 dest)
            \<lparr>f_name = name, f_type = ty, f_args = None, f_metadata = [], f_loader = 0, f_addr = 0, f_size = 0, f_modules = []\<rparr> fd m;
          if size = 0 \<or> f_addr fp = 0 then Some (Inl EIO, ker, m1)
          else do {
            hdr \<leftarrow> slice page 0 (ehdr_size w);
            fp1 \<leftarrow> file_addmetadata (x_malloc X) (fp\<lparr>f_size := ucast size\<rparr>) MODINFOMD_ELFHDR hdr;
            Some (Inr fp1, ker, m1)
          }
        })"

definition elf_loadfile ::
  "nat \<Rightarrow> 's elf_sys \<Rightarrow> preloaded_file list \<Rightarrow> byte list option \<Rightarrow> u64 \<Rightarrow> i386_mem \<Rightarrow> ((int + preloaded_file) \<times> bool \<times> i386_mem) option" where
  "elf_loadfile w X fps filename dest m =
     (case filename of
        None \<Rightarrow> Some (Inl EFTYPE, False, m)
      | Some name \<Rightarrow>
          (case x_open X name of
             Inl errno \<Rightarrow> Some (Inl errno, False, m)
           | Inr fd \<Rightarrow>
               (case x_malloc X PAGE_SIZE of
                  None \<Rightarrow> Some (Inl ENOMEM, False, m)
                | Some blk \<Rightarrow> do {
                    let (bytes_read, bs, fd1) = x_read X fd PAGE_SIZE;
                    page \<leftarrow> store blk 0 bs;
                    if bytes_read < 0 \<or> nat bytes_read \<le> ehdr_size w then Some (Inl EFTYPE, False, m)
                    else do {
                      eh \<leftarrow> read_ehdr w page;
                      if \<not> is_elf w page eh then Some (Inl EFTYPE, False, m)
                      else (case module_kind eh fps dest of
                          Inl err \<Rightarrow> Some (Inl err, False, m)
                        | Inr (ker, d) \<Rightarrow> load_elf_file w X name eh page (nat bytes_read) ker d fd1 m)
                    }
                  })))"

end
