(* ===== verification/LoadElfFacts.thy ===== *)
theory LoadElfFacts
  imports LoadElf
begin

text \<open>
  What the ELF loader promises: segments and symbol tables in memory, symbols found through the hash table, names of
  modules, relocated pointers.
\<close>

section \<open>Files of libstand\<close>

text \<open>
  An open file whose contents are \<open>img\<close>: seeking inside it succeeds, and a read delivers what is asked for, up to the end of
  the file.
\<close>

locale open_image =
  fixes X :: "'s elf_sys" and img :: "byte list" and pos :: "'s \<Rightarrow> nat"
  assumes seek: "off \<le> length img \<Longrightarrow> \<exists>fd'. x_lseek X fd (int off) = (int off, fd') \<and> pos fd' = off"
    and read: "\<exists>fd'. x_read X fd n = (int (length (take n (drop (pos fd) img))), take n (drop (pos fd) img), fd') \<and>
      pos fd' = pos fd + length (take n (drop (pos fd) img))"
begin

lemma readin_in:
  assumes "pos fd + n \<le> length img" "unat dest + n < unat (memtop_copyin m)" "unat (memtop_copyin m) \<le> length (ram m)"
  shows "\<exists>fd'. x_readin X dest n fd m = Some (int n, fd', m\<lparr>ram := put (ram m) (unat dest) (take n (drop (pos fd) img))\<rparr>) \<and>
    pos fd' = pos fd + n"
proof -
  have "length (take n (drop (pos fd) img)) = n" using assms(1) by simp
  with read [of fd n] obtain fd' where r: "x_read X fd n = (int n, take n (drop (pos fd) img), fd')" "pos fd' = pos fd + n" by metis
  have "unat dest + n < 2 ^ 32" using assms(2) unsigned_less [of "memtop_copyin m", where ?'a = nat] by simp
  then have "\<not> memtop_copyin m \<le> dest + word_of_nat n" using assms(2) u32_end [of dest n] by (simp add: word_le_nat_alt)
  moreover have "store (ram m) (unat dest) (take n (drop (pos fd) img)) = Some (put (ram m) (unat dest) (take n (drop (pos fd) img)))"
    using assms by simp
  ultimately show ?thesis using r by (simp add: x_readin_def i386_readin_def)
qed

lemma pread_in:
  assumes "off + n \<le> length img" "unat dest + n < unat (memtop_copyin m)" "unat (memtop_copyin m) \<le> length (ram m)"
  shows "\<exists>fd'. kern_pread (x_lseek X) (x_readin X) dest n (int off) fd m =
    Some (0, fd', m\<lparr>ram := put (ram m) (unat dest) (take n (drop off img))\<rparr>)"
proof -
  obtain fd1 where s: "x_lseek X fd (int off) = (int off, fd1)" "pos fd1 = off" using seek [of off fd] assms(1) by auto
  from readin_in [of fd1 n dest m] assms s(2) obtain fd2 where
    "x_readin X dest n fd1 m = Some (int n, fd2, m\<lparr>ram := put (ram m) (unat dest) (take n (drop off img))\<rparr>)" by auto
  then show ?thesis using s(1) by (simp add: kern_pread_def)
qed

end

section \<open>Segments\<close>

definition seg_at :: "elf_file \<Rightarrow> phdr \<Rightarrow> nat" where
  "seg_at ef ph = unat (p_vaddr ph + ef_off ef)"

definition seg_end :: "elf_file \<Rightarrow> phdr \<Rightarrow> nat" where
  "seg_end ef ph = seg_at ef ph + unat (p_memsz ph)"

definition seg_bytes :: "byte list \<Rightarrow> phdr \<Rightarrow> byte list" where
  "seg_bytes img ph = take (unat (p_filesz ph)) (drop (unat (p_offset ph)) img) @ replicate (unat (p_memsz ph) - unat (p_filesz ph)) 0"

text \<open>What a segment takes with the whole rest of the first page copied.\<close>

definition seg_room :: "elf_file \<Rightarrow> phdr \<Rightarrow> nat" where
  "seg_room ef ph = max (unat (p_memsz ph)) (ef_firstlen ef - unat (p_offset ph))"

definition seg_ok :: "byte list \<Rightarrow> elf_file \<Rightarrow> i386_mem \<Rightarrow> phdr \<Rightarrow> bool" where
  "seg_ok img ef m ph \<longleftrightarrow>
     0 < seg_at ef ph \<and> seg_at ef ph + seg_room ef ph < unat (memtop m) \<and> seg_at ef ph + seg_room ef ph < unat (memtop_copyin m) \<and>
     p_filesz ph \<le> p_memsz ph \<and> unat (p_offset ph) + unat (p_filesz ph) \<le> length img \<and> length img < 2 ^ 32"

definition loads :: "phdr list \<Rightarrow> phdr list" where
  "loads phs = filter (\<lambda>ph. p_type ph = PT_LOAD) phs"

text \<open>The loadable segments stand in the order of their addresses and do not overlap.\<close>

definition ascending :: "elf_file \<Rightarrow> phdr list \<Rightarrow> bool" where
  "ascending ef phs \<longleftrightarrow> sorted_wrt (\<lambda>p q. seg_end ef p \<le> seg_at ef q) (loads phs)"

definition page_ok :: "byte list \<Rightarrow> elf_file \<Rightarrow> bool" where
  "page_ok img ef \<longleftrightarrow> ef_firstlen ef \<le> length img \<and> ef_firstlen ef \<le> length (ef_firstpage ef) \<and>
     take (ef_firstlen ef) (ef_firstpage ef) = take (ef_firstlen ef) img"

definition mem_ok :: "i386_mem \<Rightarrow> bool" where
  "mem_ok m \<longleftrightarrow> i386_mem_ok m \<and> unat (memtop_copyin m) \<le> length (ram m)"

text \<open>The bytes of a table in memory.\<close>

definition table_bytes :: "nat \<Rightarrow> byte list \<Rightarrow> u64 \<Rightarrow> u64 \<Rightarrow> byte list" where
  "table_bytes w img off sz = le_bytes w (unat sz) @ take (unat sz) (drop (unat off) img)"

text \<open>Both tables behind \<open>ssym\<close>, and nothing below changed: \<open>R\<close> is the memory before, \<open>R'\<close> after.\<close>

definition tables_placed ::
  "nat \<Rightarrow> byte list \<Rightarrow> u64 \<times> u64 \<Rightarrow> u64 \<times> u64 \<Rightarrow> byte list \<Rightarrow> byte list \<Rightarrow> u32 \<Rightarrow> u32 \<Rightarrow> bool" where
  "tables_placed w img t1 t2 R R' ssym esym \<longleftrightarrow>
     length R' = length R \<and> take (unat ssym) R' = take (unat ssym) R \<and> (\<forall>k \<ge> unat esym. drop k R' = drop k R) \<and>
     slice R' (unat ssym) (w + unat (snd t1)) = Some (table_bytes w img (fst t1) (snd t1)) \<and>
     (\<exists>a. unat ssym + w + unat (snd t1) \<le> a \<and> slice R' a (w + unat (snd t2)) = Some (table_bytes w img (fst t2) (snd t2)) \<and>
        a + w + unat (snd t2) \<le> unat esym)"

text \<open>Numbers that fit.\<close>

lemma u64_add: "unat x + n < 2 ^ 64 \<Longrightarrow> unat (x + word_of_nat n :: u64) = unat x + n"
  by (simp add: unat_word_ariths unat_of_nat)

lemma u64_sub: "n \<le> unat x \<Longrightarrow> unat (x - word_of_nat n :: u64) = unat x - n"
proof -
  assume n: "n \<le> unat x"
  have "unat x < 2 ^ 64" using unsigned_less [of x, where ?'a = nat] by simp
  then have "unat (word_of_nat n :: u64) = n" using n by (simp add: unat_of_nat)
  then show "unat (x - word_of_nat n) = unat x - n" using n by (simp add: unat_sub word_le_nat_alt)
qed

lemma unat_ucast32: "unat x < 2 ^ 32 \<Longrightarrow> unat (ucast x :: u32) = unat x" for x :: u64
  by (simp add: unsigned_ucast_eq take_bit_nat_eq_self)

lemma take_take_drop: "take a (drop k xs) @ take b (drop (k + a) xs) = take (a + b) (drop k xs)"
  by (simp add: take_add ac_simps)

lemma drop_put_above: "d + length bs \<le> k \<Longrightarrow> d \<le> length R \<Longrightarrow> drop k (put R d bs) = drop k R"
  by (simp add: put_def)

lemma segment_puts:
  fixes R img :: "byte list"
  assumes "R' = put (put R d (take n (drop off img))) (d + fs) (replicate (ms - fs) 0)"
    "d + max n ms \<le> length R" "fs \<le> n" "fs \<le> ms" "off + n \<le> length img"
  shows "length R' = length R" "take d R' = take d R" "slice R' d ms = Some (take fs (drop off img) @ replicate (ms - fs) 0)"
    "d + max n ms \<le> k \<Longrightarrow> drop k R' = drop k R"
proof -
  let ?B = "take n (drop off img)" and ?Z = "replicate (ms - fs) (0 :: byte)"
  let ?R1 = "put R d ?B"
  have lB: "length ?B = n" using assms(5) by simp
  have 1: "length ?R1 = length R" using assms(2) lB by simp
  have 2: "d + fs + length ?Z \<le> length ?R1" using assms(2,4) 1 by simp
  show len: "length R' = length R" using length_put [OF 2] 1 assms(1) by simp
  show "take d R' = take d R" using assms(1,2) lB by (simp add: put_def)
  show "drop k R' = drop k R" if "d + max n ms \<le> k"
    using drop_put_above [of "d + fs" ?Z k ?R1] drop_put_above [of d ?B k R] 1 lB that assms(1,2,4) by simp
  have "take ms (drop d R') = take fs (drop off img) @ ?Z"
  proof (rule nth_equalityI)
    show "length (take ms (drop d R')) = length (take fs (drop off img) @ ?Z)" using len assms by simp
  next
    fix i assume "i < length (take ms (drop d R'))"
    then have i: "i < ms" "d + i < length R" using len by auto
    have "R' ! (d + i) = (if fs \<le> i then 0 else ?R1 ! (d + i))"
      using nth_put [OF 2, of "d + i"] i 1 assms(1,4) by auto
    also have "\<dots> = (if fs \<le> i then 0 else ?B ! i)"
      using nth_put [of d ?B R "d + i"] i lB assms(2,3) by auto
    finally show "take ms (drop d R') ! i = (take fs (drop off img) @ ?Z) ! i"
      using i assms by (auto simp: nth_append)
  qed
  then show "slice R' d ms = Some (take fs (drop off img) @ ?Z)" using len assms(2) by (simp add: slice_def)
qed

lemma roundup32_props:
  assumes "0 < y" "unat x + y < 2 ^ 32"
  shows "unat x \<le> unat (roundup32 x y)" "unat (roundup32 x y) < unat x + y" "y dvd unat (roundup32 x y)"
proof -
  let ?n = "(unat x + (y - 1)) div y * y"
  have "?n + (unat x + (y - 1)) mod y = unat x + (y - 1)" by simp
  moreover have "(unat x + (y - 1)) mod y < y" using assms(1) by simp
  ultimately have n: "?n \<le> unat x + (y - 1)" "unat x \<le> ?n" by linarith+
  have u: "unat (x + word_of_nat (y - 1)) = unat x + (y - 1)" using assms by (intro u32_end) simp
  have y: "unat (word_of_nat y :: u32) = y" using assms by (simp add: unat_of_nat)
  have "unat ((x + word_of_nat (y - 1)) div word_of_nat y) = (unat x + (y - 1)) div y" by (simp only: unat_div_distrib u y)
  then have "unat (roundup32 x y) = ?n mod 2 ^ 32" unfolding roundup32_def by (simp add: unat_word_ariths(2) y del: of_nat_diff)
  moreover have "?n < 2 ^ 32" using n(1) assms(2) by linarith
  ultimately have "unat (roundup32 x y) = ?n" by simp
  then show "unat x \<le> unat (roundup32 x y)" "unat (roundup32 x y) < unat x + y" "y dvd unat (roundup32 x y)"
    using n assms(1) by (simp, linarith, simp)
qed

lemma copyin_fixed: "i386_copyin bs d n m = Some (r, m') \<Longrightarrow> memtop_copyin m' = memtop_copyin m"
  by (auto simp: i386_copyin_def bind_eq_Some_conv split: if_splits)

lemma bzero_fixed: "kern_bzero i386_copyin d n m = Some m' \<Longrightarrow> memtop_copyin m' = memtop_copyin m"
proof (induction n arbitrary: d m rule: less_induct)
  case (less n)
  show ?case
  proof (cases "n = 0")
    case False
    with less.prems obtain r m1 where
      "i386_copyin (replicate 256 0) d (min 256 n) m = Some (r, m1)" "kern_bzero i386_copyin (d + word_of_nat (min 256 n)) (n - min 256 n) m1 = Some m'"
      by (simp add: kern_bzero.simps [of i386_copyin d n m] Let_def bind_eq_Some_conv) blast
    then show ?thesis using less.IH [of "n - min 256 n"] copyin_fixed False by fastforce
  qed (use less.prems in \<open>simp add: kern_bzero.simps\<close>)
qed

lemma copyin_put:
  assumes "mem_ok m" "unat dest + n < unat (memtop m)" "n \<le> length src"
  shows "i386_copyin src dest n m = Some (int n, m\<lparr>ram := put (ram m) (unat dest) (take n src)\<rparr>)"
proof -
  have "unat dest + n < 2 ^ 32" using assms(2) unsigned_less [of "memtop m", where ?'a = nat] by simp
  then have "\<not> memtop m \<le> dest + word_of_nat n" using assms(2) u32_end [of dest n] by (simp add: word_le_nat_alt)
  then show ?thesis using assms by (simp add: i386_copyin_def mem_ok_def i386_mem_ok_def slice_def)
qed

lemma bzero_put:
  assumes "mem_ok m" "unat dest + n < unat (memtop m)"
  shows "kern_bzero i386_copyin dest n m = Some (m\<lparr>ram := put (ram m) (unat dest) (replicate n 0)\<rparr>)"
proof -
  have "unat dest + n < 2 ^ LENGTH(32)" using assms(2) unsigned_less [of "memtop m", where ?'a = nat] by simp
  from i386.bzero_effect [OF _ this, of m] assms obtain m' where m': "kern_bzero i386_copyin dest n m = Some m'"
    "unat (memtop m') = unat (memtop m)" "ram m' = put (ram m) (unat dest) (replicate n 0)"
    by (auto simp: mem_ok_def i386.zeroed_def)
  moreover have "memtop m' = memtop m" using m'(2) by (simp add: word_unat_eq_iff)
  then have "m' = m\<lparr>ram := ram m'\<rparr>" using bzero_fixed [OF m'(1)] by (cases m, cases m') simp
  ultimately show ?thesis by simp
qed

context open_image
begin

lemma load_segment_run:
  fixes ef ph
  defines "d \<equiv> seg_at ef ph" and "n \<equiv> max (ef_firstlen ef - unat (p_offset ph)) (unat (p_filesz ph))"
  assumes "seg_ok img ef (i_mem s) ph" "page_ok img ef" "mem_ok (i_mem s)"
  shows "\<exists>fd'. load_segment X ef ph s = Some (True,
    \<lparr>i_fd = fd',
     i_mem = (i_mem s)\<lparr>ram := put (put (ram (i_mem s)) d (take n (drop (unat (p_offset ph)) img))) (d + unat (p_filesz ph))
       (replicate (unat (p_memsz ph) - unat (p_filesz ph)) 0)\<rparr>,
     i_first = (if i_first s = 0 \<or> ucast (i_first s) > p_vaddr ph + ef_off ef then ucast (p_vaddr ph + ef_off ef) else i_first s),
     i_last = (if i_last s = 0 \<or> ucast (i_last s) < p_vaddr ph + ef_off ef + p_memsz ph
       then ucast (p_vaddr ph + ef_off ef + p_memsz ph) else i_last s)\<rparr>)"
proof -
  let ?m = "i_mem s" and ?off = "unat (p_offset ph)" and ?fs = "unat (p_filesz ph)" and ?ms = "unat (p_memsz ph)"
  let ?c = "ef_firstlen ef - ?off" and ?dest = "p_vaddr ph + ef_off ef"
  let ?m1 = "?m\<lparr>ram := put (ram ?m) d (take ?c (drop ?off img))\<rparr>"
  let ?m2 = "?m\<lparr>ram := put (ram ?m) d (take n (drop ?off img))\<rparr>"
  have ok: "d + max ?ms ?c < unat (memtop ?m)" "d + max ?ms ?c < unat (memtop_copyin ?m)" "?fs \<le> ?ms" "?off + ?fs \<le> length img" "length img < 2 ^ 32"
    using assms(3) by (auto simp: seg_ok_def seg_room_def d_def word_le_nat_alt)
  have top: "unat (memtop ?m) < 2 ^ 32" using unsigned_less [of "memtop ?m", where ?'a = nat] by simp
  have len: "unat (memtop ?m) \<le> length (ram ?m)" "unat (memtop_copyin ?m) \<le> length (ram ?m)"
    using assms(5) by (auto simp: mem_ok_def i386_mem_ok_def)
  have ud: "unat (ucast ?dest :: u32) = d" using ok(1) top by (simp add: unat_ucast32 d_def seg_at_def)
  have page: "take ?c (drop ?off (ef_firstpage ef)) = take ?c (drop ?off img)" if "?off < ef_firstlen ef"
  proof -
    have "take ?c (drop ?off xs) = drop ?off (take (ef_firstlen ef) xs)" for xs :: "byte list" by (simp add: drop_take)
    then show ?thesis using assms(4) by (simp add: page_ok_def)
  qed
  have 1: "(if ?off < ef_firstlen ef then map_option snd (i386_copyin (drop ?off (ef_firstpage ef)) (ucast ?dest) ?c ?m) else Some ?m) = Some ?m1"
    using copyin_put [OF assms(5), of "ucast ?dest" ?c "drop ?off (ef_firstpage ef)"] ud ok(1) page assms(4) by (auto simp: page_ok_def)
  have lc: "length (take ?c (drop ?off img)) = ?c" using assms(4) by (auto simp: page_ok_def)
  have 2: "\<exists>fd'. (if ?fs > ?c
      then kern_pread (x_lseek X) (x_readin X) (ucast (?dest + word_of_nat ?c)) (size32 (p_filesz ph - word_of_nat ?c)) (sint (p_offset ph + word_of_nat ?c)) (i_fd s) ?m1
      else Some (0, i_fd s, ?m1)) = Some (0, fd', ?m2)"
  proof (cases "?fs > ?c")
    case True
    have dest: "unat (ucast (?dest + word_of_nat ?c) :: u32) = d + ?c"
      using u64_add [of ?dest ?c] ok(1) top by (subst unat_ucast32) (simp_all add: d_def seg_at_def)
    have size: "size32 (p_filesz ph - word_of_nat ?c) = ?fs - ?c"
      using u64_sub [of ?c "p_filesz ph"] True ok by (simp add: size32_def unat_ucast32)
    have off: "sint (p_offset ph + word_of_nat ?c) = int (?off + ?c)"
      using u64_add [of "p_offset ph" ?c] True ok by (subst sint_u64) simp_all
    have "put (ram ?m1) (d + ?c) (take (?fs - ?c) (drop (?off + ?c) img)) = put (ram ?m) d (take n (drop ?off img))"
    proof -
      have n: "n = ?c + (?fs - ?c)" using True by (simp add: n_def)
      have "d + length (take ?c (drop ?off img)) \<le> length (ram ?m)" unfolding lc using ok(1) len(1) by simp
      from put_put_adjacent [OF this, of "take (?fs - ?c) (drop (?off + ?c) img)"] show ?thesis
        unfolding lc take_take_drop n [symmetric] by simp
    qed
    with pread_in [of "?off + ?c" "?fs - ?c" "ucast (?dest + word_of_nat ?c)" ?m1 "i_fd s"] True ok len lc
    show ?thesis unfolding dest size off by auto
  qed (simp add: n_def max_def)
  then obtain fd' where 2: "(if ?fs > ?c
      then kern_pread (x_lseek X) (x_readin X) (ucast (?dest + word_of_nat ?c)) (size32 (p_filesz ph - word_of_nat ?c)) (sint (p_offset ph + word_of_nat ?c)) (i_fd s) ?m1
      else Some (0, i_fd s, ?m1)) = Some (0, fd', ?m2)" by blast
  have "length (take n (drop ?off img)) \<le> max ?ms ?c" using ok(3) by (auto simp: n_def)
  then have "length (ram ?m2) = length (ram ?m)" using ok(1) len(1) by simp
  then have ok2: "mem_ok ?m2" using len by (simp add: mem_ok_def i386_mem_ok_def)
  have z: "unat (ucast (?dest + p_filesz ph) :: u32) = d + ?fs" "size32 (p_memsz ph - p_filesz ph) = ?ms - ?fs"
    using u64_add [of ?dest ?fs] u64_sub [of ?fs "p_memsz ph"] ok top by (simp_all add: size32_def unat_ucast32 d_def seg_at_def)
  have 3: "(if p_filesz ph < p_memsz ph then kern_bzero i386_copyin (ucast (?dest + p_filesz ph)) (size32 (p_memsz ph - p_filesz ph)) ?m2 else Some ?m2) =
      Some (?m\<lparr>ram := put (ram ?m2) (d + ?fs) (replicate (?ms - ?fs) 0)\<rparr>)"
    using bzero_put [OF ok2, of "ucast (?dest + p_filesz ph)" "?ms - ?fs"] z ok by (auto simp: word_less_nat_alt)
  show ?thesis unfolding load_segment_def Let_def using 1 2 3 by simp
qed

lemma load_segment_effect:
  assumes "seg_ok img ef (i_mem s) ph" "page_ok img ef" "mem_ok (i_mem s)"
  shows "\<exists>s'. load_segment X ef ph s = Some (True, s') \<and> mem_ok (i_mem s') \<and>
    memtop (i_mem s') = memtop (i_mem s) \<and> memtop_copyin (i_mem s') = memtop_copyin (i_mem s) \<and>
    length (ram (i_mem s')) = length (ram (i_mem s)) \<and>
    take (seg_at ef ph) (ram (i_mem s')) = take (seg_at ef ph) (ram (i_mem s)) \<and>
    (\<forall>k \<ge> seg_at ef ph + seg_room ef ph. drop k (ram (i_mem s')) = drop k (ram (i_mem s))) \<and>
    slice (ram (i_mem s')) (seg_at ef ph) (unat (p_memsz ph)) = Some (seg_bytes img ph) \<and>
    unat (i_first s') = (if i_first s = 0 \<or> unat (i_first s) > seg_at ef ph then seg_at ef ph else unat (i_first s)) \<and>
    unat (i_last s') = (if i_last s = 0 \<or> unat (i_last s) < seg_end ef ph then seg_end ef ph else unat (i_last s))"
proof -
  let ?fs = "unat (p_filesz ph)" and ?ms = "unat (p_memsz ph)" and ?off = "unat (p_offset ph)" and ?d = "seg_at ef ph"
  let ?n = "max (ef_firstlen ef - ?off) ?fs" and ?dest = "p_vaddr ph + ef_off ef"
  obtain fd' where run: "load_segment X ef ph s = Some (True,
    \<lparr>i_fd = fd',
     i_mem = (i_mem s)\<lparr>ram := put (put (ram (i_mem s)) ?d (take ?n (drop ?off img))) (?d + ?fs) (replicate (?ms - ?fs) 0)\<rparr>,
     i_first = (if i_first s = 0 \<or> ucast (i_first s) > ?dest then ucast ?dest else i_first s),
     i_last = (if i_last s = 0 \<or> ucast (i_last s) < ?dest + p_memsz ph then ucast (?dest + p_memsz ph) else i_last s)\<rparr>)"
    (is "_ = Some (True, ?s)") using load_segment_run [OF assms] by blast
  have ok: "?d + max ?ms (ef_firstlen ef - ?off) < unat (memtop (i_mem s))" "?fs \<le> ?ms" "?off + ?fs \<le> length img"
    using assms(1) by (auto simp: seg_ok_def seg_room_def word_le_nat_alt)
  have top: "unat (memtop (i_mem s)) < 2 ^ 32" "unat (memtop (i_mem s)) \<le> length (ram (i_mem s))"
    using unsigned_less [of "memtop (i_mem s)", where ?'a = nat] assms(3) by (auto simp: mem_ok_def i386_mem_ok_def)
  have "?d + max ?n ?ms \<le> length (ram (i_mem s))" "?off + ?n \<le> length img" using ok top assms(2) by (auto simp: page_ok_def)
  note P = segment_puts [OF refl this(1) _ ok(2) this(2)]
  have u: "unat (ucast ?dest :: u32) = ?d" "unat (?dest + p_memsz ph) = seg_end ef ph" "unat (ucast (?dest + p_memsz ph) :: u32) = seg_end ef ph"
    using ok(1) top(1) u64_add [of ?dest ?ms] by (simp_all add: unat_ucast32 seg_at_def seg_end_def)
  have lt: "(ucast x :: u64) < y \<longleftrightarrow> unat x < unat y" "(y < (ucast x :: u64)) \<longleftrightarrow> unat y < unat x" for x :: u32 and y
    by (simp_all add: word_less_nat_alt unsigned_ucast_eq take_bit_nat_eq_self order.strict_trans [OF unsigned_less])
  have "mem_ok (i_mem ?s)" using P(1) assms(3) by (simp add: mem_ok_def i386_mem_ok_def)
  moreover have "max ?n ?ms = seg_room ef ph" using ok(2) by (simp add: seg_room_def)
  ultimately show ?thesis unfolding run using P u by (simp add: lt seg_bytes_def seg_at_def)
qed

lemma load_segments_effect:
  assumes "mem_ok (i_mem s)" "page_ok img ef" "ascending ef phs" "\<forall>ph \<in> set (loads phs). seg_ok img ef (i_mem s) ph"
    "\<forall>ph \<in> set (loads phs). unat (i_first s) \<le> seg_at ef ph \<and> unat (i_last s) \<le> seg_at ef ph"
  shows "\<exists>s'. load_segments X ef phs s = Some (True, s') \<and> mem_ok (i_mem s') \<and>
    memtop (i_mem s') = memtop (i_mem s) \<and> memtop_copyin (i_mem s') = memtop_copyin (i_mem s) \<and>
    length (ram (i_mem s')) = length (ram (i_mem s)) \<and>
    (\<forall>a. (\<forall>ph \<in> set (loads phs). a \<le> seg_at ef ph) \<longrightarrow> take a (ram (i_mem s')) = take a (ram (i_mem s))) \<and>
    (\<forall>k. (\<forall>ph \<in> set (loads phs). seg_at ef ph + seg_room ef ph \<le> k) \<longrightarrow> drop k (ram (i_mem s')) = drop k (ram (i_mem s))) \<and>
    (\<forall>ph \<in> set (loads phs). slice (ram (i_mem s')) (seg_at ef ph) (unat (p_memsz ph)) = Some (seg_bytes img ph)) \<and>
    unat (i_first s') = (if i_first s = 0 \<and> loads phs \<noteq> [] then seg_at ef (hd (loads phs)) else unat (i_first s)) \<and>
    unat (i_last s') = (if loads phs = [] then unat (i_last s) else seg_end ef (last (loads phs)))"
  using assms(1,3-)
proof (induction phs arbitrary: s)
  case (Cons ph phs)
  show ?case
  proof (cases "p_type ph = PT_LOAD")
    case False
    then have L: "loads (ph # phs) = loads phs" "load_segments X ef (ph # phs) s = load_segments X ef phs s" by (simp_all add: loads_def)
    show ?thesis unfolding L by (rule Cons.IH) (use Cons.prems in \<open>simp_all add: L ascending_def\<close>)
  next
    case True
    then have L: "loads (ph # phs) = ph # loads phs" by (simp add: loads_def)
    have asc: "ascending ef phs" "\<forall>q \<in> set (loads phs). seg_end ef ph \<le> seg_at ef q"
      using Cons.prems(2) by (simp_all add: ascending_def L)
    have ok: "seg_ok img ef (i_mem s) ph" "0 < seg_at ef ph" using Cons.prems(3) by (auto simp: L seg_ok_def)
    have pre: "unat (i_first s) \<le> seg_at ef ph" "unat (i_last s) \<le> seg_at ef ph" using Cons.prems(4) by (auto simp: L)
    have se: "seg_at ef ph \<le> seg_end ef ph" by (simp add: seg_end_def)
    from load_segment_effect [OF ok(1) assms(2) Cons.prems(1)] obtain s1 where 1: "load_segment X ef ph s = Some (True, s1)"
      "mem_ok (i_mem s1)" "memtop (i_mem s1) = memtop (i_mem s)" "memtop_copyin (i_mem s1) = memtop_copyin (i_mem s)"
      "length (ram (i_mem s1)) = length (ram (i_mem s))" "take (seg_at ef ph) (ram (i_mem s1)) = take (seg_at ef ph) (ram (i_mem s))"
      "slice (ram (i_mem s1)) (seg_at ef ph) (unat (p_memsz ph)) = Some (seg_bytes img ph)"
      "unat (i_first s1) = (if i_first s = 0 then seg_at ef ph else unat (i_first s))" "unat (i_last s1) = seg_end ef ph"
      "\<forall>k \<ge> seg_at ef ph + seg_room ef ph. drop k (ram (i_mem s1)) = drop k (ram (i_mem s))"
      using pre se by (auto simp: unat_eq_0 split: if_splits)
    have "\<forall>q \<in> set (loads phs). seg_ok img ef (i_mem s1) q" using Cons.prems(3) 1(3,4) by (simp add: L seg_ok_def)
    moreover have "\<forall>q \<in> set (loads phs). unat (i_first s1) \<le> seg_at ef q \<and> unat (i_last s1) \<le> seg_at ef q"
      using 1(8,9) asc(2) pre(1) se by fastforce
    ultimately obtain s2 where 2: "load_segments X ef phs s1 = Some (True, s2)"
      "mem_ok (i_mem s2)" "memtop (i_mem s2) = memtop (i_mem s1)" "memtop_copyin (i_mem s2) = memtop_copyin (i_mem s1)"
      "length (ram (i_mem s2)) = length (ram (i_mem s1))"
      "\<forall>a. (\<forall>ph \<in> set (loads phs). a \<le> seg_at ef ph) \<longrightarrow> take a (ram (i_mem s2)) = take a (ram (i_mem s1))"
      "\<forall>ph \<in> set (loads phs). slice (ram (i_mem s2)) (seg_at ef ph) (unat (p_memsz ph)) = Some (seg_bytes img ph)"
      "unat (i_first s2) = (if i_first s1 = 0 \<and> loads phs \<noteq> [] then seg_at ef (hd (loads phs)) else unat (i_first s1))"
      "unat (i_last s2) = (if loads phs = [] then unat (i_last s1) else seg_end ef (last (loads phs)))"
      "\<forall>k. (\<forall>ph \<in> set (loads phs). seg_at ef ph + seg_room ef ph \<le> k) \<longrightarrow> drop k (ram (i_mem s2)) = drop k (ram (i_mem s1))"
      using Cons.IH [OF 1(2) asc(1)] by blast
    have "i_first s1 \<noteq> 0" using 1(8) ok(2) by (auto simp: unat_eq_0 split: if_splits)
    then have f: "unat (i_first s2) = (if i_first s = 0 then seg_at ef ph else unat (i_first s))" using 2(8) 1(8) by simp
    have below: "take a (ram (i_mem s2)) = take a (ram (i_mem s))" if "\<forall>p \<in> set (ph # loads phs). a \<le> seg_at ef p" for a
      using that 2(6) take_below [OF 1(6), of a] by simp
    have "take (seg_end ef ph) (ram (i_mem s2)) = take (seg_end ef ph) (ram (i_mem s1))" using 2(6) asc(2) by simp
    from slice_below [OF this 2(5), of "seg_at ef ph" "unat (p_memsz ph)"]
    have "slice (ram (i_mem s2)) (seg_at ef ph) (unat (p_memsz ph)) = Some (seg_bytes img ph)" using 1(7) by (simp add: seg_end_def)
    moreover have "drop k (ram (i_mem s2)) = drop k (ram (i_mem s))" if "\<forall>p \<in> set (ph # loads phs). seg_at ef p + seg_room ef p \<le> k" for k
      using that 1(10) 2(10) by simp
    ultimately show ?thesis using True 1(1,3-5,9) 2(1-5,7,9) f below by (simp add: L)
  qed
qed (simp add: loads_def)

lemma load_table_effect:
  assumes "mem_ok (i_mem s)" "0 < w" "sh_size w b i = Some sz" "sh_offset w b i = Some off" "unat off + unat sz \<le> length img" "length img < 2 ^ 32"
    "unat (i_last s) + w + unat sz < unat (memtop (i_mem s))" "unat (i_last s) + w + unat sz < unat (memtop_copyin (i_mem s))"
  shows "\<exists>fd'. load_table w X b i s = Some (True, s\<lparr>i_fd := fd',
    i_mem := (i_mem s)\<lparr>ram := put (ram (i_mem s)) (unat (i_last s)) (le_bytes w (unat sz) @ take (unat sz) (drop (unat off) img))\<rparr>,
    i_last := roundup32 (i_last s + word_of_nat (w + unat sz)) w\<rparr>)"
proof -
  let ?m = "i_mem s" and ?a = "i_last s" and ?T = "take (unat sz) (drop (unat off) img)"
  let ?m1 = "?m\<lparr>ram := put (ram ?m) (unat ?a) (le_bytes w (unat sz))\<rparr>"
  have top: "unat (memtop ?m) < 2 ^ 32" "unat (memtop ?m) \<le> length (ram ?m)" "unat (memtop_copyin ?m) \<le> length (ram ?m)"
    using unsigned_less [of "memtop ?m", where ?'a = nat] assms(1) by (auto simp: mem_ok_def i386_mem_ok_def)
  have 1: "i386_copyin (le_bytes w (unat sz)) ?a w ?m = Some (int w, ?m1)"
    using copyin_put [OF assms(1), of ?a w "le_bytes w (unat sz)"] assms(7) by simp
  have so: "sint off = int (unat off)" using assms(5,6) by (intro sint_u64) simp
  obtain fd1 where 2: "x_lseek X (i_fd s) (int (unat off)) = (int (unat off), fd1)" "pos fd1 = unat off"
    using seek [of "unat off" "i_fd s"] assms(5) by auto
  have ua: "unat (?a + word_of_nat w) = unat ?a + w" using assms(7) top by (intro u32_end) simp
  have ss: "size32 sz = unat sz" using assms(5,6) by (simp add: size32_def unat_ucast32)
  have l1: "length (ram ?m1) = length (ram ?m)" using assms(7) top by simp
  obtain fd2 where 3: "x_readin X (?a + word_of_nat w) (unat sz) fd1 ?m1 = Some (int (unat sz), fd2, ?m1\<lparr>ram := put (ram ?m1) (unat ?a + w) ?T\<rparr>)"
    using readin_in [of fd1 "unat sz" "?a + word_of_nat w" ?m1] assms(5,8) top 2(2) ua l1 by auto
  have "unat ?a + length (le_bytes w (unat sz)) \<le> length (ram ?m)" using assms(7) top by simp
  from put_put_adjacent [OF this, of ?T] have adj: "put (ram ?m1) (unat ?a + w) ?T = put (ram ?m) (unat ?a) (le_bytes w (unat sz) @ ?T)" by simp
  have "word_of_nat (unat sz) = (ucast sz :: u32)" by (simp add: word_of_nat_eq_iff unsigned_ucast_eq take_bit_nat_def)
  then have "?a + word_of_nat w + ucast sz = ?a + word_of_nat (w + unat sz)" by simp
  moreover have "uint off \<noteq> - 1" "\<not> uint sz < 0" using unsigned_greater_eq [of off, where ?'a = int] unsigned_greater_eq [of sz, where ?'a = int] by linarith+
  ultimately show ?thesis
    using 1 2(1) 3 adj ss by (simp add: load_table_def assms(3,4) so Let_def add.assoc) (rule exI, rule refl)
qed

lemma load_table_placed:
  assumes "mem_ok (i_mem s)" "0 < w" "sh_size w b i = Some sz" "sh_offset w b i = Some off" "unat off + unat sz \<le> length img" "length img < 2 ^ 32"
    "unat (i_last s) + 2 * w + unat sz < unat (memtop (i_mem s))" "unat (i_last s) + 2 * w + unat sz < unat (memtop_copyin (i_mem s))"
  obtains s' where "load_table w X b i s = Some (True, s')" "mem_ok (i_mem s')"
    "memtop (i_mem s') = memtop (i_mem s)" "memtop_copyin (i_mem s') = memtop_copyin (i_mem s)" "i_first s' = i_first s"
    "length (ram (i_mem s')) = length (ram (i_mem s))" "take (unat (i_last s)) (ram (i_mem s')) = take (unat (i_last s)) (ram (i_mem s))"
    "slice (ram (i_mem s')) (unat (i_last s)) (w + unat sz) = Some (table_bytes w img off sz)"
    "unat (i_last s) + w + unat sz \<le> unat (i_last s')" "unat (i_last s') < unat (i_last s) + 2 * w + unat sz"
    "\<forall>k \<ge> unat (i_last s'). drop k (ram (i_mem s')) = drop k (ram (i_mem s))"
proof -
  let ?m = "i_mem s" and ?a = "i_last s" and ?T = "table_bytes w img off sz"
  have top: "unat (memtop ?m) < 2 ^ 32" "unat (memtop ?m) \<le> length (ram ?m)"
    using unsigned_less [of "memtop ?m", where ?'a = nat] assms(1) by (auto simp: mem_ok_def i386_mem_ok_def)
  have "unat ?a + w + unat sz < unat (memtop ?m)" "unat ?a + w + unat sz < unat (memtop_copyin ?m)" using assms(7,8) by simp_all
  from load_table_effect [OF assms(1-6) this] obtain fd' where
    run: "load_table w X b i s = Some (True, s\<lparr>i_fd := fd', i_mem := ?m\<lparr>ram := put (ram ?m) (unat ?a) ?T\<rparr>,
      i_last := roundup32 (?a + word_of_nat (w + unat sz)) w\<rparr>)" unfolding table_bytes_def by blast
  have l: "length ?T = w + unat sz" using assms(5) by (simp add: table_bytes_def)
  have u: "unat (?a + word_of_nat (w + unat sz)) = unat ?a + (w + unat sz)" using assms(7) top by (intro u32_end) simp
  note r = roundup32_props [OF assms(2), of "?a + word_of_nat (w + unat sz)", unfolded u]
  have fits: "unat ?a + length ?T \<le> length (ram ?m)" using l assms(7) top by simp
  have sl: "slice (put (ram ?m) (unat ?a) ?T) (unat ?a) (w + unat sz) = Some ?T" using slice_put_same [OF fits] unfolding l .
  have tk: "take (unat ?a) (put (ram ?m) (unat ?a) ?T) = take (unat ?a) (ram ?m)" using fits by (simp add: put_def)
  have dr: "\<forall>k \<ge> unat ?a + (w + unat sz). drop k (put (ram ?m) (unat ?a) ?T) = drop k (ram ?m)"
    using drop_put_above [of "unat ?a" ?T _ "ram ?m"] l fits by simp
  show ?thesis
    by (rule that [OF run]) (use assms(1,7) top length_put [OF fits] sl tk r dr in \<open>simp_all add: mem_ok_def i386_mem_ok_def\<close>)
qed

lemma load_tables_effect:
  assumes "mem_ok (i_mem s)" "0 < w" "length img < 2 ^ 32" "\<And>n. x_malloc X n \<noteq> None"
    and t1: "sh_size w b st = Some z1" "sh_offset w b st = Some o1" "unat o1 + unat z1 \<le> length img"
    and t2: "sh_size w b ss = Some z2" "sh_offset w b ss = Some o2" "unat o2 + unat z2 \<le> length img"
    and room: "unat (i_last s) + unat z1 + unat z2 + 4 * w < unat (memtop (i_mem s))"
      "unat (i_last s) + unat z1 + unat z2 + 4 * w < unat (memtop_copyin (i_mem s))"
  shows "\<exists>s'. load_tables w X b st ss fp s =
      Some (fp\<lparr>f_metadata := meta MODINFOMD_ESYM (le_bytes w (unat (i_last s'))) # meta MODINFOMD_SSYM (le_bytes w (unat (i_last s))) # f_metadata fp\<rparr>, s') \<and>
    i_first s' = i_first s \<and> tables_placed w img (o1, z1) (o2, z2) (ram (i_mem s)) (ram (i_mem s')) (i_last s) (i_last s')"
proof -
  have "unat (i_last s) + 2 * w + unat z1 < unat (memtop (i_mem s))" "unat (i_last s) + 2 * w + unat z1 < unat (memtop_copyin (i_mem s))"
    using room by simp_all
  from load_table_placed [OF assms(1,2) t1 assms(3) this] obtain s1 where 1: "load_table w X b st s = Some (True, s1)" "mem_ok (i_mem s1)"
    "memtop (i_mem s1) = memtop (i_mem s)" "memtop_copyin (i_mem s1) = memtop_copyin (i_mem s)" "i_first s1 = i_first s"
    "length (ram (i_mem s1)) = length (ram (i_mem s))" "take (unat (i_last s)) (ram (i_mem s1)) = take (unat (i_last s)) (ram (i_mem s))"
    "slice (ram (i_mem s1)) (unat (i_last s)) (w + unat z1) = Some (table_bytes w img o1 z1)"
    "unat (i_last s) + w + unat z1 \<le> unat (i_last s1)" "unat (i_last s1) < unat (i_last s) + 2 * w + unat z1"
    "\<forall>k \<ge> unat (i_last s1). drop k (ram (i_mem s1)) = drop k (ram (i_mem s))" .
  have "unat (i_last s1) + 2 * w + unat z2 < unat (memtop (i_mem s1))" "unat (i_last s1) + 2 * w + unat z2 < unat (memtop_copyin (i_mem s1))"
    using room 1(3,4,10) by simp_all
  from load_table_placed [OF 1(2) assms(2) t2 assms(3) this] obtain s2 where 2: "load_table w X b ss s1 = Some (True, s2)" "mem_ok (i_mem s2)"
    "i_first s2 = i_first s1" "length (ram (i_mem s2)) = length (ram (i_mem s1))"
    "take (unat (i_last s1)) (ram (i_mem s2)) = take (unat (i_last s1)) (ram (i_mem s1))"
    "slice (ram (i_mem s2)) (unat (i_last s1)) (w + unat z2) = Some (table_bytes w img o2 z2)"
    "unat (i_last s1) + w + unat z2 \<le> unat (i_last s2)" "\<forall>k \<ge> unat (i_last s2). drop k (ram (i_mem s2)) = drop k (ram (i_mem s1))" by metis
  obtain b1 where "x_malloc X (31 + w) = Some b1" using assms(4) by blast
  then have run: "load_tables w X b st ss fp s =
      Some (fp\<lparr>f_metadata := meta MODINFOMD_ESYM (le_bytes w (unat (i_last s2))) # meta MODINFOMD_SSYM (le_bytes w (unat (i_last s))) # f_metadata fp\<rparr>, s2)"
    using 1(1) 2(1) by (simp add: load_tables_def file_addmetadata_def meta_def)
  have "slice (ram (i_mem s2)) (unat (i_last s)) (w + unat z1) = Some (table_bytes w img o1 z1)"
    using slice_below [OF 2(5,4), of "unat (i_last s)" "w + unat z1"] 1(8,9) by simp
  moreover have "take (unat (i_last s)) (ram (i_mem s2)) = take (unat (i_last s)) (ram (i_mem s))"
    using take_below [OF 2(5), of "unat (i_last s)"] 1(7,9) by simp
  ultimately have "tables_placed w img (o1, z1) (o2, z2) (ram (i_mem s)) (ram (i_mem s2)) (i_last s) (i_last s2)"
    unfolding tables_placed_def using 1(6,9,11) 2(4,6-8) by auto
  then show ?thesis using run 1(5) 2(3) by auto
qed

lemma alloc_pread_in:
  assumes "off + n \<le> length img" "alloc_ok (x_malloc X)" "x_malloc X n \<noteq> None"
  obtains fd' where "alloc_pread (x_malloc X) (x_lseek X) (x_read X) (int off) n fd = Some (Some (take n (drop off img)), fd')"
proof -
  obtain blk where blk: "x_malloc X n = Some blk" using assms(3) by blast
  then have lb: "length blk = n" using assms(2) by (simp add: alloc_ok_def)
  obtain fd1 where 1: "x_lseek X fd (int off) = (int off, fd1)" "pos fd1 = off" using seek [of off fd] assms(1) by auto
  have lt: "length (take n (drop off img)) = n" using assms(1) by simp
  obtain fd2 where 2: "x_read X fd1 n = (int n, take n (drop off img), fd2)" using read [of fd1 n] unfolding 1(2) lt by blast
  have "store blk 0 (take n (drop off img)) = Some (take n (drop off img))" using lb lt by (simp add: store_def put_def)
  with blk 1(1) 2 show ?thesis by (intro that [of fd2]) (simp add: alloc_pread_def)
qed

end

text \<open>The symbol table that \<^verbatim>\<open>loadimage\<close> chooses and its string table, as indices into the section headers.\<close>

definition symtab_found :: "nat \<Rightarrow> byte list \<Rightarrow> ehdr \<Rightarrow> phdr list \<Rightarrow> nat \<Rightarrow> nat \<Rightarrow> byte list \<Rightarrow> bool" where
  "symtab_found w img eh phs st ss b \<longleftrightarrow>
     (let chunk = unat (e_shnum eh) * unat (e_shentsize eh); off = unat (e_shoff eh)
      in off \<noteq> 0 \<and> chunk \<noteq> 0 \<and> off + chunk \<le> length img \<and>
         find_symtab w phs (unat (e_shnum eh)) 0 (take chunk (drop off img)) (-1) (-1) = Some (int st, int ss, b))"

context open_image
begin

lemma load_symbols_found:
  assumes "symtab_found w img eh phs st ss b" "length img < 2 ^ 32" "alloc_ok (x_malloc X)" "\<And>n. x_malloc X n \<noteq> None"
  obtains fd' where "load_symbols w X eh phs fp s = load_tables w X b st ss fp (s\<lparr>i_fd := fd'\<rparr>)"
proof -
  let ?n = "unat (e_shnum eh) * unat (e_shentsize eh)" and ?o = "unat (e_shoff eh)"
  have sy: "?o \<noteq> 0" "?n \<noteq> 0" "?o + ?n \<le> length img"
    "find_symtab w phs (unat (e_shnum eh)) 0 (take ?n (drop ?o img)) (-1) (-1) = Some (int st, int ss, b)"
    using assms(1) by (simp_all add: symtab_found_def Let_def)
  have so: "sint (e_shoff eh) = int ?o" using sy(3) assms(2) by (intro sint_u64) simp
  obtain fd' where a: "alloc_pread (x_malloc X) (x_lseek X) (x_read X) (int ?o) ?n (i_fd s) = Some (Some (take ?n (drop ?o img)), fd')"
    using alloc_pread_in [OF sy(3) assms(3,4)] .
  have ne: "\<not> (?n = 0 \<or> e_shoff eh = 0)" using sy(1,2) by (auto simp: unat_eq_0)
  show ?thesis by (rule that [of fd']) (use a sy(4) ne in \<open>auto simp: load_symbols_def Let_def so\<close>)
qed

end

section \<open>A kernel\<close>

lemma slice_prefix:
  assumes "take n p = take n q" "n \<le> length p" "n \<le> length q" "off + k \<le> n"
  shows "slice p off k = slice q off k"
proof -
  have "take k (drop off p) = take k (drop off q)" using take_below [OF assms(1,4)] by (simp add: take_drop add.commute)
  then show ?thesis using assms(2-) by (simp add: slice_def)
qed

lemma le_field_prefix:
  assumes "take n p = take n q" "n \<le> length p" "n \<le> length q"
  shows "off + k \<le> n \<Longrightarrow> le_field p off k = (le_field q off k :: 'a::len word option)"
  using slice_prefix [OF assms] by (simp add: le_field_def)

lemma read_ehdr_prefix:
  assumes "take n p = take n q" "n \<le> length p" "n \<le> length q" "ehdr_size w \<le> n"
  shows "read_ehdr w p = read_ehdr w q"
  using le_field_prefix [OF assms(1-3), where ?'a = 64] assms(4) by (simp add: read_ehdr_def ehdr_size_def)

lemma read_phdr_prefix:
  assumes "take n p = take n q" "n \<le> length p" "n \<le> length q" "w = 4 \<or> w = 8" "a + phdr_size w \<le> n"
  shows "read_phdr w p a = read_phdr w q a"
  using le_field_prefix [OF assms(1-3), where ?'a = 64] assms(4,5) by (auto simp: read_phdr_def phdr_size_def)

lemma read_phdrs_prefix:
  assumes "take n p = take n q" "n \<le> length p" "n \<le> length q" "w = 4 \<or> w = 8"
  shows "a + k * phdr_size w \<le> n \<Longrightarrow> elf_phdrs w p a k = elf_phdrs w q a k"
proof (induction k arbitrary: a)
  case (Suc k)
  then show ?case using read_phdr_prefix [OF assms, of a] by simp
qed simp

lemma seg_same:
  assumes "ef_off ef = ef_off ef'" "ef_firstlen ef = ef_firstlen ef'"
  shows "seg_at ef = seg_at ef'" "seg_end ef = seg_end ef'" "seg_room ef = seg_room ef'" "seg_ok img ef = seg_ok img ef'" "ascending ef = ascending ef'"
  using assms by (simp_all add: fun_eq_iff seg_at_def seg_end_def seg_room_def seg_ok_def ascending_def)

text \<open>The destination of a kernel, and the description that its segments are measured with.\<close>

definition kernel_ef :: "nat \<Rightarrow> byte list \<Rightarrow> ehdr \<Rightarrow> elf_file" where
  "kernel_ef w img eh =
     (new_elf_file img (min PAGE_SIZE (length img)) True)\<lparr>ef_off := kernel_off w (roundup_page64 (e_entry eh AND NOT 0xfff))\<rparr>"

text \<open>A well-formed image of a kernel without dynamic section: the headers in the first page, the segments ascending and inside the file.\<close>

definition kernel_image :: "nat \<Rightarrow> byte list \<Rightarrow> ehdr \<Rightarrow> phdr list \<Rightarrow> i386_mem \<Rightarrow> bool" where
  "kernel_image w img eh phs m \<longleftrightarrow>
     (w = 4 \<or> w = 8) \<and> length img < 2 ^ 32 \<and> ehdr_size w < length img \<and>
     read_ehdr w img = Some eh \<and> is_elf w img eh \<and> e_type eh = ET_EXEC \<and> e_entry eh AND NOT 0xfff \<noteq> 0 \<and>
     unat (e_phoff eh) + unat (e_phnum eh) * phdr_size w \<le> min PAGE_SIZE (length img) \<and>
     elf_phdrs w img (unat (e_phoff eh)) (unat (e_phnum eh)) = Some phs \<and>
     (\<forall>ph \<in> set phs. p_type ph \<noteq> PT_DYNAMIC) \<and>
     loads phs \<noteq> [] \<and> ascending (kernel_ef w img eh) phs \<and> (\<forall>ph \<in> set (loads phs). seg_ok img (kernel_ef w img eh) m ph) \<and>
     0 < unat (p_memsz (last (loads phs)))"

definition kernel_end :: "nat \<Rightarrow> byte list \<Rightarrow> ehdr \<Rightarrow> phdr list \<Rightarrow> nat" where
  "kernel_end w img eh phs = seg_end (kernel_ef w img eh) (last (loads phs))"

lemma ascending_bounds:
  assumes "sorted_wrt (\<lambda>p q. seg_end ef p \<le> seg_at ef q) ls" "ph \<in> set ls"
  shows "seg_at ef (hd ls) \<le> seg_at ef ph" "seg_end ef ph \<le> seg_end ef (last ls)"
proof -
  have le: "seg_at ef p \<le> seg_end ef p" for p by (simp add: seg_end_def)
  show "seg_at ef (hd ls) \<le> seg_at ef ph" using assms le by (cases ls) (auto intro: order_trans)
  show "seg_end ef ph \<le> seg_end ef (last ls)" using assms
  proof (induction ls)
    case (Cons q ls)
    show ?case
    proof (cases "ph = q \<and> ls \<noteq> []")
      case True
      then have "seg_end ef ph \<le> seg_at ef (last ls)" using Cons.prems(1) by simp
      then show ?thesis using le [of "last ls"] True by simp
    qed (use Cons in auto)
  qed simp
qed

lemma phoff_fits:
  assumes "w = 4 \<or> w = 8" "unat ph + unat n * phdr_size w \<le> k" "k \<le> 4096"
  shows "\<not> word_of_nat k < cut w (ph + n * word_of_nat (phdr_size w))"
proof -
  let ?x = "ph + n * word_of_nat (phdr_size w)"
  have small: "unat n * phdr_size w < 2 ^ 64" "unat ph + unat n * phdr_size w < 2 ^ 64" using assms(2,3) by simp_all
  have sz: "unat (word_of_nat (phdr_size w) :: u64) = phdr_size w" by (simp add: phdr_size_def)
  have "unat ?x = unat ph + unat n * phdr_size w" using small by (simp add: unat_word_ariths sz)
  then have "unat ?x \<le> k" using assms(2) by simp
  moreover have "unat (cut w ?x) \<le> unat ?x" by (simp add: cut_def unsigned_take_bit_eq)
  moreover have "unat (word_of_nat k :: u64) = k" using assms(3) by (simp add: unat_of_nat)
  ultimately show ?thesis by (simp add: word_less_nat_alt)
qed

definition tables_ok :: "nat \<Rightarrow> byte list \<Rightarrow> ehdr \<Rightarrow> phdr list \<Rightarrow> i386_mem \<Rightarrow> u64 \<times> u64 \<Rightarrow> u64 \<times> u64 \<Rightarrow> bool" where
  "tables_ok w img eh phs m t1 t2 \<longleftrightarrow>
     (\<exists>st ss b. symtab_found w img eh phs st ss b \<and> sh_offset w b st = Some (fst t1) \<and> sh_size w b st = Some (snd t1) \<and>
        sh_offset w b ss = Some (fst t2) \<and> sh_size w b ss = Some (snd t2)) \<and>
     unat (fst t1) + unat (snd t1) \<le> length img \<and> unat (fst t2) + unat (snd t2) \<le> length img \<and>
     kernel_end w img eh phs + 4 + unat (snd t1) + unat (snd t2) + 4 * w < unat (memtop m) \<and>
     kernel_end w img eh phs + 4 + unat (snd t1) + unat (snd t2) + 4 * w < unat (memtop_copyin m)"

text \<open>What is in memory after the load: \<open>R\<close> before, \<open>R'\<close> after.\<close>

definition kernel_placed ::
  "nat \<Rightarrow> byte list \<Rightarrow> ehdr \<Rightarrow> phdr list \<Rightarrow> u64 \<times> u64 \<Rightarrow> u64 \<times> u64 \<Rightarrow> byte list \<Rightarrow> byte list \<Rightarrow> u32 \<Rightarrow> u32 \<Rightarrow> bool" where
  "kernel_placed w img eh phs t1 t2 R R' ssym esym \<longleftrightarrow>
     (\<forall>ph \<in> set (loads phs). slice R' (seg_at (kernel_ef w img eh) ph) (unat (p_memsz ph)) = Some (seg_bytes img ph)) \<and>
     take (seg_at (kernel_ef w img eh) (hd (loads phs))) R' = take (seg_at (kernel_ef w img eh) (hd (loads phs))) R \<and>
     (\<forall>k \<ge> unat esym. (\<forall>ph \<in> set (loads phs). seg_at (kernel_ef w img eh) ph + seg_room (kernel_ef w img eh) ph \<le> k) \<longrightarrow> drop k R' = drop k R) \<and>
     kernel_end w img eh phs \<le> unat ssym \<and>
     (\<exists>R1. tables_placed w img t1 t2 R1 R' ssym esym)"

definition kernel_file :: "nat \<Rightarrow> byte list \<Rightarrow> byte list \<Rightarrow> u32 \<Rightarrow> u32 \<Rightarrow> u32 \<Rightarrow> preloaded_file" where
  "kernel_file w img name first ssym esym =
     \<lparr>f_name = name, f_type = kerneltype, f_args = None,
      f_metadata = [meta MODINFOMD_ELFHDR (take (ehdr_size w) img), meta MODINFOMD_ESYM (le_bytes w (unat esym)),
        meta MODINFOMD_SSYM (le_bytes w (unat ssym))],
      f_loader = 0, f_addr = ucast first, f_size = ucast (esym - first), f_modules = []\<rparr>"

context open_image
begin

lemma load_symbols_placed:
  assumes "tables_ok w img eh phs m t1 t2" "0 < w" "length img < 2 ^ 32" "alloc_ok (x_malloc X)" "\<And>n. x_malloc X n \<noteq> None"
    and "mem_ok (i_mem s)" "memtop (i_mem s) = memtop m" "memtop_copyin (i_mem s) = memtop_copyin m"
    and "unat (i_last s) < kernel_end w img eh phs + 4"
  shows "\<exists>s'. load_symbols w X eh phs fp s =
      Some (fp\<lparr>f_metadata := meta MODINFOMD_ESYM (le_bytes w (unat (i_last s'))) # meta MODINFOMD_SSYM (le_bytes w (unat (i_last s))) # f_metadata fp\<rparr>, s') \<and>
    i_first s' = i_first s \<and> tables_placed w img t1 t2 (ram (i_mem s)) (ram (i_mem s')) (i_last s) (i_last s')"
proof -
  obtain st ss b where sy: "symtab_found w img eh phs st ss b" "sh_size w b st = Some (snd t1)" "sh_offset w b st = Some (fst t1)"
    "unat (fst t1) + unat (snd t1) \<le> length img" "sh_size w b ss = Some (snd t2)" "sh_offset w b ss = Some (fst t2)"
    "unat (fst t2) + unat (snd t2) \<le> length img" using assms(1) by (auto simp: tables_ok_def)
  obtain fd' where run: "load_symbols w X eh phs fp s = load_tables w X b st ss fp (s\<lparr>i_fd := fd'\<rparr>)"
    using load_symbols_found [OF sy(1) assms(3-5)] .
  have "mem_ok (i_mem (s\<lparr>i_fd := fd'\<rparr>))" using assms(6) by simp
  note * = load_tables_effect [where fp = fp, OF this assms(2,3,5) sy(2-7)]
  show ?thesis using * assms(1,7-9) unfolding run by (simp add: tables_ok_def)
qed

lemma loadimage_kernel:
  assumes K: "kernel_image w img eh phs m" and T: "tables_ok w img eh phs m t1 t2" and m: "mem_ok m"
    and alloc: "alloc_ok (x_malloc X)" "\<And>n. x_malloc X n \<noteq> None"
    and ef: "ef = new_elf_file page (min PAGE_SIZE (length img)) True"
    and page: "take (min PAGE_SIZE (length img)) page = take (min PAGE_SIZE (length img)) img" "PAGE_SIZE \<le> length page"
  obtains first ssym esym m' where
    "loadimage w X eh ef (roundup_page64 (e_entry eh AND NOT 0xfff)) fp fd m = Some (esym - first,
       fp\<lparr>f_addr := ucast first, f_metadata := meta MODINFOMD_ESYM (le_bytes w (unat esym)) # meta MODINFOMD_SSYM (le_bytes w (unat ssym)) # f_metadata fp\<rparr>, m')"
    "kernel_placed w img eh phs t1 t2 (ram m) (ram m') ssym esym" "unat first = seg_at (kernel_ef w img eh) (hd (loads phs))"
proof -
  let ?E = "kernel_ef w img eh" and ?N = "min PAGE_SIZE (length img)"
  define D where "D = roundup_page64 (e_entry eh AND NOT 0xfff)"
  define e where "e = ef\<lparr>ef_off := kernel_off w D\<rparr>"
  have same: "seg_at e = seg_at ?E" "seg_end e = seg_end ?E" "seg_room e = seg_room ?E" "seg_ok img e = seg_ok img ?E" "ascending e = ascending ?E"
    using seg_same [of e ?E] by (simp_all add: e_def D_def ef kernel_ef_def new_elf_file_def)
  have w: "w = 4 \<or> w = 8" "0 < w" and li: "length img < 2 ^ 32" and le: "loads phs \<noteq> []" using K by (auto simp: kernel_image_def)
  have pok: "page_ok img e" using page by (simp add: page_ok_def e_def ef new_elf_file_def)
  have ph: "elf_phdrs w page (unat (e_phoff eh)) (unat (e_phnum eh)) = Some phs"
    using read_phdrs_prefix [OF page(1) _ _ w(1)] page(2) K by (simp add: kernel_image_def)
  have fits: "\<not> word_of_nat ?N < cut w (e_phoff eh + e_phnum eh * word_of_nat (phdr_size w))"
    using K by (intro phoff_fits [OF w(1)]) (simp_all add: kernel_image_def PAGE_SIZE_def)
  let ?s0 = "\<lparr>i_fd = fd, i_mem = m, i_first = 0, i_last = 0\<rparr>"
  obtain s1 where 1: "load_segments X e phs ?s0 = Some (True, s1)" "mem_ok (i_mem s1)" "memtop (i_mem s1) = memtop m"
    "memtop_copyin (i_mem s1) = memtop_copyin m" "length (ram (i_mem s1)) = length (ram m)"
    "\<forall>a. (\<forall>ph \<in> set (loads phs). a \<le> seg_at ?E ph) \<longrightarrow> take a (ram (i_mem s1)) = take a (ram m)"
    "\<forall>ph \<in> set (loads phs). slice (ram (i_mem s1)) (seg_at ?E ph) (unat (p_memsz ph)) = Some (seg_bytes img ph)"
    "unat (i_first s1) = seg_at ?E (hd (loads phs))" "unat (i_last s1) = kernel_end w img eh phs"
    "\<forall>k. (\<forall>ph \<in> set (loads phs). seg_at ?E ph + seg_room ?E ph \<le> k) \<longrightarrow> drop k (ram (i_mem s1)) = drop k (ram m)"
    using load_segments_effect [of ?s0 e phs] m pok K le by (auto simp: kernel_image_def same kernel_end_def)
  let ?s1 = "s1\<lparr>i_last := roundup32 (i_last s1) LONG_SIZE\<rparr>"
  have T': "kernel_end w img eh phs + 4 + unat (snd t1) + unat (snd t2) + 4 * w < unat (memtop m)"
      "kernel_end w img eh phs + 4 + unat (snd t1) + unat (snd t2) + 4 * w < unat (memtop_copyin m)" using T by (simp_all add: tables_ok_def)
  have top: "unat (memtop m) < 2 ^ 32" using unsigned_less [of "memtop m", where ?'a = nat] by simp
  have r: "kernel_end w img eh phs \<le> unat (i_last ?s1)" "unat (i_last ?s1) < kernel_end w img eh phs + 4"
    using roundup32_props [of LONG_SIZE "i_last s1"] 1(9) T' top by (simp_all add: LONG_SIZE_def)
  obtain s2 where 2: "load_symbols w X eh phs fp ?s1 =
      Some (fp\<lparr>f_metadata := meta MODINFOMD_ESYM (le_bytes w (unat (i_last s2))) # meta MODINFOMD_SSYM (le_bytes w (unat (i_last ?s1))) # f_metadata fp\<rparr>, s2)"
    "i_first s2 = i_first s1" "tables_placed w img t1 t2 (ram (i_mem s1)) (ram (i_mem s2)) (i_last ?s1) (i_last s2)"
    using load_symbols_placed [OF T w(2) li alloc, of ?s1 fp] 1(2-4) r(2) by auto
  have K': "\<forall>ph \<in> set phs. p_type ph \<noteq> PT_DYNAMIC" "sorted_wrt (\<lambda>p q. seg_end ?E p \<le> seg_at ?E q) (loads phs)"
    using K by (simp_all add: kernel_image_def ascending_def)
  have tp: "length (ram (i_mem s2)) = length (ram (i_mem s1))"
      "take (unat (i_last ?s1)) (ram (i_mem s2)) = take (unat (i_last ?s1)) (ram (i_mem s1))"
      "\<forall>k \<ge> unat (i_last s2). drop k (ram (i_mem s2)) = drop k (ram (i_mem s1))" using 2(3) by (simp_all add: tables_placed_def)
  have bd: "seg_at ?E (hd (loads phs)) \<le> seg_at ?E ph" "seg_end ?E ph \<le> unat (i_last ?s1)" if "ph \<in> set (loads phs)" for ph
    using ascending_bounds [OF K'(2) that] r(1) by (simp_all add: kernel_end_def)
  have "slice (ram (i_mem s2)) (seg_at ?E ph) (unat (p_memsz ph)) = Some (seg_bytes img ph)" if "ph \<in> set (loads phs)" for ph
    using slice_below [OF tp(2,1), of "seg_at ?E ph" "unat (p_memsz ph)"] bd(2) [OF that] 1(7) that by (simp add: seg_end_def)
  moreover have "take (seg_at ?E (hd (loads phs))) (ram (i_mem s2)) = take (seg_at ?E (hd (loads phs))) (ram m)"
  proof -
    have "seg_at ?E (hd (loads phs)) \<le> unat (i_last ?s1)" using bd(2) [of "hd (loads phs)"] le by (simp add: seg_end_def)
    from take_below [OF tp(2) this] show ?thesis using 1(6) bd(1) by simp
  qed
  ultimately have placed: "kernel_placed w img eh phs t1 t2 (ram m) (ram (i_mem s2)) (i_last ?s1) (i_last s2)"
    unfolding kernel_placed_def using r(1) 2(3) tp(3) 1(10) by simp blast
  have dyn: "load_dynamic w X M e phs f = Some f" for M f
  proof -
    have "find (\<lambda>ph. p_type ph = PT_DYNAMIC) phs = None" using K'(1) by (simp add: find_None_iff)
    then show ?thesis by (simp add: load_dynamic_def)
  qed
  have "ef_kernel ef" "ef_firstlen ef = ?N" "ef_firstpage ef = page" by (simp_all add: ef new_elf_file_def)
  then have "loadimage w X eh ef (roundup_page64 (e_entry eh AND NOT 0xfff)) fp fd m = Some (i_last s2 - i_first s1,
      fp\<lparr>f_addr := ucast (i_first s1), f_metadata := meta MODINFOMD_ESYM (le_bytes w (unat (i_last s2))) # meta MODINFOMD_SSYM (le_bytes w (unat (i_last ?s1))) # f_metadata fp\<rparr>, i_mem s2)"
    using fits ph 1(1) 2(1,2) dyn unfolding loadimage_def Let_def D_def [symmetric] e_def by simp
  then show ?thesis using placed 1(8) by (rule that)
qed

end

text \<open>
  C11: a kernel is loaded.  For a well-formed image of 32 or 64 bits without dynamic section (no \<^verbatim>\<open>PT_DYNAMIC\<close>), with ascending
  segments and a symbol table outside of them, with memory for all of it, the loader returns a file that describes it:
  every loadable segment is in memory at its address minus the offset of the kernel, zeroed behind its data; the symbol
  and string tables follow, each behind its size; the file's address and size span all of this, its metadata hold the
  header and the ends of the tables.  Memory below the first segment does not change, and above it changes at most up
  to the end of the tables and to where the rest of the first page of the file, copied with each segment that starts
  in that page (\<open>seg_room\<close>), ends.
\<close>

theorem elf_kernel_loaded:
  assumes "open_image X img pos" "x_open X name = Inr fd" "pos fd = 0" "alloc_ok (x_malloc X)" "\<forall>n. x_malloc X n \<noteq> None"
    and "kernel_image w img eh phs m" "tables_ok w img eh phs m t1 t2" "mem_ok m"
  shows "\<exists>first ssym esym m'. elf_loadfile w X [] (Some name) dest m = Some (Inr (kernel_file w img name first ssym esym), True, m') \<and>
    unat first = seg_at (kernel_ef w img eh) (hd (loads phs)) \<and> kernel_placed w img eh phs t1 t2 (ram m) (ram m') ssym esym"
proof -
  let ?N = "min PAGE_SIZE (length img)"
  have alloc: "x_malloc X n \<noteq> None" for n using assms(5) by blast
  obtain blk where blk: "x_malloc X PAGE_SIZE = Some blk" using alloc by blast
  have lb: "length blk = PAGE_SIZE" using blk assms(4) by (simp add: alloc_ok_def)
  let ?page = "put blk 0 (take PAGE_SIZE img)"
  obtain fd1 where rd: "x_read X fd PAGE_SIZE = (int ?N, take PAGE_SIZE img, fd1)"
    using open_image.read [OF assms(1), of fd PAGE_SIZE] assms(3) by (auto simp: min.commute)
  have st: "store blk 0 (take PAGE_SIZE img) = Some ?page" using lb by simp
  have page: "take ?N ?page = take ?N img" "PAGE_SIZE \<le> length ?page" using lb by (simp_all add: put_def min_def)
  have K: "w = 4 \<or> w = 8" "ehdr_size w < length img" "read_ehdr w img = Some eh" "is_elf w img eh" "e_type eh = ET_EXEC"
    "e_entry eh AND NOT 0xfff \<noteq> 0" using assms(6) by (simp_all add: kernel_image_def)
  have N: "ehdr_size w < ?N" "8 \<le> ?N" using K(1,2) by (auto simp: ehdr_size_def PAGE_SIZE_def)
  have eh: "read_ehdr w ?page = Some eh" using read_ehdr_prefix [OF page(1), of w] N page(2) K(3) by simp
  have "take 4 ?page = take 4 img" "take 3 (drop 4 ?page) = take 3 (drop 4 img)"
    using take_below [OF page(1), of 4] take_below [OF page(1), of 7] N(2) by (simp_all add: take_drop)
  then have elf: "is_elf w ?page eh" using K(4) by (simp add: is_elf_def)
  have kind: "module_kind eh [] dest = Inr (True, e_entry eh AND NOT 0xfff)"
    using K(5,6) by (simp add: module_kind_def ET_EXEC_def ET_DYN_def Let_def)
  let ?fp = "\<lparr>f_name = name, f_type = kerneltype, f_args = None, f_metadata = [], f_loader = 0, f_addr = 0, f_size = 0, f_modules = []\<rparr>"
  obtain first ssym esym m' where
    li: "loadimage w X eh (new_elf_file ?page ?N True) (roundup_page64 (e_entry eh AND NOT 0xfff)) ?fp fd1 m = Some (esym - first,
       ?fp\<lparr>f_addr := ucast first, f_metadata := meta MODINFOMD_ESYM (le_bytes w (unat esym)) # meta MODINFOMD_SSYM (le_bytes w (unat ssym)) # f_metadata ?fp\<rparr>, m')"
    "kernel_placed w img eh phs t1 t2 (ram m) (ram m') ssym esym" "unat first = seg_at (kernel_ef w img eh) (hd (loads phs))"
    using open_image.loadimage_kernel [OF assms(1,6-8,4) alloc refl page] .
  obtain a where "unat ssym + w + unat (snd t1) \<le> a" "a + w + unat (snd t2) \<le> unat esym"
    using li(2) by (auto simp: kernel_placed_def tables_placed_def)
  moreover have "unat first \<le> kernel_end w img eh phs"
    using li(3) ascending_bounds(2) [of "kernel_ef w img eh" "loads phs" "hd (loads phs)"] assms(6)
    by (auto simp: kernel_end_def kernel_image_def ascending_def seg_end_def)
  moreover have "kernel_end w img eh phs \<le> unat ssym" using li(2) by (simp add: kernel_placed_def)
  ultimately have "esym \<noteq> first" using K(1) by auto
  moreover have "0 < unat first" using li(3) assms(6) hd_in_set [of "loads phs"] by (auto simp: kernel_image_def seg_ok_def)
  moreover have "unat (ucast first :: u64) = unat first"
    using unsigned_less [of first, where ?'a = nat] by (simp add: unsigned_ucast_eq take_bit_nat_eq_self)
  ultimately have "esym \<noteq> first" "(ucast first :: u64) \<noteq> 0" by auto
  moreover have "slice ?page 0 (ehdr_size w) = Some (take (ehdr_size w) img)"
    using take_below [OF page(1), of "ehdr_size w"] N(1) page(2) by (simp add: slice_def)
  moreover obtain b1 b2 b3 b4 where "x_malloc X 36 = Some b1" "x_malloc X (length name + 1) = Some b2"
    "x_malloc X (length kerneltype + 1) = Some b3" "x_malloc X (31 + ehdr_size w) = Some b4" using alloc by (meson not_None_eq)
  ultimately have "load_elf_file w X name eh ?page ?N True (e_entry eh AND NOT 0xfff) fd1 m =
      Some (Inr (kernel_file w img name first ssym esym), True, m')"
    using li(1) N(1) by (simp add: load_elf_file_def strdup_def file_addmetadata_def kernel_file_def meta_def)
  then have "elf_loadfile w X [] (Some name) dest m = Some (Inr (kernel_file w img name first ssym esym), True, m')"
    using assms(2) blk rd st eh elf kind N(1) by (simp add: elf_loadfile_def not_le)
  then show ?thesis using li(2,3) by blast
qed

section \<open>A concrete file\<close>

definition file_sys :: "byte list \<Rightarrow> nat elf_sys" where
  "file_sys img = \<lparr>x_malloc = demo_alloc, x_open = (\<lambda>_. Inr 0), x_lseek = (\<lambda>fd off. (off, nat off)),
     x_read = (\<lambda>fd n. let bs = take n (drop fd img) in (int (length bs), bs, fd + length bs)), x_junk = 0\<rparr>"

interpretation plain: open_image "file_sys img" img "\<lambda>fd. fd"
  by unfold_locales (simp_all add: file_sys_def Let_def)

definition demo_image :: "byte list" where
  "demo_image = [
      127, 69, 76, 70, 1, 1, 1, 0, 0, 0, 0, 0, 0, 0, 0, 0, 2, 0, 3, 0, 1, 0, 0, 0, 0, 16, 0, 192, 52, 0, 0, 0, 108, 0, 0, 0,
      0, 0, 0, 0, 52, 0, 32, 0, 1, 0, 40, 0, 2, 0, 0, 0, 1, 0, 0, 0, 84, 0, 0, 0, 0, 16, 0, 192, 0, 16, 0, 192, 4, 0, 0, 0, 8,
      0, 0, 0, 5, 0, 0, 0, 0, 16, 0, 0, 222, 173, 190, 239, 0, 0, 0, 0, 0, 0, 0, 0, 0, 0, 0, 0, 0, 0, 0, 0, 0, 109, 120, 0, 1,
      0, 0, 0, 2, 0, 0, 0, 0, 0, 0, 0, 0, 0, 0, 0, 88, 0, 0, 0, 16, 0, 0, 0, 1, 0, 0, 0, 0, 0, 0, 0, 4, 0, 0, 0, 16, 0, 0, 0,
      2, 0, 0, 0, 3, 0, 0, 0, 0, 0, 0, 0, 0, 0, 0, 0, 104, 0, 0, 0, 4, 0, 0, 0, 0, 0, 0, 0, 0, 0, 0, 0, 1, 0, 0, 0, 0, 0, 0, 0]"

definition demo_ehdr :: ehdr where
  "demo_ehdr = \<lparr>e_type = 2, e_machine = 3, e_version = 1, e_entry = 0xC0001000, e_phoff = 52, e_shoff = 108, e_phnum = 1,
     e_shentsize = 40, e_shnum = 2\<rparr>"

definition demo_phdr :: phdr where
  "demo_phdr = \<lparr>p_type = 1, p_offset = 84, p_vaddr = 0xC0001000, p_filesz = 4, p_memsz = 8\<rparr>"

definition demo_low :: i386_mem where
  "demo_low = \<lparr>memtop = 0x2000, memtop_copyin = 0x2000, ram = replicate 0x2000 0\<rparr>"

lemma demo_low_ok: "mem_ok demo_low"
  by (simp add: mem_ok_def i386_mem_ok_def demo_low_def)

lemma demo_read: "read_ehdr 4 demo_image = Some demo_ehdr" "elf_phdrs 4 demo_image 52 1 = Some [demo_phdr]"
  by (simp_all add: read_ehdr_def read_phdr_def le_field_def slice_def demo_image_def demo_ehdr_def demo_phdr_def)

lemma demo_seg: "seg_at (kernel_ef 4 demo_image demo_ehdr) demo_phdr = 0x1000" "loads [demo_phdr] = [demo_phdr]"
  by (simp_all add: seg_at_def kernel_ef_def new_elf_file_def kernel_off_def roundup_page64_def demo_ehdr_def demo_phdr_def loads_def PT_LOAD_def)

lemma demo_length: "length demo_image = 188"
  by (simp add: demo_image_def)

lemma demo_firstlen: "ef_firstlen (kernel_ef 4 demo_image demo_ehdr) = 188"
  by (simp add: kernel_ef_def new_elf_file_def demo_length PAGE_SIZE_def)

lemma demo_kernel_image: "kernel_image 4 demo_image demo_ehdr [demo_phdr] demo_low"
proof -
  have "is_elf 4 demo_image demo_ehdr"
    by (simp add: is_elf_def demo_image_def demo_ehdr_def ELF_TARG_CLASS_def ELF_TARG_MACH_def)
  moreover have "seg_ok demo_image (kernel_ef 4 demo_image demo_ehdr) demo_low demo_phdr"
    by (simp add: seg_ok_def seg_room_def demo_seg demo_firstlen demo_length) (simp add: demo_low_def demo_phdr_def)
  moreover have "unat (e_phoff demo_ehdr) = 52" "unat (e_phnum demo_ehdr) = 1" by (simp_all add: demo_ehdr_def)
  ultimately show ?thesis
    using demo_read demo_seg(2) demo_length
    by (simp add: kernel_image_def ascending_def ehdr_size_def phdr_size_def PAGE_SIZE_def) (simp add: demo_ehdr_def demo_phdr_def ET_EXEC_def PT_DYNAMIC_def)
qed

definition demo_sections :: "byte list" where
  "demo_sections = drop 108 demo_image"

lemma demo_symtab: "symtab_found 4 demo_image demo_ehdr [demo_phdr] 0 1 demo_sections"
proof -
  have chunk: "unat (e_shentsize demo_ehdr) = 40" "unat (e_shoff demo_ehdr) = 108" "unat (e_shnum demo_ehdr) = 2"
    by (simp_all add: demo_ehdr_def)
  have tk: "take 80 (drop 108 demo_image) = demo_sections" by (simp add: demo_sections_def demo_length)
  have sh: "sh_type 4 demo_sections 0 = Some 2" "sh_offset 4 demo_sections 0 = Some 88" "sh_size 4 demo_sections 0 = Some 16" "sh_link 4 demo_sections 0 = Some 1"
      "sh_type 4 demo_sections 1 = Some 3"
    by (simp_all add: sh_type_def sh_offset_def sh_size_def sh_link_def sh_num_def shdr_size_def le_field_def slice_def demo_sections_def demo_image_def)
  have "\<not> in_segment 4 [demo_phdr] 88 16" by code_simp
  moreover have "find_symtab 4 [demo_phdr] 2 (Suc (Suc 0)) demo_sections x y = Some (x, y, demo_sections)" for x y by (subst find_symtab.simps) simp
  then have "find_symtab 4 [demo_phdr] 2 (Suc 0) demo_sections x y = Some (x, y, demo_sections)" for x y
    using sh(5) by (subst find_symtab.simps) (simp add: SHT_SYMTAB_def)
  ultimately have "find_symtab 4 [demo_phdr] 2 0 demo_sections (-1) (-1) = Some (0, 1, demo_sections)"
    using sh(1-4) by (subst find_symtab.simps) (simp add: SHT_SYMTAB_def)
  then show ?thesis by (simp add: symtab_found_def Let_def chunk tk demo_length)
qed

lemma demo_tables: "tables_ok 4 demo_image demo_ehdr [demo_phdr] demo_low (88, 16) (104, 4)"
proof -
  have "sh_offset 4 demo_sections 0 = Some 88" "sh_size 4 demo_sections 0 = Some 16" "sh_offset 4 demo_sections 1 = Some 104" "sh_size 4 demo_sections 1 = Some 4"
    by (simp_all add: sh_offset_def sh_size_def sh_num_def shdr_size_def le_field_def slice_def demo_sections_def demo_image_def)
  moreover have "kernel_end 4 demo_image demo_ehdr [demo_phdr] = 0x1008" by (simp add: kernel_end_def demo_seg seg_end_def) (simp add: demo_phdr_def)
  ultimately show ?thesis unfolding tables_ok_def using demo_symtab by (auto simp: demo_length demo_low_def)
qed

theorem elf_kernel_loaded_witness:
  "\<exists>first ssym esym m'. elf_loadfile 4 (file_sys demo_image) [] (Some (bytes_of ''kernel'')) 0 demo_low =
      Some (Inr (kernel_file 4 demo_image (bytes_of ''kernel'') first ssym esym), True, m') \<and> unat first = 0x1000 \<and>
    kernel_placed 4 demo_image demo_ehdr [demo_phdr] (88, 16) (104, 4) (ram demo_low) (ram m') ssym esym"
proof -
  have "x_open (file_sys demo_image) (bytes_of ''kernel'') = Inr 0" "alloc_ok (x_malloc (file_sys demo_image))" "\<forall>n. x_malloc (file_sys demo_image) n \<noteq> None"
    by (simp_all add: file_sys_def demo_alloc_def alloc_ok_def)
  from elf_kernel_loaded [OF plain.open_image_axioms this(1) refl this(2,3) demo_kernel_image demo_tables demo_low_ok, of 0]
  show ?thesis by (simp add: demo_seg)
qed

end
