(* ===== verification/ElfSymbols.thy ===== *)
theory ElfSymbols
  imports LoadElfFacts
begin

text \<open>
  The dynamic symbols of a loaded image: the hash chains that \<^verbatim>\<open>lookup_symbol\<close> walks, relocated pointers, and the records
  from which \<^verbatim>\<open>parse_modmetadata\<close> makes modules and dependencies.
\<close>

section \<open>Kernel memory\<close>

definition kmem :: "i386_mem \<Rightarrow> u32 \<Rightarrow> nat \<Rightarrow> byte list option" where
  "kmem m a n = (case i386_copyout a n m of Some (Inr bs) \<Rightarrow> Some bs | _ \<Rightarrow> None)"

lemma COPYOUT_kmem: "kmem m a n = Some bs \<Longrightarrow> COPYOUT m a n old = Some (Some bs)"
  by (auto simp: kmem_def COPYOUT_def split: option.splits sum.splits)

lemma length_kmem: "kmem m a n = Some bs \<Longrightarrow> length bs = n"
  by (auto simp: kmem_def i386_copyout_def length_slice split: option.splits sum.splits if_splits)

lemma kstr_no_nul: "kstr c a s \<Longrightarrow> 0 \<notin> set s"
  by (induction s arbitrary: a) auto

lemma kstring_kstr:
  assumes "kstr (kbyte m) a s" "alloc_ok (x_malloc X)" "x_malloc X (length s + 1) \<noteq> None"
  shows "kstring X m a = Some s"
proof -
  obtain b where b: "x_malloc X (length s + 1) = Some b" using assms(3) by blast
  then have lb: "length b = length s + 1" using assms(2) by (simp add: alloc_ok_def)
  have "strdupout (x_malloc X) (kbyte m) (x_junk X) a = Some (put b 0 (s @ [0]))"
    using strlenout_loop_kstr [OF assms(1), of "x_junk X" 0] strdupout_loop_kstr [OF assms(1), of 0 b] b lb
    by (simp add: strdupout_def strlenout_def)
  moreover have "put b 0 (s @ [0]) = s @ [0]" using lb by (simp add: put_def)
  moreover have "cstr (s @ [0]) 0 = Some s" using kstr_no_nul [OF assms(1)] by (auto simp: cstr_def takeWhile_append)
  ultimately show ?thesis by (simp add: kstring_def)
qed

lemma kbyte_nth:
  assumes "unat a + 1 < unat (memtop m)" "unat a < length (ram m)"
  shows "kbyte m a = Some (ram m ! unat a)"
proof -
  have "unat a + 1 < 2 ^ 32" using assms(1) unsigned_less [where 'a = nat, of "memtop m"] by simp
  then have "unat (a + 1) = unat a + 1" using u32_end [of a 1] by simp
  then have "\<not> memtop m \<le> a + 1" using assms(1) by (simp add: word_le_nat_alt)
  then show ?thesis using assms(2) by (simp add: kbyte_def i386_copyout_def slice_def rd_def take_Suc_conv_app_nth hd_drop_conv_nth)
qed

lemma kstr_slice:
  "slice (ram m) (unat a) (length s + 1) = Some (s @ [0]) \<Longrightarrow> unat a + length s + 1 < unat (memtop m) \<Longrightarrow> 0 \<notin> set s \<Longrightarrow> kstr (kbyte m) a s"
proof (induction s arbitrary: a)
  case Nil
  then show ?case by (auto simp: slice_def kbyte_nth take_Suc_conv_app_nth hd_drop_conv_nth split: if_splits)
next
  case (Cons c s)
  have len: "unat a + length s + 2 \<le> length (ram m)" and eq: "take (length s + 2) (drop (unat a) (ram m)) = c # s @ [0]"
    using Cons.prems(1) by (auto simp: slice_def split: if_splits)
  have dr: "drop (unat a) (ram m) = ram m ! unat a # drop (Suc (unat a)) (ram m)" using len by (simp add: Cons_nth_drop_Suc)
  have "unat a + 1 < 2 ^ 32" using Cons.prems(2) unsigned_less [where 'a = nat, of "memtop m"] by simp
  then have u: "unat (a + 1) = Suc (unat a)" using u32_end [of a 1] by simp
  have "kbyte m a = Some c" using kbyte_nth Cons.prems(2) len eq dr by simp
  moreover have "kstr (kbyte m) (a + 1) s"
    using Cons.prems(2,3) len eq dr u by (intro Cons.IH) (auto simp: slice_def)
  ultimately show ?case using Cons.prems(3) by simp
qed

section \<open>The hash function\<close>

lemma high_bits_zero:
  fixes r :: u32
  assumes "\<And>i. 28 \<le> i \<Longrightarrow> \<not> bit r i"
  shows "r < 2 ^ 28"
proof -
  have "take_bit 28 r = r" by (rule bit_eqI) (simp add: bit_take_bit_iff, meson assms not_less)
  then have "unat r = take_bit 28 (unat r)" by (metis unsigned_take_bit_eq)
  then have "unat r < 2 ^ 28" by (metis take_bit_nat_less_exp)
  then show ?thesis by (simp add: word_less_nat_alt)
qed

lemma elf_hash_step:
  fixes h :: u32
  defines "g \<equiv> h AND 0xf0000000"
  shows "(if g \<noteq> 0 then h XOR drop_bit 24 g else h) AND NOT g < 2 ^ 28"
proof (rule high_bits_zero)
  fix i :: nat assume i: "28 \<le> i"
  have high: "bit (0xf0000000 :: u32) i" if "i < 32"
  proof -
    from i that have "i \<in> {28, 29, 30, 31}" by auto
    then show ?thesis by auto
  qed
  show "\<not> bit ((if g \<noteq> 0 then h XOR drop_bit 24 g else h) AND NOT g) i"
    using high i by (auto simp: g_def bit_simps dest: bit_imp_le_length)
qed

text \<open>The result has 28 bits.\<close>

lemma elf_hash_bound: "h < 2 ^ 28 \<Longrightarrow> elf_hash_loop s h < 2 ^ 28"
proof (induction s arbitrary: h)
  case (Cons c s)
  show ?case using Cons.IH elf_hash_step [of "push_bit 4 h + ucast c"] by (simp add: Let_def)
qed simp

section \<open>Hash chains\<close>

definition sym_at :: "nat \<Rightarrow> i386_mem \<Rightarrow> elf_file \<Rightarrow> u32 \<Rightarrow> elf_sym option" where
  "sym_at w m ef n = Option.bind (kmem m (ef_symtab ef + n * word_of_nat (sym_size w)) (sym_size w)) (read_sym w)"

definition hash_elt :: "i386_mem \<Rightarrow> u32 \<Rightarrow> u32 option" where
  "hash_elt m a = Option.bind (kmem m a 4) (\<lambda>b. le_field b 0 4)"

text \<open>The chain that starts with number \<open>n\<close>: names and symbols up to the end mark.\<close>

fun sym_chain :: "nat \<Rightarrow> i386_mem \<Rightarrow> elf_file \<Rightarrow> u32 \<Rightarrow> (byte list \<times> elf_sym) list \<Rightarrow> bool" where
  "sym_chain w m ef n [] \<longleftrightarrow> n = 0"
| "sym_chain w m ef n ((nm, sy) # es) \<longleftrightarrow>
     n \<noteq> 0 \<and> n < ef_nchains ef \<and> sym_at w m ef n = Some sy \<and> st_name sy \<noteq> 0 \<and>
     kstr (kbyte m) (ef_strtab ef + ucast (st_name sy)) nm \<and>
     (\<exists>n'. hash_elt m (ef_chains ef + 4 * n) = Some n' \<and> sym_chain w m ef n' es)"

definition found :: "byte list \<Rightarrow> (byte list \<times> elf_sym) list \<Rightarrow> int + elf_sym" where
  "found name es = (case map_of es name of None \<Rightarrow> Inl ENOENT | Some sy \<Rightarrow> if sym_defined sy then Inr sy else Inl ENOENT)"

lemma lookup_loop_chain:
  assumes "alloc_ok (x_malloc X)" "\<And>n. x_malloc X n \<noteq> None" "sym_chain w m ef n es" "le_field nb 0 4 = Some n"
  shows "lookup_loop w X m ef name (Some nb, sv) = Some (found name es)"
  using assms(3,4)
proof (induction es arbitrary: n nb sv)
  case Nil
  then show ?case by (subst lookup_loop.simps) (simp add: found_def)
next
  case (Cons e es)
  obtain nm sy where e: "e = (nm, sy)" by fastforce
  obtain sb where sb: "kmem m (ef_symtab ef + n * word_of_nat (sym_size w)) (sym_size w) = Some sb" "read_sym w sb = Some sy"
    using Cons.prems(1) by (auto simp: e sym_at_def bind_eq_Some_conv)
  obtain n' nb' where n': "kmem m (ef_chains ef + 4 * n) 4 = Some nb'" "le_field nb' 0 4 = Some n'" "sym_chain w m ef n' es"
    using Cons.prems(1) by (auto simp: e hash_elt_def bind_eq_Some_conv)
  have str: "kstring X m (ef_strtab ef + ucast (st_name sy)) = Some nm"
    using Cons.prems(1) kstring_kstr [OF _ assms(1) assms(2)] by (simp add: e)
  have n: "n \<noteq> 0" "\<not> ef_nchains ef \<le> n" "st_name sy \<noteq> 0" using Cons.prems(1) by (auto simp: e)
  show ?case
    using Cons.IH [OF n'(3,2)] n str sb(2) COPYOUT_kmem [OF sb(1)] COPYOUT_kmem [OF n'(1)] Cons.prems(2)
    by (subst lookup_loop.simps) (simp add: e found_def)
qed

lemma lookup_chain:
  assumes "alloc_ok (x_malloc X)" "\<forall>n. x_malloc X n \<noteq> None" "ef_nbuckets ef \<noteq> 0"
    and "hash_elt m (ef_buckets ef + 4 * (elf_hash name mod ef_nbuckets ef)) = Some n" "sym_chain w m ef n es"
  shows "lookup_symbol w X m ef name = Some (found name es)"
proof -
  obtain nb where nb: "kmem m (ef_buckets ef + 4 * (elf_hash name mod ef_nbuckets ef)) 4 = Some nb" "le_field nb 0 4 = Some n"
    using assms(4) by (auto simp: hash_elt_def bind_eq_Some_conv)
  have "lookup_loop w X m ef name (Some nb, None) = Some (found name es)"
    by (rule lookup_loop_chain [OF assms(1) _ assms(5) nb(2)]) (use assms(2) in blast)
  then show ?thesis using assms(3) COPYOUT_kmem [OF nb(1)] by (simp add: lookup_symbol_def)
qed

text \<open>
  C13: a lookup finds the first symbol with the name in its bucket.  When the bucket of the hash value starts a chain of symbols that
  ends with the mark 0, \<^verbatim>\<open>lookup_symbol\<close> ends with the first symbol of the chain whose name is the one it looks for, if
  that symbol is defined or a function, and with \<^verbatim>\<open>ENOENT\<close> in every other case.
\<close>

theorem lookup_symbol_finds:
  assumes "alloc_ok (x_malloc X)" "\<forall>n. x_malloc X n \<noteq> None" "ef_nbuckets ef \<noteq> 0"
    and "hash_elt m (ef_buckets ef + 4 * (elf_hash name mod ef_nbuckets ef)) = Some n" "sym_chain w m ef n es"
  shows "lookup_symbol w X m ef name = Some (found name es)"
  using assms by (rule lookup_chain)

text \<open>
  C14: a hash chain that returns to a symbol with another name stops the loader: the walk does not count its steps.
\<close>

theorem cyclic_chain_hangs:
  assumes "alloc_ok (x_malloc X)" "\<forall>n. x_malloc X n \<noteq> None" "ef_nbuckets ef \<noteq> 0"
    and "hash_elt m (ef_buckets ef + 4 * (elf_hash name mod ef_nbuckets ef)) = Some n" "n \<noteq> 0" "n < ef_nchains ef"
    and "sym_at w m ef n = Some sy" "st_name sy \<noteq> 0" "kstr (kbyte m) (ef_strtab ef + ucast (st_name sy)) nm" "nm \<noteq> name"
    and "hash_elt m (ef_chains ef + 4 * n) = Some n"
  shows "lookup_symbol w X m ef name = None"
proof -
  obtain sb where sb: "kmem m (ef_symtab ef + n * word_of_nat (sym_size w)) (sym_size w) = Some sb" "read_sym w sb = Some sy"
    using assms(7) by (auto simp: sym_at_def bind_eq_Some_conv)
  obtain nb' where nb': "kmem m (ef_chains ef + 4 * n) 4 = Some nb'" "le_field nb' 0 4 = Some n"
    using assms(11) by (auto simp: hash_elt_def bind_eq_Some_conv)
  have str: "kstring X m (ef_strtab ef + ucast (st_name sy)) = Some nm"
    using kstring_kstr [OF assms(9,1)] assms(2) by blast
  define P where "P w' X' m' ef' name' (v :: byte list option \<times> byte list option) (r :: int + elf_sym) \<longleftrightarrow>
    \<not> (w' = w \<and> X' = X \<and> m' = m \<and> ef' = ef \<and> name' = name \<and> (\<exists>nb sv. v = (Some nb, sv) \<and> le_field nb 0 4 = Some n))"
    for w' X' m' ef' name' v r
  have loop: "lookup_loop w X m ef name (Some nb, sv) = None" if nb: "le_field nb 0 4 = Some n" for nb sv
  proof (rule ccontr)
    assume "lookup_loop w X m ef name (Some nb, sv) \<noteq> None"
    then obtain y where y: "lookup_loop w X m ef name (Some nb, sv) = Some y" by blast
    have "P w X m ef name (Some nb, sv) y"
    proof (rule lookup_loop.raw_induct [OF _ y, of P], rule ccontr)
      fix loop w' X' m' ef' name' v r
      assume IH: "\<And>w X m ef name v r. loop w X m ef name v = Some r \<Longrightarrow> P w X m ef name v r"
        and eq: "do {
           nb \<leftarrow> fst v;
           symnum \<leftarrow> (le_field nb 0 4 :: u32 option);
           if symnum = 0 \<or> symnum \<ge> ef_nchains ef' then Some (Inl ENOENT)
           else do {
             sv \<leftarrow> COPYOUT m' (ef_symtab ef' + symnum * word_of_nat (sym_size w')) (sym_size w') (snd v);
             sb \<leftarrow> sv;
             sy \<leftarrow> read_sym w' sb;
             if st_name sy = 0 then Some (Inl ENOENT)
             else do {
               strp \<leftarrow> kstring X' m' (ef_strtab ef' + ucast (st_name sy));
               if name' = strp then Some (if sym_defined sy then Inr sy else Inl ENOENT)
               else do {
                 nv \<leftarrow> COPYOUT m' (ef_chains ef' + 4 * symnum) 4 (Some nb);
                 loop w' X' m' ef' name' (nv, sv)
               }
             }
           }
         } = Some r"
        and "\<not> P w' X' m' ef' name' v r"
      then obtain nb sv where c: "w' = w" "X' = X" "m' = m" "ef' = ef" "name' = name" "v = (Some nb, sv)" "le_field nb 0 4 = Some n"
        by (auto simp: P_def)
      have "loop w X m ef name (Some nb', Some sb) = Some r"
        using eq assms(5,6,8,10) sb(2) str COPYOUT_kmem [OF sb(1)] COPYOUT_kmem [OF nb'(1)] by (simp add: c split: if_splits)
      from IH [OF this] show False using nb'(2) by (simp add: P_def)
    qed
    then show False using nb by (simp add: P_def)
  qed
  obtain nb where nb: "kmem m (ef_buckets ef + 4 * (elf_hash name mod ef_nbuckets ef)) 4 = Some nb" "le_field nb 0 4 = Some n"
    using assms(4) by (auto simp: hash_elt_def bind_eq_Some_conv)
  then show ?thesis using loop [OF nb(2)] assms(3) COPYOUT_kmem [OF nb(1)] by (simp add: lookup_symbol_def)
qed

section \<open>Relocation\<close>

text \<open>Where a relative relocation inside the data goes, and that others outside of it are skipped.\<close>

lemma reloc_relative:
  assumes "r_type r = R_RELATIVE" "unat (ucast (relbase + r_offset r - a) :: u32) = d" "d + w \<le> length data" "0 < w"
    and "(case r_addend r of None \<Rightarrow> num data d w | Some x \<Rightarrow> Some x) = Some addend"
  shows "reloc w r relbase a data = Some (0, put data d (le_bytes w (unat (addend + relbase))))"
  using assms by (simp add: reloc_def Let_def)

lemma reloc_outside:
  "length data \<le> unat (ucast (relbase + r_offset r - a) :: u32) \<Longrightarrow> reloc w r relbase a data = Some (0, data)"
  by (simp add: reloc_def Let_def)

section \<open>Records of modules\<close>

text \<open>The value at \<open>a\<close> as \<^verbatim>\<open>parse_modmetadata\<close> reads it: copied out, relocated, or moved by the offset of a kernel.\<close>

definition rel_read :: "nat \<Rightarrow> i386_mem \<Rightarrow> elf_file \<Rightarrow> u64 \<Rightarrow> nat \<Rightarrow> (byte list \<Rightarrow> byte list option) \<Rightarrow> byte list option" where
  "rel_read w m ef a n shift = do {
     bs \<leftarrow> kmem m (ucast a) n;
     r \<leftarrow> reloc_ptr w m ef a bs;
     v \<leftarrow> reloc_result r shift;
     case v of Inl e \<Rightarrow> None | Inr b \<Rightarrow> Some b
   }"

definition shift_md :: "nat \<Rightarrow> u64 \<Rightarrow> byte list \<Rightarrow> byte list option" where
  "shift_md w off b = Option.bind (add_at w (8 + w) off b) (add_at w 8 off)"

datatype md_entry = Md_depend "byte list" "byte list" | Md_version u32 "byte list" | Md_other

fun md_at :: "i386_mem \<Rightarrow> u64 \<Rightarrow> u32 \<Rightarrow> u32 \<Rightarrow> md_entry \<Rightarrow> bool" where
  "md_at m ty data cval (Md_depend hd12 nm) \<longleftrightarrow> ty = MDT_DEPEND \<and> kmem m data 12 = Some hd12 \<and> kstr (kbyte m) cval nm"
| "md_at m ty data cval (Md_version ver nm) \<longleftrightarrow> ty = ucast MDT_VERSION \<and> hash_elt m data = Some ver \<and> kstr (kbyte m) cval nm"
| "md_at m ty data cval Md_other \<longleftrightarrow> ty \<noteq> MDT_DEPEND \<and> ty \<noteq> ucast MDT_VERSION"

definition md_record :: "nat \<Rightarrow> i386_mem \<Rightarrow> elf_file \<Rightarrow> u64 \<Rightarrow> md_entry \<Rightarrow> bool" where
  "md_record w m ef p e \<longleftrightarrow>
     (\<exists>vb v mb ty data cval. rel_read w m ef p w (add_at w 0 (ef_off ef)) = Some vb \<and> num vb 0 w = Some v \<and>
        rel_read w m ef v (8 + 2 * w) (shift_md w (ef_off ef)) = Some mb \<and>
        num mb 4 4 = Some ty \<and> num mb 8 w = Some data \<and> num mb (8 + w) w = Some cval \<and> md_at m ty (ucast data) (ucast cval) e)"

text \<open>What a record adds to the description of the file.\<close>

fun md_add :: "allocator \<Rightarrow> bool \<Rightarrow> md_entry \<Rightarrow> preloaded_file \<Rightarrow> preloaded_file" where
  "md_add alloc ker (Md_depend hd12 nm) fp =
     (if ker then fp else fp\<lparr>f_metadata := meta MODINFOMD_DEPLIST (hd12 @ nm @ [0]) # f_metadata fp\<rparr>)"
| "md_add alloc ker (Md_version ver nm) fp = snd (file_addmodule alloc fp nm (sint ver))"
| "md_add alloc ker Md_other fp = fp"

definition versions :: "md_entry list \<Rightarrow> nat" where
  "versions es = length (filter (\<lambda>e. case e of Md_version _ _ \<Rightarrow> True | _ \<Rightarrow> False) es)"

lemma rel_readD:
  assumes "rel_read w m ef a n shift = Some b"
  obtains bs r where "COPYOUT m (ucast a) n old = Some (Some bs)" "reloc_ptr w m ef a bs = Some r" "reloc_result r shift = Some (Inr b)"
proof -
  obtain bs r v where 1: "kmem m (ucast a) n = Some bs" "reloc_ptr w m ef a bs = Some r" "reloc_result r shift = Some v"
    "(case v of Inl e \<Rightarrow> None | Inr b \<Rightarrow> Some b) = Some b"
    using assms unfolding rel_read_def bind_eq_Some_conv by blast
  then have "reloc_result r shift = Some (Inr b)" by (cases v) simp_all
  then show ?thesis using that [OF COPYOUT_kmem [OF 1(1)] 1(2)] by blast
qed

lemma modmetadata_step:
  assumes "alloc_ok (x_malloc X)" "\<And>n. x_malloc X n \<noteq> None" "md_record w m ef p e" "p < p_stop"
  obtains vars' where "modmetadata_loop w X m ef p_stop (p, cnt, vars, fp) =
    modmetadata_loop w X m ef p_stop (cut w (p + word_of_nat w), cnt + versions [e], vars', md_add (x_malloc X) (ef_kernel ef) e fp)"
proof -
  obtain vb v mb ty data cval where e: "rel_read w m ef p w (add_at w 0 (ef_off ef)) = Some vb" "num vb 0 w = Some v"
    "rel_read w m ef v (8 + 2 * w) (shift_md w (ef_off ef)) = Some mb"
    "num mb 4 4 = Some ty" "num mb 8 w = Some data" "num mb (8 + w) w = Some cval" "md_at m ty (ucast data) (ucast cval) e"
    using assms(3) by (auto simp: md_record_def)
  obtain bs r where 1: "COPYOUT m (ucast p) w (v_v vars) = Some (Some bs)" "reloc_ptr w m ef p bs = Some r"
    "reloc_result r (add_at w 0 (ef_off ef)) = Some (Inr vb)" using rel_readD [OF e(1)] .
  obtain bs' r' where 2: "COPYOUT m (ucast v) (8 + 2 * w) (v_md vars) = Some (Some bs')" "reloc_ptr w m ef v bs' = Some r'"
    "reloc_result r' (\<lambda>b. Option.bind (add_at w (8 + w) (ef_off ef) b) (add_at w 8 (ef_off ef))) = Some (Inr mb)"
    using rel_readD [OF e(3)] unfolding shift_md_def .
  note start = modmetadata_loop.simps [of w X m ef p_stop "(p, cnt, vars, fp)"]
  show ?thesis
  proof (cases e)
    case (Md_depend hd12 nm)
    have str: "kstring X m (ucast cval) = Some nm" using kstring_kstr [OF _ assms(1,2)] e(7) Md_depend by simp
    obtain b b' where b: "x_malloc X (12 + length nm + 1) = Some b" "x_malloc X (31 + (12 + length nm + 1)) = Some b'" using assms(2) by (meson not_None_eq)
    have hd12: "COPYOUT m (ucast data) 12 (Some (take 12 b)) = Some (Some hd12)" "length hd12 = 12"
      using e(7) COPYOUT_kmem length_kmem Md_depend by auto
    have "md_depend X m ef (ucast cval) (ucast data) fp = Some (Inr (md_add (x_malloc X) (ef_kernel ef) e fp))"
      using str b hd12 by (auto simp: md_depend_def Md_depend file_addmetadata_def meta_def ac_simps)
    then show ?thesis
      using assms(4) 1 2 e Md_depend start by (intro that) (simp add: versions_def)
  next
    case (Md_version ver nm)
    have str: "kstring X m (ucast cval) = Some nm" using kstring_kstr [OF _ assms(1,2)] e(7) Md_version by simp
    obtain vb' where "kmem m (ucast data) 4 = Some vb'" "le_field vb' 0 4 = Some ver"
      using e(7) by (auto simp: Md_version hash_elt_def bind_eq_Some_conv)
    then have "md_version X m (ucast cval) (ucast data) (v_mver vars) fp = Some (Some vb', md_add (x_malloc X) (ef_kernel ef) e fp)"
      using str COPYOUT_kmem by (simp add: md_version_def Md_version)
    then show ?thesis
      using assms(4) 1 2 e Md_version start by (intro that) (simp add: versions_def MDT_DEPEND_def MDT_VERSION_def)
  next
    case Md_other
    then show ?thesis using assms(4) 1 2 e start by (intro that) (simp add: versions_def)
  qed
qed

lemma cut_id: "unat x < 2 ^ (8 * w) \<Longrightarrow> cut w x = x"
  by (simp add: cut_def word_unat_eq_iff unsigned_take_bit_eq take_bit_nat_eq_self)

lemma modmetadata_all:
  assumes "alloc_ok (x_malloc X)" "\<And>n. x_malloc X n \<noteq> None" "w = 4 \<or> w = 8"
    and "\<forall>i < length es. md_record w m ef (p + word_of_nat (i * w)) (es ! i)" "unat p + length es * w < 2 ^ (8 * w)"
    and "p_stop = p + word_of_nat (length es * w)"
  shows "modmetadata_loop w X m ef p_stop (p, cnt, vars, fp) = Some (0, cnt + versions es, fold (md_add (x_malloc X) (ef_kernel ef)) es fp)"
  using assms(4-)
proof (induction es arbitrary: p cnt vars fp)
  case Nil
  then show ?case by (subst modmetadata_loop.simps) (simp add: versions_def)
next
  case (Cons e es)
  have b: "(2 :: nat) ^ (8 * w) \<le> 2 ^ 64" using assms(3) by (intro power_increasing) auto
  have up: "unat (p + word_of_nat (k * w)) = unat p + k * w" if "k \<le> length (e # es)" for k
  proof (rule u64_add)
    have "k * w \<le> length (e # es) * w" using that by (rule mult_le_mono1)
    then show "unat p + k * w < 2 ^ 64" using Cons.prems(2) b by linarith
  qed
  have lt: "p < p_stop" using up [of "length (e # es)"] assms(3) Cons.prems(3) by (auto simp: word_less_nat_alt)
  have rec: "md_record w m ef p e" using Cons.prems(1) by (auto dest: spec [of _ 0])
  obtain vars' where step: "modmetadata_loop w X m ef p_stop (p, cnt, vars, fp) =
      modmetadata_loop w X m ef p_stop (cut w (p + word_of_nat w), cnt + versions [e], vars', md_add (x_malloc X) (ef_kernel ef) e fp)"
    using modmetadata_step [OF assms(1,2) rec lt] .
  have u1: "unat (p + word_of_nat w) = unat p + w" using up [of 1] by simp
  have "cut w (p + word_of_nat w) = p + word_of_nat w" using u1 Cons.prems(2) by (intro cut_id) simp
  moreover have "\<forall>i < length es. md_record w m ef (p + word_of_nat w + word_of_nat (i * w)) (es ! i)"
  proof (intro allI impI)
    fix i assume "i < length es"
    then show "md_record w m ef (p + word_of_nat w + word_of_nat (i * w)) (es ! i)"
      using Cons.prems(1) [rule_format, of "Suc i"] by (simp add: algebra_simps)
  qed
  moreover have "unat (p + word_of_nat w) + length es * w < 2 ^ (8 * w)" using u1 Cons.prems(2) by simp
  moreover have "p_stop = p + word_of_nat w + word_of_nat (length es * w)" using Cons.prems(3) by (simp add: add.assoc)
  ultimately show ?case
    using Cons.IH [of "p + word_of_nat w" "cnt + versions [e]" vars' "md_add (x_malloc X) (ef_kernel ef) e fp"] step
    by (simp add: versions_def split: md_entry.splits)
qed

lemma md_add_keeps: "set (f_metadata fp) \<subseteq> set (f_metadata (md_add alloc ker e fp))"
  by (cases e) (auto simp: file_addmodule_def Let_def)

lemma fold_md_add:
  "set (f_metadata fp) \<subseteq> set (f_metadata (fold (md_add alloc ker) es fp))"
  "Md_depend h n \<in> set es \<Longrightarrow> \<not> ker \<Longrightarrow> meta MODINFOMD_DEPLIST (h @ n @ [0]) \<in> set (f_metadata (fold (md_add alloc ker) es fp))"
proof -
  show keep: "set (f_metadata fp) \<subseteq> set (f_metadata (fold (md_add alloc ker) es fp))" for es fp
    by (induction es arbitrary: fp) (use md_add_keeps in fastforce)+
  show "Md_depend h n \<in> set es \<Longrightarrow> \<not> ker \<Longrightarrow> meta MODINFOMD_DEPLIST (h @ n @ [0]) \<in> set (f_metadata (fold (md_add alloc ker) es fp))"
  proof (induction es arbitrary: fp)
    case (Cons e es)
    then show ?case using keep [of "md_add alloc ker e fp" es] by auto
  qed simp
qed

lemma depend_of_name:
  assumes "length h = 12" "0 \<notin> set n"
  shows "map_option snd (depend_of (h @ n @ [0])) = Some n"
proof -
  have "cstr (h @ n @ [0]) 12 = Some n" using assms by (auto simp: cstr_def takeWhile_append)
  then show ?thesis using assms(1) by (simp add: depend_of_def le_field_def slice_def)
qed

text \<open>
  C12: the metadata of a module are collected.  When the two symbols that mark the set of records are found and every pointer
  between them leads to a record, \<^verbatim>\<open>parse_modmetadata\<close> ends and adds what the records say in their order: a dependency of a
  module becomes metadata that \<^verbatim>\<open>module.c\<close> reads back as the versions and the name, a version becomes a module of the file;
  a file without versions gets one module with the name that \<^verbatim>\<open>fake_modname\<close> makes of the file name.
\<close>

theorem parse_modmetadata_collects:
  assumes "alloc_ok (x_malloc X)" "\<forall>n. x_malloc X n \<noteq> None" "w = 4 \<or> w = 8"
    and "lookup_symbol w X m ef (bytes_of ''__start_set_modmetadata_set'') = Some (Inr start)"
    and "lookup_symbol w X m ef (bytes_of ''__stop_set_modmetadata_set'') = Some (Inr stop)"
    and "p = cut w (st_value start + ef_off ef)" "cut w (st_value stop + ef_off ef) = p + word_of_nat (length es * w)"
    and "unat p + length es * w < 2 ^ (8 * w)" "\<forall>i < length es. md_record w m ef (p + word_of_nat (i * w)) (es ! i)"
    and "fake_modname (x_malloc X) (f_name fp) = Some (Some nm)"
  shows "\<exists>fp'. parse_modmetadata w X m ef fp = Some (0, fp') \<and>
    fp' = (if versions es = 0 then snd (file_addmodule (x_malloc X) (fold (md_add (x_malloc X) (ef_kernel ef)) es fp) nm 1)
           else fold (md_add (x_malloc X) (ef_kernel ef)) es fp) \<and>
    (\<forall>hd12 n. Md_depend hd12 n \<in> set es \<and> \<not> ef_kernel ef \<longrightarrow>
       (\<exists>md \<in> set (f_metadata fp'). uint (md_type md) = MODINFOMD_DEPLIST \<and> map_option snd (depend_of (md_data md)) = Some n))"
proof -
  let ?add = "md_add (x_malloc X) (ef_kernel ef)"
  let ?fp = "fold ?add es fp"
  let ?fp' = "if versions es = 0 then snd (file_addmodule (x_malloc X) ?fp nm 1) else ?fp"
  have alloc: "x_malloc X n \<noteq> None" for n using assms(2) by blast
  have name: "f_name (fold ?add es fp) = f_name fp" for fp
  proof (induction es arbitrary: fp)
    case (Cons e es)
    have "f_name (?add e fp) = f_name fp" by (cases e) (simp_all add: file_addmodule_def Let_def)
    then show ?case using Cons by simp
  qed simp
  have run: "parse_modmetadata w X m ef fp = Some (0, ?fp')"
    using modmetadata_all [OF assms(1) alloc assms(3,9,8) refl, of 0] assms(4-7,10)
    by (simp add: parse_modmetadata_def name)
  have meta_eq: "f_metadata ?fp' = f_metadata ?fp" by (simp add: file_addmodule_def Let_def)
  have deps: "\<exists>md \<in> set (f_metadata ?fp). uint (md_type md) = MODINFOMD_DEPLIST \<and> map_option snd (depend_of (md_data md)) = Some n"
    if d: "Md_depend h n \<in> set es" "\<not> ef_kernel ef" for h n
  proof -
    obtain i where "i < length es" "es ! i = Md_depend h n" using d(1) by (auto simp: in_set_conv_nth)
    then have "md_record w m ef (p + word_of_nat (i * w)) (Md_depend h n)" using assms(9) by metis
    then have "length h = 12" "0 \<notin> set n" by (auto simp: md_record_def dest: length_kmem kstr_no_nul)
    then show ?thesis
      using fold_md_add(2) [OF d, of "x_malloc X" fp] depend_of_name
      by (intro bexI [of _ "meta MODINFOMD_DEPLIST (h @ n @ [0])"]) (simp_all add: meta_def MODINFOMD_DEPLIST_def)
  qed
  show ?thesis
    by (intro exI [of _ ?fp'] conjI run refl allI impI, unfold meta_eq, elim conjE, rule deps)
qed

section \<open>Names of modules without a version\<close>

lemma rindex_of_split: "c \<notin> set t \<Longrightarrow> rindex_of c (s @ c # t) = Some (length s)"
  by (simp add: rindex_of_def takeWhile_append)

lemma rindex_of_none: "c \<notin> set s \<Longrightarrow> rindex_of c s = None"
  by (simp add: rindex_of_def)

text \<open>The directory and the last suffix are cut off.\<close>

lemma fake_modname_base:
  assumes "47 \<notin> set nm" "47 \<notin> set ext" "46 \<notin> set ext" "alloc (length nm + 1) \<noteq> None"
  shows "fake_modname alloc (dir @ 47 # nm @ 46 # ext) = Some (Some nm)"
proof -
  have "rindex_of 47 (dir @ 47 # nm @ 46 # ext) = Some (length dir)" using assms(1,2) by (intro rindex_of_split) simp
  moreover have "rindex_of 46 (dir @ 47 # nm @ 46 # ext) = Some (length (dir @ 47 # nm))"
    using rindex_of_split [OF assms(3), of "dir @ 47 # nm"] by simp
  ultimately show ?thesis using assms(4) by (auto simp: fake_modname_def)
qed

text \<open>A dot in the directory alone makes the length negative: the allocation fails, and the module has no name at all.\<close>

lemma fake_modname_dot_in_directory:
  assumes "47 \<notin> set nm" "46 \<notin> set nm" "46 \<notin> set d2" "d1 \<noteq> []" "alloc (2 ^ 32 - length d2 - 1) = None" "length d2 + 2 < 2 ^ 32"
  shows "fake_modname alloc (d1 @ 46 # d2 @ 47 # nm) = Some None"
proof -
  have "rindex_of 47 (d1 @ 46 # d2 @ 47 # nm) = Some (length (d1 @ 46 # d2))"
    using rindex_of_split [OF assms(1), of "d1 @ 46 # d2"] by simp
  moreover have "rindex_of 46 (d1 @ 46 # d2 @ 47 # nm) = Some (length d1)" using assms(2,3) by (intro rindex_of_split) simp
  moreover have "2 ^ 32 + length d1 - (length d1 + length d2 + 2) + 1 = 2 ^ 32 - length d2 - 1" using assms(6) by simp
  ultimately show ?thesis using assms(4,5) by (simp add: fake_modname_def numeral_2_eq_2)
qed

section \<open>A small module in memory\<close>

definition demo_module :: "byte list" where
  "demo_module = [
      0, 0, 0, 0, 0, 0, 0, 0, 0, 0, 0, 0, 0, 0, 0, 0, 32, 0, 0, 0, 48, 0, 0, 0, 0, 0, 0, 0, 0, 0, 0, 0, 1, 0, 0, 0, 1, 0, 0,
      0, 64, 0, 0, 0, 76, 0, 0, 0, 1, 0, 0, 0, 3, 0, 0, 0, 80, 0, 0, 0, 84, 0, 0, 0, 1, 0, 0, 0, 2, 0, 0, 0, 3, 0, 0, 0, 117,
      115, 98, 0, 7, 0, 0, 0, 105, 102, 0, 0, 1, 0, 0, 0, 0, 0, 0, 0, 2, 0, 0, 0, 0, 0, 0, 0, 0, 0, 0, 0, 0, 0, 0, 0, 0, 0, 0,
      0, 0, 0, 0, 0, 1, 0, 0, 0, 16, 0, 0, 0, 0, 0, 0, 0, 16, 0, 5, 0, 29, 0, 0, 0, 24, 0, 0, 0, 0, 0, 0, 0, 16, 0, 5, 0, 0,
      95, 95, 115, 116, 97, 114, 116, 95, 115, 101, 116, 95, 109, 111, 100, 109, 101, 116, 97, 100, 97, 116, 97, 95, 115, 101,
      116, 0, 95, 95, 115, 116, 111, 112, 95, 115, 101, 116, 95, 109, 111, 100, 109, 101, 116, 97, 100, 97, 116, 97, 95, 115,
      101, 116, 0, 0, 0, 0, 0, 0, 0, 0, 0]"

definition demo_mem :: i386_mem where
  "demo_mem = \<lparr>memtop = 216, memtop_copyin = 216, ram = demo_module\<rparr>"

definition demo_ef :: elf_file where
  "demo_ef = (new_elf_file [] 0 False)\<lparr>ef_symtab := 104, ef_nbuckets := 1, ef_nchains := 3, ef_buckets := 88, ef_chains := 92, ef_strtab := 152\<rparr>"

definition demo_start :: elf_sym where
  "demo_start = \<lparr>st_name = 1, st_value = 16, st_info = 16, st_shndx = 5\<rparr>"

definition demo_stop :: elf_sym where
  "demo_stop = \<lparr>st_name = 29, st_value = 24, st_info = 16, st_shndx = 5\<rparr>"

definition start_name :: "byte list" where "start_name = bytes_of ''__start_set_modmetadata_set''"
definition stop_name :: "byte list" where "stop_name = bytes_of ''__stop_set_modmetadata_set''"

lemma demo_sym_names: "kstr (kbyte demo_mem) 153 start_name" "kstr (kbyte demo_mem) 181 stop_name"
   apply (rule kstr_slice; simp add: demo_mem_def demo_module_def slice_def start_name_def)
   apply (rule kstr_slice; simp add: demo_mem_def demo_module_def slice_def stop_name_def)
  done

lemma demo_chain: "sym_chain 4 demo_mem demo_ef 1 [(start_name, demo_start), (stop_name, demo_stop)]"
proof -
  have "sym_at 4 demo_mem demo_ef 1 = Some demo_start" "sym_at 4 demo_mem demo_ef 2 = Some demo_stop"
    "hash_elt demo_mem 96 = Some 2" "hash_elt demo_mem 100 = Some 0"
    by (simp_all add: sym_at_def hash_elt_def kmem_def i386_copyout_def demo_mem_def demo_module_def demo_ef_def new_elf_file_def
      sym_size_def slice_def le_field_def read_sym_def demo_start_def demo_stop_def)
  then show ?thesis using demo_sym_names by (simp add: demo_ef_def demo_start_def demo_stop_def)
qed

lemma demo_alloc_ok: "alloc_ok (x_malloc (file_sys img))" "\<forall>n. x_malloc (file_sys img) n \<noteq> None"
  by (simp_all add: file_sys_def demo_alloc_def alloc_ok_def)

lemma demo_bucket: "hash_elt demo_mem (ef_buckets demo_ef + 4 * (elf_hash nm mod ef_nbuckets demo_ef)) = Some 1"
  by (simp add: hash_elt_def kmem_def i386_copyout_def demo_mem_def demo_module_def demo_ef_def slice_def le_field_def)

lemma demo_found: "found start_name [(start_name, demo_start), (stop_name, demo_stop)] = Inr demo_start"
    "found stop_name [(start_name, demo_start), (stop_name, demo_stop)] = Inr demo_stop"
  by (simp_all add: found_def sym_defined_def demo_start_def demo_stop_def start_name_def stop_name_def)

theorem lookup_symbol_finds_witness: "lookup_symbol 4 (file_sys []) demo_mem demo_ef stop_name = Some (Inr demo_stop)"
  using lookup_symbol_finds [OF demo_alloc_ok _ demo_bucket demo_chain, of "[]" stop_name] by (simp add: demo_found demo_ef_def)

lemma demo_lookup:
  "lookup_symbol 4 (file_sys []) demo_mem demo_ef start_name = Some (Inr demo_start)"
  "lookup_symbol 4 (file_sys []) demo_mem demo_ef stop_name = Some (Inr demo_stop)"
proof -
  have "lookup_symbol 4 (file_sys []) demo_mem demo_ef nm = Some (found nm [(start_name, demo_start), (stop_name, demo_stop)])" for nm
    using demo_alloc_ok by (intro lookup_chain [OF _ _ _ demo_bucket demo_chain]) (auto simp: demo_ef_def)
  then show "lookup_symbol 4 (file_sys []) demo_mem demo_ef start_name = Some (Inr demo_start)"
    "lookup_symbol 4 (file_sys []) demo_mem demo_ef stop_name = Some (Inr demo_stop)" by (simp_all only: demo_found)
qed

definition demo_entries :: "md_entry list" where
  "demo_entries = [Md_depend [1, 0, 0, 0, 2, 0, 0, 0, 3, 0, 0, 0] (bytes_of ''usb''), Md_version 7 (bytes_of ''if'')]"

lemmas demo_memory = kmem_def i386_copyout_def demo_mem_def demo_module_def slice_def le_field_def

lemma demo_strings: "kstr (kbyte demo_mem) 76 (bytes_of ''usb'')" "kstr (kbyte demo_mem) 84 (bytes_of ''if'')"
  by (rule kstr_slice; simp add: demo_memory)+

lemma demo_reloc: "reloc_ptr 4 m demo_ef a b = Some (0, b)"
  by (simp add: reloc_ptr_def demo_ef_def new_elf_file_def)

lemma demo_records: "md_record 4 demo_mem demo_ef 16 (demo_entries ! 0)" "md_record 4 demo_mem demo_ef 20 (demo_entries ! 1)"
proof -
  have p: "rel_read 4 demo_mem demo_ef 16 4 sh = Some [32, 0, 0, 0]" "rel_read 4 demo_mem demo_ef 20 4 sh = Some [48, 0, 0, 0]"
    "rel_read 4 demo_mem demo_ef 32 16 sh = Some [1, 0, 0, 0, 1, 0, 0, 0, 64, 0, 0, 0, 76, 0, 0, 0]"
    "rel_read 4 demo_mem demo_ef 48 16 sh = Some [1, 0, 0, 0, 3, 0, 0, 0, 80, 0, 0, 0, 84, 0, 0, 0]" for sh
    by (simp_all add: rel_read_def demo_reloc reloc_result_def EOPNOTSUPP_def demo_memory)
  have "kmem demo_mem 64 12 = Some [1, 0, 0, 0, 2, 0, 0, 0, 3, 0, 0, 0]" "hash_elt demo_mem 80 = Some 7"
    by (simp_all add: hash_elt_def demo_memory)
  then show "md_record 4 demo_mem demo_ef 16 (demo_entries ! 0)" "md_record 4 demo_mem demo_ef 20 (demo_entries ! 1)"
    using p demo_strings
    by (auto simp: md_record_def demo_entries_def le_field_def slice_def MDT_DEPEND_def MDT_VERSION_def)
qed

definition demo_file :: preloaded_file where
  "demo_file = \<lparr>f_name = bytes_of ''/boot/if.ko'', f_type = moduletype, f_args = None, f_metadata = [], f_loader = 0, f_addr = 0, f_size = 0, f_modules = []\<rparr>"

theorem parse_modmetadata_collects_witness:
  "\<exists>fp'. parse_modmetadata 4 (file_sys []) demo_mem demo_ef demo_file = Some (0, fp') \<and>
    (\<exists>md \<in> set (f_metadata fp'). uint (md_type md) = MODINFOMD_DEPLIST \<and> map_option snd (depend_of (md_data md)) = Some (bytes_of ''usb''))"
proof -
  have "fake_modname (x_malloc (file_sys [])) (f_name demo_file) = Some (Some (bytes_of ''if''))"
    by (simp add: fake_modname_def rindex_of_def demo_file_def file_sys_def demo_alloc_def)
  moreover have "\<forall>i < length demo_entries. md_record 4 demo_mem demo_ef (16 + word_of_nat (i * 4)) (demo_entries ! i)"
    using demo_records by (auto simp: demo_entries_def less_Suc_eq)
  moreover have "ef_off demo_ef = 0" "length demo_entries = 2" "\<not> ef_kernel demo_ef" by (simp_all add: demo_ef_def new_elf_file_def demo_entries_def)
  ultimately obtain fp' where "parse_modmetadata 4 (file_sys []) demo_mem demo_ef demo_file = Some (0, fp')"
    "\<forall>hd12 n. Md_depend hd12 n \<in> set demo_entries \<longrightarrow>
       (\<exists>md \<in> set (f_metadata fp'). uint (md_type md) = MODINFOMD_DEPLIST \<and> map_option snd (depend_of (md_data md)) = Some n)"
    using parse_modmetadata_collects [OF demo_alloc_ok _ demo_lookup [unfolded start_name_def stop_name_def], of 16 demo_entries demo_file "bytes_of ''if''"]
    by (auto simp: demo_start_def demo_stop_def cut_def)
  then show ?thesis by (fastforce simp: demo_entries_def)
qed

text \<open>The same module with a chain that leads the first symbol back to itself.\<close>

definition demo_loop :: i386_mem where
  "demo_loop = demo_mem\<lparr>ram := take 96 demo_module @ [1] @ drop 97 demo_module\<rparr>"

theorem cyclic_chain_hangs_witness: "lookup_symbol 4 (file_sys []) demo_loop demo_ef stop_name = None"
proof -
  have "hash_elt demo_loop (ef_buckets demo_ef + 4 * (elf_hash stop_name mod ef_nbuckets demo_ef)) = Some 1"
    "hash_elt demo_loop (ef_chains demo_ef + 4 * 1) = Some 1" "sym_at 4 demo_loop demo_ef 1 = Some demo_start"
    by (simp_all add: demo_loop_def hash_elt_def sym_at_def demo_memory demo_ef_def new_elf_file_def sym_size_def read_sym_def demo_start_def)
  moreover have "kstr (kbyte demo_loop) 153 start_name"
    by (rule kstr_slice; simp add: demo_loop_def demo_memory start_name_def)
  ultimately show ?thesis
    by (intro cyclic_chain_hangs [OF demo_alloc_ok, where n = 1 and sy = demo_start and nm = start_name])
      (simp_all add: demo_ef_def demo_start_def start_name_def stop_name_def)
qed

end
