(* ===== verification/ZfsNvlist.thy ===== *)
theory ZfsNvlist
  imports Module "HOL-Library.Sublist"
begin

text \<open>
  The name-value lists in the labels of ZFS devices, \<^verbatim>\<open>boot/zfs/zfsimpl.c\<close>: the XDR numbers, \<^verbatim>\<open>nvlist_find\<close> and
  \<^verbatim>\<open>nvlist_next\<close>.  The list is a memory of bytes and a pointer into it an integer, because the sizes that move it are signed
  numbers of the label; an access outside the memory is \<^term>\<open>None\<close>, as is a walk that does not end.
\<close>

section \<open>Numbers\<close>

definition EIO :: int where "EIO = 5"

definition be_nat :: "byte list \<Rightarrow> nat" where
  "be_nat bs = le_nat (rev bs)"

definition be_bytes :: "nat \<Rightarrow> nat \<Rightarrow> byte list" where
  "be_bytes n x = rev (le_bytes n x)"

definition xdr_u_int :: "byte list \<Rightarrow> int \<Rightarrow> (u32 \<times> int) option" where
  "xdr_u_int m p = (if p < 0 then None else map_option (\<lambda>b. (word_of_nat (be_nat b), p + 4)) (slice m (nat p) 4))"

definition xdr_int :: "byte list \<Rightarrow> int \<Rightarrow> (int \<times> int) option" where
  "xdr_int m p = map_option (\<lambda>(x, q). (sint x, q)) (xdr_u_int m p)"

definition xdr_uint64_t :: "byte list \<Rightarrow> int \<Rightarrow> (u64 \<times> int) option" where
  "xdr_uint64_t m p = do {
     (hi, p1) \<leftarrow> xdr_u_int m p;
     (lo, p2) \<leftarrow> xdr_u_int m p1;
     Some (push_bit 32 (ucast hi) OR ucast lo, p2)
   }"

definition DATA_TYPE_UINT64 :: int where "DATA_TYPE_UINT64 = 8"
definition DATA_TYPE_STRING :: int where "DATA_TYPE_STRING = 9"
definition DATA_TYPE_NVLIST :: int where "DATA_TYPE_NVLIST = 19"
definition DATA_TYPE_NVLIST_ARRAY :: int where "DATA_TYPE_NVLIST_ARRAY = 20"

section \<open>Search\<close>

text \<open>What \<^verbatim>\<open>valuep\<close> receives: a number, or a pointer into the list.\<close>

datatype nv_value = Nv_uint64 u64 | Nv_ptr int

text \<open>\<^verbatim>\<open>roundup\<close> divides an \<^verbatim>\<open>int\<close>, towards zero.\<close>

definition roundup4 :: "int \<Rightarrow> int" where
  "roundup4 n = (if n + 3 < 0 then - ((- (n + 3)) div 4) else (n + 3) div 4) * 4"

text \<open>\<^verbatim>\<open>memcmp\<close> of the name, a C string, with \<open>n\<close> bytes of the list; it ends at the first difference.\<close>

fun name_cmp :: "byte list \<Rightarrow> nat \<Rightarrow> byte list \<Rightarrow> int \<Rightarrow> nat \<Rightarrow> bool option" where
  "name_cmp name i m p 0 = Some True"
| "name_cmp name i m p (Suc n) =
     (if p < 0 then None
      else do {
        a \<leftarrow> rd (name @ [0]) i;
        b \<leftarrow> rd m (nat p);
        if a \<noteq> b then Some False else name_cmp name (Suc i) m (p + 1) n
      })"

definition find_value :: "byte list \<Rightarrow> int \<Rightarrow> int \<Rightarrow> (int + int \<times> nv_value) option" where
  "find_value m ty p = do {
     (elements, p1) \<leftarrow> xdr_int m p;
     if ty = DATA_TYPE_UINT64 then do { (v, p2) \<leftarrow> xdr_uint64_t m p1; Some (Inr (elements, Nv_uint64 v)) }
     else if ty = DATA_TYPE_STRING then do { (len, p2) \<leftarrow> xdr_int m p1; Some (Inr (elements, Nv_ptr p2)) }
     else if ty = DATA_TYPE_NVLIST \<or> ty = DATA_TYPE_NVLIST_ARRAY then Some (Inr (elements, Nv_ptr p1))
     else Some (Inl EIO)
   }"

partial_function (option) nvlist_find_loop :: "byte list \<Rightarrow> byte list \<Rightarrow> int \<Rightarrow> int \<Rightarrow> (int + int \<times> nv_value) option" where
  "nvlist_find_loop m name ty pair = do {
     (encoded_size, p1) \<leftarrow> xdr_int m pair;
     (decoded_size, p2) \<leftarrow> xdr_int m p1;
     if encoded_size = 0 \<or> decoded_size = 0 then Some (Inl EIO)
     else do {
       (namelen, pairname) \<leftarrow> xdr_int m p2;
       (pairtype, p3) \<leftarrow> xdr_int m (pairname + roundup4 namelen);
       same \<leftarrow> name_cmp name 0 m pairname (unat (word_of_int namelen :: u32));
       if same \<and> ty = pairtype then find_value m ty p3
       else nvlist_find_loop m name ty (pair + encoded_size)
     }
   }"

definition nvlist_find :: "byte list \<Rightarrow> int \<Rightarrow> byte list \<Rightarrow> int \<Rightarrow> (int + int \<times> nv_value) option" where
  "nvlist_find m nvlist name ty = do {
     (_, p1) \<leftarrow> xdr_int m nvlist;
     (_, p2) \<leftarrow> xdr_int m p1;
     nvlist_find_loop m name ty p2
   }"

partial_function (option) nvlist_next_loop :: "byte list \<Rightarrow> int \<Rightarrow> int option" where
  "nvlist_next_loop m pair = do {
     (encoded_size, p1) \<leftarrow> xdr_int m pair;
     (decoded_size, p2) \<leftarrow> xdr_int m p1;
     if encoded_size = 0 \<or> decoded_size = 0 then Some p2
     else nvlist_next_loop m (pair + encoded_size)
   }"

definition nvlist_next :: "byte list \<Rightarrow> int \<Rightarrow> int option" where
  "nvlist_next m nvlist = do {
     (_, p1) \<leftarrow> xdr_int m nvlist;
     (_, p2) \<leftarrow> xdr_int m p1;
     nvlist_next_loop m p2
   }"

section \<open>Encoded lists\<close>

text \<open>
  The abstract list: pairs of a name and a value, with the encoding of \<^verbatim>\<open>nvpair\<close> in XDR.  The decoded size is only compared
  with 0; values of other types are their bytes.
\<close>

datatype nv_data = Nv_num u64 | Nv_str "byte list" | Nv_list "(byte list \<times> nv_data) list" | Nv_array "(byte list \<times> nv_data) list list"
  | Nv_raw nat "byte list"

definition pad4 :: "byte list \<Rightarrow> byte list" where
  "pad4 bs = bs @ replicate ((4 - length bs mod 4) mod 4) 0"

definition nv_pair :: "byte list \<Rightarrow> nat \<Rightarrow> nat \<Rightarrow> byte list \<Rightarrow> byte list" where
  "nv_pair name ty elements payload =
     (let body = be_bytes 4 (length name) @ pad4 name @ be_bytes 4 ty @ be_bytes 4 elements @ payload
      in be_bytes 4 (8 + length body) @ be_bytes 4 1 @ body)"

fun nv_type :: "nv_data \<Rightarrow> nat" where
  "nv_type (Nv_num v) = 8"
| "nv_type (Nv_str s) = 9"
| "nv_type (Nv_list ps) = 19"
| "nv_type (Nv_array xs) = 20"
| "nv_type (Nv_raw ty b) = ty"

fun nv_elements :: "nv_data \<Rightarrow> nat" where
  "nv_elements (Nv_array xs) = length xs"
| "nv_elements _ = 1"

fun nv_payload :: "nv_data \<Rightarrow> byte list" where
  "nv_payload (Nv_num v) = be_bytes 8 (unat v)"
| "nv_payload (Nv_str s) = be_bytes 4 (length s) @ pad4 s"
| "nv_payload (Nv_list ps) =
     be_bytes 4 0 @ be_bytes 4 1 @ concat (map (\<lambda>(n, d). nv_pair n (nv_type d) (nv_elements d) (nv_payload d)) ps) @ replicate 8 0"
| "nv_payload (Nv_array xs) =
     concat (map (\<lambda>ps. be_bytes 4 0 @ be_bytes 4 1 @ concat (map (\<lambda>(n, d). nv_pair n (nv_type d) (nv_elements d) (nv_payload d)) ps) @ replicate 8 0) xs)"
| "nv_payload (Nv_raw ty b) = b"

definition nv_entry :: "byte list \<times> nv_data \<Rightarrow> byte list" where
  "nv_entry e = (case e of (n, d) \<Rightarrow> nv_pair n (nv_type d) (nv_elements d) (nv_payload d))"

definition nv_encode :: "(byte list \<times> nv_data) list \<Rightarrow> byte list" where
  "nv_encode ps = be_bytes 4 0 @ be_bytes 4 1 @ concat (map nv_entry ps) @ replicate 8 0"


lemma nv_payload_encode: "nv_payload (Nv_list ps) = nv_encode ps" "nv_payload (Nv_array xs) = concat (map nv_encode xs)"
proof -
  have "nv_entry = (\<lambda>(n, d). nv_pair n (nv_type d) (nv_elements d) (nv_payload d))" by (auto simp: nv_entry_def)
  then show "nv_payload (Nv_list ps) = nv_encode ps" "nv_payload (Nv_array xs) = concat (map nv_encode xs)"
    by (simp_all add: nv_encode_def [abs_def])
qed

section \<open>Reading what was encoded\<close>

definition holds :: "byte list \<Rightarrow> nat \<Rightarrow> byte list \<Rightarrow> bool" where
  "holds m p bs \<longleftrightarrow> p + length bs \<le> length m \<and> take (length bs) (drop p m) = bs"

lemma holds_append: "holds m p (a @ b) \<longleftrightarrow> holds m p a \<and> holds m (p + length a) b"
proof -
  have "take (length a + length b) (drop p m) = take (length a) (drop p m) @ take (length b) (drop (p + length a) m)"
    by (simp add: take_add add.commute)
  moreover have "length (take (length a) (drop p m)) = length a" if "p + length a \<le> length m" using that by simp
  ultimately show ?thesis by (auto simp: holds_def)
qed

lemma length_be_bytes [simp]: "length (be_bytes n x) = n"
  by (simp add: be_bytes_def)

lemma be_nat_be_bytes: "be_nat (be_bytes n x) = x mod 256 ^ n"
  by (simp add: be_nat_def be_bytes_def le_nat_le_bytes)

lemma length_pad4: "int (length (pad4 bs)) = roundup4 (int (length bs))"
proof -
  have "n + (4 - n mod 4) mod 4 = (n + 3) div 4 * 4" for n :: nat
  proof -
    define q r where "q = n div 4" and "r = n mod 4"
    then have n: "n = 4 * q + r" "r < 4" by simp_all
    then consider "r = 0" | "r = 1" | "r = 2" | "r = 3" by linarith
    moreover have "n mod 4 = r" "(n + 3) div 4 = q + (r + 3) div 4" using n by simp_all
    ultimately show ?thesis using n(1) by cases simp_all
  qed
  then have "length (pad4 bs) = (length bs + 3) div 4 * 4" by (simp add: pad4_def)
  then show ?thesis by (simp add: roundup4_def zdiv_int)
qed

lemma holds_nth: "holds m p bs \<Longrightarrow> i < length bs \<Longrightarrow> p + i < length m \<and> m ! (p + i) = bs ! i"
  by (auto simp: holds_def dest!: arg_cong [where f = "\<lambda>xs. xs ! i"])

lemma xdr_u_int_at: "holds m p (be_bytes 4 x) \<Longrightarrow> xdr_u_int m (int p) = Some (word_of_nat x, int p + 4)"
  by (auto simp: xdr_u_int_def holds_def be_nat_be_bytes word_unat_eq_iff unat_of_nat)

lemma xdr_int_at: "holds m p (be_bytes 4 x) \<Longrightarrow> x < 2 ^ 31 \<Longrightarrow> xdr_int m (int p) = Some (int x, int p + 4)"
  by (simp add: xdr_int_def xdr_u_int_at signed_of_nat signed_take_bit_int_eq_self)

lemma le_bytes_add: "le_bytes (a + b) x = le_bytes a x @ le_bytes b (x div 256 ^ a)"
  by (induction a arbitrary: x) (simp_all add: div_mult2_eq)

lemma be_bytes_8: "be_bytes 8 x = be_bytes 4 (x div 2 ^ 32) @ be_bytes 4 x"
  using le_bytes_add [of 4 4 x] by (simp add: be_bytes_def)

lemma halves: "push_bit 32 (ucast (word_of_nat (unat v div 2 ^ 32) :: u32)) OR ucast (word_of_nat (unat v) :: u32) = v" for v :: u64
proof (rule bit_eqI)
  have hi: "unat v div 2 ^ 32 = drop_bit 32 (unat v)" by (simp add: drop_bit_eq_div)
  fix n assume "possible_bit TYPE(64 word) n"
  then show "bit (push_bit 32 (ucast (word_of_nat (unat v div 2 ^ 32) :: u32)) OR ucast (word_of_nat (unat v) :: u32) :: u64) n = bit v n"
    unfolding hi by (auto simp: bit_simps)
qed

lemma xdr_uint64_at:
  assumes "holds m p (be_bytes 8 (unat v))"
  shows "xdr_uint64_t m (int p) = Some (v, int p + 8)"
proof -
  have h: "holds m p (be_bytes 4 (unat v div 2 ^ 32))" "holds m (p + 4) (be_bytes 4 (unat v))"
    using assms by (simp_all add: be_bytes_8 holds_append)
  have "xdr_u_int m (int p) = Some (word_of_nat (unat v div 2 ^ 32), int p + 4)" using xdr_u_int_at [OF h(1)] .
  moreover have "xdr_u_int m (int p + 4) = Some (word_of_nat (unat v), int p + 8)" using xdr_u_int_at [OF h(2)] by (simp add: add.commute)
  ultimately show ?thesis using halves [of v] by (simp add: xdr_uint64_t_def)
qed

lemma name_cmp_prefix:
  "holds m p n \<Longrightarrow> 0 \<notin> set n \<Longrightarrow> i \<le> length name \<Longrightarrow> name_cmp name i m (int p) (length n) = Some (prefix n (drop i name))"
proof (induction n arbitrary: p i)
  case (Cons c n)
  have c: "p < length m" "m ! p = c" using holds_nth [OF Cons.prems(1), of 0] by simp_all
  have tl: "holds m (Suc p) n" using Cons.prems(1) holds_append [of m p "[c]" n] by simp
  show ?case
  proof (cases "i < length name")
    case True
    then have "drop i name = name ! i # drop (Suc i) name" by (simp add: Cons_nth_drop_Suc)
    with True c Cons.IH [OF tl, of "Suc i"] Cons.prems(2) show ?thesis by (auto simp: nth_append add.commute)
  next
    case False
    with Cons.prems(2,3) c show ?thesis by (auto simp: nth_append)
  qed
qed simp

definition nv_ok :: "byte list \<times> nv_data \<Rightarrow> bool" where
  "nv_ok e \<longleftrightarrow> (case e of (n, d) \<Rightarrow> 0 \<notin> set n \<and> length (nv_entry e) < 2 ^ 24 \<and> nv_elements d < 2 ^ 31 \<and>
     (case d of Nv_str s \<Rightarrow> 0 \<notin> set s | Nv_raw ty b \<Rightarrow> ty \<notin> {8, 9, 19, 20} \<and> ty < 2 ^ 31 | _ \<Rightarrow> True))"

lemma length_nv_entry: "length (nv_entry (n, d)) = 20 + length (pad4 n) + length (nv_payload d)"
  by (simp add: nv_entry_def nv_pair_def Let_def)

lemma nv_entry_holds:
  assumes "holds m p (nv_entry (n, d))" "nv_ok (n, d)"
  shows "xdr_int m (int p) = Some (int (length (nv_entry (n, d))), int p + 4)" "xdr_int m (int p + 4) = Some (1, int p + 8)"
    "xdr_int m (int p + 8) = Some (int (length n), int p + 12)" "holds m (p + 12) n"
    "xdr_int m (int p + 12 + roundup4 (int (length n))) = Some (int (nv_type d), int (p + 16 + length (pad4 n)))"
    "xdr_int m (int (p + 16 + length (pad4 n))) = Some (int (nv_elements d), int (p + 20 + length (pad4 n)))"
    "holds m (p + 20 + length (pad4 n)) (nv_payload d)"
proof -
  let ?L = "length (nv_entry (n, d))"
  have L: "?L < 2 ^ 24" "?L = 20 + length (pad4 n) + length (nv_payload d)" using assms(2) length_nv_entry by (auto simp: nv_ok_def)
  have "length n \<le> length (pad4 n)" by (simp add: pad4_def)
  then have n: "length n < 2 ^ 31" using L by simp
  have ty: "nv_type d < 2 ^ 31" using assms(2) by (cases d) (auto simp: nv_ok_def)
  have el: "nv_elements d < 2 ^ 31" using assms(2) by (simp add: nv_ok_def)
  have enc: "nv_entry (n, d) = be_bytes 4 ?L @ be_bytes 4 1 @ be_bytes 4 (length n) @ pad4 n @ be_bytes 4 (nv_type d) @ be_bytes 4 (nv_elements d) @ nv_payload d"
    by (simp add: nv_entry_def nv_pair_def Let_def)
  have h: "holds m p (be_bytes 4 ?L)" "holds m (p + 4) (be_bytes 4 1)" "holds m (p + 8) (be_bytes 4 (length n))" "holds m (p + 12) (pad4 n)"
    "holds m (p + 12 + length (pad4 n)) (be_bytes 4 (nv_type d))" "holds m (p + 16 + length (pad4 n)) (be_bytes 4 (nv_elements d))"
    "holds m (p + 20 + length (pad4 n)) (nv_payload d)"
    using assms(1) by (subst (asm) enc, simp add: holds_append add.assoc add.commute add.left_commute)+
  show "xdr_int m (int p) = Some (int ?L, int p + 4)" using xdr_int_at [OF h(1)] L(1) by simp
  show "xdr_int m (int p + 4) = Some (1, int p + 8)" using xdr_int_at [OF h(2)] by (simp add: add.commute)
  show "xdr_int m (int p + 8) = Some (int (length n), int p + 12)" using xdr_int_at [OF h(3) n] by (simp add: add.commute)
  show "holds m (p + 12) n" using h(4) by (simp add: pad4_def holds_append)
  show "xdr_int m (int p + 12 + roundup4 (int (length n))) = Some (int (nv_type d), int (p + 16 + length (pad4 n)))"
    using xdr_int_at [OF h(5) ty] by (simp add: length_pad4 [symmetric] add.assoc add.commute add.left_commute)
  show "xdr_int m (int (p + 16 + length (pad4 n))) = Some (int (nv_elements d), int (p + 20 + length (pad4 n)))"
    using xdr_int_at [OF h(6) el] by (simp add: add.assoc add.commute add.left_commute)
  show "holds m (p + 20 + length (pad4 n)) (nv_payload d)" using h(7) .
qed

lemma nv_find_step:
  assumes "holds m p (nv_entry (n, d))" "nv_ok (n, d)"
  shows "nvlist_find_loop m name ty (int p) =
    (if prefix n name \<and> ty = int (nv_type d) then find_value m ty (int (p + 16 + length (pad4 n)))
     else nvlist_find_loop m name ty (int (p + length (nv_entry (n, d)))))"
proof -
  note h = nv_entry_holds [OF assms]
  have L: "length (nv_entry (n, d)) < 2 ^ 24" "0 < length (nv_entry (n, d))" using assms(2) length_nv_entry by (auto simp: nv_ok_def)
  have "length n < 2 ^ 32" using L(1) length_nv_entry [of n d] by (simp add: pad4_def)
  then have "unat (word_of_int (int (length n)) :: u32) = length n" by (simp add: unat_of_nat)
  moreover have "name_cmp name 0 m (int p + 12) (length n) = Some (prefix n name)"
    using name_cmp_prefix [OF h(4), of 0 name] assms(2) by (simp add: nv_ok_def add.commute)
  ultimately show ?thesis using h(1,2,3,5) L(2)
    by (subst nvlist_find_loop.simps) (simp del: of_nat_add add: of_nat_add [symmetric])
qed

lemma nv_next_step:
  assumes "holds m p (nv_entry (n, d))" "nv_ok (n, d)"
  shows "nvlist_next_loop m (int p) = nvlist_next_loop m (int (p + length (nv_entry (n, d))))"
proof -
  note h = nv_entry_holds [OF assms]
  have "0 < length (nv_entry (n, d))" using length_nv_entry by simp
  then show ?thesis using h(1,2) by (subst nvlist_next_loop.simps) simp
qed

abbreviation nv_body :: "(byte list \<times> nv_data) list \<Rightarrow> byte list" where
  "nv_body ps \<equiv> concat (map nv_entry ps) @ replicate 8 0"

lemma le_bytes_zero: "le_bytes n 0 = replicate n 0"
  by (induction n) simp_all

lemma zeros_be: "replicate 8 0 = be_bytes 4 0 @ be_bytes 4 (0 :: nat)"
proof -
  have "replicate 8 (0 :: byte) = replicate 4 0 @ replicate 4 0" by (simp flip: replicate_add)
  moreover have "be_bytes 4 0 = replicate 4 0" by (simp only: be_bytes_def le_bytes_zero rev_replicate)
  ultimately show ?thesis by simp
qed

lemma be_bytes_first:
  assumes "x < 2 ^ 24"
  shows "be_bytes 4 x ! 0 = 0"
proof -
  have "(2 :: nat) ^ 24 = 256 ^ 3" by simp
  then have z: "x div 256 ^ 3 = 0" using assms by (metis div_less)
  have "le_bytes 4 x = le_bytes (3 + 1) x" by simp
  also have "\<dots> = le_bytes 3 x @ le_bytes 1 0" by (simp only: le_bytes_add z)
  also have "le_bytes 1 0 = [0]" by simp
  finally show ?thesis unfolding be_bytes_def by (simp only: rev_append rev.simps append.simps nth_Cons_0)
qed

lemma nv_body_first:
  assumes "holds m p (nv_body ps)" "list_all nv_ok ps"
  shows "p < length m \<and> m ! p = 0"
proof (cases ps)
  case Nil
  then show ?thesis using holds_nth [OF assms(1), of 0] by simp
next
  case (Cons e es)
  obtain n d where e: "e = (n, d)" by fastforce
  have L: "length (nv_entry (n, d)) < 2 ^ 24" using assms(2) by (simp add: Cons e nv_ok_def)
  have enc: "nv_entry (n, d) = be_bytes 4 (length (nv_entry (n, d))) @ drop 4 (nv_entry (n, d))"
    by (simp add: nv_entry_def nv_pair_def Let_def)
  have "holds m p (be_bytes 4 (length (nv_entry (n, d))))" using assms(1) by (simp add: Cons e) (subst (asm) enc, simp add: holds_append)
  from holds_nth [OF this, of 0] show ?thesis using be_bytes_first [OF L] by simp
qed

text \<open>What a result says about the value of the pair.\<close>

fun nv_points :: "byte list \<Rightarrow> nv_data \<Rightarrow> int + int \<times> nv_value \<Rightarrow> bool" where
  "nv_points m (Nv_num v) r \<longleftrightarrow> r = Inr (1, Nv_uint64 v)"
| "nv_points m (Nv_str s) r \<longleftrightarrow> (\<exists>q. r = Inr (1, Nv_ptr (int q)) \<and> cstr m q = Some s)"
| "nv_points m (Nv_list ps) r \<longleftrightarrow> (\<exists>q. r = Inr (1, Nv_ptr (int q)) \<and> holds m q (nv_encode ps))"
| "nv_points m (Nv_array xs) r \<longleftrightarrow> (\<exists>q. r = Inr (int (length xs), Nv_ptr (int q)) \<and> holds m q (concat (map nv_encode xs)))"
| "nv_points m (Nv_raw ty b) r \<longleftrightarrow> r = Inl EIO"

lemma cstr_at:
  assumes "holds m q s" "0 \<notin> set s" "q + length s < length m" "m ! (q + length s) = 0"
  shows "cstr m q = Some s"
proof -
  have "drop q m = s @ 0 # drop (Suc (q + length s)) m"
    using assms(1,3,4) by (metis Cons_nth_drop_Suc append_take_drop_id drop_drop holds_def add.commute)
  then show ?thesis using assms(2) by (auto simp: cstr_def takeWhile_append)
qed

lemma find_value_points:
  assumes h: "holds m p (nv_entry (n, d) @ nv_body ps)" and ok: "nv_ok (n, d)" "list_all nv_ok ps"
  shows "\<exists>r. find_value m (int (nv_type d)) (int (p + 16 + length (pad4 n))) = Some r \<and> nv_points m d r"
proof -
  let ?q = "p + 20 + length (pad4 n)"
  have e: "holds m p (nv_entry (n, d))" and b: "holds m (p + length (nv_entry (n, d))) (nv_body ps)" using h by (simp_all add: holds_append add.assoc)
  note en = nv_entry_holds(6,7) [OF e ok(1)]
  show ?thesis
  proof (cases d)
    case (Nv_num v)
    then show ?thesis using en xdr_uint64_at [of m ?q v] by (simp add: find_value_def DATA_TYPE_UINT64_def)
  next
    case (Nv_str s)
    have hl: "holds m ?q (be_bytes 4 (length s))" "holds m (?q + 4) (pad4 s)" using en(2) by (simp_all add: Nv_str holds_append)
    have L: "length (nv_entry (n, d)) = 20 + length (pad4 n) + (4 + length (pad4 s))" "length (nv_entry (n, d)) < 2 ^ 24"
      using length_nv_entry ok(1) by (simp_all add: Nv_str nv_ok_def)
    have "length s \<le> length (pad4 s)" by (simp add: pad4_def)
    then have len: "xdr_int m (int ?q) = Some (int (length s), int (?q + 4))" using xdr_int_at [OF hl(1)] L by simp
    have "?q + 4 + length s < length m \<and> m ! (?q + 4 + length s) = 0"
    proof (cases "length s mod 4 = 0")
      case True
      then have "p + length (nv_entry (n, d)) = ?q + 4 + length s" using L(1) by (simp add: pad4_def)
      then show ?thesis using nv_body_first [OF b ok(2)] by (simp only:)
    next
      case False
      then have "length s < length (pad4 s)" "pad4 s ! length s = 0" by (simp_all add: pad4_def nth_append)
      then show ?thesis using holds_nth [OF hl(2), of "length s"] by simp
    qed
    moreover have "holds m (?q + 4) s" using hl(2) by (simp add: pad4_def holds_append)
    ultimately have "cstr m (?q + 4) = Some s" using ok(1) by (intro cstr_at) (simp_all add: Nv_str nv_ok_def)
    then have "nv_points m d (Inr (1, Nv_ptr (int (?q + 4))))" unfolding Nv_str nv_points.simps by (intro exI [of _ "?q + 4"]) simp
    then show ?thesis using en(1) len by (simp add: Nv_str find_value_def DATA_TYPE_UINT64_def DATA_TYPE_STRING_def del: of_nat_add)
  next
    case (Nv_list qs)
    then have "holds m ?q (nv_encode qs)" using en(2) by (simp only: nv_payload_encode)
    then have "nv_points m d (Inr (1, Nv_ptr (int ?q)))" unfolding Nv_list nv_points.simps by (intro exI [of _ ?q]) simp
    then show ?thesis using en(1)
      by (simp add: Nv_list find_value_def DATA_TYPE_UINT64_def DATA_TYPE_STRING_def DATA_TYPE_NVLIST_def del: of_nat_add)
  next
    case (Nv_array xs)
    then have "holds m ?q (concat (map nv_encode xs))" using en(2) by (simp only: nv_payload_encode)
    then have "nv_points m d (Inr (int (length xs), Nv_ptr (int ?q)))" unfolding Nv_array nv_points.simps by (intro exI [of _ ?q]) simp
    then show ?thesis using en(1)
      by (simp add: Nv_array find_value_def DATA_TYPE_UINT64_def DATA_TYPE_STRING_def DATA_TYPE_NVLIST_def DATA_TYPE_NVLIST_ARRAY_def del: of_nat_add)
  next
    case (Nv_raw ty b)
    then show ?thesis using en(1) ok(1)
      by (auto simp: nv_ok_def find_value_def DATA_TYPE_UINT64_def DATA_TYPE_STRING_def DATA_TYPE_NVLIST_def DATA_TYPE_NVLIST_ARRAY_def)
  qed
qed

text \<open>The pair that the search stops at: the first of the type whose name is a prefix of the name.\<close>

definition nv_lookup :: "(byte list \<times> nv_data) list \<Rightarrow> byte list \<Rightarrow> int \<Rightarrow> nv_data option" where
  "nv_lookup ps name ty = map_option snd (find (\<lambda>(n, d). prefix n name \<and> ty = int (nv_type d)) ps)"

lemma nv_find_body:
  "holds m p (nv_body ps) \<Longrightarrow> list_all nv_ok ps \<Longrightarrow>
   \<exists>r. nvlist_find_loop m name ty (int p) = Some r \<and> (case nv_lookup ps name ty of None \<Rightarrow> r = Inl EIO | Some d \<Rightarrow> nv_points m d r)"
proof (induction ps arbitrary: p)
  case Nil
  then have "holds m p (be_bytes 4 0)" "holds m (p + 4) (be_bytes 4 0)" unfolding zeros_be by (simp_all add: holds_append)
  then have "xdr_int m (int p) = Some (0, int p + 4)" "xdr_int m (int p + 4) = Some (0, int p + 8)"
    using xdr_int_at [of m p 0] xdr_int_at [of m "p + 4" 0] by (simp_all add: add.commute)
  then show ?case by (subst nvlist_find_loop.simps) (simp add: nv_lookup_def)
next
  case (Cons e ps)
  obtain n d where e: "e = (n, d)" by fastforce
  have h: "holds m p (nv_entry (n, d))" "holds m (p + length (nv_entry (n, d))) (nv_body ps)" and ok: "nv_ok (n, d)" "list_all nv_ok ps"
    using Cons.prems by (simp_all add: e holds_append add.assoc)
  show ?case
  proof (cases "prefix n name \<and> ty = int (nv_type d)")
    case True
    then show ?thesis using nv_find_step [OF h(1) ok(1), of name ty] find_value_points [OF _ ok, of m p] Cons.prems(1)
      by (auto simp: e nv_lookup_def)
  next
    case False
    then show ?thesis using nv_find_step [OF h(1) ok(1), of name ty] Cons.IH [OF h(2) ok(2)] by (auto simp: e nv_lookup_def)
  qed
qed

text \<open>
  C34: a name-value list is searched as it was written.  For every encoded list whose entries have less than 16 MB, \<^verbatim>\<open>nvlist_find\<close> ends without reading
  outside the memory that holds it and stops at the first pair of the wanted type whose name is a prefix of the wanted name, with its number, a pointer to its string,
  which is terminated though the encoding has no terminator, or a pointer to its list or array; without such a pair it fails.
\<close>

theorem nvlist_find_first:
  assumes "holds m p (nv_encode ps)" "list_all nv_ok ps"
  shows "\<exists>r. nvlist_find m (int p) name ty = Some r \<and> (case nv_lookup ps name ty of None \<Rightarrow> r = Inl EIO | Some d \<Rightarrow> nv_points m d r)"
proof -
  have h: "holds m p (be_bytes 4 0)" "holds m (p + 4) (be_bytes 4 1)" "holds m (p + 8) (nv_body ps)"
    using assms(1) by (simp_all add: nv_encode_def holds_append add.assoc)
  have "xdr_int m (int p) = Some (0, int (p + 4))" "xdr_int m (int (p + 4)) = Some (1, int (p + 8))"
    using xdr_int_at [OF h(1)] xdr_int_at [OF h(2)] by (simp_all add: add.commute)
  then show ?thesis using nv_find_body [OF h(3) assms(2), of name ty] by (simp add: nvlist_find_def del: of_nat_add)
qed

definition demo_nvlist :: "(byte list \<times> nv_data) list" where
  "demo_nvlist = [(bytes_of ''version'', Nv_num 28), (bytes_of ''name'', Nv_str (bytes_of ''tank'')), (bytes_of ''hosts'', Nv_raw 1 [])]"

lemma demo_nvlist_ok: "list_all nv_ok demo_nvlist"
  by (simp add: demo_nvlist_def nv_ok_def length_nv_entry pad4_def)

theorem nvlist_find_first_witness:
  "\<exists>q. nvlist_find (nv_encode demo_nvlist) 0 (bytes_of ''name'') DATA_TYPE_STRING = Some (Inr (1, Nv_ptr (int q))) \<and>
     cstr (nv_encode demo_nvlist) q = Some (bytes_of ''tank'')"
proof -
  have "holds (nv_encode demo_nvlist) 0 (nv_encode demo_nvlist)" by (simp add: holds_def)
  from nvlist_find_first [OF this demo_nvlist_ok, of "bytes_of ''name''" DATA_TYPE_STRING]
  show ?thesis by (auto simp: nv_lookup_def demo_nvlist_def DATA_TYPE_STRING_def)
qed

text \<open>A list is skipped to its end, so that the elements of an array are found one after the other.\<close>

lemma nv_next_body:
  "holds m p (nv_body ps) \<Longrightarrow> list_all nv_ok ps \<Longrightarrow> nvlist_next_loop m (int p) = Some (int (p + length (nv_body ps)))"
proof (induction ps arbitrary: p)
  case Nil
  then have "holds m p (be_bytes 4 0)" "holds m (p + 4) (be_bytes 4 0)" unfolding zeros_be by (simp_all add: holds_append)
  then have "xdr_int m (int p) = Some (0, int p + 4)" "xdr_int m (int p + 4) = Some (0, int p + 8)"
    using xdr_int_at [of m p 0] xdr_int_at [of m "p + 4" 0] by (simp_all add: add.commute)
  then show ?case by (subst nvlist_next_loop.simps) simp
next
  case (Cons e ps)
  obtain n d where e: "e = (n, d)" by fastforce
  have h: "holds m p (nv_entry (n, d))" "holds m (p + length (nv_entry (n, d))) (nv_body ps)" and ok: "nv_ok (n, d)" "list_all nv_ok ps"
    using Cons.prems by (simp_all add: e holds_append add.assoc)
  then show ?case using nv_next_step [OF h(1) ok(1)] Cons.IH [OF h(2) ok(2)] by (simp add: e)
qed

lemma nvlist_next_skips:
  assumes "holds m p (nv_encode ps)" "list_all nv_ok ps"
  shows "nvlist_next m (int p) = Some (int (p + length (nv_encode ps)))"
proof -
  have h: "holds m p (be_bytes 4 0)" "holds m (p + 4) (be_bytes 4 1)" "holds m (p + 8) (nv_body ps)"
    using assms(1) by (simp_all add: nv_encode_def holds_append add.assoc)
  have "xdr_int m (int p) = Some (0, int (p + 4))" "xdr_int m (int (p + 4)) = Some (1, int (p + 8))"
    using xdr_int_at [OF h(1)] xdr_int_at [OF h(2)] by (simp_all add: add.commute)
  then show ?thesis using nv_next_body [OF h(3) assms(2)] by (simp add: nvlist_next_def nv_encode_def del: of_nat_add)
qed

text \<open>
  The name of a pair only has to be a prefix: the search for \<^verbatim>\<open>path\<close> also stops at a pair with the empty name or with the
  name \<^verbatim>\<open>pa\<close>, which stands before the right one.
\<close>

lemma nv_lookup_prefix: "nv_lookup [(bytes_of ''id'', Nv_num 7), (bytes_of ''identity'', Nv_num 9)] (bytes_of ''identity'') DATA_TYPE_UINT64 = Some (Nv_num 7)"
  by (simp add: nv_lookup_def DATA_TYPE_UINT64_def)

end
