(* ===== verification/ZfsPool.thy ===== *)
theory ZfsPool
  imports ZfsNvlist
begin

text \<open>
  Devices and pools of \<^verbatim>\<open>boot/zfs/zfsimpl.c\<close>: the tree of virtual devices that the labels describe, reads through it, and
  \<^verbatim>\<open>vdev_probe\<close>, which takes a device into its pool and finds the newest uberblock.

  Devices stand in the order of their creation and a pointer to one is its number.  Memory is enough: \<^verbatim>\<open>malloc\<close> is not checked
  by the code.  A device that is put on a second list of children corrupts both lists; the model ends there with \<^term>\<open>None\<close>.
  \<^verbatim>\<open>zfsimpl.h\<close> and \<^verbatim>\<open>zfssubr.c\<close> are not part of the repository: the layout of the disk is written out from its public specification, and
  the checksums, the decompression, the hash function, RAID-Z and the newest version that is understood are fields of the
  record \<open>zfs_env\<close>, together with the reads of the physical devices.
\<close>

section \<open>Layout of the disk\<close>

text \<open>Fields of structures that are present in full.\<close>

definition fld :: "byte list \<Rightarrow> nat \<Rightarrow> nat \<Rightarrow> 'a::len word" where
  "fld bs off n = word_of_nat (le_nat (take n (drop off bs)))"

definition bits :: "nat \<Rightarrow> nat \<Rightarrow> u64 \<Rightarrow> nat" where
  "bits lo len x = unat (take_bit len (drop_bit lo x))"

definition set_bits :: "nat \<Rightarrow> nat \<Rightarrow> nat \<Rightarrow> u64 \<Rightarrow> u64" where
  "set_bits lo len v x = (x AND NOT (push_bit lo (mask len))) OR push_bit lo (take_bit len (word_of_nat v))"

record blkptr =
  blk_dva :: "(u64 \<times> u64) list"
  blk_prop :: u64
  blk_birth :: u64
  blk_cksum :: "u64 list"

definition SIZEOF_BLKPTR :: nat where "SIZEOF_BLKPTR = 128"

definition rd_blkptr :: "byte list \<Rightarrow> blkptr" where
  "rd_blkptr bs = \<lparr>blk_dva = map (\<lambda>i. (fld bs (16 * i) 8, fld bs (16 * i + 8) 8)) [0, 1, 2], blk_prop = fld bs 48 8,
     blk_birth = fld bs 80 8, blk_cksum = map (\<lambda>i. fld bs (96 + 8 * i) 8) [0, 1, 2, 3]\<rparr>"

definition BP_ZERO :: blkptr where
  "BP_ZERO = \<lparr>blk_dva = [(0, 0), (0, 0), (0, 0)], blk_prop = 0, blk_birth = 0, blk_cksum = [0, 0, 0, 0]\<rparr>"

definition BP_GET_LSIZE :: "blkptr \<Rightarrow> nat" where "BP_GET_LSIZE bp = (bits 0 16 (blk_prop bp) + 1) * 512"
definition BP_GET_PSIZE :: "blkptr \<Rightarrow> nat" where "BP_GET_PSIZE bp = (bits 16 16 (blk_prop bp) + 1) * 512"
definition BP_GET_COMPRESS :: "blkptr \<Rightarrow> nat" where "BP_GET_COMPRESS bp = bits 32 8 (blk_prop bp)"
definition BP_SET_LSIZE :: "nat \<Rightarrow> blkptr \<Rightarrow> blkptr" where "BP_SET_LSIZE n bp = bp\<lparr>blk_prop := set_bits 0 16 (n div 512 - 1) (blk_prop bp)\<rparr>"
definition BP_SET_PSIZE :: "nat \<Rightarrow> blkptr \<Rightarrow> blkptr" where "BP_SET_PSIZE n bp = bp\<lparr>blk_prop := set_bits 16 16 (n div 512 - 1) (blk_prop bp)\<rparr>"
definition BP_SET_COMPRESS :: "nat \<Rightarrow> blkptr \<Rightarrow> blkptr" where "BP_SET_COMPRESS n bp = bp\<lparr>blk_prop := set_bits 32 8 n (blk_prop bp)\<rparr>"
definition BP_SET_CHECKSUM :: "nat \<Rightarrow> blkptr \<Rightarrow> blkptr" where "BP_SET_CHECKSUM n bp = bp\<lparr>blk_prop := set_bits 40 8 n (blk_prop bp)\<rparr>"
definition BP_IS_HOLE :: "blkptr \<Rightarrow> bool" where "BP_IS_HOLE bp \<longleftrightarrow> blk_birth bp = 0"

definition DVA_GET_VDEV :: "u64 \<times> u64 \<Rightarrow> u32" where "DVA_GET_VDEV d = ucast (drop_bit 32 (fst d))"
definition DVA_GET_OFFSET :: "u64 \<times> u64 \<Rightarrow> u64" where "DVA_GET_OFFSET d = push_bit 9 (take_bit 63 (snd d))"
definition DVA_GET_GANG :: "u64 \<times> u64 \<Rightarrow> bool" where "DVA_GET_GANG d \<longleftrightarrow> bit (snd d) 63"
definition DVA_SET_OFFSET :: "u64 \<Rightarrow> u64 \<times> u64 \<Rightarrow> u64 \<times> u64" where "DVA_SET_OFFSET off d = (fst d, set_bits 0 63 (unat off div 512) (snd d))"
definition DVA_CLEAR_GANG :: "u64 \<times> u64 \<Rightarrow> u64 \<times> u64" where "DVA_CLEAR_GANG d = (fst d, take_bit 63 (snd d))"

definition ZIO_COMPRESS_OFF :: nat where "ZIO_COMPRESS_OFF = 2"
definition ZIO_CHECKSUM_LABEL :: nat where "ZIO_CHECKSUM_LABEL = 3"
definition VDEV_LABEL_START_SIZE :: u64 where "VDEV_LABEL_START_SIZE = 0x400000"
definition SIZEOF_VDEV_PHYS :: nat where "SIZEOF_VDEV_PHYS = 114688"
definition VDEV_PHYS_OFFSET :: u64 where "VDEV_PHYS_OFFSET = 16384"
definition UBERBLOCK_OFFSET :: nat where "UBERBLOCK_OFFSET = 131072"
definition UBERBLOCK_RING :: nat where "UBERBLOCK_RING = 131072"
definition UBERBLOCK_MAGIC :: u64 where "UBERBLOCK_MAGIC = 0xbab10c"
definition SPA_MAXBLOCKSIZE :: nat where "SPA_MAXBLOCKSIZE = 131072"
definition POOL_STATE_DESTROYED :: u64 where "POOL_STATE_DESTROYED = 2"
definition OBJSET_PHYS_SIZE :: nat where "OBJSET_PHYS_SIZE = 2048"

record uberblock =
  ub_magic :: u64
  ub_txg :: u64
  ub_timestamp :: u64
  ub_rootbp :: blkptr

definition rd_uberblock :: "byte list \<Rightarrow> uberblock" where
  "rd_uberblock b = \<lparr>ub_magic = fld b 0 8, ub_txg = fld b 16 8, ub_timestamp = fld b 32 8, ub_rootbp = rd_blkptr (drop 40 b)\<rparr>"

section \<open>State\<close>

datatype vdev_state = VDEV_STATE_UNKNOWN | VDEV_STATE_CLOSED | VDEV_STATE_OFFLINE | VDEV_STATE_REMOVED | VDEV_STATE_CANT_OPEN
  | VDEV_STATE_FAULTED | VDEV_STATE_DEGRADED | VDEV_STATE_HEALTHY

text \<open>The function that \<^verbatim>\<open>v_read\<close> points to.\<close>

datatype vdev_kind = Vdev_disk_read | Vdev_mirror_read | Vdev_raidz_read | Vdev_replacing_read

record 'd vdev =
  v_guid :: u64
  v_id :: u32
  v_top :: nat
  v_ashift :: u32
  v_nparity :: u32
  v_name :: "byte list"
  v_state :: vdev_state
  v_nchildren :: int
  v_children :: "nat list"
  v_read :: vdev_kind
  v_phys_read :: "'d option"

record spa =
  spa_name :: "byte list"
  spa_guid :: u64
  spa_txg :: u64
  spa_uberblock :: uberblock
  spa_vdevs :: "nat list"
  spa_mos :: "byte list"
  spa_inited :: bool

text \<open>The static variables; \<open>z_dev\<close> is the state of the physical devices, and the object of the cache is an address.\<close>

record ('d, 's) zfs =
  zfs_vdevs :: "'d vdev list"
  zfs_pools :: "spa list"
  dnode_cache_obj :: "nat option"
  dnode_cache_bn :: u64
  dnode_cache_buf :: "byte list"
  zap_scratch :: "byte list"
  zfs_temp_buf :: "byte list"
  zfs_temp_ptr :: nat
  z_dev :: 's

text \<open>
  The code outside the repository: a physical read delivers a result and the bytes that it puts into the buffer;
  \<open>e_cksum\<close> is true when the data do not have the checksum; a decompression returns an error and what it wrote.
\<close>

record ('d, 's) zfs_env =
  e_read :: "'d \<Rightarrow> u64 \<Rightarrow> nat \<Rightarrow> 's \<Rightarrow> int \<times> byte list \<times> 's"
  e_cksum :: "blkptr \<Rightarrow> byte list \<Rightarrow> bool"
  e_decompress :: "nat \<Rightarrow> byte list \<Rightarrow> nat \<Rightarrow> int \<times> byte list"
  e_raidz :: "'d vdev list \<Rightarrow> nat \<Rightarrow> blkptr \<Rightarrow> byte list \<Rightarrow> u64 \<Rightarrow> nat \<Rightarrow> 's \<Rightarrow> (int \<times> byte list \<times> 's) option"
  e_zap_hash :: "u64 \<Rightarrow> byte list \<Rightarrow> u64"
  e_spa_version :: u64

text \<open>
  The function \<^verbatim>\<open>vdev_read\<close> of \<^verbatim>\<open>zfs.c\<close>, with which the loader reads a device through an open file: \<open>lsk\<close> and \<open>rdf\<close> are
  \<^verbatim>\<open>lseek\<close> and \<^verbatim>\<open>read\<close>.
\<close>

definition fd_vdev_read ::
  "('d \<Rightarrow> int \<Rightarrow> 's \<Rightarrow> int \<times> 's) \<Rightarrow> ('d \<Rightarrow> nat \<Rightarrow> 's \<Rightarrow> int \<times> byte list \<times> 's) \<Rightarrow> 'd \<Rightarrow> u64 \<Rightarrow> nat \<Rightarrow> 's \<Rightarrow> int \<times> byte list \<times> 's" where
  "fd_vdev_read lsk rdf fd off sz s =
     (let (_, s1) = lsk fd (sint off) s; (got, data, s2) = rdf fd sz s1 in (if got = int sz then 0 else EIO, data, s2))"

definition TEMP_SIZE :: nat where "TEMP_SIZE = 1024 * 1024"

definition zfs_init :: "byte list \<Rightarrow> byte list \<Rightarrow> byte list \<Rightarrow> 's \<Rightarrow> ('d, 's) zfs" where
  "zfs_init temp cbuf scratch dv =
     \<lparr>zfs_vdevs = [], zfs_pools = [], dnode_cache_obj = None, dnode_cache_bn = 0, dnode_cache_buf = cbuf, zap_scratch = scratch,
      zfs_temp_buf = temp, zfs_temp_ptr = 0, z_dev = dv\<rparr>"

text \<open>Running out of the temporary buffer and freeing out of order are endless loops.\<close>

definition zfs_alloc :: "nat \<Rightarrow> ('d, 's) zfs \<Rightarrow> (nat \<times> ('d, 's) zfs) option" where
  "zfs_alloc sz z =
     (if zfs_temp_ptr z + sz > TEMP_SIZE then None
      else Some (zfs_temp_ptr z, z\<lparr>zfs_temp_ptr := zfs_temp_ptr z + sz\<rparr>))"

definition zfs_free :: "nat \<Rightarrow> nat \<Rightarrow> ('d, 's) zfs \<Rightarrow> ('d, 's) zfs option" where
  "zfs_free ptr sz z =
     (if int (zfs_temp_ptr z) - int sz \<noteq> int ptr then None else Some (z\<lparr>zfs_temp_ptr := ptr\<rparr>))"

section \<open>Reading through the tree of devices\<close>

type_synonym 's read_result = "(int \<times> byte list \<times> 's) option"

definition vdev_read_phys :: "('d, 's) zfs_env \<Rightarrow> 'd vdev \<Rightarrow> blkptr option \<Rightarrow> byte list \<Rightarrow> u64 \<Rightarrow> nat \<Rightarrow> 's \<Rightarrow> 's read_result" where
  "vdev_read_phys E vd bpo buf off sz s =
     (case v_phys_read vd of
        None \<Rightarrow> Some (EIO, buf, s)
      | Some d \<Rightarrow> do {
          let psize = (case bpo of None \<Rightarrow> sz | Some bp \<Rightarrow> BP_GET_PSIZE bp);
          let (rc, data, s1) = e_read E d off psize s;
          buf1 \<leftarrow> store buf 0 data;
          if rc \<noteq> 0 then Some (rc, buf1, s1)
          else (case bpo of
              None \<Rightarrow> Some (0, buf1, s1)
            | Some bp \<Rightarrow> do {
                b \<leftarrow> slice buf1 0 psize;
                Some (if e_cksum E bp b then EIO else 0, buf1, s1)
              })
        })"

definition vdev_disk_read :: "('d, 's) zfs_env \<Rightarrow> 'd vdev \<Rightarrow> blkptr \<Rightarrow> byte list \<Rightarrow> u64 \<Rightarrow> nat \<Rightarrow> 's \<Rightarrow> 's read_result" where
  "vdev_disk_read E vd bp buf off bytes s = vdev_read_phys E vd (Some bp) buf (off + VDEV_LABEL_START_SIZE) bytes s"

text \<open>The children in turn; \<open>rdk\<close> is \<^verbatim>\<open>kid->v_read\<close>.\<close>

fun vdev_mirror_read :: "(nat \<Rightarrow> byte list \<Rightarrow> 's \<Rightarrow> 's read_result) \<Rightarrow> 'd vdev list \<Rightarrow> nat list \<Rightarrow> int \<Rightarrow> byte list \<Rightarrow> 's \<Rightarrow> 's read_result" where
  "vdev_mirror_read rdk vds [] rc buf s = Some (rc, buf, s)"
| "vdev_mirror_read rdk vds (k # ks) rc buf s = do {
     kid \<leftarrow> rd vds k;
     if v_state kid \<noteq> VDEV_STATE_HEALTHY then vdev_mirror_read rdk vds ks rc buf s
     else do {
       (rc1, buf1, s1) \<leftarrow> rdk k buf s;
       if rc1 = 0 then Some (0, buf1, s1) else vdev_mirror_read rdk vds ks rc1 buf1 s1
     }
   }"

definition vdev_replacing_read :: "(nat \<Rightarrow> byte list \<Rightarrow> 's \<Rightarrow> 's read_result) \<Rightarrow> 'd vdev list \<Rightarrow> nat list \<Rightarrow> byte list \<Rightarrow> 's \<Rightarrow> 's read_result" where
  "vdev_replacing_read rdk vds ks buf s =
     (case ks of
        [] \<Rightarrow> Some (EIO, buf, s)
      | k # _ \<Rightarrow> do {
          kid \<leftarrow> rd vds k;
          if v_state kid \<noteq> VDEV_STATE_HEALTHY then Some (EIO, buf, s) else rdk k buf s
        })"

lemma mono_mirror [partial_function_mono]:
  assumes "\<And>k b s. mono_option (\<lambda>f. R f k b s)"
  shows "mono_option (\<lambda>f. vdev_mirror_read (R f) vds ks rc buf s)"
proof (induction ks arbitrary: rc buf s)
  case (Cons k ks)
  have "mono_option (\<lambda>f. case y of (rc1, buf1, s1) \<Rightarrow> if rc1 = 0 then Some (0, buf1, s1) else vdev_mirror_read (R f) vds ks rc1 buf1 s1)" for y
    by (cases y) (auto intro!: Cons.IH if_mono option.const_mono)
  then show ?case
    unfolding vdev_mirror_read.simps by (intro bind_mono option.const_mono if_mono Cons.IH assms)
qed (simp add: option.const_mono)

lemma mono_replacing [partial_function_mono]:
  assumes "\<And>k b s. mono_option (\<lambda>f. R f k b s)"
  shows "mono_option (\<lambda>f. vdev_replacing_read (R f) vds ks buf s)"
  unfolding vdev_replacing_read_def
  by (cases ks) (auto intro!: bind_mono option.const_mono if_mono assms)

text \<open>\<^verbatim>\<open>vdev->v_read\<close>: a device that is its own descendant is read forever.\<close>

partial_function (option) vdev_read ::
  "('d, 's) zfs_env \<Rightarrow> 'd vdev list \<Rightarrow> blkptr \<Rightarrow> u64 \<Rightarrow> nat \<Rightarrow> nat \<Rightarrow> byte list \<Rightarrow> 's \<Rightarrow> 's read_result" where
  "vdev_read E vds bp off bytes i buf s = do {
     vd \<leftarrow> rd vds i;
     (case v_read vd of
        Vdev_disk_read \<Rightarrow> vdev_disk_read E vd bp buf off bytes s
      | Vdev_mirror_read \<Rightarrow> vdev_mirror_read (\<lambda>k b s. vdev_read E vds bp off bytes k b s) vds (v_children vd) EIO buf s
      | Vdev_replacing_read \<Rightarrow> vdev_replacing_read (\<lambda>k b s. vdev_read E vds bp off bytes k b s) vds (v_children vd) buf s
      | Vdev_raidz_read \<Rightarrow> e_raidz E vds i bp buf off bytes s)
   }"

section \<open>The tree of a label\<close>

fun index_of :: "('a \<Rightarrow> bool) \<Rightarrow> 'a list \<Rightarrow> nat option" where
  "index_of P [] = None"
| "index_of P (x # xs) = (if P x then Some 0 else map_option Suc (index_of P xs))"

definition vdev_find :: "u64 \<Rightarrow> ('d, 's) zfs \<Rightarrow> nat option" where
  "vdev_find guid z = index_of (\<lambda>v. v_guid v = guid) (zfs_vdevs z)"

definition vdev_create :: "u64 \<Rightarrow> vdev_kind \<Rightarrow> ('d, 's) zfs \<Rightarrow> nat \<times> ('d, 's) zfs" where
  "vdev_create guid kind z =
     (length (zfs_vdevs z), z\<lparr>zfs_vdevs := zfs_vdevs z @
        [\<lparr>v_guid = guid, v_id = 0, v_top = 0, v_ashift = 0, v_nparity = 0, v_name = [], v_state = VDEV_STATE_OFFLINE, v_nchildren = 0,
          v_children = [], v_read = kind, v_phys_read = None\<rparr>]\<rparr>)"

definition set_vdev :: "nat \<Rightarrow> ('d vdev \<Rightarrow> 'd vdev) \<Rightarrow> ('d, 's) zfs \<Rightarrow> ('d, 's) zfs" where
  "set_vdev i f z = z\<lparr>zfs_vdevs := (zfs_vdevs z)[i := f (zfs_vdevs z ! i)]\<rparr>"

text \<open>Values of pairs; \<^term>\<open>Some None\<close> is a pair that was not found.  A string that is not terminated counts as a fault.\<close>

definition find_u64 :: "byte list \<Rightarrow> int \<Rightarrow> string \<Rightarrow> u64 option option" where
  "find_u64 m nv name = do {
     r \<leftarrow> nvlist_find m nv (bytes_of name) DATA_TYPE_UINT64;
     Some (case r of Inr (_, Nv_uint64 v) \<Rightarrow> Some v | _ \<Rightarrow> None)
   }"

definition find_str :: "byte list \<Rightarrow> int \<Rightarrow> string \<Rightarrow> byte list option option" where
  "find_str m nv name = do {
     r \<leftarrow> nvlist_find m nv (bytes_of name) DATA_TYPE_STRING;
     case r of Inr (_, Nv_ptr p) \<Rightarrow> map_option Some (cstr m (nat p)) | _ \<Rightarrow> Some None
   }"

definition find_list :: "byte list \<Rightarrow> int \<Rightarrow> string \<Rightarrow> int \<Rightarrow> (int \<times> int) option option" where
  "find_list m nv name ty = do {
     r \<leftarrow> nvlist_find m nv (bytes_of name) ty;
     Some (case r of Inr (n, Nv_ptr p) \<Rightarrow> Some (n, p) | _ \<Rightarrow> None)
   }"

definition find_flag :: "byte list \<Rightarrow> int \<Rightarrow> string \<Rightarrow> bool option" where
  "find_flag m nv name = map_option (\<lambda>r. r \<noteq> None \<and> r \<noteq> Some 0) (find_u64 m nv name)"

definition kind_of_type :: "byte list \<Rightarrow> vdev_kind option" where
  "kind_of_type ty =
     (if ty = bytes_of ''mirror'' then Some Vdev_mirror_read
      else if ty = bytes_of ''raidz'' then Some Vdev_raidz_read
      else if ty = bytes_of ''replacing'' then Some Vdev_replacing_read
      else if ty = bytes_of ''disk'' then Some Vdev_disk_read
      else None)"

text \<open>The name of a device without a path.\<close>

definition type_name :: "byte list \<Rightarrow> u32 \<Rightarrow> byte list option" where
  "type_name ty nparity =
     (if ty = bytes_of ''raidz''
      then (if nparity = 1 then Some (bytes_of ''raidz1'') else if nparity = 2 then Some (bytes_of ''raidz2'')
            else if nparity = 3 then Some (bytes_of ''raidz3'') else None)
      else Some ty)"

definition new_vdev ::
  "byte list \<Rightarrow> int \<Rightarrow> u64 \<Rightarrow> u64 \<Rightarrow> byte list \<Rightarrow> vdev_kind \<Rightarrow> nat option \<Rightarrow> ('d, 's) zfs \<Rightarrow> ((int + nat) \<times> ('d, 's) zfs) option" where
  "new_vdev m nv guid vid ty kind pvdev z = do {
     let (i, z1) = vdev_create guid kind z;
     ashift \<leftarrow> find_u64 m nv ''ashift'';
     nparity \<leftarrow> find_u64 m nv ''nparity'';
     path \<leftarrow> find_str m nv ''path'';
     let np = (case nparity of None \<Rightarrow> 0 | Some x \<Rightarrow> ucast x);
     let z2 = set_vdev i (\<lambda>v. v\<lparr>v_id := ucast vid, v_top := (case pvdev of None \<Rightarrow> i | Some p \<Rightarrow> p),
                v_ashift := (case ashift of None \<Rightarrow> 0 | Some x \<Rightarrow> ucast x), v_nparity := np\<rparr>) z1;
     Some (case (case path of None \<Rightarrow> type_name ty np
                 | Some p \<Rightarrow> Some (if take 5 p = bytes_of ''/dev/'' then drop 5 p else p)) of
             None \<Rightarrow> (Inl EIO, z2)
           | Some nm \<Rightarrow> (Inr i, set_vdev i (\<lambda>v. v\<lparr>v_name := nm\<rparr>) z2))
   }"

definition label_state :: "byte list \<Rightarrow> int \<Rightarrow> vdev_state option option" where
  "label_state m nv = do {
     is_offline \<leftarrow> find_flag m nv ''offline'';
     is_removed \<leftarrow> find_flag m nv ''removed'';
     is_faulted \<leftarrow> find_flag m nv ''faulted'';
     is_degraded \<leftarrow> find_flag m nv ''degraded'';
     isnt_present \<leftarrow> find_flag m nv ''not_present'';
     Some (if is_offline then Some VDEV_STATE_OFFLINE
           else if is_removed then Some VDEV_STATE_REMOVED
           else if is_faulted then Some VDEV_STATE_FAULTED
           else if is_degraded then Some VDEV_STATE_DEGRADED
           else if isnt_present then Some VDEV_STATE_CANT_OPEN
           else None)
   }"

definition linked :: "nat \<Rightarrow> ('d, 's) zfs \<Rightarrow> bool" where
  "linked i z \<longleftrightarrow> (\<exists>v \<in> set (zfs_vdevs z). i \<in> set (v_children v)) \<or> (\<exists>p \<in> set (zfs_pools z). i \<in> set (spa_vdevs p))"

definition add_child :: "nat \<Rightarrow> nat \<Rightarrow> ('d, 's) zfs \<Rightarrow> ('d, 's) zfs option" where
  "add_child i kid z = (if linked kid z then None else Some (set_vdev i (\<lambda>v. v\<lparr>v_children := v_children v @ [kid]\<rparr>) z))"

text \<open>The loop over the children; \<open>f\<close> is the recursive call.\<close>

fun init_kids ::
  "(int \<Rightarrow> ('d, 's) zfs \<Rightarrow> ((int + nat) \<times> ('d, 's) zfs) option) \<Rightarrow> byte list \<Rightarrow> bool \<Rightarrow> nat \<Rightarrow> nat \<Rightarrow> int \<Rightarrow> ('d, 's) zfs \<Rightarrow> (int \<times> ('d, 's) zfs) option" where
  "init_kids f m is_new i 0 kids z = Some (0, z)"
| "init_kids f m is_new i (Suc n) kids z = do {
     (r, z1) \<leftarrow> f kids z;
     (case r of
        Inl rc \<Rightarrow> Some (rc, z1)
      | Inr kid \<Rightarrow> do {
          z2 \<leftarrow> (if is_new then add_child i kid z1 else Some z1);
          kids' \<leftarrow> nvlist_next m kids;
          init_kids f m is_new i n kids' z2
        })
   }"

lemma mono_init_kids [partial_function_mono]:
  assumes "\<And>k z. mono_option (\<lambda>f. R f k z)"
  shows "mono_option (\<lambda>f. init_kids (R f) m is_new i n kids z)"
proof (induction n arbitrary: kids z)
  case (Suc n)
  have "mono_option (\<lambda>f. case y of (r, z1) \<Rightarrow> (case r of Inl rc \<Rightarrow> Some (rc, z1) | Inr kid \<Rightarrow> do {
          z2 \<leftarrow> (if is_new then add_child i kid z1 else Some z1);
          kids' \<leftarrow> nvlist_next m kids;
          init_kids (R f) m is_new i n kids' z2 }))" for y
    by (cases y; cases "fst y"; simp only: fst_conv prod.case sum.case; intro bind_mono option.const_mono Suc.IH)
  then show ?case unfolding init_kids.simps by (intro bind_mono assms)
qed (simp add: option.const_mono)

definition vdev_ids :: "byte list \<Rightarrow> int \<Rightarrow> (u64 \<times> u64 \<times> byte list) option option" where
  "vdev_ids m nv = do {
     g \<leftarrow> find_u64 m nv ''guid'';
     case g of None \<Rightarrow> Some None | Some guid \<Rightarrow> do {
       i \<leftarrow> find_u64 m nv ''id'';
       case i of None \<Rightarrow> Some None | Some vid \<Rightarrow> do {
         t \<leftarrow> find_str m nv ''type'';
         Some (map_option (\<lambda>ty. (guid, vid, ty)) t)
       }
     }
   }"

partial_function (option) vdev_init_from_nvlist ::
  "byte list \<Rightarrow> bool \<Rightarrow> int \<Rightarrow> nat option \<Rightarrow> ('d, 's) zfs \<Rightarrow> ((int + nat) \<times> ('d, 's) zfs) option" where
  "vdev_init_from_nvlist m is_newer nv pvdev z = do {
     ids \<leftarrow> vdev_ids m nv;
     (case ids of
        None \<Rightarrow> Some (Inl ENOENT, z)
      | Some (guid, vid, ty) \<Rightarrow>
          (case kind_of_type ty of
             None \<Rightarrow> Some (Inl EIO, z)
           | Some kind \<Rightarrow> do {
               st \<leftarrow> label_state m nv;
               let old = vdev_find guid z;
               (r, z1) \<leftarrow> (case old of None \<Rightarrow> new_vdev m nv guid vid ty kind pvdev z | Some i \<Rightarrow> Some (Inr i, z));
               (case r of
                  Inl rc \<Rightarrow> Some (Inl rc, z1)
                | Inr i \<Rightarrow> do {
                    let z2 = (if old = None \<or> is_newer
                              then (case st of None \<Rightarrow> z1 | Some s \<Rightarrow> set_vdev i (\<lambda>v. v\<lparr>v_state := s\<rparr>) z1) else z1);
                    kids \<leftarrow> find_list m nv ''children'' DATA_TYPE_NVLIST_ARRAY;
                    (case kids of
                       None \<Rightarrow> Some (Inr i, set_vdev i (\<lambda>v. v\<lparr>v_nchildren := 0\<rparr>) z2)
                     | Some (nkids, p) \<Rightarrow> do {
                         (rc, z3) \<leftarrow> init_kids (\<lambda>k z. vdev_init_from_nvlist m is_newer k (Some i) z) m (old = None) i (nat nkids) p
                           (set_vdev i (\<lambda>v. v\<lparr>v_nchildren := nkids\<rparr>) z2);
                         Some (if rc \<noteq> 0 then Inl rc else Inr i, z3)
                       })
                  })
             }))
   }"

section \<open>Pools\<close>

definition vdev_set_state :: "nat \<Rightarrow> ('d, 's) zfs \<Rightarrow> ('d, 's) zfs" where
  "vdev_set_state i z =
     (let v = zfs_vdevs z ! i;
          good = length (filter (\<lambda>k. v_state (zfs_vdevs z ! k) = VDEV_STATE_HEALTHY) (v_children v));
          bad = length (filter (\<lambda>k. v_state (zfs_vdevs z ! k) \<noteq> VDEV_STATE_HEALTHY) (v_children v));
          set = (\<lambda>st. set_vdev i (\<lambda>v. v\<lparr>v_state := st\<rparr>) z)
      in if v_children v = [] then z
         else if bad = 0 then set VDEV_STATE_HEALTHY
         else if v_read v = Vdev_mirror_read then set (if good \<noteq> 0 then VDEV_STATE_DEGRADED else VDEV_STATE_OFFLINE)
         else if v_read v = Vdev_raidz_read then set (if int bad > sint (v_nparity v) then VDEV_STATE_OFFLINE else VDEV_STATE_DEGRADED)
         else z)"

definition spa_find_by_guid :: "u64 \<Rightarrow> ('d, 's) zfs \<Rightarrow> nat option" where
  "spa_find_by_guid guid z = index_of (\<lambda>p. spa_guid p = guid) (zfs_pools z)"

definition spa_find_by_name :: "byte list \<Rightarrow> ('d, 's) zfs \<Rightarrow> nat option" where
  "spa_find_by_name name z = index_of (\<lambda>p. spa_name p = name) (zfs_pools z)"

definition spa_create :: "u64 \<Rightarrow> byte list \<Rightarrow> ('d, 's) zfs \<Rightarrow> nat \<times> ('d, 's) zfs" where
  "spa_create guid name z =
     (length (zfs_pools z), z\<lparr>zfs_pools := zfs_pools z @
        [\<lparr>spa_name = name, spa_guid = guid, spa_txg = 0,
          spa_uberblock = \<lparr>ub_magic = 0, ub_txg = 0, ub_timestamp = 0, ub_rootbp = BP_ZERO\<rparr>, spa_vdevs = [],
          spa_mos = replicate OBJSET_PHYS_SIZE 0, spa_inited = False\<rparr>]\<rparr>)"

definition set_spa :: "nat \<Rightarrow> (spa \<Rightarrow> spa) \<Rightarrow> ('d, 's) zfs \<Rightarrow> ('d, 's) zfs" where
  "set_spa i f z = z\<lparr>zfs_pools := (zfs_pools z)[i := f (zfs_pools z ! i)]\<rparr>"

definition label_bp :: "u64 \<Rightarrow> nat \<Rightarrow> blkptr" where
  "label_bp off sz =
     (let bp = BP_SET_COMPRESS ZIO_COMPRESS_OFF (BP_SET_CHECKSUM ZIO_CHECKSUM_LABEL (BP_SET_PSIZE sz (BP_SET_LSIZE sz BP_ZERO)))
      in bp\<lparr>blk_dva := (blk_dva bp)[0 := DVA_SET_OFFSET off (blk_dva bp ! 0)], blk_cksum := [off, 0, 0, 0]\<rparr>)"

text \<open>
  What the label says about the pool: \<^term>\<open>Some None\<close> is \<^verbatim>\<open>EIO\<close>.  \<open>wanted\<close> is the continuation that needs the value.
\<close>

definition wanted :: "'a option option \<Rightarrow> ('a \<Rightarrow> 'b option option) \<Rightarrow> 'b option option" where
  "wanted r f = do { v \<leftarrow> r; case v of None \<Rightarrow> Some None | Some x \<Rightarrow> f x }"

definition probe_label :: "u64 \<Rightarrow> byte list \<Rightarrow> (u64 \<times> u64 \<times> byte list) option option" where
  "probe_label version m =
     wanted (find_u64 m 4 ''version'') (\<lambda>ver.
     if ver > version then Some None else
     wanted (find_u64 m 4 ''state'') (\<lambda>st.
     if st = POOL_STATE_DESTROYED then Some None else
     wanted (find_u64 m 4 ''txg'') (\<lambda>txg.
     wanted (find_u64 m 4 ''pool_guid'') (\<lambda>guid.
     wanted (find_str m 4 ''name'') (\<lambda>name. do {
       is_log \<leftarrow> find_flag m 4 ''is_log'';
       Some (if is_log then None else Some (txg, guid, name))
     })))))"

text \<open>The pool of the label, made when it is new, and whether the label is newer than the ones seen before.\<close>

definition probe_spa :: "u64 \<Rightarrow> u64 \<Rightarrow> byte list \<Rightarrow> ('d, 's) zfs \<Rightarrow> nat \<times> bool \<times> ('d, 's) zfs" where
  "probe_spa txg guid name z =
     (let (i, z1) = (case spa_find_by_guid guid z of None \<Rightarrow> spa_create guid name z | Some i \<Rightarrow> (i, z))
      in if txg > spa_txg (zfs_pools z1 ! i) then (i, True, set_spa i (\<lambda>p. p\<lparr>spa_txg := txg\<rparr>) z1) else (i, False, z1))"

definition add_top :: "nat \<Rightarrow> nat \<Rightarrow> ('d, 's) zfs \<Rightarrow> ('d, 's) zfs option" where
  "add_top i tv z =
     (if tv \<in> set (spa_vdevs (zfs_pools z ! i)) then Some z
      else if linked tv z then None
      else Some (set_spa i (\<lambda>p. p\<lparr>spa_vdevs := spa_vdevs p @ [tv]\<rparr>) z))"

definition newer_uberblock :: "u64 \<Rightarrow> uberblock \<Rightarrow> uberblock \<Rightarrow> uberblock" where
  "newer_uberblock txg up old =
     (if ub_magic up \<noteq> UBERBLOCK_MAGIC \<or> ub_txg up < txg then old
      else if ub_txg up > ub_txg old then up
      else if ub_txg up = ub_txg old \<and> ub_timestamp up > ub_timestamp old then up
      else old)"

fun uber_scan ::
  "('d, 's) zfs_env \<Rightarrow> 'd vdev \<Rightarrow> nat \<Rightarrow> u64 \<Rightarrow> nat list \<Rightarrow> byte list \<Rightarrow> uberblock \<Rightarrow> 's \<Rightarrow> (byte list \<times> uberblock \<times> 's) option" where
  "uber_scan E vd shift txg [] upbuf ub s = Some (upbuf, ub, s)"
| "uber_scan E vd shift txg (i # is) upbuf ub s = do {
     let off = word_of_nat (UBERBLOCK_OFFSET + i * 2 ^ shift);
     (rc, upbuf1, s1) \<leftarrow> vdev_read_phys E vd (Some (label_bp off (2 ^ shift))) upbuf off 0 s;
     uber_scan E vd shift txg is upbuf1 (if rc \<noteq> 0 then ub else newer_uberblock txg (rd_uberblock upbuf1) ub) s1
   }"

definition uberblock_shift :: "'d vdev list \<Rightarrow> 'd vdev \<Rightarrow> nat" where
  "uberblock_shift vds v = nat (max (sint (v_ashift (vds ! v_top v))) 10)"

definition find_uberblock :: "('d, 's) zfs_env \<Rightarrow> nat \<Rightarrow> nat \<Rightarrow> ('d, 's) zfs \<Rightarrow> ('d, 's) zfs option" where
  "find_uberblock E i vi z = do {
     let v = zfs_vdevs z ! vi;
     let shift = uberblock_shift (zfs_vdevs z) v;
     (ptr, z1) \<leftarrow> zfs_alloc (2 ^ shift) z;
     upbuf \<leftarrow> slice (zfs_temp_buf z1) ptr (2 ^ shift);
     (upbuf1, ub, s1) \<leftarrow> uber_scan E v shift (spa_txg (zfs_pools z ! i)) [0..<UBERBLOCK_RING div 2 ^ shift] upbuf
       (spa_uberblock (zfs_pools z ! i)) (z_dev z1);
     temp \<leftarrow> store (zfs_temp_buf z1) ptr upbuf1;
     zfs_free ptr (2 ^ shift) (set_spa i (\<lambda>p. p\<lparr>spa_uberblock := ub\<rparr>) (z1\<lparr>zfs_temp_buf := temp, z_dev := s1\<rparr>))
   }"

definition probe_vdev :: "('d, 's) zfs_env \<Rightarrow> 'd \<Rightarrow> byte list \<Rightarrow> nat \<Rightarrow> bool \<Rightarrow> ('d, 's) zfs \<Rightarrow> ((int + nat) \<times> ('d, 's) zfs) option" where
  "probe_vdev E d m i is_newer z = do {
     g \<leftarrow> find_u64 m 4 ''guid'';
     case g of None \<Rightarrow> Some (Inl EIO, z)
     | Some guid \<Rightarrow>
         if (case vdev_find guid z of None \<Rightarrow> False | Some v \<Rightarrow> v_phys_read (zfs_vdevs z ! v) \<noteq> None) then Some (Inl EIO, z)
         else do {
           l \<leftarrow> find_list m 4 ''vdev_tree'' DATA_TYPE_NVLIST;
           case l of None \<Rightarrow> Some (Inl EIO, z)
           | Some (_, vdevs) \<Rightarrow> do {
               (r, z1) \<leftarrow> vdev_init_from_nvlist m is_newer vdevs None z;
               case r of Inl rc \<Rightarrow> Some (Inl rc, z1)
               | Inr tv \<Rightarrow> do {
                   z2 \<leftarrow> add_top i tv z1;
                   case vdev_find guid z2 of None \<Rightarrow> Some (Inl EIO, z2)
                   | Some v \<Rightarrow> do {
                       let z3 = set_vdev v (\<lambda>x. x\<lparr>v_phys_read := Some d, v_state := VDEV_STATE_HEALTHY\<rparr>) z2;
                       z4 \<leftarrow> find_uberblock E i v (vdev_set_state tv z3);
                       Some (Inr i, z4)
                     }
                 }
             }
         }
   }"

definition vdev_probe :: "('d, 's) zfs_env \<Rightarrow> 'd \<Rightarrow> ('d, 's) zfs \<Rightarrow> ((int + nat) \<times> ('d, 's) zfs) option" where
  "vdev_probe E d z = do {
     let vtmp = \<lparr>v_guid = 0, v_id = 0, v_top = 0, v_ashift = 0, v_nparity = 0, v_name = [], v_state = VDEV_STATE_UNKNOWN, v_nchildren = 0,
       v_children = [], v_read = Vdev_disk_read, v_phys_read = Some d\<rparr>;
     (rc, lab, s1) \<leftarrow> vdev_read_phys E vtmp (Some (label_bp VDEV_PHYS_OFFSET SIZEOF_VDEV_PHYS)) (zap_scratch z) VDEV_PHYS_OFFSET 0 (z_dev z);
     let z1 = z\<lparr>zap_scratch := lab, z_dev := s1\<rparr>;
     if rc \<noteq> 0 then Some (Inl EIO, z1)
     else do {
       enc \<leftarrow> rd lab 0;
       if enc \<noteq> 1 then Some (Inl EIO, z1)
       else do {
         l \<leftarrow> probe_label (e_spa_version E) lab;
         case l of None \<Rightarrow> Some (Inl EIO, z1)
         | Some (txg, guid, name) \<Rightarrow>
             (let (i, is_newer, z2) = probe_spa txg guid name z1 in probe_vdev E d lab i is_newer z2)
       }
     }
   }"

end
