(* ===== verification/ZfsIo.thy ===== *)
theory ZfsIo
  imports ZfsPool
begin

text \<open>
  Blocks and objects of \<^verbatim>\<open>boot/zfs/zfsimpl.c\<close>: \<^verbatim>\<open>zio_read\<close> with its copies and gang blocks, and \<^verbatim>\<open>dnode_read\<close> with the
  cache of one block.  The cache knows its object by the address of the dnode, which is an argument; the content of the
  dnode is another.
\<close>

section \<open>Blocks\<close>

definition SPA_GANGBLOCKSIZE :: nat where "SPA_GANGBLOCKSIZE = 512"
definition ZIO_CHECKSUM_GANG_HEADER :: nat where "ZIO_CHECKSUM_GANG_HEADER = 4"

type_synonym ('d, 's) zio = "(int \<times> byte list \<times> ('d, 's) zfs) option"

definition gang_header_bp :: "blkptr \<Rightarrow> blkptr" where
  "gang_header_bp bp =
     (let b = BP_SET_COMPRESS ZIO_COMPRESS_OFF (BP_SET_CHECKSUM ZIO_CHECKSUM_GANG_HEADER
        (BP_SET_LSIZE SPA_GANGBLOCKSIZE (BP_SET_PSIZE SPA_GANGBLOCKSIZE bp)))
      in b\<lparr>blk_dva := map DVA_CLEAR_GANG (blk_dva b)\<rparr>)"

text \<open>The blocks of a gang are put one behind the other; \<open>zr\<close> is \<^verbatim>\<open>zio_read\<close>.\<close>

fun gang_blocks :: "(blkptr \<Rightarrow> byte list \<Rightarrow> ('d, 's) zfs \<Rightarrow> ('d, 's) zio) \<Rightarrow> blkptr list \<Rightarrow> nat \<Rightarrow> byte list \<Rightarrow> ('d, 's) zfs \<Rightarrow> ('d, 's) zio" where
  "gang_blocks zr [] pos buf z = Some (0, buf, z)"
| "gang_blocks zr (gbp # gbps) pos buf z =
     (if BP_IS_HOLE gbp then gang_blocks zr gbps pos buf z
      else if pos > length buf then None
      else do {
        (rc, part, z1) \<leftarrow> zr gbp (drop pos buf) z;
        let buf1 = take pos buf @ part;
        if rc \<noteq> 0 then Some (EIO, buf1, z1) else gang_blocks zr gbps (pos + BP_GET_PSIZE gbp) buf1 z1
      })"

definition zio_read_gang ::
  "(blkptr \<Rightarrow> byte list \<Rightarrow> ('d, 's) zfs \<Rightarrow> ('d, 's) zio) \<Rightarrow> ('d, 's) zfs_env \<Rightarrow> byte list \<Rightarrow> blkptr \<Rightarrow> byte list \<Rightarrow> ('d, 's) zfs \<Rightarrow> ('d, 's) zio" where
  "zio_read_gang zr E junk bp buf z = do {
     (rc, gb, z1) \<leftarrow> zr (gang_header_bp bp) junk z;
     if rc \<noteq> 0 then Some (EIO, buf, z1)
     else do {
       (rc2, buf2, z2) \<leftarrow> gang_blocks zr (map (\<lambda>i. rd_blkptr (drop (i * SIZEOF_BLKPTR) gb)) [0, 1, 2]) 0 buf z1;
       if rc2 \<noteq> 0 then Some (EIO, buf2, z2)
       else do {
         b \<leftarrow> slice buf2 0 (BP_GET_PSIZE bp);
         Some (if e_cksum E bp b then EIO else 0, buf2, z2)
       }
     }
   }"

lemma mono_gang_blocks [partial_function_mono]:
  assumes "\<And>bp b z. mono_option (\<lambda>f. R f bp b z)"
  shows "mono_option (\<lambda>f. gang_blocks (R f) gbps pos buf z)"
proof (induction gbps arbitrary: pos buf z)
  case (Cons g gbps)
  have "mono_option (\<lambda>f. case y of (rc, part, z1) \<Rightarrow> (let buf1 = take pos buf @ part in
      if rc \<noteq> 0 then Some (EIO, buf1, z1) else gang_blocks (R f) gbps (pos + BP_GET_PSIZE g) buf1 z1))" for y
    by (cases y) (auto simp: Let_def intro!: Cons.IH if_mono option.const_mono)
  then show ?case unfolding gang_blocks.simps by (intro bind_mono option.const_mono if_mono Cons.IH assms)
qed (simp add: option.const_mono)

lemma mono_gang [partial_function_mono]:
  assumes "\<And>bp b z. mono_option (\<lambda>f. R f bp b z)"
  shows "mono_option (\<lambda>f. zio_read_gang (R f) E junk bp buf z)"
proof -
  have "mono_option (\<lambda>f. case y of (rc, gb, z1) \<Rightarrow> if rc \<noteq> 0 then Some (EIO, buf, z1)
     else do {
       (rc2, buf2, z2) \<leftarrow> gang_blocks (R f) (map (\<lambda>i. rd_blkptr (drop (i * SIZEOF_BLKPTR) gb)) [0, 1, 2]) 0 buf z1;
       if rc2 \<noteq> 0 then Some (EIO, buf2, z2)
       else do {
         b \<leftarrow> slice buf2 0 (BP_GET_PSIZE bp);
         Some (if e_cksum E bp b then EIO else 0, buf2, z2)
       }
     })" for y
    by (cases y) (auto intro!: if_mono bind_mono option.const_mono mono_gang_blocks assms)
  then show ?thesis unfolding zio_read_gang_def by (intro bind_mono assms)
qed

text \<open>Where a copy is read to: the buffer itself, or a temporary one when it is compressed or padded for RAID-Z.\<close>

definition copy_size :: "'d vdev list \<Rightarrow> 'd vdev \<Rightarrow> blkptr \<Rightarrow> nat" where
  "copy_size vds v bp =
     (let psize = BP_GET_PSIZE bp; align = 2 ^ unat (v_ashift (vds ! v_top v))
      in if v_read v = Vdev_raidz_read \<and> psize mod align \<noteq> 0 then (psize + align - 1) div align * align else psize)"

definition find_top :: "('d, 's) zfs \<Rightarrow> spa \<Rightarrow> u32 \<Rightarrow> nat option" where
  "find_top z spa vdevid = find (\<lambda>i. v_id (zfs_vdevs z ! i) = vdevid) (spa_vdevs spa)"

definition lift_dev :: "('d, 's) zfs \<Rightarrow> 's read_result \<Rightarrow> ('d, 's) zio" where
  "lift_dev z r = map_option (\<lambda>(rc, buf, s). (rc, buf, z\<lparr>z_dev := s\<rparr>)) r"

text \<open>One copy; \<open>gang\<close> is \<^verbatim>\<open>zio_read_gang\<close>.\<close>

definition read_copy ::
  "('d, 's) zfs_env \<Rightarrow> (byte list \<Rightarrow> ('d, 's) zfs \<Rightarrow> ('d, 's) zio) \<Rightarrow> blkptr \<Rightarrow> u64 \<times> u64 \<Rightarrow> nat \<Rightarrow> nat \<Rightarrow> byte list \<Rightarrow> ('d, 's) zfs \<Rightarrow> ('d, 's) zio" where
  "read_copy E gang bp dva i sz tb z =
     (if DVA_GET_GANG dva then gang tb z
      else lift_dev z (vdev_read E (zfs_vdevs z) bp (DVA_GET_OFFSET dva) sz i tb (z_dev z)))"

text \<open>The content of the temporary buffer goes to the buffer of the caller.\<close>

definition zio_unpack :: "('d, 's) zfs_env \<Rightarrow> blkptr \<Rightarrow> byte list \<Rightarrow> int \<Rightarrow> byte list \<Rightarrow> (int \<times> byte list) option" where
  "zio_unpack E bp buf error tb =
     (if error \<noteq> 0 then Some (error, buf)
      else do {
        src \<leftarrow> slice tb 0 (BP_GET_PSIZE bp);
        if BP_GET_COMPRESS bp \<noteq> ZIO_COMPRESS_OFF then do {
          let (e, out) = e_decompress E (BP_GET_COMPRESS bp) src (BP_GET_LSIZE bp);
          buf1 \<leftarrow> store buf 0 out;
          Some (e, buf1)
        }
        else do { buf1 \<leftarrow> store buf 0 src; Some (0, buf1) }
      })"

definition zio_copy ::
  "('d, 's) zfs_env \<Rightarrow> (byte list \<Rightarrow> ('d, 's) zfs \<Rightarrow> ('d, 's) zio) \<Rightarrow> blkptr \<Rightarrow> u64 \<times> u64 \<Rightarrow> nat \<Rightarrow> byte list \<Rightarrow> ('d, 's) zfs \<Rightarrow> ('d, 's) zio" where
  "zio_copy E gang bp dva i buf z =
     (let cpfunc = BP_GET_COMPRESS bp; psize = BP_GET_PSIZE bp; sz = copy_size (zfs_vdevs z) (zfs_vdevs z ! i) bp
      in if sz = psize \<and> cpfunc = ZIO_COMPRESS_OFF then read_copy E gang bp dva i sz buf z
         else do {
           (ptr, z1) \<leftarrow> zfs_alloc sz z;
           tb \<leftarrow> slice (zfs_temp_buf z1) ptr sz;
           (error, tb1, z2) \<leftarrow> read_copy E gang bp dva i sz tb z1;
           temp \<leftarrow> store (zfs_temp_buf z2) ptr tb1;
           let z3 = z2\<lparr>zfs_temp_buf := temp\<rparr>;
           (error2, buf2) \<leftarrow> zio_unpack E bp buf error tb1;
           z4 \<leftarrow> zfs_free ptr sz z3;
           Some (error2, buf2, z4)
         })"

fun zio_copies ::
  "('d, 's) zfs_env \<Rightarrow> (byte list \<Rightarrow> ('d, 's) zfs \<Rightarrow> ('d, 's) zio) \<Rightarrow> spa \<Rightarrow> blkptr \<Rightarrow> (u64 \<times> u64) list \<Rightarrow> int \<Rightarrow> byte list \<Rightarrow> ('d, 's) zfs \<Rightarrow> ('d, 's) zio" where
  "zio_copies E gang spa bp [] error buf z = Some (error, buf, z)"
| "zio_copies E gang spa bp (dva # dvas) error buf z =
     (if fst dva = 0 \<and> snd dva = 0 then zio_copies E gang spa bp dvas error buf z
      else (case find_top z spa (DVA_GET_VDEV dva) of
          None \<Rightarrow> zio_copies E gang spa bp dvas error buf z
        | Some i \<Rightarrow> do {
            (error1, buf1, z1) \<leftarrow> zio_copy E gang bp dva i buf z;
            if error1 = 0 then Some (0, buf1, z1) else zio_copies E gang spa bp dvas error1 buf1 z1
          }))"

lemma mono_copy [partial_function_mono]:
  assumes "\<And>b z. mono_option (\<lambda>f. R f b z)"
  shows "mono_option (\<lambda>f. zio_copy E (R f) bp dva i buf z)"
proof -
  have rc: "mono_option (\<lambda>f. read_copy E (R f) bp dva i sz b z)" for sz b z
    unfolding read_copy_def by (intro if_mono option.const_mono assms)
  show ?thesis
    unfolding zio_copy_def Let_def
    apply (intro if_mono rc bind_mono option.const_mono)
    subgoal for y by (cases y) (simp, intro bind_mono rc option.const_mono)
    done
qed

lemma mono_copies [partial_function_mono]:
  assumes "\<And>b z. mono_option (\<lambda>f. R f b z)"
  shows "mono_option (\<lambda>f. zio_copies E (R f) spa bp dvas error buf z)"
proof (induction dvas arbitrary: error buf z)
  case (Cons dva dvas)
  have "mono_option (\<lambda>f. case y of (error1, buf1, z1) \<Rightarrow> if error1 = 0 then Some (0, buf1, z1) else zio_copies E (R f) spa bp dvas error1 buf1 z1)" for y
    by (cases y) (auto intro!: Cons.IH if_mono option.const_mono)
  then show ?case
    unfolding zio_copies.simps
    by (cases "find_top z spa (DVA_GET_VDEV dva)"; simp only: option.case; intro if_mono bind_mono Cons.IH mono_copy assms)
qed (simp add: option.const_mono)

text \<open>The header of a gang is read into a variable, whose old content is \<open>junk\<close>.\<close>

partial_function (option) zio_read :: "('d, 's) zfs_env \<Rightarrow> byte list \<Rightarrow> spa \<Rightarrow> blkptr \<Rightarrow> byte list \<Rightarrow> ('d, 's) zfs \<Rightarrow> ('d, 's) zio" where
  "zio_read E junk spa bp buf z =
     zio_copies E (\<lambda>b z. zio_read_gang (\<lambda>bp b z. zio_read E junk spa bp b z) E junk bp b z) spa bp (blk_dva bp) EIO buf z"

section \<open>Objects\<close>

text \<open>A \<^verbatim>\<open>dnode_phys_t\<close> is its 512 bytes.\<close>

definition SIZEOF_DNODE :: nat where "SIZEOF_DNODE = 512"

definition dn_indblkshift :: "byte list \<Rightarrow> int" where "dn_indblkshift dn = uint (fld dn 1 1 :: byte)"
definition dn_nlevels :: "byte list \<Rightarrow> nat" where "dn_nlevels dn = unat (fld dn 2 1 :: byte)"
definition dn_nblkptr :: "byte list \<Rightarrow> nat" where "dn_nblkptr dn = unat (fld dn 3 1 :: byte)"
definition dn_bonustype :: "byte list \<Rightarrow> nat" where "dn_bonustype dn = unat (fld dn 4 1 :: byte)"
definition dn_flags :: "byte list \<Rightarrow> byte" where "dn_flags dn = fld dn 7 1"
definition dn_datablkszsec :: "byte list \<Rightarrow> nat" where "dn_datablkszsec dn = unat (fld dn 8 2 :: u16)"
definition dn_bonuslen :: "byte list \<Rightarrow> nat" where "dn_bonuslen dn = unat (fld dn 10 2 :: u16)"
definition dn_maxblkid :: "byte list \<Rightarrow> u64" where "dn_maxblkid dn = fld dn 16 8"
definition dn_blkptr :: "byte list \<Rightarrow> byte list" where "dn_blkptr dn = drop 64 dn"
definition dn_bonus :: "byte list \<Rightarrow> byte list" where "dn_bonus dn = drop 192 dn"

text \<open>Division of \<^verbatim>\<open>off_t\<close> is towards zero.\<close>

definition tdiv :: "int \<Rightarrow> int \<Rightarrow> int" where
  "tdiv a b = (if a < 0 then - ((- a) div b) else a div b)"

definition tmod :: "int \<Rightarrow> int \<Rightarrow> int" where
  "tmod a b = a - tdiv a b * b"

lemma tmod_less: "0 < b \<Longrightarrow> tmod a b < b"
proof (cases "a < 0")
  case True
  assume "0 < b"
  then have "0 \<le> (- a) mod b" by simp
  then have "tmod a b \<le> 0" using True by (simp add: tmod_def tdiv_def minus_div_mult_eq_mod [symmetric])
  with \<open>0 < b\<close> show ?thesis by simp
next
  case False
  assume "0 < b"
  then show ?thesis using False by (simp add: tmod_def tdiv_def minus_div_mult_eq_mod)
qed

definition bp_at :: "byte list \<Rightarrow> nat \<Rightarrow> blkptr option" where
  "bp_at arr i = map_option rd_blkptr (slice arr (i * SIZEOF_BLKPTR) SIZEOF_BLKPTR)"

text \<open>
  The index into the pointers of a level with \<open>k\<close> levels below; shifts by a negative number or by the width are undefined.
\<close>

definition level_index :: "int \<Rightarrow> nat \<Rightarrow> u64 \<Rightarrow> nat option" where
  "level_index ibshift k bn =
     (if ibshift < 0 \<or> 31 \<le> ibshift \<or> 64 \<le> int k * ibshift then None
      else Some (unat (take_bit (nat ibshift) (drop_bit (nat (int k * ibshift)) bn))))"

fun dnode_walk ::
  "('d, 's) zfs_env \<Rightarrow> byte list \<Rightarrow> spa \<Rightarrow> int \<Rightarrow> u64 \<Rightarrow> nat \<Rightarrow> byte list \<Rightarrow> ('d, 's) zfs \<Rightarrow> (int \<times> ('d, 's) zfs) option" where
  "dnode_walk E junk spa ibshift bn 0 indbp z = Some (0, z)"
| "dnode_walk E junk spa ibshift bn (Suc k) indbp z = do {
     ibn \<leftarrow> level_index ibshift k bn;
     bp \<leftarrow> bp_at indbp ibn;
     (rc, buf, z1) \<leftarrow> zio_read E junk spa bp (dnode_cache_buf z) z;
     let z2 = z1\<lparr>dnode_cache_buf := buf\<rparr>;
     if rc \<noteq> 0 then Some (rc, z2) else dnode_walk E junk spa ibshift bn k buf z2
   }"

definition dnode_block ::
  "('d, 's) zfs_env \<Rightarrow> byte list \<Rightarrow> spa \<Rightarrow> nat \<Rightarrow> byte list \<Rightarrow> u64 \<Rightarrow> ('d, 's) zfs \<Rightarrow> (int \<times> ('d, 's) zfs) option" where
  "dnode_block E junk spa a dn bn z =
     (if dnode_cache_obj z = Some a \<and> dnode_cache_bn z = bn then Some (0, z)
      else do {
        (rc, z1) \<leftarrow> dnode_walk E junk spa (dn_indblkshift dn - 7) bn (dn_nlevels dn) (dn_blkptr dn) z;
        Some (if rc \<noteq> 0 then (rc, z1) else (0, z1\<lparr>dnode_cache_obj := Some a, dnode_cache_bn := bn\<rparr>))
      })"

text \<open>The dnode is at the address \<open>a\<close>; \<open>pos\<close> is how far \<^verbatim>\<open>buf\<close> has been filled and \<open>n\<close> is \<^verbatim>\<open>buflen\<close>.\<close>

function dnode_read_loop ::
  "('d, 's) zfs_env \<Rightarrow> byte list \<Rightarrow> spa \<Rightarrow> nat \<Rightarrow> byte list \<Rightarrow> int \<Rightarrow> byte list \<Rightarrow> nat \<Rightarrow> nat \<Rightarrow> ('d, 's) zfs \<Rightarrow> ('d, 's) zio" where
  "dnode_read_loop E junk spa a dn off buf pos n z =
     (let bsize = int (dn_datablkszsec dn * 512); bn = word_of_int (tdiv off bsize) in
      if n = 0 then Some (0, buf, z)
      else if bsize = 0 then None
      else if bn > dn_maxblkid dn then Some (EIO, buf, z)
      else do {
        (rc, z1) \<leftarrow> dnode_block E junk spa a dn bn z;
        if rc \<noteq> 0 then Some (rc, buf, z1)
        else if tmod off bsize < 0 then None
        else do {
          let i = min (nat (bsize - tmod off bsize)) n;
          part \<leftarrow> slice (dnode_cache_buf z1) (nat (tmod off bsize)) i;
          buf1 \<leftarrow> store buf pos part;
          dnode_read_loop E junk spa a dn (off + int i) buf1 (pos + i) (n - i) z1
        }
      })"
  by pat_completeness auto
termination
proof (relation "measure (\<lambda>(E, junk, spa, a, dn, off, buf, pos, n, z). n)", goal_cases)
  case (2 E junk spa a dn off buf pos n z bsize bn x rc z1 i)
  then show ?case using tmod_less [of "int (dn_datablkszsec dn * 512)" off] by auto
qed simp

declare dnode_read_loop.simps [simp del]

definition dnode_read ::
  "('d, 's) zfs_env \<Rightarrow> byte list \<Rightarrow> spa \<Rightarrow> nat \<Rightarrow> byte list \<Rightarrow> int \<Rightarrow> byte list \<Rightarrow> nat \<Rightarrow> ('d, 's) zfs \<Rightarrow> ('d, 's) zio" where
  "dnode_read E junk spa a dn off buf n z = dnode_read_loop E junk spa a dn off buf 0 n z"

definition objset_get_dnode ::
  "('d, 's) zfs_env \<Rightarrow> byte list \<Rightarrow> spa \<Rightarrow> nat \<Rightarrow> byte list \<Rightarrow> u64 \<Rightarrow> byte list \<Rightarrow> ('d, 's) zfs \<Rightarrow> ('d, 's) zio" where
  "objset_get_dnode E junk spa a os objnum dn z =
     dnode_read E junk spa a (take SIZEOF_DNODE os) (sint (objnum * word_of_nat SIZEOF_DNODE)) dn SIZEOF_DNODE z"

end
