(* ===== verification/ZfsIoFacts.thy ===== *)
theory ZfsIoFacts
  imports ZfsIo
begin

text \<open>
  What is read from a pool: data that \<^verbatim>\<open>zio_read\<close> returns have their checksum, a copy that can be read is found, and
  \<^verbatim>\<open>dnode_read\<close> delivers the content of an object; and what its cache does after an error.
\<close>

section \<open>Verified data\<close>

definition verified :: "('d, 's) zfs_env \<Rightarrow> blkptr \<Rightarrow> byte list \<Rightarrow> bool" where
  "verified E bp buf \<longleftrightarrow> BP_GET_PSIZE bp \<le> length buf \<and> \<not> e_cksum E bp (take (BP_GET_PSIZE bp) buf)"

definition raidz_ok :: "('d, 's) zfs_env \<Rightarrow> bool" where
  "raidz_ok E \<longleftrightarrow> (\<forall>vds i bp buf off n s buf' s'. e_raidz E vds i bp buf off n s = Some (0, buf', s') \<longrightarrow> verified E bp buf')"

lemma vdev_read_phys_verified: "vdev_read_phys E vd (Some bp) buf off n s = Some (0, buf', s') \<Longrightarrow> verified E bp buf'"
  by (auto simp: vdev_read_phys_def verified_def EIO_def Let_def slice_Some_iff bind_eq_Some_conv split: option.splits prod.splits if_splits)

lemma vdev_mirror_verified:
  assumes "\<And>k b s b' s'. rdk k b s = Some (0, b', s') \<Longrightarrow> verified E bp b'"
  shows "vdev_mirror_read rdk vds ks rc buf s = Some (0, buf', s') \<Longrightarrow> rc \<noteq> 0 \<Longrightarrow> verified E bp buf'"
proof (induction ks arbitrary: rc buf s)
  case (Cons k ks)
  then show ?case using assms by (auto simp: bind_eq_Some_conv split: if_splits prod.splits)
qed simp

lemma vdev_read_verified:
  assumes "raidz_ok E" "vdev_read E vds bp off n i buf s = Some r" "fst r = 0"
  shows "verified E bp (fst (snd r))"
proof -
  have "raidz_ok E \<longrightarrow> fst r = 0 \<longrightarrow> verified E bp (fst (snd r))"
  proof (rule vdev_read.raw_induct [OF _ assms(2)], intro impI)
    fix vr E vds bp off n i buf s and r :: "int \<times> byte list \<times> 's"
    assume IH: "\<And>E vds bp off n i buf s r. vr E vds bp off n i buf s = Some r \<Longrightarrow> raidz_ok E \<longrightarrow> fst r = 0 \<longrightarrow> verified E bp (fst (snd r))"
      and eq: "do {
         vd \<leftarrow> rd vds i;
         (case v_read vd of
            Vdev_disk_read \<Rightarrow> vdev_disk_read E vd bp buf off n s
          | Vdev_mirror_read \<Rightarrow> vdev_mirror_read (\<lambda>k b s. vr E vds bp off n k b s) vds (v_children vd) EIO buf s
          | Vdev_replacing_read \<Rightarrow> vdev_replacing_read (\<lambda>k b s. vr E vds bp off n k b s) vds (v_children vd) buf s
          | Vdev_raidz_read \<Rightarrow> e_raidz E vds i bp buf off n s)
       } = Some r" and rz: "raidz_ok E" and r0: "fst r = 0"
    obtain buf' s' where r: "r = (0, buf', s')" using r0 by (cases r) auto
    have kid: "vr E vds bp off n k b s = Some (0, b', s') \<Longrightarrow> verified E bp b'" for k b s b' s' using IH rz by fastforce
    obtain vd where vd: "rd vds i = Some vd" using eq by (auto simp: bind_eq_Some_conv)
    show "verified E bp (fst (snd r))"
    proof (cases "v_read vd")
      case Vdev_disk_read
      then show ?thesis using eq vd r vdev_read_phys_verified by (auto simp: vdev_disk_read_def)
    next
      case Vdev_mirror_read
      then show ?thesis using eq vd r vdev_mirror_verified [of "vr E vds bp off n" E bp vds "v_children vd" EIO buf s buf' s'] kid by (auto simp: EIO_def)
    next
      case Vdev_replacing_read
      then show ?thesis using eq vd r kid
        by (auto simp: vdev_replacing_read_def EIO_def bind_eq_Some_conv split: list.splits if_splits)
    next
      case Vdev_raidz_read
      then show ?thesis using eq vd r rz unfolding raidz_ok_def by (simp, blast)
    qed
  qed
  then show ?thesis using assms by blast
qed

lemma gang_verified: "zio_read_gang zr E junk bp buf z = Some (0, buf', z') \<Longrightarrow> verified E bp buf'"
  by (auto simp: zio_read_gang_def verified_def EIO_def slice_Some_iff bind_eq_Some_conv split: prod.splits if_splits)

text \<open>What the data in the buffer are: the verified block itself, or the decompression of one.\<close>

definition block_data :: "('d, 's) zfs_env \<Rightarrow> blkptr \<Rightarrow> byte list \<Rightarrow> bool" where
  "block_data E bp buf \<longleftrightarrow>
     (if BP_GET_COMPRESS bp = ZIO_COMPRESS_OFF then verified E bp buf
      else \<exists>src out. length src = BP_GET_PSIZE bp \<and> \<not> e_cksum E bp src \<and>
             e_decompress E (BP_GET_COMPRESS bp) src (BP_GET_LSIZE bp) = (0, out) \<and> take (length out) buf = out)"

lemma read_copy_verified:
  assumes "raidz_ok E" "\<And>b z b' z'. gang b z = Some (0, b', z') \<Longrightarrow> verified E bp b'"
    and "read_copy E gang bp dva i sz b z = Some (0, b', z')"
  shows "verified E bp b'"
  using assms vdev_read_verified [OF assms(1)]
  by (fastforce simp: read_copy_def lift_dev_def split: if_splits prod.splits)

lemma take_put_prefix: "off = 0 \<Longrightarrow> take (length ys) (put m off ys) = ys"
  by (simp add: put_def)

lemma zio_copy_data:
  assumes "raidz_ok E" "\<And>b z b' z'. gang b z = Some (0, b', z') \<Longrightarrow> verified E bp b'"
    and "zio_copy E gang bp dva i buf z = Some (0, buf', z')"
  shows "block_data E bp buf'"
proof (cases "copy_size (zfs_vdevs z) (zfs_vdevs z ! i) bp = BP_GET_PSIZE bp \<and> BP_GET_COMPRESS bp = ZIO_COMPRESS_OFF")
  case True
  then have "verified E bp buf'"
    using assms(3) by (intro read_copy_verified [OF assms(1) assms(2)]) (simp_all add: zio_copy_def Let_def)
  then show ?thesis using True by (simp add: block_data_def)
next
  case False
  let ?psize = "BP_GET_PSIZE bp"
  obtain sz z1 b error tb z2 where tb: "read_copy E gang bp dva i sz b z1 = Some (error, tb, z2)" and
    out: "zio_unpack E bp buf error tb = Some (0, buf')"
    using assms(3) False by (auto simp: zio_copy_def Let_def bind_eq_Some_conv split: prod.splits)
  have err: "error = 0" using out by (auto simp: zio_unpack_def split: if_splits)
  have ver: "verified E bp tb" by (rule read_copy_verified [OF assms(1) assms(2)]) (use tb err in simp_all)
  show ?thesis
  proof (cases "BP_GET_COMPRESS bp = ZIO_COMPRESS_OFF")
    case True
    then have "buf' = put buf 0 (take ?psize tb)" "?psize \<le> length buf" using out ver
      by (auto simp: zio_unpack_def err bind_eq_Some_conv slice_Some_iff store_Some_iff verified_def)
    then show ?thesis using ver True by (simp add: block_data_def verified_def put_def)
  next
    case False
    then obtain e where "e_decompress E (BP_GET_COMPRESS bp) (take ?psize tb) (BP_GET_LSIZE bp) = (0, e)" "buf' = put buf 0 e"
      using out by (auto simp: zio_unpack_def err bind_eq_Some_conv slice_Some_iff store_Some_iff split: prod.splits)
    then show ?thesis using ver False take_put_prefix [OF refl, of e buf]
      unfolding block_data_def verified_def by (simp, intro exI [of _ "take ?psize tb"] conjI exI [of _ e]) simp_all
  qed
qed

lemma zio_copies_data:
  assumes "raidz_ok E" "\<And>b z b' z'. gang b z = Some (0, b', z') \<Longrightarrow> verified E bp b'"
  shows "zio_copies E gang spa bp dvas error buf z = Some (0, buf', z') \<Longrightarrow> error \<noteq> 0 \<Longrightarrow> block_data E bp buf'"
proof (induction dvas arbitrary: error buf z)
  case (Cons dva dvas)
  show ?case
  proof (cases "(fst dva = 0 \<and> snd dva = 0) \<or> find_top z spa (DVA_GET_VDEV dva) = None")
    case True
    then show ?thesis using Cons.IH Cons.prems by (auto split: if_splits)
  next
    case False
    then obtain i where i: "find_top z spa (DVA_GET_VDEV dva) = Some i" by blast
    then obtain error1 buf1 z1 where c: "zio_copy E gang bp dva i buf z = Some (error1, buf1, z1)"
      "(if error1 = 0 then Some (0, buf1, z1) else zio_copies E gang spa bp dvas error1 buf1 z1) = Some (0, buf', z')"
      using Cons.prems(1) False by (auto simp: bind_eq_Some_conv)
    show ?thesis
    proof (cases "error1 = 0")
      case True
      then show ?thesis using c by (intro zio_copy_data [OF assms(1) assms(2)]) auto
    next
      case False
      then show ?thesis using c(2) Cons.IH by simp
    qed
  qed
qed simp

text \<open>
  C36: what is read is what was written, as far as the checksum can tell.  Provided that the code for RAID-Z, which is not part
  of the repository, checks what it delivers, the following holds whenever \<^verbatim>\<open>zio_read\<close> succeeds, through whichever copy, mirror side or
  gang: the buffer holds data that have the checksum of the block pointer, or the decompression of such data.
\<close>

theorem zio_read_verified:
  assumes "raidz_ok E" "zio_read E junk spa bp buf z = Some (0, buf', z')"
  shows "block_data E bp buf'"
proof -
  have "verified E bp b'" if "zio_read_gang (\<lambda>bp b z. zio_read E junk spa bp b z) E junk bp b z = Some (0, b', z')" for b z b' z'
    using gang_verified [OF that] .
  then show ?thesis
    using assms(2) by (subst (asm) zio_read.simps, elim zio_copies_data [rotated 2, OF _ _ assms(1)]) (simp_all add: EIO_def)
qed

section \<open>What a read leaves alone\<close>

text \<open>A read changes the temporary buffer and the devices only, and frees what it allocated.\<close>

definition zio_frame :: "('d, 's) zfs \<Rightarrow> ('d, 's) zfs \<Rightarrow> bool" where
  "zio_frame z z' \<longleftrightarrow> (\<exists>t s. z' = z\<lparr>zfs_temp_buf := t, z_dev := s\<rparr>)"

lemma zio_frame_refl [simp]: "zio_frame z z"
  unfolding zio_frame_def by (intro exI [of _ "zfs_temp_buf z"] exI [of _ "z_dev z"]) simp

lemma zio_frame_trans [trans]: "zio_frame z z1 \<Longrightarrow> zio_frame z1 z2 \<Longrightarrow> zio_frame z z2"
  by (auto simp: zio_frame_def) blast

lemma zio_frame_simps:
  "zio_frame z z' \<Longrightarrow> dnode_cache_obj z' = dnode_cache_obj z" "zio_frame z z' \<Longrightarrow> dnode_cache_bn z' = dnode_cache_bn z"
  "zio_frame z z' \<Longrightarrow> dnode_cache_buf z' = dnode_cache_buf z" "zio_frame z z' \<Longrightarrow> zap_scratch z' = zap_scratch z"
  "zio_frame z z' \<Longrightarrow> zfs_vdevs z' = zfs_vdevs z" "zio_frame z z' \<Longrightarrow> zfs_pools z' = zfs_pools z" "zio_frame z z' \<Longrightarrow> zfs_temp_ptr z' = zfs_temp_ptr z"
  by (auto simp: zio_frame_def)

lemma zio_frame_dev [simp]: "zio_frame z (z\<lparr>z_dev := s\<rparr>)"
  unfolding zio_frame_def by (intro exI [of _ "zfs_temp_buf z"] exI [of _ s]) simp

lemma read_copy_frame:
  assumes "\<And>b z r. gang b z = Some r \<Longrightarrow> zio_frame z (snd (snd r))" "read_copy E gang bp dva i sz b z = Some r"
  shows "zio_frame z (snd (snd r))"
  using assms by (auto simp: read_copy_def lift_dev_def split: if_splits prod.splits)

lemma zio_copy_frame:
  assumes "\<And>b z r. gang b z = Some r \<Longrightarrow> zio_frame z (snd (snd r))" "zio_copy E gang bp dva i buf z = Some r"
  shows "zio_frame z (snd (snd r))"
proof (cases "copy_size (zfs_vdevs z) (zfs_vdevs z ! i) bp = BP_GET_PSIZE bp \<and> BP_GET_COMPRESS bp = ZIO_COMPRESS_OFF")
  case True
  then show ?thesis using assms(2) by (intro read_copy_frame [OF assms(1)]) (simp_all add: zio_copy_def Let_def)
next
  case False
  let ?sz = "copy_size (zfs_vdevs z) (zfs_vdevs z ! i) bp"
  obtain ptr z1 b error tb z2 temp z4 where a: "zfs_alloc ?sz z = Some (ptr, z1)" and r: "read_copy E gang bp dva i ?sz b z1 = Some (error, tb, z2)"
    and fr: "zfs_free ptr ?sz (z2\<lparr>zfs_temp_buf := temp\<rparr>) = Some z4" and z4: "snd (snd r) = z4"
    using assms(2) False by (auto simp: zio_copy_def Let_def bind_eq_Some_conv split: prod.splits)
  have z1: "z1 = z\<lparr>zfs_temp_ptr := zfs_temp_ptr z + ?sz\<rparr>" "ptr = zfs_temp_ptr z" using a by (auto simp: zfs_alloc_def split: if_splits)
  have "zio_frame z1 z2" using read_copy_frame [OF assms(1) r] by simp
  then have "z4 = z\<lparr>zfs_temp_buf := temp, z_dev := z_dev z2\<rparr>"
    using fr z1 by (auto simp: zfs_free_def zio_frame_def split: if_splits)
  then show ?thesis unfolding z4 zio_frame_def by blast
qed

lemma zio_copies_frame:
  assumes "\<And>b z r. gang b z = Some r \<Longrightarrow> zio_frame z (snd (snd r))"
  shows "zio_copies E gang spa bp dvas error buf z = Some r \<Longrightarrow> zio_frame z (snd (snd r))"
proof (induction dvas arbitrary: error buf z)
  case (Cons dva dvas)
  show ?case
  proof (cases "(fst dva = 0 \<and> snd dva = 0) \<or> find_top z spa (DVA_GET_VDEV dva) = None")
    case True
    then show ?thesis using Cons.IH Cons.prems by (auto split: if_splits)
  next
    case False
    then obtain i where i: "find_top z spa (DVA_GET_VDEV dva) = Some i" by blast
    then obtain error1 buf1 z1 where c: "zio_copy E gang bp dva i buf z = Some (error1, buf1, z1)"
      "(if error1 = 0 then Some (0, buf1, z1) else zio_copies E gang spa bp dvas error1 buf1 z1) = Some r"
      using Cons.prems(1) False by (auto simp: bind_eq_Some_conv)
    have f1: "zio_frame z z1" using zio_copy_frame [OF assms c(1)] by simp
    show ?thesis
    proof (cases "error1 = 0")
      case False
      then show ?thesis using c(2) Cons.IH f1 zio_frame_trans by fastforce
    qed (use c(2) f1 in auto)
  qed
qed auto

lemma gang_blocks_frame:
  assumes "\<And>bp b z r. zr bp b z = Some r \<Longrightarrow> zio_frame z (snd (snd r))"
  shows "gang_blocks zr gbps pos buf z = Some r \<Longrightarrow> zio_frame z (snd (snd r))"
proof (induction gbps arbitrary: pos buf z)
  case (Cons g gbps)
  show ?case
  proof (cases "BP_IS_HOLE g")
    case False
    then obtain rc part z1 where c: "zr g (drop pos buf) z = Some (rc, part, z1)"
      "(if rc \<noteq> 0 then Some (EIO, take pos buf @ part, z1) else gang_blocks zr gbps (pos + BP_GET_PSIZE g) (take pos buf @ part) z1) = Some r"
      using Cons.prems by (auto simp: bind_eq_Some_conv Let_def split: if_splits)
    have "zio_frame z z1" using assms [OF c(1)] by simp
    then show ?thesis using c(2) Cons.IH zio_frame_trans by (fastforce split: if_splits)
  qed (use Cons in simp)
qed auto

lemma zio_gang_frame:
  assumes "\<And>bp b z r. zr bp b z = Some r \<Longrightarrow> zio_frame z (snd (snd r))" "zio_read_gang zr E junk bp buf z = Some r"
  shows "zio_frame z (snd (snd r))"
proof -
  obtain rc gb z1 where c: "zr (gang_header_bp bp) junk z = Some (rc, gb, z1)"
    "(if rc \<noteq> 0 then Some (EIO, buf, z1)
     else do {
       (rc2, buf2, z2) \<leftarrow> gang_blocks zr (map (\<lambda>i. rd_blkptr (drop (i * SIZEOF_BLKPTR) gb)) [0, 1, 2]) 0 buf z1;
       if rc2 \<noteq> 0 then Some (EIO, buf2, z2)
       else do {
         b \<leftarrow> slice buf2 0 (BP_GET_PSIZE bp);
         Some (if e_cksum E bp b then EIO else 0, buf2, z2)
       }
     }) = Some r"
    using assms(2) by (auto simp: zio_read_gang_def bind_eq_Some_conv)
  have f1: "zio_frame z z1" using assms(1) [OF c(1)] by simp
  show ?thesis
  proof (cases "rc = 0")
    case True
    then obtain rc2 buf2 z2 where g: "gang_blocks zr (map (\<lambda>i. rd_blkptr (drop (i * SIZEOF_BLKPTR) gb)) [0, 1, 2]) 0 buf z1 = Some (rc2, buf2, z2)"
      and r: "snd (snd r) = z2"
      using c(2) by (auto simp: bind_eq_Some_conv simp del: list.map split: if_splits)
    have "zio_frame z1 z2" using gang_blocks_frame [OF assms(1) g] by simp
    then show ?thesis using f1 r zio_frame_trans by blast
  qed (use c(2) f1 in auto)
qed

lemma zio_read_frame:
  assumes "zio_read E junk spa bp buf z = Some r"
  shows "zio_frame z (snd (snd r))"
proof (rule zio_read.raw_induct [OF _ assms])
  fix zr E junk spa bp buf z r
  assume IH: "\<And>E junk spa bp buf z r. zr E junk spa bp buf z = Some r \<Longrightarrow> zio_frame z (snd (snd r))"
    and eq: "zio_copies E (\<lambda>b z. zio_read_gang (\<lambda>bp b z. zr E junk spa bp b z) E junk bp b z) spa bp (blk_dva bp) EIO buf z = Some r"
  show "zio_frame z (snd (snd r))"
    using eq by (rule zio_copies_frame [rotated]) (rule zio_gang_frame [OF IH])
qed

section \<open>Copies that can be read\<close>

text \<open>Trees of disks, mirrors and replacements, and the devices of them that can deliver a block.\<close>

inductive tame :: "'d vdev list \<Rightarrow> nat \<Rightarrow> bool" for vds where
  tame_disk: "i < length vds \<Longrightarrow> v_read (vds ! i) = Vdev_disk_read \<Longrightarrow> tame vds i"
| tame_mirror: "i < length vds \<Longrightarrow> v_read (vds ! i) = Vdev_mirror_read \<Longrightarrow>
    (\<And>k. k \<in> set (v_children (vds ! i)) \<Longrightarrow> k < length vds \<and> (v_state (vds ! k) = VDEV_STATE_HEALTHY \<longrightarrow> tame vds k)) \<Longrightarrow> tame vds i"
| tame_replacing: "i < length vds \<Longrightarrow> v_read (vds ! i) = Vdev_replacing_read \<Longrightarrow>
    (\<And>k. k \<in> set (v_children (vds ! i)) \<Longrightarrow> k < length vds \<and> (v_state (vds ! k) = VDEV_STATE_HEALTHY \<longrightarrow> tame vds k)) \<Longrightarrow> tame vds i"

inductive serves :: "('d \<Rightarrow> u64 \<Rightarrow> nat \<Rightarrow> byte list option) \<Rightarrow> (byte list \<Rightarrow> bool) \<Rightarrow> nat \<Rightarrow> u64 \<Rightarrow> 'd vdev list \<Rightarrow> nat \<Rightarrow> bool"
  for disk bad psize off vds where
  serves_disk: "v_read (vds ! i) = Vdev_disk_read \<Longrightarrow> v_phys_read (vds ! i) = Some d \<Longrightarrow>
    disk d (off + VDEV_LABEL_START_SIZE) psize = Some data \<Longrightarrow> \<not> bad data \<Longrightarrow> serves disk bad psize off vds i"
| serves_mirror: "v_read (vds ! i) = Vdev_mirror_read \<Longrightarrow> k \<in> set (v_children (vds ! i)) \<Longrightarrow>
    v_state (vds ! k) = VDEV_STATE_HEALTHY \<Longrightarrow> serves disk bad psize off vds k \<Longrightarrow> serves disk bad psize off vds i"
| serves_replacing: "v_read (vds ! i) = Vdev_replacing_read \<Longrightarrow> v_children (vds ! i) = k # ks \<Longrightarrow>
    v_state (vds ! k) = VDEV_STATE_HEALTHY \<Longrightarrow> serves disk bad psize off vds k \<Longrightarrow> serves disk bad psize off vds i"

lemma serves_kind:
  "v_read (vds ! i) = Vdev_disk_read \<Longrightarrow> serves disk bad psize off vds i \<longleftrightarrow>
     (\<exists>d data. v_phys_read (vds ! i) = Some d \<and> disk d (off + VDEV_LABEL_START_SIZE) psize = Some data \<and> \<not> bad data)"
  "v_read (vds ! i) = Vdev_mirror_read \<Longrightarrow> serves disk bad psize off vds i \<longleftrightarrow>
     (\<exists>k \<in> set (v_children (vds ! i)). v_state (vds ! k) = VDEV_STATE_HEALTHY \<and> serves disk bad psize off vds k)"
  "v_read (vds ! i) = Vdev_replacing_read \<Longrightarrow> serves disk bad psize off vds i \<longleftrightarrow>
     (\<exists>k ks. v_children (vds ! i) = k # ks \<and> v_state (vds ! k) = VDEV_STATE_HEALTHY \<and> serves disk bad psize off vds k)"
  by (subst serves.simps; auto)+

text \<open>
  Devices that answer in the same way every time: \<open>disk\<close> tells what is at a place, \<^term>\<open>None\<close> when it cannot be read.
  A failed read may leave anything in the bytes that were asked for.
\<close>

locale steady_disks =
  fixes E :: "('d, 's) zfs_env" and disk :: "'d \<Rightarrow> u64 \<Rightarrow> nat \<Rightarrow> byte list option" and ok :: "'s \<Rightarrow> bool"
  assumes read_ok: "ok s \<Longrightarrow> disk d off n = Some data \<Longrightarrow> length data = n \<and> (\<exists>s'. e_read E d off n s = (0, data, s') \<and> ok s')"
    and read_bad: "ok s \<Longrightarrow> disk d off n = None \<Longrightarrow> \<exists>rc data s'. e_read E d off n s = (rc, data, s') \<and> rc \<noteq> 0 \<and> length data \<le> n \<and> ok s'"
begin

text \<open>How a read of a device ends: whether it must succeed, and that the rest of the buffer is kept.\<close>

definition ends :: "nat \<Rightarrow> bool \<Rightarrow> byte list \<Rightarrow> 's read_result \<Rightarrow> bool" where
  "ends psize must buf r \<longleftrightarrow> (\<exists>rc buf' s'. r = Some (rc, buf', s') \<and> ok s' \<and> length buf' = length buf \<and> drop psize buf' = drop psize buf \<and> (must \<longrightarrow> rc = 0))"

lemma drop_put0: "length data \<le> n \<Longrightarrow> length data \<le> length buf \<Longrightarrow> drop n (put buf 0 data) = drop n buf"
  by (simp add: put_def)

lemma phys_ends:
  assumes "BP_GET_PSIZE bp \<le> length buf" "ok s"
  shows "ends (BP_GET_PSIZE bp) (\<exists>d data. v_phys_read vd = Some d \<and> disk d off (BP_GET_PSIZE bp) = Some data \<and> \<not> e_cksum E bp data) buf
    (vdev_read_phys E vd (Some bp) buf off n s)"
proof (cases "v_phys_read vd")
  case None
  then show ?thesis using assms by (simp add: vdev_read_phys_def ends_def)
next
  case (Some d)
  show ?thesis
  proof (cases "disk d off (BP_GET_PSIZE bp)")
    case None
    then obtain rc data s' where "e_read E d off (BP_GET_PSIZE bp) s = (rc, data, s')" "rc \<noteq> 0" "length data \<le> BP_GET_PSIZE bp" "ok s'"
      using read_bad [OF assms(2)] by blast
    then show ?thesis using assms(1) Some None by (simp add: vdev_read_phys_def ends_def drop_put0)
  next
    case (Some data)
    then obtain s' where "length data = BP_GET_PSIZE bp" "e_read E d off (BP_GET_PSIZE bp) s = (0, data, s')" "ok s'"
      using read_ok [OF assms(2)] by blast
    then show ?thesis using assms(1) Some \<open>v_phys_read vd = Some d\<close> by (simp add: vdev_read_phys_def ends_def drop_put0) (simp add: put_def)
  qed
qed

lemma mirror_ends:
  assumes "\<And>k b s. k \<in> set ks \<Longrightarrow> v_state (vds ! k) = VDEV_STATE_HEALTHY \<Longrightarrow> length b = n \<Longrightarrow> ok s \<Longrightarrow> ends psize (must k) b (rdk k b s)"
    and "\<And>k. k \<in> set ks \<Longrightarrow> k < length vds"
  shows "length buf = n \<Longrightarrow> ok s \<Longrightarrow>
    ends psize (\<exists>k \<in> set ks. v_state (vds ! k) = VDEV_STATE_HEALTHY \<and> must k) buf (vdev_mirror_read rdk vds ks rc buf s)"
  using assms
proof (induction ks arbitrary: rc buf s)
  case Nil
  then show ?case by (simp add: ends_def)
next
  case (Cons k ks)
  have k: "k < length vds" using Cons.prems(4) by simp
  have IH: "ends psize (\<exists>k \<in> set ks. v_state (vds ! k) = VDEV_STATE_HEALTHY \<and> must k) b (vdev_mirror_read rdk vds ks rc b s)"
    if "length b = n" "ok s" for b s rc using Cons.IH [OF that] Cons.prems(3,4) by simp
  show ?case
  proof (cases "v_state (vds ! k) = VDEV_STATE_HEALTHY")
    case True
    from Cons.prems(3) [OF _ True Cons.prems(1,2)] obtain rc1 b1 s1 where
      r: "rdk k buf s = Some (rc1, b1, s1)" "ok s1" "length b1 = length buf" "drop psize b1 = drop psize buf" "must k \<longrightarrow> rc1 = 0"
      by (auto simp: ends_def)
    show ?thesis
    proof (cases "rc1 = 0")
      case True
      then show ?thesis using r k \<open>v_state (vds ! k) = VDEV_STATE_HEALTHY\<close> by (simp add: ends_def)
    next
      case False
      then show ?thesis using r k True IH [of b1 s1 rc1] Cons.prems(1) by (auto simp: ends_def)
    qed
  next
    case False
    then show ?thesis using IH [OF Cons.prems(1,2)] k by (simp add: ends_def)
  qed
qed

lemma vdev_read_ends:
  assumes "tame vds i" "BP_GET_PSIZE bp \<le> length buf" "ok s"
  shows "ends (BP_GET_PSIZE bp) (serves disk (e_cksum E bp) (BP_GET_PSIZE bp) off vds i) buf (vdev_read E vds bp off n i buf s)"
  using assms
proof (induction arbitrary: buf s rule: tame.induct)
  case (tame_disk i)
  show ?case using serves_kind(1) [OF tame_disk(2)] tame_disk phys_ends [OF tame_disk(3,4), of "vds ! i" "off + VDEV_LABEL_START_SIZE" n]
    by (subst vdev_read.simps) (auto simp: vdev_disk_read_def ends_def)
next
  case (tame_mirror i)
  let ?must = "serves disk (e_cksum E bp) (BP_GET_PSIZE bp) off vds"
  have "?must i \<longrightarrow> (\<exists>k \<in> set (v_children (vds ! i)). v_state (vds ! k) = VDEV_STATE_HEALTHY \<and> ?must k)"
    using serves_kind(2) [OF tame_mirror(2)] by blast
  moreover have "ends (BP_GET_PSIZE bp) (\<exists>k \<in> set (v_children (vds ! i)). v_state (vds ! k) = VDEV_STATE_HEALTHY \<and> ?must k) buf
      (vdev_mirror_read (vdev_read E vds bp off n) vds (v_children (vds ! i)) EIO buf s)"
    by (rule mirror_ends [where n = "length buf"]) (use tame_mirror in auto)
  ultimately show ?case using tame_mirror(1,2) by (subst vdev_read.simps) (auto simp: ends_def)
next
  case (tame_replacing i)
  let ?must = "serves disk (e_cksum E bp) (BP_GET_PSIZE bp) off vds"
  show ?case
  proof (cases "v_children (vds ! i)")
    case Nil
    then have "\<not> ?must i" using serves_kind(3) [OF tame_replacing(2)] by auto
    then show ?thesis using tame_replacing(1,2,5) Nil by (subst vdev_read.simps) (simp add: vdev_replacing_read_def ends_def)
  next
    case (Cons k ks)
    then have m: "?must i \<longrightarrow> v_state (vds ! k) = VDEV_STATE_HEALTHY \<and> ?must k" using serves_kind(3) [OF tame_replacing(2)] by auto
    have k: "k < length vds" "v_state (vds ! k) = VDEV_STATE_HEALTHY \<Longrightarrow> ends (BP_GET_PSIZE bp) (?must k) buf (vdev_read E vds bp off n k buf s)"
      using tame_replacing(3) [of k] tame_replacing(4,5) Cons by auto
    show ?thesis
    proof (cases "v_state (vds ! k) = VDEV_STATE_HEALTHY")
      case True
      then show ?thesis using k m tame_replacing(1,2) Cons by (subst vdev_read.simps) (auto simp: vdev_replacing_read_def ends_def)
    next
      case False
      then show ?thesis using k(1) m tame_replacing(1,2,5) Cons by (subst vdev_read.simps) (simp add: vdev_replacing_read_def ends_def)
    qed
  qed
qed

end

text \<open>
  A pool: which block a pointer stands for, as far as its checksum tells, and how a copy of it is found.
\<close>

definition unpacked :: "('d, 's) zfs_env \<Rightarrow> blkptr \<Rightarrow> byte list \<Rightarrow> byte list option" where
  "unpacked E bp d =
     (if BP_GET_COMPRESS bp = ZIO_COMPRESS_OFF then Some d
      else (case e_decompress E (BP_GET_COMPRESS bp) d (BP_GET_LSIZE bp) of (e, out) \<Rightarrow> if e = 0 then Some out else None))"

definition dva_copy :: "'d vdev list \<Rightarrow> spa \<Rightarrow> u64 \<times> u64 \<Rightarrow> nat option" where
  "dva_copy vds spa dva = (if dva = (0, 0) then None else find (\<lambda>i. v_id (vds ! i) = DVA_GET_VDEV dva) (spa_vdevs spa))"

definition copies_tame :: "'d vdev list \<Rightarrow> spa \<Rightarrow> blkptr \<Rightarrow> bool" where
  "copies_tame vds spa bp \<longleftrightarrow> (\<forall>dva \<in> set (blk_dva bp). \<forall>i. dva_copy vds spa dva = Some i \<longrightarrow> tame vds i \<and> \<not> DVA_GET_GANG dva)"

definition copy_serves :: "('d, 's) zfs_env \<Rightarrow> ('d \<Rightarrow> u64 \<Rightarrow> nat \<Rightarrow> byte list option) \<Rightarrow> 'd vdev list \<Rightarrow> spa \<Rightarrow> blkptr \<Rightarrow> u64 \<times> u64 \<Rightarrow> bool" where
  "copy_serves E disk vds spa bp dva \<longleftrightarrow>
     (\<exists>i. dva_copy vds spa dva = Some i \<and> serves disk (e_cksum E bp) (BP_GET_PSIZE bp) (DVA_GET_OFFSET dva) vds i)"

locale zfs_store = steady_disks E disk ok for E :: "('d, 's) zfs_env" and disk and ok +
  fixes vds :: "'d vdev list" and spa :: spa and raw :: "blkptr \<Rightarrow> byte list option"
  assumes raw_length: "raw bp = Some d \<Longrightarrow> length d = BP_GET_PSIZE bp"
    and checksum: "raw bp = Some d \<Longrightarrow> length d' = BP_GET_PSIZE bp \<Longrightarrow> \<not> e_cksum E bp d' \<Longrightarrow> d' = d"
    and raidz: "raidz_ok E"
begin

definition zok :: "('d, 's) zfs \<Rightarrow> bool" where
  "zok z \<longleftrightarrow> ok (z_dev z) \<and> zfs_vdevs z = vds \<and> length (zfs_temp_buf z) = TEMP_SIZE \<and> zfs_temp_ptr z + SPA_MAXBLOCKSIZE \<le> TEMP_SIZE"

text \<open>What a pointer that can be read delivers.\<close>

definition content :: "blkptr \<Rightarrow> byte list option" where
  "content bp = (if copies_tame vds spa bp \<and> BP_GET_PSIZE bp \<le> SPA_MAXBLOCKSIZE \<and> (\<exists>dva \<in> set (blk_dva bp). copy_serves E disk vds spa bp dva)
     then do { d \<leftarrow> raw bp; out \<leftarrow> unpacked E bp d; if length out \<le> SPA_MAXBLOCKSIZE then Some out else None } else None)"

lemma copy_size_tame: "tame vds i \<Longrightarrow> copy_size vds (vds ! i) bp = BP_GET_PSIZE bp"
  by (auto simp: copy_size_def Let_def elim: tame.cases)

lemma copy_step:
  assumes z: "zok z" and bp: "raw bp = Some d" "unpacked E bp d = Some out" "BP_GET_PSIZE bp \<le> SPA_MAXBLOCKSIZE"
    and i: "tame vds i" "\<not> DVA_GET_GANG dva" and buf: "length out \<le> length buf"
  shows "\<exists>rc buf' z'. zio_copy E gang bp dva i buf z = Some (rc, buf', z') \<and> zok z' \<and> zio_frame z z' \<and>
    length buf' = length buf \<and> drop (length out) buf' = drop (length out) buf \<and>
    (rc = 0 \<longrightarrow> buf' = put buf 0 out) \<and> (serves disk (e_cksum E bp) (BP_GET_PSIZE bp) (DVA_GET_OFFSET dva) vds i \<longrightarrow> rc = 0)"
proof -
  let ?p = "BP_GET_PSIZE bp"
  let ?must = "serves disk (e_cksum E bp) ?p (DVA_GET_OFFSET dva) vds i"
  have vds: "zfs_vdevs z = vds" and okd: "ok (z_dev z)" using z by (simp_all add: zok_def)
  have ld: "length d = ?p" using raw_length bp(1) by blast
  have read: "\<exists>rc b' s'. read_copy E gang bp dva i ?p b z1 = Some (rc, b', z1\<lparr>z_dev := s'\<rparr>) \<and> ok s' \<and> length b' = length b \<and>
      drop ?p b' = drop ?p b \<and> (?must \<longrightarrow> rc = 0) \<and> (rc = 0 \<longrightarrow> take ?p b' = d)"
    if pre: "?p \<le> length b" "zfs_vdevs z1 = vds" "z_dev z1 = z_dev z" for b z1
  proof -
    obtain rc b' s' where r: "vdev_read E vds bp (DVA_GET_OFFSET dva) ?p i b (z_dev z) = Some (rc, b', s')" "ok s'" "length b' = length b"
      "drop ?p b' = drop ?p b" "?must \<longrightarrow> rc = 0"
      using vdev_read_ends [OF i(1) pre(1) okd, of "DVA_GET_OFFSET dva" ?p] by (auto simp: ends_def)
    have "take ?p b' = d" if "rc = 0"
      using vdev_read_verified [OF raidz r(1)] that checksum [OF bp(1), of "take ?p b'"] by (auto simp: verified_def)
    then show ?thesis using r pre(2,3) i(2) by (intro exI [of _ rc] exI [of _ b'] exI [of _ s']) (simp add: read_copy_def lift_dev_def)
  qed
  show ?thesis
  proof (cases "BP_GET_COMPRESS bp = ZIO_COMPRESS_OFF")
    case True
    then have out: "out = d" using bp(2) by (simp add: unpacked_def)
    obtain rc b' s' where r: "read_copy E gang bp dva i ?p buf z = Some (rc, b', z\<lparr>z_dev := s'\<rparr>)" "ok s'" "length b' = length buf"
      "drop ?p b' = drop ?p buf" "?must \<longrightarrow> rc = 0" "rc = 0 \<longrightarrow> take ?p b' = d"
      using read [of buf z] vds buf ld out by auto
    have "b' = put buf 0 d" if "rc = 0" using append_take_drop_id [of ?p b'] r(4,6) that ld by (simp add: put_def)
    then show ?thesis using r z True ld out vds copy_size_tame [OF i(1), of bp] by (auto simp: zio_copy_def zok_def Let_def)
  next
    case False
    then obtain e where e: "e_decompress E (BP_GET_COMPRESS bp) d (BP_GET_LSIZE bp) = (0, out)"
      using bp(2) by (auto simp: unpacked_def split: prod.splits if_splits)
    let ?ptr = "zfs_temp_ptr z" and ?z1 = "z\<lparr>zfs_temp_ptr := zfs_temp_ptr z + ?p\<rparr>"
    have room: "?ptr + ?p \<le> TEMP_SIZE" "length (zfs_temp_buf z) = TEMP_SIZE" using z bp(3) by (auto simp: zok_def)
    define tb where "tb = take ?p (drop ?ptr (zfs_temp_buf z))"
    have ltb: "length tb = ?p" using room by (simp add: tb_def)
    have pr: "?p \<le> length tb" "zfs_vdevs ?z1 = vds" "z_dev ?z1 = z_dev z" using ltb vds by simp_all
    from read [OF pr] obtain rc b' s' where r: "read_copy E gang bp dva i ?p tb ?z1 = Some (rc, b', ?z1\<lparr>z_dev := s'\<rparr>)" "ok s'" "length b' = length tb"
      "?must \<longrightarrow> rc = 0" "rc = 0 \<longrightarrow> take ?p b' = d" by blast
    have lb: "length b' = ?p" using r(3) ltb by simp
    have un: "zio_unpack E bp buf rc b' = Some (if rc = 0 then (0, put buf 0 out) else (rc, buf))"
      using lb r(5) buf e False by (auto simp: zio_unpack_def)
    have "zio_copy E gang bp dva i buf z =
      Some (rc, if rc = 0 then put buf 0 out else buf, z\<lparr>zfs_temp_buf := put (zfs_temp_buf z) ?ptr b', z_dev := s'\<rparr>)"
      using r(1) lb un room False vds copy_size_tame [OF i(1), of bp]
      by (simp add: zio_copy_def Let_def zfs_alloc_def zfs_free_def tb_def)
    moreover have "zio_frame z (z\<lparr>zfs_temp_buf := put (zfs_temp_buf z) ?ptr b', z_dev := s'\<rparr>)" unfolding zio_frame_def by blast
    ultimately show ?thesis using r(2,4) lb z room buf by (auto simp: zok_def put_def)
  qed
qed

lemma copies_serve:
  assumes "raw bp = Some d" "unpacked E bp d = Some out" "BP_GET_PSIZE bp \<le> SPA_MAXBLOCKSIZE"
    and "\<forall>dva \<in> set dvas. \<forall>i. dva_copy vds spa dva = Some i \<longrightarrow> tame vds i \<and> \<not> DVA_GET_GANG dva"
    and "\<exists>dva \<in> set dvas. copy_serves E disk vds spa bp dva"
  shows "zok z \<Longrightarrow> length out \<le> length buf \<Longrightarrow>
    \<exists>z'. zio_copies E gang spa bp dvas error buf z = Some (0, put buf 0 out, z') \<and> zok z' \<and> zio_frame z z'"
  using assms(4,5)
proof (induction dvas arbitrary: error buf z)
  case (Cons dva dvas)
  have vds: "zfs_vdevs z = vds" using Cons.prems(1) by (simp add: zok_def)
  have top: "dva_copy vds spa dva = (if fst dva = 0 \<and> snd dva = 0 then None else find_top z spa (DVA_GET_VDEV dva))"
    by (cases dva) (simp add: dva_copy_def find_top_def vds)
  show ?case
  proof (cases "dva_copy vds spa dva")
    case None
    then have "\<exists>dva \<in> set dvas. copy_serves E disk vds spa bp dva" using Cons.prems(4) by (auto simp: copy_serves_def)
    then show ?thesis using None top Cons.IH [OF Cons.prems(1,2)] Cons.prems(3) by (auto split: if_splits)
  next
    case (Some i)
    then have i: "tame vds i" "\<not> DVA_GET_GANG dva" using Cons.prems(3) by auto
    have ft: "find_top z spa (DVA_GET_VDEV dva) = Some i" "\<not> (fst dva = 0 \<and> snd dva = 0)" using Some top by (auto split: if_splits)
    obtain rc b' z' where c: "zio_copy E gang bp dva i buf z = Some (rc, b', z')" "zok z'" "zio_frame z z'" "length b' = length buf"
      "drop (length out) b' = drop (length out) buf" "rc = 0 \<longrightarrow> b' = put buf 0 out"
      "serves disk (e_cksum E bp) (BP_GET_PSIZE bp) (DVA_GET_OFFSET dva) vds i \<longrightarrow> rc = 0"
      using copy_step [OF Cons.prems(1) assms(1-3) i Cons.prems(2)] by blast
    show ?thesis
    proof (cases "rc = 0")
      case True
      then show ?thesis using c ft by auto
    next
      case False
      then have "\<exists>dva \<in> set dvas. copy_serves E disk vds spa bp dva" using Cons.prems(4) c(7) Some by (auto simp: copy_serves_def)
      then obtain z2 where "zio_copies E gang spa bp dvas rc b' z' = Some (0, put b' 0 out, z2)" "zok z2" "zio_frame z' z2"
        using Cons.IH [OF c(2), of b' rc] Cons.prems(2,3) c(4) by auto
      moreover have "put b' 0 out = put buf 0 out" using c(5) by (simp add: put_def)
      ultimately show ?thesis using c ft False zio_frame_trans [OF c(3)] by auto
    qed
  qed
qed simp

lemma zio_read_content:
  assumes "zok z" "content bp = Some out" "length out \<le> length buf"
  shows "\<exists>z'. zio_read E junk spa bp buf z = Some (0, put buf 0 out, z') \<and> zok z' \<and> zio_frame z z'"
proof -
  obtain d where d: "raw bp = Some d" "unpacked E bp d = Some out" and c: "copies_tame vds spa bp" "BP_GET_PSIZE bp \<le> SPA_MAXBLOCKSIZE"
    "\<exists>dva \<in> set (blk_dva bp). copy_serves E disk vds spa bp dva"
    using assms(2) by (auto simp: content_def bind_eq_Some_conv split: if_splits)
  show ?thesis
    by (subst zio_read.simps, rule copies_serve [OF d c(2)]) (use c assms in \<open>auto simp: copies_tame_def\<close>)
qed

end

section \<open>Devices behind open files\<close>

text \<open>
  The reads of \<^verbatim>\<open>zfs.c\<close> on files that hold the devices: a descriptor is the number of a device and the state is the positions.
  \<open>truth\<close> are the blocks that the pointers stand for, and the checksum accepts nothing else.
\<close>

definition file_lseek :: "nat \<Rightarrow> int \<Rightarrow> (nat \<Rightarrow> int) \<Rightarrow> int \<times> (nat \<Rightarrow> int)" where
  "file_lseek fd off s = (off, s(fd := off))"

definition file_read :: "(nat \<Rightarrow> byte list) \<Rightarrow> nat \<Rightarrow> nat \<Rightarrow> (nat \<Rightarrow> int) \<Rightarrow> int \<times> byte list \<times> (nat \<Rightarrow> int)" where
  "file_read imgs fd n s =
     (if s fd < 0 then (-1, [], s)
      else let data = take n (drop (nat (s fd)) (imgs fd)) in (int (length data), data, s(fd := s fd + int (length data))))"

definition file_env ::
  "(nat \<Rightarrow> byte list) \<Rightarrow> (blkptr \<Rightarrow> byte list option) \<Rightarrow> (nat \<Rightarrow> byte list \<Rightarrow> nat \<Rightarrow> int \<times> byte list) \<Rightarrow> (u64 \<Rightarrow> byte list \<Rightarrow> u64) \<Rightarrow> (nat, nat \<Rightarrow> int) zfs_env" where
  "file_env imgs truth dc zh = \<lparr>e_read = fd_vdev_read file_lseek (file_read imgs), e_cksum = (\<lambda>bp b. truth bp \<noteq> Some b), e_decompress = dc,
     e_raidz = (\<lambda>vds i bp buf off n s. None), e_zap_hash = zh, e_spa_version = 28\<rparr>"

definition file_disk :: "(nat \<Rightarrow> byte list) \<Rightarrow> nat \<Rightarrow> u64 \<Rightarrow> nat \<Rightarrow> byte list option" where
  "file_disk imgs fd off n = (if sint off < 0 then None else let data = take n (drop (nat (sint off)) (imgs fd)) in if length data = n then Some data else None)"

definition raw_of :: "(blkptr \<Rightarrow> byte list option) \<Rightarrow> blkptr \<Rightarrow> byte list option" where
  "raw_of truth bp = (case truth bp of Some d \<Rightarrow> if length d = BP_GET_PSIZE bp then Some d else None | None \<Rightarrow> None)"

interpretation files: zfs_store "file_env imgs truth dc zh" "file_disk imgs" "\<lambda>_. True" vds spa "raw_of truth" for imgs truth dc zh vds spa
proof
  fix s :: "nat \<Rightarrow> int" and d off n data
  assume "file_disk imgs d off n = Some data"
  then have "\<not> sint off < 0" "length data = n" "data = take n (drop (nat (sint off)) (imgs d))"
    by (auto simp: file_disk_def Let_def split: if_splits)
  then show "length data = n \<and> (\<exists>s'. e_read (file_env imgs truth dc zh) d off n s = (0, data, s') \<and> True)"
    by (simp add: file_env_def fd_vdev_read_def file_lseek_def file_read_def Let_def)
next
  fix s :: "nat \<Rightarrow> int" and d off n
  assume "file_disk imgs d off n = None"
  then have "sint off < 0 \<or> length (take n (drop (nat (sint off)) (imgs d))) \<noteq> n" by (auto simp: file_disk_def Let_def split: if_splits)
  then show "\<exists>rc data s'. e_read (file_env imgs truth dc zh) d off n s = (rc, data, s') \<and> rc \<noteq> 0 \<and> length data \<le> n \<and> True"
    by (auto simp: file_env_def fd_vdev_read_def file_lseek_def file_read_def Let_def EIO_def min_def)
qed (auto simp: raw_of_def file_env_def raidz_ok_def split: option.splits if_splits)

text \<open>
  C35: one good copy is enough.  When the devices answer steadily, the checksum tells the block from everything else, no copy is
  on RAID-Z or a gang, the block has at most 128 KB, as much temporary space is free, the block can be decompressed into the buffer,
  and at least one copy of it is on a disk, or on a healthy side of a mirror, that can be read and has the right checksum, then
  \<^verbatim>\<open>zio_read\<close> delivers the block, decompressed, whatever the other copies hold or fail with, and gives back the temporary space.
\<close>

theorem zio_read_available:
  assumes "zfs_store E disk ok raw" "raw bp = Some d" "unpacked E bp d = Some out" "length out \<le> length buf"
    and "length out \<le> SPA_MAXBLOCKSIZE" "copies_tame (zfs_vdevs z) spa bp" "BP_GET_PSIZE bp \<le> SPA_MAXBLOCKSIZE" "\<exists>dva \<in> set (blk_dva bp). copy_serves E disk (zfs_vdevs z) spa bp dva"
    and "ok (z_dev z)" "length (zfs_temp_buf z) = TEMP_SIZE" "zfs_temp_ptr z + SPA_MAXBLOCKSIZE \<le> TEMP_SIZE"
  shows "\<exists>z'. zio_read E junk spa bp buf z = Some (0, put buf 0 out, z') \<and> zio_frame z z'"
proof -
  have "zfs_store.zok ok (zfs_vdevs z) z" using assms(9-11) zfs_store.zok_def [OF assms(1)] by blast
  moreover have "zfs_store.content E disk (zfs_vdevs z) spa raw bp = Some out"
    using zfs_store.content_def [OF assms(1)] assms(2,3,5-8) by simp
  ultimately show ?thesis using zfs_store.zio_read_content [OF assms(1) _ _ assms(4)] by blast
qed

text \<open>A mirror of two disks, of which the first cannot be read.\<close>

definition demo_bp :: blkptr where
  "demo_bp = \<lparr>blk_dva = [(1, 0), (0, 0), (0, 0)], blk_prop = 0x200000000, blk_birth = 1, blk_cksum = [0, 0, 0, 0]\<rparr>"

definition demo_vdev :: "vdev_kind \<Rightarrow> nat list \<Rightarrow> nat option \<Rightarrow> nat vdev" where
  "demo_vdev k ks d = \<lparr>v_guid = 0, v_id = 0, v_top = 0, v_ashift = 9, v_nparity = 0, v_name = [], v_state = VDEV_STATE_HEALTHY, v_nchildren = 0,
     v_children = ks, v_read = k, v_phys_read = d\<rparr>"

definition demo_vds :: "nat vdev list" where
  "demo_vds = [demo_vdev Vdev_mirror_read [1, 2] None, demo_vdev Vdev_disk_read [] (Some 1), demo_vdev Vdev_disk_read [] (Some 0)]"

definition demo_spa :: spa where
  "demo_spa = \<lparr>spa_name = [], spa_guid = 0, spa_txg = 0, spa_uberblock = \<lparr>ub_magic = 0, ub_txg = 0, ub_timestamp = 0, ub_rootbp = BP_ZERO\<rparr>,
     spa_vdevs = [0], spa_mos = [], spa_inited = False\<rparr>"

definition demo_imgs :: "nat \<Rightarrow> byte list" where
  "demo_imgs d = (if d = 0 then replicate 0x400400 7 else [])"

definition demo_truth :: "blkptr \<Rightarrow> byte list option" where
  "demo_truth bp = (if bp = demo_bp then Some (replicate 512 7) else None)"

definition demo_zenv :: "(nat, nat \<Rightarrow> int) zfs_env" where
  "demo_zenv = file_env demo_imgs demo_truth (\<lambda>c src n. (1, [])) (\<lambda>salt name. 0)"

definition demo_zfs :: "nat vdev list \<Rightarrow> (nat, nat \<Rightarrow> int) zfs" where
  "demo_zfs vds = (zfs_init (replicate TEMP_SIZE 0) (replicate SPA_MAXBLOCKSIZE 0) (replicate SPA_MAXBLOCKSIZE 0) (\<lambda>_. 0))\<lparr>zfs_vdevs := vds\<rparr>"

lemma demo_bp_simps: "BP_GET_PSIZE demo_bp = 512" "BP_GET_COMPRESS demo_bp = ZIO_COMPRESS_OFF" "blk_dva demo_bp = [(1, 0), (0, 0), (0, 0)]"
  by (simp_all add: BP_GET_PSIZE_def BP_GET_COMPRESS_def bits_def demo_bp_def ZIO_COMPRESS_OFF_def)

lemma demo_dva: "dva_copy demo_vds demo_spa (1, 0) = Some 0" "dva_copy demo_vds demo_spa (0, 0) = None" "\<not> DVA_GET_GANG (1, 0)" "DVA_GET_OFFSET (1, 0) = 0"
  by (simp_all add: dva_copy_def demo_vds_def demo_spa_def demo_vdev_def DVA_GET_VDEV_def DVA_GET_GANG_def DVA_GET_OFFSET_def)

lemma demo_tame: "tame demo_vds 0"
proof (rule tame_mirror)
  fix k assume "k \<in> set (v_children (demo_vds ! 0))"
  then have "k = 1 \<or> k = 2" by (simp add: demo_vds_def demo_vdev_def)
  then show "k < length demo_vds \<and> (v_state (demo_vds ! k) = VDEV_STATE_HEALTHY \<longrightarrow> tame demo_vds k)"
    by (auto simp: demo_vds_def demo_vdev_def intro!: tame_disk)
qed (simp_all add: demo_vds_def demo_vdev_def)

lemma demo_disk: "file_disk demo_imgs 0 VDEV_LABEL_START_SIZE 512 = Some (replicate 512 7)"
  by (simp add: file_disk_def demo_imgs_def VDEV_LABEL_START_SIZE_def)

lemma demo_serves: "copy_serves demo_zenv (file_disk demo_imgs) demo_vds demo_spa demo_bp (1, 0)"
proof -
  have "serves (file_disk demo_imgs) (e_cksum demo_zenv demo_bp) 512 0 demo_vds 2"
    using demo_disk by (intro serves_disk [where d = 0 and data = "replicate 512 7"]) (simp_all add: demo_vds_def demo_vdev_def demo_zenv_def file_env_def demo_truth_def)
  then have "serves (file_disk demo_imgs) (e_cksum demo_zenv demo_bp) 512 0 demo_vds 0"
    by (rule serves_mirror [where k = 2, rotated 3]) (simp_all add: demo_vds_def demo_vdev_def)
  then show ?thesis by (simp add: copy_serves_def demo_dva demo_bp_simps)
qed

lemma demo_raw: "raw_of demo_truth demo_bp = Some (replicate 512 7)" "unpacked demo_zenv demo_bp d = Some d"
  by (simp_all add: raw_of_def demo_truth_def demo_bp_simps unpacked_def)

lemma demo_copies: "copies_tame demo_vds demo_spa demo_bp"
  by (auto simp: copies_tame_def demo_bp_simps demo_dva demo_tame)

lemma demo_zfs_simps: "zfs_vdevs (demo_zfs vds) = vds" "length (zfs_temp_buf (demo_zfs vds)) = TEMP_SIZE" "zfs_temp_ptr (demo_zfs vds) = 0"
  "length (dnode_cache_buf (demo_zfs vds)) = SPA_MAXBLOCKSIZE" "dnode_cache_obj (demo_zfs vds) = None"
  by (simp_all add: demo_zfs_def zfs_init_def)

theorem zio_read_available_witness:
  "\<exists>z'. zio_read demo_zenv [] demo_spa demo_bp (replicate 512 0) (demo_zfs demo_vds) = Some (0, replicate 512 7, z') \<and> zio_frame (demo_zfs demo_vds) z'"
proof -
  have "\<exists>dva \<in> set (blk_dva demo_bp). copy_serves demo_zenv (file_disk demo_imgs) demo_vds demo_spa demo_bp dva"
    using demo_serves by (simp add: demo_bp_simps)
  then have "\<exists>z'. zio_read demo_zenv [] demo_spa demo_bp (replicate 512 0) (demo_zfs demo_vds) = Some (0, put (replicate 512 0) 0 (replicate 512 7), z') \<and> zio_frame (demo_zfs demo_vds) z'"
    using files.zfs_store_axioms [of demo_imgs demo_truth] demo_raw demo_copies
    by (intro zio_read_available [where disk = "file_disk demo_imgs" and ok = "\<lambda>_. True" and raw = "raw_of demo_truth"])
      (simp_all add: demo_zenv_def demo_zfs_simps demo_bp_simps SPA_MAXBLOCKSIZE_def TEMP_SIZE_def)
  then show ?thesis by (simp add: put_def)
qed

lemma demo_content: "files.content demo_imgs demo_truth (\<lambda>c src n. (1, [])) (\<lambda>salt name. 0) demo_vds demo_spa demo_bp = Some (replicate 512 7)"
proof -
  have "\<exists>dva \<in> set (blk_dva demo_bp). copy_serves demo_zenv (file_disk demo_imgs) demo_vds demo_spa demo_bp dva"
    using demo_serves by (simp add: demo_bp_simps)
  then show ?thesis
    unfolding files.content_def unfolding demo_zenv_def [symmetric] using demo_raw demo_copies by (simp add: demo_bp_simps SPA_MAXBLOCKSIZE_def)
qed

theorem zio_read_verified_witness: "block_data demo_zenv demo_bp (replicate 512 7)"
proof -
  have "files.zok demo_vds (demo_zfs demo_vds)" by (simp add: files.zok_def demo_zfs_simps SPA_MAXBLOCKSIZE_def TEMP_SIZE_def)
  from files.zio_read_content [OF this demo_content, of "replicate 512 0" "[]"] obtain z' where
    "zio_read demo_zenv [] demo_spa demo_bp (replicate 512 0) (demo_zfs demo_vds) = Some (0, put (replicate 512 0) 0 (replicate 512 7), z')"
    by (auto simp: demo_zenv_def)
  from zio_read_verified [OF _ this] show ?thesis using files.raidz by (simp add: demo_zenv_def put_def)
qed

end
