(* ===== verification/ZfsDnode.thy ===== *)
theory ZfsDnode
  imports ZfsIoFacts
begin

text \<open>
  Objects: the tree of block pointers of a dnode, that \<^verbatim>\<open>dnode_read\<close> delivers the bytes of the object through its cache of one
  block, and that an error leaves a cache whose content is not what it says.
\<close>

section \<open>The tree of a dnode\<close>

text \<open>
  The pointer to follow at a level is a digit of the number of the block, in the base of how many pointers a block has.
\<close>

definition block_digit :: "int \<Rightarrow> nat \<Rightarrow> u64 \<Rightarrow> nat option" where
  "block_digit ibshift k bn =
     (if 0 \<le> ibshift \<and> ibshift < 31 \<and> int k * ibshift < 64 then Some (unat bn div (2 ^ nat ibshift) ^ k mod 2 ^ nat ibshift) else None)"

lemma level_index_digit: "level_index ibshift k bn = block_digit ibshift k bn"
proof -
  have "unat (take_bit n (drop_bit m bn)) = unat bn div 2 ^ m mod 2 ^ n" for n m
    unfolding unsigned_take_bit_eq unat_drop_bit_eq by (simp only: take_bit_eq_mod drop_bit_eq_div)
  then show ?thesis by (auto simp: level_index_def block_digit_def nat_mult_distrib mult.commute simp flip: power_mult)
qed

fun tree_block :: "(blkptr \<Rightarrow> byte list option) \<Rightarrow> int \<Rightarrow> u64 \<Rightarrow> nat \<Rightarrow> byte list \<Rightarrow> byte list option" where
  "tree_block content ibshift bn 0 arr = Some arr"
| "tree_block content ibshift bn (Suc k) arr = do {
     ibn \<leftarrow> block_digit ibshift k bn;
     bp \<leftarrow> bp_at arr ibn;
     d \<leftarrow> content bp;
     tree_block content ibshift bn k d
   }"

definition obj_block :: "(blkptr \<Rightarrow> byte list option) \<Rightarrow> byte list \<Rightarrow> u64 \<Rightarrow> byte list option" where
  "obj_block content dn bn = tree_block content (dn_indblkshift dn - 7) bn (dn_nlevels dn) (dn_blkptr dn)"

definition dn_bsize :: "byte list \<Rightarrow> nat" where
  "dn_bsize dn = dn_datablkszsec dn * 512"

text \<open>The bytes of an object.\<close>

definition obj_holds :: "(blkptr \<Rightarrow> byte list option) \<Rightarrow> byte list \<Rightarrow> byte list \<Rightarrow> bool" where
  "obj_holds content dn bytes \<longleftrightarrow> 0 < dn_bsize dn \<and> 0 < dn_nlevels dn \<and> length bytes = (unat (dn_maxblkid dn) + 1) * dn_bsize dn \<and>
     (\<forall>bn \<le> dn_maxblkid dn. \<exists>d. obj_block content dn bn = Some d \<and> dn_bsize dn \<le> length d \<and>
        take (dn_bsize dn) d = take (dn_bsize dn) (drop (unat bn * dn_bsize dn) bytes))"

text \<open>What the cache says of the dnode at an address is true.\<close>

definition cache_ok :: "(blkptr \<Rightarrow> byte list option) \<Rightarrow> nat \<Rightarrow> byte list \<Rightarrow> ('d, 's) zfs \<Rightarrow> bool" where
  "cache_ok content a dn z \<longleftrightarrow> (dnode_cache_obj z = Some a \<longrightarrow>
     (\<exists>d. obj_block content dn (dnode_cache_bn z) = Some d \<and> take (length d) (dnode_cache_buf z) = d))"

definition dn_frame :: "('d, 's) zfs \<Rightarrow> ('d, 's) zfs \<Rightarrow> bool" where
  "dn_frame z z' \<longleftrightarrow> zfs_vdevs z' = zfs_vdevs z \<and> zfs_pools z' = zfs_pools z \<and> zap_scratch z' = zap_scratch z \<and>
     zfs_temp_ptr z' = zfs_temp_ptr z \<and> length (dnode_cache_buf z') = length (dnode_cache_buf z)"

lemma dn_frame_refl [simp]: "dn_frame z z"
  by (simp add: dn_frame_def)

lemma dn_frame_trans [trans]: "dn_frame z z1 \<Longrightarrow> dn_frame z1 z2 \<Longrightarrow> dn_frame z z2"
  by (simp add: dn_frame_def)

section \<open>Reading objects\<close>

text \<open>The contract of the block layer: pointers with a content are read, and the caches belong to the layer above.\<close>

locale block_pool =
  fixes E :: "('d, 's) zfs_env" and junk :: "byte list" and spa :: spa and content :: "blkptr \<Rightarrow> byte list option" and zok :: "('d, 's) zfs \<Rightarrow> bool"
  assumes zio: "zok z \<Longrightarrow> content bp = Some d \<Longrightarrow> length d \<le> length buf \<Longrightarrow>
      \<exists>z'. zio_read E junk spa bp buf z = Some (0, put buf 0 d, z') \<and> zok z' \<and> zio_frame z z'"
    and content_bound: "content bp = Some d \<Longrightarrow> length d \<le> SPA_MAXBLOCKSIZE"
    and zok_caches: "zok z \<Longrightarrow> zok (z\<lparr>dnode_cache_obj := ob, dnode_cache_bn := bn, dnode_cache_buf := cb, zap_scratch := sc\<rparr>)"
begin

lemma zok_cache [intro]: "zok z \<Longrightarrow> zok (z\<lparr>dnode_cache_buf := cb\<rparr>)" "zok z \<Longrightarrow> zok (z\<lparr>dnode_cache_obj := ob, dnode_cache_bn := bn\<rparr>)"
  "zok z \<Longrightarrow> zok (z\<lparr>zap_scratch := sc\<rparr>)"
  using zok_caches [of z, where ob = "dnode_cache_obj z" and bn = "dnode_cache_bn z" and cb = cb and sc = "zap_scratch z"]
    zok_caches [of z, where ob = ob and bn = bn and cb = "dnode_cache_buf z" and sc = "zap_scratch z"]
    zok_caches [of z, where ob = "dnode_cache_obj z" and bn = "dnode_cache_bn z" and cb = "dnode_cache_buf z" and sc = sc] by simp_all

lemma take_drop_take: "r + i \<le> L \<Longrightarrow> take i (drop r (take L xs)) = take i (drop r xs)"
  by (simp add: drop_take)

lemma bp_at_prefix:
  assumes "bp_at arr i = Some bp" "take (length arr) arr' = arr"
  shows "bp_at arr' i = Some bp"
proof -
  obtain b where b: "slice arr (i * SIZEOF_BLKPTR) SIZEOF_BLKPTR = Some b" "bp = rd_blkptr b" using assms(1) by (auto simp: bp_at_def)
  have "arr' = arr @ drop (length arr) arr'" using assms(2) by (metis append_take_drop_id)
  then obtain tl where "arr' = arr @ tl" by blast
  then show ?thesis using b by (auto simp: bp_at_def slice_Some_iff)
qed

lemma walk_finds:
  assumes "tree_block content sh bn k arr = Some d" "0 < k"
  shows "zok z \<Longrightarrow> length (dnode_cache_buf z) = SPA_MAXBLOCKSIZE \<Longrightarrow> take (length arr) arr' = arr \<Longrightarrow>
    \<exists>z'. dnode_walk E junk spa sh bn k arr' z = Some (0, z') \<and> zok z' \<and> dn_frame z z' \<and> take (length d) (dnode_cache_buf z') = d"
  using assms
proof (induction k arbitrary: arr arr' z)
  case (Suc k)
  obtain ibn bp b where s: "block_digit sh k bn = Some ibn" "bp_at arr ibn = Some bp" "content bp = Some b" "tree_block content sh bn k b = Some d"
    using Suc.prems(4) by (auto simp: bind_eq_Some_conv)
  have lb: "length b \<le> length (dnode_cache_buf z)" using content_bound [OF s(3)] Suc.prems(2) by simp
  obtain z1 where z1: "zio_read E junk spa bp (dnode_cache_buf z) z = Some (0, put (dnode_cache_buf z) 0 b, z1)" "zok z1" "zio_frame z z1"
    using zio [OF Suc.prems(1) s(3) lb] by blast
  let ?buf = "put (dnode_cache_buf z) 0 b"
  let ?z2 = "z1\<lparr>dnode_cache_buf := ?buf\<rparr>"
  have z2: "zok ?z2" "length ?buf = length (dnode_cache_buf z)" "take (length b) ?buf = b" using z1(2) lb by (auto simp: put_def)
  have fr: "dn_frame z ?z2" using z1(3) z2(2) by (simp add: dn_frame_def zio_frame_simps)
  have step: "dnode_walk E junk spa sh bn (Suc k) arr' z = dnode_walk E junk spa sh bn k ?buf ?z2"
    using s(1) bp_at_prefix [OF s(2) Suc.prems(3)] z1(1) by (simp add: level_index_digit)
  show ?case
  proof (cases k)
    case 0
    then show ?thesis using step s(4) z2 fr by simp
  next
    case (Suc k')
    then obtain z' where "dnode_walk E junk spa sh bn k ?buf ?z2 = Some (0, z')" "zok z'" "dn_frame ?z2 z'" "take (length d) (dnode_cache_buf z') = d"
      using Suc.IH [of ?z2 b ?buf] z2 s(4) Suc.prems(2) by auto
    then show ?thesis using step fr dn_frame_trans by auto
  qed
qed simp

lemma block_found:
  assumes "zok z" "length (dnode_cache_buf z) = SPA_MAXBLOCKSIZE" "cache_ok content a dn z" "obj_block content dn bn = Some d" "0 < dn_nlevels dn"
  shows "\<exists>z'. dnode_block E junk spa a dn bn z = Some (0, z') \<and> zok z' \<and> dn_frame z z' \<and> dnode_cache_obj z' = Some a \<and> dnode_cache_bn z' = bn \<and>
    take (length d) (dnode_cache_buf z') = d"
proof (cases "dnode_cache_obj z = Some a \<and> dnode_cache_bn z = bn")
  case True
  then show ?thesis using assms by (auto simp: dnode_block_def cache_ok_def)
next
  case False
  obtain z1 where "dnode_walk E junk spa (dn_indblkshift dn - 7) bn (dn_nlevels dn) (dn_blkptr dn) z = Some (0, z1)" "zok z1" "dn_frame z z1"
    "take (length d) (dnode_cache_buf z1) = d"
    using walk_finds [OF _ assms(5) assms(1,2), of "dn_indblkshift dn - 7" bn "dn_blkptr dn" d "dn_blkptr dn"] assms(4) by (auto simp: obj_block_def)
  then show ?thesis using False by (auto simp: dnode_block_def dn_frame_def)
qed

lemma dnode_read_loop_delivers:
  assumes h: "obj_holds content dn bytes"
  shows "zok z \<Longrightarrow> length (dnode_cache_buf z) = SPA_MAXBLOCKSIZE \<Longrightarrow> cache_ok content a dn z \<Longrightarrow> o1 + n \<le> length bytes \<Longrightarrow> pos + n \<le> length buf \<Longrightarrow>
    \<exists>z'. dnode_read_loop E junk spa a dn (int o1) buf pos n z = Some (0, put buf pos (take n (drop o1 bytes)), z') \<and> zok z' \<and> dn_frame z z' \<and>
      cache_ok content a dn z' \<and> (n \<noteq> 0 \<longrightarrow> dnode_cache_obj z' = Some a) \<and> (n = 0 \<longrightarrow> z' = z)"
proof (induction n arbitrary: o1 pos buf z rule: less_induct)
  case (less n)
  show ?case
  proof (cases "n = 0")
    case True
    then show ?thesis using less.prems by (subst dnode_read_loop.simps) (simp add: Let_def)
  next
    case False
    let ?bs = "dn_bsize dn"
    define q r where "q = o1 div ?bs" and "r = o1 mod ?bs"
    have bs: "0 < ?bs" and lv: "0 < dn_nlevels dn" and len: "length bytes = (unat (dn_maxblkid dn) + 1) * ?bs" using h by (auto simp: obj_holds_def)
    have o1: "o1 = q * ?bs + r" "r < ?bs" using bs by (simp_all add: q_def r_def)
    have "q * ?bs < (unat (dn_maxblkid dn) + 1) * ?bs" using o1 less.prems(4) False len by linarith
    then have q: "q \<le> unat (dn_maxblkid dn)" by (metis Suc_eq_plus1 less_Suc_eq_le mult_less_cancel2)
    have uq: "unat (word_of_nat q :: u64) = q" using q unsigned_less [where 'a = nat, of "dn_maxblkid dn"] by (simp add: unat_of_nat)
    define bn where "bn = (word_of_nat q :: u64)"
    have bn: "bn \<le> dn_maxblkid dn" "unat bn = q" using q uq by (simp_all add: bn_def word_le_nat_alt)
    obtain d where d: "obj_block content dn bn = Some d" "?bs \<le> length d" "take ?bs d = take ?bs (drop (q * ?bs) bytes)"
      using h bn by (auto simp: obj_holds_def)
    obtain z1 where z1: "dnode_block E junk spa a dn bn z = Some (0, z1)" "zok z1" "dn_frame z z1" "dnode_cache_obj z1 = Some a" "dnode_cache_bn z1 = bn"
      "take (length d) (dnode_cache_buf z1) = d" using block_found [OF less.prems(1-3) d(1) lv] by blast
    define i where "i = min (?bs - r) n"
    have i: "0 < i" "i \<le> n" "r + i \<le> ?bs" using o1(2) False by (auto simp: i_def)
    have part: "slice (dnode_cache_buf z1) r i = Some (take i (drop o1 bytes))"
    proof -
      have l: "length d \<le> length (dnode_cache_buf z1)" using arg_cong [OF z1(6), of length] by simp
      have "take i (drop r (dnode_cache_buf z1)) = take i (drop r d)" using take_drop_take [of r i "length d" "dnode_cache_buf z1"] z1(6) d(2) i(3) by simp
      also have "\<dots> = take i (drop r (take ?bs d))" using take_drop_take [OF i(3), of d] by simp
      also have "\<dots> = take i (drop r (drop (q * ?bs) bytes))" unfolding d(3) by (rule take_drop_take [OF i(3)])
      also have "\<dots> = take i (drop o1 bytes)" using o1(1) by (simp add: add.commute)
      finally show ?thesis using l d(2) i(3) by (simp add: slice_Some_iff)
    qed
    have lp: "length (take i (drop o1 bytes)) = i" using less.prems(4) i(2) by simp
    have td: "tdiv (int o1) (int ?bs) = int q" "tmod (int o1) (int ?bs) = int r"
      by (simp_all add: tmod_def tdiv_def q_def r_def zdiv_int zmod_int minus_div_mult_eq_mod)
    let ?buf = "put buf pos (take i (drop o1 bytes))"
    have step: "dnode_read_loop E junk spa a dn (int o1) buf pos n z = dnode_read_loop E junk spa a dn (int (o1 + i)) ?buf (pos + i) (n - i) z1"
      using False bs bn [unfolded linorder_not_less [symmetric]] z1(1) part td lp less.prems(5) i(2) o1(2)
      by (subst dnode_read_loop.simps) (simp add: Let_def dn_bsize_def [symmetric] bn_def [symmetric] i_def [symmetric] nat_diff_distrib' flip: bn_def)
    have c1: "cache_ok content a dn z1" using d(1) z1(5,6) by (simp add: cache_ok_def)
    have "length (dnode_cache_buf z1) = SPA_MAXBLOCKSIZE" using z1(3) less.prems(2) by (simp add: dn_frame_def)
    then obtain z' where z': "dnode_read_loop E junk spa a dn (int (o1 + i)) ?buf (pos + i) (n - i) z1 = Some (0, put ?buf (pos + i) (take (n - i) (drop (o1 + i) bytes)), z')"
      "zok z'" "dn_frame z1 z'" "cache_ok content a dn z'" "n - i \<noteq> 0 \<longrightarrow> dnode_cache_obj z' = Some a" "n - i = 0 \<longrightarrow> z' = z1"
      using less.IH [of "n - i" z1 "o1 + i" "pos + i" ?buf] i z1(2) c1 less.prems(4,5) lp by auto
    have "put ?buf (pos + i) (take (n - i) (drop (o1 + i) bytes)) = put buf pos (take n (drop o1 bytes))"
      using put_put_adjacent [of pos "take i (drop o1 bytes)" buf "take (n - i) (drop (o1 + i) bytes)"] lp less.prems(5) i(2)
        take_add [of i "n - i" "drop o1 bytes"] by (simp add: add.commute)
    then show ?thesis using step z' z1(3,4) dn_frame_trans False by (cases "n - i = 0") auto
  qed
qed

end

text \<open>A pool of steady devices keeps the contract.\<close>

sublocale zfs_store \<subseteq> pool: block_pool E junk spa content zok
proof
  fix z bp d and buf :: "byte list"
  assume "zok z" "content bp = Some d" "length d \<le> length buf"
  then show "\<exists>z'. zio_read E junk spa bp buf z = Some (0, put buf 0 d, z') \<and> zok z' \<and> zio_frame z z'" by (rule zio_read_content)
next
  fix bp d
  assume "content bp = Some d"
  then show "length d \<le> SPA_MAXBLOCKSIZE" by (auto simp: content_def bind_eq_Some_conv split: if_splits)
next
  fix z ob bn cb sc
  assume "zok z"
  then show "zok (z\<lparr>dnode_cache_obj := ob, dnode_cache_bn := bn, dnode_cache_buf := cb, zap_scratch := sc\<rparr>)" by (simp add: zok_def)
qed

text \<open>
  C37: an object is read as it is.  Over any block layer with the contract, for an object all of whose blocks can be read, and with a
  cache that holds what it says, \<^verbatim>\<open>dnode_read\<close> of at least one byte ends and delivers exactly the bytes of the object in the range, across blocks and through any number of levels of indirect
  blocks; the cache still holds what it says, and belongs to the object.
\<close>

theorem dnode_read_delivers:
  assumes "block_pool E junk spa content zok" "obj_holds content dn bytes" "zok z" "length (dnode_cache_buf z) = SPA_MAXBLOCKSIZE"
    and "cache_ok content a dn z" "off + n \<le> length bytes" "n \<le> length buf" "0 < n"
  shows "\<exists>z'. dnode_read E junk spa a dn (int off) buf n z = Some (0, put buf 0 (take n (drop off bytes)), z') \<and>
    zok z' \<and> dn_frame z z' \<and> cache_ok content a dn z' \<and> dnode_cache_obj z' = Some a"
  using block_pool.dnode_read_loop_delivers [OF assms(1-6), of 0 buf] assms(7,8) by (auto simp: dnode_read_def)

section \<open>The cache after an error\<close>

text \<open>
  C40: a failed read poisons the cache.  \<^verbatim>\<open>dnode_read\<close> reads into the buffer of the cache and changes the tag of the cache only when it
  succeeds.  When the read of another block of the cached object fails, the old block counts as cached still: reading it
  again succeeds and delivers what the failed read has left in the buffer.
\<close>

theorem dnode_cache_poisoned:
  assumes "0 < dn_bsize dn" "dn_nlevels dn = 1" "b1 \<le> dn_maxblkid dn" "b2 \<le> dn_maxblkid dn" "b1 \<noteq> b2"
    and "dnode_cache_obj z = Some a" "dnode_cache_bn z = b1"
    and "level_index (dn_indblkshift dn - 7) 0 b2 = Some i" "bp_at (dn_blkptr dn) i = Some bp"
    and "zio_read E junk spa bp (dnode_cache_buf z) z = Some (rc, bad, z1)" "rc \<noteq> 0"
    and "0 < n" "n \<le> dn_bsize dn" "n \<le> length bad" "n \<le> length buf"
  shows "\<exists>z2. dnode_read E junk spa a dn (int (unat b2 * dn_bsize dn)) buf n z = Some (rc, buf, z2) \<and>
    dnode_read E junk spa a dn (int (unat b1 * dn_bsize dn)) buf n z2 = Some (0, put buf 0 (take n bad), z2)"
proof -
  let ?z2 = "z1\<lparr>dnode_cache_buf := bad\<rparr>"
  have fr: "zio_frame z z1" using zio_read_frame [OF assms(10)] by simp
  define q1 q2 where "q1 = unat b1" and "q2 = unat b2"
  have w: "(word_of_nat q1 :: u64) = b1" "(word_of_nat q2 :: u64) = b2" by (simp_all add: q1_def q2_def)
  have td: "tdiv (int (q * dn_bsize dn)) (int (dn_bsize dn)) = int q" "tmod (int (q * dn_bsize dn)) (int (dn_bsize dn)) = 0" for q
    using assms(1) by (simp_all add: tmod_def tdiv_def del: of_nat_mult) (simp_all flip: zdiv_int)
  have miss: "dnode_block E junk spa a dn b2 z = Some (rc, ?z2)"
    using assms(2,5-11) by (simp add: dnode_block_def)
  have hit: "dnode_block E junk spa a dn b1 ?z2 = Some (0, ?z2)"
    using assms(6,7) fr by (simp add: dnode_block_def zio_frame_simps)
  have "dnode_read E junk spa a dn (int (q2 * dn_bsize dn)) buf n z = Some (rc, buf, ?z2)"
    unfolding dnode_read_def using assms(1,4,11,12) miss td w
    by (subst dnode_read_loop.simps) (simp add: Let_def dn_bsize_def [symmetric] linorder_not_less [symmetric] del: of_nat_mult)
  moreover have "dnode_read_loop E junk spa a dn (int (q1 * dn_bsize dn)) buf 0 n ?z2 = Some (0, put buf 0 (take n bad), ?z2)"
  proof -
    have "dnode_read_loop E junk spa a dn off b p 0 ?z2 = Some (0, b, ?z2)" for off b p by (subst dnode_read_loop.simps) (simp add: Let_def)
    then show ?thesis using assms(1,3,12-15) hit td w
      by (subst dnode_read_loop.simps) (simp add: Let_def dn_bsize_def [symmetric] linorder_not_less [symmetric] min_def del: of_nat_mult)
  qed
  ultimately show ?thesis unfolding dnode_read_def q1_def q2_def by blast
qed

section \<open>A small object\<close>

lemma le_nat_padding [simp]: "le_nat (replicate n 0) = 0" "le_nat (replicate n 0 @ xs) = 256 ^ n * le_nat xs"
  by (induction n) simp_all

definition demo_bp_bytes :: "byte \<Rightarrow> byte list" where
  "demo_bp_bytes birth = 1 # replicate 51 0 @ [2] @ replicate 27 0 @ [birth] @ replicate 47 0"

definition demo_dn :: "byte \<Rightarrow> byte list" where
  "demo_dn maxblk = [0, 14, 1, 1, 0, 0, 0, 0, 1, 0, 0, 0, 0, 0, 0, 0, maxblk] @ replicate 47 0 @ demo_bp_bytes 1 @ demo_bp_bytes 2 @ replicate 192 0"

lemma demo_dn_simps: "dn_bsize (demo_dn b) = 512" "dn_nlevels (demo_dn b) = 1" "dn_indblkshift (demo_dn b) = 14" "dn_maxblkid (demo_dn b) = ucast b"
  by (simp_all add: dn_bsize_def dn_datablkszsec_def dn_nlevels_def dn_indblkshift_def dn_maxblkid_def fld_def demo_dn_def)

lemma demo_dn_bps: "bp_at (dn_blkptr (demo_dn b)) 0 = Some demo_bp" "bp_at (dn_blkptr (demo_dn b)) 1 = Some (demo_bp\<lparr>blk_birth := 2\<rparr>)"
  by (simp_all add: bp_at_def dn_blkptr_def demo_dn_def demo_bp_bytes_def SIZEOF_BLKPTR_def rd_blkptr_def fld_def slice_def demo_bp_def)

lemma demo_object: "obj_holds (files.content demo_imgs demo_truth (\<lambda>c src n. (1, [])) (\<lambda>salt name. 0) demo_vds demo_spa) (demo_dn 0) (replicate 512 7)"
proof -
  have "obj_block (files.content demo_imgs demo_truth (\<lambda>c src n. (1, [])) (\<lambda>salt name. 0) demo_vds demo_spa) (demo_dn 0) 0 = Some (replicate 512 7)"
    using demo_content demo_dn_bps(1) [of 0] by (simp add: obj_block_def demo_dn_simps block_digit_def)
  then show ?thesis by (simp add: obj_holds_def demo_dn_simps)
qed

theorem dnode_read_delivers_witness:
  "\<exists>z'. dnode_read demo_zenv [] demo_spa 9 (demo_dn 0) 500 (replicate 12 0) 12 (demo_zfs demo_vds) = Some (0, replicate 12 7, z') \<and> dnode_cache_obj z' = Some 9"
proof -
  have "files.zok demo_vds (demo_zfs demo_vds)" by (simp add: files.zok_def demo_zfs_simps SPA_MAXBLOCKSIZE_def TEMP_SIZE_def)
  from dnode_read_delivers [OF files.pool.block_pool_axioms demo_object this, of 9 500 12 "replicate 12 0" "[]"]
  show ?thesis by (auto simp: demo_zenv_def demo_zfs_simps cache_ok_def put_def)
qed

text \<open>The second block of the object has the wrong checksum: its bytes 7 are delivered as the first block, which holds 0.\<close>

definition demo_one_disk :: "nat vdev list" where
  "demo_one_disk = [demo_vdev Vdev_disk_read [] (Some 0)]"

definition demo_cached :: "(nat, nat \<Rightarrow> int) zfs" where
  "demo_cached = (demo_zfs demo_one_disk)\<lparr>dnode_cache_obj := Some 9, dnode_cache_bn := 0, dnode_cache_buf := replicate 512 0\<rparr>"

lemma demo_bad_read:
  "\<exists>z1. zio_read demo_zenv [] demo_spa (demo_bp\<lparr>blk_birth := 2\<rparr>) (replicate 512 0) demo_cached = Some (EIO, replicate 512 7, z1)"
proof -
  let ?bp = "demo_bp\<lparr>blk_birth := 2\<rparr>"
  have bp: "BP_GET_PSIZE ?bp = 512" "BP_GET_COMPRESS ?bp = ZIO_COMPRESS_OFF" "blk_dva ?bp = [(1, 0), (0, 0), (0, 0)]" "demo_truth ?bp = None"
    by (simp_all add: BP_GET_PSIZE_def BP_GET_COMPRESS_def bits_def demo_bp_def ZIO_COMPRESS_OFF_def demo_truth_def)
  have r: "\<exists>s. e_read demo_zenv 0 VDEV_LABEL_START_SIZE 512 (z_dev demo_cached) = (0, replicate 512 7, s)"
    by (simp add: demo_zenv_def file_env_def fd_vdev_read_def file_lseek_def file_read_def demo_imgs_def VDEV_LABEL_START_SIZE_def Let_def)
  have ck: "e_cksum demo_zenv ?bp b" for b by (simp add: demo_zenv_def file_env_def bp)
  have z: "zfs_vdevs demo_cached = demo_one_disk" by (simp add: demo_cached_def demo_zfs_simps)
  have "\<exists>s. vdev_read demo_zenv demo_one_disk ?bp 0 512 0 (replicate 512 0) (z_dev demo_cached) = Some (EIO, replicate 512 7, s)"
    using r ck by (subst vdev_read.simps) (auto simp: demo_one_disk_def demo_vdev_def vdev_disk_read_def vdev_read_phys_def bp put_def slice_def)
  then have copy: "\<exists>z1. zio_copy demo_zenv g ?bp (1, 0) 0 (replicate 512 0) demo_cached = Some (EIO, replicate 512 7, z1)" for g
    by (auto simp: zio_copy_def Let_def copy_size_def bp z read_copy_def lift_dev_def demo_dva demo_one_disk_def demo_vdev_def)
  have top: "find_top demo_cached demo_spa (DVA_GET_VDEV (1, 0)) = Some 0"
    by (simp add: find_top_def z demo_one_disk_def demo_vdev_def demo_spa_def DVA_GET_VDEV_def)
  have "\<exists>z1. zio_copies demo_zenv g demo_spa ?bp (blk_dva ?bp) EIO (replicate 512 0) demo_cached = Some (EIO, replicate 512 7, z1)" for g
  proof -
    obtain z1 where "zio_copy demo_zenv g ?bp (1, 0) 0 (replicate 512 0) demo_cached = Some (EIO, replicate 512 7, z1)" using copy by blast
    then show ?thesis unfolding bp(3) using top by (simp add: EIO_def)
  qed
  then show ?thesis by (subst zio_read.simps)
qed

theorem dnode_cache_poisoned_witness:
  "\<exists>z2. dnode_read demo_zenv [] demo_spa 9 (demo_dn 1) 512 (replicate 4 1) 4 demo_cached = Some (EIO, replicate 4 1, z2) \<and>
    dnode_read demo_zenv [] demo_spa 9 (demo_dn 1) 0 (replicate 4 1) 4 z2 = Some (0, replicate 4 7, z2)"
proof -
  obtain z1 where "zio_read demo_zenv [] demo_spa (demo_bp\<lparr>blk_birth := 2\<rparr>) (dnode_cache_buf demo_cached) demo_cached = Some (EIO, replicate 512 7, z1)"
    using demo_bad_read by (auto simp: demo_cached_def)
  from dnode_cache_poisoned [of "demo_dn 1" 0 1 demo_cached 9 1, OF _ _ _ _ _ _ _ _ demo_dn_bps(2) this, of 4 "replicate 4 1"]
  show ?thesis by (simp add: demo_dn_simps demo_cached_def level_index_def EIO_def put_def)
qed

end
