(* ===== verification/ZfsZap.thy ===== *)
theory ZfsZap
  imports ZfsIo
begin

text \<open>
  The ZAP directories of \<^verbatim>\<open>boot/zfs/zfsimpl.c\<close>: lookups by name and by value in micro and fat ZAP objects, through the scratch
  buffer.  A name in the buffer is a C string; one that is not terminated inside the buffer counts as a fault, as do a
  null pointer, an undefined shift and every access outside the buffer.
\<close>

section \<open>Layout\<close>

definition ZBT_MICRO :: u64 where "ZBT_MICRO = 0x8000000000000003"
definition ZBT_HEADER :: u64 where "ZBT_HEADER = 0x8000000000000001"
definition ZAP_MAGIC :: u64 where "ZAP_MAGIC = 0x2F52AB2AB"
definition ZAP_LEAF_ARRAY_BYTES :: nat where "ZAP_LEAF_ARRAY_BYTES = 21"

abbreviation u16_in :: "byte list \<Rightarrow> nat \<Rightarrow> nat option" where
  "u16_in m p \<equiv> map_option unat (le_field m p 2 :: u16 option)"

abbreviation u64_in :: "byte list \<Rightarrow> nat \<Rightarrow> u64 option" where
  "u64_in m p \<equiv> le_field m p 8"

definition leaf_chunk :: "nat \<Rightarrow> nat \<Rightarrow> nat" where
  "leaf_chunk bs idx = 48 + 2 * 2 ^ (bs - 5) + 24 * idx"

definition obj_bsize :: "byte list \<Rightarrow> nat" where
  "obj_bsize dn = dn_datablkszsec dn * 512"

text \<open>\<^term>\<open>None\<close> is the result -1, with which every use is an undefined shift.\<close>

definition ilog2 :: "nat \<Rightarrow> nat option" where
  "ilog2 n = find (\<lambda>v. n = 2 ^ v) [0..<31]"

section \<open>Micro ZAP\<close>

definition mz_chunks :: "byte list \<Rightarrow> nat" where
  "mz_chunks dn = obj_bsize dn div 64 - 1"

fun mzap_loop :: "byte list \<Rightarrow> byte list \<Rightarrow> nat list \<Rightarrow> (int + u64) option" where
  "mzap_loop m name [] = Some (Inl ENOENT)"
| "mzap_loop m name (i # is) = do {
     nm \<leftarrow> cstr m (64 + 64 * i + 14);
     if nm = name then map_option Inr (u64_in m (64 + 64 * i)) else mzap_loop m name is
   }"

definition mzap_lookup :: "byte list \<Rightarrow> byte list \<Rightarrow> byte list \<Rightarrow> (int + u64) option" where
  "mzap_lookup m dn name = mzap_loop m name [0..<mz_chunks dn]"

fun mzap_rloop :: "byte list \<Rightarrow> u64 \<Rightarrow> nat list \<Rightarrow> (int + byte list) option" where
  "mzap_rloop m val [] = Some (Inl ENOENT)"
| "mzap_rloop m val (i # is) = do {
     v \<leftarrow> u64_in m (64 + 64 * i);
     if v = val then map_option Inr (cstr m (64 + 64 * i + 14)) else mzap_rloop m val is
   }"

definition mzap_rlookup :: "byte list \<Rightarrow> byte list \<Rightarrow> u64 \<Rightarrow> (int + byte list) option" where
  "mzap_rlookup m dn val = mzap_rloop m val [0..<mz_chunks dn]"

section \<open>Leaves of a fat ZAP\<close>

text \<open>\<open>zc\<close> and \<open>nc\<close> are the places of chunks in the buffer, \<open>i\<close> is how far the name has been compared or copied.\<close>

function name_equal_loop :: "byte list \<Rightarrow> nat \<Rightarrow> byte list \<Rightarrow> nat \<Rightarrow> nat \<Rightarrow> nat \<Rightarrow> bool option" where
  "name_equal_loop m bs name i nc namelen =
     (if namelen = 0 then Some True
      else do {
        let len = min namelen ZAP_LEAF_ARRAY_BYTES;
        same \<leftarrow> name_cmp name i m (int nc + 1) len;
        if \<not> same then Some False
        else do {
          nx \<leftarrow> u16_in m (nc + 22);
          name_equal_loop m bs name (i + len) (leaf_chunk bs nx) (namelen - len)
        }
      })"
  by pat_completeness auto
termination
  by (relation "measure (\<lambda>(m, bs, name, i, nc, namelen). namelen)") (auto simp: ZAP_LEAF_ARRAY_BYTES_def)

declare name_equal_loop.simps [simp del]

definition fzap_name_equal :: "byte list \<Rightarrow> nat \<Rightarrow> nat \<Rightarrow> byte list \<Rightarrow> bool option" where
  "fzap_name_equal m bs zc name = do {
     namelen \<leftarrow> u16_in m (zc + 6);
     chunk \<leftarrow> u16_in m (zc + 4);
     name_equal_loop m bs name 0 (leaf_chunk bs chunk) namelen
   }"

definition fzap_leaf_value :: "byte list \<Rightarrow> nat \<Rightarrow> nat \<Rightarrow> u64 option" where
  "fzap_leaf_value m bs zc = do {
     chunk \<leftarrow> u16_in m (zc + 8);
     map_option (\<lambda>b. word_of_nat (be_nat b)) (slice m (leaf_chunk bs chunk + 1) 8)
   }"

function name_copy_loop :: "byte list \<Rightarrow> nat \<Rightarrow> nat \<Rightarrow> nat \<Rightarrow> byte list option" where
  "name_copy_loop m bs nc namelen =
     (if namelen = 0 then Some []
      else do {
        let len = min namelen ZAP_LEAF_ARRAY_BYTES;
        part \<leftarrow> slice m (nc + 1) len;
        nx \<leftarrow> u16_in m (nc + 22);
        rest \<leftarrow> name_copy_loop m bs (leaf_chunk bs nx) (namelen - len);
        Some (part @ rest)
      })"
  by pat_completeness auto
termination
  by (relation "measure (\<lambda>(m, bs, nc, namelen). namelen)") (auto simp: ZAP_LEAF_ARRAY_BYTES_def)

declare name_copy_loop.simps [simp del]

text \<open>The bytes that are written to \<^verbatim>\<open>name\<close>.\<close>

definition fzap_name_copy :: "byte list \<Rightarrow> nat \<Rightarrow> nat \<Rightarrow> byte list option" where
  "fzap_name_copy m bs zc = do {
     namelen \<leftarrow> u16_in m (zc + 6);
     chunk \<leftarrow> u16_in m (zc + 4);
     nm \<leftarrow> name_copy_loop m bs (leaf_chunk bs chunk) namelen;
     Some (nm @ [0])
   }"

text \<open>The entry with the hash value; the inner \<^term>\<open>None\<close> is the null pointer.\<close>

partial_function (option) leaf_chain :: "byte list \<Rightarrow> nat \<Rightarrow> u64 \<Rightarrow> nat \<Rightarrow> nat option option" where
  "leaf_chain m bs hash zc = do {
     h \<leftarrow> u64_in m (zc + 16);
     if h = hash then Some (Some zc)
     else do {
       nx \<leftarrow> u16_in m (zc + 2);
       if nx = 0xffff then Some None else leaf_chain m bs hash (leaf_chunk bs nx)
     }
   }"

text \<open>
  The search in a leaf: \<^verbatim>\<open>ENOENT\<close>, or the entry, where the null pointer is \<^term>\<open>None\<close>.
\<close>

definition leaf_entry :: "byte list \<Rightarrow> nat \<Rightarrow> u64 \<Rightarrow> (int + nat option) option" where
  "leaf_entry m bs hash = do {
     plen \<leftarrow> u16_in m 32;
     prefix \<leftarrow> u64_in m 16;
     if plen > 64 then None
     else if plen > 0 \<and> prefix \<noteq> drop_bit (64 - plen) hash then Some (Inl ENOENT)
     else if bs < 5 \<or> 64 < bs - 5 + plen then None
     else do {
       let h = unat (take_bit (bs - 5) (drop_bit (64 - (bs - 5) - plen) hash));
       c \<leftarrow> u16_in m (48 + 2 * h);
       if c = 0xffff then Some (Inl ENOENT) else map_option Inr (leaf_chain m bs hash (leaf_chunk bs c))
     }
   }"

section \<open>Lookups\<close>

text \<open>The leaf of a hash value is read into the buffer; \<open>name\<close> only gives the hash.\<close>

definition fzap_leaf ::
  "('d, 's) zfs_env \<Rightarrow> byte list \<Rightarrow> spa \<Rightarrow> nat \<Rightarrow> byte list \<Rightarrow> byte list \<Rightarrow> ('d, 's) zfs \<Rightarrow> ((int + nat \<times> nat) \<times> ('d, 's) zfs) option" where
  "fzap_leaf E junk spa a dn name z = do {
     let bsize = obj_bsize dn;
     let zh = zap_scratch z;
     magic \<leftarrow> u64_in zh 8;
     if magic \<noteq> ZAP_MAGIC then Some (Inl EIO, z)
     else do {
       bs \<leftarrow> ilog2 bsize;
       blk \<leftarrow> u64_in zh 16;
       shift \<leftarrow> u64_in zh 32;
       salt \<leftarrow> u64_in zh 80;
       (rc, sc1, z1) \<leftarrow> (if blk \<noteq> 0 then dnode_read E junk spa a dn (sint (blk * word_of_nat bsize)) zh bsize z else Some (0, zh, z));
       let z2 = z1\<lparr>zap_scratch := sc1\<rparr>;
       if rc \<noteq> 0 then Some (Inl rc, z2)
       else if shift = 0 \<or> shift > 64 \<or> bs = 0 then None
       else do {
         let hash = e_zap_hash E salt name;
         let base = (if blk \<noteq> 0 then 0 else 2 ^ (bs - 1));
         ent \<leftarrow> u64_in sc1 (base + 8 * unat (drop_bit (64 - unat shift) hash));
         (rc2, sc2, z3) \<leftarrow> dnode_read E junk spa a dn (sint (push_bit bs ent)) sc1 bsize z2;
         let z4 = z3\<lparr>zap_scratch := sc2\<rparr>;
         if rc2 \<noteq> 0 then Some (Inl rc2, z4)
         else do {
           r \<leftarrow> leaf_entry sc2 bs hash;
           (case r of
              Inl e \<Rightarrow> Some (Inl e, z4)
            | Inr None \<Rightarrow> None
            | Inr (Some zc) \<Rightarrow> Some (Inr (bs, zc), z4))
         }
       }
     }
   }"

definition fzap_lookup ::
  "('d, 's) zfs_env \<Rightarrow> byte list \<Rightarrow> spa \<Rightarrow> nat \<Rightarrow> byte list \<Rightarrow> byte list \<Rightarrow> ('d, 's) zfs \<Rightarrow> ((int + u64) \<times> ('d, 's) zfs) option" where
  "fzap_lookup E junk spa a dn name z = do {
     (r, z1) \<leftarrow> fzap_leaf E junk spa a dn name z;
     case r of
       Inl e \<Rightarrow> Some (Inl e, z1)
     | Inr (bs, zc) \<Rightarrow> do {
         same \<leftarrow> fzap_name_equal (zap_scratch z1) bs zc name;
         if same then do { v \<leftarrow> fzap_leaf_value (zap_scratch z1) bs zc; Some (Inr v, z1) } else Some (Inl ENOENT, z1)
       }
   }"

definition zap_lookup ::
  "('d, 's) zfs_env \<Rightarrow> byte list \<Rightarrow> spa \<Rightarrow> nat \<Rightarrow> byte list \<Rightarrow> byte list \<Rightarrow> ('d, 's) zfs \<Rightarrow> ((int + u64) \<times> ('d, 's) zfs) option" where
  "zap_lookup E junk spa a dn name z = do {
     (rc, sc, z1) \<leftarrow> dnode_read E junk spa a dn 0 (zap_scratch z) (obj_bsize dn) z;
     let z2 = z1\<lparr>zap_scratch := sc\<rparr>;
     if rc \<noteq> 0 then Some (Inl rc, z2)
     else do {
       zap_type \<leftarrow> u64_in sc 0;
       if zap_type = ZBT_MICRO then map_option (\<lambda>r. (r, z2)) (mzap_lookup sc dn name)
       else if zap_type = ZBT_HEADER then fzap_lookup E junk spa a dn name z2
       else Some (Inl EIO, z2)
     }
   }"

text \<open>
  The search for a value hashes the old content \<open>old\<close> of the variable of 256 bytes that is to receive the name.
\<close>

definition fzap_rlookup ::
  "('d, 's) zfs_env \<Rightarrow> byte list \<Rightarrow> spa \<Rightarrow> nat \<Rightarrow> byte list \<Rightarrow> byte list \<Rightarrow> u64 \<Rightarrow> ('d, 's) zfs \<Rightarrow> ((int + byte list) \<times> ('d, 's) zfs) option" where
  "fzap_rlookup E junk spa a dn old val z = do {
     (r, z1) \<leftarrow> fzap_leaf E junk spa a dn old z;
     case r of
       Inl e \<Rightarrow> Some (Inl e, z1)
     | Inr (bs, zc) \<Rightarrow> do {
         v \<leftarrow> fzap_leaf_value (zap_scratch z1) bs zc;
         if v \<noteq> val then Some (Inl ENOENT, z1)
         else do {
           nm \<leftarrow> fzap_name_copy (zap_scratch z1) bs zc;
           s \<leftarrow> cstr nm 0;
           if length nm > 256 then None else Some (Inr s, z1)
         }
       }
   }"

definition zap_rlookup ::
  "('d, 's) zfs_env \<Rightarrow> byte list \<Rightarrow> spa \<Rightarrow> nat \<Rightarrow> byte list \<Rightarrow> byte list \<Rightarrow> u64 \<Rightarrow> ('d, 's) zfs \<Rightarrow> ((int + byte list) \<times> ('d, 's) zfs) option" where
  "zap_rlookup E junk spa a dn old val z = do {
     (rc, sc, z1) \<leftarrow> dnode_read E junk spa a dn 0 (zap_scratch z) (obj_bsize dn) z;
     let z2 = z1\<lparr>zap_scratch := sc\<rparr>;
     if rc \<noteq> 0 then Some (Inl rc, z2)
     else do {
       zap_type \<leftarrow> u64_in sc 0;
       if zap_type = ZBT_MICRO then map_option (\<lambda>r. (r, z2)) (mzap_rlookup sc dn val)
       else fzap_rlookup E junk spa a dn old val z2
     }
   }"

end
