(* ===== verification/ZfsLookup.thy ===== *)
theory ZfsLookup
  imports ZfsZap
begin

text \<open>
  Datasets and files of \<^verbatim>\<open>boot/zfs/zfsimpl.c\<close>: names of datasets, mounting, attributes of files and the lookup of paths with
  symbolic links.  The addresses of the dnodes that are variables of these functions are the record \<open>zlocs\<close>, because the cache
  knows objects by them; \<open>l_junk\<close> and \<open>l_comp\<close> are what stands in the uninitialised variables.
\<close>

record zlocs =
  l_mos :: nat
  l_os :: nat
  l_dir :: nat
  l_child :: nat
  l_propdir :: nat
  l_dn :: nat
  l_junk :: "byte list"
  l_comp :: "byte list"

section \<open>Datasets\<close>

definition dd_head_dataset_obj :: "byte list \<Rightarrow> u64" where "dd_head_dataset_obj dn = fld (dn_bonus dn) 8 8"
definition dd_parent_obj :: "byte list \<Rightarrow> u64" where "dd_parent_obj dn = fld (dn_bonus dn) 16 8"
definition dd_child_dir_zapobj :: "byte list \<Rightarrow> u64" where "dd_child_dir_zapobj dn = fld (dn_bonus dn) 32 8"
definition ds_dir_obj :: "byte list \<Rightarrow> u64" where "ds_dir_obj dn = fld (dn_bonus dn) 0 8"
definition ds_bp :: "byte list \<Rightarrow> blkptr" where "ds_bp dn = rd_blkptr (drop 128 (dn_bonus dn))"
definition DMU_POOL_DIRECTORY_OBJECT :: u64 where "DMU_POOL_DIRECTORY_OBJECT = 1"

definition mos_dnode :: "('d, 's) zfs_env \<Rightarrow> byte list \<Rightarrow> zlocs \<Rightarrow> spa \<Rightarrow> u64 \<Rightarrow> ('d, 's) zfs \<Rightarrow> ('d, 's) zio" where
  "mos_dnode E junk L spa objnum z = objset_get_dnode E junk spa (l_mos L) (spa_mos spa) objnum (l_junk L) z"

text \<open>
  The name of a dataset is put together from its end; \<open>acc\<close> is what stands from \<^verbatim>\<open>p\<close> to the end of \<^verbatim>\<open>name\<close>.
\<close>

partial_function (option) rlookup_loop ::
  "('d, 's) zfs_env \<Rightarrow> byte list \<Rightarrow> zlocs \<Rightarrow> spa \<Rightarrow> u64 \<Rightarrow> byte list \<Rightarrow> byte list \<Rightarrow> ('d, 's) zfs \<Rightarrow> ((int + byte list) \<times> ('d, 's) zfs) option" where
  "rlookup_loop E junk L spa dir_obj old acc z = do {
     (rc, dir, z1) \<leftarrow> mos_dnode E junk L spa dir_obj z;
     if rc \<noteq> 0 then Some (Inl EIO, z1)
     else if dd_parent_obj dir = 0 then Some (Inr acc, z1)
     else do {
       (rc2, parent, z2) \<leftarrow> mos_dnode E junk L spa (dd_parent_obj dir) z1;
       if rc2 \<noteq> 0 then Some (Inl EIO, z2)
       else do {
         (rc3, child, z3) \<leftarrow> mos_dnode E junk L spa (dd_child_dir_zapobj parent) z2;
         if rc3 \<noteq> 0 then Some (Inl EIO, z3)
         else do {
           (r, z4) \<leftarrow> zap_rlookup E junk spa (l_child L) child old dir_obj z3;
           (case r of
              Inl e \<Rightarrow> Some (Inl EIO, z4)
            | Inr component \<Rightarrow>
                if length component + 1 + length acc > 255 then None
                else rlookup_loop E junk L spa (dd_parent_obj dir) component (47 # component @ acc) z4)
         }
       }
     }
   }"

definition zfs_rlookup ::
  "('d, 's) zfs_env \<Rightarrow> byte list \<Rightarrow> zlocs \<Rightarrow> spa \<Rightarrow> u64 \<Rightarrow> ('d, 's) zfs \<Rightarrow> ((int + byte list) \<times> ('d, 's) zfs) option" where
  "zfs_rlookup E junk L spa objnum z = do {
     (rc, dataset, z1) \<leftarrow> mos_dnode E junk L spa objnum z;
     if rc \<noteq> 0 then Some (Inl EIO, z1)
     else do {
       (r, z2) \<leftarrow> rlookup_loop E junk L spa (ds_dir_obj dataset) (l_comp L) [] z1;
       Some (case r of Inl e \<Rightarrow> Inl e | Inr acc \<Rightarrow> Inr (drop 1 acc), z2)
     }
   }"

function dataset_loop ::
  "('d, 's) zfs_env \<Rightarrow> byte list \<Rightarrow> zlocs \<Rightarrow> spa \<Rightarrow> u64 \<Rightarrow> byte list \<Rightarrow> ('d, 's) zfs \<Rightarrow> ((int + u64) \<times> ('d, 's) zfs) option" where
  "dataset_loop E junk L spa dir_obj p z = do {
     (rc, dir, z1) \<leftarrow> mos_dnode E junk L spa dir_obj z;
     if rc \<noteq> 0 then Some (Inl EIO, z1)
     else let p1 = dropWhile (\<lambda>c. c = 47) p; el = takeWhile (\<lambda>c. c \<noteq> 47) p1
          in if p1 = [] then Some (Inr (dd_head_dataset_obj dir), z1)
             else if length el \<ge> 256 then None
             else do {
               (rc2, child, z2) \<leftarrow> mos_dnode E junk L spa (dd_child_dir_zapobj dir) z1;
               if rc2 \<noteq> 0 then Some (Inl EIO, z2)
               else do {
                 (r, z3) \<leftarrow> zap_lookup E junk spa (l_child L) child el z2;
                 (case r of
                    Inl e \<Rightarrow> Some (Inl ENOENT, z3)
                  | Inr d \<Rightarrow> dataset_loop E junk L spa d (drop (length el + 1) p1) z3)
               }
             }
   }"
  by pat_completeness auto
termination
proof (relation "measure (\<lambda>(E, junk, L, spa, dir_obj, p, z). length p)", goal_cases)
  case (2 E junk L spa dir_obj p z)
  have "length (drop (Suc n) (dropWhile (\<lambda>c. c = 47) p)) < length p" if "dropWhile (\<lambda>c. c = 47) p \<noteq> []" for n
    using that length_dropWhile_le [of "\<lambda>c. c = 47" p] by (cases "dropWhile (\<lambda>c. c = 47) p") auto
  with 2 show ?case by simp
qed simp

declare dataset_loop.simps [simp del]

definition zfs_lookup_dataset ::
  "('d, 's) zfs_env \<Rightarrow> byte list \<Rightarrow> zlocs \<Rightarrow> spa \<Rightarrow> byte list \<Rightarrow> ('d, 's) zfs \<Rightarrow> ((int + u64) \<times> ('d, 's) zfs) option" where
  "zfs_lookup_dataset E junk L spa name z = do {
     (rc, dir, z1) \<leftarrow> mos_dnode E junk L spa DMU_POOL_DIRECTORY_OBJECT z;
     if rc \<noteq> 0 then Some (Inl EIO, z1)
     else do {
       (r, z2) \<leftarrow> zap_lookup E junk spa (l_dir L) dir (bytes_of ''root_dataset'') z1;
       case r of Inl e \<Rightarrow> Some (Inl EIO, z2) | Inr dir_obj \<Rightarrow> dataset_loop E junk L spa dir_obj name z2
     }
   }"

section \<open>Mounting\<close>

record zfsmount =
  zm_objset :: "byte list"
  zm_rootobj :: u64

text \<open>\<open>os\<close> is the old content of \<^verbatim>\<open>objset\<close>.\<close>

definition zfs_mount_dataset ::
  "('d, 's) zfs_env \<Rightarrow> byte list \<Rightarrow> zlocs \<Rightarrow> spa \<Rightarrow> u64 \<Rightarrow> byte list \<Rightarrow> ('d, 's) zfs \<Rightarrow> ('d, 's) zio" where
  "zfs_mount_dataset E junk L spa objnum os z = do {
     (rc, dataset, z1) \<leftarrow> mos_dnode E junk L spa objnum z;
     if rc \<noteq> 0 then Some (EIO, os, z1)
     else do {
       (rc2, os', z2) \<leftarrow> zio_read E junk spa (ds_bp dataset) os z1;
       Some (if rc2 \<noteq> 0 then EIO else 0, os', z2)
     }
   }"

text \<open>The property \<^verbatim>\<open>bootfs\<close> of the pool, if there is one.\<close>

definition get_bootfs ::
  "('d, 's) zfs_env \<Rightarrow> byte list \<Rightarrow> zlocs \<Rightarrow> spa \<Rightarrow> byte list \<Rightarrow> ('d, 's) zfs \<Rightarrow> (u64 option \<times> ('d, 's) zfs) option" where
  "get_bootfs E junk L spa dir z = do {
     (r1, z1) \<leftarrow> zap_lookup E junk spa (l_dir L) dir (bytes_of ''pool_props'') z;
     case r1 of Inl e \<Rightarrow> Some (None, z1)
     | Inr props \<Rightarrow> do {
         (rc, propdir, z2) \<leftarrow> mos_dnode E junk L spa props z1;
         if rc \<noteq> 0 then Some (None, z2)
         else do {
           (r2, z3) \<leftarrow> zap_lookup E junk spa (l_propdir L) propdir (bytes_of ''bootfs'') z2;
           Some (case r2 of Inl e \<Rightarrow> None | Inr b \<Rightarrow> if b = 0 then None else Some b, z3)
         }
       }
   }"

definition zfs_get_root ::
  "('d, 's) zfs_env \<Rightarrow> byte list \<Rightarrow> zlocs \<Rightarrow> spa \<Rightarrow> ('d, 's) zfs \<Rightarrow> ((int + u64) \<times> ('d, 's) zfs) option" where
  "zfs_get_root E junk L spa z = do {
     (rc, dir, z1) \<leftarrow> mos_dnode E junk L spa DMU_POOL_DIRECTORY_OBJECT z;
     if rc \<noteq> 0 then Some (Inl EIO, z1)
     else do {
       (b, z2) \<leftarrow> get_bootfs E junk L spa dir z1;
       case b of Some objid \<Rightarrow> Some (Inr objid, z2)
       | None \<Rightarrow> do {
           (r, z3) \<leftarrow> zap_lookup E junk spa (l_dir L) dir (bytes_of ''root_dataset'') z2;
           case r of Inl e \<Rightarrow> Some (Inl EIO, z3)
           | Inr root \<Rightarrow> do {
               (rc2, dir2, z4) \<leftarrow> mos_dnode E junk L spa root z3;
               Some (if rc2 \<noteq> 0 then Inl EIO else Inr (dd_head_dataset_obj dir2), z4)
             }
         }
     }
   }"

definition zfs_mount ::
  "('d, 's) zfs_env \<Rightarrow> byte list \<Rightarrow> zlocs \<Rightarrow> spa \<Rightarrow> u64 \<Rightarrow> byte list \<Rightarrow> ('d, 's) zfs \<Rightarrow> ((int + zfsmount) \<times> ('d, 's) zfs) option" where
  "zfs_mount E junk L spa rootobj os z = do {
     (r, z1) \<leftarrow> (if rootobj = 0 then zfs_get_root E junk L spa z else Some (Inr rootobj, z));
     case r of Inl e \<Rightarrow> Some (Inl EIO, z1)
     | Inr obj \<Rightarrow> do {
         (rc, os', z2) \<leftarrow> zfs_mount_dataset E junk L spa obj os z1;
         Some (if rc \<noteq> 0 then Inl EIO else Inr \<lparr>zm_objset = os', zm_rootobj = obj\<rparr>, z2)
       }
   }"

definition zfs_spa_init :: "('d, 's) zfs_env \<Rightarrow> byte list \<Rightarrow> nat \<Rightarrow> ('d, 's) zfs \<Rightarrow> (int \<times> ('d, 's) zfs) option" where
  "zfs_spa_init E junk i z =
     (let spa = zfs_pools z ! i in
      if spa_inited spa then Some (0, z)
      else do {
        (rc, mos, z1) \<leftarrow> zio_read E junk spa (ub_rootbp (spa_uberblock spa)) (spa_mos spa) z;
        Some (if rc \<noteq> 0 then (EIO, set_spa i (\<lambda>p. p\<lparr>spa_mos := mos\<rparr>) z1) else (0, set_spa i (\<lambda>p. p\<lparr>spa_mos := mos, spa_inited := True\<rparr>) z1))
      })"

section \<open>Attributes\<close>

record zstat =
  st_mode :: u16
  st_uid :: u32
  st_gid :: u32
  st_size :: int

definition DMU_OT_SA :: nat where "DMU_OT_SA = 44"
definition DMU_OST_ZFS :: u64 where "DMU_OST_ZFS = 2"
definition SIZEOF_ZNODE :: nat where "SIZEOF_ZNODE = 264"
definition SA_HDR_SIZE :: "byte list \<Rightarrow> nat" where "SA_HDR_SIZE b = unat (drop_bit 10 (fld b 4 2 :: u16)) * 8"

text \<open>The attributes in a block that starts with the header of the system attributes.\<close>

definition sa_stat :: "byte list \<Rightarrow> zstat option" where
  "sa_stat b = do {
     _ \<leftarrow> slice b 0 8;
     let h = SA_HDR_SIZE b;
     m \<leftarrow> le_field b h 8; s \<leftarrow> le_field b (h + 8) 8; u \<leftarrow> le_field b (h + 24) 8; g \<leftarrow> le_field b (h + 32) 8;
     Some \<lparr>st_mode = ucast (m :: u64), st_uid = ucast (u :: u64), st_gid = ucast (g :: u64), st_size = sint (s :: u64)\<rparr>
   }"

definition zfs_dnode_stat ::
  "('d, 's) zfs_env \<Rightarrow> byte list \<Rightarrow> spa \<Rightarrow> byte list \<Rightarrow> ('d, 's) zfs \<Rightarrow> ((int + zstat) \<times> ('d, 's) zfs) option" where
  "zfs_dnode_stat E junk spa dn z =
     (if dn_bonustype dn \<noteq> DMU_OT_SA
      then let b = dn_bonus dn
           in Some (Inr \<lparr>st_mode = ucast (fld b 72 8 :: u64), st_uid = ucast (fld b 128 8 :: u64), st_gid = ucast (fld b 136 8 :: u64),
                st_size = sint (fld b 80 8 :: u64)\<rparr>, z)
      else if dn_bonuslen dn \<noteq> 0 then map_option (\<lambda>st. (Inr st, z)) (sa_stat (drop (64 + dn_nblkptr dn * 128) dn))
      else if dn_flags dn AND 4 = 0 then Some (Inl EIO, z)
      else do {
        let bp = rd_blkptr (drop 384 dn);
        (ptr, z1) \<leftarrow> zfs_alloc (BP_GET_LSIZE bp) z;
        buf \<leftarrow> slice (zfs_temp_buf z1) ptr (BP_GET_LSIZE bp);
        (error, buf1, z2) \<leftarrow> zio_read E junk spa bp buf z1;
        temp \<leftarrow> store (zfs_temp_buf z2) ptr buf1;
        st \<leftarrow> (if error \<noteq> 0 then Some None else map_option Some (sa_stat buf1));
        z3 \<leftarrow> zfs_free ptr (BP_GET_LSIZE bp) (z2\<lparr>zfs_temp_buf := temp\<rparr>);
        Some (case st of None \<Rightarrow> Inl error | Some st \<Rightarrow> Inr st, z3)
      })"

section \<open>Paths\<close>

text \<open>
  The rest of a path is in the argument or, after a symbolic link, in the array \<^verbatim>\<open>path\<close>, which also receives the next link.
\<close>

datatype zptr = Upath "byte list" | Inpath nat

definition ptr_string :: "byte list \<Rightarrow> zptr \<Rightarrow> byte list option" where
  "ptr_string path p = (case p of Upath s \<Rightarrow> Some s | Inpath i \<Rightarrow> cstr path i)"

definition ptr_add :: "zptr \<Rightarrow> nat \<Rightarrow> zptr" where
  "ptr_add p n = (case p of Upath s \<Rightarrow> Upath (drop n s) | Inpath i \<Rightarrow> Inpath (i + n))"

text \<open>\<^verbatim>\<open>strcpy\<close> inside the array, byte by byte: a copy over its own source does not find the terminator.\<close>

function path_strcpy :: "byte list \<Rightarrow> nat \<Rightarrow> nat \<Rightarrow> byte list option" where
  "path_strcpy path dst src =
     (if dst < length path \<and> src < length path
      then (if path ! src = 0 then Some (path[dst := 0]) else path_strcpy (path[dst := path ! src]) (Suc dst) (Suc src))
      else None)"
  by pat_completeness auto
termination
  by (relation "measure (\<lambda>(path, dst, src). length path - dst)") auto

declare path_strcpy.simps [simp del]

definition set_tail :: "byte list \<Rightarrow> nat \<Rightarrow> zptr option \<Rightarrow> byte list option" where
  "set_tail path n p =
     (case p of None \<Rightarrow> wr path n 0 | Some (Upath s) \<Rightarrow> store path n (s @ [0]) | Some (Inpath i) \<Rightarrow> path_strcpy path n i)"

definition S_ISDIR :: "u16 \<Rightarrow> bool" where "S_ISDIR m \<longleftrightarrow> m AND 0xf000 = 0x4000"
definition S_ISLNK :: "u16 \<Rightarrow> bool" where "S_ISLNK m \<longleftrightarrow> m AND 0xf000 = 0xa000"
definition ENOTDIR :: int where "ENOTDIR = 20"
definition EMLINK :: int where "EMLINK = 31"
definition ZFS_DIRENT_OBJ :: "u64 \<Rightarrow> u64" where "ZFS_DIRENT_OBJ v = take_bit 48 v"

record zwalk =
  w_p :: "zptr option"
  w_objnum :: u64
  w_dn :: "byte list"
  w_path :: "byte list"
  w_links :: nat

definition os_dnode :: "('d, 's) zfs_env \<Rightarrow> byte list \<Rightarrow> zlocs \<Rightarrow> spa \<Rightarrow> zfsmount \<Rightarrow> u64 \<Rightarrow> byte list \<Rightarrow> ('d, 's) zfs \<Rightarrow> ('d, 's) zio" where
  "os_dnode E junk L spa mt objnum dn z = objset_get_dnode E junk spa (l_os L) (zm_objset mt) objnum dn z"

text \<open>The content of a link: the tail of the path goes behind it, and the walk goes on with \<^verbatim>\<open>path\<close>.\<close>

definition follow_link ::
  "('d, 's) zfs_env \<Rightarrow> byte list \<Rightarrow> zlocs \<Rightarrow> spa \<Rightarrow> zfsmount \<Rightarrow> u64 \<Rightarrow> u64 \<Rightarrow> zstat \<Rightarrow> zwalk \<Rightarrow> ('d, 's) zfs \<Rightarrow> ((int + zwalk) \<times> ('d, 's) zfs) option" where
  "follow_link E junk L spa mt rootnum parentnum sb w z =
     (if w_links w > 10 then Some (Inl EMLINK, z)
      else if st_size sb < 0 then None
      else do {
        let n = nat (st_size sb);
        path1 \<leftarrow> set_tail (w_path w) n (w_p w);
        (rc, path2, z1) \<leftarrow>
          (if n + SIZEOF_ZNODE \<le> dn_bonuslen (w_dn w)
           then do { b \<leftarrow> slice (dn_bonus (w_dn w)) SIZEOF_ZNODE n; p \<leftarrow> store path1 0 b; Some (0, p, z) }
           else dnode_read E junk spa (l_dn L) (w_dn w) 0 path1 n z);
        if rc \<noteq> 0 then Some (Inl rc, z1)
        else do {
          c \<leftarrow> rd path2 0;
          let obj = (if c = 47 then rootnum else parentnum);
          (_, dn, z2) \<leftarrow> os_dnode E junk L spa mt obj (w_dn w) z1;
          Some (Inr \<lparr>w_p = Some (Inpath 0), w_objnum = obj, w_dn = dn, w_path = path2, w_links = Suc (w_links w)\<rparr>, z2)
        }
      })"

text \<open>One element of the path; \<open>p\<close> points to it.\<close>

definition lookup_element ::
  "('d, 's) zfs_env \<Rightarrow> byte list \<Rightarrow> zlocs \<Rightarrow> spa \<Rightarrow> zfsmount \<Rightarrow> u64 \<Rightarrow> zptr \<Rightarrow> byte list \<Rightarrow> zwalk \<Rightarrow> ('d, 's) zfs \<Rightarrow> ((int + zwalk) \<times> ('d, 's) zfs) option" where
  "lookup_element E junk L spa mt rootnum p s w z = do {
     let el = takeWhile (\<lambda>c. c \<noteq> 47) s;
     if length el \<ge> 256 then None
     else do {
       let p' = (if 47 \<in> set s then Some (ptr_add p (length el)) else None);
       (r1, z1) \<leftarrow> zfs_dnode_stat E junk spa (w_dn w) z;
       case r1 of Inl e \<Rightarrow> Some (Inl e, z1)
       | Inr sb \<Rightarrow>
           if \<not> S_ISDIR (st_mode sb) then Some (Inl ENOTDIR, z1)
           else do {
             (r2, z2) \<leftarrow> zap_lookup E junk spa (l_dn L) (w_dn w) el z1;
             case r2 of Inl e \<Rightarrow> Some (Inl e, z2)
             | Inr v \<Rightarrow> do {
                 let obj = ZFS_DIRENT_OBJ v;
                 (rc, dn, z3) \<leftarrow> os_dnode E junk L spa mt obj (w_dn w) z2;
                 if rc \<noteq> 0 then Some (Inl rc, z3)
                 else do {
                   (r3, z4) \<leftarrow> zfs_dnode_stat E junk spa dn z3;
                   case r3 of Inl e \<Rightarrow> Some (Inl e, z4)
                   | Inr sb2 \<Rightarrow>
                       if S_ISLNK (st_mode sb2)
                       then follow_link E junk L spa mt rootnum (w_objnum w) sb2 (w\<lparr>w_p := p', w_objnum := obj, w_dn := dn\<rparr>) z4
                       else Some (Inr (w\<lparr>w_p := p', w_objnum := obj, w_dn := dn\<rparr>), z4)
                 }
               }
           }
     }
   }"

partial_function (option) zfs_lookup_loop ::
  "('d, 's) zfs_env \<Rightarrow> byte list \<Rightarrow> zlocs \<Rightarrow> spa \<Rightarrow> zfsmount \<Rightarrow> u64 \<Rightarrow> zwalk \<Rightarrow> ('d, 's) zfs \<Rightarrow> ((int + byte list) \<times> ('d, 's) zfs) option" where
  "zfs_lookup_loop E junk L spa mt rootnum w z =
     (case w_p w of
        None \<Rightarrow> Some (Inr (w_dn w), z)
      | Some p0 \<Rightarrow> do {
          s0 \<leftarrow> ptr_string (w_path w) p0;
          let k = length (takeWhile (\<lambda>c. c = 47) s0);
          let s = drop k s0;
          if s = [] then Some (Inr (w_dn w), z)
          else do {
            (r, z1) \<leftarrow> lookup_element E junk L spa mt rootnum (ptr_add p0 k) s w z;
            (case r of Inl e \<Rightarrow> Some (Inl e, z1) | Inr w1 \<Rightarrow> zfs_lookup_loop E junk L spa mt rootnum w1 z1)
          }
        })"

definition os_type :: "byte list \<Rightarrow> u64" where "os_type os = fld os 704 8"

text \<open>\<open>path\<close> is the uninitialised array.\<close>

definition zfs_lookup ::
  "('d, 's) zfs_env \<Rightarrow> byte list \<Rightarrow> zlocs \<Rightarrow> spa \<Rightarrow> zfsmount \<Rightarrow> byte list \<Rightarrow> byte list \<Rightarrow> ('d, 's) zfs \<Rightarrow> ((int + byte list) \<times> ('d, 's) zfs) option" where
  "zfs_lookup E junk L spa mt path upath z =
     (if os_type (zm_objset mt) \<noteq> DMU_OST_ZFS then Some (Inl EIO, z)
      else do {
        (rc, dn, z1) \<leftarrow> os_dnode E junk L spa mt 1 (l_junk L) z;
        if rc \<noteq> 0 then Some (Inl rc, z1)
        else do {
          (r, z2) \<leftarrow> zap_lookup E junk spa (l_dn L) dn (bytes_of ''ROOT'') z1;
          case r of Inl e \<Rightarrow> Some (Inl e, z2)
          | Inr rootnum \<Rightarrow> do {
              (rc2, dn2, z3) \<leftarrow> os_dnode E junk L spa mt rootnum dn z2;
              if rc2 \<noteq> 0 then Some (Inl rc2, z3)
              else zfs_lookup_loop E junk L spa mt rootnum
                \<lparr>w_p = Some (Upath upath), w_objnum = rootnum, w_dn = dn2, w_path = path, w_links = 0\<rparr> z3
            }
        }
      })"

end
