(* ===== verification/ZfsLookupFacts.thy ===== *)
theory ZfsLookupFacts
  imports ZfsDnode ZfsLookup
begin

text \<open>
  Lookups over a sound block layer: micro ZAP directories, dnodes by number, and paths.  The cache is right throughout: the
  dnode of the object set and the variable of \<^verbatim>\<open>zfs_lookup\<close> have different addresses, and a variable only gets new content
  right after a read through the object set.
\<close>

section \<open>Micro ZAP\<close>

fun mz_list :: "byte list \<Rightarrow> nat list \<Rightarrow> (byte list \<times> u64) list option" where
  "mz_list m [] = Some []"
| "mz_list m (i # is) = do {
     nm \<leftarrow> cstr m (64 + 64 * i + 14);
     v \<leftarrow> u64_in m (64 + 64 * i);
     es \<leftarrow> mz_list m is;
     Some ((nm, v) # es)
   }"

lemma cstr_append: "cstr m p = Some s \<Longrightarrow> cstr (m @ t) p = Some s"
  by (auto simp: cstr_def split: if_splits)

lemma le_field_append: "le_field m p n = Some v \<Longrightarrow> le_field (m @ t) p n = Some v"
  by (auto simp: le_field_def slice_Some_iff)

definition dir_result :: "(byte list \<times> u64) list \<Rightarrow> byte list \<Rightarrow> int + u64" where
  "dir_result es name = (case map_of es name of None \<Rightarrow> Inl ENOENT | Some v \<Rightarrow> Inr v)"

lemma mzap_loop_list: "mz_list m is = Some es \<Longrightarrow> mzap_loop (m @ t) name is = Some (dir_result es name)"
proof (induction "is" arbitrary: es)
  case (Cons i "is")
  then obtain nm v es' where e: "cstr m (64 + 64 * i + 14) = Some nm" "u64_in m (64 + 64 * i) = Some v" "mz_list m is = Some es'" "es = (nm, v) # es'"
    by (auto simp: bind_eq_Some_conv)
  then show ?case using Cons.IH [OF e(3)] cstr_append [OF e(1)] le_field_append [OF e(2)] by (auto simp: dir_result_def)
qed (simp add: dir_result_def)

definition zap_dir :: "(blkptr \<Rightarrow> byte list option) \<Rightarrow> byte list \<Rightarrow> (byte list \<times> u64) list \<Rightarrow> bool" where
  "zap_dir content dn es \<longleftrightarrow> (\<exists>bytes. obj_holds content dn bytes \<and> obj_bsize dn \<le> SPA_MAXBLOCKSIZE \<and>
     u64_in (take (obj_bsize dn) bytes) 0 = Some ZBT_MICRO \<and> mz_list (take (obj_bsize dn) bytes) [0..<8 * dn_datablkszsec dn - 1] = Some es)"

lemma mz_chunks_eq: "8 * dn_datablkszsec dn - 1 = mz_chunks dn"
  by (simp add: mz_chunks_def obj_bsize_def)

lemma obj_bsize_dn: "obj_bsize = dn_bsize"
  by (simp add: fun_eq_iff obj_bsize_def dn_bsize_def)

section \<open>Dnodes and attributes\<close>

definition dnode_of :: "byte list \<Rightarrow> u64 \<Rightarrow> byte list" where
  "dnode_of meta n = take SIZEOF_DNODE (drop (SIZEOF_DNODE * unat n) meta)"

definition in_meta :: "byte list \<Rightarrow> u64 \<Rightarrow> bool" where
  "in_meta meta n \<longleftrightarrow> SIZEOF_DNODE * unat n + SIZEOF_DNODE \<le> length meta \<and> SIZEOF_DNODE * unat n < 2 ^ 63"

definition stat_of :: "byte list \<Rightarrow> zstat option" where
  "stat_of dn =
     (if dn_bonustype dn \<noteq> DMU_OT_SA
      then let b = dn_bonus dn
           in Some \<lparr>st_mode = ucast (fld b 72 8 :: u64), st_uid = ucast (fld b 128 8 :: u64), st_gid = ucast (fld b 136 8 :: u64),
                st_size = sint (fld b 80 8 :: u64)\<rparr>
      else if dn_bonuslen dn \<noteq> 0 then sa_stat (drop (64 + dn_nblkptr dn * 128) dn) else None)"

lemma stat_of_stat: "stat_of dn = Some st \<Longrightarrow> zfs_dnode_stat E junk spa dn z = Some (Inr st, z)"
  by (auto simp: stat_of_def zfs_dnode_stat_def Let_def split: if_splits)

definition z_good :: "(('d, 's) zfs \<Rightarrow> bool) \<Rightarrow> ('d, 's) zfs \<Rightarrow> bool" where
  "z_good zok z \<longleftrightarrow> zok z \<and> length (dnode_cache_buf z) = SPA_MAXBLOCKSIZE \<and> length (zap_scratch z) = SPA_MAXBLOCKSIZE"

section \<open>Paths\<close>

text \<open>A path is a list of names, and a tree gives the directories their entries.\<close>

function path_elems :: "byte list \<Rightarrow> byte list list" where
  "path_elems s = (let s1 = dropWhile (\<lambda>c. c = 47) s in if s1 = [] then [] else takeWhile (\<lambda>c. c \<noteq> 47) s1 # path_elems (dropWhile (\<lambda>c. c \<noteq> 47) s1))"
  by pat_completeness auto
termination
proof (relation "measure length", goal_cases)
  case (2 s s1)
  then have "hd s1 \<noteq> 47" using hd_dropWhile [of "\<lambda>c. c = 47" s] by blast
  then have "dropWhile (\<lambda>c. c \<noteq> 47) s1 = dropWhile (\<lambda>c. c \<noteq> 47) (tl s1)" using 2(2) by (cases s1) simp_all
  then have "length (dropWhile (\<lambda>c. c \<noteq> 47) s1) \<le> length (tl s1)" by (metis length_dropWhile_le)
  moreover have "length s1 \<le> length s" using 2 length_dropWhile_le by blast
  ultimately show ?case using 2(2) by (cases s1) simp_all
qed simp

declare path_elems.simps [simp del]

fun resolve :: "(u64 \<Rightarrow> (byte list \<times> u64) list option) \<Rightarrow> u64 \<Rightarrow> byte list list \<Rightarrow> int + u64" where
  "resolve tree n [] = Inr n"
| "resolve tree n (e # es) =
     (case tree n of
        None \<Rightarrow> Inl ENOTDIR
      | Some ents \<Rightarrow> (case map_of ents e of None \<Rightarrow> Inl ENOENT | Some v \<Rightarrow> resolve tree (ZFS_DIRENT_OBJ v) es))"

text \<open>The objects \<open>ns\<close> of an object set are files and directories without symbolic links, with their entries as \<open>tree\<close> says.\<close>

definition dir_tree :: "(blkptr \<Rightarrow> byte list option) \<Rightarrow> byte list \<Rightarrow> (u64 \<Rightarrow> (byte list \<times> u64) list option) \<Rightarrow> u64 set \<Rightarrow> bool" where
  "dir_tree content meta tree ns \<longleftrightarrow> (\<forall>n\<in>ns. in_meta meta n \<and> (\<exists>st. stat_of (dnode_of meta n) = Some st \<and> \<not> S_ISLNK (st_mode st) \<and>
     (case tree n of
        None \<Rightarrow> \<not> S_ISDIR (st_mode st)
      | Some ents \<Rightarrow> S_ISDIR (st_mode st) \<and> zap_dir content (dnode_of meta n) ents \<and>
          (\<forall>(nm, v) \<in> set ents. nm \<noteq> [] \<longrightarrow> ZFS_DIRENT_OBJ v \<in> ns))))"

lemma length_dnode_of: "in_meta meta n \<Longrightarrow> length (dnode_of meta n) = SIZEOF_DNODE"
  by (auto simp: in_meta_def dnode_of_def)

lemma path_head:
  assumes "dropWhile (\<lambda>c. c = 47) s \<noteq> []"
  shows "takeWhile (\<lambda>c. c \<noteq> 47) (dropWhile (\<lambda>c. c = 47) s) \<noteq> []"
  using hd_dropWhile [OF assms] assms by (cases "dropWhile (\<lambda>c. c = 47) s") simp_all

lemma drop_takeWhile_length: "drop (length (takeWhile P xs)) xs = dropWhile P xs"
  by (metis dropWhile_eq_drop)

lemma path_elems_Nil: "path_elems [] = []"
  by (simp add: path_elems.simps)

lemma path_elems_rest: "47 \<notin> set s1 \<Longrightarrow> path_elems (dropWhile (\<lambda>c. c \<noteq> 47) s1) = []"
proof -
  assume "47 \<notin> set s1"
  then have "dropWhile (\<lambda>c. c \<noteq> 47) s1 = []" by (auto simp: dropWhile_eq_Nil_conv)
  then show ?thesis by (simp only: path_elems_Nil)
qed

context block_pool
begin

lemma zap_lookup_micro:
  assumes "zap_dir content dn es" "z_good zok z" "cache_ok content a dn z"
  shows "\<exists>z'. zap_lookup E junk spa a dn name z = Some (dir_result es name, z') \<and> z_good zok z' \<and> cache_ok content a dn z' \<and> dnode_cache_obj z' = Some a"
proof -
  obtain bytes where b: "obj_holds content dn bytes" "obj_bsize dn \<le> SPA_MAXBLOCKSIZE" "u64_in (take (obj_bsize dn) bytes) 0 = Some ZBT_MICRO"
    "mz_list (take (obj_bsize dn) bytes) [0..<mz_chunks dn] = Some es" using assms(1) by (auto simp: zap_dir_def simp flip: mz_chunks_eq)
  let ?n = "obj_bsize dn"
  have n: "0 < ?n" "?n \<le> length bytes" using b(1) by (auto simp: obj_holds_def obj_bsize_dn)
  have z: "zok z" "length (dnode_cache_buf z) = SPA_MAXBLOCKSIZE" "length (zap_scratch z) = SPA_MAXBLOCKSIZE" using assms(2) by (auto simp: z_good_def)
  obtain z1 where r: "dnode_read E junk spa a dn 0 (zap_scratch z) ?n z = Some (0, put (zap_scratch z) 0 (take ?n bytes), z1)"
    "zok z1" "dn_frame z z1" "cache_ok content a dn z1" "dnode_cache_obj z1 = Some a"
    using dnode_read_loop_delivers [OF b(1) z(1,2) assms(3), of 0 ?n 0 "zap_scratch z"] b(2) n z(3) by (auto simp: dnode_read_def)
  let ?sc = "put (zap_scratch z) 0 (take ?n bytes)"
  have sc: "?sc = take ?n bytes @ drop ?n (zap_scratch z)" using n by (simp add: put_def)
  have ty: "u64_in ?sc 0 = Some ZBT_MICRO" unfolding sc using le_field_append [OF b(3)] by blast
  have "mzap_lookup ?sc dn name = Some (dir_result es name)" unfolding sc mzap_lookup_def by (rule mzap_loop_list [OF b(4)])
  moreover have "z_good zok (z1\<lparr>zap_scratch := ?sc\<rparr>)" using r(2,3) z b(2) n by (auto simp: z_good_def dn_frame_def)
  moreover have "cache_ok content a dn (z1\<lparr>zap_scratch := ?sc\<rparr>)" using r(4) by (simp add: cache_ok_def)
  ultimately show ?thesis using r(1,5) ty by (simp add: zap_lookup_def)
qed

lemma objset_get:
  assumes "obj_holds content (take SIZEOF_DNODE os) meta" "in_meta meta n" "length dn = SIZEOF_DNODE" "z_good zok z" "cache_ok content a (take SIZEOF_DNODE os) z"
  shows "\<exists>z'. objset_get_dnode E junk spa a os n dn z = Some (0, dnode_of meta n, z') \<and> z_good zok z' \<and>
    cache_ok content a (take SIZEOF_DNODE os) z' \<and> dnode_cache_obj z' = Some a"
proof -
  let ?o = "SIZEOF_DNODE * unat n"
  have z: "zok z" "length (dnode_cache_buf z) = SPA_MAXBLOCKSIZE" "length (zap_scratch z) = SPA_MAXBLOCKSIZE" using assms(4) by (auto simp: z_good_def)
  have m: "?o + SIZEOF_DNODE \<le> length meta" "?o < 2 ^ 63" using assms(2) by (auto simp: in_meta_def)
  have "unat (n * word_of_nat SIZEOF_DNODE) = ?o" using m(2) by (simp add: unat_word_ariths SIZEOF_DNODE_def mult.commute)
  then have "sint (n * word_of_nat SIZEOF_DNODE) = int ?o" using sint_u64 [of "n * word_of_nat SIZEOF_DNODE"] m(2) by simp
  moreover obtain z1 where "dnode_read_loop E junk spa a (take SIZEOF_DNODE os) (int ?o) dn 0 SIZEOF_DNODE z = Some (0, put dn 0 (dnode_of meta n), z1)"
    "zok z1" "dn_frame z z1" "cache_ok content a (take SIZEOF_DNODE os) z1" "dnode_cache_obj z1 = Some a"
    using dnode_read_loop_delivers [OF assms(1) z(1,2) assms(5), of ?o SIZEOF_DNODE 0 dn] m(1) assms(3) by (auto simp: dnode_of_def SIZEOF_DNODE_def)
  moreover have "put dn 0 (dnode_of meta n) = dnode_of meta n" using m(1) assms(3) by (simp add: put_def dnode_of_def)
  ultimately show ?thesis using z by (auto simp: objset_get_dnode_def dnode_read_def z_good_def dn_frame_def)
qed

lemma element_step:
  assumes "dir_tree content meta tree ns" "n \<in> ns" "w_dn w = dnode_of meta n"
    and "obj_holds content (take SIZEOF_DNODE (zm_objset mt)) meta" "z_good zok z" "l_os L \<noteq> l_dn L" "dnode_cache_obj z = Some (l_os L)"
    and "length (takeWhile (\<lambda>c. c \<noteq> 47) s) < 256" "takeWhile (\<lambda>c. c \<noteq> 47) s \<noteq> []"
  defines "el \<equiv> takeWhile (\<lambda>c. c \<noteq> 47) s"
  shows "\<exists>z'. z_good zok z' \<and>
    (case tree n of
       None \<Rightarrow> lookup_element E junk L spa mt rootnum p s w z = Some (Inl ENOTDIR, z')
     | Some ents \<Rightarrow>
         (case map_of ents el of
            None \<Rightarrow> lookup_element E junk L spa mt rootnum p s w z = Some (Inl ENOENT, z')
          | Some v \<Rightarrow> ZFS_DIRENT_OBJ v \<in> ns \<and> dnode_cache_obj z' = Some (l_os L) \<and> cache_ok content (l_os L) (take SIZEOF_DNODE (zm_objset mt)) z' \<and>
              lookup_element E junk L spa mt rootnum p s w z =
                Some (Inr (w\<lparr>w_p := (if 47 \<in> set s then Some (ptr_add p (length el)) else None), w_objnum := ZFS_DIRENT_OBJ v,
                  w_dn := dnode_of meta (ZFS_DIRENT_OBJ v)\<rparr>), z')))"
proof -
  obtain st where st: "in_meta meta n" "stat_of (dnode_of meta n) = Some st"
    "case tree n of None \<Rightarrow> \<not> S_ISDIR (st_mode st) | Some ents \<Rightarrow> S_ISDIR (st_mode st) \<and> zap_dir content (dnode_of meta n) ents \<and>
       (\<forall>(nm, v) \<in> set ents. nm \<noteq> [] \<longrightarrow> ZFS_DIRENT_OBJ v \<in> ns)"
    using assms(1,2) by (auto simp: dir_tree_def)
  note stat = stat_of_stat [OF st(2), of E junk spa]
  show ?thesis
  proof (cases "tree n")
    case None
    then show ?thesis using st(3) assms(3,5,8) stat by (auto simp: lookup_element_def el_def Let_def)
  next
    case (Some ents)
    then have d: "S_ISDIR (st_mode st)" "zap_dir content (dnode_of meta n) ents" "\<forall>(nm, v) \<in> set ents. nm \<noteq> [] \<longrightarrow> ZFS_DIRENT_OBJ v \<in> ns" using st(3) by auto
    have "cache_ok content (l_dn L) (dnode_of meta n) z" using assms(6,7) by (simp add: cache_ok_def)
    then obtain z1 where z1: "zap_lookup E junk spa (l_dn L) (dnode_of meta n) el z = Some (dir_result ents el, z1)" "z_good zok z1" "dnode_cache_obj z1 = Some (l_dn L)"
      using zap_lookup_micro [OF d(2) assms(5)] by blast
    show ?thesis
    proof (cases "map_of ents el")
      case None
      then show ?thesis using Some d(1) assms(3,8) stat z1 by (auto simp: lookup_element_def el_def Let_def dir_result_def)
    next
      case v: (Some v)
      then have ob: "ZFS_DIRENT_OBJ v \<in> ns" using map_of_SomeD [OF v] d(3) assms(9) by (auto simp: el_def)
      then obtain st2 where st2: "in_meta meta (ZFS_DIRENT_OBJ v)" "stat_of (dnode_of meta (ZFS_DIRENT_OBJ v)) = Some st2" "\<not> S_ISLNK (st_mode st2)"
        using assms(1) by (auto simp: dir_tree_def)
      have "cache_ok content (l_os L) (take SIZEOF_DNODE (zm_objset mt)) z1" using z1(3) assms(6) by (simp add: cache_ok_def)
      then obtain z2 where "objset_get_dnode E junk spa (l_os L) (zm_objset mt) (ZFS_DIRENT_OBJ v) (dnode_of meta n) z1 = Some (0, dnode_of meta (ZFS_DIRENT_OBJ v), z2)"
        "z_good zok z2" "dnode_cache_obj z2 = Some (l_os L)" "cache_ok content (l_os L) (take SIZEOF_DNODE (zm_objset mt)) z2"
        using objset_get [OF assms(4) st2(1) length_dnode_of [OF st(1)] z1(2)] by blast
      then show ?thesis using Some v ob d(1) assms(3,8) stat z1(1) st2(3) stat_of_stat [OF st2(2), of E junk spa]
        by (auto simp: lookup_element_def el_def Let_def dir_result_def os_dnode_def)
    qed
  qed
qed

lemma lookup_loop_resolves:
  assumes "dir_tree content meta tree ns" "obj_holds content (take SIZEOF_DNODE (zm_objset mt)) meta" "l_os L \<noteq> l_dn L"
  shows "n \<in> ns \<Longrightarrow> w_dn w = dnode_of meta n \<Longrightarrow> w_p w = Some (Upath s) \<or> w_p w = None \<and> path_elems s = [] \<Longrightarrow> z_good zok z \<Longrightarrow>
    dnode_cache_obj z = Some (l_os L) \<Longrightarrow> \<forall>e\<in>set (path_elems s). length e < 256 \<Longrightarrow>
    \<exists>z'. zfs_lookup_loop E junk L spa mt rootnum w z = Some (map_sum id (dnode_of meta) (resolve tree n (path_elems s)), z') \<and> z_good zok z'"
proof (induction s arbitrary: n w z rule: path_elems.induct)
  case (1 s)
  let ?s1 = "dropWhile (\<lambda>c. c = 47) s"
  show ?case
  proof (cases "w_p w = None \<or> ?s1 = []")
    case True
    then have "path_elems s = []" using "1.prems"(3) by (subst (asm) path_elems.simps) (auto simp: path_elems.simps [of s])
    moreover have "length (takeWhile (\<lambda>c. c = 47) s) = length s" if "?s1 = []" using that by (metis append_Nil2 takeWhile_dropWhile_id)
    then have "zfs_lookup_loop E junk L spa mt rootnum w z = Some (Inr (w_dn w), z)"
      using True "1.prems"(3) by (subst zfs_lookup_loop.simps) (auto simp: ptr_string_def Let_def simp flip: dropWhile_eq_drop)
    ultimately show ?thesis using "1.prems"(2,4) by simp
  next
    case False
    let ?el = "takeWhile (\<lambda>c. c \<noteq> 47) ?s1" and ?rest = "dropWhile (\<lambda>c. c \<noteq> 47) ?s1"
    have p: "w_p w = Some (Upath s)" and ne: "?s1 \<noteq> []" using False "1.prems"(3) by auto
    have pe: "path_elems s = ?el # path_elems ?rest" using ne by (subst path_elems.simps) (simp add: Let_def)
    have el: "length ?el < 256" "?el \<noteq> []" using "1.prems"(6) pe path_head [OF ne] by auto
    let ?k = "length (takeWhile (\<lambda>c. c = 47) s)"
    have loop: "zfs_lookup_loop E junk L spa mt rootnum w z =
      do { (r, z1) \<leftarrow> lookup_element E junk L spa mt rootnum (Upath ?s1) ?s1 w z; case r of Inl e \<Rightarrow> Some (Inl e, z1) | Inr w1 \<Rightarrow> zfs_lookup_loop E junk L spa mt rootnum w1 z1 }"
      using p ne by (subst zfs_lookup_loop.simps) (auto simp: ptr_string_def ptr_add_def Let_def drop_takeWhile_length simp del: drop_eq_Nil)
    obtain z1 where z1: "z_good zok z1"
      "case tree n of None \<Rightarrow> lookup_element E junk L spa mt rootnum (Upath ?s1) ?s1 w z = Some (Inl ENOTDIR, z1)
       | Some ents \<Rightarrow> (case map_of ents ?el of None \<Rightarrow> lookup_element E junk L spa mt rootnum (Upath ?s1) ?s1 w z = Some (Inl ENOENT, z1)
         | Some v \<Rightarrow> ZFS_DIRENT_OBJ v \<in> ns \<and> dnode_cache_obj z1 = Some (l_os L) \<and> cache_ok content (l_os L) (take SIZEOF_DNODE (zm_objset mt)) z1 \<and>
             lookup_element E junk L spa mt rootnum (Upath ?s1) ?s1 w z = Some (Inr (w\<lparr>w_p := (if 47 \<in> set ?s1 then Some (ptr_add (Upath ?s1) (length ?el)) else None),
               w_objnum := ZFS_DIRENT_OBJ v, w_dn := dnode_of meta (ZFS_DIRENT_OBJ v)\<rparr>), z1))"
      using element_step [OF assms(1) "1.prems"(1,2) assms(2) "1.prems"(4) assms(3) "1.prems"(5) el, of rootnum "Upath ?s1"] by blast
    show ?thesis
    proof (cases "tree n")
      case None
      then show ?thesis using z1 loop pe by auto
    next
      case (Some ents)
      show ?thesis
      proof (cases "map_of ents ?el")
        case None
        then show ?thesis using z1 loop pe Some by auto
      next
        case v: (Some v)
        let ?w = "w\<lparr>w_p := (if 47 \<in> set ?s1 then Some (Upath ?rest) else None), w_objnum := ZFS_DIRENT_OBJ v, w_dn := dnode_of meta (ZFS_DIRENT_OBJ v)\<rparr>"
        have step: "ZFS_DIRENT_OBJ v \<in> ns" "dnode_cache_obj z1 = Some (l_os L)" "lookup_element E junk L spa mt rootnum (Upath ?s1) ?s1 w z = Some (Inr ?w, z1)"
          using z1(2) Some v by (simp_all add: ptr_add_def drop_takeWhile_length)
        have "w_p ?w = Some (Upath ?rest) \<or> w_p ?w = None \<and> path_elems ?rest = []" using path_elems_rest [of ?s1] by simp
        from "1.IH" [OF refl ne step(1) _ this z1(1) step(2)] "1.prems"(6) pe
        show ?thesis using loop step(3) Some v by auto
      qed
    qed
  qed
qed

end

text \<open>
  C38: paths are resolved as in the tree.  In a file system without symbolic links whose directories are micro ZAP objects and
  whose files have their attributes in the bonus buffer, all objects being readable, over any block layer with the contract and
  with a cache that holds what it says, \<^verbatim>\<open>zfs_lookup\<close> ends for every path with names of at most 255 bytes; its result is
  that of walking the names of the path from the object \<^verbatim>\<open>ROOT\<close> of the master node: the dnode of the file,
  \<^verbatim>\<open>ENOTDIR\<close> when the path goes through a file, \<^verbatim>\<open>ENOENT\<close> when a name is missing.
\<close>

theorem zfs_lookup_resolves:
  assumes "block_pool E junk spa content zok" "os_type (zm_objset mt) = DMU_OST_ZFS" "obj_holds content (take SIZEOF_DNODE (zm_objset mt)) meta"
    and "in_meta meta 1" "zap_dir content (dnode_of meta 1) master" "map_of master (bytes_of ''ROOT'') = Some rootnum"
    and "dir_tree content meta tree ns" "rootnum \<in> ns" "l_os L \<noteq> l_dn L" "length (l_junk L) = SIZEOF_DNODE"
    and "z_good zok z" "cache_ok content (l_os L) (take SIZEOF_DNODE (zm_objset mt)) z" "\<forall>e\<in>set (path_elems upath). length e < 256"
  shows "\<exists>z'. zfs_lookup E junk L spa mt path upath z = Some (map_sum id (dnode_of meta) (resolve tree rootnum (path_elems upath)), z') \<and> z_good zok z'"
proof -
  obtain z1 where z1: "os_dnode E junk L spa mt 1 (l_junk L) z = Some (0, dnode_of meta 1, z1)" "z_good zok z1" "dnode_cache_obj z1 = Some (l_os L)"
    using block_pool.objset_get [OF assms(1,3,4,10,11,12)] by (auto simp: os_dnode_def)
  then have "cache_ok content (l_dn L) (dnode_of meta 1) z1" using assms(9) by (simp add: cache_ok_def)
  then obtain z2 where z2: "zap_lookup E junk spa (l_dn L) (dnode_of meta 1) (bytes_of ''ROOT'') z1 = Some (Inr rootnum, z2)" "z_good zok z2" "dnode_cache_obj z2 = Some (l_dn L)"
    using block_pool.zap_lookup_micro [OF assms(1,5) z1(2), of "l_dn L" "bytes_of ''ROOT''"] assms(6) by (auto simp: dir_result_def)
  then have "cache_ok content (l_os L) (take SIZEOF_DNODE (zm_objset mt)) z2" using assms(9) by (simp add: cache_ok_def)
  moreover have "in_meta meta rootnum" using assms(7,8) by (simp add: dir_tree_def)
  ultimately obtain z3 where z3: "os_dnode E junk L spa mt rootnum (dnode_of meta 1) z2 = Some (0, dnode_of meta rootnum, z3)" "z_good zok z3" "dnode_cache_obj z3 = Some (l_os L)"
    using block_pool.objset_get [OF assms(1,3) _ length_dnode_of [OF assms(4)] z2(2)] by (auto simp: os_dnode_def)
  show ?thesis using block_pool.lookup_loop_resolves [OF assms(1,7,3,9,8) _ _ z3(2,3) assms(13)] assms(2) z1(1) z2(1) z3(1)
    by (simp add: zfs_lookup_def)
qed

section \<open>A small file system\<close>

text \<open>One disk with four blocks: two of dnodes, the master node and the root directory, which has the file k.\<close>

definition lk_bp :: "u64 \<Rightarrow> u64 \<Rightarrow> blkptr" where
  "lk_bp off len = \<lparr>blk_dva = [(1, off), (0, 0), (0, 0)], blk_prop = 0x200000000 + len * 0x10001, blk_birth = 1, blk_cksum = [0, 0, 0, 0]\<rparr>"

definition lk_bp_bytes :: "byte \<Rightarrow> byte \<Rightarrow> byte list" where
  "lk_bp_bytes off len = 1 # replicate 7 0 @ off # replicate 39 0 @ [len, 0, len, 0, 2, 0, 0, 0] @ replicate 24 0 @ [1] @ replicate 47 0"

definition lk_dn :: "byte \<Rightarrow> byte \<Rightarrow> byte \<Rightarrow> byte list \<Rightarrow> byte list \<Rightarrow> byte list" where
  "lk_dn secs maxblk nblk bps mode =
     [0, 14, 1, nblk, 0, 0, 0, 0, secs, 0, 0, 0, 0, 0, 0, 0, maxblk] @ replicate 47 0 @ bps @ replicate 72 0 @ mode @ replicate (374 - length bps) 0"

definition lk_zap :: "byte list \<Rightarrow> byte \<Rightarrow> byte list" where
  "lk_zap name v = [3, 0, 0, 0, 0, 0, 0, 128] @ replicate 56 0 @ v # replicate 13 0 @ name @ replicate (434 - length name) 0"

definition lk_os :: "byte list" where
  "lk_os = lk_dn 2 1 2 (lk_bp_bytes 0 1 @ lk_bp_bytes 2 1) [0, 0] @ replicate 192 0 @ [2, 0, 0, 0, 0, 0, 0, 0] @ replicate 312 0"

definition lk_master :: "byte list" where "lk_master = lk_dn 1 0 1 (lk_bp_bytes 4 0) [0, 0]"
definition lk_root :: "byte list" where "lk_root = lk_dn 1 0 1 (lk_bp_bytes 5 0) [0xed, 0x41]"
definition lk_file :: "byte list" where "lk_file = lk_dn 1 0 1 (lk_bp_bytes 6 0) [0xa4, 0x81]"

definition lk_blocks :: "(u64 \<times> u64 \<times> byte list) list" where
  "lk_blocks = [(0, 1, replicate 512 0 @ lk_master), (2, 1, lk_root @ lk_file), (4, 0, lk_zap (bytes_of ''ROOT'') 2), (5, 0, lk_zap [107] 3)]"

definition lk_imgs :: "nat \<Rightarrow> byte list" where
  "lk_imgs d = replicate 0x400000 0 @ concat (map (\<lambda>(off, len, data). data) lk_blocks)"

definition lk_truth :: "blkptr \<Rightarrow> byte list option" where
  "lk_truth bp = map_option (\<lambda>(off, len, data). data) (find (\<lambda>(off, len, data). bp = lk_bp off len) lk_blocks)"

definition lk_zenv :: "(nat, nat \<Rightarrow> int) zfs_env" where
  "lk_zenv = file_env lk_imgs lk_truth (\<lambda>c src n. (1, [])) (\<lambda>salt name. 0)"

abbreviation lk_content :: "blkptr \<Rightarrow> byte list option" where
  "lk_content \<equiv> files.content lk_imgs lk_truth (\<lambda>c src n. (1, [])) (\<lambda>salt name. 0) demo_one_disk demo_spa"

lemma lk_bp_len: "len = 0 \<or> len = 1 \<Longrightarrow> BP_GET_PSIZE (lk_bp off len) = (unat len + 1) * 512" "len = 0 \<or> len = 1 \<Longrightarrow> BP_GET_COMPRESS (lk_bp off len) = ZIO_COMPRESS_OFF"
  by (auto simp: BP_GET_PSIZE_def BP_GET_COMPRESS_def bits_def lk_bp_def ZIO_COMPRESS_OFF_def)

lemma lk_lengths: "length lk_master = 512" "length lk_root = 512" "length lk_file = 512" "length nm \<le> 434 \<Longrightarrow> length (lk_zap nm v) = 512"
  by (simp_all add: lk_master_def lk_root_def lk_file_def lk_dn_def lk_bp_bytes_def lk_zap_def)

lemma lk_block_cases:
  assumes "(off, len, data) \<in> set lk_blocks"
  obtains "off = 0" "len = 1" "data = replicate 512 0 @ lk_master" | "off = 2" "len = 1" "data = lk_root @ lk_file"
    | "off = 4" "len = 0" "data = lk_zap (bytes_of ''ROOT'') 2" | "off = 5" "len = 0" "data = lk_zap [107] 3"
  using assms by (auto simp: lk_blocks_def)

lemma lk_sizes:
  assumes "(off, len, data) \<in> set lk_blocks"
  shows "length data = BP_GET_PSIZE (lk_bp off len)" "BP_GET_COMPRESS (lk_bp off len) = ZIO_COMPRESS_OFF" "\<not> bit off 63" "length data \<le> SPA_MAXBLOCKSIZE"
  using assms by - (cases rule: lk_block_cases, simp_all add: lk_bp_len lk_lengths SPA_MAXBLOCKSIZE_def)+

lemma lk_data: "concat (map (\<lambda>(off, len, data). data) lk_blocks) =
    replicate 512 0 @ lk_master @ lk_root @ lk_file @ lk_zap (bytes_of ''ROOT'') 2 @ lk_zap [107] 3"
  by (simp add: lk_blocks_def)

lemma lk_on_disk:
  assumes "length pre = n" "concat (map (\<lambda>(off, len, data). data) lk_blocks) = pre @ data @ post" "sint off = 0x400000 + int n"
  shows "file_disk lk_imgs d off (length data) = Some data"
proof -
  have "nat (sint off) = 0x400000 + n" "\<not> sint off < 0" using assms(3) by auto
  then show ?thesis using assms(1,2) by (simp add: file_disk_def lk_imgs_def Let_def)
qed

lemma lk_there:
  assumes "(off, len, data) \<in> set lk_blocks"
  shows "file_disk lk_imgs 0 (push_bit 9 (take_bit 63 off) + VDEV_LABEL_START_SIZE) (length data) = Some data"
  using assms
proof (cases rule: lk_block_cases)
  case 1
  show ?thesis unfolding 1 by (rule lk_on_disk [of "[]"]) (simp_all add: lk_data VDEV_LABEL_START_SIZE_def)
next
  case 2
  show ?thesis unfolding 2 by (rule lk_on_disk [of "replicate 512 0 @ lk_master"]) (simp_all add: lk_data VDEV_LABEL_START_SIZE_def lk_lengths)
next
  case 3
  show ?thesis unfolding 3 by (rule lk_on_disk [of "replicate 512 0 @ lk_master @ lk_root @ lk_file"]) (simp_all add: lk_data VDEV_LABEL_START_SIZE_def lk_lengths)
next
  case 4
  show ?thesis unfolding 4 by (rule lk_on_disk [of "replicate 512 0 @ lk_master @ lk_root @ lk_file @ lk_zap (bytes_of ''ROOT'') 2"])
    (simp_all add: lk_data VDEV_LABEL_START_SIZE_def lk_lengths)
qed

lemma lk_known: "(off, len, data) \<in> set lk_blocks \<Longrightarrow> lk_truth (lk_bp off len) = Some data"
proof -
  have b: "lk_bp a x = lk_bp b y \<Longrightarrow> a = b" for a b x y by (simp add: lk_bp_def)
  show "(off, len, data) \<in> set lk_blocks \<Longrightarrow> lk_truth (lk_bp off len) = Some data"
    using b [of 0 1 2 1] b [of 0 1 4 0] b [of 0 1 5 0] b [of 2 1 4 0] b [of 2 1 5 0] b [of 4 0 5 0] b [of 2 1 0 1] b [of 4 0 0 1] b [of 5 0 0 1] b [of 4 0 2 1] b [of 5 0 2 1] b [of 5 0 4 0]
    by (auto simp: lk_truth_def lk_blocks_def)
qed

lemma lk_pool: "(off, len, data) \<in> set lk_blocks \<Longrightarrow> lk_content (lk_bp off len) = Some data"
proof -
  assume b: "(off, len, data) \<in> set lk_blocks"
  note s = lk_known [OF b] lk_sizes(1,2) [OF b] lk_there [OF b] lk_sizes(3) [OF b]
  let ?bp = "lk_bp off len"
  have dva: "blk_dva ?bp = [(1, off), (0, 0), (0, 0)]" by (simp add: lk_bp_def)
  have c: "dva_copy demo_one_disk demo_spa (1, off) = Some 0" "dva_copy demo_one_disk demo_spa (0, 0) = None"
    by (simp_all add: dva_copy_def demo_one_disk_def demo_spa_def demo_vdev_def DVA_GET_VDEV_def)
  have "serves (file_disk lk_imgs) (e_cksum lk_zenv ?bp) (BP_GET_PSIZE ?bp) (DVA_GET_OFFSET (1, off)) demo_one_disk 0"
    using s(1,2,4) by (intro serves_disk [where d = 0 and data = data]) (simp_all add: demo_one_disk_def demo_vdev_def lk_zenv_def file_env_def DVA_GET_OFFSET_def)
  then have "copy_serves lk_zenv (file_disk lk_imgs) demo_one_disk demo_spa ?bp (1, off)" by (simp add: copy_serves_def c)
  moreover have "tame demo_one_disk 0" by (rule tame_disk) (simp_all add: demo_one_disk_def demo_vdev_def)
  then have "copies_tame demo_one_disk demo_spa ?bp" using s(5) by (auto simp: copies_tame_def dva c DVA_GET_GANG_def)
  moreover have "raw_of lk_truth ?bp = Some data" "unpacked lk_zenv ?bp data = Some data" using s by (simp_all add: raw_of_def unpacked_def)
  moreover have "length data \<le> SPA_MAXBLOCKSIZE" by (rule lk_sizes(4) [OF b])
  ultimately show ?thesis unfolding files.content_def unfolding lk_zenv_def [symmetric] using s(2) dva by simp
qed

text \<open>The fields of the dnodes and the entries of the directories.\<close>

lemma lk_bytes_bp: "rd_blkptr (lk_bp_bytes off len) = lk_bp (ucast off) (ucast len)" if "len = 0 \<or> len = 1"
  using that by (auto simp: rd_blkptr_def lk_bp_def lk_bp_bytes_def fld_def)

lemma lk_dn_simps:
  "dn_bsize (lk_dn 1 maxblk nblk bps mode) = 512" "dn_bsize (lk_dn 2 maxblk nblk bps mode) = 1024" "dn_nlevels (lk_dn secs maxblk nblk bps mode) = 1"
  "dn_indblkshift (lk_dn secs maxblk nblk bps mode) = 14" "dn_maxblkid (lk_dn secs maxblk nblk bps mode) = ucast maxblk"
  by (simp_all add: dn_bsize_def dn_datablkszsec_def dn_nlevels_def dn_indblkshift_def dn_maxblkid_def fld_def lk_dn_def)

lemma lk_dn_bps:
  "length b0 = 128 \<Longrightarrow> bp_at (dn_blkptr (lk_dn secs maxblk nblk (b0 @ bs) mode)) 0 = Some (rd_blkptr b0)"
  "length b0 = 128 \<Longrightarrow> length b1 = 128 \<Longrightarrow> bp_at (dn_blkptr (lk_dn secs maxblk nblk (b0 @ b1 @ bs) mode)) 1 = Some (rd_blkptr b1)"
  by (simp_all add: bp_at_def dn_blkptr_def lk_dn_def SIZEOF_BLKPTR_def slice_def)

lemma length_lk_bp_bytes: "length (lk_bp_bytes off len) = 128"
  by (simp add: lk_bp_bytes_def)

text \<open>An object of one block.\<close>

lemma lk_object:
  assumes "(ucast off, ucast len, data) \<in> set lk_blocks" "len = 0 \<or> len = 1" "length data = 512"
  shows "obj_holds lk_content (lk_dn 1 0 1 (lk_bp_bytes off len) mode) data"
proof -
  have "bp_at (dn_blkptr (lk_dn 1 0 1 (lk_bp_bytes off len) mode)) 0 = Some (lk_bp (ucast off) (ucast len))"
    using lk_dn_bps(1) [OF length_lk_bp_bytes, of 1 0 1 off len "[]"] lk_bytes_bp [OF assms(2)] by simp
  then have "obj_block lk_content (lk_dn 1 0 1 (lk_bp_bytes off len) mode) 0 = Some data"
    using lk_pool [OF assms(1)] by (simp add: obj_block_def lk_dn_simps block_digit_def)
  then show ?thesis using assms(3) by (simp add: obj_holds_def lk_dn_simps)
qed

lemma lk_meta: "obj_holds lk_content (take SIZEOF_DNODE lk_os) (replicate 512 0 @ lk_master @ lk_root @ lk_file)"
proof -
  let ?dn = "lk_dn 2 1 2 (lk_bp_bytes 0 1 @ lk_bp_bytes 2 1) [0, 0]"
  have dn: "take SIZEOF_DNODE lk_os = ?dn" by (simp add: lk_os_def lk_dn_def length_lk_bp_bytes SIZEOF_DNODE_def)
  have bp: "bp_at (dn_blkptr ?dn) 0 = Some (lk_bp 0 1)" "bp_at (dn_blkptr ?dn) 1 = Some (lk_bp 2 1)"
    using lk_dn_bps(1) [OF length_lk_bp_bytes, of 2 1 2 0 1 "lk_bp_bytes 2 1" "[0, 0]"] lk_dn_bps(2) [OF length_lk_bp_bytes length_lk_bp_bytes, of 2 1 2 0 1 2 1 "[]" "[0, 0]"]
    by (simp_all add: lk_bytes_bp)
  have b: "(0, 1, replicate 512 0 @ lk_master) \<in> set lk_blocks" "(2, 1, lk_root @ lk_file) \<in> set lk_blocks" by (simp_all add: lk_blocks_def)
  have blk: "obj_block lk_content ?dn 0 = Some (replicate 512 0 @ lk_master)" "obj_block lk_content ?dn 1 = Some (lk_root @ lk_file)"
    using bp lk_pool [OF b(1)] lk_pool [OF b(2)] by (simp_all add: obj_block_def lk_dn_simps block_digit_def)
  have "bn = 0 \<or> bn = 1" if "bn \<le> 1" for bn :: u64 using that by (metis order_le_less word_less_1)
  then have "\<exists>d. obj_block lk_content ?dn bn = Some d \<and> 1024 \<le> length d \<and>
      take 1024 d = take 1024 (drop (unat bn * 1024) (replicate 512 0 @ lk_master @ lk_root @ lk_file))" if "bn \<le> 1" for bn
    using that blk lk_lengths(1-3) by (elim meta_allE [of _ bn] meta_impE disjE) simp_all
  then show ?thesis unfolding dn by (simp add: obj_holds_def lk_dn_simps lk_lengths)
qed

lemma lk_zap_entries:
  assumes "length nm \<le> 49" "0 \<notin> set nm" "nm \<noteq> []"
  shows "u64_in (lk_zap nm v) 0 = Some ZBT_MICRO" "mz_list (lk_zap nm v) [0..<7] = Some ((nm, ucast v) # replicate 6 ([], 0))"
proof -
  show "u64_in (lk_zap nm v) 0 = Some ZBT_MICRO" by (simp add: le_field_def slice_def lk_zap_def ZBT_MICRO_def)
  have z: "cstr (lk_zap nm v) (64 + 64 * i + 14) = Some []" "u64_in (lk_zap nm v) (64 + 64 * i) = Some 0" if "i \<in> {1, 2, 3, 4, 5, 6}" for i
    using that assms(1) by (auto simp: lk_zap_def cstr_def le_field_def slice_def)
  have "takeWhile (\<lambda>c. c \<noteq> 0) (nm @ replicate (434 - length nm) 0) = nm"
    using assms(2) by (subst takeWhile_append2) (auto simp: takeWhile_eq_Nil_iff)
  then have n: "cstr (lk_zap nm v) 78 = Some nm" "u64_in (lk_zap nm v) 64 = Some (ucast v)"
    using assms by (auto simp: lk_zap_def cstr_def le_field_def slice_def)
  have l: "[0..<7] = [0, 1, 2, 3, 4, 5, 6 :: nat]" by (simp add: upt_rec)
  show "mz_list (lk_zap nm v) [0..<7] = Some ((nm, ucast v) # replicate 6 ([], 0))"
    using z [of 1] z [of 2] z [of 3] z [of 4] z [of 5] z [of 6] n unfolding l by (simp add: numeral_eq_Suc)
qed

lemma lk_zap_dir:
  assumes "(ucast off, 0, lk_zap nm v) \<in> set lk_blocks" "length nm \<le> 49" "0 \<notin> set nm" "nm \<noteq> []"
  shows "zap_dir lk_content (lk_dn 1 0 1 (lk_bp_bytes off 0) mode) ((nm, ucast v) # replicate 6 ([], 0))"
proof -
  let ?dn = "lk_dn 1 0 1 (lk_bp_bytes off 0) mode"
  have l: "length (lk_zap nm v) = 512" using assms(2) by (intro lk_lengths(4)) simp
  have n: "obj_bsize ?dn = 512" "mz_chunks ?dn = 7" by (simp_all add: obj_bsize_dn mz_chunks_def lk_dn_simps)
  have "obj_holds lk_content ?dn (lk_zap nm v)" using lk_object [of off 0 "lk_zap nm v"] assms(1) l by simp
  then show ?thesis unfolding zap_dir_def mz_chunks_eq n using lk_zap_entries [OF assms(2-4), of v] l by (auto simp: SPA_MAXBLOCKSIZE_def)
qed

abbreviation lk_dnodes :: "byte list" where
  "lk_dnodes \<equiv> replicate 512 0 @ lk_master @ lk_root @ lk_file"

definition lk_entries :: "u64 \<Rightarrow> (byte list \<times> u64) list option" where
  "lk_entries n = (if n = 2 then Some (([107], 3) # replicate 6 ([], 0)) else None)"

lemma lk_dnode_of: "dnode_of lk_dnodes 1 = lk_master" "dnode_of lk_dnodes 2 = lk_root" "dnode_of lk_dnodes 3 = lk_file"
  by (simp_all add: dnode_of_def SIZEOF_DNODE_def lk_lengths)

lemma lk_in_meta: "in_meta lk_dnodes 1" "in_meta lk_dnodes 2" "in_meta lk_dnodes 3"
  by (simp_all add: in_meta_def SIZEOF_DNODE_def lk_lengths)

lemma lk_stat: "\<exists>st. stat_of lk_root = Some st \<and> st_mode st = 0x41ed" "\<exists>st. stat_of lk_file = Some st \<and> st_mode st = 0x81a4"
  by (simp_all add: stat_of_def dn_bonustype_def dn_bonus_def lk_root_def lk_file_def lk_dn_def fld_def DMU_OT_SA_def length_lk_bp_bytes Let_def)

lemma lk_tree: "dir_tree lk_content lk_dnodes lk_entries {2, 3}"
proof -
  have "(ucast (5 :: byte), 0, lk_zap [107] 3) \<in> set lk_blocks" by (simp add: lk_blocks_def)
  then have "zap_dir lk_content lk_root (([107], 3) # replicate 6 ([], 0))" using lk_zap_dir [of 5 "[107]" 3] by (simp add: lk_root_def)
  moreover obtain st2 where "stat_of lk_root = Some st2" "st_mode st2 = 0x41ed" using lk_stat(1) by blast
  moreover obtain st3 where "stat_of lk_file = Some st3" "st_mode st3 = 0x81a4" using lk_stat(2) by blast
  ultimately show ?thesis
    by (simp add: dir_tree_def lk_dnode_of lk_in_meta lk_entries_def S_ISDIR_def S_ISLNK_def ZFS_DIRENT_OBJ_def)
qed

definition lk_locs :: zlocs where
  "lk_locs = \<lparr>l_mos = 0, l_os = 1, l_dir = 2, l_child = 3, l_propdir = 4, l_dn = 5, l_junk = replicate 512 170, l_comp = []\<rparr>"

text \<open>The path /k leads to the file, /k/k through it, and /x nowhere.\<close>

theorem zfs_lookup_resolves_witness:
  "(\<exists>z'. zfs_lookup lk_zenv [] lk_locs demo_spa \<lparr>zm_objset = lk_os, zm_rootobj = 7\<rparr> [] [47, 107] (demo_zfs demo_one_disk) = Some (Inr lk_file, z')) \<and>
   (\<exists>z'. zfs_lookup lk_zenv [] lk_locs demo_spa \<lparr>zm_objset = lk_os, zm_rootobj = 7\<rparr> [] [47, 107, 47, 107] (demo_zfs demo_one_disk) = Some (Inl ENOTDIR, z')) \<and>
   (\<exists>z'. zfs_lookup lk_zenv [] lk_locs demo_spa \<lparr>zm_objset = lk_os, zm_rootobj = 7\<rparr> [] [47, 120] (demo_zfs demo_one_disk) = Some (Inl ENOENT, z'))"
proof -
  let ?mt = "\<lparr>zm_objset = lk_os, zm_rootobj = 7\<rparr>"
  have "(ucast (4 :: byte), 0, lk_zap (bytes_of ''ROOT'') 2) \<in> set lk_blocks" by (simp add: lk_blocks_def)
  then have m: "zap_dir lk_content (dnode_of lk_dnodes 1) ((bytes_of ''ROOT'', 2) # replicate 6 ([], 0))"
    unfolding lk_dnode_of unfolding lk_master_def using lk_zap_dir [of 4 "bytes_of ''ROOT''" 2] by simp
  have ty: "os_type (zm_objset ?mt) = DMU_OST_ZFS"
    by (simp add: os_type_def fld_def lk_os_def lk_dn_def length_lk_bp_bytes DMU_OST_ZFS_def)
  have z: "z_good (files.zok demo_one_disk) (demo_zfs demo_one_disk)" "cache_ok lk_content 1 dn (demo_zfs demo_one_disk)" for dn
    by (simp_all add: z_good_def files.zok_def demo_zfs_simps cache_ok_def SPA_MAXBLOCKSIZE_def TEMP_SIZE_def) (simp add: demo_zfs_def zfs_init_def SPA_MAXBLOCKSIZE_def)
  have lk: "\<exists>z'. zfs_lookup lk_zenv [] lk_locs demo_spa ?mt [] path (demo_zfs demo_one_disk) =
      Some (map_sum id (dnode_of lk_dnodes) (resolve lk_entries 2 (path_elems path)), z')" if "\<forall>e\<in>set (path_elems path). length e < 256" for path
    using zfs_lookup_resolves [OF files.pool.block_pool_axioms ty _ lk_in_meta(1) m _ lk_tree, of 2 lk_locs _ path "[]" "[]"] lk_meta z that
    by (simp add: lk_zenv_def lk_locs_def SIZEOF_DNODE_def) blast
  have p: "path_elems [47, 107] = [[107]]" "path_elems [47, 107, 47, 107] = [[107], [107]]" "path_elems [47, 120] = [[120]]"
    by (simp_all add: path_elems.simps)
  have none: "map_of (replicate 6 ([], 0 :: u64)) [120 :: byte] = None" by (simp add: map_of_eq_None_iff)
  show ?thesis using lk [of "[47, 107]"] lk [of "[47, 107, 47, 107]"] lk [of "[47, 120]"]
    unfolding p by (simp add: lk_entries_def ZFS_DIRENT_OBJ_def lk_dnode_of none)
qed

section \<open>A second link\<close>

text \<open>
  \<^verbatim>\<open>strcpy\<close> to a later place of the same array overwrites the terminator that it looks for: when the rest of the path is in
  \<^verbatim>\<open>path\<close>, after a first symbolic link, and starts before the end of the second link, the copy runs out of the array.
\<close>

lemma path_strcpy_overlap:
  assumes "src < dst" "\<forall>i. src \<le> i \<and> i < dst \<longrightarrow> path ! i \<noteq> 0" "dst \<le> length path"
  shows "path_strcpy path dst src = None"
  using assms
proof (induction path dst src rule: path_strcpy.induct)
  case (1 path dst src)
  show ?case
  proof (cases "dst < length path")
    case True
    have "path ! src \<noteq> 0" using "1.prems" by simp
    moreover have "\<forall>i. Suc src \<le> i \<and> i < Suc dst \<longrightarrow> path[dst := path ! src] ! i \<noteq> 0"
      using "1.prems" True by (auto simp: nth_list_update less_Suc_eq)
    ultimately show ?thesis using "1.IH" "1.prems" True by (subst path_strcpy.simps) auto
  qed (simp add: path_strcpy.simps)
qed

end
