(* ===== verification/ZfsUber.thy ===== *)
theory ZfsUber
  imports ZfsIoFacts
begin

text \<open>
  The choice of the uberblock: \<^verbatim>\<open>vdev_probe\<close> reads the ring of uberblocks of the device and keeps the newest one that is whole.
\<close>

section \<open>Bit fields\<close>

lemma bits_set_same: "lo + len \<le> 64 \<Longrightarrow> v < 2 ^ len \<Longrightarrow> bits lo len (set_bits lo len v x) = v"
proof -
  assume l: "lo + len \<le> 64" and v: "v < 2 ^ len"
  have "take_bit len (drop_bit lo (set_bits lo len v x)) = take_bit len (word_of_nat v)"
    unfolding set_bits_def by (rule bit_eqI) (use l in \<open>auto simp: bit_simps\<close>)
  moreover have "unat (take_bit len (word_of_nat v :: u64)) = v"
  proof -
    have "len \<le> 64" using l by simp
    then have "(2 :: nat) ^ len \<le> 2 ^ 64" by (intro power_increasing) auto
    then have "unat (word_of_nat v :: u64) = v" using v by (simp add: unat_of_nat)
    then show ?thesis using v by (simp add: unsigned_take_bit_eq take_bit_nat_eq_self)
  qed
  ultimately show ?thesis by (simp add: bits_def)
qed

lemma bits_set_other: "lo + len \<le> lo' \<or> lo' + len' \<le> lo \<Longrightarrow> bits lo len (set_bits lo' len' v x) = bits lo len x"
proof -
  assume d: "lo + len \<le> lo' \<or> lo' + len' \<le> lo"
  have "take_bit len (drop_bit lo (set_bits lo' len' v x)) = take_bit len (drop_bit lo x)"
    unfolding set_bits_def by (rule bit_eqI) (use d in \<open>auto simp: bit_simps dest: bit_imp_le_length\<close>)
  then show ?thesis by (simp add: bits_def)
qed

lemma label_psize:
  assumes "512 dvd n" "0 < n" "n \<le> 2 ^ 25"
  shows "BP_GET_PSIZE (label_bp off n) = n"
proof -
  obtain k where k: "n = 512 * k" using assms(1) by blast
  then have "n div 512 - 1 < 2 ^ 16" "0 < k" using assms(2,3) by auto
  then show ?thesis
    by (simp add: label_bp_def Let_def BP_GET_PSIZE_def BP_SET_COMPRESS_def BP_SET_CHECKSUM_def BP_SET_PSIZE_def bits_set_same bits_set_other k)
qed

section \<open>The newest uberblock\<close>

definition ub_le :: "uberblock \<Rightarrow> uberblock \<Rightarrow> bool" where
  "ub_le a b \<longleftrightarrow> ub_txg a < ub_txg b \<or> ub_txg a = ub_txg b \<and> ub_timestamp a \<le> ub_timestamp b"

definition ub_valid :: "u64 \<Rightarrow> uberblock \<Rightarrow> bool" where
  "ub_valid txg ub \<longleftrightarrow> ub_magic ub = UBERBLOCK_MAGIC \<and> txg \<le> ub_txg ub"

lemma ub_le_refl: "ub_le a a"
  by (simp add: ub_le_def)

lemma ub_le_trans: "ub_le a b \<Longrightarrow> ub_le b c \<Longrightarrow> ub_le a c"
  by (auto simp: ub_le_def)

lemma newer_ge: "ub_le old (newer_uberblock txg up old)" "ub_valid txg up \<Longrightarrow> ub_le up (newer_uberblock txg up old)"
  by (auto simp: newer_uberblock_def ub_le_def ub_valid_def)

lemma newer_cases: "newer_uberblock txg up old = old \<or> newer_uberblock txg up old = up \<and> ub_valid txg up"
  by (auto simp: newer_uberblock_def ub_valid_def)

definition newest :: "u64 \<Rightarrow> uberblock option list \<Rightarrow> uberblock \<Rightarrow> uberblock" where
  "newest txg us ub = fold (\<lambda>u ub. case u of None \<Rightarrow> ub | Some up \<Rightarrow> newer_uberblock txg up ub) us ub"

lemma newest_step: "newest txg (u # us) ub = newest txg us (case u of None \<Rightarrow> ub | Some up \<Rightarrow> newer_uberblock txg up ub)"
  by (simp add: newest_def)

lemma newest_ge: "ub_le ub (newest txg us ub)"
proof (induction us arbitrary: ub)
  case (Cons u us)
  then show ?case using newer_ge(1) ub_le_trans by (cases u) (fastforce simp: newest_step)+
qed (simp add: newest_def ub_le_refl)

lemma newest_all: "Some up \<in> set us \<Longrightarrow> ub_valid txg up \<Longrightarrow> ub_le up (newest txg us ub)"
proof (induction us arbitrary: ub)
  case (Cons u us)
  then show ?case using newer_ge(2) newest_ge ub_le_trans by (cases u) (fastforce simp: newest_step)+
qed simp

lemma newest_from: "newest txg us ub = ub \<or> Some (newest txg us ub) \<in> set us \<and> ub_valid txg (newest txg us ub)"
proof (induction us arbitrary: ub)
  case (Cons u us)
  show ?case
  proof (cases u)
    case None
    then show ?thesis using Cons [of ub] by (auto simp: newest_step)
  next
    case (Some up)
    then show ?thesis using Cons [of "newer_uberblock txg up ub"] newer_cases [of txg up ub] by (auto simp: newest_step)
  qed
qed (simp add: newest_def)

text \<open>What a slot of the ring holds when it can be read and has its checksum.\<close>

definition slot_off :: "nat \<Rightarrow> nat \<Rightarrow> u64" where
  "slot_off shift i = word_of_nat (UBERBLOCK_OFFSET + i * 2 ^ shift)"

definition slot_ub :: "('d, 's) zfs_env \<Rightarrow> ('d \<Rightarrow> u64 \<Rightarrow> nat \<Rightarrow> byte list option) \<Rightarrow> 'd \<Rightarrow> nat \<Rightarrow> nat \<Rightarrow> uberblock option" where
  "slot_ub E disk d shift i =
     (case disk d (slot_off shift i) (2 ^ shift) of
        None \<Rightarrow> None
      | Some b \<Rightarrow> if e_cksum E (label_bp (slot_off shift i) (2 ^ shift)) b then None else Some (rd_uberblock b))"

context steady_disks
begin

lemma uber_scan_newest:
  assumes "v_phys_read vd = Some d" "9 \<le> shift" "shift \<le> 25"
  shows "ok s \<Longrightarrow> length upbuf = 2 ^ shift \<Longrightarrow>
    \<exists>b s'. uber_scan E vd shift txg is upbuf ub s = Some (b, newest txg (map (slot_ub E disk d shift) is) ub, s') \<and> ok s' \<and> length b = 2 ^ shift"
proof (induction "is" arbitrary: upbuf ub s)
  case Nil
  then show ?case by (simp add: newest_def)
next
  case (Cons i "is")
  let ?bp = "label_bp (slot_off shift i) (2 ^ shift)"
  have "(512 :: nat) dvd 2 ^ shift" using assms(2) le_imp_power_dvd [of 9 shift "2 :: nat"] by simp
  moreover have "(2 :: nat) ^ shift \<le> 2 ^ 25" using assms(3) by (intro power_increasing) auto
  ultimately have p: "BP_GET_PSIZE ?bp = 2 ^ shift" by (intro label_psize) auto
  obtain rc data s1 where r: "e_read E d (slot_off shift i) (2 ^ shift) s = (rc, data, s1)" "ok s1" "length data \<le> 2 ^ shift"
    "disk d (slot_off shift i) (2 ^ shift) = None \<and> rc \<noteq> 0 \<or> disk d (slot_off shift i) (2 ^ shift) = Some data \<and> rc = 0 \<and> length data = 2 ^ shift"
  proof (cases "disk d (slot_off shift i) (2 ^ shift)")
    case None
    then show ?thesis using read_bad [OF Cons.prems(1) None] that by blast
  next
    case (Some data)
    then show ?thesis using read_ok [OF Cons.prems(1) Some] that by force
  qed
  have put: "rc = 0 \<Longrightarrow> put upbuf 0 data = data" using r(4) Cons.prems(2) by (auto simp: put_def)
  let ?rc = "if rc \<noteq> 0 then rc else if e_cksum E ?bp data then EIO else 0"
  have v: "vdev_read_phys E vd (Some ?bp) upbuf (slot_off shift i) 0 s = Some (?rc, put upbuf 0 data, s1)"
    using assms(1) r(1,3,4) Cons.prems(2) p put by (auto simp: vdev_read_phys_def)
  have ub: "(if ?rc \<noteq> 0 then ub else newer_uberblock txg (rd_uberblock (put upbuf 0 data)) ub) =
      (case slot_ub E disk d shift i of None \<Rightarrow> ub | Some up \<Rightarrow> newer_uberblock txg up ub)"
    using r(4) put by (auto simp: slot_ub_def EIO_def)
  have l: "length (put upbuf 0 data) = 2 ^ shift" using r(3) Cons.prems(2) by simp
  have step: "uber_scan E vd shift txg (i # is) upbuf ub s =
      uber_scan E vd shift txg is (put upbuf 0 data) (case slot_ub E disk d shift i of None \<Rightarrow> ub | Some up \<Rightarrow> newer_uberblock txg up ub) s1"
    unfolding uber_scan.simps slot_off_def [symmetric] Let_def v ub [symmetric] by simp
  show ?case
    using Cons.IH [OF r(2) l, of "case slot_ub E disk d shift i of None \<Rightarrow> ub | Some up \<Rightarrow> newer_uberblock txg up ub"]
    unfolding step by (simp add: newest_step)
qed

end

text \<open>
  C39: the newest whole uberblock is taken.  With a device that answers steadily, the scan of the ring ends with an uberblock of the
  pool that is at least as new, by transaction group and then by time, as the one known before and as every uberblock in the ring
  that can be read, has its checksum and its magic number and is not older than the label; and it is one of these.
\<close>

theorem newest_uberblock_taken:
  assumes "steady_disks E disk ok" "v_phys_read (zfs_vdevs z ! vi) = Some d" "i < length (zfs_pools z)" "ok (z_dev z)"
    and "shift = uberblock_shift (zfs_vdevs z) (zfs_vdevs z ! vi)" "shift \<le> 17" "length (zfs_temp_buf z) = TEMP_SIZE"
    and "zfs_temp_ptr z + SPA_MAXBLOCKSIZE \<le> TEMP_SIZE"
    and "old = spa_uberblock (zfs_pools z ! i)" "slots = slot_ub E disk d shift ` {0..<UBERBLOCK_RING div 2 ^ shift}"
  shows "\<exists>z' ub. find_uberblock E i vi z = Some z' \<and> spa_uberblock (zfs_pools z' ! i) = ub \<and> ub_le old ub \<and>
    (\<forall>up. Some up \<in> slots \<and> ub_valid (spa_txg (zfs_pools z ! i)) up \<longrightarrow> ub_le up ub) \<and>
    (ub = old \<or> Some ub \<in> slots \<and> ub_valid (spa_txg (zfs_pools z ! i)) ub)"
proof -
  let ?txg = "spa_txg (zfs_pools z ! i)" and ?n = "UBERBLOCK_RING div 2 ^ shift"
  let ?us = "map (slot_ub E disk d shift) [0..<?n]"
  have s10: "10 \<le> shift" using assms(5) by (simp add: uberblock_shift_def)
  have two: "(2 :: nat) ^ shift \<le> SPA_MAXBLOCKSIZE" using power_increasing [OF assms(6), of "2 :: nat"] by (simp add: SPA_MAXBLOCKSIZE_def)
  let ?z1 = "z\<lparr>zfs_temp_ptr := zfs_temp_ptr z + 2 ^ shift\<rparr>"
  have al: "zfs_alloc (2 ^ shift) z = Some (zfs_temp_ptr z, ?z1)" using two assms(8) by (simp add: zfs_alloc_def)
  let ?buf = "take (2 ^ shift) (drop (zfs_temp_ptr z) (zfs_temp_buf z))"
  have sl: "slice (zfs_temp_buf ?z1) (zfs_temp_ptr z) (2 ^ shift) = Some ?buf" "length ?buf = 2 ^ shift" using two assms(7,8) by simp_all
  obtain b s' where sc: "uber_scan E (zfs_vdevs z ! vi) shift ?txg [0..<?n] ?buf old (z_dev z) = Some (b, newest ?txg ?us old, s')" "length b = 2 ^ shift"
    using steady_disks.uber_scan_newest [OF assms(1,2) _ _ assms(4) sl(2), of ?txg "[0..<?n]" old] s10 assms(6) by auto
  have "\<exists>z'. find_uberblock E i vi z = Some z' \<and> spa_uberblock (zfs_pools z' ! i) = newest ?txg ?us old"
    using al sl(1) sc two assms(3,7,8)
    by (simp add: find_uberblock_def Let_def assms(5) [symmetric] assms(9) [symmetric] zfs_free_def set_spa_def)
  moreover have "ub_le up (newest ?txg ?us old)" if "Some up \<in> slots" "ub_valid ?txg up" for up
    using newest_all [of up ?us ?txg old] that assms(10) by auto
  moreover have "newest ?txg ?us old = old \<or> Some (newest ?txg ?us old) \<in> slots \<and> ub_valid ?txg (newest ?txg ?us old)"
    using newest_from [of ?txg ?us old] assms(10) by fastforce
  ultimately show ?thesis using newest_ge [of old ?txg ?us] by blast
qed

definition demo_slot :: "byte list" where
  "demo_slot = [12, 177, 186, 0, 0, 0, 0, 0, 0, 0, 0, 0, 0, 0, 0, 0, 5, 0, 0, 0, 0, 0, 0, 0, 0, 0, 0, 0, 0, 0, 0, 0, 9] @ replicate 991 0"

definition demo_ring :: "nat \<Rightarrow> byte list" where
  "demo_ring d = replicate 131072 0 @ demo_slot @ replicate 130048 0"

definition demo_label_truth :: "blkptr \<Rightarrow> byte list option" where
  "demo_label_truth bp = (if bp = label_bp (slot_off 10 0) 1024 then Some demo_slot else None)"

definition demo_probe :: "(nat, nat \<Rightarrow> int) zfs" where
  "demo_probe = (demo_zfs [demo_vdev Vdev_disk_read [] (Some 0)])\<lparr>zfs_pools := [demo_spa]\<rparr>"

definition demo_ring_env :: "(nat, nat \<Rightarrow> int) zfs_env" where
  "demo_ring_env = file_env demo_ring demo_label_truth (\<lambda>c src n. (1, [])) (\<lambda>salt name. 0)"

lemma demo_slot_ub: "slot_ub demo_ring_env (file_disk demo_ring) 0 10 0 = Some (rd_uberblock demo_slot)"
proof -
  have "slot_off 10 0 = 131072" by (simp add: slot_off_def UBERBLOCK_OFFSET_def)
  moreover have "file_disk demo_ring 0 131072 1024 = Some demo_slot" by (simp add: file_disk_def demo_ring_def demo_slot_def)
  ultimately show ?thesis by (simp add: slot_ub_def demo_ring_env_def file_env_def demo_label_truth_def)
qed

lemma demo_slot_fields: "ub_magic (rd_uberblock demo_slot) = UBERBLOCK_MAGIC" "ub_txg (rd_uberblock demo_slot) = 5"
  by (simp_all add: rd_uberblock_def fld_def demo_slot_def UBERBLOCK_MAGIC_def)

theorem newest_uberblock_taken_witness:
  "\<exists>z' ub. find_uberblock demo_ring_env 0 0 demo_probe = Some z' \<and> spa_uberblock (zfs_pools z' ! 0) = ub \<and> ub_le (rd_uberblock demo_slot) ub"
proof -
  have sh: "uberblock_shift (zfs_vdevs demo_probe) (zfs_vdevs demo_probe ! 0) = 10"
    by (simp add: uberblock_shift_def demo_probe_def demo_zfs_simps demo_vdev_def)
  have sd: "steady_disks demo_ring_env (file_disk demo_ring) (\<lambda>_. True)" unfolding demo_ring_env_def by (rule files.steady_disks_axioms)
  let ?slots = "slot_ub demo_ring_env (file_disk demo_ring) 0 10 ` {0..<UBERBLOCK_RING div 2 ^ 10}"
  have mem: "Some (rd_uberblock demo_slot) \<in> ?slots" using demo_slot_ub by (auto simp: UBERBLOCK_RING_def intro!: rev_image_eqI [of 0])
  have val: "ub_valid (spa_txg (zfs_pools demo_probe ! 0)) (rd_uberblock demo_slot)"
    by (simp add: ub_valid_def demo_slot_fields demo_probe_def demo_spa_def)
  have "\<exists>z' ub. find_uberblock demo_ring_env 0 0 demo_probe = Some z' \<and> spa_uberblock (zfs_pools z' ! 0) = ub \<and>
      ub_le (spa_uberblock (zfs_pools demo_probe ! 0)) ub \<and>
      (\<forall>up. Some up \<in> ?slots \<and> ub_valid (spa_txg (zfs_pools demo_probe ! 0)) up \<longrightarrow> ub_le up ub) \<and>
      (ub = spa_uberblock (zfs_pools demo_probe ! 0) \<or> Some ub \<in> ?slots \<and> ub_valid (spa_txg (zfs_pools demo_probe ! 0)) ub)"
    by (rule newest_uberblock_taken [OF sd, where d = 0 and shift = 10])
      (simp_all add: sh, simp_all add: demo_probe_def demo_zfs_simps demo_vdev_def SPA_MAXBLOCKSIZE_def TEMP_SIZE_def)
  then show ?thesis using mem val by blast
qed

end
