(* ===== verification/Spec2Isabelle.thy ===== *)
theory Spec2Isabelle
  imports Crc32 Util Bcache GptbootLoad Disk ElfSymbols ZfsLookupFacts ZfsUber
begin

text \<open>
  The boot programs of FreeBSD 9.1 as PC-BSD keeps them under \<^verbatim>\<open>boot/\<close>.  A PC with a GUID partition table starts
  \<^verbatim>\<open>gptboot\<close>, which reads sectors through the BIOS, selects a partition, reads its UFS and enters the next stage,
  \<^verbatim>\<open>loader\<close>.  The loader opens devices through its block cache and its partition code, takes commands, collects the
  kernel and its modules with their dependencies in memory, and hands them over with an environment and metadata.

  \<^bold>\<open>Theories.\<close>  \<open>Prelude\<close> has the vocabulary: machine integers at the width of the source (\<open>byte\<close>, \<open>u16\<close>, \<open>u32\<close>,
  \<open>u64\<close>), byte memory with checked access (\<open>rd\<close>, \<open>wr\<close>, \<open>slice\<close>, \<open>store\<close>), little-endian fields, and lemmas on them.
  \<open>Stand\<close> has the functions of the C library that are used.  Each other theory models the files that its opening text
  names; a theory \<open>XFacts\<close>, \<open>XTotal\<close> holds theorems on the model of the theory it imports.

  The boot blocks:
  \<^item> \<open>Crc32\<close>: \<^verbatim>\<open>common/crc32.c\<close>.  The table-driven function is the reflected CRC-32 bit by bit.
  \<^item> \<open>Util\<close>: \<^verbatim>\<open>common/util.c\<close>, the freestanding memory, string and print routines.
  \<^item> \<open>Drv\<close>: \<^verbatim>\<open>i386/common/drv.c\<close>, sectors through EDD packets; the BIOS is an argument.  The locale \<open>sector_drive\<close> is
    the contract of reads and writes.
  \<^item> \<open>Gpt\<close>: \<^verbatim>\<open>common/gpt.c\<close> over any drive with that contract (\<open>gpt_drive\<close>): the choice of the partition, the one-shot
    protocol and its bound, the repair of old failures, and that the marks are read back after a reboot.
  \<^item> \<open>Ufsread\<close>, \<open>UfsFacts\<close>, \<open>UfsDir\<close>: \<^verbatim>\<open>common/ufsread.c\<close> with its caches as state.  Over any \<open>block_reader\<close>, a drive with a
    count of its failed reads, \<^verbatim>\<open>fsread\<close> delivers the file and \<^verbatim>\<open>lookup\<close> the inode unless a read fails during the call; two
    ways in which damaged file systems defeat it.
  \<^item> \<open>Console\<close>: \<^verbatim>\<open>i386/common/cons.c\<close>, keys and time as streams.
  \<^item> \<open>Gptboot\<close>, \<open>GptbootParse\<close>, \<open>GptbootFacts\<close>, \<open>GptbootLoad\<close>: \<^verbatim>\<open>i386/gptboot/gptboot.c\<close>, the composition of all of
    these: configuration, command line, and the loading of an image into memory.

  The loader:
  \<^item> \<open>Blockdev\<close>, \<open>Bcache\<close>: the contract of a block device with the memory disk of \<^verbatim>\<open>common/md.c\<close> as one, and the cache
    \<^verbatim>\<open>common/bcache.c\<close> over any of them: along every run of requests the reads and the writes are those of the device.
  \<^item> \<open>Disk\<close>: \<^verbatim>\<open>common/disk.c\<close>, slices and partitions, and the driver \<^verbatim>\<open>userboot_disk.c\<close>.
  \<^item> \<open>Devicename\<close>: \<^verbatim>\<open>devicename.c\<close> of the i386 loader and of userboot; the locale \<open>device_names\<close> proves once for
    both that printed names are read back.
  \<^item> \<open>Interp\<close>: the splitting of command lines with quotes, escapes and variables.
  \<^item> \<open>Misc\<close>: \<^verbatim>\<open>common/misc.c\<close> and \<^verbatim>\<open>i386_copy.c\<close>; the locale \<open>kernel_store\<close> is the contract of \<^verbatim>\<open>arch_copyin\<close>.
  \<^item> \<open>Module\<close>, \<open>ModuleFacts\<close>, \<open>HintsFacts\<close>, \<open>LoadFacts\<close>, \<open>LoadTotal\<close>: \<^verbatim>\<open>common/module.c\<close>: files, modules, metadata,
    the search path and its hints; loading with dependencies ends, and it is all or nothing.
  \<^item> \<open>LoadElf\<close>, \<open>LoadElfFacts\<close>, \<open>ElfSymbols\<close>: \<^verbatim>\<open>common/load_elf.c\<close> and \<^verbatim>\<open>common/reloc_elf.c\<close> for 32-bit and 64-bit
    images: a well-formed kernel read through any \<open>open_image\<close> stands in memory as its headers say, with its symbols behind
    it; symbols are found along the hash chains, and the metadata of a module become what \<open>Module\<close> reads.
  \<^item> \<open>Boot\<close>: \<^verbatim>\<open>common/boot.c\<close>: the commands that boot, the choice of the kernel, the root file system of \<^verbatim>\<open>/etc/fstab\<close>.
  \<^item> \<open>Bootinfo\<close>: \<^verbatim>\<open>bootinfo.c\<close>, \<^verbatim>\<open>bootinfo32.c\<close>, \<^verbatim>\<open>bootinfo64.c\<close>: the flags, and the layout of what the kernel is given.

  The ZFS reader, \<^verbatim>\<open>zfs/zfsimpl.c\<close>, which the loader and the ZFS boot blocks include:
  \<^item> \<open>ZfsNvlist\<close>: the encoded name-value lists of the labels and the search in them.
  \<^item> \<open>ZfsPool\<close>, \<open>ZfsUber\<close>: the tree of devices, the pools, \<^verbatim>\<open>vdev_probe\<close>; the newest uberblock is taken (\<open>steady_disks\<close> is the
    contract of the physical devices, met by \<^verbatim>\<open>vdev_read\<close> of \<^verbatim>\<open>zfs/zfs.c\<close> over files).
  \<^item> \<open>ZfsIo\<close>, \<open>ZfsIoFacts\<close>: \<^verbatim>\<open>zio_read\<close>: what it delivers has the checksum, and one good copy is enough (\<open>zfs_store\<close>, a pool whose
    checksums tell blocks apart).
  \<^item> \<open>ZfsDnode\<close>: \<^verbatim>\<open>dnode_read\<close> over any block layer with the contract \<open>block_pool\<close>, of which a \<open>zfs_store\<close> is one (a \<^theory_text>\<open>sublocale\<close>); the
    cache after an error.
  \<^item> \<open>ZfsZap\<close>, \<open>ZfsLookup\<close>, \<open>ZfsLookupFacts\<close>: directories, datasets, mounting, attributes and paths; paths are resolved as in the
    tree of directories.

  \<^bold>\<open>Conventions.\<close>  Static variables and structures are records that are passed and returned.  Chains of nodes are lists.
  A result of type \<^verbatim>\<open>option\<close> is \<^term>\<open>None\<close> for a fault, which is an access outside an object or through a null
  pointer, and, where a loop is a \<^theory_text>\<open>partial_function\<close>, for a run that does not end; error numbers are values.  So a
  theorem of the form \<open>\<exists>y. f x = Some y \<and> \<dots>\<close> says that the code returns without leaving its objects.  Code outside the
  repository (BIOS, clock, \<^verbatim>\<open>malloc\<close>, file system switch) is an argument or a record of functions; its documented
  behaviour is a named hypothesis with an instance in the witnesses.  Layouts and numbers of system headers are written
  out at their values, or, for the superblock and the inodes, are an argument; the layout of ZFS is that of its
  specification.  Times, disk addresses of 64 bits and numbers of partitions are unbounded integers, and
  \<^verbatim>\<open>malloc\<close> does not fail where the code does not look at its result (\<^verbatim>\<open>disk_readslicetab\<close>, \<^verbatim>\<open>disk_readgpt\<close>, \<^verbatim>\<open>parse\<close>, \<^verbatim>\<open>zfs_init\<close>).  Text that only goes to the console is
  left out, except where output is what a routine is for.

  \<^bold>\<open>Bounds.\<close>  The chain of extended partitions is followed with a fuel of 33 steps: each but the last adds an entry to a
  table of 32, so \<open>slicetab_bounded\<close> holds without a hypothesis.  Loading modules has a nesting depth as argument;
  \<open>loading_returns\<close> gives a depth that suffices for every dependency graph.  All other recursions are on lists, on
  decreasing measures, or partial functions whose termination is a theorem where it holds.

  \<^bold>\<open>Not modelled.\<close>  The listings and the status output of the ZFS reader and the file operations of \<^verbatim>\<open>zfs/zfs.c\<close>; checksums,
  decompression, RAID-Z and the ZAP hash, which are not in the repository, are arguments.  The relocatable modules of
  \<^verbatim>\<open>load_elf_obj.c\<close>, which the i386 loader has no use for, and the remaining commands of \<^verbatim>\<open>common/\<close>, which print or call what
  is modelled.  The Forth interpreter under \<^verbatim>\<open>ficl/\<close> is third-party code.  The drivers for BIOS disks, EFI, Open Firmware, U-Boot and the embedded boards are firmware calls and register access.  The
  graphical \<^verbatim>\<open>pc-zmanager\<close> is a Qt program.
\<close>

section \<open>Properties across components\<close>

text \<open>
  C10: the arguments that the command line parser makes of a line of plain words are put back into
  that line by \<^verbatim>\<open>unargv\<close>: parsing the string that \<^verbatim>\<open>unargv\<close> builds for a file's arguments gives the
  arguments again.
\<close>

theorem unargv_parse_roundtrip:
  assumes "alloc_ok alloc" "\<forall>k. alloc k \<noteq> None" "ws \<noteq> []" "list_all word_ok ws" "length ws < MAXARGS"
  shows "\<exists>cp line. unargv alloc ws = Some (Some cp) \<and> cstr cp 0 = Some line \<and> Interp.parse env line = Some (0, ws)"
proof -
  obtain b where b: "alloc (sum_list (map (\<lambda>a. length a + 2) ws)) = Some b" using assms(2) by blast
  have "\<forall>w \<in> set ws. 0 \<notin> set w" using assms(4) word_ok_props by (auto simp: list_all_iff)
  with unargv_joins [OF assms(1) b assms(3)] parse_join [OF assms(3,4), of env] assms(5) show ?thesis by auto
qed

theorem unargv_parse_roundtrip_witness:
  "\<exists>cp line. unargv (\<lambda>n. Some (replicate n 170)) [[107], [45, 118]] = Some (Some cp) \<and> cstr cp 0 = Some line \<and>
    Interp.parse (\<lambda>_. None) line = Some (0, [[107], [45, 118]])"
  by (rule unargv_parse_roundtrip)
     (simp_all add: alloc_ok_def word_ok_def plain_def isspace_def isquote_def PARSE_BUFSIZE_def MAXARGS_def)

end
